(* ===== verification/Prelude.thy ===== *)
theory Prelude
  imports Main "HOL-Library.AList" "HOL-Library.Word"
begin

text \<open>
  What every component of the model shares: the machine integers, the ways a
  run of the program can stop, the two hash containers of the C++ standard
  library, and the rules about them that the component proofs use.

  \<^item> \<open>u64\<close> is \<open>uint64_t\<close>; arithmetic on it wraps as in the code.
  \<^item> \<open>fault\<close> lists how a call fails to return. \<open>ASSERT\<close>, \<open>NOT_REACHABLE\<close> and
    \<open>Panic\<close> (\<open>src/lib/assert.h\<close>, \<open>src/lib/message.h\<close>) stop the process, as does an
    exception nobody catches (\<open>Thrown\<close>); a loop
    that never makes progress is \<open>Diverged\<close>; a step outside the defined
    behaviour of C++ is \<open>UndefinedBehaviour\<close>.
  \<^item> an \<open>unordered_map\<close> is an association list whose keys are distinct, and an
    \<open>unordered_set\<close> a list. The order of the list stands for the iteration
    order, which C++ leaves open; theorems range over all of them.
\<close>

section \<open>Integers and faults\<close>

type_synonym u64 = "64 word"
type_synonym u16 = "16 word"
type_synonym txn_id = u64
type_synonym key = string
type_synonym val = string

datatype fault = AssertFailed | NotReachable | Panicked | Thrown | Diverged | UndefinedBehaviour

type_synonym 'a outcome = "fault + 'a"

definition bindE :: "'a outcome \<Rightarrow> ('a \<Rightarrow> 'b outcome) \<Rightarrow> 'b outcome" where
  "bindE m f = (case m of Inl e \<Rightarrow> Inl e | Inr x \<Rightarrow> f x)"

text \<open>\<open>ASSERT(b)\<close> followed by the rest of the body.\<close>

definition assertE :: "bool \<Rightarrow> 'a outcome \<Rightarrow> 'a outcome" where
  "assertE b m = (if b then m else Inl AssertFailed)"

fun foldE :: "('a \<Rightarrow> 's \<Rightarrow> 's outcome) \<Rightarrow> 'a list \<Rightarrow> 's \<Rightarrow> 's outcome" where
  "foldE f [] s = Inr s"
| "foldE f (x # xs) s = bindE (f x s) (foldE f xs)"

lemma bindE_simps [simp]: "bindE (Inl e) f = Inl e" "bindE (Inr x) f = f x"
  by (simp_all add: bindE_def)

lemma bindE_Inr_iff: "bindE m f = Inr y \<longleftrightarrow> (\<exists>x. m = Inr x \<and> f x = Inr y)"
  by (cases m) auto

lemma bindE_InrE [elim!]:
  assumes "bindE m f = Inr y"
  obtains x where "m = Inr x" and "f x = Inr y"
  using assms by (auto simp: bindE_Inr_iff)

lemma assertE_True [simp]: "assertE True m = m"
  by (simp add: assertE_def)

lemma assertE_False [simp]: "assertE False m = Inl AssertFailed"
  by (simp add: assertE_def)

lemma assertE_Inr_iff [simp]: "assertE b m = Inr y \<longleftrightarrow> b \<and> m = Inr y"
  by (simp add: assertE_def)

lemma foldE_append: "foldE f (xs @ ys) s = bindE (foldE f xs s) (foldE f ys)"
  by (induction xs arbitrary: s) (auto simp: bindE_def split: sum.split)

text \<open>An invariant that every step keeps is kept by the whole loop.\<close>

lemma foldE_invariant:
  assumes "foldE f xs s = Inr s'" and "I s"
    and "\<And>x s s'. x \<in> set xs \<Longrightarrow> I s \<Longrightarrow> f x s = Inr s' \<Longrightarrow> I s'"
  shows "I s'"
  using assms
proof (induction xs arbitrary: s)
  case Nil
  then show ?case by simp
next
  case (Cons x xs)
  from Cons.prems(1) obtain t where t: "f x s = Inr t" and rest: "foldE f xs t = Inr s'"
    by auto
  have "I t" by (rule Cons.prems(3) [OF _ Cons.prems(2) t]) simp
  then show ?case by (rule Cons.IH [OF rest]) (rule Cons.prems(3), auto)
qed

text \<open>A loop whose every step returns in the invariant returns.\<close>

lemma foldE_total:
  assumes "I s" and "\<And>x s. x \<in> set xs \<Longrightarrow> I s \<Longrightarrow> \<exists>s'. f x s = Inr s' \<and> I s'"
  shows "\<exists>s'. foldE f xs s = Inr s' \<and> I s'"
  using assms
proof (induction xs arbitrary: s)
  case Nil
  then show ?case by simp
next
  case (Cons x xs)
  then obtain t where "f x s = Inr t" and "I t" by fastforce
  with Cons.IH [of t] Cons.prems(2) show ?case by auto
qed

section \<open>Hash maps\<close>

type_synonym ('k, 'v) umap = "('k \<times> 'v) list"

text \<open>
  \<open>um_put\<close> is \<open>m[k] = v\<close>, \<open>um_erase\<close> is \<open>m.erase(k)\<close>, \<open>um_has\<close> is \<open>m.count(k) > 0\<close>,
  \<open>um_emplace\<close> is \<open>m.emplace(k, v)\<close> and \<open>m.insert({k, v})\<close>, which keep an entry that
  is already there; lookup is \<open>map_of\<close>, size is \<open>length\<close>. \<open>um_ref\<close> is the read of
  \<open>m[k]\<close>: it creates the entry when it is missing.
\<close>

abbreviation um_put :: "'k \<Rightarrow> 'v \<Rightarrow> ('k, 'v) umap \<Rightarrow> ('k, 'v) umap" where
  "um_put \<equiv> AList.update"

abbreviation um_erase :: "'k \<Rightarrow> ('k, 'v) umap \<Rightarrow> ('k, 'v) umap" where
  "um_erase \<equiv> AList.delete"

definition um_has :: "('k, 'v) umap \<Rightarrow> 'k \<Rightarrow> bool" where
  "um_has m k = (map_of m k \<noteq> None)"

definition um_emplace :: "'k \<Rightarrow> 'v \<Rightarrow> ('k, 'v) umap \<Rightarrow> ('k, 'v) umap" where
  "um_emplace k v m = (if um_has m k then m else um_put k v m)"

definition um_ref :: "'v \<Rightarrow> ('k, 'v) umap \<Rightarrow> 'k \<Rightarrow> 'v \<times> ('k, 'v) umap" where
  "um_ref d m k = (case map_of m k of Some v \<Rightarrow> (v, m) | None \<Rightarrow> (d, um_put k d m))"

definition um_ok :: "('k, 'v) umap \<Rightarrow> bool" where
  "um_ok m \<longleftrightarrow> distinct (map fst m)"

abbreviation um_keys :: "('k, 'v) umap \<Rightarrow> 'k list" where
  "um_keys m \<equiv> map fst m"

lemma um_has_iff: "um_has m k \<longleftrightarrow> k \<in> set (um_keys m)"
  by (simp add: um_has_def map_of_eq_None_iff)

lemma um_has_code [code]: "um_has m k = (case map_of m k of None \<Rightarrow> False | Some _ \<Rightarrow> True)"
  by (simp add: um_has_def split: option.split)

lemma um_ok_Nil [simp]: "um_ok []"
  by (simp add: um_ok_def)

lemma um_ok_put [simp]: "um_ok m \<Longrightarrow> um_ok (um_put k v m)"
  by (simp add: um_ok_def distinct_update)

lemma um_ok_erase [simp]: "um_ok m \<Longrightarrow> um_ok (um_erase k m)"
  by (simp add: um_ok_def distinct_delete)

lemma um_ok_emplace [simp]: "um_ok m \<Longrightarrow> um_ok (um_emplace k v m)"
  by (simp add: um_emplace_def)

lemma map_of_put [simp]: "map_of (um_put k v m) = (map_of m)(k \<mapsto> v)"
  by (rule update_conv')

lemma map_of_erase [simp]: "map_of (um_erase k m) = (map_of m)(k := None)"
  by (rule delete_conv')

lemma um_has_put [simp]: "um_has (um_put k v m) k' \<longleftrightarrow> k' = k \<or> um_has m k'"
  by (simp add: um_has_def)

lemma um_has_erase [simp]: "um_has (um_erase k m) k' \<longleftrightarrow> k' \<noteq> k \<and> um_has m k'"
  by (simp add: um_has_def)

lemma map_of_emplace:
  "map_of (um_emplace k v m) = (if um_has m k then map_of m else (map_of m)(k \<mapsto> v))"
  by (simp add: um_emplace_def)

lemma um_ok_mem_iff: "um_ok m \<Longrightarrow> (k, v) \<in> set m \<longleftrightarrow> map_of m k = Some v"
  by (auto simp: um_ok_def)

lemma um_put_same: "map_of m k = Some v \<Longrightarrow> um_put k v m = m"
  by (induction m) (auto split: if_splits)

lemma length_um_put: "length (um_put k v m) = (if um_has m k then length m else Suc (length m))"
  by (induction m) (auto simp: um_has_def split: if_splits)

lemma length_um_erase: "um_ok m \<Longrightarrow> um_has m k \<Longrightarrow> length m = Suc (length (um_erase k m))"
proof (induction m)
  case Nil
  then show ?case by (simp add: um_has_def)
next
  case (Cons p m)
  show ?case
  proof (cases "fst p = k")
    case True
    with Cons.prems(1) have "k \<notin> fst ` set m" by (simp add: um_ok_def)
    then have "um_erase k m = m" by (simp add: delete_idem)
    with True show ?thesis by (cases p) simp
  next
    case False
    with Cons show ?thesis by (cases p) (auto simp: um_ok_def um_has_def)
  qed
qed

lemma um_singleton: "length m = 1 \<Longrightarrow> um_has m k \<Longrightarrow> um_keys m = [k]"
  by (cases m) (auto simp: um_has_def split: if_splits)

lemma um_has_Nil [simp]: "\<not> um_has [] k"
  by (simp add: um_has_def)

lemma um_has_Cons [simp]: "um_has ((k', v) # m) k \<longleftrightarrow> k = k' \<or> um_has m k"
  by (auto simp: um_has_def)

lemma um_has_Some: "map_of m k = Some v \<Longrightarrow> um_has m k"
  by (simp add: um_has_def)

lemma um_has_emplace [simp]: "um_has (um_emplace k v m) k' \<longleftrightarrow> k' = k \<or> um_has m k'"
  by (auto simp: um_emplace_def)

lemma um_erase_twice [simp]: "um_erase k (um_erase k m) = um_erase k m"
  by (simp add: AList.delete_eq)

lemma um_erase_put: "um_erase k (um_put k v m) = um_erase k m"
  by (rule delete_update_same)

lemma um_erase_absent [simp]: "\<not> um_has m k \<Longrightarrow> um_erase k m = m"
  by (simp add: um_has_iff delete_idem)

lemma um_emplace_not_Nil [simp]: "um_emplace k v m = [] \<longleftrightarrow> False"
  by (metis um_has_Nil um_has_emplace)

lemma um_put_not_Nil [simp]: "um_put k v m = [] \<longleftrightarrow> False"
  by (metis um_has_Nil um_has_put)

lemma um_no_keys [simp]: "(\<forall>t. \<not> um_has m t) \<longleftrightarrow> m = []"
  by (cases m) (auto simp: um_has_def)

lemma um_put_at_end: "\<not> um_has al k \<Longrightarrow> um_put k v al = al @ [(k, v)]"
  by (induction al) (auto simp: um_has_def)

section \<open>Hash sets\<close>

type_synonym 'a uset = "'a list"

text \<open>\<open>us_add\<close> is \<open>s.insert(x)\<close>, \<open>us_erase\<close> is \<open>s.erase(x)\<close>.\<close>

abbreviation us_add :: "'a \<Rightarrow> 'a uset \<Rightarrow> 'a uset" where
  "us_add \<equiv> List.insert"

abbreviation us_erase :: "'a \<Rightarrow> 'a uset \<Rightarrow> 'a uset" where
  "us_erase \<equiv> removeAll"

definition us_add_all :: "'a list \<Rightarrow> 'a uset \<Rightarrow> 'a uset" where
  "us_add_all xs s = fold us_add xs s"

lemma set_us_add_all [simp]: "set (us_add_all xs s) = set xs \<union> set s"
  by (induction xs arbitrary: s) (auto simp: us_add_all_def)

lemma us_add_all_Nil [simp]: "us_add_all [] s = s"
  by (simp add: us_add_all_def)

lemma distinct_us_add_all [simp]: "distinct s \<Longrightarrow> distinct (us_add_all xs s)"
  by (induction xs arbitrary: s) (auto simp: us_add_all_def distinct_insert)

lemma us_add_all_single [simp]: "us_add_all [x] s = us_add x s"
  by (simp add: us_add_all_def)

section \<open>Words\<close>

lemma of_nat_64_eq_0: "n < 2 ^ 64 \<Longrightarrow> (of_nat n :: u64) = 0 \<longleftrightarrow> n = 0"
  by (cases "n = 0") (auto simp: word_of_nat_eq_0_iff dest: dvd_imp_le)

lemma unat_Suc_64: "(x :: u64) < y \<Longrightarrow> unat (x + 1) = Suc (unat x)"
proof -
  assume "x < y"
  then have "Suc (unat x) \<le> unat y" by (simp add: word_less_nat_alt)
  also have "unat y < 2 ^ 64" using unsigned_less [of y, where ?'a = nat] by simp
  finally show ?thesis by (simp add: unat_word_ariths)
qed

end
