(* ===== verification/Timestamps.thy ===== *)
theory Timestamps
  imports Prelude
begin

text \<open>
  \<open>src/store/common/timestamp.{h,cc}\<close> and \<open>src/store/common/truetime.{h,cc}\<close>:
  the pair of a time in microseconds and a client id that orders every
  transaction, and the clock that produces the times. The clock reading itself
  (\<open>GetTime\<close>, the machine's high-resolution clock) is an argument.
\<close>

section \<open>Timestamp\<close>

datatype timestamp = Timestamp (getTimestamp: u64) (getID: u64)

definition Timestamp_zero :: timestamp where
  "Timestamp_zero = Timestamp 0 0"

definition Timestamp_MAX :: timestamp where
  "Timestamp_MAX = Timestamp (- 1) (- 1)"

definition ts_eq :: "timestamp \<Rightarrow> timestamp \<Rightarrow> bool" where
  "ts_eq s t = (getTimestamp s = getTimestamp t \<and> getID s = getID t)"

definition ts_ne :: "timestamp \<Rightarrow> timestamp \<Rightarrow> bool" where
  "ts_ne s t = (getTimestamp s \<noteq> getTimestamp t \<or> getID s \<noteq> getID t)"

definition ts_gt :: "timestamp \<Rightarrow> timestamp \<Rightarrow> bool" where
  "ts_gt s t = (if getTimestamp s = getTimestamp t then getID s > getID t
                else getTimestamp s > getTimestamp t)"

definition ts_lt :: "timestamp \<Rightarrow> timestamp \<Rightarrow> bool" where
  "ts_lt s t = (if getTimestamp s = getTimestamp t then getID s < getID t
                else getTimestamp s < getTimestamp t)"

definition ts_ge :: "timestamp \<Rightarrow> timestamp \<Rightarrow> bool" where
  "ts_ge s t = (if getTimestamp s = getTimestamp t then getID s \<ge> getID t
                else getTimestamp s \<ge> getTimestamp t)"

definition ts_le :: "timestamp \<Rightarrow> timestamp \<Rightarrow> bool" where
  "ts_le s t = (if getTimestamp s = getTimestamp t then getID s \<le> getID t
                else getTimestamp s \<le> getTimestamp t)"

definition ts_isValid :: "timestamp \<Rightarrow> bool" where
  "ts_isValid t = (getTimestamp t > 0 \<and> getID t > 0)"

definition setTimestamp :: "timestamp \<Rightarrow> u64 \<Rightarrow> timestamp" where
  "setTimestamp s t = Timestamp t (getID s)"

text \<open>
  The six operators are one linear order, so the library's order automation
  and its \<open>max\<close> and \<open>min\<close> (\<open>std::max\<close>, \<open>std::min\<close>) apply to timestamps.
\<close>

instantiation timestamp :: linorder
begin

definition less_eq_timestamp :: "timestamp \<Rightarrow> timestamp \<Rightarrow> bool" where
  "less_eq_timestamp = ts_le"

definition less_timestamp :: "timestamp \<Rightarrow> timestamp \<Rightarrow> bool" where
  "less_timestamp = ts_lt"

instance
proof
  fix x y z :: timestamp
  show "(x < y) = (x \<le> y \<and> \<not> y \<le> x)"
    by (cases x; cases y) (auto simp: less_eq_timestamp_def less_timestamp_def ts_le_def ts_lt_def)
  show "x \<le> x"
    by (simp add: less_eq_timestamp_def ts_le_def)
  show "x \<le> y \<Longrightarrow> y \<le> z \<Longrightarrow> x \<le> z"
    by (cases x; cases y; cases z)
      (auto simp: less_eq_timestamp_def ts_le_def split: if_splits)
  show "x \<le> y \<Longrightarrow> y \<le> x \<Longrightarrow> x = y"
    by (cases x; cases y) (auto simp: less_eq_timestamp_def ts_le_def split: if_splits)
  show "x \<le> y \<or> y \<le> x"
    by (cases x; cases y) (auto simp: less_eq_timestamp_def ts_le_def)
qed

end

lemma less_timestamp_code [simp, code]:
  "Timestamp a i < Timestamp b j \<longleftrightarrow> (if a = b then i < j else a < b)"
  by (simp add: less_timestamp_def ts_lt_def)

lemma less_eq_timestamp_code [simp, code]:
  "Timestamp a i \<le> Timestamp b j \<longleftrightarrow> (if a = b then i \<le> j else a \<le> b)"
  by (simp add: less_eq_timestamp_def ts_le_def)

lemma ts_ops_order:
  "ts_eq s t \<longleftrightarrow> s = t" "ts_ne s t \<longleftrightarrow> s \<noteq> t"
  "ts_lt s t \<longleftrightarrow> s < t" "ts_le s t \<longleftrightarrow> s \<le> t"
  "ts_gt s t \<longleftrightarrow> t < s" "ts_ge s t \<longleftrightarrow> t \<le> s"
  by (cases s; cases t; auto simp: ts_eq_def ts_ne_def ts_lt_def ts_le_def ts_gt_def ts_ge_def)+

lemma Timestamp_zero_least [simp]: "Timestamp_zero \<le> t"
  by (cases t) (simp add: Timestamp_zero_def)

lemma Timestamp_MAX_greatest [simp]: "t \<le> Timestamp_MAX"
  by (cases t) (simp add: Timestamp_MAX_def word_order.extremum)

lemma getTimestamp_mono: "s \<le> t \<Longrightarrow> getTimestamp s \<le> getTimestamp t"
  by (cases s; cases t) (auto split: if_splits)

section \<open>TrueTime\<close>

text \<open>
  A \<open>TrueTime\<close> object holds the error bound in microseconds; \<open>Now\<close> brackets the
  clock reading by it. The subtraction and addition wrap as they do on
  \<open>uint64_t\<close>.
\<close>

datatype truetime_interval = TrueTimeInterval (earliest: u64) (latest: u64)

definition tt_mid :: "truetime_interval \<Rightarrow> u64" where
  "tt_mid i = (latest i + earliest i) div 2"

definition TrueTime_init :: "u64 \<Rightarrow> u64" where
  "TrueTime_init error_ms = error_ms * 1000"

definition tt_Now :: "u64 \<Rightarrow> u64 \<Rightarrow> truetime_interval" where
  "tt_Now error time = TrueTimeInterval (time - error) (time + error)"

definition TimeToWaitUntilMS :: "u64 \<Rightarrow> u64 \<Rightarrow> u64 \<Rightarrow> u64" where
  "TimeToWaitUntilMS error time ts =
     (let e = earliest (tt_Now error time) in
      if ts \<le> e then 0 else (ts - e) div 1000)"

definition TimeToWaitUntilMicros :: "u64 \<Rightarrow> u64 \<Rightarrow> u64 \<Rightarrow> u64" where
  "TimeToWaitUntilMicros error time ts =
     (let e = earliest (tt_Now error time) in
      if ts \<le> e then 0 else ts - e)"

text \<open>
  Commit wait: once the clock has advanced by the computed delay, the commit
  timestamp is in the past on every clock (\<open>earliest\<close> has reached it), provided
  the clock readings do not wrap.
\<close>

theorem commit_wait_reaches:
  assumes "error \<le> time"
    and "time' \<ge> time" and "unat (time' - time) \<ge> unat (TimeToWaitUntilMicros error time ts)"
  shows "ts \<le> earliest (tt_Now error time')"
proof (cases "ts \<le> time - error")
  case True
  have "time - error \<le> time' - error"
    using assms(1,2) by (simp add: word_le_nat_alt unat_sub)
  with True show ?thesis by (auto simp: tt_Now_def)
next
  case False
  have d: "time' - time \<ge> ts - (time - error)"
    using assms(3) False by (simp add: TimeToWaitUntilMicros_def tt_Now_def word_le_nat_alt)
  have le: "unat (time - error) \<le> unat ts" using False by (simp add: word_le_nat_alt)
  have "unat ts - (unat time - unat error) \<le> unat time' - unat time"
    using d assms(1,2) le False
    by (simp add: word_le_nat_alt unat_sub)
  with assms(1,2) le show ?thesis
    by (simp add: tt_Now_def word_le_nat_alt unat_sub)
qed

theorem commit_wait_reaches_witness:
  "TimeToWaitUntilMicros 10 100 120 = 30 \<and> (120 :: u64) \<le> earliest (tt_Now 10 130)"
proof
  show w: "TimeToWaitUntilMicros 10 100 120 = 30" by code_simp
  show "(120 :: u64) \<le> earliest (tt_Now 10 130)"
    by (rule commit_wait_reaches [where time = 100]) (simp_all add: w)
qed

end
