(* ===== verification/Transactions.thy ===== *)
theory Transactions
  imports Timestamps
begin

text \<open>
  \<open>src/store/common/transaction.{h,cc}\<close> and
  \<open>src/store/strongstore/preparedtransaction.{h,cc}\<close>: the read and write sets of
  a transaction, the summary of a prepared transaction that a read-only
  transaction is told about, and their wire forms. A protobuf message is the
  record of its fields (\<open>common-proto.proto\<close>, \<open>strong-proto.proto\<close>); encoding it to
  bytes is the library's.
\<close>

section \<open>Reply codes\<close>

text \<open>The \<open>REPLY_*\<close> macros of \<open>transaction.h\<close>.\<close>

datatype reply_code =
    REPLY_OK | REPLY_FAIL | REPLY_RETRY | REPLY_ABSTAIN | REPLY_TIMEOUT
  | REPLY_NETWORK_FAILURE | REPLY_WAIT | REPLY_PREPARED | REPLY_MAX

section \<open>Transaction\<close>

record transaction =
  readSet :: "(key, timestamp) umap"
  writeSet :: "(key, val) umap"
  start_time :: timestamp

record transaction_message =
  msg_starttime :: timestamp
  msg_readset :: "(key \<times> timestamp) list"
  msg_writeset :: "(key \<times> val) list"

definition Transaction_init :: transaction where
  "Transaction_init = \<lparr>readSet = [], writeSet = [], start_time = Timestamp_zero\<rparr>"

definition um_put_all :: "('k \<times> 'v) list \<Rightarrow> ('k, 'v) umap \<Rightarrow> ('k, 'v) umap" where
  "um_put_all kvs m = fold (\<lambda>(k, v). um_put k v) kvs m"

definition Transaction_parse :: "transaction_message \<Rightarrow> transaction" where
  "Transaction_parse msg =
     \<lparr>readSet = um_put_all (msg_readset msg) [],
      writeSet = um_put_all (msg_writeset msg) [],
      start_time = msg_starttime msg\<rparr>"

definition Transaction_serialize :: "transaction \<Rightarrow> transaction_message" where
  "Transaction_serialize t =
     \<lparr>msg_starttime = start_time t, msg_readset = readSet t, msg_writeset = writeSet t\<rparr>"

definition addReadSet :: "key \<Rightarrow> timestamp \<Rightarrow> transaction \<Rightarrow> transaction" where
  "addReadSet k t txn = txn\<lparr>readSet := um_put k t (readSet txn)\<rparr>"

definition addWriteSet :: "key \<Rightarrow> val \<Rightarrow> transaction \<Rightarrow> transaction" where
  "addWriteSet k v txn = txn\<lparr>writeSet := um_put k v (writeSet txn)\<rparr>"

definition set_start_time :: "timestamp \<Rightarrow> transaction \<Rightarrow> transaction" where
  "set_start_time t txn = txn\<lparr>start_time := t\<rparr>"

definition add_read_write_sets :: "transaction \<Rightarrow> transaction \<Rightarrow> transaction" where
  "add_read_write_sets other txn =
     txn\<lparr>readSet := um_put_all (readSet other) (readSet txn),
         writeSet := um_put_all (writeSet other) (writeSet txn)\<rparr>"

text \<open>The key sets of a well-formed transaction have no duplicates.\<close>

definition txn_ok :: "transaction \<Rightarrow> bool" where
  "txn_ok t \<longleftrightarrow> um_ok (readSet t) \<and> um_ok (writeSet t)"

lemma um_put_all_Nil [simp]: "um_put_all [] m = m"
  by (simp add: um_put_all_def)

lemma um_put_all_Cons [simp]: "um_put_all ((k, v) # kvs) m = um_put_all kvs (um_put k v m)"
  by (simp add: um_put_all_def)

lemma um_ok_put_all [simp]: "um_ok m \<Longrightarrow> um_ok (um_put_all kvs m)"
  by (induction kvs arbitrary: m) auto

lemma map_of_put_all: "um_ok kvs \<Longrightarrow> map_of (um_put_all kvs m) = map_of m ++ map_of kvs"
proof (induction kvs arbitrary: m)
  case Nil
  then show ?case by simp
next
  case (Cons p kvs)
  obtain k v where p: "p = (k, v)" by fastforce
  from Cons.prems p have "k \<notin> dom (map_of kvs)" by (simp add: um_ok_def dom_map_of_conv_image_fst)
  moreover have "um_ok kvs" using Cons.prems by (simp add: um_ok_def)
  ultimately show ?case using Cons.IH p
    by (auto simp: fun_eq_iff map_add_def dom_def split: option.split)
qed

lemma um_put_new: "k \<notin> set (um_keys m) \<Longrightarrow> um_put k v m = m @ [(k, v)]"
  by (induction m) auto

lemma um_put_all_append: "um_ok (m @ kvs) \<Longrightarrow> um_put_all kvs m = m @ kvs"
proof (induction kvs arbitrary: m)
  case Nil
  then show ?case by simp
next
  case (Cons p kvs)
  obtain k v where p: "p = (k, v)" by fastforce
  with Cons.prems have "um_put k v m = m @ [(k, v)]"
    by (intro um_put_new) (auto simp: um_ok_def)
  with Cons.IH [of "m @ [(k, v)]"] Cons.prems p show ?case by simp
qed

lemma set_keys_put_all [simp]:
  "set (um_keys (um_put_all kvs m)) = set (um_keys m) \<union> set (um_keys kvs)"
proof (induction kvs arbitrary: m)
  case Nil
  then show ?case by simp
next
  case (Cons p kvs)
  then show ?case by (cases p) (auto simp: dom_update)
qed

lemma Transaction_roundtrip:
  "txn_ok t \<Longrightarrow> Transaction_parse (Transaction_serialize t) = t"
  by (cases t) (simp add: Transaction_parse_def Transaction_serialize_def txn_ok_def um_put_all_append)

lemma txn_ok_ops [simp]:
  "txn_ok Transaction_init"
  "txn_ok t \<Longrightarrow> txn_ok (addReadSet k ts t)"
  "txn_ok t \<Longrightarrow> txn_ok (addWriteSet k v t)"
  "txn_ok t \<Longrightarrow> txn_ok (set_start_time ts t)"
  "txn_ok t \<Longrightarrow> txn_ok (add_read_write_sets u t)"
  "txn_ok (Transaction_parse msg)"
  by (simp_all add: txn_ok_def Transaction_init_def addReadSet_def addWriteSet_def
      set_start_time_def add_read_write_sets_def Transaction_parse_def)

section \<open>Values and prepared transactions\<close>

record read_value =
  v_transaction_id :: txn_id
  v_ts :: timestamp
  v_key :: key
  v_val :: val

record prepared_transaction =
  pt_transaction_id :: txn_id
  pt_prepare_ts :: timestamp
  pt_write_set :: "(key, val) umap"

record prepared_transaction_message =
  ptm_transaction_id :: txn_id
  ptm_prepare_timestamp :: timestamp
  ptm_write_set :: "(key \<times> val) list"

definition PreparedTransaction_init :: "txn_id \<Rightarrow> timestamp \<Rightarrow> prepared_transaction" where
  "PreparedTransaction_init i ts =
     \<lparr>pt_transaction_id = i, pt_prepare_ts = ts, pt_write_set = []\<rparr>"

definition um_emplace_all :: "('k \<times> 'v) list \<Rightarrow> ('k, 'v) umap \<Rightarrow> ('k, 'v) umap" where
  "um_emplace_all kvs m = fold (\<lambda>(k, v). um_emplace k v) kvs m"

definition PreparedTransaction_parse :: "prepared_transaction_message \<Rightarrow> prepared_transaction" where
  "PreparedTransaction_parse msg =
     \<lparr>pt_transaction_id = ptm_transaction_id msg, pt_prepare_ts = ptm_prepare_timestamp msg,
      pt_write_set = um_emplace_all (ptm_write_set msg) []\<rparr>"

definition PreparedTransaction_serialize :: "prepared_transaction \<Rightarrow> prepared_transaction_message" where
  "PreparedTransaction_serialize p =
     \<lparr>ptm_transaction_id = pt_transaction_id p, ptm_prepare_timestamp = pt_prepare_ts p,
      ptm_write_set = pt_write_set p\<rparr>"

definition update_prepare_ts :: "timestamp \<Rightarrow> prepared_transaction \<Rightarrow> prepared_transaction" where
  "update_prepare_ts ts p = p\<lparr>pt_prepare_ts := max (pt_prepare_ts p) ts\<rparr>"

definition pt_add_write :: "key \<times> val \<Rightarrow> prepared_transaction \<Rightarrow> prepared_transaction" where
  "pt_add_write w p = p\<lparr>pt_write_set := um_emplace (fst w) (snd w) (pt_write_set p)\<rparr>"

definition pt_add_write_set :: "(key, val) umap \<Rightarrow> prepared_transaction \<Rightarrow> prepared_transaction" where
  "pt_add_write_set ws p = p\<lparr>pt_write_set := um_emplace_all ws (pt_write_set p)\<rparr>"

lemma um_ok_emplace_all [simp]: "um_ok m \<Longrightarrow> um_ok (um_emplace_all kvs m)"
  unfolding um_emplace_all_def by (induction kvs arbitrary: m) auto

lemma um_emplace_all_append: "um_ok (m @ kvs) \<Longrightarrow> um_emplace_all kvs m = m @ kvs"
proof (induction kvs arbitrary: m)
  case Nil
  then show ?case by (simp add: um_emplace_all_def)
next
  case (Cons p kvs)
  obtain k v where p: "p = (k, v)" by fastforce
  with Cons.prems have n: "k \<notin> set (um_keys m)" by (auto simp: um_ok_def)
  then have "um_emplace k v m = m @ [(k, v)]"
    by (simp add: um_emplace_def um_has_iff um_put_new)
  with Cons.IH [of "m @ [(k, v)]"] Cons.prems p show ?case by (simp add: um_emplace_all_def)
qed

lemma PreparedTransaction_roundtrip:
  "um_ok (pt_write_set p) \<Longrightarrow> PreparedTransaction_parse (PreparedTransaction_serialize p) = p"
  by (cases p) (simp add: PreparedTransaction_parse_def PreparedTransaction_serialize_def
      um_emplace_all_append)

end
