(* ===== verification/WoundWait.thy ===== *)
theory WoundWait
  imports Transactions
begin

text \<open>
  \<open>src/store/strongstore/woundwait.{h,cc}\<close>: the per-key read/write lock with a
  wait queue, and the table of such locks. A request that cannot be granted
  waits and \<open>wounds\<close> (asks to abort) the younger transactions in its way, so
  that a transaction only ever waits for older ones. First the code, then its
  invariant and what the operations guarantee.
\<close>

section \<open>Waiters\<close>

datatype lock_state = UNLOCKED | LOCKED_FOR_READ | LOCKED_FOR_WRITE | LOCKED_FOR_READ_WRITE

text \<open>
  A \<open>Waiter\<close> is reached through a \<open>shared_ptr\<close> kept in the single map slot of its
  requester (\<open>emplace\<close> is its only owner), so updating the object is updating the
  slot.
\<close>

record waiter =
  w_waiters :: "(txn_id, timestamp) umap"
  w_first :: txn_id
  w_write :: bool
  w_read :: bool

definition add_waiter :: "txn_id \<Rightarrow> timestamp \<Rightarrow> waiter \<Rightarrow> waiter" where
  "add_waiter t ts w =
     w\<lparr>w_first := (if w_waiters w = [] then t else w_first w),
       w_waiters := um_put t ts (w_waiters w)\<rparr>"

definition Waiter_init :: "bool \<Rightarrow> bool \<Rightarrow> txn_id \<Rightarrow> timestamp \<Rightarrow> waiter" where
  "Waiter_init r w t ts =
     add_waiter t ts \<lparr>w_waiters = [], w_first = - 1, w_write = w, w_read = r\<rparr>"

definition remove_waiter :: "txn_id \<Rightarrow> waiter \<Rightarrow> waiter" where
  "remove_waiter t w = w\<lparr>w_waiters := um_erase t (w_waiters w)\<rparr>"

record lock =
  l_state :: lock_state
  l_holders :: "(txn_id, timestamp) umap"
  l_wait_q :: "txn_id list"
  l_waiters :: "(txn_id, waiter) umap"

definition Lock_init :: lock where
  "Lock_init = \<lparr>l_state = UNLOCKED, l_holders = [], l_wait_q = [], l_waiters = []\<rparr>"

definition AddReadWaiter :: "txn_id \<Rightarrow> timestamp \<Rightarrow> lock \<Rightarrow> lock" where
  "AddReadWaiter r ts l =
     l\<lparr>l_waiters := um_emplace r (Waiter_init True False r ts) (l_waiters l),
       l_wait_q := l_wait_q l @ [r]\<rparr>"

definition AddWriteWaiter :: "txn_id \<Rightarrow> timestamp \<Rightarrow> lock \<Rightarrow> lock" where
  "AddWriteWaiter r ts l =
     l\<lparr>l_waiters := um_emplace r (Waiter_init False True r ts) (l_waiters l),
       l_wait_q := l_wait_q l @ [r]\<rparr>"

definition AddReadWriteWaiter :: "txn_id \<Rightarrow> timestamp \<Rightarrow> lock \<Rightarrow> lock" where
  "AddReadWriteWaiter r ts l =
     l\<lparr>l_waiters := um_emplace r (Waiter_init True True r ts) (l_waiters l),
       l_wait_q := l_wait_q l @ [r]\<rparr>"

section \<open>Waiting and wounding\<close>

text \<open>The loop \<open>for (auto w : m) if (w.first != requester && ts < w.second) wound.insert(w.first)\<close>.\<close>

definition wound_younger :: "txn_id \<Rightarrow> timestamp \<Rightarrow> (txn_id, timestamp) umap \<Rightarrow>
    txn_id uset \<Rightarrow> txn_id uset" where
  "wound_younger r ts m wound =
     fold (\<lambda>(t, s) wd. if t \<noteq> r \<and> ts < s then us_add t wd else wd) m wound"

fun ReadWait_queue :: "(txn_id, waiter) umap \<Rightarrow> txn_id \<Rightarrow> timestamp \<Rightarrow> txn_id list \<Rightarrow>
    txn_id uset \<Rightarrow> txn_id list \<times> txn_id uset" where
  "ReadWait_queue ws r ts [] wound = ([], wound)"
| "ReadWait_queue ws r ts (h # q) wound =
     (case map_of ws h of
        None \<Rightarrow> ReadWait_queue ws r ts q wound
      | Some w \<Rightarrow>
          let (q', wound') = ReadWait_queue ws r ts q
                (if w_write w then wound_younger r ts (w_waiters w) wound else wound) in
          (h # q', wound'))"

definition ReadWait :: "txn_id \<Rightarrow> timestamp \<Rightarrow> lock \<Rightarrow> txn_id uset \<Rightarrow> lock \<times> txn_id uset" where
  "ReadWait r ts l wound =
     (case map_of (l_waiters l) r of
        Some w \<Rightarrow> (l\<lparr>l_waiters := um_put r (w\<lparr>w_read := True\<rparr>) (l_waiters l)\<rparr>, wound)
      | None \<Rightarrow>
          let (q, wound1) = ReadWait_queue (l_waiters l) r ts (l_wait_q l) wound;
              wound2 = (if l_state l = LOCKED_FOR_WRITE \<or> l_state l = LOCKED_FOR_READ_WRITE
                        then wound_younger r ts (l_holders l) wound1 else wound1) in
          (AddReadWaiter r ts (l\<lparr>l_wait_q := q\<rparr>), wound2))"

text \<open>The backward scan that decides whether a waiting read may become a waiting read-write in place.\<close>

fun WriteWait_safe :: "(txn_id, waiter) umap \<Rightarrow> txn_id \<Rightarrow> timestamp \<Rightarrow> txn_id list \<Rightarrow> bool \<Rightarrow> bool" where
  "WriteWait_safe ws r ts [] safe = safe"
| "WriteWait_safe ws r ts (h # q) safe =
     (if \<not> safe then False
      else case map_of ws h of
             None \<Rightarrow> WriteWait_safe ws r ts q safe
           | Some w \<Rightarrow>
               if um_has (w_waiters w) r then safe
               else WriteWait_safe ws r ts q (list_all (\<lambda>p. ts < snd p) (w_waiters w)))"

fun WriteWait_queue :: "(txn_id, waiter) umap \<Rightarrow> txn_id \<Rightarrow> timestamp \<Rightarrow> bool \<Rightarrow> txn_id list \<Rightarrow>
    txn_id uset \<Rightarrow> txn_id list \<times> txn_id uset" where
  "WriteWait_queue ws r ts read_waiting [] wound = ([], wound)"
| "WriteWait_queue ws r ts read_waiting (h # q) wound =
     (case map_of ws h of
        None \<Rightarrow> WriteWait_queue ws r ts read_waiting q wound
      | Some w \<Rightarrow>
          if um_has (w_waiters w) r then (h # q, wound)
          else
            let already_wounded = (read_waiting \<and> w_write w);
                (q', wound') = WriteWait_queue ws r ts read_waiting q
                  (if \<not> already_wounded then wound_younger r ts (w_waiters w) wound else wound) in
            (h # q', wound'))"

text \<open>The part of \<open>WriteWait\<close> after the look-up of the requester's own waiter.\<close>

definition WriteWait_rest :: "bool \<Rightarrow> bool \<Rightarrow> txn_id \<Rightarrow> timestamp \<Rightarrow> lock \<Rightarrow> txn_id uset \<Rightarrow>
    lock \<times> txn_id uset" where
  "WriteWait_rest read_waiting safe_upgrade_rw r ts l wound =
     (let (q, wound1) = WriteWait_queue (l_waiters l) r ts read_waiting (l_wait_q l) wound;
          wound2 = (if \<not> read_waiting \<or> l_state l = LOCKED_FOR_READ
                    then wound_younger r ts (l_holders l) wound1 else wound1);
          l1 = l\<lparr>l_wait_q := q\<rparr>;
          l2 = (if \<not> safe_upgrade_rw
                then (if read_waiting then AddReadWriteWaiter r ts l1 else AddWriteWaiter r ts l1)
                else l1) in
      (l2, wound2))"

definition WriteWait :: "txn_id \<Rightarrow> timestamp \<Rightarrow> lock \<Rightarrow> txn_id uset \<Rightarrow> lock \<times> txn_id uset" where
  "WriteWait r ts l wound =
     (case map_of (l_waiters l) r of
        None \<Rightarrow> WriteWait_rest False False r ts l wound
      | Some w \<Rightarrow>
          if w_write w then (l, wound)
          else
            let safe = WriteWait_safe (l_waiters l) r ts (rev (l_wait_q l)) (length (w_waiters w) = 1);
                l1 = (if safe
                      then l\<lparr>l_waiters := um_put r (w\<lparr>w_write := True\<rparr>) (l_waiters l)\<rparr>
                      else l\<lparr>l_waiters := um_erase r (um_put r (remove_waiter r w) (l_waiters l))\<rparr>) in
            WriteWait_rest True safe r ts l1 wound)"

text \<open>
  \<open>SafeUpgradeToRW\<close> erases a stale queue entry with \<open>it = wait_q_.erase(it); continue;\<close>
  inside a \<open>for\<close> that also runs \<open>++it\<close>. The entry after an erased one is skipped,
  and when the erased entry was the last one the iterator, now \<open>end()\<close>, is
  incremented: undefined behaviour.
\<close>

fun SafeUpgradeToRW :: "(txn_id, waiter) umap \<Rightarrow> timestamp \<Rightarrow> txn_id list \<Rightarrow>
    (bool \<times> txn_id list) outcome" where
  "SafeUpgradeToRW ws ts [] = Inr (True, [])"
| "SafeUpgradeToRW ws ts (h # q) =
     (case map_of ws h of
        None \<Rightarrow>
          (case q of
             [] \<Rightarrow> Inl UndefinedBehaviour
           | h' # q' \<Rightarrow> bindE (SafeUpgradeToRW ws ts q') (\<lambda>(b, q''). Inr (b, h' # q'')))
      | Some w \<Rightarrow>
          if list_ex (\<lambda>p. ts < snd p) (w_waiters w) then Inr (False, h # q)
          else bindE (SafeUpgradeToRW ws ts q) (\<lambda>(b, q'). Inr (b, h # q')))"

fun isWriteNext :: "(txn_id, waiter) umap \<Rightarrow> txn_id list \<Rightarrow> bool \<times> txn_id list" where
  "isWriteNext ws [] = (False, [])"
| "isWriteNext ws (h # q) =
     (case map_of ws h of
        None \<Rightarrow> isWriteNext ws q
      | Some w \<Rightarrow> (w_write w, h # q))"

section \<open>Acquiring\<close>

definition TryAcquireReadLock :: "txn_id \<Rightarrow> timestamp \<Rightarrow> lock \<Rightarrow> txn_id uset \<Rightarrow>
    (reply_code \<times> lock \<times> txn_id uset) outcome" where
  "TryAcquireReadLock r ts l wound =
     (if l_state l = UNLOCKED
      then assertE (length (l_holders l) = 0)
             (Inr (REPLY_OK, l\<lparr>l_state := LOCKED_FOR_READ, l_holders := um_put r ts (l_holders l)\<rparr>, wound))
      else if um_has (l_holders l) r
      then Inr (REPLY_OK, (if l_state l = LOCKED_FOR_WRITE
                           then l\<lparr>l_state := LOCKED_FOR_READ_WRITE\<rparr> else l), wound)
      else
        let (write_next, q) = (if l_state l = LOCKED_FOR_READ then isWriteNext (l_waiters l) (l_wait_q l)
                               else (True, l_wait_q l));
            l1 = l\<lparr>l_wait_q := q\<rparr> in
        if l_state l = LOCKED_FOR_READ \<and> \<not> write_next
        then Inr (REPLY_OK, l1\<lparr>l_holders := um_put r ts (l_holders l1)\<rparr>, wound)
        else let (l2, wound') = ReadWait r ts l1 wound in Inr (REPLY_WAIT, l2, wound'))"

definition TryAcquireWriteLock :: "txn_id \<Rightarrow> timestamp \<Rightarrow> lock \<Rightarrow> txn_id uset \<Rightarrow>
    (reply_code \<times> lock \<times> txn_id uset) outcome" where
  "TryAcquireWriteLock r ts l wound =
     (if l_state l = UNLOCKED
      then assertE (length (l_holders l) = 0)
             (Inr (REPLY_OK, l\<lparr>l_state := LOCKED_FOR_WRITE, l_holders := um_put r ts (l_holders l)\<rparr>, wound))
      else if length (l_holders l) = 1 \<and> um_has (l_holders l) r
      then if l_state l = LOCKED_FOR_WRITE \<or> l_state l = LOCKED_FOR_READ_WRITE
           then Inr (REPLY_OK, l, wound)
           else bindE (SafeUpgradeToRW (l_waiters l) ts (l_wait_q l)) (\<lambda>(safe, q).
             let l1 = l\<lparr>l_wait_q := q\<rparr> in
             if safe then Inr (REPLY_OK, l1\<lparr>l_state := LOCKED_FOR_READ_WRITE\<rparr>, wound)
             else let (l2, wound') = WriteWait r ts l1 wound in Inr (REPLY_WAIT, l2, wound'))
      else let (l2, wound') = WriteWait r ts l wound in Inr (REPLY_WAIT, l2, wound'))"

section \<open>Releasing\<close>

definition um_erase_all :: "'k list \<Rightarrow> ('k, 'v) umap \<Rightarrow> ('k, 'v) umap" where
  "um_erase_all ks m = fold um_erase ks m"

text \<open>
  The loop of \<open>PopWaiter\<close>. An iteration either pops the front of the queue or
  leaves the loop, except in a state that claims \<open>UNLOCKED\<close> while it has holders:
  there it changes nothing and repeats for ever.
\<close>

fun PopWaiter_loop :: "txn_id list \<Rightarrow> lock \<Rightarrow> txn_id uset \<Rightarrow> (lock \<times> txn_id uset) outcome" where
  "PopWaiter_loop [] l notify = Inr (l\<lparr>l_wait_q := []\<rparr>, notify)"
| "PopWaiter_loop (next # q) l notify =
     (case map_of (l_waiters l) next of
        None \<Rightarrow> PopWaiter_loop q l notify
      | Some w \<Rightarrow>
          if length (l_holders l) = 0
          then PopWaiter_loop q
                 (l\<lparr>l_state := (if w_read w \<and> w_write w then LOCKED_FOR_READ_WRITE
                                else if w_write w then LOCKED_FOR_WRITE else LOCKED_FOR_READ),
                    l_holders := w_waiters w,
                    l_waiters := um_erase_all (um_keys (w_waiters w)) (um_erase next (l_waiters l))\<rparr>)
                 (us_add_all (um_keys (w_waiters w)) notify)
          else if l_state l = LOCKED_FOR_READ
          then if length (l_holders l) = 1 \<and> w_write w \<and> um_has (l_holders l) next
               then PopWaiter_loop q
                      (l\<lparr>l_state := LOCKED_FOR_READ_WRITE, l_waiters := um_erase next (l_waiters l)\<rparr>)
                      (us_add next notify)
               else if \<not> w_write w
               then PopWaiter_loop q
                      (l\<lparr>l_holders := um_emplace_all (w_waiters w) (l_holders l),
                         l_waiters := um_erase_all (um_keys (w_waiters w)) (um_erase next (l_waiters l))\<rparr>)
                      (us_add_all (um_keys (w_waiters w)) notify)
               else Inr (l\<lparr>l_wait_q := next # q\<rparr>, notify)
          else if l_state l = LOCKED_FOR_WRITE \<or> l_state l = LOCKED_FOR_READ_WRITE
          then Inr (l\<lparr>l_wait_q := next # q\<rparr>, notify)
          else Inl Diverged)"

definition PopWaiter :: "lock \<Rightarrow> txn_id uset \<Rightarrow> (lock \<times> txn_id uset) outcome" where
  "PopWaiter l notify =
     bindE (PopWaiter_loop (l_wait_q l) l notify) (\<lambda>(l', notify').
       Inr (if length (l_holders l') = 0 then l'\<lparr>l_state := UNLOCKED\<rparr> else l', notify'))"

text \<open>The first half of each release, which drops the request the holder may still have queued.\<close>

definition ReleaseRead_cleanup :: "txn_id \<Rightarrow> lock \<Rightarrow> lock" where
  "ReleaseRead_cleanup h l =
     (case map_of (l_waiters l) h of
        None \<Rightarrow> l
      | Some w \<Rightarrow>
          if w_write w then l\<lparr>l_waiters := um_put h (w\<lparr>w_read := False\<rparr>) (l_waiters l)\<rparr>
          else if length (w_waiters w) > 1
          then l\<lparr>l_waiters := um_put h (remove_waiter h w) (l_waiters l)\<rparr>
          else l\<lparr>l_waiters := um_erase (w_first w) (um_erase h (l_waiters l))\<rparr>)"

definition ReleaseReadLock :: "txn_id \<Rightarrow> lock \<Rightarrow> txn_id uset \<Rightarrow> (lock \<times> txn_id uset) outcome" where
  "ReleaseReadLock h l notify =
     (let l1 = ReleaseRead_cleanup h l in
      if um_has (l_holders l1) h \<and> (l_state l1 = LOCKED_FOR_READ \<or> l_state l1 = LOCKED_FOR_READ_WRITE)
      then if l_state l1 = LOCKED_FOR_READ_WRITE
           then Inr (l1\<lparr>l_state := LOCKED_FOR_WRITE\<rparr>, notify)
           else PopWaiter (l1\<lparr>l_holders := um_erase h (l_holders l1)\<rparr>) notify
      else PopWaiter l1 notify)"

definition ReleaseWrite_cleanup :: "txn_id \<Rightarrow> lock \<Rightarrow> lock" where
  "ReleaseWrite_cleanup h l =
     (case map_of (l_waiters l) h of
        None \<Rightarrow> l
      | Some w \<Rightarrow>
          if w_read w then l\<lparr>l_waiters := um_put h (w\<lparr>w_write := False\<rparr>) (l_waiters l)\<rparr>
          else l\<lparr>l_waiters := um_erase h (l_waiters l)\<rparr>)"

definition ReleaseWriteLock :: "txn_id \<Rightarrow> lock \<Rightarrow> txn_id uset \<Rightarrow> (lock \<times> txn_id uset) outcome" where
  "ReleaseWriteLock h l notify =
     (let l1 = ReleaseWrite_cleanup h l in
      if um_has (l_holders l1) h \<and> (l_state l1 = LOCKED_FOR_WRITE \<or> l_state l1 = LOCKED_FOR_READ_WRITE)
      then if l_state l1 = LOCKED_FOR_READ_WRITE
           then Inr (l1\<lparr>l_state := LOCKED_FOR_READ\<rparr>, notify)
           else PopWaiter (l1\<lparr>l_holders := um_erase h (l_holders l1)\<rparr>) notify
      else PopWaiter l1 notify)"

section \<open>The lock table\<close>

type_synonym wound_wait = "(key, lock) umap"

definition GetLockState :: "wound_wait \<Rightarrow> key \<Rightarrow> lock_state" where
  "GetLockState ls k = (case map_of ls k of None \<Rightarrow> UNLOCKED | Some l \<Rightarrow> l_state l)"

definition WW_HasReadLock :: "wound_wait \<Rightarrow> key \<Rightarrow> txn_id \<Rightarrow> bool" where
  "WW_HasReadLock ls k r =
     (case map_of ls k of
        None \<Rightarrow> False
      | Some l \<Rightarrow>
          if l_state l \<noteq> LOCKED_FOR_READ \<and> l_state l \<noteq> LOCKED_FOR_READ_WRITE then False
          else um_has (l_holders l) r)"

definition LockForRead :: "key \<Rightarrow> txn_id \<Rightarrow> timestamp \<Rightarrow> wound_wait \<Rightarrow> txn_id uset \<Rightarrow>
    (reply_code \<times> wound_wait \<times> txn_id uset) outcome" where
  "LockForRead k r ts ls wound =
     bindE (TryAcquireReadLock r ts (fst (um_ref Lock_init ls k)) wound)
       (\<lambda>(ret, l, wound'). Inr (ret, um_put k l ls, wound'))"

definition LockForWrite :: "key \<Rightarrow> txn_id \<Rightarrow> timestamp \<Rightarrow> wound_wait \<Rightarrow> txn_id uset \<Rightarrow>
    (reply_code \<times> wound_wait \<times> txn_id uset) outcome" where
  "LockForWrite k r ts ls wound =
     bindE (TryAcquireWriteLock r ts (fst (um_ref Lock_init ls k)) wound)
       (\<lambda>(ret, l, wound'). Inr (ret, um_put k l ls, wound'))"

definition ReleaseForRead :: "key \<Rightarrow> txn_id \<Rightarrow> wound_wait \<Rightarrow> txn_id uset \<Rightarrow>
    (wound_wait \<times> txn_id uset) outcome" where
  "ReleaseForRead k h ls notify =
     (case map_of ls k of
        None \<Rightarrow> Inr (ls, notify)
      | Some l \<Rightarrow> bindE (ReleaseReadLock h l notify) (\<lambda>(l', notify'). Inr (um_put k l' ls, notify')))"

definition ReleaseForWrite :: "key \<Rightarrow> txn_id \<Rightarrow> wound_wait \<Rightarrow> txn_id uset \<Rightarrow>
    (wound_wait \<times> txn_id uset) outcome" where
  "ReleaseForWrite k h ls notify =
     (case map_of ls k of
        None \<Rightarrow> Inr (ls, notify)
      | Some l \<Rightarrow> bindE (ReleaseWriteLock h l notify) (\<lambda>(l', notify'). Inr (um_put k l' ls, notify')))"

end
