(* ===== verification/WoundWaitInv.thy ===== *)
theory WoundWaitInv
  imports WoundWait
begin

text \<open>
  The invariant of a wound-wait lock and what each operation of \<open>WoundWait\<close>
  guarantees: it returns, it keeps the invariant, it takes no right away from a
  transaction that did not give it up, it wounds younger transactions only, and
  a request that is not granted stays queued.
\<close>

section \<open>The invariant\<close>

definition waiter_ok :: "txn_id \<Rightarrow> waiter \<Rightarrow> bool" where
  "waiter_ok t w \<longleftrightarrow>
     (\<exists>ts. w_waiters w = [(t, ts)]) \<and> w_first w = t \<and> (w_read w \<or> w_write w)"

text \<open>What holds between the parts of a lock while its queue is being processed.\<close>

definition q_inv :: "txn_id list \<Rightarrow> lock \<Rightarrow> bool" where
  "q_inv q l \<longleftrightarrow>
     um_ok (l_holders l) \<and> um_ok (l_waiters l) \<and> distinct q \<and>
     (\<forall>t w. map_of (l_waiters l) t = Some w \<longrightarrow> waiter_ok t w) \<and>
     (\<forall>t. um_has (l_waiters l) t \<longrightarrow> t \<in> set q) \<and>
     (l_state l = UNLOCKED \<longrightarrow> l_holders l = []) \<and>
     (l_state l = LOCKED_FOR_WRITE \<or> l_state l = LOCKED_FOR_READ_WRITE \<longrightarrow> length (l_holders l) \<le> 1)"

definition lock_inv :: "lock \<Rightarrow> bool" where
  "lock_inv l \<longleftrightarrow>
     q_inv (l_wait_q l) l \<and> (l_holders l = [] \<longrightarrow> l_state l = UNLOCKED \<and> l_waiters l = [])"

definition holds_read :: "lock \<Rightarrow> txn_id \<Rightarrow> bool" where
  "holds_read l t \<longleftrightarrow>
     (l_state l = LOCKED_FOR_READ \<or> l_state l = LOCKED_FOR_READ_WRITE) \<and> um_has (l_holders l) t"

definition holds_write :: "lock \<Rightarrow> txn_id \<Rightarrow> bool" where
  "holds_write l t \<longleftrightarrow>
     (l_state l = LOCKED_FOR_WRITE \<or> l_state l = LOCKED_FOR_READ_WRITE) \<and> um_has (l_holders l) t"

lemma lock_inv_init [simp]: "lock_inv Lock_init"
  by (simp add: lock_inv_def q_inv_def Lock_init_def)

lemma waiter_ok_init [simp]: "r \<or> w \<Longrightarrow> waiter_ok t (Waiter_init r w t ts)"
  by (simp add: waiter_ok_def Waiter_init_def add_waiter_def)

lemma waiter_ok_has [simp]: "waiter_ok t w \<Longrightarrow> um_has (w_waiters w) r \<longleftrightarrow> r = t"
  by (auto simp: waiter_ok_def)

lemma um_erase_all_single [simp]: "um_erase_all [k] m = um_erase k m"
  by (simp add: um_erase_all_def)

lemma um_emplace_all_single [simp]: "um_emplace_all [(k, v)] m = um_emplace k v m"
  by (simp add: um_emplace_all_def)

text \<open>At most one holder of a write lock: the mutual exclusion the invariant gives.\<close>

lemma q_inv_one_holder:
  assumes "q_inv q l" and "l_state l = LOCKED_FOR_WRITE \<or> l_state l = LOCKED_FOR_READ_WRITE"
    and "um_has (l_holders l) t" and "um_has (l_holders l) u"
  shows "t = u"
proof -
  have "length (l_holders l) \<le> 1" using assms(1,2) by (auto simp: q_inv_def)
  then consider "l_holders l = []" | p where "l_holders l = [p]"
    by (cases "l_holders l") auto
  then show ?thesis using assms(3,4)
  proof cases
    case (2 p)
    then show ?thesis using assms(3,4) by (cases p) simp
  qed simp
qed

section \<open>Popping waiters\<close>

definition wait_state :: "waiter \<Rightarrow> lock_state" where
  "wait_state w = (if w_read w \<and> w_write w then LOCKED_FOR_READ_WRITE
                   else if w_write w then LOCKED_FOR_WRITE else LOCKED_FOR_READ)"

text \<open>
  The loop rule: under the invariant \<open>PopWaiter_loop\<close> returns, and any property of
  state, holders, waiters and notifications that the three kinds of grant keep
  holds of its result.
\<close>

lemma PopWaiter_loop_rule:
  assumes "q_inv q l" and "P (l_state l) (l_holders l) (l_waiters l) n"
    and free: "\<And>st ws n t ts w. P st [] ws n \<Longrightarrow> map_of ws t = Some w \<Longrightarrow> waiter_ok t w \<Longrightarrow>
      w_waiters w = [(t, ts)] \<Longrightarrow>
      P (wait_state w) [(t, ts)] (um_erase t ws) (us_add t n)"
    and upgrade: "\<And>hs ws n t w. P LOCKED_FOR_READ hs ws n \<Longrightarrow> um_keys hs = [t] \<Longrightarrow>
      map_of ws t = Some w \<Longrightarrow> w_write w \<Longrightarrow>
      P LOCKED_FOR_READ_WRITE hs (um_erase t ws) (us_add t n)"
    and join: "\<And>hs ws n t ts w. P LOCKED_FOR_READ hs ws n \<Longrightarrow> hs \<noteq> [] \<Longrightarrow> map_of ws t = Some w \<Longrightarrow>
      \<not> w_write w \<Longrightarrow> waiter_ok t w \<Longrightarrow> w_waiters w = [(t, ts)] \<Longrightarrow>
      P LOCKED_FOR_READ (um_emplace t ts hs) (um_erase t ws) (us_add t n)"
  shows "\<exists>l' n'. PopWaiter_loop q l n = Inr (l', n') \<and> q_inv (l_wait_q l') l' \<and>
    (l_holders l' = [] \<longrightarrow> l_waiters l' = []) \<and> P (l_state l') (l_holders l') (l_waiters l') n'"
  using assms(1,2)
proof (induction q arbitrary: l n)
  case Nil
  then show ?case by (simp add: q_inv_def)
next
  case (Cons h q)
  show ?case
  proof (cases "map_of (l_waiters l) h")
    case None
    then have "\<not> um_has (l_waiters l) h" by (simp add: um_has_def)
    with Cons.prems(1) have "q_inv q l" by (auto simp: q_inv_def)
    from Cons.IH [OF this Cons.prems(2)] None show ?thesis by simp
  next
    case (Some w)
    from Cons.prems(1) Some have wk: "waiter_ok h w" by (simp add: q_inv_def)
    then obtain ts where ts: "w_waiters w = [(h, ts)]" by (auto simp: waiter_ok_def)
    let ?st = "l_state l" and ?hs = "l_holders l" and ?ws = "l_waiters l"
    have erase: "um_ok (um_erase h ?ws)" "\<forall>t. um_has (um_erase h ?ws) t \<longrightarrow> t \<in> set q" "distinct q"
      and wok: "\<forall>t w. map_of (um_erase h ?ws) t = Some w \<longrightarrow> waiter_ok t w"
      using Cons.prems(1) by (auto simp: q_inv_def)
    note I = Cons.prems(1) [unfolded q_inv_def]
    consider (free) "?hs = []"
      | (upgrade) "?hs \<noteq> []" "?st = LOCKED_FOR_READ" "length ?hs = 1 \<and> w_write w \<and> um_has ?hs h"
      | (join) "?hs \<noteq> []" "?st = LOCKED_FOR_READ" "\<not> w_write w"
          "\<not> (length ?hs = 1 \<and> w_write w \<and> um_has ?hs h)"
      | (blocked) "?hs \<noteq> []" "?st = LOCKED_FOR_READ" "w_write w"
          "\<not> (length ?hs = 1 \<and> w_write w \<and> um_has ?hs h)"
      | (held) "?hs \<noteq> []" "?st = LOCKED_FOR_WRITE \<or> ?st = LOCKED_FOR_READ_WRITE"
      using I by (cases ?st) auto
    then show ?thesis
    proof cases
      case free
      let ?l = "l\<lparr>l_state := wait_state w, l_holders := [(h, ts)], l_waiters := um_erase h ?ws\<rparr>"
      have "q_inv q ?l" using erase wok by (simp add: q_inv_def um_ok_def wait_state_def)
      moreover have "P (l_state ?l) (l_holders ?l) (l_waiters ?l) (us_add h n)"
        using assms(3) [of ?st ?ws n h w ts] Cons.prems(2) free Some ts wk by simp
      ultimately show ?thesis using Cons.IH [of ?l "us_add h n"] free Some ts
        by (simp add: wait_state_def)
    next
      case upgrade
      let ?l = "l\<lparr>l_state := LOCKED_FOR_READ_WRITE, l_waiters := um_erase h ?ws\<rparr>"
      have "um_keys ?hs = [h]" using upgrade by (intro um_singleton) auto
      moreover have "q_inv q ?l" using erase wok I upgrade by (simp add: q_inv_def)
      ultimately show ?thesis
        using Cons.IH [of ?l "us_add h n"] Cons.prems(2) assms(4) [of ?hs ?ws n h w] upgrade Some
        by simp
    next
      case join
      let ?l = "l\<lparr>l_holders := um_emplace h ts ?hs, l_waiters := um_erase h ?ws\<rparr>"
      have "q_inv q ?l" using erase wok I join by (simp add: q_inv_def)
      then show ?thesis
        using Cons.IH [of ?l "us_add h n"] Cons.prems(2) assms(5) [of ?hs ?ws n h w ts] join Some ts wk
        by simp
    next
      case blocked
      then show ?thesis using Cons.prems Some by (auto simp: q_inv_def)
    next
      case held
      then show ?thesis using Cons.prems Some by (auto simp: q_inv_def)
    qed
  qed
qed

lemma PopWaiter_rule:
  assumes "q_inv (l_wait_q l) l" and "P (l_state l) (l_holders l) (l_waiters l) n"
    and free: "\<And>st ws n t ts w. P st [] ws n \<Longrightarrow> map_of ws t = Some w \<Longrightarrow> waiter_ok t w \<Longrightarrow>
      w_waiters w = [(t, ts)] \<Longrightarrow>
      P (wait_state w) [(t, ts)] (um_erase t ws) (us_add t n)"
    and upgrade: "\<And>hs ws n t w. P LOCKED_FOR_READ hs ws n \<Longrightarrow> um_keys hs = [t] \<Longrightarrow>
      map_of ws t = Some w \<Longrightarrow> w_write w \<Longrightarrow>
      P LOCKED_FOR_READ_WRITE hs (um_erase t ws) (us_add t n)"
    and join: "\<And>hs ws n t ts w. P LOCKED_FOR_READ hs ws n \<Longrightarrow> hs \<noteq> [] \<Longrightarrow> map_of ws t = Some w \<Longrightarrow>
      \<not> w_write w \<Longrightarrow> waiter_ok t w \<Longrightarrow> w_waiters w = [(t, ts)] \<Longrightarrow>
      P LOCKED_FOR_READ (um_emplace t ts hs) (um_erase t ws) (us_add t n)"
    and unlocked: "\<And>st ws n. P st [] ws n \<Longrightarrow> P UNLOCKED [] ws n"
  shows "\<exists>l' n'. PopWaiter l n = Inr (l', n') \<and> lock_inv l' \<and>
    P (l_state l') (l_holders l') (l_waiters l') n'"
proof -
  have "\<exists>l' n'. PopWaiter_loop (l_wait_q l) l n = Inr (l', n') \<and> q_inv (l_wait_q l') l' \<and>
    (l_holders l' = [] \<longrightarrow> l_waiters l' = []) \<and> P (l_state l') (l_holders l') (l_waiters l') n'"
    by (rule PopWaiter_loop_rule [where P = P, OF assms(1,2)])
      (erule (3) free, erule (3) upgrade, erule (5) join)
  then obtain l' n'
    where loop: "PopWaiter_loop (l_wait_q l) l n = Inr (l', n')" and inv: "q_inv (l_wait_q l') l'"
      and empty: "l_holders l' = [] \<longrightarrow> l_waiters l' = []"
      and P: "P (l_state l') (l_holders l') (l_waiters l') n'" by blast
  show ?thesis
  proof (cases "l_holders l' = []")
    case True
    let ?l = "l'\<lparr>l_state := UNLOCKED\<rparr>"
    have "PopWaiter l n = Inr (?l, n')" using loop True by (simp add: PopWaiter_def)
    moreover have "lock_inv ?l" using inv empty True by (simp add: lock_inv_def q_inv_def)
    moreover have "P UNLOCKED [] (l_waiters l') n'"
      using unlocked [of "l_state l'" "l_waiters l'" n'] P True by simp
    ultimately show ?thesis using True by auto
  next
    case False
    then have "PopWaiter l n = Inr (l', n')" using loop by (simp add: PopWaiter_def)
    moreover have "lock_inv l'" using inv False by (simp add: lock_inv_def)
    ultimately show ?thesis using P by blast
  qed
qed

section \<open>Wounding\<close>

text \<open>The requests a lock knows of, granted or queued, with their timestamps.\<close>

definition requests :: "lock \<Rightarrow> txn_id \<Rightarrow> timestamp \<Rightarrow> bool" where
  "requests l t s \<longleftrightarrow> (t, s) \<in> set (l_holders l) \<or>
     (\<exists>h w. map_of (l_waiters l) h = Some w \<and> (t, s) \<in> set (w_waiters w))"

text \<open>\<open>wound'\<close> adds to \<open>wound\<close> only requests of other transactions that are younger than \<open>ts\<close>.\<close>

definition wounds_younger :: "lock \<Rightarrow> txn_id \<Rightarrow> timestamp \<Rightarrow> txn_id uset \<Rightarrow> txn_id uset \<Rightarrow> bool" where
  "wounds_younger l r ts wound wound' \<longleftrightarrow> set wound \<subseteq> set wound' \<and>
     (\<forall>t \<in> set wound' - set wound. t \<noteq> r \<and> (\<exists>s. ts < s \<and> requests l t s))"

definition younger_in :: "txn_id \<Rightarrow> timestamp \<Rightarrow> (txn_id, timestamp) umap \<Rightarrow> txn_id set" where
  "younger_in r ts m = {t. t \<noteq> r \<and> (\<exists>s. (t, s) \<in> set m \<and> ts < s)}"

lemma set_wound_younger [simp]:
  "set (wound_younger r ts m wound) = set wound \<union> younger_in r ts m"
  unfolding wound_younger_def
proof (induction m arbitrary: wound)
  case Nil
  then show ?case by (simp add: younger_in_def)
next
  case (Cons p m)
  obtain t s where p: "p = (t, s)" by (cases p)
  have "younger_in r ts (p # m) =
    (if t \<noteq> r \<and> ts < s then insert t (younger_in r ts m) else younger_in r ts m)"
    by (auto simp: younger_in_def p)
  then show ?case using Cons.IH by (simp add: p)
qed

lemma wounds_younger_refl [simp]: "wounds_younger l r ts wound wound"
  by (simp add: wounds_younger_def)

lemma wounds_younger_trans:
  "wounds_younger l r ts a b \<Longrightarrow> wounds_younger l r ts b c \<Longrightarrow> wounds_younger l r ts a c"
  by (auto simp: wounds_younger_def)

lemma wounds_younger_step:
  "(\<And>t s. (t, s) \<in> set m \<Longrightarrow> requests l t s) \<Longrightarrow>
   wounds_younger l r ts wound (wound_younger r ts m wound)"
  by (auto simp: wounds_younger_def younger_in_def)

lemma wounds_younger_waiter:
  "map_of (l_waiters l) h = Some w \<Longrightarrow>
   wounds_younger l r ts wound (wound_younger r ts (w_waiters w) wound)"
  by (rule wounds_younger_step) (auto simp: requests_def)

lemma wounds_younger_holders:
  "wounds_younger l r ts wound (wound_younger r ts (l_holders l) wound)"
  by (rule wounds_younger_step) (simp add: requests_def)

text \<open>The two passes over the queue drop stale entries only and wound younger waiters only.\<close>

lemma ReadWait_queue_correct:
  "ReadWait_queue (l_waiters l) r ts q wound = (q', wound') \<Longrightarrow>
   q' = filter (um_has (l_waiters l)) q \<and> wounds_younger l r ts wound wound'"
proof (induction q arbitrary: wound q' wound')
  case Nil
  then show ?case by simp
next
  case (Cons h q)
  show ?case
  proof (cases "map_of (l_waiters l) h")
    case None
    with Cons show ?thesis by (simp add: um_has_def)
  next
    case (Some w)
    let ?wd = "if w_write w then wound_younger r ts (w_waiters w) wound else wound"
    obtain q1 wd1 where rec: "ReadWait_queue (l_waiters l) r ts q ?wd = (q1, wd1)" by fastforce
    from Cons.prems Some rec have "q' = h # q1" "wound' = wd1" by simp_all
    moreover have "wounds_younger l r ts wound ?wd" using Some by (simp add: wounds_younger_waiter)
    ultimately show ?thesis using Cons.IH [OF rec] Some
      by (auto simp: um_has_def intro: wounds_younger_trans)
  qed
qed

lemma WriteWait_queue_correct:
  "WriteWait_queue (l_waiters l) r ts rw q wound = (q', wound') \<Longrightarrow>
   (\<forall>t w. map_of (l_waiters l) t = Some w \<longrightarrow> waiter_ok t w) \<Longrightarrow> distinct q \<Longrightarrow>
   distinct q' \<and> set q' \<subseteq> set q \<and> (\<forall>h \<in> set q. um_has (l_waiters l) h \<longrightarrow> h \<in> set q') \<and>
   (\<not> um_has (l_waiters l) r \<longrightarrow> (\<forall>h \<in> set q'. um_has (l_waiters l) h)) \<and>
   wounds_younger l r ts wound wound'"
proof (induction q arbitrary: wound q' wound')
  case Nil
  then show ?case by simp
next
  case (Cons h q)
  show ?case
  proof (cases "map_of (l_waiters l) h")
    case None
    with Cons.prems have "WriteWait_queue (l_waiters l) r ts rw q wound = (q', wound')" by simp
    from Cons.IH [OF this Cons.prems(2)] Cons.prems(3) None show ?thesis
      by (auto simp: um_has_def)
  next
    case (Some w)
    then have w: "waiter_ok h w" using Cons.prems(2) by blast
    show ?thesis
    proof (cases "h = r")
      case True
      with Cons.prems(1) Some w have "q' = h # q" "wound' = wound" by simp_all
      then show ?thesis using Cons.prems(3) True Some by (auto simp: um_has_def)
    next
      case False
      let ?wd = "if \<not> (rw \<and> w_write w) then wound_younger r ts (w_waiters w) wound else wound"
      obtain q1 wd1 where rec: "WriteWait_queue (l_waiters l) r ts rw q ?wd = (q1, wd1)" by fastforce
      from Cons.prems(1) Some rec False w have res: "q' = h # q1" "wound' = wd1" by simp_all
      have wd: "wounds_younger l r ts wound ?wd" using Some by (simp add: wounds_younger_waiter)
      have "distinct q" using Cons.prems(3) by simp
      note IH = Cons.IH [OF rec Cons.prems(2) this]
      have "wounds_younger l r ts wound wound'"
        using IH wd res by (blast intro: wounds_younger_trans)
      then show ?thesis using IH res Some Cons.prems(3) by (auto simp: um_has_def)
    qed
  qed
qed

section \<open>Queueing a request\<close>

lemma lock_invD:
  assumes "lock_inv l"
  shows "um_ok (l_holders l)" "um_ok (l_waiters l)" "distinct (l_wait_q l)"
    and "\<And>t w. map_of (l_waiters l) t = Some w \<Longrightarrow> waiter_ok t w"
    and "\<And>t. um_has (l_waiters l) t \<Longrightarrow> t \<in> set (l_wait_q l)"
    and "l_holders l = [] \<longleftrightarrow> l_state l = UNLOCKED"
    and "l_state l = LOCKED_FOR_WRITE \<or> l_state l = LOCKED_FOR_READ_WRITE \<Longrightarrow> length (l_holders l) \<le> 1"
    and "l_holders l = [] \<Longrightarrow> l_waiters l = []"
  using assms by (auto simp: lock_inv_def q_inv_def)

text \<open>A change of queue and waiters that keeps the lock well formed.\<close>

lemma lock_inv_queue:
  assumes "lock_inv l" and "l_holders l \<noteq> []" and "distinct q" and "um_ok ws"
    and "\<And>t w. map_of ws t = Some w \<Longrightarrow> waiter_ok t w" and "\<And>t. um_has ws t \<Longrightarrow> t \<in> set q"
  shows "lock_inv (l\<lparr>l_wait_q := q, l_waiters := ws\<rparr>)"
  using assms by (auto simp: lock_inv_def q_inv_def)

lemma lock_inv_enqueue:
  assumes "lock_inv l" and "l_holders l \<noteq> []" and "distinct q" and "r \<notin> set q" and "um_ok ws"
    and "waiter_ok r w" and "\<And>t w. map_of ws t = Some w \<Longrightarrow> waiter_ok t w"
    and "\<And>t. um_has ws t \<Longrightarrow> t \<in> set q"
  shows "lock_inv (l\<lparr>l_wait_q := q @ [r], l_waiters := um_emplace r w ws\<rparr>)"
  using assms(1,2) by (rule lock_inv_queue) (use assms(3-8) in \<open>auto simp: map_of_emplace split: if_splits\<close>)

lemma waiter_ok_read: "waiter_ok t w \<Longrightarrow> waiter_ok t (w\<lparr>w_read := True\<rparr>)"
  by (simp add: waiter_ok_def)

lemma waiter_ok_write: "waiter_ok t w \<Longrightarrow> waiter_ok t (w\<lparr>w_write := True\<rparr>)"
  by (simp add: waiter_ok_def)

definition waits_read :: "lock \<Rightarrow> txn_id \<Rightarrow> bool" where
  "waits_read l t \<longleftrightarrow> t \<in> set (l_wait_q l) \<and> (\<exists>w. map_of (l_waiters l) t = Some w \<and> w_read w)"

definition waits_write :: "lock \<Rightarrow> txn_id \<Rightarrow> bool" where
  "waits_write l t \<longleftrightarrow> t \<in> set (l_wait_q l) \<and> (\<exists>w. map_of (l_waiters l) t = Some w \<and> w_write w)"

lemma ReadWait_correct:
  assumes inv: "lock_inv l" and ne: "l_holders l \<noteq> []" and res: "ReadWait r ts l wound = (l', wound')"
  shows "lock_inv l'" and "l_state l' = l_state l" and "l_holders l' = l_holders l"
    and "waits_read l' r" and "wounds_younger l r ts wound wound'"
    and "\<not> um_has (l_waiters l) r \<Longrightarrow>
      l_state l = LOCKED_FOR_WRITE \<or> l_state l = LOCKED_FOR_READ_WRITE \<Longrightarrow>
      younger_in r ts (l_holders l) \<subseteq> set wound'"
proof -
  note I = lock_invD [OF inv]
  have "lock_inv l' \<and> l_state l' = l_state l \<and> l_holders l' = l_holders l \<and> waits_read l' r \<and>
    wounds_younger l r ts wound wound' \<and> (\<not> um_has (l_waiters l) r \<longrightarrow>
      l_state l = LOCKED_FOR_WRITE \<or> l_state l = LOCKED_FOR_READ_WRITE \<longrightarrow>
      younger_in r ts (l_holders l) \<subseteq> set wound')"
  proof (cases "map_of (l_waiters l) r")
    case (Some w)
    let ?ws = "um_put r (w\<lparr>w_read := True\<rparr>) (l_waiters l)"
    have l': "l' = l\<lparr>l_wait_q := l_wait_q l, l_waiters := ?ws\<rparr>" "wound' = wound"
      using res Some by (auto simp: ReadWait_def)
    have "lock_inv l'" unfolding l'
      by (rule lock_inv_queue [OF inv ne])
        (use I Some in \<open>auto simp: um_has_Some waiter_ok_read split: if_splits\<close>)
    then show ?thesis using l' Some I(5) [of r]
      by (auto simp: waits_read_def um_has_Some)
  next
    case None
    obtain q wd where q: "ReadWait_queue (l_waiters l) r ts (l_wait_q l) wound = (q, wd)" by fastforce
    from ReadWait_queue_correct [OF q]
    have qf: "q = filter (um_has (l_waiters l)) (l_wait_q l)"
      and wd: "wounds_younger l r ts wound wd" by simp_all
    let ?ws = "um_emplace r (Waiter_init True False r ts) (l_waiters l)"
    let ?W = "l_state l = LOCKED_FOR_WRITE \<or> l_state l = LOCKED_FOR_READ_WRITE"
    have l': "l' = l\<lparr>l_wait_q := q @ [r], l_waiters := ?ws\<rparr>"
      and w': "wound' = (if ?W then wound_younger r ts (l_holders l) wd else wd)"
      using res None q by (auto simp: ReadWait_def AddReadWaiter_def Let_def)
    have "lock_inv l'" unfolding l'
      by (rule lock_inv_enqueue [OF inv ne]) (use I None in \<open>auto simp: qf um_has_def\<close>)
    moreover have "wounds_younger l r ts wound wound'"
      using wd wounds_younger_holders [of l r ts wd] by (auto simp: w' intro: wounds_younger_trans)
    ultimately show ?thesis using None
      by (auto simp: l' w' waits_read_def map_of_emplace um_has_def Waiter_init_def add_waiter_def)
  qed
  then show "lock_inv l'" and "l_state l' = l_state l" and "l_holders l' = l_holders l"
    and "waits_read l' r" and "wounds_younger l r ts wound wound'"
    and "\<not> um_has (l_waiters l) r \<Longrightarrow>
      l_state l = LOCKED_FOR_WRITE \<or> l_state l = LOCKED_FOR_READ_WRITE \<Longrightarrow>
      younger_in r ts (l_holders l) \<subseteq> set wound'" by blast+
qed

lemma WriteWait_rest_correct:
  assumes inv: "lock_inv l" and ne: "l_holders l \<noteq> []"
    and safe: "safe \<Longrightarrow> \<exists>w. map_of (l_waiters l) r = Some w \<and> w_write w"
    and unsafe: "\<not> safe \<Longrightarrow> \<not> um_has (l_waiters l) r"
    and res: "WriteWait_rest rw safe r ts l wound = (l', wound')"
  shows "lock_inv l' \<and> l_state l' = l_state l \<and> l_holders l' = l_holders l \<and> waits_write l' r \<and>
    wounds_younger l r ts wound wound' \<and>
    (\<not> rw \<or> l_state l = LOCKED_FOR_READ \<longrightarrow> younger_in r ts (l_holders l) \<subseteq> set wound')"
proof -
  note I = lock_invD [OF inv]
  obtain q wd where q: "WriteWait_queue (l_waiters l) r ts rw (l_wait_q l) wound = (q, wd)"
    by fastforce
  note Q = WriteWait_queue_correct [OF q _ I(3)]
  have dq: "distinct q" and keep: "\<And>t. um_has (l_waiters l) t \<Longrightarrow> t \<in> set q"
    and live: "\<not> um_has (l_waiters l) r \<Longrightarrow> r \<notin> set q"
    and wd: "wounds_younger l r ts wound wd" using Q I(4,5) by blast+
  let ?H = "\<not> rw \<or> l_state l = LOCKED_FOR_READ"
  have w': "wound' = (if ?H then wound_younger r ts (l_holders l) wd else wd)"
    using res q by (auto simp: WriteWait_rest_def Let_def)
  have younger: "wounds_younger l r ts wound wound'"
    using wd wounds_younger_holders [of l r ts wd] by (auto simp: w' intro: wounds_younger_trans)
  have l'_safe: "safe \<Longrightarrow> l' = l\<lparr>l_wait_q := q, l_waiters := l_waiters l\<rparr>"
    using res q by (auto simp: WriteWait_rest_def Let_def)
  have l'_unsafe: "\<not> safe \<Longrightarrow> l' = l\<lparr>l_wait_q := q @ [r],
      l_waiters := um_emplace r (Waiter_init rw True r ts) (l_waiters l)\<rparr>"
    using res q by (auto simp: WriteWait_rest_def Let_def AddReadWriteWaiter_def AddWriteWaiter_def)
  show ?thesis
  proof (cases safe)
    case True
    have "lock_inv l'" unfolding l'_safe [OF True]
      by (rule lock_inv_queue [OF inv ne dq I(2) I(4) keep])
    moreover have "waits_write l' r"
      using safe [OF True] keep [of r] by (auto simp: l'_safe [OF True] waits_write_def um_has_Some)
    ultimately show ?thesis using younger by (auto simp: l'_safe [OF True] w')
  next
    case False
    note r = unsafe [OF False]
    have "lock_inv l'" unfolding l'_unsafe [OF False]
      by (rule lock_inv_enqueue [OF inv ne dq live [OF r] I(2) waiter_ok_init I(4) keep]) simp
    moreover have "waits_write l' r" using r
      by (simp add: l'_unsafe [OF False] waits_write_def map_of_emplace Waiter_init_def add_waiter_def)
    ultimately show ?thesis using younger by (auto simp: l'_unsafe [OF False] w')
  qed
qed

lemma requests_put:
  assumes "map_of (l_waiters l) r = Some w" and "w_waiters w' = w_waiters w"
    and "requests (l\<lparr>l_waiters := um_put r w' (l_waiters l)\<rparr>) t s"
  shows "requests l t s"
  using assms by (auto simp: requests_def split: if_splits)

lemma requests_erase:
  "requests (l\<lparr>l_waiters := um_erase r ws\<rparr>) t s \<Longrightarrow>
   (\<And>h. h \<noteq> r \<Longrightarrow> map_of ws h = map_of (l_waiters l) h) \<Longrightarrow> requests l t s"
  by (auto simp: requests_def split: if_splits)

lemma wounds_younger_mono:
  "wounds_younger l1 r ts a b \<Longrightarrow> (\<And>t s. requests l1 t s \<Longrightarrow> requests l t s) \<Longrightarrow>
   wounds_younger l r ts a b"
  unfolding wounds_younger_def by meson

lemma WriteWait_correct:
  assumes inv: "lock_inv l" and ne: "l_holders l \<noteq> []" and res: "WriteWait r ts l wound = (l', wound')"
  shows "lock_inv l' \<and> l_state l' = l_state l \<and> l_holders l' = l_holders l \<and> waits_write l' r \<and>
    wounds_younger l r ts wound wound' \<and>
    (\<not> um_has (l_waiters l) r \<longrightarrow> younger_in r ts (l_holders l) \<subseteq> set wound')"
proof (cases "map_of (l_waiters l) r")
  case None
  then have "\<not> um_has (l_waiters l) r" by (simp add: um_has_def)
  from WriteWait_rest_correct [OF inv ne _ this, of False False ts wound l' wound'] res None
  show ?thesis by (simp add: WriteWait_def)
next
  case (Some w)
  note I = lock_invD [OF inv]
  have r: "um_has (l_waiters l) r" using Some by (simp add: um_has_Some)
  show ?thesis
  proof (cases "w_write w")
    case True
    with res Some have "l' = l" "wound' = wound" by (simp_all add: WriteWait_def)
    then show ?thesis using Some True inv r I(5) by (auto simp: waits_write_def)
  next
    case False
    define safe where "safe = WriteWait_safe (l_waiters l) r ts (rev (l_wait_q l)) (length (w_waiters w) = 1)"
    define l1 where "l1 = (if safe then l\<lparr>l_waiters := um_put r (w\<lparr>w_write := True\<rparr>) (l_waiters l)\<rparr>
      else l\<lparr>l_waiters := um_erase r (um_put r (remove_waiter r w) (l_waiters l))\<rparr>)"
    have rest: "WriteWait_rest True safe r ts l1 wound = (l', wound')"
      using res Some False by (simp add: WriteWait_def safe_def l1_def Let_def)
    have eq: "l\<lparr>l_wait_q := l_wait_q l, l_waiters := ws\<rparr> = l\<lparr>l_waiters := ws\<rparr>" for ws by simp
    have wok: "waiter_ok r (w\<lparr>w_write := True\<rparr>)" using I(4) [OF Some] by (rule waiter_ok_write)
    let ?ws = "if safe then um_put r (w\<lparr>w_write := True\<rparr>) (l_waiters l)
      else um_erase r (um_put r (remove_waiter r w) (l_waiters l))"
    have "lock_inv (l\<lparr>l_wait_q := l_wait_q l, l_waiters := ?ws\<rparr>)"
      by (rule lock_inv_queue [OF inv ne I(3)])
        (use I(2,4,5) r wok in \<open>auto split: if_splits\<close>)
    then have "lock_inv l1" by (cases safe) (simp_all add: l1_def eq)
    moreover have l1: "l_state l1 = l_state l" "l_holders l1 = l_holders l" by (simp_all add: l1_def)
    moreover have "safe \<Longrightarrow> \<exists>w. map_of (l_waiters l1) r = Some w \<and> w_write w"
      and "\<not> safe \<Longrightarrow> \<not> um_has (l_waiters l1) r" by (simp_all add: l1_def)
    moreover have "requests l1 t s \<Longrightarrow> requests l t s" for t s
      using Some by (cases safe) (auto simp: l1_def elim: requests_put [rotated 2] requests_erase)
    ultimately show ?thesis using WriteWait_rest_correct [OF _ _ _ _ rest] ne r
      by (auto intro: wounds_younger_mono)
  qed
qed

section \<open>What a request gets\<close>

text \<open>Rights are only gained while locks are acquired.\<close>

definition rights_kept :: "lock \<Rightarrow> lock \<Rightarrow> bool" where
  "rights_kept l l' \<longleftrightarrow>
     (\<forall>t. (holds_read l t \<longrightarrow> holds_read l' t) \<and> (holds_write l t \<longrightarrow> holds_write l' t))"

lemma rights_kept_same:
  "l_state l' = l_state l \<Longrightarrow> l_holders l' = l_holders l \<Longrightarrow> rights_kept l l'"
  by (simp add: rights_kept_def holds_read_def holds_write_def)

lemma isWriteNext_queue: "isWriteNext ws q = (b, q') \<Longrightarrow>
  \<exists>p. q = p @ q' \<and> (\<forall>h \<in> set p. \<not> um_has ws h)"
proof (induction q)
  case Nil
  then show ?case by simp
next
  case (Cons h q)
  show ?case
  proof (cases "map_of ws h")
    case None
    with Cons obtain p where "q = p @ q'" "\<forall>h \<in> set p. \<not> um_has ws h" by auto
    with None show ?thesis by (intro exI [of _ "h # p"]) (simp add: um_has_def)
  next
    case (Some w)
    with Cons.prems show ?thesis by (intro exI [of _ "[]"]) simp
  qed
qed

lemma SafeUpgradeToRW_queue: "SafeUpgradeToRW ws ts q = Inr (b, q') \<Longrightarrow> distinct q \<Longrightarrow>
  distinct q' \<and> set q' \<subseteq> set q \<and> (\<forall>h \<in> set q. um_has ws h \<longrightarrow> h \<in> set q')"
proof (induction ws ts q arbitrary: q' rule: SafeUpgradeToRW.induct)
  case (1 ws ts)
  then show ?case by simp
next
  case (2 ws ts h q)
  show ?case
  proof (cases "map_of ws h")
    case None
    show ?thesis
    proof (cases q)
      case Nil
      with 2(3) None show ?thesis by simp
    next
      case (Cons h' q1)
      with 2(3) None obtain q2 where q2: "SafeUpgradeToRW ws ts q1 = Inr (b, q2)" "q' = h' # q2"
        by (auto split: prod.splits)
      from 2(1) [OF None Cons q2(1)] 2(4) Cons None q2(2) show ?thesis by (auto simp: um_has_def)
    qed
  next
    case (Some w)
    show ?thesis
    proof (cases "list_ex (\<lambda>p. ts < snd p) (w_waiters w)")
      case True
      with 2(3) Some have "q' = h # q" by simp
      with 2(4) show ?thesis by simp
    next
      case False
      with 2(3) Some obtain q2 where q2: "SafeUpgradeToRW ws ts q = Inr (b, q2)" "q' = h # q2"
        by (auto split: prod.splits)
      from 2(2) [OF Some False q2(1)] 2(4) q2(2) show ?thesis by auto
    qed
  qed
qed

lemma lock_inv_set_queue:
  "lock_inv l \<Longrightarrow> distinct q \<Longrightarrow> (\<And>t. um_has (l_waiters l) t \<Longrightarrow> t \<in> set q) \<Longrightarrow>
   lock_inv (l\<lparr>l_wait_q := q\<rparr>)"
  by (auto simp: lock_inv_def q_inv_def)

lemma lock_inv_grant_free:
  "lock_inv l \<Longrightarrow> l_holders l = [] \<Longrightarrow> st \<noteq> UNLOCKED \<Longrightarrow>
   lock_inv (l\<lparr>l_state := st, l_holders := um_put r ts (l_holders l)\<rparr>)"
  by (auto simp: lock_inv_def q_inv_def um_ok_def)

text \<open>
  The outcome of a request: it is granted without wounding anyone, or queued after
  wounding younger transactions only; nobody's rights shrink and the lock stays
  well formed.
\<close>

definition request_done :: "(lock \<Rightarrow> txn_id \<Rightarrow> bool) \<Rightarrow> (lock \<Rightarrow> txn_id \<Rightarrow> bool) \<Rightarrow> txn_id \<Rightarrow> timestamp \<Rightarrow>
    lock \<Rightarrow> txn_id uset \<Rightarrow> reply_code \<Rightarrow> lock \<Rightarrow> txn_id uset \<Rightarrow> bool" where
  "request_done hld waits r ts l wound ret l' wound' \<longleftrightarrow>
     lock_inv l' \<and> rights_kept l l' \<and>
     (ret = REPLY_OK \<and> hld l' r \<and> wound' = wound \<or>
      ret = REPLY_WAIT \<and> waits l' r \<and> wounds_younger l r ts wound wound')"

lemma TryAcquireReadLock_correct:
  assumes inv: "lock_inv l"
  shows "\<exists>ret l' wound'. TryAcquireReadLock r ts l wound = Inr (ret, l', wound') \<and>
    request_done holds_read waits_read r ts l wound ret l' wound'"
proof -
  note I = lock_invD [OF inv]
  consider (free) "l_state l = UNLOCKED" | (held) "l_state l \<noteq> UNLOCKED" "um_has (l_holders l) r"
    | (other) "l_state l \<noteq> UNLOCKED" "\<not> um_has (l_holders l) r" by blast
  then show ?thesis
  proof cases
    case free
    then show ?thesis using I(6) lock_inv_grant_free [OF inv, of LOCKED_FOR_READ r ts]
      by (simp add: TryAcquireReadLock_def request_done_def rights_kept_def holds_read_def holds_write_def)
  next
    case held
    have "lock_inv (l\<lparr>l_state := LOCKED_FOR_READ_WRITE\<rparr>)" if "l_state l = LOCKED_FOR_WRITE"
      using inv that held by (auto simp: lock_inv_def q_inv_def)
    with held inv show ?thesis
      by (cases "l_state l") (auto simp: TryAcquireReadLock_def request_done_def rights_kept_def holds_read_def holds_write_def)
  next
    case other
    have ne: "l_holders l \<noteq> []" using I(6) other by simp
    obtain wn q where q: "(if l_state l = LOCKED_FOR_READ then isWriteNext (l_waiters l) (l_wait_q l)
      else (True, l_wait_q l)) = (wn, q)" by fastforce
    have dq: "distinct q \<and> (\<forall>t. um_has (l_waiters l) t \<longrightarrow> t \<in> set q)"
      using q isWriteNext_queue [of "l_waiters l" "l_wait_q l" wn q] I(3,5)
      by (fastforce split: if_splits)
    define l1 where "l1 = l\<lparr>l_wait_q := q\<rparr>"
    have inv1: "lock_inv l1" unfolding l1_def by (rule lock_inv_set_queue [OF inv]) (use dq in auto)
    have l1: "l_holders l1 = l_holders l" "l_state l1 = l_state l" "l_waiters l1 = l_waiters l"
      by (simp_all add: l1_def)
    show ?thesis
    proof (cases "l_state l = LOCKED_FOR_READ \<and> \<not> wn")
      case True
      let ?l = "l1\<lparr>l_holders := um_put r ts (l_holders l1)\<rparr>"
      have "lock_inv ?l" using inv1 True l1 by (auto simp: lock_inv_def q_inv_def)
      with True other q l1 show ?thesis
        by (auto simp: TryAcquireReadLock_def request_done_def l1_def Let_def rights_kept_def
          holds_read_def holds_write_def)
    next
      case False
      obtain l2 wd where rw: "ReadWait r ts l1 wound = (l2, wd)" by fastforce
      note R = ReadWait_correct [OF inv1 _ rw]
      have "requests l1 = requests l" by (simp add: requests_def l1 fun_eq_iff)
      then have "wounds_younger l r ts wound wd" using R(5) ne l1
        by (simp add: wounds_younger_def)
      moreover have "rights_kept l l2" using R(2,3) ne l1 by (simp add: rights_kept_same)
      moreover have "TryAcquireReadLock r ts l wound = Inr (REPLY_WAIT, l2, wd)"
        using False other q rw by (auto simp: TryAcquireReadLock_def l1_def Let_def)
      ultimately show ?thesis using R(1,4) ne l1 by (simp add: request_done_def)
    qed
  qed
qed

lemma requests_queue: "requests (l\<lparr>l_wait_q := q\<rparr>) = requests l"
  by (simp add: requests_def fun_eq_iff)

lemma wait_write_done:
  assumes "lock_inv (l\<lparr>l_wait_q := q\<rparr>)" and "l_holders l \<noteq> []"
    and "WriteWait r ts (l\<lparr>l_wait_q := q\<rparr>) wound = (l', wound')"
  shows "request_done holds_write waits_write r ts l wound REPLY_WAIT l' wound'"
proof -
  have "wounds_younger (l\<lparr>l_wait_q := q\<rparr>) r ts wound wound' = wounds_younger l r ts wound wound'"
    by (simp add: wounds_younger_def requests_queue)
  then show ?thesis using WriteWait_correct [OF assms(1) _ assms(3)] assms(2)
    by (simp add: request_done_def rights_kept_same)
qed

text \<open>
  A write request may run into the iterator fault of \<open>SafeUpgradeToRW\<close>; when the
  call returns, it has kept its promises.
\<close>

lemma TryAcquireWriteLock_correct:
  assumes inv: "lock_inv l" and res: "TryAcquireWriteLock r ts l wound = Inr (ret, l', wound')"
  shows "request_done holds_write waits_write r ts l wound ret l' wound'"
proof -
  note I = lock_invD [OF inv]
  have l: "l\<lparr>l_wait_q := l_wait_q l\<rparr> = l" by simp
  let ?sole = "length (l_holders l) = 1 \<and> um_has (l_holders l) r"
  consider (free) "l_state l = UNLOCKED" | (waits) "l_state l \<noteq> UNLOCKED" "\<not> ?sole"
    | (writer) "?sole" "l_state l = LOCKED_FOR_WRITE \<or> l_state l = LOCKED_FOR_READ_WRITE"
    | (upgrade) "?sole" "l_state l = LOCKED_FOR_READ"
    using I(6) by (cases "l_state l") auto
  then show ?thesis
  proof cases
    case free
    with res I(6) have "ret = REPLY_OK" "wound' = wound"
      "l' = l\<lparr>l_state := LOCKED_FOR_WRITE, l_holders := um_put r ts (l_holders l)\<rparr>"
      by (auto simp: TryAcquireWriteLock_def)
    then show ?thesis using free I(6) lock_inv_grant_free [OF inv, of LOCKED_FOR_WRITE r ts]
      by (simp add: request_done_def rights_kept_def holds_read_def holds_write_def)
  next
    case waits
    then have ne: "l_holders l \<noteq> []" using I(6) by simp
    obtain l2 wd where w: "WriteWait r ts l wound = (l2, wd)" by fastforce
    with waits res have "ret = REPLY_WAIT" "l' = l2" "wound' = wd"
      by (auto simp: TryAcquireWriteLock_def)
    moreover have "request_done holds_write waits_write r ts l wound REPLY_WAIT l2 wd"
      by (rule wait_write_done [where q = "l_wait_q l"]) (simp_all add: l inv ne w)
    ultimately show ?thesis by simp
  next
    case writer
    then have "l_state l \<noteq> UNLOCKED" by auto
    with writer res have "ret = REPLY_OK" "l' = l" "wound' = wound"
      by (auto simp: TryAcquireWriteLock_def)
    with writer inv show ?thesis by (simp add: request_done_def rights_kept_def holds_write_def)
  next
    case upgrade
    then have ne: "l_holders l \<noteq> []" by auto
    from upgrade res obtain safe q where q: "SafeUpgradeToRW (l_waiters l) ts (l_wait_q l) = Inr (safe, q)"
      and res': "(if safe then Inr (REPLY_OK, l\<lparr>l_wait_q := q, l_state := LOCKED_FOR_READ_WRITE\<rparr>, wound)
        else let (l2, wound') = WriteWait r ts (l\<lparr>l_wait_q := q\<rparr>) wound in Inr (REPLY_WAIT, l2, wound'))
        = (Inr (ret, l', wound') :: (reply_code \<times> lock \<times> txn_id uset) outcome)"
      by (auto simp: TryAcquireWriteLock_def Let_def split: prod.splits)
    have inv1: "lock_inv (l\<lparr>l_wait_q := q\<rparr>)"
      by (rule lock_inv_set_queue [OF inv]) (use SafeUpgradeToRW_queue [OF q I(3)] I(5) in auto)
    show ?thesis
    proof (cases safe)
      case True
      with res' have "ret = REPLY_OK" "wound' = wound"
        "l' = l\<lparr>l_wait_q := q, l_state := LOCKED_FOR_READ_WRITE\<rparr>" by simp_all
      moreover have "lock_inv (l\<lparr>l_wait_q := q, l_state := LOCKED_FOR_READ_WRITE\<rparr>)"
        using inv1 upgrade ne by (simp add: lock_inv_def q_inv_def)
      ultimately show ?thesis using upgrade
        by (simp add: request_done_def rights_kept_def holds_read_def holds_write_def)
    next
      case False
      obtain l2 wd where w: "WriteWait r ts (l\<lparr>l_wait_q := q\<rparr>) wound = (l2, wd)" by fastforce
      with False res' have "ret = REPLY_WAIT" "l' = l2" "wound' = wd" by simp_all
      with wait_write_done [OF inv1 ne w] show ?thesis by simp
    qed
  qed
qed

lemma SafeUpgradeToRW_returns:
  "(\<And>h. h \<in> set q \<Longrightarrow> um_has ws h) \<Longrightarrow> \<exists>b. SafeUpgradeToRW ws ts q = Inr (b, q)"
proof (induction q)
  case Nil
  show ?case by (intro exI [of _ True]) simp
next
  case (Cons h q)
  from Cons.prems obtain w where w: "map_of ws h = Some w" by (fastforce simp: um_has_def)
  from Cons obtain b where "SafeUpgradeToRW ws ts q = Inr (b, q)" by auto
  with w show ?case
    by (intro exI [of _ "\<not> list_ex (\<lambda>p. ts < snd p) (w_waiters w) \<and> b"]) simp
qed

lemma TryAcquireWriteLock_returns:
  assumes inv: "lock_inv l" and live: "\<And>h. h \<in> set (l_wait_q l) \<Longrightarrow> um_has (l_waiters l) h"
  shows "\<exists>ret l' wound'. TryAcquireWriteLock r ts l wound = Inr (ret, l', wound')"
proof -
  obtain b where "SafeUpgradeToRW (l_waiters l) ts (l_wait_q l) = Inr (b, l_wait_q l)"
    using SafeUpgradeToRW_returns [of "l_wait_q l" "l_waiters l" ts] live by blast
  then show ?thesis using lock_invD(6) [OF inv]
    by (auto simp: TryAcquireWriteLock_def Let_def split: prod.splits)
qed

section \<open>What a release leaves\<close>

text \<open>
  After a release: the lock is well formed, every other transaction keeps its
  rights, and whoever gains a right is notified.
\<close>

definition release_done :: "txn_id \<Rightarrow> lock \<Rightarrow> txn_id uset \<Rightarrow> lock \<Rightarrow> txn_id uset \<Rightarrow> bool" where
  "release_done h l n l' n' \<longleftrightarrow> lock_inv l' \<and> set n \<subseteq> set n' \<and>
     (\<forall>t. t \<noteq> h \<longrightarrow> (holds_read l t \<longrightarrow> holds_read l' t) \<and> (holds_write l t \<longrightarrow> holds_write l' t)) \<and>
     (\<forall>t. (holds_read l' t \<and> \<not> holds_read l t \<or> holds_write l' t \<and> \<not> holds_write l t) \<longrightarrow> t \<in> set n')"

definition no_read :: "lock \<Rightarrow> txn_id \<Rightarrow> bool" where
  "no_read l t \<longleftrightarrow> \<not> holds_read l t \<and> (\<forall>w. map_of (l_waiters l) t = Some w \<longrightarrow> \<not> w_read w)"

definition no_write :: "lock \<Rightarrow> txn_id \<Rightarrow> bool" where
  "no_write l t \<longleftrightarrow> \<not> holds_write l t \<and> (\<forall>w. map_of (l_waiters l) t = Some w \<longrightarrow> \<not> w_write w)"

lemma lock_inv_waiters:
  assumes "lock_inv l" and "um_ok ws" and "l_holders l = [] \<Longrightarrow> ws = []"
    and "\<And>t w. map_of ws t = Some w \<Longrightarrow> waiter_ok t w"
    and "\<And>t. um_has ws t \<Longrightarrow> um_has (l_waiters l) t"
  shows "lock_inv (l\<lparr>l_waiters := ws\<rparr>)"
  using assms by (fastforce simp: lock_inv_def q_inv_def)

lemma ReleaseRead_cleanup_correct:
  assumes inv: "lock_inv l"
  shows "lock_inv (ReleaseRead_cleanup h l)" "l_state (ReleaseRead_cleanup h l) = l_state l"
    "l_holders (ReleaseRead_cleanup h l) = l_holders l"
    "map_of (l_waiters (ReleaseRead_cleanup h l)) h = Some w \<Longrightarrow> \<not> w_read w"
    "no_write l h \<Longrightarrow> map_of (l_waiters (ReleaseRead_cleanup h l)) h = Some w \<Longrightarrow> \<not> w_write w"
proof -
  note I = lock_invD [OF inv]
  have "lock_inv (ReleaseRead_cleanup h l) \<and> l_state (ReleaseRead_cleanup h l) = l_state l \<and>
    l_holders (ReleaseRead_cleanup h l) = l_holders l \<and>
    (\<forall>w. map_of (l_waiters (ReleaseRead_cleanup h l)) h = Some w \<longrightarrow> \<not> w_read w \<and> (no_write l h \<longrightarrow> \<not> w_write w))"
  proof (cases "map_of (l_waiters l) h")
    case None
    then show ?thesis using inv by (simp add: ReleaseRead_cleanup_def no_write_def)
  next
    case (Some w)
    note wok = I(4) [OF Some]
    then have len: "length (w_waiters w) = 1" "w_first w = h" by (auto simp: waiter_ok_def)
    have ne: "l_holders l \<noteq> []" using I(8) Some by auto
    show ?thesis
    proof (cases "w_write w")
      case True
      then have "waiter_ok h (w\<lparr>w_read := False\<rparr>)" using wok by (simp add: waiter_ok_def)
      then have "lock_inv (l\<lparr>l_waiters := um_put h (w\<lparr>w_read := False\<rparr>) (l_waiters l)\<rparr>)"
        by (intro lock_inv_waiters [OF inv]) (use I ne Some in \<open>auto simp: um_has_Some split: if_splits\<close>)
      with True Some show ?thesis by (simp add: ReleaseRead_cleanup_def no_write_def)
    next
      case False
      have "lock_inv (l\<lparr>l_waiters := um_erase h (l_waiters l)\<rparr>)"
        by (intro lock_inv_waiters [OF inv]) (use I ne in \<open>auto split: if_splits\<close>)
      with False Some len show ?thesis by (simp add: ReleaseRead_cleanup_def)
    qed
  qed
  then show "lock_inv (ReleaseRead_cleanup h l)" "l_state (ReleaseRead_cleanup h l) = l_state l"
    "l_holders (ReleaseRead_cleanup h l) = l_holders l"
    "map_of (l_waiters (ReleaseRead_cleanup h l)) h = Some w \<Longrightarrow> \<not> w_read w"
    "no_write l h \<Longrightarrow> map_of (l_waiters (ReleaseRead_cleanup h l)) h = Some w \<Longrightarrow> \<not> w_write w" by blast+
qed

lemma ReleaseWrite_cleanup_correct:
  assumes inv: "lock_inv l"
  shows "lock_inv (ReleaseWrite_cleanup h l)" "l_state (ReleaseWrite_cleanup h l) = l_state l"
    "l_holders (ReleaseWrite_cleanup h l) = l_holders l"
    "map_of (l_waiters (ReleaseWrite_cleanup h l)) h = Some w \<Longrightarrow> \<not> w_write w"
    "no_read l h \<Longrightarrow> map_of (l_waiters (ReleaseWrite_cleanup h l)) h = Some w \<Longrightarrow> \<not> w_read w"
proof -
  note I = lock_invD [OF inv]
  have "lock_inv (ReleaseWrite_cleanup h l) \<and> l_state (ReleaseWrite_cleanup h l) = l_state l \<and>
    l_holders (ReleaseWrite_cleanup h l) = l_holders l \<and>
    (\<forall>w. map_of (l_waiters (ReleaseWrite_cleanup h l)) h = Some w \<longrightarrow> \<not> w_write w \<and> (no_read l h \<longrightarrow> \<not> w_read w))"
  proof (cases "map_of (l_waiters l) h")
    case None
    then show ?thesis using inv by (simp add: ReleaseWrite_cleanup_def no_read_def)
  next
    case (Some w)
    note wok = I(4) [OF Some]
    have ne: "l_holders l \<noteq> []" using I(8) Some by auto
    show ?thesis
    proof (cases "w_read w")
      case True
      then have "waiter_ok h (w\<lparr>w_write := False\<rparr>)" using wok by (simp add: waiter_ok_def)
      then have "lock_inv (l\<lparr>l_waiters := um_put h (w\<lparr>w_write := False\<rparr>) (l_waiters l)\<rparr>)"
        by (intro lock_inv_waiters [OF inv]) (use I ne Some in \<open>auto simp: um_has_Some split: if_splits\<close>)
      with True Some show ?thesis by (simp add: ReleaseWrite_cleanup_def no_read_def)
    next
      case False
      have "lock_inv (l\<lparr>l_waiters := um_erase h (l_waiters l)\<rparr>)"
        by (intro lock_inv_waiters [OF inv]) (use I ne in \<open>auto split: if_splits\<close>)
      with False Some show ?thesis by (simp add: ReleaseWrite_cleanup_def)
    qed
  qed
  then show "lock_inv (ReleaseWrite_cleanup h l)" "l_state (ReleaseWrite_cleanup h l) = l_state l"
    "l_holders (ReleaseWrite_cleanup h l) = l_holders l"
    "map_of (l_waiters (ReleaseWrite_cleanup h l)) h = Some w \<Longrightarrow> \<not> w_write w"
    "no_read l h \<Longrightarrow> map_of (l_waiters (ReleaseWrite_cleanup h l)) h = Some w \<Longrightarrow> \<not> w_read w" by blast+
qed

text \<open>The part of \<open>release_done\<close> that \<open>PopWaiter\<close> maintains, with what the release is for.\<close>

definition r_right :: "lock_state \<Rightarrow> (txn_id, timestamp) umap \<Rightarrow> txn_id \<Rightarrow> bool" where
  "r_right st hs t \<longleftrightarrow> (st = LOCKED_FOR_READ \<or> st = LOCKED_FOR_READ_WRITE) \<and> um_has hs t"

definition w_right :: "lock_state \<Rightarrow> (txn_id, timestamp) umap \<Rightarrow> txn_id \<Rightarrow> bool" where
  "w_right st hs t \<longleftrightarrow> (st = LOCKED_FOR_WRITE \<or> st = LOCKED_FOR_READ_WRITE) \<and> um_has hs t"

definition popping :: "bool \<Rightarrow> bool \<Rightarrow> txn_id \<Rightarrow> lock \<Rightarrow> txn_id uset \<Rightarrow>
    lock_state \<Rightarrow> (txn_id, timestamp) umap \<Rightarrow> (txn_id, waiter) umap \<Rightarrow> txn_id uset \<Rightarrow> bool" where
  "popping rd wr h l n st hs ws n' \<longleftrightarrow> set n \<subseteq> set n' \<and>
     (\<forall>t. t \<noteq> h \<longrightarrow> (holds_read l t \<longrightarrow> r_right st hs t) \<and> (holds_write l t \<longrightarrow> w_right st hs t)) \<and>
     (\<forall>t. (r_right st hs t \<and> \<not> holds_read l t \<or> w_right st hs t \<and> \<not> holds_write l t) \<longrightarrow> t \<in> set n') \<and>
     (rd \<longrightarrow> \<not> r_right st hs h \<and> (\<forall>w. map_of ws h = Some w \<longrightarrow> \<not> w_read w)) \<and>
     (wr \<longrightarrow> \<not> w_right st hs h \<and> (\<forall>w. map_of ws h = Some w \<longrightarrow> \<not> w_write w))"

lemmas right_defs = r_right_def w_right_def holds_read_def holds_write_def

lemma right_simps [simp]:
  "r_right LOCKED_FOR_READ hs u \<longleftrightarrow> um_has hs u" "w_right LOCKED_FOR_READ hs u \<longleftrightarrow> False"
  "r_right LOCKED_FOR_READ_WRITE hs u \<longleftrightarrow> um_has hs u"
  "w_right LOCKED_FOR_READ_WRITE hs u \<longleftrightarrow> um_has hs u"
  "r_right st [] u \<longleftrightarrow> False" "w_right st [] u \<longleftrightarrow> False"
  by (simp_all add: r_right_def w_right_def)

lemma right_wait_state [simp]:
  "waiter_ok t w \<Longrightarrow> r_right (wait_state w) hs u \<longleftrightarrow> w_read w \<and> um_has hs u"
  "waiter_ok t w \<Longrightarrow> w_right (wait_state w) hs u \<longleftrightarrow> w_write w \<and> um_has hs u"
  by (auto simp: r_right_def w_right_def wait_state_def waiter_ok_def)

lemma popping_free:
  assumes "popping rd wr h l n st [] ws n'" and "map_of ws t = Some w" and "waiter_ok t w"
  shows "popping rd wr h l n (wait_state w) [(t, ts)] (um_erase t ws) (us_add t n')"
  using assms by (cases rd; cases "t = h") (auto simp: popping_def)

lemma popping_upgrade:
  assumes "rd \<or> wr" and "popping rd wr h l n LOCKED_FOR_READ hs ws n'" and "um_keys hs = [t]"
    and "map_of ws t = Some w" and "w_write w"
  shows "popping rd wr h l n LOCKED_FOR_READ_WRITE hs (um_erase t ws) (us_add t n')"
proof -
  have hs: "um_has hs u \<longleftrightarrow> u = t" for u unfolding um_has_iff assms(3) by simp
  have "t \<noteq> h" using assms(1,2,4,5) by (cases rd) (auto simp: popping_def hs)
  moreover have "u = t" if "holds_read l u" "u \<noteq> h" for u
    using assms(2) that by (auto simp: popping_def hs)
  moreover have "\<not> holds_write l u" if "u \<noteq> h" for u
    using assms(2) that by (auto simp: popping_def)
  ultimately show ?thesis using assms(2) unfolding popping_def right_simps hs
    by auto
qed

lemma popping_join:
  assumes "popping rd wr h l n LOCKED_FOR_READ hs ws n'" and "map_of ws t = Some w"
    and "\<not> w_write w" and "waiter_ok t w"
  shows "popping rd wr h l n LOCKED_FOR_READ (um_emplace t ts hs) (um_erase t ws) (us_add t n')"
proof -
  have "w_read w" using assms(3,4) by (simp add: waiter_ok_def)
  with assms show ?thesis by (cases rd; cases "t = h") (auto simp: popping_def)
qed

lemma PopWaiter_popping:
  assumes "rd \<or> wr" and "q_inv (l_wait_q l1) l1" and "popping rd wr h l n (l_state l1) (l_holders l1) (l_waiters l1) n"
  shows "\<exists>l' n'. PopWaiter l1 n = Inr (l', n') \<and> lock_inv l' \<and>
    popping rd wr h l n (l_state l') (l_holders l') (l_waiters l') n'"
proof (rule PopWaiter_rule [where P = "popping rd wr h l n"])
  show "q_inv (l_wait_q l1) l1" by (rule assms(2))
  show "popping rd wr h l n (l_state l1) (l_holders l1) (l_waiters l1) n" by (rule assms(3))
  show "popping rd wr h l n UNLOCKED [] ws n'" if "popping rd wr h l n st [] ws n'" for st ws n'
    using that by (auto simp: popping_def r_right_def w_right_def)
qed (erule (2) popping_free, erule (3) popping_upgrade [OF assms(1)], erule (3) popping_join)

lemma holds_right: "holds_read l t = r_right (l_state l) (l_holders l) t"
  "holds_write l t = w_right (l_state l) (l_holders l) t"
  by (simp_all add: right_defs)

lemma release_done_popping:
  "lock_inv l' \<Longrightarrow> popping rd wr h l n (l_state l') (l_holders l') (l_waiters l') n' \<Longrightarrow>
   release_done h l n l' n' \<and> (rd \<longrightarrow> no_read l' h) \<and> (wr \<longrightarrow> no_write l' h)"
  unfolding release_done_def popping_def no_read_def no_write_def holds_right by simp

lemma ReleaseReadLock_correct:
  assumes inv: "lock_inv l"
  shows "\<exists>l' n'. ReleaseReadLock h l n = Inr (l', n') \<and> release_done h l n l' n' \<and> no_read l' h \<and>
    (no_write l h \<longrightarrow> no_write l' h)"
proof -
  let ?l = "ReleaseRead_cleanup h l"
  note C = ReleaseRead_cleanup_correct [OF inv, of h]
  note I = lock_invD [OF C(1)]
  consider (rw) "um_has (l_holders ?l) h" "l_state ?l = LOCKED_FOR_READ_WRITE"
    | (rd) "um_has (l_holders ?l) h" "l_state ?l = LOCKED_FOR_READ"
    | (no) "\<not> (um_has (l_holders ?l) h \<and> (l_state ?l = LOCKED_FOR_READ \<or> l_state ?l = LOCKED_FOR_READ_WRITE))"
    by blast
  then show ?thesis
  proof cases
    case rw
    let ?l' = "?l\<lparr>l_state := LOCKED_FOR_WRITE\<rparr>"
    have "um_has (l_holders l) t \<longleftrightarrow> t = h" for t
      using q_inv_one_holder [of "l_wait_q ?l" ?l t h] C(1,3) rw by (auto simp: lock_inv_def)
    moreover have "lock_inv ?l'" using C(1) rw by (auto simp: lock_inv_def q_inv_def)
    ultimately have "release_done h l n ?l' n \<and> no_read ?l' h \<and> (no_write l h \<longrightarrow> no_write ?l' h)"
      using rw C(2-5) by (simp add: release_done_def no_read_def no_write_def right_defs)
    with rw show ?thesis by (simp add: ReleaseReadLock_def Let_def)
  next
    case rd
    let ?l1 = "?l\<lparr>l_holders := um_erase h (l_holders ?l)\<rparr>"
    have q: "q_inv (l_wait_q ?l1) ?l1" using C(1) rd by (auto simp: lock_inv_def q_inv_def)
    have p: "popping True (no_write l h) h l n (l_state ?l1) (l_holders ?l1) (l_waiters ?l1) n"
      using rd C(4,5) by (simp add: popping_def right_defs C(2,3))
    then obtain l' n' where R: "PopWaiter ?l1 n = Inr (l', n')" "lock_inv l'"
      "popping True (no_write l h) h l n (l_state l') (l_holders l') (l_waiters l') n'"
      using PopWaiter_popping [OF disjI1 [OF TrueI] q] by blast
    then have D: "release_done h l n l' n' \<and> no_read l' h \<and> (no_write l h \<longrightarrow> no_write l' h)"
      using release_done_popping [of l' True "no_write l h" h l n n'] by simp
    with R show ?thesis using rd by (simp add: ReleaseReadLock_def Let_def)
  next
    case no
    have q: "q_inv (l_wait_q ?l) ?l" using C(1) by (simp add: lock_inv_def)
    have p: "popping True (no_write l h) h l n (l_state ?l) (l_holders ?l) (l_waiters ?l) n"
    proof -
      have "no_write l h \<Longrightarrow> \<not> w_right (l_state l) (l_holders l) h" by (simp add: no_write_def holds_right)
      moreover have "\<not> r_right (l_state l) (l_holders l) h" using no C(2,3) by (auto simp: right_defs)
      ultimately show ?thesis using C(4,5) by (simp add: popping_def holds_right C(2,3))
    qed
    then obtain l' n' where R: "PopWaiter ?l n = Inr (l', n')" "lock_inv l'"
      "popping True (no_write l h) h l n (l_state l') (l_holders l') (l_waiters l') n'"
      using PopWaiter_popping [OF disjI1 [OF TrueI] q] by blast
    then have D: "release_done h l n l' n' \<and> no_read l' h \<and> (no_write l h \<longrightarrow> no_write l' h)"
      using release_done_popping [of l' True "no_write l h" h l n n'] by simp
    with R show ?thesis using no by (auto simp: ReleaseReadLock_def Let_def)
  qed
qed

lemma ReleaseWriteLock_correct:
  assumes inv: "lock_inv l"
  shows "\<exists>l' n'. ReleaseWriteLock h l n = Inr (l', n') \<and> release_done h l n l' n' \<and> no_write l' h \<and>
    (no_read l h \<longrightarrow> no_read l' h)"
proof -
  let ?l = "ReleaseWrite_cleanup h l"
  note C = ReleaseWrite_cleanup_correct [OF inv, of h]
  note I = lock_invD [OF C(1)]
  consider (rw) "um_has (l_holders ?l) h" "l_state ?l = LOCKED_FOR_READ_WRITE"
    | (wr) "um_has (l_holders ?l) h" "l_state ?l = LOCKED_FOR_WRITE"
    | (no) "\<not> (um_has (l_holders ?l) h \<and> (l_state ?l = LOCKED_FOR_WRITE \<or> l_state ?l = LOCKED_FOR_READ_WRITE))"
    by blast
  then show ?thesis
  proof cases
    case rw
    let ?l' = "?l\<lparr>l_state := LOCKED_FOR_READ\<rparr>"
    have "um_has (l_holders l) t \<longleftrightarrow> t = h" for t
      using q_inv_one_holder [of "l_wait_q ?l" ?l t h] C(1,3) rw by (auto simp: lock_inv_def)
    moreover have "lock_inv ?l'" using C(1) rw by (auto simp: lock_inv_def q_inv_def)
    ultimately have "release_done h l n ?l' n \<and> no_write ?l' h \<and> (no_read l h \<longrightarrow> no_read ?l' h)"
      using rw C(2-5) by (simp add: release_done_def no_write_def no_read_def right_defs)
    with rw show ?thesis by (simp add: ReleaseWriteLock_def Let_def)
  next
    case wr
    let ?l1 = "?l\<lparr>l_holders := um_erase h (l_holders ?l)\<rparr>"
    have "length (um_erase h (l_holders ?l)) \<le> 1"
      using I(7) wr length_delete_le [of h "l_holders ?l"] by linarith
    then have q: "q_inv (l_wait_q ?l1) ?l1" using C(1) wr by (auto simp: lock_inv_def q_inv_def)
    have p: "popping (no_read l h) True h l n (l_state ?l1) (l_holders ?l1) (l_waiters ?l1) n"
      using wr I(7) C(4,5) by (simp add: popping_def right_defs C(2,3))
    then obtain l' n' where R: "PopWaiter ?l1 n = Inr (l', n')" "lock_inv l'"
      "popping (no_read l h) True h l n (l_state l') (l_holders l') (l_waiters l') n'"
      using PopWaiter_popping [OF disjI2 [OF TrueI] q] by blast
    then have D: "release_done h l n l' n' \<and> no_write l' h \<and> (no_read l h \<longrightarrow> no_read l' h)"
      using release_done_popping [of l' "no_read l h" True h l n n'] by simp
    with R show ?thesis using wr by (simp add: ReleaseWriteLock_def Let_def)
  next
    case no
    have q: "q_inv (l_wait_q ?l) ?l" using C(1) by (simp add: lock_inv_def)
    have p: "popping (no_read l h) True h l n (l_state ?l) (l_holders ?l) (l_waiters ?l) n"
    proof -
      have "no_read l h \<Longrightarrow> \<not> r_right (l_state l) (l_holders l) h" by (simp add: no_read_def holds_right)
      moreover have "\<not> w_right (l_state l) (l_holders l) h" using no C(2,3) by (auto simp: right_defs)
      ultimately show ?thesis using C(4,5) by (simp add: popping_def holds_right C(2,3))
    qed
    then obtain l' n' where R: "PopWaiter ?l n = Inr (l', n')" "lock_inv l'"
      "popping (no_read l h) True h l n (l_state l') (l_holders l') (l_waiters l') n'"
      using PopWaiter_popping [OF disjI2 [OF TrueI] q] by blast
    then have D: "release_done h l n l' n' \<and> no_write l' h \<and> (no_read l h \<longrightarrow> no_read l' h)"
      using release_done_popping [of l' "no_read l h" True h l n n'] by simp
    with R show ?thesis using no by (auto simp: ReleaseWriteLock_def Let_def)
  qed
qed

section \<open>The table\<close>

definition lock_at :: "wound_wait \<Rightarrow> key \<Rightarrow> lock" where
  "lock_at ls k = (case map_of ls k of None \<Rightarrow> Lock_init | Some l \<Rightarrow> l)"

definition ww_inv :: "wound_wait \<Rightarrow> bool" where
  "ww_inv ls \<longleftrightarrow> (\<forall>k. lock_inv (lock_at ls k))"

abbreviation ww_reads :: "wound_wait \<Rightarrow> key \<Rightarrow> txn_id \<Rightarrow> bool" where
  "ww_reads ls k \<equiv> holds_read (lock_at ls k)"

abbreviation ww_writes :: "wound_wait \<Rightarrow> key \<Rightarrow> txn_id \<Rightarrow> bool" where
  "ww_writes ls k \<equiv> holds_write (lock_at ls k)"

definition ww_kept :: "wound_wait \<Rightarrow> wound_wait \<Rightarrow> bool" where
  "ww_kept ls ls' \<longleftrightarrow> (\<forall>k. rights_kept (lock_at ls k) (lock_at ls' k))"

lemma lock_at_Nil [simp]: "lock_at [] k = Lock_init"
  by (simp add: lock_at_def)

lemma lock_at_put [simp]: "lock_at (um_put k l ls) k' = (if k' = k then l else lock_at ls k')"
  by (simp add: lock_at_def)

lemma lock_at_ref [simp]: "fst (um_ref Lock_init ls k) = lock_at ls k"
  by (simp add: lock_at_def um_ref_def split: option.split)

lemma ww_inv_Nil [simp]: "ww_inv []"
  by (simp add: ww_inv_def)

lemma rights_kept_refl [simp]: "rights_kept l l"
  by (simp add: rights_kept_def)

lemma ww_kept_refl: "ww_kept ls ls"
  by (simp add: ww_kept_def)

lemma ww_kept_trans: "ww_kept a b \<Longrightarrow> ww_kept b c \<Longrightarrow> ww_kept a c"
  by (simp add: ww_kept_def rights_kept_def)

lemma ww_inv_put: "ww_inv ls \<Longrightarrow> lock_inv l \<Longrightarrow> ww_inv (um_put k l ls)"
  by (simp add: ww_inv_def)

lemma ww_kept_put: "rights_kept (lock_at ls k) l \<Longrightarrow> ww_kept ls (um_put k l ls)"
  by (simp add: ww_kept_def)

lemma LockForRead_done:
  assumes "ww_inv ls"
  shows "\<exists>ret l' wound'. LockForRead k r ts ls wound = Inr (ret, um_put k l' ls, wound') \<and>
    request_done holds_read waits_read r ts (lock_at ls k) wound ret l' wound' \<and>
    ww_inv (um_put k l' ls) \<and> ww_kept ls (um_put k l' ls)"
proof -
  from assms have "lock_inv (lock_at ls k)" by (simp add: ww_inv_def)
  from TryAcquireReadLock_correct [OF this, of r ts wound] obtain ret l' wound'
    where "TryAcquireReadLock r ts (lock_at ls k) wound = Inr (ret, l', wound')"
      and "request_done holds_read waits_read r ts (lock_at ls k) wound ret l' wound'" by blast
  then show ?thesis using assms
    by (auto simp: LockForRead_def request_done_def intro: ww_inv_put ww_kept_put)
qed

lemma LockForWrite_done:
  assumes "ww_inv ls" and "LockForWrite k r ts ls wound = Inr (ret, ls', wound')"
  shows "\<exists>l'. ls' = um_put k l' ls \<and>
    request_done holds_write waits_write r ts (lock_at ls k) wound ret l' wound' \<and>
    ww_inv ls' \<and> ww_kept ls ls'"
proof -
  from assms(2) obtain l' where l': "TryAcquireWriteLock r ts (lock_at ls k) wound = Inr (ret, l', wound')"
    "ls' = um_put k l' ls" by (auto simp: LockForWrite_def)
  from assms have "lock_inv (lock_at ls k)" by (simp add: ww_inv_def)
  from TryAcquireWriteLock_correct [OF this l'(1)] show ?thesis using assms(1) l'(2)
    by (auto simp: request_done_def intro: ww_inv_put ww_kept_put)
qed

lemma ReleaseForRead_done:
  assumes "ww_inv ls"
  shows "\<exists>ls' n'. ReleaseForRead k h ls n = Inr (ls', n') \<and>
    (\<forall>k'. k' \<noteq> k \<longrightarrow> lock_at ls' k' = lock_at ls k') \<and>
    release_done h (lock_at ls k) n (lock_at ls' k) n' \<and> no_read (lock_at ls' k) h \<and>
    (no_write (lock_at ls k) h \<longrightarrow> no_write (lock_at ls' k) h)"
proof (cases "map_of ls k")
  case None
  then have "lock_at ls k = Lock_init" by (simp add: lock_at_def)
  with None assms show ?thesis
    by (simp add: ReleaseForRead_def release_done_def no_read_def holds_read_def Lock_init_def ww_inv_def
      q_inv_def lock_inv_def)
next
  case (Some l)
  then have l: "lock_at ls k = l" by (simp add: lock_at_def)
  with assms have "lock_inv l" by (auto simp: ww_inv_def)
  from ReleaseReadLock_correct [OF this, of h n] obtain l' n'
    where "ReleaseReadLock h l n = Inr (l', n')" "release_done h l n l' n' \<and> no_read l' h \<and> (no_write l h \<longrightarrow> no_write l' h)" by blast
  with Some l show ?thesis by (simp add: ReleaseForRead_def)
qed

lemma ReleaseForWrite_done:
  assumes "ww_inv ls"
  shows "\<exists>ls' n'. ReleaseForWrite k h ls n = Inr (ls', n') \<and>
    (\<forall>k'. k' \<noteq> k \<longrightarrow> lock_at ls' k' = lock_at ls k') \<and>
    release_done h (lock_at ls k) n (lock_at ls' k) n' \<and> no_write (lock_at ls' k) h \<and>
    (no_read (lock_at ls k) h \<longrightarrow> no_read (lock_at ls' k) h)"
proof (cases "map_of ls k")
  case None
  then have "lock_at ls k = Lock_init" by (simp add: lock_at_def)
  with None assms show ?thesis
    by (simp add: ReleaseForWrite_def release_done_def no_write_def holds_write_def Lock_init_def ww_inv_def
      q_inv_def lock_inv_def)
next
  case (Some l)
  then have l: "lock_at ls k = l" by (simp add: lock_at_def)
  with assms have "lock_inv l" by (auto simp: ww_inv_def)
  from ReleaseWriteLock_correct [OF this, of h n] obtain l' n'
    where "ReleaseWriteLock h l n = Inr (l', n')" "release_done h l n l' n' \<and> no_write l' h \<and> (no_read l h \<longrightarrow> no_read l' h)" by blast
  with Some l show ?thesis by (simp add: ReleaseForWrite_def)
qed

lemma ww_inv_release:
  "ww_inv ls \<Longrightarrow> (\<forall>k'. k' \<noteq> k \<longrightarrow> lock_at ls' k' = lock_at ls k') \<Longrightarrow>
   release_done h (lock_at ls k) n (lock_at ls' k) n' \<Longrightarrow> ww_inv ls'"
  unfolding ww_inv_def release_done_def by metis

end
