(* ===== verification/LockSafety.thy ===== *)
theory LockSafety
  imports WoundWaitInv
begin

text \<open>
  What users of the lock table rely on, for every sequence of its operations:
  mutual exclusion, requests that are granted or queued, wounds that point from
  older to younger, releases that leave nothing behind and wake whoever gains a
  lock; and the one run on which the table steps outside defined behaviour.
\<close>

section \<open>Runs\<close>

datatype ww_op =
    RequestRead key txn_id timestamp
  | RequestWrite key txn_id timestamp
  | DropRead key txn_id
  | DropWrite key txn_id

definition ww_step :: "ww_op \<Rightarrow> wound_wait \<Rightarrow> wound_wait outcome" where
  "ww_step op ls = (case op of
     RequestRead k t ts \<Rightarrow> bindE (LockForRead k t ts ls []) (\<lambda>(_, ls', _). Inr ls')
   | RequestWrite k t ts \<Rightarrow> bindE (LockForWrite k t ts ls []) (\<lambda>(_, ls', _). Inr ls')
   | DropRead k t \<Rightarrow> bindE (ReleaseForRead k t ls []) (\<lambda>(ls', _). Inr ls')
   | DropWrite k t \<Rightarrow> bindE (ReleaseForWrite k t ls []) (\<lambda>(ls', _). Inr ls'))"

definition ww_run :: "ww_op list \<Rightarrow> wound_wait outcome" where
  "ww_run ops = foldE ww_step ops []"

lemma ww_step_inv:
  assumes "ww_inv ls" and "ww_step op ls = Inr ls'"
  shows "ww_inv ls'"
proof (cases op)
  case (RequestRead k t ts)
  with assms(2) LockForRead_done [OF assms(1), of k t ts "[]"] show ?thesis
    by (auto simp: ww_step_def)
next
  case (RequestWrite k t ts)
  with assms(2) obtain ret wd where "LockForWrite k t ts ls [] = Inr (ret, ls', wd)"
    by (auto simp: ww_step_def)
  from LockForWrite_done [OF assms(1) this] show ?thesis by blast
next
  case (DropRead k t)
  with assms(2) ReleaseForRead_done [OF assms(1), of k t "[]"] obtain n where
    "\<forall>k'. k' \<noteq> k \<longrightarrow> lock_at ls' k' = lock_at ls k'"
    "release_done t (lock_at ls k) [] (lock_at ls' k) n" by (auto simp: ww_step_def)
  from ww_inv_release [OF assms(1) this] show ?thesis .
next
  case (DropWrite k t)
  with assms(2) ReleaseForWrite_done [OF assms(1), of k t "[]"] obtain n where
    "\<forall>k'. k' \<noteq> k \<longrightarrow> lock_at ls' k' = lock_at ls k'"
    "release_done t (lock_at ls k) [] (lock_at ls' k) n" by (auto simp: ww_step_def)
  from ww_inv_release [OF assms(1) this] show ?thesis .
qed

lemma ww_run_inv: "ww_run ops = Inr ls \<Longrightarrow> ww_inv ls"
  unfolding ww_run_def
  by (rule foldE_invariant [where I = ww_inv and s = "[]"]) (auto intro: ww_step_inv)

section \<open>Properties\<close>

text \<open>
  \<^bold>\<open>C19\<close> Mutual exclusion. After any sequence of lock and release calls on an empty
  table, a transaction that holds the write lock of a key is the only one with any
  lock on it.
\<close>

theorem write_lock_exclusive:
  assumes "ww_run ops = Inr ls" and "holds_write (lock_at ls k) t"
    and "holds_write (lock_at ls k) u \<or> holds_read (lock_at ls k) u"
  shows "u = t"
proof -
  have "lock_inv (lock_at ls k)" using ww_run_inv [OF assms(1)] by (simp add: ww_inv_def)
  then show ?thesis using q_inv_one_holder [of _ "lock_at ls k" u t] assms(2,3)
    by (auto simp: lock_inv_def holds_write_def holds_read_def)
qed

definition demo_ops :: "ww_op list" where
  "demo_ops = [RequestRead ''x'' 1 (Timestamp 10 1), RequestWrite ''x'' 2 (Timestamp 5 2),
     DropRead ''x'' 1]"

definition demo_table :: wound_wait where
  "demo_table = [(''x'', \<lparr>l_state = LOCKED_FOR_WRITE, l_holders = [(2, Timestamp 5 2)],
     l_wait_q = [], l_waiters = []\<rparr>)]"

lemma demo_run: "ww_run demo_ops = Inr demo_table"
  by code_simp

lemma demo_inv: "ww_inv demo_table"
  by (rule ww_run_inv [OF demo_run])

theorem write_lock_exclusive_witness:
  "ww_run demo_ops = Inr demo_table \<and> holds_write (lock_at demo_table ''x'') 2 \<and>
   \<not> holds_read (lock_at demo_table ''x'') 1"
proof -
  have h: "holds_write (lock_at demo_table ''x'') 2" by code_simp
  moreover have "\<not> holds_read (lock_at demo_table ''x'') 1"
    using write_lock_exclusive [OF demo_run h, of 1] by auto
  ultimately show ?thesis using demo_run by blast
qed

text \<open>
  \<^bold>\<open>C20\<close> A read request on a well-formed table returns. It is either granted, without
  wounding anyone, or queued; it wounds only transactions younger than itself that
  hold or wait for the key; nobody's locks shrink and the table stays well formed.
\<close>

theorem LockForRead_granted_or_queued:
  assumes "ww_inv ls"
  shows "\<exists>ret ls' wound'. LockForRead k r ts ls wound = Inr (ret, ls', wound') \<and>
    ww_inv ls' \<and> ww_kept ls ls' \<and>
    (ret = REPLY_OK \<and> holds_read (lock_at ls' k) r \<and> wound' = wound \<or>
     ret = REPLY_WAIT \<and> waits_read (lock_at ls' k) r \<and>
     wounds_younger (lock_at ls k) r ts wound wound')"
  using LockForRead_done [OF assms, of k r ts wound] by (fastforce simp: request_done_def)

theorem LockForRead_granted_or_queued_witness:
  "\<exists>ret ls' wound'. LockForRead ''x'' 1 (Timestamp 3 1) demo_table [] = Inr (ret, ls', wound') \<and>
    ww_inv ls' \<and> ww_kept demo_table ls' \<and>
    (ret = REPLY_OK \<and> holds_read (lock_at ls' ''x'') 1 \<and> wound' = [] \<or>
     ret = REPLY_WAIT \<and> waits_read (lock_at ls' ''x'') 1 \<and>
     wounds_younger (lock_at demo_table ''x'') 1 (Timestamp 3 1) [] wound')"
  by (rule LockForRead_granted_or_queued [OF demo_inv])

text \<open>
  \<^bold>\<open>C21\<close> A write request that returns is granted exclusively without wounding anyone, or
  queued after wounding younger transactions only; nobody's locks shrink and the table
  stays well formed. It does return whenever the queue of the key has no stale entry.
\<close>

theorem LockForWrite_granted_or_queued:
  assumes "ww_inv ls"
  shows "((\<forall>h \<in> set (l_wait_q (lock_at ls k)). um_has (l_waiters (lock_at ls k)) h) \<longrightarrow>
      (\<exists>res. LockForWrite k r ts ls wound = Inr res)) \<and>
    (\<forall>ret ls' wound'. LockForWrite k r ts ls wound = Inr (ret, ls', wound') \<longrightarrow>
      ww_inv ls' \<and> ww_kept ls ls' \<and>
      (ret = REPLY_OK \<and> holds_write (lock_at ls' k) r \<and> wound' = wound \<or>
       ret = REPLY_WAIT \<and> waits_write (lock_at ls' k) r \<and>
       wounds_younger (lock_at ls k) r ts wound wound'))"
proof (intro conjI impI allI)
  assume live: "\<forall>h \<in> set (l_wait_q (lock_at ls k)). um_has (l_waiters (lock_at ls k)) h"
  have "lock_inv (lock_at ls k)" using assms by (simp add: ww_inv_def)
  from TryAcquireWriteLock_returns [OF this, of r ts wound] live
  show "\<exists>res. LockForWrite k r ts ls wound = Inr res" by (auto simp: LockForWrite_def)
next
  fix ret ls' wound'
  assume "LockForWrite k r ts ls wound = Inr (ret, ls', wound')"
  from LockForWrite_done [OF assms this] obtain l' where l': "ls' = um_put k l' ls"
    "request_done holds_write waits_write r ts (lock_at ls k) wound ret l' wound'"
    "ww_inv ls'" "ww_kept ls ls'" by blast
  then show "ww_inv ls'" "ww_kept ls ls'" by simp_all
  from l'(1,2) show "ret = REPLY_OK \<and> holds_write (lock_at ls' k) r \<and> wound' = wound \<or>
    ret = REPLY_WAIT \<and> waits_write (lock_at ls' k) r \<and>
    wounds_younger (lock_at ls k) r ts wound wound'" by (auto simp: request_done_def)
qed

theorem LockForWrite_granted_or_queued_witness:
  "\<exists>ret ls' wound'. LockForWrite ''x'' 1 (Timestamp 3 1) demo_table [] = Inr (ret, ls', wound') \<and>
    ww_inv ls' \<and> ww_kept demo_table ls'"
proof -
  let ?res = "LockForWrite ''x'' 1 (Timestamp 3 1) demo_table []"
  have "l_wait_q (lock_at demo_table ''x'') = []" by code_simp
  then obtain ret ls' wound' where "?res = Inr (ret, ls', wound')"
    using LockForWrite_granted_or_queued [OF demo_inv, of "''x''" 1 "Timestamp 3 1" "[]"] by auto
  then show ?thesis
    using LockForWrite_granted_or_queued [OF demo_inv, of "''x''" 1 "Timestamp 3 1" "[]"] by blast
qed

text \<open>
  \<^bold>\<open>C22\<close> A transaction waits only for older ones. When a transaction that was not queued
  for a key is made to wait for it, every younger transaction holding the key in a
  conflicting mode (a write lock for a read, any lock for a write) is in the wound set.
\<close>

theorem waiting_wounds_younger_holders:
  assumes "ww_inv ls" and "\<not> um_has (l_waiters (lock_at ls k)) r" and "u \<noteq> r"
    and "(u, s) \<in> set (l_holders (lock_at ls k))" and "ts < s"
  shows "LockForRead k r ts ls wound = Inr (REPLY_WAIT, ls', wound') \<and>
      holds_write (lock_at ls k) u \<or>
      LockForWrite k r ts ls wound = Inr (REPLY_WAIT, ls', wound') \<Longrightarrow> u \<in> set wound'"
proof -
  let ?l = "lock_at ls k"
  have inv: "lock_inv ?l" using assms(1) by (simp add: ww_inv_def)
  have ne: "l_holders ?l \<noteq> []" using assms(4) by auto
  have u: "u \<in> younger_in r ts (l_holders ?l)" using assms(3-5) by (auto simp: younger_in_def)
  have rd: "u \<in> set wound'" if "LockForRead k r ts ls wound = Inr (REPLY_WAIT, ls', wound')"
    "holds_write ?l u"
  proof -
    from that(2) have st: "l_state ?l = LOCKED_FOR_WRITE \<or> l_state ?l = LOCKED_FOR_READ_WRITE"
      by (simp add: holds_write_def)
    have eq: "?l\<lparr>l_wait_q := l_wait_q ?l\<rparr> = ?l" by simp
    from that(1) st obtain l2 where "ReadWait r ts ?l wound = (l2, wound')"
      by (auto simp: LockForRead_def TryAcquireReadLock_def Let_def eq split: if_splits prod.splits)
    from ReadWait_correct(6) [OF inv ne this assms(2) st] u show ?thesis by blast
  qed
  have wr: "u \<in> set wound'" if w: "LockForWrite k r ts ls wound = Inr (REPLY_WAIT, ls', wound')"
  proof -
    have "\<not> (length (l_holders ?l) = 1 \<and> um_has (l_holders ?l) r)"
    proof
      assume "length (l_holders ?l) = 1 \<and> um_has (l_holders ?l) r"
      then have "um_keys (l_holders ?l) = [r]" by (blast intro: um_singleton)
      moreover have "u \<in> set (um_keys (l_holders ?l))" using assms(4) by force
      ultimately show False using assms(3) by simp
    qed
    with w lock_invD(6) [OF inv] ne obtain l2 where "WriteWait r ts ?l wound = (l2, wound')"
      by (auto simp: LockForWrite_def TryAcquireWriteLock_def split: if_splits prod.splits)
    with WriteWait_correct [OF inv ne this] assms(2) u show ?thesis by blast
  qed
  assume "LockForRead k r ts ls wound = Inr (REPLY_WAIT, ls', wound') \<and> holds_write ?l u \<or>
    LockForWrite k r ts ls wound = Inr (REPLY_WAIT, ls', wound')"
  with rd wr show "u \<in> set wound'" by blast
qed

theorem waiting_wounds_younger_holders_witness:
  "\<exists>ls' wound'. LockForWrite ''x'' 1 (Timestamp 3 1) demo_table [] = Inr (REPLY_WAIT, ls', wound') \<and>
     2 \<in> set wound'"
proof -
  have "\<exists>ls' wound'. LockForWrite ''x'' 1 (Timestamp 3 1) demo_table [] = Inr (REPLY_WAIT, ls', wound')"
    by (simp add: LockForWrite_def lock_at_def demo_table_def TryAcquireWriteLock_def WriteWait_def
      WriteWait_rest_def)
  then obtain ls' wound' where w: "LockForWrite ''x'' 1 (Timestamp 3 1) demo_table [] = Inr (REPLY_WAIT, ls', wound')"
    by blast
  have "2 \<in> set wound'"
    by (rule waiting_wounds_younger_holders [OF demo_inv _ _ _ _ disjI2 [OF w], where s = "Timestamp 5 2"])
      (simp_all add: demo_table_def lock_at_def less_timestamp_def ts_lt_def)
  with w show ?thesis by blast
qed

text \<open>
  \<^bold>\<open>C23\<close> Releasing a key for writing and then for reading, as the server does for a key in
  both sets, always returns and leaves the transaction neither holding the key nor queued
  for it; every other transaction keeps what it held, and whoever gains a lock is in the
  set of transactions to notify.
\<close>

theorem release_leaves_nothing:
  assumes "ww_inv ls"
  shows "\<exists>ls1 n1 ls2 n2. ReleaseForWrite k h ls n = Inr (ls1, n1) \<and>
    ReleaseForRead k h ls1 n1 = Inr (ls2, n2) \<and> ww_inv ls2 \<and>
    \<not> holds_read (lock_at ls2 k) h \<and> \<not> holds_write (lock_at ls2 k) h \<and>
    \<not> um_has (l_waiters (lock_at ls2 k)) h \<and>
    (\<forall>t. t \<noteq> h \<longrightarrow> (holds_read (lock_at ls k) t \<longrightarrow> holds_read (lock_at ls2 k) t) \<and>
      (holds_write (lock_at ls k) t \<longrightarrow> holds_write (lock_at ls2 k) t)) \<and>
    (\<forall>t. holds_read (lock_at ls2 k) t \<and> \<not> holds_read (lock_at ls k) t \<or>
      holds_write (lock_at ls2 k) t \<and> \<not> holds_write (lock_at ls k) t \<longrightarrow> t \<in> set n2)"
proof -
  from ReleaseForWrite_done [OF assms, of k h n] obtain ls1 n1
    where 1: "ReleaseForWrite k h ls n = Inr (ls1, n1)"
      "\<forall>k'. k' \<noteq> k \<longrightarrow> lock_at ls1 k' = lock_at ls k'"
      "release_done h (lock_at ls k) n (lock_at ls1 k) n1" "no_write (lock_at ls1 k) h" by blast
  have inv1: "ww_inv ls1" by (rule ww_inv_release [OF assms 1(2,3)])
  from ReleaseForRead_done [OF inv1, of k h n1] obtain ls2 n2
    where 2: "ReleaseForRead k h ls1 n1 = Inr (ls2, n2)"
      "\<forall>k'. k' \<noteq> k \<longrightarrow> lock_at ls2 k' = lock_at ls1 k'"
      "release_done h (lock_at ls1 k) n1 (lock_at ls2 k) n2" "no_read (lock_at ls2 k) h"
      "no_write (lock_at ls2 k) h" using 1(4) by blast
  have inv2: "ww_inv ls2" by (rule ww_inv_release [OF inv1 2(2,3)])
  then have "lock_inv (lock_at ls2 k)" by (simp add: ww_inv_def)
  then have "\<not> um_has (l_waiters (lock_at ls2 k)) h" using lock_invD(4) [of "lock_at ls2 k" h] 2(4,5)
    by (cases "map_of (l_waiters (lock_at ls2 k)) h")
      (auto simp: um_has_def no_read_def no_write_def waiter_ok_def)
  moreover have "\<not> holds_read (lock_at ls2 k) h" "\<not> holds_write (lock_at ls2 k) h"
    using 2(4,5) by (simp_all add: no_read_def no_write_def)
  moreover have "\<forall>t. t \<noteq> h \<longrightarrow> (holds_read (lock_at ls k) t \<longrightarrow> holds_read (lock_at ls2 k) t) \<and>
      (holds_write (lock_at ls k) t \<longrightarrow> holds_write (lock_at ls2 k) t)"
    using 1(3) 2(3) by (simp add: release_done_def)
  moreover have "\<forall>t. holds_read (lock_at ls2 k) t \<and> \<not> holds_read (lock_at ls k) t \<or>
      holds_write (lock_at ls2 k) t \<and> \<not> holds_write (lock_at ls k) t \<longrightarrow> t \<in> set n2"
    using 1(3) 2(3) unfolding release_done_def by blast
  ultimately show ?thesis using 1(1) 2(1) inv2 by blast
qed

theorem release_leaves_nothing_witness:
  "\<exists>ls1 n1 ls2 n2. ReleaseForWrite ''x'' 2 demo_table [] = Inr (ls1, n1) \<and>
    ReleaseForRead ''x'' 2 ls1 n1 = Inr (ls2, n2) \<and> \<not> holds_write (lock_at ls2 ''x'') 2"
  using release_leaves_nothing [OF demo_inv, of "''x''" 2 "[]"] by blast

text \<open>
  A fault of the code. The sole reader of a key that asks to write it, when the last
  entry of the queue is stale and no live waiter is younger, makes \<open>SafeUpgradeToRW\<close>
  increment an iterator past the end of the queue.
\<close>

theorem stale_last_entry_faults:
  assumes "l_state l = LOCKED_FOR_READ" and "um_keys (l_holders l) = [r]"
    and "l_wait_q l = p @ [h]" and "\<not> um_has (l_waiters l) h"
    and "\<And>t. t \<in> set p \<Longrightarrow> \<exists>w. map_of (l_waiters l) t = Some w \<and> (\<forall>s \<in> snd ` set (w_waiters w). s \<le> ts)"
  shows "TryAcquireWriteLock r ts l wound = Inl UndefinedBehaviour"
proof -
  have "SafeUpgradeToRW (l_waiters l) ts (p @ [h]) = Inl UndefinedBehaviour"
    using assms(5)
  proof (induction p)
    case Nil
    with assms(4) show ?case by (simp add: um_has_def)
  next
    case (Cons t p)
    from Cons.prems [of t] obtain w where "map_of (l_waiters l) t = Some w"
      "\<forall>s \<in> snd ` set (w_waiters w). s \<le> ts" by auto
    then have "\<not> list_ex (\<lambda>p. ts < snd p) (w_waiters w)" by (auto simp: list_ex_iff)
    with Cons \<open>map_of (l_waiters l) t = Some w\<close> show ?case by simp
  qed
  moreover have "length (l_holders l) = 1" using arg_cong [OF assms(2), of length] by simp
  moreover have "um_has (l_holders l) r" by (simp add: um_has_iff assms(2) del: set_map)
  ultimately show ?thesis using assms(1,3) by (simp add: TryAcquireWriteLock_def)
qed

text \<open>The run of calls that gets there, starting from an empty table.\<close>

definition stale_ops :: "ww_op list" where
  "stale_ops = [RequestRead ''x'' 1 (Timestamp 10 1), RequestWrite ''x'' 2 (Timestamp 5 2),
     RequestWrite ''x'' 3 (Timestamp 6 3), DropWrite ''x'' 3]"

definition stale_lock :: lock where
  "stale_lock = \<lparr>l_state = LOCKED_FOR_READ, l_holders = [(1, Timestamp 10 1)], l_wait_q = [2, 3],
     l_waiters = [(2, \<lparr>w_waiters = [(2, Timestamp 5 2)], w_first = 2, w_write = True, w_read = False\<rparr>)]\<rparr>"

theorem stale_last_entry_faults_witness:
  "ww_run stale_ops = Inr [(''x'', stale_lock)] \<and>
   TryAcquireWriteLock 1 (Timestamp 10 1) stale_lock [] = Inl UndefinedBehaviour"
proof
  show "ww_run stale_ops = Inr [(''x'', stale_lock)]" by code_simp
  show "TryAcquireWriteLock 1 (Timestamp 10 1) stale_lock [] = Inl UndefinedBehaviour"
    by (rule stale_last_entry_faults [where p = "[2]" and h = 3])
      (simp_all add: stale_lock_def less_eq_timestamp_def ts_le_def ts_gt_def)
qed

end
