(* ===== verification/LockTable.thy ===== *)
theory LockTable
  imports LockSafety
begin

text \<open>
  \<open>src/store/strongstore/locktable.{h,cc}\<close>: the interface of the shard server to the
  wound-wait locks. It takes and drops all the locks of a transaction's read and
  write sets. The contract of one kind of request and of one kind of release is a
  locale each; the loops over a set are proved against it once, and both kinds
  (read and write) of the \<open>WoundWait\<close> model are instances.
\<close>

section \<open>The code\<close>

datatype lock_status = ACQUIRED | WAITING | LOCK_FAIL

record lock_acquire_result =
  la_status :: lock_status
  la_wound_rws :: "txn_id uset"

definition ConvertToResultStatus :: "reply_code \<Rightarrow> lock_status outcome" where
  "ConvertToResultStatus s =
     (if s = REPLY_OK then Inr ACQUIRED
      else if s = REPLY_WAIT then Inr WAITING
      else if s = REPLY_FAIL then Inr LOCK_FAIL
      else Inl NotReachable)"

definition lock_result :: "reply_code \<Rightarrow> wound_wait \<Rightarrow> txn_id uset \<Rightarrow>
    (lock_acquire_result \<times> wound_wait) outcome" where
  "lock_result ret ls wound =
     bindE (ConvertToResultStatus ret) (\<lambda>s. Inr (\<lparr>la_status = s, la_wound_rws = wound\<rparr>, ls))"

definition AcquireReadLock :: "txn_id \<Rightarrow> timestamp \<Rightarrow> key \<Rightarrow> wound_wait \<Rightarrow>
    (lock_acquire_result \<times> wound_wait) outcome" where
  "AcquireReadLock t ts k ls =
     bindE (LockForRead k t ts ls []) (\<lambda>(status, ls', wound). lock_result status ls' wound)"

definition HasReadLock :: "txn_id \<Rightarrow> key \<Rightarrow> wound_wait \<Rightarrow> bool" where
  "HasReadLock t k ls = WW_HasReadLock ls k t"

definition AcquireReadWriteLock :: "txn_id \<Rightarrow> timestamp \<Rightarrow> key \<Rightarrow> wound_wait \<Rightarrow>
    (lock_acquire_result \<times> wound_wait) outcome" where
  "AcquireReadWriteLock t ts k ls =
     bindE (LockForWrite k t ts ls []) (\<lambda>(status, ls1, wound1).
     bindE (LockForRead k t ts ls1 wound1) (\<lambda>(status2, ls2, wound2).
     assertE (status = status2) (lock_result status ls2 wound2)))"

text \<open>The body of the two loops of \<open>AcquireLocks\<close>, over the kind of request.\<close>

definition merge_status :: "reply_code \<Rightarrow> reply_code \<Rightarrow> reply_code" where
  "merge_status ret status =
     (if ret = REPLY_OK \<and> status = REPLY_WAIT then REPLY_WAIT
      else if status = REPLY_FAIL then REPLY_FAIL else ret)"

definition acquire_each :: "(key \<Rightarrow> 's \<Rightarrow> txn_id uset \<Rightarrow> (reply_code \<times> 's \<times> txn_id uset) outcome) \<Rightarrow>
    key list \<Rightarrow> reply_code \<times> 's \<times> txn_id uset \<Rightarrow> (reply_code \<times> 's \<times> txn_id uset) outcome" where
  "acquire_each request ks = foldE (\<lambda>k (ret, s, wound).
     bindE (request k s wound) (\<lambda>(status, s', wound'). Inr (merge_status ret status, s', wound'))) ks"

definition AcquireLocks :: "txn_id \<Rightarrow> transaction \<Rightarrow> wound_wait \<Rightarrow>
    (lock_acquire_result \<times> wound_wait) outcome" where
  "AcquireLocks t txn ls =
     bindE (acquire_each (\<lambda>k. LockForRead k t (start_time txn)) (um_keys (readSet txn)) (REPLY_OK, ls, []))
       (\<lambda>st. bindE (acquire_each (\<lambda>k. LockForWrite k t (start_time txn)) (um_keys (writeSet txn)) st)
       (\<lambda>(ret, ls', wound). lock_result ret ls' wound))"

definition release_each :: "(key \<Rightarrow> 's \<Rightarrow> txn_id uset \<Rightarrow> ('s \<times> txn_id uset) outcome) \<Rightarrow>
    key list \<Rightarrow> 's \<times> txn_id uset \<Rightarrow> ('s \<times> txn_id uset) outcome" where
  "release_each release ks = foldE (\<lambda>k (s, n). release k s n) ks"

definition ReleaseLocks :: "txn_id \<Rightarrow> transaction \<Rightarrow> wound_wait \<Rightarrow>
    (wound_wait \<times> txn_id uset) outcome" where
  "ReleaseLocks t txn ls =
     bindE (release_each (\<lambda>k. ReleaseForWrite k t) (um_keys (writeSet txn)) (ls, []))
       (release_each (\<lambda>k. ReleaseForRead k t) (um_keys (readSet txn)))"

section \<open>The contract of a lock request\<close>

text \<open>
  \<open>kept\<close> orders the states by the rights their transactions have. A request that
  returns keeps the invariant and all rights, and when it is granted gives its right
  and wounds nobody.
\<close>

locale lock_request =
  fixes inv :: "'s \<Rightarrow> bool"
    and kept :: "'s \<Rightarrow> 's \<Rightarrow> bool"
    and held :: "key \<Rightarrow> 's \<Rightarrow> bool"
    and request :: "key \<Rightarrow> 's \<Rightarrow> txn_id uset \<Rightarrow> (reply_code \<times> 's \<times> txn_id uset) outcome"
  assumes kept_refl: "kept s s"
    and kept_trans: "kept s s' \<Longrightarrow> kept s' s'' \<Longrightarrow> kept s s''"
    and held_kept: "held k s \<Longrightarrow> kept s s' \<Longrightarrow> held k s'"
    and request_inv: "inv s \<Longrightarrow> request k s wound = Inr (ret, s', wound') \<Longrightarrow> inv s' \<and> kept s s'"
    and request_ret: "inv s \<Longrightarrow> request k s wound = Inr (ret, s', wound') \<Longrightarrow>
      ret = REPLY_OK \<and> held k s' \<and> wound' = wound \<or> ret = REPLY_WAIT"
begin

lemma acquire_each_inv:
  assumes "acquire_each request ks (ret, s, wound) = Inr (ret', s', wound')" and "inv s"
  shows "inv s' \<and> kept s s'"
  using assms
proof (induction ks arbitrary: ret s wound)
  case Nil
  then show ?case by (simp add: acquire_each_def kept_refl)
next
  case (Cons k ks)
  then obtain st s1 w1 where 1: "request k s wound = Inr (st, s1, w1)"
    "acquire_each request ks (merge_status ret st, s1, w1) = Inr (ret', s', wound')"
    by (auto simp: acquire_each_def)
  from request_inv [OF Cons.prems(2) 1(1)] Cons.IH [OF 1(2)] show ?case
    by (blast intro: kept_trans)
qed

lemma acquire_each_status:
  assumes "acquire_each request ks (ret, s, wound) = Inr (ret', s', wound')" and "inv s"
    and "ret = REPLY_OK \<or> ret = REPLY_WAIT"
  shows "(ret' = REPLY_OK \<or> ret' = REPLY_WAIT) \<and>
    (ret' = REPLY_OK \<longrightarrow> ret = REPLY_OK \<and> wound' = wound \<and> (\<forall>k \<in> set ks. held k s'))"
  using assms
proof (induction ks arbitrary: ret s wound)
  case Nil
  then show ?case by (simp add: acquire_each_def)
next
  case (Cons k ks)
  then obtain st s1 w1 where 1: "request k s wound = Inr (st, s1, w1)"
    "acquire_each request ks (merge_status ret st, s1, w1) = Inr (ret', s', wound')"
    by (auto simp: acquire_each_def)
  have inv1: "inv s1" using request_inv [OF Cons.prems(2) 1(1)] by simp
  have kept1: "kept s1 s'" using acquire_each_inv [OF 1(2) inv1] by simp
  from request_ret [OF Cons.prems(2) 1(1)] show ?case
  proof
    assume ok: "st = REPLY_OK \<and> held k s1 \<and> w1 = wound"
    then have "merge_status ret st = ret" by (simp add: merge_status_def)
    with Cons.IH [OF 1(2) inv1] Cons.prems(3) ok held_kept [OF _ kept1, of k] show ?case by auto
  next
    assume "st = REPLY_WAIT"
    with Cons.prems(3) have "merge_status ret st = REPLY_WAIT" by (auto simp: merge_status_def)
    with Cons.IH [OF 1(2) inv1] show ?case by auto
  qed
qed

end

section \<open>The contract of a release\<close>

text \<open>
  A release in the invariant returns, keeps it, and leaves its key \<open>clear\<close>; releasing
  another key does not bring a cleared key back, and \<open>frame\<close>, a preorder, holds between
  the states before and after with their notification sets.
\<close>

locale lock_release =
  fixes inv :: "'s \<Rightarrow> bool"
    and clear :: "key \<Rightarrow> 's \<Rightarrow> bool"
    and frame :: "'s \<Rightarrow> txn_id uset \<Rightarrow> 's \<Rightarrow> txn_id uset \<Rightarrow> bool"
    and release :: "key \<Rightarrow> 's \<Rightarrow> txn_id uset \<Rightarrow> ('s \<times> txn_id uset) outcome"
  assumes frame_refl: "frame s n s n"
    and frame_trans: "frame s n s' n' \<Longrightarrow> frame s' n' s'' n'' \<Longrightarrow> frame s n s'' n''"
    and release_ok: "inv s \<Longrightarrow> \<exists>s' n'. release k s n = Inr (s', n') \<and> inv s' \<and> clear k s' \<and>
      frame s n s' n' \<and> (\<forall>k'. clear k' s \<longrightarrow> clear k' s')"
begin

lemma release_each_ok:
  assumes "inv s"
  shows "\<exists>s' n'. release_each release ks (s, n) = Inr (s', n') \<and> inv s' \<and>
    (\<forall>k \<in> set ks. clear k s') \<and> frame s n s' n' \<and> (\<forall>k'. clear k' s \<longrightarrow> clear k' s')"
  using assms
proof (induction ks arbitrary: s n)
  case Nil
  then show ?case by (simp add: release_each_def frame_refl)
next
  case (Cons k ks)
  from release_ok [OF Cons.prems, of k n] obtain s1 n1 where 1: "release k s n = Inr (s1, n1)"
    "inv s1" "clear k s1" "frame s n s1 n1" "\<forall>k'. clear k' s \<longrightarrow> clear k' s1" by blast
  from Cons.IH [OF 1(2), of n1] obtain s2 n2 where 2: "release_each release ks (s1, n1) = Inr (s2, n2)"
    "inv s2" "\<forall>k \<in> set ks. clear k s2" "frame s1 n1 s2 n2" "\<forall>k'. clear k' s1 \<longrightarrow> clear k' s2" by blast
  have "release_each release (k # ks) (s, n) = Inr (s2, n2)"
    using 1(1) 2(1) by (simp add: release_each_def)
  moreover have "\<forall>k' \<in> set (k # ks). clear k' s2" using 1(3) 2(3,5) by simp
  ultimately show ?case using 2(2) frame_trans [OF 1(4) 2(4)] 1(5) 2(5) by blast
qed

end

section \<open>The wound-wait locks meet the contracts\<close>

lemma holds_kept: "ww_kept ls ls' \<Longrightarrow>
  (holds_read (lock_at ls k) t \<longrightarrow> holds_read (lock_at ls' k) t) \<and>
  (holds_write (lock_at ls k) t \<longrightarrow> holds_write (lock_at ls' k) t)"
  by (simp add: ww_kept_def rights_kept_def)

lemma LockForRead_contract:
  assumes "ww_inv ls" and "LockForRead k t ts ls wound = Inr (ret, ls', wound')"
  shows "ww_inv ls' \<and> ww_kept ls ls'"
    and "ret = REPLY_OK \<and> holds_read (lock_at ls' k) t \<and> wound' = wound \<or> ret = REPLY_WAIT"
  using LockForRead_done [OF assms(1), of k t ts wound] assms(2) by (auto simp: request_done_def)

lemma LockForWrite_contract:
  assumes "ww_inv ls" and "LockForWrite k t ts ls wound = Inr (ret, ls', wound')"
  shows "ww_inv ls' \<and> ww_kept ls ls'"
    and "ret = REPLY_OK \<and> holds_write (lock_at ls' k) t \<and> wound' = wound \<or> ret = REPLY_WAIT"
  using LockForWrite_done [OF assms] by (auto simp: request_done_def)

interpretation rreq: lock_request ww_inv ww_kept "\<lambda>k ls. holds_read (lock_at ls k) t"
  "\<lambda>k. LockForRead k t ts" for t ts
proof (unfold_locales, goal_cases)
  case (4 s k wound ret s' wound')
  then show ?case by (rule LockForRead_contract(1))
next
  case (5 s k wound ret s' wound')
  then show ?case by (rule LockForRead_contract(2))
qed (auto simp: holds_kept intro: ww_kept_refl ww_kept_trans)

interpretation wreq: lock_request ww_inv ww_kept "\<lambda>k ls. holds_write (lock_at ls k) t"
  "\<lambda>k. LockForWrite k t ts" for t ts
proof (unfold_locales, goal_cases)
  case (4 s k wound ret s' wound')
  then show ?case by (rule LockForWrite_contract(1))
next
  case (5 s k wound ret s' wound')
  then show ?case by (rule LockForWrite_contract(2))
qed (auto simp: holds_kept intro: ww_kept_refl ww_kept_trans)

definition released :: "txn_id \<Rightarrow> wound_wait \<Rightarrow> txn_id uset \<Rightarrow> wound_wait \<Rightarrow> txn_id uset \<Rightarrow> bool" where
  "released h ls n ls' n' \<longleftrightarrow> set n \<subseteq> set n' \<and>
     (\<forall>k t. t \<noteq> h \<longrightarrow> (holds_read (lock_at ls k) t \<longrightarrow> holds_read (lock_at ls' k) t) \<and>
        (holds_write (lock_at ls k) t \<longrightarrow> holds_write (lock_at ls' k) t)) \<and>
     (\<forall>k t. holds_read (lock_at ls' k) t \<and> \<not> holds_read (lock_at ls k) t \<or>
        holds_write (lock_at ls' k) t \<and> \<not> holds_write (lock_at ls k) t \<longrightarrow> t \<in> set n') \<and>
     (\<forall>k. (no_read (lock_at ls k) h \<longrightarrow> no_read (lock_at ls' k) h) \<and>
        (no_write (lock_at ls k) h \<longrightarrow> no_write (lock_at ls' k) h))"

lemma released_refl: "released h ls n ls n"
  by (simp add: released_def)

lemma released_trans: "released h ls n ls' n' \<Longrightarrow> released h ls' n' ls'' n'' \<Longrightarrow> released h ls n ls'' n''"
  unfolding released_def by (intro conjI) blast+

lemma released_at:
  assumes "\<forall>k'. k' \<noteq> k \<longrightarrow> lock_at ls' k' = lock_at ls k'"
    and "release_done h (lock_at ls k) n (lock_at ls' k) n'"
    and "no_read (lock_at ls k) h \<longrightarrow> no_read (lock_at ls' k) h"
    and "no_write (lock_at ls k) h \<longrightarrow> no_write (lock_at ls' k) h"
  shows "released h ls n ls' n'"
proof -
  have "(t \<noteq> h \<longrightarrow> (holds_read (lock_at ls k1) t \<longrightarrow> holds_read (lock_at ls' k1) t) \<and>
        (holds_write (lock_at ls k1) t \<longrightarrow> holds_write (lock_at ls' k1) t)) \<and>
     (holds_read (lock_at ls' k1) t \<and> \<not> holds_read (lock_at ls k1) t \<or>
        holds_write (lock_at ls' k1) t \<and> \<not> holds_write (lock_at ls k1) t \<longrightarrow> t \<in> set n') \<and>
     (no_read (lock_at ls k1) h \<longrightarrow> no_read (lock_at ls' k1) h) \<and>
     (no_write (lock_at ls k1) h \<longrightarrow> no_write (lock_at ls' k1) h)" for k1 t
    using assms unfolding release_done_def by (cases "k1 = k") simp_all
  moreover have "set n \<subseteq> set n'" using assms(2) by (simp add: release_done_def)
  ultimately show ?thesis unfolding released_def by blast
qed

lemma ReleaseForRead_contract:
  assumes "ww_inv ls"
  shows "\<exists>ls' n'. ReleaseForRead k h ls n = Inr (ls', n') \<and> ww_inv ls' \<and>
    no_read (lock_at ls' k) h \<and> released h ls n ls' n'"
proof -
  from ReleaseForRead_done [OF assms, of k h n] obtain ls' n' where
    R: "ReleaseForRead k h ls n = Inr (ls', n')" "\<forall>k'. k' \<noteq> k \<longrightarrow> lock_at ls' k' = lock_at ls k'"
      "release_done h (lock_at ls k) n (lock_at ls' k) n'" "no_read (lock_at ls' k) h"
      "no_write (lock_at ls k) h \<longrightarrow> no_write (lock_at ls' k) h" by blast
  from released_at [OF R(2,3) _ R(5)] ww_inv_release [OF assms R(2,3)] R(1,4) show ?thesis by blast
qed

lemma ReleaseForWrite_contract:
  assumes "ww_inv ls"
  shows "\<exists>ls' n'. ReleaseForWrite k h ls n = Inr (ls', n') \<and> ww_inv ls' \<and>
    no_write (lock_at ls' k) h \<and> released h ls n ls' n'"
proof -
  from ReleaseForWrite_done [OF assms, of k h n] obtain ls' n' where
    R: "ReleaseForWrite k h ls n = Inr (ls', n')" "\<forall>k'. k' \<noteq> k \<longrightarrow> lock_at ls' k' = lock_at ls k'"
      "release_done h (lock_at ls k) n (lock_at ls' k) n'" "no_write (lock_at ls' k) h"
      "no_read (lock_at ls k) h \<longrightarrow> no_read (lock_at ls' k) h" by blast
  from released_at [OF R(2,3) R(5)] ww_inv_release [OF assms R(2,3)] R(1,4) show ?thesis by blast
qed

lemma released_clear:
  "released h ls n ls' n' \<Longrightarrow> no_read (lock_at ls k) h \<Longrightarrow> no_read (lock_at ls' k) h"
  "released h ls n ls' n' \<Longrightarrow> no_write (lock_at ls k) h \<Longrightarrow> no_write (lock_at ls' k) h"
  by (simp_all add: released_def)

interpretation rrel: lock_release ww_inv "\<lambda>k ls. no_read (lock_at ls k) h" "released h"
  "\<lambda>k. ReleaseForRead k h" for h
proof (unfold_locales, goal_cases)
  case (3 s k n)
  from ReleaseForRead_contract [OF 3, of k h n] show ?case using released_clear(1) by blast
qed (auto intro: released_refl released_trans)

interpretation wrel: lock_release ww_inv "\<lambda>k ls. no_write (lock_at ls k) h" "released h"
  "\<lambda>k. ReleaseForWrite k h" for h
proof (unfold_locales, goal_cases)
  case (3 s k n)
  from ReleaseForWrite_contract [OF 3, of k h n] show ?case using released_clear(2) by blast
qed (auto intro: released_refl released_trans)

lemma AcquireLocks_contract:
  assumes "ww_inv ls" and "AcquireLocks t txn ls = Inr (r, ls')"
  shows "ww_inv ls' \<and> ww_kept ls ls' \<and>
    (la_status r = WAITING \<or>
     la_status r = ACQUIRED \<and> la_wound_rws r = [] \<and>
     (\<forall>k \<in> set (um_keys (readSet txn)). holds_read (lock_at ls' k) t) \<and>
     (\<forall>k \<in> set (um_keys (writeSet txn)). holds_write (lock_at ls' k) t))"
proof -
  from assms(2) obtain ret1 ls1 w1 ret2 w2 where
    rd: "acquire_each (\<lambda>k. LockForRead k t (start_time txn)) (um_keys (readSet txn)) (REPLY_OK, ls, [])
      = Inr (ret1, ls1, w1)" and
    wr: "acquire_each (\<lambda>k. LockForWrite k t (start_time txn)) (um_keys (writeSet txn)) (ret1, ls1, w1)
      = Inr (ret2, ls', w2)" and
    res: "lock_result ret2 ls' w2 = Inr (r, ls')"
    by (auto simp: AcquireLocks_def lock_result_def)
  note R = rreq.acquire_each_inv [OF rd assms(1)] rreq.acquire_each_status [OF rd assms(1)]
  then have inv1: "ww_inv ls1" and st1: "ret1 = REPLY_OK \<or> ret1 = REPLY_WAIT" by simp_all
  note W = wreq.acquire_each_inv [OF wr inv1] wreq.acquire_each_status [OF wr inv1 st1]
  have keep: "holds_read (lock_at ls1 k) t \<Longrightarrow> holds_read (lock_at ls' k) t" for k
    using holds_kept W(1) by blast
  from W(2) res have r: "ret2 = REPLY_OK \<and> la_status r = ACQUIRED \<or> ret2 = REPLY_WAIT \<and> la_status r = WAITING"
    and w: "la_wound_rws r = w2" by (auto simp: lock_result_def ConvertToResultStatus_def split: if_splits)
  have "ww_kept ls ls'" using R(1) W(1) ww_kept_trans by blast
  moreover have "ww_inv ls'" using W(1) by simp
  moreover have "la_status r = WAITING \<or> la_status r = ACQUIRED \<and> la_wound_rws r = [] \<and>
     (\<forall>k \<in> set (um_keys (readSet txn)). holds_read (lock_at ls' k) t) \<and>
     (\<forall>k \<in> set (um_keys (writeSet txn)). holds_write (lock_at ls' k) t)"
    using r w R(2) W(2) keep by auto
  ultimately show ?thesis by blast
qed

section \<open>Properties\<close>

text \<open>
  \<^bold>\<open>C24\<close> All or nothing. When \<open>AcquireLocks\<close> returns on a well-formed table it says either
  ACQUIRED, and then no transaction is wounded and every key of the read set is held
  for reading and every key of the write set for writing, or WAITING; never FAIL.
  Every right any transaction had is kept.
\<close>

theorem AcquireLocks_all_or_wait:
  assumes "ww_inv ls" and "AcquireLocks t txn ls = Inr (r, ls')"
  shows "ww_inv ls' \<and> ww_kept ls ls' \<and>
    (la_status r = WAITING \<or>
     la_status r = ACQUIRED \<and> la_wound_rws r = [] \<and>
     (\<forall>k \<in> set (um_keys (readSet txn)). holds_read (lock_at ls' k) t) \<and>
     (\<forall>k \<in> set (um_keys (writeSet txn)). holds_write (lock_at ls' k) t))"
  using assms by (rule AcquireLocks_contract)

definition demo_txn :: transaction where
  "demo_txn = \<lparr>readSet = [(''x'', Timestamp 0 0)], writeSet = [(''x'', ''1''), (''y'', ''2'')],
     start_time = Timestamp 7 4\<rparr>"

lemma demo_acquire: "\<exists>r ls'. AcquireLocks 4 demo_txn [] = Inr (r, ls') \<and> la_status r = ACQUIRED"
  by (simp add: AcquireLocks_def demo_txn_def acquire_each_def LockForRead_def LockForWrite_def
    TryAcquireReadLock_def TryAcquireWriteLock_def Lock_init_def um_ref_def merge_status_def
    lock_result_def ConvertToResultStatus_def)

theorem AcquireLocks_all_or_wait_witness:
  "\<exists>r ls'. AcquireLocks 4 demo_txn [] = Inr (r, ls') \<and> holds_read (lock_at ls' ''x'') 4 \<and>
     holds_write (lock_at ls' ''x'') 4 \<and> holds_write (lock_at ls' ''y'') 4"
proof -
  obtain r ls' where A: "AcquireLocks 4 demo_txn [] = Inr (r, ls')" "la_status r = ACQUIRED"
    using demo_acquire by blast
  from AcquireLocks_all_or_wait [OF ww_inv_Nil A(1)] A show ?thesis by (simp add: demo_txn_def)
qed

text \<open>
  \<open>ReleaseLocks\<close> always returns. Afterwards the transaction neither holds nor waits
  for a read lock on a key of its read set or a write lock on a key of its write set;
  every other transaction keeps its rights, and whoever gains one is notified.
\<close>

theorem ReleaseLocks_releases:
  assumes "ww_inv ls"
  shows "\<exists>ls' n'. ReleaseLocks h txn ls = Inr (ls', n') \<and> ww_inv ls' \<and>
    (\<forall>k \<in> set (um_keys (readSet txn)). \<not> holds_read (lock_at ls' k) h) \<and>
    (\<forall>k \<in> set (um_keys (writeSet txn)). \<not> holds_write (lock_at ls' k) h) \<and>
    (\<forall>k \<in> set (um_keys (readSet txn)) \<inter> set (um_keys (writeSet txn)).
       \<not> um_has (l_waiters (lock_at ls' k)) h) \<and>
    released h ls [] ls' n'"
proof -
  from wrel.release_each_ok [OF assms, where n = "[]" and ks = "um_keys (writeSet txn)" and h = h]
  obtain ls1 n1 where W: "release_each (\<lambda>k. ReleaseForWrite k h) (um_keys (writeSet txn)) (ls, []) = Inr (ls1, n1)"
    "ww_inv ls1" "\<forall>k \<in> set (um_keys (writeSet txn)). no_write (lock_at ls1 k) h"
    "released h ls [] ls1 n1" by blast
  from rrel.release_each_ok [OF W(2), where n = n1 and ks = "um_keys (readSet txn)" and h = h]
  obtain ls2 n2 where R: "release_each (\<lambda>k. ReleaseForRead k h) (um_keys (readSet txn)) (ls1, n1) = Inr (ls2, n2)"
    "ww_inv ls2" "\<forall>k \<in> set (um_keys (readSet txn)). no_read (lock_at ls2 k) h"
    "released h ls1 n1 ls2 n2" by blast
  have w: "\<forall>k \<in> set (um_keys (writeSet txn)). no_write (lock_at ls2 k) h"
    using W(3) released_clear(2) [OF R(4)] by blast
  have none: "\<not> um_has (l_waiters (lock_at ls2 k)) h"
    if "no_read (lock_at ls2 k) h" "no_write (lock_at ls2 k) h" for k
    using R(2) that lock_invD(4) [of "lock_at ls2 k" h]
    by (cases "map_of (l_waiters (lock_at ls2 k)) h")
      (auto simp: ww_inv_def um_has_def no_read_def no_write_def waiter_ok_def)
  have "ReleaseLocks h txn ls = Inr (ls2, n2)" using W(1) R(1) by (simp add: ReleaseLocks_def)
  moreover have "released h ls [] ls2 n2" by (rule released_trans [OF W(4) R(4)])
  moreover have "\<forall>k \<in> set (um_keys (readSet txn)). \<not> holds_read (lock_at ls2 k) h"
    using R(3) by (simp add: no_read_def)
  moreover have "\<forall>k \<in> set (um_keys (writeSet txn)). \<not> holds_write (lock_at ls2 k) h"
    using w by (simp add: no_write_def)
  ultimately show ?thesis using R(2,3) w none by blast
qed

theorem ReleaseLocks_releases_witness:
  "\<exists>ls' n'. ReleaseLocks 2 demo_txn demo_table = Inr (ls', n') \<and>
     \<not> holds_write (lock_at ls' ''x'') 2 \<and> \<not> um_has (l_waiters (lock_at ls' ''x'')) 2"
  using ReleaseLocks_releases [OF demo_inv, of 2 demo_txn] by (auto simp: demo_txn_def)

text \<open>
  A fault of the code. \<open>AcquireReadWriteLock\<close> asserts that the write request and the
  read request that follows it get the same answer. When the transaction already shares
  the key's read lock with another one, the write waits and the read is granted, so the
  assertion stops the server.
\<close>

theorem AcquireReadWriteLock_shared_asserts:
  assumes "ww_inv ls" and "holds_read (lock_at ls k) t" and "holds_read (lock_at ls k) u" and "t \<noteq> u"
  shows "AcquireReadWriteLock t ts k ls = Inl AssertFailed"
proof -
  let ?l = "lock_at ls k"
  have inv: "lock_inv ?l" using assms(1) by (simp add: ww_inv_def)
  have st: "l_state ?l = LOCKED_FOR_READ"
    using q_inv_one_holder [of _ ?l t u] inv assms(2-4) by (auto simp: lock_inv_def holds_read_def)
  have hs: "um_has (l_holders ?l) t" "um_has (l_holders ?l) u" using assms(2,3) by (simp_all add: holds_read_def)
  then have ne: "l_holders ?l \<noteq> []" by auto
  have "length (l_holders ?l) \<noteq> 1"
  proof
    assume "length (l_holders ?l) = 1"
    from um_singleton [OF this hs(1)] um_singleton [OF this hs(2)] assms(4) show False by simp
  qed
  moreover obtain l1 w1 where ww: "WriteWait t ts ?l [] = (l1, w1)" by fastforce
  ultimately have wr: "LockForWrite k t ts ls [] = Inr (REPLY_WAIT, um_put k l1 ls, w1)"
    using st by (simp add: LockForWrite_def TryAcquireWriteLock_def)
  have "l_state l1 = LOCKED_FOR_READ" "um_has (l_holders l1) t"
    using WriteWait_correct [OF inv ne ww] st hs by simp_all
  then have "LockForRead k t ts (um_put k l1 ls) w1 = Inr (REPLY_OK, um_put k l1 (um_put k l1 ls), w1)"
    by (simp add: LockForRead_def TryAcquireReadLock_def)
  with wr show ?thesis by (simp add: AcquireReadWriteLock_def)
qed

definition shared_ops :: "ww_op list" where
  "shared_ops = [RequestRead ''x'' 1 (Timestamp 10 1), RequestRead ''x'' 2 (Timestamp 11 2)]"

definition shared_table :: wound_wait where
  "shared_table = [(''x'', \<lparr>l_state = LOCKED_FOR_READ,
     l_holders = [(1, Timestamp 10 1), (2, Timestamp 11 2)], l_wait_q = [], l_waiters = []\<rparr>)]"

theorem AcquireReadWriteLock_shared_asserts_witness:
  "ww_run shared_ops = Inr shared_table \<and>
   AcquireReadWriteLock 1 (Timestamp 10 1) ''x'' shared_table = Inl AssertFailed"
proof
  show run: "ww_run shared_ops = Inr shared_table" by code_simp
  show "AcquireReadWriteLock 1 (Timestamp 10 1) ''x'' shared_table = Inl AssertFailed"
    by (rule AcquireReadWriteLock_shared_asserts [OF ww_run_inv [OF run], where u = 2])
      (simp_all add: shared_table_def lock_at_def holds_read_def)
qed

end
