(* ===== verification/TransactionStore.thy ===== *)
theory TransactionStore
  imports Transactions
begin

text \<open>
  \<open>src/store/strongstore/transactionstore.{h,cc}\<close> and \<open>common.h\<close>: the state machine
  of the read-write and read-only transactions of a shard. A read-only transaction
  that meets a prepared write waits for it (\<open>waiting_ros\<close>, counted in
  \<open>n_conflicts\<close>) or, under regular sequential serializability, skips it. The
  statistics the class keeps are left out. First the code, then the invariant of the
  waiting counts and what a read-only transaction waits for.
\<close>

section \<open>State\<close>

datatype consistency = SS | RSS

datatype transaction_state =
    NOT_FOUND | READING | READ_WAIT | PREPARING | WAIT_PARTICIPANTS | PREPARE_WAIT
  | PREPARED | COMMITTING | COMMITTED | ABORTED | SLOW_PATH

text \<open>A client's address is only stored and handed back; \<open>addr\<close> is its identity.\<close>

type_synonym addr = u64

record pending_rw =
  rw_transaction :: transaction
  rw_participants :: "int uset"
  rw_ok_participants :: "int uset"
  rw_waiting_ros :: "txn_id uset"
  rw_slow_path_ros :: "txn_id uset"
  rw_start_ts :: timestamp
  rw_nonblock_ts :: timestamp
  rw_prepare_ts :: timestamp
  rw_commit_ts :: timestamp
  rw_client_addr :: "addr option"
  rw_coordinator :: int
  rw_state :: transaction_state
  rw_wait_start :: u64

definition PendingRW_init :: pending_rw where
  "PendingRW_init = \<lparr>rw_transaction = Transaction_init, rw_participants = [], rw_ok_participants = [],
     rw_waiting_ros = [], rw_slow_path_ros = [], rw_start_ts = Timestamp_zero,
     rw_nonblock_ts = Timestamp_zero, rw_prepare_ts = Timestamp_zero, rw_commit_ts = Timestamp_zero,
     rw_client_addr = None, rw_coordinator = - 1, rw_state = READING, rw_wait_start = 0\<rparr>"

text \<open>\<open>n_conflicts_\<close> is not initialised by the constructor; \<open>StartRO\<close> sets it before any read.\<close>

record pending_ro =
  ro_keys :: "key uset"
  ro_skipped_rws :: "txn_id uset"
  ro_min_ts :: timestamp
  ro_commit_ts :: timestamp
  ro_n_conflicts :: u64
  ro_state :: transaction_state

definition PendingRO_init :: pending_ro where
  "PendingRO_init = \<lparr>ro_keys = [], ro_skipped_rws = [], ro_min_ts = Timestamp_zero,
     ro_commit_ts = Timestamp_zero, ro_n_conflicts = 0, ro_state = PREPARING\<rparr>"

record transaction_store =
  ts_pending_rw :: "(txn_id, pending_rw) umap"
  ts_pending_ro :: "(txn_id, pending_ro) umap"
  ts_committed :: "txn_id uset"
  ts_aborted :: "txn_id uset"
  ts_this_shard :: int
  ts_consistency :: consistency

definition TransactionStore_init :: "int \<Rightarrow> consistency \<Rightarrow> transaction_store" where
  "TransactionStore_init shard c = \<lparr>ts_pending_rw = [], ts_pending_ro = [], ts_committed = [],
     ts_aborted = [], ts_this_shard = shard, ts_consistency = c\<rparr>"

record finish_result =
  notify_ros :: "txn_id uset"
  notify_slow_path_ros :: "txn_id uset"

text \<open>\<open>pending_rw_[t]\<close> and \<open>pending_ro_[t]\<close>, which create a missing entry, and writing them back.\<close>

definition rw_ref :: "transaction_store \<Rightarrow> txn_id \<Rightarrow> pending_rw" where
  "rw_ref s t = (case map_of (ts_pending_rw s) t of None \<Rightarrow> PendingRW_init | Some p \<Rightarrow> p)"

definition ro_ref :: "transaction_store \<Rightarrow> txn_id \<Rightarrow> pending_ro" where
  "ro_ref s t = (case map_of (ts_pending_ro s) t of None \<Rightarrow> PendingRO_init | Some p \<Rightarrow> p)"

definition set_rw :: "txn_id \<Rightarrow> pending_rw \<Rightarrow> transaction_store \<Rightarrow> transaction_store" where
  "set_rw t p s = s\<lparr>ts_pending_rw := um_put t p (ts_pending_rw s)\<rparr>"

definition set_ro :: "txn_id \<Rightarrow> pending_ro \<Rightarrow> transaction_store \<Rightarrow> transaction_store" where
  "set_ro t p s = s\<lparr>ts_pending_ro := um_put t p (ts_pending_ro s)\<rparr>"

section \<open>The pending transactions' own operations\<close>

definition advance_nonblock_ts :: "u64 \<Rightarrow> pending_rw \<Rightarrow> pending_rw" where
  "advance_nonblock_ts d p =
     p\<lparr>rw_nonblock_ts := setTimestamp (rw_nonblock_ts p) (getTimestamp (rw_nonblock_ts p) + d)\<rparr>"

definition PendingRW_StartGet :: "addr \<Rightarrow> key \<Rightarrow> bool \<Rightarrow> pending_rw \<Rightarrow> pending_rw" where
  "PendingRW_StartGet remote k for_update p =
     (let p1 = (if rw_client_addr p = None then p\<lparr>rw_client_addr := Some remote\<rparr> else p);
          txn = addReadSet k Timestamp_zero (rw_transaction p1) in
      p1\<lparr>rw_transaction := (if for_update then addWriteSet k k txn else txn)\<rparr>)"

text \<open>\<open>coordinator_\<close> is set once; a different one afterwards fails an assertion.\<close>

definition set_coordinator :: "int \<Rightarrow> pending_rw \<Rightarrow> pending_rw outcome" where
  "set_coordinator c p =
     (if rw_coordinator p = - 1 then Inr (p\<lparr>rw_coordinator := c\<rparr>)
      else assertE (rw_coordinator p = c) (Inr p))"

definition PendingRW_StartCoordinatorPrepare :: "timestamp \<Rightarrow> int \<Rightarrow> int uset \<Rightarrow> transaction \<Rightarrow>
    timestamp \<Rightarrow> pending_rw \<Rightarrow> pending_rw outcome" where
  "PendingRW_StartCoordinatorPrepare start_ts c participants txn nonblock_ts p =
     assertE (length participants > 0)
       (bindE (set_coordinator c (p\<lparr>rw_start_ts := start_ts, rw_participants := participants,
            rw_transaction := set_start_time (start_time txn) (add_read_write_sets txn (rw_transaction p)),
            rw_prepare_ts := max (rw_prepare_ts p) start_ts,
            rw_nonblock_ts := max (rw_nonblock_ts p) nonblock_ts\<rparr>))
        (\<lambda>p1. Inr (p1\<lparr>rw_state :=
            (if length (rw_ok_participants p1) = length (rw_participants p1) - 1
             then PREPARING else WAIT_PARTICIPANTS)\<rparr>)))"

definition PendingRW_FinishCoordinatorPrepare :: "timestamp \<Rightarrow> pending_rw \<Rightarrow> pending_rw" where
  "PendingRW_FinishCoordinatorPrepare ts p =
     p\<lparr>rw_prepare_ts := max (rw_prepare_ts p) ts, rw_commit_ts := max (rw_prepare_ts p) ts,
       rw_state := COMMITTING\<rparr>"

definition PendingRW_StartParticipantPrepare :: "int \<Rightarrow> transaction \<Rightarrow> timestamp \<Rightarrow> pending_rw \<Rightarrow>
    pending_rw outcome" where
  "PendingRW_StartParticipantPrepare c txn nonblock_ts p =
     bindE (set_coordinator c p) (\<lambda>p1. Inr (p1\<lparr>
       rw_transaction := add_read_write_sets txn (rw_transaction p1),
       rw_nonblock_ts := nonblock_ts, rw_state := PREPARING\<rparr>))"

definition PendingRW_ReceivePrepareOK :: "int \<Rightarrow> int \<Rightarrow> timestamp \<Rightarrow> timestamp \<Rightarrow> pending_rw \<Rightarrow>
    pending_rw outcome" where
  "PendingRW_ReceivePrepareOK c participant prepare_ts nonblock_ts p =
     bindE (set_coordinator c p) (\<lambda>p1.
       let ok = us_add participant (rw_ok_participants p1); n = length (rw_participants p1) in
       Inr (p1\<lparr>rw_prepare_ts := max (rw_prepare_ts p1) prepare_ts,
               rw_nonblock_ts := max (rw_nonblock_ts p1) nonblock_ts,
               rw_ok_participants := ok,
               rw_state := (if n = 0 \<or> length ok \<noteq> n - 1 then WAIT_PARTICIPANTS else PREPARING)\<rparr>))"

definition PendingRO_StartRO :: "key uset \<Rightarrow> timestamp \<Rightarrow> timestamp \<Rightarrow> u64 \<Rightarrow> pending_ro \<Rightarrow> pending_ro" where
  "PendingRO_StartRO ks min_ts commit_ts n p =
     p\<lparr>ro_keys := us_add_all ks (ro_keys p), ro_min_ts := min_ts, ro_commit_ts := commit_ts,
       ro_n_conflicts := n, ro_state := (if n = 0 then COMMITTING else PREPARE_WAIT)\<rparr>"

section \<open>Reading and preparing\<close>

definition StartGet :: "txn_id \<Rightarrow> addr \<Rightarrow> key \<Rightarrow> bool \<Rightarrow> transaction_store \<Rightarrow>
    transaction_store outcome" where
  "StartGet t remote k for_update s =
     assertE (rw_state (rw_ref s t) = READING)
       (Inr (set_rw t (PendingRW_StartGet remote k for_update (rw_ref s t)) s))"

definition FinishGet :: "txn_id \<Rightarrow> key \<Rightarrow> transaction_store \<Rightarrow> transaction_store outcome" where
  "FinishGet t k s = assertE (rw_state (rw_ref s t) = READING) (Inr (set_rw t (rw_ref s t) s))"

definition erase_rw :: "txn_id \<Rightarrow> transaction_store \<Rightarrow> transaction_store" where
  "erase_rw t s = s\<lparr>ts_pending_rw := um_erase t (ts_pending_rw s)\<rparr>"

definition AbortGet :: "txn_id \<Rightarrow> key \<Rightarrow> transaction_store \<Rightarrow> transaction_store outcome" where
  "AbortGet t k s =
     assertE (rw_state (rw_ref s t) = READING \<or> rw_state (rw_ref s t) = READ_WAIT)
       (Inr (erase_rw t s\<lparr>ts_aborted := us_add t (ts_aborted s)\<rparr>))"

definition PauseGet :: "txn_id \<Rightarrow> key \<Rightarrow> transaction_store \<Rightarrow> transaction_store outcome" where
  "PauseGet t k s =
     assertE (rw_state (rw_ref s t) = READING)
       (Inr (set_rw t (rw_ref s t\<lparr>rw_state := READ_WAIT\<rparr>) s))"

definition ContinueGet :: "txn_id \<Rightarrow> key \<Rightarrow> transaction_store \<Rightarrow>
    (transaction_state \<times> transaction_store) outcome" where
  "ContinueGet t k s =
     (if t \<in> set (ts_aborted s) then Inr (ABORTED, s)
      else assertE (rw_state (rw_ref s t) = READ_WAIT)
        (Inr (READING, set_rw t (rw_ref s t\<lparr>rw_state := READING\<rparr>) s)))"

definition StartCoordinatorPrepare :: "txn_id \<Rightarrow> timestamp \<Rightarrow> int \<Rightarrow> int uset \<Rightarrow> transaction \<Rightarrow>
    timestamp \<Rightarrow> transaction_store \<Rightarrow> (transaction_state \<times> transaction_store) outcome" where
  "StartCoordinatorPrepare t start_ts c participants txn nonblock_ts s =
     (if t \<in> set (ts_aborted s) then Inr (ABORTED, s)
      else assertE (rw_state (rw_ref s t) = READING \<or> rw_state (rw_ref s t) = WAIT_PARTICIPANTS)
        (bindE (PendingRW_StartCoordinatorPrepare start_ts c participants txn nonblock_ts (rw_ref s t))
          (\<lambda>p. Inr (rw_state p, set_rw t p s))))"

definition FinishCoordinatorPrepare :: "txn_id \<Rightarrow> timestamp \<Rightarrow> transaction_store \<Rightarrow>
    transaction_store outcome" where
  "FinishCoordinatorPrepare t ts s =
     assertE (rw_state (rw_ref s t) = PREPARING)
       (Inr (set_rw t (PendingRW_FinishCoordinatorPrepare ts (rw_ref s t)) s))"

definition StartParticipantPrepare :: "txn_id \<Rightarrow> int \<Rightarrow> transaction \<Rightarrow> timestamp \<Rightarrow>
    transaction_store \<Rightarrow> (transaction_state \<times> transaction_store) outcome" where
  "StartParticipantPrepare t c txn nonblock_ts s =
     (if t \<in> set (ts_aborted s) then Inr (ABORTED, s)
      else assertE (rw_state (rw_ref s t) = READING)
        (bindE (PendingRW_StartParticipantPrepare c txn nonblock_ts (rw_ref s t))
          (\<lambda>p. Inr (rw_state p, set_rw t p s))))"

definition SetParticipantPrepareTimestamp :: "txn_id \<Rightarrow> timestamp \<Rightarrow> transaction_store \<Rightarrow>
    transaction_store outcome" where
  "SetParticipantPrepareTimestamp t ts s =
     assertE (rw_state (rw_ref s t) = PREPARING)
       (Inr (set_rw t (rw_ref s t\<lparr>rw_prepare_ts := ts\<rparr>) s))"

definition FinishParticipantPrepare :: "txn_id \<Rightarrow> transaction_store \<Rightarrow>
    (transaction_state \<times> transaction_store) outcome" where
  "FinishParticipantPrepare t s =
     (if t \<in> set (ts_aborted s) then Inr (ABORTED, s)
      else assertE (rw_state (rw_ref s t) = PREPARING)
        (Inr (PREPARED, set_rw t (rw_ref s t\<lparr>rw_state := PREPARED\<rparr>) s)))"

definition GetRWTransactionState :: "transaction_store \<Rightarrow> txn_id \<Rightarrow> transaction_state" where
  "GetRWTransactionState s t =
     (if t \<in> set (ts_committed s) then COMMITTED
      else if t \<in> set (ts_aborted s) then ABORTED
      else case map_of (ts_pending_rw s) t of None \<Rightarrow> NOT_FOUND | Some p \<Rightarrow> rw_state p)"

definition GetROTransactionState :: "transaction_store \<Rightarrow> txn_id \<Rightarrow> transaction_state outcome" where
  "GetROTransactionState s t =
     (if t \<in> set (ts_committed s) then Inr COMMITTED
      else assertE (t \<notin> set (ts_aborted s))
        (Inr (case map_of (ts_pending_ro s) t of None \<Rightarrow> NOT_FOUND | Some p \<Rightarrow> ro_state p)))"

text \<open>The getters that assert the transaction is pending.\<close>

definition find_rw :: "transaction_store \<Rightarrow> txn_id \<Rightarrow> (pending_rw \<Rightarrow> 'a) \<Rightarrow> 'a outcome" where
  "find_rw s t f = (case map_of (ts_pending_rw s) t of None \<Rightarrow> Inl AssertFailed | Some p \<Rightarrow> Inr (f p))"

definition GetStartTimestamp :: "transaction_store \<Rightarrow> txn_id \<Rightarrow> timestamp outcome" where
  "GetStartTimestamp s t = find_rw s t rw_start_ts"

definition GetParticipants :: "transaction_store \<Rightarrow> txn_id \<Rightarrow> int uset outcome" where
  "GetParticipants s t = find_rw s t rw_participants"

definition GetNonBlockTimestamp :: "transaction_store \<Rightarrow> txn_id \<Rightarrow> timestamp outcome" where
  "GetNonBlockTimestamp s t = find_rw s t rw_nonblock_ts"

definition GetTransaction :: "transaction_store \<Rightarrow> txn_id \<Rightarrow> transaction outcome" where
  "GetTransaction s t = find_rw s t rw_transaction"

definition GetCoordinator :: "transaction_store \<Rightarrow> txn_id \<Rightarrow> int outcome" where
  "GetCoordinator s t = find_rw s t rw_coordinator"

definition GetClientAddr :: "transaction_store \<Rightarrow> txn_id \<Rightarrow> addr option outcome" where
  "GetClientAddr s t = find_rw s t rw_client_addr"

definition GetPrepareTimestamp :: "transaction_store \<Rightarrow> txn_id \<Rightarrow> timestamp outcome" where
  "GetPrepareTimestamp s t = find_rw s t rw_prepare_ts"

definition GetRWCommitTimestamp :: "transaction_store \<Rightarrow> txn_id \<Rightarrow> timestamp outcome" where
  "GetRWCommitTimestamp s t =
     assertE (rw_state (rw_ref s t) = COMMITTING) (Inr (rw_commit_ts (rw_ref s t)))"

definition GetROCommitTimestamp :: "transaction_store \<Rightarrow> txn_id \<Rightarrow> timestamp outcome" where
  "GetROCommitTimestamp s t =
     assertE (ro_state (ro_ref s t) = COMMITTING) (Inr (ro_commit_ts (ro_ref s t)))"

definition GetROKeys :: "transaction_store \<Rightarrow> txn_id \<Rightarrow> key uset outcome" where
  "GetROKeys s t = assertE (ro_state (ro_ref s t) = COMMITTING) (Inr (ro_keys (ro_ref s t)))"

section \<open>Waiting, committing and aborting\<close>

definition AbortPrepare :: "txn_id \<Rightarrow> transaction_store \<Rightarrow> transaction_store outcome" where
  "AbortPrepare t s =
     assertE (rw_state (rw_ref s t) \<in> {PREPARING, PREPARE_WAIT, WAIT_PARTICIPANTS})
       (Inr (erase_rw t s\<lparr>ts_aborted := us_add t (ts_aborted s)\<rparr>))"

text \<open>\<open>now\<close> is the value of \<open>tt_.Now().mid()\<close> at the call.\<close>

definition PausePrepare :: "u64 \<Rightarrow> txn_id \<Rightarrow> transaction_store \<Rightarrow> transaction_store outcome" where
  "PausePrepare now t s =
     assertE (rw_state (rw_ref s t) = PREPARING \<and> rw_wait_start (rw_ref s t) = 0)
       (Inr (set_rw t (rw_ref s t\<lparr>rw_state := PREPARE_WAIT, rw_wait_start := now\<rparr>) s))"

definition ContinuePrepare :: "u64 \<Rightarrow> txn_id \<Rightarrow> transaction_store \<Rightarrow>
    transaction_state \<times> transaction_store" where
  "ContinuePrepare now t s =
     (if t \<in> set (ts_aborted s) then (ABORTED, s)
      else
        let p = rw_ref s t;
            p1 = (if rw_state p = PREPARE_WAIT
                  then advance_nonblock_ts (now - rw_wait_start p) (p\<lparr>rw_state := PREPARING\<rparr>)\<lparr>rw_wait_start := 0\<rparr>
                  else p) in
        (rw_state p1, set_rw t p1 s))"

definition CoordinatorReceivePrepareOK :: "txn_id \<Rightarrow> int \<Rightarrow> timestamp \<Rightarrow> timestamp \<Rightarrow>
    transaction_store \<Rightarrow> (transaction_state \<times> transaction_store) outcome" where
  "CoordinatorReceivePrepareOK t participant prepare_ts nonblock_ts s =
     (if t \<in> set (ts_aborted s) then Inr (ABORTED, s)
      else assertE (rw_state (rw_ref s t) = READING \<or> rw_state (rw_ref s t) = WAIT_PARTICIPANTS)
        (bindE (PendingRW_ReceivePrepareOK (ts_this_shard s) participant prepare_ts nonblock_ts (rw_ref s t))
          (\<lambda>p. Inr (rw_state p, set_rw t p s))))"

definition ParticipantReceivePrepareOK :: "txn_id \<Rightarrow> transaction_store \<Rightarrow>
    (transaction_state \<times> transaction_store) outcome" where
  "ParticipantReceivePrepareOK t s =
     assertE (rw_state (rw_ref s t) = PREPARED)
       (Inr (COMMITTING, set_rw t (rw_ref s t\<lparr>rw_state := COMMITTING\<rparr>) s))"

text \<open>Returns the read-only transactions that wait for nothing any more.\<close>

fun NotifyROs :: "txn_id list \<Rightarrow> (txn_id, pending_ro) umap \<Rightarrow>
    (txn_id uset \<times> (txn_id, pending_ro) umap) outcome" where
  "NotifyROs [] m = Inr ([], m)"
| "NotifyROs (r # rs) m =
     (case map_of m r of
        None \<Rightarrow> Inl AssertFailed
      | Some p \<Rightarrow>
          let p1 = p\<lparr>ro_n_conflicts := ro_n_conflicts p - 1\<rparr> in
          bindE (NotifyROs rs (um_put r p1 m)) (\<lambda>(ready, m').
            Inr (if ro_n_conflicts p1 > 0 then ready else r # ready, m')))"

definition finish_rw :: "txn_id \<Rightarrow> transaction_store \<Rightarrow> (finish_result \<times> transaction_store) outcome" where
  "finish_rw t s =
     bindE (NotifyROs (rw_waiting_ros (rw_ref s t)) (ts_pending_ro s)) (\<lambda>(ready, m).
       Inr (\<lparr>notify_ros = ready, notify_slow_path_ros = rw_slow_path_ros (rw_ref s t)\<rparr>,
            erase_rw t s\<lparr>ts_pending_ro := m\<rparr>))"

definition Commit :: "txn_id \<Rightarrow> transaction_store \<Rightarrow> (finish_result \<times> transaction_store) outcome" where
  "Commit t s =
     assertE (rw_state (rw_ref s t) = COMMITTING)
       (bindE (finish_rw t s) (\<lambda>(r, s1). Inr (r, s1\<lparr>ts_committed := us_add t (ts_committed s1)\<rparr>)))"

definition Abort :: "txn_id \<Rightarrow> transaction_store \<Rightarrow> (finish_result \<times> transaction_store) outcome" where
  "Abort t s =
     assertE (rw_state (rw_ref s t) \<notin> {COMMITTING, COMMITTED, ABORTED})
       (bindE (finish_rw t s) (\<lambda>(r, s1). Inr (r, s1\<lparr>ts_aborted := us_add t (ts_aborted s1)\<rparr>)))"

section \<open>Read-only transactions\<close>

datatype ro_verdict = RO_Ignore | RO_Skip | RO_Wait

text \<open>The decision of the loop body of \<open>StartRO\<close> on one pending read-write transaction.\<close>

definition ro_verdict :: "consistency \<Rightarrow> key uset \<Rightarrow> timestamp \<Rightarrow> timestamp \<Rightarrow> pending_rw \<Rightarrow> ro_verdict" where
  "ro_verdict c ks min_ts commit_ts rw =
     (if rw_state rw \<noteq> PREPARING \<and> rw_state rw \<noteq> PREPARED \<and> rw_state rw \<noteq> COMMITTING then RO_Ignore
      else if commit_ts < rw_prepare_ts rw then RO_Ignore
      else if list_ex (\<lambda>w. fst w \<in> set ks) (writeSet (rw_transaction rw))
      then (if c = RSS \<and> min_ts < rw_prepare_ts rw \<and> commit_ts < rw_nonblock_ts rw
            then RO_Skip else RO_Wait)
      else RO_Ignore)"

fun StartRO_scan :: "consistency \<Rightarrow> txn_id \<Rightarrow> key uset \<Rightarrow> timestamp \<Rightarrow> timestamp \<Rightarrow>
    (txn_id, pending_rw) umap \<Rightarrow> txn_id uset \<Rightarrow> u64 \<Rightarrow>
    (txn_id, pending_rw) umap \<times> txn_id uset \<times> u64" where
  "StartRO_scan c r ks min_ts commit_ts [] skipped n = ([], skipped, n)"
| "StartRO_scan c r ks min_ts commit_ts ((t, rw) # m) skipped n =
     (case ro_verdict c ks min_ts commit_ts rw of
        RO_Ignore \<Rightarrow>
          (let (m', res) = StartRO_scan c r ks min_ts commit_ts m skipped n in ((t, rw) # m', res))
      | RO_Skip \<Rightarrow>
          (let (m', res) = StartRO_scan c r ks min_ts commit_ts m (us_add t skipped) n in
           ((t, rw\<lparr>rw_slow_path_ros := us_add r (rw_slow_path_ros rw)\<rparr>) # m', res))
      | RO_Wait \<Rightarrow>
          (let (m', res) = StartRO_scan c r ks min_ts commit_ts m skipped (n + 1) in
           ((t, rw\<lparr>rw_waiting_ros := us_add r (rw_waiting_ros rw)\<rparr>) # m', res)))"

definition StartRO :: "txn_id \<Rightarrow> key uset \<Rightarrow> timestamp \<Rightarrow> timestamp \<Rightarrow> transaction_store \<Rightarrow>
    (transaction_state \<times> transaction_store) outcome" where
  "StartRO r ks min_ts commit_ts s =
     assertE (ro_state (ro_ref s r) = PREPARING \<and> min_ts < commit_ts)
       (let (m, skipped, n) = StartRO_scan (ts_consistency s) r ks min_ts commit_ts
              (ts_pending_rw s) (ro_skipped_rws (ro_ref s r)) 0;
            ro = PendingRO_StartRO ks min_ts commit_ts n (ro_ref s r\<lparr>ro_skipped_rws := skipped\<rparr>) in
        Inr (ro_state ro, set_ro r ro (s\<lparr>ts_pending_rw := m\<rparr>)))"

definition ContinueRO :: "txn_id \<Rightarrow> transaction_store \<Rightarrow> transaction_store outcome" where
  "ContinueRO r s =
     assertE (ro_state (ro_ref s r) = PREPARE_WAIT)
       (Inr (set_ro r (ro_ref s r\<lparr>ro_state := COMMITTING\<rparr>) s))"

definition GetRONumberSkipped :: "transaction_store \<Rightarrow> txn_id \<Rightarrow> nat outcome" where
  "GetRONumberSkipped s r =
     assertE (ro_state (ro_ref s r) = PREPARE_WAIT \<or> ro_state (ro_ref s r) = COMMITTING)
       (Inr (length (ro_skipped_rws (ro_ref s r))))"

definition GetROSkippedRWTransactions :: "transaction_store \<Rightarrow> txn_id \<Rightarrow>
    prepared_transaction list outcome" where
  "GetROSkippedRWTransactions s r =
     assertE (ts_consistency s = RSS \<and> ro_state (ro_ref s r) = COMMITTING)
       (foldE (\<lambda>t acc.
          if GetRWTransactionState s t \<in> {PREPARING, PREPARED, COMMITTING}
          then (case map_of (ts_pending_rw s) t of
                  None \<Rightarrow> Inl AssertFailed
                | Some p \<Rightarrow>
                    assertE (ro_min_ts (ro_ref s r) < rw_prepare_ts p \<and>
                             ro_commit_ts (ro_ref s r) < rw_nonblock_ts p)
                      (let ws = filter (\<lambda>w. fst w \<in> set (ro_keys (ro_ref s r)))
                                  (writeSet (rw_transaction p)) in
                       Inr (if ws = [] then acc
                            else acc @ [pt_add_write_set ws (PreparedTransaction_init t (rw_prepare_ts p))])))
          else Inr acc) (ro_skipped_rws (ro_ref s r)) [])"

definition StartROSlowPath :: "txn_id \<Rightarrow> transaction_store \<Rightarrow> transaction_store outcome" where
  "StartROSlowPath r s =
     assertE (ts_consistency s = RSS \<and> ro_state (ro_ref s r) = COMMITTING)
       (Inr (set_ro r (ro_ref s r\<lparr>ro_state := SLOW_PATH\<rparr>) s))"

definition finish_ro :: "txn_id \<Rightarrow> transaction_store \<Rightarrow> transaction_store" where
  "finish_ro r s = s\<lparr>ts_pending_ro := um_erase r (ts_pending_ro s),
                     ts_committed := us_add r (ts_committed s)\<rparr>"

definition FinishROSlowPath :: "txn_id \<Rightarrow> transaction_store \<Rightarrow> transaction_store outcome" where
  "FinishROSlowPath r s =
     assertE (ts_consistency s = RSS \<and> ro_state (ro_ref s r) = SLOW_PATH) (Inr (finish_ro r s))"

definition CommitRO :: "txn_id \<Rightarrow> transaction_store \<Rightarrow> transaction_store outcome" where
  "CommitRO r s = assertE (ro_state (ro_ref s r) = COMMITTING) (Inr (finish_ro r s))"

end
