(* ===== verification/TransactionStoreInv.thy ===== *)
theory TransactionStoreInv
  imports TransactionStore
begin

text \<open>
  The waiting counts of read-only transactions. A read-only transaction waits for
  exactly the read-write transactions that list it, its counter is their number, and it
  is woken when, and only when, the last of them commits or aborts.
\<close>

section \<open>The scan of StartRO\<close>

definition ro_mark :: "consistency \<Rightarrow> txn_id \<Rightarrow> key uset \<Rightarrow> timestamp \<Rightarrow> timestamp \<Rightarrow>
    pending_rw \<Rightarrow> pending_rw" where
  "ro_mark c r ks min_ts commit_ts rw =
     (case ro_verdict c ks min_ts commit_ts rw of
        RO_Ignore \<Rightarrow> rw
      | RO_Skip \<Rightarrow> rw\<lparr>rw_slow_path_ros := us_add r (rw_slow_path_ros rw)\<rparr>
      | RO_Wait \<Rightarrow> rw\<lparr>rw_waiting_ros := us_add r (rw_waiting_ros rw)\<rparr>)"

lemma StartRO_scan_rws:
  "fst (StartRO_scan c r ks mn cm m sk n) = map (\<lambda>(t, rw). (t, ro_mark c r ks mn cm rw)) m"
  by (induction c r ks mn cm m sk n rule: StartRO_scan.induct)
    (auto simp: ro_mark_def split: ro_verdict.splits prod.splits)

lemma StartRO_scan_skipped:
  "set (fst (snd (StartRO_scan c r ks mn cm m sk n))) =
   set sk \<union> {t. \<exists>rw. (t, rw) \<in> set m \<and> ro_verdict c ks mn cm rw = RO_Skip}"
  by (induction c r ks mn cm m sk n rule: StartRO_scan.induct)
    (auto split: ro_verdict.splits prod.splits)

lemma StartRO_scan_count:
  "snd (snd (StartRO_scan c r ks mn cm m sk n)) =
   n + of_nat (length (filter (\<lambda>(t, rw). ro_verdict c ks mn cm rw = RO_Wait) m))"
  by (induction c r ks mn cm m sk n rule: StartRO_scan.induct)
    (auto split: ro_verdict.splits prod.splits)

section \<open>The invariant\<close>

definition waits_for :: "transaction_store \<Rightarrow> txn_id \<Rightarrow> txn_id \<Rightarrow> bool" where
  "waits_for s r t \<longleftrightarrow> (\<exists>p. map_of (ts_pending_rw s) t = Some p \<and> r \<in> set (rw_waiting_ros p))"

definition n_waits :: "transaction_store \<Rightarrow> txn_id \<Rightarrow> nat" where
  "n_waits s r = length (filter (\<lambda>(t, p). r \<in> set (rw_waiting_ros p)) (ts_pending_rw s))"

definition ro_inv :: "transaction_store \<Rightarrow> bool" where
  "ro_inv s \<longleftrightarrow>
     um_ok (ts_pending_rw s) \<and> um_ok (ts_pending_ro s) \<and>
     (\<forall>t p. map_of (ts_pending_rw s) t = Some p \<longrightarrow> distinct (rw_waiting_ros p) \<and>
        (rw_state p \<in> {READING, READ_WAIT, WAIT_PARTICIPANTS} \<longrightarrow> rw_waiting_ros p = [])) \<and>
     (\<forall>r. n_waits s r > 0 \<longrightarrow> (\<exists>p. map_of (ts_pending_ro s) r = Some p \<and> ro_state p = PREPARE_WAIT)) \<and>
     (\<forall>r p. map_of (ts_pending_ro s) r = Some p \<and> ro_state p = PREPARE_WAIT \<longrightarrow>
        ro_n_conflicts p = of_nat (n_waits s r))"

lemma ro_inv_init [simp]: "ro_inv (TransactionStore_init shard c)"
  by (simp add: ro_inv_def TransactionStore_init_def n_waits_def)

lemma n_waits_pos: "um_ok (ts_pending_rw s) \<Longrightarrow> n_waits s r > 0 \<longleftrightarrow> (\<exists>t. waits_for s r t)"
  by (auto simp: n_waits_def waits_for_def filter_empty_conv um_ok_def)

lemma n_waits_le: "n_waits s r \<le> length (ts_pending_rw s)"
  by (simp add: n_waits_def)

text \<open>A pending entry leaves with the count of the transactions it blocked.\<close>

lemma n_waits_erase:
  assumes "um_ok (ts_pending_rw s)" and "map_of (ts_pending_rw s) t = Some p"
  shows "n_waits s r = n_waits (erase_rw t s) r + (if r \<in> set (rw_waiting_ros p) then 1 else 0)"
  using assms unfolding n_waits_def erase_rw_def
proof (simp, induction "ts_pending_rw s" arbitrary: s)
  case Nil
  then show ?case by simp
next
  case (Cons e m)
  obtain u q where e: "e = (u, q)" by fastforce
  show ?case
  proof (cases "u = t")
    case True
    with Cons.prems Cons.hyps(2) [symmetric] e have "p = q" and "t \<notin> fst ` set m"
      by (auto simp: um_ok_def)
    then show ?thesis using True Cons.hyps(2) [symmetric] e by (auto simp: delete_idem)
  next
    case False
    with Cons.hyps(1) [of "s\<lparr>ts_pending_rw := m\<rparr>"] Cons.prems Cons.hyps(2) [symmetric] e
    show ?thesis by (auto simp: um_ok_def)
  qed
qed

section \<open>Notifying\<close>

lemma NotifyROs_total:
  assumes "distinct rs" and "\<And>r. r \<in> set rs \<Longrightarrow> um_has m r" and "um_ok m"
  shows "\<exists>ready m'. NotifyROs rs m = Inr (ready, m') \<and> um_ok m' \<and>
    (\<forall>r. map_of m' r = map_option (\<lambda>p. if r \<in> set rs
       then p\<lparr>ro_n_conflicts := ro_n_conflicts p - 1\<rparr> else p) (map_of m r)) \<and>
    (\<forall>r. r \<in> set ready \<longleftrightarrow> r \<in> set rs \<and> (\<exists>p. map_of m' r = Some p \<and> ro_n_conflicts p = 0))"
  using assms
proof (induction rs arbitrary: m)
  case Nil
  then show ?case by (auto simp: option.map_ident)
next
  case (Cons r rs)
  then obtain p where p: "map_of m r = Some p" by (fastforce simp: um_has_def)
  let ?p = "p\<lparr>ro_n_conflicts := ro_n_conflicts p - 1\<rparr>"
  have "distinct rs" "r \<notin> set rs" using Cons.prems(1) by simp_all
  moreover have "um_has (um_put r ?p m) u" if "u \<in> set rs" for u using Cons.prems(2) that by simp
  ultimately obtain ready m' where IH: "NotifyROs rs (um_put r ?p m) = Inr (ready, m')" "um_ok m'"
    "\<forall>u. map_of m' u = map_option (\<lambda>p. if u \<in> set rs then p\<lparr>ro_n_conflicts := ro_n_conflicts p - 1\<rparr> else p)
       (map_of (um_put r ?p m) u)"
    "\<forall>u. u \<in> set ready \<longleftrightarrow> u \<in> set rs \<and> (\<exists>p. map_of m' u = Some p \<and> ro_n_conflicts p = 0)"
    using Cons.IH [of "um_put r ?p m"] Cons.prems(3) by auto
  have r: "map_of m' r = Some ?p" using IH(3) \<open>r \<notin> set rs\<close> by simp
  let ?ready = "if ro_n_conflicts ?p > 0 then ready else r # ready"
  have "NotifyROs (r # rs) m = Inr (?ready, m')" using p IH(1) by (simp add: Let_def)
  moreover have "\<forall>u. map_of m' u = map_option (\<lambda>p. if u \<in> set (r # rs)
       then p\<lparr>ro_n_conflicts := ro_n_conflicts p - 1\<rparr> else p) (map_of m u)"
    using IH(3) r p \<open>r \<notin> set rs\<close> by auto
  moreover have "u \<in> set ?ready \<longleftrightarrow> u \<in> set (r # rs) \<and> (\<exists>p. map_of m' u = Some p \<and> ro_n_conflicts p = 0)"
    for u using IH(4) r by (cases "u = r") (auto simp: word_gt_0)
  ultimately show ?case using IH(2) by blast
qed

lemma ro_invD:
  assumes "ro_inv s"
  shows "um_ok (ts_pending_rw s)" "um_ok (ts_pending_ro s)"
    and "\<And>t p. map_of (ts_pending_rw s) t = Some p \<Longrightarrow>
      rw_state p \<in> {READING, READ_WAIT, WAIT_PARTICIPANTS} \<Longrightarrow> rw_waiting_ros p = []"
    and "\<And>t p. map_of (ts_pending_rw s) t = Some p \<Longrightarrow> distinct (rw_waiting_ros p)"
    and "\<And>r. n_waits s r > 0 \<Longrightarrow> \<exists>p. map_of (ts_pending_ro s) r = Some p \<and> ro_state p = PREPARE_WAIT"
    and "\<And>r p. map_of (ts_pending_ro s) r = Some p \<Longrightarrow> ro_state p = PREPARE_WAIT \<Longrightarrow>
      ro_n_conflicts p = of_nat (n_waits s r)"
  using assms unfolding ro_inv_def by blast+

lemma ready_state:
  "rw_waiting_ros (rw_ref s t) = [] \<or> um_has (ts_pending_rw s) t"
  by (auto simp: rw_ref_def um_has_def PendingRW_init_def split: option.split)

text \<open>
  Taking a transaction out of \<open>pending_rw\<close> and notifying its waiters: the counts stay
  right, and the transactions to wake are those whose last conflict it was.
\<close>

lemma finish_rw_correct:
  assumes inv: "ro_inv s"
  shows "\<exists>res s'. finish_rw t s = Inr (res, s') \<and> ro_inv s' \<and>
    ts_pending_rw s' = um_erase t (ts_pending_rw s) \<and>
    (length (ts_pending_rw s) < 2 ^ 64 \<longrightarrow>
      (\<forall>r. r \<in> set (notify_ros res) \<longleftrightarrow> waits_for s r t \<and> n_waits s' r = 0)) \<and>
    notify_slow_path_ros res = rw_slow_path_ros (rw_ref s t) \<and>
    ts_committed s' = ts_committed s \<and> ts_aborted s' = ts_aborted s"
proof -
  note I = ro_invD [OF inv]
  define rs where "rs = rw_waiting_ros (rw_ref s t)"
  have waits: "r \<in> set rs \<longleftrightarrow> waits_for s r t" for r
    by (auto simp: rs_def rw_ref_def waits_for_def PendingRW_init_def split: option.splits)
  have dist: "distinct rs" using I(4) by (auto simp: rs_def rw_ref_def PendingRW_init_def split: option.splits)
  have n: "n_waits s r = n_waits (erase_rw t s) r + (if r \<in> set rs then 1 else 0)" for r
  proof (cases "map_of (ts_pending_rw s) t")
    case None
    then have "rs = []" and "um_erase t (ts_pending_rw s) = ts_pending_rw s"
      by (simp_all add: rs_def rw_ref_def PendingRW_init_def um_has_def)
    then show ?thesis by (simp add: n_waits_def erase_rw_def)
  next
    case (Some p)
    then show ?thesis using n_waits_erase [OF I(1) Some, of r] by (simp add: rs_def rw_ref_def)
  qed
  have has: "um_has (ts_pending_ro s) r" if "r \<in> set rs" for r
    using I(5) [of r] n [of r] that by (auto simp: um_has_def)
  from NotifyROs_total [OF dist has I(2)] obtain ready m' where
    N: "NotifyROs rs (ts_pending_ro s) = Inr (ready, m')" "um_ok m'"
    "\<forall>r. map_of m' r = map_option (\<lambda>p. if r \<in> set rs
       then p\<lparr>ro_n_conflicts := ro_n_conflicts p - 1\<rparr> else p) (map_of (ts_pending_ro s) r)"
    "\<forall>r. r \<in> set ready \<longleftrightarrow> r \<in> set rs \<and> (\<exists>p. map_of m' r = Some p \<and> ro_n_conflicts p = 0)"
    by blast
  define s' where "s' = erase_rw t s\<lparr>ts_pending_ro := m'\<rparr>"
  have n': "n_waits s' r = n_waits (erase_rw t s) r" for r by (simp add: s'_def n_waits_def)
  have len: "length (ts_pending_rw s') \<le> length (ts_pending_rw s)"
    by (simp add: s'_def erase_rw_def length_delete_le)
  have cnt: "ro_n_conflicts p = of_nat (n_waits s' r)"
    if "map_of m' r = Some p" "ro_state p = PREPARE_WAIT" for r p
  proof -
    from that N(3) obtain q where q: "map_of (ts_pending_ro s) r = Some q" "ro_state q = PREPARE_WAIT"
      "ro_n_conflicts p = (if r \<in> set rs then ro_n_conflicts q - 1 else ro_n_conflicts q)"
      by (cases "map_of (ts_pending_ro s) r") (auto split: if_splits)
    from I(6) [OF q(1,2)] q(3) n [of r] show ?thesis by (auto simp: n')
  qed
  have waiting: "\<exists>p. map_of m' r = Some p \<and> ro_state p = PREPARE_WAIT" if "n_waits s' r > 0" for r
  proof -
    from that n [of r] have "n_waits s r > 0" by (simp add: n')
    from I(5) [OF this] N(3) show ?thesis by (cases "map_of (ts_pending_ro s) r") auto
  qed
  have "ro_inv s'" unfolding ro_inv_def
    using I(1,3,4) N(2) waiting cnt by (auto simp: s'_def erase_rw_def split: if_splits)
  moreover have "r \<in> set ready \<longleftrightarrow> waits_for s r t \<and> n_waits s' r = 0"
    if "length (ts_pending_rw s) < 2 ^ 64" for r
  proof (cases "r \<in> set rs")
    case True
    from I(5) [of r] n [of r] True obtain q where q: "map_of (ts_pending_ro s) r = Some q"
      "ro_state q = PREPARE_WAIT" by auto
    then have "map_of m' r = Some (q\<lparr>ro_n_conflicts := ro_n_conflicts q - 1\<rparr>)"
      using N(3) True by simp
    from cnt [OF this] this q(2) N(4) True waits have "r \<in> set ready \<longleftrightarrow> (of_nat (n_waits s' r) :: u64) = 0"
      by auto
    moreover have "n_waits s' r < 2 ^ 64" using n_waits_le [of s' r] len that by linarith
    ultimately show ?thesis using True waits of_nat_64_eq_0 by simp
  next
    case False
    then show ?thesis using N(4) waits by simp
  qed
  moreover have "finish_rw t s = Inr (\<lparr>notify_ros = ready,
      notify_slow_path_ros = rw_slow_path_ros (rw_ref s t)\<rparr>, s')"
    using N(1) by (simp add: finish_rw_def rs_def s'_def)
  ultimately show ?thesis by (auto simp: s'_def erase_rw_def)
qed

lemma n_waits_cong: "ts_pending_rw s' = ts_pending_rw s \<Longrightarrow> n_waits s' = n_waits s"
  by (simp add: n_waits_def fun_eq_iff)

section \<open>The other operations\<close>

lemma n_waits_put:
  assumes "rw_waiting_ros p = rw_waiting_ros (rw_ref s t)"
  shows "n_waits (set_rw t p s) r = n_waits s r"
  using assms unfolding n_waits_def set_rw_def rw_ref_def
proof (simp, induction "ts_pending_rw s" arbitrary: s)
  case Nil
  then show ?case by (simp add: PendingRW_init_def)
next
  case (Cons e m)
  obtain u q where e: "e = (u, q)" by fastforce
  show ?case
  proof (cases "u = t")
    case True
    then show ?thesis using Cons.prems Cons.hyps(2) [symmetric] e by simp
  next
    case False
    with Cons.hyps(1) [of "s\<lparr>ts_pending_rw := m\<rparr>"] Cons.prems Cons.hyps(2) [symmetric] e
    show ?thesis by simp
  qed
qed

text \<open>
  An update of one pending transaction that leaves its waiters alone, and does not go
  back to a state without waiters while it has some, keeps the invariant.
\<close>

lemma ro_inv_set_rw:
  assumes inv: "ro_inv s" and same: "rw_waiting_ros p = rw_waiting_ros (rw_ref s t)"
    and st: "rw_state p \<in> {READING, READ_WAIT, WAIT_PARTICIPANTS} \<Longrightarrow> rw_waiting_ros (rw_ref s t) = []"
  shows "ro_inv (set_rw t p s)"
proof -
  have "distinct (rw_waiting_ros p)"
    using ro_invD(4) [OF inv] same by (auto simp: rw_ref_def PendingRW_init_def split: option.splits)
  then show ?thesis using inv st same unfolding ro_inv_def n_waits_put [OF same]
    by (auto simp: set_rw_def split: if_splits)
qed

lemma waiting_nil:
  "ro_inv s \<Longrightarrow> rw_state (rw_ref s t) \<in> {READING, READ_WAIT, WAIT_PARTICIPANTS} \<Longrightarrow>
   rw_waiting_ros (rw_ref s t) = []"
  using ro_invD(3) [of s t] by (auto simp: rw_ref_def PendingRW_init_def split: option.splits)

lemma ro_inv_set_ro:
  assumes "ro_inv s" and "n_waits s r = 0" and "ro_state p \<noteq> PREPARE_WAIT"
  shows "ro_inv (set_ro r p s)"
proof -
  have "n_waits (set_ro r p s) = n_waits s" by (rule n_waits_cong) (simp add: set_ro_def)
  then show ?thesis using assms unfolding ro_inv_def by (auto simp: set_ro_def split: if_splits)
qed

lemma ro_inv_finish_ro:
  assumes "ro_inv s" and "n_waits s r = 0"
  shows "ro_inv (finish_ro r s)"
proof -
  have "n_waits (finish_ro r s) = n_waits s" by (rule n_waits_cong) (simp add: finish_ro_def)
  then show ?thesis using assms unfolding ro_inv_def by (auto simp: finish_ro_def split: if_splits)
qed

lemma not_waiting_ro:
  "ro_inv s \<Longrightarrow> ro_state (ro_ref s r) \<noteq> PREPARE_WAIT \<Longrightarrow> n_waits s r = 0"
  using ro_invD(5) [of s r] by (auto simp: ro_ref_def split: option.splits)

lemma ro_inv_erase_idle:
  assumes inv: "ro_inv s" and "rw_waiting_ros (rw_ref s t) = []"
  shows "ro_inv (erase_rw t s)"
proof -
  have "n_waits (erase_rw t s) r = n_waits s r" for r
  proof (cases "map_of (ts_pending_rw s) t")
    case None
    then show ?thesis by (simp add: n_waits_def erase_rw_def um_has_def)
  next
    case (Some p)
    then show ?thesis using n_waits_erase [OF ro_invD(1) [OF inv] Some, of r] assms(2)
      by (simp add: rw_ref_def)
  qed
  then show ?thesis using inv unfolding ro_inv_def by (auto simp: erase_rw_def split: if_splits)
qed

section \<open>Starting a read-only transaction\<close>

lemma StartRO_correct:
  assumes inv: "ro_inv s" and pre: "ro_state (ro_ref s r) = PREPARING" and lt: "mn < cm"
    and len: "length (ts_pending_rw s) < 2 ^ 64"
  shows "\<exists>st s'. StartRO r ks mn cm s = Inr (st, s') \<and> ro_inv s' \<and>
    ts_pending_rw s' = map (\<lambda>(t, rw). (t, ro_mark (ts_consistency s) r ks mn cm rw)) (ts_pending_rw s) \<and>
    set (ro_skipped_rws (ro_ref s' r)) = set (ro_skipped_rws (ro_ref s r)) \<union>
      {t. \<exists>rw. map_of (ts_pending_rw s) t = Some rw \<and> ro_verdict (ts_consistency s) ks mn cm rw = RO_Skip} \<and>
    st = (if n_waits s' r = 0 then COMMITTING else PREPARE_WAIT) \<and> ro_state (ro_ref s' r) = st"
proof -
  note I = ro_invD [OF inv]
  let ?v = "ro_verdict (ts_consistency s) ks mn cm"
  let ?mk = "ro_mark (ts_consistency s) r ks mn cm"
  obtain m sk n where scan: "StartRO_scan (ts_consistency s) r ks mn cm (ts_pending_rw s)
    (ro_skipped_rws (ro_ref s r)) 0 = (m, sk, n)" by (metis prod_cases3)
  have m: "m = map (\<lambda>(t, rw). (t, ?mk rw)) (ts_pending_rw s)"
    using StartRO_scan_rws [of "ts_consistency s" r ks mn cm "ts_pending_rw s" "ro_skipped_rws (ro_ref s r)" 0] scan
    by simp
  have sk: "set sk = set (ro_skipped_rws (ro_ref s r)) \<union>
      {t. \<exists>rw. map_of (ts_pending_rw s) t = Some rw \<and> ?v rw = RO_Skip}"
    using StartRO_scan_skipped [of "ts_consistency s" r ks mn cm "ts_pending_rw s" "ro_skipped_rws (ro_ref s r)" 0]
      scan I(1) by (simp add: um_ok_mem_iff)
  have cnt: "n = of_nat (length (filter (\<lambda>(t, rw). ?v rw = RO_Wait) (ts_pending_rw s)))"
    using StartRO_scan_count [of "ts_consistency s" r ks mn cm "ts_pending_rw s" "ro_skipped_rws (ro_ref s r)" 0] scan
    by simp
  define ro where "ro = PendingRO_StartRO ks mn cm n (ro_ref s r\<lparr>ro_skipped_rws := sk\<rparr>)"
  define s' where "s' = set_ro r ro (s\<lparr>ts_pending_rw := m\<rparr>)"
  have res: "StartRO r ks mn cm s = Inr (ro_state ro, s')"
    using pre lt scan by (simp add: StartRO_def s'_def ro_def Let_def)
  have n0: "n_waits s r = 0" by (rule not_waiting_ro [OF inv]) (simp add: pre)
  have rw': "map_of (ts_pending_rw s') t = map_option ?mk (map_of (ts_pending_rw s) t)" for t
    by (simp add: s'_def set_ro_def m map_of_map)
  have nr: "r \<notin> set (rw_waiting_ros rw)" if "(t, rw) \<in> set (ts_pending_rw s)" for t rw
    using n0 that by (auto simp: n_waits_def filter_empty_conv)
  have "filter (\<lambda>(t, p). r \<in> set (rw_waiting_ros p)) m =
    map (\<lambda>(t, rw). (t, ?mk rw)) (filter (\<lambda>(t, rw). ?v rw = RO_Wait) (ts_pending_rw s))"
    unfolding m filter_map
    by (rule arg_cong [where f = "map _"], rule filter_cong [OF refl])
      (auto simp: ro_mark_def dest: nr split: ro_verdict.splits)
  then have nw: "ro_n_conflicts ro = of_nat (n_waits s' r)"
    using cnt by (simp add: n_waits_def s'_def set_ro_def ro_def PendingRO_StartRO_def)
  have other: "n_waits s' u = n_waits s u" if "u \<noteq> r" for u
  proof -
    have "filter (\<lambda>(t, p). u \<in> set (rw_waiting_ros p)) m =
      map (\<lambda>(t, rw). (t, ?mk rw)) (filter (\<lambda>(t, p). u \<in> set (rw_waiting_ros p)) (ts_pending_rw s))"
      unfolding m filter_map
      by (rule arg_cong [where f = "map _"], rule filter_cong [OF refl])
        (use that in \<open>auto simp: ro_mark_def split: ro_verdict.splits\<close>)
    then show ?thesis by (simp add: n_waits_def s'_def set_ro_def)
  qed
  have "length (ts_pending_rw s') = length (ts_pending_rw s)" by (simp add: s'_def set_ro_def m)
  then have "(of_nat (n_waits s' r) :: u64) = 0 \<longleftrightarrow> n_waits s' r = 0"
    using n_waits_le [of s' r] len by (intro of_nat_64_eq_0) linarith
  then have st: "ro_state ro = (if n_waits s' r = 0 then COMMITTING else PREPARE_WAIT)"
    using nw by (simp add: ro_def PendingRO_StartRO_def)
  have ro': "map_of (ts_pending_ro s') = (map_of (ts_pending_ro s))(r \<mapsto> ro)"
    by (simp add: s'_def set_ro_def)
  have mk: "distinct (rw_waiting_ros (?mk p)) \<and> rw_state (?mk p) = rw_state p \<and>
    (rw_state (?mk p) \<in> {READING, READ_WAIT, WAIT_PARTICIPANTS} \<longrightarrow> rw_waiting_ros (?mk p) = [])"
    if "map_of (ts_pending_rw s) t = Some p" for t p
    using I(3,4) [OF that] by (auto simp: ro_mark_def ro_verdict_def split: ro_verdict.splits)
  have "ro_inv s'" unfolding ro_inv_def
  proof (intro conjI allI impI)
    show "um_ok (ts_pending_ro s')" using I(2) by (simp add: s'_def set_ro_def)
    show "um_ok (ts_pending_rw s')"
      using I(1) by (simp add: s'_def set_ro_def m um_ok_def comp_def case_prod_unfold)
  next
    fix t p assume "map_of (ts_pending_rw s') t = Some p"
    then show "distinct (rw_waiting_ros p)"
      and "rw_state p \<in> {READING, READ_WAIT, WAIT_PARTICIPANTS} \<Longrightarrow> rw_waiting_ros p = []"
      using mk by (auto simp: rw')
  next
    fix u assume "n_waits s' u > 0"
    then show "\<exists>p. map_of (ts_pending_ro s') u = Some p \<and> ro_state p = PREPARE_WAIT"
      using st other I(5) by (cases "u = r") (simp_all add: ro')
  next
    fix u p assume "map_of (ts_pending_ro s') u = Some p \<and> ro_state p = PREPARE_WAIT"
    then show "ro_n_conflicts p = of_nat (n_waits s' u)"
      using nw other I(6) by (cases "u = r") (auto simp: ro')
  qed
  moreover have "ro_ref s' r = ro" by (simp add: ro_ref_def ro')
  moreover have "ro_skipped_rws ro = sk" by (simp add: ro_def PendingRO_StartRO_def)
  moreover have "ts_pending_rw s' = m" by (simp add: s'_def set_ro_def)
  ultimately show ?thesis using res st sk m by auto
qed

section \<open>Reachable states\<close>

text \<open>
  The calls of the shard server. \<open>ContinueRO\<close> is called for the transactions a commit
  or abort reports ready. \<open>AbortPrepare\<close> does not notify waiters; the server calls it
  when \<open>AcquireLocks\<close> fails, which a wound-wait table never does, so it is not a step.
\<close>

inductive ts_step :: "transaction_store \<Rightarrow> transaction_store \<Rightarrow> bool" where
  start_get: "StartGet t remote k u s = Inr s' \<Longrightarrow> ts_step s s'"
| finish_get: "FinishGet t k s = Inr s' \<Longrightarrow> ts_step s s'"
| abort_get: "AbortGet t k s = Inr s' \<Longrightarrow> ts_step s s'"
| pause_get: "PauseGet t k s = Inr s' \<Longrightarrow> ts_step s s'"
| continue_get: "ContinueGet t k s = Inr (st, s') \<Longrightarrow> ts_step s s'"
| coordinator_prepare: "StartCoordinatorPrepare t ts c ps txn nb s = Inr (st, s') \<Longrightarrow> ts_step s s'"
| coordinator_finish: "FinishCoordinatorPrepare t ts s = Inr s' \<Longrightarrow> ts_step s s'"
| participant_prepare: "StartParticipantPrepare t c txn nb s = Inr (st, s') \<Longrightarrow> ts_step s s'"
| participant_timestamp: "SetParticipantPrepareTimestamp t ts s = Inr s' \<Longrightarrow> ts_step s s'"
| participant_finish: "FinishParticipantPrepare t s = Inr (st, s') \<Longrightarrow> ts_step s s'"
| pause_prepare: "PausePrepare now t s = Inr s' \<Longrightarrow> ts_step s s'"
| continue_prepare: "ContinuePrepare now t s = (st, s') \<Longrightarrow> ts_step s s'"
| coordinator_ok: "CoordinatorReceivePrepareOK t sh ts nb s = Inr (st, s') \<Longrightarrow> ts_step s s'"
| participant_ok: "ParticipantReceivePrepareOK t s = Inr (st, s') \<Longrightarrow> ts_step s s'"
| commit: "Commit t s = Inr (res, s') \<Longrightarrow> ts_step s s'"
| abort: "Abort t s = Inr (res, s') \<Longrightarrow> ts_step s s'"
| start_ro: "StartRO r ks mn cm s = Inr (st, s') \<Longrightarrow> length (ts_pending_rw s) < 2 ^ 64 \<Longrightarrow> ts_step s s'"
| continue_ro: "ContinueRO r s = Inr s' \<Longrightarrow> n_waits s r = 0 \<Longrightarrow> ts_step s s'"
| slow_path: "StartROSlowPath r s = Inr s' \<Longrightarrow> ts_step s s'"
| slow_finish: "FinishROSlowPath r s = Inr s' \<Longrightarrow> ts_step s s'"
| commit_ro: "CommitRO r s = Inr s' \<Longrightarrow> ts_step s s'"

inductive ts_reachable :: "transaction_store \<Rightarrow> bool" where
  init: "ts_reachable (TransactionStore_init shard c)"
| step: "ts_reachable s \<Longrightarrow> ts_step s s' \<Longrightarrow> ts_reachable s'"

lemma set_coordinator_same:
  "set_coordinator c p = Inr p' \<Longrightarrow> rw_waiting_ros p' = rw_waiting_ros p \<and> rw_state p' = rw_state p"
  by (auto simp: set_coordinator_def split: if_splits)

lemma PendingRW_waiting:
  "PendingRW_StartCoordinatorPrepare ts c ps txn nb p = Inr p' \<Longrightarrow> rw_waiting_ros p' = rw_waiting_ros p"
  "PendingRW_StartParticipantPrepare c txn nb p = Inr p' \<Longrightarrow> rw_waiting_ros p' = rw_waiting_ros p"
  "PendingRW_ReceivePrepareOK c sh ts nb p = Inr p' \<Longrightarrow> rw_waiting_ros p' = rw_waiting_ros p"
  by (auto simp: PendingRW_StartCoordinatorPrepare_def PendingRW_StartParticipantPrepare_def
    PendingRW_ReceivePrepareOK_def Let_def dest: set_coordinator_same)

lemma ro_inv_aborted [simp]: "ro_inv (s\<lparr>ts_aborted := a\<rparr>) = ro_inv s"
  by (simp add: ro_inv_def n_waits_def)

lemma ro_inv_committed [simp]: "ro_inv (s\<lparr>ts_committed := a\<rparr>) = ro_inv s"
  by (simp add: ro_inv_def n_waits_def)

lemma ts_step_inv:
  assumes "ts_step s s'" and inv: "ro_inv s"
  shows "ro_inv s'"
  using assms(1)
proof cases
  case (start_get t remote k u)
  then show ?thesis using waiting_nil [OF inv, of t]
    by (auto simp: StartGet_def PendingRW_StartGet_def Let_def intro!: ro_inv_set_rw [OF inv])
next
  case (finish_get t k)
  then show ?thesis using waiting_nil [OF inv, of t]
    by (auto simp: FinishGet_def intro!: ro_inv_set_rw [OF inv])
next
  case (abort_get t k)
  then show ?thesis using waiting_nil [OF inv, of t]
    by (auto simp: AbortGet_def intro!: ro_inv_erase_idle [OF inv])
next
  case (pause_get t k)
  then show ?thesis using waiting_nil [OF inv, of t]
    by (auto simp: PauseGet_def intro!: ro_inv_set_rw [OF inv])
next
  case (continue_get t k st)
  then show ?thesis using waiting_nil [OF inv, of t] inv
    by (auto simp: ContinueGet_def split: if_splits intro!: ro_inv_set_rw [OF inv])
next
  case (coordinator_prepare t ts c ps txn nb st)
  then show ?thesis using waiting_nil [OF inv, of t] inv PendingRW_waiting(1) [of ts c ps txn nb "rw_ref s t"]
    by (auto simp: StartCoordinatorPrepare_def split: if_splits intro!: ro_inv_set_rw [OF inv])
next
  case (coordinator_finish t ts)
  then show ?thesis
    by (auto simp: FinishCoordinatorPrepare_def PendingRW_FinishCoordinatorPrepare_def
      intro!: ro_inv_set_rw [OF inv])
next
  case (participant_prepare t c txn nb st)
  then show ?thesis using waiting_nil [OF inv, of t] inv PendingRW_waiting(2) [of c txn nb "rw_ref s t"]
    by (auto simp: StartParticipantPrepare_def split: if_splits intro!: ro_inv_set_rw [OF inv])
next
  case (participant_timestamp t ts)
  then show ?thesis by (auto simp: SetParticipantPrepareTimestamp_def intro!: ro_inv_set_rw [OF inv])
next
  case (participant_finish t st)
  then show ?thesis using inv
    by (auto simp: FinishParticipantPrepare_def split: if_splits intro!: ro_inv_set_rw [OF inv])
next
  case (pause_prepare now t)
  then show ?thesis by (auto simp: PausePrepare_def intro!: ro_inv_set_rw [OF inv])
next
  case (continue_prepare now t st)
  then show ?thesis using inv waiting_nil [OF inv, of t]
    by (auto simp: ContinuePrepare_def advance_nonblock_ts_def Let_def split: if_splits
      intro!: ro_inv_set_rw [OF inv])
next
  case (coordinator_ok t sh ts nb st)
  then show ?thesis using waiting_nil [OF inv, of t] inv
      PendingRW_waiting(3) [of "ts_this_shard s" sh ts nb "rw_ref s t"]
    by (auto simp: CoordinatorReceivePrepareOK_def split: if_splits intro!: ro_inv_set_rw [OF inv])
next
  case (participant_ok t st)
  then show ?thesis by (auto simp: ParticipantReceivePrepareOK_def intro!: ro_inv_set_rw [OF inv])
next
  case (commit t res)
  then show ?thesis using finish_rw_correct [OF inv, of t] by (auto simp: Commit_def)
next
  case (abort t res)
  then show ?thesis using finish_rw_correct [OF inv, of t] by (auto simp: Abort_def)
next
  case (start_ro r ks mn cm st)
  then have "ro_state (ro_ref s r) = PREPARING" "mn < cm" by (simp_all add: StartRO_def)
  from StartRO_correct [OF inv this start_ro(2), of ks] start_ro(1) show ?thesis by auto
next
  case (continue_ro r)
  then show ?thesis by (auto simp: ContinueRO_def intro!: ro_inv_set_ro [OF inv])
next
  case (slow_path r)
  then show ?thesis using not_waiting_ro [OF inv, of r]
    by (auto simp: StartROSlowPath_def intro!: ro_inv_set_ro [OF inv])
next
  case (slow_finish r)
  then show ?thesis using not_waiting_ro [OF inv, of r]
    by (auto simp: FinishROSlowPath_def intro!: ro_inv_finish_ro [OF inv])
next
  case (commit_ro r)
  then show ?thesis using not_waiting_ro [OF inv, of r]
    by (auto simp: CommitRO_def intro!: ro_inv_finish_ro [OF inv])
qed

lemma ts_reachable_inv: "ts_reachable s \<Longrightarrow> ro_inv s"
  by (induction rule: ts_reachable.induct) (auto intro: ts_step_inv)

section \<open>Properties\<close>

lemma n_waits_zero: "ro_inv s \<Longrightarrow> n_waits s r = 0 \<longleftrightarrow> (\<forall>t. \<not> waits_for s r t)"
  using n_waits_pos [of s r] ro_invD(1) [of s] by auto

lemma waits_for_map:
  "ts_pending_rw s' = map (\<lambda>(t, rw). (t, f rw)) (ts_pending_rw s) \<Longrightarrow>
   waits_for s' r t \<longleftrightarrow> (\<exists>rw. map_of (ts_pending_rw s) t = Some rw \<and> r \<in> set (rw_waiting_ros (f rw)))"
  by (auto simp: waits_for_def map_of_map)

text \<open>
  A run for the examples below: transaction 1 writes \<open>x\<close> and prepares alone at timestamp
  5; read-only transaction 9 reads \<open>x\<close> at 10 and waits; transaction 1 then fixes 6 as its
  commit timestamp.
\<close>

definition ex_txn :: transaction where
  "ex_txn = \<lparr>readSet = [], writeSet = [(''x'', ''1'')], start_time = Timestamp 4 1\<rparr>"

definition ex1 :: transaction_store where
  "ex1 = projr (StartGet 1 77 ''x'' True (TransactionStore_init 0 RSS))"

definition ex2 :: transaction_store where
  "ex2 = snd (projr (StartCoordinatorPrepare 1 (Timestamp 5 1) 0 [0] ex_txn Timestamp_zero ex1))"

definition ex3 :: transaction_store where
  "ex3 = snd (projr (StartRO 9 [''x''] (Timestamp 1 0) (Timestamp 10 0) ex2))"

definition ex4 :: transaction_store where
  "ex4 = projr (FinishCoordinatorPrepare 1 (Timestamp 6 1) ex3)"

lemma ex_length:
  "length (ts_pending_rw ex2) < 2 ^ 64" "length (ts_pending_rw ex3) < 2 ^ 64"
  "length (ts_pending_rw ex4) < 2 ^ 64"
proof -
  have "length (ts_pending_rw ex2) = 1" by code_simp
  then show "length (ts_pending_rw ex2) < 2 ^ 64" by simp
  have "length (ts_pending_rw ex3) = 1" by code_simp
  then show "length (ts_pending_rw ex3) < 2 ^ 64" by simp
  have "length (ts_pending_rw ex4) = 1" by code_simp
  then show "length (ts_pending_rw ex4) < 2 ^ 64" by simp
qed

lemma ex_reachable: "ts_reachable ex2" "ts_reachable ex3" "ts_reachable ex4"
proof -
  have "StartGet 1 77 ''x'' True (TransactionStore_init 0 RSS) = Inr ex1" by code_simp
  then have 1: "ts_reachable ex1" by (blast intro: ts_reachable.intros start_get)
  have "StartCoordinatorPrepare 1 (Timestamp 5 1) 0 [0] ex_txn Timestamp_zero ex1 = Inr (PREPARING, ex2)"
    by code_simp
  with 1 show 2: "ts_reachable ex2" by (blast intro: ts_reachable.intros coordinator_prepare)
  have "StartRO 9 [''x''] (Timestamp 1 0) (Timestamp 10 0) ex2 = Inr (PREPARE_WAIT, ex3)" by code_simp
  with ex_length(1) 2 show 3: "ts_reachable ex3" by (blast intro: ts_reachable.intros start_ro)
  have "FinishCoordinatorPrepare 1 (Timestamp 6 1) ex3 = Inr ex4" by code_simp
  with 3 show "ts_reachable ex4" by (blast intro: ts_reachable.intros coordinator_finish)
qed

text \<open>
  \<^bold>\<open>C29\<close> What a read-only transaction waits for. Starting one in a reachable store
  succeeds, and afterwards it waits for exactly the transactions in a prepared state,
  with a prepare timestamp not after its commit timestamp, that write one of its keys,
  except those it may skip under RSS because their prepare timestamp is after its
  minimum and their non-blocking timestamp after its commit timestamp. It can commit at
  once if and only if it waits for nobody.
\<close>

theorem StartRO_waits_for_conflicts:
  assumes "ts_reachable s" and "length (ts_pending_rw s) < 2 ^ 64"
    and "ro_state (ro_ref s r) = PREPARING" and "mn < cm"
  shows "\<exists>st s'. StartRO r ks mn cm s = Inr (st, s') \<and>
    (\<forall>t. waits_for s' r t \<longleftrightarrow> (\<exists>rw. map_of (ts_pending_rw s) t = Some rw \<and>
       rw_state rw \<in> {PREPARING, PREPARED, COMMITTING} \<and> rw_prepare_ts rw \<le> cm \<and>
       set (um_keys (writeSet (rw_transaction rw))) \<inter> set ks \<noteq> {} \<and>
       \<not> (ts_consistency s = RSS \<and> mn < rw_prepare_ts rw \<and> cm < rw_nonblock_ts rw))) \<and>
    (st = COMMITTING \<longleftrightarrow> (\<forall>t. \<not> waits_for s' r t))"
proof -
  have inv: "ro_inv s" by (rule ts_reachable_inv [OF assms(1)])
  have n0: "r \<notin> set (rw_waiting_ros rw)" if "map_of (ts_pending_rw s) t = Some rw" for t rw
    using not_waiting_ro [OF inv, of r] assms(3) that n_waits_zero [OF inv, of r]
    by (auto simp: waits_for_def)
  from StartRO_correct [OF inv assms(3,4,2), of ks] obtain st s' where
    S: "StartRO r ks mn cm s = Inr (st, s')" "ro_inv s'"
    "ts_pending_rw s' = map (\<lambda>(t, rw). (t, ro_mark (ts_consistency s) r ks mn cm rw)) (ts_pending_rw s)"
    "st = (if n_waits s' r = 0 then COMMITTING else PREPARE_WAIT)" by blast
  have "waits_for s' r t \<longleftrightarrow> (\<exists>rw. map_of (ts_pending_rw s) t = Some rw \<and>
      ro_verdict (ts_consistency s) ks mn cm rw = RO_Wait)" for t
  proof -
    have "r \<in> set (rw_waiting_ros (ro_mark (ts_consistency s) r ks mn cm rw)) \<longleftrightarrow>
        ro_verdict (ts_consistency s) ks mn cm rw = RO_Wait"
      if "map_of (ts_pending_rw s) t = Some rw" for rw
      using n0 [OF that] by (cases "ro_verdict (ts_consistency s) ks mn cm rw") (simp_all add: ro_mark_def)
    then show ?thesis unfolding waits_for_map [OF S(3)] by auto
  qed
  moreover have "ro_verdict (ts_consistency s) ks mn cm rw = RO_Wait \<longleftrightarrow>
      rw_state rw \<in> {PREPARING, PREPARED, COMMITTING} \<and> rw_prepare_ts rw \<le> cm \<and>
      set (um_keys (writeSet (rw_transaction rw))) \<inter> set ks \<noteq> {} \<and>
      \<not> (ts_consistency s = RSS \<and> mn < rw_prepare_ts rw \<and> cm < rw_nonblock_ts rw)" for rw
  proof -
    have "list_ex (\<lambda>w. fst w \<in> set ks) ws \<longleftrightarrow> set (um_keys ws) \<inter> set ks \<noteq> {}" for ws :: "(key, val) umap"
      by (auto simp: list_ex_iff)
    then show ?thesis unfolding ro_verdict_def by (simp add: not_less [symmetric])
  qed
  ultimately show ?thesis using S(1,4) n_waits_zero [OF S(2), of r] by auto
qed

theorem StartRO_waits_for_conflicts_witness:
  "\<exists>st s'. StartRO 9 [''x''] (Timestamp 1 0) (Timestamp 10 0) ex2 = Inr (st, s') \<and>
     (st = COMMITTING \<longleftrightarrow> (\<forall>t. \<not> waits_for s' 9 t))"
proof -
  have "ro_state (ro_ref ex2 9) = PREPARING" by code_simp
  moreover have "Timestamp 1 0 < Timestamp 10 0" by code_simp
  note StartRO_waits_for_conflicts [OF ex_reachable(1) ex_length(1) calculation this, of "[''x'']"]
  then show ?thesis by blast
qed

text \<open>
  \<^bold>\<open>C30\<close> No lost and no early wake-up. Committing a transaction in a reachable store
  never fails inside the notification, and the read-only transactions it reports are
  exactly those that waited for it and for nobody else.
\<close>

theorem Commit_wakes_exactly_ready:
  assumes "ts_reachable s" and "length (ts_pending_rw s) < 2 ^ 64"
    and "rw_state (rw_ref s t) = COMMITTING"
  shows "\<exists>res s'. Commit t s = Inr (res, s') \<and> GetRWTransactionState s' t = COMMITTED \<and>
    (\<forall>r. r \<in> set (notify_ros res) \<longleftrightarrow> waits_for s r t \<and> (\<forall>u. u \<noteq> t \<longrightarrow> \<not> waits_for s r u))"
proof -
  have inv: "ro_inv s" by (rule ts_reachable_inv [OF assms(1)])
  from finish_rw_correct [OF inv, of t] assms(2) obtain res s1 where
    F: "finish_rw t s = Inr (res, s1)" "ro_inv s1" "ts_pending_rw s1 = um_erase t (ts_pending_rw s)"
    "\<forall>r. r \<in> set (notify_ros res) \<longleftrightarrow> waits_for s r t \<and> n_waits s1 r = 0" by blast
  have "waits_for s1 r u \<longleftrightarrow> u \<noteq> t \<and> waits_for s r u" for r u
    by (simp add: waits_for_def F(3))
  with F(4) n_waits_zero [OF F(2)]
  have "\<forall>r. r \<in> set (notify_ros res) \<longleftrightarrow> waits_for s r t \<and> (\<forall>u. u \<noteq> t \<longrightarrow> \<not> waits_for s r u)" by blast
  then show ?thesis using F(1) assms(3) by (simp add: Commit_def GetRWTransactionState_def)
qed

theorem Commit_wakes_exactly_ready_witness:
  "\<exists>res s'. Commit 1 ex4 = Inr (res, s') \<and> GetRWTransactionState s' 1 = COMMITTED \<and>
     (\<forall>r. r \<in> set (notify_ros res) \<longrightarrow> waits_for ex4 r 1)"
proof -
  have "rw_state (rw_ref ex4 1) = COMMITTING" by code_simp
  from Commit_wakes_exactly_ready [OF ex_reachable(3) ex_length(3) this] show ?thesis by blast
qed

text \<open>
  The same for \<open>Abort\<close>, which is allowed in every state before COMMITTING.
\<close>

theorem Abort_wakes_exactly_ready:
  assumes "ts_reachable s" and "length (ts_pending_rw s) < 2 ^ 64"
    and "rw_state (rw_ref s t) \<notin> {COMMITTING, COMMITTED, ABORTED}"
    and "t \<notin> set (ts_committed s)"
  shows "\<exists>res s'. Abort t s = Inr (res, s') \<and> GetRWTransactionState s' t = ABORTED \<and>
    (\<forall>r. r \<in> set (notify_ros res) \<longleftrightarrow> waits_for s r t \<and> (\<forall>u. u \<noteq> t \<longrightarrow> \<not> waits_for s r u))"
proof -
  have inv: "ro_inv s" by (rule ts_reachable_inv [OF assms(1)])
  from finish_rw_correct [OF inv, of t] assms(2) obtain res s1 where
    F: "finish_rw t s = Inr (res, s1)" "ro_inv s1" "ts_pending_rw s1 = um_erase t (ts_pending_rw s)"
    "\<forall>r. r \<in> set (notify_ros res) \<longleftrightarrow> waits_for s r t \<and> n_waits s1 r = 0"
    "ts_committed s1 = ts_committed s" by blast
  have "waits_for s1 r u \<longleftrightarrow> u \<noteq> t \<and> waits_for s r u" for r u
    by (simp add: waits_for_def F(3))
  with F(4) n_waits_zero [OF F(2)]
  have "\<forall>r. r \<in> set (notify_ros res) \<longleftrightarrow> waits_for s r t \<and> (\<forall>u. u \<noteq> t \<longrightarrow> \<not> waits_for s r u)" by blast
  then show ?thesis using F(1,5) assms(3,4) by (simp add: Abort_def GetRWTransactionState_def)
qed

theorem Abort_wakes_exactly_ready_witness:
  "\<exists>res s'. Abort 1 ex3 = Inr (res, s') \<and> GetRWTransactionState s' 1 = ABORTED \<and>
     (\<forall>r. r \<in> set (notify_ros res) \<longrightarrow> waits_for ex3 r 1)"
proof -
  have "rw_state (rw_ref ex3 1) = PREPARING" by code_simp
  then have "rw_state (rw_ref ex3 1) \<notin> {COMMITTING, COMMITTED, ABORTED}" by simp
  moreover have "ts_committed ex3 = []" by code_simp
  then have "1 \<notin> set (ts_committed ex3)" by simp
  note Abort_wakes_exactly_ready [OF ex_reachable(2) ex_length(2) calculation this]
  then show ?thesis by blast
qed

section \<open>Two-phase commit at the coordinator\<close>

text \<open>
  What happens at a coordinator to one of its transactions until it is prepared: reads,
  answers of participants, the start of its own prepare, waits for locks, and read-only
  transactions that meet it, in any order.
\<close>

datatype coord_event =
    Reads addr key bool
  | Answers int timestamp timestamp
  | Prepares timestamp int "int uset" transaction timestamp
  | Pauses u64
  | Continues u64
  | Meets txn_id "key uset" timestamp timestamp

fun coord_do :: "txn_id \<Rightarrow> coord_event \<Rightarrow> transaction_store \<Rightarrow> transaction_store outcome" where
  "coord_do t (Reads a k u) s = StartGet t a k u s"
| "coord_do t (Answers sh pts nb) s = bindE (CoordinatorReceivePrepareOK t sh pts nb s) (\<lambda>(_, s'). Inr s')"
| "coord_do t (Prepares start c ps txn nb) s = bindE (StartCoordinatorPrepare t start c ps txn nb s) (\<lambda>(_, s'). Inr s')"
| "coord_do t (Pauses now) s = PausePrepare now t s"
| "coord_do t (Continues now) s = Inr (snd (ContinuePrepare now t s))"
| "coord_do t (Meets r ks mts cts) s = bindE (StartRO r ks mts cts s) (\<lambda>(_, s'). Inr s')"

definition coord_run :: "txn_id \<Rightarrow> coord_event list \<Rightarrow> transaction_store \<Rightarrow> transaction_store outcome" where
  "coord_run t evs s = foldE (coord_do t) evs s"

definition answered :: "coord_event list \<Rightarrow> int set" where
  "answered evs = {sh. \<exists>pts nb. Answers sh pts nb \<in> set evs}"

text \<open>What the events leave in the entry of the transaction.\<close>

definition prepare_due :: "coord_event list \<Rightarrow> pending_rw \<Rightarrow> bool" where
  "prepare_due evs p \<longleftrightarrow> (\<exists>start c txn nb. Prepares start c (rw_participants p) txn nb \<in> set evs) \<and> rw_participants p \<noteq> [] \<and>
     (rw_state p \<in> {PREPARING, PREPARE_WAIT} \<longrightarrow> length (rw_ok_participants p) = length (rw_participants p) - 1)"

definition coord_entry :: "coord_event list \<Rightarrow> pending_rw \<Rightarrow> bool" where
  "coord_entry evs p \<longleftrightarrow> distinct (rw_ok_participants p) \<and> set (rw_ok_participants p) = answered evs \<and>
     (\<forall>sh pts nb. Answers sh pts nb \<in> set evs \<longrightarrow> pts \<le> rw_prepare_ts p) \<and>
     (\<forall>start c ps txn nb. Prepares start c ps txn nb \<in> set evs \<longrightarrow> start \<le> rw_prepare_ts p) \<and>
     (rw_participants p = [] \<and> rw_state p \<in> {READING, WAIT_PARTICIPANTS} \<or> prepare_due evs p)"

lemma coord_entry_cong:
  assumes "coord_entry evs p" and "rw_ok_participants p' = rw_ok_participants p" and "rw_prepare_ts p' = rw_prepare_ts p"
    and "rw_participants p' = rw_participants p"
    and "rw_state p' = rw_state p \<or> rw_state p' \<in> {PREPARING, PREPARE_WAIT} \<and> rw_state p \<in> {PREPARING, PREPARE_WAIT}"
  shows "coord_entry evs p'"
  using assms by (auto simp: coord_entry_def prepare_due_def)

lemma coord_entry_quiet:
  assumes "coord_entry evs p" and "\<And>sh pts nb. e \<noteq> Answers sh pts nb" and "\<And>start c ps txn nb. e \<noteq> Prepares start c ps txn nb"
  shows "coord_entry (evs @ [e]) p"
proof -
  have "Answers sh pts nb \<in> set (evs @ [e]) \<longleftrightarrow> Answers sh pts nb \<in> set evs"
    "Prepares start c ps txn nb \<in> set (evs @ [e]) \<longleftrightarrow> Prepares start c ps txn nb \<in> set evs" for sh pts nb start c ps txn
    using assms(2,3) by auto metis+
  then show ?thesis using assms(1) by (simp add: coord_entry_def prepare_due_def answered_def)
qed

lemma ReceivePrepareOK_entry:
  assumes "PendingRW_ReceivePrepareOK c sh ts nb p = Inr p'" and "coord_entry evs p" and "rw_state p \<in> {READING, WAIT_PARTICIPANTS}"
  shows "coord_entry (evs @ [Answers sh ts nb]) p'"
proof -
  from assms(1) obtain p1 where p1: "set_coordinator c p = Inr p1" and
    p': "rw_ok_participants p' = us_add sh (rw_ok_participants p1)" "rw_prepare_ts p' = max (rw_prepare_ts p1) ts"
    "rw_participants p' = rw_participants p1"
    "rw_state p' = (if length (rw_participants p1) = 0 \<or> length (us_add sh (rw_ok_participants p1)) \<noteq> length (rw_participants p1) - 1
      then WAIT_PARTICIPANTS else PREPARING)"
    by (auto simp: PendingRW_ReceivePrepareOK_def Let_def)
  from p1 have p: "rw_ok_participants p1 = rw_ok_participants p" "rw_prepare_ts p1 = rw_prepare_ts p"
    "rw_participants p1 = rw_participants p"
    by (auto simp: set_coordinator_def split: if_splits)
  let ?evs = "evs @ [Answers sh ts nb]"
  have "distinct (rw_ok_participants p')" "set (rw_ok_participants p') = answered ?evs"
    using assms(2) p'(1) p(1) by (auto simp: coord_entry_def answered_def distinct_insert)
  moreover have "\<forall>sh pts nb. Answers sh pts nb \<in> set ?evs \<longrightarrow> pts \<le> rw_prepare_ts p'"
    "\<forall>start c ps txn nb. Prepares start c ps txn nb \<in> set ?evs \<longrightarrow> start \<le> rw_prepare_ts p'"
    using assms(2) p'(2) p(2) by (auto simp: coord_entry_def le_max_iff_disj)
  moreover have "rw_participants p' = [] \<and> rw_state p' \<in> {READING, WAIT_PARTICIPANTS} \<or> prepare_due ?evs p'"
    using assms(2) p'(1,3,4) p by (auto simp: coord_entry_def prepare_due_def)
  ultimately show ?thesis unfolding coord_entry_def by blast
qed

lemma StartCoordinatorPrepare_entry:
  assumes "PendingRW_StartCoordinatorPrepare start c ps txn nb p = Inr p'" and "coord_entry evs p"
  shows "coord_entry (evs @ [Prepares start c ps txn nb]) p'"
proof -
  from assms(1) have p': "ps \<noteq> []" "rw_ok_participants p' = rw_ok_participants p" "rw_participants p' = ps"
    "rw_prepare_ts p' = max (rw_prepare_ts p) start"
    "rw_state p' = (if length (rw_ok_participants p) = length ps - 1 then PREPARING else WAIT_PARTICIPANTS)"
    by (auto simp: PendingRW_StartCoordinatorPrepare_def set_coordinator_def split: if_splits)
  let ?evs = "evs @ [Prepares start c ps txn nb]"
  have "distinct (rw_ok_participants p')" "set (rw_ok_participants p') = answered ?evs"
    using assms(2) p'(2) by (auto simp: coord_entry_def answered_def)
  moreover have "\<forall>sh pts nb. Answers sh pts nb \<in> set ?evs \<longrightarrow> pts \<le> rw_prepare_ts p'"
    "\<forall>start c ps txn nb. Prepares start c ps txn nb \<in> set ?evs \<longrightarrow> start \<le> rw_prepare_ts p'"
    using assms(2) p'(4) by (auto simp: coord_entry_def le_max_iff_disj)
  moreover have "prepare_due ?evs p'" using p' by (auto simp: prepare_due_def)
  ultimately show ?thesis unfolding coord_entry_def by blast
qed

lemma StartGet_entry:
  "rw_ok_participants (PendingRW_StartGet a k u p) = rw_ok_participants p"
  "rw_prepare_ts (PendingRW_StartGet a k u p) = rw_prepare_ts p"
  "rw_participants (PendingRW_StartGet a k u p) = rw_participants p" "rw_state (PendingRW_StartGet a k u p) = rw_state p"
  by (simp_all add: PendingRW_StartGet_def Let_def)

lemma ts_aborted_set [simp]: "ts_aborted (set_rw t p s) = ts_aborted s"
  by (simp add: set_rw_def)

lemma rw_ref_set [simp]: "rw_ref (set_rw t p s) u = (if u = t then p else rw_ref s u)"
  by (simp add: rw_ref_def set_rw_def)

lemma StartRO_scan_entry:
  "map (\<lambda>(t, p). (t, rw_ok_participants p, rw_prepare_ts p, rw_participants p, rw_state p)) (fst (StartRO_scan c r ks mts cts m sk n)) =
   map (\<lambda>(t, p). (t, rw_ok_participants p, rw_prepare_ts p, rw_participants p, rw_state p)) m"
  by (induction c r ks mts cts m sk n rule: StartRO_scan.induct) (auto simp: split_def Let_def split: ro_verdict.split)

lemma entry_of_scan:
  assumes "ts_pending_rw s' = fst (StartRO_scan c r ks mts cts (ts_pending_rw s) sk n)"
  shows "rw_ok_participants (rw_ref s' t) = rw_ok_participants (rw_ref s t) \<and>
    rw_prepare_ts (rw_ref s' t) = rw_prepare_ts (rw_ref s t) \<and> rw_participants (rw_ref s' t) = rw_participants (rw_ref s t) \<and>
    rw_state (rw_ref s' t) = rw_state (rw_ref s t)"
proof -
  let ?f = "\<lambda>p. (rw_ok_participants p, rw_prepare_ts p, rw_participants p, rw_state p)"
  have "map_option ?f (map_of (ts_pending_rw s') t) = map_option ?f (map_of (ts_pending_rw s) t)"
    using StartRO_scan_entry [of c r ks mts cts "ts_pending_rw s" sk n, THEN arg_cong [of _ _ "\<lambda>m. map_of m t"]] assms
    by (simp add: map_of_map)
  then show ?thesis by (auto simp: rw_ref_def split: option.splits)
qed

lemma coord_do_entry:
  assumes "coord_do t e s = Inr s'" and "coord_entry evs (rw_ref s t)" and "t \<notin> set (ts_aborted s)"
  shows "coord_entry (evs @ [e]) (rw_ref s' t) \<and> t \<notin> set (ts_aborted s')"
proof (cases e)
  case (Reads a k u)
  with assms StartGet_entry [of a k u "rw_ref s t"] show ?thesis
    by (auto simp: StartGet_def intro!: coord_entry_quiet elim!: coord_entry_cong)
next
  case (Answers sh pts nb)
  with assms show ?thesis
    by (auto simp: CoordinatorReceivePrepareOK_def intro!: ReceivePrepareOK_entry)
next
  case (Prepares start c ps txn nb)
  with assms show ?thesis
    by (auto simp: StartCoordinatorPrepare_def intro!: StartCoordinatorPrepare_entry)
next
  case (Pauses now)
  with assms show ?thesis
    by (auto simp: PausePrepare_def intro!: coord_entry_quiet elim!: coord_entry_cong)
next
  case (Continues now)
  with assms show ?thesis
    by (auto simp: ContinuePrepare_def advance_nonblock_ts_def Let_def intro!: coord_entry_quiet elim!: coord_entry_cong split: if_splits)
next
  case (Meets r ks mts cts)
  with assms(1) have "ts_aborted s' = ts_aborted s" and "ts_pending_rw s' = fst (StartRO_scan (ts_consistency s) r ks mts cts
      (ts_pending_rw s) (ro_skipped_rws (ro_ref s r)) 0)"
    by (auto simp: StartRO_def set_ro_def Let_def split: prod.splits)
  with entry_of_scan [of s' "ts_consistency s" r ks mts cts s "ro_skipped_rws (ro_ref s r)" 0 t] assms(2,3) Meets show ?thesis
    by (auto intro!: coord_entry_quiet elim!: coord_entry_cong)
qed

lemma coord_run_entry:
  "coord_run t es s = Inr s' \<Longrightarrow> coord_entry evs (rw_ref s t) \<Longrightarrow> t \<notin> set (ts_aborted s) \<Longrightarrow>
    coord_entry (evs @ es) (rw_ref s' t) \<and> t \<notin> set (ts_aborted s')"
proof (induction es arbitrary: s evs)
  case (Cons e es)
  then obtain s1 where 1: "coord_do t e s = Inr s1" and 2: "coord_run t es s1 = Inr s'" by (auto simp: coord_run_def)
  from coord_do_entry [OF 1 Cons.prems(2,3)] Cons.IH [OF 2, of "evs @ [e]"] show ?case by simp
qed (simp add: coord_run_def)

text \<open>
  \<^bold>\<open>C31\<close> Commit timestamps. Whatever happens at a coordinator to one of its transactions
  until it is prepared, in any order (answers before and after the start of its own
  prepare, waits for locks, reads, read-only transactions), when it finishes the prepare at
  \<open>ts\<close>, then all other participants, that is one fewer than the participants it was told of,
  have answered, and the commit timestamp is at least \<open>ts\<close>, at least the start timestamp
  and at least the prepare timestamp of every answer.
\<close>

theorem commit_timestamp_dominates:
  assumes "GetRWTransactionState s t = NOT_FOUND" and "map_of (ts_pending_rw s) t = None"
    and "coord_run t evs s = Inr s1"
    and "FinishCoordinatorPrepare t ts s1 = Inr s2" and "GetRWCommitTimestamp s2 t = Inr commit_ts"
  shows "ts \<le> commit_ts \<and> (\<forall>sh pts nb. Answers sh pts nb \<in> set evs \<longrightarrow> pts \<le> commit_ts) \<and>
    (\<exists>start c ps txn nb. Prepares start c ps txn nb \<in> set evs \<and> start \<le> commit_ts \<and> ps \<noteq> [] \<and>
      card (answered evs) = length ps - 1)"
proof -
  have "rw_ref s t = PendingRW_init" using assms(2) by (simp add: rw_ref_def)
  then have "coord_entry [] (rw_ref s t)" by (simp add: coord_entry_def PendingRW_init_def answered_def)
  moreover have "t \<notin> set (ts_aborted s)" using assms(1) by (auto simp: GetRWTransactionState_def split: if_splits)
  ultimately have entry: "coord_entry evs (rw_ref s1 t)" using coord_run_entry [OF assms(3)] by fastforce
  from assms(4) have prep: "rw_state (rw_ref s1 t) = PREPARING"
    and s2: "s2 = set_rw t (PendingRW_FinishCoordinatorPrepare ts (rw_ref s1 t)) s1"
    by (simp_all add: FinishCoordinatorPrepare_def)
  have cts: "commit_ts = max (rw_prepare_ts (rw_ref s1 t)) ts"
    using assms(5) by (simp add: GetRWCommitTimestamp_def s2 PendingRW_FinishCoordinatorPrepare_def)
  have "prepare_due evs (rw_ref s1 t)" using entry prep by (auto simp: coord_entry_def)
  then obtain start c txn nb where "Prepares start c (rw_participants (rw_ref s1 t)) txn nb \<in> set evs"
    and "rw_participants (rw_ref s1 t) \<noteq> []"
    and "length (rw_ok_participants (rw_ref s1 t)) = length (rw_participants (rw_ref s1 t)) - 1"
    using prep by (auto simp: prepare_due_def)
  moreover have "card (answered evs) = length (rw_ok_participants (rw_ref s1 t))"
    using entry distinct_card by (fastforce simp: coord_entry_def)
  ultimately show ?thesis using entry by (fastforce simp: cts coord_entry_def le_max_iff_disj)
qed

text \<open>
  Two answers, one before and one after the coordinator starts to prepare; then it waits
  for a lock.
\<close>

definition ex_events :: "coord_event list" where
  "ex_events = [Reads 1 ''x'' False, Answers 1 (Timestamp 7 1) Timestamp_zero,
     Prepares (Timestamp 5 1) 0 [0, 1, 2] ex_txn Timestamp_zero, Answers 2 (Timestamp 9 1) Timestamp_zero, Pauses 3, Continues 4]"

definition ex5 :: transaction_store where
  "ex5 = projr (coord_run 1 ex_events (TransactionStore_init 0 SS))"

definition ex6 :: transaction_store where
  "ex6 = projr (FinishCoordinatorPrepare 1 (Timestamp 6 1) ex5)"

theorem commit_timestamp_dominates_witness:
  "GetRWCommitTimestamp ex6 1 = Inr (Timestamp 9 1) \<and> Timestamp 7 1 \<le> Timestamp 9 1 \<and> card (answered ex_events) = 2"
proof -
  have a: "GetRWTransactionState (TransactionStore_init 0 SS) 1 = NOT_FOUND" by code_simp
  have b: "map_of (ts_pending_rw (TransactionStore_init 0 SS)) 1 = None" by (simp add: TransactionStore_init_def)
  have c: "coord_run 1 ex_events (TransactionStore_init 0 SS) = Inr ex5" by code_simp
  have d: "FinishCoordinatorPrepare 1 (Timestamp 6 1) ex5 = Inr ex6" by code_simp
  have e: "GetRWCommitTimestamp ex6 1 = Inr (Timestamp 9 1)" by code_simp
  from commit_timestamp_dominates [OF a b c d e] e show ?thesis by (auto simp: ex_events_def)
qed

end
