(* ===== verification/VersionStore.thy ===== *)
theory VersionStore
  imports Transactions
begin

text \<open>
  \<open>src/store/common/backend/versionstore.h\<close>: the multi-version store
  \<open>VersionedKVStore<T, V>\<close>, and the version order \<open>TimestampID\<close> that
  \<open>src/store/strongstore/server.h\<close> instantiates it with. The template parameter
  \<open>T\<close> is used through its \<open>operator<\<close> only, so the operations take it as the
  argument \<open>lt\<close>; \<open>version_order\<close> is the contract a \<open>std::set\<close> puts on it (a strict
  weak order) and \<open>mv_store\<close> the contract the server relies on.
\<close>

section \<open>The ordered set of versions\<close>

datatype ('t, 'v) versioned_value = VersionedValue (vwrite: 't) (vvalue: 'v)

text \<open>
  A \<open>std::set\<close> of versions is the list of its elements in order; an iterator is
  an index into it, \<open>end()\<close> the length. \<open>insert\<close> keeps an equivalent element that
  is already present.
\<close>

fun vset_insert :: "('t \<Rightarrow> 't \<Rightarrow> bool) \<Rightarrow> ('t, 'v) versioned_value \<Rightarrow>
    ('t, 'v) versioned_value list \<Rightarrow> ('t, 'v) versioned_value list" where
  "vset_insert lt v [] = [v]"
| "vset_insert lt v (x # xs) =
     (if lt (vwrite v) (vwrite x) then v # x # xs
      else if lt (vwrite x) (vwrite v) then x # vset_insert lt v xs
      else x # xs)"

fun vset_upper_bound :: "('t \<Rightarrow> 't \<Rightarrow> bool) \<Rightarrow> 't \<Rightarrow> ('t, 'v) versioned_value list \<Rightarrow> nat" where
  "vset_upper_bound lt t [] = 0"
| "vset_upper_bound lt t (x # xs) =
     (if lt t (vwrite x) then 0 else Suc (vset_upper_bound lt t xs))"

section \<open>The store and its operations\<close>

record ('t, 'v) vstore =
  vs_store :: "(key, ('t, 'v) versioned_value list) umap"
  vs_lastReads :: "(key, ('t \<times> 't) list) umap"

definition vs_init :: "('t, 'v) vstore" where
  "vs_init = \<lparr>vs_store = [], vs_lastReads = []\<rparr>"

definition versions :: "('t, 'v) vstore \<Rightarrow> key \<Rightarrow> ('t, 'v) versioned_value list" where
  "versions st k = (case map_of (vs_store st) k of None \<Rightarrow> [] | Some vs \<Rightarrow> vs)"

definition inStore :: "('t, 'v) vstore \<Rightarrow> key \<Rightarrow> bool" where
  "inStore st k = (um_has (vs_store st) k \<and> length (versions st k) > 0)"

definition getValue :: "('t \<Rightarrow> 't \<Rightarrow> bool) \<Rightarrow> ('t, 'v) versioned_value list \<Rightarrow> 't \<Rightarrow> nat" where
  "getValue lt vs t =
     (let it = vset_upper_bound lt t vs in if it = 0 then length vs else it - 1)"

definition vs_get_latest :: "('t, 'v) vstore \<Rightarrow> key \<Rightarrow> ('t \<times> 'v) option" where
  "vs_get_latest st k =
     (if inStore st k
      then let v = last (versions st k) in Some (vwrite v, vvalue v)
      else None)"

definition vs_get :: "('t \<Rightarrow> 't \<Rightarrow> bool) \<Rightarrow> ('t, 'v) vstore \<Rightarrow> key \<Rightarrow> 't \<Rightarrow> ('t \<times> 'v) option" where
  "vs_get lt st k t =
     (if inStore st k
      then let vs = versions st k; it = getValue lt vs t in
           if it \<noteq> length vs then Some (vwrite (vs ! it), vvalue (vs ! it)) else None
      else None)"

text \<open>\<open>remove\<close> compares with \<open>operator!=\<close> of \<open>T\<close>, the argument \<open>ne\<close>.\<close>

definition vs_remove :: "('t \<Rightarrow> 't \<Rightarrow> bool) \<Rightarrow> ('t \<Rightarrow> 't \<Rightarrow> bool) \<Rightarrow>
    ('t, 'v) vstore \<Rightarrow> key \<Rightarrow> 't \<Rightarrow> bool \<times> ('t, 'v) vstore" where
  "vs_remove lt ne st k t =
     (case map_of (vs_store st) k of
        None \<Rightarrow> (False, st)
      | Some vs \<Rightarrow>
          let it = getValue lt vs t in
          if it = length vs \<or> ne (vwrite (vs ! it)) t then (False, st)
          else (True, st\<lparr>vs_store := um_put k (take it vs @ drop (Suc it) vs) (vs_store st)\<rparr>))"

text \<open>
  The out-parameters keep their old value where the code does not assign them:
  \<open>getRange\<close> leaves \<open>range.second\<close> alone when the version is the newest.
\<close>

definition vs_getRange :: "('t \<Rightarrow> 't \<Rightarrow> bool) \<Rightarrow> ('t, 'v) vstore \<Rightarrow> key \<Rightarrow> 't \<Rightarrow> 't \<times> 't \<Rightarrow>
    bool \<times> 't \<times> 't" where
  "vs_getRange lt st k t rng =
     (if inStore st k
      then let vs = versions st k; it = getValue lt vs t in
           if it \<noteq> length vs
           then (True, vwrite (vs ! it),
                 if Suc it \<noteq> length vs then vwrite (vs ! Suc it) else snd rng)
           else (False, rng)
      else (False, rng))"

text \<open>\<open>getUpperBound\<close> indexes with \<open>store[key]\<close>, so it creates the key when it is missing.\<close>

definition vs_getUpperBound :: "('t \<Rightarrow> 't \<Rightarrow> bool) \<Rightarrow> ('t, 'v) vstore \<Rightarrow> key \<Rightarrow> 't \<Rightarrow> 't \<Rightarrow>
    bool \<times> 't \<times> ('t, 'v) vstore" where
  "vs_getUpperBound lt st k t result =
     (let (vs, m) = um_ref [] (vs_store st) k; st' = st\<lparr>vs_store := m\<rparr>;
          it = vset_upper_bound lt t vs in
      if it = length vs then (False, result, st') else (True, vwrite (vs ! it), st'))"

definition vs_put :: "('t \<Rightarrow> 't \<Rightarrow> bool) \<Rightarrow> key \<Rightarrow> 'v \<Rightarrow> 't \<Rightarrow> ('t, 'v) vstore \<Rightarrow> ('t, 'v) vstore" where
  "vs_put lt k v t st =
     st\<lparr>vs_store := um_put k (vset_insert lt (VersionedValue t v) (versions st k)) (vs_store st)\<rparr>"

definition vs_getCommittedAfter :: "('t \<Rightarrow> 't \<Rightarrow> bool) \<Rightarrow> ('t, 'v) vstore \<Rightarrow> key \<Rightarrow> 't \<Rightarrow>
    ('t \<times> 'v) list \<Rightarrow> bool \<times> ('t \<times> 'v) list" where
  "vs_getCommittedAfter lt st k t values =
     (case map_of (vs_store st) k of
        None \<Rightarrow> (False, values)
      | Some vs \<Rightarrow> (True, values @ map (\<lambda>x. (vwrite x, vvalue x)) (drop (vset_upper_bound lt t vs) vs)))"

subsection \<open>The read timestamps\<close>

text \<open>\<open>std::map::find\<close> matches a key that is equivalent under \<open>operator<\<close>.\<close>

definition equivT :: "('t \<Rightarrow> 't \<Rightarrow> bool) \<Rightarrow> 't \<Rightarrow> 't \<Rightarrow> bool" where
  "equivT lt a b = (\<not> lt a b \<and> \<not> lt b a)"

definition reads_find :: "('t \<Rightarrow> 't \<Rightarrow> bool) \<Rightarrow> ('t, 'v) vstore \<Rightarrow> key \<Rightarrow> 't \<Rightarrow> 't option" where
  "reads_find lt st k w =
     (case map_of (vs_lastReads st) k of
        None \<Rightarrow> None
      | Some m \<Rightarrow> map_option snd (List.find (\<lambda>p. equivT lt (fst p) w) m))"

definition vs_commitGet :: "('t \<Rightarrow> 't \<Rightarrow> bool) \<Rightarrow> key \<Rightarrow> 't \<Rightarrow> 't \<Rightarrow>
    ('t, 'v) vstore \<Rightarrow> ('t, 'v) vstore" where
  "vs_commitGet lt k readTime commit st =
     (if inStore st k
      then let vs = versions st k; it = getValue lt vs readTime in
           if it \<noteq> length vs
           then (case (map_of (vs_lastReads st) k, reads_find lt st k (vwrite (vs ! it))) of
                   (Some m, Some r) \<Rightarrow>
                     if lt r commit
                     then st\<lparr>vs_lastReads :=
                            um_put k (map (\<lambda>p. if equivT lt (fst p) (vwrite (vs ! it))
                                               then (fst p, commit) else p) m) (vs_lastReads st)\<rparr>
                     else st
                 | _ \<Rightarrow> st)
           else st
      else st)"

definition vs_getLastRead :: "('t \<Rightarrow> 't \<Rightarrow> bool) \<Rightarrow> ('t, 'v) vstore \<Rightarrow> key \<Rightarrow> 't option" where
  "vs_getLastRead lt st k =
     (if inStore st k then reads_find lt st k (vwrite (last (versions st k))) else None)"

text \<open>
  With a time argument, the iterator may be \<open>end()\<close>; dereferencing it, which
  happens only when the key has an entry in \<open>lastReads\<close>, is undefined.
\<close>

definition vs_getLastRead_at :: "('t \<Rightarrow> 't \<Rightarrow> bool) \<Rightarrow> ('t, 'v) vstore \<Rightarrow> key \<Rightarrow> 't \<Rightarrow>
    't option outcome" where
  "vs_getLastRead_at lt st k t =
     (if inStore st k
      then let vs = versions st k; it = getValue lt vs t in
           (case map_of (vs_lastReads st) k of
              None \<Rightarrow> Inr None
            | Some m \<Rightarrow> if it = length vs then Inl UndefinedBehaviour
                        else Inr (reads_find lt st k (vwrite (vs ! it))))
      else Inr None)"

section \<open>Strict weak orders and the invariant\<close>

definition vs_inv :: "('t \<Rightarrow> 't \<Rightarrow> bool) \<Rightarrow> ('t, 'v) vstore \<Rightarrow> bool" where
  "vs_inv lt st \<longleftrightarrow>
     um_ok (vs_store st) \<and> (\<forall>k. sorted_wrt (\<lambda>x y. lt (vwrite x) (vwrite y)) (versions st k))"

text \<open>
  What a reader at time \<open>t\<close> is entitled to: a version that is stored, not after
  \<open>t\<close>, and with no other such version after it.
\<close>

definition snapshot_version :: "('t \<Rightarrow> 't \<Rightarrow> bool) \<Rightarrow> ('t, 'v) vstore \<Rightarrow> key \<Rightarrow> 't \<Rightarrow> 't \<Rightarrow> 'v \<Rightarrow> bool" where
  "snapshot_version lt st k t w v \<longleftrightarrow>
     VersionedValue w v \<in> set (versions st k) \<and> \<not> lt t w \<and>
     (\<forall>x \<in> set (versions st k). \<not> lt t (vwrite x) \<longrightarrow> \<not> lt w (vwrite x))"

lemma versions_put_same [simp]:
  "versions (vs_put lt k v t st) k = vset_insert lt (VersionedValue t v) (versions st k)"
  by (simp add: versions_def vs_put_def)

lemma versions_put_other [simp]:
  "k' \<noteq> k \<Longrightarrow> versions (vs_put lt k v t st) k' = versions st k'"
  by (simp add: versions_def vs_put_def)

lemma inStore_iff: "inStore st k \<longleftrightarrow> versions st k \<noteq> []"
  by (auto simp: inStore_def versions_def um_has_def split: option.splits)

lemma vset_insert_not_Nil [simp]: "vset_insert lt v vs \<noteq> []"
  by (cases vs) auto

lemma upper_bound_takeWhile:
  "vset_upper_bound lt t vs = length (takeWhile (\<lambda>x. \<not> lt t (vwrite x)) vs)"
  by (induction vs) auto

lemma set_vset_insert_subset: "set (vset_insert lt v vs) \<subseteq> insert v (set vs)"
  by (induction vs) auto

lemma set_vset_insert_superset: "set vs \<subseteq> set (vset_insert lt v vs)"
  by (induction vs) auto

lemma vs_get_takeWhile:
  "vs_get lt st k t =
     (let xs = takeWhile (\<lambda>x. \<not> lt t (vwrite x)) (versions st k) in
      if xs = [] then None else Some (vwrite (last xs), vvalue (last xs)))"
proof -
  let ?vs = "versions st k" and ?xs = "takeWhile (\<lambda>x. \<not> lt t (vwrite x)) (versions st k)"
  have le: "length ?xs \<le> length ?vs" by (rule length_takeWhile_le)
  show ?thesis
  proof (cases "?xs = []")
    case True
    then show ?thesis
      by (simp add: vs_get_def getValue_def upper_bound_takeWhile inStore_iff Let_def)
  next
    case False
    then have "length ?xs - 1 < length ?xs" by (cases ?xs) auto
    then have "last ?xs = ?vs ! (length ?xs - 1)"
      using False by (simp add: last_conv_nth takeWhile_nth)
    moreover have "length ?xs - 1 \<noteq> length ?vs" and "?vs \<noteq> []"
      using False le by (cases ?xs; auto)+
    ultimately show ?thesis using False
      by (simp add: vs_get_def getValue_def upper_bound_takeWhile inStore_iff Let_def)
  qed
qed

locale version_order =
  fixes lt :: "'t \<Rightarrow> 't \<Rightarrow> bool"
  assumes asym: "lt a b \<Longrightarrow> \<not> lt b a"
    and cotrans: "lt a c \<Longrightarrow> lt a b \<or> lt b c"
begin

lemma irrefl: "\<not> lt a a"
  using asym by blast

lemma trans: "lt a b \<Longrightarrow> lt b c \<Longrightarrow> lt a c"
  using asym cotrans by blast

lemma sorted_insert:
  "sorted_wrt (\<lambda>x y. lt (vwrite x) (vwrite y)) vs \<Longrightarrow>
   sorted_wrt (\<lambda>x y. lt (vwrite x) (vwrite y)) (vset_insert lt v vs)"
proof (induction vs)
  case Nil
  then show ?case by simp
next
  case (Cons x xs)
  then show ?case
    using set_vset_insert_subset [of lt v xs] by (auto intro: trans)
qed

lemma inv_put: "vs_inv lt st \<Longrightarrow> vs_inv lt (vs_put lt k v t st)"
  unfolding vs_inv_def
proof (intro conjI allI)
  assume inv: "um_ok (vs_store st) \<and>
    (\<forall>k. sorted_wrt (\<lambda>x y. lt (vwrite x) (vwrite y)) (versions st k))"
  then show "um_ok (vs_store (vs_put lt k v t st))" by (simp add: vs_put_def)
  fix k'
  from inv show "sorted_wrt (\<lambda>x y. lt (vwrite x) (vwrite y)) (versions (vs_put lt k v t st) k')"
    by (cases "k' = k") (simp_all add: sorted_insert)
qed

text \<open>In a sorted set the versions up to a time are exactly the ones before the upper bound.\<close>

lemma takeWhile_filter:
  "sorted_wrt (\<lambda>x y. lt (vwrite x) (vwrite y)) vs \<Longrightarrow>
   takeWhile (\<lambda>x. \<not> lt t (vwrite x)) vs = filter (\<lambda>x. \<not> lt t (vwrite x)) vs"
proof (induction vs)
  case Nil
  then show ?case by simp
next
  case (Cons x xs)
  show ?case
  proof (cases "lt t (vwrite x)")
    case True
    with Cons.prems have "\<forall>y \<in> set xs. lt t (vwrite y)" by (auto intro: trans)
    then have "filter (\<lambda>x. \<not> lt t (vwrite x)) xs = []" by (simp add: filter_empty_conv)
    with True show ?thesis by simp
  next
    case False
    with Cons show ?thesis by simp
  qed
qed

lemma get_filter:
  assumes "vs_inv lt st"
  shows "vs_get lt st k t =
     (let xs = filter (\<lambda>x. \<not> lt t (vwrite x)) (versions st k) in
      if xs = [] then None else Some (vwrite (last xs), vvalue (last xs)))"
  using assms by (simp add: vs_get_takeWhile takeWhile_filter vs_inv_def)

lemma last_sorted_max:
  assumes "sorted_wrt (\<lambda>x y. lt (vwrite x) (vwrite y)) xs" and "x \<in> set xs"
  shows "x = last xs \<or> lt (vwrite x) (vwrite (last xs))"
  using assms by (induction xs) (auto split: if_splits)

lemma get_Some_iff:
  assumes inv: "vs_inv lt st"
  shows "vs_get lt st k t = Some (w, v) \<longleftrightarrow> snapshot_version lt st k t w v"
proof -
  let ?xs = "filter (\<lambda>x. \<not> lt t (vwrite x)) (versions st k)"
  have sorted: "sorted_wrt (\<lambda>x y. lt (vwrite x) (vwrite y)) ?xs"
    using inv by (simp add: vs_inv_def sorted_wrt_filter)
  show ?thesis
  proof
    assume "vs_get lt st k t = Some (w, v)"
    then have ne: "?xs \<noteq> []" and l: "last ?xs = VersionedValue w v"
      by (auto simp: get_filter [OF inv] Let_def versioned_value.expand split: if_splits)
    have mem: "last ?xs \<in> set ?xs" using ne by (rule last_in_set)
    have max: "\<not> lt w (vwrite x)" if "x \<in> set ?xs" for x
      using last_sorted_max [OF sorted that] l irrefl asym by (metis versioned_value.sel(1))
    from l mem max show "snapshot_version lt st k t w v"
      by (auto simp: snapshot_version_def)
  next
    assume "snapshot_version lt st k t w v"
    then have mem: "VersionedValue w v \<in> set ?xs" and max: "\<forall>x \<in> set ?xs. \<not> lt w (vwrite x)"
      by (auto simp: snapshot_version_def)
    from mem have ne: "?xs \<noteq> []" by (metis empty_iff empty_set)
    then have "last ?xs \<in> set ?xs" by (rule last_in_set)
    with max last_sorted_max [OF sorted mem] have "last ?xs = VersionedValue w v" by force
    with ne show "vs_get lt st k t = Some (w, v)" by (simp add: get_filter [OF inv])
  qed
qed

text \<open>A version put after the reader's time is invisible to the reader.\<close>

lemma filter_insert_later:
  "lt t (vwrite v) \<Longrightarrow>
   filter (\<lambda>x. \<not> lt t (vwrite x)) (vset_insert lt v vs) = filter (\<lambda>x. \<not> lt t (vwrite x)) vs"
  by (induction vs) auto

lemma get_put_before:
  assumes "vs_inv lt st" and "lt t w"
  shows "vs_get lt (vs_put lt k v w st) k' t = vs_get lt st k' t"
  using assms by (cases "k' = k") (simp_all add: get_filter inv_put filter_insert_later)

lemma insert_mem:
  "\<forall>x \<in> set vs. \<not> equivT lt (vwrite x) (vwrite v) \<Longrightarrow> v \<in> set (vset_insert lt v vs)"
  by (induction vs) (auto simp: equivT_def)

text \<open>A version put at or before the reader's time and after every version it saw is what it sees.\<close>

lemma get_put_new:
  assumes inv: "vs_inv lt st" and vis: "\<not> lt t w"
    and old: "\<And>w' v'. vs_get lt st k t = Some (w', v') \<Longrightarrow> lt w' w"
  shows "vs_get lt (vs_put lt k v w st) k t = Some (w, v)"
proof -
  have below: "lt (vwrite x) w" if x: "x \<in> set (versions st k)" "\<not> lt t (vwrite x)" for x
  proof -
    let ?xs = "filter (\<lambda>x. \<not> lt t (vwrite x)) (versions st k)"
    from x have mem: "x \<in> set ?xs" by simp
    then have ne: "?xs \<noteq> []" by (metis empty_iff empty_set)
    have "sorted_wrt (\<lambda>x y. lt (vwrite x) (vwrite y)) ?xs"
      using inv by (simp add: vs_inv_def sorted_wrt_filter)
    from last_sorted_max [OF this mem]
    have "x = last ?xs \<or> lt (vwrite x) (vwrite (last ?xs))" .
    moreover have "lt (vwrite (last ?xs)) w"
      using ne by (intro old [of _ "vvalue (last ?xs)"]) (simp add: get_filter [OF inv] Let_def)
    ultimately show ?thesis by (auto intro: trans)
  qed
  have "VersionedValue w v \<in> set (vset_insert lt (VersionedValue w v) (versions st k))"
  proof (rule insert_mem, rule ballI)
    fix x
    assume "x \<in> set (versions st k)"
    then show "\<not> equivT lt (vwrite x) (vwrite (VersionedValue w v))"
      using below [of x] vis cotrans [of t "vwrite x" w] by (auto simp: equivT_def)
  qed
  moreover have "\<not> lt w (vwrite x)"
    if "x \<in> set (vset_insert lt (VersionedValue w v) (versions st k))" "\<not> lt t (vwrite x)" for x
    using that set_vset_insert_subset [of lt "VersionedValue w v" "versions st k"] below irrefl asym
    by fastforce
  ultimately show ?thesis
    using vis by (simp add: get_Some_iff inv_put inv snapshot_version_def)
qed

text \<open>The first write at a timestamp wins; a second one at an equivalent timestamp is dropped.\<close>

lemma put_equiv_ignored:
  "sorted_wrt (\<lambda>x y. lt (vwrite x) (vwrite y)) vs \<Longrightarrow> x \<in> set vs \<Longrightarrow>
   equivT lt (vwrite x) (vwrite v) \<Longrightarrow> vset_insert lt v vs = vs"
proof (induction vs)
  case Nil
  then show ?case by simp
next
  case (Cons y ys)
  show ?case
  proof (cases "x = y")
    case True
    with Cons.prems(3) show ?thesis by (simp add: equivT_def)
  next
    case False
    with Cons.prems have x: "x \<in> set ys" and "lt (vwrite y) (vwrite x)" by auto
    with Cons.prems(3) have "lt (vwrite y) (vwrite v)"
      using cotrans [of "vwrite y" "vwrite x" "vwrite v"] by (auto simp: equivT_def)
    with Cons x show ?thesis using asym by simp
  qed
qed

end

section \<open>The version order of the server\<close>

text \<open>
  \<open>TimestampID\<close> of \<open>server.h\<close> carries the writer's transaction id, but its
  \<open>operator<\<close> compares the timestamps alone: it is a weak order only.
\<close>

datatype timestamp_id = TimestampID (tid_timestamp: timestamp) (tid_transaction_id: txn_id)

definition tid_lt :: "timestamp_id \<Rightarrow> timestamp_id \<Rightarrow> bool" where
  "tid_lt t1 t2 = (tid_timestamp t1 < tid_timestamp t2)"

definition tid_gt :: "timestamp_id \<Rightarrow> timestamp_id \<Rightarrow> bool" where
  "tid_gt t1 t2 = (tid_timestamp t1 > tid_timestamp t2)"

interpretation tid: version_order tid_lt
  by unfold_locales (auto simp: tid_lt_def)

section \<open>The contract of a multi-version store and its client\<close>

text \<open>
  A client of the store commits a whole write set at one version, one \<open>put\<close> per
  write (\<open>Server::CoordinatorCommitTransaction\<close>). The contract names what it needs
  of \<open>get\<close> and \<open>put\<close>.
\<close>

definition commit_writes :: "(key \<Rightarrow> 'v \<Rightarrow> 't \<Rightarrow> 's \<Rightarrow> 's) \<Rightarrow> (key \<times> 'v) list \<Rightarrow> 't \<Rightarrow> 's \<Rightarrow> 's" where
  "commit_writes put ws w s = fold (\<lambda>(k, v). put k v w) ws s"

lemma commit_writes_simps [simp]:
  "commit_writes put [] w s = s"
  "commit_writes put ((k, v) # ws) w s = commit_writes put ws w (put k v w s)"
  by (simp_all add: commit_writes_def)

locale mv_store =
  fixes get :: "'s \<Rightarrow> key \<Rightarrow> 't \<Rightarrow> ('t \<times> 'v) option"
    and put :: "key \<Rightarrow> 'v \<Rightarrow> 't \<Rightarrow> 's \<Rightarrow> 's"
    and inv :: "'s \<Rightarrow> bool"
    and lt :: "'t \<Rightarrow> 't \<Rightarrow> bool"
  assumes inv_put: "inv s \<Longrightarrow> inv (put k v w s)"
    and get_put_other: "inv s \<Longrightarrow> k' \<noteq> k \<Longrightarrow> get (put k v w s) k' t = get s k' t"
    and get_put_before: "inv s \<Longrightarrow> lt t w \<Longrightarrow> get (put k v w s) k' t = get s k' t"
    and get_put_new: "inv s \<Longrightarrow> \<not> lt t w \<Longrightarrow>
      (\<And>w' v'. get s k t = Some (w', v') \<Longrightarrow> lt w' w) \<Longrightarrow> get (put k v w s) k t = Some (w, v)"
begin

lemma inv_commit: "inv s \<Longrightarrow> inv (commit_writes put ws w s)"
  by (induction ws arbitrary: s) (auto simp: inv_put)

lemma commit_before: "inv s \<Longrightarrow> lt t w \<Longrightarrow> get (commit_writes put ws w s) k t = get s k t"
  by (induction ws arbitrary: s) (auto simp: inv_put get_put_before)

lemma commit_other:
  "inv s \<Longrightarrow> k \<notin> set (um_keys ws) \<Longrightarrow> get (commit_writes put ws w s) k t = get s k t"
  by (induction ws arbitrary: s) (auto simp: inv_put get_put_other)

lemma commit_visible:
  assumes "inv s" and "um_ok ws" and "map_of ws k = Some v" and "\<not> lt t w"
    and "\<And>w' v'. get s k t = Some (w', v') \<Longrightarrow> lt w' w"
  shows "get (commit_writes put ws w s) k t = Some (w, v)"
  using assms
proof (induction ws arbitrary: s)
  case Nil
  then show ?case by simp
next
  case (Cons p ws)
  obtain k0 v0 where p: "p = (k0, v0)" by fastforce
  show ?case
  proof (cases "k0 = k")
    case True
    with Cons.prems p have "v0 = v" and "k \<notin> set (um_keys ws)" by (auto simp: um_ok_def)
    with True p Cons.prems show ?thesis by (simp add: commit_other inv_put get_put_new)
  next
    case False
    with Cons.prems p have "map_of ws k = Some v" and "um_ok ws" by (auto simp: um_ok_def)
    with Cons.IH [of "put k0 v0 w s"] Cons.prems False p show ?thesis
      by (simp add: inv_put get_put_other)
  qed
qed

end

interpretation vs: mv_store "vs_get tid_lt" "vs_put tid_lt" "vs_inv tid_lt" tid_lt
proof
  fix st :: "(timestamp_id, 'v) vstore" and k k' :: key and v :: 'v and w t :: timestamp_id
  assume inv: "vs_inv tid_lt st"
  show "vs_inv tid_lt (vs_put tid_lt k v w st)" using inv by (rule tid.inv_put)
  show "k' \<noteq> k \<Longrightarrow> vs_get tid_lt (vs_put tid_lt k v w st) k' t = vs_get tid_lt st k' t"
    by (simp add: vs_get_takeWhile)
  show "tid_lt t w \<Longrightarrow> vs_get tid_lt (vs_put tid_lt k v w st) k' t = vs_get tid_lt st k' t"
    using inv by (rule tid.get_put_before)
  show "\<not> tid_lt t w \<Longrightarrow> (\<And>w' v'. vs_get tid_lt st k t = Some (w', v') \<Longrightarrow> tid_lt w' w) \<Longrightarrow>
      vs_get tid_lt (vs_put tid_lt k v w st) k t = Some (w, v)"
    using inv by (rule tid.get_put_new)
qed

lemma vs_inv_init [simp]: "vs_inv lt vs_init"
  by (simp add: vs_inv_def vs_init_def versions_def)

section \<open>The properties of the store\<close>

text \<open>An example store: two versions of one key.\<close>

definition ex_store :: "(timestamp_id, val) vstore" where
  "ex_store = vs_put tid_lt ''x'' ''new'' (TimestampID (Timestamp 8 0) 2)
     (vs_put tid_lt ''x'' ''old'' (TimestampID (Timestamp 4 0) 1) vs_init)"

lemma ex_store_inv: "vs_inv tid_lt ex_store"
  unfolding ex_store_def by (intro vs.inv_put vs_inv_init)

text \<open>
  \<^bold>\<open>C32\<close> A timestamped read returns exactly the version a reader at that time is
  entitled to: the one stored version that is not after the time and that no
  other such version follows.
\<close>

theorem vs_get_snapshot:
  assumes "vs_inv tid_lt st"
  shows "vs_get tid_lt st k t = Some (w, v) \<longleftrightarrow> snapshot_version tid_lt st k t w v"
  using assms by (rule tid.get_Some_iff)

theorem vs_get_snapshot_witness:
  "vs_get tid_lt ex_store ''x'' (TimestampID (Timestamp 5 0) 9) = Some (TimestampID (Timestamp 4 0) 1, ''old'') \<and>
   snapshot_version tid_lt ex_store ''x'' (TimestampID (Timestamp 5 0) 9) (TimestampID (Timestamp 4 0) 1) ''old''"
proof -
  have g: "vs_get tid_lt ex_store ''x'' (TimestampID (Timestamp 5 0) 9) = Some (TimestampID (Timestamp 4 0) 1, ''old'')"
    by code_simp
  with vs_get_snapshot [OF ex_store_inv] show ?thesis by blast
qed

text \<open>
  Committing a write set is atomic for readers: a reader before the commit
  version sees the store as it was, and a reader at or after it (that saw only
  older versions) sees every write of the set.
\<close>

theorem commit_writes_atomic:
  assumes "vs_inv tid_lt st" and "um_ok ws"
  shows "(tid_lt t w \<longrightarrow>
            vs_get tid_lt (commit_writes (vs_put tid_lt) ws w st) k t = vs_get tid_lt st k t) \<and>
         (\<not> tid_lt t w \<and> map_of ws k = Some v \<and>
          (\<forall>w' v'. vs_get tid_lt st k t = Some (w', v') \<longrightarrow> tid_lt w' w) \<longrightarrow>
            vs_get tid_lt (commit_writes (vs_put tid_lt) ws w st) k t = Some (w, v))"
proof (intro conjI impI)
  show "vs_get tid_lt (commit_writes (vs_put tid_lt) ws w st) k t = vs_get tid_lt st k t"
    if "tid_lt t w"
    using assms(1) that by (rule vs.commit_before)
  show "vs_get tid_lt (commit_writes (vs_put tid_lt) ws w st) k t = Some (w, v)"
    if "\<not> tid_lt t w \<and> map_of ws k = Some v \<and>
      (\<forall>w' v'. vs_get tid_lt st k t = Some (w', v') \<longrightarrow> tid_lt w' w)"
    using that by (intro vs.commit_visible [OF assms]) auto
qed

theorem commit_writes_atomic_witness:
  "vs_get tid_lt (commit_writes (vs_put tid_lt) [(''x'', ''1''), (''y'', ''2'')] (TimestampID (Timestamp 6 0) 3) vs_init)
     ''y'' (TimestampID (Timestamp 7 0) 9) = Some (TimestampID (Timestamp 6 0) 3, ''2'')"
proof -
  have "\<not> tid_lt (TimestampID (Timestamp 7 0) 9) (TimestampID (Timestamp 6 0) 3)" by code_simp
  moreover have "map_of [(''x'', ''1''), (''y'', ''2'')] ''y'' = Some ''2''" by simp
  moreover have "vs_get tid_lt vs_init ''y'' t = (None :: (timestamp_id \<times> val) option)" for t
    by (simp add: vs_get_def inStore_def versions_def vs_init_def)
  ultimately show ?thesis
    using commit_writes_atomic [OF vs_inv_init, of "[(''x'', ''1''), (''y'', ''2'')]"
      "TimestampID (Timestamp 7 0) 9" "TimestampID (Timestamp 6 0) 3" "''y''" "''2''"]
    by (simp add: um_ok_def)
qed

text \<open>
  \<open>commitGet\<close> only overwrites an entry of \<open>lastReads\<close> that is there, and no
  operation creates one. So from the empty store, after any puts and any
  \<open>commitGet\<close>s, \<open>getLastRead\<close> has nothing to report.
\<close>

fun vs_run :: "('t \<Rightarrow> 't \<Rightarrow> bool) \<Rightarrow> (key \<times> ('v \<times> 't + 't \<times> 't)) list \<Rightarrow>
    ('t, 'v) vstore \<Rightarrow> ('t, 'v) vstore" where
  "vs_run lt [] st = st"
| "vs_run lt ((k, Inl (v, t)) # ops) st = vs_run lt ops (vs_put lt k v t st)"
| "vs_run lt ((k, Inr (r, c)) # ops) st = vs_run lt ops (vs_commitGet lt k r c st)"

lemma vs_lastReads_put [simp]: "vs_lastReads (vs_put lt k v t st) = vs_lastReads st"
  by (simp add: vs_put_def)

lemma vs_lastReads_commitGet: "vs_lastReads st = [] \<Longrightarrow> vs_commitGet lt k r c st = st"
  by (simp add: vs_commitGet_def Let_def)

lemma vs_run_lastReads: "vs_lastReads st = [] \<Longrightarrow> vs_lastReads (vs_run lt ops st) = []"
  by (induction lt ops st rule: vs_run.induct) (simp_all add: vs_lastReads_commitGet)

theorem vs_getLastRead_never:
  "vs_getLastRead lt (vs_run lt ops vs_init) k = None \<and>
   vs_getLastRead_at lt (vs_run lt ops vs_init) k t = Inr None"
proof -
  have "vs_lastReads (vs_run lt ops vs_init) = []"
    by (rule vs_run_lastReads) (simp add: vs_init_def)
  then show ?thesis
    by (simp add: vs_getLastRead_def vs_getLastRead_at_def reads_find_def Let_def)
qed

end
