(* ===== verification/VrLog.thy ===== *)
theory VrLog
  imports Prelude
begin

text \<open>
  \<open>src/lib/viewstamp.h\<close>, \<open>src/replication/common/log.{h,cc}\<close>, \<open>log-impl.h\<close> and
  \<open>quorumset.h\<close>: view stamps, the replicated log with its dump and install, and the
  vote counting of the replication protocols. SHA-1 (OpenSSL) is the argument \<open>hash\<close>
  of \<open>Log_Append\<close>; the fields of an entry that only the speculative protocols use are
  left out.
\<close>

section \<open>View stamps\<close>

datatype viewstamp = Viewstamp (vs_view: u64) (vs_opnum: u64)

definition Viewstamp_Compare :: "viewstamp \<Rightarrow> viewstamp \<Rightarrow> int" where
  "Viewstamp_Compare a b =
     (if vs_view a < vs_view b then - 1
      else if vs_view a > vs_view b then 1
      else if vs_opnum a < vs_opnum b then - 1
      else if vs_opnum a > vs_opnum b then 1 else 0)"

definition vs_eq :: "viewstamp \<Rightarrow> viewstamp \<Rightarrow> bool" where
  "vs_eq a b = (Viewstamp_Compare a b = 0)"

definition vs_lt :: "viewstamp \<Rightarrow> viewstamp \<Rightarrow> bool" where
  "vs_lt a b = (Viewstamp_Compare a b < 0)"

definition vs_le :: "viewstamp \<Rightarrow> viewstamp \<Rightarrow> bool" where
  "vs_le a b = (\<not> vs_lt b a)"

text \<open>The comparison is a linear order, with \<open>operator==\<close> its equality.\<close>

instantiation viewstamp :: linorder
begin

definition less_viewstamp :: "viewstamp \<Rightarrow> viewstamp \<Rightarrow> bool" where
  "less_viewstamp a b = (Viewstamp_Compare a b < 0)"

definition less_eq_viewstamp :: "viewstamp \<Rightarrow> viewstamp \<Rightarrow> bool" where
  "less_eq_viewstamp a b = (\<not> Viewstamp_Compare b a < 0)"

instance
proof
  fix x y z :: viewstamp
  show "(x < y) = (x \<le> y \<and> \<not> y \<le> x)"
    by (auto simp: less_viewstamp_def less_eq_viewstamp_def Viewstamp_Compare_def)
  show "x \<le> x" by (simp add: less_eq_viewstamp_def Viewstamp_Compare_def)
  show "x \<le> y \<Longrightarrow> y \<le> z \<Longrightarrow> x \<le> z"
    by (auto simp: less_eq_viewstamp_def Viewstamp_Compare_def split: if_splits)
  show "x \<le> y \<Longrightarrow> y \<le> x \<Longrightarrow> x = y"
    by (cases x; cases y) (auto simp: less_eq_viewstamp_def Viewstamp_Compare_def split: if_splits)
  show "x \<le> y \<or> y \<le> x"
    by (auto simp: less_eq_viewstamp_def Viewstamp_Compare_def split: if_splits)
qed

end

lemma vs_lt_iff: "vs_lt a b \<longleftrightarrow> a < b" "vs_le a b \<longleftrightarrow> a \<le> b"
  by (simp_all add: vs_lt_def vs_le_def less_viewstamp_def less_eq_viewstamp_def)

lemma vs_eq_iff: "vs_eq a b \<longleftrightarrow> a = b"
  by (cases a; cases b) (auto simp: vs_eq_def Viewstamp_Compare_def)

section \<open>The log\<close>

datatype log_entry_state =
    LOG_STATE_COMMITTED | LOG_STATE_PREPARED | LOG_STATE_SPECULATIVE | LOG_STATE_FASTPREPARED

record vr_request =
  rq_op :: string
  rq_clientid :: u64
  rq_clientreqid :: u64

record log_entry =
  e_viewstamp :: viewstamp
  e_state :: log_entry_state
  e_request :: vr_request
  e_hash :: string

record vr_log =
  lg_entries :: "log_entry list"
  lg_initialHash :: string
  lg_start :: u64
  lg_useHash :: bool

definition EMPTY_HASH :: string where
  "EMPTY_HASH = replicate 20 (CHR 0x00)"

definition Log_init :: "bool \<Rightarrow> u64 \<Rightarrow> string \<Rightarrow> vr_log outcome" where
  "Log_init useHash start initialHash =
     (let lg = \<lparr>lg_entries = [], lg_initialHash = initialHash, lg_start = start, lg_useHash = useHash\<rparr> in
      if start = 1 then assertE (initialHash = EMPTY_HASH) (Inr lg) else Inr lg)"

definition LastOpnum :: "vr_log \<Rightarrow> u64" where
  "LastOpnum lg = (if lg_entries lg = [] then lg_start lg - 1
                   else vs_opnum (e_viewstamp (last (lg_entries lg))))"

definition LastViewstamp :: "vr_log \<Rightarrow> viewstamp" where
  "LastViewstamp lg = (if lg_entries lg = [] then Viewstamp 0 (lg_start lg - 1)
                       else e_viewstamp (last (lg_entries lg)))"

definition LastHash :: "vr_log \<Rightarrow> string" where
  "LastHash lg = (if lg_entries lg = [] then lg_initialHash lg else e_hash (last (lg_entries lg)))"

definition FirstOpnum :: "vr_log \<Rightarrow> u64" where
  "FirstOpnum lg = lg_start lg"

definition Log_Empty :: "vr_log \<Rightarrow> bool" where
  "Log_Empty lg = (lg_entries lg = [])"

definition Log_Last :: "vr_log \<Rightarrow> log_entry option" where
  "Log_Last lg = (if lg_entries lg = [] then None else Some (last (lg_entries lg)))"

definition Log_Find :: "u64 \<Rightarrow> vr_log \<Rightarrow> log_entry option outcome" where
  "Log_Find op lg =
     (if lg_entries lg = [] then Inr None
      else if op < lg_start lg then Inr None
      else if unat (op - lg_start lg) > length (lg_entries lg) - 1 then Inr None
      else let e = lg_entries lg ! unat (op - lg_start lg) in
           assertE (vs_opnum (e_viewstamp e) = op) (Inr (Some e)))"

text \<open>The result of \<open>Append\<close> is a reference to the entry \<open>Find\<close> returns.\<close>

definition Log_Append :: "(string \<Rightarrow> log_entry \<Rightarrow> string) \<Rightarrow> viewstamp \<Rightarrow> vr_request \<Rightarrow> log_entry_state \<Rightarrow>
    vr_log \<Rightarrow> vr_log outcome" where
  "Log_Append hash vs req st lg =
     assertE (vs_opnum vs = (if lg_entries lg = [] then lg_start lg else LastOpnum lg + 1))
       (let e = \<lparr>e_viewstamp = vs, e_state = st, e_request = req, e_hash = []\<rparr>;
            e1 = (if lg_useHash lg then e\<lparr>e_hash := hash (LastHash lg) e\<rparr> else e);
            lg1 = lg\<lparr>lg_entries := lg_entries lg @ [e1]\<rparr> in
        bindE (Log_Find (vs_opnum vs) lg1) (\<lambda>f. case f of
          None \<Rightarrow> Inl UndefinedBehaviour
        | Some _ \<Rightarrow> Inr lg1))"

definition update_entry :: "u64 \<Rightarrow> (log_entry \<Rightarrow> log_entry) \<Rightarrow> vr_log \<Rightarrow> vr_log" where
  "update_entry op f lg = (let i = unat (op - lg_start lg) in
     lg\<lparr>lg_entries := (lg_entries lg)[i := f (lg_entries lg ! i)]\<rparr>)"

definition Log_SetStatus :: "u64 \<Rightarrow> log_entry_state \<Rightarrow> vr_log \<Rightarrow> (bool \<times> vr_log) outcome" where
  "Log_SetStatus op st lg = bindE (Log_Find op lg) (\<lambda>f. case f of
     None \<Rightarrow> Inr (False, lg)
   | Some _ \<Rightarrow> Inr (True, update_entry op (\<lambda>e. e\<lparr>e_state := st\<rparr>) lg))"

definition Log_SetRequest :: "u64 \<Rightarrow> vr_request \<Rightarrow> vr_log \<Rightarrow> (bool \<times> vr_log) outcome" where
  "Log_SetRequest op req lg =
     (if lg_useHash lg then Inl Panicked
      else bindE (Log_Find op lg) (\<lambda>f. case f of
        None \<Rightarrow> Inr (False, lg)
      | Some _ \<Rightarrow> Inr (True, update_entry op (\<lambda>e. e\<lparr>e_request := req\<rparr>) lg)))"

text \<open>Despite its name, \<open>RemoveAfter(op)\<close> removes the entry \<open>op\<close> too.\<close>

definition Log_RemoveAfter :: "u64 \<Rightarrow> vr_log \<Rightarrow> vr_log outcome" where
  "Log_RemoveAfter op lg =
     (if op > LastOpnum lg then Inr lg
      else assertE (unat (op - lg_start lg) < length (lg_entries lg))
        (let lg1 = lg\<lparr>lg_entries := take (unat (op - lg_start lg)) (lg_entries lg)\<rparr> in
         assertE (LastOpnum lg1 = op - 1) (Inr lg1)))"

text \<open>
  The log entries of the \<open>StateTransfer\<close>, \<open>DoViewChange\<close> and \<open>StartView\<close> messages. The
  loop of \<open>Dump\<close> runs over the operation numbers from \<open>max(from, start)\<close> to
  \<open>LastOpnum()\<close>; the model covers logs of fewer than \<open>2 ^ 64 - 1\<close> operations, for which
  its counter does not wrap.
\<close>

record log_entry_message =
  lm_view :: u64
  lm_opnum :: u64
  lm_request :: vr_request
  lm_state :: log_entry_state
  lm_hash :: string

definition entry_message :: "log_entry \<Rightarrow> log_entry_message" where
  "entry_message e = \<lparr>lm_view = vs_view (e_viewstamp e), lm_opnum = vs_opnum (e_viewstamp e),
     lm_request = e_request e, lm_state = e_state e, lm_hash = e_hash e\<rparr>"

definition Log_Dump :: "u64 \<Rightarrow> vr_log \<Rightarrow> log_entry_message list outcome" where
  "Log_Dump from_op lg =
     foldE (\<lambda>i out. bindE (Log_Find (of_nat i) lg) (\<lambda>f. case f of
         None \<Rightarrow> Inl AssertFailed
       | Some e \<Rightarrow> Inr (out @ [entry_message e])))
       [unat (max from_op (lg_start lg))..<Suc (unat (LastOpnum lg))] []"

text \<open>The search for the first divergence; what is left of the new entries is appended.\<close>

fun Install_skip :: "log_entry_message list \<Rightarrow> vr_log \<Rightarrow> (log_entry_message list \<times> vr_log) outcome" where
  "Install_skip [] lg = Inr ([], lg)"
| "Install_skip (m # ms) lg =
     bindE (Log_Find (lm_opnum m) lg) (\<lambda>f. case f of
       None \<Rightarrow> Inr (m # ms, lg)
     | Some old \<Rightarrow>
         if lm_view m \<noteq> vs_view (e_viewstamp old)
         then bindE (Log_RemoveAfter (lm_opnum m) lg) (\<lambda>lg1. Inr (m # ms, lg1))
         else Install_skip ms lg)"

definition Log_Install :: "(string \<Rightarrow> log_entry \<Rightarrow> string) \<Rightarrow> log_entry_message list \<Rightarrow> vr_log \<Rightarrow>
    vr_log outcome" where
  "Log_Install hash ms lg = bindE (Install_skip ms lg) (\<lambda>(rest, lg1).
     foldE (\<lambda>m. Log_Append hash (Viewstamp (lm_view m) (lm_opnum m)) (lm_request m) LOG_STATE_PREPARED)
       rest lg1)"

section \<open>Quorums\<close>

text \<open>
  \<open>std::map\<close> keeps its entries in key order. The messages of one id are such a map
  from the replica's index; the outer map is only read by key or searched in order.
\<close>

type_synonym ('i, 'm) quorum_msgs = "('i \<times> (int \<times> 'm) list) list"

fun om_put :: "('k :: linorder) \<Rightarrow> 'v \<Rightarrow> ('k \<times> 'v) list \<Rightarrow> ('k \<times> 'v) list" where
  "om_put k v [] = [(k, v)]"
| "om_put k v ((k', v') # m) =
     (if k < k' then (k, v) # (k', v') # m
      else if k = k' then (k, v) # m
      else (k', v') # om_put k v m)"

record ('i, 'm) quorum_set =
  qs_numRequired :: int
  qs_messages :: "('i, 'm) quorum_msgs"

definition QuorumSet_init :: "int \<Rightarrow> ('i, 'm) quorum_set" where
  "QuorumSet_init n = \<lparr>qs_numRequired = n, qs_messages = []\<rparr>"

definition qs_at :: "('i, 'm) quorum_set \<Rightarrow> 'i \<Rightarrow> (int \<times> 'm) list" where
  "qs_at q i = (case map_of (qs_messages q) i of None \<Rightarrow> [] | Some ms \<Rightarrow> ms)"

definition qs_Clear :: "('i, 'm) quorum_set \<Rightarrow> ('i, 'm) quorum_set" where
  "qs_Clear q = q\<lparr>qs_messages := []\<rparr>"

definition qs_Clear_at :: "('i :: linorder) \<Rightarrow> ('i, 'm) quorum_set \<Rightarrow> ('i, 'm) quorum_set" where
  "qs_Clear_at i q = q\<lparr>qs_messages := om_put i [] (qs_messages q)\<rparr>"

definition qs_GetMessages :: "('i :: linorder) \<Rightarrow> ('i, 'm) quorum_set \<Rightarrow>
    (int \<times> 'm) list \<times> ('i, 'm) quorum_set" where
  "qs_GetMessages i q = (qs_at q i, q\<lparr>qs_messages := om_put i (qs_at q i) (qs_messages q)\<rparr>)"

text \<open>Reading \<open>messages[vs]\<close> creates the entry.\<close>

definition qs_CheckForQuorum :: "('i :: linorder) \<Rightarrow> ('i, 'm) quorum_set \<Rightarrow>
    (int \<times> 'm) list option \<times> ('i, 'm) quorum_set" where
  "qs_CheckForQuorum i q =
     (if int (length (qs_at q i)) \<ge> qs_numRequired q then Some (qs_at q i) else None,
      q\<lparr>qs_messages := om_put i (qs_at q i) (qs_messages q)\<rparr>)"

definition qs_CheckForQuorum_any :: "('i, 'm) quorum_set \<Rightarrow> (int \<times> 'm) list option" where
  "qs_CheckForQuorum_any q =
     map_option snd (find (\<lambda>p. int (length (snd p)) \<ge> qs_numRequired q) (qs_messages q))"

definition qs_AddAndCheckForQuorum :: "('i :: linorder) \<Rightarrow> int \<Rightarrow> 'm \<Rightarrow> ('i, 'm) quorum_set \<Rightarrow>
    (int \<times> 'm) list option \<times> ('i, 'm) quorum_set" where
  "qs_AddAndCheckForQuorum i r msg q =
     (let q1 = q\<lparr>qs_messages := om_put i (om_put r msg (qs_at q i)) (qs_messages q)\<rparr> in
      qs_CheckForQuorum i q1)"

definition qs_Add :: "('i :: linorder) \<Rightarrow> int \<Rightarrow> 'm \<Rightarrow> ('i, 'm) quorum_set \<Rightarrow> ('i, 'm) quorum_set" where
  "qs_Add i r msg q = snd (qs_AddAndCheckForQuorum i r msg q)"

definition qs_NumRequired :: "('i, 'm) quorum_set \<Rightarrow> int" where
  "qs_NumRequired q = qs_numRequired q"

end
