(* ===== verification/VrReplica.thy ===== *)
theory VrReplica
  imports VrLog
begin

text \<open>
  \<open>src/replication/vr/replica.{h,cc}\<close> with the parts of \<open>replication/common/replica.h\<close>,
  \<open>replica-inl.h\<close> and \<open>lib/configuration.h\<close> it uses: a viewstamped replication replica,
  one definition per handler. The application (\<open>AppReplica\<close>) is the argument \<open>app\<close>. The
  transport only receives messages to send: they are appended to the replica's trace,
  as are the calls of \<open>ReplicaUpcall\<close>, which the code does not record. A timer is its
  \<open>Active()\<close> flag, and its callback a definition of its own. Latency measurement and
  logging are left out.
\<close>

section \<open>Messages\<close>

type_synonym addr = u64

record reply_message =
  rp_view :: u64
  rp_opnum :: u64
  rp_clientreqid :: u64
  rp_reply :: string

record prepare_message =
  pm_view :: u64
  pm_opnum :: u64
  pm_batchstart :: u64
  pm_request :: "vr_request list"

record prepare_ok_message =
  po_view :: u64
  po_opnum :: u64
  po_replicaIdx :: int

record state_transfer_message =
  st_view :: u64
  st_opnum :: u64
  st_entries :: "log_entry_message list"

record start_view_change_message =
  svc_view :: u64
  svc_replicaIdx :: int
  svc_lastCommitted :: u64

record do_view_change_message =
  dvc_view :: u64
  dvc_lastNormalView :: u64
  dvc_lastOp :: u64
  dvc_lastCommitted :: u64
  dvc_entries :: "log_entry_message list"
  dvc_replicaIdx :: int

record start_view_message =
  sv_view :: u64
  sv_lastOp :: u64
  sv_lastCommitted :: u64
  sv_entries :: "log_entry_message list"

datatype vr_message =
    RequestMessage vr_request
  | UnloggedRequestMessage vr_request
  | UnloggedReplyMessage string u64
  | ReplyMessage reply_message
  | PrepareMessage prepare_message
  | PrepareOKMessage prepare_ok_message
  | CommitMessage u64 u64
  | RequestStateTransferMessage u64 u64
  | StateTransferMessage state_transfer_message
  | StartViewChangeMessage start_view_change_message
  | DoViewChangeMessage do_view_change_message
  | StartViewMessage start_view_message

datatype vr_dest = ToAddress addr | ToReplica int | ToAll

datatype vr_event = Send vr_dest vr_message | Upcall u64 string

section \<open>State\<close>

datatype replica_status = STATUS_NORMAL | STATUS_VIEW_CHANGE | STATUS_RECOVERING

record vr_config =
  cf_n :: nat
  cf_f :: int
  cf_myIdx :: int

definition QuorumSize :: "vr_config \<Rightarrow> int" where
  "QuorumSize cf = cf_f cf + 1"

definition FastQuorumSize :: "vr_config \<Rightarrow> int" where
  "FastQuorumSize cf = cf_f cf + (cf_f cf + 1) div 2 + 1"

definition GetLeaderIndex :: "vr_config \<Rightarrow> u64 \<Rightarrow> int" where
  "GetLeaderIndex cf v = int (unat v mod cf_n cf)"

record 'a app_replica =
  LeaderUpcall :: "u64 \<Rightarrow> string \<Rightarrow> 'a \<Rightarrow> (bool \<times> string) \<times> 'a"
  ReplicaUpcall :: "u64 \<Rightarrow> string \<Rightarrow> 'a \<Rightarrow> string \<times> 'a"
  UnloggedUpcall :: "string \<Rightarrow> 'a \<Rightarrow> string \<times> 'a"

record client_table_entry =
  ct_lastReqId :: u64
  ct_replied :: bool
  ct_reply :: reply_message

record 'a vr_replica =
  r_status :: replica_status
  r_view :: u64
  r_lastCommitted :: u64
  r_lastOp :: u64
  r_lastRSTView :: u64
  r_lastRSTOpnum :: u64
  r_pendingPrepares :: "(addr \<times> prepare_message) list"
  r_lastPrepare :: prepare_message
  r_batchSize :: u64
  r_lastBatchEnd :: u64
  r_log :: vr_log
  r_clientAddresses :: "(u64, addr) umap"
  r_clientTable :: "(u64, client_table_entry) umap"
  r_prepareOKQuorum :: "(viewstamp, prepare_ok_message) quorum_set"
  r_startViewChangeQuorum :: "(u64, start_view_change_message) quorum_set"
  r_doViewChangeQuorum :: "(u64, do_view_change_message) quorum_set"
  r_viewChangeTimeout :: bool
  r_nullCommitTimeout :: bool
  r_stateTransferTimeout :: bool
  r_resendPrepareTimeout :: bool
  r_closeBatchTimeout :: bool
  r_app :: 'a
  r_trace :: "vr_event list"

definition empty_reply :: reply_message where
  "empty_reply = \<lparr>rp_view = 0, rp_opnum = 0, rp_clientreqid = 0, rp_reply = []\<rparr>"

text \<open>\<open>clientTable[id]\<close> value-initialises a missing entry.\<close>

definition ct_ref :: "'a vr_replica \<Rightarrow> u64 \<Rightarrow> client_table_entry" where
  "ct_ref r i = (case map_of (r_clientTable r) i of
     None \<Rightarrow> \<lparr>ct_lastReqId = 0, ct_replied = False, ct_reply = empty_reply\<rparr> | Some e \<Rightarrow> e)"

definition ct_set :: "u64 \<Rightarrow> client_table_entry \<Rightarrow> 'a vr_replica \<Rightarrow> 'a vr_replica" where
  "ct_set i e r = r\<lparr>r_clientTable := um_put i e (r_clientTable r)\<rparr>"

definition emit :: "vr_event \<Rightarrow> 'a vr_replica \<Rightarrow> 'a vr_replica" where
  "emit e r = r\<lparr>r_trace := r_trace r @ [e]\<rparr>"

definition AmLeader :: "vr_config \<Rightarrow> 'a vr_replica \<Rightarrow> bool" where
  "AmLeader cf r = (GetLeaderIndex cf (r_view r) = cf_myIdx cf)"

definition VRReplica_init :: "vr_config \<Rightarrow> u64 \<Rightarrow> 'a \<Rightarrow> 'a vr_replica" where
  "VRReplica_init cf bs a = (let leader = (GetLeaderIndex cf 0 = cf_myIdx cf) in
     \<lparr>r_status = STATUS_NORMAL, r_view = 0, r_lastCommitted = 0, r_lastOp = 0,
      r_lastRSTView = 0, r_lastRSTOpnum = 0, r_pendingPrepares = [],
      r_lastPrepare = \<lparr>pm_view = 0, pm_opnum = 0, pm_batchstart = 0, pm_request = []\<rparr>,
      r_batchSize = bs, r_lastBatchEnd = 0,
      r_log = \<lparr>lg_entries = [], lg_initialHash = EMPTY_HASH, lg_start = 1, lg_useHash = False\<rparr>,
      r_clientAddresses = [], r_clientTable = [],
      r_prepareOKQuorum = QuorumSet_init (QuorumSize cf - 1),
      r_startViewChangeQuorum = QuorumSet_init (QuorumSize cf - 1),
      r_doViewChangeQuorum = QuorumSet_init (QuorumSize cf - 1),
      r_viewChangeTimeout = \<not> leader, r_nullCommitTimeout = leader, r_stateTransferTimeout = True,
      r_resendPrepareTimeout = False, r_closeBatchTimeout = False, r_app = a, r_trace = []\<rparr>)"

section \<open>Helpers of the handlers\<close>

text \<open>The replica's log has no hashes, so the hash argument of \<open>Append\<close> is never applied.\<close>

abbreviation no_hash :: "string \<Rightarrow> log_entry \<Rightarrow> string" where
  "no_hash h e \<equiv> []"

definition log_append :: "viewstamp \<Rightarrow> vr_request \<Rightarrow> 'a vr_replica \<Rightarrow> 'a vr_replica outcome" where
  "log_append vs req r =
     bindE (Log_Append no_hash vs req LOG_STATE_PREPARED (r_log r)) (\<lambda>lg. Inr (r\<lparr>r_log := lg\<rparr>))"

text \<open>One iteration of the loop of \<open>CommitUpTo\<close>.\<close>

definition commit_next :: "'a app_replica \<Rightarrow> 'a vr_replica \<Rightarrow> 'a vr_replica outcome" where
  "commit_next app r0 =
     (let op = r_lastCommitted r0 + 1; r = r0\<lparr>r_lastCommitted := op\<rparr> in
      bindE (Log_Find op (r_log r)) (\<lambda>f. case f of
        None \<Rightarrow> Inl Panicked
      | Some entry \<Rightarrow>
          let req = e_request entry;
              (res, a) = ReplicaUpcall app op (rq_op req) (r_app r);
              r1 = emit (Upcall op (rq_op req)) (r\<lparr>r_app := a\<rparr>);
              reply = \<lparr>rp_view = vs_view (e_viewstamp entry), rp_opnum = vs_opnum (e_viewstamp entry),
                       rp_clientreqid = rq_clientreqid req, rp_reply = res\<rparr> in
          bindE (Log_SetStatus op LOG_STATE_COMMITTED (r_log r1)) (\<lambda>(_, lg).
            let r2 = r1\<lparr>r_log := lg\<rparr>;
                cte = ct_ref r2 (rq_clientid req);
                r3 = ct_set (rq_clientid req)
                       (if ct_lastReqId cte \<le> rq_clientreqid req
                        then cte\<lparr>ct_lastReqId := rq_clientreqid req, ct_replied := True, ct_reply := reply\<rparr>
                        else cte) r2 in
            Inr (case map_of (r_clientAddresses r3) (rq_clientid req) of
                   None \<Rightarrow> r3
                 | Some a \<Rightarrow> emit (Send (ToAddress a) (ReplyMessage reply)) r3))))"

fun commit_times :: "nat \<Rightarrow> 'a app_replica \<Rightarrow> 'a vr_replica \<Rightarrow> 'a vr_replica outcome" where
  "commit_times 0 app r = Inr r"
| "commit_times (Suc k) app r = bindE (commit_next app r) (commit_times k app)"

text \<open>The loop runs while \<open>lastCommitted < op\<close>, and every iteration adds one to \<open>lastCommitted\<close>.\<close>

definition CommitUpTo :: "'a app_replica \<Rightarrow> u64 \<Rightarrow> 'a vr_replica \<Rightarrow> 'a vr_replica outcome" where
  "CommitUpTo app op r = commit_times (unat op - unat (r_lastCommitted r)) app r"

definition UpdateClientTable :: "vr_request \<Rightarrow> 'a vr_replica \<Rightarrow> 'a vr_replica outcome" where
  "UpdateClientTable req r =
     (let e = ct_ref r (rq_clientid req) in
      assertE (ct_lastReqId e \<le> rq_clientreqid req)
        (Inr (ct_set (rq_clientid req)
           (if ct_lastReqId e = rq_clientreqid req then e
            else e\<lparr>ct_lastReqId := rq_clientreqid req, ct_replied := False, ct_reply := empty_reply\<rparr>) r)))"

definition prepare_ok :: "vr_config \<Rightarrow> u64 \<Rightarrow> u64 \<Rightarrow> 'a vr_replica \<Rightarrow> 'a vr_replica" where
  "prepare_ok cf v op r =
     emit (Send (ToReplica (GetLeaderIndex cf (r_view r)))
       (PrepareOKMessage \<lparr>po_view = v, po_opnum = op, po_replicaIdx = cf_myIdx cf\<rparr>)) r"

text \<open>The loop runs over the operation numbers \<open>oldLastOp..lastOp\<close>, below \<open>2 ^ 64 - 1\<close>.\<close>

definition SendPrepareOKs :: "vr_config \<Rightarrow> u64 \<Rightarrow> 'a vr_replica \<Rightarrow> 'a vr_replica outcome" where
  "SendPrepareOKs cf oldLastOp r =
     foldE (\<lambda>i r. let op = of_nat i in
         if op \<le> r_lastCommitted r then Inr r
         else bindE (Log_Find op (r_log r)) (\<lambda>f. case f of
           None \<Rightarrow> Inl Panicked
         | Some entry \<Rightarrow> assertE (e_state entry = LOG_STATE_PREPARED)
             (bindE (UpdateClientTable (e_request entry) r) (\<lambda>r1.
                Inr (prepare_ok cf (r_view r1) op r1)))))
       [unat oldLastOp..<Suc (unat (r_lastOp r))] r"

definition RequestStateTransfer :: "'a vr_replica \<Rightarrow> 'a vr_replica" where
  "RequestStateTransfer r =
     (if r_lastRSTOpnum r \<noteq> 0 \<and> r_lastRSTView r = r_view r \<and> r_lastRSTOpnum r = r_lastCommitted r
      then r
      else emit (Send ToAll (RequestStateTransferMessage (r_view r) (r_lastCommitted r)))
             (r\<lparr>r_lastRSTView := r_view r, r_lastRSTOpnum := r_lastCommitted r\<rparr>))"

definition EnterView :: "vr_config \<Rightarrow> u64 \<Rightarrow> 'a vr_replica \<Rightarrow> 'a vr_replica" where
  "EnterView cf newview r0 =
     (let r = r0\<lparr>r_view := newview, r_status := STATUS_NORMAL, r_lastBatchEnd := r_lastOp r0\<rparr>;
          r1 = (if AmLeader cf r then r\<lparr>r_viewChangeTimeout := False, r_nullCommitTimeout := True\<rparr>
                else r\<lparr>r_viewChangeTimeout := True, r_nullCommitTimeout := False,
                       r_resendPrepareTimeout := False, r_closeBatchTimeout := False\<rparr>) in
      r1\<lparr>r_prepareOKQuorum := qs_Clear (r_prepareOKQuorum r1),
         r_startViewChangeQuorum := qs_Clear (r_startViewChangeQuorum r1),
         r_doViewChangeQuorum := qs_Clear (r_doViewChangeQuorum r1)\<rparr>)"

definition StartViewChange :: "vr_config \<Rightarrow> u64 \<Rightarrow> 'a vr_replica \<Rightarrow> 'a vr_replica" where
  "StartViewChange cf newview r =
     emit (Send ToAll (StartViewChangeMessage \<lparr>svc_view = newview, svc_replicaIdx = cf_myIdx cf,
         svc_lastCommitted = r_lastCommitted r\<rparr>))
       (r\<lparr>r_view := newview, r_status := STATUS_VIEW_CHANGE, r_viewChangeTimeout := True,
          r_nullCommitTimeout := False, r_resendPrepareTimeout := False, r_closeBatchTimeout := False\<rparr>)"

definition SendNullCommit :: "vr_config \<Rightarrow> 'a vr_replica \<Rightarrow> 'a vr_replica outcome" where
  "SendNullCommit cf r =
     assertE (AmLeader cf r)
       (Inr (emit (Send ToAll (CommitMessage (r_view r) (r_lastCommitted r))) r\<lparr>r_nullCommitTimeout := True\<rparr>))"

definition ResendPrepare :: "vr_config \<Rightarrow> 'a vr_replica \<Rightarrow> 'a vr_replica outcome" where
  "ResendPrepare cf r =
     assertE (AmLeader cf r)
       (Inr (if r_lastOp r = r_lastCommitted r then r
             else emit (Send ToAll (PrepareMessage (r_lastPrepare r))) r))"

definition CloseBatch :: "vr_config \<Rightarrow> 'a vr_replica \<Rightarrow> 'a vr_replica outcome" where
  "CloseBatch cf r =
     assertE (AmLeader cf r \<and> r_lastBatchEnd r < r_lastOp r)
       (bindE (foldE (\<lambda>i reqs. bindE (Log_Find (of_nat i) (r_log r)) (\<lambda>f. case f of
            None \<Rightarrow> Inl AssertFailed
          | Some e \<Rightarrow> assertE (vs_view (e_viewstamp e) = r_view r \<and> vs_opnum (e_viewstamp e) = of_nat i)
              (Inr (reqs @ [e_request e]))))
          [unat (r_lastBatchEnd r + 1)..<Suc (unat (r_lastOp r))] [])
        (\<lambda>reqs. let p = \<lparr>pm_view = r_view r, pm_opnum = r_lastOp r,
                         pm_batchstart = r_lastBatchEnd r + 1, pm_request = reqs\<rparr> in
           Inr (emit (Send ToAll (PrepareMessage p)) (r\<lparr>r_lastPrepare := p\<rparr>)
             \<lparr>r_lastBatchEnd := r_lastOp r, r_resendPrepareTimeout := True, r_closeBatchTimeout := False\<rparr>)))"

section \<open>Normal operation\<close>

text \<open>\<open>HandleRequest\<close> from the update of the client table on.\<close>

definition HandleRequest_new :: "vr_config \<Rightarrow> 'a app_replica \<Rightarrow> addr \<Rightarrow> vr_request \<Rightarrow> 'a vr_replica \<Rightarrow>
    'a vr_replica outcome" where
  "HandleRequest_new cf app remote req r =
     bindE (UpdateClientTable req r) (\<lambda>r1.
       let ((replicate, res), a) = LeaderUpcall app (r_lastCommitted r1) (rq_op req) (r_app r1);
           r2 = r1\<lparr>r_app := a\<rparr> in
       if \<not> replicate
       then let reply = \<lparr>rp_view = 0, rp_opnum = 0, rp_clientreqid = rq_clientreqid req, rp_reply = res\<rparr>;
                cte = ct_ref r2 (rq_clientid req) in
            Inr (emit (Send (ToAddress remote) (ReplyMessage reply))
              (ct_set (rq_clientid req) (cte\<lparr>ct_replied := True, ct_reply := reply\<rparr>) r2))
       else
         let r3 = r2\<lparr>r_lastOp := r_lastOp r2 + 1\<rparr> in
         bindE (log_append (Viewstamp (r_view r3) (r_lastOp r3)) (req\<lparr>rq_op := res\<rparr>) r3) (\<lambda>r4.
         bindE (if r_lastOp r4 - r_lastBatchEnd r4 + 1 > r_batchSize r4
                then CloseBatch cf r4
                else Inr (r4\<lparr>r_closeBatchTimeout := True\<rparr>)) (\<lambda>r5.
         Inr (r5\<lparr>r_nullCommitTimeout := True\<rparr>))))"

definition HandleRequest :: "vr_config \<Rightarrow> 'a app_replica \<Rightarrow> addr \<Rightarrow> vr_request \<Rightarrow> 'a vr_replica \<Rightarrow>
    'a vr_replica outcome" where
  "HandleRequest cf app remote req r0 =
     (if r_status r0 \<noteq> STATUS_NORMAL \<or> \<not> AmLeader cf r0 then Inr r0
      else
        let cid = rq_clientid req; rid = rq_clientreqid req;
            r = r0\<lparr>r_clientAddresses := um_put cid remote (um_erase cid (r_clientAddresses r0))\<rparr> in
        case map_of (r_clientTable r) cid of
          Some e \<Rightarrow>
            if rid < ct_lastReqId e then Inr r
            else if rid = ct_lastReqId e
            then Inr (if ct_replied e then emit (Send (ToAddress remote) (ReplyMessage (ct_reply e))) r else r)
            else HandleRequest_new cf app remote req r
        | None \<Rightarrow> HandleRequest_new cf app remote req r)"

definition HandleUnloggedRequest :: "'a app_replica \<Rightarrow> addr \<Rightarrow> vr_request \<Rightarrow> 'a vr_replica \<Rightarrow>
    'a vr_replica" where
  "HandleUnloggedRequest app remote req r =
     (if r_status r \<noteq> STATUS_NORMAL then r
      else let (res, a) = UnloggedUpcall app (rq_op req) (r_app r) in
           emit (Send (ToAddress remote) (UnloggedReplyMessage res (rq_clientreqid req))) (r\<lparr>r_app := a\<rparr>))"

definition add_pending :: "addr \<Rightarrow> prepare_message \<Rightarrow> 'a vr_replica \<Rightarrow> 'a vr_replica" where
  "add_pending remote msg r = r\<lparr>r_pendingPrepares := r_pendingPrepares r @ [(remote, msg)]\<rparr>"

text \<open>The loop of \<open>HandlePrepare\<close> over the requests of the batch, with its counter \<open>op\<close>.\<close>

fun prepare_requests :: "u64 \<Rightarrow> vr_request list \<Rightarrow> u64 \<Rightarrow> 'a vr_replica \<Rightarrow> (u64 \<times> 'a vr_replica) outcome" where
  "prepare_requests v [] op r = Inr (op, r)"
| "prepare_requests v (req # reqs) op r =
     (let op1 = op + 1 in
      if op1 \<le> r_lastOp r then prepare_requests v reqs op1 r
      else bindE (log_append (Viewstamp v op1) req (r\<lparr>r_lastOp := r_lastOp r + 1\<rparr>)) (\<lambda>r1.
           bindE (UpdateClientTable req r1) (\<lambda>r2. prepare_requests v reqs op1 r2)))"

definition HandlePrepare :: "vr_config \<Rightarrow> addr \<Rightarrow> prepare_message \<Rightarrow> 'a vr_replica \<Rightarrow>
    'a vr_replica outcome" where
  "HandlePrepare cf remote msg r =
     (if r_status r \<noteq> STATUS_NORMAL then Inr r
      else if pm_view msg < r_view r then Inr r
      else if pm_view msg > r_view r then Inr (add_pending remote msg (RequestStateTransfer r))
      else if AmLeader cf r then Inl Panicked
      else assertE (pm_batchstart msg \<le> pm_opnum msg \<and>
                    pm_opnum msg - pm_batchstart msg + 1 = of_nat (length (pm_request msg)))
        (let r1 = r\<lparr>r_viewChangeTimeout := True\<rparr> in
         if pm_opnum msg \<le> r_lastOp r1 then Inr (prepare_ok cf (pm_view msg) (pm_opnum msg) r1)
         else if pm_batchstart msg > r_lastOp r1 + 1
         then Inr (add_pending remote msg (RequestStateTransfer r1))
         else bindE (prepare_requests (pm_view msg) (pm_request msg) (pm_batchstart msg - 1) r1) (\<lambda>(op, r2).
              assertE (op = pm_opnum msg) (Inr (prepare_ok cf (pm_view msg) (pm_opnum msg) r2)))))"

definition HandlePrepareOK :: "vr_config \<Rightarrow> 'a app_replica \<Rightarrow> prepare_ok_message \<Rightarrow> 'a vr_replica \<Rightarrow>
    'a vr_replica outcome" where
  "HandlePrepareOK cf app msg r =
     (if r_status r \<noteq> STATUS_NORMAL then Inr r
      else if po_view msg < r_view r then Inr r
      else if po_view msg > r_view r then Inr (RequestStateTransfer r)
      else if \<not> AmLeader cf r then Inr r
      else
        let (msgs, q) = qs_AddAndCheckForQuorum (Viewstamp (po_view msg) (po_opnum msg))
              (po_replicaIdx msg) msg (r_prepareOKQuorum r);
            r1 = r\<lparr>r_prepareOKQuorum := q\<rparr> in
        case msgs of
          None \<Rightarrow> Inr r1
        | Some ms \<Rightarrow> bindE (CommitUpTo app (po_opnum msg) r1) (\<lambda>r2.
            Inr (if int (length ms) \<ge> QuorumSize cf then r2
                 else emit (Send ToAll (CommitMessage (r_view r2) (r_lastCommitted r2))) r2
                   \<lparr>r_nullCommitTimeout := True\<rparr>)))"

definition HandleCommit :: "vr_config \<Rightarrow> 'a app_replica \<Rightarrow> u64 \<Rightarrow> u64 \<Rightarrow> 'a vr_replica \<Rightarrow>
    'a vr_replica outcome" where
  "HandleCommit cf app v op r =
     (if r_status r \<noteq> STATUS_NORMAL then Inr r
      else if v < r_view r then Inr r
      else if v > r_view r then Inr (RequestStateTransfer r)
      else if AmLeader cf r then Inl Panicked
      else
        let r1 = r\<lparr>r_viewChangeTimeout := True\<rparr> in
        if op \<le> r_lastCommitted r1 then Inr r1
        else if op > r_lastOp r1 then Inr (RequestStateTransfer r1)
        else CommitUpTo app op r1)"

section \<open>State transfer\<close>

definition HandleRequestStateTransfer :: "addr \<Rightarrow> u64 \<Rightarrow> u64 \<Rightarrow> 'a vr_replica \<Rightarrow> 'a vr_replica outcome" where
  "HandleRequestStateTransfer remote v op r =
     (if r_status r \<noteq> STATUS_NORMAL then Inr r
      else if v > r_view r then Inr (RequestStateTransfer r)
      else bindE (Log_Dump (op + 1) (r_log r)) (\<lambda>es.
        Inr (emit (Send (ToAddress remote) (StateTransferMessage
          \<lparr>st_view = r_view r, st_opnum = r_lastCommitted r, st_entries = es\<rparr>)) r)))"

text \<open>The loop body over the transferred entries; the second component is \<open>oldLastOp\<close>.\<close>

definition transfer_entry :: "log_entry_message \<Rightarrow> 'a vr_replica \<times> u64 \<Rightarrow> ('a vr_replica \<times> u64) outcome" where
  "transfer_entry m = (\<lambda>(r, oldLastOp).
     let vs = Viewstamp (lm_view m) (lm_opnum m) in
     if lm_opnum m \<le> r_lastCommitted r then Inr (r, oldLastOp)
     else if lm_opnum m \<le> r_lastOp r
     then bindE (Log_Find (lm_opnum m) (r_log r)) (\<lambda>f. case f of
            None \<Rightarrow> Inl UndefinedBehaviour
          | Some e \<Rightarrow>
              assertE (vs_opnum (e_viewstamp e) = lm_opnum m \<and> vs_view (e_viewstamp e) \<le> lm_view m)
                (if vs_view (e_viewstamp e) = lm_view m
                 then assertE (e_state e = LOG_STATE_PREPARED) (Inr (r, oldLastOp))
                 else assertE (e_state e \<noteq> LOG_STATE_COMMITTED)
                   (bindE (Log_RemoveAfter (lm_opnum m) (r_log r)) (\<lambda>lg.
                    bindE (log_append vs (lm_request m) (r\<lparr>r_log := lg, r_lastOp := lm_opnum m\<rparr>)) (\<lambda>r1.
                      Inr (r1, lm_opnum m))))))
     else assertE (lm_opnum m = r_lastOp r + 1)
       (bindE (log_append vs (lm_request m) (r\<lparr>r_lastOp := r_lastOp r + 1\<rparr>)) (\<lambda>r1. Inr (r1, oldLastOp))))"

text \<open>
  At the end the code copies \<open>pendingPrepares\<close> into \<open>pending\<close>, clears the list and then
  iterates over the cleared list: none of the postponed messages is handled.
\<close>

definition HandleStateTransfer :: "vr_config \<Rightarrow> 'a app_replica \<Rightarrow> state_transfer_message \<Rightarrow>
    'a vr_replica \<Rightarrow> 'a vr_replica outcome" where
  "HandleStateTransfer cf app msg r =
     (if st_view msg < r_view r then Inr r
      else bindE (foldE transfer_entry (st_entries msg) (r, r_lastOp r)) (\<lambda>(r1, oldLastOp).
        let r2 = (if st_view msg > r_view r1 then EnterView cf (st_view msg) r1 else r1) in
        assertE (st_opnum msg \<le> r_lastOp r2)
          (bindE (CommitUpTo app (st_opnum msg) r2) (\<lambda>r3.
           bindE (SendPrepareOKs cf oldLastOp r3) (\<lambda>r4.
           let r5 = r4\<lparr>r_pendingPrepares := []\<rparr> in
           foldE (\<lambda>(remote, p). HandlePrepare cf remote p) (r_pendingPrepares r5) r5)))))"

section \<open>View change\<close>

text \<open>\<open>std::min_element\<close> over an empty range returns the end, which the code dereferences.\<close>

definition min_committed :: "('m \<Rightarrow> u64) \<Rightarrow> (int \<times> 'm) list \<Rightarrow> u64 outcome" where
  "min_committed f ms = (case ms of [] \<Rightarrow> Inl UndefinedBehaviour
     | m # ms' \<Rightarrow> Inr (fold (\<lambda>x acc. min acc (f (snd x))) ms' (f (snd m))))"

definition HandleStartViewChange :: "vr_config \<Rightarrow> start_view_change_message \<Rightarrow> 'a vr_replica \<Rightarrow>
    'a vr_replica outcome" where
  "HandleStartViewChange cf msg r0 =
     (if svc_view msg < r_view r0 then Inr r0
      else if svc_view msg = r_view r0 \<and> r_status r0 \<noteq> STATUS_VIEW_CHANGE then Inr r0
      else
        let r = (if r_status r0 \<noteq> STATUS_VIEW_CHANGE \<or> svc_view msg > r_view r0
                 then StartViewChange cf (svc_view msg) r0 else r0) in
        assertE (svc_view msg = r_view r)
          (let (msgs, q) = qs_AddAndCheckForQuorum (svc_view msg) (svc_replicaIdx msg) msg
                 (r_startViewChangeQuorum r);
               r1 = r\<lparr>r_startViewChangeQuorum := q\<rparr>;
               leader = GetLeaderIndex cf (r_view r1) in
           case msgs of
             None \<Rightarrow> Inr r1
           | Some ms \<Rightarrow>
               if leader = cf_myIdx cf then Inr r1
               else bindE (min_committed svc_lastCommitted ms) (\<lambda>mc.
                    bindE (Log_Dump (min mc (r_lastCommitted r1)) (r_log r1)) (\<lambda>es.
                    Inr (emit (Send (ToReplica leader) (DoViewChangeMessage
                      \<lparr>dvc_view = r_view r1, dvc_lastNormalView = vs_view (LastViewstamp (r_log r1)),
                       dvc_lastOp = r_lastOp r1, dvc_lastCommitted = r_lastCommitted r1,
                       dvc_entries = es, dvc_replicaIdx = cf_myIdx cf\<rparr>)) r1)))))"

text \<open>The search for the message with the latest log: its view stamp, and the message if any.\<close>

definition latest_dvc :: "(int \<times> do_view_change_message) list \<Rightarrow> viewstamp \<Rightarrow>
    viewstamp \<times> do_view_change_message option" where
  "latest_dvc ms vs = fold (\<lambda>(_, x) (best, m).
     if dvc_lastNormalView x > vs_view best \<or>
        dvc_lastNormalView x = vs_view best \<and> dvc_lastOp x > vs_opnum best
     then (Viewstamp (dvc_lastNormalView x) (dvc_lastOp x), Some x) else (best, m)) ms (vs, None)"

text \<open>Installing the entries of a message; \<open>same\<close> is asserted when there are none.\<close>

definition install_entries :: "bool \<Rightarrow> u64 \<Rightarrow> log_entry_message list \<Rightarrow> 'a vr_replica \<Rightarrow>
    'a vr_replica outcome" where
  "install_entries same lastOp es r = (case es of
     [] \<Rightarrow> assertE same (Inr r)
   | e # _ \<Rightarrow>
       if lm_opnum e > r_lastCommitted r + 1 then Inl Panicked
       else bindE (Log_RemoveAfter (lastOp + 1) (r_log r)) (\<lambda>lg.
            bindE (Log_Install no_hash es lg) (\<lambda>lg'. Inr (r\<lparr>r_log := lg'\<rparr>))))"

text \<open>The end of \<open>HandleDoViewChange\<close>: the replica leads the new view and announces its log.\<close>

definition lead_new_view :: "vr_config \<Rightarrow> 'a app_replica \<Rightarrow> u64 \<Rightarrow> u64 \<Rightarrow> do_view_change_message option \<Rightarrow>
    (int \<times> do_view_change_message) list \<Rightarrow> 'a vr_replica \<Rightarrow> 'a vr_replica outcome" where
  "lead_new_view cf app newview latestOp latest ms r =
     (let (svcs, q) = qs_GetMessages (r_view r) (r_startViewChangeQuorum r);
          r1 = r\<lparr>r_startViewChangeQuorum := q\<rparr> in
      bindE (min_committed svc_lastCommitted svcs) (\<lambda>mcSVC.
      bindE (min_committed dvc_lastCommitted ms) (\<lambda>mcDVC.
      let minCommitted = min (min mcSVC mcDVC) (r_lastCommitted r1);
          r2 = EnterView cf newview r1 in
      assertE (AmLeader cf r2)
        (let r3 = r2\<lparr>r_lastOp := latestOp\<rparr> in
         bindE (case latest of None \<Rightarrow> Inr r3 | Some m \<Rightarrow> CommitUpTo app (dvc_lastCommitted m) r3) (\<lambda>r4.
         bindE (Log_Dump minCommitted (r_log r4)) (\<lambda>es.
         Inr (emit (Send ToAll (StartViewMessage
           \<lparr>sv_view = r_view r4, sv_lastOp = r_lastOp r4, sv_lastCommitted = r_lastCommitted r4,
            sv_entries = es\<rparr>)) r4)))))))"

text \<open>
  The loop variable of the search is a copy (\<open>for (auto kv : *msgs)\<close>), and \<open>latestMsg\<close>
  points into it: after the loop it points to a destroyed object, and reading it is
  undefined behaviour. The argument \<open>dead\<close> says what such a read yields, given the
  message that was there: \<open>None\<close> when the program faults.
\<close>

definition HandleDoViewChange :: "(do_view_change_message \<Rightarrow> do_view_change_message option) \<Rightarrow>
    vr_config \<Rightarrow> 'a app_replica \<Rightarrow> do_view_change_message \<Rightarrow> 'a vr_replica \<Rightarrow> 'a vr_replica outcome" where
  "HandleDoViewChange dead cf app msg r0 =
     (if dvc_view msg < r_view r0 then Inr r0
      else if dvc_view msg = r_view r0 \<and> r_status r0 \<noteq> STATUS_VIEW_CHANGE then Inr r0
      else
        let r = (if r_status r0 \<noteq> STATUS_VIEW_CHANGE \<or> dvc_view msg > r_view r0
                 then StartViewChange cf (dvc_view msg) r0 else r0) in
        assertE (GetLeaderIndex cf (dvc_view msg) = cf_myIdx cf)
          (let (msgs, q) = qs_AddAndCheckForQuorum (dvc_view msg) (dvc_replicaIdx msg) msg
                 (r_doViewChangeQuorum r);
               r1 = r\<lparr>r_doViewChangeQuorum := q\<rparr> in
           case msgs of
             None \<Rightarrow> Inr r1
           | Some ms \<Rightarrow>
               let (best, latest) = latest_dvc ms (LastViewstamp (r_log r1)) in
               bindE (case latest of
                   None \<Rightarrow> Inr (None, r1)
                 | Some m0 \<Rightarrow>
                     (case dead m0 of
                        None \<Rightarrow> Inl UndefinedBehaviour
                      | Some m \<Rightarrow> bindE (install_entries
                          (r_lastCommitted r1 = dvc_lastCommitted msg \<and> dvc_lastOp msg = dvc_lastCommitted msg)
                          (dvc_lastOp m) (dvc_entries m) r1) (\<lambda>r2. Inr (Some m, r2))))
                 (\<lambda>(latest', r2). lead_new_view cf app (dvc_view msg) (vs_opnum best) latest' ms r2)))"

definition HandleStartView :: "vr_config \<Rightarrow> 'a app_replica \<Rightarrow> start_view_message \<Rightarrow> 'a vr_replica \<Rightarrow>
    'a vr_replica outcome" where
  "HandleStartView cf app msg r =
     (if sv_view msg < r_view r then Inr r
      else if sv_view msg = r_view r \<and> r_status r \<noteq> STATUS_VIEW_CHANGE then Inr r
      else assertE (GetLeaderIndex cf (sv_view msg) \<noteq> cf_myIdx cf)
        (bindE (install_entries
             (sv_lastCommitted msg = r_lastCommitted r \<and> sv_lastOp msg = sv_lastCommitted msg)
             (sv_lastOp msg) (sv_entries msg) r) (\<lambda>r1.
         let r2 = EnterView cf (sv_view msg) r1;
             r3 = r2\<lparr>r_lastOp := sv_lastOp msg\<rparr> in
         assertE (\<not> AmLeader cf r3)
           (bindE (CommitUpTo app (sv_lastCommitted msg) r3) (SendPrepareOKs cf (r_lastOp r2))))))"

section \<open>Dispatch and timers\<close>

definition ReceiveMessage :: "(do_view_change_message \<Rightarrow> do_view_change_message option) \<Rightarrow>
    vr_config \<Rightarrow> 'a app_replica \<Rightarrow> addr \<Rightarrow> vr_message \<Rightarrow> 'a vr_replica \<Rightarrow> 'a vr_replica outcome" where
  "ReceiveMessage dead cf app remote m r = (case m of
     RequestMessage req \<Rightarrow> HandleRequest cf app remote req r
   | UnloggedRequestMessage req \<Rightarrow> Inr (HandleUnloggedRequest app remote req r)
   | PrepareMessage p \<Rightarrow> HandlePrepare cf remote p r
   | PrepareOKMessage p \<Rightarrow> HandlePrepareOK cf app p r
   | CommitMessage v op \<Rightarrow> HandleCommit cf app v op r
   | RequestStateTransferMessage v op \<Rightarrow> HandleRequestStateTransfer remote v op r
   | StateTransferMessage s \<Rightarrow> HandleStateTransfer cf app s r
   | StartViewChangeMessage s \<Rightarrow> HandleStartViewChange cf s r
   | DoViewChangeMessage d \<Rightarrow> HandleDoViewChange dead cf app d r
   | StartViewMessage s \<Rightarrow> HandleStartView cf app s r
   | UnloggedReplyMessage _ _ \<Rightarrow> Inl Panicked
   | ReplyMessage _ \<Rightarrow> Inl Panicked)"

datatype vr_timer =
    ViewChangeTimer | NullCommitTimer | StateTransferTimer | ResendPrepareTimer | CloseBatchTimer

text \<open>The callbacks given to the timers in the constructor.\<close>

definition OnTimer :: "vr_config \<Rightarrow> vr_timer \<Rightarrow> 'a vr_replica \<Rightarrow> 'a vr_replica outcome" where
  "OnTimer cf t r = (case t of
     ViewChangeTimer \<Rightarrow> Inr (StartViewChange cf (r_view r + 1) r)
   | NullCommitTimer \<Rightarrow> SendNullCommit cf r
   | StateTransferTimer \<Rightarrow> Inr (r\<lparr>r_lastRSTView := 0, r_lastRSTOpnum := 0\<rparr>)
   | ResendPrepareTimer \<Rightarrow> ResendPrepare cf r
   | CloseBatchTimer \<Rightarrow> CloseBatch cf r)"

end
