(* ===== verification/VrLogInv.thy ===== *)
theory VrLogInv
  imports VrLog
begin

text \<open>
  A well-formed log holds consecutive operations from its start on. On such logs the
  operations of \<open>VrLog\<close> are the obvious list operations; what \<open>Dump\<close> sends, \<open>Install\<close>
  rebuilds at the receiver. A quorum needs distinct voters.
\<close>

section \<open>Well-formed logs\<close>

definition log_ok :: "vr_log \<Rightarrow> bool" where
  "log_ok lg \<longleftrightarrow> 0 < unat (lg_start lg) \<and> unat (lg_start lg) + length (lg_entries lg) \<le> 2 ^ 64 \<and>
     \<not> lg_useHash lg \<and>
     (\<forall>i < length (lg_entries lg).
        unat (vs_opnum (e_viewstamp (lg_entries lg ! i))) = unat (lg_start lg) + i)"

lemma unat_64_less: "unat (x :: u64) < 2 ^ 64"
  using unsigned_less [of x, where ?'a = nat] by simp

lemma unat_pred_64: "0 < unat (x :: u64) \<Longrightarrow> unat (x - 1) = unat x - 1"
  by (metis One_nat_def Suc_leI unat_1 unat_sub word_le_nat_alt)

lemma unat_succ_64: "unat (x :: u64) + 1 < 2 ^ 64 \<Longrightarrow> unat (x + 1) = unat x + 1"
  by (simp add: unat_word_ariths)

lemma word_eq_unat_64: "(x :: u64) = y \<longleftrightarrow> unat x = unat y"
  by (metis word_unat_eq_iff)

lemma LastOpnum_ok: "log_ok lg \<Longrightarrow> unat (LastOpnum lg) = unat (lg_start lg) + length (lg_entries lg) - 1"
  by (cases "length (lg_entries lg)") (auto simp: LastOpnum_def log_ok_def unat_pred_64 last_conv_nth)

lemma log_ok_take: "log_ok lg \<Longrightarrow> log_ok (lg\<lparr>lg_entries := take k (lg_entries lg)\<rparr>)"
  by (cases "k \<le> length (lg_entries lg)") (auto simp: log_ok_def)

lemma LastOpnum_succ: "log_ok lg \<Longrightarrow> unat (lg_start lg) + length (lg_entries lg) < 2 ^ 64 \<Longrightarrow>
  unat (LastOpnum lg + 1) = unat (lg_start lg) + length (lg_entries lg)"
  using LastOpnum_ok [of lg] by (subst unat_succ_64) (auto simp: log_ok_def)

lemma log_ok_empty [simp]:
  "0 < unat s \<Longrightarrow>
   log_ok \<lparr>lg_entries = [], lg_initialHash = h, lg_start = s, lg_useHash = False\<rparr>"
  using unat_64_less [of s] by (simp add: log_ok_def)

lemma Log_Find_ok:
  assumes "log_ok lg"
  shows "Log_Find op lg = Inr (if unat (lg_start lg) \<le> unat op \<and> unat op < unat (lg_start lg) + length (lg_entries lg)
    then Some (lg_entries lg ! (unat op - unat (lg_start lg))) else None)"
proof -
  consider (empty) "lg_entries lg = []" | (below) "lg_entries lg \<noteq> []" "op < lg_start lg"
    | (at) "lg_entries lg \<noteq> []" "\<not> op < lg_start lg" by blast
  then show ?thesis
  proof cases
    case below
    then show ?thesis by (simp add: Log_Find_def word_less_nat_alt)
  next
    case at
    then have le: "lg_start lg \<le> op" by simp
    then have d: "unat (op - lg_start lg) = unat op - unat (lg_start lg)" by (rule unat_sub)
    have le': "unat (lg_start lg) \<le> unat op" using le by (simp add: word_le_nat_alt)
    show ?thesis
    proof (cases "unat op < unat (lg_start lg) + length (lg_entries lg)")
      case True
      then have i: "unat op - unat (lg_start lg) < length (lg_entries lg)" using le' by simp
      then have "vs_opnum (e_viewstamp (lg_entries lg ! (unat op - unat (lg_start lg)))) = op"
        using assms le' by (simp add: log_ok_def word_eq_unat_64)
      then show ?thesis using at True i le' by (simp add: Log_Find_def d Let_def)
    next
      case False
      have "length (lg_entries lg) - 1 < unat op - unat (lg_start lg)"
        using False at(1) le' by (cases "lg_entries lg") auto
      then show ?thesis using at le' False by (simp add: Log_Find_def d)
    qed
  qed (simp add: Log_Find_def)
qed

definition new_entry :: "viewstamp \<Rightarrow> vr_request \<Rightarrow> log_entry" where
  "new_entry vs req = \<lparr>e_viewstamp = vs, e_state = LOG_STATE_PREPARED, e_request = req, e_hash = []\<rparr>"

lemma new_entry_simps [simp]:
  "e_viewstamp (new_entry vs req) = vs" "e_request (new_entry vs req) = req"
  "e_state (new_entry vs req) = LOG_STATE_PREPARED"
  by (simp_all add: new_entry_def)

lemma Log_Append_ok:
  assumes "log_ok lg" and "unat (vs_opnum vs) = unat (lg_start lg) + length (lg_entries lg)"
  shows "Log_Append hash vs req LOG_STATE_PREPARED lg = Inr (lg\<lparr>lg_entries := lg_entries lg @ [new_entry vs req]\<rparr>)"
    and "log_ok (lg\<lparr>lg_entries := lg_entries lg @ [new_entry vs req]\<rparr>)"
proof -
  let ?lg = "lg\<lparr>lg_entries := lg_entries lg @ [new_entry vs req]\<rparr>"
  show ok: "log_ok ?lg"
    using assms unat_64_less [of "vs_opnum vs"] by (auto simp: log_ok_def nth_append less_Suc_eq)
  have op: "vs_opnum vs = (if lg_entries lg = [] then lg_start lg else LastOpnum lg + 1)"
    using assms(1,2) LastOpnum_succ [OF assms(1)] unat_64_less [of "vs_opnum vs"]
    by (simp add: word_eq_unat_64)
  have find: "Log_Find (vs_opnum vs) ?lg = Inr (Some (new_entry vs req))"
    using Log_Find_ok [OF ok, of "vs_opnum vs"] assms(2) by simp
  show "Log_Append hash vs req LOG_STATE_PREPARED lg = Inr ?lg"
    unfolding Log_Append_def op [symmetric] using assms(1) find
    by (simp add: Let_def new_entry_def log_ok_def)
qed

lemma Log_Append_asserts:
  "vs_opnum vs \<noteq> (if lg_entries lg = [] then lg_start lg else LastOpnum lg + 1) \<Longrightarrow>
   Log_Append hash vs req st lg = Inl AssertFailed"
  by (simp only: Log_Append_def assertE_def if_False)

lemma Log_Append_Inr:
  assumes "Log_Append hash vs req LOG_STATE_PREPARED lg = Inr lg'" and "log_ok lg" and "vs_opnum vs \<noteq> 0"
  shows "log_ok lg'" and "lg_start lg' = lg_start lg"
    and "unat (vs_opnum vs) = unat (lg_start lg) + length (lg_entries lg)"
    and "lg_entries lg' = lg_entries lg @ [new_entry vs req]"
proof -
  from assms(1) have "vs_opnum vs = (if lg_entries lg = [] then lg_start lg else LastOpnum lg + 1)"
    by (simp add: Log_Append_def)
  note vs = this
  show op: "unat (vs_opnum vs) = unat (lg_start lg) + length (lg_entries lg)"
  proof (cases "lg_entries lg = [] \<or> unat (lg_start lg) + length (lg_entries lg) < 2 ^ 64")
    case True
    then show ?thesis using LastOpnum_succ [OF assms(2)] vs by (auto split: if_splits)
  next
    case False
    then have "unat (LastOpnum lg) = 2 ^ 64 - 1"
      using LastOpnum_ok [OF assms(2)] assms(2) by (simp add: log_ok_def, linarith)
    then have "unat (LastOpnum lg + 1) = 0" by (simp add: unat_word_ariths)
    then show ?thesis using vs False assms(3) by (simp add: word_eq_unat_64)
  qed
  from Log_Append_ok(1) [OF assms(2) op, of hash req] Log_Append_ok(2) [OF assms(2) op, of req]
  show "log_ok lg'" "lg_start lg' = lg_start lg"
    "lg_entries lg' = lg_entries lg @ [new_entry vs req]"
    using assms(1) by auto
qed

lemma Log_RemoveAfter_ok:
  assumes "log_ok lg" and "unat (lg_start lg) \<le> unat op"
  defines "lg' \<equiv> lg\<lparr>lg_entries := take (unat op - unat (lg_start lg)) (lg_entries lg)\<rparr>"
  shows "Log_RemoveAfter op lg = Inr lg'" and "log_ok lg'"
proof -
  show ok: "log_ok lg'" unfolding lg'_def by (rule log_ok_take [OF assms(1)])
  have d: "unat (op - lg_start lg) = unat op - unat (lg_start lg)"
    using assms(2) by (simp add: unat_sub word_le_nat_alt)
  show "Log_RemoveAfter op lg = Inr lg'"
  proof (cases "LastOpnum lg < op")
    case True
    then have "length (lg_entries lg) \<le> unat op - unat (lg_start lg)"
      using LastOpnum_ok [OF assms(1)] assms(1) by (simp add: word_less_nat_alt log_ok_def)
    with True show ?thesis by (simp add: Log_RemoveAfter_def lg'_def)
  next
    case False
    then have "unat op \<le> unat (LastOpnum lg)" by (simp add: word_less_nat_alt)
    then have i: "unat op - unat (lg_start lg) < length (lg_entries lg)"
      using LastOpnum_ok [OF assms(1)] assms(1,2) unfolding log_ok_def by linarith
    have "unat (LastOpnum lg') = unat op - 1"
      using LastOpnum_ok [OF ok] i assms(2) by (simp add: lg'_def min_def)
    moreover have "unat (op - 1) = unat op - 1"
      using assms(1,2) by (intro unat_pred_64) (simp add: log_ok_def)
    ultimately have "LastOpnum lg' = op - 1" by (simp add: word_eq_unat_64)
    with False i d show ?thesis by (simp add: Log_RemoveAfter_def lg'_def Let_def)
  qed
qed

section \<open>Installing entries\<close>

text \<open>Consecutive operations, as \<open>Dump\<close> writes them.\<close>

definition entries_from :: "nat \<Rightarrow> log_entry_message list \<Rightarrow> bool" where
  "entries_from n ms \<longleftrightarrow> (\<forall>i < length ms. unat (lm_opnum (ms ! i)) = n + i)"

lemma entries_from_Cons [simp]:
  "entries_from n (m # ms) \<longleftrightarrow> unat (lm_opnum m) = n \<and> entries_from (Suc n) ms"
  by (auto simp: entries_from_def less_Suc_eq_0_disj)

definition msg_entry :: "log_entry_message \<Rightarrow> log_entry" where
  "msg_entry m = new_entry (Viewstamp (lm_view m) (lm_opnum m)) (lm_request m)"

lemma append_all:
  assumes "log_ok lg" and "entries_from (unat (lg_start lg) + length (lg_entries lg)) ms"
    and "unat (lg_start lg) + length (lg_entries lg) + length ms \<le> 2 ^ 64"
  shows "foldE (\<lambda>m. Log_Append hash (Viewstamp (lm_view m) (lm_opnum m)) (lm_request m) LOG_STATE_PREPARED) ms lg
    = Inr (lg\<lparr>lg_entries := lg_entries lg @ map msg_entry ms\<rparr>) \<and>
    log_ok (lg\<lparr>lg_entries := lg_entries lg @ map msg_entry ms\<rparr>)"
  using assms
proof (induction ms arbitrary: lg)
  case Nil
  then show ?case by simp
next
  case (Cons m ms)
  let ?lg = "lg\<lparr>lg_entries := lg_entries lg @ [msg_entry m]\<rparr>"
  from Cons.prems(2,3) have op: "unat (vs_opnum (Viewstamp (lm_view m) (lm_opnum m))) =
    unat (lg_start lg) + length (lg_entries lg)"
    by simp
  note A = Log_Append_ok(1) [OF Cons.prems(1) op, of hash "lm_request m"]
    Log_Append_ok(2) [OF Cons.prems(1) op, of "lm_request m"]
  from Cons.IH [of ?lg] A Cons.prems(2,3) show ?case by (simp add: msg_entry_def)
qed

text \<open>
  What is installed: the entries before the first difference in views are kept, the
  rest of the log is replaced; if there is no difference within the log, the new
  entries beyond its end are added.
\<close>

definition first_diff :: "log_entry list \<Rightarrow> log_entry_message list \<Rightarrow> nat" where
  "first_diff es ms = length (takeWhile (\<lambda>(e, m). vs_view (e_viewstamp e) = lm_view m) (zip es ms))"

lemma first_diff_simps [simp]:
  "first_diff [] ms = 0" "first_diff es [] = 0"
  "first_diff (e # es) (m # ms) = (if vs_view (e_viewstamp e) = lm_view m then Suc (first_diff es ms) else 0)"
  by (simp_all add: first_diff_def)

lemma Install_skip_ok:
  assumes "log_ok lg" and "unat (lg_start lg) \<le> n" and "entries_from n ms"
    and "n + length ms \<le> 2 ^ 64"
  defines "k \<equiv> n - unat (lg_start lg)"
  defines "d \<equiv> first_diff (drop k (lg_entries lg)) ms"
  shows "Install_skip ms lg = Inr (drop d ms,
    if d < length ms then lg\<lparr>lg_entries := take (k + d) (lg_entries lg)\<rparr> else lg)"
  using assms(2-4) unfolding d_def k_def
proof (induction ms arbitrary: n)
  case Nil
  then show ?case by simp
next
  case (Cons m ms)
  let ?k = "n - unat (lg_start lg)"
  have m: "unat (lm_opnum m) = n" and ms: "entries_from (Suc n) ms" using Cons.prems(2) by simp_all
  show ?case
  proof (cases "n < unat (lg_start lg) + length (lg_entries lg)")
    case False
    then have "Log_Find (lm_opnum m) lg = Inr None" by (simp add: Log_Find_ok [OF assms(1)] m)
    with False show ?thesis by simp
  next
    case True
    then have k: "?k < length (lg_entries lg)" using Cons.prems(1) by linarith
    then have es: "drop ?k (lg_entries lg) = lg_entries lg ! ?k # drop (Suc ?k) (lg_entries lg)"
      by (rule Cons_nth_drop_Suc [symmetric])
    have f: "Log_Find (lm_opnum m) lg = Inr (Some (lg_entries lg ! ?k))"
      using True Cons.prems(1) by (simp add: Log_Find_ok [OF assms(1)] m)
    show ?thesis
    proof (cases "vs_view (e_viewstamp (lg_entries lg ! ?k)) = lm_view m")
      case True
      have "Install_skip (m # ms) lg = Install_skip ms lg" using f True by simp
      also have "\<dots> = Inr (drop (first_diff (drop (Suc n - unat (lg_start lg)) (lg_entries lg)) ms) ms,
        if first_diff (drop (Suc n - unat (lg_start lg)) (lg_entries lg)) ms < length ms
        then lg\<lparr>lg_entries := take (Suc n - unat (lg_start lg) +
          first_diff (drop (Suc n - unat (lg_start lg)) (lg_entries lg)) ms) (lg_entries lg)\<rparr> else lg)"
        using Cons.prems(1,3) by (intro Cons.IH ms) simp_all
      also have "Suc n - unat (lg_start lg) = Suc ?k" using Cons.prems(1) by linarith
      finally show ?thesis using True es by simp
    next
      case False
      have "Log_RemoveAfter (lm_opnum m) lg = Inr (lg\<lparr>lg_entries := take ?k (lg_entries lg)\<rparr>)"
        using Log_RemoveAfter_ok(1) [OF assms(1), of "lm_opnum m"] Cons.prems(1) m by simp
      then show ?thesis using f False es by auto
    qed
  qed
qed

lemma first_diff_le: "first_diff es ms \<le> length es" "first_diff es ms \<le> length ms"
  by (induction es ms rule: list_induct2') auto

lemma entries_from_drop: "entries_from n ms \<Longrightarrow> entries_from (n + d) (drop d ms)"
  by (simp add: entries_from_def)

lemma Log_Install_ok:
  assumes "log_ok lg" and "unat (lg_start lg) \<le> n" and "n \<le> unat (lg_start lg) + length (lg_entries lg)"
    and "entries_from n ms" and "n + length ms \<le> 2 ^ 64"
  defines "k \<equiv> n - unat (lg_start lg)"
  defines "d \<equiv> first_diff (drop k (lg_entries lg)) ms"
  defines "lg' \<equiv> (if d < length ms
    then lg\<lparr>lg_entries := take (k + d) (lg_entries lg) @ map msg_entry (drop d ms)\<rparr> else lg)"
  shows "Log_Install hash ms lg = Inr lg'" and "log_ok lg'"
proof -
  have skip: "Install_skip ms lg = Inr (drop d ms,
    if d < length ms then lg\<lparr>lg_entries := take (k + d) (lg_entries lg)\<rparr> else lg)"
    using Install_skip_ok [OF assms(1,2,4,5)] by (simp add: k_def d_def)
  have "Log_Install hash ms lg = Inr lg' \<and> log_ok lg'"
  proof (cases "d < length ms")
    case False
    then show ?thesis using skip assms(1) by (simp add: Log_Install_def lg'_def)
  next
    case True
    let ?lg = "lg\<lparr>lg_entries := take (k + d) (lg_entries lg)\<rparr>"
    have len: "k + d \<le> length (lg_entries lg)"
      using first_diff_le(1) [of "drop k (lg_entries lg)" ms] assms(2,3) by (simp add: d_def k_def)
    have "log_ok ?lg" by (rule log_ok_take [OF assms(1)])
    moreover have n: "unat (lg_start ?lg) + length (lg_entries ?lg) = n + d"
      using len assms(2) by (simp add: k_def)
    moreover have "entries_from (unat (lg_start ?lg) + length (lg_entries ?lg)) (drop d ms)"
      unfolding n by (rule entries_from_drop [OF assms(4)])
    moreover have "unat (lg_start ?lg) + length (lg_entries ?lg) + length (drop d ms) \<le> 2 ^ 64"
      unfolding n using assms(5) True by simp
    ultimately show ?thesis using append_all [of ?lg "drop d ms" hash] skip True
      by (simp add: Log_Install_def lg'_def)
  qed
  then show "Log_Install hash ms lg = Inr lg'" "log_ok lg'" by simp_all
qed

section \<open>Dumping\<close>

lemma Log_Dump_ok:
  assumes "log_ok lg" and "k = unat (max from_op (lg_start lg)) - unat (lg_start lg)"
  shows "Log_Dump from_op lg = Inr (map entry_message (drop k (lg_entries lg)))"
proof -
  let ?a = "unat (max from_op (lg_start lg))" and ?s = "unat (lg_start lg)"
  let ?step = "\<lambda>i out. bindE (Log_Find (of_nat i) lg) (\<lambda>f. case f of None \<Rightarrow> Inl AssertFailed
    | Some e \<Rightarrow> Inr (out @ [entry_message e]))"
  have sa: "?s \<le> ?a" by (simp add: max_def word_le_nat_alt)
  have step: "foldE ?step [i..<?s + length (lg_entries lg)] out =
    Inr (out @ map entry_message (drop (i - ?s) (lg_entries lg)))"
    if "?s \<le> i" "i \<le> ?s + length (lg_entries lg)" for i out
    using that
  proof (induction "?s + length (lg_entries lg) - i" arbitrary: i out)
    case 0
    then show ?case by simp
  next
    case (Suc j)
    then have lt: "i < ?s + length (lg_entries lg)" by linarith
    then have "i < 2 ^ 64" using assms(1) by (simp add: log_ok_def)
    then have u: "unat (of_nat i :: u64) = i" by (simp add: unsigned_of_nat take_bit_nat_eq_self)
    have i: "i - ?s < length (lg_entries lg)" using lt Suc.prems(1) by linarith
    have "Log_Find (of_nat i) lg = Inr (Some (lg_entries lg ! (i - ?s)))"
      using lt Suc.prems(1) by (simp add: Log_Find_ok [OF assms(1)] u)
    moreover have "foldE ?step [Suc i..<?s + length (lg_entries lg)] (out @ [entry_message (lg_entries lg ! (i - ?s))])
      = Inr ((out @ [entry_message (lg_entries lg ! (i - ?s))]) @
          map entry_message (drop (Suc i - ?s) (lg_entries lg)))"
      using Suc.hyps(2) Suc.prems by (intro Suc.hyps(1)) linarith+
    moreover have "drop (i - ?s) (lg_entries lg) = lg_entries lg ! (i - ?s) # drop (Suc (i - ?s)) (lg_entries lg)"
      using i by (rule Cons_nth_drop_Suc [symmetric])
    moreover have "Suc i - ?s = Suc (i - ?s)" using Suc.prems(1) by linarith
    ultimately show ?case using lt by (simp add: upt_conv_Cons)
  qed
  have last: "Suc (unat (LastOpnum lg)) = ?s + length (lg_entries lg)"
    using LastOpnum_ok [OF assms(1)] assms(1) by (simp add: log_ok_def)
  show ?thesis
  proof (cases "?a \<le> ?s + length (lg_entries lg)")
    case True
    then show ?thesis using step [OF sa] by (simp add: Log_Dump_def last assms(2))
  next
    case False
    then have "[?a..<Suc (unat (LastOpnum lg))] = []" and "length (lg_entries lg) \<le> k"
      by (simp_all add: last assms(2))
    then show ?thesis by (simp add: Log_Dump_def)
  qed
qed

section \<open>State transfer\<close>

definition log_at :: "vr_log \<Rightarrow> nat \<Rightarrow> log_entry option" where
  "log_at lg i = (if unat (lg_start lg) \<le> i \<and> i < unat (lg_start lg) + length (lg_entries lg)
     then Some (lg_entries lg ! (i - unat (lg_start lg))) else None)"

lemma first_diff_same: "j < first_diff es ms \<Longrightarrow> vs_view (e_viewstamp (es ! j)) = lm_view (ms ! j)"
proof (induction es ms arbitrary: j rule: list_induct2')
  case (4 e es m ms)
  then show ?case by (cases j) (auto split: if_splits)
qed simp_all

text \<open>Two entries agree on everything that is replicated.\<close>

definition same_op :: "log_entry \<Rightarrow> log_entry \<Rightarrow> bool" where
  "same_op e e' \<longleftrightarrow> e_viewstamp e = e_viewstamp e' \<and> e_request e = e_request e'"

lemma same_op_entry_message: "same_op (msg_entry (entry_message e)) e"
  by (simp add: same_op_def msg_entry_def entry_message_def)

lemma log_at_opnum:
  "log_ok lg \<Longrightarrow> log_at lg i = Some e \<Longrightarrow> unat (vs_opnum (e_viewstamp e)) = i"
  by (auto simp: log_at_def log_ok_def split: if_splits)

text \<open>What the receiver has at an operation that the sender dumped.\<close>

lemma dump_installed_at:
  fixes a b :: vr_log and k i :: nat
  defines "ms \<equiv> map entry_message (drop k (lg_entries a))"
  defines "d \<equiv> first_diff (drop k (lg_entries b)) ms"
  defines "c \<equiv> (if d < length ms
    then b\<lparr>lg_entries := take (k + d) (lg_entries b) @ map msg_entry (drop d ms)\<rparr> else b)"
  assumes "log_ok a" and "log_ok b" and "lg_start a = lg_start b" and "k \<le> length (lg_entries b)"
    and match: "\<And>e e'. log_at a i = Some e \<Longrightarrow> log_at b i = Some e' \<Longrightarrow>
      e_viewstamp e = e_viewstamp e' \<Longrightarrow> e_request e = e_request e'"
    and from_k: "unat (lg_start a) + k \<le> i" and e: "log_at a i = Some e"
  shows "\<exists>e'. log_at c i = Some e' \<and> same_op e' e"
proof -
  define j where "j = i - (unat (lg_start a) + k)"
  have ia: "unat (lg_start a) \<le> i" "i < unat (lg_start a) + length (lg_entries a)" "e = lg_entries a ! (i - unat (lg_start a))"
    using e by (auto simp: log_at_def split: if_splits)
  have j: "j < length ms" "i - unat (lg_start a) = k + j" using ia(2) from_k by (auto simp: j_def ms_def)
  then have mj: "ms ! j = entry_message e" using ia(3) by (simp add: ms_def)
  have dl: "k + d \<le> length (lg_entries b)"
    using first_diff_le(1) [of "drop k (lg_entries b)" ms] assms(7) by (simp add: d_def)
  show ?thesis
  proof (cases "j < d")
    case True
    then have jb: "k + j < length (lg_entries b)" using dl by linarith
    let ?e = "lg_entries b ! (k + j)"
    have at_b: "log_at b i = Some ?e" using jb j(2) ia(1) assms(6) by (simp add: log_at_def)
    have "vs_view (e_viewstamp ?e) = lm_view (ms ! j)"
      using first_diff_same [of j "drop k (lg_entries b)" ms] True jb by (simp add: d_def)
    then have "vs_view (e_viewstamp ?e) = vs_view (e_viewstamp e)" by (simp add: mj entry_message_def)
    moreover have "vs_opnum (e_viewstamp ?e) = vs_opnum (e_viewstamp e)"
      using log_at_opnum [OF assms(5) at_b] log_at_opnum [OF assms(4) e] by (simp add: word_eq_unat_64)
    ultimately have vs: "e_viewstamp e = e_viewstamp ?e" by (simp add: viewstamp.expand)
    have "log_at c i = Some ?e" using True jb j ia(1) assms(6) by (auto simp: log_at_def c_def nth_append)
    then show ?thesis using match [OF e at_b vs] vs by (simp add: same_op_def)
  next
    case False
    then have "d < length ms" using j(1) by simp
    then have "log_at c i = Some (msg_entry (ms ! j))"
      using False j dl ia(1) assms(6) by (auto simp: log_at_def c_def nth_append min_def)
    then show ?thesis using same_op_entry_message [of e] by (simp add: mj)
  qed
qed

text \<open>
  \<^bold>\<open>C27\<close> State transfer. If the sender dumps its log from an operation the receiver's log
  reaches, and the two logs hold the same request wherever they hold the same view stamp,
  then the receiver's \<open>Install\<close> succeeds, keeps its log well formed and unchanged below
  that operation, and agrees with the sender on every operation the sender has from
  there on.
\<close>

theorem Dump_Install_agrees:
  assumes "log_ok a" and "log_ok b" and "lg_start a = lg_start b"
    and "lg_start a \<le> from_op" and "unat from_op \<le> unat (LastOpnum b) + 1"
    and match: "\<forall>i e e'. log_at a i = Some e \<longrightarrow> log_at b i = Some e' \<longrightarrow>
      e_viewstamp e = e_viewstamp e' \<longrightarrow> e_request e = e_request e'"
  shows "\<exists>ms c. Log_Dump from_op a = Inr ms \<and> Log_Install hash ms b = Inr c \<and> log_ok c \<and>
    (\<forall>i < unat from_op. log_at c i = log_at b i) \<and>
    (\<forall>i \<ge> unat from_op. \<forall>e. log_at a i = Some e \<longrightarrow> (\<exists>e'. log_at c i = Some e' \<and> same_op e' e))"
proof -
  note matching = match [rule_format]
  let ?s = "unat (lg_start a)" and ?n = "unat from_op"
  define k where "k = ?n - ?s"
  define ms where "ms = map entry_message (drop k (lg_entries a))"
  define d where "d = first_diff (drop k (lg_entries b)) ms"
  define c where "c = (if d < length ms
    then b\<lparr>lg_entries := take (k + d) (lg_entries b) @ map msg_entry (drop d ms)\<rparr> else b)"
  have sn: "?s \<le> ?n" using assms(4) by (simp add: word_le_nat_alt)
  have mx: "max from_op (lg_start a) = from_op" using assms(4) by (simp add: max_def)
  have dump: "Log_Dump from_op a = Inr ms"
    using Log_Dump_ok [OF assms(1), of k from_op] by (simp add: ms_def k_def mx)
  have nb: "?n \<le> unat (lg_start b) + length (lg_entries b)"
    using assms(2,5) LastOpnum_ok [OF assms(2)] by (simp add: log_ok_def)
  have es: "entries_from ?n ms"
    using assms(1) sn by (auto simp: entries_from_def ms_def entry_message_def log_ok_def k_def)
  have len: "?n + length ms \<le> 2 ^ 64 \<or> ms = []"
    using assms(1) sn by (auto simp: ms_def k_def log_ok_def)
  have "?n + length ms \<le> 2 ^ 64" using len unat_64_less [of from_op] by auto
  note len = this
  have sb: "unat (lg_start b) \<le> ?n" using sn assms(3) by simp
  have inst: "Log_Install hash ms b = Inr c" "log_ok c"
    unfolding c_def d_def k_def assms(3)
    by (rule Log_Install_ok(1) [OF assms(2) sb nb es len], rule Log_Install_ok(2) [OF assms(2) sb nb es len])
  have dl: "k + d \<le> length (lg_entries b)"
    using first_diff_le(1) [of "drop k (lg_entries b)" ms] nb sn assms(3) by (simp add: d_def k_def)
  have below: "log_at c i = log_at b i" if "i < ?n" for i
    using that dl sn assms(3) by (auto simp: log_at_def c_def k_def nth_append min_def)
  have "k \<le> length (lg_entries b)" using dl by simp
  then have above: "\<exists>e'. log_at c i = Some e' \<and> same_op e' e" if "?n \<le> i" and "log_at a i = Some e" for i e
    unfolding c_def d_def ms_def
    using that sn by (intro dump_installed_at [OF assms(1-3)] matching) (simp_all add: k_def)
  show ?thesis using dump inst below above by blast
qed

text \<open>A new leader's log of two operations of view 1 replaces a stale operation of view 0.\<close>

definition ex_entry :: "u64 \<Rightarrow> u64 \<Rightarrow> string \<Rightarrow> log_entry" where
  "ex_entry v op s = new_entry (Viewstamp v op) \<lparr>rq_op = s, rq_clientid = 7, rq_clientreqid = op\<rparr>"

definition ex_log :: "log_entry list \<Rightarrow> vr_log" where
  "ex_log es = \<lparr>lg_entries = es, lg_initialHash = [], lg_start = 1, lg_useHash = False\<rparr>"

lemma Dump_Install_agrees_witness:
  "\<exists>ms c. Log_Dump 1 (ex_log [ex_entry 1 1 ''x'', ex_entry 1 2 ''y'']) = Inr ms \<and>
     Log_Install (\<lambda>h e. []) ms (ex_log [ex_entry 0 1 ''z'']) = Inr c \<and>
     (\<exists>e. log_at c 2 = Some e \<and> same_op e (ex_entry 1 2 ''y''))"
proof -
  let ?a = "ex_log [ex_entry 1 1 ''x'', ex_entry 1 2 ''y'']" and ?b = "ex_log [ex_entry 0 1 ''z'']"
  have a: "log_ok ?a" by (auto simp: log_ok_def ex_log_def ex_entry_def less_Suc_eq)
  have b: "log_ok ?b" by (simp add: log_ok_def ex_log_def ex_entry_def)
  have st: "lg_start ?a = lg_start ?b" "lg_start ?a \<le> 1" "unat (1 :: u64) \<le> unat (LastOpnum ?b) + 1"
    by (simp_all add: ex_log_def)
  have m: "e_request e = e_request e'"
    if "log_at ?a i = Some e" "log_at ?b i = Some e'" "e_viewstamp e = e_viewstamp e'" for i e e'
  proof -
    have "i = 1" using that(2) by (auto simp: log_at_def ex_log_def split: if_splits)
    then show ?thesis using that by (auto simp: log_at_def ex_log_def ex_entry_def)
  qed
  have "\<forall>i e e'. log_at ?a i = Some e \<longrightarrow> log_at ?b i = Some e' \<longrightarrow>
      e_viewstamp e = e_viewstamp e' \<longrightarrow> e_request e = e_request e'" using m by blast
  from Dump_Install_agrees [where hash = "\<lambda>h e. []", OF a b st this]
  obtain ms c where "Log_Dump 1 ?a = Inr ms" "Log_Install (\<lambda>h e. []) ms ?b = Inr c"
    and c: "\<forall>i \<ge> unat (1 :: u64). \<forall>e. log_at ?a i = Some e \<longrightarrow> (\<exists>e'. log_at c i = Some e' \<and> same_op e' e)"
    by blast
  moreover have "log_at ?a 2 = Some (ex_entry 1 2 ''y'')" by (simp add: log_at_def ex_log_def)
  with c [rule_format, of 2 "ex_entry 1 2 ''y''"] have "\<exists>e. log_at c 2 = Some e \<and> same_op e (ex_entry 1 2 ''y'')"
    by simp
  ultimately show ?thesis by blast
qed

section \<open>Quorums\<close>

lemma map_of_om_put: "map_of (om_put k v m) = (map_of m)(k \<mapsto> v)"
  by (induction m) auto

lemma set_om_put_keys: "fst ` set (om_put k v m) = insert k (fst ` set m)"
  by (induction k v m rule: om_put.induct) (simp_all add: insert_commute)

lemma sorted_om_put: "sorted_wrt (<) (map fst m) \<Longrightarrow> sorted_wrt (<) (map fst (om_put k v m))"
proof (induction m)
  case (Cons p m)
  obtain k' v' where p: "p = (k', v')" by fastforce
  have "\<forall>x \<in> fst ` set (om_put k v m). k' < x" if "k' < k"
    using Cons.prems that by (auto simp: p set_om_put_keys)
  then show ?case using Cons by (auto simp: p)
qed simp

lemma qs_at_put [simp]:
  "qs_at (q\<lparr>qs_messages := om_put i ms (qs_messages q)\<rparr>) i' = (if i' = i then ms else qs_at q i')"
  by (simp add: qs_at_def map_of_om_put)

lemma om_put_again [simp]: "om_put k v (om_put k v m) = om_put k v m"
  by (induction k v m rule: om_put.induct) auto

text \<open>The votes recorded for an id are those of distinct replicas.\<close>

definition qs_ok :: "('i, 'm) quorum_set \<Rightarrow> bool" where
  "qs_ok q \<longleftrightarrow> (\<forall>i. sorted_wrt (<) (map fst (qs_at q i)))"

definition voters :: "('i, 'm) quorum_set \<Rightarrow> 'i \<Rightarrow> int set" where
  "voters q i = fst ` set (qs_at q i)"

lemma qs_ok_length: "qs_ok q \<Longrightarrow> length (qs_at q i) = card (voters q i)"
  unfolding qs_ok_def voters_def
  by (metis distinct_card length_map list.set_map strict_sorted_iff)

lemma qs_init [simp]: "qs_ok (QuorumSet_init n)" "voters (QuorumSet_init n) i = {}"
  by (simp_all add: qs_ok_def voters_def QuorumSet_init_def qs_at_def)

lemma qs_Clear [simp]: "qs_ok (qs_Clear q)" "voters (qs_Clear q) i = {}"
  "qs_numRequired (qs_Clear q) = qs_numRequired q"
  by (simp_all add: qs_ok_def voters_def qs_Clear_def qs_at_def)

lemma qs_Add_ok:
  assumes "qs_AddAndCheckForQuorum i r msg q = (res, q')" and "qs_ok q"
  shows "qs_ok q'" and "voters q' i = insert r (voters q i)"
    and "i' \<noteq> i \<Longrightarrow> voters q' i' = voters q i'" and "qs_numRequired q' = qs_numRequired q"
    and "res = Some ms \<longleftrightarrow> ms = qs_at q' i \<and> int (card (voters q' i)) \<ge> qs_numRequired q"
proof -
  let ?q = "q\<lparr>qs_messages := om_put i (om_put r msg (qs_at q i)) (qs_messages q)\<rparr>"
  have q': "q' = ?q" and res: "res = fst (qs_CheckForQuorum i ?q)"
    using assms(1) by (auto simp: qs_AddAndCheckForQuorum_def qs_CheckForQuorum_def Let_def)
  show ok: "qs_ok q'" using assms(2) by (simp add: q' qs_ok_def sorted_om_put)
  show "voters q' i = insert r (voters q i)" by (simp add: q' voters_def set_om_put_keys)
  show "i' \<noteq> i \<Longrightarrow> voters q' i' = voters q i'" by (simp add: q' voters_def)
  show "qs_numRequired q' = qs_numRequired q" by (simp add: q')
  show "res = Some ms \<longleftrightarrow> ms = qs_at q' i \<and> int (card (voters q' i)) \<ge> qs_numRequired q"
    using qs_ok_length [OF ok, of i] by (auto simp: res qs_CheckForQuorum_def q' simp del: qs_at_put)
qed

definition vote :: "('i :: linorder) \<times> int \<times> 'm \<Rightarrow> ('i, 'm) quorum_set \<Rightarrow> ('i, 'm) quorum_set" where
  "vote v q = (case v of (i, r, msg) \<Rightarrow> qs_Add i r msg q)"

lemma votes_cast: "qs_ok q \<Longrightarrow>
  qs_ok (fold vote vs q) \<and> qs_numRequired (fold vote vs q) = qs_numRequired q \<and>
  voters (fold vote vs q) i = voters q i \<union> {r. \<exists>msg. (i, r, msg) \<in> set vs}"
proof (induction vs arbitrary: q)
  case Nil
  then show ?case by simp
next
  case (Cons v vs)
  obtain i' r msg where v: "v = (i', r, msg)" by (cases v)
  obtain res q' where q': "qs_AddAndCheckForQuorum i' r msg q = (res, q')" by fastforce
  note A = qs_Add_ok [OF q' Cons.prems]
  have "fold vote (v # vs) q = fold vote vs q'" by (simp add: v vote_def qs_Add_def q')
  with Cons.IH [OF A(1)] A(2,4) A(3) [of i] show ?case by (cases "i = i'") (auto simp: v)
qed

text \<open>
  \<^bold>\<open>C28\<close> A quorum is a number of distinct voters: whatever messages arrive, in any order
  and however often, \<open>CheckForQuorum\<close> for an id succeeds exactly when at least the
  required number of different replicas have sent a message for that id since the last
  \<open>Clear\<close>.
\<close>

theorem quorum_counts_distinct_voters:
  "fst (qs_CheckForQuorum i (fold vote vs (QuorumSet_init n))) \<noteq> None \<longleftrightarrow>
   n \<le> int (card {r. \<exists>msg. (i, r, msg) \<in> set vs})"
  using votes_cast [of "QuorumSet_init n" vs i] qs_ok_length [of "fold vote vs (QuorumSet_init n)" i]
  by (simp add: qs_CheckForQuorum_def) (simp add: QuorumSet_init_def)

end
