(* ===== verification/VrReplicaInv.thy ===== *)
theory VrReplicaInv
  imports VrReplica VrLogInv
begin

text \<open>
  What a replica guarantees on its own, whatever messages it receives: its log has
  consecutive operations up to \<open>lastOp\<close>, \<open>lastCommitted\<close> does not pass it, and the
  application has been given exactly the committed operations of the log, each once and
  in order. A leader commits only what a quorum acknowledged. And three faults of the code.
\<close>

section \<open>The invariant\<close>

fun upcalls :: "vr_event list \<Rightarrow> (u64 \<times> string) list" where
  "upcalls [] = []"
| "upcalls (Upcall op s # es) = (op, s) # upcalls es"
| "upcalls (Send d m # es) = upcalls es"

lemma upcalls_append [simp]: "upcalls (xs @ ys) = upcalls xs @ upcalls ys"
  by (induction xs rule: upcalls.induct) simp_all

text \<open>The operations \<open>1..n\<close> of a log, with their numbers.\<close>

definition log_ops :: "nat \<Rightarrow> vr_log \<Rightarrow> (u64 \<times> string) list" where
  "log_ops n lg = map (\<lambda>i. (of_nat (Suc i), rq_op (e_request (lg_entries lg ! i)))) [0..<n]"

definition quorums_ok :: "vr_config \<Rightarrow> 'a vr_replica \<Rightarrow> bool" where
  "quorums_ok cf r \<longleftrightarrow> qs_ok (r_prepareOKQuorum r) \<and>
     qs_numRequired (r_prepareOKQuorum r) = QuorumSize cf - 1"

text \<open>\<open>log_inv\<close> is the invariant without \<open>lastOp\<close>, which some handlers set after the log.\<close>

definition log_inv :: "vr_config \<Rightarrow> 'a vr_replica \<Rightarrow> bool" where
  "log_inv cf r \<longleftrightarrow> log_ok (r_log r) \<and> lg_start (r_log r) = 1 \<and>
     unat (r_lastCommitted r) \<le> length (lg_entries (r_log r)) \<and>
     upcalls (r_trace r) = log_ops (unat (r_lastCommitted r)) (r_log r) \<and> quorums_ok cf r"

definition vr_inv :: "vr_config \<Rightarrow> 'a vr_replica \<Rightarrow> bool" where
  "vr_inv cf r \<longleftrightarrow> log_inv cf r \<and> unat (r_lastOp r) = length (lg_entries (r_log r))"

lemmas inv_defs = vr_inv_def log_inv_def quorums_ok_def

lemma vr_inv_init: "vr_inv cf (VRReplica_init cf bs a)"
  by (simp add: inv_defs VRReplica_init_def Let_def log_ops_def) (simp add: QuorumSet_init_def)

text \<open>The parts of the state the invariant does not read.\<close>

lemma inv_frame [simp]:
  "log_inv cf (emit (Send d m) r) = log_inv cf r"
  "log_inv cf (ct_set i e r) = log_inv cf r"
  "log_inv cf (prepare_ok cf' v op r) = log_inv cf r"
  "log_inv cf (RequestStateTransfer r) = log_inv cf r"
  "log_inv cf (add_pending remote p r) = log_inv cf r"
  by (simp_all add: log_inv_def quorums_ok_def emit_def ct_set_def prepare_ok_def RequestStateTransfer_def
    add_pending_def)

lemma emit_frame [simp]:
  "r_lastOp (emit e r) = r_lastOp r" "r_log (emit e r) = r_log r" "r_view (emit e r) = r_view r"
  "r_lastCommitted (emit e r) = r_lastCommitted r" "r_status (emit e r) = r_status r"
  "r_trace (emit e r) = r_trace r @ [e]" "r_app (emit e r) = r_app r"
  "r_prepareOKQuorum (emit e r) = r_prepareOKQuorum r" "r_clientTable (emit e r) = r_clientTable r"
  "r_lastBatchEnd (emit e r) = r_lastBatchEnd r"
  "r_pendingPrepares (emit e r) = r_pendingPrepares r" "r_clientAddresses (emit e r) = r_clientAddresses r"
  by (simp_all add: emit_def)

lemma ct_set_frame [simp]:
  "r_lastOp (ct_set i e r) = r_lastOp r" "r_log (ct_set i e r) = r_log r"
  "r_view (ct_set i e r) = r_view r" "r_lastCommitted (ct_set i e r) = r_lastCommitted r"
  "r_status (ct_set i e r) = r_status r" "r_trace (ct_set i e r) = r_trace r"
  "r_app (ct_set i e r) = r_app r" "r_prepareOKQuorum (ct_set i e r) = r_prepareOKQuorum r"
  "r_pendingPrepares (ct_set i e r) = r_pendingPrepares r" "r_lastBatchEnd (ct_set i e r) = r_lastBatchEnd r"
  "r_clientAddresses (ct_set i e r) = r_clientAddresses r"
  by (simp_all add: ct_set_def)

lemma helper_frame [simp]:
  "r_lastOp (prepare_ok cf v op r) = r_lastOp r" "r_log (prepare_ok cf v op r) = r_log r"
  "r_lastCommitted (prepare_ok cf v op r) = r_lastCommitted r"
  "r_lastOp (RequestStateTransfer r) = r_lastOp r" "r_log (RequestStateTransfer r) = r_log r"
  "r_lastOp (add_pending remote p r) = r_lastOp r" "r_log (add_pending remote p r) = r_log r"
  by (simp_all add: prepare_ok_def RequestStateTransfer_def add_pending_def)

lemma vr_inv_frame [simp]:
  "vr_inv cf (emit (Send d m) r) = vr_inv cf r"
  "vr_inv cf (ct_set i e r) = vr_inv cf r"
  "vr_inv cf (prepare_ok cf' v op r) = vr_inv cf r"
  "vr_inv cf (RequestStateTransfer r) = vr_inv cf r"
  "vr_inv cf (add_pending remote p r) = vr_inv cf r"
  by (simp_all add: vr_inv_def)

lemma vr_inv_update [simp]:
  "vr_inv cf (r\<lparr>r_view := v\<rparr>) = vr_inv cf r" "vr_inv cf (r\<lparr>r_status := st\<rparr>) = vr_inv cf r"
  "vr_inv cf (r\<lparr>r_viewChangeTimeout := b\<rparr>) = vr_inv cf r" "vr_inv cf (r\<lparr>r_nullCommitTimeout := b\<rparr>) = vr_inv cf r"
  "vr_inv cf (r\<lparr>r_resendPrepareTimeout := b\<rparr>) = vr_inv cf r" "vr_inv cf (r\<lparr>r_closeBatchTimeout := b\<rparr>) = vr_inv cf r"
  "vr_inv cf (r\<lparr>r_lastRSTView := v\<rparr>) = vr_inv cf r" "vr_inv cf (r\<lparr>r_lastRSTOpnum := v\<rparr>) = vr_inv cf r"
  "vr_inv cf (r\<lparr>r_pendingPrepares := ps\<rparr>) = vr_inv cf r" "vr_inv cf (r\<lparr>r_lastPrepare := p\<rparr>) = vr_inv cf r"
  "vr_inv cf (r\<lparr>r_lastBatchEnd := v\<rparr>) = vr_inv cf r" "vr_inv cf (r\<lparr>r_clientAddresses := m\<rparr>) = vr_inv cf r"
  "vr_inv cf (r\<lparr>r_app := a\<rparr>) = vr_inv cf r"
  "vr_inv cf (r\<lparr>r_startViewChangeQuorum := q\<rparr>) = vr_inv cf r"
  "vr_inv cf (r\<lparr>r_doViewChangeQuorum := q'\<rparr>) = vr_inv cf r"
  by (simp_all add: inv_defs)

lemma log_inv_update [simp]:
  "log_inv cf (r\<lparr>r_lastOp := v\<rparr>) = log_inv cf r"
  by (simp add: log_inv_def quorums_ok_def)

section \<open>Finding and appending\<close>

lemma find_op:
  assumes "log_inv cf r"
  shows "Log_Find op (r_log r) = Inr (if 0 < unat op \<and> unat op \<le> length (lg_entries (r_log r))
    then Some (lg_entries (r_log r) ! (unat op - 1)) else None)"
  using assms Log_Find_ok [of "r_log r" op] by (auto simp: log_inv_def)

lemma log_ops_append: "n \<le> length es \<Longrightarrow> lg_entries lg = es \<Longrightarrow> lg_entries lg' = es @ es' \<Longrightarrow>
  log_ops n lg' = log_ops n lg"
  by (simp add: log_ops_def nth_append)

lemma log_append_inv:
  assumes "log_inv cf r" and "vs_opnum vs \<noteq> 0" and "log_append vs req r = Inr r'"
  shows "log_inv cf r'" and "unat (vs_opnum vs) = Suc (length (lg_entries (r_log r)))"
    and "lg_entries (r_log r') = lg_entries (r_log r) @ [new_entry vs req]"
    and "r' = r\<lparr>r_log := r_log r'\<rparr>"
proof -
  from assms(3) obtain lg where lg: "Log_Append no_hash vs req LOG_STATE_PREPARED (r_log r) = Inr lg"
    "r' = r\<lparr>r_log := lg\<rparr>" by (auto simp: log_append_def)
  have ok: "log_ok (r_log r)" using assms(1) by (simp add: log_inv_def)
  note A = Log_Append_Inr [OF lg(1) ok assms(2)]
  have "log_ops (unat (r_lastCommitted r)) lg = log_ops (unat (r_lastCommitted r)) (r_log r)"
    using assms(1) A(4) by (intro log_ops_append) (auto simp: log_inv_def)
  then show "log_inv cf r'" using assms(1) A lg(2) by (simp add: log_inv_def quorums_ok_def)
  show "unat (vs_opnum vs) = Suc (length (lg_entries (r_log r)))" using A assms(1) by (simp add: log_inv_def)
  show "lg_entries (r_log r') = lg_entries (r_log r) @ [new_entry vs req]" using A lg(2) by simp
  show "r' = r\<lparr>r_log := r_log r'\<rparr>" using lg(2) by simp
qed

lemma UpdateClientTable_ct:
  "UpdateClientTable req r = Inr r' \<Longrightarrow> \<exists>e. r' = ct_set (rq_clientid req) e r"
  by (auto simp: UpdateClientTable_def Let_def)

section \<open>Committing\<close>

lemma log_ops_Suc: "log_ops (Suc n) lg = log_ops n lg @ [(of_nat (Suc n), rq_op (e_request (lg_entries lg ! n)))]"
  by (simp add: log_ops_def)

text \<open>What committing leaves alone: everything replicated, and the votes.\<close>

definition kept :: "'a vr_replica \<Rightarrow> 'a vr_replica \<Rightarrow> bool" where
  "kept r r' \<longleftrightarrow> r_lastOp r' = r_lastOp r \<and> r_view r' = r_view r \<and> r_status r' = r_status r \<and>
     r_prepareOKQuorum r' = r_prepareOKQuorum r \<and> r_lastBatchEnd r' = r_lastBatchEnd r \<and>
     list_all2 same_op (lg_entries (r_log r)) (lg_entries (r_log r'))"

lemma kept_refl [simp]: "kept r r"
  by (simp add: kept_def same_op_def list_all2_refl)

lemma kept_entries: "kept r r' \<Longrightarrow> list_all2 same_op (lg_entries (r_log r)) (lg_entries (r_log r'))"
  by (simp add: kept_def)

lemma kept_trans: "kept r1 r2 \<Longrightarrow> kept r2 r3 \<Longrightarrow> kept r1 r3"
  unfolding kept_def
  by (auto elim!: list_all2_trans [of same_op same_op same_op, rotated] simp: same_op_def)

lemma commit_next_ok:
  assumes inv: "vr_inv cf r" and lt: "r_lastCommitted r < r_lastOp r"
  shows "\<exists>r'. commit_next app r = Inr r' \<and> vr_inv cf r' \<and> r_lastCommitted r' = r_lastCommitted r + 1 \<and> kept r r'"
proof -
  let ?op = "r_lastCommitted r + 1" and ?n = "unat (r_lastCommitted r)" and ?es = "lg_entries (r_log r)"
  have n: "unat ?op = Suc ?n" using unat_Suc_64 [OF lt] .
  have len: "?n < length ?es" using inv lt by (simp add: vr_inv_def word_less_nat_alt)
  have ok: "log_ok (r_log r)" and st: "lg_start (r_log r) = 1" using inv by (simp_all add: inv_defs)
  have find: "Log_Find ?op (r_log r) = Inr (Some (?es ! ?n))"
    using len n inv find_op [of cf r ?op] by (simp add: vr_inv_def)
  let ?lg = "r_log r\<lparr>lg_entries := ?es[?n := (?es ! ?n)\<lparr>e_state := LOG_STATE_COMMITTED\<rparr>]\<rparr>"
  have upd: "Log_SetStatus ?op LOG_STATE_COMMITTED (r_log r) = Inr (True, ?lg)"
    using find by (simp add: Log_SetStatus_def update_entry_def st Let_def)
  have same: "e_viewstamp (lg_entries ?lg ! i) = e_viewstamp (?es ! i) \<and>
    e_request (lg_entries ?lg ! i) = e_request (?es ! i)" for i
    using len by (cases "i = ?n") simp_all
  have ok': "log_ok ?lg" using ok same by (simp add: log_ok_def)
  have ops: "log_ops k ?lg = log_ops k (r_log r)" for k using same by (simp add: log_ops_def)
  have all2: "list_all2 same_op ?es (lg_entries ?lg)"
    using same by (simp add: list_all2_conv_all_nth same_op_def)
  show ?thesis
    unfolding commit_next_def Let_def
    using inv find upd ok' ops len n st all2
    by (auto simp: inv_defs kept_def log_ops_Suc split: prod.splits option.splits)
qed

lemma commit_next_Inr:
  assumes "vr_inv cf r" and "commit_next app r = Inr r'"
  shows "r_lastCommitted r < r_lastOp r"
proof -
  let ?op = "r_lastCommitted r + 1"
  from assms(2) obtain e where "Log_Find ?op (r_log r) = Inr (Some e)"
    by (auto simp: commit_next_def Let_def split: option.splits)
  then have "0 < unat ?op" and "unat ?op \<le> unat (r_lastOp r)"
    using find_op [of cf r ?op] assms(1) by (auto simp: vr_inv_def split: if_splits)
  then have "unat ?op = Suc (unat (r_lastCommitted r))"
    by (metis add.commute less_irrefl unatSuc unat_0)
  with \<open>unat ?op \<le> unat (r_lastOp r)\<close> show ?thesis by (simp add: word_less_nat_alt)
qed

lemma CommitUpTo_loop:
  assumes "r_lastCommitted r < op" and "r_lastCommitted r < r_lastOp r" and "vr_inv cf r"
  shows "CommitUpTo app op r = bindE (commit_next app r) (CommitUpTo app op)"
proof -
  obtain r' where r': "commit_next app r = Inr r'" "r_lastCommitted r' = r_lastCommitted r + 1"
    using commit_next_ok [OF assms(3,2), of app] by blast
  have "unat op - unat (r_lastCommitted r) = Suc (unat op - unat (r_lastCommitted r'))"
    using assms(1) unat_Suc_64 [OF assms(1)] r'(2) by (simp add: word_less_nat_alt)
  then show ?thesis using r' by (simp add: CommitUpTo_def)
qed

lemma CommitUpTo_ok:
  assumes "vr_inv cf r" and "op \<le> r_lastOp r"
  shows "\<exists>r'. CommitUpTo app op r = Inr r' \<and> vr_inv cf r' \<and>
    r_lastCommitted r' = max (r_lastCommitted r) op \<and> kept r r'"
  using assms
proof (induction "unat op - unat (r_lastCommitted r)" arbitrary: r)
  case 0
  then show ?case by (auto simp: CommitUpTo_def max_def word_le_nat_alt word_eq_unat_64)
next
  case (Suc k)
  then have lt: "r_lastCommitted r < op" by (simp add: word_less_nat_alt)
  with Suc.prems have lt': "r_lastCommitted r < r_lastOp r" by simp
  obtain r1 where r1: "commit_next app r = Inr r1" "vr_inv cf r1" "r_lastCommitted r1 = r_lastCommitted r + 1" "kept r r1"
    using commit_next_ok [OF Suc.prems(1) lt', of app] by blast
  have u: "unat (r_lastCommitted r1) = Suc (unat (r_lastCommitted r))"
    using unat_Suc_64 [OF lt] r1(3) by simp
  have "k = unat op - unat (r_lastCommitted r1)" using Suc.hyps(2) u by linarith
  moreover have "op \<le> r_lastOp r1" using Suc.prems(2) r1(4) by (simp add: kept_def)
  ultimately obtain r2 where r2: "CommitUpTo app op r1 = Inr r2" "vr_inv cf r2"
    "r_lastCommitted r2 = max (r_lastCommitted r1) op" "kept r1 r2"
    using Suc.hyps(1) [of r1] r1(2) by blast
  have "max (r_lastCommitted r1) op = max (r_lastCommitted r) op"
    using u lt by (simp add: max_def word_le_nat_alt word_less_nat_alt)
  then show ?case
    using r2 r1 kept_trans [OF r1(4) r2(4)] CommitUpTo_loop [OF lt lt' Suc.prems(1), of app] by simp
qed

text \<open>Beyond \<open>lastOp\<close> it panics, so what returns is below it.\<close>

lemma CommitUpTo_beyond:
  assumes "vr_inv cf r" and "r_lastOp r < op" and "r_lastCommitted r < op"
  shows "CommitUpTo app op r = Inl Panicked"
  using assms
proof (induction "unat op - unat (r_lastCommitted r)" arbitrary: r)
  case 0
  then show ?case by (simp add: word_less_nat_alt)
next
  case (Suc k)
  show ?case
  proof (cases "r_lastCommitted r < r_lastOp r")
    case True
    obtain r1 where r1: "commit_next app r = Inr r1" "vr_inv cf r1" "r_lastCommitted r1 = r_lastCommitted r + 1" "kept r r1"
      using commit_next_ok [OF Suc.prems(1) True, of app] by blast
    have u: "unat (r_lastCommitted r1) = Suc (unat (r_lastCommitted r))"
      using unat_Suc_64 [OF True] r1(3) by simp
    have "k = unat op - unat (r_lastCommitted r1)" using Suc.hyps(2) u by linarith
    moreover have "r_lastCommitted r1 < op" using True Suc.prems(2) u by (simp add: word_less_nat_alt)
    ultimately have "CommitUpTo app op r1 = Inl Panicked"
      using Suc.hyps(1) [of r1] r1 Suc.prems(2) by (simp add: kept_def)
    then show ?thesis using CommitUpTo_loop [OF Suc.prems(3) True Suc.prems(1), of app] r1(1) by simp
  next
    case False
    let ?op = "r_lastCommitted r + 1"
    have eq: "unat (r_lastCommitted r) = length (lg_entries (r_log r))"
      using False Suc.prems(1) by (simp add: inv_defs word_less_nat_alt)
    have "Log_Find ?op (r_log r) = Inr None"
      using find_op [of cf r ?op] Suc.prems(1) unat_Suc_64 [OF Suc.prems(3)] eq by (simp add: vr_inv_def)
    then have "commit_next app r = Inl Panicked" by (simp add: commit_next_def Let_def)
    then show ?thesis using Suc.hyps(2) [symmetric] by (simp add: CommitUpTo_def)
  qed
qed

lemma CommitUpTo_Inr:
  assumes "vr_inv cf r" and "CommitUpTo app op r = Inr r'"
  shows "vr_inv cf r' \<and> r_lastCommitted r' = max (r_lastCommitted r) op \<and> kept r r'"
proof (cases "op \<le> r_lastOp r \<or> op \<le> r_lastCommitted r")
  case True
  then have "op \<le> r_lastOp r"
    using assms(1) by (auto simp: inv_defs word_le_nat_alt)
  then show ?thesis using CommitUpTo_ok [OF assms(1), of op app] assms(2) by auto
next
  case False
  then have "r_lastOp r < op" and "r_lastCommitted r < op" by (auto simp: not_le)
  from CommitUpTo_beyond [OF assms(1) this, of app] assms(2) show ?thesis by simp
qed

end
