(* ===== verification/VrHandlers.thy ===== *)
theory VrHandlers
  imports VrReplicaInv
begin

text \<open>
  Every handler of a replica keeps its invariant; what the handlers of normal operation
  do to the log, and the condition under which a received log may be installed.
\<close>

section \<open>Small steps\<close>

lemma UpdateClientTable_inv [simp]:
  assumes "UpdateClientTable req r = Inr r'"
  shows "vr_inv cf r' = vr_inv cf r" "log_inv cf r' = log_inv cf r" "r_log r' = r_log r"
    "r_lastOp r' = r_lastOp r" "r_lastCommitted r' = r_lastCommitted r" "r_view r' = r_view r"
    "r_status r' = r_status r" "r_trace r' = r_trace r" "r_app r' = r_app r"
    "r_prepareOKQuorum r' = r_prepareOKQuorum r"
  using UpdateClientTable_ct [OF assms] by auto

lemma SendPrepareOKs_inv:
  assumes "SendPrepareOKs cf' old r = Inr r'" and "vr_inv cf r"
  shows "vr_inv cf r'"
  using assms unfolding SendPrepareOKs_def Let_def
  by (rule foldE_invariant [where I = "vr_inv cf"]) (auto split: if_splits option.splits)

lemma EnterView_inv [simp]:
  "log_inv cf r \<Longrightarrow> log_inv cf (EnterView cf' v r)"
  "r_log (EnterView cf' v r) = r_log r" "r_lastOp (EnterView cf' v r) = r_lastOp r"
  "r_lastCommitted (EnterView cf' v r) = r_lastCommitted r" "r_view (EnterView cf' v r) = v"
  "r_status (EnterView cf' v r) = STATUS_NORMAL" "r_trace (EnterView cf' v r) = r_trace r"
  by (simp_all add: EnterView_def Let_def log_inv_def quorums_ok_def)

lemma StartViewChange_inv [simp]:
  "vr_inv cf (StartViewChange cf' v r) = vr_inv cf r"
  "r_log (StartViewChange cf' v r) = r_log r" "r_lastOp (StartViewChange cf' v r) = r_lastOp r"
  "r_lastCommitted (StartViewChange cf' v r) = r_lastCommitted r"
  "r_view (StartViewChange cf' v r) = v"
  "r_status (StartViewChange cf' v r) = STATUS_VIEW_CHANGE"
  by (simp_all add: StartViewChange_def)

lemma CloseBatch_frame:
  assumes "CloseBatch cf r = Inr r'"
  shows "vr_inv cf' r' = vr_inv cf' r" "r_log r' = r_log r" "r_lastOp r' = r_lastOp r"
    "r_lastCommitted r' = r_lastCommitted r" "r_view r' = r_view r" "r_status r' = r_status r"
  using assms by (auto simp: CloseBatch_def Let_def)

lemma OnTimer_inv: "OnTimer cf t r = Inr r' \<Longrightarrow> vr_inv cf r \<Longrightarrow> vr_inv cf r'"
  by (cases t) (auto simp: OnTimer_def SendNullCommit_def ResendPrepare_def CloseBatch_frame)

section \<open>Normal operation\<close>

lemma append_new_op:
  assumes "vr_inv cf r" and "op \<noteq> 0"
    and "log_append (Viewstamp v op) req (r\<lparr>r_lastOp := r_lastOp r + 1\<rparr>) = Inr r'"
  shows "vr_inv cf r'" and "op = r_lastOp r + 1" and "unat op = Suc (unat (r_lastOp r))"
    and "lg_entries (r_log r') = lg_entries (r_log r) @ [new_entry (Viewstamp v op) req]"
    and "r' = r\<lparr>r_lastOp := op, r_log := r_log r'\<rparr>"
proof -
  let ?r = "r\<lparr>r_lastOp := r_lastOp r + 1\<rparr>"
  have inv: "log_inv cf ?r" and len: "unat (r_lastOp r) = length (lg_entries (r_log r))"
    using assms(1) by (simp_all add: vr_inv_def)
  note A = log_append_inv [OF inv _ assms(3)]
  show u: "unat op = Suc (unat (r_lastOp r))" using A(2) assms(2) len by simp
  then have "unat (r_lastOp r + 1) = unat op"
    using unat_64_less [of op] by (simp add: unat_word_ariths)
  then show op: "op = r_lastOp r + 1" by (simp add: word_eq_unat_64)
  show es: "lg_entries (r_log r') = lg_entries (r_log r) @ [new_entry (Viewstamp v op) req]"
    using A(3) assms(2) by simp
  have r': "r' = ?r\<lparr>r_log := r_log r'\<rparr>" using A(4) assms(2) by simp
  then show "r' = r\<lparr>r_lastOp := op, r_log := r_log r'\<rparr>" using op by simp
  have "r_lastOp r' = r_lastOp (?r\<lparr>r_log := r_log r'\<rparr>)" using r' by (rule arg_cong)
  then have "r_lastOp r' = op" using op by simp
  then show "vr_inv cf r'" using A(1) assms(2) u es len by (simp add: vr_inv_def)
qed

lemma HandleRequest_new_inv:
  assumes "HandleRequest_new cf app remote req r = Inr r'" and "vr_inv cf r" and "r_lastOp r \<noteq> - 1"
  shows "vr_inv cf r'"
proof -
  from assms(1) obtain r1 where r1: "UpdateClientTable req r = Inr r1"
    by (auto simp: HandleRequest_new_def)
  obtain replicate res a where up: "LeaderUpcall app (r_lastCommitted r1) (rq_op req) (r_app r1) = ((replicate, res), a)"
    by (metis prod.exhaust)
  have inv1: "vr_inv cf (r1\<lparr>r_app := a\<rparr>)" using r1 assms(2) by simp
  show ?thesis
  proof (cases replicate)
    case False
    then show ?thesis using assms(1) r1 up inv1 by (auto simp: HandleRequest_new_def Let_def)
  next
    case True
    let ?r2 = "r1\<lparr>r_app := a\<rparr>"
    from assms(1) True obtain r4 r5 where
      r4: "log_append (Viewstamp (r_view r1) (r_lastOp r1 + 1)) (req\<lparr>rq_op := res\<rparr>)
        (?r2\<lparr>r_lastOp := r_lastOp ?r2 + 1\<rparr>) = Inr r4"
      and r5: "(if r_lastOp r4 - r_lastBatchEnd r4 + 1 > r_batchSize r4 then CloseBatch cf r4
        else Inr (r4\<lparr>r_closeBatchTimeout := True\<rparr>)) = Inr r5"
      and r': "r' = r5\<lparr>r_nullCommitTimeout := True\<rparr>"
      using r1 up by (auto simp: HandleRequest_new_def Let_def)
    have "r_lastOp r1 + 1 \<noteq> 0" using assms(3) r1 by (simp add: eq_neg_iff_add_eq_0)
    from append_new_op(1) [OF inv1 this r4] have "vr_inv cf r4" .
    then have "vr_inv cf r5" using r5 by (auto simp: CloseBatch_frame split: if_splits)
    then show ?thesis by (simp add: r')
  qed
qed

lemma HandleRequest_inv:
  assumes "HandleRequest cf app remote req r = Inr r'" and "vr_inv cf r" and "r_lastOp r \<noteq> - 1"
  shows "vr_inv cf r'"
proof -
  let ?r = "r\<lparr>r_clientAddresses := um_put (rq_clientid req) remote (um_erase (rq_clientid req) (r_clientAddresses r))\<rparr>"
  have inv: "vr_inv cf ?r" "r_lastOp ?r \<noteq> - 1" using assms(2,3) by simp_all
  have "r' = r \<or> r' = ?r \<or> (\<exists>m. r' = emit (Send (ToAddress remote) m) ?r) \<or>
    HandleRequest_new cf app remote req ?r = Inr r'"
    using assms(1) by (auto simp: HandleRequest_def Let_def split: if_splits option.splits)
  then show ?thesis using HandleRequest_new_inv [OF _ inv] inv(1) assms(2) by auto
qed

lemma HandleUnloggedRequest_inv [simp]:
  "vr_inv cf (HandleUnloggedRequest app remote req r) = vr_inv cf r"
  by (simp add: HandleUnloggedRequest_def split: prod.splits)

lemma prepare_requests_inv:
  assumes "prepare_requests v reqs op r = Inr (op', r')" and "vr_inv cf r"
  shows "vr_inv cf r'"
  using assms
proof (induction v reqs op r rule: prepare_requests.induct)
  case (2 v req reqs op r)
  show ?case
  proof (cases "op + 1 \<le> r_lastOp r")
    case True
    then show ?thesis using 2 by simp
  next
    case False
    then have "op + 1 \<noteq> 0" by auto
    from False 2(3) obtain r1 r2 where
      r1: "log_append (Viewstamp v (op + 1)) req (r\<lparr>r_lastOp := r_lastOp r + 1\<rparr>) = Inr r1"
      and r2: "UpdateClientTable req r1 = Inr r2" "prepare_requests v reqs (op + 1) r2 = Inr (op', r')"
      by (auto simp: Let_def)
    have "vr_inv cf r2" using append_new_op(1) [OF 2(4) \<open>op + 1 \<noteq> 0\<close> r1] r2 by simp
    then show ?thesis using 2(2) [OF refl False] r2(2) by blast
  qed
qed simp

lemma HandlePrepare_inv:
  assumes "HandlePrepare cf' remote msg r = Inr r'" and "vr_inv cf r"
  shows "vr_inv cf r'"
proof -
  have "vr_inv cf (r\<lparr>r_viewChangeTimeout := True\<rparr>)" using assms(2) by simp
  from prepare_requests_inv [OF _ this] show ?thesis using assms
    by (auto simp: HandlePrepare_def Let_def split: if_splits)
qed

lemma HandlePrepareOK_inv:
  assumes "HandlePrepareOK cf app msg r = Inr r'" and "vr_inv cf r"
  shows "vr_inv cf r'"
proof -
  obtain msgs q where q: "qs_AddAndCheckForQuorum (Viewstamp (po_view msg) (po_opnum msg))
    (po_replicaIdx msg) msg (r_prepareOKQuorum r) = (msgs, q)" by fastforce
  have inv: "vr_inv cf (r\<lparr>r_prepareOKQuorum := q\<rparr>)"
    using assms(2) qs_Add_ok(1,4) [OF q] by (simp add: inv_defs)
  show ?thesis using assms inv q CommitUpTo_Inr [OF inv]
    by (auto simp: HandlePrepareOK_def Let_def split: if_splits option.splits)
qed

lemma HandleCommit_inv:
  assumes "HandleCommit cf app v op r = Inr r'" and "vr_inv cf r"
  shows "vr_inv cf r'"
proof -
  have "vr_inv cf (r\<lparr>r_viewChangeTimeout := True\<rparr>)" using assms(2) by simp
  from CommitUpTo_Inr [OF this] show ?thesis using assms
    by (auto simp: HandleCommit_def Let_def split: if_splits)
qed

lemma HandleRequestStateTransfer_inv:
  "HandleRequestStateTransfer remote v op r = Inr r' \<Longrightarrow> vr_inv cf r \<Longrightarrow> vr_inv cf r'"
  by (auto simp: HandleRequestStateTransfer_def split: if_splits)

lemma HandleStartViewChange_inv:
  "HandleStartViewChange cf' msg r = Inr r' \<Longrightarrow> vr_inv cf r \<Longrightarrow> vr_inv cf r'"
  by (auto simp: HandleStartViewChange_def Let_def split: if_splits option.splits prod.splits)

section \<open>State transfer\<close>

lemma remove_uncommitted:
  assumes "vr_inv cf r" and "r_lastCommitted r < op"
  shows "Log_RemoveAfter op (r_log r) =
      Inr (r_log r\<lparr>lg_entries := take (unat op - 1) (lg_entries (r_log r))\<rparr>)"
    and "log_inv cf (r\<lparr>r_log := r_log r\<lparr>lg_entries := take (unat op - 1) (lg_entries (r_log r))\<rparr>,
      r_lastOp := op'\<rparr>)"
proof -
  have ok: "log_ok (r_log r)" and st: "unat (lg_start (r_log r)) = 1" using assms(1) by (simp_all add: inv_defs)
  have op: "unat (r_lastCommitted r) < unat op" using assms(2) by (simp add: word_less_nat_alt)
  show "Log_RemoveAfter op (r_log r) =
      Inr (r_log r\<lparr>lg_entries := take (unat op - 1) (lg_entries (r_log r))\<rparr>)"
    using Log_RemoveAfter_ok(1) [OF ok, of op] op st by simp
  have "log_ops (unat (r_lastCommitted r)) (r_log r\<lparr>lg_entries := take (unat op - 1) (lg_entries (r_log r))\<rparr>) =
    log_ops (unat (r_lastCommitted r)) (r_log r)"
    using op by (simp add: log_ops_def)
  then show "log_inv cf (r\<lparr>r_log := r_log r\<lparr>lg_entries := take (unat op - 1) (lg_entries (r_log r))\<rparr>,
      r_lastOp := op'\<rparr>)"
    using assms(1) op log_ok_take [OF ok, of "unat op - 1"] by (simp add: inv_defs)
qed

lemma transfer_entry_inv:
  assumes "transfer_entry m (r, old) = Inr (r', old')" and "vr_inv cf r"
  shows "vr_inv cf r'"
proof -
  let ?op = "lm_opnum m" and ?vs = "Viewstamp (lm_view m) (lm_opnum m)"
  show ?thesis
  proof (cases "?op \<le> r_lastCommitted r")
    case True
    then show ?thesis using assms by (simp add: transfer_entry_def)
  next
    case False
    then have lt: "r_lastCommitted r < ?op" by simp
    then have nz: "?op \<noteq> 0" by auto
    show ?thesis
    proof (cases "?op \<le> r_lastOp r")
      case True
      note R = remove_uncommitted [OF assms(2) lt]
      let ?r = "r\<lparr>r_log := r_log r\<lparr>lg_entries := take (unat ?op - 1) (lg_entries (r_log r))\<rparr>, r_lastOp := ?op\<rparr>"
      have "r' = r \<or> log_append ?vs (lm_request m) ?r = Inr r'"
        using assms(1) True False R(1)
        by (auto simp: transfer_entry_def Let_def split: if_splits option.splits)
      moreover have "vr_inv cf r'" if ap: "log_append ?vs (lm_request m) ?r = Inr r'"
      proof -
        note A = log_append_inv [OF R(2) _ ap]
        have "r_lastOp r' = r_lastOp (?r\<lparr>r_log := r_log r'\<rparr>)"
          using A(4) nz by (intro arg_cong [where f = r_lastOp]) simp
        then show ?thesis using A(1,2,3) nz by (simp add: vr_inv_def)
      qed
      ultimately show ?thesis using assms(2) by auto
    next
      case False
      with assms(1) not_le [THEN iffD2, OF lt] have "log_append ?vs (lm_request m) (r\<lparr>r_lastOp := r_lastOp r + 1\<rparr>) = Inr r'"
        by (auto simp: transfer_entry_def Let_def)
      then show ?thesis using append_new_op(1) [OF assms(2) nz] by simp
    qed
  qed
qed

lemma HandleStateTransfer_inv:
  assumes "HandleStateTransfer cf' app msg r = Inr r'" and "vr_inv cf r"
  shows "vr_inv cf r'"
proof (cases "st_view msg < r_view r")
  case True
  then show ?thesis using assms by (simp add: HandleStateTransfer_def)
next
  case False
  with assms(1) obtain r1 old r3 r4 where
    r1: "foldE transfer_entry (st_entries msg) (r, r_lastOp r) = Inr (r1, old)"
    and r3: "CommitUpTo app (st_opnum msg) (if st_view msg > r_view r1 then EnterView cf' (st_view msg) r1 else r1)
      = Inr r3"
    and r4: "SendPrepareOKs cf' old r3 = Inr r4"
    and r': "r' = r4\<lparr>r_pendingPrepares := []\<rparr>"
    by (auto simp: HandleStateTransfer_def Let_def)
  have "vr_inv cf (fst (r1, old))"
    using r1 by (rule foldE_invariant [where I = "\<lambda>x. vr_inv cf (fst x)"])
      (use assms(2) transfer_entry_inv in auto)
  then have "vr_inv cf (if st_view msg > r_view r1 then EnterView cf' (st_view msg) r1 else r1)"
    by (simp add: vr_inv_def)
  from CommitUpTo_Inr [OF this r3] SendPrepareOKs_inv [OF r4] r' show ?thesis by simp
qed

section \<open>Installing a received log\<close>

text \<open>
  A log sent with \<open>DoViewChange\<close> or \<open>StartView\<close> may be installed when its entries are
  consecutive up to the sender's last operation, which is not below what is committed
  here, and of the same views as what is committed here. Without entries, nothing is
  installed, and \<open>lastOp\<close> must be the sender's already.
\<close>

definition installable :: "u64 \<Rightarrow> log_entry_message list \<Rightarrow> 'a vr_replica \<Rightarrow> bool" where
  "installable lastOp es r \<longleftrightarrow>
     (case es of [] \<Rightarrow> r_lastOp r = lastOp
      | m # _ \<Rightarrow> let n = unat (lm_opnum m) in
          0 < n \<and> entries_from n es \<and> n + length es = Suc (unat lastOp) \<and> lastOp \<noteq> - 1 \<and>
          r_lastCommitted r \<le> lastOp \<and>
          (\<forall>i < length es. n + i \<le> unat (r_lastCommitted r) \<longrightarrow>
             lm_view (es ! i) = vs_view (e_viewstamp (lg_entries (r_log r) ! (n + i - 1)))))"

lemma first_diff_stop:
  "first_diff es ms < length es \<Longrightarrow> first_diff es ms < length ms \<Longrightarrow>
   vs_view (e_viewstamp (es ! first_diff es ms)) \<noteq> lm_view (ms ! first_diff es ms)"
  by (induction es ms rule: list_induct2') auto

lemma install_inv:
  assumes inv: "vr_inv cf r" and es: "es = m # ms" and inst: "installable lastOp es r"
    and from_op: "lm_opnum m \<le> r_lastCommitted r + 1"
    and rm: "Log_RemoveAfter (lastOp + 1) (r_log r) = Inr lg"
    and ins: "Log_Install no_hash es lg = Inr lg'"
  shows "log_inv cf (r\<lparr>r_log := lg'\<rparr>)" and "length (lg_entries lg') = unat lastOp"
proof -
  define n where "n = unat (lm_opnum m)"
  define c where "c = unat (r_lastCommitted r)"
  define L where "L = unat lastOp"
  let ?E = "lg_entries (r_log r)"
  have I: "0 < n" "entries_from n es" "n + length es = Suc L" "lastOp \<noteq> - 1" "c \<le> L"
    "\<And>i. i < length es \<Longrightarrow> n + i \<le> c \<Longrightarrow> lm_view (es ! i) = vs_view (e_viewstamp (?E ! (n + i - 1)))"
    using inst by (simp_all add: installable_def Let_def es n_def c_def L_def word_le_nat_alt)
  have st: "unat (lg_start (r_log r)) = 1" and cE: "c \<le> length ?E" and ok0: "log_ok (r_log r)"
    using inv by (simp_all add: inv_defs c_def)
  have "lastOp + 1 \<noteq> 0" using I(4) by (simp add: eq_neg_iff_add_eq_0)
  then have L1: "unat (lastOp + 1) = Suc L" by (metis L_def add.commute unatSuc)
  have "r_lastCommitted r < lastOp + 1" using L1 I(5) by (simp add: word_less_nat_alt c_def)
  from remove_uncommitted(1) [OF inv this] remove_uncommitted(2) [OF inv this, of "r_lastOp r"] rm L1
  have lg: "lg = r_log r\<lparr>lg_entries := take L ?E\<rparr>" "log_inv cf (r\<lparr>r_log := lg\<rparr>)" by simp_all
  have lg_len: "length (lg_entries lg) = min L (length ?E)" and lg_st: "unat (lg_start lg) = 1"
    and ok: "log_ok lg" using lg st by (simp_all add: log_inv_def min.commute)
  have "r_lastCommitted r + 1 \<noteq> 0" using from_op I(1) by (auto simp: n_def)
  then have "unat (r_lastCommitted r + 1) = Suc c" by (metis c_def add.commute unatSuc)
  then have nc: "n \<le> Suc c" using from_op by (simp add: word_le_nat_alt n_def)
  have n2: "n \<le> unat (lg_start lg) + length (lg_entries lg)" using nc lg_st lg_len cE I(5) by simp
  have n3: "n + length es \<le> 2 ^ 64" using I(3) unat_64_less [of lastOp] by (simp add: L_def)
  define d where "d = first_diff (drop (n - 1) (lg_entries lg)) es"
  note A = Log_Install_ok(1) [OF ok _ n2 I(2) n3, of no_hash, unfolded lg_st, folded d_def]
    Log_Install_ok(2) [OF ok _ n2 I(2) n3, unfolded lg_st, folded d_def]
  have n1: "1 \<le> n" using I(1) by simp
  have lg': "lg' = (if d < length es
    then lg\<lparr>lg_entries := take (n - 1 + d) (lg_entries lg) @ map msg_entry (drop d es)\<rparr> else lg)"
    using A(1) [OF n1] ins by simp
  have ok': "log_ok lg'" using A(2) [OF n1] lg' by simp
  have dl: "d \<le> length es" "n - 1 + d \<le> length (lg_entries lg)"
    using first_diff_le [of "drop (n - 1) (lg_entries lg)" es] n2 lg_st n1 by (simp_all add: d_def)
  have cd: "c \<le> n - 1 + d" if "d < length es"
  proof (rule ccontr)
    assume "\<not> c \<le> n - 1 + d"
    then have lt: "n + d \<le> c" using n1 by simp
    then have "n - 1 + d < L" and "n - 1 + d < length ?E" using cE I(5) n1 by linarith+
    then have k: "n - 1 + d < length (lg_entries lg)" by (simp add: lg_len)
    have "vs_view (e_viewstamp (lg_entries lg ! (n - 1 + d))) \<noteq> lm_view (es ! d)"
      using first_diff_stop [of "drop (n - 1) (lg_entries lg)" es, folded d_def] that k by simp
    moreover have "lg_entries lg ! (n - 1 + d) = ?E ! (n + d - 1)"
      using k lg(1) n1 by simp
    ultimately show False using I(6) [OF that lt] by simp
  qed
  show "length (lg_entries lg') = unat lastOp"
    using lg' dl I(3) lg_len n1 by (auto simp: L_def split: if_splits)
  have "log_ops c lg' = log_ops c lg"
  proof (cases "d < length es")
    case True
    then show ?thesis using lg' cd dl(2) by (simp add: log_ops_def nth_append)
  qed (simp add: lg')
  moreover have "c \<le> length (lg_entries lg')" using \<open>length (lg_entries lg') = unat lastOp\<close> I(5) by (simp add: L_def)
  ultimately show "log_inv cf (r\<lparr>r_log := lg'\<rparr>)"
    using lg(2) ok' lg' by (simp add: log_inv_def quorums_ok_def c_def)
qed

section \<open>View changes\<close>

lemma install_entries_inv:
  assumes "install_entries same lastOp es r = Inr r'" and "vr_inv cf r" and "installable lastOp es r"
  shows "log_inv cf r'" and "length (lg_entries (r_log r')) = unat lastOp"
proof -
  have "log_inv cf r' \<and> length (lg_entries (r_log r')) = unat lastOp"
  proof (cases es)
    case Nil
    then show ?thesis using assms by (auto simp: install_entries_def installable_def vr_inv_def)
  next
    case (Cons m ms)
    have le: "lm_opnum m \<le> r_lastCommitted r + 1"
      and bind: "bindE (Log_RemoveAfter (lastOp + 1) (r_log r)) (\<lambda>lg.
        bindE (Log_Install no_hash es lg) (\<lambda>lg'. Inr (r\<lparr>r_log := lg'\<rparr>))) = Inr r'"
      using assms(1) Cons by (simp_all add: install_entries_def not_less split: if_split_asm)
    from bind obtain lg where lg: "Log_RemoveAfter (lastOp + 1) (r_log r) = Inr lg"
      and "bindE (Log_Install no_hash es lg) (\<lambda>lg'. Inr (r\<lparr>r_log := lg'\<rparr>)) = Inr r'" by (rule bindE_InrE)
    from this(2) obtain lg' where ins: "Log_Install no_hash es lg = Inr lg'" and "Inr (r\<lparr>r_log := lg'\<rparr>) = (Inr r' :: 'a vr_replica outcome)"
      by (rule bindE_InrE)
    note lg = le lg ins this(2) [simplified, symmetric]
    from install_inv [OF assms(2) Cons assms(3) lg(1,2,3)] lg(4) show ?thesis by simp
  qed
  then show "log_inv cf r'" and "length (lg_entries (r_log r')) = unat lastOp" by simp_all
qed

lemma enter_installed:
  "log_inv cf r \<Longrightarrow> length (lg_entries (r_log r)) = unat lastOp \<Longrightarrow>
   vr_inv cf (EnterView cf' v r\<lparr>r_lastOp := lastOp\<rparr>)"
  by (simp add: vr_inv_def)

lemma HandleStartView_inv:
  assumes "HandleStartView cf' app msg r = Inr r'" and "vr_inv cf r"
    and inst: "installable (sv_lastOp msg) (sv_entries msg) r"
  shows "vr_inv cf r'"
proof (cases "sv_view msg < r_view r \<or> sv_view msg = r_view r \<and> r_status r \<noteq> STATUS_VIEW_CHANGE")
  case True
  then show ?thesis using assms(1,2) by (auto simp: HandleStartView_def)
next
  case False
  then have skip: "\<not> sv_view msg < r_view r"
    "\<not> (sv_view msg = r_view r \<and> r_status r \<noteq> STATUS_VIEW_CHANGE)" by simp_all
  from assms(1) obtain r1 r3 where
    r1: "install_entries (sv_lastCommitted msg = r_lastCommitted r \<and> sv_lastOp msg = sv_lastCommitted msg)
      (sv_lastOp msg) (sv_entries msg) r = Inr r1"
    and r3: "CommitUpTo app (sv_lastCommitted msg) (EnterView cf' (sv_view msg) r1\<lparr>r_lastOp := sv_lastOp msg\<rparr>) = Inr r3"
    and r': "SendPrepareOKs cf' (r_lastOp r1) r3 = Inr r'"
    unfolding HandleStartView_def if_not_P [OF skip(1)] if_not_P [OF skip(2)] Let_def by auto
  from CommitUpTo_Inr [OF enter_installed [OF install_entries_inv [OF r1 assms(2) inst]] r3]
    SendPrepareOKs_inv [OF r'] show ?thesis by simp
qed

text \<open>The latest log, as a view stamp: the replica's own, or that of the message found.\<close>

lemma latest_dvc_cases:
  "latest_dvc ms vs = (best, m) \<Longrightarrow>
   (m = None \<and> best = vs) \<or>
   (\<exists>x. m = Some x \<and> x \<in> snd ` set ms \<and> vs < best \<and> best = Viewstamp (dvc_lastNormalView x) (dvc_lastOp x))"
proof (induction ms arbitrary: best m rule: rev_induct)
  case (snoc p ms)
  obtain b0 m0 where b0: "latest_dvc ms vs = (b0, m0)" by fastforce
  obtain i x where p: "p = (i, x)" by fastforce
  have "(best, m) = (if dvc_lastNormalView x > vs_view b0 \<or> dvc_lastNormalView x = vs_view b0 \<and> dvc_lastOp x > vs_opnum b0
     then (Viewstamp (dvc_lastNormalView x) (dvc_lastOp x), Some x) else (b0, m0))"
    using snoc.prems b0 by (simp add: latest_dvc_def p)
  moreover have "b0 < Viewstamp (dvc_lastNormalView x) (dvc_lastOp x)"
    if "dvc_lastNormalView x > vs_view b0 \<or> dvc_lastNormalView x = vs_view b0 \<and> dvc_lastOp x > vs_opnum b0"
    using that by (auto simp: less_viewstamp_def Viewstamp_Compare_def)
  moreover have "(m0 = None \<and> b0 = vs) \<or> (\<exists>x. m0 = Some x \<and> x \<in> snd ` set ms \<and> vs < b0 \<and>
    b0 = Viewstamp (dvc_lastNormalView x) (dvc_lastOp x))" using snoc.IH [OF b0] .
  ultimately show ?case
    by (cases "dvc_lastNormalView x > vs_view b0 \<or> dvc_lastNormalView x = vs_view b0 \<and> dvc_lastOp x > vs_opnum b0")
      (auto simp: p image_Un dest: less_trans)
qed (simp add: latest_dvc_def)

lemma LastViewstamp_inv: "vr_inv cf r \<Longrightarrow> vs_opnum (LastViewstamp (r_log r)) = r_lastOp r"
  using LastOpnum_ok [of "r_log r"]
  by (auto simp: inv_defs word_eq_unat_64 LastViewstamp_def LastOpnum_def split: if_splits)

text \<open>Reading the destroyed message faults, or yields it and it is one that may be installed.\<close>

definition dead_ok :: "(do_view_change_message \<Rightarrow> do_view_change_message option) \<Rightarrow> 'a vr_replica \<Rightarrow> bool" where
  "dead_ok dead r \<longleftrightarrow> (\<forall>x. dead x = None \<or> dead x = Some x \<and> installable (dvc_lastOp x) (dvc_entries x) r)"

lemma lead_new_view_inv:
  assumes "lead_new_view cf' app v latestOp latest ms r = Inr r'" and "log_inv cf r"
    and "length (lg_entries (r_log r)) = unat latestOp"
  shows "vr_inv cf r'"
proof -
  let ?enter = "\<lambda>q. EnterView cf' v (r\<lparr>r_startViewChangeQuorum := q\<rparr>)\<lparr>r_lastOp := latestOp\<rparr>"
  from assms(1) obtain q r4 m where
    r4: "(case latest of None \<Rightarrow> Inr (?enter q) | Some m \<Rightarrow> CommitUpTo app (dvc_lastCommitted m) (?enter q)) = Inr r4"
    and r': "r' = emit (Send ToAll m) r4"
    unfolding lead_new_view_def Let_def by (auto split: prod.splits)
  have "log_inv cf (r\<lparr>r_startViewChangeQuorum := q\<rparr>)" using assms(2) by (simp add: log_inv_def quorums_ok_def)
  then have inv: "vr_inv cf (?enter q)" using assms(3) by (intro enter_installed) simp_all
  have "vr_inv cf r4"
  proof (cases latest)
    case None
    then show ?thesis using inv r4 by auto
  next
    case (Some m)
    with r4 have "CommitUpTo app (dvc_lastCommitted m) (?enter q) = Inr r4" by simp
    from CommitUpTo_Inr [OF inv this] show ?thesis by simp
  qed
  then show ?thesis by (simp add: r')
qed

lemma HandleDoViewChange_cases:
  assumes "HandleDoViewChange dead cf app msg r = Inr r'"
    and new: "\<not> dvc_view msg < r_view r" "\<not> (dvc_view msg = r_view r \<and> r_status r \<noteq> STATUS_VIEW_CHANGE)"
  obtains (waiting) r1 q where "r' = r1\<lparr>r_doViewChangeQuorum := q\<rparr>"
      "r1 = r \<or> r1 = StartViewChange cf (dvc_view msg) r"
  | (quorum) r1 q ms best latest latest' r2 where
      "r1 = r \<or> r1 = StartViewChange cf (dvc_view msg) r"
      "latest_dvc ms (LastViewstamp (r_log r)) = (best, latest)"
      "(case latest of None \<Rightarrow> Inr (None, r1\<lparr>r_doViewChangeQuorum := q\<rparr>)
        | Some m0 \<Rightarrow> (case dead m0 of None \<Rightarrow> Inl UndefinedBehaviour
          | Some m \<Rightarrow> bindE (install_entries
              (r_lastCommitted (r1\<lparr>r_doViewChangeQuorum := q\<rparr>) = dvc_lastCommitted msg \<and>
               dvc_lastOp msg = dvc_lastCommitted msg)
              (dvc_lastOp m) (dvc_entries m) (r1\<lparr>r_doViewChangeQuorum := q\<rparr>)) (\<lambda>r2. Inr (Some m, r2))))
        = Inr (latest', r2)"
      "lead_new_view cf app (dvc_view msg) (vs_opnum best) latest' ms r2 = Inr r'"
proof -
  define r1 where "r1 = (if r_status r \<noteq> STATUS_VIEW_CHANGE \<or> dvc_view msg > r_view r
    then StartViewChange cf (dvc_view msg) r else r)"
  have r1: "r1 = r \<or> r1 = StartViewChange cf (dvc_view msg) r" by (simp add: r1_def)
  then have frame: "r_log r1 = r_log r" "r_lastCommitted r1 = r_lastCommitted r" by auto
  obtain msgs q where q: "qs_AddAndCheckForQuorum (dvc_view msg) (dvc_replicaIdx msg) msg (r_doViewChangeQuorum r1)
    = (msgs, q)" by fastforce
  show thesis
  proof (cases msgs)
    case None
    have "r' = r1\<lparr>r_doViewChangeQuorum := q\<rparr>"
      using assms(1) unfolding HandleDoViewChange_def if_not_P [OF new(1)] if_not_P [OF new(2)]
        r1_def [symmetric] Let_def by (simp add: q None)
    from waiting [OF this r1] show ?thesis .
  next
    case (Some ms)
    obtain best latest where l: "latest_dvc ms (LastViewstamp (r_log r)) = (best, latest)" by fastforce
    show ?thesis
      using assms(1) unfolding HandleDoViewChange_def if_not_P [OF new(1)] if_not_P [OF new(2)]
        r1_def [symmetric] Let_def
      by (simp add: q Some l frame(1)) (elim conjE bindE_InrE, clarsimp, rule quorum [where q = q, OF r1 l])
  qed
qed

lemma HandleDoViewChange_inv:
  assumes "HandleDoViewChange dead cf' app msg r = Inr r'" and "vr_inv cf r" and dead: "dead_ok dead r"
  shows "vr_inv cf r'"
proof (cases "dvc_view msg < r_view r \<or> dvc_view msg = r_view r \<and> r_status r \<noteq> STATUS_VIEW_CHANGE")
  case True
  then show ?thesis using assms(1,2) by (auto simp: HandleDoViewChange_def)
next
  case False
  then have new: "\<not> dvc_view msg < r_view r" "\<not> (dvc_view msg = r_view r \<and> r_status r \<noteq> STATUS_VIEW_CHANGE)"
    by simp_all
  from assms(1) new show ?thesis
  proof (cases rule: HandleDoViewChange_cases)
    case (waiting r1 q)
    then show ?thesis using assms(2) by auto
  next
    case (quorum r1 q ms best latest latest' r2)
    let ?r1 = "r1\<lparr>r_doViewChangeQuorum := q\<rparr>"
    have inv1: "vr_inv cf ?r1" using quorum(1) assms(2) by auto
    have same: "installable lo es ?r1 = installable lo es r" for lo es
      using quorum(1) by (auto simp: installable_def Let_def split: list.splits)
    have "log_inv cf r2 \<and> length (lg_entries (r_log r2)) = unat (vs_opnum best)"
    proof (cases latest)
      case None
      then have "r2 = ?r1" and "best = LastViewstamp (r_log ?r1)"
        using quorum(1,3) latest_dvc_cases [OF quorum(2)] by auto
      then show ?thesis using LastViewstamp_inv [OF inv1] inv1 by (simp add: vr_inv_def)
    next
      case (Some m0)
      then obtain m where m: "dead m0 = Some m" using quorum(3) by (cases "dead m0") auto
      then have inst: "m = m0" "installable (dvc_lastOp m0) (dvc_entries m0) ?r1"
        using dead unfolding dead_ok_def same by (metis option.distinct(1) option.inject)+
      have best: "vs_opnum best = dvc_lastOp m0" using latest_dvc_cases [OF quorum(2)] Some by auto
      have "install_entries (r_lastCommitted ?r1 = dvc_lastCommitted msg \<and> dvc_lastOp msg = dvc_lastCommitted msg)
        (dvc_lastOp m0) (dvc_entries m0) ?r1 = Inr r2"
        using quorum(3) Some m inst(1) by auto
      from install_entries_inv [OF this inv1 inst(2)] best show ?thesis by simp
    qed
    with lead_new_view_inv [OF quorum(4)] show ?thesis by blast
  qed
qed

end
