(* ===== verification/VrSafety.thy ===== *)
theory VrSafety
  imports VrHandlers
begin

text \<open>
  The runs of one replica and what holds in them: it executes exactly the committed
  prefix of its log, a leader commits on a quorum, the log grows as the handlers say,
  and three situations in which \<open>replica.cc\<close> misbehaves.
\<close>

section \<open>Runs\<close>

text \<open>
  Which messages the invariant survives: a log is installed only if it agrees with what
  is committed, and a request is taken only while there is an operation number left.
\<close>

definition deliverable :: "(do_view_change_message \<Rightarrow> do_view_change_message option) \<Rightarrow> vr_message \<Rightarrow>
    'a vr_replica \<Rightarrow> bool" where
  "deliverable dead m r = (case m of
     RequestMessage _ \<Rightarrow> r_lastOp r \<noteq> - 1
   | StartViewMessage s \<Rightarrow> installable (sv_lastOp s) (sv_entries s) r
   | DoViewChangeMessage _ \<Rightarrow> dead_ok dead r
   | _ \<Rightarrow> True)"

inductive vr_step :: "(do_view_change_message \<Rightarrow> do_view_change_message option) \<Rightarrow> vr_config \<Rightarrow>
    'a app_replica \<Rightarrow> 'a vr_replica \<Rightarrow> 'a vr_replica \<Rightarrow> bool"
  for dead cf app where
  receive: "ReceiveMessage dead cf app remote m r = Inr r' \<Longrightarrow> deliverable dead m r \<Longrightarrow> vr_step dead cf app r r'"
| timer: "OnTimer cf t r = Inr r' \<Longrightarrow> vr_step dead cf app r r'"

inductive vr_reachable :: "(do_view_change_message \<Rightarrow> do_view_change_message option) \<Rightarrow> vr_config \<Rightarrow>
    'a app_replica \<Rightarrow> u64 \<Rightarrow> 'a \<Rightarrow> 'a vr_replica \<Rightarrow> bool"
  for dead cf app bs a where
  init: "vr_reachable dead cf app bs a (VRReplica_init cf bs a)"
| step: "vr_reachable dead cf app bs a r \<Longrightarrow> vr_step dead cf app r r' \<Longrightarrow> vr_reachable dead cf app bs a r'"

lemma ReceiveMessage_inv:
  assumes "ReceiveMessage dead cf app remote m r = Inr r'" and "vr_inv cf r" and "deliverable dead m r"
  shows "vr_inv cf r'"
  using assms
  by (cases m) (auto simp: ReceiveMessage_def deliverable_def dest: HandleRequest_inv HandlePrepare_inv
    HandlePrepareOK_inv HandleCommit_inv HandleRequestStateTransfer_inv HandleStateTransfer_inv
    HandleStartViewChange_inv HandleDoViewChange_inv HandleStartView_inv)

lemma vr_step_inv: "vr_step dead cf app r r' \<Longrightarrow> vr_inv cf r \<Longrightarrow> vr_inv cf r'"
  by (induction rule: vr_step.induct) (auto intro: ReceiveMessage_inv OnTimer_inv)

lemma vr_reachable_inv: "vr_reachable dead cf app bs a r \<Longrightarrow> vr_inv cf r"
  by (induction rule: vr_reachable.induct) (auto simp: vr_inv_init intro: vr_step_inv)

section \<open>What is executed\<close>

definition executed :: "log_entry list \<Rightarrow> (u64 \<times> string) list" where
  "executed es = map (\<lambda>e. (vs_opnum (e_viewstamp e), rq_op (e_request e))) es"

lemma log_ops_executed:
  assumes "log_ok lg" and "lg_start lg = 1" and "n \<le> length (lg_entries lg)"
  shows "log_ops n lg = executed (take n (lg_entries lg))"
proof (rule nth_equalityI)
  show "length (log_ops n lg) = length (executed (take n (lg_entries lg)))"
    using assms(3) by (simp add: log_ops_def executed_def)
next
  fix i assume "i < length (log_ops n lg)"
  then have i: "i < n" by (simp add: log_ops_def)
  then have "unat (vs_opnum (e_viewstamp (lg_entries lg ! i))) = Suc i"
    using assms by (simp add: log_ok_def)
  then have "vs_opnum (e_viewstamp (lg_entries lg ! i)) = of_nat (Suc i)"
    by (metis of_nat_unat ucast_id)
  then show "log_ops n lg ! i = executed (take n (lg_entries lg)) ! i"
    using i assms(3) by (simp add: log_ops_def executed_def)
qed

lemma vr_inv_executed:
  "vr_inv cf r \<Longrightarrow> upcalls (r_trace r) = executed (take (unat (r_lastCommitted r)) (lg_entries (r_log r)))"
  by (simp add: inv_defs log_ops_executed)

lemma log_ops_fst: "map fst (log_ops n lg) = map of_nat [1..<Suc n]"
  by (induction n) (simp_all add: log_ops_Suc, simp add: log_ops_def)


text \<open>A leader of three replicas with batches of one operation.\<close>

definition ex_cf :: vr_config where
  "ex_cf = \<lparr>cf_n = 3, cf_f = 1, cf_myIdx = 0\<rparr>"

definition ex_app :: "unit app_replica" where
  "ex_app = \<lparr>LeaderUpcall = (\<lambda>_ op s. ((True, op), s)), ReplicaUpcall = (\<lambda>_ op s. (op, s)),
     UnloggedUpcall = (\<lambda>op s. (op, s))\<rparr>"

definition ex_request :: "u64 \<Rightarrow> string \<Rightarrow> vr_request" where
  "ex_request i op = \<lparr>rq_op = op, rq_clientid = 7, rq_clientreqid = i\<rparr>"

definition no_dead :: "do_view_change_message \<Rightarrow> do_view_change_message option" where
  "no_dead m = None"

text \<open>A run of received messages, checking that each is one the invariant survives.\<close>

definition takeable :: "vr_message \<Rightarrow> 'a vr_replica \<Rightarrow> bool" where
  "takeable m r = (case m of
     RequestMessage _ \<Rightarrow> r_lastOp r \<noteq> - 1
   | StartViewMessage s \<Rightarrow> installable (sv_lastOp s) (sv_entries s) r
   | _ \<Rightarrow> True)"

lemma takeable_deliverable: "takeable m r \<Longrightarrow> deliverable no_dead m r"
  by (cases m) (auto simp: takeable_def deliverable_def dead_ok_def no_dead_def)

definition run1 :: "vr_config \<Rightarrow> vr_message list \<Rightarrow> unit vr_replica \<Rightarrow> unit vr_replica outcome" where
  "run1 cf ms r = foldE (\<lambda>m r. if takeable m r then ReceiveMessage no_dead cf ex_app 9 m r else Inl NotReachable) ms r"

lemma run1_reachable:
  "vr_reachable no_dead cf ex_app bs () r \<Longrightarrow> run1 cf ms r = Inr r' \<Longrightarrow> vr_reachable no_dead cf ex_app bs () r'"
proof (induction ms arbitrary: r)
  case (Cons m ms)
  then obtain r1 where "takeable m r" "ReceiveMessage no_dead cf ex_app 9 m r = Inr r1"
    "run1 cf ms r1 = Inr r'" by (auto simp: run1_def split: if_splits)
  with Cons show ?case by (meson vr_reachable.step vr_step.receive takeable_deliverable)
qed (simp add: run1_def)



section \<open>Committing\<close>

lemma same_op_executed: "list_all2 same_op es es' \<Longrightarrow> executed (take n es) = executed (take n es')"
  by (auto simp: list_all2_conv_all_nth executed_def same_op_def intro!: nth_equalityI)

text \<open>
  \<open>CommitUpTo\<close> of an operation the log holds always returns. It executes exactly
  the operations after \<open>lastCommitted\<close> up to that one, in log order, leaves
  \<open>lastCommitted\<close> at the larger of the two, and keeps what is replicated. Of an
  operation beyond the log it panics.
\<close>

theorem CommitUpTo_executes:
  assumes "vr_inv cf r"
  shows "if op \<le> r_lastOp r
    then \<exists>r'. CommitUpTo app op r = Inr r' \<and>
      upcalls (r_trace r') = upcalls (r_trace r) @
        executed (drop (unat (r_lastCommitted r)) (take (unat op) (lg_entries (r_log r)))) \<and>
      r_lastCommitted r' = max (r_lastCommitted r) op \<and> r_lastOp r' = r_lastOp r \<and>
      list_all2 same_op (lg_entries (r_log r)) (lg_entries (r_log r')) \<and> vr_inv cf r'
    else CommitUpTo app op r = Inl Panicked"
proof (cases "op \<le> r_lastOp r")
  case True
  let ?es = "lg_entries (r_log r)" and ?c = "unat (r_lastCommitted r)"
  from True obtain r' where r': "CommitUpTo app op r = Inr r'" "vr_inv cf r'"
    "r_lastCommitted r' = max (r_lastCommitted r) op" "kept r r'"
    using CommitUpTo_ok [OF assms, of op app] by blast
  have "upcalls (r_trace r') = executed (take (max ?c (unat op)) ?es)"
    using vr_inv_executed [OF r'(2)] same_op_executed [OF kept_entries [OF r'(4)]] r'(3) by (simp add: max_def word_le_nat_alt)
  also have "take (max ?c (unat op)) ?es = take ?c ?es @ drop ?c (take (unat op) ?es)"
  proof (cases "?c \<le> unat op")
    case True
    then show ?thesis
      by (metis append_take_drop_id max.absorb2 min.absorb1 take_take)
  qed (simp add: max_def)
  finally have "upcalls (r_trace r') = upcalls (r_trace r) @ executed (drop ?c (take (unat op) ?es))"
    using vr_inv_executed [OF assms] by (simp add: executed_def)
  with True r' show ?thesis by (auto simp: kept_def)
next
  case False
  then have "r_lastOp r < op" by (simp add: not_le)
  moreover have "r_lastCommitted r \<le> r_lastOp r" using assms by (simp add: inv_defs word_le_nat_alt)
  ultimately have "CommitUpTo app op r = Inl Panicked" using CommitUpTo_beyond [OF assms] by auto
  with False show ?thesis by simp
qed

lemma case_Inr_D: "(case m of Inl _ \<Rightarrow> False | Inr x \<Rightarrow> P x) \<Longrightarrow> \<exists>x. m = Inr x \<and> P x"
  by (cases m) auto

text \<open>The leader above after its first request.\<close>

definition ex_leader :: "unit vr_replica outcome" where
  "ex_leader = run1 ex_cf [RequestMessage (ex_request 1 ''a'')] (VRReplica_init ex_cf 1 ())"

lemma ex_leader_obtain:
  obtains r where "ex_leader = Inr r" and "vr_inv ex_cf r" and "r_status r = STATUS_NORMAL"
    and "AmLeader ex_cf r" and "r_view r = 0" and "r_lastOp r = 1" and "r_lastCommitted r = 0"
    and "qs_messages (r_prepareOKQuorum r) = []" and "executed (lg_entries (r_log r)) = [(1, ''a'')]"
    and "r_trace r \<noteq> []" and "upcalls (r_trace r) = []" and "r_clientAddresses r = [(7, 9)]"
    and "map_of (r_clientTable r) 7 = Some \<lparr>ct_lastReqId = 1, ct_replied = False, ct_reply = empty_reply\<rparr>"
proof -
  have "(case ex_leader of Inl _ \<Rightarrow> False | Inr r \<Rightarrow> r_status r = STATUS_NORMAL \<and> AmLeader ex_cf r \<and> r_view r = 0 \<and>
    r_lastOp r = 1 \<and> r_lastCommitted r = 0 \<and> qs_messages (r_prepareOKQuorum r) = [] \<and>
    executed (lg_entries (r_log r)) = [(1, ''a'')] \<and> r_trace r \<noteq> [] \<and> upcalls (r_trace r) = [] \<and>
    r_clientAddresses r = [(7, 9)] \<and>
    map_of (r_clientTable r) 7 = Some \<lparr>ct_lastReqId = 1, ct_replied = False, ct_reply = empty_reply\<rparr>)"
    by code_simp
  from case_Inr_D [OF this] obtain r where r: "ex_leader = Inr r" and *: "r_status r = STATUS_NORMAL \<and> AmLeader ex_cf r \<and> r_view r = 0 \<and>
    r_lastOp r = 1 \<and> r_lastCommitted r = 0 \<and> qs_messages (r_prepareOKQuorum r) = [] \<and>
    executed (lg_entries (r_log r)) = [(1, ''a'')] \<and> r_trace r \<noteq> [] \<and> upcalls (r_trace r) = [] \<and>
    r_clientAddresses r = [(7, 9)] \<and>
    map_of (r_clientTable r) 7 = Some \<lparr>ct_lastReqId = 1, ct_replied = False, ct_reply = empty_reply\<rparr>"
    by blast
  have "vr_inv ex_cf r"
    by (rule vr_reachable_inv [OF run1_reachable [OF vr_reachable.init r [unfolded ex_leader_def]]])
  with r * show thesis by (intro that) auto
qed

lemma CommitUpTo_executes_witness:
  "\<exists>r r'. ex_leader = Inr r \<and> CommitUpTo ex_app 1 r = Inr r' \<and> upcalls (r_trace r') = [(1, ''a'')] \<and>
     CommitUpTo ex_app 2 r = Inl Panicked"
proof -
  obtain r where r: "ex_leader = Inr r" "vr_inv ex_cf r" "r_lastOp r = 1" "r_lastCommitted r = 0"
    "executed (lg_entries (r_log r)) = [(1, ''a'')]" "upcalls (r_trace r) = []" by (rule ex_leader_obtain)
  from r(5) have "length (lg_entries (r_log r)) = 1" by (auto simp: executed_def)
  with CommitUpTo_executes [OF r(2), of 1 ex_app] r
  obtain r' where "CommitUpTo ex_app 1 r = Inr r'" "upcalls (r_trace r') = [(1, ''a'')]" by auto
  moreover have "CommitUpTo ex_app 2 r = Inl Panicked"
    using CommitUpTo_executes [OF r(2), of 2 ex_app] r(3) by (simp add: word_le_nat_alt)
  ultimately show ?thesis using r(1) by blast
qed

text \<open>
  \<^bold>\<open>C26\<close> A leader commits on a quorum. A vote for an operation of its log in its view
  is always handled, and it commits the log up to that operation exactly when, counting
  this vote, at least \<open>QuorumSize() - 1\<close> different replicas have voted for that view
  stamp; repeated votes of one replica count once.
\<close>

theorem HandlePrepareOK_quorum:
  assumes "vr_inv cf r" and "r_status r = STATUS_NORMAL" and "AmLeader cf r"
    and "po_view msg = r_view r" and "po_opnum msg \<le> r_lastOp r"
  defines "vs \<equiv> Viewstamp (po_view msg) (po_opnum msg)"
  shows "\<exists>r'. HandlePrepareOK cf app msg r = Inr r' \<and>
    voters (r_prepareOKQuorum r') vs = insert (po_replicaIdx msg) (voters (r_prepareOKQuorum r) vs) \<and>
    r_lastCommitted r' =
      (if QuorumSize cf - 1 \<le> int (card (insert (po_replicaIdx msg) (voters (r_prepareOKQuorum r) vs)))
       then max (r_lastCommitted r) (po_opnum msg) else r_lastCommitted r)"
proof -
  obtain msgs q where q: "qs_AddAndCheckForQuorum vs (po_replicaIdx msg) msg (r_prepareOKQuorum r) = (msgs, q)"
    by fastforce
  have qok: "qs_ok (r_prepareOKQuorum r)" "qs_numRequired (r_prepareOKQuorum r) = QuorumSize cf - 1"
    using assms(1) by (simp_all add: inv_defs)
  note A = qs_Add_ok [OF q qok(1)]
  let ?r = "r\<lparr>r_prepareOKQuorum := q\<rparr>"
  have inv: "vr_inv cf ?r" using assms(1) A(1,4) by (simp add: inv_defs)
  have H: "HandlePrepareOK cf app msg r = (case msgs of None \<Rightarrow> Inr ?r
     | Some ms \<Rightarrow> bindE (CommitUpTo app (po_opnum msg) ?r) (\<lambda>r2.
            Inr (if int (length ms) \<ge> QuorumSize cf then r2
                 else emit (Send ToAll (CommitMessage (r_view r2) (r_lastCommitted r2))) r2
                   \<lparr>r_nullCommitTimeout := True\<rparr>)))"
    using assms(2-4) q by (simp add: HandlePrepareOK_def vs_def Let_def)
  show ?thesis
  proof (cases msgs)
    case None
    then have "\<not> QuorumSize cf - 1 \<le> int (card (voters q vs))"
      using A(5) [of "qs_at q vs"] qok(2) by auto
    then show ?thesis using H None A(2) by auto
  next
    case (Some ms)
    then have quorum: "QuorumSize cf - 1 \<le> int (card (voters q vs))"
      using A(5) [of ms] qok(2) by auto
    obtain r2 where r2: "CommitUpTo app (po_opnum msg) ?r = Inr r2" "kept ?r r2"
      "r_lastCommitted r2 = max (r_lastCommitted r) (po_opnum msg)"
      using CommitUpTo_ok [OF inv, of "po_opnum msg" app] assms(5) by auto
    then have "r_prepareOKQuorum r2 = q" by (simp add: kept_def)
    then show ?thesis using H Some r2 quorum A(2) by auto
  qed
qed

lemma HandlePrepareOK_quorum_witness:
  "\<exists>r r'. ex_leader = Inr r \<and> r_lastCommitted r = 0 \<and>
    HandlePrepareOK ex_cf ex_app \<lparr>po_view = 0, po_opnum = 1, po_replicaIdx = 2\<rparr> r = Inr r' \<and>
    r_lastCommitted r' = 1"
proof -
  obtain r where r: "ex_leader = Inr r" "vr_inv ex_cf r" "r_status r = STATUS_NORMAL" "AmLeader ex_cf r"
    "r_view r = 0" "r_lastOp r = 1" "r_lastCommitted r = 0" "qs_messages (r_prepareOKQuorum r) = []"
    by (rule ex_leader_obtain)
  from HandlePrepareOK_quorum [OF r(2-4), of "\<lparr>po_view = 0, po_opnum = 1, po_replicaIdx = 2\<rparr>" ex_app]
    r show ?thesis by (auto simp: ex_cf_def QuorumSize_def voters_def qs_at_def)
qed

end
