(* ===== verification/VrBehaviour.thy ===== *)
theory VrBehaviour
  imports VrSafety
begin

text \<open>
  What single handlers of a replica do: a repeated request, a batch of new operations,
  and three places where \<open>replica.cc\<close> misbehaves.
\<close>

section \<open>Requests and batches\<close>

text \<open>
  At most once. A request whose number is not above the last one of its client
  changes neither the log nor the application, the client table or the votes: a leader
  repeats the stored reply if the request is the client's last and has been answered,
  and sends nothing otherwise.
\<close>

theorem HandleRequest_at_most_once:
  assumes "map_of (r_clientTable r) (rq_clientid req) = Some e" and "rq_clientreqid req \<le> ct_lastReqId e"
  shows "\<exists>r'. HandleRequest cf app remote req r = Inr r' \<and> r_log r' = r_log r \<and> r_lastOp r' = r_lastOp r \<and>
    r_lastCommitted r' = r_lastCommitted r \<and> r_app r' = r_app r \<and> r_clientTable r' = r_clientTable r \<and>
    r_prepareOKQuorum r' = r_prepareOKQuorum r \<and>
    r_trace r' = r_trace r @ (if r_status r = STATUS_NORMAL \<and> AmLeader cf r \<and>
        rq_clientreqid req = ct_lastReqId e \<and> ct_replied e
      then [Send (ToAddress remote) (ReplyMessage (ct_reply e))] else [])"
proof (cases "r_status r = STATUS_NORMAL \<and> AmLeader cf r")
  case True
  let ?r = "r\<lparr>r_clientAddresses := um_put (rq_clientid req) remote (um_erase (rq_clientid req) (r_clientAddresses r))\<rparr>"
  have "HandleRequest cf app remote req r = Inr (if rq_clientreqid req = ct_lastReqId e \<and> ct_replied e
      then emit (Send (ToAddress remote) (ReplyMessage (ct_reply e))) ?r else ?r)"
    using True assms by (simp add: HandleRequest_def Let_def)
  with True show ?thesis by simp
next
  case False
  then have "HandleRequest cf app remote req r = Inr r" by (simp add: HandleRequest_def)
  with False show ?thesis by auto
qed

lemma HandleRequest_at_most_once_witness:
  "\<exists>r r'. ex_leader = Inr r \<and> HandleRequest ex_cf ex_app 9 (ex_request 1 ''a'') r = Inr r' \<and>
     r_lastOp r' = 1 \<and> r_trace r' = r_trace r"
proof -
  obtain r where r: "ex_leader = Inr r" "r_lastOp r = 1"
    "map_of (r_clientTable r) 7 = Some \<lparr>ct_lastReqId = 1, ct_replied = False, ct_reply = empty_reply\<rparr>"
    by (rule ex_leader_obtain)
  have "map_of (r_clientTable r) (rq_clientid (ex_request 1 ''a'')) =
    Some \<lparr>ct_lastReqId = 1, ct_replied = False, ct_reply = empty_reply\<rparr>"
    using r(3) by (simp add: ex_request_def)
  from HandleRequest_at_most_once [OF this, of ex_cf ex_app 9] r(1,2) show ?thesis
    by (auto simp: ex_request_def)
qed

text \<open>The entries a batch adds, the operation numbers counting from \<open>op + 1\<close>.\<close>

fun batch_entries :: "u64 \<Rightarrow> u64 \<Rightarrow> vr_request list \<Rightarrow> log_entry list" where
  "batch_entries v op [] = []"
| "batch_entries v op (req # reqs) = new_entry (Viewstamp v (op + 1)) req # batch_entries v (op + 1) reqs"

lemma prepare_requests_appends:
  assumes "prepare_requests v reqs op r = Inr (op', r')" and "vr_inv cf r"
    and "unat op \<le> unat (r_lastOp r)" and "unat op + length reqs < 2 ^ 64"
  shows "lg_entries (r_log r') = lg_entries (r_log r) @ drop (unat (r_lastOp r) - unat op) (batch_entries v op reqs) \<and>
    unat op' = unat op + length reqs \<and> r_lastOp r' = max (r_lastOp r) op' \<and> r_trace r' = r_trace r \<and>
    r_lastCommitted r' = r_lastCommitted r \<and> r_view r' = r_view r \<and> vr_inv cf r'"
  using assms
proof (induction v reqs op r rule: prepare_requests.induct)
  case (1 v op r)
  then show ?case by (auto simp: max_def word_le_nat_alt word_eq_unat_64)
next
  case (2 v req reqs op r)
  have u: "unat (op + 1) = Suc (unat op)" using 2(6) by (simp add: unat_word_ariths)
  show ?case
  proof (cases "op + 1 \<le> r_lastOp r")
    case True
    then have "unat (op + 1) \<le> unat (r_lastOp r)" by (simp add: word_le_nat_alt)
    moreover have "unat (r_lastOp r) - unat op = Suc (unat (r_lastOp r) - unat (op + 1))"
      using calculation u by linarith
    moreover have "prepare_requests v reqs (op + 1) r = Inr (op', r')" using 2(3) True by (simp add: Let_def)
    ultimately show ?thesis using 2(1) [OF refl True _ 2(4)] 2(6) u by simp
  next
    case False
    then have eq: "r_lastOp r = op" using 2(5) u by (simp add: word_le_nat_alt word_eq_unat_64)
    have nz: "op + 1 \<noteq> 0" using u by auto
    from False 2(3) obtain r1 r2 where
      r1: "log_append (Viewstamp v (op + 1)) req (r\<lparr>r_lastOp := r_lastOp r + 1\<rparr>) = Inr r1"
      and r2: "UpdateClientTable req r1 = Inr r2" "prepare_requests v reqs (op + 1) r2 = Inr (op', r')"
      by (auto simp: Let_def)
    note A = append_new_op [OF 2(4) nz r1]
    have lo: "r_lastOp r2 = op + 1" and es: "lg_entries (r_log r2) = lg_entries (r_log r) @ [new_entry (Viewstamp v (op + 1)) req]"
      and tr: "r_trace r2 = r_trace r" "r_lastCommitted r2 = r_lastCommitted r" "r_view r2 = r_view r"
      using A(4) UpdateClientTable_inv [OF r2(1)]
        arg_cong [where f = r_lastOp, OF A(5)] arg_cong [where f = r_trace, OF A(5)]
        arg_cong [where f = r_lastCommitted, OF A(5)] arg_cong [where f = r_view, OF A(5)] by simp_all
    have inv: "vr_inv cf r2" using A(1) UpdateClientTable_inv(1) [OF r2(1)] by simp
    note IH = 2(2) [OF refl False r2(2) inv]
    have le: "unat (op + 1) \<le> unat (r_lastOp r2)" using lo by simp
    have fits: "unat (op + 1) + length reqs < 2 ^ 64" using 2(6) u by simp
    note I = IH [OF le fits]
    then have op': "unat op' = unat op + length (req # reqs)" using u by simp
    then have "op + 1 \<le> op'" and "op \<le> op'" using u by (simp_all add: word_le_nat_alt)
    then have "max (r_lastOp r2) op' = op'" and "max (r_lastOp r) op' = op'"
      by (simp_all add: lo eq max_absorb2)
    moreover have "drop (unat (r_lastOp r) - unat op) (batch_entries v op (req # reqs)) =
      new_entry (Viewstamp v (op + 1)) req # batch_entries v (op + 1) reqs" by (simp add: eq)
    moreover have "drop (unat (r_lastOp r2) - unat (op + 1)) (batch_entries v (op + 1) reqs) =
      batch_entries v (op + 1) reqs" by (simp add: lo)
    ultimately show ?thesis using I es tr op' by simp
  qed
qed

text \<open>
  A follower that accepts a batch reaching beyond its log adds exactly the requests
  it does not have yet, with the batch's view and consecutive numbers, executes nothing,
  and acknowledges the batch's last operation to the leader.
\<close>

theorem HandlePrepare_appends:
  assumes "HandlePrepare cf remote msg r = Inr r'" and "vr_inv cf r" and "r_status r = STATUS_NORMAL"
    and "pm_view msg = r_view r" and "0 < unat (pm_batchstart msg)"
    and "unat (pm_batchstart msg) \<le> unat (r_lastOp r) + 1" and "r_lastOp r < pm_opnum msg"
    and "length (pm_request msg) < 2 ^ 64"
  shows "lg_entries (r_log r') = lg_entries (r_log r) @ drop (unat (r_lastOp r) + 1 - unat (pm_batchstart msg))
      (batch_entries (r_view r) (pm_batchstart msg - 1) (pm_request msg)) \<and>
    r_lastOp r' = pm_opnum msg \<and> r_lastCommitted r' = r_lastCommitted r \<and>
    r_trace r' = r_trace r @ [Send (ToReplica (GetLeaderIndex cf (r_view r)))
      (PrepareOKMessage \<lparr>po_view = r_view r, po_opnum = pm_opnum msg, po_replicaIdx = cf_myIdx cf\<rparr>)]"
proof -
  let ?op = "pm_batchstart msg - 1" and ?r = "r\<lparr>r_viewChangeTimeout := True\<rparr>"
  have nl: "\<not> AmLeader cf r" using assms(1,3,4) by (auto simp: HandlePrepare_def)
  have lo: "\<not> pm_opnum msg \<le> r_lastOp r" using assms(7) by simp
  have "unat (r_lastOp r + 1) = unat (r_lastOp r) + 1" using unat_Suc_64 [OF assms(7)] by simp
  then have bs: "\<not> pm_batchstart msg > r_lastOp r + 1" using assms(6) by (simp add: word_less_nat_alt)
  from assms(1,3,4) nl lo bs obtain r2 where len: "pm_batchstart msg \<le> pm_opnum msg"
      "pm_opnum msg - pm_batchstart msg + 1 = of_nat (length (pm_request msg))"
    and r2: "prepare_requests (r_view r) (pm_request msg) ?op ?r = Inr (pm_opnum msg, r2)"
    and r': "r' = prepare_ok cf (r_view r) (pm_opnum msg) r2"
    by (auto simp: HandlePrepare_def Let_def)
  have op: "unat ?op = unat (pm_batchstart msg) - 1" using assms(5) by (rule unat_pred_64)
  have d: "unat (pm_opnum msg - pm_batchstart msg) = unat (pm_opnum msg) - unat (pm_batchstart msg)"
    using len(1) by (rule unat_sub)
  have o64: "unat (pm_opnum msg) < 2 ^ 64" by (rule unat_64_less)
  have "unat (pm_opnum msg - pm_batchstart msg) + 1 < 2 ^ 64" using d assms(5) o64 len(1) [unfolded word_le_nat_alt] by linarith
  then have "unat (pm_opnum msg - pm_batchstart msg + 1) = unat (pm_opnum msg) - unat (pm_batchstart msg) + 1"
    using d unat_succ_64 by metis
  moreover have "unat (of_nat (length (pm_request msg)) :: u64) = length (pm_request msg)"
    using assms(8) by (simp add: unsigned_of_nat take_bit_nat_eq_self)
  ultimately have "length (pm_request msg) = unat (pm_opnum msg) - unat (pm_batchstart msg) + 1" using len(2) by metis
  then have fits: "unat ?op + length (pm_request msg) < 2 ^ 64"
    using op len(1) assms(5) o64 by (simp add: word_le_nat_alt)
  have inv: "vr_inv cf ?r" using assms(2) by simp
  have le: "unat ?op \<le> unat (r_lastOp ?r)" using op assms(6) by simp
  have skip: "unat (r_lastOp r) - unat ?op = unat (r_lastOp r) + 1 - unat (pm_batchstart msg)"
    using op assms(5) by linarith
  have "max (r_lastOp r) (pm_opnum msg) = pm_opnum msg" using assms(7) by simp
  with prepare_requests_appends [OF r2 inv le fits] skip show ?thesis
    by (simp add: r') (simp add: prepare_ok_def)
qed

definition ex_batch :: prepare_message where
  "ex_batch = \<lparr>pm_view = 0, pm_opnum = 2, pm_batchstart = 1, pm_request = [ex_request 1 ''a'', ex_request 2 ''b'']\<rparr>"

lemma HandlePrepare_appends_witness:
  "\<exists>r'. HandlePrepare (ex_cf\<lparr>cf_myIdx := 1\<rparr>) 9 ex_batch (VRReplica_init (ex_cf\<lparr>cf_myIdx := 1\<rparr>) 1 ()) = Inr r' \<and>
     lg_entries (r_log r') = batch_entries 0 0 [ex_request 1 ''a'', ex_request 2 ''b''] \<and> r_lastOp r' = 2"
proof -
  let ?cf = "ex_cf\<lparr>cf_myIdx := 1\<rparr>"
  let ?i = "VRReplica_init ?cf 1 () :: unit vr_replica"
  have "(case HandlePrepare ?cf 9 ex_batch ?i of Inl _ \<Rightarrow> False | Inr _ \<Rightarrow> True)" by code_simp
  then obtain r' where r': "HandlePrepare ?cf 9 ex_batch ?i = Inr r'"
    by (cases "HandlePrepare ?cf 9 ex_batch ?i") auto
  have i: "r_status ?i = STATUS_NORMAL" "r_view ?i = 0" "r_lastOp ?i = 0" "lg_entries (r_log ?i) = []"
    by (simp_all add: VRReplica_init_def Let_def)
  from HandlePrepare_appends [OF r' vr_inv_init i(1)] i r' show ?thesis
    by (simp add: ex_batch_def word_less_nat_alt)
qed

end
