(* ===== verification/VrFaults.thy ===== *)
theory VrFaults
  imports VrBehaviour
begin

text \<open>
  Four places where \<open>replica.cc\<close> does not do what it means to: state transfer drops the
  postponed prepares, an empty \<open>StartView\<close> leaves entries in the log that stop the
  replica at the next prepare, the new leader of a view reads a destroyed message, and a
  leader that adopted a longer log cannot close its first batch.
\<close>

section \<open>State transfer drops the postponed prepares\<close>

definition with_pending :: "(addr \<times> prepare_message) list \<Rightarrow> 'a vr_replica \<Rightarrow> 'a vr_replica" where
  "with_pending ps r = r\<lparr>r_pendingPrepares := ps\<rparr>"

lemma with_pending_simps [simp]:
  "r_log (with_pending ps r) = r_log r" "r_lastOp (with_pending ps r) = r_lastOp r"
  "r_lastCommitted (with_pending ps r) = r_lastCommitted r" "r_view (with_pending ps r) = r_view r"
  "r_pendingPrepares (with_pending ps r) = ps" "with_pending ps (with_pending ps' r) = with_pending ps r"
  "ct_ref (with_pending ps r) i = ct_ref r i"
  "r_clientAddresses (with_pending ps r) = r_clientAddresses r" "r_app (with_pending ps r) = r_app r"
  by (simp_all add: with_pending_def ct_ref_def)

lemma with_pending_update [simp]:
  "with_pending ps r\<lparr>r_log := lg\<rparr> = with_pending ps (r\<lparr>r_log := lg\<rparr>)"
  "with_pending ps r\<lparr>r_lastOp := op\<rparr> = with_pending ps (r\<lparr>r_lastOp := op\<rparr>)"
  "with_pending ps r\<lparr>r_lastCommitted := op\<rparr> = with_pending ps (r\<lparr>r_lastCommitted := op\<rparr>)"
  "with_pending ps r\<lparr>r_app := a\<rparr> = with_pending ps (r\<lparr>r_app := a\<rparr>)"
  "emit ev (with_pending ps r) = with_pending ps (emit ev r)"
  "ct_set i e (with_pending ps r) = with_pending ps (ct_set i e r)"
  "prepare_ok cf v op (with_pending ps r) = with_pending ps (prepare_ok cf v op r)"
  by (simp_all add: with_pending_def emit_def ct_set_def prepare_ok_def)

lemma map_bindE: "map_sum id g (bindE m f) = bindE m (\<lambda>x. map_sum id g (f x))"
  by (cases m) simp_all

lemma bindE_map: "bindE (map_sum id g m) f = bindE m (\<lambda>x. f (g x))"
  by (cases m) simp_all

lemma map_assertE: "map_sum id g (assertE b m) = assertE b (map_sum id g m)"
  by (cases b) simp_all

lemma map_cases:
  "map_sum id g (case x of None \<Rightarrow> a | Some y \<Rightarrow> f y) =
    (case x of None \<Rightarrow> map_sum id g a | Some y \<Rightarrow> map_sum id g (f y))"
  "map_sum id g (case p of (y, z) \<Rightarrow> h y z) = (case p of (y, z) \<Rightarrow> map_sum id g (h y z))"
  "map_sum id g (if b then m1 else m2) = (if b then map_sum id g m1 else map_sum id g m2)"
  by (simp_all split: option.split prod.split)

lemmas map_outcome = map_bindE bindE_map map_assertE map_cases

lemma foldE_commute:
  assumes "\<And>x s. f x (g s) = map_sum id g (f x s)"
  shows "foldE f xs (g s) = map_sum id g (foldE f xs s)"
  by (induction xs arbitrary: s) (simp_all add: assms map_outcome)

lemma log_append_pending [simp]:
  "log_append vs req (with_pending ps r) = map_sum id (with_pending ps) (log_append vs req r)"
  by (simp add: log_append_def map_outcome)

lemma transfer_entry_pending:
  "transfer_entry m (map_prod (with_pending ps) id s) = map_sum id (map_prod (with_pending ps) id) (transfer_entry m s)"
  by (cases s) (simp add: transfer_entry_def Let_def map_outcome cong: option.case_cong if_cong)

lemma commit_next_pending:
  "commit_next app (with_pending ps r) = map_sum id (with_pending ps) (commit_next app r)"
proof (cases "Log_Find (r_lastCommitted r + 1) (r_log r)")
  case (Inr f)
  show ?thesis
  proof (cases f)
    case (Some e)
    obtain res a where up: "ReplicaUpcall app (r_lastCommitted r + 1) (rq_op (e_request e)) (r_app r) = (res, a)"
      by fastforce
    show ?thesis
      by (cases "Log_SetStatus (r_lastCommitted r + 1) LOG_STATE_COMMITTED (r_log r)")
        (auto simp: commit_next_def Let_def Inr Some up split: option.split)
  qed (simp add: commit_next_def Let_def Inr)
qed (simp add: commit_next_def Let_def)

lemma CommitUpTo_pending:
  "CommitUpTo app op (with_pending ps r) = map_sum id (with_pending ps) (CommitUpTo app op r)"
proof -
  have "commit_times k app (with_pending ps r) = map_sum id (with_pending ps) (commit_times k app r)" for k
    by (induction k arbitrary: r) (simp_all add: commit_next_pending map_outcome)
  then show ?thesis by (simp add: CommitUpTo_def)
qed

lemma UpdateClientTable_pending [simp]:
  "UpdateClientTable req (with_pending ps r) = map_sum id (with_pending ps) (UpdateClientTable req r)"
  by (simp add: UpdateClientTable_def Let_def map_outcome)

lemma SendPrepareOKs_pending:
  "SendPrepareOKs cf old (with_pending ps r) = map_sum id (with_pending ps) (SendPrepareOKs cf old r)"
  unfolding SendPrepareOKs_def Let_def with_pending_simps
  by (rule foldE_commute) (simp add: map_outcome cong: option.case_cong if_cong)

lemma EnterView_pending: "EnterView cf v (with_pending ps r) = with_pending ps (EnterView cf v r)"
  by (simp add: EnterView_def Let_def AmLeader_def with_pending_def)

text \<open>
  Postponed prepares are lost. Whatever \<open>Prepare\<close> messages a replica has put
  aside until the state transfer, a \<open>StateTransfer\<close> message that is not stale has the
  same effect as if there were none: the code empties the list before it goes through
  it, so no postponed prepare is ever handled.
\<close>

theorem HandleStateTransfer_drops_pending:
  fixes r :: "'a vr_replica"
  assumes "\<not> st_view msg < r_view r"
  shows "HandleStateTransfer cf app msg (r\<lparr>r_pendingPrepares := ps\<rparr>) =
    HandleStateTransfer cf app msg (r\<lparr>r_pendingPrepares := []\<rparr>)"
proof -
  have H: "HandleStateTransfer cf app msg (with_pending ps r) = HandleStateTransfer cf app msg r" for ps
  proof -
    have "foldE transfer_entry (st_entries msg) (with_pending ps r, r_lastOp r) =
      map_sum id (map_prod (with_pending ps) id) (foldE transfer_entry (st_entries msg) (r, r_lastOp r))"
      using foldE_commute [where f = transfer_entry, OF transfer_entry_pending, of _ ps "(r, r_lastOp r)"] by simp
    moreover have enter: "(if b then EnterView cf v (with_pending ps r1) else with_pending ps r1) =
      with_pending ps (if b then EnterView cf v r1 else r1)" for b v and r1 :: "'a vr_replica"
      by (simp add: EnterView_pending)
    moreover have clear: "with_pending ps r1\<lparr>r_pendingPrepares := []\<rparr> = r1\<lparr>r_pendingPrepares := []\<rparr>" for r1 :: "'a vr_replica"
      by (simp add: with_pending_def)
    ultimately show ?thesis using assms
      by (cases "foldE transfer_entry (st_entries msg) (r, r_lastOp r)")
        (auto simp: HandleStateTransfer_def Let_def bindE_map CommitUpTo_pending SendPrepareOKs_pending enter
          simp del: if_split)
  qed
  show ?thesis using H [of ps] H [of "[]"] by (simp add: with_pending_def)
qed

lemma HandleStateTransfer_drops_pending_witness:
  "\<exists>r'. HandleStateTransfer (ex_cf\<lparr>cf_myIdx := 1\<rparr>) ex_app \<lparr>st_view = 0, st_opnum = 0, st_entries = []\<rparr>
      (VRReplica_init (ex_cf\<lparr>cf_myIdx := 1\<rparr>) 1 ()\<lparr>r_pendingPrepares := [(9, ex_batch)]\<rparr>) = Inr r' \<and>
    r_lastOp r' = 0 \<and> r_pendingPrepares r' = []"
proof -
  let ?cf = "ex_cf\<lparr>cf_myIdx := 1\<rparr>" and ?m = "\<lparr>st_view = 0, st_opnum = 0, st_entries = []\<rparr>"
  let ?i = "VRReplica_init ?cf 1 () :: unit vr_replica"
  have "(case HandleStateTransfer ?cf ex_app ?m (?i\<lparr>r_pendingPrepares := []\<rparr>) of Inl _ \<Rightarrow> False
    | Inr r' \<Rightarrow> r_lastOp r' = 0 \<and> r_pendingPrepares r' = [])" by code_simp
  note empty = case_Inr_D [OF this]
  have "\<not> st_view ?m < r_view ?i" by (simp add: VRReplica_init_def Let_def)
  from empty HandleStateTransfer_drops_pending [OF this, of ?cf ex_app "[(9, ex_batch)]"] show ?thesis by simp
qed

section \<open>An empty StartView leaves stale entries\<close>

lemma CommitUpTo_done: "op \<le> r_lastCommitted r \<Longrightarrow> CommitUpTo app op r = Inr r"
  by (simp add: CommitUpTo_def word_le_nat_alt)

text \<open>
  A \<open>StartView\<close> without entries, as a leader with an empty log sends it, does not
  remove what the receiver has in its log, although it sets \<open>lastOp\<close> to 0. The next
  prepare of that view then fails the assertion of \<open>Log::Append\<close>: the replica stops.
\<close>

theorem StartView_stale_entries_assert:
  assumes "vr_inv cf r" and "r_lastCommitted r = 0" and "lg_entries (r_log r) \<noteq> []"
    and "r_view r < v" and "GetLeaderIndex cf v \<noteq> cf_myIdx cf"
    and "pm_view msg = v" and "pm_batchstart msg = 1" and "pm_request msg \<noteq> []"
    and "pm_opnum msg = of_nat (length (pm_request msg))" and "length (pm_request msg) < 2 ^ 64"
  shows "\<exists>r'. HandleStartView cf app \<lparr>sv_view = v, sv_lastOp = 0, sv_lastCommitted = 0, sv_entries = []\<rparr> r = Inr r' \<and>
    r_lastOp r' = 0 \<and> r_log r' = r_log r \<and> HandlePrepare cf remote msg r' = Inl AssertFailed"
proof -
  let ?r = "EnterView cf v r\<lparr>r_lastOp := 0\<rparr>"
  have nl: "\<not> AmLeader cf ?r" using assms(5) by (simp add: AmLeader_def)
  have "unat (r_lastOp r) \<noteq> 0" using assms(1,3) by (simp add: vr_inv_def)
  then have "[unat (r_lastOp r)..<Suc 0] = []" by simp
  then have oks: "SendPrepareOKs cf (r_lastOp r) ?r = Inr ?r" by (simp add: SendPrepareOKs_def del: upt_Suc)
  have H: "HandleStartView cf app \<lparr>sv_view = v, sv_lastOp = 0, sv_lastCommitted = 0, sv_entries = []\<rparr> r = Inr ?r"
    unfolding HandleStartView_def install_entries_def
    by (simp add: less_not_sym [OF assms(4)] less_imp_neq [OF assms(4), symmetric] assms(2,5) Let_def nl
      CommitUpTo_done oks)
  obtain req reqs where req: "pm_request msg = req # reqs" using assms(8) by (cases "pm_request msg") auto
  have "unat (pm_opnum msg) = length (pm_request msg)"
    using assms(10) by (simp add: assms(9) unsigned_of_nat take_bit_nat_eq_self)
  then have u: "unat (pm_opnum msg) = Suc (length reqs)" using req by simp
  have ok: "log_ok (r_log r)" and st: "unat (lg_start (r_log r)) = 1" using assms(1) by (simp_all add: inv_defs)
  have "lg_entries (r_log r) \<noteq> [] \<and> unat (LastOpnum (r_log r)) \<noteq> 0"
    using LastOpnum_ok [OF ok] st assms(3) by simp
  then have "1 \<noteq> (if lg_entries (r_log r) = [] then lg_start (r_log r) else LastOpnum (r_log r) + 1)" by auto
  then have "Log_Append no_hash (Viewstamp v 1) req LOG_STATE_PREPARED (r_log r) = Inl AssertFailed"
    by (intro Log_Append_asserts) simp
  then have ap: "prepare_requests v (req # reqs) 0 (?r\<lparr>r_viewChangeTimeout := True\<rparr>) = Inl AssertFailed"
    by (simp add: log_append_def)
  have "0 < pm_opnum msg" and "1 \<le> pm_opnum msg" using u by (simp_all add: word_less_nat_alt word_le_nat_alt)
  moreover have "pm_opnum msg - 1 + 1 = of_nat (length (pm_request msg))" using assms(9) by simp
  moreover have "\<not> AmLeader cf (?r\<lparr>r_viewChangeTimeout := True\<rparr>)" using assms(5) by (simp add: AmLeader_def)
  ultimately have "HandlePrepare cf remote msg ?r = Inl AssertFailed"
    using assms(6,7) nl ap req by (simp add: HandlePrepare_def Let_def)
  then show ?thesis using H by auto
qed

text \<open>
  The leader of view 0 with one operation that reached nobody, told by the leader of
  view 1 that its log is empty.
\<close>

lemma StartView_stale_entries_assert_witness:
  "\<exists>r r'. ex_leader = Inr r \<and>
    HandleStartView ex_cf ex_app \<lparr>sv_view = 1, sv_lastOp = 0, sv_lastCommitted = 0, sv_entries = []\<rparr> r = Inr r' \<and>
    HandlePrepare ex_cf 9 \<lparr>pm_view = 1, pm_opnum = 1, pm_batchstart = 1, pm_request = [ex_request 2 ''b'']\<rparr> r'
      = Inl AssertFailed"
proof -
  obtain r where r: "ex_leader = Inr r" "vr_inv ex_cf r" "r_view r = 0" "r_lastCommitted r = 0"
    "executed (lg_entries (r_log r)) = [(1, ''a'')]" by (rule ex_leader_obtain)
  have es: "lg_entries (r_log r) \<noteq> []" using r(5) by (auto simp: executed_def)
  have v: "r_view r < 1" "GetLeaderIndex ex_cf 1 \<noteq> cf_myIdx ex_cf"
    using r(3) by (simp_all add: ex_cf_def GetLeaderIndex_def)
  from StartView_stale_entries_assert [OF r(2,4) es v, of "\<lparr>pm_view = 1, pm_opnum = 1, pm_batchstart = 1,
      pm_request = [ex_request 2 ''b'']\<rparr>" ex_app 9] r(1) show ?thesis by auto
qed

section \<open>The latest log of a view change\<close>

lemma latest_dvc_max:
  "latest_dvc ms vs = (best, m) \<Longrightarrow> vs \<le> best \<and>
   (\<forall>x \<in> snd ` set ms. Viewstamp (dvc_lastNormalView x) (dvc_lastOp x) \<le> best)"
proof (induction ms arbitrary: best m rule: rev_induct)
  case (snoc p ms)
  obtain b0 m0 where b0: "latest_dvc ms vs = (b0, m0)" by fastforce
  obtain i x where p: "p = (i, x)" by fastforce
  let ?x = "Viewstamp (dvc_lastNormalView x) (dvc_lastOp x)"
  have "best = max b0 ?x"
    using snoc.prems b0
    by (auto simp: latest_dvc_def p max_def less_eq_viewstamp_def Viewstamp_Compare_def viewstamp.expand split: if_splits)
  with snoc.IH [OF b0] show ?case by (auto simp: p le_max_iff_disj)
qed (simp add: latest_dvc_def)

text \<open>
  When the vote that completes the quorum of a view change arrives and one of the
  collected messages has a later log than the new leader itself, the handler reads the
  message it chose after the copy it points to is gone. If such a read faults, the
  replica never enters the view; and if no message has a later log, the read never happens.
\<close>

theorem DoViewChange_reads_destroyed:
  assumes "r_view r < dvc_view msg" and "GetLeaderIndex cf (dvc_view msg) = cf_myIdx cf"
    and "qs_AddAndCheckForQuorum (dvc_view msg) (dvc_replicaIdx msg) msg (r_doViewChangeQuorum r) = (Some ms, q)"
  shows "if \<exists>x \<in> snd ` set ms. LastViewstamp (r_log r) < Viewstamp (dvc_lastNormalView x) (dvc_lastOp x)
    then HandleDoViewChange (\<lambda>_. None) cf app msg r = Inl UndefinedBehaviour
    else HandleDoViewChange dead cf app msg r = HandleDoViewChange dead' cf app msg r"
proof -
  obtain best latest where l: "latest_dvc ms (LastViewstamp (r_log r)) = (best, latest)" by fastforce
  have frame: "r_doViewChangeQuorum (StartViewChange cf v r) = r_doViewChangeQuorum r" for v
    by (simp add: StartViewChange_def emit_def)
  have new: "\<not> dvc_view msg < r_view r" "\<not> (dvc_view msg = r_view r \<and> r_status r \<noteq> STATUS_VIEW_CHANGE)"
    "r_status r \<noteq> STATUS_VIEW_CHANGE \<or> dvc_view msg > r_view r"
    using less_not_sym [OF assms(1)] less_imp_neq [OF assms(1), symmetric] assms(1) by simp_all
  have H: "HandleDoViewChange d cf app msg r = (bindE (case latest of
                   None \<Rightarrow> Inr (None, StartViewChange cf (dvc_view msg) r\<lparr>r_doViewChangeQuorum := q\<rparr>)
                 | Some m0 \<Rightarrow>
                     (case d m0 of
                        None \<Rightarrow> Inl UndefinedBehaviour
                      | Some m \<Rightarrow> bindE (install_entries
                          (r_lastCommitted (StartViewChange cf (dvc_view msg) r\<lparr>r_doViewChangeQuorum := q\<rparr>) =
                             dvc_lastCommitted msg \<and> dvc_lastOp msg = dvc_lastCommitted msg)
                          (dvc_lastOp m) (dvc_entries m)
                          (StartViewChange cf (dvc_view msg) r\<lparr>r_doViewChangeQuorum := q\<rparr>)) (\<lambda>r2. Inr (Some m, r2))))
                 (\<lambda>(latest', r2). lead_new_view cf app (dvc_view msg) (vs_opnum best) latest' ms r2))" for d
    unfolding HandleDoViewChange_def if_not_P [OF new(1)] if_not_P [OF new(2)] if_P [OF new(3)] Let_def
    by (simp add: assms(2,3) l frame)
  show ?thesis
  proof (cases "\<exists>x \<in> snd ` set ms. LastViewstamp (r_log r) < Viewstamp (dvc_lastNormalView x) (dvc_lastOp x)")
    case True
    then have "LastViewstamp (r_log r) < best" using latest_dvc_max [OF l] by (auto dest: less_le_trans)
    then obtain m0 where "latest = Some m0" using latest_dvc_cases [OF l] by auto
    then show ?thesis using True H by simp
  next
    case False
    then have "latest = None" using latest_dvc_cases [OF l] by auto
    then show ?thesis using False H by simp
  qed
qed

definition ex_dvc :: do_view_change_message where
  "ex_dvc = \<lparr>dvc_view = 1, dvc_lastNormalView = 0, dvc_lastOp = 1, dvc_lastCommitted = 0,
     dvc_entries = [\<lparr>lm_view = 0, lm_opnum = 1, lm_request = ex_request 1 ''a'',
       lm_state = LOG_STATE_PREPARED, lm_hash = []\<rparr>], dvc_replicaIdx = 2\<rparr>"

lemma DoViewChange_reads_destroyed_witness:
  "HandleDoViewChange (\<lambda>_. None) (ex_cf\<lparr>cf_myIdx := 1\<rparr>) ex_app ex_dvc (VRReplica_init (ex_cf\<lparr>cf_myIdx := 1\<rparr>) 1 ())
    = Inl UndefinedBehaviour"
proof -
  let ?cf = "ex_cf\<lparr>cf_myIdx := 1\<rparr>"
  let ?i = "VRReplica_init ?cf 1 () :: unit vr_replica"
  have "qs_AddAndCheckForQuorum (dvc_view ex_dvc) (dvc_replicaIdx ex_dvc) ex_dvc (r_doViewChangeQuorum ?i) =
    (Some [(2, ex_dvc)], snd (qs_AddAndCheckForQuorum (dvc_view ex_dvc) (dvc_replicaIdx ex_dvc) ex_dvc (r_doViewChangeQuorum ?i)))"
    by (simp add: VRReplica_init_def Let_def qs_AddAndCheckForQuorum_def qs_CheckForQuorum_def qs_at_def
      QuorumSet_init_def QuorumSize_def ex_cf_def ex_dvc_def)
  from DoViewChange_reads_destroyed [OF _ _ this, of ?cf ex_app] show ?thesis
    by (simp add: VRReplica_init_def Let_def ex_dvc_def ex_cf_def GetLeaderIndex_def LastViewstamp_def
      less_viewstamp_def Viewstamp_Compare_def)
qed

section \<open>The first batch of a new leader\<close>

lemma CloseBatch_asserts:
  assumes "log_inv cf r" and "r_lastBatchEnd r < r_lastOp r"
    and "unat (r_lastBatchEnd r) < length (lg_entries (r_log r))"
    and "vs_view (e_viewstamp (lg_entries (r_log r) ! unat (r_lastBatchEnd r))) \<noteq> r_view r"
  shows "CloseBatch cf' r = Inl AssertFailed"
proof (cases "AmLeader cf' r")
  case False
  then show ?thesis by (simp add: CloseBatch_def)
next
  case True
  have u: "unat (r_lastBatchEnd r + 1) = Suc (unat (r_lastBatchEnd r))" using unat_Suc_64 [OF assms(2)] .
  have lt: "unat (r_lastBatchEnd r) < unat (r_lastOp r)" using assms(2) by (simp add: word_less_nat_alt)
  have upt: "[Suc (unat (r_lastBatchEnd r))..<Suc (unat (r_lastOp r))] =
    Suc (unat (r_lastBatchEnd r)) # [Suc (Suc (unat (r_lastBatchEnd r)))..<Suc (unat (r_lastOp r))]"
    using lt by (simp add: upt_conv_Cons)
  have "Log_Find (1 + r_lastBatchEnd r) (r_log r) =
    Inr (Some (lg_entries (r_log r) ! unat (r_lastBatchEnd r)))"
    using find_op [OF assms(1), of "r_lastBatchEnd r + 1"] u assms(3) by (simp add: add.commute)
  then show ?thesis using True assms(2,4) unfolding CloseBatch_def u upt by (simp del: upt_Suc)
qed

text \<open>
  A new leader that adopted a longer log cannot close its first batch.
  \<open>EnterView\<close> sets \<open>lastBatchEnd\<close> to the old \<open>lastOp\<close>, and only then is \<open>lastOp\<close> moved to
  the end of the adopted log; so the first batch starts inside the adopted entries, which
  are of older views, and the assertion of \<open>CloseBatch\<close> on the view fails.
\<close>

theorem new_leader_first_batch_asserts:
  assumes "lead_new_view cf app v latestOp latest ms r = Inr r'" and "log_inv cf r"
    and "length (lg_entries (r_log r)) = unat latestOp" and "r_lastOp r < latestOp"
    and "vs_view (e_viewstamp (lg_entries (r_log r) ! unat (r_lastOp r))) \<noteq> v"
  shows "r_lastBatchEnd r' = r_lastOp r \<and> r_lastOp r' = latestOp \<and> CloseBatch cf r' = Inl AssertFailed"
proof -
  let ?enter = "\<lambda>q. EnterView cf v (r\<lparr>r_startViewChangeQuorum := q\<rparr>)\<lparr>r_lastOp := latestOp\<rparr>"
  from assms(1) obtain q r4 m where
    r4: "(case latest of None \<Rightarrow> Inr (?enter q) | Some m \<Rightarrow> CommitUpTo app (dvc_lastCommitted m) (?enter q)) = Inr r4"
    and r': "r' = emit (Send ToAll m) r4"
    unfolding lead_new_view_def Let_def by (auto split: prod.splits)
  have "log_inv cf (r\<lparr>r_startViewChangeQuorum := q\<rparr>)" using assms(2) by (simp add: log_inv_def quorums_ok_def)
  then have inv: "vr_inv cf (?enter q)" using assms(3) by (intro enter_installed) simp_all
  have be: "r_lastBatchEnd (?enter q) = r_lastOp r" by (simp add: EnterView_def Let_def)
  have "vr_inv cf r4 \<and> kept (?enter q) r4"
  proof (cases latest)
    case None
    then have "r4 = ?enter q" using r4 by simp
    then show ?thesis using inv by simp
  next
    case (Some m)
    with r4 have "CommitUpTo app (dvc_lastCommitted m) (?enter q) = Inr r4" by simp
    from CommitUpTo_Inr [OF inv this] show ?thesis by simp
  qed
  then have inv4: "log_inv cf r4" and k: "kept (?enter q) r4" by (simp_all add: vr_inv_def)
  from k be have f: "r_lastBatchEnd r4 = r_lastOp r" "r_lastOp r4 = latestOp" "r_view r4 = v"
    by (simp_all add: kept_def)
  have lt: "unat (r_lastOp r) < length (lg_entries (r_log r))" using assms(3,4) by (simp add: word_less_nat_alt)
  have all2: "list_all2 same_op (lg_entries (r_log r)) (lg_entries (r_log r4))" using kept_entries [OF k] by simp
  have len4: "unat (r_lastOp r) < length (lg_entries (r_log r4))"
    using lt list_all2_lengthD [OF all2] by simp
  have "same_op (lg_entries (r_log r) ! unat (r_lastOp r)) (lg_entries (r_log r4) ! unat (r_lastOp r))"
    using list_all2_nthD [OF all2 lt] .
  then have "vs_view (e_viewstamp (lg_entries (r_log r4) ! unat (r_lastOp r))) \<noteq> v"
    using assms(5) by (simp add: same_op_def)
  then have "CloseBatch cf r' = Inl AssertFailed"
    using f assms(4) len4 inv4 by (intro CloseBatch_asserts [of cf]) (simp_all add: r')
  then show ?thesis using f by (simp add: r')
qed

text \<open>A replica that took over one operation of view 0 and now leads view 1.\<close>

definition ex_taken_over :: "unit vr_replica" where
  "ex_taken_over = VRReplica_init (ex_cf\<lparr>cf_myIdx := 1\<rparr>) 1 ()
     \<lparr>r_view := 1, r_status := STATUS_VIEW_CHANGE,
      r_log := \<lparr>lg_entries = [ex_entry 0 1 ''a''], lg_initialHash = EMPTY_HASH, lg_start = 1, lg_useHash = False\<rparr>,
      r_startViewChangeQuorum := \<lparr>qs_numRequired = 1, qs_messages =
        [(1, [(2, \<lparr>svc_view = 1, svc_replicaIdx = 2, svc_lastCommitted = 0\<rparr>)])]\<rparr>\<rparr>"

lemma new_leader_first_batch_asserts_witness:
  "\<exists>r'. lead_new_view (ex_cf\<lparr>cf_myIdx := 1\<rparr>) ex_app 1 1 (Some ex_dvc) [(2, ex_dvc)] ex_taken_over = Inr r' \<and>
     CloseBatch (ex_cf\<lparr>cf_myIdx := 1\<rparr>) r' = Inl AssertFailed"
proof -
  let ?cf = "ex_cf\<lparr>cf_myIdx := 1\<rparr>"
  have "(case lead_new_view ?cf ex_app 1 1 (Some ex_dvc) [(2, ex_dvc)] ex_taken_over of Inl _ \<Rightarrow> False | Inr r' \<Rightarrow> True)"
    by code_simp
  from case_Inr_D [OF this] obtain r' where
    r': "lead_new_view ?cf ex_app 1 1 (Some ex_dvc) [(2, ex_dvc)] ex_taken_over = Inr r'" by blast
  have inv: "log_inv ?cf ex_taken_over"
    by (simp add: ex_taken_over_def VRReplica_init_def Let_def log_inv_def quorums_ok_def log_ops_def log_ok_def
      ex_entry_def) (simp add: QuorumSet_init_def)
  have es: "lg_entries (r_log ex_taken_over) = [ex_entry 0 1 ''a'']" "r_lastOp ex_taken_over = 0"
    by (simp_all add: ex_taken_over_def VRReplica_init_def Let_def)
  from new_leader_first_batch_asserts [OF r' inv] es r' show ?thesis
    by (simp add: ex_entry_def)
qed

end
