(* ===== verification/ClientSnapshot.thy ===== *)
theory ClientSnapshot
  imports TransactionStore
begin

text \<open>
  The read-only commit of \<open>src/store/strongstore/client.{h,cc}\<close>: what the client keeps
  of the replies to a read-only transaction, how it chooses the snapshot, and when it
  may return it.
\<close>

section \<open>The session\<close>

text \<open>\<open>rss::Session\<close> and \<open>StrongSession\<close>. A \<open>std::set<int>\<close> is its sorted list.\<close>

datatype rss_state = RSS_NONE | RSS_EXECUTING | RSS_EXECUTED

datatype session_state =
    S_EXECUTING | S_GETTING | S_PUTTING | S_COMMITTING | S_NEEDS_ABORT | S_ABORTING

record strong_session =
  s_id :: u64
  s_last_service :: string
  s_rss_state :: rss_state
  s_transaction_id :: txn_id
  s_start_ts :: timestamp
  s_min_read_ts :: timestamp
  s_participants :: "int list"
  s_prepares :: "(txn_id, prepared_transaction) umap"
  s_values :: "(key, read_value list) umap"
  s_snapshot_ts :: timestamp
  s_current_participant :: int
  s_state :: session_state

datatype snapshot_result = WAIT | COMMIT timestamp

section \<open>Collecting the replies\<close>

fun insert_value :: "read_value \<Rightarrow> read_value list \<Rightarrow> read_value list" where
  "insert_value v [] = [v]"
| "insert_value v (v2 # l) = (if v_ts v2 < v_ts v then v # v2 # l else v2 # insert_value v l)"

definition add_value :: "read_value \<Rightarrow> (key, read_value list) umap \<Rightarrow> (key, read_value list) umap" where
  "add_value v m = (let (l, m') = um_ref [] m (v_key v) in um_put (v_key v) (insert_value v l) m')"

definition AddValues :: "read_value list \<Rightarrow> strong_session \<Rightarrow> strong_session" where
  "AddValues vs s = s\<lparr>s_values := fold add_value vs (s_values s)\<rparr>"

definition add_prepare :: "prepared_transaction \<Rightarrow> (txn_id, prepared_transaction) umap \<Rightarrow>
    (txn_id, prepared_transaction) umap outcome" where
  "add_prepare p m = (let i = pt_transaction_id p in case map_of m i of
     None \<Rightarrow> Inr (um_emplace i p m)
   | Some pt \<Rightarrow> assertE (pt_transaction_id pt = i)
       (Inr (um_put i (pt_add_write_set (pt_write_set p) (update_prepare_ts (pt_prepare_ts p) pt)) m)))"

definition AddPrepares :: "prepared_transaction list \<Rightarrow> strong_session \<Rightarrow> strong_session outcome" where
  "AddPrepares ps s = bindE (foldE add_prepare ps (s_prepares s)) (\<lambda>m. Inr (s\<lparr>s_prepares := m\<rparr>))"

text \<open>The writes of a prepared transaction as values at its commit timestamp.\<close>

definition write_values :: "txn_id \<Rightarrow> timestamp \<Rightarrow> prepared_transaction \<Rightarrow> read_value list" where
  "write_values i ts pt = map (\<lambda>(k, v). \<lparr>v_transaction_id = i, v_ts = ts, v_key = k, v_val = v\<rparr>) (pt_write_set pt)"

definition find_committed :: "read_value \<Rightarrow> (txn_id, prepared_transaction) umap \<times> read_value list \<Rightarrow>
    (txn_id, prepared_transaction) umap \<times> read_value list" where
  "find_committed v = (\<lambda>(prepares, to_add). case map_of prepares (v_transaction_id v) of
     None \<Rightarrow> (prepares, to_add)
   | Some pt \<Rightarrow> (um_erase (v_transaction_id v) prepares,
       to_add @ write_values (v_transaction_id v) (v_ts v) pt))"

definition FindCommittedKeys :: "consistency \<Rightarrow> strong_session \<Rightarrow> strong_session outcome" where
  "FindCommittedKeys c s =
     (if s_prepares s = [] then Inr s
      else assertE (c = RSS)
        (let (prepares, to_add) = fold find_committed (concat (map snd (s_values s))) (s_prepares s, []) in
         Inr (AddValues to_add (s\<lparr>s_prepares := prepares\<rparr>))))"

definition CalculateSnapshotTimestamp :: "strong_session \<Rightarrow> strong_session outcome" where
  "CalculateSnapshotTimestamp s =
     bindE (foldE (\<lambda>(k, l) ts. assertE (l \<noteq> []) (Inr (if ts < v_ts (last l) then v_ts (last l) else ts)))
       (s_values s) Timestamp_zero) (\<lambda>ts. Inr (s\<lparr>s_snapshot_ts := ts\<rparr>))"

definition ReceivedAllFastPaths :: "consistency \<Rightarrow> strong_session \<Rightarrow> strong_session outcome" where
  "ReceivedAllFastPaths c s = bindE (FindCommittedKeys c s) CalculateSnapshotTimestamp"

definition min_prepare_ts :: "(txn_id, prepared_transaction) umap \<Rightarrow> timestamp" where
  "min_prepare_ts m = fold (\<lambda>(_, pt) ts. if pt_prepare_ts pt < ts then pt_prepare_ts pt else ts) m Timestamp_MAX"

definition CheckCommit :: "consistency \<Rightarrow> strong_session \<Rightarrow> snapshot_result" where
  "CheckCommit c s =
     (if s_participants s \<noteq> [] then WAIT
      else if c = SS then COMMIT (s_snapshot_ts s)
      else if s_snapshot_ts s < min_prepare_ts (s_prepares s) then COMMIT (s_snapshot_ts s)
      else WAIT)"

definition ReceiveFastPath :: "consistency \<Rightarrow> int \<Rightarrow> read_value list \<Rightarrow> prepared_transaction list \<Rightarrow>
    strong_session \<Rightarrow> (strong_session \<times> snapshot_result) outcome" where
  "ReceiveFastPath c shard values prepares s =
     assertE (shard \<in> set (s_participants s))
       (let s1 = AddValues values (s\<lparr>s_participants := removeAll shard (s_participants s)\<rparr>) in
        bindE (AddPrepares prepares s1) (\<lambda>s2.
        bindE (if s_participants s2 = [] then ReceivedAllFastPaths c s2 else Inr s2) (\<lambda>s3.
        Inr (s3, CheckCommit c s3))))"

definition ReceiveSlowPath :: "consistency \<Rightarrow> txn_id \<Rightarrow> bool \<Rightarrow> timestamp \<Rightarrow> strong_session \<Rightarrow>
    (strong_session \<times> snapshot_result) outcome" where
  "ReceiveSlowPath c rw is_commit commit_ts s =
     assertE (c = RSS)
       (case map_of (s_prepares s) rw of
          None \<Rightarrow> Inr (s, WAIT)
        | Some pt \<Rightarrow>
            let s1 = (if is_commit then AddValues (write_values rw commit_ts pt) s else s);
                s2 = s1\<lparr>s_prepares := um_erase rw (s_prepares s1)\<rparr> in
            Inr (s2, CheckCommit c s2))"

section \<open>Well-formed sessions\<close>

definition newest_first :: "read_value list \<Rightarrow> bool" where
  "newest_first l \<longleftrightarrow> sorted_wrt (\<lambda>a b. v_ts b \<le> v_ts a) l"

definition values_ok :: "(key, read_value list) umap \<Rightarrow> bool" where
  "values_ok m \<longleftrightarrow> um_ok m \<and>
     (\<forall>k l. map_of m k = Some l \<longrightarrow> l \<noteq> [] \<and> newest_first l \<and> (\<forall>v \<in> set l. v_key v = k))"

definition prepares_ok :: "(txn_id, prepared_transaction) umap \<Rightarrow> bool" where
  "prepares_ok m \<longleftrightarrow> um_ok m \<and> (\<forall>i pt. map_of m i = Some pt \<longrightarrow> pt_transaction_id pt = i)"

definition session_ok :: "strong_session \<Rightarrow> bool" where
  "session_ok s \<longleftrightarrow> values_ok (s_values s) \<and> prepares_ok (s_prepares s)"

text \<open>Everything the client knows of a key.\<close>

definition versions :: "(key, read_value list) umap \<Rightarrow> key \<Rightarrow> read_value set" where
  "versions m k = (case map_of m k of None \<Rightarrow> {} | Some l \<Rightarrow> set l)"

lemma set_insert_value [simp]: "set (insert_value v l) = insert v (set l)"
  by (induction l) auto

lemma insert_value_not_Nil [simp]: "insert_value v l \<noteq> []"
  by (cases l) auto

lemma newest_first_insert [simp]: "newest_first l \<Longrightarrow> newest_first (insert_value v l)"
  by (induction l) (auto simp: newest_first_def)

lemma um_put_put [simp]: "um_put k v (um_put k w m) = um_put k v m"
  by (induction m) auto

lemma add_value_alt:
  "add_value v m = um_put (v_key v) (insert_value v (case map_of m (v_key v) of None \<Rightarrow> [] | Some l \<Rightarrow> l)) m"
  by (simp add: add_value_def um_ref_def split: option.split)

lemma values_ok_Nil [simp]: "values_ok []"
  by (simp add: values_ok_def)

lemma add_value_ok: "values_ok m \<Longrightarrow> values_ok (add_value v m)"
  by (auto simp: values_ok_def add_value_alt newest_first_insert split: option.splits) (simp add: newest_first_def)

lemma versions_add_value: "versions (add_value v m) k = (if k = v_key v then insert v (versions m k) else versions m k)"
  by (simp add: versions_def add_value_alt split: option.split)

lemma add_values_ok: "values_ok m \<Longrightarrow> values_ok (fold add_value vs m)"
  by (induction vs arbitrary: m) (auto simp: add_value_ok)

lemma versions_add_values: "versions (fold add_value vs m) k = versions m k \<union> {v \<in> set vs. v_key v = k}"
  by (induction vs arbitrary: m) (auto simp: versions_add_value)

lemma versions_Nil [simp]: "versions [] k = {}"
  by (simp add: versions_def)

lemma in_versions:
  assumes "values_ok m"
  shows "v \<in> versions m k \<longleftrightarrow> v_key v = k \<and> v \<in> set (concat (map snd m))"
proof
  assume "v \<in> versions m k"
  then obtain l where l: "map_of m k = Some l" "v \<in> set l" by (auto simp: versions_def split: option.splits)
  then have "(k, l) \<in> set m" by (simp add: map_of_SomeD)
  with l assms show "v_key v = k \<and> v \<in> set (concat (map snd m))"
    by (auto simp: values_ok_def intro!: bexI [of _ "(k, l)"])
next
  assume v: "v_key v = k \<and> v \<in> set (concat (map snd m))"
  then obtain k' l where l: "(k', l) \<in> set m" "v \<in> set l" by auto
  then have "map_of m k' = Some l" using assms by (simp add: values_ok_def um_ok_mem_iff)
  with v l assms show "v \<in> versions m k" by (auto simp: values_ok_def versions_def)
qed

end
