(* ===== verification/ClientSnapshotInv.thy ===== *)
theory ClientSnapshotInv
  imports ClientSnapshot
begin

text \<open>
  What the client's read-only commit guarantees: the snapshot timestamp is the least one
  every key can be read at, a prepared transaction seen committed at one shard is not
  waited for at another, and a snapshot is returned only when every shard has answered
  and nothing still prepared can commit within it.
\<close>

section \<open>Prepared transactions\<close>

lemma prepares_ok_Nil [simp]: "prepares_ok []"
  by (simp add: prepares_ok_def)

lemma prepares_ok_erase [simp]: "prepares_ok m \<Longrightarrow> prepares_ok (um_erase i m)"
  by (simp add: prepares_ok_def)

lemma pt_fields [simp]:
  "pt_transaction_id (pt_add_write_set ws p) = pt_transaction_id p"
  "pt_transaction_id (update_prepare_ts ts p) = pt_transaction_id p"
  by (simp_all add: pt_add_write_set_def update_prepare_ts_def)

lemma add_prepare_ok:
  assumes "prepares_ok m"
  shows "\<exists>m'. add_prepare p m = Inr m' \<and> prepares_ok m'"
proof (cases "map_of m (pt_transaction_id p)")
  case None
  then show ?thesis using assms
    by (auto simp: add_prepare_def Let_def prepares_ok_def map_of_emplace um_has_def)
next
  case (Some pt)
  then show ?thesis using assms by (auto simp: add_prepare_def Let_def prepares_ok_def)
qed

lemma AddPrepares_ok:
  assumes "prepares_ok (s_prepares s)"
  shows "\<exists>m. AddPrepares ps s = Inr (s\<lparr>s_prepares := m\<rparr>) \<and> prepares_ok m"
  using foldE_total [of prepares_ok "s_prepares s" ps add_prepare] add_prepare_ok assms
  by (auto simp: AddPrepares_def)

lemma AddValues_frame [simp]:
  "s_prepares (AddValues vs s) = s_prepares s" "s_participants (AddValues vs s) = s_participants s"
  "s_snapshot_ts (AddValues vs s) = s_snapshot_ts s"
  "s_values (AddValues vs s) = fold add_value vs (s_values s)"
  by (simp_all add: AddValues_def)

lemma AddValues_ok [simp]: "session_ok s \<Longrightarrow> session_ok (AddValues vs s)"
  by (simp add: session_ok_def add_values_ok)

section \<open>Examples\<close>

definition ex_value :: "txn_id \<Rightarrow> u64 \<Rightarrow> key \<Rightarrow> val \<Rightarrow> read_value" where
  "ex_value i t k x = \<lparr>v_transaction_id = i, v_ts = Timestamp t 1, v_key = k, v_val = x\<rparr>"

definition ex_prepare :: "txn_id \<Rightarrow> u64 \<Rightarrow> (key \<times> val) list \<Rightarrow> prepared_transaction" where
  "ex_prepare i t ws = \<lparr>pt_transaction_id = i, pt_prepare_ts = Timestamp t 1, pt_write_set = ws\<rparr>"

definition ex_session :: "int list \<Rightarrow> strong_session" where
  "ex_session ps = \<lparr>s_id = 0, s_last_service = ''store'', s_rss_state = RSS_EXECUTING, s_transaction_id = 8,
     s_start_ts = Timestamp 3 1, s_min_read_ts = Timestamp_zero, s_participants = ps, s_prepares = [],
     s_values = [], s_snapshot_ts = Timestamp_zero, s_current_participant = - 1, s_state = S_COMMITTING\<rparr>"

text \<open>A session that both shards have answered; transaction 7 is prepared at one and committed at the other.\<close>

definition ex_pending :: strong_session where
  "ex_pending = (ex_session [])\<lparr>
     s_values := [(''x'', [ex_value 3 4 ''x'' ''a'']), (''y'', [ex_value 7 6 ''y'' ''d''])],
     s_prepares := [(7, ex_prepare 7 5 [(''x'', ''b'')])]\<rparr>"

lemma ex_pending_ok: "session_ok ex_pending"
  by (auto simp: session_ok_def values_ok_def prepares_ok_def ex_pending_def ex_value_def ex_prepare_def
    newest_first_def um_ok_def split: if_splits)

section \<open>Committed elsewhere\<close>

lemma find_committed_fold:
  assumes "fold find_committed vs (m, acc) = (m', acc')" and "um_ok m"
  shows "um_ok m' \<and>
    map_of m' = (\<lambda>i. if \<exists>v \<in> set vs. v_transaction_id v = i then None else map_of m i) \<and>
    set acc \<subseteq> set acc' \<and>
    (\<forall>i pt. map_of m i = Some pt \<and> (\<exists>v \<in> set vs. v_transaction_id v = i) \<longrightarrow>
      (\<exists>v \<in> set vs. v_transaction_id v = i \<and> set (write_values i (v_ts v) pt) \<subseteq> set acc')) \<and>
    (\<forall>w \<in> set acc'. w \<in> set acc \<or> (\<exists>v \<in> set vs. v_transaction_id w = v_transaction_id v))"
  using assms
proof (induction vs arbitrary: m acc)
  case (Cons v vs)
  let ?i = "v_transaction_id v"
  obtain m1 acc1 where s1: "find_committed v (m, acc) = (m1, acc1)" by fastforce
  have rest: "fold find_committed vs (m1, acc1) = (m', acc')" using Cons.prems(1) s1 by simp
  show ?case
  proof (cases "map_of m ?i")
    case None
    then have "m1 = m" "acc1 = acc" using s1 by (simp_all add: find_committed_def)
    note IH = Cons.IH [OF rest [unfolded this] Cons.prems(2)]
    have "map_of m' = (\<lambda>i. if \<exists>v \<in> set (v # vs). v_transaction_id v = i then None else map_of m i)"
      using conjunct1 [OF conjunct2 [OF IH]] None by (auto simp: fun_eq_iff)
    moreover have "\<exists>v' \<in> set (v # vs). v_transaction_id v' = i \<and> set (write_values i (v_ts v') pt) \<subseteq> set acc'"
      if "map_of m i = Some pt" "\<exists>v' \<in> set (v # vs). v_transaction_id v' = i" for i pt
    proof -
      have "\<exists>v' \<in> set vs. v_transaction_id v' = i" using that None by auto
      with IH that(1) obtain v' where "v' \<in> set vs" "v_transaction_id v' = i"
        "set (write_values i (v_ts v') pt) \<subseteq> set acc'" by blast
      then show ?thesis by auto
    qed
    moreover have "um_ok m'" "set acc \<subseteq> set acc'"
      "\<forall>w \<in> set acc'. w \<in> set acc \<or> (\<exists>v' \<in> set (v # vs). v_transaction_id w = v_transaction_id v')"
      using IH by auto
    ultimately show ?thesis by blast
  next
    case (Some pt)
    then have m1: "m1 = um_erase ?i m" and acc1: "acc1 = acc @ write_values ?i (v_ts v) pt"
      using s1 by (simp_all add: find_committed_def)
    have "um_ok m1" using Cons.prems(2) m1 by simp
    note IH = Cons.IH [OF rest this]
    have "map_of m' = (\<lambda>i. if \<exists>v \<in> set (v # vs). v_transaction_id v = i then None else map_of m i)"
      using conjunct1 [OF conjunct2 [OF IH]] m1 by (auto simp: fun_eq_iff)
    moreover have "\<exists>v' \<in> set (v # vs). v_transaction_id v' = i \<and> set (write_values i (v_ts v') pt') \<subseteq> set acc'"
      if "map_of m i = Some pt'" "\<exists>v' \<in> set (v # vs). v_transaction_id v' = i" for i pt'
    proof (cases "i = ?i")
      case True
      then show ?thesis using that(1) Some IH acc1 by auto
    next
      case False
      then have "map_of m1 i = Some pt'" "\<exists>v' \<in> set vs. v_transaction_id v' = i" using that m1 by auto
      then show ?thesis using IH by auto
    qed
    moreover have "\<forall>w \<in> set acc'. w \<in> set acc \<or> (\<exists>v' \<in> set (v # vs). v_transaction_id w = v_transaction_id v')"
      using IH acc1 by (fastforce simp: write_values_def)
    moreover have "um_ok m'" "set acc \<subseteq> set acc'" using IH acc1 by auto
    ultimately show ?thesis by blast
  qed
qed simp

lemma FindCommittedKeys_ok:
  assumes "session_ok s" and "s_prepares s = [] \<or> c = RSS"
  shows "\<exists>m vs. FindCommittedKeys c s = Inr (AddValues vs (s\<lparr>s_prepares := m\<rparr>)) \<and> prepares_ok m"
proof (cases "s_prepares s = []")
  case True
  then have "FindCommittedKeys c s = Inr (AddValues [] (s\<lparr>s_prepares := s_prepares s\<rparr>))"
    by (simp add: FindCommittedKeys_def AddValues_def)
  then show ?thesis using assms(1) unfolding session_ok_def by blast
next
  case False
  obtain m acc where f: "fold find_committed (concat (map snd (s_values s))) (s_prepares s, []) = (m, acc)" by fastforce
  have "um_ok (s_prepares s)" using assms(1) by (simp add: session_ok_def prepares_ok_def)
  from find_committed_fold [OF f this] assms(1)
  have "prepares_ok m" by (auto simp: session_ok_def prepares_ok_def split: if_splits)
  then show ?thesis using f False assms(2) by (auto simp: FindCommittedKeys_def)
qed

text \<open>
  A prepared transaction that one shard has shown to be committed is not waited
  for at the others: after \<open>FindCommittedKeys\<close> exactly the transactions without a version
  among the values are still pending, and every write the client knows of the others
  has become a version at the commit timestamp it has seen.
\<close>

theorem FindCommittedKeys_resolves:
  assumes "session_ok s" and "c = RSS"
  shows "\<exists>s'. FindCommittedKeys c s = Inr s' \<and> session_ok s' \<and>
    (\<forall>k. versions (s_values s) k \<subseteq> versions (s_values s') k) \<and>
    (\<forall>i pt. map_of (s_prepares s) i = Some pt \<longrightarrow>
      (if \<exists>k. \<exists>v \<in> versions (s_values s) k. v_transaction_id v = i
       then map_of (s_prepares s') i = None \<and>
         (\<exists>k. \<exists>v \<in> versions (s_values s) k. v_transaction_id v = i \<and>
           (\<forall>(kw, x) \<in> set (pt_write_set pt). \<lparr>v_transaction_id = i, v_ts = v_ts v, v_key = kw, v_val = x\<rparr>
              \<in> versions (s_values s') kw))
       else map_of (s_prepares s') i = Some pt))"
proof (cases "s_prepares s = []")
  case True
  then show ?thesis using assms(1) by (simp add: FindCommittedKeys_def)
next
  case False
  let ?vs = "concat (map snd (s_values s))"
  obtain m acc where f: "fold find_committed ?vs (s_prepares s, []) = (m, acc)" by fastforce
  have vok: "values_ok (s_values s)" and "um_ok (s_prepares s)"
    using assms(1) by (simp_all add: session_ok_def prepares_ok_def)
  note F = find_committed_fold [OF f this(2)]
  let ?s = "AddValues acc (s\<lparr>s_prepares := m\<rparr>)"
  have r: "FindCommittedKeys c s = Inr ?s" using f False assms(2) by (simp add: FindCommittedKeys_def)
  have ok: "session_ok ?s" using F assms(1)
    by (auto simp: session_ok_def prepares_ok_def add_values_ok split: if_splits)
  have seen: "(\<exists>k. \<exists>v \<in> versions (s_values s) k. v_transaction_id v = i) \<longleftrightarrow> (\<exists>v \<in> set ?vs. v_transaction_id v = i)" for i
    using in_versions [OF vok] by blast
  have resolved: "map_of m i = None \<and> (\<exists>k. \<exists>v \<in> versions (s_values s) k. v_transaction_id v = i \<and>
      (\<forall>(kw, x) \<in> set (pt_write_set pt). \<lparr>v_transaction_id = i, v_ts = v_ts v, v_key = kw, v_val = x\<rparr>
        \<in> versions (s_values ?s) kw))"
    if "map_of (s_prepares s) i = Some pt" and "\<exists>v \<in> set ?vs. v_transaction_id v = i" for i pt
  proof -
    from F that obtain v where v: "v \<in> set ?vs" "v_transaction_id v = i" "set (write_values i (v_ts v) pt) \<subseteq> set acc"
      by blast
    then have "v \<in> versions (s_values s) (v_key v)" using in_versions [OF vok] by blast
    moreover have "\<lparr>v_transaction_id = i, v_ts = v_ts v, v_key = kw, v_val = x\<rparr> \<in> versions (s_values ?s) kw"
      if "(kw, x) \<in> set (pt_write_set pt)" for kw x
    proof -
      have "\<lparr>v_transaction_id = i, v_ts = v_ts v, v_key = kw, v_val = x\<rparr> \<in> set acc"
        using v(3) that by (force simp: write_values_def)
      then show ?thesis by (simp add: versions_add_values)
    qed
    moreover have "map_of m i = None" using F that(2) by simp
    ultimately show ?thesis using v(2) by blast
  qed
  have pending: "map_of m i = Some pt"
    if "map_of (s_prepares s) i = Some pt" and "\<not> (\<exists>v \<in> set ?vs. v_transaction_id v = i)" for i pt
    using F that by simp
  have "\<forall>k. versions (s_values s) k \<subseteq> versions (s_values ?s) k" by (simp add: versions_add_values)
  with r ok resolved pending show ?thesis by (simp add: seen)
qed

lemma FindCommittedKeys_resolves_witness:
  "\<exists>s'. FindCommittedKeys RSS ex_pending = Inr s' \<and> map_of (s_prepares s') 7 = None \<and>
     ex_value 7 6 ''x'' ''b'' \<in> versions (s_values s') ''x''"
proof -
  have seen: "\<exists>k. \<exists>v \<in> versions (s_values ex_pending) k. v_transaction_id v = 7"
    by (rule exI [of _ "''y''"]) (simp add: ex_pending_def versions_def ex_value_def)
  have p: "map_of (s_prepares ex_pending) 7 = Some (ex_prepare 7 5 [(''x'', ''b'')])"
    by (simp add: ex_pending_def)
  have only: "v_ts v = Timestamp 6 1" if "v \<in> versions (s_values ex_pending) k" "v_transaction_id v = 7" for v k
    using that by (auto simp: ex_pending_def versions_def ex_value_def split: if_splits)
  from FindCommittedKeys_resolves [OF ex_pending_ok refl] obtain s' where
    s': "FindCommittedKeys RSS ex_pending = Inr s'" and all: "\<forall>i pt. map_of (s_prepares ex_pending) i = Some pt \<longrightarrow>
      (if \<exists>k. \<exists>v \<in> versions (s_values ex_pending) k. v_transaction_id v = i
       then map_of (s_prepares s') i = None \<and>
         (\<exists>k. \<exists>v \<in> versions (s_values ex_pending) k. v_transaction_id v = i \<and>
           (\<forall>(kw, x) \<in> set (pt_write_set pt). \<lparr>v_transaction_id = i, v_ts = v_ts v, v_key = kw, v_val = x\<rparr>
              \<in> versions (s_values s') kw))
       else map_of (s_prepares s') i = Some pt)" by blast
  from all [rule_format, OF p] seen obtain v k where none: "map_of (s_prepares s') 7 = None"
    and v: "v \<in> versions (s_values ex_pending) k" "v_transaction_id v = 7"
    and w: "\<forall>(kw, x) \<in> set (pt_write_set (ex_prepare 7 5 [(''x'', ''b'')])).
      \<lparr>v_transaction_id = 7, v_ts = v_ts v, v_key = kw, v_val = x\<rparr> \<in> versions (s_values s') kw"
    by (auto simp only: if_True)
  from w only [OF v] have "ex_value 7 6 ''x'' ''b'' \<in> versions (s_values s') ''x''"
    by (simp add: ex_prepare_def ex_value_def)
  with s' none show ?thesis by blast
qed

section \<open>The snapshot\<close>

text \<open>Every key can be read at \<open>t\<close>.\<close>

definition readable :: "timestamp \<Rightarrow> (key, read_value list) umap \<Rightarrow> bool" where
  "readable t m \<longleftrightarrow> (\<forall>k l. map_of m k = Some l \<longrightarrow> (\<exists>v \<in> set l. v_ts v \<le> t))"

lemma newest_first_last: "newest_first l \<Longrightarrow> v \<in> set l \<Longrightarrow> v_ts (last l) \<le> v_ts v"
  by (induction l) (auto simp: newest_first_def)

lemma values_ok_mem: "values_ok m \<Longrightarrow> (k, l) \<in> set m \<longleftrightarrow> map_of m k = Some l"
  by (simp add: values_ok_def um_ok_mem_iff)

lemma values_ok_nonempty:
  assumes "values_ok m"
  shows "\<forall>(k, l) \<in> set m. l \<noteq> []"
proof -
  have "l \<noteq> []" if "(k, l) \<in> set m" for k l
    using that assms values_ok_mem [OF assms] by (metis values_ok_def)
  then show ?thesis by blast
qed

lemma readable_iff:
  assumes "values_ok m"
  shows "readable t m \<longleftrightarrow> (\<forall>(k, l) \<in> set m. v_ts (last l) \<le> t)"
proof -
  have "(\<exists>v \<in> set l. v_ts v \<le> t) \<longleftrightarrow> v_ts (last l) \<le> t" if "map_of m k = Some l" for k l
  proof -
    have "l \<noteq> []" "newest_first l" using assms that by (simp_all add: values_ok_def)
    then show ?thesis using newest_first_last [of l] by (meson last_in_set order_trans)
  qed
  then have "readable t m \<longleftrightarrow> (\<forall>k l. map_of m k = Some l \<longrightarrow> v_ts (last l) \<le> t)"
    by (auto simp: readable_def)
  then show ?thesis by (simp add: values_ok_mem [OF assms, symmetric]) blast
qed

lemma snapshot_fold:
  assumes "\<forall>(k, l) \<in> set m. l \<noteq> []"
  shows "foldE (\<lambda>(k, l) ts. assertE (l \<noteq> []) (Inr (if ts < v_ts (last l) then v_ts (last l) else ts))) m ts0
    = Inr (fold max (map (\<lambda>(k, l). v_ts (last l)) m) ts0)"
  using assms
proof (induction m arbitrary: ts0)
  case (Cons p m)
  obtain k l where p: "p = (k, l)" by fastforce
  have "(if ts0 < v_ts (last l) then v_ts (last l) else ts0) = max (v_ts (last l)) ts0"
    by (auto simp: max_def not_less intro: antisym less_imp_le)
  then show ?case using Cons by (simp add: p)
qed simp

lemma fold_max_le: "fold max xs a \<le> t \<longleftrightarrow> a \<le> t \<and> (\<forall>x \<in> set xs. x \<le> (t :: timestamp))"
  by (induction xs arbitrary: a) auto

text \<open>
  The snapshot timestamp is the least timestamp at which every key the client
  has values for can be read, and the assertion that no key is without values holds.
\<close>

theorem snapshot_is_least:
  assumes "session_ok s"
  shows "\<exists>ts. CalculateSnapshotTimestamp s = Inr (s\<lparr>s_snapshot_ts := ts\<rparr>) \<and>
    readable ts (s_values s) \<and> (\<forall>t. readable t (s_values s) \<longrightarrow> ts \<le> t)"
proof -
  let ?ts = "fold max (map (\<lambda>(k, l). v_ts (last l)) (s_values s)) Timestamp_zero"
  have ok: "values_ok (s_values s)" using assms by (simp add: session_ok_def)
  from values_ok_nonempty [OF this] have c: "CalculateSnapshotTimestamp s = Inr (s\<lparr>s_snapshot_ts := ?ts\<rparr>)"
    by (simp add: CalculateSnapshotTimestamp_def snapshot_fold)
  have "readable t (s_values s) \<longleftrightarrow> ?ts \<le> t" for t
    by (auto simp: readable_iff [OF ok] fold_max_le)
  with c show ?thesis by blast
qed

lemma snapshot_is_least_witness:
  "\<exists>ts. CalculateSnapshotTimestamp ex_pending = Inr (ex_pending\<lparr>s_snapshot_ts := ts\<rparr>) \<and> ts \<le> Timestamp 6 1"
proof -
  have "readable (Timestamp 6 1) (s_values ex_pending)"
    by (auto simp: readable_def ex_pending_def ex_value_def split: if_splits)
  then show ?thesis using snapshot_is_least [OF ex_pending_ok] by blast
qed

lemma ReceivedAllFastPaths_ok:
  assumes "session_ok s" and "s_prepares s = [] \<or> c = RSS"
  shows "\<exists>s'. ReceivedAllFastPaths c s = Inr s' \<and> session_ok s' \<and> s_participants s' = s_participants s \<and>
    readable (s_snapshot_ts s') (s_values s') \<and> (\<forall>k. versions (s_values s) k \<subseteq> versions (s_values s') k)"
proof -
  obtain m vs where f: "FindCommittedKeys c s = Inr (AddValues vs (s\<lparr>s_prepares := m\<rparr>))" and m: "prepares_ok m"
    using FindCommittedKeys_ok [OF assms] by blast
  let ?s = "AddValues vs (s\<lparr>s_prepares := m\<rparr>)"
  have ok: "session_ok ?s" using m assms(1) by (simp add: session_ok_def add_values_ok)
  have ok_v: "values_ok (s_values ?s)" using ok by (simp add: session_ok_def)
  let ?ts = "fold max (map (\<lambda>(k, l). v_ts (last l)) (s_values ?s)) Timestamp_zero"
  from values_ok_nonempty [OF ok_v] have "CalculateSnapshotTimestamp ?s = Inr (?s\<lparr>s_snapshot_ts := ?ts\<rparr>)"
    unfolding CalculateSnapshotTimestamp_def by (subst snapshot_fold) simp_all
  moreover have "readable ?ts (s_values ?s)"
    unfolding readable_iff [OF ok_v] using fold_max_le [of "map (\<lambda>(k, l). v_ts (last l)) (s_values ?s)" Timestamp_zero ?ts]
    by auto
  ultimately show ?thesis using f ok
    by (auto simp: ReceivedAllFastPaths_def session_ok_def versions_add_values)
qed

lemma below_min_prepare:
  "t < min_prepare_ts m \<longleftrightarrow> t < Timestamp_MAX \<and> (\<forall>(i, pt) \<in> set m. t < pt_prepare_ts pt)"
proof -
  have "t < fold (\<lambda>(_, pt) ts. if pt_prepare_ts pt < ts then pt_prepare_ts pt else ts) m a \<longleftrightarrow>
    t < a \<and> (\<forall>(i, pt) \<in> set m. t < pt_prepare_ts pt)" for a
  proof (induction m arbitrary: a)
    case (Cons p m)
    then show ?case by (cases p) (auto simp: not_less intro: less_le_trans less_trans)
  qed simp
  then show ?thesis by (simp add: min_prepare_ts_def)
qed

section \<open>Runs of a read-only commit\<close>

datatype snap_reply =
    FastReply int "read_value list" "prepared_transaction list"
  | SlowReply txn_id bool timestamp

definition ro_receive :: "consistency \<Rightarrow> snap_reply \<Rightarrow> strong_session \<Rightarrow> (strong_session \<times> snapshot_result) outcome" where
  "ro_receive c m s = (case m of
     FastReply shard vs ps \<Rightarrow> ReceiveFastPath c shard vs ps s
   | SlowReply rw b ts \<Rightarrow> ReceiveSlowPath c rw b ts s)"

definition ro_run :: "consistency \<Rightarrow> snap_reply list \<Rightarrow> strong_session \<Rightarrow> (strong_session \<times> snapshot_result) outcome" where
  "ro_run c ms s = foldE (\<lambda>m (s, _). ro_receive c m s) ms (s, WAIT)"

fun replied_values :: "snap_reply list \<Rightarrow> read_value set" where
  "replied_values [] = {}"
| "replied_values (FastReply i vs ps # ms) = set vs \<union> replied_values ms"
| "replied_values (SlowReply rw b ts # ms) = replied_values ms"

fun replied_shards :: "snap_reply list \<Rightarrow> int set" where
  "replied_shards [] = {}"
| "replied_shards (FastReply i vs ps # ms) = insert i (replied_shards ms)"
| "replied_shards (SlowReply rw b ts # ms) = replied_shards ms"

text \<open>
  What holds after any part of a run: \<open>seen\<close> are the values received, \<open>waiting\<close> the
  shards asked; once all have answered, every key received can be read at the snapshot.
\<close>

definition ro_inv :: "read_value set \<Rightarrow> int set \<Rightarrow> strong_session \<Rightarrow> bool" where
  "ro_inv seen waiting s \<longleftrightarrow> session_ok s \<and> set (s_participants s) = waiting \<and>
     (\<forall>v \<in> seen. v \<in> versions (s_values s) (v_key v)) \<and>
     (waiting = {} \<longrightarrow> (\<forall>v \<in> seen. \<exists>w \<in> versions (s_values s) (v_key v). v_ts w \<le> s_snapshot_ts s))"

lemma ro_inv_fast:
  assumes "ReceiveFastPath c i vs ps s = Inr (s', res)" and "ro_inv seen waiting s"
  shows "ro_inv (seen \<union> set vs) (waiting - {i}) s' \<and> i \<in> waiting \<and> res = CheckCommit c s'"
proof -
  let ?s1 = "AddValues vs (s\<lparr>s_participants := removeAll i (s_participants s)\<rparr>)"
  have ok: "session_ok s" using assms(2) by (simp add: ro_inv_def)
  then have ok1: "session_ok ?s1" by (simp add: session_ok_def add_values_ok)
  obtain m where m: "AddPrepares ps ?s1 = Inr (?s1\<lparr>s_prepares := m\<rparr>)" "prepares_ok m"
    using AddPrepares_ok [of ?s1 ps] ok1 by (auto simp: session_ok_def)
  let ?s2 = "?s1\<lparr>s_prepares := m\<rparr>"
  have ok2: "session_ok ?s2" using ok1 m(2) by (simp add: session_ok_def)
  have i: "i \<in> waiting" and wait: "set (s_participants ?s2) = waiting - {i}"
    using assms by (auto simp: ReceiveFastPath_def ro_inv_def)
  have seen2: "v \<in> versions (s_values ?s2) (v_key v)" if "v \<in> seen \<union> set vs" for v
    using that assms(2) by (auto simp: ro_inv_def versions_add_values)
  have s3: "(if s_participants ?s2 = [] then ReceivedAllFastPaths c ?s2 else Inr ?s2) = Inr s'"
    and res: "res = CheckCommit c s'"
    using assms(1) m(1) by (auto simp: ReceiveFastPath_def Let_def)
  have "ro_inv (seen \<union> set vs) (waiting - {i}) s'"
  proof (cases "s_participants ?s2 = []")
    case False
    then have "s' = ?s2" using s3 by simp
    moreover have "waiting - {i} \<noteq> {}" using False wait by (metis set_empty)
    ultimately show ?thesis using ok2 wait seen2 unfolding ro_inv_def by blast
  next
    case True
    then have r: "ReceivedAllFastPaths c ?s2 = Inr s'" using s3 by simp
    have "s_prepares ?s2 = [] \<or> c = RSS"
      using r by (auto simp: ReceivedAllFastPaths_def FindCommittedKeys_def split: if_splits)
    from ReceivedAllFastPaths_ok [OF ok2 this] r
    have s': "session_ok s'" "s_participants s' = s_participants ?s2" "readable (s_snapshot_ts s') (s_values s')"
      and sub: "\<And>k. versions (s_values ?s2) k \<subseteq> versions (s_values s') k" by auto
    have in3: "v \<in> versions (s_values s') (v_key v)" if "v \<in> seen \<union> set vs" for v
      using seen2 [OF that] sub by blast
    have "\<exists>w \<in> versions (s_values s') k. v_ts w \<le> s_snapshot_ts s'" if "v \<in> versions (s_values s') k" for v k
      using that s'(3) by (auto simp: readable_def versions_def split: option.splits)
    then have "\<forall>v \<in> seen \<union> set vs. \<exists>w \<in> versions (s_values s') (v_key v). v_ts w \<le> s_snapshot_ts s'"
      using in3 by blast
    moreover have "set (s_participants s') = waiting - {i}" using s'(2) wait by simp
    ultimately show ?thesis using s'(1) in3 by (simp add: ro_inv_def)
  qed
  with i res show ?thesis by blast
qed

lemma ro_inv_slow:
  assumes "ReceiveSlowPath c rw b ts s = Inr (s', res)" and "ro_inv seen waiting s"
  shows "ro_inv seen waiting s' \<and> (res = WAIT \<or> res = CheckCommit c s')"
proof (cases "map_of (s_prepares s) rw")
  case None
  then show ?thesis using assms by (auto simp: ReceiveSlowPath_def)
next
  case (Some pt)
  define vs where "vs = (if b then write_values rw ts pt else [])"
  have s': "s' = AddValues vs s\<lparr>s_prepares := um_erase rw (s_prepares s)\<rparr>" and res: "res = CheckCommit c s'"
    using assms(1) Some by (cases b; simp add: ReceiveSlowPath_def Let_def vs_def AddValues_def)+
  have ok: "session_ok s'" using assms(2) by (simp add: s' ro_inv_def session_ok_def add_values_ok)
  have "versions (s_values s) k \<subseteq> versions (s_values s') k" for k by (simp add: s' versions_add_values)
  moreover have "s_snapshot_ts s' = s_snapshot_ts s" "s_participants s' = s_participants s" by (simp_all add: s')
  ultimately show ?thesis using assms(2) ok res unfolding ro_inv_def by (metis subsetD)
qed

lemma ro_run_inv:
  assumes "foldE (\<lambda>m (s, _). ro_receive c m s) ms (s, r) = Inr (s', r')" and "ro_inv seen waiting s"
    and "r = WAIT \<or> r = CheckCommit c s"
  shows "ro_inv (seen \<union> replied_values ms) (waiting - replied_shards ms) s' \<and> replied_shards ms \<subseteq> waiting \<and>
    (r' = WAIT \<or> r' = CheckCommit c s')"
  using assms
proof (induction ms arbitrary: s r seen waiting)
  case (Cons m ms)
  then obtain s1 r1 where m: "ro_receive c m s = Inr (s1, r1)"
    and rest: "foldE (\<lambda>m (s, _). ro_receive c m s) ms (s1, r1) = Inr (s', r')" by auto
  show ?case
  proof (cases m)
    case (FastReply i vs ps)
    with m ro_inv_fast [OF _ Cons.prems(2), of c i vs ps s1 r1]
    have 1: "ro_inv (seen \<union> set vs) (waiting - {i}) s1" "i \<in> waiting" "r1 = CheckCommit c s1"
      by (simp_all add: ro_receive_def)
    have "waiting - {i} - replied_shards ms = waiting - replied_shards (m # ms)"
      and "seen \<union> set vs \<union> replied_values ms = seen \<union> replied_values (m # ms)"
      by (auto simp: FastReply)
    with Cons.IH [OF rest 1(1)] 1(2,3) show ?thesis by (auto simp: FastReply)
  next
    case (SlowReply rw b ts)
    with m ro_inv_slow [OF _ Cons.prems(2), of c rw b ts s1 r1]
    have "ro_inv seen waiting s1" "r1 = WAIT \<or> r1 = CheckCommit c s1" by (auto simp: ro_receive_def)
    from Cons.IH [OF rest this] show ?thesis by (simp add: SlowReply)
  qed
qed simp

text \<open>A session that has just asked the shards \<open>ps\<close>.\<close>

definition ro_started :: "int list \<Rightarrow> strong_session \<Rightarrow> bool" where
  "ro_started ps s \<longleftrightarrow> ps \<noteq> [] \<and> s_participants s = ps \<and> s_prepares s = [] \<and> s_values s = []"

text \<open>
  \<^bold>\<open>C34\<close> A read-only transaction returns a consistent snapshot. Whatever replies arrive
  and in whatever order, if the client returns snapshot \<open>ts\<close> then every shard it asked
  has answered, it still has every value it was sent, it can read each of their keys at
  \<open>ts\<close>, and (in the RSS mode) every transaction it knows to be prepared, and whose outcome
  it does not know, is prepared at a later timestamp, so it cannot commit within the snapshot.
\<close>

theorem ro_commit_is_snapshot:
  assumes "ro_started ps s0" and "ro_run c ms s0 = Inr (s, COMMIT ts)"
  shows "set ps \<subseteq> replied_shards ms \<and>
    (\<forall>v \<in> replied_values ms. v \<in> versions (s_values s) (v_key v) \<and>
       (\<exists>w \<in> versions (s_values s) (v_key v). v_ts w \<le> ts)) \<and>
    (c = RSS \<longrightarrow> (\<forall>(i, pt) \<in> set (s_prepares s). ts < pt_prepare_ts pt))"
proof -
  have "ro_inv {} (set ps) s0" using assms(1) by (simp add: ro_started_def ro_inv_def session_ok_def)
  from ro_run_inv [OF assms(2) [unfolded ro_run_def] this]
  have inv: "ro_inv (replied_values ms) (set ps - replied_shards ms) s" and c: "CheckCommit c s = COMMIT ts" by auto
  from c have "s_participants s = []" and ts: "ts = s_snapshot_ts s"
    and p: "c = SS \<or> ts < min_prepare_ts (s_prepares s)"
    by (auto simp: CheckCommit_def split: if_splits)
  then have none: "set ps - replied_shards ms = {}" using inv by (simp add: ro_inv_def)
  with inv ts p show ?thesis by (auto simp: ro_inv_def below_min_prepare)
qed

text \<open>
  Two shards: transaction 7 is prepared at both, with writes to both keys; shard 1 has
  seen it commit.
\<close>

definition ex_replies :: "snap_reply list" where
  "ex_replies =
     [FastReply 0 [ex_value 3 4 ''x'' ''a''] [ex_prepare 7 5 [(''x'', ''b'')], ex_prepare 9 20 [(''x'', ''c'')]],
      FastReply 1 [ex_value 7 6 ''y'' ''d''] []]"

lemma ex_session_started: "ps \<noteq> [] \<Longrightarrow> ro_started ps (ex_session ps)"
  by (simp add: ro_started_def ex_session_def)

lemma ro_commit_is_snapshot_witness:
  "\<exists>s. ro_run RSS ex_replies (ex_session [0, 1]) = Inr (s, COMMIT (Timestamp 6 1)) \<and>
     (\<exists>w \<in> versions (s_values s) ''x''. v_ts w \<le> Timestamp 6 1)"
proof -
  have "(case ro_run RSS ex_replies (ex_session [0, 1]) of Inl _ \<Rightarrow> False | Inr (s, r) \<Rightarrow> r = COMMIT (Timestamp 6 1))"
    by code_simp
  then obtain s where r: "ro_run RSS ex_replies (ex_session [0, 1]) = Inr (s, COMMIT (Timestamp 6 1))"
    by (cases "ro_run RSS ex_replies (ex_session [0, 1])") auto
  have "ex_value 3 4 ''x'' ''a'' \<in> replied_values ex_replies" by (simp add: ex_replies_def)
  with ro_commit_is_snapshot [OF ex_session_started r] have
    "\<exists>w \<in> versions (s_values s) (v_key (ex_value 3 4 ''x'' ''a'')). v_ts w \<le> Timestamp 6 1" by blast
  with r show ?thesis by (auto simp: ex_value_def)
qed

section \<open>Liveness\<close>

lemma um_keys_erase: "fst ` set (um_erase k m) = fst ` set m - {k}"
  using um_has_erase [of k m] by (auto simp: um_has_iff simp del: um_has_erase)

lemma slow_path_removes:
  assumes "session_ok s" and "rw \<in> set (um_keys (s_prepares s))"
  shows "\<exists>s'. ReceiveSlowPath RSS rw b ts s = Inr (s', CheckCommit RSS s') \<and> session_ok s' \<and>
    s_participants s' = s_participants s \<and> s_snapshot_ts s' = s_snapshot_ts s \<and>
    s_prepares s' = um_erase rw (s_prepares s)"
proof -
  obtain pt where "map_of (s_prepares s) rw = Some pt" using assms(2) by (meson map_of_eq_None_iff not_None_eq um_has_iff um_has_def)
  then show ?thesis using assms(1)
    by (auto simp: ReceiveSlowPath_def Let_def session_ok_def add_values_ok)
qed

lemma fold_max_less: "fold max xs a < t \<longleftrightarrow> a < t \<and> (\<forall>x \<in> set xs. x < (t :: timestamp))"
  by (induction xs arbitrary: a) auto

lemma find_committed_ts:
  assumes "fold find_committed vs (m, acc) = (m', acc')"
  shows "(\<forall>i. um_has m' i \<longrightarrow> um_has m i) \<and> (\<forall>w \<in> set acc'. w \<in> set acc \<or> (\<exists>v \<in> set vs. v_ts w = v_ts v))"
  using assms
proof (induction vs arbitrary: m acc)
  case (Cons v vs)
  obtain m1 acc1 where s1: "find_committed v (m, acc) = (m1, acc1)" by fastforce
  have "(\<forall>i. um_has m1 i \<longrightarrow> um_has m i) \<and> (\<forall>w \<in> set acc1. w \<in> set acc \<or> v_ts w = v_ts v)"
    using s1 by (auto simp: find_committed_def write_values_def split: option.splits)
  moreover have "fold find_committed vs (m1, acc1) = (m', acc')" using Cons.prems s1 by simp
  ultimately show ?case using Cons.IH [of m1 acc1] by fastforce
qed simp

text \<open>The shards whose fast-path reply is among the replies, and the transactions the slow-path replies are about.\<close>

fun fast_shards :: "snap_reply list \<Rightarrow> int list" where
  "fast_shards [] = []"
| "fast_shards (FastReply i vs ps # ms) = i # fast_shards ms"
| "fast_shards (SlowReply rw b ts # ms) = fast_shards ms"

fun slow_ids :: "snap_reply list \<Rightarrow> txn_id list" where
  "slow_ids [] = []"
| "slow_ids (FastReply i vs ps # ms) = slow_ids ms"
| "slow_ids (SlowReply rw b ts # ms) = rw # slow_ids ms"

text \<open>Whatever a fast-path reply lists as prepared is reported on later.\<close>

fun reported_on :: "snap_reply list \<Rightarrow> bool" where
  "reported_on [] = True"
| "reported_on (FastReply i vs ps # ms) = (pt_transaction_id ` set ps \<subseteq> set (slow_ids ms) \<and> reported_on ms)"
| "reported_on (SlowReply rw b ts # ms) = reported_on ms"

text \<open>Timestamps below the largest, and no prepared transactions in the strictly serializable mode.\<close>

definition reply_ok :: "consistency \<Rightarrow> snap_reply \<Rightarrow> bool" where
  "reply_ok c m = (case m of
     FastReply i vs ps \<Rightarrow> list_all (\<lambda>v. v_ts v < Timestamp_MAX) vs \<and> (c = RSS \<or> ps = [])
   | SlowReply rw b ts \<Rightarrow> c = RSS \<and> (b \<longrightarrow> ts < Timestamp_MAX))"

text \<open>The replies that are to come complete the read: \<open>ms\<close> is what is still to arrive.\<close>

definition ro_due :: "consistency \<Rightarrow> snap_reply list \<Rightarrow> strong_session \<Rightarrow> bool" where
  "ro_due c ms s \<longleftrightarrow> session_ok s \<and> set (s_participants s) = set (fast_shards ms) \<and>
     (\<forall>i. um_has (s_prepares s) i \<longrightarrow> i \<in> set (slow_ids ms)) \<and> (c = RSS \<or> s_prepares s = []) \<and>
     (\<forall>k. \<forall>v \<in> versions (s_values s) k. v_ts v < Timestamp_MAX) \<and>
     (s_participants s = [] \<longrightarrow> s_snapshot_ts s < Timestamp_MAX)"

lemma Timestamp_zero_below_MAX: "Timestamp_zero < Timestamp_MAX"
  by code_simp

lemma add_prepare_keys: "add_prepare p m = Inr m' \<Longrightarrow> um_has m' i \<Longrightarrow> um_has m i \<or> i = pt_transaction_id p"
  by (auto simp: add_prepare_def Let_def split: option.splits if_splits)

lemma add_prepares_keys: "foldE add_prepare ps m = Inr m' \<Longrightarrow> um_has m' i \<Longrightarrow> um_has m i \<or> i \<in> pt_transaction_id ` set ps"
proof (induction ps arbitrary: m)
  case (Cons p ps)
  then obtain m1 where "add_prepare p m = Inr m1" "foldE add_prepare ps m1 = Inr m'" by auto
  with Cons.IH [of m1] Cons.prems(2) add_prepare_keys [of p m m1 i] show ?case by auto
qed simp

lemma in_time_values:
  assumes "session_ok s"
  shows "(\<forall>k. \<forall>v \<in> versions (s_values s) k. v_ts v < Timestamp_MAX) \<longleftrightarrow>
    (\<forall>v \<in> set (concat (map snd (s_values s))). v_ts v < Timestamp_MAX)"
  using in_versions [of "s_values s"] assms by (auto simp: session_ok_def)

lemma FindCommittedKeys_in_time:
  assumes "FindCommittedKeys c s = Inr s'" and "session_ok s"
    and "\<forall>k. \<forall>v \<in> versions (s_values s) k. v_ts v < Timestamp_MAX"
  shows "(\<forall>k. \<forall>v \<in> versions (s_values s') k. v_ts v < Timestamp_MAX) \<and>
    (\<forall>i. um_has (s_prepares s') i \<longrightarrow> um_has (s_prepares s) i)"
proof (cases "s_prepares s = []")
  case True
  then show ?thesis using assms by (simp add: FindCommittedKeys_def)
next
  case False
  let ?vs = "concat (map snd (s_values s))"
  obtain m acc where f: "fold find_committed ?vs (s_prepares s, []) = (m, acc)" by fastforce
  have s': "s' = AddValues acc (s\<lparr>s_prepares := m\<rparr>)" using assms(1) f False by (auto simp: FindCommittedKeys_def split: if_splits)
  have "\<forall>v \<in> set ?vs. v_ts v < Timestamp_MAX" using assms(2,3) in_time_values by blast
  then have "\<forall>w \<in> set acc. v_ts w < Timestamp_MAX" using find_committed_ts [OF f] by fastforce
  then show ?thesis using find_committed_ts [OF f] assms(3) by (auto simp: s' versions_add_values)
qed

lemma CalculateSnapshotTimestamp_in_time:
  assumes "CalculateSnapshotTimestamp s = Inr s'" and "session_ok s"
    and "\<forall>k. \<forall>v \<in> versions (s_values s) k. v_ts v < Timestamp_MAX"
  shows "s_snapshot_ts s' < Timestamp_MAX \<and> s_values s' = s_values s \<and> s_prepares s' = s_prepares s"
proof -
  let ?ts = "fold max (map (\<lambda>(k, l). v_ts (last l)) (s_values s)) Timestamp_zero"
  have ok: "values_ok (s_values s)" using assms(2) by (simp add: session_ok_def)
  have s': "s' = s\<lparr>s_snapshot_ts := ?ts\<rparr>"
    using assms(1) values_ok_nonempty [OF ok] by (simp add: CalculateSnapshotTimestamp_def snapshot_fold)
  have "v_ts (last l) < Timestamp_MAX" if "(k, l) \<in> set (s_values s)" for k l
  proof -
    have "last l \<in> versions (s_values s) k"
      using that values_ok_nonempty [OF ok] values_ok_mem [OF ok, of k l] by (auto simp: versions_def)
    then show ?thesis using assms(3) by blast
  qed
  then have "?ts < Timestamp_MAX" using Timestamp_zero_below_MAX by (auto simp: fold_max_less)
  then show ?thesis by (simp add: s')
qed

lemma ReceivedAllFastPaths_in_time:
  assumes "ReceivedAllFastPaths c s = Inr s'" and "session_ok s" and "s_prepares s = [] \<or> c = RSS"
    and "\<forall>k. \<forall>v \<in> versions (s_values s) k. v_ts v < Timestamp_MAX"
  shows "s_snapshot_ts s' < Timestamp_MAX \<and> (\<forall>k. \<forall>v \<in> versions (s_values s') k. v_ts v < Timestamp_MAX) \<and>
    (\<forall>i. um_has (s_prepares s') i \<longrightarrow> um_has (s_prepares s) i)"
proof -
  obtain m vs where f: "FindCommittedKeys c s = Inr (AddValues vs (s\<lparr>s_prepares := m\<rparr>))" and m: "prepares_ok m"
    using FindCommittedKeys_ok [OF assms(2,3)] by blast
  let ?s = "AddValues vs (s\<lparr>s_prepares := m\<rparr>)"
  have ok: "session_ok ?s" using m assms(2) by (simp add: session_ok_def add_values_ok)
  have c: "CalculateSnapshotTimestamp ?s = Inr s'" using assms(1) f by (simp add: ReceivedAllFastPaths_def)
  note F = FindCommittedKeys_in_time [OF f assms(2,4)]
  show ?thesis using CalculateSnapshotTimestamp_in_time [OF c ok conjunct1 [OF F]] F by simp
qed

lemma um_has_nothing: "(\<forall>i. \<not> um_has m i) \<longleftrightarrow> m = []"
  by (auto simp: um_has_iff)

lemma ro_due_fast:
  assumes "ro_due c (FastReply i vs ps # ms) s" and "distinct (i # fast_shards ms)"
    and "reported_on (FastReply i vs ps # ms)" and "reply_ok c (FastReply i vs ps)"
  shows "\<exists>s'. ReceiveFastPath c i vs ps s = Inr (s', CheckCommit c s') \<and> ro_due c ms s'"
proof -
  let ?s1 = "AddValues vs (s\<lparr>s_participants := removeAll i (s_participants s)\<rparr>)"
  have ok: "session_ok s" and i: "i \<in> set (s_participants s)" using assms(1) by (auto simp: ro_due_def)
  then have ok1: "session_ok ?s1" by (simp add: session_ok_def add_values_ok)
  obtain m where m: "AddPrepares ps ?s1 = Inr (?s1\<lparr>s_prepares := m\<rparr>)" "prepares_ok m"
    using AddPrepares_ok [of ?s1 ps] ok1 by (auto simp: session_ok_def)
  let ?s2 = "?s1\<lparr>s_prepares := m\<rparr>"
  have ok2: "session_ok ?s2" using ok1 m(2) by (simp add: session_ok_def)
  have f: "foldE add_prepare ps (s_prepares s) = Inr m"
    using m(1) by (cases "foldE add_prepare ps (s_prepares s)") (auto simp: AddPrepares_def dest: arg_cong [where f = s_prepares])
  have keys: "\<forall>j. um_has m j \<longrightarrow> j \<in> set (slow_ids ms)"
  proof (intro allI impI)
    fix j assume "um_has m j"
    with add_prepares_keys [OF f] have "um_has (s_prepares s) j \<or> j \<in> pt_transaction_id ` set ps" by simp
    moreover have "pt_transaction_id ` set ps \<subseteq> set (slow_ids ms)" using assms(3) by simp
    ultimately show "j \<in> set (slow_ids ms)" using assms(1) by (auto simp only: ro_due_def slow_ids.simps)
  qed
  have none: "c = RSS \<or> m = []" using assms(1,4) f by (auto simp: ro_due_def reply_ok_def)
  have time: "\<forall>k. \<forall>v \<in> versions (s_values ?s2) k. v_ts v < Timestamp_MAX"
    using assms(1,4) by (auto simp: ro_due_def reply_ok_def list_all_iff versions_add_values)
  have left: "set (s_participants ?s2) = set (fast_shards ms)" using assms(1,2) by (auto simp: ro_due_def)
  show ?thesis
  proof (cases "s_participants ?s2 = []")
    case False
    then have "ReceiveFastPath c i vs ps s = Inr (?s2, CheckCommit c ?s2)" using m(1) i by (simp add: ReceiveFastPath_def Let_def)
    moreover have "ro_due c ms ?s2" using ok2 left keys none time False by (simp add: ro_due_def)
    ultimately show ?thesis by blast
  next
    case True
    have "s_prepares ?s2 = [] \<or> c = RSS" using none by auto
    from ReceivedAllFastPaths_ok [OF ok2 this] obtain s3 where
      s3: "ReceivedAllFastPaths c ?s2 = Inr s3" "session_ok s3" "s_participants s3 = s_participants ?s2" by blast
    note T = ReceivedAllFastPaths_in_time [OF s3(1) ok2 \<open>s_prepares ?s2 = [] \<or> c = RSS\<close> time]
    have "s_prepares s3 = []" if "m = []"
      using T that um_has_nothing [of "s_prepares s3"] by (simp add: um_has_def)
    then have "c = RSS \<or> s_prepares s3 = []" using none by blast
    moreover have "\<forall>j. um_has (s_prepares s3) j \<longrightarrow> j \<in> set (slow_ids ms)"
    proof (intro allI impI)
      fix j assume "um_has (s_prepares s3) j"
      then have "um_has m j" using T by simp
      then show "j \<in> set (slow_ids ms)" using keys by blast
    qed
    moreover have "set (s_participants s3) = set (fast_shards ms)" using s3(3) left by simp
    ultimately have "ro_due c ms s3" unfolding ro_due_def using s3(2) T by blast
    moreover have "ReceiveFastPath c i vs ps s = Inr (s3, CheckCommit c s3)"
      using m(1) i True s3(1) by (simp add: ReceiveFastPath_def Let_def)
    ultimately show ?thesis by blast
  qed
qed

lemma ro_due_slow:
  assumes "ro_due c (SlowReply rw b ts # ms) s" and "reply_ok c (SlowReply rw b ts)"
  shows "\<exists>s' r. ReceiveSlowPath c rw b ts s = Inr (s', r) \<and> ro_due c ms s' \<and>
    (r = CheckCommit c s' \<or> r = WAIT \<and> s' = s)"
proof (cases "map_of (s_prepares s) rw")
  case None
  then have "ReceiveSlowPath c rw b ts s = Inr (s, WAIT)" using assms(2) by (simp add: ReceiveSlowPath_def reply_ok_def)
  moreover have "\<not> um_has (s_prepares s) rw" using None by (simp add: um_has_def)
  then have "ro_due c ms s" using assms(1) by (auto simp: ro_due_def)
  ultimately show ?thesis by blast
next
  case (Some pt)
  define vs where "vs = (if b then write_values rw ts pt else [])"
  define s' where "s' = AddValues vs s\<lparr>s_prepares := um_erase rw (s_prepares s)\<rparr>"
  have r: "ReceiveSlowPath c rw b ts s = Inr (s', CheckCommit c s')"
    using Some assms(2) by (cases b; simp add: ReceiveSlowPath_def Let_def vs_def s'_def AddValues_def reply_ok_def)
  have "\<forall>v \<in> set vs. v_ts v < Timestamp_MAX" using assms(2) by (auto simp: vs_def write_values_def reply_ok_def)
  moreover have "c = RSS" using assms(2) by (simp add: reply_ok_def)
  ultimately have "ro_due c ms s'" using assms(1)
    by (auto simp: ro_due_def s'_def session_ok_def add_values_ok versions_add_values)
  with r show ?thesis by blast
qed

lemma ro_due_run:
  assumes "ro_due c ms s" and "distinct (fast_shards ms)" and "reported_on ms" and "list_all (reply_ok c) ms"
    and "CheckCommit c s = WAIT"
  shows "\<exists>n \<le> length ms. \<exists>s' ts. foldE (\<lambda>m (s, _). ro_receive c m s) (take n ms) (s, WAIT) = Inr (s', COMMIT ts)"
  using assms
proof (induction ms arbitrary: s)
  case Nil
  then have "s_participants s = []" "s_prepares s = []" "s_snapshot_ts s < Timestamp_MAX"
    by (auto simp: ro_due_def um_has_nothing)
  then show ?case using Nil.prems(5) by (auto simp: CheckCommit_def min_prepare_ts_def split: if_splits)
next
  case (Cons m ms)
  have "\<exists>s1 r1. ro_receive c m s = Inr (s1, r1) \<and> ro_due c ms s1 \<and> (r1 = CheckCommit c s1 \<or> r1 = WAIT \<and> s1 = s)"
  proof (cases m)
    case (FastReply i vs ps)
    then show ?thesis using ro_due_fast [of c i vs ps ms s] Cons.prems by (auto simp: ro_receive_def)
  next
    case (SlowReply rw b ts)
    then show ?thesis using ro_due_slow [of c rw b ts ms s] Cons.prems by (auto simp: ro_receive_def)
  qed
  then obtain s1 r1 where m: "ro_receive c m s = Inr (s1, r1)" and due: "ro_due c ms s1"
    and r1: "r1 = CheckCommit c s1 \<or> r1 = WAIT \<and> s1 = s" by blast
  show ?case
  proof (cases r1)
    case (COMMIT ts)
    then show ?thesis using m by (intro exI [of _ "Suc 0"]) auto
  next
    case WAIT
    have "distinct (fast_shards ms)" "reported_on ms" using Cons.prems(2,3) by (cases m; simp)+
    moreover have "CheckCommit c s1 = WAIT" using r1 WAIT Cons.prems(5) by auto
    ultimately obtain n s' ts where "n \<le> length ms"
      "foldE (\<lambda>m (s, _). ro_receive c m s) (take n ms) (s1, WAIT) = Inr (s', COMMIT ts)"
      using Cons.IH [OF due] Cons.prems(4) by auto
    then show ?thesis using m WAIT by (intro exI [of _ "Suc n"]) auto
  qed
qed

text \<open>
  \<^bold>\<open>C35\<close> A read-only transaction finishes. Let every shard asked answer once on the
  fast path, and let each transaction that a fast-path reply lists as prepared be decided by
  a slow-path reply received after it; apart from that the replies may come in any order,
  slow-path replies before the fast-path replies of other shards included, and decide
  whatever they like. Then at one of these replies the client returns a snapshot, and
  no assertion fails before. In the strictly serializable mode the shards list no prepared
  transaction and send no slow-path reply; timestamps are below the largest one.
  (A slow-path reply that overtook the fast-path reply of its own shard would not count: the shard
  client asserts that none does.)
\<close>

theorem ro_commit_finishes:
  assumes "ro_started ps s0" and "distinct (fast_shards ms)" and "set (fast_shards ms) = set ps"
    and "reported_on ms" and "list_all (reply_ok c) ms"
  shows "\<exists>n \<le> length ms. \<exists>s ts. ro_run c (take n ms) s0 = Inr (s, COMMIT ts)"
proof -
  have "ro_due c ms s0" "CheckCommit c s0 = WAIT"
    using assms(1,3) by (simp_all add: ro_started_def ro_due_def session_ok_def CheckCommit_def)
  from ro_due_run [OF this(1) assms(2,4,5) this(2)] show ?thesis by (simp add: ro_run_def)
qed

text \<open>
  Transaction 7 is prepared at both shards, and the first reports its commit before the second
  has answered; the snapshot waits for the second report.
\<close>

definition ex_late_replies :: "snap_reply list" where
  "ex_late_replies =
     [FastReply 0 [ex_value 3 6 ''x'' ''a''] [ex_prepare 7 5 [(''x'', ''b'')]],
      SlowReply 7 True (Timestamp 8 1),
      FastReply 1 [ex_value 4 6 ''y'' ''c''] [ex_prepare 9 4 [(''y'', ''d'')]],
      SlowReply 9 False Timestamp_zero]"

lemma ro_commit_finishes_witness:
  "\<exists>n \<le> 4. \<exists>s ts. ro_run RSS (take n ex_late_replies) (ex_session [0, 1]) = Inr (s, COMMIT ts)"
proof -
  have "distinct (fast_shards ex_late_replies)" "set (fast_shards ex_late_replies) = set [0, 1]"
    "reported_on ex_late_replies" "length ex_late_replies = 4"
    by (auto simp: ex_late_replies_def ex_prepare_def)
  moreover have "list_all (reply_ok RSS) ex_late_replies" by code_simp
  ultimately show ?thesis using ro_commit_finishes [OF ex_session_started [of "[0, 1]"], of ex_late_replies RSS] by simp
qed

text \<open>The transaction of that example is waited for: the first three replies return no snapshot.\<close>

lemma ex_late_replies_wait:
  "\<forall>n \<in> {1, 2, 3}. (case ro_run RSS (take n ex_late_replies) (ex_session [0, 1]) of Inr (_, WAIT) \<Rightarrow> True | _ \<Rightarrow> False)"
  by code_simp

end
