(* ===== verification/Rss.thy ===== *)
theory Rss
  imports ClientSnapshot
begin

text \<open>
  \<open>src/rss/lib.cc\<close> and \<open>src/include/rss/lib.h\<close>: the registry of services and the state
  machine of a session, which asks for a real-time barrier when the session moves from
  one service to another. The services' barriers are registered by name; which names
  are registered is all the session needs.
\<close>

definition RegisterRSSService :: "string \<Rightarrow> string list \<Rightarrow> string list outcome" where
  "RegisterRSSService name services =
     (if name \<in> set services then Inl Thrown else Inr (name # services))"

definition UnregisterRSSService :: "string \<Rightarrow> string list \<Rightarrow> string list outcome" where
  "UnregisterRSSService name services =
     (if name \<in> set services then Inr (removeAll name services) else Inl Thrown)"

definition FindService :: "string \<Rightarrow> string list \<Rightarrow> string outcome" where
  "FindService name services = (if name \<in> set services then Inr name else Inl Thrown)"

text \<open>
  Beginning a transaction of a session at the service \<open>name\<close>: the service whose barrier
  runs first, if any; otherwise the continuation is called at once.
\<close>

definition rss_StartTransaction :: "string list \<Rightarrow> string \<Rightarrow> strong_session \<Rightarrow>
    (strong_session \<times> string option) outcome" where
  "rss_StartTransaction services name s =
     (let invoke_barrier = (s_last_service s \<noteq> [] \<and> s_last_service s \<noteq> name \<and> s_rss_state s = RSS_EXECUTED) in
      case s_rss_state s of
        RSS_EXECUTING \<Rightarrow> Inl Thrown
      | _ \<Rightarrow>
          let s1 = s\<lparr>s_rss_state := RSS_EXECUTING\<rparr> in
          if invoke_barrier
          then bindE (FindService (s_last_service s1) services)
                 (\<lambda>last. Inr (s1\<lparr>s_last_service := name\<rparr>, Some last))
          else Inr (s1\<lparr>s_last_service := name\<rparr>, None))"

definition rss_EndTransaction :: "strong_session \<Rightarrow> strong_session outcome" where
  "rss_EndTransaction s = (case s_rss_state s of
     RSS_EXECUTING \<Rightarrow> Inr (s\<lparr>s_rss_state := RSS_EXECUTED\<rparr>)
   | _ \<Rightarrow> Inl Thrown)"

definition rss_Session_init :: "u64 \<Rightarrow> strong_session" where
  "rss_Session_init i =
     \<lparr>s_id = i, s_last_service = [], s_rss_state = RSS_NONE, s_transaction_id = - 1,
      s_start_ts = Timestamp_zero, s_min_read_ts = Timestamp_zero, s_participants = [],
      s_prepares = [], s_values = [], s_snapshot_ts = Timestamp_zero,
      s_current_participant = - 1, s_state = S_EXECUTING\<rparr>"

text \<open>A transaction starts only where none is running, and needs a barrier exactly when the session moves.\<close>

lemma rss_StartTransaction_Inr:
  "rss_StartTransaction services name s = Inr (s', b) \<Longrightarrow>
   s_rss_state s \<noteq> RSS_EXECUTING \<and> s' = s\<lparr>s_rss_state := RSS_EXECUTING, s_last_service := name\<rparr> \<and>
   b = (if s_last_service s \<noteq> [] \<and> s_last_service s \<noteq> name \<and> s_rss_state s = RSS_EXECUTED
        then Some (s_last_service s) else None)"
  by (cases "s_rss_state s") (auto simp: rss_StartTransaction_def FindService_def Let_def split: if_splits)

lemma rss_EndTransaction_Inr:
  "rss_EndTransaction s = Inr s' \<Longrightarrow> s_rss_state s = RSS_EXECUTING \<and> s' = s\<lparr>s_rss_state := RSS_EXECUTED\<rparr>"
  by (cases "s_rss_state s") (auto simp: rss_EndTransaction_def)

end
