(* ===== verification/StrongClient.thy ===== *)
theory StrongClient
  imports Rss
begin

text \<open>
  \<open>src/store/strongstore/client.{h,cc}\<close>: the transactions of a client. A session is found
  by its id, where the code keeps references; following a reference to a session that is
  gone is \<open>UndefinedBehaviour\<close>. The references of \<open>sessions_by_transaction_id_\<close> outlive the
  session: when it ends they become \<open>None\<close>, so that a session that comes back under the same
  id is not mistaken for the old one. The calls of the shard clients, the application's callbacks and
  the timers are appended to a trace, in order. Arguments of the operations are the clock
  reading, the partitioner, and the network latencies.
\<close>

section \<open>State\<close>

datatype transaction_status = COMMITTED_STATUS | ABORTED_USER | ABORTED_SYSTEM | ABORTED_MAX_RETRIES

datatype client_event =
    CallBegin int txn_id timestamp
  | CallGet int txn_id key
  | CallGetForUpdate int txn_id key
  | CallPut int txn_id key val
  | CallAbortGet int txn_id
  | CallAbortPut int txn_id
  | CallWound int txn_id
  | CallRWCommitCoordinator int txn_id "int list" timestamp
  | CallRWCommitParticipant int txn_id int timestamp
  | CallAbort int txn_id
  | CallROCommit int txn_id "key list" timestamp timestamp
  | BeginDone u64
  | GetDone u64 reply_code key val timestamp
  | PutDone u64 reply_code key val
  | CommitDone u64 transaction_status
  | CommitTimer u64 u64 transaction_status
  | AbortDone u64
  | InvokeBarrier string u64
  | BarrierTimer u64 u64

record pending_request =
  pr_id :: u64
  pr_outstandingPrepares :: int

record strong_client =
  c_coord_choices :: "(u16, int) umap"
  c_min_lats :: "(u16, u16) umap"
  c_sessions :: "(u64, strong_session) umap"
  c_sessions_by_transaction_id :: "(txn_id, u64 option) umap"
  c_tmins :: "(u64, timestamp) umap"
  c_service_name :: string
  c_client_id :: u64
  c_nshards :: nat
  c_next_transaction_id :: txn_id
  c_last_req_id :: u64
  c_pending_reqs :: "(u64, pending_request) umap"
  c_consistency :: consistency
  c_trace :: "client_event list"

definition client_emit :: "client_event \<Rightarrow> strong_client \<Rightarrow> strong_client" where
  "client_emit e c = c\<lparr>c_trace := c_trace c @ [e]\<rparr>"

definition client_emits :: "client_event list \<Rightarrow> strong_client \<Rightarrow> strong_client" where
  "client_emits es c = c\<lparr>c_trace := c_trace c @ es\<rparr>"

text \<open>Following a reference to the session \<open>sid\<close>.\<close>

definition with_session :: "u64 \<Rightarrow> strong_client \<Rightarrow> (strong_session \<Rightarrow> 'a outcome) \<Rightarrow> 'a outcome" where
  "with_session sid c f = (case map_of (c_sessions c) sid of
     None \<Rightarrow> Inl UndefinedBehaviour | Some s \<Rightarrow> f s)"

definition put_session :: "u64 \<Rightarrow> strong_session \<Rightarrow> strong_client \<Rightarrow> strong_client" where
  "put_session sid s c = c\<lparr>c_sessions := um_put sid s (c_sessions c)\<rparr>"

section \<open>Sessions of the client\<close>

definition start_transaction :: "txn_id \<Rightarrow> timestamp \<Rightarrow> strong_session \<Rightarrow> strong_session" where
  "start_transaction tid ts s =
     s\<lparr>s_transaction_id := tid, s_start_ts := ts, s_participants := [], s_prepares := [], s_values := [],
       s_snapshot_ts := Timestamp_zero, s_current_participant := - 1, s_state := S_EXECUTING\<rparr>"

definition retry_transaction :: "txn_id \<Rightarrow> strong_session \<Rightarrow> strong_session" where
  "retry_transaction tid s =
     s\<lparr>s_transaction_id := tid, s_participants := [], s_prepares := [], s_values := [],
       s_snapshot_ts := Timestamp_zero, s_current_participant := - 1, s_state := S_EXECUTING\<rparr>"

definition set_executing :: "strong_session \<Rightarrow> strong_session" where
  "set_executing s = s\<lparr>s_current_participant := - 1, s_state := S_EXECUTING\<rparr>"

definition set_getting :: "int \<Rightarrow> strong_session \<Rightarrow> strong_session" where
  "set_getting p s = s\<lparr>s_current_participant := p, s_state := S_GETTING\<rparr>"

definition set_putting :: "int \<Rightarrow> strong_session \<Rightarrow> strong_session" where
  "set_putting p s = s\<lparr>s_current_participant := p, s_state := S_PUTTING\<rparr>"

definition add_participant :: "int \<Rightarrow> strong_session \<Rightarrow> strong_session" where
  "add_participant p s =
     s\<lparr>s_participants := (if p \<in> set (s_participants s) then s_participants s else insort p (s_participants s))\<rparr>"

definition advance_min_read_ts :: "timestamp \<Rightarrow> strong_session \<Rightarrow> strong_session" where
  "advance_min_read_ts ts s = s\<lparr>s_min_read_ts := max (s_min_read_ts s) ts\<rparr>"

definition BeginSession :: "u64 \<Rightarrow> strong_client \<Rightarrow> strong_client" where
  "BeginSession sid c = c\<lparr>c_sessions := um_emplace sid (rss_Session_init sid) (c_sessions c)\<rparr>"

text \<open>A session that comes from another service brings only its \<open>rss::Session\<close> part.\<close>

definition ContinueSession :: "strong_session \<Rightarrow> strong_client \<Rightarrow> strong_client" where
  "ContinueSession rss c = c\<lparr>c_sessions := um_emplace (s_id rss)
     ((rss_Session_init (s_id rss))\<lparr>s_last_service := s_last_service rss, s_rss_state := s_rss_state rss\<rparr>)
     (c_sessions c)\<rparr>"

definition EndSession :: "u64 \<Rightarrow> strong_client \<Rightarrow> (strong_session \<times> strong_client) outcome" where
  "EndSession sid c = (case map_of (c_sessions c) sid of
     None \<Rightarrow> Inl AssertFailed
   | Some s \<Rightarrow> Inr (s, c\<lparr>c_tmins := um_emplace sid (s_min_read_ts s) (c_tmins c),
       c_sessions := um_erase sid (c_sessions c),
       c_sessions_by_transaction_id :=
         map (\<lambda>(t, r). (t, if r = Some sid then None else r)) (c_sessions_by_transaction_id c)\<rparr>))"

text \<open>The barrier waits until the session's last timestamp plus 10 ms is in the past.\<close>

definition RealTimeBarrier :: "u64 \<Rightarrow> u64 \<Rightarrow> u64 \<Rightarrow> strong_client \<Rightarrow> strong_client outcome" where
  "RealTimeBarrier error time sid c = (case map_of (c_tmins c) sid of
     None \<Rightarrow> Inl AssertFailed
   | Some tmin \<Rightarrow> Inr (client_emit
       (BarrierTimer (TimeToWaitUntilMicros error time (getTimestamp tmin + 10000)) sid)
       c\<lparr>c_tmins := um_erase sid (c_tmins c)\<rparr>))"

section \<open>Choosing the coordinator\<close>

text \<open>
  The latencies: \<open>region\<close> of the leader of a shard, \<open>one_way\<close> between two regions, and the
  quorum latency of a shard's leader. Sums are truncated to \<open>uint16_t\<close>. The code writes
  to vectors it has reserved but not resized; the model takes their elements to be there.
\<close>

record net_config =
  nc_g :: nat
  nc_client_region :: string
  nc_region :: "nat \<Rightarrow> string"
  nc_one_way :: "string \<Rightarrow> string \<Rightarrow> u16"
  nc_min_quorum :: "nat \<Rightarrow> u16"

definition prepare_lat :: "net_config \<Rightarrow> nat \<Rightarrow> u16" where
  "prepare_lat nc i = nc_one_way nc (nc_client_region nc) (nc_region nc i) + nc_min_quorum nc i"

definition commit_lat :: "net_config \<Rightarrow> nat \<Rightarrow> u16" where
  "commit_lat nc i = nc_min_quorum nc i + nc_one_way nc (nc_region nc i) (nc_client_region nc)"

abbreviation MAX_SHARDS :: nat where
  "MAX_SHARDS \<equiv> 16"

text \<open>The index of the set bit number \<open>idx\<close>, counting from 1; \<open>d\<close> when there is none.\<close>

fun find_coord :: "u16 \<Rightarrow> nat \<Rightarrow> int \<Rightarrow> nat list \<Rightarrow> nat \<Rightarrow> int" where
  "find_coord shards idx d [] n_test = d"
| "find_coord shards idx d (i # is) n_test =
     (let n = (if bit shards i then n_test + 1 else n_test) in
      if n = idx then int i else find_coord shards idx d is n)"

definition shard_count :: "u16 \<Rightarrow> nat" where
  "shard_count shards = length (filter (bit shards) [0..<MAX_SHARDS])"

definition coord_lat :: "net_config \<Rightarrow> u16 \<Rightarrow> nat \<Rightarrow> u16" where
  "coord_lat nc shards coord =
     fold (\<lambda>i lat. max lat
         (if i = coord then nc_one_way nc (nc_client_region nc) (nc_region nc coord)
          else if bit shards i then prepare_lat nc i + nc_one_way nc (nc_region nc i) (nc_region nc coord)
          else 0)) [0..<MAX_SHARDS] 0 + commit_lat nc coord"

definition best_coord :: "net_config \<Rightarrow> u16 \<Rightarrow> u16 \<times> int" where
  "best_coord nc shards =
     fold (\<lambda>idx (min_lat, min_coord).
         let coord = find_coord shards idx (- 1) [0..<MAX_SHARDS] 0; lat = coord_lat nc shards (nat coord) in
         if lat < min_lat then (lat, coord) else (min_lat, min_coord))
       [1..<Suc (shard_count shards)] (- 1, - 1)"

definition coord_choice :: "u64 \<Rightarrow> net_config \<Rightarrow> u16 \<Rightarrow> u16 \<times> int" where
  "coord_choice client_id nc shards =
     (let (min_lat, min_coord) = best_coord nc shards in
      if min_lat = 0
      then (min_lat, find_coord shards (unat client_id mod shard_count shards + 1) min_coord [0..<MAX_SHARDS] 0)
      else (min_lat, min_coord))"

text \<open>The loop over all sets of shards ends when the 16-bit counter wraps or passes the last one.\<close>

definition CalculateCoordinatorChoices :: "net_config \<Rightarrow> strong_client \<Rightarrow> strong_client outcome" where
  "CalculateCoordinatorChoices nc c =
     (if nc_g nc > MAX_SHARDS then Inl Panicked
      else let choices = map (\<lambda>s. (of_nat s, coord_choice (c_client_id c) nc (of_nat s))) [1..<2 ^ nc_g nc] in
        Inr (c\<lparr>c_coord_choices := map (\<lambda>(s, l, i). (s, i)) choices, c_min_lats := map (\<lambda>(s, l, i). (s, l)) choices\<rparr>))"

definition Client_init :: "consistency \<Rightarrow> net_config \<Rightarrow> u64 \<Rightarrow> nat \<Rightarrow> string \<Rightarrow> u64 \<Rightarrow> string list \<Rightarrow>
    (strong_client \<times> string list) outcome" where
  "Client_init co nc client_id nshards name garbage services =
     bindE (CalculateCoordinatorChoices nc
       \<lparr>c_coord_choices = [], c_min_lats = [], c_sessions = [], c_sessions_by_transaction_id = [], c_tmins = [],
        c_service_name = name, c_client_id = client_id, c_nshards = nshards,
        c_next_transaction_id = push_bit 26 client_id, c_last_req_id = garbage, c_pending_reqs = [],
        c_consistency = co, c_trace = []\<rparr>) (\<lambda>c.
     bindE (RegisterRSSService name services) (\<lambda>services'. Inr (c, services')))"

text \<open>\<open>std::bitset::set\<close> throws on a position that is not in the set.\<close>

definition shards_of :: "int list \<Rightarrow> u16 outcome" where
  "shards_of ps = foldE (\<lambda>p s. if 0 \<le> p \<and> p < int MAX_SHARDS then Inr (set_bit (nat p) s) else Inl Thrown) ps 0"

definition ChooseCoordinator :: "strong_client \<Rightarrow> strong_session \<Rightarrow> int outcome" where
  "ChooseCoordinator c s =
     assertE (s_participants s \<noteq> [])
       (bindE (shards_of (s_participants s)) (\<lambda>shards.
          case map_of (c_coord_choices c) shards of None \<Rightarrow> Inl AssertFailed | Some i \<Rightarrow> Inr i))"

text \<open>\<open>nb_lat\<close> is the product of the latency, 1000 and the floating-point factor \<open>nb_time_alpha_\<close>.\<close>

definition ChooseNonBlockTimestamp :: "(u16 \<Rightarrow> u64) \<Rightarrow> u64 \<Rightarrow> u64 \<Rightarrow> strong_client \<Rightarrow> strong_session \<Rightarrow>
    timestamp outcome" where
  "ChooseNonBlockTimestamp nb_lat error time c s =
     assertE (s_participants s \<noteq> [])
       (bindE (shards_of (s_participants s)) (\<lambda>shards.
          case map_of (c_min_lats c) shards of None \<Rightarrow> Inl AssertFailed
          | Some l \<Rightarrow> Inr (Timestamp (earliest (tt_Now error time) + nb_lat l) (c_client_id c))))"

section \<open>Beginning\<close>

definition forget_transaction :: "strong_session \<Rightarrow> strong_client \<Rightarrow> strong_client" where
  "forget_transaction s c =
     (if s_transaction_id s \<noteq> - 1
      then c\<lparr>c_sessions_by_transaction_id := um_erase (s_transaction_id s) (c_sessions_by_transaction_id c)\<rparr>
      else c)"

definition begin_with :: "u64 \<Rightarrow> (txn_id \<Rightarrow> strong_session \<Rightarrow> strong_session) \<Rightarrow> strong_client \<Rightarrow>
    strong_client outcome" where
  "begin_with sid f c = with_session sid c (\<lambda>s.
     let c1 = forget_transaction s c;
         tid = c_next_transaction_id c1;
         s1 = f tid s;
         c2 = put_session sid s1 (c1\<lparr>c_next_transaction_id := tid + 1,
           c_sessions_by_transaction_id := um_emplace tid (Some sid) (c_sessions_by_transaction_id c1)\<rparr>) in
     Inr (client_emits (map (\<lambda>i. CallBegin (int i) tid (s_start_ts s1)) [0..<c_nshards c2] @ [BeginDone sid]) c2))"

definition ContinueBegin :: "u64 \<Rightarrow> u64 \<Rightarrow> u64 \<Rightarrow> strong_client \<Rightarrow> strong_client outcome" where
  "ContinueBegin error time sid c =
     begin_with sid (\<lambda>tid. start_transaction tid (Timestamp (latest (tt_Now error time)) (c_client_id c))) c"

definition ContinueRetry :: "u64 \<Rightarrow> strong_client \<Rightarrow> strong_client outcome" where
  "ContinueRetry sid c = begin_with sid retry_transaction c"

definition start_then :: "string list \<Rightarrow> u64 \<Rightarrow> (strong_client \<Rightarrow> strong_client outcome) \<Rightarrow> strong_client \<Rightarrow>
    strong_client outcome" where
  "start_then services sid k c = with_session sid c (\<lambda>s.
     bindE (rss_StartTransaction services (c_service_name c) s) (\<lambda>(s1, barrier).
       let c1 = put_session sid s1 c in
       case barrier of None \<Rightarrow> k c1 | Some svc \<Rightarrow> Inr (client_emit (InvokeBarrier svc sid) c1)))"

definition Begin :: "string list \<Rightarrow> u64 \<Rightarrow> u64 \<Rightarrow> u64 \<Rightarrow> strong_client \<Rightarrow> strong_client outcome" where
  "Begin services error time sid c = start_then services sid (ContinueBegin error time sid) c"

definition Retry :: "string list \<Rightarrow> u64 \<Rightarrow> strong_client \<Rightarrow> strong_client outcome" where
  "Retry services sid c = start_then services sid (ContinueRetry sid) c"

section \<open>Reading and writing\<close>

type_synonym partitioner = "key \<Rightarrow> nat \<Rightarrow> int \<Rightarrow> int list \<Rightarrow> int"

definition client_get :: "partitioner \<Rightarrow> (int \<Rightarrow> txn_id \<Rightarrow> client_event) \<Rightarrow> u64 \<Rightarrow> key \<Rightarrow> strong_client \<Rightarrow>
    strong_client outcome" where
  "client_get part call sid k c = with_session sid c (\<lambda>s.
     if s_state s = S_NEEDS_ABORT then Inr (client_emit (GetDone sid REPLY_FAIL [] [] Timestamp_zero) c)
     else assertE (s_state s = S_EXECUTING)
       (let i = part k (c_nshards c) (- 1) (s_participants s) in
        Inr (client_emit (call i (s_transaction_id s)) (put_session sid (add_participant i (set_getting i s)) c))))"

definition Client_Get :: "partitioner \<Rightarrow> u64 \<Rightarrow> key \<Rightarrow> strong_client \<Rightarrow> strong_client outcome" where
  "Client_Get part sid k c = client_get part (\<lambda>i tid. CallGet i tid k) sid k c"

definition Client_GetForUpdate :: "partitioner \<Rightarrow> u64 \<Rightarrow> key \<Rightarrow> strong_client \<Rightarrow> strong_client outcome" where
  "Client_GetForUpdate part sid k c = client_get part (\<lambda>i tid. CallGetForUpdate i tid k) sid k c"

text \<open>The callbacks given to the shard clients.\<close>

definition GetReturned :: "u64 \<Rightarrow> reply_code \<Rightarrow> key \<Rightarrow> val \<Rightarrow> timestamp \<Rightarrow> strong_client \<Rightarrow> strong_client outcome" where
  "GetReturned sid st k v ts c = with_session sid c (\<lambda>s.
     Inr (client_emit (GetDone sid st k v ts) (put_session sid (set_executing s) c)))"

definition PutReturned :: "u64 \<Rightarrow> reply_code \<Rightarrow> key \<Rightarrow> val \<Rightarrow> strong_client \<Rightarrow> strong_client outcome" where
  "PutReturned sid st k v c = with_session sid c (\<lambda>s.
     Inr (client_emit (PutDone sid st k v) (put_session sid (set_executing s) c)))"

definition Client_Put :: "partitioner \<Rightarrow> u64 \<Rightarrow> key \<Rightarrow> val \<Rightarrow> strong_client \<Rightarrow> strong_client outcome" where
  "Client_Put part sid k v c = with_session sid c (\<lambda>s.
     if s_state s = S_NEEDS_ABORT then Inr (client_emit (PutDone sid REPLY_FAIL [] []) c)
     else assertE (s_state s = S_EXECUTING)
       (let i = part k (c_nshards c) (- 1) (s_participants s) in
        Inr (client_emit (CallPut i (s_transaction_id s) k v)
          (put_session sid (add_participant i (set_putting i s)) c))))"

section \<open>Committing and aborting\<close>

definition new_request :: "int \<Rightarrow> strong_client \<Rightarrow> u64 \<times> strong_client" where
  "new_request n c = (let r = c_last_req_id c in
     (r, c\<lparr>c_last_req_id := r + 1, c_pending_reqs := um_put r \<lparr>pr_id = r, pr_outstandingPrepares = n\<rparr> (c_pending_reqs c)\<rparr>))"

definition Client_Commit :: "(u16 \<Rightarrow> u64) \<Rightarrow> u64 \<Rightarrow> u64 \<Rightarrow> u64 \<Rightarrow> strong_client \<Rightarrow> strong_client outcome" where
  "Client_Commit nb_lat error time sid c = with_session sid c (\<lambda>s.
     let tid = s_transaction_id s in
     if s_state s = S_NEEDS_ABORT then Inr (client_emit (CommitDone sid ABORTED_SYSTEM) c)
     else assertE (s_state s = S_EXECUTING)
       (let s1 = s\<lparr>s_state := S_COMMITTING\<rparr>;
            (_, c1) = new_request 0 (put_session sid s1 c) in
        assertE (s_participants s1 \<noteq> [])
          (bindE (ChooseCoordinator c1 s1) (\<lambda>coord.
           bindE (if c_consistency c1 = RSS then ChooseNonBlockTimestamp nb_lat error time c1 s1
                  else Inr Timestamp_zero) (\<lambda>nonblock.
           Inr (client_emits (map (\<lambda>p. if p = coord
               then CallRWCommitCoordinator p tid (s_participants s1) nonblock
               else CallRWCommitParticipant p tid coord nonblock) (s_participants s1)) c1))))))"

definition CommitCallback :: "u64 \<Rightarrow> u64 \<Rightarrow> u64 \<Rightarrow> u64 \<Rightarrow> reply_code \<Rightarrow> timestamp \<Rightarrow> timestamp \<Rightarrow> strong_client \<Rightarrow>
    strong_client outcome" where
  "CommitCallback error time sid req st commit_ts nonblock_ts c = with_session sid c (\<lambda>s.
     case map_of (c_pending_reqs c) req of
       None \<Rightarrow> Inr c
     | Some _ \<Rightarrow>
         let tstatus = (if st = REPLY_OK then COMMITTED_STATUS else ABORTED_SYSTEM);
             c1 = c\<lparr>c_pending_reqs := um_erase req (c_pending_reqs c)\<rparr>;
             rss = (tstatus = COMMITTED_STATUS \<and> c_consistency c1 = RSS);
             ms = (if rss then TimeToWaitUntilMS error time (getTimestamp nonblock_ts) else 0);
             s1 = (if rss then advance_min_read_ts commit_ts s else s) in
         bindE (rss_EndTransaction s1) (\<lambda>s2.
           Inr (client_emit (CommitTimer ms sid tstatus) (put_session sid s2 c1))))"

definition Client_Abort :: "u64 \<Rightarrow> strong_client \<Rightarrow> strong_client outcome" where
  "Client_Abort sid c = with_session sid c (\<lambda>s.
     assertE (s_state s = S_NEEDS_ABORT \<or> s_state s = S_EXECUTING)
       (let s1 = s\<lparr>s_state := S_ABORTING\<rparr>;
            (_, c1) = new_request (int (length (s_participants s1))) (put_session sid s1 c) in
        Inr (client_emits (map (\<lambda>p. CallAbort p (s_transaction_id s1)) (s_participants s1)) c1)))"

definition AbortCallback :: "u64 \<Rightarrow> u64 \<Rightarrow> strong_client \<Rightarrow> strong_client outcome" where
  "AbortCallback sid req c = with_session sid c (\<lambda>s.
     case map_of (c_pending_reqs c) req of
       None \<Rightarrow> Inr c
     | Some p \<Rightarrow>
         let n = pr_outstandingPrepares p - 1 in
         if n = 0
         then bindE (rss_EndTransaction s) (\<lambda>s1.
           Inr (client_emit (AbortDone sid) (put_session sid s1 (c\<lparr>c_pending_reqs := um_erase req (c_pending_reqs c)\<rparr>))))
         else Inr (c\<lparr>c_pending_reqs := um_put req (p\<lparr>pr_outstandingPrepares := n\<rparr>) (c_pending_reqs c)\<rparr>))"

section \<open>Read-only transactions\<close>

text \<open>The keys of each shard; the partitioner sees the participants found so far.\<close>

definition shard_key :: "partitioner \<Rightarrow> nat \<Rightarrow> key \<Rightarrow> strong_session \<times> (int, key list) umap \<Rightarrow>
    strong_session \<times> (int, key list) umap" where
  "shard_key part n k = (\<lambda>(s, m).
     let i = part k n (- 1) (s_participants s); (l, m') = um_ref [] m i in
     (add_participant i s, um_put i (l @ [k]) m'))"

definition shard_keys :: "partitioner \<Rightarrow> nat \<Rightarrow> key list \<Rightarrow> strong_session \<Rightarrow> strong_session \<times> (int, key list) umap" where
  "shard_keys part n ks s = fold (shard_key part n) ks (s, [])"

definition ro_commit_timestamps :: "consistency \<Rightarrow> u64 \<Rightarrow> u64 \<Rightarrow> u64 \<Rightarrow> strong_session \<Rightarrow> timestamp \<times> timestamp" where
  "ro_commit_timestamps co error time client_id s =
     (let min_ts = s_min_read_ts s;
          commit_ts = Timestamp (latest (tt_Now error time)) client_id in
      (if co = RSS \<and> min_ts \<ge> commit_ts then setTimestamp commit_ts (getTimestamp min_ts + 1) else commit_ts, min_ts))"

definition Client_ROCommit :: "partitioner \<Rightarrow> u64 \<Rightarrow> u64 \<Rightarrow> u64 \<Rightarrow> key list \<Rightarrow> strong_client \<Rightarrow> strong_client outcome" where
  "Client_ROCommit part error time sid ks c = with_session sid c (\<lambda>s.
     let s1 = s\<lparr>s_state := S_COMMITTING\<rparr> in
     assertE (s_participants s1 = [])
       (let (s2, sharded) = shard_keys part (c_nshards c) ks s1;
            (_, c1) = new_request (int (length sharded)) (put_session sid s2 c) in
        assertE (length sharded > 0)
          (let (commit_ts, min_ts) = ro_commit_timestamps (c_consistency c1) error time (c_client_id c1) s2 in
           Inr (client_emits (map (\<lambda>(i, l). CallROCommit i (s_transaction_id s2) l commit_ts min_ts) sharded) c1))))"

definition finish_ro_commit :: "u64 \<Rightarrow> u64 \<Rightarrow> strong_session \<times> snapshot_result \<Rightarrow> strong_client \<Rightarrow>
    strong_client outcome" where
  "finish_ro_commit sid req = (\<lambda>(s, r) c. case r of
     COMMIT ts \<Rightarrow> bindE (rss_EndTransaction (advance_min_read_ts ts s)) (\<lambda>s1.
       Inr (client_emit (CommitDone sid COMMITTED_STATUS)
         (put_session sid s1 (c\<lparr>c_pending_reqs := um_erase req (c_pending_reqs c)\<rparr>))))
   | WAIT \<Rightarrow> Inr (put_session sid s c))"

definition ROCommitCallback :: "u64 \<Rightarrow> u64 \<Rightarrow> int \<Rightarrow> read_value list \<Rightarrow> prepared_transaction list \<Rightarrow>
    strong_client \<Rightarrow> strong_client outcome" where
  "ROCommitCallback sid req shard vs ps c = with_session sid c (\<lambda>s.
     if um_has (c_pending_reqs c) req
     then bindE (ReceiveFastPath (c_consistency c) shard vs ps s) (\<lambda>r. finish_ro_commit sid req r c)
     else Inr c)"

text \<open>Here the pending request is looked up before the session is used.\<close>

definition ROCommitSlowCallback :: "u64 \<Rightarrow> u64 \<Rightarrow> txn_id \<Rightarrow> timestamp \<Rightarrow> bool \<Rightarrow> strong_client \<Rightarrow> strong_client outcome" where
  "ROCommitSlowCallback sid req rw ts is_commit c =
     (if um_has (c_pending_reqs c) req
      then with_session sid c (\<lambda>s.
        bindE (ReceiveSlowPath (c_consistency c) rw is_commit ts s) (\<lambda>r. finish_ro_commit sid req r c))
      else Inr c)"

section \<open>Wounds\<close>

definition Client_HandleWound :: "txn_id \<Rightarrow> strong_client \<Rightarrow> strong_client outcome" where
  "Client_HandleWound tid c = (case map_of (c_sessions_by_transaction_id c) tid of
     None \<Rightarrow> Inr c
   | Some None \<Rightarrow> Inl UndefinedBehaviour
   | Some (Some sid) \<Rightarrow> with_session sid c (\<lambda>s.
       if s_participants s = [] then Inr c
       else case s_state s of
         S_EXECUTING \<Rightarrow> Inr (put_session sid (s\<lparr>s_state := S_NEEDS_ABORT\<rparr>) c)
       | S_GETTING \<Rightarrow> Inr (client_emit (CallAbortGet (s_current_participant s) tid) c)
       | S_PUTTING \<Rightarrow> Inr (client_emit (CallAbortPut (s_current_participant s) tid) c)
       | S_COMMITTING \<Rightarrow> bindE (ChooseCoordinator c s) (\<lambda>coord. Inr (client_emit (CallWound coord tid) c))
       | S_ABORTING \<Rightarrow> Inr c
       | S_NEEDS_ABORT \<Rightarrow> Inl Panicked))"

definition ForceAbort :: "txn_id \<Rightarrow> strong_client \<Rightarrow> strong_client outcome" where
  "ForceAbort tid c = Client_HandleWound tid c"

end
