(* ===== verification/StrongClientInv.thy ===== *)
theory StrongClientInv
  imports StrongClient
begin

text \<open>
  What the client of \<open>src/store/strongstore/client.cc\<close> keeps between its operations: the
  index by transaction id names only sessions whose current transaction has that id, and
  a session's lower bound on reads never falls.
\<close>

section \<open>The state of the client\<close>

definition client_inv :: "strong_client \<Rightarrow> bool" where
  "client_inv c \<longleftrightarrow> um_ok (c_sessions c) \<and> um_ok (c_sessions_by_transaction_id c) \<and>
     (\<forall>t sid. map_of (c_sessions_by_transaction_id c) t = Some (Some sid) \<longrightarrow>
        (\<exists>s. map_of (c_sessions c) sid = Some s \<and> s_transaction_id s = t)) \<and>
     (\<forall>sid s. map_of (c_sessions c) sid = Some s \<longrightarrow>
        s_transaction_id s = - 1 \<or> s_transaction_id s < c_next_transaction_id c) \<and>
     (\<forall>t. um_has (c_sessions_by_transaction_id c) t \<longrightarrow> t < c_next_transaction_id c)"

text \<open>
  The operations of the application, the callbacks of the shard clients and the wounds, in
  any order. The counter of transaction ids is taken not to wrap.
\<close>

inductive client_step :: "strong_client \<Rightarrow> strong_client \<Rightarrow> bool" where
  begin_session: "client_step c (BeginSession sid c)"
| continue_session: "client_step c (ContinueSession rss c)"
| end_session: "EndSession sid c = Inr (s, c') \<Longrightarrow> client_step c c'"
| barrier: "RealTimeBarrier error time sid c = Inr c' \<Longrightarrow> client_step c c'"
| begin_txn: "Begin services error time sid c = Inr c' \<Longrightarrow> c_next_transaction_id c < - 1 \<Longrightarrow> client_step c c'"
| continue_begin: "ContinueBegin error time sid c = Inr c' \<Longrightarrow> c_next_transaction_id c < - 1 \<Longrightarrow> client_step c c'"
| retry: "Retry services sid c = Inr c' \<Longrightarrow> c_next_transaction_id c < - 1 \<Longrightarrow> client_step c c'"
| continue_retry: "ContinueRetry sid c = Inr c' \<Longrightarrow> c_next_transaction_id c < - 1 \<Longrightarrow> client_step c c'"
| get: "Client_Get part sid k c = Inr c' \<Longrightarrow> client_step c c'"
| get_for_update: "Client_GetForUpdate part sid k c = Inr c' \<Longrightarrow> client_step c c'"
| get_returned: "GetReturned sid st k v ts c = Inr c' \<Longrightarrow> client_step c c'"
| put: "Client_Put part sid k v c = Inr c' \<Longrightarrow> client_step c c'"
| put_returned: "PutReturned sid st k v c = Inr c' \<Longrightarrow> client_step c c'"
| commit: "Client_Commit nb_lat error time sid c = Inr c' \<Longrightarrow> client_step c c'"
| commit_callback: "CommitCallback error time sid req st cts nts c = Inr c' \<Longrightarrow> client_step c c'"
| abort: "Client_Abort sid c = Inr c' \<Longrightarrow> client_step c c'"
| abort_callback: "AbortCallback sid req c = Inr c' \<Longrightarrow> client_step c c'"
| ro_commit: "Client_ROCommit part error time sid ks c = Inr c' \<Longrightarrow> client_step c c'"
| ro_callback: "ROCommitCallback sid req shard vs ps c = Inr c' \<Longrightarrow> client_step c c'"
| ro_slow_callback: "ROCommitSlowCallback sid req rw ts b c = Inr c' \<Longrightarrow> client_step c c'"
| wound: "Client_HandleWound tid c = Inr c' \<Longrightarrow> client_step c c'"

inductive client_reachable :: "consistency \<Rightarrow> net_config \<Rightarrow> u64 \<Rightarrow> strong_client \<Rightarrow> bool"
  for co :: consistency and nc :: net_config and i :: u64 where
  init: "Client_init co nc i nshards name garbage services = Inr (c, services') \<Longrightarrow> client_reachable co nc i c"
| step: "client_reachable co nc i c \<Longrightarrow> client_step c c' \<Longrightarrow> client_reachable co nc i c'"

text \<open>
  Nearly every operation is a change of one session that keeps its transaction and never
  lowers its bound, next to fields that do not matter here.
\<close>

definition keeps_session :: "strong_session \<Rightarrow> strong_session \<Rightarrow> bool" where
  "keeps_session s s' \<longleftrightarrow> s_transaction_id s' = s_transaction_id s \<and> s_min_read_ts s \<le> s_min_read_ts s'"

definition same_index :: "strong_client \<Rightarrow> strong_client \<Rightarrow> bool" where
  "same_index c c' \<longleftrightarrow> c_sessions_by_transaction_id c' = c_sessions_by_transaction_id c \<and>
     c_next_transaction_id c' = c_next_transaction_id c"

definition session_step :: "strong_client \<Rightarrow> strong_client \<Rightarrow> bool" where
  "session_step c c' \<longleftrightarrow> same_index c c' \<and> (c_sessions c' = c_sessions c \<or>
     (\<exists>sid s s'. map_of (c_sessions c) sid = Some s \<and> keeps_session s s' \<and>
        c_sessions c' = um_put sid s' (c_sessions c)))"

named_theorems client_ops

lemmas [client_ops] = client_emit_def client_emits_def put_session_def
  keeps_session_def same_index_def Let_def new_request_def

lemma with_session_Inr [client_ops]:
  "with_session sid c f = Inr c' \<longleftrightarrow> (\<exists>s. map_of (c_sessions c) sid = Some s \<and> f s = Inr c')"
  by (auto simp: with_session_def split: option.splits)

lemma session_stepI:
  assumes "map_of (c_sessions c) sid = Some s" and "keeps_session s s'" and "same_index c c'"
    and "c_sessions c' = um_put sid s' (c_sessions c)"
  shows "session_step c c'"
  using assms unfolding session_step_def by blast

lemma session_step_same: "same_index c c' \<Longrightarrow> c_sessions c' = c_sessions c \<Longrightarrow> session_step c c'"
  by (simp add: session_step_def)

lemma client_inv_session_step:
  assumes "client_inv c" and "session_step c c'"
  shows "client_inv c'"
  using assms unfolding client_inv_def session_step_def same_index_def keeps_session_def
  by (elim conjE disjE exE) (simp_all add: conj_commute, metis option.sel)

lemma client_get_session:
  assumes "client_get part call sid k c = Inr c'"
  shows "session_step c c'"
proof -
  from assms obtain s where s: "map_of (c_sessions c) sid = Some s"
    by (auto simp: client_get_def with_session_Inr)
  show ?thesis
  proof (cases "s_state s = S_NEEDS_ABORT")
    case True
    with assms s show ?thesis
      by (intro session_step_same) (auto simp: client_get_def client_ops)
  next
    case False
    with assms s show ?thesis
      by (intro session_stepI [OF s, where s' = "add_participant _ (set_getting _ s)"])
        (auto simp: client_get_def client_ops add_participant_def set_getting_def)
  qed
qed

lemma Client_Put_session:
  assumes "Client_Put part sid k v c = Inr c'"
  shows "session_step c c'"
proof -
  from assms obtain s where s: "map_of (c_sessions c) sid = Some s"
    by (auto simp: Client_Put_def with_session_Inr)
  show ?thesis
  proof (cases "s_state s = S_NEEDS_ABORT")
    case True
    with assms s show ?thesis
      by (intro session_step_same) (auto simp: Client_Put_def client_ops)
  next
    case False
    with assms s show ?thesis
      by (intro session_stepI [OF s, where s' = "add_participant _ (set_putting _ s)"])
        (auto simp: Client_Put_def client_ops add_participant_def set_putting_def)
  qed
qed

lemma keeps_set_executing [simp]: "keeps_session s (set_executing s)"
  by (simp add: keeps_session_def set_executing_def)

lemma session_step_put:
  assumes "map_of (c_sessions c) sid = Some s" and "keeps_session s s'"
  shows "session_step c (client_emit e (put_session sid s' c))"
  using assms by (intro session_stepI [of c sid s s']) (auto simp: client_ops)

lemma GetReturned_session: "GetReturned sid st k v ts c = Inr c' \<Longrightarrow> session_step c c'"
  by (auto simp: GetReturned_def with_session_Inr session_step_put)

lemma PutReturned_session: "PutReturned sid st k v c = Inr c' \<Longrightarrow> session_step c c'"
  by (auto simp: PutReturned_def with_session_Inr session_step_put)

lemma rss_EndTransaction_keeps: "rss_EndTransaction s = Inr s' \<Longrightarrow> keeps_session s s'"
  by (auto dest!: rss_EndTransaction_Inr simp: keeps_session_def)

lemma keeps_advance: "keeps_session s (advance_min_read_ts ts s)"
  by (simp add: keeps_session_def advance_min_read_ts_def)

lemma keeps_session_trans: "keeps_session s t \<Longrightarrow> keeps_session t u \<Longrightarrow> keeps_session s u"
  by (auto simp: keeps_session_def)

lemma keeps_session_refl [simp]: "keeps_session s s"
  by (simp add: keeps_session_def)

lemma Client_Commit_session:
  assumes "Client_Commit nb_lat error time sid c = Inr c'"
  shows "session_step c c'"
proof -
  from assms obtain s where s: "map_of (c_sessions c) sid = Some s"
    by (auto simp: Client_Commit_def with_session_Inr)
  show ?thesis
  proof (cases "s_state s = S_NEEDS_ABORT")
    case True
    with assms s show ?thesis
      by (intro session_step_same) (auto simp: Client_Commit_def with_session_Inr client_ops)
  next
    case False
    with assms s show ?thesis
      by (intro session_stepI [OF s, where s' = "s\<lparr>s_state := S_COMMITTING\<rparr>"])
        (auto simp: Client_Commit_def with_session_Inr client_ops)
  qed
qed

lemma CommitCallback_session:
  assumes "CommitCallback error time sid req st cts nts c = Inr c'"
  shows "session_step c c'"
proof -
  from assms obtain s where s: "map_of (c_sessions c) sid = Some s"
    by (auto simp: CommitCallback_def with_session_Inr)
  show ?thesis
  proof (cases "map_of (c_pending_reqs c) req")
    case None
    with assms s show ?thesis
      by (intro session_step_same) (auto simp: CommitCallback_def with_session_Inr client_ops)
  next
    case (Some p)
    let ?s1 = "if st = REPLY_OK \<and> c_consistency c = RSS then advance_min_read_ts cts s else s"
    from Some assms s obtain s2 where s2: "rss_EndTransaction ?s1 = Inr s2"
      and c': "same_index c c'" "c_sessions c' = um_put sid s2 (c_sessions c)"
      by (auto simp: CommitCallback_def with_session_Inr client_ops split: if_splits)
    have "keeps_session s s2"
      by (rule keeps_session_trans [OF _ rss_EndTransaction_keeps [OF s2]]) (simp add: keeps_advance)
    with s c' show ?thesis by (intro session_stepI)
  qed
qed

lemma Client_Abort_session:
  assumes "Client_Abort sid c = Inr c'"
  shows "session_step c c'"
proof -
  from assms obtain s where s: "map_of (c_sessions c) sid = Some s"
    by (auto simp: Client_Abort_def with_session_Inr)
  with assms show ?thesis
    by (intro session_stepI [OF s, where s' = "s\<lparr>s_state := S_ABORTING\<rparr>"])
      (auto simp: Client_Abort_def with_session_Inr client_ops)
qed

lemma AbortCallback_session:
  assumes "AbortCallback sid req c = Inr c'"
  shows "session_step c c'"
proof -
  from assms obtain s where s: "map_of (c_sessions c) sid = Some s"
    by (auto simp: AbortCallback_def with_session_Inr)
  show ?thesis
  proof (cases "\<exists>s1. rss_EndTransaction s = Inr s1 \<and> c_sessions c' = um_put sid s1 (c_sessions c) \<and> same_index c c'")
    case True
    then show ?thesis using session_stepI [OF s rss_EndTransaction_keeps] by blast
  next
    case False
    with assms s show ?thesis
      by (intro session_step_same)
        (auto simp: AbortCallback_def with_session_Inr client_ops split: option.splits if_splits)
  qed
qed

lemma keeps_shard_key: "keeps_session (fst p) (fst (shard_key part n k p))"
  by (simp add: shard_key_def split_beta Let_def add_participant_def keeps_session_def)

lemma keeps_shard_key_fold: "keeps_session (fst p) (fst (fold (shard_key part n) ks p))"
proof (induction ks arbitrary: p)
  case (Cons k ks)
  show ?case using keeps_session_trans [OF keeps_shard_key Cons.IH] by simp
qed simp

lemma shard_keys_keeps: "keeps_session s (fst (shard_keys part n ks s))"
  using keeps_shard_key_fold [of "(s, [])"] by (simp add: shard_keys_def)

lemma Client_ROCommit_session:
  assumes "Client_ROCommit part error time sid ks c = Inr c'"
  shows "session_step c c'"
proof -
  from assms obtain s where s: "map_of (c_sessions c) sid = Some s"
    by (auto simp: Client_ROCommit_def with_session_Inr)
  let ?s2 = "fst (shard_keys part (c_nshards c) ks (s\<lparr>s_state := S_COMMITTING\<rparr>))"
  have "keeps_session s ?s2"
    by (rule keeps_session_trans [OF _ shard_keys_keeps]) (simp add: keeps_session_def)
  moreover from assms s have "same_index c c'" "c_sessions c' = um_put sid ?s2 (c_sessions c)"
    by (auto simp: Client_ROCommit_def client_ops split: prod.splits)
  ultimately show ?thesis by (rule session_stepI [OF s])
qed

lemma frame_session [simp]:
  "s_transaction_id (AddValues vs s) = s_transaction_id s" "s_min_read_ts (AddValues vs s) = s_min_read_ts s"
  by (simp_all add: AddValues_def)

lemma ReceivedAllFastPaths_keeps: "ReceivedAllFastPaths co s = Inr s' \<Longrightarrow> keeps_session s s'"
  by (auto simp: ReceivedAllFastPaths_def FindCommittedKeys_def CalculateSnapshotTimestamp_def keeps_session_def
      split: if_splits prod.splits)

lemma ReceiveFastPath_keeps:
  assumes "ReceiveFastPath co shard vs ps s = Inr (s', r)"
  shows "keeps_session s s'"
proof -
  from assms obtain s2 where s2: "AddPrepares ps (AddValues vs (s\<lparr>s_participants := removeAll shard (s_participants s)\<rparr>)) = Inr s2"
    and s': "(if s_participants s2 = [] then ReceivedAllFastPaths co s2 else Inr s2) = Inr s'"
    by (auto simp: ReceiveFastPath_def Let_def)
  from s2 have "keeps_session s s2" by (auto simp: AddPrepares_def keeps_session_def)
  moreover from s' have "keeps_session s2 s'"
    by (auto split: if_splits dest: ReceivedAllFastPaths_keeps)
  ultimately show ?thesis by (rule keeps_session_trans)
qed

lemma ReceiveSlowPath_keeps: "ReceiveSlowPath co rw b ts s = Inr (s', r) \<Longrightarrow> keeps_session s s'"
  by (auto simp: ReceiveSlowPath_def keeps_session_def Let_def split: option.splits)

lemma finish_ro_commit_session:
  assumes "finish_ro_commit sid req (s', r) c = Inr c'" and s: "map_of (c_sessions c) sid = Some s"
    and "keeps_session s s'"
  shows "session_step c c'"
proof (cases r)
  case WAIT
  with assms show ?thesis by (intro session_stepI [OF s]) (auto simp: finish_ro_commit_def client_ops)
next
  case (COMMIT ts)
  with assms(1) obtain s1 where s1: "rss_EndTransaction (advance_min_read_ts ts s') = Inr s1"
    and c': "same_index c c'" "c_sessions c' = um_put sid s1 (c_sessions c)"
    by (auto simp: finish_ro_commit_def client_ops)
  have "keeps_session s s1"
    by (rule keeps_session_trans [OF _ rss_EndTransaction_keeps [OF s1]])
      (rule keeps_session_trans [OF assms(3) keeps_advance])
  with s c' show ?thesis by (intro session_stepI)
qed

lemma ROCommitCallback_session:
  "ROCommitCallback sid req shard vs ps c = Inr c' \<Longrightarrow> session_step c c'"
  by (auto simp: ROCommitCallback_def with_session_Inr same_index_def split: if_splits
      intro: finish_ro_commit_session ReceiveFastPath_keeps session_step_same)

lemma ROCommitSlowCallback_session:
  "ROCommitSlowCallback sid req rw ts b c = Inr c' \<Longrightarrow> session_step c c'"
  by (auto simp: ROCommitSlowCallback_def with_session_Inr same_index_def split: if_splits
      intro: finish_ro_commit_session ReceiveSlowPath_keeps session_step_same)

lemma session_step_refl [simp]: "session_step c c"
  by (simp add: session_step_def same_index_def)

lemma session_step_emit [simp]: "session_step c (client_emit e c)"
  by (simp add: session_step_def client_ops)

lemma Client_HandleWound_cases:
  assumes "Client_HandleWound tid c = Inr c'" and "c' \<noteq> c"
  obtains sid s where "map_of (c_sessions_by_transaction_id c) tid = Some (Some sid)"
    and "map_of (c_sessions c) sid = Some s" and "s_participants s \<noteq> []"
    and "s_state s = S_EXECUTING \<and> c' = put_session sid (s\<lparr>s_state := S_NEEDS_ABORT\<rparr>) c \<or> (\<exists>e. c' = client_emit e c)"
proof -
  from assms obtain sid s where sid: "map_of (c_sessions_by_transaction_id c) tid = Some (Some sid)"
    and s: "map_of (c_sessions c) sid = Some s" and ps: "s_participants s \<noteq> []"
    by (auto simp: Client_HandleWound_def with_session_Inr split: option.splits if_splits)
  show thesis
    using assms sid s ps that [OF sid s ps]
    by (cases "s_state s") (auto simp: Client_HandleWound_def with_session_Inr)
qed

lemma session_step_needs_abort:
  "map_of (c_sessions c) sid = Some s \<Longrightarrow> session_step c (put_session sid (s\<lparr>s_state := S_NEEDS_ABORT\<rparr>) c)"
  by (rule session_stepI) (auto simp: client_ops)

lemma Client_HandleWound_session: "Client_HandleWound tid c = Inr c' \<Longrightarrow> session_step c c'"
  by (cases "c' = c") (auto elim!: Client_HandleWound_cases intro: session_step_needs_abort)

lemma RealTimeBarrier_session: "RealTimeBarrier error time sid c = Inr c' \<Longrightarrow> session_step c c'"
  by (rule session_step_same) (auto simp: RealTimeBarrier_def client_ops split: option.splits)

section \<open>The invariant\<close>

text \<open>Every other step than these is a \<open>session_step\<close>.\<close>

lemma emplace_session_inv:
  assumes "client_inv c" and "s_transaction_id s = - 1"
  shows "client_inv (c\<lparr>c_sessions := um_emplace sid s (c_sessions c)\<rparr>)"
proof (cases "um_has (c_sessions c) sid")
  case True
  with assms show ?thesis by (simp add: um_emplace_def)
next
  case False
  with assms(1) have "map_of (c_sessions_by_transaction_id c) t \<noteq> Some (Some sid)" for t
    by (force simp: client_inv_def um_has_def)
  with assms False show ?thesis
    by (auto simp: client_inv_def map_of_emplace)
qed

lemma BeginSession_inv: "client_inv c \<Longrightarrow> client_inv (BeginSession sid c)"
  by (simp add: BeginSession_def emplace_session_inv rss_Session_init_def)

lemma ContinueSession_inv: "client_inv c \<Longrightarrow> client_inv (ContinueSession rss c)"
  by (simp add: ContinueSession_def emplace_session_inv rss_Session_init_def)

lemma map_of_dangling:
  "map_of (map (\<lambda>(t, r). (t, f r)) m) = (\<lambda>t. map_option f (map_of m t))"
  by (rule ext) (induction m, auto)

lemma um_keys_dangling: "map fst (map (\<lambda>(t, r). (t, f r)) m) = map fst m"
  by (induction m) auto

lemma EndSession_inv:
  assumes inv: "client_inv c" and "EndSession sid c = Inr (s, c')"
  shows "client_inv c'"
proof -
  let ?m = "map (\<lambda>(t, r). (t, if r = Some sid then None else r)) (c_sessions_by_transaction_id c)"
  from assms(2) have c': "c_sessions c' = um_erase sid (c_sessions c)" "c_sessions_by_transaction_id c' = ?m"
      "c_next_transaction_id c' = c_next_transaction_id c"
    by (auto simp: EndSession_def split: option.splits)
  have "um_ok ?m" "\<And>t. um_has ?m t \<longleftrightarrow> um_has (c_sessions_by_transaction_id c) t"
    using inv by (simp_all add: client_inv_def um_ok_def um_has_iff um_keys_dangling del: map_map)
  moreover have "map_of ?m t = Some (Some i) \<longleftrightarrow> map_of (c_sessions_by_transaction_id c) t = Some (Some i) \<and> i \<noteq> sid" for t i
    by (auto simp: map_of_dangling)
  ultimately show ?thesis using inv by (simp add: client_inv_def c')
qed

lemma begin_with_inv:
  assumes inv: "client_inv c" and step: "begin_with sid f c = Inr c'" and lt: "c_next_transaction_id c < - 1"
    and f: "\<And>s t. s_transaction_id (f t s) = t"
  shows "client_inv c'"
proof -
  let ?n = "c_next_transaction_id c"
  from step obtain s where s: "map_of (c_sessions c) sid = Some s"
    by (auto simp: begin_with_def with_session_Inr)
  define m where "m = c_sessions_by_transaction_id (forget_transaction s c)"
  have m: "um_ok m" "\<And>t r. map_of m t = Some r \<longleftrightarrow>
      map_of (c_sessions_by_transaction_id c) t = Some r \<and> t \<noteq> s_transaction_id s"
    using inv s by (auto simp: m_def forget_transaction_def client_inv_def um_has_def)
  from step s have c': "c_sessions c' = um_put sid (f ?n s) (c_sessions c)" "c_next_transaction_id c' = ?n + 1"
      "c_sessions_by_transaction_id c' = um_emplace ?n (Some sid) m"
    by (auto simp: begin_with_def client_ops m_def forget_transaction_def)
  have lt': "t < ?n \<Longrightarrow> t < ?n + 1" "?n < ?n + 1" for t
    using lt by (simp_all add: word_less_nat_alt unat_Suc_64)
  have fresh: "\<not> um_has m ?n" using inv m by (auto simp: client_inv_def um_has_def)
  show ?thesis unfolding client_inv_def c'
  proof (intro conjI allI impI)
    fix t sid' assume t: "map_of (um_emplace ?n (Some sid) m) t = Some (Some sid')"
    show "\<exists>s'. map_of (um_put sid (f ?n s) (c_sessions c)) sid' = Some s' \<and> s_transaction_id s' = t"
    proof (cases "t = ?n")
      case True
      with t fresh f show ?thesis by (simp add: map_of_emplace)
    next
      case False
      with t fresh m have "map_of (c_sessions_by_transaction_id c) t = Some (Some sid')" "t \<noteq> s_transaction_id s"
        by (simp_all add: map_of_emplace)
      moreover from this inv obtain s' where "map_of (c_sessions c) sid' = Some s'" "s_transaction_id s' = t"
        by (auto simp: client_inv_def)
      ultimately show ?thesis using s by auto
    qed
  next
    fix sid' s' assume "map_of (um_put sid (f ?n s) (c_sessions c)) sid' = Some s'"
    then have "s_transaction_id s' = ?n \<or> map_of (c_sessions c) sid' = Some s'"
      using f by (auto split: if_splits)
    then show "s_transaction_id s' = - 1 \<or> s_transaction_id s' < ?n + 1"
    proof
      assume "map_of (c_sessions c) sid' = Some s'"
      with inv have "s_transaction_id s' = - 1 \<or> s_transaction_id s' < ?n" by (simp add: client_inv_def)
      then show ?thesis using lt'(1) by blast
    qed (simp add: lt'(2))
  next
    fix t assume "um_has (um_emplace ?n (Some sid) m) t"
    then have "t = ?n \<or> um_has m t" by simp
    then have "t = ?n \<or> um_has (c_sessions_by_transaction_id c) t" using m(2) by (auto simp: um_has_def [of _ t])
    then show "t < ?n + 1" using inv lt' by (auto simp: client_inv_def)
  qed (use inv m(1) in \<open>simp_all add: client_inv_def\<close>)
qed

lemma ContinueBegin_inv:
  "client_inv c \<Longrightarrow> ContinueBegin error time sid c = Inr c' \<Longrightarrow> c_next_transaction_id c < - 1 \<Longrightarrow> client_inv c'"
  by (erule begin_with_inv [where f = "\<lambda>tid. start_transaction tid _"])
    (auto simp: ContinueBegin_def start_transaction_def)

lemma ContinueRetry_inv:
  "client_inv c \<Longrightarrow> ContinueRetry sid c = Inr c' \<Longrightarrow> c_next_transaction_id c < - 1 \<Longrightarrow> client_inv c'"
  by (erule begin_with_inv [where f = retry_transaction]) (auto simp: ContinueRetry_def retry_transaction_def)

text \<open>Starting a transaction marks the session, then goes on or asks for a barrier.\<close>

lemma start_then_cases:
  assumes "start_then services sid k c = Inr c'"
  obtains c1 where "session_step c c1" and "k c1 = Inr c' \<or> session_step c1 c'"
proof -
  from assms obtain s s1 b where s: "map_of (c_sessions c) sid = Some s"
    and s1: "rss_StartTransaction services (c_service_name c) s = Inr (s1, b)"
    and k: "(case b of None \<Rightarrow> k (put_session sid s1 c)
       | Some svc \<Rightarrow> Inr (client_emit (InvokeBarrier svc sid) (put_session sid s1 c))) = Inr c'"
    by (auto simp: start_then_def with_session_Inr Let_def)
  from s1 have "keeps_session s s1" by (auto dest!: rss_StartTransaction_Inr simp: keeps_session_def)
  with s have "session_step c (put_session sid s1 c)"
    by (intro session_stepI) (auto simp: same_index_def put_session_def)
  moreover from k have "k (put_session sid s1 c) = Inr c' \<or> session_step (put_session sid s1 c) c'"
    by (auto split: option.splits)
  ultimately show thesis by (rule that)
qed

lemma session_step_next: "session_step c c' \<Longrightarrow> c_next_transaction_id c' = c_next_transaction_id c"
  by (simp add: session_step_def same_index_def)

lemma start_then_inv:
  assumes "client_inv c" and "start_then services sid k c = Inr c'" and "c_next_transaction_id c < - 1"
    and k: "\<And>c1. client_inv c1 \<Longrightarrow> k c1 = Inr c' \<Longrightarrow> c_next_transaction_id c1 < - 1 \<Longrightarrow> client_inv c'"
  shows "client_inv c'"
  using assms(2)
proof (rule start_then_cases)
  fix c1 assume c1: "session_step c c1" and c': "k c1 = Inr c' \<or> session_step c1 c'"
  then have "client_inv c1" using assms(1) client_inv_session_step by blast
  moreover have "c_next_transaction_id c1 < - 1" using c1 assms(3) by (simp add: session_step_next)
  ultimately show ?thesis using c' k client_inv_session_step by blast
qed

text \<open>The steps that are no more than a \<open>session_step\<close>.\<close>

lemmas session_steps = client_get_session Client_Put_session GetReturned_session PutReturned_session
  Client_Commit_session CommitCallback_session Client_Abort_session AbortCallback_session Client_ROCommit_session
  ROCommitCallback_session ROCommitSlowCallback_session Client_HandleWound_session RealTimeBarrier_session

lemma client_step_inv: "client_step c c' \<Longrightarrow> client_inv c \<Longrightarrow> client_inv c'"
  by (induction rule: client_step.induct)
    (auto simp: Begin_def Retry_def Client_Get_def Client_GetForUpdate_def
      intro: BeginSession_inv ContinueSession_inv EndSession_inv ContinueBegin_inv ContinueRetry_inv
        start_then_inv client_inv_session_step [OF _ session_steps(1)]
        client_inv_session_step [OF _ session_steps(2)] client_inv_session_step [OF _ session_steps(3)]
        client_inv_session_step [OF _ session_steps(4)] client_inv_session_step [OF _ session_steps(5)]
        client_inv_session_step [OF _ session_steps(6)] client_inv_session_step [OF _ session_steps(7)]
        client_inv_session_step [OF _ session_steps(8)] client_inv_session_step [OF _ session_steps(9)]
        client_inv_session_step [OF _ session_steps(10)] client_inv_session_step [OF _ session_steps(11)]
        client_inv_session_step [OF _ session_steps(12)] client_inv_session_step [OF _ session_steps(13)])

lemma client_reachable_inv: "client_reachable co nc i c \<Longrightarrow> client_inv c"
proof (induction rule: client_reachable.induct)
  case init
  then show ?case
    by (auto simp: Client_init_def CalculateCoordinatorChoices_def client_inv_def Let_def split: if_splits)
next
  case (step c c')
  from step.hyps(2) step.IH show ?case by (rule client_step_inv)
qed

section \<open>The lower bound on reads\<close>

definition bound_kept :: "u64 \<Rightarrow> strong_client \<Rightarrow> strong_client \<Rightarrow> bool" where
  "bound_kept sid c c' \<longleftrightarrow> (\<forall>s s'. map_of (c_sessions c) sid = Some s \<longrightarrow> map_of (c_sessions c') sid = Some s' \<longrightarrow>
     s_min_read_ts s \<le> s_min_read_ts s')"

lemma bound_kept_trans:
  assumes "bound_kept sid a b" and "bound_kept sid b c" and "um_has (c_sessions b) sid"
  shows "bound_kept sid a c"
  using assms by (fastforce simp: bound_kept_def um_has_def intro: order_trans)

lemma bound_kept_refl [simp]: "bound_kept sid c c"
  by (simp add: bound_kept_def)

lemma bound_kept_session_step: "session_step c c' \<Longrightarrow> bound_kept sid c c'"
  by (auto simp: session_step_def bound_kept_def keeps_session_def split: if_splits)

lemma has_session_step: "session_step c c' \<Longrightarrow> um_has (c_sessions c') sid = um_has (c_sessions c) sid"
  by (auto simp: session_step_def um_has_def split: if_splits)

lemma bound_kept_emplace: "bound_kept sid c (c\<lparr>c_sessions := um_emplace i s (c_sessions c)\<rparr>)"
  by (auto simp: bound_kept_def map_of_emplace um_has_def split: if_splits)

lemma bound_kept_end: "EndSession i c = Inr (s, c') \<Longrightarrow> bound_kept sid c c'"
  by (auto simp: bound_kept_def EndSession_def split: option.splits if_splits)

lemma bound_kept_begin_with:
  assumes "begin_with i f c = Inr c'" and "\<And>t s. s_min_read_ts (f t s) = s_min_read_ts s"
  shows "bound_kept sid c c'"
  using assms by (auto simp: begin_with_def client_ops bound_kept_def forget_transaction_def split: if_splits)

lemma bound_kept_begins:
  "ContinueBegin error time i c = Inr c' \<Longrightarrow> bound_kept sid c c'"
  "ContinueRetry i c = Inr c' \<Longrightarrow> bound_kept sid c c'"
  by (auto simp: ContinueBegin_def ContinueRetry_def start_transaction_def retry_transaction_def
      intro: bound_kept_begin_with)

lemma bound_kept_start_then:
  assumes "start_then services i k c = Inr c'" and k: "\<And>c1. k c1 = Inr c' \<Longrightarrow> bound_kept sid c1 c'"
  shows "bound_kept sid c c'"
  using assms(1)
proof (rule start_then_cases)
  fix c1 assume c1: "session_step c c1" and c': "k c1 = Inr c' \<or> session_step c1 c'"
  from c' k have 1: "bound_kept sid c1 c'" by (auto intro: bound_kept_session_step)
  show ?thesis
  proof (cases "um_has (c_sessions c1) sid")
    case True
    then show ?thesis using bound_kept_trans [OF bound_kept_session_step [OF c1] 1] by simp
  next
    case False
    then have "\<not> um_has (c_sessions c) sid" using has_session_step [OF c1] by simp
    then have "map_of (c_sessions c) sid = None" by (simp add: um_has_def)
    then show ?thesis by (simp add: bound_kept_def)
  qed
qed

lemma client_step_bound: "client_step c c' \<Longrightarrow> bound_kept sid c c'"
  by (induction rule: client_step.induct)
    (auto simp: Begin_def Retry_def Client_Get_def Client_GetForUpdate_def BeginSession_def ContinueSession_def
      intro: bound_kept_emplace bound_kept_end bound_kept_begins bound_kept_start_then
        bound_kept_session_step session_steps)

text \<open>The steps the client takes while a session stays open.\<close>

definition step_during :: "u64 \<Rightarrow> strong_client \<Rightarrow> strong_client \<Rightarrow> bool" where
  "step_during sid c c' \<longleftrightarrow> client_step c c' \<and> um_has (c_sessions c) sid \<and> um_has (c_sessions c') sid"

lemma steps_during_bound: "(step_during sid)\<^sup>*\<^sup>* c c' \<Longrightarrow> bound_kept sid c c'"
proof (induction rule: rtranclp_induct)
  case (step b d)
  then show ?case by (auto simp: step_during_def intro: bound_kept_trans client_step_bound)
qed simp

end
