(* ===== verification/StrongClientProps.thy ===== *)
theory StrongClientProps
  imports StrongClientInv
begin

text \<open>
  What the client of \<open>src/store/strongstore/client.cc\<close> guarantees to the application and
  to the shards: wounds, the choice of the coordinator, reads that do not go back in
  time. The last section runs the operations where they go wrong.
\<close>

section \<open>A concrete client\<close>

definition ex_nc :: net_config where
  "ex_nc = \<lparr>nc_g = 2, nc_client_region = ''w'', nc_region = (\<lambda>i. if i = 0 then ''e'' else ''w''),
     nc_one_way = (\<lambda>a b. if a = b then 0 else 30), nc_min_quorum = (\<lambda>_. 10)\<rparr>"

definition ex_part :: partitioner where
  "ex_part k n g ps = (if k = ''a'' then 0 else 1)"

definition ex_client0 :: strong_client where
  "ex_client0 = (case Client_init RSS ex_nc 1 2 ''s'' 0 [] of Inr (c, _) \<Rightarrow> c)"

text \<open>A session that reads \<open>a\<close> from shard 0 and has its reply.\<close>

definition ex_reading :: "strong_client outcome" where
  "ex_reading = bindE (Begin [''s''] 0 100 7 (BeginSession 7 ex_client0)) (\<lambda>c.
     bindE (Client_Get ex_part 7 ''a'' c) (GetReturned 7 REPLY_OK ''a'' ''x'' Timestamp_zero))"

definition ex_client :: strong_client where
  "ex_client = (case ex_reading of Inr c \<Rightarrow> c)"


lemma ex_lats: "coord_lat ex_nc 3 0 = 80" "coord_lat ex_nc 3 (Suc 0) = 80" "coord_lat ex_nc 1 0 = 70" "coord_lat ex_nc 2 (Suc 0) = 10" 
  by code_simp+
lemma ex_coords: "find_coord 3 (Suc 0) (- 1) [0..<16] 0 = 0" "find_coord 3 2 (- 1) [0..<16] 0 = 1"
   "find_coord 2 (Suc 0) (- 1) [0..<16] 0 = 1"  "find_coord 1 (Suc 0) (- 1) [0..<16] 0 = 0" 
   "shard_count 3 = 2" "shard_count 2 = 1" "shard_count 1 = 1" 
  by code_simp+
lemma ex_choices: "coord_choice 1 ex_nc 3  = (80,0)" "coord_choice 1 ex_nc 2  = (10,1)" "coord_choice 1 ex_nc 1  = (70,0)" 
  by (simp_all add: coord_choice_def best_coord_def ex_coords ex_lats upt_conv_Cons Let_def)
lemma ex_init: "Client_init RSS ex_nc 1 2 ''s'' 0 [] = Inr (ex_client0, [''s''])"
  by (simp add: ex_client0_def Client_init_def CalculateCoordinatorChoices_def RegisterRSSService_def ex_nc_def)
lemma ex_client0: "ex_client0 = \<lparr>c_coord_choices = [(1, 0), (2, 1), (3, 0)], c_min_lats = [(1, 70), (2, 10), (3, 80)], c_sessions = [],
   c_sessions_by_transaction_id = [], c_tmins = [], c_service_name = ''s'', c_client_id = 1, c_nshards = 2,
        c_next_transaction_id = 67108864, c_last_req_id = 0, c_pending_reqs = [],
        c_consistency = RSS, c_trace = []\<rparr>"
proof -
  have "CalculateCoordinatorChoices ex_nc c = Inr (c\<lparr>c_coord_choices := [(1, 0), (2, 1), (3, 0)], c_min_lats := [(1, 70), (2, 10), (3, 80)]\<rparr>)" if "c_client_id c = 1" for c
  proof -
    have g: "nc_g ex_nc = 2" by (simp add: ex_nc_def)
    show ?thesis by (simp add: CalculateCoordinatorChoices_def that ex_choices g upt_conv_Cons Let_def numeral_2_eq_2 numeral_3_eq_3)
qed
  then show ?thesis
    by (simp add: ex_client0_def Client_init_def RegisterRSSService_def)
qed

section \<open>Wounds reach the transaction they name\<close>

text \<open>
  In every state the client can reach, a wound that has any effect names the
  transaction its session is running at that moment: nothing but the state of that
  session changes, to \<open>NEEDS_ABORT\<close> and only from \<open>EXECUTING\<close>, or one call to a shard client
  is made. A wound for an older transaction of the same session, or for one that
  finished, never touches the session's new transaction.
\<close>

theorem wound_hits_current_transaction:
  assumes "client_reachable co nc i c" and "Client_HandleWound tid c = Inr c'" and "c' \<noteq> c"
  shows "\<exists>sid s. map_of (c_sessions c) sid = Some s \<and> s_transaction_id s = tid \<and> s_participants s \<noteq> [] \<and>
    (s_state s = S_EXECUTING \<and> c' = put_session sid (s\<lparr>s_state := S_NEEDS_ABORT\<rparr>) c \<or> (\<exists>e. c' = client_emit e c))"
  using assms(2,3)
proof (rule Client_HandleWound_cases)
  fix sid s
  assume r: "map_of (c_sessions_by_transaction_id c) tid = Some (Some sid)" and s: "map_of (c_sessions c) sid = Some s"
    and rest: "s_participants s \<noteq> []" "s_state s = S_EXECUTING \<and> c' = put_session sid (s\<lparr>s_state := S_NEEDS_ABORT\<rparr>) c
      \<or> (\<exists>e. c' = client_emit e c)"
  from client_reachable_inv [OF assms(1)] r obtain s' where "map_of (c_sessions c) sid = Some s'" "s_transaction_id s' = tid"
    by (auto simp: client_inv_def)
  with s have "s_transaction_id s = tid" by simp
  with s rest show ?thesis by blast
qed


section \<open>Reads do not go back\<close>

lemma ro_timestamps_above:
  assumes "ro_commit_timestamps RSS error time i s = (cts, mts)" and "getTimestamp (s_min_read_ts s) < - 1"
  shows "mts = s_min_read_ts s \<and> mts < cts"
proof (cases "s_min_read_ts s \<ge> Timestamp (latest (tt_Now error time)) i")
  case True
  have "getTimestamp (s_min_read_ts s) < getTimestamp (s_min_read_ts s) + 1"
    using assms(2) by (simp add: word_less_nat_alt unat_Suc_64)
  with assms True show ?thesis
    by (auto simp: ro_commit_timestamps_def Let_def setTimestamp_def less_timestamp_def ts_lt_def)
next
  case False
  with assms(1) show ?thesis by (auto simp: ro_commit_timestamps_def Let_def)
qed

lemma shard_key_frame: "s_min_read_ts (fst (fold (shard_key part n) ks p)) = s_min_read_ts (fst p) \<and>
    s_transaction_id (fst (fold (shard_key part n) ks p)) = s_transaction_id (fst p)"
proof (induction ks arbitrary: p)
  case (Cons k ks)
  then show ?case by (simp add: shard_key_def split_beta Let_def add_participant_def)
qed simp

lemma Client_ROCommit_calls:
  assumes "Client_ROCommit part error time sid ks c = Inr c'"
  shows "\<exists>s sharded cts mts. map_of (c_sessions c) sid = Some s \<and> sharded \<noteq> [] \<and>
    ro_commit_timestamps (c_consistency c) error time (c_client_id c) s = (cts, mts) \<and>
    c_trace c' = c_trace c @ map (\<lambda>(i, l). CallROCommit i (s_transaction_id s) l cts mts) sharded"
proof -
  from assms obtain s where s: "map_of (c_sessions c) sid = Some s"
    by (auto simp: Client_ROCommit_def with_session_Inr)
  obtain s2 sharded where sh: "shard_keys part (c_nshards c) ks (s\<lparr>s_state := S_COMMITTING\<rparr>) = (s2, sharded)"
    by fastforce
  have keys: "ro_commit_timestamps co e t i s2 = ro_commit_timestamps co e t i s" "s_transaction_id s2 = s_transaction_id s" for co e t i
    using sh shard_key_frame [of part "c_nshards c" ks "(s\<lparr>s_state := S_COMMITTING\<rparr>, [])"]
    by (auto simp: shard_keys_def ro_commit_timestamps_def)
  show ?thesis using assms s sh keys
    by (auto simp: Client_ROCommit_def client_ops split: prod.splits)
qed


text \<open>What a committed transaction leaves in the session.\<close>

lemma CommitCallback_bound:
  assumes "CommitCallback error time sid req REPLY_OK ts nts c = Inr c'" and "c_consistency c = RSS"
    and "um_has (c_pending_reqs c) req"
  shows "\<exists>s. map_of (c_sessions c') sid = Some s \<and> ts \<le> s_min_read_ts s"
  using assms by (auto simp: CommitCallback_def client_ops um_has_def advance_min_read_ts_def split: option.splits
      dest!: rss_EndTransaction_Inr)

text \<open>
  \<^bold>\<open>C33\<close> With RSS, a session never reads behind its own writes: once a read-write transaction
  of the session has committed at \<open>ts\<close>, every read-only transaction of the session after it,
  whatever other operations, callbacks and wounds the client runs in between, asks each
  shard for a snapshot at a time beyond \<open>ts\<close>, with a lower bound on the read that is at
  least \<open>ts\<close>. The bound of the session is taken to be below the largest time.
\<close>

theorem rss_reads_follow_commits:
  assumes "CommitCallback error time sid req REPLY_OK ts nts c0 = Inr c1" and "c_consistency c0 = RSS"
    and "um_has (c_pending_reqs c0) req" and "(step_during sid)\<^sup>*\<^sup>* c1 c2" and "c_consistency c2 = RSS"
    and "\<And>s. map_of (c_sessions c2) sid = Some s \<Longrightarrow> getTimestamp (s_min_read_ts s) < - 1"
    and "Client_ROCommit part error' time' sid ks c2 = Inr c3"
  shows "\<exists>calls. c_trace c3 = c_trace c2 @ calls \<and> calls \<noteq> [] \<and>
    (\<forall>e \<in> set calls. \<exists>i tid l cts mts. e = CallROCommit i tid l cts mts \<and> ts \<le> mts \<and> mts < cts)"
proof -
  from CommitCallback_bound [OF assms(1-3)] obtain s1 where s1: "map_of (c_sessions c1) sid = Some s1" "ts \<le> s_min_read_ts s1"
    by auto
  from Client_ROCommit_calls [OF assms(7)] obtain s sharded cts mts
    where s: "map_of (c_sessions c2) sid = Some s" and ne: "sharded \<noteq> []"
      and t: "ro_commit_timestamps RSS error' time' (c_client_id c2) s = (cts, mts)"
      and tr: "c_trace c3 = c_trace c2 @ map (\<lambda>(i, l). CallROCommit i (s_transaction_id s) l cts mts) sharded"
    using assms(5) by auto
  have "s_min_read_ts s1 \<le> s_min_read_ts s"
    using steps_during_bound [OF assms(4)] s1 s by (auto simp: bound_kept_def)
  with s1 ro_timestamps_above [OF t assms(6) [OF s]] have "ts \<le> mts \<and> mts < cts" by auto
  with ne tr show ?thesis by auto
qed

section \<open>The coordinator\<close>

lemma find_coord_nth:
  "n < idx \<Longrightarrow> find_coord shards idx d is n =
     (if idx \<le> n + length (filter (bit shards) is) then int (filter (bit shards) is ! (idx - n - 1)) else d)"
proof (induction "is" arbitrary: n)
  case (Cons i "is")
  show ?case
  proof (cases "bit shards i")
    case True
    show ?thesis
    proof (cases "Suc n = idx")
      case False
      with Cons.prems have "Suc n < idx" by simp
      with True Cons.IH [OF this] show ?thesis
        by (auto simp: Let_def nth_Cons' Suc_diff_Suc)
    qed (use True in auto)
  next
    case False
    with Cons show ?thesis by (auto simp: Let_def)
  qed
qed simp

text \<open>The shards of a set, in increasing order.\<close>

definition members :: "u16 \<Rightarrow> nat list" where
  "members shards = filter (bit shards) [0..<MAX_SHARDS]"

lemma find_coord_members:
  "i < length (members shards) \<Longrightarrow> find_coord shards (Suc i) d [0..<MAX_SHARDS] 0 = int (members shards ! i)"
  by (simp add: find_coord_nth members_def)

text \<open>A running minimum with its argument.\<close>

lemma fold_argmin:
  assumes "fold (\<lambda>x (m, c). if f x < m then (f x, g x) else (m, c)) xs (m0, c0) = (m, c)"
  shows "(m :: u16) \<le> m0 \<and> (\<forall>x \<in> set xs. m \<le> f x) \<and> (m < m0 \<longrightarrow> (\<exists>x \<in> set xs. f x = m \<and> g x = c))"
  using assms
proof (induction xs arbitrary: m0 c0)
  case (Cons x xs)
  show ?case
  proof (cases "f x < m0")
    case True
    with Cons.prems have IH: "m \<le> f x \<and> (\<forall>y \<in> set xs. m \<le> f y) \<and> (m < f x \<longrightarrow> (\<exists>y \<in> set xs. f y = m \<and> g y = c))"
      and run: "fold (\<lambda>x (m, c). if f x < m then (f x, g x) else (m, c)) xs (f x, g x) = (m, c)"
      using Cons.IH [of "f x" "g x"] by simp_all
    show ?thesis
    proof (cases "m < f x")
      case True
      with IH \<open>f x < m0\<close> show ?thesis by auto
    next
      case False
      with IH have m: "m = f x" by auto
      have "\<forall>y \<in> set xs. \<not> f y < f x" using IH m by auto
      then have "fold (\<lambda>x (m, c). if f x < m then (f x, g x) else (m, c)) xs (f x, g x) = (f x, g x)"
        by (induction xs) auto
      with run have "c = g x" by simp
      with m IH \<open>f x < m0\<close> show ?thesis by auto
    qed
  next
    case False
    with Cons show ?thesis by force
  qed
qed simp

lemma best_coord_members:
  "best_coord nc shards = fold (\<lambda>i (m, c). if coord_lat nc shards i < m then (coord_lat nc shards i, int i) else (m, c))
     (members shards) (- 1, - 1)"
proof -
  let ?m = "members shards"
  let ?f = "\<lambda>i (m, c). if coord_lat nc shards i < m then (coord_lat nc shards i, int i) else (m, c :: int)"
  have len: "shard_count shards = length ?m" by (simp add: shard_count_def members_def)
  have idx: "[1..<Suc (length ?m)] = map Suc [0..<length ?m]" by (simp only: map_Suc_upt One_nat_def)
  have "fold ?f ?m p = fold (?f \<circ> nth ?m) [0..<length ?m] p" for p
    by (subst (1) map_nth [of ?m, symmetric]) (simp only: fold_map)
  then show ?thesis unfolding best_coord_def len idx fold_map
    by (simp del: upt_Suc) (rule fold_cong, auto simp: find_coord_members Let_def)
qed

lemma set_members: "set (members shards) = {i. i < MAX_SHARDS \<and> bit shards i}"
  by (auto simp: members_def)

lemma coord_choice_best:
  assumes "\<exists>i \<in> set (members shards). coord_lat nc shards i < - 1"
  shows "\<exists>i \<in> set (members shards). snd (coord_choice client_id nc shards) = int i \<and>
    (\<forall>j \<in> set (members shards). fst (coord_choice client_id nc shards) \<le> coord_lat nc shards j) \<and>
    (coord_lat nc shards i = fst (coord_choice client_id nc shards) \<or> (\<exists>j \<in> set (members shards). coord_lat nc shards j = 0))"
proof -
  obtain m c where b: "best_coord nc shards = (m, c)" by fastforce
  note min = fold_argmin [OF b [unfolded best_coord_members]]
  from assms min have "m < - 1" by (meson order.strict_trans1)
  with min obtain i where i: "i \<in> set (members shards)" "coord_lat nc shards i = m" "int i = c" by auto
  show ?thesis
  proof (cases "m = 0")
    case True
    let ?k = "unat client_id mod shard_count shards"
    have "shard_count shards = length (members shards)" by (simp add: shard_count_def members_def)
    moreover from i have "members shards \<noteq> []" by auto
    ultimately have k: "?k < length (members shards)" by simp
    with True b have "coord_choice client_id nc shards = (0, int (members shards ! ?k))"
      using find_coord_members [OF k] by (simp add: coord_choice_def)
    moreover have "members shards ! ?k \<in> set (members shards)" using k by simp
    moreover have "coord_lat nc shards i = 0" using i True by simp
    ultimately show ?thesis using i(1) by (metis fst_conv snd_conv word_zero_le)
  next
    case False
    with b have "coord_choice client_id nc shards = (m, c)" by (simp add: coord_choice_def)
    with i min show ?thesis by auto
  qed
qed

text \<open>The set of shards that a list of participants stands for.\<close>

lemma shards_of_members:
  assumes "\<forall>p \<in> set ps. 0 \<le> p \<and> p < int g" and "g \<le> MAX_SHARDS"
  shows "\<exists>S. shards_of ps = Inr S \<and> (\<forall>i. bit S i \<longleftrightarrow> int i \<in> set ps)"
proof -
  have "\<exists>S. foldE (\<lambda>p s. if 0 \<le> p \<and> p < int MAX_SHARDS then Inr (set_bit (nat p) s) else Inl Thrown) ps S0 = Inr S \<and>
      (\<forall>i. bit S i \<longleftrightarrow> int i \<in> set ps \<or> bit S0 i)" for S0 :: u16
    using assms(1)
  proof (induction ps arbitrary: S0)
    case (Cons p ps)
    have p: "0 \<le> p" "p < 16" using Cons.prems assms(2) by auto
    have "bit (set_bit (nat p) S0) i \<longleftrightarrow> int i = p \<or> bit S0 i" for i
      using p by (auto simp: bit_set_bit_iff)
    with Cons.IH [of "set_bit (nat p) S0"] Cons.prems p show ?case by auto
  qed simp
  from this [of 0] show ?thesis by (simp add: shards_of_def)
qed

lemma map_of_tabulate: "map_of (map (\<lambda>s. (f s, h (f s))) xs) k = (if k \<in> f ` set xs then Some (h k) else None)"
  by (induction xs) auto

lemma CalculateCoordinatorChoices_table:
  assumes "CalculateCoordinatorChoices nc c0 = Inr c" and "S \<noteq> 0" and "\<And>i. bit S i \<Longrightarrow> i < nc_g nc"
  shows "map_of (c_coord_choices c) S = Some (snd (coord_choice (c_client_id c0) nc S)) \<and>
    map_of (c_min_lats c) S = Some (fst (coord_choice (c_client_id c0) nc S))"
proof -
  from assms(1) have g: "nc_g nc \<le> 16" by (auto simp: CalculateCoordinatorChoices_def split: if_splits)
  have "take_bit (nc_g nc) S = S" by (rule bit_eqI) (auto simp: bit_take_bit_iff assms(3))
  then have "unat S < 2 ^ nc_g nc" by (metis take_bit_nat_less_exp unsigned_take_bit_eq)
  moreover have "0 < unat S" using assms(2) by (simp add: unat_gt_0)
  ultimately have S: "S \<in> (word_of_nat :: nat \<Rightarrow> u16) ` set [1..<2 ^ nc_g nc]"
    by (intro image_eqI [where x = "unat S"]) auto
  have split: "(\<lambda>s. case coord_choice i nc (word_of_nat s) of (l, j) \<Rightarrow> (word_of_nat s :: u16, j)) =
      (\<lambda>s. (word_of_nat s, snd (coord_choice i nc (word_of_nat s))))"
    "(\<lambda>s. case coord_choice i nc (word_of_nat s) of (l, j) \<Rightarrow> (word_of_nat s :: u16, l)) =
      (\<lambda>s. (word_of_nat s, fst (coord_choice i nc (word_of_nat s))))" for i
    by (auto split: prod.split)
  from assms(1) g have c: "c_coord_choices c = map (\<lambda>s. (word_of_nat s, snd (coord_choice (c_client_id c0) nc (word_of_nat s)))) [1..<2 ^ nc_g nc]"
    "c_min_lats c = map (\<lambda>s. (word_of_nat s, fst (coord_choice (c_client_id c0) nc (word_of_nat s)))) [1..<2 ^ nc_g nc]"
    by (auto simp: CalculateCoordinatorChoices_def Let_def comp_def split_beta)
  show ?thesis unfolding c
    using S map_of_tabulate [of word_of_nat "\<lambda>s. snd (coord_choice (c_client_id c0) nc s)"]
      map_of_tabulate [of word_of_nat "\<lambda>s. fst (coord_choice (c_client_id c0) nc s)"] by simp
qed

text \<open>
  Once the tables of the constructor are in place, committing an executing
  transaction sends exactly one message to every participant: one of them, itself a
  participant, is told to coordinate and gets the list of all participants, and every
  other one is told who the coordinator is. The coordinator has the least commit latency
  of all participants for this client and this set of shards, unless one of them has
  latency 0, where the client picks by its id. Latencies are taken to fit in 16 bits.
\<close>

theorem Commit_names_best_coordinator:
  assumes init: "CalculateCoordinatorChoices nc c0 = Inr c1"
    and c: "c_coord_choices c = c_coord_choices c1" "c_min_lats c = c_min_lats c1"
    and s: "map_of (c_sessions c) sid = Some s" "s_state s = S_EXECUTING"
    and ps: "s_participants s \<noteq> []" "\<forall>p \<in> set (s_participants s). 0 \<le> p \<and> p < int (nc_g nc)"
    and S: "\<forall>i. bit S i \<longleftrightarrow> int i \<in> set (s_participants s)"
    and lat: "\<exists>p \<in> set (s_participants s). coord_lat nc S (nat p) < - 1"
  shows "\<exists>c' coord nonblock. Client_Commit nb_lat error time sid c = Inr c' \<and> coord \<in> set (s_participants s) \<and>
    c_trace c' = c_trace c @ map (\<lambda>p. if p = coord
        then CallRWCommitCoordinator p (s_transaction_id s) (s_participants s) nonblock
        else CallRWCommitParticipant p (s_transaction_id s) coord nonblock) (s_participants s) \<and>
    ((\<forall>p \<in> set (s_participants s). coord_lat nc S (nat coord) \<le> coord_lat nc S (nat p)) \<or>
     (\<exists>p \<in> set (s_participants s). coord_lat nc S (nat p) = 0))"
proof -
  from init have g: "nc_g nc \<le> MAX_SHARDS" by (auto simp: CalculateCoordinatorChoices_def split: if_splits)
  obtain S' where "shards_of (s_participants s) = Inr S'" "\<forall>i. bit S' i \<longleftrightarrow> int i \<in> set (s_participants s)"
    using shards_of_members [OF ps(2) g] by blast
  moreover from this S have "S' = S" by (auto intro: bit_eqI)
  ultimately have shards: "shards_of (s_participants s) = Inr S" by simp
  have members: "int ` set (members S) = set (s_participants s)"
  proof
    show "set (s_participants s) \<subseteq> int ` set (members S)"
    proof
      fix p assume "p \<in> set (s_participants s)"
      with ps(2) g S show "p \<in> int ` set (members S)"
        by (intro image_eqI [where x = "nat p"]) (force simp: set_members)+
    qed
  qed (use S in \<open>auto simp: set_members\<close>)
  then have some: "\<exists>i \<in> set (members S). coord_lat nc S i < - 1" using lat by force
  obtain i where i: "i \<in> set (members S)" and coord: "snd (coord_choice (c_client_id c0) nc S) = int i"
    and min: "\<forall>j \<in> set (members S). fst (coord_choice (c_client_id c0) nc S) \<le> coord_lat nc S j"
    and eq: "coord_lat nc S i = fst (coord_choice (c_client_id c0) nc S) \<or> (\<exists>j \<in> set (members S). coord_lat nc S j = 0)"
    using coord_choice_best [OF some] by blast
  have "S \<noteq> 0" using i by (auto simp: set_members)
  moreover have "\<And>i. bit S i \<Longrightarrow> i < nc_g nc" using S ps(2) by force
  ultimately have table: "map_of (c_coord_choices c) S = Some (int i)" "\<exists>l. map_of (c_min_lats c) S = Some l"
    using CalculateCoordinatorChoices_table [OF init] coord c by auto
  have "int i \<in> set (s_participants s)" using i members by blast
  moreover have "(\<forall>p \<in> set (s_participants s). coord_lat nc S (nat (int i)) \<le> coord_lat nc S (nat p)) \<or>
     (\<exists>p \<in> set (s_participants s). coord_lat nc S (nat p) = 0)"
    using eq
  proof
    assume "coord_lat nc S i = fst (coord_choice (c_client_id c0) nc S)"
    with min have "\<forall>p \<in> int ` set (members S). coord_lat nc S (nat (int i)) \<le> coord_lat nc S (nat p)" by simp
    then show ?thesis unfolding members by blast
  next
    assume "\<exists>j \<in> set (members S). coord_lat nc S j = 0"
    then have "\<exists>p \<in> int ` set (members S). coord_lat nc S (nat p) = 0" by simp
    then show ?thesis unfolding members by blast
  qed
  moreover have "\<exists>c' nonblock. Client_Commit nb_lat error time sid c = Inr c' \<and>
    c_trace c' = c_trace c @ map (\<lambda>p. if p = int i
        then CallRWCommitCoordinator p (s_transaction_id s) (s_participants s) nonblock
        else CallRWCommitParticipant p (s_transaction_id s) (int i) nonblock) (s_participants s)"
    using s ps(1) table
    by (auto simp: Client_Commit_def with_session_def ChooseCoordinator_def ChooseNonBlockTimestamp_def shards
      client_emits_def put_session_def Let_def new_request_def)
  ultimately show ?thesis by blast
qed

text \<open>A transaction of the example client that has taken part in shard 0.\<close>

definition ex_session7 :: strong_session where
  "ex_session7 = (rss_Session_init 7)\<lparr>s_last_service := ''s'', s_rss_state := RSS_EXECUTING, s_transaction_id := 9,
     s_participants := [0, 1]\<rparr>"

definition ex_client7 :: strong_client where
  "ex_client7 = ex_client0\<lparr>c_sessions := [(7, ex_session7)], c_sessions_by_transaction_id := [(9, Some 7)]\<rparr>"

lemma ex_client7:
  "map_of (c_sessions ex_client7) 7 = Some ex_session7" "map_of (c_sessions_by_transaction_id ex_client7) 9 = Some (Some 7)"
  "s_state ex_session7 = S_EXECUTING" "s_participants ex_session7 = [0, 1]" "c_consistency ex_client7 = RSS"
  "s_transaction_id ex_session7 = 9"
  by (simp_all add: ex_client7_def ex_session7_def rss_Session_init_def ex_client0)

lemma ex_set3: "bit (3 :: u16) i \<longleftrightarrow> int i \<in> {0, 1}"
  by (cases i rule: nat.exhaust; cases "i - 1" rule: nat.exhaust) (auto simp: bit_numeral_rec bit_Suc)

lemma Commit_names_best_coordinator_witness:
  "\<exists>c' coord nonblock. Client_Commit (\<lambda>_. 0) 0 50 7 ex_client7 = Inr c' \<and> coord \<in> set (s_participants ex_session7) \<and>
    c_trace c' = c_trace ex_client7 @ map (\<lambda>p. if p = coord
        then CallRWCommitCoordinator p (s_transaction_id ex_session7) (s_participants ex_session7) nonblock
        else CallRWCommitParticipant p (s_transaction_id ex_session7) coord nonblock) (s_participants ex_session7) \<and>
    ((\<forall>p \<in> set (s_participants ex_session7). coord_lat ex_nc 3 (nat coord) \<le> coord_lat ex_nc 3 (nat p)) \<or>
     (\<exists>p \<in> set (s_participants ex_session7). coord_lat ex_nc 3 (nat p) = 0))"
proof (rule Commit_names_best_coordinator [where ?c0.0 = "ex_client0" and ?c1.0 = ex_client0])
  show "CalculateCoordinatorChoices ex_nc ex_client0 = Inr ex_client0"
    by (simp add: CalculateCoordinatorChoices_def ex_client0 ex_choices upt_conv_Cons Let_def numeral_2_eq_2 numeral_3_eq_3 ex_nc_def [THEN arg_cong, of nc_g])
  show "\<forall>p \<in> set (s_participants ex_session7). 0 \<le> p \<and> p < int (nc_g ex_nc)"
    by (simp add: ex_client7 ex_nc_def)
  show "\<forall>i. bit (3 :: u16) i \<longleftrightarrow> int i \<in> set (s_participants ex_session7)"
    unfolding ex_client7 using ex_set3 by (simp only: list.set) blast
  show "\<exists>p \<in> set (s_participants ex_session7). coord_lat ex_nc 3 (nat p) < - 1"
    by (simp add: ex_client7 ex_lats)
qed (simp_all add: ex_client7, simp_all add: ex_client7_def)

section \<open>Runs\<close>

lemma ex_reading_run: "case ex_reading of Inl _ \<Rightarrow> False | Inr c \<Rightarrow>
   (case Client_HandleWound 67108864 c of Inl _ \<Rightarrow> False | Inr c' \<Rightarrow> c' \<noteq> c)"
  unfolding ex_reading_def ex_client0 by code_simp


lemma ex_reading_reachable:
  assumes "ex_reading = Inr c"
  shows "client_reachable RSS ex_nc 1 c"
proof -
  let ?c1 = "BeginSession 7 ex_client0"
  from assms obtain c2 c3 where c2: "Begin [''s''] 0 100 7 ?c1 = Inr c2" and c3: "Client_Get ex_part 7 ''a'' c2 = Inr c3"
    and c: "GetReturned 7 REPLY_OK ''a'' ''x'' Timestamp_zero c3 = Inr c"
    by (auto simp: ex_reading_def)
  have "c_next_transaction_id ?c1 < - 1" by (simp add: BeginSession_def ex_client0)
  then have "client_step ?c1 c2" using c2 by (rule client_step.begin_txn [rotated])
  moreover have "client_reachable RSS ex_nc 1 ?c1"
    using client_reachable.init [OF ex_init] client_step.begin_session by (rule client_reachable.step)
  ultimately have "client_reachable RSS ex_nc 1 c2" by (rule client_reachable.step [rotated])
  then have "client_reachable RSS ex_nc 1 c3" using client_step.get [OF c3] by (rule client_reachable.step)
  then show ?thesis using client_step.get_returned [OF c] by (rule client_reachable.step)
qed

lemma wound_hits_current_transaction_witness:
  "\<exists>c c'. Client_HandleWound 67108864 c = Inr c' \<and> c' \<noteq> c \<and> (\<exists>sid s. map_of (c_sessions c) sid = Some s \<and>
    s_transaction_id s = 67108864 \<and> s_participants s \<noteq> [] \<and>
    (s_state s = S_EXECUTING \<and> c' = put_session sid (s\<lparr>s_state := S_NEEDS_ABORT\<rparr>) c \<or> (\<exists>e. c' = client_emit e c)))"
proof -
  obtain c c' where c: "ex_reading = Inr c" "Client_HandleWound 67108864 c = Inr c'" "c' \<noteq> c"
    using ex_reading_run by (auto split: sum.splits)
  with wound_hits_current_transaction [OF ex_reading_reachable [OF c(1)] c(2,3)] show ?thesis by blast
qed

definition ex_committing :: strong_client where
  "ex_committing = ex_client7\<lparr>c_pending_reqs := [(0, \<lparr>pr_id = 0, pr_outstandingPrepares = 0\<rparr>)]\<rparr>"

lemma ex_committing_run: "case CommitCallback 0 60 7 0 REPLY_OK (Timestamp 90 1) (Timestamp 70 1) ex_committing of
   Inl _ \<Rightarrow> False | Inr c1 \<Rightarrow> um_has (c_sessions c1) 7 \<and> c_next_transaction_id c1 < - 1 \<and>
   (case Begin [''s''] 0 80 7 c1 of Inl _ \<Rightarrow> False | Inr c2 \<Rightarrow>
    um_has (c_sessions c2) 7 \<and> c_consistency c2 = RSS \<and>
    (case map_of (c_sessions c2) 7 of Some s \<Rightarrow> getTimestamp (s_min_read_ts s) < - 1 | None \<Rightarrow> False) \<and>
    (case Client_ROCommit ex_part 0 80 7 [''a''] c2 of Inl _ \<Rightarrow> False | Inr c3 \<Rightarrow> True))"
  unfolding ex_committing_def ex_client7_def ex_client0 by code_simp

lemma rss_reads_follow_commits_witness:
  "\<exists>c0 c1 c2 c3 calls. CommitCallback 0 60 7 0 REPLY_OK (Timestamp 90 1) (Timestamp 70 1) c0 = Inr c1 \<and>
    Begin [''s''] 0 80 7 c1 = Inr c2 \<and> Client_ROCommit ex_part 0 80 7 [''a''] c2 = Inr c3 \<and>
    c_trace c3 = c_trace c2 @ calls \<and> calls \<noteq> [] \<and>
    (\<forall>e \<in> set calls. \<exists>i tid l cts mts. e = CallROCommit i tid l cts mts \<and> Timestamp 90 1 \<le> mts \<and> mts < cts)"
proof -
  obtain c1 c2 c3 s where c1: "CommitCallback 0 60 7 0 REPLY_OK (Timestamp 90 1) (Timestamp 70 1) ex_committing = Inr c1"
    and c2: "Begin [''s''] 0 80 7 c1 = Inr c2" and c3: "Client_ROCommit ex_part 0 80 7 [''a''] c2 = Inr c3"
    and has: "um_has (c_sessions c1) 7" "um_has (c_sessions c2) 7" "c_next_transaction_id c1 < - 1" "c_consistency c2 = RSS"
    and s: "map_of (c_sessions c2) 7 = Some s" "getTimestamp (s_min_read_ts s) < - 1"
    using ex_committing_run by (auto split: sum.splits option.splits)
  have "(step_during 7)\<^sup>*\<^sup>* c1 c2"
    using c2 has by (auto simp: step_during_def intro!: r_into_rtranclp client_step.begin_txn)
  moreover have "c_consistency ex_committing = RSS" "um_has (c_pending_reqs ex_committing) 0"
    by (simp_all add: ex_committing_def ex_client7)
  moreover have "getTimestamp (s_min_read_ts s') < - 1" if "map_of (c_sessions c2) 7 = Some s'" for s'
    using s that by simp
  ultimately show ?thesis
    using rss_reads_follow_commits [OF c1 _ _ _ has(4) _ c3] c1 c2 c3 by blast
qed

section \<open>Where the client stops\<close>

text \<open>
  Two wounds for a transaction that is executing stop the client: the first marks the
  session \<open>NEEDS_ABORT\<close>, and the second finds a state that \<open>HandleWound\<close> does not list and
  panics. A transaction with locks at two shards can be wounded at both before the
  application makes its next call.
\<close>

theorem second_wound_panics:
  assumes "map_of (c_sessions_by_transaction_id c) tid = Some (Some sid)" and "map_of (c_sessions c) sid = Some s"
    and "s_participants s \<noteq> []" and "s_state s = S_EXECUTING"
  shows "bindE (Client_HandleWound tid c) (Client_HandleWound tid) = Inl Panicked"
  using assms by (simp add: Client_HandleWound_def with_session_def put_session_def)

lemma second_wound_panics_witness:
  "bindE (Client_HandleWound 9 ex_client7) (Client_HandleWound 9) = Inl Panicked"
  by (rule second_wound_panics [OF ex_client7(2,1)]) (simp_all add: ex_client7)

text \<open>
  Aborting a transaction that has touched no shard never calls back: no message is sent,
  so no reply can finish the abort, and the session stays in the executing state, where
  beginning or retrying a transaction throws.
\<close>

theorem Abort_without_participants_hangs:
  assumes "map_of (c_sessions c) sid = Some s" and "s_participants s = []"
    and "s_state s = S_EXECUTING" and "s_rss_state s = RSS_EXECUTING"
  shows "\<exists>c'. Client_Abort sid c = Inr c' \<and> c_trace c' = c_trace c \<and> Begin services error time sid c' = Inl Thrown \<and>
    Retry services sid c' = Inl Thrown"
  using assms
  by (simp add: Client_Abort_def with_session_def put_session_def client_emits_def new_request_def Let_def
      Begin_def Retry_def start_then_def rss_StartTransaction_def)

lemma Abort_without_participants_hangs_witness:
  "\<exists>c c'. Client_Abort 7 c = Inr c' \<and> c_trace c' = c_trace c \<and> Begin [''s''] 0 80 7 c' = Inl Thrown \<and>
    Retry [''s''] 7 c' = Inl Thrown"
proof -
  let ?s = "ex_session7\<lparr>s_participants := []\<rparr>"
  have "\<exists>c'. Client_Abort 7 (put_session 7 ?s ex_client7) = Inr c' \<and> c_trace c' = c_trace (put_session 7 ?s ex_client7) \<and>
      Begin [''s''] 0 80 7 c' = Inl Thrown \<and> Retry [''s''] 7 c' = Inl Thrown"
    by (rule Abort_without_participants_hangs [where s = ?s])
      (simp_all add: put_session_def ex_session7_def rss_Session_init_def)
  then show ?thesis by blast
qed

text \<open>
  The index by transaction id keeps its reference when the session ends, so a wound that
  arrives afterwards follows a reference to a session that is gone.
\<close>

lemma wound_after_end_dangles:
  assumes "map_of (c_sessions_by_transaction_id c) tid = Some (Some sid)" and "EndSession sid c = Inr (s, c')"
  shows "Client_HandleWound tid c' = Inl UndefinedBehaviour"
  using assms by (auto simp: EndSession_def Client_HandleWound_def map_of_dangling split: option.splits)


text \<open>
  A session that ends and continues at the same client comes back without its lower bound
  on reads and without a barrier, and the bound kept for a barrier elsewhere is the first
  one, however far the session has read since.
\<close>

lemma continue_at_same_client_forgets:
  assumes "EndSession sid c = Inr (rss, c1)" and "s_id rss = sid" and "s_last_service rss = c_service_name c"
    and "s_rss_state rss = RSS_EXECUTED"
  shows "\<exists>s s'. map_of (c_sessions (ContinueSession rss c1)) sid = Some s \<and> s_min_read_ts s = Timestamp_zero \<and>
    rss_StartTransaction services (c_service_name c) s = Inr (s', None)"
  using assms
  by (auto simp: EndSession_def ContinueSession_def map_of_emplace um_has_def rss_Session_init_def
      rss_StartTransaction_def split: option.splits)

lemma EndSession_keeps_stale_bound:
  assumes "EndSession sid c = Inr (rss, c1)" and "map_of (c_tmins c) sid = Some t"
  shows "map_of (c_tmins c1) sid = Some t"
  using assms by (auto simp: EndSession_def map_of_emplace um_has_def split: option.splits)

end
