(* ===== verification/ShardProtocol.thy ===== *)
theory ShardProtocol
  imports TransactionStore
begin

text \<open>
  \<open>src/store/strongstore/strong-proto.proto\<close>: the messages between clients, shards and
  replicas. A message is the constructor of its fields; encoding it to bytes is the
  protocol-buffer library's. An absent optional field is \<open>None\<close>.
\<close>

record request_id =
  rid_client_id :: u64
  rid_client_req_id :: u64

text \<open>Some strings go through \<open>c_str()\<close> into a message: they end at the first NUL.\<close>

definition c_str :: "string \<Rightarrow> string" where
  "c_str x = takeWhile (\<lambda>c. c \<noteq> CHR 0x00) x"

text \<open>Requests to the leader of a shard.\<close>

datatype shard_request =
    Msg_Get request_id txn_id key timestamp bool
  | Msg_RWCommitCoordinator request_id txn_id transaction_message timestamp "int list"
  | Msg_RWCommitParticipant request_id txn_id transaction_message int timestamp
  | Msg_PrepareOK request_id txn_id int timestamp timestamp
  | Msg_PrepareAbort request_id txn_id int
  | Msg_ROCommit request_id txn_id timestamp timestamp "key list"
  | Msg_Abort request_id txn_id
  | Msg_Wound txn_id

text \<open>Replies of a shard, and the wounds it sends to clients.\<close>

datatype shard_reply =
    Msg_GetReply request_id reply_code key "val option" "timestamp option"
  | Msg_RWCommitCoordinatorReply request_id reply_code "timestamp option" "timestamp option"
  | Msg_RWCommitParticipantReply request_id reply_code
  | Msg_PrepareOKReply request_id reply_code "timestamp option"
  | Msg_PrepareAbortReply request_id reply_code
  | Msg_ROCommitReply request_id txn_id "read_value list" "prepared_transaction_message list"
  | Msg_ROCommitSlowReply request_id txn_id timestamp bool
  | Msg_AbortReply request_id reply_code
  | Msg_WoundClient txn_id

text \<open>The operations a shard replicates.\<close>

datatype replica_op = OP_PREPARE | OP_COMMIT | OP_ABORT

record op_prepare =
  op_txn :: transaction_message
  op_timestamp :: timestamp
  op_coordinator :: int
  op_participants :: "int list"
  op_nonblock_ts :: timestamp

record replica_request =
  rr_op :: replica_op
  rr_txnid :: txn_id
  rr_prepare :: "op_prepare option"
  rr_commit :: "timestamp option"

text \<open>Reading a missing sub-message gives one with empty fields.\<close>

definition get_prepare :: "replica_request \<Rightarrow> op_prepare" where
  "get_prepare r = (case rr_prepare r of Some p \<Rightarrow> p
   | None \<Rightarrow> \<lparr>op_txn = \<lparr>msg_starttime = Timestamp_zero, msg_readset = [], msg_writeset = []\<rparr>,
       op_timestamp = Timestamp_zero, op_coordinator = 0, op_participants = [], op_nonblock_ts = Timestamp_zero\<rparr>)"

definition get_commit :: "replica_request \<Rightarrow> timestamp" where
  "get_commit r = (case rr_commit r of Some ts \<Rightarrow> ts | None \<Rightarrow> Timestamp_zero)"

end
