(* ===== verification/Server.thy ===== *)
theory Server
  imports ShardProtocol LockTable VersionStore
begin

text \<open>
  \<open>src/store/strongstore/server.{h,cc}\<close>: the leader and the replicas of a shard. The
  handlers of the clients' and the other shards' messages, the callbacks of replication,
  and the operations that replicas execute work on the transaction store, the locks, the
  versions and the replies that are still owed. Messages, calls of the other shards'
  clients and of the replica client, and timers are appended to a trace.

  The clock is an argument: its \<open>n\<close>th reading is \<open>se_clock env n\<close>, and the state counts the
  readings. \<open>transactions_\<close>, \<open>locks_\<close> and \<open>store_\<close> are the models of the theories this one
  imports.
\<close>

section \<open>State\<close>

record pending_reply =
  rq_client_id :: u64
  rq_client_req_id :: u64
  rq_addr :: addr

datatype server_event =
    SendMessage addr shard_reply
  | ShardWound int txn_id
  | ShardPrepareOK int txn_id int timestamp timestamp
  | ShardPrepareAbort int txn_id int
  | ShardAbort int txn_id
  | ReplicaPrepare txn_id transaction timestamp int timestamp
  | ReplicaCoordinatorCommit txn_id timestamp int "int uset" transaction timestamp timestamp
  | ReplicaCommit txn_id timestamp
  | ReplicaAbort txn_id
  | TimerCoordinatorCommit u64 txn_id timestamp

record server =
  sv_transactions :: transaction_store
  sv_locks :: wound_wait
  sv_store :: "(timestamp_id, val) vstore"
  sv_nshards :: nat
  sv_pending_c :: "(txn_id, pending_reply) umap"
  sv_pending_p :: "(txn_id, pending_reply) umap"
  sv_pending_ok :: "(txn_id, pending_reply list) umap"
  sv_pending_ro :: "(txn_id, pending_reply \<times> u64) umap"
  sv_pending_get :: "(txn_id, pending_reply \<times> key) umap"
  sv_min_prepare :: timestamp
  sv_shard_idx :: int
  sv_consistency :: consistency
  sv_ticks :: nat
  sv_trace :: "server_event list"

record server_env =
  se_error :: u64
  se_clock :: "nat \<Rightarrow> u64"

definition Server_init :: "consistency \<Rightarrow> nat \<Rightarrow> int \<Rightarrow> server" where
  "Server_init c nshards shard =
     \<lparr>sv_transactions = TransactionStore_init shard c, sv_locks = [], sv_store = vs_init, sv_nshards = nshards,
      sv_pending_c = [], sv_pending_p = [], sv_pending_ok = [], sv_pending_ro = [], sv_pending_get = [],
      sv_min_prepare = Timestamp_zero, sv_shard_idx = shard, sv_consistency = c, sv_ticks = 0, sv_trace = []\<rparr>"

section \<open>Sequencing\<close>

text \<open>A member function takes the server to its result and the server after it.\<close>

type_synonym 'a sv = "server \<Rightarrow> ('a \<times> server) outcome"

definition returnS :: "'a \<Rightarrow> 'a sv" where
  "returnS x s = Inr (x, s)"

definition failS :: "fault \<Rightarrow> 'a sv" where
  "failS e s = Inl e"

definition bindS :: "'a sv \<Rightarrow> ('a \<Rightarrow> 'b sv) \<Rightarrow> 'b sv" where
  "bindS m f s = bindE (m s) (\<lambda>(x, s'). f x s')"

definition thenS :: "unit sv \<Rightarrow> 'b sv \<Rightarrow> 'b sv" where
  "thenS m n = bindS m (\<lambda>_. n)"

definition assertS :: "bool \<Rightarrow> 'a sv \<Rightarrow> 'a sv" where
  "assertS b m = (if b then m else failS AssertFailed)"

definition getS :: "(server \<Rightarrow> 'a) \<Rightarrow> 'a sv" where
  "getS f s = Inr (f s, s)"

definition modS :: "(server \<Rightarrow> server) \<Rightarrow> unit sv" where
  "modS f s = Inr ((), f s)"

fun forS :: "'a list \<Rightarrow> ('a \<Rightarrow> unit sv) \<Rightarrow> unit sv" where
  "forS [] f = returnS ()"
| "forS (x # xs) f = thenS (f x) (forS xs f)"

text \<open>A call of the transaction store: a step, a step with a result, a query.\<close>

definition txn_step :: "(transaction_store \<Rightarrow> transaction_store outcome) \<Rightarrow> unit sv" where
  "txn_step f s = bindE (f (sv_transactions s)) (\<lambda>t. Inr ((), s\<lparr>sv_transactions := t\<rparr>))"

definition txn_call :: "(transaction_store \<Rightarrow> ('a \<times> transaction_store) outcome) \<Rightarrow> 'a sv" where
  "txn_call f s = bindE (f (sv_transactions s)) (\<lambda>(x, t). Inr (x, s\<lparr>sv_transactions := t\<rparr>))"

definition txn_get :: "(transaction_store \<Rightarrow> 'a outcome) \<Rightarrow> 'a sv" where
  "txn_get f s = bindE (f (sv_transactions s)) (\<lambda>x. Inr (x, s))"

definition lock_call :: "(wound_wait \<Rightarrow> ('a \<times> wound_wait) outcome) \<Rightarrow> 'a sv" where
  "lock_call f s = bindE (f (sv_locks s)) (\<lambda>(x, l). Inr (x, s\<lparr>sv_locks := l\<rparr>))"

definition release :: "txn_id \<Rightarrow> transaction \<Rightarrow> (txn_id uset) sv" where
  "release t txn = lock_call (\<lambda>l. bindE (ReleaseLocks t txn l) (\<lambda>(l', n). Inr (n, l')))"

definition emitS :: "server_event \<Rightarrow> unit sv" where
  "emitS e = modS (\<lambda>s. s\<lparr>sv_trace := sv_trace s @ [e]\<rparr>)"

text \<open>\<open>shard_clients_[p]\<close> is an element of a vector.\<close>

definition shard_client :: "int \<Rightarrow> server_event \<Rightarrow> unit sv" where
  "shard_client p e s =
     (if 0 \<le> p \<and> p < int (sv_nshards s) then emitS e s else Inl UndefinedBehaviour)"

definition ttNow :: "server_env \<Rightarrow> truetime_interval sv" where
  "ttNow env s = Inr (tt_Now (se_error env) (se_clock env (sv_ticks s)), s\<lparr>sv_ticks := Suc (sv_ticks s)\<rparr>)"

definition pending_of :: "request_id \<Rightarrow> addr \<Rightarrow> pending_reply" where
  "pending_of rid remote = \<lparr>rq_client_id = rid_client_id rid, rq_client_req_id = rid_client_req_id rid, rq_addr = remote\<rparr>"

definition rid_of :: "pending_reply \<Rightarrow> request_id" where
  "rid_of q = \<lparr>rid_client_id = rq_client_id q, rid_client_req_id = rq_client_req_id q\<rparr>"

definition send :: "pending_reply \<Rightarrow> shard_reply \<Rightarrow> unit sv" where
  "send q m = emitS (SendMessage (rq_addr q) m)"

text \<open>\<open>ASSERT(store_.get(...))\<close>.\<close>

definition store_get :: "key \<Rightarrow> (timestamp_id \<times> val) sv" where
  "store_get k = bindS (getS (\<lambda>s. vs_get_latest (sv_store s) k))
     (\<lambda>r. case r of None \<Rightarrow> failS AssertFailed | Some v \<Rightarrow> returnS v)"

definition store_get_at :: "key \<Rightarrow> timestamp_id \<Rightarrow> (timestamp_id \<times> val) sv" where
  "store_get_at k t = bindS (getS (\<lambda>s. vs_get tid_lt (sv_store s) k t))
     (\<lambda>r. case r of None \<Rightarrow> failS AssertFailed | Some v \<Rightarrow> returnS v)"

section \<open>Reading\<close>

definition get_reply_ok :: "pending_reply \<Rightarrow> key \<Rightarrow> timestamp_id \<times> val \<Rightarrow> unit sv" where
  "get_reply_ok q k v =
     send q (Msg_GetReply (rid_of q) REPLY_OK k (Some (snd v)) (Some (tid_timestamp (fst v))))"

definition get_reply_fail :: "pending_reply \<Rightarrow> key \<Rightarrow> unit sv" where
  "get_reply_fail q k = send q (Msg_GetReply (rid_of q) REPLY_FAIL k None None)"

definition Server_ContinueGet :: "txn_id \<Rightarrow> unit sv" where
  "Server_ContinueGet t = bindS (getS (\<lambda>s. map_of (sv_pending_get s) t)) (\<lambda>pending. case pending of
     None \<Rightarrow> returnS ()
   | Some (q, k) \<Rightarrow>
       bindS (txn_call (ContinueGet t k)) (\<lambda>st.
       thenS (if st = READING
              then bindS (getS (\<lambda>s. HasReadLock t k (sv_locks s))) (\<lambda>b. assertS b
                     (bindS (store_get k) (\<lambda>v. thenS (get_reply_ok q k v) (txn_step (FinishGet t k)))))
              else if st = ABORTED then get_reply_fail q k
              else failS NotReachable)
         (modS (\<lambda>s. s\<lparr>sv_pending_get := um_erase t (sv_pending_get s)\<rparr>))))"

section \<open>Wounding\<close>

definition wound_pending_rw :: "txn_id \<Rightarrow> txn_id \<Rightarrow> unit sv" where
  "wound_pending_rw t rw = assertS (t \<noteq> rw)
     (bindS (getS (\<lambda>s. GetRWTransactionState (sv_transactions s) rw)) (\<lambda>st. assertS (st \<noteq> NOT_FOUND)
        (if st = READING \<or> st = READ_WAIT
         then bindS (txn_get (\<lambda>s. GetClientAddr s rw)) (\<lambda>remote. case remote of
                None \<Rightarrow> failS UndefinedBehaviour
              | Some a \<Rightarrow> emitS (SendMessage a (Msg_WoundClient rw)))
         else if st = PREPARING \<or> st = WAIT_PARTICIPANTS \<or> st = PREPARE_WAIT \<or> st = PREPARED
         then bindS (txn_get (\<lambda>s. GetCoordinator s rw)) (\<lambda>c. assertS (0 \<le> c) (shard_client c (ShardWound c rw)))
         else if st = COMMITTING \<or> st = COMMITTED \<or> st = ABORTED then returnS ()
         else failS NotReachable)))"

definition WoundPendingRWs :: "txn_id \<Rightarrow> txn_id uset \<Rightarrow> unit sv" where
  "WoundPendingRWs t rws = forS rws (wound_pending_rw t)"

section \<open>Read-only transactions\<close>

definition SendROSlowPath :: "txn_id \<Rightarrow> txn_id \<Rightarrow> bool \<Rightarrow> timestamp \<Rightarrow> unit sv" where
  "SendROSlowPath ro rw is_commit commit_ts = bindS (getS sv_consistency) (\<lambda>c. assertS (c = RSS)
     (bindS (getS (\<lambda>s. map_of (sv_pending_ro s) ro)) (\<lambda>pending. case pending of
        None \<Rightarrow> failS AssertFailed
      | Some (q, n) \<Rightarrow> assertS (n > 0)
          (bindS (txn_get (\<lambda>s. GetROTransactionState s ro)) (\<lambda>st.
             if st \<noteq> SLOW_PATH
             then modS (\<lambda>s. s\<lparr>sv_pending_ro := um_put ro (q, n - 1) (sv_pending_ro s)\<rparr>)
             else thenS (send q (Msg_ROCommitSlowReply (rid_of q) rw commit_ts is_commit))
                    (if n - 1 = 0
                     then thenS (modS (\<lambda>s. s\<lparr>sv_pending_ro := um_erase ro (sv_pending_ro s)\<rparr>))
                            (txn_step (FinishROSlowPath ro))
                     else modS (\<lambda>s. s\<lparr>sv_pending_ro := um_put ro (q, n - 1) (sv_pending_ro s)\<rparr>)))))))"

definition NotifySlowPathROs :: "txn_id uset \<Rightarrow> txn_id \<Rightarrow> bool \<Rightarrow> timestamp \<Rightarrow> unit sv" where
  "NotifySlowPathROs ros rw is_commit commit_ts = forS ros (\<lambda>ro. SendROSlowPath ro rw is_commit commit_ts)"

text \<open>The values of the keys at a timestamp, sent through \<open>c_str()\<close>.\<close>

fun read_all :: "key list \<Rightarrow> timestamp_id \<Rightarrow> (read_value list) sv" where
  "read_all [] t = returnS []"
| "read_all (k # ks) t = bindS (store_get_at k t) (\<lambda>(w, v). bindS (read_all ks t) (\<lambda>vs.
     returnS (\<lparr>v_transaction_id = tid_transaction_id w, v_ts = tid_timestamp w, v_key = c_str k, v_val = c_str v\<rparr> # vs)))"

text \<open>
  The end of a read-only commit: with skipped transactions the reply tells the client
  about them and the slow path starts; \<open>finish\<close> is what else happens when there are none.
\<close>

definition ro_reply :: "txn_id \<Rightarrow> pending_reply \<Rightarrow> read_value list \<Rightarrow> unit sv \<Rightarrow> unit sv" where
  "ro_reply t q values finish = bindS (getS sv_consistency) (\<lambda>c.
     bindS (if c = RSS then txn_get (\<lambda>s. GetRONumberSkipped s t) else returnS 0) (\<lambda>n.
     if n > 0
     then bindS (txn_get (\<lambda>s. GetROSkippedRWTransactions s t)) (\<lambda>skipped.
            thenS (modS (\<lambda>s. s\<lparr>sv_pending_ro := um_put t (q, of_nat (length skipped)) (sv_pending_ro s)\<rparr>))
            (thenS (send q (Msg_ROCommitReply (rid_of q) t values (map PreparedTransaction_serialize skipped)))
              (txn_step (StartROSlowPath t))))
     else thenS (send q (Msg_ROCommitReply (rid_of q) t values []))
            (thenS finish (txn_step (CommitRO t)))))"

definition HandleROCommit :: "addr \<Rightarrow> request_id \<Rightarrow> txn_id \<Rightarrow> timestamp \<Rightarrow> timestamp \<Rightarrow> key list \<Rightarrow> unit sv" where
  "HandleROCommit remote rid t commit_ts min_ts msg_keys =
     (let ks = us_add_all msg_keys []; q = pending_of rid remote in
      thenS (modS (\<lambda>s. s\<lparr>sv_min_prepare := max (sv_min_prepare s) commit_ts\<rparr>))
      (bindS (txn_call (StartRO t ks min_ts commit_ts)) (\<lambda>st.
         if st = PREPARE_WAIT
         then bindS (txn_get (\<lambda>s. GetRONumberSkipped s t)) (\<lambda>n.
                modS (\<lambda>s. s\<lparr>sv_pending_ro := um_put t (q, of_nat n) (sv_pending_ro s)\<rparr>))
         else bindS (read_all ks (TimestampID commit_ts t)) (\<lambda>values. ro_reply t q values (returnS ())))))"

definition ContinueROCommit :: "txn_id \<Rightarrow> unit sv" where
  "ContinueROCommit t = bindS (getS (\<lambda>s. map_of (sv_pending_ro s) t)) (\<lambda>pending. case pending of
     None \<Rightarrow> failS AssertFailed
   | Some (q, _) \<Rightarrow>
       thenS (txn_step (ContinueRO t))
       (bindS (txn_get (\<lambda>s. GetROCommitTimestamp s t)) (\<lambda>commit_ts.
        bindS (txn_get (\<lambda>s. GetROKeys s t)) (\<lambda>ks.
        bindS (read_all ks (TimestampID commit_ts t)) (\<lambda>values.
          ro_reply t q values (modS (\<lambda>s. s\<lparr>sv_pending_ro := um_erase t (sv_pending_ro s)\<rparr>)))))))"

definition NotifyPendingROs :: "txn_id uset \<Rightarrow> unit sv" where
  "NotifyPendingROs ros = forS ros ContinueROCommit"

end
