(* ===== verification/ServerCommit.thy ===== *)
theory ServerCommit
  imports Server
begin

text \<open>
  The rest of \<open>src/store/strongstore/server.cc\<close>: preparing and committing read-write
  transactions at the coordinator and at the participants, wounds and aborts, the upcalls
  of the replicas, and the dispatch of messages.

  Releasing locks lets waiting transactions go on, and one that cannot releases its own
  locks in turn: \<open>NotifyPendingRWs\<close> and the two \<open>Continue...Prepare\<close> functions call each
  other. Each such turn drops a pending reply, so \<open>Suc\<close> of their number is enough fuel
  (\<open>ServerNotify\<close>).
\<close>

section \<open>Replies\<close>

definition coordinator_reply_fail :: "pending_reply \<Rightarrow> unit sv" where
  "coordinator_reply_fail q = send q (Msg_RWCommitCoordinatorReply (rid_of q) REPLY_FAIL None None)"

definition participant_reply_fail :: "pending_reply \<Rightarrow> unit sv" where
  "participant_reply_fail q = send q (Msg_RWCommitParticipantReply (rid_of q) REPLY_FAIL)"

definition erase_c :: "txn_id \<Rightarrow> unit sv" where
  "erase_c t = modS (\<lambda>s. s\<lparr>sv_pending_c := um_erase t (sv_pending_c s)\<rparr>)"

definition erase_p :: "txn_id \<Rightarrow> unit sv" where
  "erase_p t = modS (\<lambda>s. s\<lparr>sv_pending_p := um_erase t (sv_pending_p s)\<rparr>)"

definition erase_ok :: "txn_id \<Rightarrow> unit sv" where
  "erase_ok t = modS (\<lambda>s. s\<lparr>sv_pending_ok := um_erase t (sv_pending_ok s)\<rparr>)"

definition put_c :: "txn_id \<Rightarrow> pending_reply \<Rightarrow> unit sv" where
  "put_c t q = modS (\<lambda>s. s\<lparr>sv_pending_c := um_put t q (sv_pending_c s)\<rparr>)"

definition put_p :: "txn_id \<Rightarrow> pending_reply \<Rightarrow> unit sv" where
  "put_p t q = modS (\<lambda>s. s\<lparr>sv_pending_p := um_put t q (sv_pending_p s)\<rparr>)"

definition SendRWCommmitCoordinatorReplyOK :: "txn_id \<Rightarrow> timestamp \<Rightarrow> timestamp \<Rightarrow> unit sv" where
  "SendRWCommmitCoordinatorReplyOK t commit_ts nonblock_ts =
     bindS (getS (\<lambda>s. map_of (sv_pending_c s) t)) (\<lambda>pending. case pending of
       None \<Rightarrow> returnS ()
     | Some q \<Rightarrow> thenS (send q (Msg_RWCommitCoordinatorReply (rid_of q) REPLY_OK (Some commit_ts) (Some nonblock_ts)))
         (erase_c t))"

definition SendPrepareOKRepliesOK :: "txn_id \<Rightarrow> timestamp \<Rightarrow> unit sv" where
  "SendPrepareOKRepliesOK t commit_ts =
     bindS (getS (\<lambda>s. map_of (sv_pending_ok s) t)) (\<lambda>pending. case pending of
       None \<Rightarrow> returnS ()
     | Some qs \<Rightarrow> thenS (forS qs (\<lambda>q. send q (Msg_PrepareOKReply (rid_of q) REPLY_OK (Some commit_ts)))) (erase_ok t))"

definition SendPrepareOKRepliesFail :: "pending_reply list \<Rightarrow> unit sv" where
  "SendPrepareOKRepliesFail qs = forS qs (\<lambda>q. send q (Msg_PrepareOKReply (rid_of q) REPLY_FAIL None))"

definition reply_participant :: "txn_id \<Rightarrow> reply_code \<Rightarrow> unit sv" where
  "reply_participant t st = bindS (getS (\<lambda>s. map_of (sv_pending_p s) t)) (\<lambda>pending. case pending of
     None \<Rightarrow> failS AssertFailed
   | Some q \<Rightarrow> thenS (send q (Msg_RWCommitParticipantReply (rid_of q) st)) (erase_p t))"

definition SendRWCommmitParticipantReplyOK :: "txn_id \<Rightarrow> unit sv" where
  "SendRWCommmitParticipantReplyOK t = reply_participant t REPLY_OK"

definition SendRWCommmitParticipantReplyFail :: "txn_id \<Rightarrow> unit sv" where
  "SendRWCommmitParticipantReplyFail t = reply_participant t REPLY_FAIL"

definition SendAbortParticipants :: "txn_id \<Rightarrow> int uset \<Rightarrow> unit sv" where
  "SendAbortParticipants t participants = bindS (getS sv_shard_idx) (\<lambda>me.
     forS participants (\<lambda>p. if p \<noteq> me then shard_client p (ShardAbort p t) else returnS ()))"

section \<open>Preparing\<close>

definition Server_GetPrepareTimestamp :: "server_env \<Rightarrow> u64 \<Rightarrow> timestamp sv" where
  "Server_GetPrepareTimestamp env client_id = bindS (ttNow env) (\<lambda>now. bindS (getS sv_min_prepare) (\<lambda>m.
     let ts = Timestamp (max (earliest now) (getTimestamp m + 1)) client_id in
     thenS (modS (\<lambda>s. s\<lparr>sv_min_prepare := ts\<rparr>)) (returnS ts)))"

text \<open>The commit timestamp of a coordinator that has all its locks.\<close>

definition coordinator_prepared :: "server_env \<Rightarrow> txn_id \<Rightarrow> u64 \<Rightarrow> timestamp sv" where
  "coordinator_prepared env t client_id =
     bindS (Server_GetPrepareTimestamp env client_id) (\<lambda>prepare_ts.
       thenS (txn_step (FinishCoordinatorPrepare t prepare_ts)) (txn_get (\<lambda>s. GetRWCommitTimestamp s t)))"

definition coordinator_commit :: "txn_id \<Rightarrow> transaction \<Rightarrow> timestamp \<Rightarrow> unit sv" where
  "coordinator_commit t txn commit_ts =
     bindS (txn_get (\<lambda>s. GetStartTimestamp s t)) (\<lambda>start_ts.
     bindS (txn_get (\<lambda>s. GetParticipants s t)) (\<lambda>participants.
     bindS (txn_get (\<lambda>s. GetNonBlockTimestamp s t)) (\<lambda>nonblock_ts.
     bindS (getS sv_shard_idx) (\<lambda>me.
       emitS (ReplicaCoordinatorCommit t start_ts me participants txn nonblock_ts commit_ts)))))"

definition pause :: "server_env \<Rightarrow> txn_id \<Rightarrow> txn_id uset \<Rightarrow> unit sv" where
  "pause env t wounded = bindS (ttNow env) (\<lambda>now.
     thenS (txn_step (PausePrepare (tt_mid now) t)) (WoundPendingRWs t wounded))"

type_synonym notifier = "txn_id \<Rightarrow> txn_id uset \<Rightarrow> unit sv"

definition continue_coordinator :: "server_env \<Rightarrow> notifier \<Rightarrow> txn_id \<Rightarrow> pending_reply \<Rightarrow> unit sv" where
  "continue_coordinator env notify t q =
     bindS (ttNow env) (\<lambda>now. bindS (txn_call (\<lambda>s. Inr (ContinuePrepare (tt_mid now) t s))) (\<lambda>st.
     if st = PREPARING
     then bindS (txn_get (\<lambda>s. GetTransaction s t)) (\<lambda>txn. bindS (lock_call (AcquireLocks t txn)) (\<lambda>ar.
       case la_status ar of
         ACQUIRED \<Rightarrow> assertS (la_wound_rws ar = [])
           (bindS (coordinator_prepared env t (rq_client_id q)) (coordinator_commit t txn))
       | LOCK_FAIL \<Rightarrow> assertS (la_wound_rws ar = [])
           (bindS (release t txn) (\<lambda>rws.
            thenS (coordinator_reply_fail q) (thenS (erase_c t)
            (thenS (notify t rws) (txn_step (AbortPrepare t))))))
       | WAITING \<Rightarrow> pause env t (la_wound_rws ar)))
     else if st \<in> {PREPARED, COMMITTING, COMMITTED, ABORTED} then returnS ()
     else failS NotReachable))"

definition ContinueCoordinatorPrepare :: "server_env \<Rightarrow> notifier \<Rightarrow> txn_id \<Rightarrow> unit sv" where
  "ContinueCoordinatorPrepare env notify t =
     bindS (getS (\<lambda>s. map_of (sv_pending_c s) t)) (\<lambda>pending. case pending of
       None \<Rightarrow> returnS ()
     | Some q \<Rightarrow> continue_coordinator env notify t q)"

definition participant_prepared :: "server_env \<Rightarrow> txn_id \<Rightarrow> u64 \<Rightarrow> timestamp sv" where
  "participant_prepared env t client_id =
     bindS (Server_GetPrepareTimestamp env client_id) (\<lambda>prepare_ts.
       thenS (txn_step (SetParticipantPrepareTimestamp t prepare_ts)) (returnS prepare_ts))"

definition continue_participant :: "server_env \<Rightarrow> notifier \<Rightarrow> txn_id \<Rightarrow> pending_reply \<Rightarrow> unit sv" where
  "continue_participant env notify t q =
     bindS (ttNow env) (\<lambda>now. bindS (txn_call (\<lambda>s. Inr (ContinuePrepare (tt_mid now) t s))) (\<lambda>st.
     if st = PREPARING
     then bindS (txn_get (\<lambda>s. GetCoordinator s t)) (\<lambda>c. bindS (txn_get (\<lambda>s. GetTransaction s t)) (\<lambda>txn.
       bindS (lock_call (AcquireLocks t txn)) (\<lambda>ar.
       case la_status ar of
         ACQUIRED \<Rightarrow> assertS (la_wound_rws ar = [])
           (bindS (participant_prepared env t (rq_client_id q)) (\<lambda>prepare_ts.
            bindS (txn_get (\<lambda>s. GetNonBlockTimestamp s t)) (\<lambda>nonblock_ts.
              emitS (ReplicaPrepare t txn prepare_ts c nonblock_ts))))
       | LOCK_FAIL \<Rightarrow> assertS (la_wound_rws ar = [])
           (bindS (release t txn) (\<lambda>rws. bindS (getS sv_shard_idx) (\<lambda>me.
            thenS (shard_client c (ShardPrepareAbort c t me))
            (thenS (participant_reply_fail q) (thenS (erase_p t)
            (thenS (notify t rws) (txn_step (AbortPrepare t))))))))
       | WAITING \<Rightarrow> pause env t (la_wound_rws ar))))
     else if st \<in> {PREPARED, COMMITTING, COMMITTED, ABORTED} then returnS ()
     else failS NotReachable))"

definition ContinueParticipantPrepare :: "server_env \<Rightarrow> notifier \<Rightarrow> txn_id \<Rightarrow> unit sv" where
  "ContinueParticipantPrepare env notify t =
     bindS (getS (\<lambda>s. map_of (sv_pending_p s) t)) (\<lambda>pending. case pending of
       None \<Rightarrow> returnS ()
     | Some q \<Rightarrow> continue_participant env notify t q)"

text \<open>One call of \<open>NotifyPendingRWs\<close>, given what its recursive calls do.\<close>

definition notify_round :: "server_env \<Rightarrow> notifier \<Rightarrow> notifier" where
  "notify_round env notify t rws = forS rws (\<lambda>w. if t \<noteq> w
     then thenS (Server_ContinueGet w)
       (thenS (ContinueCoordinatorPrepare env notify w) (ContinueParticipantPrepare env notify w))
     else returnS ())"

fun NotifyPendingRWs :: "nat \<Rightarrow> server_env \<Rightarrow> notifier" where
  "NotifyPendingRWs 0 env t rws = failS Diverged"
| "NotifyPendingRWs (Suc n) env t rws = notify_round env (NotifyPendingRWs n env) t rws"

definition notify_rws :: "server_env \<Rightarrow> notifier" where
  "notify_rws env t rws = bindS (getS (\<lambda>s. Suc (length (sv_pending_c s) + length (sv_pending_p s))))
     (\<lambda>n. NotifyPendingRWs n env t rws)"

section \<open>The handlers of clients' requests\<close>

definition HandleGet :: "server_env \<Rightarrow> addr \<Rightarrow> request_id \<Rightarrow> txn_id \<Rightarrow> key \<Rightarrow> timestamp \<Rightarrow> bool \<Rightarrow> unit sv" where
  "HandleGet env remote rid t k ts for_update =
     (let q = pending_of rid remote in
      thenS (txn_step (StartGet t remote k for_update))
      (bindS (lock_call (if for_update then AcquireReadWriteLock t ts k else AcquireReadLock t ts k)) (\<lambda>r.
       case la_status r of
         ACQUIRED \<Rightarrow> assertS (la_wound_rws r = [])
           (bindS (store_get k) (\<lambda>v. thenS (get_reply_ok q k v) (txn_step (FinishGet t k))))
       | LOCK_FAIL \<Rightarrow> assertS (la_wound_rws r = [])
           (thenS (get_reply_fail q k)
           (bindS (txn_get (\<lambda>s. GetTransaction s t)) (\<lambda>txn. bindS (release t txn) (\<lambda>rws.
            thenS (txn_step (AbortGet t k)) (notify_rws env t rws)))))
       | WAITING \<Rightarrow>
           thenS (modS (\<lambda>s. s\<lparr>sv_pending_get := um_put t (q, k) (sv_pending_get s)\<rparr>))
           (thenS (txn_step (PauseGet t k)) (WoundPendingRWs t (la_wound_rws r))))))"

definition HandleRWCommitCoordinator :: "server_env \<Rightarrow> addr \<Rightarrow> request_id \<Rightarrow> txn_id \<Rightarrow> transaction_message \<Rightarrow>
    timestamp \<Rightarrow> int list \<Rightarrow> unit sv" where
  "HandleRWCommitCoordinator env remote rid t msg_txn nonblock_ts msg_participants =
     (let q = pending_of rid remote; participants = us_add_all msg_participants [];
          txn = Transaction_parse msg_txn in
      bindS (ttNow env) (\<lambda>now. bindS (getS sv_shard_idx) (\<lambda>me.
      let start_ts = Timestamp (latest now) (rid_client_id rid) in
      bindS (txn_call (StartCoordinatorPrepare t start_ts me participants txn nonblock_ts)) (\<lambda>st.
      if st = PREPARING
      then bindS (lock_call (AcquireLocks t txn)) (\<lambda>ar. case la_status ar of
          ACQUIRED \<Rightarrow> assertS (la_wound_rws ar = [])
            (bindS (coordinator_prepared env t (rid_client_id rid)) (\<lambda>commit_ts.
             thenS (put_c t q)
              (emitS (ReplicaCoordinatorCommit t start_ts me participants txn nonblock_ts commit_ts))))
        | LOCK_FAIL \<Rightarrow> assertS (la_wound_rws ar = [])
            (bindS (release t txn) (\<lambda>rws. thenS (coordinator_reply_fail q)
              (thenS (notify_rws env t rws) (txn_step (AbortPrepare t)))))
        | WAITING \<Rightarrow> thenS (put_c t q) (pause env t (la_wound_rws ar)))
      else if st = ABORTED then thenS (coordinator_reply_fail q) (SendAbortParticipants t participants)
      else if st = WAIT_PARTICIPANTS then put_c t q
      else failS NotReachable))))"

definition HandleRWCommitParticipant :: "server_env \<Rightarrow> addr \<Rightarrow> request_id \<Rightarrow> txn_id \<Rightarrow> transaction_message \<Rightarrow>
    int \<Rightarrow> timestamp \<Rightarrow> unit sv" where
  "HandleRWCommitParticipant env remote rid t msg_txn c nonblock_ts =
     (let q = pending_of rid remote; txn = Transaction_parse msg_txn in
      bindS (txn_call (StartParticipantPrepare t c txn nonblock_ts)) (\<lambda>st.
      if st = PREPARING
      then bindS (lock_call (AcquireLocks t txn)) (\<lambda>ar. case la_status ar of
          ACQUIRED \<Rightarrow> assertS (la_wound_rws ar = [])
            (bindS (participant_prepared env t (rid_client_id rid)) (\<lambda>prepare_ts.
             thenS (put_p t q) (emitS (ReplicaPrepare t txn prepare_ts c nonblock_ts))))
        | LOCK_FAIL \<Rightarrow> assertS (la_wound_rws ar = [])
            (bindS (release t txn) (\<lambda>rws. bindS (getS sv_shard_idx) (\<lambda>me.
             thenS (shard_client c (ShardPrepareAbort c t me))
             (thenS (participant_reply_fail q) (thenS (notify_rws env t rws) (txn_step (AbortPrepare t)))))))
        | WAITING \<Rightarrow> thenS (put_p t q) (pause env t (la_wound_rws ar)))
      else if st = ABORTED then participant_reply_fail q
      else failS NotReachable))"

end
