(* ===== verification/ServerHandlers.thy ===== *)
theory ServerHandlers
  imports ServerCommit
begin

text \<open>
  The last part of \<open>src/store/strongstore/server.cc\<close>: what the replies of other shards and
  of replication lead to, the commit itself, wounds and aborts, the upcalls of the
  replicas, and the dispatch of messages.
\<close>

section \<open>Callbacks of replication and of other shards\<close>

definition PrepareCallback :: "txn_id \<Rightarrow> unit sv" where
  "PrepareCallback t = bindS (txn_call (FinishParticipantPrepare t)) (\<lambda>st.
     if st = PREPARED
     then bindS (txn_get (\<lambda>s. GetCoordinator s t)) (\<lambda>c. bindS (txn_get (\<lambda>s. GetPrepareTimestamp s t)) (\<lambda>prepare_ts.
          bindS (txn_get (\<lambda>s. GetNonBlockTimestamp s t)) (\<lambda>nonblock_ts. bindS (getS sv_shard_idx) (\<lambda>me.
          thenS (shard_client c (ShardPrepareOK c t me prepare_ts nonblock_ts)) (SendRWCommmitParticipantReplyOK t)))))
     else if st = ABORTED then SendRWCommmitParticipantReplyFail t
     else failS NotReachable)"

text \<open>Aborting a transaction the shard knows: locks, then the store.\<close>

definition release_and_abort :: "txn_id \<Rightarrow> (txn_id uset \<times> finish_result) sv" where
  "release_and_abort t = bindS (txn_get (\<lambda>s. GetTransaction s t)) (\<lambda>txn. bindS (release t txn) (\<lambda>rws.
     bindS (txn_call (Abort t)) (\<lambda>fr. returnS (rws, fr))))"

definition notify_all :: "server_env \<Rightarrow> txn_id \<Rightarrow> bool \<Rightarrow> timestamp \<Rightarrow> txn_id uset \<Rightarrow> finish_result \<Rightarrow> unit sv" where
  "notify_all env t is_commit commit_ts rws fr =
     thenS (notify_rws env t rws)
     (thenS (NotifyPendingROs (notify_ros fr)) (NotifySlowPathROs (notify_slow_path_ros fr) t is_commit commit_ts))"

definition PrepareOKCallback :: "server_env \<Rightarrow> txn_id \<Rightarrow> reply_code \<Rightarrow> timestamp \<Rightarrow> unit sv" where
  "PrepareOKCallback env t status commit_ts =
     (if status = REPLY_OK
      then bindS (txn_call (ParticipantReceivePrepareOK t)) (\<lambda>st. assertS (st = COMMITTING)
             (emitS (ReplicaCommit t commit_ts)))
      else if status = REPLY_FAIL
      then bindS (getS (\<lambda>s. GetRWTransactionState (sv_transactions s) t)) (\<lambda>st.
             if st = ABORTED then returnS ()
             else assertS (st = PREPARED) (bindS (release_and_abort t) (\<lambda>(rws, fr).
                    thenS (emitS (ReplicaAbort t)) (notify_all env t False Timestamp_zero rws fr))))
      else failS NotReachable)"

definition PrepareAbortCallback :: "reply_code \<Rightarrow> unit sv" where
  "PrepareAbortCallback status = assertS (status = REPLY_OK) (returnS ())"

text \<open>
  The callbacks that wait for a \<open>COMMIT\<close>: the replica client passes
  \<open>transaction_status_t COMMITTED\<close>, and the assertion compares it with \<open>REPLY_OK\<close>; both are 0.
\<close>

definition CommitCoordinatorCallback :: "unit sv" where
  "CommitCoordinatorCallback = returnS ()"

definition CommitParticipantCallback :: "unit sv" where
  "CommitParticipantCallback = returnS ()"

definition AbortParticipantCallback :: "unit sv" where
  "AbortParticipantCallback = returnS ()"

section \<open>The coordinator hears from the participants\<close>

text \<open>A request id is equal to another by its two numbers.\<close>

definition add_rid :: "pending_reply \<Rightarrow> pending_reply list \<Rightarrow> pending_reply list" where
  "add_rid q qs = (if \<exists>p \<in> set qs. rid_of p = rid_of q then qs else qs @ [q])"

definition Server_HandlePrepareOK :: "server_env \<Rightarrow> addr \<Rightarrow> request_id \<Rightarrow> txn_id \<Rightarrow> int \<Rightarrow> timestamp \<Rightarrow> timestamp \<Rightarrow> unit sv" where
  "Server_HandlePrepareOK env remote rid t participant prepare_ts nonblock_ts =
     bindS (getS (\<lambda>s. case map_of (sv_pending_ok s) t of None \<Rightarrow> [] | Some qs \<Rightarrow> qs)) (\<lambda>qs0.
     let qs = add_rid (pending_of rid remote) qs0 in
     thenS (modS (\<lambda>s. s\<lparr>sv_pending_ok := um_put t qs (sv_pending_ok s)\<rparr>))
     (bindS (txn_call (CoordinatorReceivePrepareOK t participant prepare_ts nonblock_ts)) (\<lambda>st.
      if st = PREPARING
      then bindS (txn_get (\<lambda>s. GetParticipants s t)) (\<lambda>participants.
           bindS (txn_get (\<lambda>s. GetTransaction s t)) (\<lambda>txn.
           bindS (lock_call (AcquireLocks t txn)) (\<lambda>ar. case la_status ar of
             ACQUIRED \<Rightarrow> assertS (la_wound_rws ar = [])
               (bindS (coordinator_prepared env t (rid_client_id rid)) (coordinator_commit t txn))
           | LOCK_FAIL \<Rightarrow> assertS (la_wound_rws ar = [])
               (bindS (release t txn) (\<lambda>rws.
                thenS (SendPrepareOKRepliesFail qs) (thenS (erase_ok t)
                (thenS (SendAbortParticipants t participants)
                (bindS (getS (\<lambda>s. map_of (sv_pending_c s) t)) (\<lambda>pending. case pending of
                   None \<Rightarrow> failS UndefinedBehaviour
                 | Some cr \<Rightarrow> thenS (coordinator_reply_fail cr) (thenS (erase_c t)
                     (thenS (notify_rws env t rws) (txn_step (AbortPrepare t))))))))))
           | WAITING \<Rightarrow> pause env t (la_wound_rws ar))))
      else if st = ABORTED then thenS (SendPrepareOKRepliesFail qs) (erase_ok t)
      else if st = WAIT_PARTICIPANTS then returnS ()
      else failS NotReachable)))"

definition fail_ok_replies :: "txn_id \<Rightarrow> unit sv" where
  "fail_ok_replies t = bindS (getS (\<lambda>s. map_of (sv_pending_ok s) t)) (\<lambda>pending. case pending of
     None \<Rightarrow> returnS ()
   | Some qs \<Rightarrow> thenS (SendPrepareOKRepliesFail qs) (erase_ok t))"

definition HandlePrepareAbort :: "server_env \<Rightarrow> addr \<Rightarrow> request_id \<Rightarrow> txn_id \<Rightarrow> unit sv" where
  "HandlePrepareAbort env remote rid t =
     (let ok = emitS (SendMessage remote (Msg_PrepareAbortReply rid REPLY_OK)) in
      bindS (getS (\<lambda>s. GetRWTransactionState (sv_transactions s) t)) (\<lambda>st.
      if st = NOT_FOUND
      then thenS ok (bindS (txn_call (Abort t)) (\<lambda>fr.
             assertS (notify_ros fr = [] \<and> notify_slow_path_ros fr = []) (returnS ())))
      else if st = ABORTED then ok
      else assertS (st = READING \<or> st = READ_WAIT \<or> st = WAIT_PARTICIPANTS)
        (bindS (txn_get (\<lambda>s. GetTransaction s t)) (\<lambda>txn. bindS (release t txn) (\<lambda>rws.
         thenS (bindS (getS (\<lambda>s. map_of (sv_pending_c s) t)) (\<lambda>pending. case pending of
                 None \<Rightarrow> returnS ()
               | Some q \<Rightarrow> thenS (coordinator_reply_fail q)
                   (bindS (txn_get (\<lambda>s. GetParticipants s t)) (\<lambda>participants.
                    thenS (SendAbortParticipants t participants) (erase_c t)))))
         (thenS (fail_ok_replies t)
         (thenS ok (thenS (notify_rws env t rws) (bindS (txn_call (Abort t)) (\<lambda>_. returnS ()))))))))))"

section \<open>Wounds and aborts\<close>

definition Server_HandleWound :: "server_env \<Rightarrow> txn_id \<Rightarrow> unit sv" where
  "Server_HandleWound env t =
     bindS (getS (\<lambda>s. GetRWTransactionState (sv_transactions s) t)) (\<lambda>st.
     if st = ABORTED \<or> st = COMMITTING \<or> st = COMMITTED then returnS ()
     else assertS (st \<noteq> PREPARED)
       (thenS (if st = PREPARING \<or> st = WAIT_PARTICIPANTS \<or> st = PREPARE_WAIT
          then bindS (txn_get (\<lambda>s. GetCoordinator s t)) (\<lambda>c. bindS (getS sv_shard_idx) (\<lambda>me. assertS (c = me)
            (thenS (bindS (getS (\<lambda>s. map_of (sv_pending_c s) t)) (\<lambda>pending. case pending of
                 None \<Rightarrow> returnS ()
               | Some q \<Rightarrow> thenS (coordinator_reply_fail q) (erase_c t)))
            (thenS (fail_ok_replies t)
              (bindS (txn_get (\<lambda>s. GetParticipants s t)) (SendAbortParticipants t))))))
          else returnS ())
        (bindS (if st \<noteq> NOT_FOUND then bindS (txn_get (\<lambda>s. GetTransaction s t)) (release t) else returnS []) (\<lambda>rws.
         bindS (txn_call (Abort t)) (\<lambda>fr. notify_all env t False Timestamp_zero rws fr)))))"

definition HandleAbort :: "server_env \<Rightarrow> addr \<Rightarrow> request_id \<Rightarrow> txn_id \<Rightarrow> unit sv" where
  "HandleAbort env remote rid t =
     bindS (getS (\<lambda>s. GetRWTransactionState (sv_transactions s) t)) (\<lambda>st.
     let reply = \<lambda>status. emitS (SendMessage remote (Msg_AbortReply rid status)) in
     if st = ABORTED then reply REPLY_OK
     else if st = COMMITTING \<or> st = COMMITTED then reply REPLY_FAIL
     else
       bindS (if st \<noteq> NOT_FOUND then bindS (txn_get (\<lambda>s. GetTransaction s t)) (release t) else returnS []) (\<lambda>rws.
       bindS (txn_call (Abort t)) (\<lambda>fr.
       thenS (if st = PREPARING \<or> st = PREPARED then emitS (ReplicaAbort t) else returnS ())
       (thenS (reply REPLY_OK)
       (thenS (Server_ContinueGet t) (notify_all env t False Timestamp_zero rws fr))))))"

section \<open>Committing\<close>

definition store_put :: "txn_id \<Rightarrow> timestamp \<Rightarrow> key \<times> val \<Rightarrow> unit sv" where
  "store_put t commit_ts w = modS (\<lambda>s. s\<lparr>sv_store :=
     vs_put tid_lt (fst w) (snd w) (TimestampID commit_ts t) (sv_store s)\<rparr>)"

definition install_writes :: "txn_id \<Rightarrow> timestamp \<Rightarrow> transaction \<Rightarrow> unit sv" where
  "install_writes t commit_ts txn =
     thenS (forS (writeSet txn) (store_put t commit_ts))
       (if writeSet txn \<noteq> [] then modS (\<lambda>s. s\<lparr>sv_min_prepare := max (sv_min_prepare s) commit_ts\<rparr>) else returnS ())"

definition CoordinatorCommitTransaction :: "server_env \<Rightarrow> txn_id \<Rightarrow> timestamp \<Rightarrow> unit sv" where
  "CoordinatorCommitTransaction env t commit_ts =
     bindS (txn_get (\<lambda>s. GetNonBlockTimestamp s t)) (\<lambda>nonblock_ts.
     bindS (txn_get (\<lambda>s. GetTransaction s t)) (\<lambda>txn.
     thenS (install_writes t commit_ts txn)
     (bindS (release t txn) (\<lambda>rws. bindS (txn_call (Commit t)) (\<lambda>fr.
      thenS (SendRWCommmitCoordinatorReplyOK t commit_ts nonblock_ts)
      (thenS (SendPrepareOKRepliesOK t commit_ts) (notify_all env t True commit_ts rws fr)))))))"

definition ParticipantCommitTransaction :: "server_env \<Rightarrow> txn_id \<Rightarrow> timestamp \<Rightarrow> unit sv" where
  "ParticipantCommitTransaction env t commit_ts =
     bindS (txn_get (\<lambda>s. GetTransaction s t)) (\<lambda>txn.
     thenS (install_writes t commit_ts txn)
     (bindS (release t txn) (\<lambda>rws. bindS (txn_call (Commit t)) (\<lambda>fr. notify_all env t True commit_ts rws fr))))"

definition Server_Load :: "key \<Rightarrow> val \<Rightarrow> timestamp \<Rightarrow> unit sv" where
  "Server_Load k v ts = modS (\<lambda>s. s\<lparr>sv_store := vs_put tid_lt k v (TimestampID ts 0) (sv_store s)\<rparr>)"

section \<open>The upcalls of replication\<close>

text \<open>Every kind of operation is replicated as it is.\<close>

definition LeaderUpcall :: "replica_request \<Rightarrow> bool \<times> replica_request" where
  "LeaderUpcall r = (case rr_op r of OP_PREPARE \<Rightarrow> (True, r) | OP_COMMIT \<Rightarrow> (True, r) | OP_ABORT \<Rightarrow> (True, r))"

definition replica_prepare :: "replica_request \<Rightarrow> reply_code sv" where
  "replica_prepare r = (let t = rr_txnid r; p = get_prepare r in
     bindS (getS (\<lambda>s. GetRWTransactionState (sv_transactions s) t)) (\<lambda>st.
     if st = ABORTED then returnS REPLY_FAIL
     else if st = NOT_FOUND
     then bindS (txn_call (StartParticipantPrepare t (op_coordinator p) (Transaction_parse (op_txn p)) (op_nonblock_ts p)))
       (\<lambda>st. assertS (st = PREPARING)
         (bindS (lock_call (AcquireLocks t (Transaction_parse (op_txn p)))) (\<lambda>ar. assertS (la_status ar = ACQUIRED)
           (thenS (txn_step (SetParticipantPrepareTimestamp t (op_timestamp p)))
             (bindS (txn_call (FinishParticipantPrepare t)) (\<lambda>_. returnS REPLY_OK))))))
     else if st = PREPARING \<or> st = PREPARED then returnS REPLY_OK
     else failS NotReachable))"

fun receive_prepare_oks :: "txn_id \<Rightarrow> int \<Rightarrow> timestamp \<Rightarrow> timestamp \<Rightarrow> int list \<Rightarrow> transaction_state \<Rightarrow> transaction_state sv" where
  "receive_prepare_oks t c commit_ts nonblock_ts [] st = returnS st"
| "receive_prepare_oks t c commit_ts nonblock_ts (p # ps) st =
     (if p \<noteq> c
      then bindS (txn_call (CoordinatorReceivePrepareOK t p commit_ts nonblock_ts))
             (receive_prepare_oks t c commit_ts nonblock_ts ps)
      else receive_prepare_oks t c commit_ts nonblock_ts ps st)"

definition replica_coordinator_prepare :: "replica_request \<Rightarrow> op_prepare \<Rightarrow> unit sv" where
  "replica_coordinator_prepare r p = (let t = rr_txnid r; c = op_coordinator p; commit_ts = get_commit r;
       participants = us_add_all (op_participants p) []; txn = Transaction_parse (op_txn p) in
     bindS (getS sv_shard_idx) (\<lambda>me. assertS (c = me)
     (bindS (txn_call (StartCoordinatorPrepare t (op_timestamp p) c participants txn (op_nonblock_ts p))) (\<lambda>st0.
      bindS (receive_prepare_oks t c commit_ts (op_nonblock_ts p) participants st0) (\<lambda>st. assertS (st = PREPARING)
      (bindS (lock_call (AcquireLocks t txn)) (\<lambda>ar. assertS (la_status ar = ACQUIRED)
        (txn_step (FinishCoordinatorPrepare t commit_ts)))))))))"

definition replica_commit :: "server_env \<Rightarrow> replica_request \<Rightarrow> unit sv" where
  "replica_commit env r = (let t = rr_txnid r; commit_ts = get_commit r in
     bindS (getS (\<lambda>s. GetRWTransactionState (sv_transactions s) t)) (\<lambda>st. case rr_prepare r of
       Some p \<Rightarrow>
         thenS (if st \<noteq> COMMITTING then replica_coordinator_prepare r p else returnS ())
         (\<lambda>s. let wait = TimeToWaitUntilMicros (se_error env) (se_clock env (sv_ticks s)) (getTimestamp commit_ts) in
            emitS (TimerCoordinatorCommit wait t commit_ts) (s\<lparr>sv_ticks := Suc (sv_ticks s)\<rparr>))
     | None \<Rightarrow>
         thenS (if st \<noteq> COMMITTING then bindS (txn_call (ParticipantReceivePrepareOK t)) (\<lambda>_. returnS ()) else returnS ())
           (ParticipantCommitTransaction env t commit_ts)))"

definition replica_abort :: "server_env \<Rightarrow> replica_request \<Rightarrow> unit sv" where
  "replica_abort env r = (let t = rr_txnid r in
     bindS (getS (\<lambda>s. GetRWTransactionState (sv_transactions s) t)) (\<lambda>st.
     if st \<noteq> ABORTED
     then bindS (release_and_abort t) (\<lambda>(rws, fr). notify_all env t False Timestamp_zero rws fr)
     else returnS ()))"

definition ReplicaUpcall :: "server_env \<Rightarrow> replica_request \<Rightarrow> reply_code sv" where
  "ReplicaUpcall env r = (case rr_op r of
     OP_PREPARE \<Rightarrow> replica_prepare r
   | OP_COMMIT \<Rightarrow> thenS (replica_commit env r) (returnS REPLY_OK)
   | OP_ABORT \<Rightarrow> thenS (replica_abort env r) (returnS REPLY_OK))"

definition UnloggedUpcall :: "unit sv" where
  "UnloggedUpcall = failS NotReachable"

section \<open>Messages\<close>

definition Server_ReceiveMessage :: "server_env \<Rightarrow> addr \<Rightarrow> shard_request \<Rightarrow> unit sv" where
  "Server_ReceiveMessage env remote m = (case m of
     Msg_Get rid t k ts fu \<Rightarrow> HandleGet env remote rid t k ts fu
   | Msg_RWCommitCoordinator rid t txn nb ps \<Rightarrow> HandleRWCommitCoordinator env remote rid t txn nb ps
   | Msg_RWCommitParticipant rid t txn c nb \<Rightarrow> HandleRWCommitParticipant env remote rid t txn c nb
   | Msg_PrepareOK rid t p pts nb \<Rightarrow> Server_HandlePrepareOK env remote rid t p pts nb
   | Msg_PrepareAbort rid t p \<Rightarrow> HandlePrepareAbort env remote rid t
   | Msg_ROCommit rid t cts mts ks \<Rightarrow> HandleROCommit remote rid t cts mts ks
   | Msg_Abort rid t \<Rightarrow> HandleAbort env remote rid t
   | Msg_Wound t \<Rightarrow> Server_HandleWound env t)"

end
