(* ===== verification/ServerFrame.thy ===== *)
theory ServerFrame
  imports ServerHandlers
begin

text \<open>
  What the server's operations keep. A preorder on servers that the small updates respect
  is respected by every handler: the locale \<open>server_frame\<close> states what is asked of the
  updates, and each instance of it (the versions stay, the number of owed replies does
  not grow, prepare timestamps only grow) is one relation for which the handlers need
  not be looked at again.
\<close>

definition keepsS :: "(server \<Rightarrow> server \<Rightarrow> bool) \<Rightarrow> 'a sv \<Rightarrow> bool" where
  "keepsS R m \<longleftrightarrow> (\<forall>s x s'. m s = Inr (x, s') \<longrightarrow> R s s')"

lemma keepsSD: "keepsS R m \<Longrightarrow> m s = Inr (x, s') \<Longrightarrow> R s s'"
  by (auto simp: keepsS_def)

lemma bindS_Inr: "bindS m f s = Inr (y, s') \<longleftrightarrow> (\<exists>x s1. m s = Inr (x, s1) \<and> f x s1 = Inr (y, s'))"
  by (auto simp: bindS_def bindE_Inr_iff)

lemma thenS_Inr: "thenS m n s = Inr (y, s') \<longleftrightarrow> (\<exists>s1. m s = Inr ((), s1) \<and> n s1 = Inr (y, s'))"
  by (auto simp: thenS_def bindS_Inr)

text \<open>
  The calls of the transaction store. Those that enter reads or writes of a transaction
  are only made for one of which \<open>own\<close> holds.
\<close>

inductive store_op :: "(txn_id \<Rightarrow> bool) \<Rightarrow> transaction_store \<Rightarrow> transaction_store \<Rightarrow> bool" for own where
  "StartGet t a k u tx = Inr tx' \<Longrightarrow> own t \<Longrightarrow> store_op own tx tx'"
| "StartCoordinatorPrepare t start c ps txn nb tx = Inr (st, tx') \<Longrightarrow> own t \<Longrightarrow> store_op own tx tx'"
| "StartParticipantPrepare t c txn nb tx = Inr (st, tx') \<Longrightarrow> own t \<Longrightarrow> store_op own tx tx'"
| "FinishGet t k tx = Inr tx' \<Longrightarrow> store_op own tx tx'"
| "AbortGet t k tx = Inr tx' \<Longrightarrow> store_op own tx tx'"
| "PauseGet t k tx = Inr tx' \<Longrightarrow> store_op own tx tx'"
| "ContinueGet t k tx = Inr (st, tx') \<Longrightarrow> store_op own tx tx'"
| "FinishCoordinatorPrepare t ts tx = Inr tx' \<Longrightarrow> store_op own tx tx'"
| "SetParticipantPrepareTimestamp t ts tx = Inr tx' \<Longrightarrow> store_op own tx tx'"
| "FinishParticipantPrepare t tx = Inr (st, tx') \<Longrightarrow> store_op own tx tx'"
| "AbortPrepare t tx = Inr tx' \<Longrightarrow> store_op own tx tx'"
| "PausePrepare now t tx = Inr tx' \<Longrightarrow> store_op own tx tx'"
| "ContinuePrepare now t tx = (st, tx') \<Longrightarrow> store_op own tx tx'"
| "CoordinatorReceivePrepareOK t p pts nts tx = Inr (st, tx') \<Longrightarrow> store_op own tx tx'"
| "ParticipantReceivePrepareOK t tx = Inr (st, tx') \<Longrightarrow> store_op own tx tx'"
| "Commit t tx = Inr (fr, tx') \<Longrightarrow> store_op own tx tx'"
| "Abort t tx = Inr (fr, tx') \<Longrightarrow> store_op own tx tx'"
| "StartRO r ks mts cts tx = Inr (st, tx') \<Longrightarrow> store_op own tx tx'"
| "ContinueRO r tx = Inr tx' \<Longrightarrow> store_op own tx tx'"
| "StartROSlowPath r tx = Inr tx' \<Longrightarrow> store_op own tx tx'"
| "FinishROSlowPath r tx = Inr tx' \<Longrightarrow> store_op own tx tx'"
| "CommitRO r tx = Inr tx' \<Longrightarrow> store_op own tx tx'"

locale server_frame =
  fixes R :: "server \<Rightarrow> server \<Rightarrow> bool" and env :: server_env and own :: "txn_id \<Rightarrow> bool"
  assumes R_refl: "R s s"
    and R_trans: "R s s' \<Longrightarrow> R s' s'' \<Longrightarrow> R s s''"
    and R_transactions: "store_op own (sv_transactions s) tx \<Longrightarrow> R s (s\<lparr>sv_transactions := tx\<rparr>)"
    and R_locks: "R s (s\<lparr>sv_locks := l\<rparr>)"
    and R_pending_get: "R s (s\<lparr>sv_pending_get := g\<rparr>)"
    and R_pending_ok: "R s (s\<lparr>sv_pending_ok := q\<rparr>)"
    and R_pending_ro: "R s (s\<lparr>sv_pending_ro := ro\<rparr>)"
    and R_erase_c: "R s (s\<lparr>sv_pending_c := um_erase t (sv_pending_c s)\<rparr>)"
    and R_erase_p: "R s (s\<lparr>sv_pending_p := um_erase t (sv_pending_p s)\<rparr>)"
    and R_tick: "R s (s\<lparr>sv_ticks := Suc (sv_ticks s)\<rparr>)"
    and R_send: "R s (s\<lparr>sv_trace := sv_trace s @ [SendMessage a m]\<rparr>)"
    and R_wound: "R s (s\<lparr>sv_trace := sv_trace s @ [ShardWound p t]\<rparr>)"
    and R_prepare_abort: "R s (s\<lparr>sv_trace := sv_trace s @ [ShardPrepareAbort p t p']\<rparr>)"
    and R_coordinator: "keepsS R (bindS (coordinator_prepared env t i) (coordinator_commit t txn))"
    and R_participant: "keepsS R (bindS (participant_prepared env t i) (\<lambda>pts.
      bindS (txn_get (\<lambda>s. GetNonBlockTimestamp s t)) (\<lambda>nb. emitS (ReplicaPrepare t txn pts c nb))))"
begin

lemma keep_return: "keepsS R (returnS x)"
  by (simp add: keepsS_def returnS_def R_refl)

lemma keep_fail: "keepsS R (failS e)"
  by (simp add: keepsS_def failS_def)

lemma keep_bind: "keepsS R m \<Longrightarrow> (\<And>x. keepsS R (f x)) \<Longrightarrow> keepsS R (bindS m f)"
  unfolding keepsS_def bindS_Inr by (blast intro: R_trans)

lemma keep_then: "keepsS R m \<Longrightarrow> keepsS R n \<Longrightarrow> keepsS R (thenS m n)"
  unfolding thenS_def by (rule keep_bind)

lemma keep_assert: "keepsS R m \<Longrightarrow> keepsS R (assertS b m)"
  by (simp add: assertS_def keep_fail)

lemma keep_if: "keepsS R m \<Longrightarrow> keepsS R n \<Longrightarrow> keepsS R (if b then m else n)"
  by simp

lemma keep_option: "keepsS R m \<Longrightarrow> (\<And>x. keepsS R (f x)) \<Longrightarrow> keepsS R (case r of None \<Rightarrow> m | Some x \<Rightarrow> f x)"
  by (cases r) auto

lemma keep_status: "keepsS R m1 \<Longrightarrow> keepsS R m2 \<Longrightarrow> keepsS R m3 \<Longrightarrow>
    keepsS R (case st of ACQUIRED \<Rightarrow> m1 | WAITING \<Rightarrow> m2 | LOCK_FAIL \<Rightarrow> m3)"
  by (cases st) auto

lemma keep_prod: "(\<And>x y. keepsS R (f x y)) \<Longrightarrow> keepsS R (case p of (x, y) \<Rightarrow> f x y)"
  by (cases p) auto

lemma keep_for: "(\<And>x. keepsS R (f x)) \<Longrightarrow> keepsS R (forS xs f)"
  by (induction xs) (auto intro: keep_return keep_then)

lemma keep_get: "keepsS R (getS f)"
  by (simp add: keepsS_def getS_def R_refl)

lemma keep_txn_step: "(\<And>tx tx'. f tx = Inr tx' \<Longrightarrow> store_op own tx tx') \<Longrightarrow> keepsS R (txn_step f)"
  by (auto simp: keepsS_def txn_step_def intro!: R_transactions)

lemma keep_txn_call: "(\<And>tx x tx'. f tx = Inr (x, tx') \<Longrightarrow> store_op own tx tx') \<Longrightarrow> keepsS R (txn_call f)"
  by (auto simp: keepsS_def txn_call_def intro!: R_transactions)

lemma keep_store_op:
  "own t \<Longrightarrow> keepsS R (txn_step (StartGet t a k u))"
  "own t \<Longrightarrow> keepsS R (txn_call (StartCoordinatorPrepare t start c ps txn nb))"
  "own t \<Longrightarrow> keepsS R (txn_call (StartParticipantPrepare t c txn nb))"
  "keepsS R (txn_step (FinishGet t k))" "keepsS R (txn_step (AbortGet t k))" "keepsS R (txn_step (PauseGet t k))"
  "keepsS R (txn_call (ContinueGet t k))" "keepsS R (txn_step (FinishCoordinatorPrepare t ts))"
  "keepsS R (txn_step (SetParticipantPrepareTimestamp t ts))" "keepsS R (txn_call (FinishParticipantPrepare t))"
  "keepsS R (txn_step (AbortPrepare t))" "keepsS R (txn_step (PausePrepare now t))"
  "keepsS R (txn_call (\<lambda>s. Inr (ContinuePrepare now t s)))"
  "keepsS R (txn_call (CoordinatorReceivePrepareOK t p pts nts))" "keepsS R (txn_call (ParticipantReceivePrepareOK t))"
  "keepsS R (txn_call (Commit t))" "keepsS R (txn_call (Abort t))" "keepsS R (txn_call (StartRO t keys mts ts))"
  "keepsS R (txn_step (ContinueRO t))" "keepsS R (txn_step (StartROSlowPath t))"
  "keepsS R (txn_step (FinishROSlowPath t))" "keepsS R (txn_step (CommitRO t))"
  by (auto intro!: keep_txn_step keep_txn_call intro: store_op.intros)

lemma keep_txn_get: "keepsS R (txn_get f)"
  by (auto simp: keepsS_def txn_get_def R_refl)

lemma keep_lock_call: "keepsS R (lock_call f)"
  by (auto simp: keepsS_def lock_call_def R_locks)

lemma keep_release: "keepsS R (release t txn)"
  by (simp add: release_def keep_lock_call)

lemma keep_now: "keepsS R (ttNow e)"
  by (simp add: keepsS_def ttNow_def R_tick)

lemma keep_send: "keepsS R (send q m)" "keepsS R (emitS (SendMessage a m))"
  by (simp_all add: keepsS_def send_def emitS_def modS_def R_send)

lemma keep_shard_client: "keepsS R (emitS e) \<Longrightarrow> keepsS R (shard_client p e)"
  by (simp add: keepsS_def shard_client_def)

lemma keep_emit_shard: "keepsS R (emitS (ShardWound p t))" "keepsS R (emitS (ShardPrepareAbort p t i))"
  by (simp_all add: keepsS_def emitS_def modS_def R_wound R_prepare_abort)

lemma keep_mod: "(\<And>s. R s (f s)) \<Longrightarrow> keepsS R (modS f)"
  by (simp add: keepsS_def modS_def)

lemma keep_erase: "keepsS R (erase_c t)" "keepsS R (erase_p t)" "keepsS R (erase_ok t)"
  by (simp_all add: erase_c_def erase_p_def erase_ok_def keep_mod R_erase_c R_erase_p R_pending_ok)

lemmas keep_rules = keep_return keep_fail keep_bind keep_then keep_assert keep_if keep_option keep_status keep_prod
  keep_for keep_get keep_store_op keep_txn_get keep_lock_call keep_release keep_now keep_send
  keep_shard_client keep_emit_shard keep_erase keep_mod R_pending_get R_pending_ok R_pending_ro R_coordinator R_participant

lemma keep_store_get: "keepsS R (store_get k)" "keepsS R (store_get_at k t)"
  unfolding store_get_def store_get_at_def by (intro keep_rules)+

lemma keep_get_reply: "keepsS R (get_reply_ok q k v)" "keepsS R (get_reply_fail q k)"
  unfolding get_reply_ok_def get_reply_fail_def by (intro keep_rules)+

lemma keep_ContinueGet: "keepsS R (Server_ContinueGet t)"
  unfolding Server_ContinueGet_def by (intro keep_rules keep_store_get keep_get_reply)

lemma keep_WoundPendingRWs: "keepsS R (WoundPendingRWs t rws)"
  unfolding WoundPendingRWs_def wound_pending_rw_def by (intro keep_rules)

lemma keep_SendROSlowPath: "keepsS R (SendROSlowPath ro rw b ts)"
  unfolding SendROSlowPath_def by (intro keep_rules)

lemma keep_NotifySlowPathROs: "keepsS R (NotifySlowPathROs ros rw b ts)"
  unfolding NotifySlowPathROs_def by (intro keep_rules keep_SendROSlowPath)

lemma keep_read_all: "keepsS R (read_all ks t)"
  by (induction ks) (auto intro!: keep_rules keep_store_get)

lemma keep_ro_reply: "keepsS R m \<Longrightarrow> keepsS R (ro_reply t q vs m)"
  unfolding ro_reply_def by (intro keep_rules)

lemma keep_ContinueROCommit: "keepsS R (ContinueROCommit t)"
  unfolding ContinueROCommit_def by (intro keep_rules keep_read_all keep_ro_reply)

lemma keep_NotifyPendingROs: "keepsS R (NotifyPendingROs ros)"
  unfolding NotifyPendingROs_def by (intro keep_rules keep_ContinueROCommit)

lemma keep_pause: "keepsS R (pause e t w)"
  unfolding pause_def by (intro keep_rules keep_WoundPendingRWs)

lemma keep_replies: "keepsS R (coordinator_reply_fail q)" "keepsS R (participant_reply_fail q)"
    "keepsS R (SendPrepareOKRepliesFail qs)" "keepsS R (fail_ok_replies t)" "keepsS R (reply_participant t st)"
    "keepsS R (SendRWCommmitCoordinatorReplyOK t cts nts)" "keepsS R (SendPrepareOKRepliesOK t cts)"
  unfolding coordinator_reply_fail_def participant_reply_fail_def SendPrepareOKRepliesFail_def fail_ok_replies_def
    reply_participant_def SendRWCommmitCoordinatorReplyOK_def SendPrepareOKRepliesOK_def
  by (intro keep_rules)+

lemma keep_ContinueCoordinatorPrepare:
  assumes "\<And>t rws. keepsS R (notify t rws)"
  shows "keepsS R (ContinueCoordinatorPrepare env notify t)"
  unfolding ContinueCoordinatorPrepare_def continue_coordinator_def by (intro keep_rules keep_replies keep_pause assms)

lemma keep_ContinueParticipantPrepare:
  assumes "\<And>t rws. keepsS R (notify t rws)"
  shows "keepsS R (ContinueParticipantPrepare env notify t)"
  unfolding ContinueParticipantPrepare_def continue_participant_def by (intro keep_rules keep_replies keep_pause assms)

lemma keep_notify_round:
  assumes "\<And>t rws. keepsS R (notify t rws)"
  shows "keepsS R (notify_round env notify t rws)"
  unfolding notify_round_def
  by (intro keep_rules keep_ContinueGet keep_ContinueCoordinatorPrepare keep_ContinueParticipantPrepare assms)

lemma keep_NotifyPendingRWs: "keepsS R (NotifyPendingRWs n env t rws)"
  by (induction n arbitrary: t rws) (auto intro: keep_fail keep_notify_round)

lemma keep_notify_rws: "keepsS R (notify_rws env t rws)"
  unfolding notify_rws_def by (intro keep_rules keep_NotifyPendingRWs)

lemma keep_notify_all: "keepsS R (notify_all env t b ts rws fr)"
  unfolding notify_all_def by (intro keep_rules keep_notify_rws keep_NotifyPendingROs keep_NotifySlowPathROs)

lemma keep_release_and_abort: "keepsS R (release_and_abort t)"
  unfolding release_and_abort_def by (intro keep_rules)

end

text \<open>Executing this operation makes a replica prepare the transaction of a coordinator.\<close>

definition prepares_now :: "replica_request \<Rightarrow> server \<Rightarrow> bool" where
  "prepares_now r s \<longleftrightarrow> rr_prepare r \<noteq> None \<and> GetRWTransactionState (sv_transactions s) (rr_txnid r) \<noteq> COMMITTING"

text \<open>The transaction that a message enters reads or writes of.\<close>

fun enters :: "shard_request \<Rightarrow> txn_id option" where
  "enters (Msg_Get rid t k ts fu) = Some t"
| "enters (Msg_RWCommitCoordinator rid t txn nb ps) = Some t"
| "enters (Msg_RWCommitParticipant rid t txn c nb) = Some t"
| "enters _ = None"

text \<open>
  The same for the handlers. \<open>okro\<close> and \<open>okts\<close> restrict the timestamps of read-only
  requests and of commits.
\<close>

locale server_handlers = server_frame +
  fixes okro okts :: "timestamp \<Rightarrow> bool"
  assumes R_put_c: "R s (s\<lparr>sv_pending_c := um_put t q (sv_pending_c s)\<rparr>)"
    and R_put_p: "R s (s\<lparr>sv_pending_p := um_put t q (sv_pending_p s)\<rparr>)"
    and R_quiet: "R s (s\<lparr>sv_trace := sv_trace s @ [ShardPrepareOK c t p' pts nts]\<rparr>)"
      "R s (s\<lparr>sv_trace := sv_trace s @ [ShardAbort c t]\<rparr>)" "R s (s\<lparr>sv_trace := sv_trace s @ [ReplicaCommit t cts]\<rparr>)"
      "R s (s\<lparr>sv_trace := sv_trace s @ [ReplicaAbort t]\<rparr>)"
      "R s (s\<lparr>sv_trace := sv_trace s @ [TimerCoordinatorCommit w t cts]\<rparr>)"
    and R_coordinator_now: "keepsS R (bindS (coordinator_prepared env t i) (\<lambda>cts. thenS (put_c t q)
      (emitS (ReplicaCoordinatorCommit t start me ps txn nb cts))))"
    and R_participant_now: "keepsS R (bindS (participant_prepared env t i) (\<lambda>pts. thenS (put_p t q)
      (emitS (ReplicaPrepare t txn pts c nb))))"
    and R_read: "okro ts \<Longrightarrow> R s (s\<lparr>sv_min_prepare := max (sv_min_prepare s) ts\<rparr>)"
    and R_write: "okts ts \<Longrightarrow> R s (s\<lparr>sv_min_prepare := max (sv_min_prepare s) ts\<rparr>)"
    and R_store: "okts ts \<Longrightarrow> R s (s\<lparr>sv_store := vs_put tid_lt k v (TimestampID ts t) (sv_store s)\<rparr>)"
begin

lemma keep_puts: "keepsS R (put_c t q)" "keepsS R (put_p t q)"
  by (simp_all add: put_c_def put_p_def keep_mod R_put_c R_put_p)

lemma keep_quiet: "keepsS R (emitS (ShardPrepareOK c t p pts nts))" "keepsS R (emitS (ShardAbort c t))"
    "keepsS R (emitS (ReplicaCommit t cts))" "keepsS R (emitS (ReplicaAbort t))"
    "keepsS R (emitS (TimerCoordinatorCommit w t cts))"
  by (simp_all add: keepsS_def emitS_def modS_def R_quiet)

lemmas handler_rules = keep_rules keep_puts keep_quiet keep_store_get keep_get_reply keep_ContinueGet
  keep_WoundPendingRWs keep_ro_reply keep_read_all keep_pause keep_replies keep_notify_rws keep_notify_all
  keep_release_and_abort R_coordinator_now R_participant_now

lemma keep_SendAbortParticipants: "keepsS R (SendAbortParticipants t ps)"
  unfolding SendAbortParticipants_def by (intro handler_rules)

lemma keep_HandleGet: "own t \<Longrightarrow> keepsS R (HandleGet env a rid t k ts fu)"
  unfolding HandleGet_def Let_def by (intro handler_rules)

lemma keep_HandleROCommit: "okro cts \<Longrightarrow> keepsS R (HandleROCommit a rid t cts mts ks)"
  unfolding HandleROCommit_def Let_def by (intro handler_rules R_read)

lemma keep_HandleRWCommitCoordinator: "own t \<Longrightarrow> keepsS R (HandleRWCommitCoordinator env a rid t txn nb ps)"
  unfolding HandleRWCommitCoordinator_def Let_def by (intro handler_rules keep_SendAbortParticipants)

lemma keep_HandleRWCommitParticipant: "own t \<Longrightarrow> keepsS R (HandleRWCommitParticipant env a rid t txn c nb)"
  unfolding HandleRWCommitParticipant_def Let_def by (intro handler_rules)

lemma keep_PrepareCallback: "keepsS R (PrepareCallback t)"
  unfolding PrepareCallback_def SendRWCommmitParticipantReplyOK_def SendRWCommmitParticipantReplyFail_def
  by (intro handler_rules)

lemma keep_PrepareOKCallback: "keepsS R (PrepareOKCallback env t st cts)"
  unfolding PrepareOKCallback_def by (intro handler_rules)

lemma keep_Server_HandlePrepareOK: "keepsS R (Server_HandlePrepareOK env a rid t p pts nts)"
  unfolding Server_HandlePrepareOK_def Let_def by (intro handler_rules keep_SendAbortParticipants)

lemma keep_HandlePrepareAbort: "keepsS R (HandlePrepareAbort env a rid t)"
  unfolding HandlePrepareAbort_def Let_def by (intro handler_rules keep_SendAbortParticipants)

lemma keep_HandleWound: "keepsS R (Server_HandleWound env t)"
  unfolding Server_HandleWound_def by (intro handler_rules keep_SendAbortParticipants)

lemma keep_HandleAbort: "keepsS R (HandleAbort env a rid t)"
  unfolding HandleAbort_def Let_def by (intro handler_rules)

lemma keep_install_writes: "okts cts \<Longrightarrow> keepsS R (install_writes t cts txn)"
  unfolding install_writes_def store_put_def by (intro handler_rules R_store R_write)

lemma keep_CoordinatorCommitTransaction: "okts cts \<Longrightarrow> keepsS R (CoordinatorCommitTransaction env t cts)"
  unfolding CoordinatorCommitTransaction_def by (intro handler_rules keep_install_writes)

lemma keep_ParticipantCommitTransaction: "okts cts \<Longrightarrow> keepsS R (ParticipantCommitTransaction env t cts)"
  unfolding ParticipantCommitTransaction_def by (intro handler_rules keep_install_writes)

lemma keep_Load: "okts ts \<Longrightarrow> keepsS R (Server_Load k v ts)"
  unfolding Server_Load_def by (intro handler_rules R_store)

lemma keep_receive_prepare_oks: "keepsS R (receive_prepare_oks t c cts nts ps st)"
  by (induction ps arbitrary: st) (auto intro!: handler_rules)

lemma keep_replica_prepare: "own (rr_txnid r) \<Longrightarrow> keepsS R (replica_prepare r)"
  unfolding replica_prepare_def Let_def by (intro handler_rules)

lemma keep_replica_coordinator_prepare: "own (rr_txnid r) \<Longrightarrow> keepsS R (replica_coordinator_prepare r p)"
  unfolding replica_coordinator_prepare_def Let_def by (intro handler_rules keep_receive_prepare_oks)

lemma keep_timer: "keepsS R (\<lambda>s. emitS (TimerCoordinatorCommit (w s) t cts) (s\<lparr>sv_ticks := Suc (sv_ticks s)\<rparr>))"
proof -
  have "R s (s\<lparr>sv_ticks := Suc (sv_ticks s), sv_trace := sv_trace s @ [TimerCoordinatorCommit (w s) t cts]\<rparr>)" for s
    using R_trans [OF R_tick R_quiet(5), of s "w s" t cts] by simp
  then show ?thesis by (simp add: keepsS_def emitS_def modS_def)
qed

text \<open>The commit of a transaction that the replica has committing already, as the leader has, prepares nothing.\<close>

lemma keep_replica_commit:
  assumes "replica_commit env r s = Inr ((), s')" and "okts (get_commit r)"
    and "prepares_now r s \<Longrightarrow> own (rr_txnid r)"
  shows "R s s'"
proof (cases "own (rr_txnid r)")
  case True
  with assms(2) have "keepsS R (replica_commit env r)"
    unfolding replica_commit_def Let_def
    by (intro handler_rules keep_replica_coordinator_prepare keep_ParticipantCommitTransaction keep_timer)
  from keepsSD [OF this assms(1)] show ?thesis .
next
  case False
  then have none: "\<not> prepares_now r s" using assms(3) by auto
  show ?thesis
  proof (cases "rr_prepare r")
    case None
    with assms(2) have "keepsS R (replica_commit env r)"
      by (auto simp: replica_commit_def Let_def intro!: handler_rules keep_ParticipantCommitTransaction)
    from keepsSD [OF this assms(1)] show ?thesis .
  next
    case (Some p)
    with none assms(1) have "emitS (TimerCoordinatorCommit (TimeToWaitUntilMicros (se_error env) (se_clock env (sv_ticks s))
        (getTimestamp (get_commit r))) (rr_txnid r) (get_commit r)) (s\<lparr>sv_ticks := Suc (sv_ticks s)\<rparr>) = Inr ((), s')"
      by (simp add: replica_commit_def prepares_now_def Let_def thenS_def bindS_def getS_def returnS_def)
    then show ?thesis
      using keepsSD [OF keep_timer [of "\<lambda>s. TimeToWaitUntilMicros (se_error env) (se_clock env (sv_ticks s))
        (getTimestamp (get_commit r))" "rr_txnid r" "get_commit r"], of s "()" s'] by simp
  qed
qed

lemma keep_replica_abort: "keepsS R (replica_abort env r)"
  unfolding replica_abort_def Let_def by (intro handler_rules)

lemma keep_ReplicaUpcall:
  assumes "ReplicaUpcall env r s = Inr (x, s')" and "rr_op r = OP_COMMIT \<Longrightarrow> okts (get_commit r)"
    and "rr_op r = OP_PREPARE \<or> rr_op r = OP_COMMIT \<and> prepares_now r s \<Longrightarrow> own (rr_txnid r)"
  shows "R s s'"
proof (cases "rr_op r")
  case OP_PREPARE
  with assms keepsSD [OF keep_replica_prepare] show ?thesis by (auto simp: ReplicaUpcall_def)
next
  case OP_COMMIT
  with assms show ?thesis by (auto simp: ReplicaUpcall_def thenS_Inr returnS_def intro: keep_replica_commit)
next
  case OP_ABORT
  with assms(1) keepsSD [OF keep_replica_abort] show ?thesis by (auto simp: ReplicaUpcall_def thenS_Inr returnS_def)
qed

lemma keep_ReceiveMessage:
  assumes "\<And>rid t cts mts ks. m = Msg_ROCommit rid t cts mts ks \<Longrightarrow> okro cts" and "\<And>t. enters m = Some t \<Longrightarrow> own t"
  shows "keepsS R (Server_ReceiveMessage env a m)"
  unfolding Server_ReceiveMessage_def using assms
  by (cases m) (simp_all add: keep_HandleGet keep_HandleROCommit keep_HandleRWCommitCoordinator
      keep_HandleRWCommitParticipant keep_Server_HandlePrepareOK keep_HandlePrepareAbort keep_HandleWound keep_HandleAbort)

end

section \<open>The steps of a server\<close>

inductive server_step_of :: "server_env \<Rightarrow> (txn_id \<Rightarrow> bool) \<Rightarrow> (timestamp \<Rightarrow> bool) \<Rightarrow> (timestamp \<Rightarrow> bool) \<Rightarrow>
    server \<Rightarrow> server \<Rightarrow> bool"
  for env :: server_env and own :: "txn_id \<Rightarrow> bool" and okro okts :: "timestamp \<Rightarrow> bool" where
  message: "Server_ReceiveMessage env a m s = Inr ((), s') \<Longrightarrow>
    (\<And>rid t cts mts ks. m = Msg_ROCommit rid t cts mts ks \<Longrightarrow> okro cts) \<Longrightarrow> (\<And>t. enters m = Some t \<Longrightarrow> own t) \<Longrightarrow>
    server_step_of env own okro okts s s'"
| prepare_callback: "PrepareCallback t s = Inr ((), s') \<Longrightarrow> server_step_of env own okro okts s s'"
| prepare_ok_callback: "PrepareOKCallback env t st cts s = Inr ((), s') \<Longrightarrow> server_step_of env own okro okts s s'"
| upcall: "ReplicaUpcall env r s = Inr (x, s') \<Longrightarrow> (rr_op r = OP_COMMIT \<Longrightarrow> okts (get_commit r)) \<Longrightarrow>
    (rr_op r = OP_PREPARE \<or> rr_op r = OP_COMMIT \<and> prepares_now r s \<Longrightarrow> own (rr_txnid r)) \<Longrightarrow>
    server_step_of env own okro okts s s'"
| commit_timer: "CoordinatorCommitTransaction env t cts s = Inr ((), s') \<Longrightarrow> okts cts \<Longrightarrow>
    server_step_of env own okro okts s s'"
| load: "Server_Load k v ts s = Inr ((), s') \<Longrightarrow> okts ts \<Longrightarrow> server_step_of env own okro okts s s'"

text \<open>Any step.\<close>

abbreviation server_step :: "server_env \<Rightarrow> (timestamp \<Rightarrow> bool) \<Rightarrow> (timestamp \<Rightarrow> bool) \<Rightarrow> server \<Rightarrow> server \<Rightarrow> bool" where
  "server_step env \<equiv> server_step_of env (\<lambda>_. True)"

context server_handlers
begin

lemma step_kept: "server_step_of env own okro okts s s' \<Longrightarrow> R s s'"
proof (induction rule: server_step_of.induct)
  case (message a m s s')
  then show ?case using keepsSD [OF keep_ReceiveMessage] by blast
next
  case (prepare_callback t s s')
  then show ?case by (rule keepsSD [OF keep_PrepareCallback])
next
  case (prepare_ok_callback t st cts s s')
  then show ?case by (rule keepsSD [OF keep_PrepareOKCallback])
next
  case (upcall r s x s')
  then show ?case by (rule keep_ReplicaUpcall)
next
  case (commit_timer t cts s s')
  from keepsSD [OF keep_CoordinatorCommitTransaction [OF commit_timer(2)] commit_timer(1)] show ?case .
next
  case (load k v ts s s')
  from keepsSD [OF keep_Load [OF load(2)] load(1)] show ?case .
qed

lemma steps_kept: "(server_step_of env own okro okts)\<^sup>*\<^sup>* s s' \<Longrightarrow> R s s'"
  by (induction rule: rtranclp_induct) (blast intro: R_refl R_trans step_kept)+

end

end
