(* ===== verification/ServerSafety.thy ===== *)
theory ServerSafety
  imports ServerFrame
begin

text \<open>
  What the shard server of \<open>src/store/strongstore/server.cc\<close> guarantees over any sequence of
  messages, callbacks, upcalls and timers: reads of the past are stable, no transaction
  prepares behind a snapshot that was served, and notifying waiting transactions returns.
\<close>

section \<open>Prepare timestamps\<close>

definition next_prepare :: "server_env \<Rightarrow> u64 \<Rightarrow> server \<Rightarrow> timestamp" where
  "next_prepare env i s = Timestamp (max (earliest (tt_Now (se_error env) (se_clock env (sv_ticks s))))
     (getTimestamp (sv_min_prepare s) + 1)) i"

text \<open>What preparing changes, whatever the transaction store does.\<close>

definition prepared_at :: "timestamp \<Rightarrow> transaction_store \<Rightarrow> server \<Rightarrow> server" where
  "prepared_at pts tx s = s\<lparr>sv_ticks := Suc (sv_ticks s), sv_min_prepare := pts, sv_transactions := tx\<rparr>"

lemma coordinator_prepared_Inr:
  assumes "coordinator_prepared env t i s = Inr (cts, s')"
  shows "\<exists>tx. s' = prepared_at (next_prepare env i s) tx s \<and> next_prepare env i s \<le> cts"
  using assms
  by (auto simp: coordinator_prepared_def bindS_Inr thenS_Inr Server_GetPrepareTimestamp_def ttNow_def getS_def modS_def
      returnS_def txn_step_def txn_get_def FinishCoordinatorPrepare_def GetRWCommitTimestamp_def
      PendingRW_FinishCoordinatorPrepare_def prepared_at_def next_prepare_def rw_ref_def set_rw_def Let_def)

lemma participant_prepared_Inr:
  assumes "participant_prepared env t i s = Inr (pts, s')"
  shows "\<exists>tx. s' = prepared_at (next_prepare env i s) tx s \<and> pts = next_prepare env i s"
  using assms
  by (auto simp: participant_prepared_def bindS_Inr thenS_Inr Server_GetPrepareTimestamp_def ttNow_def getS_def modS_def
      returnS_def txn_step_def prepared_at_def next_prepare_def Let_def)

lemma coordinator_commit_Inr:
  assumes "coordinator_commit t txn cts s = Inr (x, s')"
  shows "\<exists>start me ps nb. s' = s\<lparr>sv_trace := sv_trace s @ [ReplicaCoordinatorCommit t start me ps txn nb cts]\<rparr>"
  using assms by (auto simp: coordinator_commit_def bindS_Inr txn_get_def getS_def emitS_def modS_def)

text \<open>The four places where a shard sends a prepare or commit timestamp to its replicas.\<close>

lemma prepare_sites:
  assumes "\<And>s pts tx e. (\<exists>t start me ps txn nb cts. e = ReplicaCoordinatorCommit t start me ps txn nb cts \<and> pts \<le> cts) \<or>
      (\<exists>t txn c nb. e = ReplicaPrepare t txn pts c nb) \<Longrightarrow> (\<exists>i. pts = next_prepare env i s) \<Longrightarrow>
      R s (prepared_at pts tx s\<lparr>sv_trace := sv_trace s @ [e]\<rparr>)"
  shows prepare_sites_coordinator: "keepsS R (bindS (coordinator_prepared env t i) (coordinator_commit t txn))"
    and prepare_sites_participant: "keepsS R (bindS (participant_prepared env t i) (\<lambda>pts.
      bindS (txn_get (\<lambda>s. GetNonBlockTimestamp s t)) (\<lambda>nb. emitS (ReplicaPrepare t txn pts c nb))))"
proof -
  show "keepsS R (bindS (coordinator_prepared env t i) (coordinator_commit t txn))"
  proof (unfold keepsS_def, intro allI impI)
    fix s x s' assume "bindS (coordinator_prepared env t i) (coordinator_commit t txn) s = Inr (x, s')"
    then obtain cts s1 where 1: "coordinator_prepared env t i s = Inr (cts, s1)" and 2: "coordinator_commit t txn cts s1 = Inr (x, s')"
      by (auto simp: bindS_Inr)
    from coordinator_prepared_Inr [OF 1] obtain tx where s1: "s1 = prepared_at (next_prepare env i s) tx s"
      and le: "next_prepare env i s \<le> cts" by auto
    from coordinator_commit_Inr [OF 2] obtain start me ps nb where
      "s' = prepared_at (next_prepare env i s) tx s\<lparr>sv_trace := sv_trace s @ [ReplicaCoordinatorCommit t start me ps txn nb cts]\<rparr>"
      by (auto simp: s1 prepared_at_def)
    with le show "R s s'" by (auto intro!: assms)
  qed
  show "keepsS R (bindS (participant_prepared env t i) (\<lambda>pts.
      bindS (txn_get (\<lambda>s. GetNonBlockTimestamp s t)) (\<lambda>nb. emitS (ReplicaPrepare t txn pts c nb))))"
  proof (unfold keepsS_def, intro allI impI)
    fix s x s' assume "bindS (participant_prepared env t i) (\<lambda>pts.
      bindS (txn_get (\<lambda>s. GetNonBlockTimestamp s t)) (\<lambda>nb. emitS (ReplicaPrepare t txn pts c nb))) s = Inr (x, s')"
    then obtain tx nb where "s' = prepared_at (next_prepare env i s) tx s\<lparr>sv_trace := sv_trace s @
        [ReplicaPrepare t txn (next_prepare env i s) c nb]\<rparr>"
      by (auto simp: bindS_Inr txn_get_def emitS_def modS_def prepared_at_def dest!: participant_prepared_Inr)
    then show "R s s'" by (auto intro!: assms)
  qed
qed

lemma prepare_sites_now:
  assumes "\<And>s pts tx e c p. (\<exists>t start me ps txn nb cts. e = ReplicaCoordinatorCommit t start me ps txn nb cts \<and> pts \<le> cts) \<or>
      (\<exists>t txn c nb. e = ReplicaPrepare t txn pts c nb) \<Longrightarrow> (\<exists>i. pts = next_prepare env i s) \<Longrightarrow>
      R s (prepared_at pts tx s\<lparr>sv_pending_c := c, sv_pending_p := p, sv_trace := sv_trace s @ [e]\<rparr>)"
  shows prepare_sites_coordinator_now: "keepsS R (bindS (coordinator_prepared env t i) (\<lambda>cts. thenS (put_c t q)
      (emitS (ReplicaCoordinatorCommit t start me ps txn nb cts))))"
    and prepare_sites_participant_now: "keepsS R (bindS (participant_prepared env t i) (\<lambda>pts. thenS (put_p t q)
      (emitS (ReplicaPrepare t txn pts c nb))))"
proof -
  show "keepsS R (bindS (coordinator_prepared env t i) (\<lambda>cts. thenS (put_c t q)
      (emitS (ReplicaCoordinatorCommit t start me ps txn nb cts))))"
  proof (unfold keepsS_def, intro allI impI)
    fix s x s' assume "bindS (coordinator_prepared env t i) (\<lambda>cts. thenS (put_c t q)
      (emitS (ReplicaCoordinatorCommit t start me ps txn nb cts))) s = Inr (x, s')"
    then obtain cts tx where le: "next_prepare env i s \<le> cts" and
      "s' = prepared_at (next_prepare env i s) tx s\<lparr>sv_pending_c := um_put t q (sv_pending_c s),
        sv_pending_p := sv_pending_p s, sv_trace := sv_trace s @ [ReplicaCoordinatorCommit t start me ps txn nb cts]\<rparr>"
      by (auto simp: bindS_Inr thenS_Inr put_c_def emitS_def modS_def prepared_at_def dest!: coordinator_prepared_Inr)
    then show "R s s'" by (auto intro!: assms)
  qed
  show "keepsS R (bindS (participant_prepared env t i) (\<lambda>pts. thenS (put_p t q) (emitS (ReplicaPrepare t txn pts c nb))))"
  proof (unfold keepsS_def, intro allI impI)
    fix s x s' assume "bindS (participant_prepared env t i) (\<lambda>pts. thenS (put_p t q)
      (emitS (ReplicaPrepare t txn pts c nb))) s = Inr (x, s')"
    then obtain tx where
      "s' = prepared_at (next_prepare env i s) tx s\<lparr>sv_pending_c := sv_pending_c s,
        sv_pending_p := um_put t q (sv_pending_p s), sv_trace := sv_trace s @ [ReplicaPrepare t txn (next_prepare env i s) c nb]\<rparr>"
      by (auto simp: bindS_Inr thenS_Inr put_p_def emitS_def modS_def prepared_at_def dest!: participant_prepared_Inr)
    then show "R s s'" by (auto intro!: assms)
  qed
qed

section \<open>Reads of the past\<close>

definition reads_kept :: "timestamp \<Rightarrow> server \<Rightarrow> server \<Rightarrow> bool" where
  "reads_kept T s s' \<longleftrightarrow> (vs_inv tid_lt (sv_store s) \<longrightarrow> vs_inv tid_lt (sv_store s') \<and>
     (\<forall>k t i. t \<le> T \<longrightarrow> vs_get tid_lt (sv_store s') k (TimestampID t i) = vs_get tid_lt (sv_store s) k (TimestampID t i)))"

lemma reads_kept_store [simp]: "sv_store s' = sv_store s \<Longrightarrow> reads_kept T s s'"
  by (simp add: reads_kept_def)

interpretation reads: server_handlers "reads_kept T" env "\<lambda>_. True" "\<lambda>_. True" "\<lambda>ts. T < ts" for T env
proof (unfold_locales, goal_cases)
  case (2 s s' s'')
  then show ?case by (simp add: reads_kept_def)
next
  case (14 t i txn)
  show ?case by (rule prepare_sites_coordinator) (simp add: prepared_at_def)
next
  case (15 t i txn c)
  show ?case by (rule prepare_sites_participant) (simp add: prepared_at_def)
next
  case (23 t i q start me ps txn nb)
  show ?case by (rule prepare_sites_coordinator_now) (simp add: prepared_at_def)
next
  case (24 t i q txn c nb)
  show ?case by (rule prepare_sites_participant_now) (simp add: prepared_at_def)
next
  case (27 ts s k v t)
  then show ?case
    by (auto simp: reads_kept_def tid_lt_def intro: vs.inv_put intro!: vs.get_put_before)
qed simp_all

section \<open>No prepare behind a snapshot\<close>

text \<open>
  The timestamp at which a shard has its replicas prepare a transaction: a participant's
  prepare timestamp, and the commit timestamp of a coordinator, which prepares and commits
  in one operation. The later commit of a participant (\<open>ReplicaCommit\<close>) prepares nothing.
\<close>

fun prepare_stamp :: "server_event \<Rightarrow> timestamp option" where
  "prepare_stamp (ReplicaPrepare t txn prepare_ts c nb) = Some prepare_ts"
| "prepare_stamp (ReplicaCoordinatorCommit t start me ps txn nb commit_ts) = Some commit_ts"
| "prepare_stamp e = None"

definition clock_below :: "nat \<Rightarrow> server_env \<Rightarrow> bool" where
  "clock_below M env \<longleftrightarrow> (\<forall>n. unat (earliest (tt_Now (se_error env) (se_clock env n))) \<le> M)"

definition ts_below :: "nat \<Rightarrow> timestamp \<Rightarrow> bool" where
  "ts_below M ts \<longleftrightarrow> unat (getTimestamp ts) \<le> M"

text \<open>Every prepare reads the clock, so the counter of readings bounds how far the bound can run ahead of \<open>M\<close>.\<close>

definition calm :: "nat \<Rightarrow> server \<Rightarrow> bool" where
  "calm M s \<longleftrightarrow> unat (getTimestamp (sv_min_prepare s)) \<le> M + sv_ticks s"

definition snap_kept :: "nat \<Rightarrow> server_env \<Rightarrow> server \<Rightarrow> server \<Rightarrow> bool" where
  "snap_kept M env s s' \<longleftrightarrow> sv_ticks s \<le> sv_ticks s' \<and>
     (clock_below M env \<longrightarrow> calm M s \<longrightarrow> M + sv_ticks s' < 2 ^ 64 - 1 \<longrightarrow>
        calm M s' \<and> sv_min_prepare s \<le> sv_min_prepare s' \<and>
        (\<exists>es. sv_trace s' = sv_trace s @ es \<and> (\<forall>e \<in> set es. \<forall>ts. prepare_stamp e = Some ts \<longrightarrow> sv_min_prepare s < ts)))"

lemma next_prepare_above:
  assumes "clock_below M env" and "calm M s" and "M + Suc (sv_ticks s) < 2 ^ 64 - 1"
  shows "sv_min_prepare s < next_prepare env i s"
    and "unat (getTimestamp (next_prepare env i s)) \<le> M + Suc (sv_ticks s)"
proof -
  let ?m = "getTimestamp (sv_min_prepare s)"
  have m: "unat ?m \<le> M + sv_ticks s" using assms(2) by (simp add: calm_def)
  with assms(3) have suc: "unat (?m + 1) = Suc (unat ?m)" by (simp add: unat_word_ariths)
  then have "?m < ?m + 1" by (simp add: word_less_nat_alt)
  then show "sv_min_prepare s < next_prepare env i s"
    by (auto simp: next_prepare_def less_timestamp_def ts_lt_def max_def)
  show "unat (getTimestamp (next_prepare env i s)) \<le> M + Suc (sv_ticks s)"
    using assms(1) suc m by (auto simp: next_prepare_def max_def clock_below_def intro: le_trans)
qed

lemma snap_kept_quiet:
  "sv_ticks s \<le> sv_ticks s' \<Longrightarrow> sv_min_prepare s' = sv_min_prepare s \<Longrightarrow> sv_trace s' = sv_trace s @ es \<Longrightarrow>
    \<forall>e \<in> set es. prepare_stamp e = None \<Longrightarrow> snap_kept M env s s'"
  by (auto simp: snap_kept_def calm_def)

lemma snap_kept_emit: "prepare_stamp e = None \<Longrightarrow> snap_kept M env s (s\<lparr>sv_trace := sv_trace s @ [e]\<rparr>)"
  by (rule snap_kept_quiet [where es = "[e]"]) auto

lemma snap_kept_min: "ts_below M ts \<Longrightarrow> snap_kept M env s (s\<lparr>sv_min_prepare := max (sv_min_prepare s) ts\<rparr>)"
  by (auto simp: snap_kept_def calm_def ts_below_def max_def)

lemma snap_kept_trans: "snap_kept M env s s' \<Longrightarrow> snap_kept M env s' s'' \<Longrightarrow> snap_kept M env s s''"
  unfolding snap_kept_def by (fastforce intro: order_trans le_less_trans)

lemma snap_kept_prepare:
  assumes "sv_ticks s' = Suc (sv_ticks s)" and "sv_min_prepare s' = next_prepare env i s"
    and "sv_trace s' = sv_trace s @ [e]" and "\<And>ts. prepare_stamp e = Some ts \<Longrightarrow> next_prepare env i s \<le> ts"
  shows "snap_kept M env s s'"
  unfolding snap_kept_def
proof (intro conjI impI)
  assume a: "clock_below M env" "calm M s" "M + sv_ticks s' < 2 ^ 64 - 1"
  then have n: "sv_min_prepare s < next_prepare env i s" "unat (getTimestamp (next_prepare env i s)) \<le> M + Suc (sv_ticks s)"
    using next_prepare_above [of M env s i] assms(1) by simp_all
  then show "calm M s'" using assms(1,2) by (simp add: calm_def)
  show "sv_min_prepare s \<le> sv_min_prepare s'" using n(1) assms(2) by simp
  show "\<exists>es. sv_trace s' = sv_trace s @ es \<and> (\<forall>e \<in> set es. \<forall>ts. prepare_stamp e = Some ts \<longrightarrow> sv_min_prepare s < ts)"
    using assms(3,4) n(1) by (intro exI [of _ "[e]"]) (auto intro: less_le_trans)
qed (simp add: assms(1))

interpretation snaps: server_handlers "snap_kept M env" env "\<lambda>_. True" "ts_below M" "ts_below M" for M env
proof (unfold_locales, goal_cases)
  case (2 s s' s'')
  then show ?case by (rule snap_kept_trans)
next
  case (14 t i txn)
  show ?case
    by (rule prepare_sites_coordinator) (auto simp: prepared_at_def intro!: snap_kept_prepare)
next
  case (15 t i txn c)
  show ?case
    by (rule prepare_sites_participant) (auto simp: prepared_at_def intro!: snap_kept_prepare)
next
  case (23 t i q start me ps txn nb)
  show ?case by (rule prepare_sites_coordinator_now) (auto simp: prepared_at_def intro!: snap_kept_prepare)
next
  case (24 t i q txn c nb)
  show ?case by (rule prepare_sites_participant_now) (auto simp: prepared_at_def intro!: snap_kept_prepare)
next
  case (25 ts s)
  then show ?case by (rule snap_kept_min)
qed (auto intro: snap_kept_emit snap_kept_quiet)

lemma snapshot_bound:
  assumes "HandleROCommit a rid t cts mts ks s0 = Inr ((), s1)" and "clock_below M env" and "calm M s0"
    and "ts_below M cts" and "M + sv_ticks s1 < 2 ^ 64 - 1"
  shows "calm M s1 \<and> cts \<le> sv_min_prepare s1"
proof -
  let ?s = "s0\<lparr>sv_min_prepare := max (sv_min_prepare s0) cts\<rparr>"
  let ?q = "pending_of rid a" and ?ks = "us_add_all ks []"
  let ?rest = "bindS (txn_call (StartRO t ?ks mts cts)) (\<lambda>st.
         if st = PREPARE_WAIT
         then bindS (txn_get (\<lambda>s. GetRONumberSkipped s t)) (\<lambda>n.
                modS (\<lambda>s. s\<lparr>sv_pending_ro := um_put t (?q, of_nat n) (sv_pending_ro s)\<rparr>))
         else bindS (read_all ?ks (TimestampID cts t)) (\<lambda>values. ro_reply t ?q values (returnS ())))"
  from assms(1) have run: "?rest ?s = Inr ((), s1)"
    by (simp add: HandleROCommit_def thenS_def bindS_def modS_def Let_def)
  have "keepsS (snap_kept M env) ?rest"
    by (intro snaps.handler_rules)
  from keepsSD [OF this run] have "snap_kept M env ?s s1" .
  moreover have "calm M ?s" using assms(3,4) by (auto simp: calm_def ts_below_def max_def)
  ultimately have "calm M s1 \<and> sv_min_prepare ?s \<le> sv_min_prepare s1" using assms(2,5) by (simp add: snap_kept_def)
  then show ?thesis by (simp add: max.coboundedI2)
qed

text \<open>A run of a shard: a loaded key, a snapshot at 20, a transaction that prepares and one that commits at 25.\<close>

definition demo_env :: server_env where
  "demo_env = \<lparr>se_error = 0, se_clock = (\<lambda>n. 5)\<rparr>"

definition demo_rid :: "u64 \<Rightarrow> request_id" where
  "demo_rid n = \<lparr>rid_client_id = 7, rid_client_req_id = n\<rparr>"

definition demo_loaded :: server where
  "demo_loaded = snd (projr (Server_Load ''x'' ''old'' (Timestamp 1 0) (Server_init RSS 1 0)))"

definition demo_read :: server where
  "demo_read = snd (projr (HandleROCommit 1 (demo_rid 1) 11 (Timestamp 20 7) (Timestamp 0 0) [''x''] demo_loaded))"

definition demo_prepare :: shard_request where
  "demo_prepare = Msg_RWCommitParticipant (demo_rid 2) 12
     \<lparr>msg_starttime = Timestamp 3 7, msg_readset = [], msg_writeset = [(''x'', ''new'')]\<rparr> 0 (Timestamp 0 0)"

definition demo_prepared :: server where
  "demo_prepared = snd (projr (Server_ReceiveMessage demo_env 1 demo_prepare demo_read))"

definition demo_committing :: server where
  "demo_committing = snd (projr (thenS (PrepareCallback 12) (PrepareOKCallback demo_env 12 REPLY_OK (Timestamp 25 7)) demo_prepared))"

definition demo_commit :: replica_request where
  "demo_commit = \<lparr>rr_op = OP_COMMIT, rr_txnid = 12, rr_prepare = None, rr_commit = Some (Timestamp 25 7)\<rparr>"

definition demo_committed :: server where
  "demo_committed = snd (projr (ReplicaUpcall demo_env demo_commit demo_committing))"

lemma demo_read_run:
  "HandleROCommit 1 (demo_rid 1) 11 (Timestamp 20 7) (Timestamp 0 0) [''x''] demo_loaded = Inr ((), demo_read)"
  by code_simp

lemma demo_committing_inv: "vs_inv tid_lt (sv_store demo_committing)"
proof -
  have "sv_store demo_committing = vs_put tid_lt ''x'' ''old'' (TimestampID (Timestamp 1 0) 0) vs_init" by code_simp
  then show ?thesis by (simp add: vs.inv_put)
qed

lemma demo_prepare_step: "(server_step demo_env (ts_below 30) (ts_below 30))\<^sup>*\<^sup>* demo_read demo_prepared"
proof (rule r_into_rtranclp)
  have "Server_ReceiveMessage demo_env 1 demo_prepare demo_read = Inr ((), demo_prepared)" by code_simp
  then show "server_step demo_env (ts_below 30) (ts_below 30) demo_read demo_prepared"
    by (rule server_step_of.message) (simp_all add: demo_prepare_def)
qed

lemma demo_commit_steps: "(server_step demo_env (\<lambda>_. True) (\<lambda>ts. Timestamp 20 7 < ts))\<^sup>*\<^sup>* demo_committing demo_committed"
proof (rule r_into_rtranclp)
  have "ReplicaUpcall demo_env demo_commit demo_committing = Inr (REPLY_OK, demo_committed)" by code_simp
  then show "server_step demo_env (\<lambda>_. True) (\<lambda>ts. Timestamp 20 7 < ts) demo_committing demo_committed"
    by (rule server_step_of.upcall) (simp_all add: demo_commit_def get_commit_def less_timestamp_def ts_lt_def)
qed


text \<open>The same run to the commit of the transaction at 25, which its coordinator chose.\<close>

lemma demo_committing_steps: "(server_step demo_env (ts_below 30) (ts_below 30))\<^sup>*\<^sup>* demo_read demo_committing"
proof -
  have 1: "PrepareCallback 12 demo_prepared = Inr ((), snd (projr (PrepareCallback 12 demo_prepared)))" by code_simp
  have 2: "PrepareOKCallback demo_env 12 REPLY_OK (Timestamp 25 7) (snd (projr (PrepareCallback 12 demo_prepared)))
    = Inr ((), demo_committing)" by code_simp
  from demo_prepare_step server_step_of.prepare_callback [OF 1] server_step_of.prepare_ok_callback [OF 2]
  show ?thesis by (meson rtranclp.rtrancl_into_rtrancl)
qed


text \<open>
  \<^bold>\<open>C2\<close> Reads of the past are stable. Over any sequence of messages, callbacks, upcalls,
  commit timers and loads whose commits carry timestamps greater than \<open>T\<close>, a read of any key
  at any time up to \<open>T\<close> returns what it returned before, and the versions stay sorted.
\<close>

theorem reads_of_the_past_stable:
  assumes "(server_step env (\<lambda>_. True) (\<lambda>ts. T < ts))\<^sup>*\<^sup>* s s'" and "vs_inv tid_lt (sv_store s)" and "t \<le> T"
  shows "vs_inv tid_lt (sv_store s') \<and>
    vs_get tid_lt (sv_store s') k (TimestampID t i) = vs_get tid_lt (sv_store s) k (TimestampID t i)"
  using reads.steps_kept [OF assms(1)] assms(2,3) by (simp add: reads_kept_def)

lemma reads_of_the_past_stable_witness:
  "vs_get tid_lt (sv_store demo_committed) ''x'' (TimestampID (Timestamp 20 7) 11)
    = vs_get tid_lt (sv_store demo_committing) ''x'' (TimestampID (Timestamp 20 7) 11) \<and>
   map_option snd (vs_get tid_lt (sv_store demo_committed) ''x'' (TimestampID (Timestamp 25 7) 12)) = Some ''new''"
proof
  show "vs_get tid_lt (sv_store demo_committed) ''x'' (TimestampID (Timestamp 20 7) 11)
    = vs_get tid_lt (sv_store demo_committing) ''x'' (TimestampID (Timestamp 20 7) 11)"
    using reads_of_the_past_stable [OF demo_commit_steps demo_committing_inv] by simp
  show "map_option snd (vs_get tid_lt (sv_store demo_committed) ''x'' (TimestampID (Timestamp 25 7) 12)) = Some ''new''"
    by code_simp
qed

end
