(* ===== verification/ServerNotify.thy ===== *)
theory ServerNotify
  imports ServerSafety
begin

text \<open>
  The recursion of \<open>Server::NotifyPendingRWs\<close> with \<open>ContinueCoordinatorPrepare\<close> and
  \<open>ContinueParticipantPrepare\<close> (\<open>src/store/strongstore/server.cc\<close>) ends: the fuel of the model
  is enough, for every server and every set of transactions.
\<close>

text \<open>The replies owed to clients that commit; the fuel of \<open>NotifyPendingRWs\<close> exceeds their number.\<close>

definition owed :: "server \<Rightarrow> nat" where
  "owed s = length (sv_pending_c s) + length (sv_pending_p s)"

lemma length_erase_le: "length (um_erase k m) \<le> length m"
  by (simp add: AList.delete_eq)

lemma length_erase_less: "map_of m k = Some v \<Longrightarrow> length (um_erase k m) < length m"
  by (induction m) (auto simp: AList.delete_eq less_Suc_eq_le split: if_splits)

interpretation owes: server_frame "\<lambda>s s'. owed s' \<le> owed s" env "\<lambda>_. True" for env
proof (unfold_locales, goal_cases)
  case (14 t i txn)
  show ?case by (rule prepare_sites_coordinator) (simp add: prepared_at_def owed_def)
next
  case (15 t i txn c)
  show ?case by (rule prepare_sites_participant) (simp add: prepared_at_def owed_def)
qed (simp_all add: owed_def length_erase_le)

definition same_owed :: "server \<Rightarrow> server \<Rightarrow> bool" where
  "same_owed s s' \<longleftrightarrow> sv_pending_c s' = sv_pending_c s \<and> sv_pending_p s' = sv_pending_p s"

lemma same_owed_steps: "keepsS same_owed (ttNow env)" "keepsS same_owed (txn_call f)" "keepsS same_owed (txn_get g)"
    "keepsS same_owed (lock_call h)" "keepsS same_owed (release t txn)" "keepsS same_owed (coordinator_reply_fail q)"
    "keepsS same_owed (participant_reply_fail q)" "keepsS same_owed (shard_client p e)" "keepsS same_owed (getS k)"
  by (auto simp: keepsS_def ttNow_def txn_call_def txn_get_def lock_call_def release_def coordinator_reply_fail_def
      participant_reply_fail_def send_def emitS_def modS_def shard_client_def same_owed_def getS_def split: if_splits)

text \<open>Two functions agree wherever the owed replies are those of \<open>s0\<close>.\<close>

definition agree :: "server \<Rightarrow> 'a sv \<Rightarrow> 'a sv \<Rightarrow> bool" where
  "agree s0 f g \<longleftrightarrow> (\<forall>s. same_owed s0 s \<longrightarrow> f s = g s)"

lemma agree_refl: "agree s0 f f"
  by (simp add: agree_def)

lemma agree_bind:
  assumes "keepsS same_owed m" and "\<And>x. agree s0 (f x) (g x)"
  shows "agree s0 (bindS m f) (bindS m g)"
  unfolding agree_def
proof (intro allI impI)
  fix s assume s: "same_owed s0 s"
  show "bindS m f s = bindS m g s"
  proof (cases "m s")
    case (Inr p)
    obtain x s1 where p: "p = (x, s1)" by fastforce
    with Inr assms(1) have "same_owed s s1" by (auto simp: keepsS_def)
    with s have "same_owed s0 s1" by (simp add: same_owed_def)
    with assms(2) Inr p show ?thesis by (simp add: bindS_def agree_def)
  qed (simp add: bindS_def)
qed

lemma agree_then: "keepsS same_owed m \<Longrightarrow> agree s0 f g \<Longrightarrow> agree s0 (thenS m f) (thenS m g)"
  unfolding thenS_def by (rule agree_bind)

lemma agree_assert: "agree s0 f g \<Longrightarrow> agree s0 (assertS b f) (assertS b g)"
  by (simp add: assertS_def agree_refl)

lemma agree_if: "agree s0 f f' \<Longrightarrow> agree s0 g g' \<Longrightarrow> agree s0 (if b then f else g) (if b then f' else g')"
  by simp

lemma agree_status: "agree s0 f f' \<Longrightarrow> agree s0 g g' \<Longrightarrow> agree s0 h h' \<Longrightarrow>
    agree s0 (case st of ACQUIRED \<Rightarrow> f | WAITING \<Rightarrow> g | LOCK_FAIL \<Rightarrow> h)
      (case st of ACQUIRED \<Rightarrow> f' | WAITING \<Rightarrow> g' | LOCK_FAIL \<Rightarrow> h')"
  by (cases st) auto

lemmas agree_rules = agree_bind agree_then agree_assert agree_if agree_status same_owed_steps

text \<open>Where a preparing transaction gives up, its reply is dropped before the others are notified.\<close>

lemma agree_erase_c:
  assumes "map_of (sv_pending_c s0) t = Some q" and "\<And>s rws. owed s < owed s0 \<Longrightarrow> notify t rws s = notify' t rws s"
  shows "agree s0 (thenS (erase_c t) (thenS (notify t rws) m)) (thenS (erase_c t) (thenS (notify' t rws) m))"
  using assms length_erase_less [OF assms(1)]
  by (auto simp: agree_def thenS_def bindS_def erase_c_def modS_def same_owed_def owed_def)

lemma agree_erase_p:
  assumes "map_of (sv_pending_p s0) t = Some q" and "\<And>s rws. owed s < owed s0 \<Longrightarrow> notify t rws s = notify' t rws s"
  shows "agree s0 (thenS (erase_p t) (thenS (notify t rws) m)) (thenS (erase_p t) (thenS (notify' t rws) m))"
  using assms length_erase_less [OF assms(1)]
  by (auto simp: agree_def thenS_def bindS_def erase_p_def modS_def same_owed_def owed_def)

lemma continue_coordinator_cong:
  assumes "map_of (sv_pending_c s0) t = Some q" and "\<And>s rws. owed s < owed s0 \<Longrightarrow> notify t rws s = notify' t rws s"
  shows "agree s0 (continue_coordinator env notify t q) (continue_coordinator env notify' t q)"
  unfolding continue_coordinator_def
  by ((assumption | rule agree_refl agree_erase_c [where notify = notify and notify' = notify', OF assms] | rule agree_rules)+)

lemma continue_participant_cong:
  assumes "map_of (sv_pending_p s0) t = Some q" and "\<And>s rws. owed s < owed s0 \<Longrightarrow> notify t rws s = notify' t rws s"
  shows "agree s0 (continue_participant env notify t q) (continue_participant env notify' t q)"
  unfolding continue_participant_def by ((assumption | rule agree_refl agree_erase_p [where notify = notify and notify' = notify', OF assms] | rule agree_rules)+)

lemma agreeD: "agree s f g \<Longrightarrow> f s = g s"
  by (simp add: agree_def same_owed_def)

lemma Continue_cong:
  assumes "\<And>s1 rws. owed s1 < owed s \<Longrightarrow> notify t rws s1 = notify' t rws s1"
  shows "ContinueCoordinatorPrepare env notify t s = ContinueCoordinatorPrepare env notify' t s"
    and "ContinueParticipantPrepare env notify t s = ContinueParticipantPrepare env notify' t s"
  using agreeD [OF continue_coordinator_cong [where notify = notify and notify' = notify', OF _ assms]]
    agreeD [OF continue_participant_cong [where notify = notify and notify' = notify', OF _ assms]]
  by (auto simp: ContinueCoordinatorPrepare_def ContinueParticipantPrepare_def bindS_def getS_def split: option.split)

lemma forS_cong:
  assumes "\<And>x s. owed s \<le> b \<Longrightarrow> f x s = g x s" and "\<And>x. keepsS (\<lambda>s s'. owed s' \<le> owed s) (f x)" and "owed s \<le> b"
  shows "forS xs f s = forS xs g s"
  using assms(3)
proof (induction xs arbitrary: s)
  case (Cons x xs)
  show ?case
  proof (cases "f x s")
    case (Inr p)
    then have "owed (snd p) \<le> b" using keepsSD [OF assms(2), of x s] Cons.prems by (cases p) (force intro: order_trans)
    with Inr Cons assms(1) [OF Cons.prems] show ?thesis by (cases p) (simp add: thenS_def bindS_def)
  qed (use assms(1) [OF Cons.prems] in \<open>simp add: thenS_def bindS_def\<close>)
qed simp

lemma then_cong:
  assumes "keepsS R m" and "m s = m' s" and "\<And>s1. R s s1 \<Longrightarrow> f s1 = g s1"
  shows "thenS m f s = thenS m' g s"
  using assms(3) keepsSD [OF assms(1), of s] unfolding thenS_def bindS_def assms(2) [symmetric] by (cases "m s") auto

text \<open>One round on two notifiers that agree wherever fewer replies are owed.\<close>

lemma notify_round_cong:
  assumes IH: "\<And>t rws s1. owed s1 < owed s \<Longrightarrow> notify t rws s1 = notify' t rws s1"
    and keeps: "\<And>t rws. keepsS (\<lambda>s s'. owed s' \<le> owed s) (notify t rws)"
  shows "notify_round env notify t rws s = notify_round env notify' t rws s"
proof -
  have C: "ContinueCoordinatorPrepare env notify w s1 = ContinueCoordinatorPrepare env notify' w s1"
    "ContinueParticipantPrepare env notify w s1 = ContinueParticipantPrepare env notify' w s1"
    if "owed s1 \<le> owed s" for w s1
    using that by (auto intro!: Continue_cong IH)
  have "thenS (ContinueCoordinatorPrepare env notify w) (ContinueParticipantPrepare env notify w) s1 =
      thenS (ContinueCoordinatorPrepare env notify' w) (ContinueParticipantPrepare env notify' w) s1"
    if "owed s1 \<le> owed s" for w s1
    using that C by (intro then_cong [OF owes.keep_ContinueCoordinatorPrepare [OF keeps]]) (auto intro: order_trans)
  then have "thenS (Server_ContinueGet w) (thenS (ContinueCoordinatorPrepare env notify w) (ContinueParticipantPrepare env notify w)) s1 =
      thenS (Server_ContinueGet w) (thenS (ContinueCoordinatorPrepare env notify' w) (ContinueParticipantPrepare env notify' w)) s1"
    if "owed s1 \<le> owed s" for w s1
    using that by (intro then_cong [OF owes.keep_ContinueGet]) (auto intro: order_trans)
  then show ?thesis unfolding notify_round_def
    by (intro forS_cong [where b = "owed s"])
      (auto intro!: owes.keep_rules owes.keep_ContinueGet owes.keep_ContinueCoordinatorPrepare
        owes.keep_ContinueParticipantPrepare keeps)
qed

text \<open>Any fuel beyond the number of owed replies gives the same result.\<close>

lemma NotifyPendingRWs_fuel:
  "owed s < n \<Longrightarrow> owed s < m \<Longrightarrow> NotifyPendingRWs n env t rws s = NotifyPendingRWs m env t rws s"
proof (induction n arbitrary: m t rws s)
  case (Suc n)
  from Suc.prems(2) obtain m' where m: "m = Suc m'" by (cases m) auto
  have "NotifyPendingRWs n env t' rws' s1 = NotifyPendingRWs m' env t' rws' s1" if "owed s1 < owed s" for t' rws' s1
    using Suc.IH [of s1 m'] Suc.prems that m by simp
  then show ?case unfolding m NotifyPendingRWs.simps by (rule notify_round_cong) (auto intro: owes.keep_NotifyPendingRWs)
qed simp

lemma notify_rws_eq: "notify_rws env t rws s = NotifyPendingRWs (Suc (owed s)) env t rws s"
  by (simp add: notify_rws_def bindS_def getS_def owed_def)

lemma notify_rws_unfold: "notify_rws env = notify_round env (notify_rws env)"
proof (intro ext)
  fix t rws s
  have "NotifyPendingRWs (owed s) env t' rws' s1 = notify_rws env t' rws' s1" if "owed s1 < owed s" for t' rws' s1
    unfolding notify_rws_eq using that by (intro NotifyPendingRWs_fuel) auto
  then have "notify_round env (NotifyPendingRWs (owed s) env) t rws s = notify_round env (notify_rws env) t rws s"
    by (rule notify_round_cong) (auto intro: owes.keep_NotifyPendingRWs)
  then show "notify_rws env t rws s = notify_round env (notify_rws env) t rws s" by (simp add: notify_rws_eq)
qed

lemma notify_rws_unique:
  assumes "notify_round env g = g"
  shows "g = notify_rws env"
proof (intro ext)
  fix t rws s show "g t rws s = notify_rws env t rws s"
  proof (induction "owed s" arbitrary: t rws s rule: less_induct)
    case less
    then have "notify_round env (notify_rws env) t rws s = notify_round env g t rws s"
      by (intro notify_round_cong) (auto intro: owes.keep_notify_rws)
    then show ?case using assms notify_rws_unfold by metis
  qed
qed

text \<open>
  \<^bold>\<open>C5\<close> Waking the waiting transactions ends. \<open>NotifyPendingRWs\<close>,
  \<open>ContinueCoordinatorPrepare\<close> and \<open>ContinueParticipantPrepare\<close> call each other, and their
  recursion has exactly one solution, the function the model computes with a fuel of one
  more than the number of replies owed: nothing depends on what happens when it runs out.
\<close>

theorem NotifyPendingRWs_recursion_ends: "{notify. notify_round env notify = notify} = {notify_rws env}"
  using notify_rws_unfold [symmetric] notify_rws_unique by blast

end
