(* ===== verification/ServerBehaviour.thy ===== *)
theory ServerBehaviour
  imports ServerNotify
begin

text \<open>
  What the commit of the shard server (\<open>src/store/strongstore/server.cc\<close>) does to the
  versions of the keys, and two ways in which it goes wrong: a key read for update and
  never written is overwritten with its own name, and a replica that executes two
  conflicting operations in a row fails an assertion.
\<close>

section \<open>Installing writes\<close>

text \<open>Everything but installing writes and loading leaves the versions alone.\<close>

interpretation stores: server_frame "\<lambda>s s'. sv_store s' = sv_store s" env "\<lambda>_. True" for env
proof (unfold_locales, goal_cases)
  case (14 t i txn)
  show ?case by (rule prepare_sites_coordinator) (simp add: prepared_at_def)
next
  case (15 t i txn c)
  show ?case by (rule prepare_sites_participant) (simp add: prepared_at_def)
qed simp_all

lemma forS_store_put: "forS ws (store_put t cts) s =
    Inr ((), s\<lparr>sv_store := commit_writes (vs_put tid_lt) ws (TimestampID cts t) (sv_store s)\<rparr>)"
  by (induction ws arbitrary: s) (auto simp: returnS_def thenS_def bindS_def store_put_def modS_def)

lemma install_writes_store: "install_writes t cts txn s = Inr ((), s') \<Longrightarrow>
    sv_store s' = commit_writes (vs_put tid_lt) (writeSet txn) (TimestampID cts t) (sv_store s)"
  by (auto simp: install_writes_def thenS_Inr forS_store_put modS_def returnS_def split: if_splits)

lemma commit_tail_store:
  "keepsS (\<lambda>s s'. sv_store s' = sv_store s) (bindS (release t txn) (\<lambda>rws. bindS (txn_call (Commit t)) (\<lambda>fr.
      thenS (SendRWCommmitCoordinatorReplyOK t cts nts)
      (thenS (SendPrepareOKRepliesOK t cts) (notify_all env t True cts rws fr)))))"
  "keepsS (\<lambda>s s'. sv_store s' = sv_store s) (bindS (release t txn) (\<lambda>rws. bindS (txn_call (Commit t)) (\<lambda>fr.
      notify_all env t True cts rws fr)))"
  by (intro stores.keep_rules stores.keep_replies stores.keep_notify_all)+

lemma CoordinatorCommitTransaction_store:
  assumes "CoordinatorCommitTransaction env t cts s = Inr ((), s')" and "GetTransaction (sv_transactions s) t = Inr txn"
  shows "sv_store s' = commit_writes (vs_put tid_lt) (writeSet txn) (TimestampID cts t) (sv_store s)"
proof -
  from assms obtain nts s1 where "install_writes t cts txn s = Inr ((), s1)" and
    "bindS (release t txn) (\<lambda>rws. bindS (txn_call (Commit t)) (\<lambda>fr. thenS (SendRWCommmitCoordinatorReplyOK t cts nts)
      (thenS (SendPrepareOKRepliesOK t cts) (notify_all env t True cts rws fr)))) s1 = Inr ((), s')"
    by (auto simp: CoordinatorCommitTransaction_def bindS_Inr [of "txn_get _"] thenS_Inr [of "install_writes _ _ _"] txn_get_def)
  from install_writes_store [OF this(1)] keepsSD [OF commit_tail_store(1) this(2)] show ?thesis by simp
qed

lemma ParticipantCommitTransaction_store:
  assumes "ParticipantCommitTransaction env t cts s = Inr ((), s')" and "GetTransaction (sv_transactions s) t = Inr txn"
  shows "sv_store s' = commit_writes (vs_put tid_lt) (writeSet txn) (TimestampID cts t) (sv_store s)"
proof -
  from assms obtain s1 where "install_writes t cts txn s = Inr ((), s1)" and
    "bindS (release t txn) (\<lambda>rws. bindS (txn_call (Commit t)) (\<lambda>fr. notify_all env t True cts rws fr)) s1 = Inr ((), s')"
    by (auto simp: ParticipantCommitTransaction_def bindS_Inr [of "txn_get _"] thenS_Inr [of "install_writes _ _ _"] txn_get_def)
  from install_writes_store [OF this(1)] keepsSD [OF commit_tail_store(2) this(2)] show ?thesis by simp
qed

text \<open>
  \<^bold>\<open>C3\<close> A commit that returns, at the coordinator or at a participant, has installed
  exactly the writes of the transaction at its commit timestamp: reads before it and reads
  of other keys see what they saw, and from it on every written key has the written value,
  unless a version at or after it was there already.
\<close>

theorem Commit_installs_writes:
  assumes "CoordinatorCommitTransaction env t cts s = Inr ((), s') \<or> ParticipantCommitTransaction env t cts s = Inr ((), s')"
    and "GetTransaction (sv_transactions s) t = Inr txn" and "txn_ok txn" and "vs_inv tid_lt (sv_store s)"
  shows "(\<forall>k r. tid_lt r (TimestampID cts t) \<or> k \<notin> set (um_keys (writeSet txn)) \<longrightarrow>
      vs_get tid_lt (sv_store s') k r = vs_get tid_lt (sv_store s) k r) \<and>
    (\<forall>k v r. map_of (writeSet txn) k = Some v \<and> \<not> tid_lt r (TimestampID cts t) \<and>
      (\<forall>w' v'. vs_get tid_lt (sv_store s) k r = Some (w', v') \<longrightarrow> tid_lt w' (TimestampID cts t)) \<longrightarrow>
      vs_get tid_lt (sv_store s') k r = Some (TimestampID cts t, v))"
proof -
  have "sv_store s' = commit_writes (vs_put tid_lt) (writeSet txn) (TimestampID cts t) (sv_store s)"
    using assms(1,2) CoordinatorCommitTransaction_store ParticipantCommitTransaction_store by blast
  moreover have "um_ok (writeSet txn)" using assms(3) by (simp add: txn_ok_def)
  ultimately show ?thesis using assms(4) by (auto simp: vs.commit_before vs.commit_other intro!: vs.commit_visible)
qed

lemma Commit_installs_writes_witness:
  "vs_get tid_lt (sv_store demo_committed) ''x'' (TimestampID (Timestamp 24 7) 12)
      = vs_get tid_lt (sv_store demo_committing) ''x'' (TimestampID (Timestamp 24 7) 12) \<and>
    vs_get tid_lt (sv_store demo_committed) ''x'' (TimestampID (Timestamp 30 0) 99)
      = Some (TimestampID (Timestamp 25 7) 12, ''new'')"
proof -
  have run: "ParticipantCommitTransaction demo_env 12 (Timestamp 25 7) demo_committing = Inr ((), demo_committed)"
    by code_simp
  have txn: "GetTransaction (sv_transactions demo_committing) 12 =
      Inr \<lparr>readSet = [], writeSet = [(''x'', ''new'')], start_time = Timestamp 0 0\<rparr>" by code_simp
  have ok: "txn_ok \<lparr>readSet = [], writeSet = [(''x'', ''new'')], start_time = Timestamp 0 0\<rparr>"
    by (simp add: txn_ok_def um_ok_def)
  note C = Commit_installs_writes [OF disjI2 [OF run] txn ok demo_committing_inv]
  have "vs_get tid_lt (sv_store demo_committing) ''x'' (TimestampID (Timestamp 30 0) 99)
      = Some (TimestampID (Timestamp 1 0) 0, ''old'')" by code_simp
  with C show ?thesis by (auto simp: tid_lt_def less_timestamp_def ts_lt_def)
qed

section \<open>Reading a snapshot\<close>

definition snapshot_value :: "server \<Rightarrow> timestamp_id \<Rightarrow> key \<Rightarrow> read_value option" where
  "snapshot_value s r k = map_option (\<lambda>(w, v). \<lparr>v_transaction_id = tid_transaction_id w, v_ts = tid_timestamp w,
     v_key = c_str k, v_val = c_str v\<rparr>) (vs_get tid_lt (sv_store s) k r)"

lemma read_all_Inr:
  "read_all ks r s = Inr (vs, s') \<Longrightarrow> s' = s \<and> map Some vs = map (snapshot_value s r) ks"
  by (induction ks arbitrary: vs s')
    (auto simp: returnS_def bindS_Inr store_get_at_def getS_def failS_def snapshot_value_def split: option.splits)

lemma ro_reply_trace:
  assumes "ro_reply t q vs (returnS ()) s = Inr ((), s')"
  shows "\<exists>ps. sv_trace s' = sv_trace s @ [SendMessage (rq_addr q) (Msg_ROCommitReply (rid_of q) t vs ps)]"
  using assms
  by (auto simp: ro_reply_def bindS_Inr thenS_Inr getS_def txn_get_def returnS_def modS_def send_def emitS_def txn_step_def
      split: if_splits)

text \<open>
  \<^bold>\<open>C4\<close> A read-only request that returns is either held back, without an answer, because the
  transaction store makes it wait for prepared writes, or answered at once with one message
  that carries, for every key asked for, the newest version at its commit timestamp. The
  value sent is the stored one up to its first NUL.
\<close>

theorem HandleROCommit_answers:
  assumes "HandleROCommit remote rid t cts mts ks s = Inr ((), s')"
  shows "(\<exists>tx. StartRO t (us_add_all ks []) mts cts (sv_transactions s) = Inr (PREPARE_WAIT, tx)) \<and>
      sv_trace s' = sv_trace s \<and> um_has (sv_pending_ro s') t \<or>
    (\<exists>vs ps. sv_trace s' = sv_trace s @ [SendMessage remote (Msg_ROCommitReply rid t vs ps)] \<and>
      map Some vs = map (snapshot_value s (TimestampID cts t)) (us_add_all ks []))"
proof -
  let ?s = "s\<lparr>sv_min_prepare := max (sv_min_prepare s) cts\<rparr>" and ?q = "pending_of rid remote"
  from assms obtain st tx where start: "StartRO t (us_add_all ks []) mts cts (sv_transactions s) = Inr (st, tx)"
    and rest: "(if st = PREPARE_WAIT
         then bindS (txn_get (\<lambda>s. GetRONumberSkipped s t)) (\<lambda>n.
                modS (\<lambda>s. s\<lparr>sv_pending_ro := um_put t (?q, of_nat n) (sv_pending_ro s)\<rparr>))
         else bindS (read_all (us_add_all ks []) (TimestampID cts t)) (\<lambda>values. ro_reply t ?q values (returnS ())))
       (?s\<lparr>sv_transactions := tx\<rparr>) = Inr ((), s')"
    by (auto simp: HandleROCommit_def Let_def thenS_Inr modS_def bindS_Inr [of "txn_call _"] txn_call_def)
  show ?thesis
  proof (cases "st = PREPARE_WAIT")
    case True
    with start rest show ?thesis by (auto simp: bindS_Inr txn_get_def modS_def)
  next
    case False
    with rest obtain vs where
      "map Some vs = map (snapshot_value (?s\<lparr>sv_transactions := tx\<rparr>) (TimestampID cts t)) (us_add_all ks [])"
      and "ro_reply t ?q vs (returnS ()) (?s\<lparr>sv_transactions := tx\<rparr>) = Inr ((), s')"
      by (auto simp: bindS_Inr dest!: read_all_Inr)
    with ro_reply_trace [OF this(2)] show ?thesis by (auto simp: snapshot_value_def pending_of_def rid_of_def)
  qed
qed

lemma HandleROCommit_answers_witness:
  "\<exists>vs ps. sv_trace demo_read = [SendMessage 1 (Msg_ROCommitReply (demo_rid 1) 11 vs ps)] \<and>
     map Some vs = map (snapshot_value demo_loaded (TimestampID (Timestamp 20 7) 11)) [''x'']"
proof -
  have "sv_trace demo_loaded = []" "sv_trace demo_read \<noteq> []" "us_add_all [''x''] [] = [''x'']" by code_simp+
  with HandleROCommit_answers [OF demo_read_run] show ?thesis by auto
qed

section \<open>A key read for update\<close>

lemma map_of_put_all_other: "k \<notin> set (um_keys ws) \<Longrightarrow> map_of (um_put_all ws m) k = map_of m k"
  by (induction ws arbitrary: m) auto

text \<open>
  \<^bold>\<open>C36\<close> A key read for update is overwritten with its own name. If a transaction reads
  \<open>k\<close> for update and commits without writing it, the write set the coordinator keeps maps
  \<open>k\<close> to \<open>k\<close>, and once the commit returns, a read of \<open>k\<close> at the commit timestamp gives the
  name of the key instead of its value.
\<close>

theorem GetForUpdate_commits_key_name:
  assumes "StartGet t a k True tx0 = Inr tx1" and "k \<notin> set (um_keys (writeSet txn))"
    and "StartCoordinatorPrepare t start c ps txn nts tx1 = Inr (PREPARING, tx2)"
    and "FinishCoordinatorPrepare t pts tx2 = Inr (sv_transactions s)"
    and "CoordinatorCommitTransaction env t cts s = Inr ((), s')"
    and "txn_ok (rw_transaction (rw_ref tx0 t))" and "vs_inv tid_lt (sv_store s)"
    and "\<And>w v. vs_get tid_lt (sv_store s) k (TimestampID cts t) = Some (w, v) \<Longrightarrow> tid_lt w (TimestampID cts t)"
  shows "vs_get tid_lt (sv_store s') k (TimestampID cts t) = Some (TimestampID cts t, k)"
proof -
  define p where "p = PendingRW_FinishCoordinatorPrepare pts (rw_ref tx2 t)"
  have "sv_transactions s = set_rw t p tx2" using assms(4) by (simp add: FinishCoordinatorPrepare_def p_def)
  then have p: "map_of (ts_pending_rw (sv_transactions s)) t = Some p" by (simp add: set_rw_def)
  have "map_of (writeSet (rw_transaction (rw_ref tx1 t))) k = Some k"
    using assms(1) by (auto simp: StartGet_def PendingRW_StartGet_def rw_ref_def set_rw_def addWriteSet_def Let_def)
  moreover have "um_ok (writeSet (rw_transaction (rw_ref tx1 t)))"
    using assms(1,6)
    by (auto simp: StartGet_def PendingRW_StartGet_def rw_ref_def set_rw_def addWriteSet_def addReadSet_def Let_def txn_ok_def)
  ultimately have "map_of (writeSet (rw_transaction p)) k = Some k \<and> um_ok (writeSet (rw_transaction p))"
    using assms(2,3)
    by (auto simp: p_def StartCoordinatorPrepare_def PendingRW_StartCoordinatorPrepare_def FinishCoordinatorPrepare_def
        PendingRW_FinishCoordinatorPrepare_def set_coordinator_def set_rw_def rw_ref_def add_read_write_sets_def
        set_start_time_def map_of_put_all_other Let_def split: if_splits)
  moreover have "sv_store s' = commit_writes (vs_put tid_lt) (writeSet (rw_transaction p)) (TimestampID cts t) (sv_store s)"
    using CoordinatorCommitTransaction_store [OF assms(5)] p by (simp add: GetTransaction_def find_rw_def)
  ultimately show ?thesis using assms(7,8) by (auto intro!: vs.commit_visible simp: tid.irrefl)
qed

text \<open>A shard that serves a read for update of a loaded key and then a commit that writes nothing.\<close>

definition fu_server :: server where
  "fu_server = snd (projr (thenS (HandleGet demo_env 1 (demo_rid 1) 12 ''x'' (Timestamp 3 7) True)
     (HandleRWCommitCoordinator demo_env 1 (demo_rid 2) 12
        \<lparr>msg_starttime = Timestamp 3 7, msg_readset = [(''x'', Timestamp 1 0)], msg_writeset = []\<rparr> (Timestamp 0 0) [0])
     demo_loaded))"

definition fu_committed :: server where
  "fu_committed = snd (projr (CoordinatorCommitTransaction demo_env 12 (Timestamp 5 7) fu_server))"

definition fu_started :: transaction_store where
  "fu_started = projr (StartGet 12 1 ''x'' True (TransactionStore_init 0 RSS))"

definition fu_preparing :: transaction_store where
  "fu_preparing = snd (projr (StartCoordinatorPrepare 12 (Timestamp 5 7) 0 [0]
     \<lparr>readSet = [(''x'', Timestamp 1 0)], writeSet = [], start_time = Timestamp 3 7\<rparr> (Timestamp 0 0) fu_started))"

lemma GetForUpdate_commits_key_name_witness:
  "vs_get tid_lt (sv_store demo_loaded) ''x'' (TimestampID (Timestamp 5 7) 12)
      = Some (TimestampID (Timestamp 1 0) 0, ''old'') \<and>
   vs_get tid_lt (sv_store fu_committed) ''x'' (TimestampID (Timestamp 5 7) 12)
      = Some (TimestampID (Timestamp 5 7) 12, ''x'')"
proof
  show old: "vs_get tid_lt (sv_store demo_loaded) ''x'' (TimestampID (Timestamp 5 7) 12)
      = Some (TimestampID (Timestamp 1 0) 0, ''old'')" by code_simp
  have store: "sv_store fu_server = sv_store demo_loaded" and inv: "sv_store demo_loaded = sv_store demo_committing" by code_simp+
  have 1: "StartGet 12 1 ''x'' True (TransactionStore_init 0 RSS) = Inr fu_started" by code_simp
  have 2: "StartCoordinatorPrepare 12 (Timestamp 5 7) 0 [0]
     \<lparr>readSet = [(''x'', Timestamp 1 0)], writeSet = [], start_time = Timestamp 3 7\<rparr> (Timestamp 0 0) fu_started
     = Inr (PREPARING, fu_preparing)" by code_simp
  have 3: "FinishCoordinatorPrepare 12 (Timestamp 5 7) fu_preparing = Inr (sv_transactions fu_server)" by code_simp
  have 4: "CoordinatorCommitTransaction demo_env 12 (Timestamp 5 7) fu_server = Inr ((), fu_committed)" by code_simp
  have ok: "txn_ok (rw_transaction (rw_ref (TransactionStore_init 0 RSS) 12))"
    by (simp add: rw_ref_def TransactionStore_init_def PendingRW_init_def Transaction_init_def txn_ok_def)
  have "tid_lt (TimestampID (Timestamp 1 0) 0) (TimestampID (Timestamp 5 7) 12)" by code_simp
  then show "vs_get tid_lt (sv_store fu_committed) ''x'' (TimestampID (Timestamp 5 7) 12)
      = Some (TimestampID (Timestamp 5 7) 12, ''x'')"
    using GetForUpdate_commits_key_name [OF 1 _ 2 3 4 ok] old demo_committing_inv store inv by simp
qed

section \<open>Two conflicting operations in a row\<close>

lemma write_lock_conflict:
  assumes "ww_inv ls" and "holds_write (lock_at ls k) u" and "u \<noteq> t" and "k \<in> set (um_keys (writeSet txn))"
    and "AcquireLocks t txn ls = Inr (ar, ls')"
  shows "la_status ar \<noteq> ACQUIRED"
proof
  assume "la_status ar = ACQUIRED"
  with AcquireLocks_contract [OF assms(1,5)] assms(2,4) have inv: "lock_inv (lock_at ls' k)" and
    "holds_write (lock_at ls' k) u" "holds_write (lock_at ls' k) t"
    by (auto simp: ww_inv_def dest: holds_kept)
  then show False using q_inv_one_holder [of _ "lock_at ls' k" u t] assms(3)
    by (auto simp: lock_inv_def holds_write_def)
qed

lemma acquire_conflict:
  assumes "ww_inv (sv_locks s)" and "holds_write (lock_at (sv_locks s) k) u" and "u \<noteq> t" and "k \<in> set (um_keys (writeSet txn))"
  shows "bindS (lock_call (AcquireLocks t txn)) (\<lambda>ar. assertS (la_status ar = ACQUIRED) m) s \<noteq> Inr (x, s')"
  using write_lock_conflict [OF assms]
  by (auto simp: bindS_def lock_call_def assertS_def failS_def bindE_Inr_iff)

lemma assertS_Inr: "assertS b m s = Inr y \<longleftrightarrow> b \<and> m s = Inr y"
  by (simp add: assertS_def failS_def)

text \<open>What a replica changes before it takes the locks of an operation, it changes in the transaction store.\<close>

lemma receive_prepare_oks_locks:
  "receive_prepare_oks t c cts nts ps st s = Inr (st', s') \<Longrightarrow> sv_locks s' = sv_locks s"
  by (induction ps arbitrary: st s)
    (auto simp: returnS_def bindS_Inr txn_call_def split: if_splits)

lemma replica_coordinator_prepare_locks:
  assumes "replica_coordinator_prepare r p s = Inr ((), s')" and "ww_inv (sv_locks s)"
    and "k \<in> set (um_keys (writeSet (Transaction_parse (op_txn p))))"
  shows "ww_inv (sv_locks s') \<and> holds_write (lock_at (sv_locks s') k) (rr_txnid r)"
proof -
  from assms(1) obtain ar ls where
    2: "AcquireLocks (rr_txnid r) (Transaction_parse (op_txn p)) (sv_locks s) = Inr (ar, ls)"
    and 3: "la_status ar = ACQUIRED" and 4: "sv_locks s' = ls"
    by (auto simp: replica_coordinator_prepare_def Let_def bindS_Inr assertS_Inr getS_def txn_call_def
        lock_call_def txn_step_def split: if_splits dest!: receive_prepare_oks_locks)
  with AcquireLocks_contract [OF _ 2] assms(2,3) show ?thesis by auto
qed

lemma replica_coordinator_prepare_conflict:
  assumes "ww_inv (sv_locks s)" and "holds_write (lock_at (sv_locks s) k) u" and "u \<noteq> rr_txnid r"
    and "k \<in> set (um_keys (writeSet (Transaction_parse (op_txn p))))"
  shows "replica_coordinator_prepare r p s \<noteq> Inr (x, s')"
proof
  assume "replica_coordinator_prepare r p s = Inr (x, s')"
  then obtain s1 m where
    "bindS (lock_call (AcquireLocks (rr_txnid r) (Transaction_parse (op_txn p)))) (\<lambda>ar. assertS (la_status ar = ACQUIRED) m) s1
      = Inr (x, s')" and "sv_locks s1 = sv_locks s"
    by (auto simp: replica_coordinator_prepare_def Let_def bindS_Inr [of "getS _"] bindS_Inr [of "txn_call _"]
        bindS_Inr [of "receive_prepare_oks _ _ _ _ _ _"] getS_def assertS_Inr txn_call_def
        split: if_splits dest!: receive_prepare_oks_locks)
  then show False using acquire_conflict [of s1 k u "rr_txnid r" "Transaction_parse (op_txn p)" m x s'] assms by simp
qed

lemma replica_prepare_conflict:
  assumes "ww_inv (sv_locks s)" and "holds_write (lock_at (sv_locks s) k) u" and "u \<noteq> rr_txnid r"
    and "k \<in> set (um_keys (writeSet (Transaction_parse (op_txn (get_prepare r)))))"
    and "GetRWTransactionState (sv_transactions s) (rr_txnid r) = NOT_FOUND"
  shows "replica_prepare r s \<noteq> Inr (x, s')"
proof
  assume "replica_prepare r s = Inr (x, s')"
  then obtain s1 m where
    "bindS (lock_call (AcquireLocks (rr_txnid r) (Transaction_parse (op_txn (get_prepare r)))))
       (\<lambda>ar. assertS (la_status ar = ACQUIRED) m) s1 = Inr (x, s')" and "sv_locks s1 = sv_locks s"
    using assms(5) by (auto simp: replica_prepare_def Let_def bindS_Inr [of "getS _"] bindS_Inr [of "txn_call _"]
        getS_def assertS_Inr txn_call_def failS_def split: if_splits)
  then show False
    using acquire_conflict [of s1 k u "rr_txnid r" "Transaction_parse (op_txn (get_prepare r))" m x s'] assms by simp
qed

lemma ReplicaUpcall_commit_prepares:
  assumes "ReplicaUpcall env r s = Inr (st, s1)" and "rr_op r = OP_COMMIT" and "rr_prepare r = Some p"
    and "GetRWTransactionState (sv_transactions s) (rr_txnid r) \<noteq> COMMITTING"
  shows "\<exists>s0. replica_coordinator_prepare r p s = Inr ((), s0) \<and> sv_locks s1 = sv_locks s0 \<and>
    sv_transactions s1 = sv_transactions s0 \<and> sv_store s1 = sv_store s0"
  using assms
  by (auto simp: ReplicaUpcall_def replica_commit_def Let_def thenS_Inr bindS_Inr getS_def returnS_def emitS_def modS_def)

section \<open>How taking locks can fail\<close>

text \<open>What fails does so with the fault \<open>AssertFailed\<close>.\<close>

definition only_asserts :: "'a outcome \<Rightarrow> bool" where
  "only_asserts m \<longleftrightarrow> (\<forall>e. m = Inl e \<longrightarrow> e = AssertFailed)"

lemma only_asserts_Inr [simp]: "only_asserts (Inr x)"
  by (simp add: only_asserts_def)

lemma only_asserts_Inl [simp]: "only_asserts (Inl e) \<longleftrightarrow> e = AssertFailed"
  by (simp add: only_asserts_def)

lemma only_asserts_bind: "only_asserts m \<Longrightarrow> (\<And>x. m = Inr x \<Longrightarrow> only_asserts (f x)) \<Longrightarrow> only_asserts (bindE m f)"
  by (cases m) (auto simp: only_asserts_def)

lemma only_asserts_assert [simp]: "only_asserts (assertE b m) \<longleftrightarrow> (b \<longrightarrow> only_asserts m)"
  by (auto simp: only_asserts_def assertE_def)

text \<open>A lock that nobody queues for, or that the requester does not hold.\<close>

definition unqueued :: "txn_id \<Rightarrow> lock \<Rightarrow> bool" where
  "unqueued r l \<longleftrightarrow> l_wait_q l = [] \<or> l_state l \<noteq> UNLOCKED \<and> \<not> um_has (l_holders l) r"

lemma fst_um_ref_lock: "fst (um_ref Lock_init ls k) = lock_at ls k"
  by (simp add: um_ref_def lock_at_def split: option.split)

lemma read_unqueued:
  assumes "TryAcquireReadLock r ts l wound = Inr (ret, l', wound')" and "l_wait_q l = []"
  shows "unqueued r l' \<and> ret \<in> {REPLY_OK, REPLY_WAIT}"
  using assms
  by (auto simp: TryAcquireReadLock_def unqueued_def ReadWait_def AddReadWaiter_def Let_def
      split: if_splits prod.splits option.splits)

lemma read_only_asserts: "only_asserts (TryAcquireReadLock r ts l wound)"
  by (auto simp: TryAcquireReadLock_def Let_def split: prod.split)

lemma write_only_asserts: "unqueued r l \<Longrightarrow> only_asserts (TryAcquireWriteLock r ts l wound)"
  by (auto simp: TryAcquireWriteLock_def unqueued_def Let_def split: prod.split)

lemma write_reply: "TryAcquireWriteLock r ts l wound = Inr (ret, l', wound') \<Longrightarrow> ret \<in> {REPLY_OK, REPLY_WAIT}"
  by (auto simp: TryAcquireWriteLock_def Let_def split: if_splits prod.splits)

definition granted_or_waits :: "reply_code \<Rightarrow> bool" where
  "granted_or_waits ret \<longleftrightarrow> ret = REPLY_OK \<or> ret = REPLY_WAIT"

lemma reads_only_assert:
  assumes "distinct ks" and "\<forall>k \<in> set ks. l_wait_q (lock_at ls k) = []" and "\<forall>k. unqueued t (lock_at ls k)"
    and "granted_or_waits ret"
  shows "only_asserts (acquire_each (\<lambda>k. LockForRead k t ts) ks (ret, ls, wound)) \<and>
    (\<forall>ret' ls' wound'. acquire_each (\<lambda>k. LockForRead k t ts) ks (ret, ls, wound) = Inr (ret', ls', wound') \<longrightarrow>
      granted_or_waits ret' \<and> (\<forall>k. unqueued t (lock_at ls' k)))"
  using assms
proof (induction ks arbitrary: ret ls wound)
  case (Cons k ks)
  show ?case
  proof (cases "TryAcquireReadLock t ts (lock_at ls k) wound")
    case (Inl e)
    then show ?thesis using read_only_asserts [of t ts "lock_at ls k" wound]
      by (simp add: acquire_each_def LockForRead_def fst_um_ref_lock)
  next
    case (Inr x)
    then obtain st l w where x: "TryAcquireReadLock t ts (lock_at ls k) wound = Inr (st, l, w)" by (cases x) auto
    have u: "unqueued t l" "st \<in> {REPLY_OK, REPLY_WAIT}" using read_unqueued [OF x] Cons.prems(2) by auto
    then have "granted_or_waits (merge_status ret st)" using Cons.prems(4) by (auto simp: granted_or_waits_def merge_status_def)
    with Cons.IH [of "um_put k l ls" "merge_status ret st" w] Cons.prems u(1) x show ?thesis
      by (auto simp: acquire_each_def LockForRead_def fst_um_ref_lock)
  qed
qed (simp add: acquire_each_def)

lemma writes_only_assert:
  assumes "distinct ks" and "\<forall>k \<in> set ks. unqueued t (lock_at ls k)" and "granted_or_waits ret"
  shows "only_asserts (acquire_each (\<lambda>k. LockForWrite k t ts) ks (ret, ls, wound)) \<and>
    (\<forall>ret' ls' wound'. acquire_each (\<lambda>k. LockForWrite k t ts) ks (ret, ls, wound) = Inr (ret', ls', wound') \<longrightarrow>
      granted_or_waits ret')"
  using assms
proof (induction ks arbitrary: ret ls wound)
  case (Cons k ks)
  show ?case
  proof (cases "TryAcquireWriteLock t ts (lock_at ls k) wound")
    case (Inl e)
    then show ?thesis using write_only_asserts [of t "lock_at ls k" ts wound] Cons.prems(2)
      by (simp add: acquire_each_def LockForWrite_def fst_um_ref_lock)
  next
    case (Inr x)
    then obtain st l w where x: "TryAcquireWriteLock t ts (lock_at ls k) wound = Inr (st, l, w)" by (cases x) auto
    have "granted_or_waits (merge_status ret st)"
      using write_reply [OF x] Cons.prems(3) by (auto simp: granted_or_waits_def merge_status_def)
    with Cons.IH [of "um_put k l ls" "merge_status ret st" w] Cons.prems x show ?thesis
      by (auto simp: acquire_each_def LockForWrite_def fst_um_ref_lock)
  qed
qed (simp add: acquire_each_def)

text \<open>With no queues, taking the locks of a transaction either returns or fails an assertion.\<close>

lemma AcquireLocks_only_asserts:
  assumes "txn_ok txn" and "\<forall>k. l_wait_q (lock_at ls k) = []"
  shows "only_asserts (AcquireLocks t txn ls)"
proof (unfold AcquireLocks_def, rule only_asserts_bind)
  let ?rd = "acquire_each (\<lambda>k. LockForRead k t (start_time txn)) (um_keys (readSet txn)) (REPLY_OK, ls, [])"
  have "\<forall>k. unqueued t (lock_at ls k)" using assms(2) by (simp add: unqueued_def)
  from reads_only_assert [OF _ _ this, of "um_keys (readSet txn)" REPLY_OK "start_time txn" "[]"] assms
  have rd: "only_asserts ?rd" "\<And>ret ls' w. ?rd = Inr (ret, ls', w) \<Longrightarrow> granted_or_waits ret \<and> (\<forall>k. unqueued t (lock_at ls' k))"
    by (auto simp: txn_ok_def um_ok_def granted_or_waits_def)
  show "only_asserts ?rd" by (rule rd)
  fix st assume st: "?rd = Inr st"
  obtain ret ls1 w where eq: "st = (ret, ls1, w)" by (cases st)
  from writes_only_assert [of "um_keys (writeSet txn)" t ls1 ret "start_time txn" w] rd(2) st eq assms(1)
  show "only_asserts (bindE (acquire_each (\<lambda>k. LockForWrite k t (start_time txn)) (um_keys (writeSet txn)) st)
      (\<lambda>(ret, ls', wound). lock_result ret ls' wound))"
    by (auto simp: txn_ok_def um_ok_def lock_result_def ConvertToResultStatus_def granted_or_waits_def
        intro!: only_asserts_bind)
qed


section \<open>How a replica can fail before it has the locks\<close>

lemma only_asserts_bindS:
  "only_asserts (m s) \<Longrightarrow> (\<And>x s'. m s = Inr (x, s') \<Longrightarrow> only_asserts (f x s')) \<Longrightarrow> only_asserts (bindS m f s)"
  unfolding bindS_def by (rule only_asserts_bind) auto

lemma only_asserts_assertS: "(b \<Longrightarrow> only_asserts (m s)) \<Longrightarrow> only_asserts (assertS b m s)"
  by (simp add: assertS_def failS_def)

lemma only_asserts_call: "only_asserts (f (sv_transactions s)) \<Longrightarrow> only_asserts (txn_call f s)"
  unfolding txn_call_def by (rule only_asserts_bind) auto

lemma only_asserts_step: "only_asserts (f (sv_transactions s)) \<Longrightarrow> only_asserts (txn_step f s)"
  unfolding txn_step_def by (rule only_asserts_bind) auto

lemma only_asserts_lock: "only_asserts (f (sv_locks s)) \<Longrightarrow> only_asserts (lock_call f s)"
  unfolding lock_call_def by (rule only_asserts_bind) auto

lemma only_asserts_coordinator: "only_asserts (set_coordinator c p)"
  by (simp add: set_coordinator_def)

lemma only_asserts_store:
  "only_asserts (StartCoordinatorPrepare t start c ps txn nb tx)" "only_asserts (StartParticipantPrepare t c txn nb tx)"
  "only_asserts (CoordinatorReceivePrepareOK t p pts nts tx)" "only_asserts (FinishCoordinatorPrepare t ts tx)"
  "only_asserts (SetParticipantPrepareTimestamp t ts tx)" "only_asserts (FinishParticipantPrepare t tx)"
  by (auto simp: StartCoordinatorPrepare_def PendingRW_StartCoordinatorPrepare_def StartParticipantPrepare_def
      PendingRW_StartParticipantPrepare_def CoordinatorReceivePrepareOK_def PendingRW_ReceivePrepareOK_def
      FinishCoordinatorPrepare_def SetParticipantPrepareTimestamp_def FinishParticipantPrepare_def Let_def
      intro!: only_asserts_bind only_asserts_coordinator)

lemma receive_prepare_oks_only_asserts: "only_asserts (receive_prepare_oks t c cts nts ps st s)"
  by (induction ps arbitrary: st s)
    (auto simp: returnS_def intro!: only_asserts_bindS only_asserts_call only_asserts_store)

lemma get_only_asserts: "only_asserts (getS f s)" "only_asserts (returnS x s)"
  by (simp_all add: getS_def returnS_def)

lemmas only_asserts_rules = only_asserts_bindS only_asserts_assertS only_asserts_call only_asserts_step
  only_asserts_lock only_asserts_store receive_prepare_oks_only_asserts get_only_asserts AcquireLocks_only_asserts

definition no_queues :: "server \<Rightarrow> bool" where
  "no_queues s \<longleftrightarrow> (\<forall>k. l_wait_q (lock_at (sv_locks s) k) = [])"

lemma replica_prepare_only_asserts:
  assumes "no_queues s" and "GetRWTransactionState (sv_transactions s) (rr_txnid r) = NOT_FOUND"
  shows "only_asserts (replica_prepare r s)"
proof -
  have "only_asserts (bindS (txn_call (StartParticipantPrepare t c txn nb)) (\<lambda>st. assertS (st = PREPARING)
      (bindS (lock_call (AcquireLocks t txn)) (\<lambda>ar. assertS (la_status ar = ACQUIRED)
         (thenS (txn_step (SetParticipantPrepareTimestamp t ts)) (bindS (txn_call (FinishParticipantPrepare t)) (\<lambda>_. returnS REPLY_OK)))))) s)"
    if "txn_ok txn" for t c txn nb ts
    using that assms(1) unfolding thenS_def
    by (intro only_asserts_rules) (auto simp: no_queues_def txn_call_def)
  then show ?thesis using assms(2) by (simp add: replica_prepare_def Let_def bindS_def getS_def)
qed

lemma replica_coordinator_prepare_only_asserts:
  assumes "no_queues s"
  shows "only_asserts (replica_coordinator_prepare r p s)"
  unfolding replica_coordinator_prepare_def Let_def
  by (intro only_asserts_rules)
    (use assms in \<open>auto simp: no_queues_def txn_call_def getS_def dest!: receive_prepare_oks_locks\<close>)

lemma ReplicaUpcall_only_asserts:
  assumes "no_queues s" and "GetRWTransactionState (sv_transactions s) (rr_txnid r) = NOT_FOUND"
    and "rr_op r = OP_PREPARE \<or> rr_op r = OP_COMMIT \<and> rr_prepare r \<noteq> None"
  shows "only_asserts (ReplicaUpcall env r s)"
proof (cases "rr_op r")
  case OP_PREPARE
  then show ?thesis using replica_prepare_only_asserts [OF assms(1,2)] by (simp add: ReplicaUpcall_def)
next
  case OP_COMMIT
  with assms(3) obtain p where p: "rr_prepare r = Some p" by auto
  have "only_asserts (replica_commit env r s)"
    using assms(2) p replica_coordinator_prepare_only_asserts [OF assms(1), of r p]
    by (auto simp: replica_commit_def Let_def thenS_def bindS_def getS_def emitS_def modS_def intro!: only_asserts_bind)
  then show ?thesis using OP_COMMIT
    by (auto simp: ReplicaUpcall_def thenS_def returnS_def intro!: only_asserts_bindS)
qed (use assms(3) in auto)


text \<open>Locks granted at once queue nobody.\<close>

definition queues_none :: "reply_code \<times> wound_wait \<times> txn_id uset \<Rightarrow> bool" where
  "queues_none = (\<lambda>(ret, ls, _). granted_or_waits ret \<and> (ret = REPLY_OK \<longrightarrow> (\<forall>k. l_wait_q (lock_at ls k) = [])))"

lemma granted_queues_none:
  "TryAcquireReadLock t ts l w = Inr (REPLY_OK, l', w') \<Longrightarrow> l_wait_q l = [] \<Longrightarrow> l_wait_q l' = []"
  "TryAcquireWriteLock t ts l w = Inr (REPLY_OK, l', w') \<Longrightarrow> l_wait_q l = [] \<Longrightarrow> l_wait_q l' = []"
  by (auto simp: TryAcquireReadLock_def TryAcquireWriteLock_def Let_def split: if_splits prod.splits)

lemma acquire_reads_queues_none:
  assumes "acquire_each (\<lambda>k. LockForRead k t ts) ks st = Inr st'" and "queues_none st"
  shows "queues_none st'"
  using assms(1) unfolding acquire_each_def
proof (rule foldE_invariant [where I = queues_none])
  fix k x x'
  assume "(case x of (ret, s, wound) \<Rightarrow> bindE (LockForRead k t ts s wound)
      (\<lambda>(status, s', wound'). Inr (merge_status ret status, s', wound'))) = Inr x'" and I: "queues_none x"
  then obtain ret ls w st l w' where x: "x = (ret, ls, w)" and x': "x' = (merge_status ret st, um_put k l ls, w')"
    and l: "TryAcquireReadLock t ts (lock_at ls k) w = Inr (st, l, w')"
    by (cases x) (auto simp: LockForRead_def fst_um_ref_lock)
  have "granted_or_waits st" using l by (auto simp: TryAcquireReadLock_def granted_or_waits_def Let_def split: if_splits prod.splits)
  with I x x' granted_queues_none(1) [of t ts _ w l w'] l show "queues_none x'"
    by (auto simp: queues_none_def granted_or_waits_def merge_status_def)
qed (rule assms(2))

lemma acquire_writes_queues_none:
  assumes "acquire_each (\<lambda>k. LockForWrite k t ts) ks st = Inr st'" and "queues_none st"
  shows "queues_none st'"
  using assms(1) unfolding acquire_each_def
proof (rule foldE_invariant [where I = queues_none])
  fix k x x'
  assume "(case x of (ret, s, wound) \<Rightarrow> bindE (LockForWrite k t ts s wound)
      (\<lambda>(status, s', wound'). Inr (merge_status ret status, s', wound'))) = Inr x'" and I: "queues_none x"
  then obtain ret ls w st l w' where x: "x = (ret, ls, w)" and x': "x' = (merge_status ret st, um_put k l ls, w')"
    and l: "TryAcquireWriteLock t ts (lock_at ls k) w = Inr (st, l, w')"
    by (cases x) (auto simp: LockForWrite_def fst_um_ref_lock)
  have "granted_or_waits st" using write_reply [OF l] by (auto simp: granted_or_waits_def)
  with I x x' granted_queues_none(2) [of t ts _ w l w'] l show "queues_none x'"
    by (auto simp: queues_none_def granted_or_waits_def merge_status_def)
qed (rule assms(2))

lemma AcquireLocks_queues_none:
  assumes "AcquireLocks t txn ls = Inr (ar, ls')" and "la_status ar = ACQUIRED" and "\<forall>k. l_wait_q (lock_at ls k) = []"
  shows "l_wait_q (lock_at ls' k) = []"
proof -
  from assms(1) obtain st ret w where
    1: "acquire_each (\<lambda>k. LockForRead k t (start_time txn)) (um_keys (readSet txn)) (REPLY_OK, ls, []) = Inr st"
    and 2: "acquire_each (\<lambda>k. LockForWrite k t (start_time txn)) (um_keys (writeSet txn)) st = Inr (ret, ls', w)"
    and 3: "lock_result ret ls' w = Inr (ar, ls')"
    by (auto simp: AcquireLocks_def lock_result_def)
  have "queues_none (REPLY_OK, ls, [])" using assms(3) by (simp add: queues_none_def granted_or_waits_def)
  from acquire_writes_queues_none [OF 2 acquire_reads_queues_none [OF 1 this]] 3 assms(2)
  show ?thesis by (auto simp: queues_none_def lock_result_def ConvertToResultStatus_def granted_or_waits_def)
qed

lemma replica_coordinator_prepare_queues:
  assumes "replica_coordinator_prepare r p s = Inr ((), s')" and "no_queues s"
  shows "no_queues s'"
proof -
  from assms(1) obtain ar ls where
    "AcquireLocks (rr_txnid r) (Transaction_parse (op_txn p)) (sv_locks s) = Inr (ar, ls)"
    and "la_status ar = ACQUIRED" and "sv_locks s' = ls"
    by (auto simp: replica_coordinator_prepare_def Let_def bindS_Inr assertS_Inr getS_def txn_call_def
        lock_call_def txn_step_def split: if_splits dest!: receive_prepare_oks_locks)
  with AcquireLocks_queues_none assms(2) show ?thesis by (auto simp: no_queues_def)
qed

text \<open>
  \<^bold>\<open>C37\<close> Two conflicting operations in a row stop a replica. The commit of a coordinator
  takes the locks of the transaction at once and releases them when its commit timer fires.
  When the next operation of the log, a prepare or a commit of another transaction that the
  replica does not know yet, writes one of its keys, executing it before the timer fires
  fails an assertion, whatever the contents. Nobody queues for a lock of the replica before
  the first operation, as at every replica that only executes the log.
\<close>

theorem conflicting_operations_assert:
  assumes "ReplicaUpcall env r1 s = Inr (st, s1)" and "rr_op r1 = OP_COMMIT" and "rr_prepare r1 = Some p"
    and "GetRWTransactionState (sv_transactions s) (rr_txnid r1) \<noteq> COMMITTING" and "ww_inv (sv_locks s)" and "no_queues s"
    and "k \<in> set (um_keys (writeSet (Transaction_parse (op_txn p))))"
    and "rr_op r2 = OP_PREPARE \<or> rr_op r2 = OP_COMMIT \<and> rr_prepare r2 \<noteq> None"
    and "GetRWTransactionState (sv_transactions s1) (rr_txnid r2) = NOT_FOUND" and "rr_txnid r1 \<noteq> rr_txnid r2"
    and "k \<in> set (um_keys (writeSet (Transaction_parse (op_txn (get_prepare r2)))))"
  shows "ReplicaUpcall env r2 s1 = Inl AssertFailed"
proof -
  from ReplicaUpcall_commit_prepares [OF assms(1-4)] obtain s0 where
    s0: "replica_coordinator_prepare r1 p s = Inr ((), s0)" and l: "sv_locks s1 = sv_locks s0" by blast
  with replica_coordinator_prepare_locks [of r1 p s s0 k] assms(5,7) have
    held: "ww_inv (sv_locks s1)" "holds_write (lock_at (sv_locks s1) k) (rr_txnid r1)" by auto
  have "ReplicaUpcall env r2 s1 \<noteq> Inr (x, s2)" for x s2
  proof (cases "rr_op r2")
    case OP_PREPARE
    with replica_prepare_conflict [OF held assms(10,11,9)] show ?thesis by (simp add: ReplicaUpcall_def)
  next
    case OP_COMMIT
    with assms(8) obtain p2 where p2: "rr_prepare r2 = Some p2" by auto
    with assms(11) have "k \<in> set (um_keys (writeSet (Transaction_parse (op_txn p2))))" by (simp add: get_prepare_def)
    from replica_coordinator_prepare_conflict [OF held assms(10) this] OP_COMMIT p2 assms(9) show ?thesis
      using ReplicaUpcall_commit_prepares [of env r2 s1 x s2 p2] by auto
  qed (use assms(8) in auto)
  moreover have "no_queues s1" using replica_coordinator_prepare_queues [OF s0 assms(6)] l by (simp add: no_queues_def)
  from ReplicaUpcall_only_asserts [OF this assms(9,8), of env] have "only_asserts (ReplicaUpcall env r2 s1)" .
  ultimately show ?thesis by (cases "ReplicaUpcall env r2 s1") auto
qed

definition conflict_op :: "u64 \<Rightarrow> u64 \<Rightarrow> replica_request" where
  "conflict_op t ts = \<lparr>rr_op = OP_COMMIT, rr_txnid = t,
     rr_prepare = Some \<lparr>op_txn = \<lparr>msg_starttime = Timestamp 3 t, msg_readset = [], msg_writeset = [(''x'', ''v'')]\<rparr>,
       op_timestamp = Timestamp 3 t, op_coordinator = 0, op_participants = [0], op_nonblock_ts = Timestamp 0 0\<rparr>,
     rr_commit = Some (Timestamp ts t)\<rparr>"

definition conflict_server :: server where
  "conflict_server = snd (projr (ReplicaUpcall demo_env (conflict_op 21 40) demo_loaded))"

lemma conflicting_operations_assert_witness:
  "ReplicaUpcall demo_env (conflict_op 21 40) demo_loaded = Inr (REPLY_OK, conflict_server) \<and>
   ReplicaUpcall demo_env (conflict_op 22 50) conflict_server = Inl AssertFailed"
proof
  show run: "ReplicaUpcall demo_env (conflict_op 21 40) demo_loaded = Inr (REPLY_OK, conflict_server)" by code_simp
  have "sv_locks demo_loaded = []" by code_simp
  then have 1: "ww_inv (sv_locks demo_loaded)" "no_queues demo_loaded"
    by (simp_all add: no_queues_def lock_at_def Lock_init_def)
  have 2: "GetRWTransactionState (sv_transactions demo_loaded) (rr_txnid (conflict_op 21 40)) \<noteq> COMMITTING" by code_simp
  have 3: "GetRWTransactionState (sv_transactions conflict_server) (rr_txnid (conflict_op 22 50)) = NOT_FOUND" by code_simp
  show "ReplicaUpcall demo_env (conflict_op 22 50) conflict_server = Inl AssertFailed"
    by (rule conflicting_operations_assert [where k = "''x''" and p = "the (rr_prepare (conflict_op 21 40))", OF run _ _ 2 1 _ _ 3])
      (simp_all add: conflict_op_def get_prepare_def Transaction_parse_def)
qed

end
