(* ===== verification/ServerTxns.thy ===== *)
theory ServerTxns
  imports ServerFrame
begin

text \<open>
  What becomes of one transaction of a shard while its server (\<open>src/store/strongstore/server.cc\<close>)
  goes on: from the commit message of its client to its commit, no step that does not enter
  reads or writes of this transaction changes its entry in the transaction store.
\<close>

section \<open>The pending transaction\<close>

definition txn_at :: "transaction_store \<Rightarrow> txn_id \<Rightarrow> transaction" where
  "txn_at tx t = rw_transaction (rw_ref tx t)"

lemma set_coordinator_txn: "set_coordinator c p = Inr p' \<Longrightarrow> rw_transaction p' = rw_transaction p"
  by (auto simp: set_coordinator_def split: if_splits)

text \<open>A transaction the store does not know has empty sets.\<close>

lemma unknown_txn:
  "GetRWTransactionState tx t = NOT_FOUND \<Longrightarrow> rw_state (rw_ref tx t) \<noteq> NOT_FOUND \<Longrightarrow> txn_at tx t = Transaction_init"
  by (auto simp: GetRWTransactionState_def rw_ref_def txn_at_def PendingRW_init_def split: if_splits option.splits)

section \<open>What other steps keep of a pending transaction\<close>

definition ended :: "txn_id \<Rightarrow> transaction_store \<Rightarrow> bool" where
  "ended t tx \<longleftrightarrow> t \<in> set (ts_committed tx) \<or> t \<in> set (ts_aborted tx)"

definition pending_txn :: "transaction_store \<Rightarrow> txn_id \<Rightarrow> transaction option" where
  "pending_txn tx t = map_option rw_transaction (map_of (ts_pending_rw tx) t)"

lemma not_ended: "GetRWTransactionState tx t \<notin> {COMMITTED, ABORTED} \<Longrightarrow> \<not> ended t tx"
  by (cases "t \<in> set (ts_committed tx)"; cases "t \<in> set (ts_aborted tx)") (simp_all add: GetRWTransactionState_def ended_def)

text \<open>Until a transaction has ended it keeps its entry, with the same reads and writes.\<close>

definition txn_kept :: "txn_id \<Rightarrow> transaction_store \<Rightarrow> transaction_store \<Rightarrow> bool" where
  "txn_kept t tx tx' \<longleftrightarrow> (ended t tx \<longrightarrow> ended t tx') \<and>
     (\<forall>txn. pending_txn tx t = Some txn \<longrightarrow> ended t tx' \<or> pending_txn tx' t = Some txn)"

lemma txn_kept_refl [simp]: "txn_kept t tx tx"
  by (simp add: txn_kept_def)

lemma txn_kept_trans: "txn_kept t tx tx' \<Longrightarrow> txn_kept t tx' tx'' \<Longrightarrow> txn_kept t tx tx''"
  by (auto simp: txn_kept_def)

lemma txn_kept_set_rw:
  "u \<noteq> t \<or> rw_transaction p = rw_transaction (rw_ref tx u) \<Longrightarrow> txn_kept t tx (set_rw u p tx)"
  by (auto simp: txn_kept_def ended_def pending_txn_def set_rw_def rw_ref_def split: option.splits)

lemma txn_kept_same:
  "ts_pending_rw tx' = ts_pending_rw tx \<Longrightarrow> set (ts_committed tx) \<subseteq> set (ts_committed tx') \<Longrightarrow>
    set (ts_aborted tx) \<subseteq> set (ts_aborted tx') \<Longrightarrow> txn_kept t tx tx'"
  by (auto simp: txn_kept_def ended_def pending_txn_def)

lemma txn_kept_erase:
  assumes "ts_pending_rw tx' = um_erase u (ts_pending_rw tx)" and "ended u tx'"
    and "set (ts_committed tx) \<subseteq> set (ts_committed tx')" and "set (ts_aborted tx) \<subseteq> set (ts_aborted tx')"
  shows "txn_kept t tx tx'"
  using assms by (auto simp: txn_kept_def ended_def pending_txn_def)

lemma finish_rw_frame:
  "finish_rw t tx = Inr (fr, tx') \<Longrightarrow> ts_pending_rw tx' = um_erase t (ts_pending_rw tx) \<and>
    ts_committed tx' = ts_committed tx \<and> ts_aborted tx' = ts_aborted tx"
  by (auto simp: finish_rw_def erase_rw_def)

lemma StartRO_scan_kept:
  "map (\<lambda>(t, p). (t, rw_transaction p)) (fst (StartRO_scan c r ks mts cts m sk n)) = map (\<lambda>(t, p). (t, rw_transaction p)) m"
  by (induction c r ks mts cts m sk n rule: StartRO_scan.induct) (auto simp: split_def Let_def split: ro_verdict.split)

lemma map_of_transactions: "map_option rw_transaction (map_of m t) = map_of (map (\<lambda>(t, p). (t, rw_transaction p)) m) t"
  by (simp add: map_of_map)

lemma StartRO_kept: "StartRO r ks mts cts tx = Inr (st, tx') \<Longrightarrow> txn_kept t tx tx'"
  using StartRO_scan_kept [of "ts_consistency tx" r ks mts cts "ts_pending_rw tx" "ro_skipped_rws (ro_ref tx r)" 0]
  by (auto simp: StartRO_def txn_kept_def ended_def pending_txn_def set_ro_def map_of_transactions Let_def
      simp del: map_option_eq_Some split: prod.splits)

lemma store_op_kept: "store_op (\<lambda>u. u \<noteq> t) tx tx' \<Longrightarrow> txn_kept t tx tx'"
proof (induction rule: store_op.induct)
  case (11 u tx tx')
  then show ?case by (intro txn_kept_erase [of _ u]) (auto simp: AbortPrepare_def erase_rw_def ended_def)
next
  case (5 u k tx tx')
  then show ?case by (intro txn_kept_erase [of _ u]) (auto simp: AbortGet_def erase_rw_def ended_def)
next
  case (16 u tx fr tx')
  then show ?case by (intro txn_kept_erase [of _ u]) (auto simp: Commit_def ended_def dest!: finish_rw_frame)
next
  case (17 u tx fr tx')
  then show ?case by (intro txn_kept_erase [of _ u]) (auto simp: Abort_def ended_def dest!: finish_rw_frame)
next
  case (18 r ks mts cts tx st tx')
  then show ?case by (rule StartRO_kept)
qed (auto simp: StartGet_def StartCoordinatorPrepare_def StartParticipantPrepare_def FinishGet_def PauseGet_def
    ContinueGet_def FinishCoordinatorPrepare_def PendingRW_FinishCoordinatorPrepare_def SetParticipantPrepareTimestamp_def
    FinishParticipantPrepare_def PausePrepare_def ContinuePrepare_def advance_nonblock_ts_def CoordinatorReceivePrepareOK_def
    PendingRW_ReceivePrepareOK_def ParticipantReceivePrepareOK_def ContinueRO_def StartROSlowPath_def FinishROSlowPath_def
    CommitRO_def finish_ro_def set_ro_def Let_def split: if_splits dest!: set_coordinator_txn
    intro!: txn_kept_set_rw intro: txn_kept_same)

definition server_kept :: "txn_id \<Rightarrow> server \<Rightarrow> server \<Rightarrow> bool" where
  "server_kept t s s' \<longleftrightarrow> txn_kept t (sv_transactions s) (sv_transactions s')"

lemma server_kept_same: "sv_transactions s' = sv_transactions s \<Longrightarrow> server_kept t s s'"
  by (simp add: server_kept_def)

lemma txn_kept_step: "store_op (\<lambda>u. u \<noteq> t) (sv_transactions s) tx \<Longrightarrow> server_kept t s (s\<lparr>sv_transactions := tx\<rparr>)"
  by (simp add: server_kept_def store_op_kept)

lemma FinishCoordinatorPrepare_kept: "FinishCoordinatorPrepare u ts tx = Inr tx' \<Longrightarrow> txn_kept t tx tx'"
  by (rule store_op_kept) (rule store_op.intros)

lemma SetParticipantPrepareTimestamp_kept: "SetParticipantPrepareTimestamp u ts tx = Inr tx' \<Longrightarrow> txn_kept t tx tx'"
  by (rule store_op_kept) (rule store_op.intros)

lemma coordinator_prepared_kept:
  "coordinator_prepared env u i s = Inr (cts, s') \<Longrightarrow> txn_kept t (sv_transactions s) (sv_transactions s')"
  by (auto simp: coordinator_prepared_def bindS_Inr thenS_Inr Server_GetPrepareTimestamp_def Let_def ttNow_def getS_def
      modS_def returnS_def txn_step_def txn_get_def dest!: FinishCoordinatorPrepare_kept)

lemma participant_prepared_kept:
  "participant_prepared env u i s = Inr (pts, s') \<Longrightarrow> txn_kept t (sv_transactions s) (sv_transactions s')"
  by (auto simp: participant_prepared_def bindS_Inr thenS_Inr Server_GetPrepareTimestamp_def Let_def ttNow_def getS_def
      modS_def returnS_def txn_step_def txn_get_def dest!: SetParticipantPrepareTimestamp_kept)

interpretation txns: server_handlers "server_kept t" env "\<lambda>u. u \<noteq> t" "\<lambda>_. True" "\<lambda>_. True" for t env
proof (unfold_locales, goal_cases)
  case (2 s s' s'')
  then show ?case by (simp add: server_kept_def) (rule txn_kept_trans)
next
  case (3 s tx)
  then show ?case by (rule txn_kept_step)
next
  case (14 u i txn)
  show ?case by (auto simp: keepsS_def server_kept_def bindS_Inr coordinator_commit_def txn_get_def getS_def emitS_def modS_def
      dest!: coordinator_prepared_kept)
next
  case (15 u i txn c)
  show ?case by (auto simp: keepsS_def server_kept_def bindS_Inr txn_get_def emitS_def modS_def dest!: participant_prepared_kept)
next
  case (23 u i q start me ps txn nb)
  show ?case by (auto simp: keepsS_def server_kept_def bindS_Inr thenS_Inr put_c_def emitS_def modS_def
      dest!: coordinator_prepared_kept)
next
  case (24 u i q txn c nb)
  show ?case by (auto simp: keepsS_def server_kept_def bindS_Inr thenS_Inr put_p_def emitS_def modS_def
      dest!: participant_prepared_kept)
qed (simp_all add: server_kept_same)

section \<open>What the coordinator enters\<close>

text \<open>The transaction that the entry of \<open>t\<close> holds after a coordinator has started to prepare it.\<close>

definition entered_txn :: "transaction_message \<Rightarrow> transaction \<Rightarrow> transaction" where
  "entered_txn msg old = set_start_time (msg_starttime msg) (add_read_write_sets (Transaction_parse msg) old)"

lemma StartCoordinatorPrepare_enters:
  assumes "StartCoordinatorPrepare t start c ps (Transaction_parse msg) nts tx = Inr (st, tx')" and "\<not> ended t tx"
  shows "pending_txn tx' t = Some (entered_txn msg (txn_at tx t))"
  using assms
  by (auto simp: StartCoordinatorPrepare_def PendingRW_StartCoordinatorPrepare_def set_rw_def rw_ref_def txn_at_def
      ended_def pending_txn_def entered_txn_def Transaction_parse_def dest!: set_coordinator_txn split: option.splits)

text \<open>The handler of a coordinator's commit message, with what follows \<open>StartCoordinatorPrepare\<close> apart.\<close>

definition coordinator_rest :: "server_env \<Rightarrow> addr \<Rightarrow> request_id \<Rightarrow> txn_id \<Rightarrow> transaction \<Rightarrow> timestamp \<Rightarrow> timestamp \<Rightarrow> int \<Rightarrow>
    int uset \<Rightarrow> transaction_state \<Rightarrow> unit sv" where
  "coordinator_rest env a rid t txn nts start me ps st =
     (if st = PREPARING
      then bindS (lock_call (AcquireLocks t txn)) (\<lambda>ar. case la_status ar of
          ACQUIRED \<Rightarrow> assertS (la_wound_rws ar = [])
            (bindS (coordinator_prepared env t (rid_client_id rid)) (\<lambda>commit_ts.
             thenS (put_c t (pending_of rid a)) (emitS (ReplicaCoordinatorCommit t start me ps txn nts commit_ts))))
        | LOCK_FAIL \<Rightarrow> assertS (la_wound_rws ar = [])
            (bindS (release t txn) (\<lambda>rws. thenS (coordinator_reply_fail (pending_of rid a))
              (thenS (notify_rws env t rws) (txn_step (AbortPrepare t)))))
        | WAITING \<Rightarrow> thenS (put_c t (pending_of rid a)) (pause env t (la_wound_rws ar)))
      else if st = ABORTED then thenS (coordinator_reply_fail (pending_of rid a)) (SendAbortParticipants t ps)
      else if st = WAIT_PARTICIPANTS then put_c t (pending_of rid a)
      else failS NotReachable)"

lemma HandleRWCommitCoordinator_rest:
  assumes "HandleRWCommitCoordinator env a rid t msg nts ps s = Inr ((), s')"
  obtains start me st tx where "StartCoordinatorPrepare t start me (us_add_all ps []) (Transaction_parse msg) nts (sv_transactions s)
      = Inr (st, tx)"
    and "coordinator_rest env a rid t (Transaction_parse msg) nts start me (us_add_all ps []) st
      (s\<lparr>sv_ticks := Suc (sv_ticks s), sv_transactions := tx\<rparr>) = Inr ((), s')"
  using assms
  by (auto simp: HandleRWCommitCoordinator_def Let_def bindS_Inr [of "ttNow _"] bindS_Inr [of "getS _"] bindS_Inr [of "txn_call _"]
      ttNow_def getS_def txn_call_def coordinator_rest_def [symmetric] intro!: that)

lemma coordinator_rest_kept: "keepsS (server_kept t) (coordinator_rest env a rid t txn nts start me ps st)"
  unfolding coordinator_rest_def by (intro txns.handler_rules txns.keep_SendAbortParticipants)

lemma HandleRWCommitCoordinator_enters:
  assumes "HandleRWCommitCoordinator env a rid t msg nts ps s = Inr ((), s')" and "\<not> ended t (sv_transactions s)"
  shows "ended t (sv_transactions s') \<or>
    pending_txn (sv_transactions s') t = Some (entered_txn msg (txn_at (sv_transactions s) t))"
proof -
  from assms(1) obtain start me st tx where
    "StartCoordinatorPrepare t start me (us_add_all ps []) (Transaction_parse msg) nts (sv_transactions s) = Inr (st, tx)"
    and rest: "coordinator_rest env a rid t (Transaction_parse msg) nts start me (us_add_all ps []) st
      (s\<lparr>sv_ticks := Suc (sv_ticks s), sv_transactions := tx\<rparr>) = Inr ((), s')"
    by (rule HandleRWCommitCoordinator_rest)
  with StartCoordinatorPrepare_enters [OF this(1) assms(2)] keepsSD [OF coordinator_rest_kept rest] show ?thesis by (auto simp: server_kept_def txn_kept_def)
qed

text \<open>While the transaction is committing, its entry is the one that was entered.\<close>

lemma committing_entry:
  assumes "ended t (sv_transactions s) \<or> pending_txn (sv_transactions s) t = Some txn"
    and "(server_step_of env (\<lambda>u. u \<noteq> t) (\<lambda>_. True) (\<lambda>_. True))\<^sup>*\<^sup>* s s'"
    and "GetRWTransactionState (sv_transactions s') t = COMMITTING"
  shows "GetTransaction (sv_transactions s') t = Inr txn"
proof -
  have "\<not> ended t (sv_transactions s')"
    using assms(3) by (auto simp: GetRWTransactionState_def ended_def split: if_splits)
  with txns.steps_kept [OF assms(2)] assms(1) have "pending_txn (sv_transactions s') t = Some txn"
    by (auto simp: server_kept_def txn_kept_def)
  then show ?thesis by (auto simp: pending_txn_def GetTransaction_def find_rw_def)
qed

end
