(* ===== verification/ShardClient.thy ===== *)
theory ShardClient
  imports ShardProtocol
begin

text \<open>
  \<open>src/store/strongstore/shardclient.{h,cc}\<close>: the client of one shard, used by the
  application's client and by the other shards. It keeps the read and write sets of the
  transactions, gives every request a number, and calls the callback of a request when the
  reply with its number arrives.

  A callback is a value of the type variable \<open>'cb\<close>; sending a message and calling a callback
  are appended to a trace. Timeouts are never set in the code.
\<close>

section \<open>State\<close>

datatype 'cb sc_event =
    ToReplica int nat shard_request
  | CalledGet 'cb reply_code key val timestamp
  | CalledPut 'cb reply_code key val
  | CalledRO 'cb int "read_value list" "prepared_transaction list"
  | CalledROSlow 'cb int txn_id timestamp bool
  | CalledCoord 'cb reply_code timestamp timestamp
  | CalledPart 'cb reply_code
  | CalledPrepare 'cb reply_code timestamp
  | CalledAbort 'cb
  | CalledWound txn_id

record 'cb pending_ro_commit =
  pr_transaction_id :: txn_id
  pr_ccb :: 'cb
  pr_cscb :: 'cb
  pr_n_slow_replies :: u64

record 'cb sclient =
  sc_transactions :: "(txn_id, transaction) umap"
  sc_read_sets :: "(txn_id, (key, val) umap) umap"
  sc_gets :: "(u64, txn_id \<times> key \<times> 'cb) umap"
  sc_coord_commits :: "(u64, txn_id \<times> 'cb) umap"
  sc_part_commits :: "(u64, txn_id \<times> 'cb) umap"
  sc_prepare_oks :: "(u64, txn_id \<times> 'cb) umap"
  sc_prepare_aborts :: "(u64, txn_id \<times> 'cb) umap"
  sc_aborts :: "(u64, txn_id \<times> 'cb) umap"
  sc_ro_commits :: "(u64, 'cb pending_ro_commit) umap"
  sc_last_req_id :: u64
  sc_client_id :: u64
  sc_shard_idx :: int
  sc_replica :: nat
  sc_trace :: "'cb sc_event list"

definition ShardClient_init :: "u64 \<Rightarrow> int \<Rightarrow> 'cb sclient" where
  "ShardClient_init client shard =
     \<lparr>sc_transactions = [], sc_read_sets = [], sc_gets = [], sc_coord_commits = [], sc_part_commits = [],
      sc_prepare_oks = [], sc_prepare_aborts = [], sc_aborts = [], sc_ro_commits = [], sc_last_req_id = 0,
      sc_client_id = client, sc_shard_idx = shard, sc_replica = 0, sc_trace = []\<rparr>"

definition emit :: "'cb sc_event \<Rightarrow> 'cb sclient \<Rightarrow> 'cb sclient" where
  "emit e c = c\<lparr>sc_trace := sc_trace c @ [e]\<rparr>"

text \<open>The id of the request being sent, and sending it: the number moves on.\<close>

definition sc_rid :: "'cb sclient \<Rightarrow> request_id" where
  "sc_rid c = \<lparr>rid_client_id = sc_client_id c, rid_client_req_id = sc_last_req_id c\<rparr>"

definition send_request :: "shard_request \<Rightarrow> 'cb sclient \<Rightarrow> 'cb sclient" where
  "send_request m c = emit (ToReplica (sc_shard_idx c) (sc_replica c) m) (c\<lparr>sc_last_req_id := sc_last_req_id c + 1\<rparr>)"

text \<open>\<open>transactions_.find\<close> with the assertion that follows.\<close>

definition find_txn :: "txn_id \<Rightarrow> 'cb sclient \<Rightarrow> transaction outcome" where
  "find_txn t c = (case map_of (sc_transactions c) t of None \<Rightarrow> Inl AssertFailed | Some txn \<Rightarrow> Inr txn)"

definition erase_txn :: "txn_id \<Rightarrow> 'cb sclient \<Rightarrow> 'cb sclient" where
  "erase_txn t c = c\<lparr>sc_transactions := um_erase t (sc_transactions c), sc_read_sets := um_erase t (sc_read_sets c)\<rparr>"

section \<open>Transactions and reads\<close>

definition ShardClient_Begin :: "txn_id \<Rightarrow> timestamp \<Rightarrow> 'cb sclient \<Rightarrow> 'cb sclient outcome" where
  "ShardClient_Begin t start c = assertE (\<not> um_has (sc_transactions c) t)
     (Inr (c\<lparr>sc_transactions := um_put t (set_start_time start Transaction_init) (sc_transactions c)\<rparr>))"

text \<open>No code calls this function.\<close>

definition CheckPriorReadsAndWrites :: "txn_id \<Rightarrow> key \<Rightarrow> 'cb \<Rightarrow> 'cb sclient \<Rightarrow> bool \<times> 'cb sclient" where
  "CheckPriorReadsAndWrites t k gcb c =
     (case map_of (sc_transactions c) t of
        None \<Rightarrow> (False, c)
      | Some txn \<Rightarrow> (case map_of (writeSet txn) k of
          Some v \<Rightarrow> (True, emit (CalledGet gcb REPLY_OK k v Timestamp_zero) c)
        | None \<Rightarrow> (case map_of (sc_read_sets c) t of
            None \<Rightarrow> (False, c)
          | Some rs \<Rightarrow> (case map_of rs k of
              None \<Rightarrow> (False, c)
            | Some v \<Rightarrow> (True, emit (CalledGet gcb REPLY_OK k v Timestamp_zero) c)))))"

definition ShardClient_get :: "txn_id \<Rightarrow> key \<Rightarrow> 'cb \<Rightarrow> bool \<Rightarrow> 'cb sclient \<Rightarrow> 'cb sclient outcome" where
  "ShardClient_get t k gcb for_update c =
     bindE (find_txn t c) (\<lambda>txn.
       Inr (send_request (Msg_Get (sc_rid c) t k (start_time txn) for_update)
         (c\<lparr>sc_gets := um_put (sc_last_req_id c) (t, k, gcb) (sc_gets c)\<rparr>)))"

definition ShardClient_Get :: "txn_id \<Rightarrow> key \<Rightarrow> 'cb \<Rightarrow> 'cb sclient \<Rightarrow> 'cb sclient outcome" where
  "ShardClient_Get t k gcb c = ShardClient_get t k gcb False c"

definition ShardClient_GetForUpdate :: "txn_id \<Rightarrow> key \<Rightarrow> 'cb \<Rightarrow> 'cb sclient \<Rightarrow> 'cb sclient outcome" where
  "ShardClient_GetForUpdate t k gcb c = ShardClient_get t k gcb True c"

text \<open>Adding to the two read sets creates what is missing.\<close>

definition add_read :: "txn_id \<Rightarrow> key \<Rightarrow> val \<Rightarrow> timestamp \<Rightarrow> 'cb sclient \<Rightarrow> 'cb sclient" where
  "add_read t k v ts c = c\<lparr>
     sc_transactions := um_put t (addReadSet k ts (fst (um_ref Transaction_init (sc_transactions c) t))) (sc_transactions c),
     sc_read_sets := um_put t (um_put k v (fst (um_ref [] (sc_read_sets c) t))) (sc_read_sets c)\<rparr>"

definition HandleGetReply :: "request_id \<Rightarrow> reply_code \<Rightarrow> val option \<Rightarrow> timestamp option \<Rightarrow> 'cb sclient \<Rightarrow> 'cb sclient" where
  "HandleGetReply rid status rval rts c =
     (case map_of (sc_gets c) (rid_client_req_id rid) of
        None \<Rightarrow> c
      | Some (t, k, gcb) \<Rightarrow>
          (let v = (if status = REPLY_OK then (case rval of None \<Rightarrow> [] | Some v \<Rightarrow> v) else []);
               ts = (if status = REPLY_OK then (case rts of None \<Rightarrow> Timestamp_zero | Some ts \<Rightarrow> ts) else Timestamp_zero) in
           emit (CalledGet gcb status k v ts)
             (add_read t k v ts (c\<lparr>sc_gets := um_erase (rid_client_req_id rid) (sc_gets c)\<rparr>))))"

definition ShardClient_Put :: "txn_id \<Rightarrow> key \<Rightarrow> val \<Rightarrow> 'cb \<Rightarrow> 'cb sclient \<Rightarrow> 'cb sclient outcome" where
  "ShardClient_Put t k v pcb c =
     bindE (find_txn t c) (\<lambda>txn.
       Inr (emit (CalledPut pcb REPLY_OK k v) (c\<lparr>sc_transactions := um_put t (addWriteSet k v txn) (sc_transactions c)\<rparr>)))"

section \<open>Read-only transactions\<close>

text \<open>The keys are sent through \<open>c_str()\<close>.\<close>

definition ShardClient_ROCommit :: "txn_id \<Rightarrow> key list \<Rightarrow> timestamp \<Rightarrow> timestamp \<Rightarrow> 'cb \<Rightarrow> 'cb \<Rightarrow> 'cb sclient \<Rightarrow> 'cb sclient" where
  "ShardClient_ROCommit t ks commit_ts min_read_ts ccb cscb c =
     send_request (Msg_ROCommit (sc_rid c) t commit_ts min_read_ts (map c_str ks))
       (c\<lparr>sc_ro_commits := um_put (sc_last_req_id c)
          \<lparr>pr_transaction_id = t, pr_ccb = ccb, pr_cscb = cscb, pr_n_slow_replies = 0\<rparr> (sc_ro_commits c)\<rparr>)"

definition HandleROCommitSlowReply :: "request_id \<Rightarrow> txn_id \<Rightarrow> timestamp \<Rightarrow> bool \<Rightarrow> 'cb sclient \<Rightarrow> 'cb sclient outcome" where
  "HandleROCommitSlowReply rid t commit_ts is_commit c =
     (case map_of (sc_ro_commits c) (rid_client_req_id rid) of
        None \<Rightarrow> Inr c
      | Some req \<Rightarrow> assertE (pr_n_slow_replies req > 0)
          (let req1 = req\<lparr>pr_n_slow_replies := pr_n_slow_replies req - 1\<rparr> in
           Inr (emit (CalledROSlow (pr_cscb req) (sc_shard_idx c) t commit_ts is_commit)
             (c\<lparr>sc_ro_commits := (if pr_n_slow_replies req1 = 0 then um_erase (rid_client_req_id rid) (sc_ro_commits c)
                else um_put (rid_client_req_id rid) req1 (sc_ro_commits c))\<rparr>))))"

definition HandleROCommitReply :: "request_id \<Rightarrow> read_value list \<Rightarrow> prepared_transaction_message list \<Rightarrow>
    'cb sclient \<Rightarrow> 'cb sclient outcome" where
  "HandleROCommitReply rid values msg_prepares c =
     (case map_of (sc_ro_commits c) (rid_client_req_id rid) of
        None \<Rightarrow> Inr c
      | Some req \<Rightarrow> assertE (pr_n_slow_replies req = 0)
          (let prepares = map PreparedTransaction_parse msg_prepares in
           Inr (emit (CalledRO (pr_ccb req) (sc_shard_idx c) values prepares)
             (c\<lparr>sc_ro_commits := (if prepares = [] then um_erase (rid_client_req_id rid) (sc_ro_commits c)
                else um_put (rid_client_req_id rid) (req\<lparr>pr_n_slow_replies := of_nat (length prepares)\<rparr>) (sc_ro_commits c))\<rparr>))))"

section \<open>Committing\<close>

definition ShardClient_RWCommitCoordinator :: "txn_id \<Rightarrow> int list \<Rightarrow> timestamp \<Rightarrow> 'cb \<Rightarrow> 'cb sclient \<Rightarrow> 'cb sclient outcome" where
  "ShardClient_RWCommitCoordinator t participants nonblock_ts ccb c =
     bindE (find_txn t c) (\<lambda>txn.
       Inr (send_request (Msg_RWCommitCoordinator (sc_rid c) t (Transaction_serialize txn) nonblock_ts participants)
         (c\<lparr>sc_coord_commits := um_put (sc_last_req_id c) (t, ccb) (sc_coord_commits c)\<rparr>)))"

definition HandleRWCommitCoordinatorReply :: "request_id \<Rightarrow> reply_code \<Rightarrow> timestamp option \<Rightarrow> timestamp option \<Rightarrow>
    'cb sclient \<Rightarrow> 'cb sclient" where
  "HandleRWCommitCoordinatorReply rid status commit_ts nonblock_ts c =
     (case map_of (sc_coord_commits c) (rid_client_req_id rid) of
        None \<Rightarrow> c
      | Some (t, ccb) \<Rightarrow>
          emit (CalledCoord ccb status (case commit_ts of None \<Rightarrow> Timestamp_zero | Some ts \<Rightarrow> ts)
              (case nonblock_ts of None \<Rightarrow> Timestamp_zero | Some ts \<Rightarrow> ts))
            (erase_txn t (c\<lparr>sc_coord_commits := um_erase (rid_client_req_id rid) (sc_coord_commits c)\<rparr>)))"

definition ShardClient_RWCommitParticipant :: "txn_id \<Rightarrow> int \<Rightarrow> timestamp \<Rightarrow> 'cb \<Rightarrow> 'cb sclient \<Rightarrow> 'cb sclient outcome" where
  "ShardClient_RWCommitParticipant t coordinator nonblock_ts ccb c =
     bindE (find_txn t c) (\<lambda>txn.
       Inr (send_request (Msg_RWCommitParticipant (sc_rid c) t (Transaction_serialize txn) coordinator nonblock_ts)
         (c\<lparr>sc_part_commits := um_put (sc_last_req_id c) (t, ccb) (sc_part_commits c)\<rparr>)))"

definition HandleRWCommitParticipantReply :: "request_id \<Rightarrow> reply_code \<Rightarrow> 'cb sclient \<Rightarrow> 'cb sclient" where
  "HandleRWCommitParticipantReply rid status c =
     (case map_of (sc_part_commits c) (rid_client_req_id rid) of
        None \<Rightarrow> c
      | Some (t, ccb) \<Rightarrow> emit (CalledPart ccb status)
          (erase_txn t (c\<lparr>sc_part_commits := um_erase (rid_client_req_id rid) (sc_part_commits c)\<rparr>)))"

section \<open>Shard to shard\<close>

definition ShardClient_PrepareOK :: "txn_id \<Rightarrow> int \<Rightarrow> timestamp \<Rightarrow> timestamp \<Rightarrow> 'cb \<Rightarrow> 'cb sclient \<Rightarrow> 'cb sclient" where
  "ShardClient_PrepareOK t participant prepare_ts nonblock_ts pcb c =
     send_request (Msg_PrepareOK (sc_rid c) t participant prepare_ts nonblock_ts)
       (c\<lparr>sc_prepare_oks := um_put (sc_last_req_id c) (t, pcb) (sc_prepare_oks c)\<rparr>)"

definition HandlePrepareOKReply :: "request_id \<Rightarrow> reply_code \<Rightarrow> timestamp option \<Rightarrow> 'cb sclient \<Rightarrow> 'cb sclient" where
  "HandlePrepareOKReply rid status commit_ts c =
     (case map_of (sc_prepare_oks c) (rid_client_req_id rid) of
        None \<Rightarrow> c
      | Some (t, pcb) \<Rightarrow> emit (CalledPrepare pcb status (case commit_ts of None \<Rightarrow> Timestamp_zero | Some ts \<Rightarrow> ts))
          (c\<lparr>sc_prepare_oks := um_erase (rid_client_req_id rid) (sc_prepare_oks c)\<rparr>))"

definition ShardClient_PrepareAbort :: "txn_id \<Rightarrow> int \<Rightarrow> 'cb \<Rightarrow> 'cb sclient \<Rightarrow> 'cb sclient" where
  "ShardClient_PrepareAbort t participant pcb c =
     send_request (Msg_PrepareAbort (sc_rid c) t participant)
       (c\<lparr>sc_prepare_aborts := um_put (sc_last_req_id c) (t, pcb) (sc_prepare_aborts c)\<rparr>)"

definition HandlePrepareAbortReply :: "request_id \<Rightarrow> reply_code \<Rightarrow> 'cb sclient \<Rightarrow> 'cb sclient" where
  "HandlePrepareAbortReply rid status c =
     (case map_of (sc_prepare_aborts c) (rid_client_req_id rid) of
        None \<Rightarrow> c
      | Some (t, pcb) \<Rightarrow> emit (CalledPrepare pcb status Timestamp_zero)
          (c\<lparr>sc_prepare_aborts := um_erase (rid_client_req_id rid) (sc_prepare_aborts c)\<rparr>))"

section \<open>Aborting\<close>

definition ShardClient_Abort :: "txn_id \<Rightarrow> 'cb \<Rightarrow> 'cb sclient \<Rightarrow> 'cb sclient" where
  "ShardClient_Abort t acb c =
     send_request (Msg_Abort (sc_rid c) t)
       (c\<lparr>sc_aborts := um_put (sc_last_req_id c) (t, acb) (sc_aborts c)\<rparr>)"

text \<open>A wound has no request number.\<close>

definition ShardClient_Wound :: "txn_id \<Rightarrow> 'cb sclient \<Rightarrow> 'cb sclient" where
  "ShardClient_Wound t c = emit (ToReplica (sc_shard_idx c) (sc_replica c) (Msg_Wound t)) c"

text \<open>The first outstanding read of the transaction fails.\<close>

definition ShardClient_AbortGet :: "txn_id \<Rightarrow> 'cb sclient \<Rightarrow> 'cb sclient" where
  "ShardClient_AbortGet t c =
     (case find (\<lambda>(i, t', k, gcb). t' = t) (sc_gets c) of
        None \<Rightarrow> c
      | Some (i, _, k, gcb) \<Rightarrow>
          emit (CalledGet gcb REPLY_FAIL k [] Timestamp_zero) (c\<lparr>sc_gets := um_erase i (sc_gets c)\<rparr>))"

definition ShardClient_AbortPut :: "txn_id \<Rightarrow> 'cb sclient \<Rightarrow> 'cb sclient outcome" where
  "ShardClient_AbortPut t c = Inl Panicked"

definition HandleAbortReply :: "request_id \<Rightarrow> reply_code \<Rightarrow> 'cb sclient \<Rightarrow> 'cb sclient" where
  "HandleAbortReply rid status c =
     (case map_of (sc_aborts c) (rid_client_req_id rid) of
        None \<Rightarrow> c
      | Some (t, acb) \<Rightarrow>
          (let c1 = c\<lparr>sc_aborts := um_erase (rid_client_req_id rid) (sc_aborts c)\<rparr> in
           emit (CalledAbort acb) (if status = REPLY_OK then erase_txn t c1 else c1)))"

section \<open>Messages\<close>

definition ShardClient_HandleWound :: "txn_id \<Rightarrow> 'cb sclient \<Rightarrow> 'cb sclient" where
  "ShardClient_HandleWound t c = emit (CalledWound t) c"

definition ShardClient_ReceiveMessage :: "shard_reply \<Rightarrow> 'cb sclient \<Rightarrow> 'cb sclient outcome" where
  "ShardClient_ReceiveMessage m c = (case m of
     Msg_GetReply rid status k v ts \<Rightarrow> Inr (HandleGetReply rid status v ts c)
   | Msg_RWCommitCoordinatorReply rid status cts nts \<Rightarrow> Inr (HandleRWCommitCoordinatorReply rid status cts nts c)
   | Msg_RWCommitParticipantReply rid status \<Rightarrow> Inr (HandleRWCommitParticipantReply rid status c)
   | Msg_PrepareOKReply rid status cts \<Rightarrow> Inr (HandlePrepareOKReply rid status cts c)
   | Msg_PrepareAbortReply rid status \<Rightarrow> Inr (HandlePrepareAbortReply rid status c)
   | Msg_ROCommitReply rid t vs ps \<Rightarrow> HandleROCommitReply rid vs ps c
   | Msg_ROCommitSlowReply rid t cts ok \<Rightarrow> HandleROCommitSlowReply rid t cts ok c
   | Msg_AbortReply rid status \<Rightarrow> Inr (HandleAbortReply rid status c)
   | Msg_WoundClient t \<Rightarrow> Inr (ShardClient_HandleWound t c))"

end
