(* ===== verification/ShardClientInv.thy ===== *)
theory ShardClientInv
  imports ShardClient "HOL-Library.Multiset"
begin

text \<open>
  Runs of the client of a shard (\<open>src/store/strongstore/shardclient.cc\<close>): no callback is
  lost and none is called twice, whatever messages arrive.
\<close>

section \<open>Runs\<close>

datatype 'cb sc_op =
    OpBegin txn_id timestamp
  | OpGet txn_id key 'cb
  | OpGetForUpdate txn_id key 'cb
  | OpPut txn_id key val 'cb
  | OpROCommit txn_id "key list" timestamp timestamp 'cb 'cb
  | OpCoordinator txn_id "int list" timestamp 'cb
  | OpParticipant txn_id int timestamp 'cb
  | OpPrepareOK txn_id int timestamp timestamp 'cb
  | OpPrepareAbort txn_id int 'cb
  | OpAbort txn_id 'cb
  | OpWound txn_id
  | OpAbortGet txn_id
  | OpReceive shard_reply

fun sc_do :: "'cb sc_op \<Rightarrow> 'cb sclient \<Rightarrow> 'cb sclient outcome" where
  "sc_do (OpBegin t ts) c = ShardClient_Begin t ts c"
| "sc_do (OpGet t k cb) c = ShardClient_Get t k cb c"
| "sc_do (OpGetForUpdate t k cb) c = ShardClient_GetForUpdate t k cb c"
| "sc_do (OpPut t k v cb) c = ShardClient_Put t k v cb c"
| "sc_do (OpROCommit t ks cts mts ccb cscb) c = Inr (ShardClient_ROCommit t ks cts mts ccb cscb c)"
| "sc_do (OpCoordinator t ps nts cb) c = ShardClient_RWCommitCoordinator t ps nts cb c"
| "sc_do (OpParticipant t p nts cb) c = ShardClient_RWCommitParticipant t p nts cb c"
| "sc_do (OpPrepareOK t p pts nts cb) c = Inr (ShardClient_PrepareOK t p pts nts cb c)"
| "sc_do (OpPrepareAbort t p cb) c = Inr (ShardClient_PrepareAbort t p cb c)"
| "sc_do (OpAbort t cb) c = Inr (ShardClient_Abort t cb c)"
| "sc_do (OpWound t) c = Inr (ShardClient_Wound t c)"
| "sc_do (OpAbortGet t) c = Inr (ShardClient_AbortGet t c)"
| "sc_do (OpReceive m) c = ShardClient_ReceiveMessage m c"

definition sc_run :: "'cb sc_op list \<Rightarrow> 'cb sclient \<Rightarrow> 'cb sclient outcome" where
  "sc_run ops c = foldE sc_do ops c"

section \<open>Callbacks\<close>

text \<open>
  The callbacks handed over, and those called. A read-only commit hands over two: one for
  its reply, which is counted here, and one for the slow path, which is called once per
  prepared transaction that the reply lists and is counted below.
\<close>

fun issued :: "'cb sc_op \<Rightarrow> 'cb multiset" where
  "issued (OpGet t k cb) = {#cb#}"
| "issued (OpGetForUpdate t k cb) = {#cb#}"
| "issued (OpPut t k v cb) = {#cb#}"
| "issued (OpCoordinator t ps nts cb) = {#cb#}"
| "issued (OpParticipant t p nts cb) = {#cb#}"
| "issued (OpPrepareOK t p pts nts cb) = {#cb#}"
| "issued (OpPrepareAbort t p cb) = {#cb#}"
| "issued (OpAbort t cb) = {#cb#}"
| "issued (OpROCommit t ks cts mts ccb cscb) = {#ccb#}"
| "issued _ = {#}"

fun called :: "'cb sc_event \<Rightarrow> 'cb multiset" where
  "called (CalledGet cb st k v ts) = {#cb#}"
| "called (CalledPut cb st k v) = {#cb#}"
| "called (CalledCoord cb st cts nts) = {#cb#}"
| "called (CalledPart cb st) = {#cb#}"
| "called (CalledPrepare cb st ts) = {#cb#}"
| "called (CalledAbort cb) = {#cb#}"
| "called (CalledRO cb shard vs ps) = {#cb#}"
| "called _ = {#}"

definition callbacks :: "('k \<times> 'v) list \<Rightarrow> ('v \<Rightarrow> 'cb) \<Rightarrow> 'cb multiset" where
  "callbacks m f = image_mset (\<lambda>p. f (snd p)) (mset m)"

text \<open>A sum over the entries of a table.\<close>

definition table_sum :: "('v \<Rightarrow> 'cb multiset) \<Rightarrow> ('k \<times> 'v) list \<Rightarrow> 'cb multiset" where
  "table_sum f m = sum_list (map (\<lambda>p. f (snd p)) m)"

text \<open>A read-only commit whose reply has not arrived, and the calls of its slow path that are still to come.\<close>

definition ro_waits :: "'cb pending_ro_commit \<Rightarrow> 'cb multiset" where
  "ro_waits r = (if pr_n_slow_replies r = 0 then {#pr_ccb r#} else {#})"

definition ro_slow :: "'cb pending_ro_commit \<Rightarrow> 'cb multiset" where
  "ro_slow r = replicate_mset (unat (pr_n_slow_replies r)) (pr_cscb r)"

definition pending :: "'cb sclient \<Rightarrow> 'cb multiset" where
  "pending c = callbacks (sc_gets c) (\<lambda>(t, k, cb). cb) + callbacks (sc_coord_commits c) snd +
     callbacks (sc_part_commits c) snd + callbacks (sc_prepare_oks c) snd + callbacks (sc_prepare_aborts c) snd +
     callbacks (sc_aborts c) snd + table_sum ro_waits (sc_ro_commits c)"

definition all_called :: "'cb sclient \<Rightarrow> 'cb multiset" where
  "all_called c = sum_list (map called (sc_trace c))"

lemma callbacks_put: "\<not> um_has m k \<Longrightarrow> callbacks (um_put k v m) f = add_mset (f v) (callbacks m f)"
  by (simp add: callbacks_def um_has_iff um_put_new)

lemma mset_erase: "um_ok m \<Longrightarrow> map_of m k = Some v \<Longrightarrow> mset m = add_mset (k, v) (mset (um_erase k m))"
proof (induction m)
  case (Cons p m)
  obtain k' v' where p: "p = (k', v')" by fastforce
  show ?case
  proof (cases "k' = k")
    case True
    with Cons.prems p have "v' = v" "\<not> um_has m k" by (auto simp: um_ok_def um_has_iff)
    with True p show ?thesis by (simp add: um_erase_absent)
  next
    case False
    with Cons p have "mset m = add_mset (k, v) (mset (um_erase k m))" by (simp add: um_ok_def)
    with False p show ?thesis by (simp add: AList.delete_eq)
  qed
qed simp

lemma callbacks_erase: "um_ok m \<Longrightarrow> map_of m k = Some v \<Longrightarrow> callbacks m f = add_mset (f v) (callbacks (um_erase k m) f)"
  unfolding callbacks_def by (subst mset_erase [of m k v]) auto

lemma table_sum_put: "\<not> um_has m k \<Longrightarrow> table_sum f (um_put k v m) = f v + table_sum f m"
  by (simp add: table_sum_def um_has_iff um_put_new)

lemma table_sum_erase: "um_ok m \<Longrightarrow> map_of m k = Some v \<Longrightarrow> table_sum f m = f v + table_sum f (um_erase k m)"
  unfolding table_sum_def by (simp flip: sum_mset_sum_list add: mset_erase)

lemma table_sum_update:
  "um_ok m \<Longrightarrow> map_of m k = Some v \<Longrightarrow> table_sum f (um_put k w m) = f w + table_sum f (um_erase k m)"
  using table_sum_erase [of "um_put k w m" k w f] by (simp add: um_erase_put)

section \<open>Request numbers\<close>

text \<open>The numbers of the outstanding requests are among those given out.\<close>

definition numbered :: "nat \<Rightarrow> (u64, 'v) umap \<Rightarrow> bool" where
  "numbered n m \<longleftrightarrow> um_ok m \<and> (\<forall>i. um_has m i \<longrightarrow> unat i < n)"

definition sc_inv :: "nat \<Rightarrow> 'cb sclient \<Rightarrow> bool" where
  "sc_inv n c \<longleftrightarrow> sc_last_req_id c = of_nat n \<and> numbered n (sc_gets c) \<and> numbered n (sc_coord_commits c) \<and>
     numbered n (sc_part_commits c) \<and> numbered n (sc_prepare_oks c) \<and> numbered n (sc_prepare_aborts c) \<and>
     numbered n (sc_aborts c) \<and> numbered n (sc_ro_commits c)"

lemma numbered_put: "numbered n m \<Longrightarrow> n < 2 ^ 64 \<Longrightarrow> numbered (Suc n) (um_put (of_nat n) v m)"
  by (auto simp: numbered_def unat_of_nat less_Suc_eq)

lemma numbered_Suc: "numbered n m \<Longrightarrow> numbered (Suc n) m"
  by (auto simp: numbered_def less_Suc_eq)

lemma numbered_erase: "numbered n m \<Longrightarrow> numbered n (um_erase i m)"
  by (auto simp: numbered_def)

lemma numbered_update: "numbered n m \<Longrightarrow> map_of m i = Some v \<Longrightarrow> numbered n (um_put i w m)"
  by (auto simp: numbered_def dest: um_has_Some)

lemma numbered_fresh: "numbered n m \<Longrightarrow> n < 2 ^ 64 \<Longrightarrow> \<not> um_has m (of_nat n)"
  by (auto simp: numbered_def unat_of_nat)

lemma callbacks_put_numbered: "numbered n m \<Longrightarrow> n < 2 ^ 64 \<Longrightarrow> callbacks (um_put (of_nat n) v m) f = add_mset (f v) (callbacks m f)"
  by (simp add: callbacks_put numbered_fresh)

lemma callbacks_erase_numbered: "numbered n m \<Longrightarrow> map_of m k = Some v \<Longrightarrow> callbacks m f = add_mset (f v) (callbacks (um_erase k m) f)"
  by (simp add: numbered_def callbacks_erase)

text \<open>One operation: the numbers stay in order and every callback is accounted for.\<close>

definition kept_by :: "nat \<Rightarrow> 'cb multiset \<Rightarrow> 'cb sclient \<Rightarrow> 'cb sclient \<Rightarrow> bool" where
  "kept_by n new c c' \<longleftrightarrow> (sc_inv n c' \<or> sc_inv (Suc n) c') \<and>
     all_called c' + pending c' = all_called c + pending c + new"

lemmas sc_defs = kept_by_def sc_inv_def pending_def all_called_def send_request_def emit_def erase_txn_def add_read_def

lemma kept_by_refl: "sc_inv n c \<Longrightarrow> kept_by n {#} c c"
  by (simp add: kept_by_def)

lemma request_kept:
  assumes "sc_inv n c" and "n < 2 ^ 64"
  shows "kept_by n {#cb#} c (send_request m (c\<lparr>sc_gets := um_put (sc_last_req_id c) (t, k, cb) (sc_gets c)\<rparr>))"
    and "kept_by n {#cb#} c (send_request m (c\<lparr>sc_coord_commits := um_put (sc_last_req_id c) (t, cb) (sc_coord_commits c)\<rparr>))"
    and "kept_by n {#cb#} c (send_request m (c\<lparr>sc_part_commits := um_put (sc_last_req_id c) (t, cb) (sc_part_commits c)\<rparr>))"
    and "kept_by n {#cb#} c (send_request m (c\<lparr>sc_prepare_oks := um_put (sc_last_req_id c) (t, cb) (sc_prepare_oks c)\<rparr>))"
    and "kept_by n {#cb#} c (send_request m (c\<lparr>sc_prepare_aborts := um_put (sc_last_req_id c) (t, cb) (sc_prepare_aborts c)\<rparr>))"
    and "kept_by n {#cb#} c (send_request m (c\<lparr>sc_aborts := um_put (sc_last_req_id c) (t, cb) (sc_aborts c)\<rparr>))"
    and "pr_n_slow_replies ro = 0 \<Longrightarrow> kept_by n {#pr_ccb ro#} c
      (send_request m (c\<lparr>sc_ro_commits := um_put (sc_last_req_id c) ro (sc_ro_commits c)\<rparr>))"
  using assms by (auto simp: sc_defs callbacks_put_numbered numbered_put numbered_Suc table_sum_put numbered_fresh ro_waits_def)

lemma get_reply_kept:
  assumes "sc_inv n c" and "map_of (sc_gets c) i = Some (t, k, cb)"
  shows "kept_by n {#} c (emit (CalledGet cb st k v ts) (c\<lparr>sc_gets := um_erase i (sc_gets c)\<rparr>))"
    and "kept_by n {#} c (emit (CalledGet cb st k v ts) (add_read t k v ts (c\<lparr>sc_gets := um_erase i (sc_gets c)\<rparr>)))"
  using assms callbacks_erase_numbered [of n "sc_gets c" i "(t, k, cb)" "\<lambda>(t, k, cb). cb"]
  by (auto simp: sc_defs numbered_erase)

lemma reply_kept:
  assumes "sc_inv n c"
  shows "map_of (sc_coord_commits c) i = Some (t, cb) \<Longrightarrow> kept_by n {#} c
      (emit (CalledCoord cb st cts nts) (erase_txn t (c\<lparr>sc_coord_commits := um_erase i (sc_coord_commits c)\<rparr>)))"
    and "map_of (sc_part_commits c) i = Some (t, cb) \<Longrightarrow> kept_by n {#} c
      (emit (CalledPart cb st) (erase_txn t (c\<lparr>sc_part_commits := um_erase i (sc_part_commits c)\<rparr>)))"
    and "map_of (sc_prepare_oks c) i = Some (t, cb) \<Longrightarrow> kept_by n {#} c
      (emit (CalledPrepare cb st cts) (c\<lparr>sc_prepare_oks := um_erase i (sc_prepare_oks c)\<rparr>))"
    and "map_of (sc_prepare_aborts c) i = Some (t, cb) \<Longrightarrow> kept_by n {#} c
      (emit (CalledPrepare cb st cts) (c\<lparr>sc_prepare_aborts := um_erase i (sc_prepare_aborts c)\<rparr>))"
    and "map_of (sc_aborts c) i = Some (t, cb) \<Longrightarrow> kept_by n {#} c
      (emit (CalledAbort cb) (if b then erase_txn t (c\<lparr>sc_aborts := um_erase i (sc_aborts c)\<rparr>)
        else c\<lparr>sc_aborts := um_erase i (sc_aborts c)\<rparr>))"
  using assms callbacks_erase_numbered [of n _ i "(t, cb)" snd]
  by (auto simp: sc_defs numbered_erase)

lemma table_sum_numbered:
  assumes "numbered n m" and "map_of m i = Some v"
  shows "table_sum f m = f v + table_sum f (um_erase i m)" and "table_sum f (um_put i w m) = f w + table_sum f (um_erase i m)"
  using assms by (simp_all add: numbered_def table_sum_erase table_sum_update)

text \<open>The reply of a read-only commit; one that lists \<open>2 ^ 64\<close> prepared transactions would count none.\<close>

lemma ro_reply_kept:
  assumes "sc_inv n c" and "map_of (sc_ro_commits c) i = Some req" and "pr_n_slow_replies req = 0" and "length ps < 2 ^ 64"
  shows "kept_by n {#} c (emit (CalledRO (pr_ccb req) b vs ps) (c\<lparr>sc_ro_commits :=
      (if ps = [] then um_erase i (sc_ro_commits c)
       else um_put i (req\<lparr>pr_n_slow_replies := of_nat (length ps)\<rparr>) (sc_ro_commits c))\<rparr>))"
proof -
  have "ps \<noteq> [] \<Longrightarrow> (of_nat (length ps) :: u64) \<noteq> 0"
    using assms(4) by (metis length_0_conv of_nat_64_eq_0)
  with assms(1-3) table_sum_numbered [of n "sc_ro_commits c" i req ro_waits] show ?thesis
    by (auto simp: sc_defs numbered_erase numbered_update ro_waits_def)
qed

lemma ro_slow_reply_kept:
  assumes "sc_inv n c" and "map_of (sc_ro_commits c) i = Some req" and "pr_n_slow_replies req > 0"
  shows "kept_by n {#} c (emit (CalledROSlow (pr_cscb req) b tt cts ok) (c\<lparr>sc_ro_commits :=
      (if pr_n_slow_replies req - 1 = 0 then um_erase i (sc_ro_commits c)
       else um_put i (req\<lparr>pr_n_slow_replies := pr_n_slow_replies req - 1\<rparr>) (sc_ro_commits c))\<rparr>))"
  using assms table_sum_numbered [of n "sc_ro_commits c" i req ro_waits]
  by (auto simp: sc_defs numbered_erase numbered_update ro_waits_def)

text \<open>What is asked of a reply: fewer than \<open>2 ^ 64\<close> prepared transactions.\<close>

fun countable :: "'cb sc_op \<Rightarrow> bool" where
  "countable (OpReceive (Msg_ROCommitReply rid t vs ps)) \<longleftrightarrow> length ps < 2 ^ 64"
| "countable op \<longleftrightarrow> True"

lemma ReceiveMessage_kept:
  assumes "ShardClient_ReceiveMessage m c = Inr c'" and "sc_inv n c" and "countable (OpReceive m)"
  shows "kept_by n {#} c c'"
proof (cases m)
  case (Msg_WoundClient t)
  with assms show ?thesis by (auto simp: ShardClient_ReceiveMessage_def ShardClient_HandleWound_def sc_defs)
next
  case (Msg_ROCommitReply rid t vs ps)
  with assms ro_reply_kept [of n c "rid_client_req_id rid" _ "map PreparedTransaction_parse ps"] show ?thesis
    by (auto simp: ShardClient_ReceiveMessage_def HandleROCommitReply_def Let_def intro!: kept_by_refl split: option.splits)
next
  case (Msg_ROCommitSlowReply rid t cts ok)
  with assms ro_slow_reply_kept [of n c "rid_client_req_id rid"] show ?thesis
    by (auto simp: ShardClient_ReceiveMessage_def HandleROCommitSlowReply_def Let_def intro!: kept_by_refl split: option.splits)
qed (use assms in \<open>auto simp: ShardClient_ReceiveMessage_def HandleGetReply_def HandleRWCommitCoordinatorReply_def
    HandleRWCommitParticipantReply_def HandlePrepareOKReply_def HandlePrepareAbortReply_def
    HandleAbortReply_def Let_def intro!: kept_by_refl get_reply_kept reply_kept split: option.splits\<close>)

lemma find_get:
  assumes "um_ok m" and "find (\<lambda>(i, t', k, cb). t' = t) m = Some (i, t', k, cb)"
  shows "map_of m i = Some (t', k, cb)"
proof -
  have "(i, t', k, cb) \<in> set m" using assms(2) by (auto simp: find_Some_iff in_set_conv_nth)
  then show ?thesis using um_ok_mem_iff [OF assms(1)] by blast
qed

lemma sc_do_kept:
  assumes "sc_do op c = Inr c'" and "sc_inv n c" and "n < 2 ^ 64" and "countable op"
  shows "kept_by n (issued op) c c'"
proof (cases op)
  case (OpBegin t ts)
  with assms show ?thesis by (auto simp: ShardClient_Begin_def sc_defs)
next
  case (OpPut t k v cb)
  with assms show ?thesis by (auto simp: ShardClient_Put_def sc_defs)
next
  case (OpWound t)
  with assms show ?thesis by (auto simp: ShardClient_Wound_def sc_defs)
next
  case (OpROCommit t ks cts mts ccb cscb)
  from request_kept(7) [OF assms(2,3), of "\<lparr>pr_transaction_id = t, pr_ccb = ccb, pr_cscb = cscb, pr_n_slow_replies = 0\<rparr>"]
  show ?thesis using OpROCommit assms(1) by (auto simp: ShardClient_ROCommit_def)
next
  case (OpAbortGet t)
  have "um_ok (sc_gets c)" using assms(2) by (simp add: sc_inv_def numbered_def)
  with OpAbortGet assms show ?thesis
    by (auto simp: ShardClient_AbortGet_def intro!: kept_by_refl get_reply_kept dest!: find_get split: option.splits)
next
  case (OpReceive m)
  with assms show ?thesis by (simp add: ReceiveMessage_kept)
qed (use assms in \<open>auto simp: ShardClient_Get_def ShardClient_GetForUpdate_def ShardClient_get_def ShardClient_ROCommit_def
    ShardClient_RWCommitCoordinator_def ShardClient_RWCommitParticipant_def ShardClient_PrepareOK_def
    ShardClient_PrepareAbort_def ShardClient_Abort_def intro!: request_kept\<close>)

section \<open>The slow path of read-only commits\<close>

fun slow_called :: "'cb sc_event \<Rightarrow> 'cb multiset" where
  "slow_called (CalledROSlow cb shard t cts ok) = {#cb#}"
| "slow_called _ = {#}"

text \<open>
  The calls of the slow-path callback that the call of the first one announces, one for
  each prepared transaction; \<open>slow_of\<close> pairs the two callbacks of a commit.
\<close>

fun slow_due :: "('cb \<Rightarrow> 'cb) \<Rightarrow> 'cb sc_event \<Rightarrow> 'cb multiset" where
  "slow_due slow_of (CalledRO cb shard vs ps) = replicate_mset (length ps) (slow_of cb)"
| "slow_due slow_of _ = {#}"

definition slow_calls :: "'cb sclient \<Rightarrow> 'cb multiset" where
  "slow_calls c = sum_list (map slow_called (sc_trace c))"

definition slow_announced :: "('cb \<Rightarrow> 'cb) \<Rightarrow> 'cb sclient \<Rightarrow> 'cb multiset" where
  "slow_announced slow_of c = sum_list (map (slow_due slow_of) (sc_trace c))"

definition slow_pending :: "'cb sclient \<Rightarrow> 'cb multiset" where
  "slow_pending c = table_sum ro_slow (sc_ro_commits c)"

fun paired :: "('cb \<Rightarrow> 'cb) \<Rightarrow> 'cb sc_op \<Rightarrow> bool" where
  "paired slow_of (OpROCommit t ks cts mts ccb cscb) \<longleftrightarrow> cscb = slow_of ccb"
| "paired slow_of op \<longleftrightarrow> True"

definition slow_ok :: "('cb \<Rightarrow> 'cb) \<Rightarrow> 'cb sclient \<Rightarrow> bool" where
  "slow_ok slow_of c \<longleftrightarrow> slow_calls c + slow_pending c = slow_announced slow_of c \<and>
     (\<forall>i r. map_of (sc_ro_commits c) i = Some r \<longrightarrow> pr_cscb r = slow_of (pr_ccb r))"

lemmas slow_defs = slow_ok_def slow_calls_def slow_pending_def slow_announced_def send_request_def emit_def
  erase_txn_def add_read_def

lemma ro_reply_slow_ok:
  assumes "sc_inv n c" and "slow_ok slow_of c" and "map_of (sc_ro_commits c) i = Some req" and "pr_n_slow_replies req = 0"
    and "length ps < 2 ^ 64"
  shows "slow_ok slow_of (emit (CalledRO (pr_ccb req) b vs ps) (c\<lparr>sc_ro_commits :=
      (if ps = [] then um_erase i (sc_ro_commits c)
       else um_put i (req\<lparr>pr_n_slow_replies := of_nat (length ps)\<rparr>) (sc_ro_commits c))\<rparr>))"
proof -
  have "unat (of_nat (length ps) :: u64) = length ps" using assms(5) by (simp add: unat_of_nat)
  moreover have "numbered n (sc_ro_commits c)" using assms(1) by (simp add: sc_inv_def)
  ultimately show ?thesis
    using assms(2-4) table_sum_numbered [of n "sc_ro_commits c" i req ro_slow]
    by (auto simp: slow_defs ro_slow_def ac_simps)
qed

lemma ro_slow_reply_slow_ok:
  assumes "sc_inv n c" and "slow_ok slow_of c" and "map_of (sc_ro_commits c) i = Some req" and "pr_n_slow_replies req > 0"
  shows "slow_ok slow_of (emit (CalledROSlow (pr_cscb req) b tt cts ok) (c\<lparr>sc_ro_commits :=
      (if pr_n_slow_replies req - 1 = 0 then um_erase i (sc_ro_commits c)
       else um_put i (req\<lparr>pr_n_slow_replies := pr_n_slow_replies req - 1\<rparr>) (sc_ro_commits c))\<rparr>))"
proof -
  have "unat (pr_n_slow_replies req) = Suc (unat (pr_n_slow_replies req - 1))"
    using assms(4) by (simp add: unat_minus_one word_gt_0 unat_gt_0)
  moreover have "numbered n (sc_ro_commits c)" using assms(1) by (simp add: sc_inv_def)
  ultimately show ?thesis
    using assms(2-4) table_sum_numbered [of n "sc_ro_commits c" i req ro_slow]
    by (auto simp: slow_defs ro_slow_def ac_simps)
qed

lemma sc_do_slow_ok:
  assumes "sc_do op c = Inr c'" and "sc_inv n c" and "n < 2 ^ 64" and "countable op" and "paired slow_of op"
    and "slow_ok slow_of c"
  shows "slow_ok slow_of c'"
proof (cases op)
  case (OpROCommit t ks cts mts ccb cscb)
  have "numbered n (sc_ro_commits c)" "sc_last_req_id c = of_nat n" using assms(2) by (simp_all add: sc_inv_def)
  with OpROCommit assms numbered_fresh [of n "sc_ro_commits c"] show ?thesis
    by (auto simp: ShardClient_ROCommit_def slow_defs table_sum_put ro_slow_def split: if_splits)
next
  case (OpReceive m)
  show ?thesis
  proof (cases m)
    case (Msg_ROCommitReply rid t vs ps)
    with OpReceive assms ro_reply_slow_ok [of n c slow_of "rid_client_req_id rid" _ "map PreparedTransaction_parse ps"] show ?thesis
      by (auto simp: ShardClient_ReceiveMessage_def HandleROCommitReply_def Let_def split: option.splits)
  next
    case (Msg_ROCommitSlowReply rid t cts ok)
    with OpReceive assms ro_slow_reply_slow_ok [of n c slow_of "rid_client_req_id rid"] show ?thesis
      by (auto simp: ShardClient_ReceiveMessage_def HandleROCommitSlowReply_def Let_def split: option.splits)
  qed (use OpReceive assms in \<open>auto simp: ShardClient_ReceiveMessage_def HandleGetReply_def HandleRWCommitCoordinatorReply_def
    HandleRWCommitParticipantReply_def HandlePrepareOKReply_def HandlePrepareAbortReply_def ShardClient_HandleWound_def
    HandleAbortReply_def Let_def slow_defs split: option.splits if_splits\<close>)
qed (use assms in \<open>auto simp: ShardClient_Begin_def ShardClient_Get_def ShardClient_GetForUpdate_def ShardClient_get_def
    ShardClient_Put_def ShardClient_RWCommitCoordinator_def ShardClient_RWCommitParticipant_def ShardClient_PrepareOK_def
    ShardClient_PrepareAbort_def ShardClient_Abort_def ShardClient_Wound_def ShardClient_AbortGet_def slow_defs
    split: option.splits\<close>)

lemma sc_run_kept:
  assumes "sc_run ops c = Inr c'" and "sc_inv n c" and "n + length ops \<le> 2 ^ 64" and "list_all countable ops"
  shows "all_called c' + pending c' = all_called c + pending c + sum_list (map issued ops)"
    and "list_all (paired slow_of) ops \<Longrightarrow> slow_ok slow_of c \<Longrightarrow> slow_ok slow_of c'"
proof -
  have "all_called c' + pending c' = all_called c + pending c + sum_list (map issued ops) \<and>
    (list_all (paired slow_of) ops \<longrightarrow> slow_ok slow_of c \<longrightarrow> slow_ok slow_of c')"
    using assms
  proof (induction ops arbitrary: c n)
    case (Cons op ops)
    then obtain c1 where 1: "sc_do op c = Inr c1" and 2: "sc_run ops c1 = Inr c'" by (auto simp: sc_run_def)
    have n: "n < 2 ^ 64" "countable op" "list_all countable ops" using Cons.prems(3,4) by simp_all
    have K: "kept_by n (issued op) c c1" using sc_do_kept [OF 1 Cons.prems(2) n(1,2)] .
    then have "sc_inv n c1 \<or> sc_inv (Suc n) c1" by (simp add: kept_by_def)
    then have "all_called c' + pending c' = all_called c1 + pending c1 + sum_list (map issued ops) \<and>
      (list_all (paired slow_of) ops \<longrightarrow> slow_ok slow_of c1 \<longrightarrow> slow_ok slow_of c')"
      using Cons.IH [OF 2 _ _ n(3), of n] Cons.IH [OF 2 _ _ n(3), of "Suc n"] Cons.prems(3) by auto
    with K sc_do_slow_ok [OF 1 Cons.prems(2) n(1,2), of slow_of] show ?case by (simp add: kept_by_def ac_simps)
  qed (simp add: sc_run_def)
  then show "all_called c' + pending c' = all_called c + pending c + sum_list (map issued ops)"
    and "list_all (paired slow_of) ops \<Longrightarrow> slow_ok slow_of c \<Longrightarrow> slow_ok slow_of c'" by blast+
qed

text \<open>
  \<^bold>\<open>C8\<close> No callback is lost and none is called twice. After any sequence of fewer than
  \<open>2 ^ 64\<close> operations and messages, replies repeated or out of order included, that does not
  fail an assertion, the callbacks that were handed over are exactly those that were called
  and those whose requests are still outstanding, counted with their multiplicity. The
  second callback of a read-only commit, for the slow path, is called exactly once for each
  prepared transaction that the reply to the commit lists, counting the calls still
  outstanding. No reply lists \<open>2 ^ 64\<close> prepared transactions.
\<close>

theorem callbacks_conserved:
  assumes "sc_run ops (ShardClient_init client shard) = Inr c" and "length ops \<le> 2 ^ 64" and "list_all countable ops"
    and "list_all (paired slow_of) ops"
  shows "all_called c + pending c = sum_list (map issued ops) \<and>
    slow_calls c + slow_pending c = slow_announced slow_of c"
proof -
  have "sc_inv 0 (ShardClient_init client shard)"
    by (simp add: sc_inv_def ShardClient_init_def numbered_def um_ok_def)
  note run = sc_run_kept [OF assms(1) this _ assms(3)]
  have "slow_ok slow_of (ShardClient_init client shard)"
    by (simp add: slow_defs ShardClient_init_def table_sum_def)
  with run(2) [OF _ assms(4)] assms(2) have "slow_ok slow_of c" by simp
  then show ?thesis using run(1) assms(2)
    by (simp add: ShardClient_init_def all_called_def pending_def callbacks_def table_sum_def slow_ok_def)
qed

definition demo_calls :: "nat sc_op list" where
  "demo_calls = [OpBegin 5 (Timestamp 9 7), OpGet 5 ''x'' 1, OpPut 5 ''x'' ''new'' 2, OpCoordinator 5 [3] Timestamp_zero 3,
     OpROCommit 6 [''x''] (Timestamp 12 7) (Timestamp 1 7) 10 11,
     OpReceive (Msg_GetReply \<lparr>rid_client_id = 7, rid_client_req_id = 0\<rparr> REPLY_OK ''x'' (Some ''old'') (Some (Timestamp 1 0))),
     OpReceive (Msg_GetReply \<lparr>rid_client_id = 7, rid_client_req_id = 0\<rparr> REPLY_OK ''x'' (Some ''old'') (Some (Timestamp 1 0))),
     OpReceive (Msg_ROCommitReply \<lparr>rid_client_id = 7, rid_client_req_id = 2\<rparr> 6 []
       [\<lparr>ptm_transaction_id = 8, ptm_prepare_timestamp = Timestamp 9 1, ptm_write_set = []\<rparr>,
        \<lparr>ptm_transaction_id = 9, ptm_prepare_timestamp = Timestamp 9 2, ptm_write_set = []\<rparr>]),
     OpReceive (Msg_ROCommitSlowReply \<lparr>rid_client_id = 7, rid_client_req_id = 2\<rparr> 8 (Timestamp 10 1) True)]"

definition demo_called :: "nat sclient" where
  "demo_called = projr (sc_run demo_calls (ShardClient_init 7 3))"

lemma callbacks_conserved_witness:
  "all_called demo_called = {#2, 1, 10#} \<and> pending demo_called = {#3#} \<and>
   slow_calls demo_called = {#11#} \<and> slow_pending demo_called = {#11#} \<and>
   all_called demo_called + pending demo_called = {#1, 2, 3, 10#} \<and>
   slow_calls demo_called + slow_pending demo_called = {#11, 11#}"
proof -
  have run: "sc_run demo_calls (ShardClient_init 7 3) = Inr demo_called" by code_simp
  have trace: "sc_trace demo_called =
    [ToReplica 3 0 (Msg_Get \<lparr>rid_client_id = 7, rid_client_req_id = 0\<rparr> 5 ''x'' (Timestamp 9 7) False),
     CalledPut 2 REPLY_OK ''x'' ''new'',
     ToReplica 3 0 (Msg_RWCommitCoordinator \<lparr>rid_client_id = 7, rid_client_req_id = 1\<rparr> 5
       \<lparr>msg_starttime = Timestamp 9 7, msg_readset = [], msg_writeset = [(''x'', ''new'')]\<rparr> Timestamp_zero [3]),
     ToReplica 3 0 (Msg_ROCommit \<lparr>rid_client_id = 7, rid_client_req_id = 2\<rparr> 6 (Timestamp 12 7) (Timestamp 1 7) [''x'']),
     CalledGet 1 REPLY_OK ''x'' ''old'' (Timestamp 1 0),
     CalledRO 10 3 [] [\<lparr>pt_transaction_id = 8, pt_prepare_ts = Timestamp 9 1, pt_write_set = []\<rparr>,
       \<lparr>pt_transaction_id = 9, pt_prepare_ts = Timestamp 9 2, pt_write_set = []\<rparr>],
     CalledROSlow 11 3 8 (Timestamp 10 1) True]" by code_simp
  have tables: "sc_gets demo_called = []" "sc_coord_commits demo_called = [(1, 5, 3)]" "sc_part_commits demo_called = []"
    "sc_prepare_oks demo_called = []" "sc_prepare_aborts demo_called = []" "sc_aborts demo_called = []"
    "sc_ro_commits demo_called = [(2, \<lparr>pr_transaction_id = 6, pr_ccb = 10, pr_cscb = 11, pr_n_slow_replies = 1\<rparr>)]" by code_simp+
  have "sum_list (map issued demo_calls) = {#1, 2, 3, 10#}" by (simp add: demo_calls_def)
  moreover have "slow_announced (\<lambda>_. 11) demo_called = {#11, 11#}"
    by (simp add: slow_announced_def trace numeral_2_eq_2)
  moreover have "list_all countable demo_calls" "list_all (paired (\<lambda>_. 11)) demo_calls" "length demo_calls \<le> 2 ^ 64"
    by (simp_all add: demo_calls_def)
  ultimately have "all_called demo_called + pending demo_called = {#1, 2, 3, 10#}"
    "slow_calls demo_called + slow_pending demo_called = {#11, 11#}"
    using callbacks_conserved [OF run, of "\<lambda>_. 11"] by simp_all
  then show ?thesis
    by (simp add: all_called_def slow_calls_def pending_def slow_pending_def trace tables callbacks_def table_sum_def
        ro_waits_def ro_slow_def)
qed

end
