(* ===== verification/ReplicaClient.thy ===== *)
theory ReplicaClient
  imports ShardProtocol
begin

text \<open>
  \<open>src/store/strongstore/replicaclient.{h,cc}\<close>: the leader of a shard hands operations to
  the replicas through a replication client. A request is kept under its number until its
  reply arrives. A callback is a value of the type variable \<open>'cb\<close>; what the replication
  client is given to call back is the kind of the request with its number.
\<close>

record replica_reply =
  rp_status :: reply_code
  rp_timestamp :: "u64 option"

datatype rc_bound = BoundPrepare u64 | BoundCommit u64 | BoundAbort u64

datatype 'cb rc_event =
    Invoke replica_request rc_bound
  | RCalledPrepare 'cb reply_code timestamp
  | RCalledCommit 'cb
  | RCalledAbort 'cb

record 'cb replica_client =
  rc_prepares :: "(u64, 'cb) umap"
  rc_commits :: "(u64, 'cb) umap"
  rc_aborts :: "(u64, 'cb) umap"
  rc_last_req_id :: u64
  rc_trace :: "'cb rc_event list"

definition ReplicaClient_init :: "'cb replica_client" where
  "ReplicaClient_init = \<lparr>rc_prepares = [], rc_commits = [], rc_aborts = [], rc_last_req_id = 0, rc_trace = []\<rparr>"

definition rc_emit :: "'cb rc_event \<Rightarrow> 'cb replica_client \<Rightarrow> 'cb replica_client" where
  "rc_emit e c = c\<lparr>rc_trace := rc_trace c @ [e]\<rparr>"

section \<open>Requests\<close>

definition prepare_request :: "txn_id \<Rightarrow> transaction \<Rightarrow> timestamp \<Rightarrow> int \<Rightarrow> timestamp \<Rightarrow> replica_request" where
  "prepare_request t txn prepare_ts c nonblock_ts =
     \<lparr>rr_op = OP_PREPARE, rr_txnid = t,
      rr_prepare = Some \<lparr>op_txn = Transaction_serialize txn, op_timestamp = prepare_ts, op_coordinator = c,
        op_participants = [], op_nonblock_ts = nonblock_ts\<rparr>, rr_commit = None\<rparr>"

definition coordinator_commit_request :: "txn_id \<Rightarrow> timestamp \<Rightarrow> int \<Rightarrow> int uset \<Rightarrow> transaction \<Rightarrow> timestamp \<Rightarrow>
    timestamp \<Rightarrow> replica_request" where
  "coordinator_commit_request t start_ts c participants txn nonblock_ts commit_ts =
     \<lparr>rr_op = OP_COMMIT, rr_txnid = t,
      rr_prepare = Some \<lparr>op_txn = Transaction_serialize txn, op_timestamp = start_ts, op_coordinator = c,
        op_participants = participants, op_nonblock_ts = nonblock_ts\<rparr>, rr_commit = Some commit_ts\<rparr>"

definition commit_request :: "txn_id \<Rightarrow> timestamp \<Rightarrow> replica_request" where
  "commit_request t commit_ts = \<lparr>rr_op = OP_COMMIT, rr_txnid = t, rr_prepare = None, rr_commit = Some commit_ts\<rparr>"

definition abort_request :: "txn_id \<Rightarrow> replica_request" where
  "abort_request t = \<lparr>rr_op = OP_ABORT, rr_txnid = t, rr_prepare = None, rr_commit = None\<rparr>"

definition ReplicaClient_Prepare :: "txn_id \<Rightarrow> transaction \<Rightarrow> timestamp \<Rightarrow> int \<Rightarrow> timestamp \<Rightarrow> 'cb \<Rightarrow>
    'cb replica_client \<Rightarrow> 'cb replica_client" where
  "ReplicaClient_Prepare t txn prepare_ts c nonblock_ts pcb rc =
     (let i = rc_last_req_id rc in
      rc_emit (Invoke (prepare_request t txn prepare_ts c nonblock_ts) (BoundPrepare i))
        (rc\<lparr>rc_last_req_id := i + 1, rc_prepares := um_put i pcb (rc_prepares rc)\<rparr>))"

definition ReplicaClient_CoordinatorCommit :: "txn_id \<Rightarrow> timestamp \<Rightarrow> int \<Rightarrow> int uset \<Rightarrow> transaction \<Rightarrow> timestamp \<Rightarrow>
    timestamp \<Rightarrow> 'cb \<Rightarrow> 'cb replica_client \<Rightarrow> 'cb replica_client" where
  "ReplicaClient_CoordinatorCommit t start_ts c participants txn nonblock_ts commit_ts ccb rc =
     (let i = rc_last_req_id rc in
      rc_emit (Invoke (coordinator_commit_request t start_ts c participants txn nonblock_ts commit_ts) (BoundCommit i))
        (rc\<lparr>rc_last_req_id := i + 1, rc_commits := um_put i ccb (rc_commits rc)\<rparr>))"

definition ReplicaClient_Commit :: "txn_id \<Rightarrow> timestamp \<Rightarrow> 'cb \<Rightarrow> 'cb replica_client \<Rightarrow> 'cb replica_client" where
  "ReplicaClient_Commit t commit_ts ccb rc =
     (let i = rc_last_req_id rc in
      rc_emit (Invoke (commit_request t commit_ts) (BoundCommit i))
        (rc\<lparr>rc_last_req_id := i + 1, rc_commits := um_put i ccb (rc_commits rc)\<rparr>))"

definition ReplicaClient_Abort :: "txn_id \<Rightarrow> 'cb \<Rightarrow> 'cb replica_client \<Rightarrow> 'cb replica_client" where
  "ReplicaClient_Abort t acb rc =
     (let i = rc_last_req_id rc in
      rc_emit (Invoke (abort_request t) (BoundAbort i))
        (rc\<lparr>rc_last_req_id := i + 1, rc_aborts := um_put i acb (rc_aborts rc)\<rparr>))"

section \<open>Replies\<close>

definition ReplicaClient_PrepareCallback :: "u64 \<Rightarrow> replica_reply \<Rightarrow> 'cb replica_client \<Rightarrow> 'cb replica_client outcome" where
  "ReplicaClient_PrepareCallback i reply rc =
     (case map_of (rc_prepares rc) i of
        None \<Rightarrow> Inl AssertFailed
      | Some pcb \<Rightarrow> Inr (rc_emit (RCalledPrepare pcb (rp_status reply)
            (case rp_timestamp reply of Some ts \<Rightarrow> Timestamp ts 0 | None \<Rightarrow> Timestamp_zero))
          (rc\<lparr>rc_prepares := um_erase i (rc_prepares rc)\<rparr>)))"

definition ReplicaClient_CommitCallback :: "u64 \<Rightarrow> replica_reply \<Rightarrow> 'cb replica_client \<Rightarrow> 'cb replica_client outcome" where
  "ReplicaClient_CommitCallback i reply rc = assertE (rp_status reply = REPLY_OK)
     (case map_of (rc_commits rc) i of
        None \<Rightarrow> Inl AssertFailed
      | Some ccb \<Rightarrow> Inr (rc_emit (RCalledCommit ccb) (rc\<lparr>rc_commits := um_erase i (rc_commits rc)\<rparr>)))"

definition ReplicaClient_AbortCallback :: "u64 \<Rightarrow> replica_reply \<Rightarrow> 'cb replica_client \<Rightarrow> 'cb replica_client outcome" where
  "ReplicaClient_AbortCallback i reply rc = assertE (rp_status reply = REPLY_OK)
     (case map_of (rc_aborts rc) i of
        None \<Rightarrow> Inl AssertFailed
      | Some acb \<Rightarrow> Inr (rc_emit (RCalledAbort acb) (rc\<lparr>rc_aborts := um_erase i (rc_aborts rc)\<rparr>)))"

end
