(* ===== verification/EndToEnd.thy ===== *)
theory EndToEnd
  imports ServerBehaviour ServerTxns ShardClientInv ReplicaClient
begin

text \<open>
  The components together: what a client's writes become at the shard (shard client, server,
  version store), and how the versions that a replica installs when it executes the leader's
  commit request compare with those of the leader (server, replica client).
\<close>

section \<open>What a client writes\<close>

text \<open>
  What a client does in a transaction before it commits: calls, and the replies to its reads.
\<close>

fun session_op :: "'cb sc_op \<Rightarrow> bool" where
  "session_op (OpReceive (Msg_GetReply rid st k v ts)) = True"
| "session_op (OpReceive m) = False"
| "session_op op = True"

fun put_of :: "txn_id \<Rightarrow> 'cb sc_op \<Rightarrow> (key \<times> val) list" where
  "put_of t (OpPut u k v cb) = (if u = t then [(k, v)] else [])"
| "put_of t op = []"

definition puts_of :: "txn_id \<Rightarrow> 'cb sc_op list \<Rightarrow> (key \<times> val) list" where
  "puts_of t ops = concat (map (put_of t) ops)"

lemma um_put_all_concat: "um_put_all (kvs @ kvs') m = um_put_all kvs' (um_put_all kvs m)"
  by (simp add: um_put_all_def)

lemma sc_do_txn:
  assumes "sc_do op c = Inr c'" and "session_op op" and "map_of (sc_transactions c) t = Some txn"
  shows "\<exists>txn'. map_of (sc_transactions c') t = Some txn' \<and> writeSet txn' = um_put_all (put_of t op) (writeSet txn)"
  using assms
  by (cases op rule: session_op.cases)
    (auto simp: ShardClient_Begin_def ShardClient_Get_def ShardClient_GetForUpdate_def ShardClient_get_def ShardClient_Put_def
      ShardClient_ROCommit_def ShardClient_RWCommitCoordinator_def ShardClient_RWCommitParticipant_def ShardClient_PrepareOK_def
      ShardClient_PrepareAbort_def ShardClient_Abort_def ShardClient_Wound_def ShardClient_AbortGet_def
      ShardClient_ReceiveMessage_def HandleGetReply_def Let_def find_txn_def send_request_def emit_def add_read_def um_ref_def
      addReadSet_def addWriteSet_def um_has_def split: option.splits if_splits)

lemma sc_run_txn:
  "sc_run ops c = Inr c' \<Longrightarrow> list_all session_op ops \<Longrightarrow> map_of (sc_transactions c) t = Some txn \<Longrightarrow>
    \<exists>txn'. map_of (sc_transactions c') t = Some txn' \<and> writeSet txn' = um_put_all (puts_of t ops) (writeSet txn)"
proof (induction ops arbitrary: c txn)
  case (Cons op ops)
  then obtain c1 where 1: "sc_do op c = Inr c1" and 2: "sc_run ops c1 = Inr c'" by (auto simp: sc_run_def)
  from sc_do_txn [OF 1 _ Cons.prems(3)] Cons.prems(2) obtain txn1 where
    txn1: "map_of (sc_transactions c1) t = Some txn1" "writeSet txn1 = um_put_all (put_of t op) (writeSet txn)" by auto
  from Cons.IH [OF 2 _ txn1(1)] Cons.prems(2) txn1(2) show ?case by (auto simp: puts_of_def um_put_all_concat)
qed (simp add: sc_run_def puts_of_def)

lemma sc_commit_message:
  assumes "ShardClient_Begin t start c0 = Inr c1" and "sc_run ops c1 = Inr c2" and "list_all session_op ops"
    and "ShardClient_RWCommitCoordinator t ps nts ccb c2 = Inr c3"
  shows "\<exists>msg. sc_trace c3 = sc_trace c2 @ [ToReplica (sc_shard_idx c2) (sc_replica c2)
      (Msg_RWCommitCoordinator (sc_rid c2) t msg nts ps)] \<and> msg_writeset msg = um_put_all (puts_of t ops) []"
proof -
  from assms(1) have "map_of (sc_transactions c1) t = Some (set_start_time start Transaction_init)"
    by (auto simp: ShardClient_Begin_def)
  from sc_run_txn [OF assms(2,3) this] obtain txn where txn: "map_of (sc_transactions c2) t = Some txn"
    and w: "writeSet txn = um_put_all (puts_of t ops) []" by (auto simp: set_start_time_def Transaction_init_def)
  with assms(4) show ?thesis
    by (auto simp: ShardClient_RWCommitCoordinator_def find_txn_def send_request_def emit_def sc_rid_def Transaction_serialize_def)
qed

section \<open>From the client's puts to the versions\<close>

lemma map_of_put_all_rev: "map_of (um_put_all kvs m) = map_of m ++ map_of (rev kvs)"
  by (induction kvs arbitrary: m) (auto simp: map_add_def fun_eq_iff split: option.splits)

text \<open>
  \<^bold>\<open>C6\<close> What a client puts is what readers see after the commit. A client begins a
  transaction, reads (also for update) and puts keys in any order, and commits it at a
  coordinator, where it may have read before. The shard handles the message; other
  messages, answers of participants, callbacks, upcalls and timers follow, none of them
  another read or commit request of this transaction; and when the shard then commits the
  transaction at \<open>cts\<close>, every key put has the value put last, for every reader from \<open>cts\<close>
  on that saw an older version before. This holds also of keys that were read for update.
\<close>

theorem put_then_commit:
  assumes "ShardClient_Begin t start c0 = Inr c1" and "sc_run ops c1 = Inr c2" and "list_all session_op ops"
    and "ShardClient_RWCommitCoordinator t ps nts ccb c2 = Inr c3" and "last (sc_trace c3) = ToReplica shard i m"
    and "Server_ReceiveMessage env a m s0 = Inr ((), s1)"
    and "GetRWTransactionState (sv_transactions s0) t \<notin> {COMMITTED, ABORTED}" and "txn_ok (txn_at (sv_transactions s0) t)"
    and "(server_step_of env (\<lambda>u. u \<noteq> t) (\<lambda>_. True) (\<lambda>_. True))\<^sup>*\<^sup>* s1 s2"
    and "GetRWTransactionState (sv_transactions s2) t = COMMITTING"
    and "CoordinatorCommitTransaction env t cts s2 = Inr ((), s3)" and "vs_inv tid_lt (sv_store s2)"
    and "map_of (rev (puts_of t ops)) k = Some v" and "\<not> tid_lt r (TimestampID cts t)"
    and "\<And>w' v'. vs_get tid_lt (sv_store s2) k r = Some (w', v') \<Longrightarrow> tid_lt w' (TimestampID cts t)"
  shows "vs_get tid_lt (sv_store s3) k r = Some (TimestampID cts t, v)"
proof -
  let ?kvs = "um_put_all (puts_of t ops) []" and ?old = "txn_at (sv_transactions s0) t"
  obtain msg where "m = Msg_RWCommitCoordinator (sc_rid c2) t msg nts ps" and w: "msg_writeset msg = ?kvs"
    using sc_commit_message [OF assms(1-4)] assms(5) by auto
  with assms(6) have "HandleRWCommitCoordinator env a (sc_rid c2) t msg nts ps s0 = Inr ((), s1)"
    by (simp add: Server_ReceiveMessage_def)
  from committing_entry [OF HandleRWCommitCoordinator_enters [OF this not_ended [OF assms(7)]] assms(9,10)]
  have txn: "GetTransaction (sv_transactions s2) t = Inr (entered_txn msg ?old)" .
  have "writeSet (entered_txn msg ?old) = um_put_all ?kvs (writeSet ?old)"
    using w um_put_all_append [of "[]" ?kvs]
    by (simp add: entered_txn_def set_start_time_def add_read_write_sets_def Transaction_parse_def)
  moreover have "um_ok (um_put_all ?kvs (writeSet ?old))" using assms(8) by (simp add: txn_ok_def)
  moreover have "map_of ?kvs k = Some v" using assms(13) by (simp add: map_of_put_all_rev)
  then have "map_of (um_put_all ?kvs (writeSet ?old)) k = Some v" by (simp add: map_of_put_all)
  ultimately show ?thesis
    using CoordinatorCommitTransaction_store [OF assms(11) txn] assms(12,14,15)
    by (auto intro!: vs.commit_visible)
qed


definition e2e_rid :: "u64 \<Rightarrow> request_id" where
  "e2e_rid n = \<lparr>rid_client_id = 7, rid_client_req_id = n\<rparr>"

definition e2e_ops :: "nat sc_op list" where
  "e2e_ops = [OpGetForUpdate 12 ''x'' 0, OpReceive (Msg_GetReply (e2e_rid 0) REPLY_OK ''x'' (Some ''old'') (Some (Timestamp 1 0))),
     OpPut 12 ''x'' ''first'' 1, OpPut 12 ''x'' ''second'' 1]"

definition e2e_begun :: "nat sclient" where
  "e2e_begun = projr (ShardClient_Begin 12 (Timestamp 3 7) (ShardClient_init 7 0))"

definition e2e_put :: "nat sclient" where
  "e2e_put = projr (sc_run e2e_ops e2e_begun)"

definition e2e_sent :: "nat sclient" where
  "e2e_sent = projr (ShardClient_RWCommitCoordinator 12 [0] Timestamp_zero 2 e2e_put)"

definition e2e_msg :: transaction_message where
  "e2e_msg = \<lparr>msg_starttime = Timestamp 3 7, msg_readset = [(''x'', Timestamp 1 0)], msg_writeset = [(''x'', ''second'')]\<rparr>"

definition e2e_message :: shard_request where
  "e2e_message = Msg_RWCommitCoordinator (e2e_rid 1) 12 e2e_msg Timestamp_zero [0]"

definition e2e_read :: server where
  "e2e_read = snd (projr (Server_ReceiveMessage demo_env 1 (Msg_Get (e2e_rid 0) 12 ''x'' (Timestamp 3 7) True) demo_loaded))"

definition e2e_prepared :: server where
  "e2e_prepared = snd (projr (Server_ReceiveMessage demo_env 1 e2e_message e2e_read))"

definition e2e_request :: replica_request where
  "e2e_request = coordinator_commit_request 12 (Timestamp 5 7) 0 [0] (Transaction_parse e2e_msg) Timestamp_zero (Timestamp 5 7)"

definition e2e_upcalled :: server where
  "e2e_upcalled = snd (projr (ReplicaUpcall demo_env e2e_request e2e_prepared))"

definition e2e_committed :: server where
  "e2e_committed = snd (projr (CoordinatorCommitTransaction demo_env 12 (Timestamp 5 7) e2e_upcalled))"

lemma e2e_handled: "Server_ReceiveMessage demo_env 1 e2e_message e2e_read = Inr ((), e2e_prepared)"
  by code_simp

lemma e2e_store: "sv_store e2e_upcalled = sv_store demo_committing"
  by code_simp

lemma e2e_commit: "CoordinatorCommitTransaction demo_env 12 (Timestamp 5 7) e2e_upcalled = Inr ((), e2e_committed)"
  by code_simp

text \<open>The leader executes the operation it has replicated, which starts the timer of the commit.\<close>

lemma e2e_steps: "(server_step_of demo_env (\<lambda>u. u \<noteq> 12) (\<lambda>_. True) (\<lambda>_. True))\<^sup>*\<^sup>* e2e_prepared e2e_upcalled"
proof (rule r_into_rtranclp)
  have "ReplicaUpcall demo_env e2e_request e2e_prepared = Inr (REPLY_OK, e2e_upcalled)" by code_simp
  moreover have "\<not> prepares_now e2e_request e2e_prepared" by code_simp
  moreover have "rr_op e2e_request = OP_COMMIT" by (simp add: e2e_request_def coordinator_commit_request_def)
  ultimately show "server_step_of demo_env (\<lambda>u. u \<noteq> 12) (\<lambda>_. True) (\<lambda>_. True) e2e_prepared e2e_upcalled"
    by (intro server_step_of.upcall) auto
qed

lemma e2e_states:
  "GetRWTransactionState (sv_transactions e2e_read) 12 = READING"
  "GetRWTransactionState (sv_transactions e2e_upcalled) 12 = COMMITTING"
  "txn_at (sv_transactions e2e_read) 12 =
     \<lparr>readSet = [(''x'', Timestamp_zero)], writeSet = [(''x'', ''x'')], start_time = Timestamp_zero\<rparr>"
  by code_simp+

lemma put_then_commit_witness:
  "vs_get tid_lt (sv_store e2e_committed) ''x'' (TimestampID (Timestamp 6 0) 0) = Some (TimestampID (Timestamp 5 7) 12, ''second'')"
proof (rule put_then_commit [OF _ _ _ _ _ e2e_handled _ _ e2e_steps e2e_states(2) e2e_commit])
  show "ShardClient_Begin 12 (Timestamp 3 7) (ShardClient_init 7 0) = Inr e2e_begun" by code_simp
  show "sc_run e2e_ops e2e_begun = Inr e2e_put" by code_simp
  show "list_all session_op e2e_ops" by (simp add: e2e_ops_def)
  show "ShardClient_RWCommitCoordinator 12 [0] Timestamp_zero 2 e2e_put = Inr e2e_sent" by code_simp
  show "last (sc_trace e2e_sent) = ToReplica 0 0 e2e_message" by code_simp
  show "GetRWTransactionState (sv_transactions e2e_read) 12 \<notin> {COMMITTED, ABORTED}" by (simp add: e2e_states)
  show "txn_ok (txn_at (sv_transactions e2e_read) 12)" by (simp add: e2e_states txn_ok_def um_ok_def)
  show "vs_inv tid_lt (sv_store e2e_upcalled)" by (simp add: e2e_store demo_committing_inv)
  show "map_of (rev (puts_of 12 e2e_ops)) ''x'' = Some ''second''" by (simp add: e2e_ops_def puts_of_def)
  show "\<not> tid_lt (TimestampID (Timestamp 6 0) 0) (TimestampID (Timestamp 5 7) 12)" by code_simp
  have "vs_get tid_lt (sv_store e2e_upcalled) ''x'' (TimestampID (Timestamp 6 0) 0) = Some (TimestampID (Timestamp 1 0) 0, ''old'')"
    by code_simp
  moreover have "tid_lt (TimestampID (Timestamp 1 0) 0) (TimestampID (Timestamp 5 7) 12)" by code_simp
  ultimately show "tid_lt w' (TimestampID (Timestamp 5 7) 12)"
    if "vs_get tid_lt (sv_store e2e_upcalled) ''x'' (TimestampID (Timestamp 6 0) 0) = Some (w', v')" for w' v'
    using that by simp
qed

section \<open>What the leader replicates\<close>

text \<open>Steps that send no timestamp of a preparing transaction to the replicas.\<close>

definition quiet :: "server \<Rightarrow> server \<Rightarrow> bool" where
  "quiet s s' \<longleftrightarrow> (\<exists>es. sv_trace s' = sv_trace s @ es \<and> (\<forall>e \<in> set es. prepare_stamp e = None))"

lemma quiet_trans: "quiet s s' \<Longrightarrow> quiet s' s'' \<Longrightarrow> quiet s s''"
  by (fastforce simp: quiet_def)

lemma quiet_same: "sv_trace s' = sv_trace s \<Longrightarrow> quiet s s'"
  by (simp add: quiet_def)

lemma quiet_emit: "prepare_stamp e = None \<Longrightarrow> quiet s (s\<lparr>sv_trace := sv_trace s @ [e]\<rparr>)"
  by (simp add: quiet_def)

lemma quiet_for: "(\<And>x. keepsS quiet (f x)) \<Longrightarrow> keepsS quiet (forS xs f)"
proof (induction xs)
  case Nil
  then show ?case by (simp add: keepsS_def returnS_def quiet_same)
next
  case (Cons x xs)
  then show ?case unfolding keepsS_def forS.simps thenS_Inr by (blast intro: quiet_trans)
qed

lemma quiet_wounds: "keepsS quiet (WoundPendingRWs t rws)"
  unfolding WoundPendingRWs_def
  by (rule quiet_for) (auto simp: keepsS_def wound_pending_rw_def assertS_def bindS_Inr getS_def failS_def txn_get_def
      emitS_def modS_def shard_client_def returnS_def quiet_def split: if_splits option.splits)

lemma quiet_pause: "keepsS quiet (pause env t rws)"
  unfolding keepsS_def pause_def bindS_Inr thenS_Inr
  by (auto simp: ttNow_def txn_step_def quiet_def dest!: keepsSD [OF quiet_wounds])

lemma quiet_abort: "keepsS quiet (SendAbortParticipants t ps)"
proof -
  have "keepsS quiet (forS ps (\<lambda>p. if p \<noteq> me then shard_client p (ShardAbort p t) else returnS ()))" for me
    by (rule quiet_for) (auto simp: keepsS_def shard_client_def emitS_def modS_def returnS_def intro: quiet_same quiet_emit
      split: if_splits)
  then show ?thesis by (auto simp: keepsS_def SendAbortParticipants_def bindS_Inr getS_def)
qed

lemma coordinator_rest_replicates:
  assumes "coordinator_rest env a rid t txn nts start me ps st s = Inr ((), s')" and "ww_inv (sv_locks s)"
    and "sv_trace s' = sv_trace s @ es" and "ReplicaCoordinatorCommit u start' c ps' txn' nts' cts \<in> set es"
  shows "txn' = txn"
proof -
  have noisy: "\<not> quiet s s'" using assms(3,4) by (force simp: quiet_def)
  have "st = PREPARING"
  proof (rule ccontr)
    assume "st \<noteq> PREPARING"
    with assms(1) have "quiet s s'"
      by (auto simp: coordinator_rest_def thenS_Inr put_c_def coordinator_reply_fail_def send_def emitS_def modS_def failS_def
          quiet_def split: if_splits dest!: keepsSD [OF quiet_abort])
    with noisy show False ..
  qed
  with assms(1) obtain ar ls where ar: "AcquireLocks t txn (sv_locks s) = Inr (ar, ls)"
    and rest: "(case la_status ar of
          ACQUIRED \<Rightarrow> assertS (la_wound_rws ar = [])
            (bindS (coordinator_prepared env t (rid_client_id rid)) (\<lambda>commit_ts.
             thenS (put_c t (pending_of rid a)) (emitS (ReplicaCoordinatorCommit t start me ps txn nts commit_ts))))
        | LOCK_FAIL \<Rightarrow> assertS (la_wound_rws ar = [])
            (bindS (release t txn) (\<lambda>rws. thenS (coordinator_reply_fail (pending_of rid a))
              (thenS (notify_rws env t rws) (txn_step (AbortPrepare t)))))
        | WAITING \<Rightarrow> thenS (put_c t (pending_of rid a)) (pause env t (la_wound_rws ar))) (s\<lparr>sv_locks := ls\<rparr>) = Inr ((), s')"
    by (auto simp: coordinator_rest_def bindS_Inr [of "lock_call _"] lock_call_def)
  from AcquireLocks_contract [OF assms(2) ar] have "la_status ar = WAITING \<or> la_status ar = ACQUIRED" by auto
  then show ?thesis
  proof
    assume "la_status ar = WAITING"
    with rest have "quiet s s'"
      by (auto simp: thenS_Inr put_c_def modS_def quiet_def dest!: keepsSD [OF quiet_pause])
    with noisy show ?thesis ..
  next
    assume "la_status ar = ACQUIRED"
    with rest obtain cts' where "sv_trace s' = sv_trace s @ [ReplicaCoordinatorCommit t start me ps txn nts cts']"
      by (auto simp: assertS_Inr bindS_Inr thenS_Inr put_c_def modS_def emitS_def prepared_at_def dest!: coordinator_prepared_Inr)
    with assms(3,4) show ?thesis by auto
  qed
qed


section \<open>Leader and follower\<close>

lemma receive_prepare_oks_txns:
  "receive_prepare_oks t c cts nts ps st s = Inr (st', s') \<Longrightarrow>
    txn_kept t (sv_transactions s) (sv_transactions s')"
proof (induction ps arbitrary: st s)
  case (Cons p ps)
  show ?case
  proof (cases "p = c")
    case False
    with Cons.prems obtain st1 tx where 1: "CoordinatorReceivePrepareOK t p cts nts (sv_transactions s) = Inr (st1, tx)"
      and 2: "receive_prepare_oks t c cts nts ps st1 (s\<lparr>sv_transactions := tx\<rparr>) = Inr (st', s')"
      by (auto simp: bindS_Inr txn_call_def)
    from 1 have "txn_kept t (sv_transactions s) tx" by (intro store_op_kept) (rule store_op.intros)
    with Cons.IH [OF 2] show ?thesis by (auto intro: txn_kept_trans)
  qed (use Cons in auto)
qed (simp add: returnS_def)

text \<open>A replica that executes the commit of a transaction it has not heard of enters exactly the writes of the request.\<close>

lemma replica_coordinator_prepare_enters:
  assumes "replica_coordinator_prepare r p s = Inr ((), s')"
    and "GetRWTransactionState (sv_transactions s) (rr_txnid r) = NOT_FOUND"
  shows "ended (rr_txnid r) (sv_transactions s') \<or>
    pending_txn (sv_transactions s') (rr_txnid r) = Some (entered_txn (op_txn p) Transaction_init)"
proof -
  let ?t = "rr_txnid r" and ?txn = "Transaction_parse (op_txn p)"
  have new: "\<not> ended ?t (sv_transactions s)" using not_ended [of "sv_transactions s" ?t] assms(2) by simp
  from assms(1) obtain st0 tx s1 st where
    run: "StartCoordinatorPrepare ?t (op_timestamp p) (op_coordinator p) (us_add_all (op_participants p) []) ?txn
      (op_nonblock_ts p) (sv_transactions s) = Inr (st0, tx)"
    and oks: "receive_prepare_oks ?t (op_coordinator p) (get_commit r) (op_nonblock_ts p) (us_add_all (op_participants p) [])
      st0 (s\<lparr>sv_transactions := tx\<rparr>) = Inr (st, s1)"
    and fin: "txn_kept ?t (sv_transactions s1) (sv_transactions s')"
    by (auto simp: replica_coordinator_prepare_def Let_def bindS_Inr getS_def assertS_Inr txn_call_def lock_call_def
        txn_step_def dest!: FinishCoordinatorPrepare_kept [where t = "rr_txnid r"])
  have "txn_kept ?t tx (sv_transactions s')" using receive_prepare_oks_txns [OF oks] fin by (auto intro: txn_kept_trans)
  moreover have "rw_state (rw_ref (sv_transactions s) ?t) \<noteq> NOT_FOUND"
    using run new by (auto simp: StartCoordinatorPrepare_def ended_def)
  then have "txn_at (sv_transactions s) ?t = Transaction_init" using unknown_txn [OF assms(2)] by simp
  ultimately show ?thesis using StartCoordinatorPrepare_enters [OF run new] by (auto simp: txn_kept_def)
qed

lemma versions_commit_writes:
  "um_ok ws \<Longrightarrow> versions (commit_writes (vs_put lt) ws w st) k = (case map_of ws k of
     None \<Rightarrow> versions st k | Some v \<Rightarrow> vset_insert lt (VersionedValue w v) (versions st k))"
proof (induction ws arbitrary: st)
  case (Cons p ws)
  obtain k0 v0 where p: "p = (k0, v0)" by fastforce
  have "map_of ws k0 = None" "um_ok ws" using Cons.prems p by (auto simp: um_ok_def map_of_eq_None_iff)
  moreover have "versions (vs_put lt k0 v0 w st) k = (if k = k0 then vset_insert lt (VersionedValue w v0) (versions st k0)
    else versions st k)" by (simp add: versions_def vs_put_def)
  ultimately show ?case using Cons.IH p by (simp split: option.split)
qed simp


text \<open>
  A leader that has entered a read for update of \<open>x\<close>, and two messages that may follow: one
  writes \<open>x\<close>, the other only \<open>y\<close>.
\<close>

definition e2e_follower :: server where
  "e2e_follower = snd (projr (ReplicaUpcall demo_env e2e_request demo_loaded))"

definition e2e_followed :: server where
  "e2e_followed = snd (projr (CoordinatorCommitTransaction demo_env 12 (Timestamp 5 7) e2e_follower))"

definition other_msg :: transaction_message where
  "other_msg = \<lparr>msg_starttime = Timestamp 3 7, msg_readset = [(''x'', Timestamp 1 0)], msg_writeset = [(''y'', ''new'')]\<rparr>"

definition other_prepared :: server where
  "other_prepared = snd (projr (Server_ReceiveMessage demo_env 1
     (Msg_RWCommitCoordinator (e2e_rid 1) 12 other_msg Timestamp_zero [0]) e2e_read))"

definition other_committed :: server where
  "other_committed = snd (projr (CoordinatorCommitTransaction demo_env 12 (Timestamp 5 7) other_prepared))"

definition other_follower :: server where
  "other_follower = snd (projr (ReplicaUpcall demo_env (coordinator_commit_request 12 (Timestamp 5 7) 0 [0]
     (Transaction_parse other_msg) Timestamp_zero (Timestamp 5 7)) demo_loaded))"

definition other_followed :: server where
  "other_followed = snd (projr (CoordinatorCommitTransaction demo_env 12 (Timestamp 5 7) other_follower))"

lemma e2e_locks: "ww_inv (sv_locks e2e_read)"
proof -
  have "sv_locks e2e_read = [(''x'', \<lparr>l_state = LOCKED_FOR_READ_WRITE, l_holders = [(12, Timestamp 3 7)], l_wait_q = [],
    l_waiters = []\<rparr>)]" by code_simp
  then show ?thesis by (simp add: ww_inv_def lock_at_def lock_inv_def q_inv_def um_ok_def Lock_init_def)
qed


end
