(* ===== verification/Bytes.thy ===== *)
theory Bytes
  imports Prelude
begin

text \<open>
  Buffers of bytes, for the packet formats of the transports: a \<open>char\<close> buffer is a
  \<open>string\<close>, integers are stored in it in the byte order of the machine (little
  endian, as on the machines the code is written for), and a pointer into it is an
  offset. A read beyond the end of the buffer is \<open>UndefinedBehaviour\<close>. The rules
  \<open>read_u64_at\<close> and its companions read back what was written.
\<close>

type_synonym u32 = "32 word"

section \<open>Integers as bytes\<close>

fun put_le :: "nat \<Rightarrow> nat \<Rightarrow> string" where
  "put_le 0 v = []"
| "put_le (Suc n) v = char_of v # put_le n (v div 256)"

fun get_le :: "string \<Rightarrow> nat" where
  "get_le [] = 0"
| "get_le (c # cs) = of_char c + 256 * get_le cs"

lemma length_put_le [simp]: "length (put_le n v) = n"
  by (induction n arbitrary: v) simp_all

lemma get_put_le: "v < 256 ^ n \<Longrightarrow> get_le (put_le n v) = v"
proof (induction n arbitrary: v)
  case 0
  then show ?case by simp
next
  case (Suc n)
  then have "v div 256 < 256 ^ n" by (simp add: less_mult_imp_div_less mult.commute)
  with Suc.IH show ?case by (simp add: mod_mult_div_eq)
qed

definition put_u32 :: "u32 \<Rightarrow> string" where
  "put_u32 v = put_le 4 (unat v)"

definition put_u64 :: "u64 \<Rightarrow> string" where
  "put_u64 v = put_le 8 (unat v)"

lemma length_put_u32 [simp]: "length (put_u32 v) = 4"
  by (simp add: put_u32_def)

lemma length_put_u64 [simp]: "length (put_u64 v) = 8"
  by (simp add: put_u64_def)

lemma get_put_u32: "of_nat (get_le (put_u32 v)) = v"
proof -
  have "unat v < 256 ^ 4" using unsigned_less [of v, where ?'a = nat] by simp
  then show ?thesis by (simp add: put_u32_def get_put_le)
qed

lemma get_put_u64: "of_nat (get_le (put_u64 v)) = v"
proof -
  have "unat v < 256 ^ 8" using unsigned_less [of v, where ?'a = nat] by simp
  then show ?thesis by (simp add: put_u64_def get_put_le)
qed

section \<open>Reading at an offset\<close>

definition read_string :: "string \<Rightarrow> nat \<Rightarrow> nat \<Rightarrow> string outcome" where
  "read_string buf p n = (if p + n \<le> length buf then Inr (take n (drop p buf)) else Inl UndefinedBehaviour)"

definition read_u32 :: "string \<Rightarrow> nat \<Rightarrow> u32 outcome" where
  "read_u32 buf p = bindE (read_string buf p 4) (\<lambda>b. Inr (of_nat (get_le b)))"

definition read_u64 :: "string \<Rightarrow> nat \<Rightarrow> u64 outcome" where
  "read_u64 buf p = bindE (read_string buf p 8) (\<lambda>b. Inr (of_nat (get_le b)))"

lemma read_string_at: "length a = p \<Longrightarrow> length m = n \<Longrightarrow> read_string (a @ m @ b) p n = Inr m"
  by (simp add: read_string_def)

lemma read_u32_at: "length a = p \<Longrightarrow> read_u32 (a @ put_u32 v @ b) p = Inr v"
  by (simp add: read_u32_def read_string_at get_put_u32)

lemma read_u64_at: "length a = p \<Longrightarrow> read_u64 (a @ put_u64 v @ b) p = Inr v"
  by (simp add: read_u64_def read_string_at get_put_u64)

lemmas read_at = read_string_at read_u32_at read_u64_at

text \<open>What is read does not depend on the bytes after it.\<close>

lemma read_string_take: "p + n \<le> k \<Longrightarrow> k \<le> length buf \<Longrightarrow> read_string (take k buf) p n = read_string buf p n"
  by (simp add: read_string_def drop_take min_def)

lemma read_u32_take: "p + 4 \<le> k \<Longrightarrow> k \<le> length buf \<Longrightarrow> read_u32 (take k buf) p = read_u32 buf p"
  by (simp add: read_u32_def read_string_take)

lemma read_u64_take: "p + 8 \<le> k \<Longrightarrow> k \<le> length buf \<Longrightarrow> read_u64 (take k buf) p = read_u64 buf p"
  by (simp add: read_u64_def read_string_take)

lemmas read_take = read_string_take read_u32_take read_u64_take

lemma read_string_append: "read_string buf p n = Inr m \<Longrightarrow> read_string (buf @ b) p n = Inr m"
  by (auto simp: read_string_def split: if_splits)

lemma read_string_bound: "read_string buf p n = Inr m \<Longrightarrow> p + n \<le> length buf \<and> length m = n"
  by (auto simp: read_string_def split: if_splits)

lemma read_u64_bound: "read_u64 buf p = Inr v \<Longrightarrow> p + 8 \<le> length buf"
  by (auto simp: read_u64_def dest: read_string_bound)

text \<open>Sizes of objects in memory as \<open>size_t\<close>.\<close>

lemma unat_of_nat_64: "n < 2 ^ 64 \<Longrightarrow> unat (of_nat n :: u64) = n"
  by (simp add: unat_of_nat take_bit_nat_eq_self_iff)

lemma of_nat_less_64: "m < 2 ^ 64 \<Longrightarrow> n < 2 ^ 64 \<Longrightarrow> (of_nat m :: u64) < of_nat n \<longleftrightarrow> m < n"
  by (simp add: word_less_nat_alt unat_of_nat_64)

lemma of_nat_le_64: "m < 2 ^ 64 \<Longrightarrow> n < 2 ^ 64 \<Longrightarrow> (of_nat m :: u64) \<le> of_nat n \<longleftrightarrow> m \<le> n"
  by (simp add: word_le_nat_alt unat_of_nat_64)

lemma of_nat_eq_64: "m < 2 ^ 64 \<Longrightarrow> n < 2 ^ 64 \<Longrightarrow> (of_nat m :: u64) = of_nat n \<longleftrightarrow> m = n"
  by (metis unat_of_nat_64)

end
