(* ===== verification/TcpTransport.thy ===== *)
theory TcpTransport
  imports Bytes
begin

text \<open>
  The TCP transport (\<open>src/lib/tcptransport.cc\<close>): the framing of messages on a
  connection, the loop that reads them back, and the tables of connections. A
  message is its type name and its serialized data. A \<open>bufferevent\<close> of libevent is a
  number; which of them are allocated, what was written to each, and what was
  handed to the receivers is part of the state. Whether a socket operation succeeds
  is an argument.
\<close>

type_synonym message = "string \<times> string"

definition MAGIC :: u32 where
  "MAGIC = 0x06121983"

section \<open>Framing\<close>

text \<open>The buffer that \<open>SendMessageInternal\<close> fills; the assertions are on \<open>ptr - buf\<close>.\<close>

definition tcp_frame :: "message \<Rightarrow> string outcome" where
  "tcp_frame m =
     (let typ = fst m; data = snd m;
          typeLen = of_nat (length typ) :: u64;
          dataLen = of_nat (length data) :: u64;
          totalLen = typeLen + 8 + dataLen + 8 + 8 + 4 in
      assertE (4 < totalLen)
      (assertE (12 < totalLen)
      (assertE (20 < totalLen)
      (assertE (20 + typeLen < totalLen)
      (assertE (28 + typeLen < totalLen)
      (assertE (28 + typeLen + dataLen = totalLen)
        (Inr (put_u32 MAGIC @ put_u64 totalLen @ put_u64 typeLen @ typ @ put_u64 dataLen @ data))))))))"

text \<open>The part of \<open>TCPReadableCallback\<close> that parses a frame copied to \<open>buf\<close>.\<close>

definition tcp_parse :: "string \<Rightarrow> message outcome" where
  "tcp_parse buf =
     (let totalSize = of_nat (length buf) :: u64 in
      bindE (read_u64 buf 12) (\<lambda>typeLen.
      assertE (20 < totalSize)
      (assertE (20 + typeLen < totalSize)
      (bindE (read_string buf 20 (unat typeLen)) (\<lambda>msgType.
       bindE (read_u64 buf (20 + unat typeLen)) (\<lambda>msgLen.
       assertE (28 + typeLen < totalSize)
       (assertE (28 + typeLen + msgLen \<le> totalSize)
       (bindE (read_string buf (28 + unat typeLen) (unat msgLen)) (\<lambda>msg.
        Inr (msgType, msg))))))))))"

text \<open>One round of the loop: nothing yet, or a message and what follows it.\<close>

definition tcp_next :: "string \<Rightarrow> (message \<times> string) option outcome" where
  "tcp_next evbuf =
     (if evbuf = [] \<or> length evbuf < 4 then Inr None
      else bindE (read_u32 evbuf 0) (\<lambda>magic.
        assertE (magic = MAGIC)
        (if length evbuf < 12 then Inr None
         else bindE (read_u64 evbuf 4) (\<lambda>totalSize.
           assertE (totalSize < 1073741826)
           (if length evbuf < unat totalSize then Inr None
            else bindE (tcp_parse (take (unat totalSize) evbuf)) (\<lambda>m.
              Inr (Some (m, drop (unat totalSize) evbuf))))))))"

lemma tcp_parse_long: "tcp_parse buf = Inr m \<Longrightarrow> 20 \<le> length buf"
  by (auto simp: tcp_parse_def Let_def dest!: read_u64_bound)

lemma tcp_next_shorter: "tcp_next evbuf = Inr (Some (m, rest)) \<Longrightarrow> length rest < length evbuf"
  by (auto simp: tcp_next_def split: if_splits dest!: tcp_parse_long)

text \<open>The loop: the messages found, and what stays in the buffer.\<close>

function tcp_readable :: "string \<Rightarrow> (message list \<times> string) outcome" where
  "tcp_readable evbuf =
     (case tcp_next evbuf of
        Inl f \<Rightarrow> Inl f
      | Inr None \<Rightarrow> Inr ([], evbuf)
      | Inr (Some (m, rest)) \<Rightarrow> bindE (tcp_readable rest) (\<lambda>(ms, r). Inr (m # ms, r)))"
  by pat_completeness auto
termination by (relation "measure length") (auto simp: tcp_next_shorter)

declare tcp_readable.simps [simp del]

text \<open>Bytes arrive in pieces; each arrival appends to the buffer and runs the callback.\<close>

fun tcp_arrivals :: "string list \<Rightarrow> string \<Rightarrow> (message list \<times> string) outcome" where
  "tcp_arrivals [] evbuf = Inr ([], evbuf)"
| "tcp_arrivals (chunk # chunks) evbuf =
     bindE (tcp_readable (evbuf @ chunk)) (\<lambda>(ms, r).
     bindE (tcp_arrivals chunks r) (\<lambda>(ms', r'). Inr (ms @ ms', r')))"

fun tcp_frames :: "message list \<Rightarrow> string outcome" where
  "tcp_frames [] = Inr []"
| "tcp_frames (m # ms) = bindE (tcp_frame m) (\<lambda>f. bindE (tcp_frames ms) (\<lambda>fs. Inr (f @ fs)))"

definition tcp_fits :: "message \<Rightarrow> bool" where
  "tcp_fits m \<longleftrightarrow> 28 + length (fst m) + length (snd m) < 1073741826"

section \<open>A frame read back\<close>

lemma tcp_frame_size:
  assumes "28 + length typ + length data < 2 ^ 64"
  shows "tcp_frame (typ, data) = (if data = [] then Inl AssertFailed
    else Inr (put_u32 MAGIC @ put_u64 (of_nat (28 + length typ + length data)) @ put_u64 (of_nat (length typ)) @ typ @
      put_u64 (of_nat (length data)) @ data))"
proof -
  define N where "N = 28 + length typ + length data"
  have N: "N < 2 ^ 64" using assms by (simp add: N_def)
  have less: "(of_nat k :: u64) < of_nat N \<longleftrightarrow> k < N" if "k \<le> N" for k
    using that N by (intro of_nat_less_64) auto
  have total: "of_nat (length typ) + 8 + of_nat (length data) + 8 + 8 + 4 = (of_nat N :: u64)"
    and d28: "28 + of_nat (length typ) + of_nat (length data) = (of_nat N :: u64)"
    by (simp_all add: N_def)
  have a: "(4 :: u64) < of_nat N" "(12 :: u64) < of_nat N" "(20 :: u64) < of_nat N"
    using less [of 4] less [of 12] less [of 20] by (simp_all add: N_def)
  have b: "20 + of_nat (length typ) < (of_nat N :: u64)" using less [of "20 + length typ"] by (simp add: N_def)
  have c: "28 + of_nat (length typ) < (of_nat N :: u64) \<longleftrightarrow> data \<noteq> []"
    using less [of "28 + length typ"] by (simp add: N_def)
  show ?thesis
    unfolding tcp_frame_def Let_def fst_conv snd_conv total d28 N_def [symmetric] using a b c
    by (simp add: assertE_def)
qed

text \<open>The buffer of a message whose size is small enough, and its parts.\<close>

definition framed :: "message \<Rightarrow> string" where
  "framed m = put_u32 MAGIC @ put_u64 (of_nat (28 + length (fst m) + length (snd m))) @ put_u64 (of_nat (length (fst m))) @ fst m @
     put_u64 (of_nat (length (snd m))) @ snd m"

lemma length_framed: "length (framed m) = 28 + length (fst m) + length (snd m)"
  by (simp add: framed_def)

lemma tcp_frame_framed:
  "tcp_fits m \<Longrightarrow> tcp_frame m = (if snd m = [] then Inl AssertFailed else Inr (framed m))"
  using tcp_frame_size [of "fst m" "snd m"] by (simp add: tcp_fits_def framed_def)

lemma read_framed:
  "read_u32 (framed m @ b) 0 = Inr MAGIC"
  "read_u64 (framed m @ b) 4 = Inr (of_nat (length (framed m)))"
  "read_u64 (framed m @ b) 12 = Inr (of_nat (length (fst m)))"
  "read_string (framed m @ b) 20 (length (fst m)) = Inr (fst m)"
  "read_u64 (framed m @ b) (20 + length (fst m)) = Inr (of_nat (length (snd m)))"
  "read_string (framed m @ b) (28 + length (fst m)) (length (snd m)) = Inr (snd m)"
proof -
  let ?h = "put_u32 MAGIC" and ?n = "put_u64 (of_nat (28 + length (fst m) + length (snd m)))"
    and ?t = "put_u64 (of_nat (length (fst m)))" and ?d = "put_u64 (of_nat (length (snd m)))"
  show "read_u32 (framed m @ b) 0 = Inr MAGIC"
    using read_u32_at [of "[]" 0 MAGIC] by (simp add: framed_def)
  show "read_u64 (framed m @ b) 4 = Inr (of_nat (length (framed m)))"
    using read_u64_at [of ?h 4] by (simp add: framed_def)
  show "read_u64 (framed m @ b) 12 = Inr (of_nat (length (fst m)))"
    using read_u64_at [of "?h @ ?n" 12] by (simp add: framed_def)
  show "read_string (framed m @ b) 20 (length (fst m)) = Inr (fst m)"
    using read_string_at [of "?h @ ?n @ ?t" 20 "fst m"] by (simp add: framed_def)
  show "read_u64 (framed m @ b) (20 + length (fst m)) = Inr (of_nat (length (snd m)))"
    using read_u64_at [of "?h @ ?n @ ?t @ fst m" "20 + length (fst m)"] by (simp add: framed_def)
  show "read_string (framed m @ b) (28 + length (fst m)) (length (snd m)) = Inr (snd m)"
    using read_string_at [of "?h @ ?n @ ?t @ fst m @ ?d" "28 + length (fst m)" "snd m"] by (simp add: framed_def)
qed

lemma tcp_parse_framed:
  assumes "tcp_fits m" and "snd m \<noteq> []"
  shows "tcp_parse (framed m) = Inr m"
proof -
  define N where "N = length (framed m)"
  have N: "N < 2 ^ 64" and Ndef: "N = 28 + length (fst m) + length (snd m)"
    using assms(1) by (simp_all add: N_def length_framed tcp_fits_def)
  have less: "(of_nat k :: u64) < of_nat N \<longleftrightarrow> k < N" if "k \<le> N" for k
    using that N by (intro of_nat_less_64) auto
  have u: "unat (of_nat (length (fst m)) :: u64) = length (fst m)" "unat (of_nat (length (snd m)) :: u64) = length (snd m)"
    using N Ndef by (intro unat_of_nat_64; simp)+
  have a: "(20 :: u64) < of_nat N" using less [of 20] by (simp add: Ndef)
  have b: "20 + of_nat (length (fst m)) < (of_nat N :: u64)" using less [of "20 + length (fst m)"] by (simp add: Ndef)
  have c: "28 + of_nat (length (fst m)) < (of_nat N :: u64)"
    using less [of "28 + length (fst m)"] assms(2) by (simp add: Ndef)
  have d: "28 + of_nat (length (fst m)) + of_nat (length (snd m)) \<le> (of_nat N :: u64)" by (simp add: Ndef)
  show ?thesis
    using read_framed [of m "[]"] a b c d u by (simp add: tcp_parse_def N_def [symmetric] Let_def)
qed

lemma tcp_next_framed:
  assumes "tcp_fits m" and "snd m \<noteq> []"
  shows "tcp_next (framed m @ b) = Inr (Some (m, b))"
proof -
  have len: "12 \<le> length (framed m)" by (simp add: length_framed)
  have small: "(of_nat (length (framed m)) :: u64) < 1073741826"
    using of_nat_less_64 [of "length (framed m)" 1073741826] assms(1) by (simp add: length_framed tcp_fits_def)
  have u: "unat (of_nat (length (framed m)) :: u64) = length (framed m)"
    using assms(1) by (intro unat_of_nat_64) (simp add: length_framed tcp_fits_def)
  have ne: "framed m \<noteq> []" using len by auto
  show ?thesis
    using assms len small u ne by (simp add: tcp_next_def read_framed tcp_parse_framed)
qed

text \<open>Less than a frame: the callback waits for more.\<close>

lemma tcp_next_partial:
  assumes "tcp_fits m" and "framed m = buf @ more" and "more \<noteq> []"
  shows "tcp_next buf = Inr None"
proof -
  have buf: "buf = take (length buf) (framed m @ [])" and le: "length buf < length (framed m)"
    using assms by simp_all
  have magic: "read_u32 buf 0 = Inr MAGIC" if "4 \<le> length buf"
    using read_u32_take [of 0 "length buf" "framed m"] read_framed(1) [of m "[]"] that le assms(2) by simp
  have size: "read_u64 buf 4 = Inr (of_nat (length (framed m)))" if "12 \<le> length buf"
    using read_u64_take [of 4 "length buf" "framed m"] read_framed(2) [of m "[]"] that le assms(2) by simp
  have small: "(of_nat (length (framed m)) :: u64) < 1073741826"
    using of_nat_less_64 [of "length (framed m)" 1073741826] assms(1) by (simp add: length_framed tcp_fits_def)
  have u: "unat (of_nat (length (framed m)) :: u64) = length (framed m)"
    using assms(1) by (intro unat_of_nat_64) (simp add: length_framed tcp_fits_def)
  show ?thesis
    using magic size small u le by (auto simp: tcp_next_def not_less)
qed

section \<open>Streams\<close>

lemma tcp_frames_ConsE:
  assumes "tcp_frames (m # ms) = Inr fs" and "tcp_fits m"
  obtains fs' where "snd m \<noteq> []" and "tcp_frames ms = Inr fs'" and "fs = framed m @ fs'"
  using assms by (auto simp: tcp_frame_framed split: if_splits)

text \<open>
  Whatever part of the stream is in the buffer, the callback delivers the complete
  messages of it and leaves the beginning of the next one.
\<close>

lemma tcp_readable_stream:
  assumes "tcp_frames ms = Inr (buf @ more)" and "\<forall>m\<in>set ms. tcp_fits m"
  shows "\<exists>ms1 ms2 r. tcp_readable buf = Inr (ms1, r) \<and> ms = ms1 @ ms2 \<and> tcp_frames ms2 = Inr (r @ more) \<and>
    tcp_next r = Inr None"
  using assms
proof (induction ms arbitrary: buf)
  case Nil
  then have "buf = []" by simp
  with Nil show ?case by (simp add: tcp_readable.simps [of "[]"] tcp_next_def)
next
  case (Cons m ms)
  then obtain fs' where m: "tcp_fits m" "snd m \<noteq> []" and fs': "tcp_frames ms = Inr fs'" and eq: "buf @ more = framed m @ fs'"
    by (elim tcp_frames_ConsE) auto
  from eq consider (whole) b where "buf = framed m @ b" "fs' = b @ more"
    | (part) q where "q \<noteq> []" "framed m = buf @ q" "more = q @ fs'"
    unfolding append_eq_append_conv2 by (metis append_Nil append_Nil2)
  then show ?case
  proof cases
    case whole
    with Cons.IH [of b] Cons.prems(2) fs' obtain ms1 ms2 r where
      "tcp_readable b = Inr (ms1, r)" "ms = ms1 @ ms2" "tcp_frames ms2 = Inr (r @ more)" "tcp_next r = Inr None" by auto
    with whole(1) m have "tcp_readable buf = Inr (m # ms1, r) \<and> m # ms = (m # ms1) @ ms2 \<and> tcp_frames ms2 = Inr (r @ more) \<and>
        tcp_next r = Inr None"
      by (simp add: tcp_readable.simps [of "framed m @ b"] tcp_next_framed)
    then show ?thesis by blast
  next
    case part
    from tcp_next_partial [OF m(1) part(2,1)] Cons.prems(1)
    have "tcp_readable buf = Inr ([], buf) \<and> m # ms = [] @ (m # ms) \<and> tcp_frames (m # ms) = Inr (buf @ more) \<and>
        tcp_next buf = Inr None"
      by (simp add: tcp_readable.simps [of buf])
    then show ?thesis by blast
  qed
qed

lemma tcp_stalled_empty:
  assumes "tcp_frames ms = Inr r" and "tcp_next r = Inr None" and "\<forall>m\<in>set ms. tcp_fits m"
  shows "ms = [] \<and> r = []"
proof (cases ms)
  case Nil
  with assms(1) show ?thesis by simp
next
  case (Cons m l)
  with assms(1,3) obtain fs' where "snd m \<noteq> []" and "r = framed m @ fs'"
    by (auto elim: tcp_frames_ConsE simp del: tcp_frames.simps)
  with Cons assms(2,3) show ?thesis by (simp add: tcp_next_framed)
qed

lemma tcp_arrivals_stream:
  assumes "tcp_frames ms = Inr (buf @ concat chunks)" and "\<forall>m\<in>set ms. tcp_fits m" and "tcp_next buf = Inr None"
  shows "tcp_arrivals chunks buf = Inr (ms, [])"
  using assms
proof (induction chunks arbitrary: ms buf)
  case Nil
  then show ?case using tcp_stalled_empty [of ms buf] by simp
next
  case (Cons chunk chunks)
  from tcp_readable_stream [of ms "buf @ chunk" "concat chunks"] Cons.prems obtain ms1 ms2 r where
    r: "tcp_readable (buf @ chunk) = Inr (ms1, r)" "ms = ms1 @ ms2" "tcp_frames ms2 = Inr (r @ concat chunks)"
      "tcp_next r = Inr None" by auto
  from Cons.IH [OF r(3) _ r(4)] r Cons.prems(2) show ?case by simp
qed

text \<open>
  Messages survive the stream. When a list of messages is framed and
  written to a connection, then however the network cuts the bytes into pieces,
  the reader's callbacks deliver exactly these messages, in order, and nothing is
  left in the buffer. Frames have to stay below the limit of the reader.
\<close>

theorem tcp_stream_roundtrip:
  assumes "tcp_frames ms = Inr (concat chunks)" and "\<forall>m\<in>set ms. tcp_fits m"
  shows "tcp_arrivals chunks [] = Inr (ms, [])"
  using tcp_arrivals_stream [of ms "[]" chunks] assms by (simp add: tcp_next_def)

definition demo_messages :: "message list" where
  "demo_messages = [(''a.Get'', ''k''), (''a.Put'', ''kv'')]"

text \<open>The stream arrives in four pieces, one of them empty, cut inside the frames.\<close>

definition demo_chunks :: "string list" where
  "demo_chunks = (let s = concat (map framed demo_messages) in [take 3 s, [], take 40 (drop 3 s), drop 43 s])"

lemma concat_cut: "concat [take i s, [], take j (drop i s), drop (i + j) s] = s"
proof -
  have "drop (i + j) s = drop j (drop i s)" by (simp add: add.commute)
  then show ?thesis by (simp only: concat.simps append_take_drop_id append_Nil append_Nil2)
qed

lemma demo_frames: "tcp_frames demo_messages = Inr (concat demo_chunks)"
  using concat_cut [of 3 "concat (map framed demo_messages)" 40]
  by (simp add: demo_chunks_def Let_def) (simp add: demo_messages_def tcp_frame_framed tcp_fits_def)

theorem tcp_stream_roundtrip_witness:
  "tcp_arrivals demo_chunks [] = Inr ([(''a.Get'', ''k''), (''a.Put'', ''kv'')], [])"
  using tcp_stream_roundtrip [OF demo_frames] by (simp add: demo_messages_def tcp_fits_def)

text \<open>
  What can be sent. A message goes out exactly when its data is not
  empty: the last assertions on the write pointer fail for a message that
  serializes to nothing, whatever its type.
\<close>

theorem tcp_frame_needs_data:
  assumes "28 + length typ + length data < 2 ^ 64"
  shows "tcp_frame (typ, data) = Inl AssertFailed \<longleftrightarrow> data = []"
  using tcp_frame_size [OF assms] by simp

theorem tcp_frame_needs_data_witness: "tcp_frame (''a.Ping'', []) = Inl AssertFailed"
  using tcp_frame_needs_data [of "''a.Ping''" "[]"] by simp

end
