(* ===== verification/TcpConnections.thy ===== *)
theory TcpConnections
  imports TcpTransport
begin

text \<open>
  The connection tables of the TCP transport (\<open>src/lib/tcptransport.cc\<close>). A
  \<open>bufferevent\<close> is a number; \<open>tcp_live\<close> lists those that are allocated, \<open>tcp_inputs\<close> is
  the input buffer of each, \<open>tcp_written\<close> what was written to them and
  \<open>tcp_delivered\<close> the messages handed to receivers, with the sender's address. The
  number of a new \<open>bufferevent\<close> and the results of the socket calls are arguments.
\<close>

record ('a, 'r) tcp =
  tcp_outgoing :: "('a \<times> 'r, nat) umap"
  tcp_addresses :: "(nat, 'a \<times> 'r) umap"
  tcp_live :: "nat list"
  tcp_inputs :: "(nat, string) umap"
  tcp_written :: "(nat \<times> string) list"
  tcp_delivered :: "('r \<times> 'a \<times> message) list"

datatype connect_result = Connecting | ConnectFailed | EnableFailed

datatype bufferevent_event = EventConnected | EventError | EventEof

definition TCPTransport_init :: "('a, 'r) tcp" where
  "TCPTransport_init = \<lparr>tcp_outgoing = [], tcp_addresses = [], tcp_live = [], tcp_inputs = [], tcp_written = [], tcp_delivered = []\<rparr>"

section \<open>libevent\<close>

text \<open>Documented behaviour: a freed \<open>bufferevent\<close> must not be used.\<close>

definition bufferevent_new :: "nat \<Rightarrow> ('a, 'r) tcp \<Rightarrow> ('a, 'r) tcp" where
  "bufferevent_new b s = s\<lparr>tcp_live := b # tcp_live s, tcp_inputs := um_put b [] (tcp_inputs s)\<rparr>"

definition bufferevent_free :: "nat \<Rightarrow> ('a, 'r) tcp \<Rightarrow> ('a, 'r) tcp outcome" where
  "bufferevent_free b s =
     (if b \<in> set (tcp_live s) then Inr (s\<lparr>tcp_live := removeAll b (tcp_live s)\<rparr>) else Inl UndefinedBehaviour)"

definition bufferevent_write :: "nat \<Rightarrow> string \<Rightarrow> bool \<Rightarrow> ('a, 'r) tcp \<Rightarrow> (bool \<times> ('a, 'r) tcp) outcome" where
  "bufferevent_write b bytes ok s =
     (if b \<notin> set (tcp_live s) then Inl UndefinedBehaviour
      else if ok then Inr (True, s\<lparr>tcp_written := tcp_written s @ [(b, bytes)]\<rparr>) else Inr (False, s))"

section \<open>Connecting, sending and receiving\<close>

definition ConnectTCP :: "nat \<Rightarrow> connect_result \<Rightarrow> 'a \<times> 'r \<Rightarrow> ('a, 'r) tcp \<Rightarrow> ('a, 'r) tcp outcome" where
  "ConnectTCP bev res dstSrc s =
     (let s1 = bufferevent_new bev s;
          s2 = s1\<lparr>tcp_outgoing := um_put dstSrc bev (tcp_outgoing s1), tcp_addresses := um_emplace bev dstSrc (tcp_addresses s1)\<rparr> in
      case res of
        ConnectFailed \<Rightarrow> bindE (bufferevent_free bev s2) (\<lambda>s3.
          Inr (s3\<lparr>tcp_outgoing := um_erase dstSrc (tcp_outgoing s3), tcp_addresses := um_erase bev (tcp_addresses s3)\<rparr>))
      | EnableFailed \<Rightarrow> Inl Panicked
      | Connecting \<Rightarrow> Inr s2)"

text \<open>\<open>kv->second\<close> after a failed lookup reads \<open>end()\<close>.\<close>

definition TCP_SendMessageInternal :: "nat \<Rightarrow> connect_result \<Rightarrow> bool \<Rightarrow> 'r \<Rightarrow> 'a \<Rightarrow> message \<Rightarrow> ('a, 'r) tcp \<Rightarrow>
    (bool \<times> ('a, 'r) tcp) outcome" where
  "TCP_SendMessageInternal bev res ok src dst m s =
     bindE (if um_has (tcp_outgoing s) (dst, src) then Inr s else ConnectTCP bev res (dst, src) s) (\<lambda>s1.
     case map_of (tcp_outgoing s1) (dst, src) of
       None \<Rightarrow> Inl UndefinedBehaviour
     | Some ev \<Rightarrow> bindE (tcp_frame m) (\<lambda>buf. bufferevent_write ev buf ok s1))"

definition TCPAcceptCallback :: "nat \<Rightarrow> bool \<Rightarrow> 'a \<Rightarrow> 'r \<Rightarrow> ('a, 'r) tcp \<Rightarrow> ('a, 'r) tcp outcome" where
  "TCPAcceptCallback bev enabled client receiver s =
     (if \<not> enabled then Inl Panicked
      else let s1 = bufferevent_new bev s in
        Inr (s1\<lparr>tcp_outgoing := um_put (client, receiver) bev (tcp_outgoing s1),
                tcp_addresses := um_emplace bev (client, receiver) (tcp_addresses s1)\<rparr>))"

text \<open>\<open>chunk\<close> is what has arrived since the last call; a message of a connection without an address is dropped.\<close>

definition TCPReadableCallback :: "nat \<Rightarrow> 'r \<Rightarrow> string \<Rightarrow> ('a, 'r) tcp \<Rightarrow> ('a, 'r) tcp outcome" where
  "TCPReadableCallback bev receiver chunk s =
     (let evbuf = (case map_of (tcp_inputs s) bev of None \<Rightarrow> [] | Some b \<Rightarrow> b) @ chunk in
      bindE (tcp_readable evbuf) (\<lambda>(ms, rest).
        Inr (s\<lparr>tcp_inputs := um_put bev rest (tcp_inputs s),
               tcp_delivered := tcp_delivered s @
                 (case map_of (tcp_addresses s) bev of None \<Rightarrow> [] | Some (addr, _) \<Rightarrow> map (\<lambda>m. (receiver, addr, m)) ms)\<rparr>)))"

text \<open>Both branches of \<open>TCPIncomingEventCallback\<close> test for an error; the tables are not touched.\<close>

definition TCPIncomingEventCallback :: "nat \<Rightarrow> bufferevent_event \<Rightarrow> ('a, 'r) tcp \<Rightarrow> ('a, 'r) tcp outcome" where
  "TCPIncomingEventCallback bev what s =
     (if what = EventError then bufferevent_free bev s
      else if what = EventError then bufferevent_free bev s
      else Inr s)"

definition TCPOutgoingEventCallback :: "nat \<Rightarrow> 'r \<Rightarrow> bufferevent_event \<Rightarrow> ('a, 'r) tcp \<Rightarrow> ('a, 'r) tcp outcome" where
  "TCPOutgoingEventCallback bev receiver what s =
     (case map_of (tcp_addresses s) bev of
        None \<Rightarrow> Inl AssertFailed
      | Some (addr, _) \<Rightarrow>
          if what = EventConnected then Inr s
          else bindE (bufferevent_free bev s) (\<lambda>s1.
            if \<not> um_has (tcp_outgoing s1) (addr, receiver) then Inl UndefinedBehaviour
            else Inr (s1\<lparr>tcp_outgoing := um_erase (addr, receiver) (tcp_outgoing s1),
                         tcp_addresses := um_erase bev (tcp_addresses s1)\<rparr>)))"

text \<open>\<open>Close\<close> reads \<open>itr->second\<close> after it has erased \<open>itr\<close>.\<close>

definition TCPTransport_Close :: "'r \<Rightarrow> ('a, 'r) tcp \<Rightarrow> ('a, 'r) tcp outcome" where
  "TCPTransport_Close receiver s =
     (case find (\<lambda>((_, r), _). r = receiver) (tcp_outgoing s) of
        None \<Rightarrow> Inr s
      | Some (dstSrc, bev) \<Rightarrow> bindE (bufferevent_free bev s) (\<lambda>_. Inl UndefinedBehaviour))"

section \<open>From one end to the other\<close>

fun tcp_send_all :: "'r \<Rightarrow> 'a \<Rightarrow> message list \<Rightarrow> ('a, 'r) tcp \<Rightarrow> ('a, 'r) tcp outcome" where
  "tcp_send_all src dst [] s = Inr s"
| "tcp_send_all src dst (m # ms) s =
     bindE (TCP_SendMessageInternal 0 Connecting True src dst m s) (\<lambda>(_, s1). tcp_send_all src dst ms s1)"

abbreviation tcp_receive_all :: "nat \<Rightarrow> 'r \<Rightarrow> string list \<Rightarrow> ('a, 'r) tcp \<Rightarrow> ('a, 'r) tcp outcome" where
  "tcp_receive_all bev receiver \<equiv> foldE (TCPReadableCallback bev receiver)"

definition tcp_bytes :: "nat \<Rightarrow> ('a, 'r) tcp \<Rightarrow> string" where
  "tcp_bytes bev s = concat (map snd (filter (\<lambda>p. fst p = bev) (tcp_written s)))"

lemma tcp_send_all_bytes:
  assumes "tcp_send_all src dst ms s = Inr s'" and "map_of (tcp_outgoing s) (dst, src) = Some bev"
  shows "\<exists>fs. tcp_frames ms = Inr fs \<and> tcp_bytes bev s' = tcp_bytes bev s @ fs"
  using assms
proof (induction ms arbitrary: s)
  case Nil
  then show ?case by simp
next
  case (Cons m ms)
  then obtain f s1 where f: "tcp_frame m = Inr f" and s1: "s1 = s\<lparr>tcp_written := tcp_written s @ [(bev, f)]\<rparr>"
    and rest: "tcp_send_all src dst ms s1 = Inr s'"
    by (auto simp: TCP_SendMessageInternal_def um_has_Some bufferevent_write_def split: if_splits)
  from Cons.IH [OF rest] Cons.prems(2) s1 obtain fs where
    "tcp_frames ms = Inr fs" and "tcp_bytes bev s' = tcp_bytes bev s1 @ fs" by auto
  with f s1 show ?case by (simp add: tcp_bytes_def)
qed

lemma tcp_receive_all_arrivals:
  assumes "tcp_arrivals chunks buf = Inr (ms, r)" and "map_of (tcp_inputs t) bev = Some buf"
    and "map_of (tcp_addresses t) bev = Some (addr, x)"
  shows "\<exists>t'. tcp_receive_all bev receiver chunks t = Inr t' \<and>
    tcp_delivered t' = tcp_delivered t @ map (\<lambda>m. (receiver, addr, m)) ms \<and> map_of (tcp_inputs t') bev = Some r"
  using assms
proof (induction chunks arbitrary: buf ms t)
  case Nil
  then show ?case by simp
next
  case (Cons chunk chunks)
  then obtain ms1 r1 ms2 where a: "tcp_readable (buf @ chunk) = Inr (ms1, r1)" "tcp_arrivals chunks r1 = Inr (ms2, r)" "ms = ms1 @ ms2"
    by auto
  define t1 where "t1 = t\<lparr>tcp_inputs := um_put bev r1 (tcp_inputs t),
     tcp_delivered := tcp_delivered t @ map (\<lambda>m. (receiver, addr, m)) ms1\<rparr>"
  have "TCPReadableCallback bev receiver chunk t = Inr t1"
    using a(1) Cons.prems(2,3) by (simp add: TCPReadableCallback_def t1_def)
  moreover from Cons.IH [OF a(2), of t1] Cons.prems(3) obtain t' where
    "tcp_receive_all bev receiver chunks t1 = Inr t'"
    "tcp_delivered t' = tcp_delivered t1 @ map (\<lambda>m. (receiver, addr, m)) ms2" "map_of (tcp_inputs t') bev = Some r"
    by (auto simp: t1_def)
  ultimately show ?case using a(3) by (simp add: t1_def)
qed

text \<open>
  \<^bold>\<open>C9\<close> A connection delivers what is sent on it. Messages sent one after the
  other over an open connection are written to it so that, however the network
  cuts the bytes into pieces, the callbacks of the reader hand exactly these
  messages to its receiver, in order and with the sender's address, and leave
  nothing in the input buffer. The size of a frame has to be below the reader's
  limit.
\<close>

theorem tcp_delivers_in_order:
  assumes "tcp_send_all src dst ms s = Inr s'" and "map_of (tcp_outgoing s) (dst, src) = Some bev"
    and "\<forall>m\<in>set ms. tcp_fits m" and "tcp_bytes bev s' = tcp_bytes bev s @ concat chunks"
    and "map_of (tcp_inputs t) bev' = Some []" and "map_of (tcp_addresses t) bev' = Some (addr, x)"
  shows "\<exists>t'. tcp_receive_all bev' receiver chunks t = Inr t' \<and>
    tcp_delivered t' = tcp_delivered t @ map (\<lambda>m. (receiver, addr, m)) ms \<and> map_of (tcp_inputs t') bev' = Some []"
proof -
  from tcp_send_all_bytes [OF assms(1,2)] assms(4) have "tcp_frames ms = Inr (concat chunks)" by auto
  then have "tcp_arrivals chunks [] = Inr (ms, [])" using assms(3) by (rule tcp_stream_roundtrip)
  from tcp_receive_all_arrivals [OF this assms(5,6)] show ?thesis .
qed

definition demo_sender :: "(nat, nat) tcp" where
  "demo_sender = \<lparr>tcp_outgoing = [((7, 1), 3)], tcp_addresses = [(3, (7, 1))], tcp_live = [3], tcp_inputs = [(3, [])],
     tcp_written = [(3, ''old''), (4, ''x'')], tcp_delivered = []\<rparr>"

definition demo_reader :: "(nat, nat) tcp" where
  "demo_reader = \<lparr>tcp_outgoing = [((9, 2), 5)], tcp_addresses = [(5, (9, 2))], tcp_live = [5], tcp_inputs = [(5, [])],
     tcp_written = [], tcp_delivered = [(2, 8, (''t'', ''d''))]\<rparr>"

lemma demo_sender_sends:
  "tcp_send_all 1 7 demo_messages demo_sender =
     Inr (demo_sender\<lparr>tcp_written := tcp_written demo_sender @ map (\<lambda>m. (3, framed m)) demo_messages\<rparr>)"
  by (simp add: demo_messages_def demo_sender_def TCP_SendMessageInternal_def bufferevent_write_def tcp_frame_framed tcp_fits_def)

theorem tcp_delivers_in_order_witness:
  "\<exists>t. tcp_receive_all 5 2 demo_chunks demo_reader = Inr t \<and>
     tcp_delivered t = [(2, 8, (''t'', ''d'')), (2, 9, (''a.Get'', ''k'')), (2, 9, (''a.Put'', ''kv''))]"
proof -
  let ?s' = "demo_sender\<lparr>tcp_written := tcp_written demo_sender @ map (\<lambda>m. (3, framed m)) demo_messages\<rparr>"
  have "concat demo_chunks = concat (map framed demo_messages)"
    using concat_cut [of 3 "concat (map framed demo_messages)" 40] by (simp add: demo_chunks_def Let_def)
  then have bytes: "tcp_bytes 3 ?s' = tcp_bytes 3 demo_sender @ concat demo_chunks"
    by (simp add: tcp_bytes_def demo_messages_def)
  have fits: "\<forall>m\<in>set demo_messages. tcp_fits m" by (simp add: demo_messages_def tcp_fits_def)
  have ends: "map_of (tcp_outgoing demo_sender) (7, 1) = Some 3" "map_of (tcp_inputs demo_reader) 5 = Some []"
    "map_of (tcp_addresses demo_reader) 5 = Some (9, 2)" by (simp_all add: demo_sender_def demo_reader_def)
  from tcp_delivers_in_order [OF demo_sender_sends ends(1) fits bytes ends(2,3), of 2] show ?thesis
    by (auto simp: demo_messages_def demo_reader_def)
qed

text \<open>
  A fault of the code. An error on an accepted connection frees its
  \<open>bufferevent\<close> but leaves it in the tables, so the next message to that client
  is written to freed memory.
\<close>

theorem reply_after_error_uses_freed:
  assumes "TCPAcceptCallback bev True client receiver s = Inr s1"
    and "TCPIncomingEventCallback bev EventError s1 = Inr s2" and "tcp_frame m = Inr buf"
  shows "TCP_SendMessageInternal bev' res ok receiver client m s2 = Inl UndefinedBehaviour"
  using assms by (auto simp: TCPAcceptCallback_def TCPIncomingEventCallback_def bufferevent_new_def bufferevent_free_def
      TCP_SendMessageInternal_def bufferevent_write_def)

theorem reply_after_error_uses_freed_witness:
  "TCP_SendMessageInternal 4 Connecting True 2 9 (''a.Reply'', ''v'')
     (TCPTransport_init\<lparr>tcp_outgoing := [((9, 2), 3)], tcp_addresses := [(3, (9, 2))], tcp_inputs := [(3, [])]\<rparr> :: (nat, nat) tcp)
     = Inl UndefinedBehaviour"
proof -
  let ?s1 = "TCPTransport_init\<lparr>tcp_live := [3], tcp_inputs := [(3, [])], tcp_outgoing := [((9, 2), 3)], tcp_addresses := [(3, (9, 2))]\<rparr> :: (nat, nat) tcp"
  let ?s2 = "TCPTransport_init\<lparr>tcp_outgoing := [((9, 2), 3)], tcp_addresses := [(3, (9, 2))], tcp_inputs := [(3, [])]\<rparr> :: (nat, nat) tcp"
  have a: "TCPAcceptCallback 3 True 9 2 (TCPTransport_init :: (nat, nat) tcp) = Inr ?s1"
    by (simp add: TCPAcceptCallback_def bufferevent_new_def TCPTransport_init_def um_emplace_def)
  have b: "TCPIncomingEventCallback 3 EventError ?s1 = Inr ?s2"
    by (simp add: TCPIncomingEventCallback_def bufferevent_free_def TCPTransport_init_def)
  have f: "tcp_frame (''a.Reply'', ''v'') = Inr (framed (''a.Reply'', ''v''))"
    by (simp add: tcp_frame_framed tcp_fits_def)
  show ?thesis by (rule reply_after_error_uses_freed [OF a b f])
qed

end
