(* ===== verification/UdpTransport.thy ===== *)
theory UdpTransport
  imports Bytes
begin

text \<open>
  The packets of the UDP transport (\<open>src/lib/udptransport.cc\<close>): how a message is
  serialized, split into fragments when it is large, put together again and handed
  to the receivers, with the simulated drops and reorderings of the code. A message
  is its type name and its serialized data. The kernel's answer to \<open>sendto\<close> and the
  random rolls are arguments; the datagrams sent are a list.
\<close>

type_synonym udp_message = "string \<times> string"

definition MAX_UDP_MESSAGE_SIZE :: nat where
  "MAX_UDP_MESSAGE_SIZE = 9000"

definition NONFRAG_MAGIC :: u32 where
  "NONFRAG_MAGIC = 0x20050318"

definition FRAG_MAGIC :: u32 where
  "FRAG_MAGIC = 0x20101010"

record frag_info =
  fi_msgId :: u64
  fi_data :: string

record ('a, 'r) udp =
  udp_lastFragMsgId :: u64
  udp_fragInfo :: "('a, frag_info) umap"
  udp_reorderBuffer :: "(int \<times> 'a \<times> udp_message) option"
  udp_receivers :: "(int, 'r) umap"
  udp_multicastConfigs :: "(int, ('r \<times> 'a) list) umap"
  udp_delivered :: "('r \<times> 'a \<times> udp_message) list"

section \<open>Sending\<close>

text \<open>\<open>SerializeMessage\<close>: \<open>ptr\<close> and \<open>totalLen\<close> are offsets in the buffer it allocates.\<close>

definition SerializeMessage :: "string \<Rightarrow> udp_message \<Rightarrow> string outcome" where
  "SerializeMessage meta m =
     (let typ = fst m; data = snd m; meta_len = length meta; typeLen = length typ; dataLen = length data;
          totalLen = 4 + 4 + meta_len + typeLen + 8 + dataLen + 8;
          p = 4 + 4 + meta_len + 8;
          q = p + typeLen + 8 in
      assertE (p < totalLen)
      (assertE (p + typeLen < totalLen)
      (assertE (q < totalLen)
      (assertE (q + dataLen = totalLen)
        (Inr (put_u32 NONFRAG_MAGIC @ put_u32 (of_nat meta_len) @ meta @ put_u64 (of_nat typeLen) @ typ @
              put_u64 (of_nat dataLen) @ data))))))"

text \<open>The fragments of the body from \<open>fragStart\<close> on; \<open>rest\<close> is what is left of it.\<close>

function udp_fragments :: "u64 \<Rightarrow> nat \<Rightarrow> nat \<Rightarrow> string \<Rightarrow> string list" where
  "udp_fragments msgId msgLen fragStart rest =
     (if rest = [] then []
      else (put_u32 FRAG_MAGIC @ put_u64 msgId @ put_u64 (of_nat fragStart) @ put_u64 (of_nat msgLen) @
              take MAX_UDP_MESSAGE_SIZE rest)
           # udp_fragments msgId msgLen (fragStart + MAX_UDP_MESSAGE_SIZE) (drop MAX_UDP_MESSAGE_SIZE rest))"
  by pat_completeness auto
termination
  by (relation "measure (\<lambda>(_, _, _, rest). length rest)") (auto simp: MAX_UDP_MESSAGE_SIZE_def)

declare udp_fragments.simps [simp del]

definition udp_datagrams :: "u64 \<Rightarrow> string \<Rightarrow> string list \<times> u64" where
  "udp_datagrams lastId buf =
     (if length buf \<le> MAX_UDP_MESSAGE_SIZE then ([buf], lastId)
      else (let body = drop 4 buf; msgId = lastId + 1 in (udp_fragments msgId (length body) 0 body, msgId)))"

text \<open>\<open>accepted\<close> is the number of datagrams the kernel takes before \<open>sendto\<close> fails.\<close>

definition UDP_SendMessageInternal :: "nat \<Rightarrow> udp_message \<Rightarrow> ('a, 'r) udp \<Rightarrow> (bool \<times> string list \<times> ('a, 'r) udp) outcome" where
  "UDP_SendMessageInternal accepted m s =
     bindE (SerializeMessage [] m) (\<lambda>buf.
       let (packets, lastId) = udp_datagrams (udp_lastFragMsgId s) buf in
       Inr (length packets \<le> accepted, take accepted packets, s\<lparr>udp_lastFragMsgId := lastId\<rparr>))"

section \<open>Receiving\<close>

text \<open>\<open>DecodePacket\<close>: lengths come from the packet, and \<open>ptr - buf\<close> is a signed 64-bit difference.\<close>

definition DecodePacket :: "string \<Rightarrow> udp_message outcome" where
  "DecodePacket buf =
     (let ssz = int (length buf) in
      bindE (read_u32 buf 0) (\<lambda>meta_len.
      let p = 4 + unat meta_len in
      bindE (read_u64 buf p) (\<lambda>typeLen.
      assertE (int (p + 8) < ssz)
      (assertE (sint (of_nat (p + 8) + typeLen :: u64) < ssz)
      (bindE (read_string buf (p + 8) (unat typeLen)) (\<lambda>typ.
       let q = p + 8 + unat typeLen in
       bindE (read_u64 buf q) (\<lambda>msgLen.
       assertE (int (q + 8) < ssz)
       (assertE (sint (of_nat (q + 8) + msgLen :: u64) \<le> ssz)
       (bindE (read_string buf (q + 8) (unat msgLen)) (\<lambda>msg.
        Inr (typ, msg)))))))))))"

text \<open>
  The fragment branch of \<open>ProcessPacket\<close>: the message when it is complete. The default
  entry of the map is message number 0.
\<close>

definition process_fragment :: "'a \<Rightarrow> string \<Rightarrow> ('a, 'r) udp \<Rightarrow> (udp_message option \<times> ('a, 'r) udp) outcome" where
  "process_fragment sender buf s =
     (let sz = length buf in
      assertE (4 < sz)
      (bindE (read_u64 buf 4) (\<lambda>msgId.
      assertE (12 < sz)
      (bindE (read_u64 buf 12) (\<lambda>fragStart.
      assertE (20 < sz)
      (bindE (read_u64 buf 20) (\<lambda>msgLen.
      assertE (28 < sz)
      (assertE (sz - 28 = unat (min (msgLen - fragStart) (of_nat MAX_UDP_MESSAGE_SIZE)))
      (let info0 = fst (um_ref \<lparr>fi_msgId = 0, fi_data = []\<rparr> (udp_fragInfo s) sender);
           info1 = (if fi_msgId info0 = 0 then \<lparr>fi_msgId = msgId, fi_data = []\<rparr> else info0) in
       assertE (fi_msgId info1 = msgId \<or> msgId > fi_msgId info1)
       (let info2 = (if fi_msgId info1 \<noteq> msgId then \<lparr>fi_msgId = msgId, fi_data = []\<rparr> else info1);
            keep = (\<lambda>i. s\<lparr>udp_fragInfo := um_put sender i (udp_fragInfo s)\<rparr>) in
        if fragStart \<noteq> of_nat (length (fi_data info2)) then Inr (None, keep info2)
        else let info3 = info2\<lparr>fi_data := fi_data info2 @ drop 28 buf\<rparr> in
          if of_nat (length (fi_data info3)) = msgLen
          then bindE (DecodePacket (fi_data info3)) (\<lambda>m. Inr (Some m, keep \<lparr>fi_msgId = 0, fi_data = []\<rparr>))
          else Inr (None, keep info3)))))))))))"

text \<open>Handing a message to the receivers: on a multicast socket to every replica but the sender.\<close>

definition udp_deliver :: "int \<Rightarrow> 'a \<Rightarrow> udp_message \<Rightarrow> ('a, 'r) udp \<Rightarrow> ('a, 'r) udp outcome" where
  "udp_deliver fd sender m s =
     (case map_of (udp_multicastConfigs s) fd of
        Some replicas \<Rightarrow>
          Inr (s\<lparr>udp_delivered := udp_delivered s @ map (\<lambda>(r, _). (r, sender, m)) (filter (\<lambda>(_, raddr). raddr \<noteq> sender) replicas)\<rparr>)
      | None \<Rightarrow>
          (case map_of (udp_receivers s) fd of
             None \<Rightarrow> Inl UndefinedBehaviour
           | Some r \<Rightarrow> Inr (s\<lparr>udp_delivered := udp_delivered s @ [(r, sender, m)]\<rparr>)))"

text \<open>\<open>drop_roll\<close> and \<open>reorder_roll\<close> say whether the random rolls fall below the rates.\<close>

definition udp_dispatch :: "bool \<Rightarrow> bool \<Rightarrow> int \<Rightarrow> 'a \<Rightarrow> udp_message \<Rightarrow> ('a, 'r) udp \<Rightarrow> ('a, 'r) udp outcome" where
  "udp_dispatch drop_roll reorder_roll fd sender m s =
     (if drop_roll then Inr s
      else if udp_reorderBuffer s = None \<and> reorder_roll then Inr (s\<lparr>udp_reorderBuffer := Some (fd, sender, m)\<rparr>)
      else bindE (udp_deliver fd sender m s) (\<lambda>s1.
        case udp_reorderBuffer s1 of
          None \<Rightarrow> Inr s1
        | Some (fd', sender', m') \<Rightarrow> udp_deliver fd' sender' m' (s1\<lparr>udp_reorderBuffer := None\<rparr>)))"

text \<open>The first assertion compares an unsigned difference with 0: it only excludes packets of four bytes.\<close>

definition ProcessPacket :: "bool \<Rightarrow> bool \<Rightarrow> int \<Rightarrow> 'a \<Rightarrow> string \<Rightarrow> ('a, 'r) udp \<Rightarrow> ('a, 'r) udp outcome" where
  "ProcessPacket drop_roll reorder_roll fd sender buf s =
     assertE ((4 :: u64) - of_nat (length buf) > 0)
     (bindE (read_u32 buf 0) (\<lambda>magic.
      if magic = NONFRAG_MAGIC then
        bindE (DecodePacket (drop 4 buf)) (\<lambda>m. udp_dispatch drop_roll reorder_roll fd sender m s)
      else if magic = FRAG_MAGIC then
        bindE (process_fragment sender buf s) (\<lambda>(mo, s1).
          case mo of None \<Rightarrow> Inr s1 | Some m \<Rightarrow> udp_dispatch drop_roll reorder_roll fd sender m s1)
      else Inr s))"

text \<open>
  What \<open>recvfrom\<close> gives. After an error other than "try again" the code goes on with
  the uninitialised buffer. On a raw socket the headers (42 bytes) are cut off and
  the sender is the one of the IP header.
\<close>

datatype 'a recv_result = WouldBlock | RecvError | Received (from_addr: 'a) (ip_src: 'a) (recv_bytes: string)

definition OnReadable :: "bool \<Rightarrow> bool \<Rightarrow> int \<Rightarrow> bool \<Rightarrow> 'a recv_result \<Rightarrow> ('a, 'r) udp \<Rightarrow> ('a, 'r) udp outcome" where
  "OnReadable drop_roll reorder_roll fd raw res s =
     (case res of
        WouldBlock \<Rightarrow> Inr s
      | RecvError \<Rightarrow> Inl UndefinedBehaviour
      | Received sender ip bytes \<Rightarrow>
          (let buf = take 65536 bytes in
           if \<not> raw then ProcessPacket drop_roll reorder_roll fd sender buf s
           else if length buf < 42 then Inr s
           else ProcessPacket drop_roll reorder_roll fd ip (drop 42 buf) s))"

end
