(* ===== verification/UdpTransportProps.thy ===== *)
theory UdpTransportProps
  imports UdpTransport
begin

text \<open>
  A message sent over UDP and received without loss is the message delivered,
  whether it fits into one packet or is cut into fragments; and what happens to
  empty messages and to fragments that arrive late.
\<close>

section \<open>One packet\<close>

definition udp_fits :: "udp_message \<Rightarrow> bool" where
  "udp_fits m \<longleftrightarrow> 24 + length (fst m) + length (snd m) < 2 ^ 63"

definition packet_body :: "udp_message \<Rightarrow> string" where
  "packet_body m = put_u32 0 @ put_u64 (of_nat (length (fst m))) @ fst m @ put_u64 (of_nat (length (snd m))) @ snd m"

lemma length_packet_body: "length (packet_body m) = 20 + length (fst m) + length (snd m)"
  by (simp add: packet_body_def)

lemma SerializeMessage_body:
  "SerializeMessage [] m = (if snd m = [] then Inl AssertFailed else Inr (put_u32 NONFRAG_MAGIC @ packet_body m))"
  by (simp add: SerializeMessage_def packet_body_def Let_def assertE_def)

lemma read_body:
  "read_u32 (packet_body m) 0 = Inr 0"
  "read_u64 (packet_body m) 4 = Inr (of_nat (length (fst m)))"
  "read_string (packet_body m) 12 (length (fst m)) = Inr (fst m)"
  "read_u64 (packet_body m) (12 + length (fst m)) = Inr (of_nat (length (snd m)))"
  "read_string (packet_body m) (20 + length (fst m)) (length (snd m)) = Inr (snd m)"
proof -
  let ?n = "put_u32 0" and ?t = "put_u64 (of_nat (length (fst m)))" and ?d = "put_u64 (of_nat (length (snd m)))"
  show "read_u32 (packet_body m) 0 = Inr 0"
    using read_u32_at [of "[]" 0 0] by (simp add: packet_body_def)
  show "read_u64 (packet_body m) 4 = Inr (of_nat (length (fst m)))"
    using read_u64_at [of ?n 4] by (simp add: packet_body_def)
  show "read_string (packet_body m) 12 (length (fst m)) = Inr (fst m)"
    using read_string_at [of "?n @ ?t" 12 "fst m"] by (simp add: packet_body_def)
  show "read_u64 (packet_body m) (12 + length (fst m)) = Inr (of_nat (length (snd m)))"
    using read_u64_at [of "?n @ ?t @ fst m" "12 + length (fst m)"] by (simp add: packet_body_def)
  show "read_string (packet_body m) (20 + length (fst m)) (length (snd m)) = Inr (snd m)"
    using read_string_at [of "?n @ ?t @ fst m @ ?d" "20 + length (fst m)" "snd m" "length (snd m)" "[]"]
    by (simp add: packet_body_def)
qed

lemma sint_of_nat_64: "n < 2 ^ 63 \<Longrightarrow> sint (of_nat n :: u64) = int n"
  by (simp add: signed_of_nat signed_take_bit_int_eq_self_iff)

lemma DecodePacket_body:
  assumes "udp_fits m" and "snd m \<noteq> []"
  shows "DecodePacket (packet_body m) = Inr m"
proof -
  have u: "unat (of_nat (length (fst m)) :: u64) = length (fst m)" "unat (of_nat (length (snd m)) :: u64) = length (snd m)"
    using assms(1) by (auto intro!: unat_of_nat_64 simp: udp_fits_def)
  have "sint (of_nat (12 + length (fst m)) :: u64) = int (12 + length (fst m))"
    using assms(1) by (intro sint_of_nat_64) (simp add: udp_fits_def)
  then have a: "sint (12 + of_nat (length (fst m)) :: u64) = int (12 + length (fst m))" by simp
  have "sint (of_nat (20 + length (fst m) + length (snd m)) :: u64) = int (20 + length (fst m) + length (snd m))"
    using assms(1) by (intro sint_of_nat_64) (simp add: udp_fits_def)
  then have b: "sint (20 + of_nat (length (fst m)) + of_nat (length (snd m)) :: u64) = int (20 + length (fst m) + length (snd m))"
    by simp
  have c: "int (12 + length (fst m)) < int (length (packet_body m))" "12 < int (length (packet_body m))"
    "int (20 + length (fst m)) < int (length (packet_body m))"
    "int (20 + length (fst m) + length (snd m)) \<le> int (length (packet_body m))"
    using assms(2) by (simp_all add: length_packet_body)
  have n: "4 + unat (0 :: u32) = 4" "(4 :: nat) + 8 = 12" "12 + length (fst m) + 8 = 20 + length (fst m)"
    "(of_nat 12 :: u64) = 12" "(of_nat (20 + length (fst m)) :: u64) = 20 + of_nat (length (fst m))"
    "int 12 = 12" by simp_all
  show ?thesis
    unfolding DecodePacket_def Let_def read_body bindE_simps n u a b using c by simp
qed

section \<open>Fragments\<close>

text \<open>The receiver holds no part of a message from the sender, or it holds the part \<open>pre\<close> of message \<open>i\<close>.\<close>

definition idle :: "'a \<Rightarrow> ('a, 'r) udp \<Rightarrow> bool" where
  "idle a s \<longleftrightarrow> (case map_of (udp_fragInfo s) a of None \<Rightarrow> True | Some i \<Rightarrow> fi_msgId i = 0)"

definition holds_part :: "'a \<Rightarrow> u64 \<Rightarrow> string \<Rightarrow> ('a, 'r) udp \<Rightarrow> bool" where
  "holds_part a i pre s \<longleftrightarrow>
     map_of (udp_fragInfo s) a = Some \<lparr>fi_msgId = i, fi_data = pre\<rparr> \<or> idle a s \<and> pre = []"

definition fragment :: "u64 \<Rightarrow> nat \<Rightarrow> nat \<Rightarrow> string \<Rightarrow> string" where
  "fragment i msgLen fragStart chunk =
     put_u32 FRAG_MAGIC @ put_u64 i @ put_u64 (of_nat fragStart) @ put_u64 (of_nat msgLen) @ chunk"

lemma read_fragment:
  "read_u32 (fragment i n k chunk) 0 = Inr FRAG_MAGIC"
  "read_u64 (fragment i n k chunk) 4 = Inr i"
  "read_u64 (fragment i n k chunk) 12 = Inr (of_nat k)"
  "read_u64 (fragment i n k chunk) 20 = Inr (of_nat n)"
  "drop 28 (fragment i n k chunk) = chunk"
  "length (fragment i n k chunk) = 28 + length chunk"
proof -
  let ?h = "put_u32 FRAG_MAGIC"
  show "read_u32 (fragment i n k chunk) 0 = Inr FRAG_MAGIC"
    using read_u32_at [of "[]" 0 FRAG_MAGIC] by (simp add: fragment_def)
  show "read_u64 (fragment i n k chunk) 4 = Inr i"
    using read_u64_at [of ?h 4 i] by (simp add: fragment_def)
  show "read_u64 (fragment i n k chunk) 12 = Inr (of_nat k)"
    using read_u64_at [of "?h @ put_u64 i" 12 "of_nat k"] by (simp add: fragment_def)
  show "read_u64 (fragment i n k chunk) 20 = Inr (of_nat n)"
    using read_u64_at [of "?h @ put_u64 i @ put_u64 (of_nat k)" 20 "of_nat n"] by (simp add: fragment_def)
qed (simp_all add: fragment_def)

lemma min_of_nat_64:
  assumes "m < 2 ^ 64" and "n < 2 ^ 64"
  shows "unat (min (of_nat m :: u64) (of_nat n)) = min m n"
  using assms by (simp add: min_def of_nat_le_64 unat_of_nat_64)

text \<open>A fragment that continues what the receiver holds is added; the last one completes the message.\<close>

lemma process_fragment_next:
  assumes "holds_part a i pre s" and "i \<noteq> 0" and "rest \<noteq> []" and "length (pre @ rest) < 2 ^ 63"
  shows "process_fragment a (fragment i (length (pre @ rest)) (length pre) (take MAX_UDP_MESSAGE_SIZE rest)) s =
    (if length rest \<le> MAX_UDP_MESSAGE_SIZE
     then bindE (DecodePacket (pre @ rest)) (\<lambda>m. Inr (Some m, s\<lparr>udp_fragInfo := um_put a \<lparr>fi_msgId = 0, fi_data = []\<rparr> (udp_fragInfo s)\<rparr>))
     else Inr (None, s\<lparr>udp_fragInfo := um_put a \<lparr>fi_msgId = i, fi_data = pre @ take MAX_UDP_MESSAGE_SIZE rest\<rparr> (udp_fragInfo s)\<rparr>))"
proof -
  define chunk where "chunk = take MAX_UDP_MESSAGE_SIZE rest"
  define d where "d = fst (um_ref \<lparr>fi_msgId = 0, fi_data = []\<rparr> (udp_fragInfo s) a)"
  have chunk: "0 < length chunk" "length chunk = min (length rest) MAX_UDP_MESSAGE_SIZE"
    using assms(3) by (simp_all add: chunk_def MAX_UDP_MESSAGE_SIZE_def)
  have "(of_nat (length (pre @ rest)) :: u64) - of_nat (length pre) = of_nat (length rest)" by simp
  then have size: "unat (min (of_nat (length (pre @ rest)) - of_nat (length pre) :: u64) (of_nat MAX_UDP_MESSAGE_SIZE)) = length chunk"
    using assms(4) chunk(2) by (simp only:) (rule min_of_nat_64, simp_all add: MAX_UDP_MESSAGE_SIZE_def)
  have d: "(if fi_msgId d = 0 then \<lparr>fi_msgId = i, fi_data = []\<rparr> else d) = \<lparr>fi_msgId = i, fi_data = pre\<rparr>"
    using assms(1,2) by (auto simp: d_def holds_part_def idle_def um_ref_def split: option.splits)
  have complete: "(of_nat (length (pre @ chunk)) :: u64) = of_nat (length (pre @ rest)) \<longleftrightarrow> length rest \<le> MAX_UDP_MESSAGE_SIZE"
    using of_nat_eq_64 [of "length (pre @ chunk)" "length (pre @ rest)"] assms(4) chunk(2) by (simp add: min_def)
  have all: "length rest \<le> MAX_UDP_MESSAGE_SIZE \<Longrightarrow> chunk = rest" by (simp add: chunk_def)
  show ?thesis
    unfolding process_fragment_def Let_def chunk_def [symmetric] read_fragment bindE_simps d_def [symmetric] d
    using chunk(1) size complete all by (simp del: length_append of_nat_add)
qed

section \<open>Messages\<close>

text \<open>A socket that is not a multicast socket, with its receiver, and no message put aside.\<close>

definition plain_socket :: "int \<Rightarrow> 'r \<Rightarrow> ('a, 'r) udp \<Rightarrow> bool" where
  "plain_socket fd r s \<longleftrightarrow> udp_reorderBuffer s = None \<and> map_of (udp_multicastConfigs s) fd = None \<and> map_of (udp_receivers s) fd = Some r"

abbreviation udp_receive_all :: "int \<Rightarrow> 'a \<Rightarrow> string list \<Rightarrow> ('a, 'r) udp \<Rightarrow> ('a, 'r) udp outcome" where
  "udp_receive_all fd a \<equiv> foldE (ProcessPacket False False fd a)"

lemma udp_dispatch_plain:
  "plain_socket fd r s \<Longrightarrow> udp_dispatch False False fd a m s = Inr (s\<lparr>udp_delivered := udp_delivered s @ [(r, a, m)]\<rparr>)"
  by (simp add: udp_dispatch_def udp_deliver_def plain_socket_def)

lemma packet_not_4: "n \<noteq> 4 \<Longrightarrow> n < 2 ^ 64 \<Longrightarrow> (4 :: u64) - of_nat n > 0"
  using of_nat_eq_64 [of n 4] by (simp add: word_gt_0_no word_neq_0_conv [symmetric])

lemma magic_differ [simp]: "FRAG_MAGIC \<noteq> NONFRAG_MAGIC"
  by (simp add: FRAG_MAGIC_def NONFRAG_MAGIC_def)

lemma ProcessPacket_fragment:
  assumes "length chunk < 2 ^ 63" and "chunk \<noteq> []"
  shows "ProcessPacket False False fd a (fragment i n k chunk) s =
    bindE (process_fragment a (fragment i n k chunk) s) (\<lambda>(mo, s1).
      case mo of None \<Rightarrow> Inr s1 | Some m \<Rightarrow> udp_dispatch False False fd a m s1)"
proof -
  have "(4 :: u64) - of_nat (length (fragment i n k chunk)) > 0"
    using assms by (intro packet_not_4) (simp_all add: read_fragment)
  then show ?thesis by (simp add: ProcessPacket_def read_fragment del: word_greater_zero_iff)
qed

text \<open>What a whole message leaves in the receiver.\<close>

definition delivers :: "'a \<Rightarrow> 'r \<Rightarrow> udp_message list \<Rightarrow> ('a, 'r) udp \<Rightarrow> ('a, 'r) udp \<Rightarrow> bool" where
  "delivers a r ms s s' \<longleftrightarrow>
     udp_delivered s' = udp_delivered s @ map (\<lambda>m. (r, a, m)) ms \<and> idle a s' \<and> (\<forall>fd. plain_socket fd r s' = plain_socket fd r s)"

lemma udp_fragments_Nil [simp]: "udp_fragments i n k [] = []"
  by (simp add: udp_fragments.simps)

lemma receive_fragments:
  assumes "DecodePacket (pre @ rest) = Inr m" and "holds_part a i pre s" and "i \<noteq> 0" and "rest \<noteq> []"
    and "length (pre @ rest) < 2 ^ 63" and "plain_socket fd r s"
  shows "\<exists>s'. udp_receive_all fd a (udp_fragments i (length (pre @ rest)) (length pre) rest) s = Inr s' \<and> delivers a r [m] s s'"
  using assms
proof (induction rest arbitrary: pre s rule: measure_induct_rule [of length])
  case (less rest)
  define n where "n = length (pre @ rest)"
  define chunk where "chunk = take MAX_UDP_MESSAGE_SIZE rest"
  have chunk: "chunk \<noteq> []" "length chunk < 2 ^ 63" using less.prems(4,5) by (auto simp: chunk_def MAX_UDP_MESSAGE_SIZE_def)
  have frags: "udp_fragments i n (length pre) rest =
    fragment i n (length pre) chunk #
    udp_fragments i n (length pre + MAX_UDP_MESSAGE_SIZE) (drop MAX_UDP_MESSAGE_SIZE rest)"
    using less.prems(4) by (subst udp_fragments.simps) (simp add: fragment_def chunk_def)
  note step = process_fragment_next [OF less.prems(2,3,4,5), folded chunk_def n_def]
  show ?case
  proof (cases "length rest \<le> MAX_UDP_MESSAGE_SIZE")
    case True
    let ?s1 = "s\<lparr>udp_fragInfo := um_put a \<lparr>fi_msgId = 0, fi_data = []\<rparr> (udp_fragInfo s)\<rparr>"
    have "plain_socket fd r ?s1" using less.prems(6) by (simp add: plain_socket_def)
    note deliver = udp_dispatch_plain [OF this]
    have "delivers a r [m] s (?s1\<lparr>udp_delivered := udp_delivered s @ [(r, a, m)]\<rparr>)"
      by (simp add: delivers_def idle_def plain_socket_def)
    with step True less.prems(1) deliver show ?thesis
      unfolding n_def [symmetric] by (simp add: frags ProcessPacket_fragment [OF chunk(2,1)])
  next
    case False
    let ?s1 = "s\<lparr>udp_fragInfo := um_put a \<lparr>fi_msgId = i, fi_data = pre @ chunk\<rparr> (udp_fragInfo s)\<rparr>"
    define rest' where "rest' = drop MAX_UDP_MESSAGE_SIZE rest"
    have parts: "(pre @ chunk) @ rest' = pre @ rest" "length (pre @ chunk) = length pre + MAX_UDP_MESSAGE_SIZE"
      using False by (simp_all add: chunk_def rest'_def)
    have shorter: "length rest' < length rest" and ne: "rest' \<noteq> []"
      using False by (simp_all add: rest'_def MAX_UDP_MESSAGE_SIZE_def)
    have "holds_part a i (pre @ chunk) ?s1" by (simp add: holds_part_def)
    moreover have "plain_socket fd r ?s1" using less.prems(6) by (simp add: plain_socket_def)
    ultimately obtain s' where s':
      "udp_receive_all fd a (udp_fragments i n (length pre + MAX_UDP_MESSAGE_SIZE) rest') ?s1 = Inr s'"
      "delivers a r [m] ?s1 s'"
      using less.IH [OF shorter, of "pre @ chunk" ?s1] less.prems(1,3,5) ne unfolding parts n_def [symmetric] by auto
    from s'(2) have "delivers a r [m] s s'" by (simp add: delivers_def plain_socket_def)
    with s'(1) step False show ?thesis
      unfolding n_def [symmetric] by (simp add: frags ProcessPacket_fragment [OF chunk(2,1)] rest'_def)
  qed
qed

lemma receive_small:
  assumes "udp_fits m" and "snd m \<noteq> []" and "idle a s" and "plain_socket fd r s"
  shows "\<exists>s'. ProcessPacket False False fd a (put_u32 NONFRAG_MAGIC @ packet_body m) s = Inr s' \<and> delivers a r [m] s s'"
proof -
  have "(4 :: u64) - of_nat (length (put_u32 NONFRAG_MAGIC @ packet_body m)) > 0"
    using assms(1) by (intro packet_not_4) (simp_all add: length_packet_body udp_fits_def)
  moreover have "read_u32 (put_u32 NONFRAG_MAGIC @ packet_body m) 0 = Inr NONFRAG_MAGIC"
    using read_u32_at [of "[]" 0 NONFRAG_MAGIC] by simp
  ultimately have "ProcessPacket False False fd a (put_u32 NONFRAG_MAGIC @ packet_body m) s = udp_dispatch False False fd a m s"
    using DecodePacket_body [OF assms(1,2)] by (simp add: ProcessPacket_def del: word_greater_zero_iff)
  with assms(3,4) show ?thesis
    by (simp add: udp_dispatch_plain delivers_def idle_def plain_socket_def)
qed

text \<open>Sending a list of messages while the kernel takes every packet.\<close>

fun udp_send_all :: "udp_message list \<Rightarrow> ('a, 'r) udp \<Rightarrow> (string list \<times> ('a, 'r) udp) outcome" where
  "udp_send_all [] s = Inr ([], s)"
| "udp_send_all (m # ms) s =
     bindE (SerializeMessage [] m) (\<lambda>buf.
     bindE (UDP_SendMessageInternal (length (fst (udp_datagrams (udp_lastFragMsgId s) buf))) m s) (\<lambda>(_, ps, s1).
     bindE (udp_send_all ms s1) (\<lambda>(ps', s2). Inr (ps @ ps', s2))))"

lemma udp_send_all_Cons:
  assumes "udp_send_all (m # ms) s = Inr (ps, s2)"
  obtains ps' lastId where "snd m \<noteq> []"
    and "ps = fst (udp_datagrams (udp_lastFragMsgId s) (put_u32 NONFRAG_MAGIC @ packet_body m)) @ ps'"
    and "lastId = snd (udp_datagrams (udp_lastFragMsgId s) (put_u32 NONFRAG_MAGIC @ packet_body m))"
    and "udp_send_all ms (s\<lparr>udp_lastFragMsgId := lastId\<rparr>) = Inr (ps', s2)"
  using assms by (auto simp: UDP_SendMessageInternal_def SerializeMessage_body split: if_splits prod.splits)

lemma receive_datagrams:
  assumes "udp_fits m" and "snd m \<noteq> []" and "idle a t" and "plain_socket fd r t" and "n + 1 \<noteq> 0"
  shows "\<exists>t'. udp_receive_all fd a (fst (udp_datagrams n (put_u32 NONFRAG_MAGIC @ packet_body m))) t = Inr t' \<and> delivers a r [m] t t'"
proof (cases "length (put_u32 NONFRAG_MAGIC @ packet_body m) \<le> MAX_UDP_MESSAGE_SIZE")
  case True
  with receive_small [OF assms(1-4)] show ?thesis by (auto simp: udp_datagrams_def)
next
  case False
  have ne: "packet_body m \<noteq> []" using assms(2) by (simp add: packet_body_def)
  have "drop 4 (put_u32 NONFRAG_MAGIC @ packet_body m) = packet_body m" by simp
  with False have "fst (udp_datagrams n (put_u32 NONFRAG_MAGIC @ packet_body m)) = udp_fragments (n + 1) (length (packet_body m)) 0 (packet_body m)"
    by (simp only: udp_datagrams_def Let_def if_False fst_conv)
  with receive_fragments [of "[]" "packet_body m" m a "n + 1" t fd r] DecodePacket_body [OF assms(1,2)] assms ne
  show ?thesis by (simp add: holds_part_def length_packet_body udp_fits_def)
qed

text \<open>
  \<^bold>\<open>C10\<close> UDP messages survive the packets. When every packet of a list of messages
  is taken by the network and arrives in the order it was sent, the receiver is
  handed exactly these messages, in order, whether a message fits into one packet
  or is cut into fragments of 9000 bytes, and no part of a message is left behind.
  The number of large messages a sender ever sends has to stay below 2^64.
\<close>

theorem udp_roundtrip:
  assumes "udp_send_all ms s = Inr (packets, s')" and "\<forall>m\<in>set ms. udp_fits m"
    and "unat (udp_lastFragMsgId s) + length ms < 2 ^ 64"
    and "idle a t" and "plain_socket fd r t"
  shows "\<exists>t'. udp_receive_all fd a packets t = Inr t' \<and> idle a t' \<and>
    udp_delivered t' = udp_delivered t @ map (\<lambda>m. (r, a, m)) ms"
  using assms
proof (induction ms arbitrary: s t packets)
  case Nil
  then show ?case by simp
next
  case (Cons m ms)
  from Cons.prems(1) obtain ps' lastId where ne: "snd m \<noteq> []"
    and ps: "packets = fst (udp_datagrams (udp_lastFragMsgId s) (put_u32 NONFRAG_MAGIC @ packet_body m)) @ ps'"
    and lastId: "lastId = snd (udp_datagrams (udp_lastFragMsgId s) (put_u32 NONFRAG_MAGIC @ packet_body m))"
    and rest: "udp_send_all ms (s\<lparr>udp_lastFragMsgId := lastId\<rparr>) = Inr (ps', s')"
    by (rule udp_send_all_Cons)
  have nz: "udp_lastFragMsgId s + 1 \<noteq> 0" and suc: "unat (udp_lastFragMsgId s + 1) = Suc (unat (udp_lastFragMsgId s))"
    using Cons.prems(3) by (simp_all add: unat_word_ariths unat_eq_zero [symmetric] del: unat_eq_zero)
  then have "unat lastId + length ms < 2 ^ 64"
    using Cons.prems(3) by (simp add: lastId udp_datagrams_def Let_def)
  moreover from receive_datagrams [OF _ ne Cons.prems(4,5) nz] Cons.prems(2) obtain t1 where
    t1: "udp_receive_all fd a (fst (udp_datagrams (udp_lastFragMsgId s) (put_u32 NONFRAG_MAGIC @ packet_body m))) t = Inr t1"
      "delivers a r [m] t t1" by auto
  ultimately obtain t' where "udp_receive_all fd a ps' t1 = Inr t'" "idle a t'"
    "udp_delivered t' = udp_delivered t1 @ map (\<lambda>m. (r, a, m)) ms"
    using Cons.IH [OF rest, of t1] Cons.prems(2,5) by (auto simp: delivers_def)
  with t1 show ?case by (simp add: ps foldE_append delivers_def)
qed

lemma udp_send_all_ok:
  assumes "\<forall>m\<in>set ms. snd m \<noteq> []"
  shows "\<exists>packets s'. udp_send_all ms s = Inr (packets, s')"
  using assms
proof (induction ms arbitrary: s)
  case Nil
  then show ?case by simp
next
  case (Cons m ms)
  obtain ps lastId where "udp_datagrams (udp_lastFragMsgId s) (put_u32 NONFRAG_MAGIC @ packet_body m) = (ps, lastId)"
    by fastforce
  moreover from Cons obtain packets s' where "udp_send_all ms (s\<lparr>udp_lastFragMsgId := lastId\<rparr>) = Inr (packets, s')" by force
  ultimately show ?case
    using Cons.prems by (simp add: UDP_SendMessageInternal_def SerializeMessage_body)
qed

definition demo_udp :: "(nat, nat) udp" where
  "demo_udp = \<lparr>udp_lastFragMsgId = 0, udp_fragInfo = [], udp_reorderBuffer = None, udp_receivers = [(3, 1)],
     udp_multicastConfigs = [], udp_delivered = []\<rparr>"

definition demo_large :: "udp_message list" where
  "demo_large = [(''a.Get'', ''k''), (''a.Put'', replicate 30000 (CHR ''x'')), (''a.Put'', replicate 9500 (CHR ''y''))]"

theorem udp_roundtrip_witness:
  "\<exists>packets s' t'. udp_send_all demo_large demo_udp = Inr (packets, s') \<and> udp_receive_all 3 8 packets demo_udp = Inr t' \<and>
     udp_delivered t' = map (\<lambda>m. (1, 8, m)) demo_large"
proof -
  have "\<forall>m\<in>set demo_large. snd m \<noteq> []" by (simp add: demo_large_def)
  from udp_send_all_ok [OF this, of demo_udp] obtain packets s' where
    sent: "udp_send_all demo_large demo_udp = Inr (packets, s')" by blast
  have "\<forall>m\<in>set demo_large. udp_fits m" "unat (udp_lastFragMsgId demo_udp) + length demo_large < 2 ^ 64"
    "idle 8 demo_udp" "plain_socket 3 1 demo_udp" "udp_delivered demo_udp = []"
    by (simp_all add: demo_large_def udp_fits_def demo_udp_def idle_def plain_socket_def)
  with udp_roundtrip [OF sent, of 8 demo_udp 3 1] sent show ?thesis by auto
qed

section \<open>Late fragments\<close>

lemma udp_fragments_shape:
  assumes "p \<in> set (udp_fragments i n k rest)" and "k + length rest = n"
  shows "\<exists>k chunk. p = fragment i n k chunk \<and> chunk \<noteq> [] \<and> k + length chunk \<le> n \<and> length chunk = min (n - k) MAX_UDP_MESSAGE_SIZE"
  using assms
proof (induction i n k rest rule: udp_fragments.induct)
  case (1 i n k rest)
  from 1(2) have ne: "rest \<noteq> []" by (auto simp: udp_fragments.simps)
  with 1(2) consider "p = fragment i n k (take MAX_UDP_MESSAGE_SIZE rest)"
    | (later) "p \<in> set (udp_fragments i n (k + MAX_UDP_MESSAGE_SIZE) (drop MAX_UDP_MESSAGE_SIZE rest))"
    by (subst (asm) udp_fragments.simps) (auto simp: fragment_def)
  then show ?case
  proof cases
    case 1
    with ne \<open>k + length rest = n\<close> show ?thesis
      by (intro exI [of _ k] exI [of _ "take MAX_UDP_MESSAGE_SIZE rest"]) (auto simp: MAX_UDP_MESSAGE_SIZE_def min_def)
  next
    case later
    then have "drop MAX_UDP_MESSAGE_SIZE rest \<noteq> []" by (auto simp: udp_fragments.simps)
    with 1(1) [OF ne later] 1(3) show ?thesis by simp
  qed
qed

text \<open>
  A fault of the code. When the first fragment of a message overtakes any
  fragment of an earlier message of the same sender, the fragment that comes late
  fails an assertion and stops the receiver, although the network may reorder
  packets.
\<close>

theorem overtaken_fragment_asserts:
  assumes "idle a t" and "i < j"
    and "MAX_UDP_MESSAGE_SIZE < length body" and "length body < 2 ^ 63"
    and "ProcessPacket False False fd a (hd (udp_fragments j (length body) 0 body)) t = Inr t1"
    and "length body' < 2 ^ 63" and "p \<in> set (udp_fragments i (length body') 0 body')"
  shows "ProcessPacket drop_roll reorder_roll fd a p t1 = Inl AssertFailed"
proof -
  have j: "j \<noteq> 0" using assms(2) by auto
  have ne: "body \<noteq> []" using assms(3) by auto
  define chunk where "chunk = take MAX_UDP_MESSAGE_SIZE body"
  have chunk: "length chunk < 2 ^ 63" "chunk \<noteq> []" using assms(4) ne by (auto simp: chunk_def MAX_UDP_MESSAGE_SIZE_def)
  have "hd (udp_fragments j (length body) 0 body) = fragment j (length body) 0 chunk"
    using ne by (subst udp_fragments.simps) (simp add: fragment_def chunk_def)
  moreover have "holds_part a j [] t" using assms(1) by (simp add: holds_part_def)
  from process_fragment_next [OF this j ne] assms(3,4)
  have "process_fragment a (fragment j (length body) 0 chunk) t =
      Inr (None, t\<lparr>udp_fragInfo := um_put a \<lparr>fi_msgId = j, fi_data = chunk\<rparr> (udp_fragInfo t)\<rparr>)"
    by (simp add: chunk_def)
  ultimately have t1: "t1 = t\<lparr>udp_fragInfo := um_put a \<lparr>fi_msgId = j, fi_data = chunk\<rparr> (udp_fragInfo t)\<rparr>"
    using assms(5) by (simp add: ProcessPacket_fragment [OF chunk])
  from udp_fragments_shape [OF assms(7)] obtain k c where p: "p = fragment i (length body') k c" "c \<noteq> []"
    "k + length c \<le> length body'" "length c = min (length body' - k) MAX_UDP_MESSAGE_SIZE" by auto
  have "(of_nat (length body') :: u64) - of_nat k = of_nat (length body' - k)" using p(3) by (simp add: of_nat_diff)
  then have size: "length c = unat (min (of_nat (length body') - of_nat k :: u64) (of_nat MAX_UDP_MESSAGE_SIZE))"
    using assms(6) p(4) by (simp only:) (rule min_of_nat_64 [symmetric], simp_all add: MAX_UDP_MESSAGE_SIZE_def)
  have order: "\<not> j < i" "i \<noteq> j" "j \<noteq> i" using assms(2) by auto
  have "process_fragment a p t1 = Inl AssertFailed"
    unfolding process_fragment_def Let_def p(1) read_fragment bindE_simps t1
    using p(2) size [symmetric] j order by (simp add: um_ref_def assertE_def)
  moreover have "(4 :: u64) - of_nat (length p) > 0"
    using p assms(6) by (intro packet_not_4) (simp_all add: read_fragment)
  ultimately show ?thesis
    by (simp add: ProcessPacket_def p(1) read_fragment del: word_greater_zero_iff)
qed

theorem overtaken_fragment_asserts_witness:
  "\<exists>t1 p. ProcessPacket False False 3 8 (hd (udp_fragments 2 9500 0 (replicate 9500 (CHR ''y'')))) demo_udp = Inr t1 \<and>
     ProcessPacket False False 3 8 p t1 = Inl AssertFailed \<and> p \<in> set (udp_fragments 1 30000 0 (replicate 30000 (CHR ''x'')))"
proof -
  let ?y = "replicate 9500 (CHR ''y'')" and ?x = "replicate 30000 (CHR ''x'')"
  let ?chunk = "take MAX_UDP_MESSAGE_SIZE ?y"
  have idle: "idle 8 demo_udp" and lens: "length ?y = 9500" "length ?x = 30000" by (simp_all add: demo_udp_def idle_def)
  have hd: "hd (udp_fragments 2 9500 0 ?y) = fragment 2 9500 0 ?chunk"
    by (subst udp_fragments.simps) (simp add: fragment_def)
  have chunk: "length ?chunk < 2 ^ 63" "?chunk \<noteq> []" by (simp_all add: MAX_UDP_MESSAGE_SIZE_def)
  have "holds_part 8 2 [] demo_udp" using idle by (simp add: holds_part_def)
  from process_fragment_next [OF this, of ?y] obtain t1 where
    t1: "ProcessPacket False False 3 8 (hd (udp_fragments 2 9500 0 ?y)) demo_udp = Inr t1"
    by (simp add: hd ProcessPacket_fragment MAX_UDP_MESSAGE_SIZE_def)
  have "udp_fragments 1 30000 0 ?x \<noteq> []" by (subst udp_fragments.simps) simp
  then have "hd (udp_fragments 1 30000 0 ?x) \<in> set (udp_fragments 1 30000 0 ?x)" by simp
  moreover have "(1 :: u64) < 2" "MAX_UDP_MESSAGE_SIZE < length ?y" "length ?y < 2 ^ 63" "length ?x < 2 ^ 63"
    by (simp_all add: MAX_UDP_MESSAGE_SIZE_def)
  ultimately show ?thesis
    using overtaken_fragment_asserts [OF idle, of 1 2 ?y 3 t1 ?x "hd (udp_fragments 1 30000 0 ?x)" False False] t1
    unfolding lens by blast
qed

end
