(* ===== verification/Timers.thy ===== *)
theory Timers
  imports Prelude
begin

text \<open>
  Timers: the tables of the TCP and UDP transports (\<open>src/lib/tcptransport.cc\<close>,
  \<open>src/lib/udptransport.cc\<close>), the timers of the simulated transport
  (\<open>src/lib/simtransport.cc\<close>) and the \<open>Timeout\<close> built on any of them
  (\<open>src/lib/transport.cc\<close>). The locale \<open>timer_service\<close> states what \<open>Timeout\<close> relies on,
  and each transport is shown to provide it. When a timer is due is libevent's
  business: a timer that fires is a call of \<open>OnTimer\<close>. Identifiers are \<open>int\<close>; a
  process does not set 2^31 timers.
\<close>

section \<open>The interface\<close>

text \<open>
  \<open>timer\<close> sets a timer and gives its identifier, \<open>cancel\<close> removes one, \<open>fire\<close> removes
  one that is due; \<open>pending\<close> is the callback of an identifier.
\<close>

locale timer_service =
  fixes timer :: "u64 \<Rightarrow> 'cb \<Rightarrow> 't \<Rightarrow> int \<times> 't"
    and cancel :: "int \<Rightarrow> 't \<Rightarrow> bool \<times> 't"
    and fire :: "int \<Rightarrow> 't \<Rightarrow> 't"
    and pending :: "'t \<Rightarrow> int \<Rightarrow> 'cb option"
    and ok :: "'t \<Rightarrow> bool"
  assumes timer_ok: "ok t \<Longrightarrow> ok (snd (timer ms cb t))"
    and cancel_ok: "ok t \<Longrightarrow> ok (snd (cancel i t))"
    and fire_ok: "ok t \<Longrightarrow> ok (fire i t)"
    and timer_positive: "ok t \<Longrightarrow> 0 < fst (timer ms cb t)"
    and timer_fresh: "ok t \<Longrightarrow> pending t (fst (timer ms cb t)) = None"
    and timer_pending: "ok t \<Longrightarrow> pending (snd (timer ms cb t)) = (pending t)(fst (timer ms cb t) \<mapsto> cb)"
    and cancel_pending: "ok t \<Longrightarrow> pending (snd (cancel i t)) = (pending t)(i := None)"
    and cancel_result: "ok t \<Longrightarrow> fst (cancel i t) \<longleftrightarrow> pending t i \<noteq> None"
    and fire_pending: "ok t \<Longrightarrow> pending (fire i t) = (pending t)(i := None)"

section \<open>\<open>Timeout\<close>\<close>

record 'cb timeout =
  to_ms :: u64
  to_cb :: 'cb
  to_timerId :: int

definition Timeout_init :: "u64 \<Rightarrow> 'cb \<Rightarrow> 'cb timeout" where
  "Timeout_init ms cb = \<lparr>to_ms = ms, to_cb = cb, to_timerId = 0\<rparr>"

definition Timeout_Active :: "'cb timeout \<Rightarrow> bool" where
  "Timeout_Active to \<longleftrightarrow> to_timerId to \<noteq> 0"

definition Timeout_SetTimeout :: "u64 \<Rightarrow> 'cb timeout \<Rightarrow> 'cb timeout outcome" where
  "Timeout_SetTimeout ms to = assertE (\<not> Timeout_Active to) (Inr (to\<lparr>to_ms := ms\<rparr>))"

definition Timeout_Stop :: "(int \<Rightarrow> 't \<Rightarrow> bool \<times> 't) \<Rightarrow> 'cb timeout \<times> 't \<Rightarrow> 'cb timeout \<times> 't" where
  "Timeout_Stop cancel = (\<lambda>(to, t).
     if to_timerId to > 0 then (to\<lparr>to_timerId := 0\<rparr>, snd (cancel (to_timerId to) t)) else (to, t))"

text \<open>\<open>Reset\<close> hands the client's callback to the transport, not \<open>OnTimeout\<close>.\<close>

definition Timeout_Reset :: "(u64 \<Rightarrow> 'cb \<Rightarrow> 't \<Rightarrow> int \<times> 't) \<Rightarrow> (int \<Rightarrow> 't \<Rightarrow> bool \<times> 't) \<Rightarrow>
    'cb timeout \<times> 't \<Rightarrow> u64 \<times> 'cb timeout \<times> 't" where
  "Timeout_Reset timer cancel tot =
     (let (to, t) = Timeout_Stop cancel tot; (i, t') = timer (to_ms to) (to_cb to) t in
      (to_ms to, to\<lparr>to_timerId := i\<rparr>, t'))"

definition Timeout_Start :: "(u64 \<Rightarrow> 'cb \<Rightarrow> 't \<Rightarrow> int \<times> 't) \<Rightarrow> (int \<Rightarrow> 't \<Rightarrow> bool \<times> 't) \<Rightarrow>
    'cb timeout \<times> 't \<Rightarrow> u64 \<times> 'cb timeout \<times> 't" where
  "Timeout_Start timer cancel tot = Timeout_Reset timer cancel tot"

text \<open>\<open>OnTimeout\<close> re-arms the timer; the client's callback runs after it. Nothing calls it.\<close>

definition Timeout_OnTimeout :: "(u64 \<Rightarrow> 'cb \<Rightarrow> 't \<Rightarrow> int \<times> 't) \<Rightarrow> (int \<Rightarrow> 't \<Rightarrow> bool \<times> 't) \<Rightarrow>
    'cb timeout \<times> 't \<Rightarrow> 'cb timeout \<times> 't" where
  "Timeout_OnTimeout timer cancel = (\<lambda>(to, t). snd (Timeout_Reset timer cancel (to\<lparr>to_timerId := 0\<rparr>, t)))"

text \<open>The timer that belongs to a timeout, if it is set.\<close>

definition armed :: "('t \<Rightarrow> int \<Rightarrow> 'cb option) \<Rightarrow> 'cb timeout \<Rightarrow> 't \<Rightarrow> bool" where
  "armed pending to t \<longleftrightarrow> to_timerId to > 0 \<and> pending t (to_timerId to) = Some (to_cb to)"

context timer_service
begin

text \<open>
  \<open>Reset\<close> leaves exactly one timer for the timeout: the one it had before is gone,
  the new one is set, and all others are as they were.
\<close>

lemma Reset_pending:
  assumes "ok t" and "Timeout_Reset timer cancel (to, t) = (ms, to', t')"
  shows "ok t' \<and> ms = to_ms to \<and> armed pending to' t' \<and> Timeout_Active to' \<and>
    pending t' = ((if to_timerId to > 0 then (pending t)(to_timerId to := None) else pending t)(to_timerId to' \<mapsto> to_cb to))"
proof -
  define t1 where "t1 = (if to_timerId to > 0 then snd (cancel (to_timerId to) t) else t)"
  have t1: "ok t1" "pending t1 = (if to_timerId to > 0 then (pending t)(to_timerId to := None) else pending t)"
    using assms(1) by (auto simp: t1_def cancel_ok cancel_pending)
  have "to' = to\<lparr>to_timerId := fst (timer (to_ms to) (to_cb to) t1)\<rparr>" and "t' = snd (timer (to_ms to) (to_cb to) t1)" and "ms = to_ms to"
    using assms(2) by (auto simp: Timeout_Reset_def Timeout_Stop_def t1_def split: prod.splits if_splits)
  then show ?thesis
    using t1 timer_ok [OF t1(1)] timer_pending [OF t1(1)] timer_positive [OF t1(1), of "to_ms to" "to_cb to"]
    by (simp add: armed_def Timeout_Active_def)
qed

lemma Stop_pending:
  assumes "ok t" and "Timeout_Stop cancel (to, t) = (to', t')" and "to_timerId to \<ge> 0"
  shows "ok t' \<and> \<not> Timeout_Active to' \<and>
    pending t' = (if to_timerId to > 0 then (pending t)(to_timerId to := None) else pending t)"
  using assms by (auto simp: Timeout_Stop_def Timeout_Active_def cancel_ok cancel_pending split: if_splits)

text \<open>A timer that fires is not set again, and the timeout goes on saying that it is.\<close>

lemma fired_not_rearmed:
  assumes "ok t" and "armed pending to t"
  shows "\<not> armed pending to (fire (to_timerId to) t) \<and> Timeout_Active to"
  using assms by (simp add: armed_def fire_pending Timeout_Active_def)

end

section \<open>TCP\<close>

text \<open>The two parts of the \<open>timeval\<close> and the callback.\<close>

record 'cb timer_info =
  ti_sec :: u64
  ti_usec :: u64
  ti_cb :: 'cb

record 'cb timers =
  lastTimerId :: int
  timers :: "(int, 'cb timer_info) umap"

definition timers_init :: "'cb timers" where
  "timers_init = \<lparr>lastTimerId = 0, timers = []\<rparr>"

definition TCP_TimerInternal :: "u64 \<times> u64 \<Rightarrow> 'cb \<Rightarrow> 'cb timers \<Rightarrow> int \<times> 'cb timers" where
  "TCP_TimerInternal tv cb t =
     (let i = lastTimerId t + 1 in
      (i, t\<lparr>lastTimerId := i, timers := um_put i \<lparr>ti_sec = fst tv, ti_usec = snd tv, ti_cb = cb\<rparr> (timers t)\<rparr>))"

definition TCP_Timer :: "u64 \<Rightarrow> 'cb \<Rightarrow> 'cb timers \<Rightarrow> int \<times> 'cb timers" where
  "TCP_Timer ms cb t = TCP_TimerInternal (ms div 1000, (ms mod 1000) * 1000) cb t"

definition TCP_TimerMicro :: "u64 \<Rightarrow> 'cb \<Rightarrow> 'cb timers \<Rightarrow> int \<times> 'cb timers" where
  "TCP_TimerMicro us cb t = TCP_TimerInternal (us div 1000000, us mod 1000000) cb t"

definition TCP_CancelTimer :: "int \<Rightarrow> 'cb timers \<Rightarrow> bool \<times> 'cb timers" where
  "TCP_CancelTimer i t =
     (if \<not> um_has (timers t) i then (False, t) else (True, t\<lparr>timers := um_erase i (timers t)\<rparr>))"

lemma TCP_CancelTimer_shorter:
  "timers t = (i, x) # rest \<Longrightarrow> length (timers (snd (TCP_CancelTimer i t))) < Suc (length rest)"
  by (simp add: TCP_CancelTimer_def) (meson le_imp_less_Suc length_delete_le)

function TCP_CancelAllTimers :: "'cb timers \<Rightarrow> 'cb timers" where
  "TCP_CancelAllTimers t =
     (case timers t of [] \<Rightarrow> t | (i, _) # _ \<Rightarrow> TCP_CancelAllTimers (snd (TCP_CancelTimer i t)))"
  by pat_completeness auto
termination
  by (relation "measure (\<lambda>t. length (timers t))") (auto simp: TCP_CancelTimer_shorter)

declare TCP_CancelAllTimers.simps [simp del]

text \<open>\<open>OnTimer\<close> removes the timer before the callback runs.\<close>

definition TCP_OnTimer :: "int \<Rightarrow> 'cb timers \<Rightarrow> 'cb timers" where
  "TCP_OnTimer i t = t\<lparr>timers := um_erase i (timers t)\<rparr>"

definition tcp_pending :: "'cb timers \<Rightarrow> int \<Rightarrow> 'cb option" where
  "tcp_pending t i = map_option ti_cb (map_of (timers t) i)"

definition tcp_timers_ok :: "'cb timers \<Rightarrow> bool" where
  "tcp_timers_ok t \<longleftrightarrow> 0 \<le> lastTimerId t \<and> (\<forall>i. um_has (timers t) i \<longrightarrow> 0 < i \<and> i \<le> lastTimerId t)"

lemma tcp_pending_fresh: "tcp_timers_ok t \<Longrightarrow> lastTimerId t < i \<Longrightarrow> map_of (timers t) i = None"
  by (force simp: tcp_timers_ok_def um_has_def)

interpretation tcp_timer: timer_service TCP_Timer TCP_CancelTimer TCP_OnTimer tcp_pending tcp_timers_ok
proof
  fix t :: "'cb timers" and ms cb i
  assume ok: "tcp_timers_ok t"
  show "tcp_timers_ok (snd (TCP_Timer ms cb t))" "0 < fst (TCP_Timer ms cb t)"
    using ok by (auto simp: tcp_timers_ok_def TCP_Timer_def TCP_TimerInternal_def Let_def)
  show "tcp_timers_ok (snd (TCP_CancelTimer i t))" "tcp_timers_ok (TCP_OnTimer i t)"
    using ok by (auto simp: tcp_timers_ok_def TCP_CancelTimer_def TCP_OnTimer_def)
  show "tcp_pending t (fst (TCP_Timer ms cb t)) = None"
    using tcp_pending_fresh [OF ok] by (simp add: tcp_pending_def TCP_Timer_def TCP_TimerInternal_def Let_def)
  show "tcp_pending (snd (TCP_Timer ms cb t)) = (tcp_pending t)(fst (TCP_Timer ms cb t) \<mapsto> cb)"
    by (rule ext) (simp add: tcp_pending_def TCP_Timer_def TCP_TimerInternal_def Let_def)
  show "tcp_pending (snd (TCP_CancelTimer i t)) = (tcp_pending t)(i := None)"
    by (rule ext) (simp add: tcp_pending_def TCP_CancelTimer_def um_has_def)
  show "fst (TCP_CancelTimer i t) \<longleftrightarrow> tcp_pending t i \<noteq> None"
    by (simp add: tcp_pending_def TCP_CancelTimer_def um_has_def)
  show "tcp_pending (TCP_OnTimer i t) = (tcp_pending t)(i := None)"
    by (rule ext) (simp add: tcp_pending_def TCP_OnTimer_def)
qed

section \<open>UDP\<close>

text \<open>The table holds pointers, and \<open>CancelTimer\<close> looks up with \<open>operator[]\<close>: an unknown identifier gets a null pointer.\<close>

record 'cb udp_timers =
  ut_lastTimerId :: int
  ut_timers :: "(int, 'cb timer_info option) umap"

definition udp_timers_init :: "'cb udp_timers" where
  "udp_timers_init = \<lparr>ut_lastTimerId = 0, ut_timers = []\<rparr>"

definition UDP_TimerInternal :: "u64 \<times> u64 \<Rightarrow> 'cb \<Rightarrow> 'cb udp_timers \<Rightarrow> int \<times> 'cb udp_timers" where
  "UDP_TimerInternal tv cb t =
     (let i = ut_lastTimerId t + 1 in
      (i, t\<lparr>ut_lastTimerId := i, ut_timers := um_put i (Some \<lparr>ti_sec = fst tv, ti_usec = snd tv, ti_cb = cb\<rparr>) (ut_timers t)\<rparr>))"

definition UDP_Timer :: "u64 \<Rightarrow> 'cb \<Rightarrow> 'cb udp_timers \<Rightarrow> int \<times> 'cb udp_timers" where
  "UDP_Timer ms cb t = UDP_TimerInternal (ms div 1000, (ms mod 1000) * 1000) cb t"

definition UDP_TimerMicro :: "u64 \<Rightarrow> 'cb \<Rightarrow> 'cb udp_timers \<Rightarrow> int \<times> 'cb udp_timers" where
  "UDP_TimerMicro us cb t = UDP_TimerInternal (us div 1000000, us mod 1000000) cb t"

definition UDP_CancelTimer :: "int \<Rightarrow> 'cb udp_timers \<Rightarrow> bool \<times> 'cb udp_timers" where
  "UDP_CancelTimer i t =
     (let (info, ts) = um_ref None (ut_timers t) i; t1 = t\<lparr>ut_timers := ts\<rparr> in
      case info of None \<Rightarrow> (False, t1) | Some _ \<Rightarrow> (True, t1\<lparr>ut_timers := um_erase i (ut_timers t1)\<rparr>))"

partial_function (option) UDP_CancelAllTimers :: "'cb udp_timers \<Rightarrow> 'cb udp_timers option" where
  "UDP_CancelAllTimers t =
     (case ut_timers t of [] \<Rightarrow> Some t | p # _ \<Rightarrow> UDP_CancelAllTimers (snd (UDP_CancelTimer (fst p) t)))"

definition UDP_OnTimer :: "int \<Rightarrow> 'cb udp_timers \<Rightarrow> 'cb udp_timers" where
  "UDP_OnTimer i t = t\<lparr>ut_timers := um_erase i (ut_timers t)\<rparr>"

definition udp_pending :: "'cb udp_timers \<Rightarrow> int \<Rightarrow> 'cb option" where
  "udp_pending t i = (case map_of (ut_timers t) i of Some (Some info) \<Rightarrow> Some (ti_cb info) | _ \<Rightarrow> None)"

definition udp_timers_ok :: "'cb udp_timers \<Rightarrow> bool" where
  "udp_timers_ok t \<longleftrightarrow> um_ok (ut_timers t) \<and> 0 \<le> ut_lastTimerId t \<and>
     (\<forall>i. udp_pending t i \<noteq> None \<longrightarrow> 0 < i \<and> i \<le> ut_lastTimerId t)"

lemma udp_Timer_pending:
  "udp_pending (snd (UDP_Timer ms cb t)) = (udp_pending t)(fst (UDP_Timer ms cb t) \<mapsto> cb)"
  by (rule ext) (simp add: udp_pending_def UDP_Timer_def UDP_TimerInternal_def Let_def)

lemma udp_CancelTimer_pending: "udp_pending (snd (UDP_CancelTimer i t)) = (udp_pending t)(i := None)"
  by (rule ext) (simp add: udp_pending_def UDP_CancelTimer_def um_ref_def split: option.splits)

lemma udp_OnTimer_pending: "udp_pending (UDP_OnTimer i t) = (udp_pending t)(i := None)"
  by (rule ext) (simp add: udp_pending_def UDP_OnTimer_def)

interpretation udp_timer: timer_service UDP_Timer UDP_CancelTimer UDP_OnTimer udp_pending udp_timers_ok
proof
  fix t :: "'cb udp_timers" and ms cb i
  assume ok: "udp_timers_ok t"
  show "0 < fst (UDP_Timer ms cb t)"
    using ok by (simp add: udp_timers_ok_def UDP_Timer_def UDP_TimerInternal_def Let_def)
  have i: "fst (UDP_Timer ms cb t) = ut_lastTimerId t + 1"
    by (simp add: UDP_Timer_def UDP_TimerInternal_def Let_def)
  show "udp_pending t (fst (UDP_Timer ms cb t)) = None"
  proof (rule ccontr)
    assume "udp_pending t (fst (UDP_Timer ms cb t)) \<noteq> None"
    with ok have "fst (UDP_Timer ms cb t) \<le> ut_lastTimerId t" unfolding udp_timers_ok_def by blast
    with i show False by simp
  qed
  have "um_ok (ut_timers (snd (UDP_Timer ms cb t)))" "ut_lastTimerId (snd (UDP_Timer ms cb t)) = ut_lastTimerId t + 1"
    using ok by (simp_all add: udp_timers_ok_def UDP_Timer_def UDP_TimerInternal_def Let_def)
  with ok i show "udp_timers_ok (snd (UDP_Timer ms cb t))"
    by (fastforce simp: udp_timers_ok_def udp_Timer_pending)
  have "um_ok (ut_timers (snd (UDP_CancelTimer i t)))" "ut_lastTimerId (snd (UDP_CancelTimer i t)) = ut_lastTimerId t"
    using ok by (auto simp: udp_timers_ok_def UDP_CancelTimer_def um_ref_def split: option.split)
  with ok show "udp_timers_ok (snd (UDP_CancelTimer i t))"
    by (simp add: udp_timers_ok_def udp_CancelTimer_pending)
  have "um_ok (ut_timers (UDP_OnTimer i t))" "ut_lastTimerId (UDP_OnTimer i t) = ut_lastTimerId t"
    using ok by (simp_all add: udp_timers_ok_def UDP_OnTimer_def)
  with ok show "udp_timers_ok (UDP_OnTimer i t)"
    by (simp add: udp_timers_ok_def udp_OnTimer_pending)
  show "fst (UDP_CancelTimer i t) \<longleftrightarrow> udp_pending t i \<noteq> None"
    by (auto simp: udp_pending_def UDP_CancelTimer_def um_ref_def split: option.splits)
qed (simp_all add: udp_Timer_pending udp_CancelTimer_pending udp_OnTimer_pending)

section \<open>Cancelling all timers\<close>

lemma TCP_CancelAllTimers_empties: "timers (TCP_CancelAllTimers t) = []"
proof (induction t rule: TCP_CancelAllTimers.induct)
  case (1 t)
  then show ?case by (subst TCP_CancelAllTimers.simps) (auto split: list.split)
qed

text \<open>A round of the loop either leaves a null pointer where it is or removes a timer.\<close>

lemma cancel_first:
  assumes "um_ok (ut_timers t)" and "ut_timers t = p # rest"
  shows "snd (UDP_CancelTimer (fst p) t) = (if snd p = None then t else t\<lparr>ut_timers := rest\<rparr>)"
  using assms by (cases p) (auto simp: UDP_CancelTimer_def um_ref_def um_ok_def delete_idem split: option.split)

lemma UDP_CancelAllTimers_no_null:
  assumes "UDP_CancelAllTimers t = Some t'"
  shows "um_ok (ut_timers t) \<longrightarrow> (\<forall>i. map_of (ut_timers t) i \<noteq> Some None)"
proof (rule UDP_CancelAllTimers.raw_induct [OF _ assms])
  fix f :: "'a udp_timers \<Rightarrow> 'a udp_timers option" and t y
  assume IH: "\<And>x y. f x = Some y \<Longrightarrow> um_ok (ut_timers x) \<longrightarrow> (\<forall>i. map_of (ut_timers x) i \<noteq> Some None)"
    and run: "(case ut_timers t of [] \<Rightarrow> Some t | p # _ \<Rightarrow> f (snd (UDP_CancelTimer (fst p) t))) = Some y"
  show "um_ok (ut_timers t) \<longrightarrow> (\<forall>i. map_of (ut_timers t) i \<noteq> Some None)"
  proof (intro impI allI)
    fix i
    assume ok: "um_ok (ut_timers t)"
    show "map_of (ut_timers t) i \<noteq> Some None"
    proof (cases "ut_timers t")
      case Nil
      then show ?thesis by simp
    next
      case (Cons p rest)
      with run have "f (snd (UDP_CancelTimer (fst p) t)) = Some y" by simp
      note known = IH [OF this, unfolded cancel_first [OF ok Cons]]
      from known ok Cons have "snd p \<noteq> None" by (cases p) (auto split: if_splits)
      with known ok Cons show ?thesis by (cases p) (auto simp: um_ok_def)
    qed
  qed
qed

text \<open>
  Cancelling all timers of the UDP transport returns, with no timer left,
  exactly when no null pointer is in its table; otherwise it loops for ever. A
  null pointer is there as soon as an unknown timer was cancelled.
\<close>

theorem UDP_CancelAllTimers_returns:
  assumes "um_ok (ut_timers t)"
  shows "(\<exists>t'. UDP_CancelAllTimers t = Some t' \<and> ut_timers t' = []) \<longleftrightarrow> (\<forall>i. map_of (ut_timers t) i \<noteq> Some None)"
proof
  assume "\<exists>t'. UDP_CancelAllTimers t = Some t' \<and> ut_timers t' = []"
  then show "\<forall>i. map_of (ut_timers t) i \<noteq> Some None" using UDP_CancelAllTimers_no_null assms by blast
next
  assume "\<forall>i. map_of (ut_timers t) i \<noteq> Some None"
  with assms show "\<exists>t'. UDP_CancelAllTimers t = Some t' \<and> ut_timers t' = []"
  proof (induction "ut_timers t" arbitrary: t)
    case Nil
    then show ?case by (subst UDP_CancelAllTimers.simps) simp
  next
    case (Cons p rest)
    have some: "snd p \<noteq> None" using Cons.hyps(2) Cons.prems(2) by (metis map_of_Cons_code(2) prod.collapse)
    have rest: "um_ok rest" "\<forall>i. map_of rest i \<noteq> Some None"
      using Cons.hyps(2) [symmetric] Cons.prems some by (cases p; force simp: um_ok_def split: if_splits)+
    from Cons.hyps(1) [of "t\<lparr>ut_timers := rest\<rparr>"] rest
    obtain t' where "UDP_CancelAllTimers (t\<lparr>ut_timers := rest\<rparr>) = Some t'" "ut_timers t' = []" by auto
    then show ?case
      using cancel_first [OF Cons.prems(1) Cons.hyps(2) [symmetric]] some Cons.hyps(2) [symmetric]
      by (subst UDP_CancelAllTimers.simps) simp
  qed
qed

theorem UDP_CancelAllTimers_returns_witness:
  "UDP_CancelAllTimers (snd (UDP_CancelTimer 7 (snd (UDP_Timer 10 ''cb'' udp_timers_init)))) = None"
proof -
  let ?t = "snd (UDP_CancelTimer 7 (snd (UDP_Timer 10 ''cb'' udp_timers_init)))"
  have t: "um_ok (ut_timers ?t)" "map_of (ut_timers ?t) 7 = Some None"
    by (simp_all add: UDP_CancelTimer_def UDP_Timer_def UDP_TimerInternal_def udp_timers_init_def um_ref_def um_ok_def Let_def)
  have "UDP_CancelAllTimers ?t = Some t' \<Longrightarrow> False" for t'
    using UDP_CancelAllTimers_no_null [of ?t t'] t by auto
  with UDP_CancelAllTimers_returns [OF t(1)] show ?thesis by (metis option.exhaust)
qed

text \<open>
  A timeout has at most one timer. \<open>Reset\<close> on the timers of TCP cancels the
  timer the timeout had and sets one new timer with the client's callback; no other
  timer changes, and the timeout is active.
\<close>

theorem Timeout_Reset_single_timer:
  assumes "tcp_timers_ok t" and "Timeout_Reset TCP_Timer TCP_CancelTimer (to, t) = (ms, to', t')"
  shows "ms = to_ms to \<and> Timeout_Active to' \<and>
    tcp_pending t' = ((if to_timerId to > 0 then (tcp_pending t)(to_timerId to := None) else tcp_pending t)(to_timerId to' \<mapsto> to_cb to))"
  using tcp_timer.Reset_pending [OF assms] by simp

theorem Timeout_Reset_single_timer_witness:
  "tcp_pending (snd (snd (Timeout_Reset TCP_Timer TCP_CancelTimer
     (\<lparr>to_ms = 10, to_cb = ''resend'', to_timerId = 2\<rparr>,
      snd (TCP_Timer 20 ''resend'' (snd (TCP_Timer 5 ''other'' timers_init))))))) = [1 \<mapsto> ''other'', 3 \<mapsto> ''resend'']"
proof -
  let ?to = "\<lparr>to_ms = 10, to_cb = ''resend'', to_timerId = 2\<rparr>"
  define t where "t = snd (TCP_Timer 20 ''resend'' (snd (TCP_Timer 5 ''other'' timers_init)))"
  have t: "t = \<lparr>lastTimerId = 2, timers = [(1, \<lparr>ti_sec = 0, ti_usec = 5000, ti_cb = ''other''\<rparr>), (2, \<lparr>ti_sec = 0, ti_usec = 20000, ti_cb = ''resend''\<rparr>)]\<rparr>"
    by (simp add: t_def TCP_Timer_def TCP_TimerInternal_def timers_init_def Let_def)
  have ok: "tcp_timers_ok t" by (auto simp: t tcp_timers_ok_def)
  define t' where "t' = snd (snd (Timeout_Reset TCP_Timer TCP_CancelTimer (?to, t)))"
  have r: "Timeout_Reset TCP_Timer TCP_CancelTimer (?to, t) = (10, ?to\<lparr>to_timerId := 3\<rparr>, t')"
    by (simp add: t t'_def Timeout_Reset_def Timeout_Stop_def TCP_CancelTimer_def TCP_Timer_def TCP_TimerInternal_def Let_def)
  have "tcp_pending t = [1 \<mapsto> ''other'', 2 \<mapsto> ''resend'']" by (rule ext) (simp add: t tcp_pending_def)
  with Timeout_Reset_single_timer [OF ok r] show ?thesis
    unfolding t_def [symmetric] t'_def [symmetric] by (simp add: fun_upd_twist)
qed

text \<open>
  \<^bold>\<open>C39\<close> A fault of the code. \<open>Reset\<close> registers the client's callback instead of
  \<open>OnTimeout\<close>: after the timer has fired no timer of the timeout is left, although
  the timeout says it is active, and stopping it then leaves a null pointer in the
  table of the UDP transport, on which cancelling all timers loops for ever.
\<close>

theorem fired_timeout_blocks_shutdown:
  assumes "udp_timers_ok t" and "Timeout_Reset UDP_Timer UDP_CancelTimer (to, t) = (ms, to', t')"
    and "Timeout_Stop UDP_CancelTimer (to', UDP_OnTimer (to_timerId to') t') = (to'', t'')"
  shows "udp_pending (UDP_OnTimer (to_timerId to') t') (to_timerId to') = None \<and> Timeout_Active to' \<and>
    UDP_CancelAllTimers t'' = None"
proof -
  note reset = udp_timer.Reset_pending [OF assms(1,2)]
  then have ok: "udp_timers_ok t'" and pos: "to_timerId to' > 0" by (simp_all add: armed_def)
  let ?t = "UDP_OnTimer (to_timerId to') t'"
  have gone: "map_of (ut_timers ?t) (to_timerId to') = None" by (simp add: UDP_OnTimer_def)
  have "t'' = snd (UDP_CancelTimer (to_timerId to') ?t)" using assms(3) pos by (simp add: Timeout_Stop_def)
  then have null: "map_of (ut_timers t'') (to_timerId to') = Some None" and "um_ok (ut_timers t'')"
    using gone ok by (simp_all add: UDP_CancelTimer_def um_ref_def udp_timers_ok_def UDP_OnTimer_def)
  then have "UDP_CancelAllTimers t'' = Some t3 \<Longrightarrow> False" for t3
    using UDP_CancelAllTimers_no_null [of t'' t3] by auto
  then have "UDP_CancelAllTimers t'' = None" by (metis option.exhaust)
  with reset show ?thesis by (simp add: udp_OnTimer_pending)
qed

theorem fired_timeout_blocks_shutdown_witness:
  "UDP_CancelAllTimers (snd (UDP_CancelTimer 1 (UDP_OnTimer 1 (snd (UDP_Timer 10 ''resend'' udp_timers_init))))) = None"
proof -
  let ?to = "Timeout_init 10 ''resend''"
  have ok: "udp_timers_ok (udp_timers_init :: string udp_timers)"
    by (simp add: udp_timers_ok_def udp_timers_init_def udp_pending_def)
  have reset: "Timeout_Reset UDP_Timer UDP_CancelTimer (?to, udp_timers_init) =
      (10, ?to\<lparr>to_timerId := 1\<rparr>, snd (UDP_Timer 10 ''resend'' udp_timers_init))"
    by (simp add: Timeout_Reset_def Timeout_Stop_def Timeout_init_def UDP_Timer_def UDP_TimerInternal_def udp_timers_init_def Let_def)
  show ?thesis
    using fired_timeout_blocks_shutdown [OF ok reset, of ?to "snd (UDP_CancelTimer 1 (UDP_OnTimer 1 (snd (UDP_Timer 10 ''resend'' udp_timers_init))))"]
    by (simp add: Timeout_Stop_def Timeout_init_def)
qed

end
