(* ===== verification/VrClient.thy ===== *)
theory VrClient
  imports VrReplica
begin

text \<open>
  \<open>src/replication/vr/client.{h,cc}\<close>: the client of a replica group. It numbers the
  requests, keeps those that wait for an answer with their continuations, sends them to
  the whole group and sends them again when their timer fires. What it sends and the
  continuations it calls are a trace; whether the transport accepts a message is an
  argument. A pending request is a \<open>PendingUnloggedRequest\<close> when it has an error
  continuation entry, which may be null. A timer is its \<open>Active()\<close> flag.
\<close>

record 'cb vr_pending =
  vp_request :: string
  vp_clientReqId :: u64
  vp_continuation :: 'cb
  vp_timer :: bool
  vp_error :: "'cb option option"

datatype 'cb vc_event =
    SentToGroup vr_request
  | SentToReplica int vr_request
  | Continued 'cb string string
  | TimedOut 'cb string

record 'cb vr_client =
  vc_clientid :: u64
  vc_lastReqId :: u64
  vc_pendingReqs :: "(u64, 'cb vr_pending) umap"
  vc_trace :: "'cb vc_event list"

definition VRClient_init :: "u64 \<Rightarrow> 'cb vr_client" where
  "VRClient_init client = \<lparr>vc_clientid = client, vc_lastReqId = 0, vc_pendingReqs = [], vc_trace = []\<rparr>"

definition vc_emit :: "'cb vc_event \<Rightarrow> 'cb vr_client \<Rightarrow> 'cb vr_client" where
  "vc_emit e c = c\<lparr>vc_trace := vc_trace c @ [e]\<rparr>"

definition vc_request :: "string \<Rightarrow> u64 \<Rightarrow> 'cb vr_client \<Rightarrow> vr_request" where
  "vc_request op reqId c = \<lparr>rq_op = op, rq_clientid = vc_clientid c, rq_clientreqid = reqId\<rparr>"

text \<open>When the message cannot be sent the request is forgotten, and its continuation is never called.\<close>

definition VRClient_SendRequest :: "bool \<Rightarrow> 'cb vr_pending \<Rightarrow> 'cb vr_client \<Rightarrow> 'cb vr_client" where
  "VRClient_SendRequest ok req c =
     (if ok then
        vc_emit (SentToGroup (vc_request (vp_request req) (vp_clientReqId req) c))
          (c\<lparr>vc_pendingReqs := um_put (vp_clientReqId req) (req\<lparr>vp_timer := True\<rparr>) (vc_pendingReqs c)\<rparr>)
      else c\<lparr>vc_pendingReqs := um_erase (vp_clientReqId req) (vc_pendingReqs c)\<rparr>)"

definition VRClient_Invoke :: "bool \<Rightarrow> string \<Rightarrow> 'cb \<Rightarrow> 'cb vr_client \<Rightarrow> 'cb vr_client" where
  "VRClient_Invoke ok request continuation c =
     (let reqId = vc_lastReqId c + 1;
          req = \<lparr>vp_request = request, vp_clientReqId = reqId, vp_continuation = continuation, vp_timer = False, vp_error = None\<rparr> in
      VRClient_SendRequest ok req (c\<lparr>vc_lastReqId := reqId, vc_pendingReqs := um_put reqId req (vc_pendingReqs c)\<rparr>))"

definition VRClient_InvokeUnlogged :: "bool \<Rightarrow> int \<Rightarrow> string \<Rightarrow> 'cb \<Rightarrow> 'cb option \<Rightarrow> 'cb vr_client \<Rightarrow> 'cb vr_client" where
  "VRClient_InvokeUnlogged ok replicaIdx request continuation error_continuation c =
     (let reqId = vc_lastReqId c + 1; c1 = c\<lparr>vc_lastReqId := reqId\<rparr> in
      if ok then
        (let req = \<lparr>vp_request = request, vp_clientReqId = reqId, vp_continuation = continuation, vp_timer = True,
             vp_error = Some error_continuation\<rparr> in
         (vc_emit (SentToReplica replicaIdx (vc_request request reqId c1)) c1)
           \<lparr>vc_pendingReqs := um_put reqId req (vc_pendingReqs c1)\<rparr>)
      else c1)"

definition VRClient_InvokeUnloggedAll :: "string \<Rightarrow> 'cb \<Rightarrow> 'cb option \<Rightarrow> 'cb vr_client \<Rightarrow> 'cb vr_client outcome" where
  "VRClient_InvokeUnloggedAll request continuation error_continuation c = Inl Panicked"

definition VRClient_ResendRequest :: "bool \<Rightarrow> u64 \<Rightarrow> 'cb vr_client \<Rightarrow> 'cb vr_client" where
  "VRClient_ResendRequest ok reqId c =
     (case map_of (vc_pendingReqs c) reqId of None \<Rightarrow> c | Some req \<Rightarrow> VRClient_SendRequest ok req c)"

text \<open>\<open>HandleReply\<close> and \<open>HandleUnloggedReply\<close> do the same: the continuation of the request is called once.\<close>

definition VRClient_HandleReply :: "u64 \<Rightarrow> string \<Rightarrow> 'cb vr_client \<Rightarrow> 'cb vr_client" where
  "VRClient_HandleReply reqId reply c =
     (case map_of (vc_pendingReqs c) reqId of
        None \<Rightarrow> c
      | Some req \<Rightarrow> vc_emit (Continued (vp_continuation req) (vp_request req) reply)
          (c\<lparr>vc_pendingReqs := um_erase reqId (vc_pendingReqs c)\<rparr>))"

definition VRClient_HandleUnloggedReply :: "u64 \<Rightarrow> string \<Rightarrow> 'cb vr_client \<Rightarrow> 'cb vr_client" where
  "VRClient_HandleUnloggedReply reqId reply c =
     (case map_of (vc_pendingReqs c) reqId of
        None \<Rightarrow> c
      | Some req \<Rightarrow> vc_emit (Continued (vp_continuation req) (vp_request req) reply)
          (c\<lparr>vc_pendingReqs := um_erase reqId (vc_pendingReqs c)\<rparr>))"

text \<open>The cast to \<open>PendingUnloggedRequest\<close> is undefined for another kind of request.\<close>

definition VRClient_UnloggedRequestTimeoutCallback :: "u64 \<Rightarrow> 'cb vr_client \<Rightarrow> 'cb vr_client outcome" where
  "VRClient_UnloggedRequestTimeoutCallback reqId c =
     (case map_of (vc_pendingReqs c) reqId of
        None \<Rightarrow> Inr c
      | Some req \<Rightarrow>
          let c1 = c\<lparr>vc_pendingReqs := um_erase reqId (vc_pendingReqs c)\<rparr> in
          (case vp_error req of
             None \<Rightarrow> Inl UndefinedBehaviour
           | Some None \<Rightarrow> Inr c1
           | Some (Some e) \<Rightarrow> Inr (vc_emit (TimedOut e (vp_request req)) c1)))"

definition VRClient_ReceiveMessage :: "vr_message \<Rightarrow> 'cb vr_client \<Rightarrow> 'cb vr_client outcome" where
  "VRClient_ReceiveMessage m c =
     (case m of
        ReplyMessage r \<Rightarrow> Inr (VRClient_HandleReply (rp_clientreqid r) (rp_reply r) c)
      | UnloggedReplyMessage reply reqId \<Rightarrow> Inr (VRClient_HandleUnloggedReply reqId reply c)
      | _ \<Rightarrow> Inl Panicked)"

end
