(* ===== verification/VrClientProps.thy ===== *)
theory VrClientProps
  imports VrClient VrSafety
begin

text \<open>
  The client and the replicas together: the client table of a replica only ever grows,
  and what follows for a client with several requests under way.
\<close>

section \<open>The client table\<close>

declare UpdateClientTable_inv [simp del]

text \<open>The replica has seen a request of the client with this number or a later one.\<close>

definition seen :: "u64 \<Rightarrow> u64 \<Rightarrow> 'a vr_replica \<Rightarrow> bool" where
  "seen cid n r \<longleftrightarrow> (\<exists>e. map_of (r_clientTable r) cid = Some e \<and> n \<le> ct_lastReqId e)"

lemma seen_cong: "r_clientTable r' = r_clientTable r \<Longrightarrow> seen cid n r' = seen cid n r"
  by (simp add: seen_def)

lemma seen_frame [simp]:
  "seen cid n (emit e r) = seen cid n r"
  "seen cid n (r\<lparr>r_lastOp := op\<rparr>) = seen cid n r" "seen cid n (r\<lparr>r_log := lg\<rparr>) = seen cid n r"
  "seen cid n (r\<lparr>r_app := a\<rparr>) = seen cid n r" "seen cid n (r\<lparr>r_status := st\<rparr>) = seen cid n r"
  "seen cid n (r\<lparr>r_lastCommitted := op\<rparr>) = seen cid n r" "seen cid n (r\<lparr>r_lastPrepare := p\<rparr>) = seen cid n r"
  "seen cid n (r\<lparr>r_lastBatchEnd := op\<rparr>) = seen cid n r" "seen cid n (r\<lparr>r_pendingPrepares := pp\<rparr>) = seen cid n r"
  "seen cid n (r\<lparr>r_lastRSTView := v\<rparr>) = seen cid n r" "seen cid n (r\<lparr>r_lastRSTOpnum := v\<rparr>) = seen cid n r"
  "seen cid n (r\<lparr>r_clientAddresses := ca\<rparr>) = seen cid n r" "seen cid n (r\<lparr>r_view := v\<rparr>) = seen cid n r"
  "seen cid n (r\<lparr>r_viewChangeTimeout := b\<rparr>) = seen cid n r" "seen cid n (r\<lparr>r_nullCommitTimeout := b\<rparr>) = seen cid n r"
  "seen cid n (r\<lparr>r_resendPrepareTimeout := b\<rparr>) = seen cid n r" "seen cid n (r\<lparr>r_closeBatchTimeout := b\<rparr>) = seen cid n r"
  "seen cid n (r\<lparr>r_prepareOKQuorum := q\<rparr>) = seen cid n r" "seen cid n (r\<lparr>r_startViewChangeQuorum := q1\<rparr>) = seen cid n r"
  "seen cid n (r\<lparr>r_doViewChangeQuorum := q2\<rparr>) = seen cid n r"
  by (simp_all add: seen_def emit_def)

lemma seen_ct_set:
  assumes "seen cid n r" and "ct_lastReqId (ct_ref r i) \<le> ct_lastReqId e"
  shows "seen cid n (ct_set i e r)"
  using assms by (auto simp: seen_def ct_set_def ct_ref_def)

lemma UpdateClientTable_entry:
  assumes "UpdateClientTable req r = Inr r'"
  obtains e where "r' = ct_set (rq_clientid req) e r" and "ct_lastReqId (ct_ref r (rq_clientid req)) \<le> ct_lastReqId e"
    and "ct_lastReqId e = rq_clientreqid req"
proof -
  let ?e = "ct_ref r (rq_clientid req)"
  have le: "ct_lastReqId ?e \<le> rq_clientreqid req" and r': "r' = ct_set (rq_clientid req)
      (if ct_lastReqId ?e = rq_clientreqid req then ?e
       else ?e\<lparr>ct_lastReqId := rq_clientreqid req, ct_replied := False, ct_reply := empty_reply\<rparr>) r"
    using assms by (simp_all add: UpdateClientTable_def Let_def)
  show thesis by (rule that [OF r']) (use le in simp_all)
qed

lemma UpdateClientTable_seen: "UpdateClientTable req r = Inr r' \<Longrightarrow> seen cid n r \<Longrightarrow> seen cid n r'"
  by (erule UpdateClientTable_entry) (simp add: seen_ct_set)

lemma UpdateClientTable_sees: "UpdateClientTable req r = Inr r' \<Longrightarrow> seen (rq_clientid req) (rq_clientreqid req) r'"
  by (erule UpdateClientTable_entry) (simp add: seen_def ct_set_def)

lemma commit_next_seen: "commit_next app r = Inr r' \<Longrightarrow> seen cid n r \<Longrightarrow> seen cid n r'"
  by (auto simp: commit_next_def Let_def intro!: seen_ct_set split: option.splits prod.splits if_splits)

lemma commit_times_seen: "commit_times k app r = Inr r' \<Longrightarrow> seen cid n r \<Longrightarrow> seen cid n r'"
  by (induction k arbitrary: r) (auto dest: commit_next_seen)

lemma CommitUpTo_seen: "CommitUpTo app op r = Inr r' \<Longrightarrow> seen cid n r \<Longrightarrow> seen cid n r'"
  by (auto simp: CommitUpTo_def dest: commit_times_seen)

lemma log_append_seen: "log_append vs req r = Inr r' \<Longrightarrow> seen cid n r' = seen cid n r"
  by (auto simp: log_append_def)

lemma SendPrepareOKs_seen:
  assumes "SendPrepareOKs cf old r = Inr r'" and "seen cid n r"
  shows "seen cid n r'"
  using assms unfolding SendPrepareOKs_def Let_def
  by (rule foldE_invariant [where I = "seen cid n"])
    (auto simp: prepare_ok_def split: if_splits option.splits elim!: UpdateClientTable_seen)

lemma CloseBatch_seen: "CloseBatch cf r = Inr r' \<Longrightarrow> seen cid n r' = seen cid n r"
  by (auto simp: CloseBatch_def Let_def)

lemma EnterView_seen [simp]: "seen cid n (EnterView cf v r) = seen cid n r"
  by (simp add: EnterView_def Let_def)

lemma StartViewChange_seen [simp]: "seen cid n (StartViewChange cf v r) = seen cid n r"
  by (simp add: StartViewChange_def)

lemma RequestStateTransfer_seen [simp]: "seen cid n (RequestStateTransfer r) = seen cid n r"
  by (simp add: RequestStateTransfer_def)

lemma prepare_requests_seen:
  "prepare_requests v reqs op r = Inr (op', r') \<Longrightarrow> seen cid n r \<Longrightarrow> seen cid n r'"
proof (induction v reqs op r rule: prepare_requests.induct)
  case (2 v req reqs op r)
  then show ?case
    by (auto simp: Let_def split: if_splits dest!: log_append_seen intro: UpdateClientTable_seen)
qed simp

lemma HandleRequest_new_seen:
  assumes "HandleRequest_new cf app remote req r = Inr r'"
  shows "seen cid n r \<Longrightarrow> seen cid n r'" and "seen (rq_clientid req) (rq_clientreqid req) r'"
proof -
  from assms obtain r1 where r1: "UpdateClientTable req r = Inr r1" by (auto simp: HandleRequest_new_def)
  have "seen cid n r1 \<longrightarrow> seen cid n r'" for cid n
    using assms r1 by (auto simp: HandleRequest_new_def Let_def dest!: log_append_seen intro!: seen_ct_set
        simp: CloseBatch_seen split: prod.splits if_splits)
  then show "seen cid n r \<Longrightarrow> seen cid n r'" and "seen (rq_clientid req) (rq_clientreqid req) r'"
    using UpdateClientTable_seen [OF r1] UpdateClientTable_sees [OF r1] by blast+
qed

lemma HandleRequest_seen:
  assumes "HandleRequest cf app remote req r = Inr r'" and "seen cid n r"
  shows "seen cid n r'"
proof -
  let ?r = "r\<lparr>r_clientAddresses := um_put (rq_clientid req) remote (um_erase (rq_clientid req) (r_clientAddresses r))\<rparr>"
  have "r' = r \<or> r' = ?r \<or> (\<exists>m. r' = emit (Send (ToAddress remote) m) ?r) \<or>
    HandleRequest_new cf app remote req ?r = Inr r'"
    using assms(1) by (auto simp: HandleRequest_def Let_def split: if_splits option.splits)
  then show ?thesis using HandleRequest_new_seen(1) [of cf app remote req ?r r' cid n] assms(2) by auto
qed

lemma HandleUnloggedRequest_seen [simp]: "seen cid n (HandleUnloggedRequest app remote req r) = seen cid n r"
  by (simp add: HandleUnloggedRequest_def split: prod.split)

lemma HandlePrepare_seen: "HandlePrepare cf remote msg r = Inr r' \<Longrightarrow> seen cid n r \<Longrightarrow> seen cid n r'"
  by (auto simp: HandlePrepare_def Let_def add_pending_def prepare_ok_def split: if_splits elim!: prepare_requests_seen)

lemma HandlePrepareOK_seen: "HandlePrepareOK cf app msg r = Inr r' \<Longrightarrow> seen cid n r \<Longrightarrow> seen cid n r'"
  by (auto simp: HandlePrepareOK_def Let_def split: if_splits option.splits prod.splits elim!: CommitUpTo_seen)

lemma HandleCommit_seen: "HandleCommit cf app v op r = Inr r' \<Longrightarrow> seen cid n r \<Longrightarrow> seen cid n r'"
  by (auto simp: HandleCommit_def Let_def split: if_splits elim!: CommitUpTo_seen)

lemma HandleRequestStateTransfer_seen:
  "HandleRequestStateTransfer remote v op r = Inr r' \<Longrightarrow> seen cid n r \<Longrightarrow> seen cid n r'"
  by (auto simp: HandleRequestStateTransfer_def split: if_splits)

lemma transfer_entry_seen:
  "transfer_entry m (r, old) = Inr (r', old') \<Longrightarrow> seen cid n r' = seen cid n r"
  by (auto simp: transfer_entry_def Let_def split: if_splits option.splits dest!: log_append_seen)

lemma HandleStateTransfer_seen:
  assumes "HandleStateTransfer cf app msg r = Inr r'" and "seen cid n r"
  shows "seen cid n r'"
proof (cases "st_view msg < r_view r")
  case True
  then show ?thesis using assms by (simp add: HandleStateTransfer_def)
next
  case False
  with assms(1) obtain r1 old r3 r4 where
    r1: "foldE transfer_entry (st_entries msg) (r, r_lastOp r) = Inr (r1, old)"
    and r3: "CommitUpTo app (st_opnum msg) (if st_view msg > r_view r1 then EnterView cf (st_view msg) r1 else r1) = Inr r3"
    and r4: "SendPrepareOKs cf old r3 = Inr r4" and r': "r' = r4\<lparr>r_pendingPrepares := []\<rparr>"
    by (auto simp: HandleStateTransfer_def Let_def)
  have "seen cid n (fst (r1, old))"
    using r1 by (rule foldE_invariant [where I = "\<lambda>x. seen cid n (fst x)"]) (auto simp: assms(2) elim!: transfer_entry_seen [THEN iffD2])
  then have "seen cid n (if st_view msg > r_view r1 then EnterView cf (st_view msg) r1 else r1)" by simp
  from SendPrepareOKs_seen [OF r4 CommitUpTo_seen [OF r3 this]] r' show ?thesis by simp
qed

lemma HandleStartViewChange_seen: "HandleStartViewChange cf msg r = Inr r' \<Longrightarrow> seen cid n r \<Longrightarrow> seen cid n r'"
  by (auto simp: HandleStartViewChange_def Let_def split: if_splits option.splits prod.splits)

lemma install_entries_seen: "install_entries same op es r = Inr r' \<Longrightarrow> seen cid n r' = seen cid n r"
  by (auto simp: install_entries_def split: list.splits if_splits)

lemma lead_new_view_seen:
  "lead_new_view cf app v op latest ms r = Inr r' \<Longrightarrow> seen cid n r \<Longrightarrow> seen cid n r'"
  by (auto simp: lead_new_view_def Let_def split: option.splits prod.splits elim!: CommitUpTo_seen)

lemma HandleDoViewChange_seen:
  "HandleDoViewChange dead cf app msg r = Inr r' \<Longrightarrow> seen cid n r \<Longrightarrow> seen cid n r'"
  by (auto simp: HandleDoViewChange_def Let_def install_entries_seen split: if_splits option.splits prod.splits
      elim!: lead_new_view_seen)

lemma HandleStartView_seen:
  "HandleStartView cf app msg r = Inr r' \<Longrightarrow> seen cid n r \<Longrightarrow> seen cid n r'"
  by (auto simp: HandleStartView_def Let_def install_entries_seen split: if_splits elim!: CommitUpTo_seen SendPrepareOKs_seen)

lemma ReceiveMessage_seen: "ReceiveMessage dead cf app remote m r = Inr r' \<Longrightarrow> seen cid n r \<Longrightarrow> seen cid n r'"
  by (cases m) (auto simp: ReceiveMessage_def dest: HandleRequest_seen HandlePrepare_seen HandlePrepareOK_seen
      HandleCommit_seen HandleRequestStateTransfer_seen HandleStateTransfer_seen HandleStartViewChange_seen
      HandleDoViewChange_seen HandleStartView_seen)

lemma OnTimer_seen: "OnTimer cf t r = Inr r' \<Longrightarrow> seen cid n r \<Longrightarrow> seen cid n r'"
  by (cases t) (auto simp: OnTimer_def SendNullCommit_def ResendPrepare_def CloseBatch_seen)

lemma vr_step_seen: "vr_step dead cf app r r' \<Longrightarrow> seen cid n r \<Longrightarrow> seen cid n r'"
  by (induction rule: vr_step.induct) (auto dest: ReceiveMessage_seen OnTimer_seen)

lemma vr_steps_seen: "(vr_step dead cf app)\<^sup>*\<^sup>* r r' \<Longrightarrow> seen cid n r \<Longrightarrow> seen cid n r'"
  by (induction rule: rtranclp_induct) (auto dest: vr_step_seen)

lemma leader_sees_request:
  assumes "HandleRequest cf app remote req r = Inr r'" and "r_status r = STATUS_NORMAL" and "AmLeader cf r"
  shows "seen (rq_clientid req) (rq_clientreqid req) r'"
proof -
  let ?r = "r\<lparr>r_clientAddresses := um_put (rq_clientid req) remote (um_erase (rq_clientid req) (r_clientAddresses r))\<rparr>"
  have "HandleRequest_new cf app remote req ?r = Inr r' \<or>
    seen (rq_clientid req) (rq_clientreqid req) r \<and> r_clientTable r' = r_clientTable r"
    using assms by (auto simp: HandleRequest_def Let_def seen_def split: if_splits option.splits)
  then show ?thesis using HandleRequest_new_seen(2) seen_cong by blast
qed

lemma old_request_ignored:
  assumes "seen (rq_clientid req) n r" and "rq_clientreqid req < n"
  shows "\<exists>r'. HandleRequest cf app remote req r = Inr r' \<and> r_log r' = r_log r \<and> r_app r' = r_app r \<and> r_trace r' = r_trace r"
  using assms by (auto simp: HandleRequest_def Let_def seen_def)

section \<open>The client\<close>

lemma VRClient_Invoke_sends:
  "vc_trace (VRClient_Invoke True op k c) = vc_trace c @ [SentToGroup (vc_request op (vc_lastReqId c + 1) c)]"
  by (simp add: VRClient_Invoke_def VRClient_SendRequest_def Let_def vc_emit_def vc_request_def)

text \<open>An answer calls the continuation of its request, and only the first answer does.\<close>

lemma VRClient_answers_once:
  assumes "map_of (vc_pendingReqs c) i = Some req"
  shows "vc_trace (VRClient_HandleReply i reply c) = vc_trace c @ [Continued (vp_continuation req) (vp_request req) reply]"
    and "VRClient_HandleReply i reply' (VRClient_HandleReply i reply c) = VRClient_HandleReply i reply c"
  using assms by (simp_all add: VRClient_HandleReply_def vc_emit_def)



end
