(* ===== verification/WaitDie.thy ===== *)
theory WaitDie
  imports Transactions
begin

text \<open>
  \<open>src/store/strongstore/waitdie.{h,cc}\<close>: the alternative to the wound-wait locks. A
  request that cannot be granted waits if its transaction is older than what it would
  wait for, and dies otherwise. Several readers may share one \<open>Waiter\<close>, so the waiters
  are objects in a store of the lock, and \<open>waiters_\<close> maps a transaction to the number
  of its object.
\<close>

datatype wd_lock_state = UNLOCKED | LOCKED_FOR_READ | LOCKED_FOR_WRITE | LOCKED_FOR_READ_WRITE

record wd_waiter =
  dw_waiters :: "txn_id uset"
  dw_min_waiter :: timestamp
  dw_waiting_for :: timestamp
  dw_write :: bool
  dw_read :: bool

record wd_lock =
  wl_state :: wd_lock_state
  wl_holders :: "txn_id uset"
  wl_wait_q :: "txn_id list"
  wl_waiters :: "(txn_id, nat) umap"
  wl_min_holder :: timestamp
  wl_objects :: "wd_waiter list"

definition WD_Lock_init :: wd_lock where
  "WD_Lock_init = \<lparr>wl_state = UNLOCKED, wl_holders = [], wl_wait_q = [], wl_waiters = [],
     wl_min_holder = Timestamp_MAX, wl_objects = []\<rparr>"

section \<open>Waiters\<close>

definition WD_add_waiter :: "txn_id \<Rightarrow> timestamp \<Rightarrow> wd_waiter \<Rightarrow> wd_waiter" where
  "WD_add_waiter t ts w = w\<lparr>dw_waiters := us_add t (dw_waiters w), dw_min_waiter := min (dw_min_waiter w) ts\<rparr>"

definition WD_remove_waiter :: "txn_id \<Rightarrow> wd_waiter \<Rightarrow> wd_waiter" where
  "WD_remove_waiter t w = w\<lparr>dw_waiters := us_erase t (dw_waiters w)\<rparr>"

definition WD_Waiter_init :: "bool \<Rightarrow> bool \<Rightarrow> txn_id \<Rightarrow> timestamp \<Rightarrow> timestamp \<Rightarrow> wd_waiter" where
  "WD_Waiter_init r w t ts waiting_for =
     WD_add_waiter t ts \<lparr>dw_waiters = [], dw_min_waiter = Timestamp_MAX, dw_waiting_for = waiting_for, dw_write = w, dw_read = r\<rparr>"

text \<open>The waiter of a transaction, and a change of that object.\<close>

definition wd_waiter_of :: "wd_lock \<Rightarrow> txn_id \<Rightarrow> wd_waiter option" where
  "wd_waiter_of l t = map_option ((!) (wl_objects l)) (map_of (wl_waiters l) t)"

definition wd_update :: "txn_id \<Rightarrow> (wd_waiter \<Rightarrow> wd_waiter) \<Rightarrow> wd_lock \<Rightarrow> wd_lock" where
  "wd_update t f l =
     (case map_of (wl_waiters l) t of
        None \<Rightarrow> l
      | Some i \<Rightarrow> l\<lparr>wl_objects := (wl_objects l)[i := f (wl_objects l ! i)]\<rparr>)"

definition wd_erase :: "txn_id \<Rightarrow> wd_lock \<Rightarrow> wd_lock" where
  "wd_erase t l = l\<lparr>wl_waiters := um_erase t (wl_waiters l)\<rparr>"

text \<open>\<open>AddReadWaiter\<close>, \<open>AddWriteWaiter\<close> and \<open>AddReadWriteWaiter\<close> differ in the two flags.\<close>

definition wd_new_waiter :: "bool \<Rightarrow> bool \<Rightarrow> txn_id \<Rightarrow> timestamp \<Rightarrow> timestamp \<Rightarrow> wd_lock \<Rightarrow> wd_lock" where
  "wd_new_waiter r w t ts waiting_for l =
     l\<lparr>wl_objects := wl_objects l @ [WD_Waiter_init r w t ts waiting_for],
       wl_waiters := um_emplace t (length (wl_objects l)) (wl_waiters l),
       wl_wait_q := wl_wait_q l @ [t]\<rparr>"

definition WD_AddReadWaiter :: "txn_id \<Rightarrow> timestamp \<Rightarrow> timestamp \<Rightarrow> wd_lock \<Rightarrow> wd_lock" where
  "WD_AddReadWaiter = wd_new_waiter True False"

definition WD_AddWriteWaiter :: "txn_id \<Rightarrow> timestamp \<Rightarrow> timestamp \<Rightarrow> wd_lock \<Rightarrow> wd_lock" where
  "WD_AddWriteWaiter = wd_new_waiter False True"

definition WD_AddReadWriteWaiter :: "txn_id \<Rightarrow> timestamp \<Rightarrow> timestamp \<Rightarrow> wd_lock \<Rightarrow> wd_lock" where
  "WD_AddReadWriteWaiter = wd_new_waiter True True"

section \<open>Waiting or dying\<close>

text \<open>The loops that pop queue entries without a waiter, from the back and from the front.\<close>

definition wd_trim_back :: "wd_lock \<Rightarrow> wd_lock" where
  "wd_trim_back l = l\<lparr>wl_wait_q := rev (dropWhile (\<lambda>t. \<not> um_has (wl_waiters l) t) (rev (wl_wait_q l)))\<rparr>"

definition wd_trim_front :: "wd_lock \<Rightarrow> wd_lock" where
  "wd_trim_front l = l\<lparr>wl_wait_q := dropWhile (\<lambda>t. \<not> um_has (wl_waiters l) t) (wl_wait_q l)\<rparr>"

definition WD_isWriteNext :: "wd_lock \<Rightarrow> bool \<times> wd_lock" where
  "WD_isWriteNext l0 =
     (let l = wd_trim_front l0 in
      (case wl_wait_q l of
         [] \<Rightarrow> False
       | t # _ \<Rightarrow> (case wd_waiter_of l t of None \<Rightarrow> False | Some w \<Rightarrow> dw_write w), l))"

definition WD_TryReadWait :: "txn_id \<Rightarrow> timestamp \<Rightarrow> wd_lock \<Rightarrow> (bool \<times> wd_lock) outcome" where
  "WD_TryReadWait requester ts l0 =
     (case wd_waiter_of l0 requester of
        Some w \<Rightarrow>
          if dw_read w then Inr (True, l0)
          else if dw_write w then Inr (True, wd_update requester (\<lambda>w. w\<lparr>dw_read := True\<rparr>) l0)
          else Inl NotReachable
      | None \<Rightarrow>
          let l = wd_trim_back l0 in
          if wl_wait_q l = [] then
            (if ts < wl_min_holder l then Inr (True, WD_AddReadWaiter requester ts (wl_min_holder l) l) else Inr (False, l))
          else
            let b = last (wl_wait_q l) in
            (case wd_waiter_of l b of
               None \<Rightarrow> Inl UndefinedBehaviour
             | Some back \<Rightarrow>
                 if \<not> dw_write back \<and> ts < dw_waiting_for back then
                   let l1 = wd_update b (WD_add_waiter requester ts) l in
                   Inr (True, l1\<lparr>wl_waiters := um_emplace requester (the (map_of (wl_waiters l) b)) (wl_waiters l1)\<rparr>)
                 else if dw_write back \<and> ts < dw_min_waiter back then
                   Inr (True, WD_AddReadWaiter requester ts (dw_min_waiter back) l)
                 else Inr (False, l)))"

definition WD_TryWriteWait :: "txn_id \<Rightarrow> timestamp \<Rightarrow> wd_lock \<Rightarrow> (bool \<times> wd_lock) outcome" where
  "WD_TryWriteWait requester ts l0 =
     (let queue = (\<lambda>add_read l1.
        let l = wd_trim_back l1 in
        if wl_wait_q l = [] then
          (if ts \<le> wl_min_holder l then Inr (True, WD_AddWriteWaiter requester ts (wl_min_holder l) l) else Inr (False, l))
        else
          (case wd_waiter_of l (last (wl_wait_q l)) of
             None \<Rightarrow> Inl UndefinedBehaviour
           | Some back \<Rightarrow>
               if ts \<le> dw_min_waiter back then
                 Inr (True, (if add_read then WD_AddReadWriteWaiter else WD_AddWriteWaiter) requester ts (dw_min_waiter back) l)
               else Inr (False, l))) in
      case wd_waiter_of l0 requester of
        None \<Rightarrow> queue False l0
      | Some w \<Rightarrow>
          if dw_write w then Inr (True, l0)
          else if dw_read w \<and> length (dw_waiters w) = 1 then Inr (True, wd_update requester (\<lambda>w. w\<lparr>dw_write := True\<rparr>) l0)
          else if dw_read w then queue True (wd_erase requester (wd_update requester (WD_remove_waiter requester) l0))
          else Inl NotReachable)"

section \<open>Acquiring\<close>

definition WD_TryAcquireReadLock :: "txn_id \<Rightarrow> timestamp \<Rightarrow> wd_lock \<Rightarrow> (reply_code \<times> wd_lock) outcome" where
  "WD_TryAcquireReadLock requester ts l =
     (if wl_state l = UNLOCKED then
        assertE (length (wl_holders l) = 0) (assertE (wl_min_holder l = Timestamp_MAX)
          (Inr (REPLY_OK, l\<lparr>wl_state := LOCKED_FOR_READ, wl_holders := us_add requester (wl_holders l), wl_min_holder := ts\<rparr>)))
      else if requester \<in> set (wl_holders l) then
        Inr (REPLY_OK, if wl_state l = LOCKED_FOR_WRITE then l\<lparr>wl_state := LOCKED_FOR_READ_WRITE\<rparr> else l)
      else
        let (write_next, l1) = (if wl_state l = LOCKED_FOR_READ then WD_isWriteNext l else (True, l)) in
        if wl_state l1 = LOCKED_FOR_READ \<and> \<not> write_next then
          Inr (REPLY_OK, l1\<lparr>wl_holders := us_add requester (wl_holders l1), wl_min_holder := min (wl_min_holder l1) ts\<rparr>)
        else bindE (WD_TryReadWait requester ts l1) (\<lambda>(wait, l2). Inr (if wait then REPLY_WAIT else REPLY_FAIL, l2)))"

definition WD_TryAcquireWriteLock :: "txn_id \<Rightarrow> timestamp \<Rightarrow> wd_lock \<Rightarrow> (reply_code \<times> wd_lock) outcome" where
  "WD_TryAcquireWriteLock requester ts l =
     (if wl_state l = UNLOCKED then
        assertE (length (wl_holders l) = 0) (assertE (wl_min_holder l = Timestamp_MAX)
          (Inr (REPLY_OK, l\<lparr>wl_state := LOCKED_FOR_WRITE, wl_holders := us_add requester (wl_holders l), wl_min_holder := ts\<rparr>)))
      else if length (wl_holders l) = 1 \<and> requester \<in> set (wl_holders l) then
        Inr (REPLY_OK, if wl_state l = LOCKED_FOR_READ then l\<lparr>wl_state := LOCKED_FOR_READ_WRITE\<rparr> else l)
      else bindE (WD_TryWriteWait requester ts l) (\<lambda>(wait, l2). Inr (if wait then REPLY_WAIT else REPLY_FAIL, l2)))"

section \<open>Releasing\<close>

text \<open>The loop of \<open>PopWaiter\<close> over the queue; the flag says whether the holders have changed.\<close>

fun WD_PopWaiter_loop :: "txn_id list \<Rightarrow> wd_lock \<Rightarrow> bool \<Rightarrow> wd_lock \<times> bool" where
  "WD_PopWaiter_loop [] l modified = (l\<lparr>wl_wait_q := []\<rparr>, modified)"
| "WD_PopWaiter_loop (next # q) l modified =
     (if length (wl_holders l) \<ge> 2 \<or> length (wl_holders l) = 1 \<and> next \<notin> set (wl_holders l)
      then (l\<lparr>wl_wait_q := next # q\<rparr>, modified)
      else case wd_waiter_of l next of
        None \<Rightarrow> WD_PopWaiter_loop q l modified
      | Some w \<Rightarrow>
          WD_PopWaiter_loop q
            (l\<lparr>wl_min_holder := dw_min_waiter w,
               wl_state := (if dw_write w \<and> next \<in> set (wl_holders l) then LOCKED_FOR_READ_WRITE
                 else if dw_read w \<and> dw_write w then LOCKED_FOR_READ_WRITE
                 else if dw_write w then LOCKED_FOR_WRITE else LOCKED_FOR_READ),
               wl_holders := dw_waiters w,
               wl_waiters := fold um_erase (dw_waiters w) (wl_waiters l)\<rparr>) True)"

definition WD_PopWaiter :: "wd_lock \<Rightarrow> bool \<times> wd_lock" where
  "WD_PopWaiter l0 =
     (let (l, modified) = WD_PopWaiter_loop (wl_wait_q l0) l0 False in
      (modified, if wl_holders l = [] then l\<lparr>wl_state := UNLOCKED, wl_min_holder := Timestamp_MAX\<rparr> else l))"

definition WD_pop_and_notify :: "wd_lock \<Rightarrow> txn_id uset \<Rightarrow> wd_lock \<times> txn_id uset" where
  "WD_pop_and_notify l notify =
     (let (modified, l1) = WD_PopWaiter l in (l1, if modified then us_add_all (wl_holders l1) notify else notify))"

definition WD_ReleaseRead_cleanup :: "txn_id \<Rightarrow> wd_lock \<Rightarrow> wd_lock" where
  "WD_ReleaseRead_cleanup holder l =
     (case wd_waiter_of l holder of
        None \<Rightarrow> l
      | Some w \<Rightarrow>
          if dw_write w then wd_update holder (\<lambda>w. w\<lparr>dw_read := False\<rparr>) l
          else if length (dw_waiters w) > 1 then wd_erase holder (wd_update holder (WD_remove_waiter holder) l)
          else wd_erase holder l)"

definition WD_ReleaseReadLock :: "txn_id \<Rightarrow> wd_lock \<Rightarrow> txn_id uset \<Rightarrow> wd_lock \<times> txn_id uset" where
  "WD_ReleaseReadLock holder l0 notify =
     (let l = WD_ReleaseRead_cleanup holder l0 in
      if holder \<in> set (wl_holders l) \<and> (wl_state l = LOCKED_FOR_READ \<or> wl_state l = LOCKED_FOR_READ_WRITE) then
        (if wl_state l = LOCKED_FOR_READ_WRITE then (l\<lparr>wl_state := LOCKED_FOR_WRITE\<rparr>, notify)
         else WD_pop_and_notify (l\<lparr>wl_holders := us_erase holder (wl_holders l)\<rparr>) notify)
      else (l, notify))"

definition WD_ReleaseWrite_cleanup :: "txn_id \<Rightarrow> wd_lock \<Rightarrow> wd_lock" where
  "WD_ReleaseWrite_cleanup holder l =
     (case wd_waiter_of l holder of
        None \<Rightarrow> l
      | Some w \<Rightarrow> if dw_read w then wd_update holder (\<lambda>w. w\<lparr>dw_write := False\<rparr>) l else wd_erase holder l)"

definition WD_ReleaseWriteLock :: "txn_id \<Rightarrow> wd_lock \<Rightarrow> txn_id uset \<Rightarrow> wd_lock \<times> txn_id uset" where
  "WD_ReleaseWriteLock holder l0 notify =
     (let l = WD_ReleaseWrite_cleanup holder l0 in
      if holder \<in> set (wl_holders l) \<and> (wl_state l = LOCKED_FOR_WRITE \<or> wl_state l = LOCKED_FOR_READ_WRITE) then
        (if wl_state l = LOCKED_FOR_READ_WRITE then (l\<lparr>wl_state := LOCKED_FOR_READ\<rparr>, notify)
         else WD_pop_and_notify (l\<lparr>wl_holders := us_erase holder (wl_holders l)\<rparr>) notify)
      else (l, notify))"

section \<open>The lock table\<close>

record wait_die =
  wdt_locks :: "(key, wd_lock) umap"
  wdt_waiting :: "(txn_id, key uset) umap"

definition WaitDie_init :: wait_die where
  "WaitDie_init = \<lparr>wdt_locks = [], wdt_waiting = []\<rparr>"

definition wd_lock_at :: "wait_die \<Rightarrow> key \<Rightarrow> wd_lock" where
  "wd_lock_at s k = (case map_of (wdt_locks s) k of None \<Rightarrow> WD_Lock_init | Some l \<Rightarrow> l)"

definition WD_GetLockState :: "wait_die \<Rightarrow> key \<Rightarrow> wd_lock_state" where
  "WD_GetLockState s k = (case map_of (wdt_locks s) k of None \<Rightarrow> UNLOCKED | Some l \<Rightarrow> wl_state l)"

definition WD_HasReadLock :: "wait_die \<Rightarrow> key \<Rightarrow> txn_id \<Rightarrow> bool" where
  "WD_HasReadLock s k requester =
     (case map_of (wdt_locks s) k of
        None \<Rightarrow> False
      | Some l \<Rightarrow>
          if wl_state l \<noteq> LOCKED_FOR_READ \<and> wl_state l \<noteq> LOCKED_FOR_READ_WRITE then False
          else requester \<in> set (wl_holders l))"

definition wd_mark_waiting :: "reply_code \<Rightarrow> txn_id \<Rightarrow> key \<Rightarrow> wait_die \<Rightarrow> wait_die" where
  "wd_mark_waiting ret requester k s =
     (if ret = REPLY_WAIT
      then s\<lparr>wdt_waiting := um_put requester (us_add k (fst (um_ref [] (wdt_waiting s) requester))) (wdt_waiting s)\<rparr>
      else s)"

definition WD_LockForRead :: "key \<Rightarrow> txn_id \<Rightarrow> timestamp \<Rightarrow> wait_die \<Rightarrow> (reply_code \<times> wait_die) outcome" where
  "WD_LockForRead k requester ts s =
     bindE (WD_TryAcquireReadLock requester ts (wd_lock_at s k)) (\<lambda>(ret, l).
       Inr (ret, wd_mark_waiting ret requester k (s\<lparr>wdt_locks := um_put k l (wdt_locks s)\<rparr>)))"

definition WD_LockForWrite :: "key \<Rightarrow> txn_id \<Rightarrow> timestamp \<Rightarrow> wait_die \<Rightarrow> (reply_code \<times> wait_die) outcome" where
  "WD_LockForWrite k requester ts s =
     bindE (WD_TryAcquireWriteLock requester ts (wd_lock_at s k)) (\<lambda>(ret, l).
       Inr (ret, wd_mark_waiting ret requester k (s\<lparr>wdt_locks := um_put k l (wdt_locks s)\<rparr>)))"

definition WD_NotifyRW :: "key \<Rightarrow> txn_id \<Rightarrow> wait_die \<Rightarrow> bool \<times> wait_die" where
  "WD_NotifyRW k rw s =
     (let ks = us_erase k (fst (um_ref [] (wdt_waiting s) rw)) in
      if ks = [] then (True, s\<lparr>wdt_waiting := um_erase rw (wdt_waiting s)\<rparr>)
      else (False, s\<lparr>wdt_waiting := um_put rw ks (wdt_waiting s)\<rparr>))"

fun WD_NotifyRWs :: "key \<Rightarrow> txn_id uset \<Rightarrow> wait_die \<Rightarrow> txn_id uset \<times> wait_die" where
  "WD_NotifyRWs k [] s = ([], s)"
| "WD_NotifyRWs k (t # ts) s =
     (let (ready, s1) = WD_NotifyRW k t s; (ts', s2) = WD_NotifyRWs k ts s1 in (if ready then t # ts' else ts', s2))"

definition wd_release :: "(txn_id \<Rightarrow> wd_lock \<Rightarrow> txn_id uset \<Rightarrow> wd_lock \<times> txn_id uset) \<Rightarrow> key \<Rightarrow> txn_id \<Rightarrow>
    txn_id uset \<Rightarrow> wait_die \<Rightarrow> txn_id uset \<times> wait_die" where
  "wd_release rel k holder notify s =
     (case map_of (wdt_locks s) k of
        None \<Rightarrow> (notify, s)
      | Some l \<Rightarrow>
          let (l', notify') = rel holder l notify in
          WD_NotifyRWs k notify' (snd (WD_NotifyRW k holder (s\<lparr>wdt_locks := um_put k l' (wdt_locks s)\<rparr>))))"

definition WD_ReleaseForRead :: "key \<Rightarrow> txn_id \<Rightarrow> txn_id uset \<Rightarrow> wait_die \<Rightarrow> txn_id uset \<times> wait_die" where
  "WD_ReleaseForRead = wd_release WD_ReleaseReadLock"

definition WD_ReleaseForWrite :: "key \<Rightarrow> txn_id \<Rightarrow> txn_id uset \<Rightarrow> wait_die \<Rightarrow> txn_id uset \<times> wait_die" where
  "WD_ReleaseForWrite = wd_release WD_ReleaseWriteLock"

end
