(* ===== verification/WaitDieProps.thy ===== *)
theory WaitDieProps
  imports WaitDie
begin

text \<open>
  The wait-die locks: their invariant, the exclusion of writers, that every request
  returns, and the readers that an aborted reader leaves behind.
\<close>

section \<open>Invariant\<close>

text \<open>
  A live waiter object is one \<open>waiters_\<close> points to. Its transactions are exactly
  those \<open>waiters_\<close> maps to it, at least one, and only one when it waits for a write.
\<close>

definition wd_object_ok :: "wd_lock \<Rightarrow> nat \<Rightarrow> bool" where
  "wd_object_ok l i \<longleftrightarrow>
     (let w = wl_objects l ! i in
      i < length (wl_objects l) \<and> distinct (dw_waiters w) \<and> (\<forall>u \<in> set (dw_waiters w). map_of (wl_waiters l) u = Some i) \<and>
      (dw_write w \<longrightarrow> length (dw_waiters w) = 1) \<and> (dw_write w \<or> dw_read w))"

definition wd_objects_ok :: "wd_lock \<Rightarrow> bool" where
  "wd_objects_ok l \<longleftrightarrow>
     (\<forall>t i. map_of (wl_waiters l) t = Some i \<longrightarrow> t \<in> set (dw_waiters (wl_objects l ! i)) \<and> wd_object_ok l i)"

definition wd_holders_ok :: "wd_lock \<Rightarrow> bool" where
  "wd_holders_ok l \<longleftrightarrow> distinct (wl_holders l) \<and> (wl_state l = UNLOCKED \<longleftrightarrow> wl_holders l = []) \<and>
     (wl_state l = UNLOCKED \<longrightarrow> wl_min_holder l = Timestamp_MAX) \<and>
     (wl_state l = LOCKED_FOR_WRITE \<or> wl_state l = LOCKED_FOR_READ_WRITE \<longrightarrow> length (wl_holders l) = 1)"

definition wd_inv :: "wd_lock \<Rightarrow> bool" where
  "wd_inv l \<longleftrightarrow> wd_objects_ok l \<and> wd_holders_ok l"

lemma wd_inv_init: "wd_inv WD_Lock_init"
  by (simp add: wd_inv_def wd_objects_ok_def wd_holders_ok_def WD_Lock_init_def)

lemma wd_objects_ok_frame [simp]:
  "wd_objects_ok (l\<lparr>wl_state := st\<rparr>) = wd_objects_ok l" "wd_objects_ok (l\<lparr>wl_holders := hs\<rparr>) = wd_objects_ok l"
  "wd_objects_ok (l\<lparr>wl_wait_q := q\<rparr>) = wd_objects_ok l" "wd_objects_ok (l\<lparr>wl_min_holder := ts\<rparr>) = wd_objects_ok l"
  by (simp_all add: wd_objects_ok_def wd_object_ok_def)

lemma wd_holders_ok_frame [simp]:
  "wd_holders_ok (l\<lparr>wl_wait_q := q\<rparr>) = wd_holders_ok l" "wd_holders_ok (l\<lparr>wl_waiters := ws\<rparr>) = wd_holders_ok l"
  "wd_holders_ok (l\<lparr>wl_objects := os\<rparr>) = wd_holders_ok l"
  by (simp_all add: wd_holders_ok_def)

lemma wd_waiter_ofE:
  assumes "wd_waiter_of l t = Some w"
  obtains i where "map_of (wl_waiters l) t = Some i" and "w = wl_objects l ! i"
  using assms by (auto simp: wd_waiter_of_def)

lemma wd_waiter_of_None: "wd_waiter_of l t = None \<longleftrightarrow> \<not> um_has (wl_waiters l) t"
  by (simp add: wd_waiter_of_def um_has_def)

section \<open>Steps of the queue\<close>

lemma wd_objects_okD:
  assumes "wd_objects_ok l" and "map_of (wl_waiters l) t = Some i"
  shows "i < length (wl_objects l)" "t \<in> set (dw_waiters (wl_objects l ! i))" "distinct (dw_waiters (wl_objects l ! i))"
    "\<And>u. u \<in> set (dw_waiters (wl_objects l ! i)) \<Longrightarrow> map_of (wl_waiters l) u = Some i"
    "dw_write (wl_objects l ! i) \<Longrightarrow> length (dw_waiters (wl_objects l ! i)) = 1"
    "dw_write (wl_objects l ! i) \<or> dw_read (wl_objects l ! i)"
  using assms unfolding wd_objects_ok_def wd_object_ok_def Let_def by blast+

lemma wd_update_flags_ok:
  assumes "wd_objects_ok l" and "\<And>w. dw_waiters (f w) = dw_waiters w"
    and "\<And>w. wd_waiter_of l t = Some w \<Longrightarrow> (dw_write (f w) \<longrightarrow> length (dw_waiters w) = 1) \<and> (dw_write (f w) \<or> dw_read (f w))"
  shows "wd_objects_ok (wd_update t f l)"
proof (cases "map_of (wl_waiters l) t")
  case None
  then show ?thesis using assms(1) by (simp add: wd_update_def)
next
  case (Some i)
  then have "(dw_write (f (wl_objects l ! i)) \<longrightarrow> length (dw_waiters (wl_objects l ! i)) = 1) \<and>
      (dw_write (f (wl_objects l ! i)) \<or> dw_read (f (wl_objects l ! i)))"
    using assms(3) [of "wl_objects l ! i"] by (simp add: wd_waiter_of_def)
  then have flags: "dw_write (f (wl_objects l ! i)) \<Longrightarrow> length (dw_waiters (wl_objects l ! i)) = 1"
      "dw_write (f (wl_objects l ! i)) \<or> dw_read (f (wl_objects l ! i))" by auto
  define l' where "l' = wd_update t f l"
  have ws: "wl_waiters l' = wl_waiters l" and os: "wl_objects l' = (wl_objects l)[i := f (wl_objects l ! i)]"
    using Some by (simp_all add: l'_def wd_update_def)
  have "u \<in> set (dw_waiters (wl_objects l' ! j)) \<and> wd_object_ok l' j" if u: "map_of (wl_waiters l) u = Some j" for u j
  proof (cases "j = i")
    case True
    then show ?thesis using wd_objects_okD(1-4) [OF assms(1) u] flags assms(2)
      by (simp add: wd_object_ok_def ws os Let_def)
  next
    case False
    then show ?thesis using wd_objects_okD [OF assms(1) u] by (simp add: wd_object_ok_def ws os Let_def)
  qed
  then show ?thesis by (simp add: wd_objects_ok_def l'_def [symmetric] ws)
qed

lemma wd_new_waiter_ok:
  assumes "wd_objects_ok l" and "\<not> um_has (wl_waiters l) t" and "r \<or> w"
  shows "wd_objects_ok (wd_new_waiter r w t ts due l)"
proof -
  define l' where "l' = wd_new_waiter r w t ts due l"
  let ?l = "l'" and ?n = "length (wl_objects l)"
  have t: "map_of (wl_waiters l) t = None" using assms(2) by (simp add: um_has_def)
  have ws: "map_of (wl_waiters ?l) = (map_of (wl_waiters l))(t \<mapsto> ?n)"
    using assms(2) by (simp add: l'_def wd_new_waiter_def um_emplace_def)
  have new: "wl_objects ?l ! ?n = WD_Waiter_init r w t ts due" and len: "length (wl_objects ?l) = Suc ?n"
    by (simp_all add: l'_def wd_new_waiter_def)
  have old: "wl_objects ?l ! i = wl_objects l ! i" if "i < ?n" for i using that by (simp add: l'_def wd_new_waiter_def nth_append)
  have "wd_object_ok ?l ?n" and mem: "t \<in> set (dw_waiters (wl_objects ?l ! ?n))"
    using assms(3) by (auto simp: wd_object_ok_def new len ws WD_Waiter_init_def WD_add_waiter_def Let_def)
  moreover have "u \<in> set (dw_waiters (wl_objects ?l ! i)) \<and> wd_object_ok ?l i" if u: "map_of (wl_waiters l) u = Some i" for u i
  proof -
    note D = wd_objects_okD [OF assms(1) u]
    have "map_of (wl_waiters l) v = Some i" if "v \<in> set (dw_waiters (wl_objects l ! i))" for v using D(4) that .
    then have "t \<notin> set (dw_waiters (wl_objects l ! i))" using t by auto
    then show ?thesis using D by (auto simp: wd_object_ok_def old len ws Let_def)
  qed
  ultimately show ?thesis by (auto simp: wd_objects_ok_def ws l'_def [symmetric])
qed

lemma wd_join_ok:
  assumes "wd_objects_ok l" and "\<not> um_has (wl_waiters l) t" and "wd_waiter_of l b = Some bw" and "\<not> dw_write bw"
  shows "wd_objects_ok ((wd_update b (WD_add_waiter t ts) l)
    \<lparr>wl_waiters := um_emplace t (the (map_of (wl_waiters l) b)) (wl_waiters (wd_update b (WD_add_waiter t ts) l))\<rparr>)"
    (is "wd_objects_ok ?lock")
proof -
  define l' where "l' = ?lock"
  let ?l = l'
  from assms(3) obtain i where i: "map_of (wl_waiters l) b = Some i" "bw = wl_objects l ! i" by (rule wd_waiter_ofE)
  have t: "map_of (wl_waiters l) t = None" using assms(2) by (simp add: um_has_def)
  note B = wd_objects_okD [OF assms(1) i(1)]
  have ws: "map_of (wl_waiters ?l) = (map_of (wl_waiters l))(t \<mapsto> i)"
    and os: "wl_objects ?l = (wl_objects l)[i := WD_add_waiter t ts (wl_objects l ! i)]"
    using assms(2) i by (simp_all add: l'_def wd_update_def um_emplace_def)
  have "wd_object_ok ?l i" using B assms(4) i(2)
    by (auto simp: wd_object_ok_def ws os WD_add_waiter_def distinct_insert Let_def)
  moreover have "t \<in> set (dw_waiters (wl_objects ?l ! i))" using B(1) by (simp add: os WD_add_waiter_def)
  moreover have "u \<in> set (dw_waiters (wl_objects ?l ! j)) \<and> wd_object_ok ?l j"
    if u: "map_of (wl_waiters l) u = Some j" for u j
  proof (cases "j = i")
    case True
    then show ?thesis using \<open>wd_object_ok ?l i\<close> wd_objects_okD(2) [OF assms(1) u] B(1) by (simp add: os WD_add_waiter_def)
  next
    case False
    note D = wd_objects_okD [OF assms(1) u]
    have "t \<notin> set (dw_waiters (wl_objects l ! j))" using D(4) t by auto
    then show ?thesis using D False by (auto simp: wd_object_ok_def ws os Let_def)
  qed
  ultimately show ?thesis by (auto simp: wd_objects_ok_def ws l'_def [symmetric])
qed

lemma wd_leave_ok:
  assumes "wd_objects_ok l" and "wd_waiter_of l t = Some w" and "\<not> dw_write w"
  shows "wd_objects_ok (wd_erase t (wd_update t (WD_remove_waiter t) l))"
    (is "wd_objects_ok ?lock")
proof -
  define l' where "l' = ?lock"
  let ?l = l'
  from assms(2) obtain i where i: "map_of (wl_waiters l) t = Some i" "w = wl_objects l ! i" by (rule wd_waiter_ofE)
  have ws: "map_of (wl_waiters ?l) = (map_of (wl_waiters l))(t := None)"
    and os: "wl_objects ?l = (wl_objects l)[i := WD_remove_waiter t (wl_objects l ! i)]"
    using i by (simp_all add: l'_def wd_update_def wd_erase_def)
  have "u \<in> set (dw_waiters (wl_objects ?l ! j)) \<and> wd_object_ok ?l j"
    if u: "map_of (wl_waiters l) u = Some j" "u \<noteq> t" for u j
  proof (cases "j = i")
    case True
    then show ?thesis using wd_objects_okD [OF assms(1) u(1)] u(2) assms(3) i(2)
      by (auto simp: wd_object_ok_def ws os WD_remove_waiter_def distinct_removeAll Let_def)
  next
    case False
    note D = wd_objects_okD [OF assms(1) u(1)]
    have "t \<notin> set (dw_waiters (wl_objects l ! j))" using D(4) i(1) False by auto
    then show ?thesis using D False by (auto simp: wd_object_ok_def ws os Let_def)
  qed
  then show ?thesis by (auto simp: wd_objects_ok_def ws l'_def [symmetric] split: if_splits)
qed

text \<open>Taking all transactions of one waiter out of the map.\<close>

lemma map_of_erase_all: "map_of (fold um_erase ks m) = (\<lambda>k. if k \<in> set ks then None else map_of m k)"
  by (induction ks arbitrary: m) auto

lemma wd_take_ok:
  assumes "wd_objects_ok l" and "map_of (wl_waiters l) t = Some i"
  shows "wd_objects_ok (l\<lparr>wl_waiters := fold um_erase (dw_waiters (wl_objects l ! i)) (wl_waiters l)\<rparr>)"
    (is "wd_objects_ok ?l")
proof -
  have ws: "map_of (wl_waiters ?l) = (\<lambda>u. if u \<in> set (dw_waiters (wl_objects l ! i)) then None else map_of (wl_waiters l) u)"
    by (simp add: map_of_erase_all)
  have "u \<in> set (dw_waiters (wl_objects l ! j)) \<and> wd_object_ok ?l j"
    if u: "map_of (wl_waiters l) u = Some j" "u \<notin> set (dw_waiters (wl_objects l ! i))" for u j
  proof -
    note D = wd_objects_okD [OF assms(1) u(1)] and T = wd_objects_okD [OF assms(1,2)]
    have "i \<noteq> j" using D(2) u(2) by auto
    then have "v \<notin> set (dw_waiters (wl_objects l ! i))" if "v \<in> set (dw_waiters (wl_objects l ! j))" for v
      using D(4) [OF that] T(4) by auto
    then show ?thesis using D by (auto simp: wd_object_ok_def map_of_erase_all Let_def)
  qed
  then show ?thesis by (auto simp: wd_objects_ok_def map_of_erase_all split: if_splits)
qed

lemma wd_erase_alone_ok:
  assumes "wd_objects_ok l" and "wd_waiter_of l t = Some w" and "length (dw_waiters w) \<le> 1"
  shows "wd_objects_ok (wd_erase t l)"
proof -
  from assms(2) obtain i where i: "map_of (wl_waiters l) t = Some i" "w = wl_objects l ! i" by (rule wd_waiter_ofE)
  have "t \<in> set (dw_waiters w)" using wd_objects_okD(2) [OF assms(1) i(1)] i(2) by simp
  with assms(3) have "dw_waiters (wl_objects l ! i) = [t]" using i(2) by (cases "dw_waiters w") auto
  with wd_take_ok [OF assms(1) i(1)] show ?thesis by (simp add: wd_erase_def)
qed

section \<open>Requests\<close>

lemma wd_trim_simps [simp]:
  "wl_state (wd_trim_back l) = wl_state l" "wl_holders (wd_trim_back l) = wl_holders l"
  "wl_waiters (wd_trim_back l) = wl_waiters l" "wl_objects (wd_trim_back l) = wl_objects l"
  "wl_min_holder (wd_trim_back l) = wl_min_holder l"
  "wl_state (wd_trim_front l) = wl_state l" "wl_holders (wd_trim_front l) = wl_holders l"
  "wl_waiters (wd_trim_front l) = wl_waiters l" "wl_objects (wd_trim_front l) = wl_objects l"
  "wl_min_holder (wd_trim_front l) = wl_min_holder l"
  "wd_objects_ok (wd_trim_back l) = wd_objects_ok l" "wd_objects_ok (wd_trim_front l) = wd_objects_ok l"
  "wd_waiter_of (wd_trim_back l) t = wd_waiter_of l t" "wd_waiter_of (wd_trim_front l) t = wd_waiter_of l t"
  by (simp_all add: wd_trim_back_def wd_trim_front_def wd_waiter_of_def)

lemma wd_frame_simps [simp]:
  "wl_state (wd_update t f l) = wl_state l" "wl_holders (wd_update t f l) = wl_holders l"
  "wl_min_holder (wd_update t f l) = wl_min_holder l" "wl_waiters (wd_update t f l) = wl_waiters l"
  "wl_state (wd_erase t l) = wl_state l" "wl_holders (wd_erase t l) = wl_holders l" "wl_min_holder (wd_erase t l) = wl_min_holder l"
  "wl_state (wd_new_waiter r w t ts due l) = wl_state l" "wl_holders (wd_new_waiter r w t ts due l) = wl_holders l"
  "wl_min_holder (wd_new_waiter r w t ts due l) = wl_min_holder l"
  by (simp_all add: wd_update_def wd_erase_def wd_new_waiter_def split: option.split)

text \<open>The holders, the state and their bound are the same.\<close>

definition wd_same :: "wd_lock \<Rightarrow> wd_lock \<Rightarrow> bool" where
  "wd_same l l' \<longleftrightarrow> wl_state l' = wl_state l \<and> wl_holders l' = wl_holders l \<and> wl_min_holder l' = wl_min_holder l"

lemma wd_same_holders_ok: "wd_same l l' \<Longrightarrow> wd_holders_ok l' = wd_holders_ok l"
  by (simp add: wd_same_def wd_holders_ok_def)

lemma dropWhile_last: "dropWhile P xs \<noteq> [] \<Longrightarrow> \<not> P (last (rev (dropWhile P xs)))"
  by (induction xs) (auto split: if_splits)

lemma wd_back_waits:
  assumes "wl_wait_q (wd_trim_back l) \<noteq> []"
  shows "um_has (wl_waiters l) (last (wl_wait_q (wd_trim_back l)))"
  using assms dropWhile_last [of "\<lambda>t. \<not> um_has (wl_waiters l) t" "rev (wl_wait_q l)"] by (simp add: wd_trim_back_def)

lemma wd_back_waiter:
  assumes "wl_wait_q (wd_trim_back l) \<noteq> []"
  obtains bw where "wd_waiter_of l (last (wl_wait_q (wd_trim_back l))) = Some bw"
  using wd_back_waits [OF assms] by (cases "wd_waiter_of l (last (wl_wait_q (wd_trim_back l)))") (auto simp: wd_waiter_of_None)

lemma WD_isWriteNext_ok:
  assumes "WD_isWriteNext l = (b, l')"
  shows "wd_same l l'" and "wl_waiters l' = wl_waiters l" and "wd_objects_ok l' = wd_objects_ok l"
  using assms by (auto simp: WD_isWriteNext_def wd_same_def Let_def)

lemma wd_readwrite: "wd_objects_ok l \<Longrightarrow> wd_waiter_of l t = Some w \<Longrightarrow> dw_write w \<or> dw_read w"
  by (elim wd_waiter_ofE) (use wd_objects_okD(6) in blast)

lemma WD_TryReadWait_returns:
  assumes "wd_objects_ok l"
  obtains b l' where "WD_TryReadWait t ts l = Inr (b, l')" and "wd_objects_ok l'" and "wd_same l l'"
    and "b \<longrightarrow> um_has (wl_waiters l') t"
proof (cases "wd_waiter_of l t")
  case (Some w)
  then have has: "um_has (wl_waiters l) t" by (metis option.distinct(1) wd_waiter_of_None)
  have flags: "wd_objects_ok (wd_update t (\<lambda>w. w\<lparr>dw_read := True\<rparr>) l)"
    using assms Some by (intro wd_update_flags_ok) (auto elim!: wd_waiter_ofE dest: wd_objects_okD(5))
  show thesis
  proof (cases "dw_read w")
    case True
    then show thesis using that [of True l] Some assms has by (simp add: WD_TryReadWait_def wd_same_def)
  next
    case False
    then have "dw_write w" using wd_readwrite [OF assms Some] by simp
    then show thesis using that [of True "wd_update t (\<lambda>w. w\<lparr>dw_read := True\<rparr>) l"] Some False flags has
      by (simp add: WD_TryReadWait_def wd_same_def)
  qed
next
  case None
  then have no: "\<not> um_has (wl_waiters (wd_trim_back l)) t" by (simp add: wd_waiter_of_None)
  let ?l = "wd_trim_back l"
  have ok: "wd_objects_ok ?l" using assms by simp
  note new = wd_new_waiter_ok [OF ok no, of True False ts]
  show thesis
  proof (cases "wl_wait_q ?l = []")
    case True
    then have "WD_TryReadWait t ts l = Inr (if ts < wl_min_holder l then (True, WD_AddReadWaiter t ts (wl_min_holder l) ?l) else (False, ?l))"
      using None by (simp add: WD_TryReadWait_def Let_def)
    then show thesis using that new ok
      by (cases "ts < wl_min_holder l") (auto simp: WD_AddReadWaiter_def wd_same_def, simp add: wd_new_waiter_def)
  next
    case False
    then obtain bw where bw: "wd_waiter_of l (last (wl_wait_q ?l)) = Some bw" by (rule wd_back_waiter)
    let ?b = "last (wl_wait_q ?l)"
    let ?joined = "(wd_update ?b (WD_add_waiter t ts) ?l)\<lparr>wl_waiters := um_emplace t (the (map_of (wl_waiters ?l) ?b)) (wl_waiters (wd_update ?b (WD_add_waiter t ts) ?l))\<rparr>"
    consider "\<not> dw_write bw \<and> ts < dw_waiting_for bw"
      | "\<not> (\<not> dw_write bw \<and> ts < dw_waiting_for bw)" "dw_write bw \<and> ts < dw_min_waiter bw"
      | "\<not> (\<not> dw_write bw \<and> ts < dw_waiting_for bw)" "\<not> (dw_write bw \<and> ts < dw_min_waiter bw)" by blast
    then show thesis
    proof cases
      case 1
      then have "wd_objects_ok ?joined" using wd_join_ok [OF ok no, of ?b bw ts] bw by simp
      with 1 show thesis using that [of True ?joined] None False bw
        by (simp add: WD_TryReadWait_def Let_def wd_same_def)
    next
      case 2
      then show thesis using that [of True "WD_AddReadWaiter t ts (dw_min_waiter bw) ?l"] None False bw new
        by (simp add: WD_TryReadWait_def Let_def wd_same_def WD_AddReadWaiter_def) (simp add: wd_new_waiter_def)
    next
      case 3
      then show thesis using that [of False ?l] None False bw ok by (simp add: WD_TryReadWait_def Let_def wd_same_def)
    qed
  qed
qed

text \<open>The end of \<open>TryWriteWait\<close>: a new place at the back of the queue, or death.\<close>

lemma WD_write_queue:
  assumes "wd_objects_ok l1" and "\<not> um_has (wl_waiters l1) t"
    and "x = (let l = wd_trim_back l1 in
        if wl_wait_q l = [] then
          (if ts \<le> wl_min_holder l then Inr (True, WD_AddWriteWaiter t ts (wl_min_holder l) l) else Inr (False, l))
        else
          (case wd_waiter_of l (last (wl_wait_q l)) of
             None \<Rightarrow> Inl UndefinedBehaviour
           | Some back \<Rightarrow>
               if ts \<le> dw_min_waiter back then
                 Inr (True, (if add_read then WD_AddReadWriteWaiter else WD_AddWriteWaiter) t ts (dw_min_waiter back) l)
               else Inr (False, l)))"
  shows "\<exists>b l'. x = Inr (b, l') \<and> wd_objects_ok l' \<and> wd_same l1 l' \<and> (b \<longrightarrow> um_has (wl_waiters l') t)"
proof -
  let ?l = "wd_trim_back l1"
  have ok: "wd_objects_ok ?l" and no: "\<not> um_has (wl_waiters ?l) t" using assms(1,2) by simp_all
  have new: "wd_objects_ok (wd_new_waiter r True t ts due ?l) \<and> um_has (wl_waiters (wd_new_waiter r True t ts due ?l)) t \<and>
      wd_same l1 (wd_new_waiter r True t ts due ?l)" for r due
    using wd_new_waiter_ok [OF ok no, of r True ts due] by (simp add: wd_same_def) (simp add: wd_new_waiter_def)
  show ?thesis
  proof (cases "wl_wait_q ?l = []")
    case True
    with assms(3) have "x = (if ts \<le> wl_min_holder l1 then Inr (True, WD_AddWriteWaiter t ts (wl_min_holder l1) ?l) else Inr (False, ?l))"
      by (simp add: Let_def)
    then show ?thesis using new ok by (simp add: WD_AddWriteWaiter_def wd_same_def ex_bool_eq)
  next
    case False
    then obtain bw where "wd_waiter_of l1 (last (wl_wait_q ?l)) = Some bw" using wd_back_waiter by fastforce
    with False assms(3) have "x = (if ts \<le> dw_min_waiter bw
        then Inr (True, (if add_read then WD_AddReadWriteWaiter else WD_AddWriteWaiter) t ts (dw_min_waiter bw) ?l) else Inr (False, ?l))"
      by (simp add: Let_def)
    then show ?thesis using new ok by (simp add: WD_AddWriteWaiter_def WD_AddReadWriteWaiter_def wd_same_def ex_bool_eq)
  qed
qed

lemma WD_TryWriteWait_returns:
  assumes "wd_objects_ok l"
  shows "\<exists>b l'. WD_TryWriteWait t ts l = Inr (b, l') \<and> wd_objects_ok l' \<and> wd_same l l' \<and> (b \<longrightarrow> um_has (wl_waiters l') t)"
proof (cases "wd_waiter_of l t")
  case None
  then have "\<not> um_has (wl_waiters l) t" by (simp add: wd_waiter_of_None)
  from WD_write_queue [OF assms this refl, of ts False] None show ?thesis by (simp add: WD_TryWriteWait_def)
next
  case (Some w)
  then have has: "um_has (wl_waiters l) t" by (metis option.distinct(1) wd_waiter_of_None)
  show ?thesis
  proof (cases "dw_write w")
    case True
    then show ?thesis using Some assms has by (simp add: WD_TryWriteWait_def wd_same_def ex_bool_eq)
  next
    case False
    then have read: "dw_read w" using wd_readwrite [OF assms Some] by simp
    show ?thesis
    proof (cases "length (dw_waiters w) = 1")
      case True
      then have "wd_objects_ok (wd_update t (\<lambda>w. w\<lparr>dw_write := True\<rparr>) l)"
        using assms Some by (intro wd_update_flags_ok) auto
      then show ?thesis using Some True False read has by (simp add: WD_TryWriteWait_def wd_same_def ex_bool_eq)
    next
      case alone: False
      let ?l = "wd_erase t (wd_update t (WD_remove_waiter t) l)"
      have "wd_objects_ok ?l" using wd_leave_ok [OF assms Some False] .
      moreover have "\<not> um_has (wl_waiters ?l) t" by (simp add: wd_erase_def)
      moreover have "wd_same l ?l" by (simp add: wd_same_def)
      ultimately show ?thesis
        using WD_write_queue [of ?l t _ ts True, OF _ _ refl] Some False read alone
        by (simp add: WD_TryWriteWait_def wd_same_def)
    qed
  qed
qed

text \<open>
  A request on a well-formed lock returns: granted, with the requester among the
  holders, or with the holders unchanged and, if it waits, a place in the queue.
\<close>

definition wd_request_ok :: "txn_id \<Rightarrow> wd_lock \<Rightarrow> (reply_code \<times> wd_lock) outcome \<Rightarrow> bool" where
  "wd_request_ok t l x \<longleftrightarrow> (\<exists>ret l'. x = Inr (ret, l') \<and> wd_inv l' \<and>
     (ret = REPLY_OK \<and> set (wl_holders l') = insert t (set (wl_holders l)) \<or>
      ret = REPLY_WAIT \<and> wd_same l l' \<and> um_has (wl_waiters l') t \<or>
      ret = REPLY_FAIL \<and> wd_same l l'))"

lemma wd_request_wait:
  assumes "wd_inv l" and "wd_objects_ok l'" and "wd_same l l'" and "b \<longrightarrow> um_has (wl_waiters l') t"
  shows "wd_request_ok t l (Inr (if b then REPLY_WAIT else REPLY_FAIL, l'))"
  using assms by (auto simp: wd_request_ok_def wd_inv_def wd_same_holders_ok)

lemma WD_TryAcquireReadLock_ok:
  assumes "wd_inv l"
  shows "wd_request_ok t l (WD_TryAcquireReadLock t ts l)"
proof -
  have ok: "wd_objects_ok l" "wd_holders_ok l" using assms by (simp_all add: wd_inv_def)
  consider "wl_state l = UNLOCKED" | "wl_state l \<noteq> UNLOCKED" "t \<in> set (wl_holders l)"
    | "wl_state l \<noteq> UNLOCKED" "t \<notin> set (wl_holders l)" by blast
  then show ?thesis
  proof cases
    case 1
    with ok show ?thesis
      by (auto simp: wd_request_ok_def WD_TryAcquireReadLock_def wd_inv_def wd_holders_ok_def)
  next
    case 2
    with ok show ?thesis
      by (auto simp: wd_request_ok_def WD_TryAcquireReadLock_def wd_inv_def wd_holders_ok_def)
  next
    case 3
    obtain nxt l1 where n: "(if wl_state l = LOCKED_FOR_READ then WD_isWriteNext l else (True, l)) = (nxt, l1)" by fastforce
    have l1: "wd_same l l1" "wd_objects_ok l1"
      using n ok(1) WD_isWriteNext_ok [of l nxt l1] by (auto simp: wd_same_def split: if_splits)
    show ?thesis
    proof (cases "wl_state l1 = LOCKED_FOR_READ \<and> \<not> nxt")
      case True
      have "wd_inv (l1\<lparr>wl_holders := us_add t (wl_holders l1), wl_min_holder := min (wl_min_holder l1) ts\<rparr>)"
        using True l1 ok(2) by (auto simp: wd_inv_def wd_holders_ok_def wd_same_def List.insert_def split: if_splits)
      with True 3 n l1(1) show ?thesis
        by (auto simp: wd_request_ok_def WD_TryAcquireReadLock_def wd_same_def)
    next
      case False
      obtain b l' where r: "WD_TryReadWait t ts l1 = Inr (b, l')" "wd_objects_ok l'" "wd_same l1 l'" "b \<longrightarrow> um_has (wl_waiters l') t"
        by (rule WD_TryReadWait_returns [OF l1(2)])
      then have "wd_same l l'" using l1(1) by (simp add: wd_same_def)
      moreover have "WD_TryAcquireReadLock t ts l = Inr (if b then REPLY_WAIT else REPLY_FAIL, l')"
        using 3 n r(1) False by (auto simp: WD_TryAcquireReadLock_def)
      ultimately show ?thesis using wd_request_wait [OF assms r(2) _ r(4)] by simp
    qed
  qed
qed

lemma WD_TryAcquireWriteLock_ok:
  assumes "wd_inv l"
  shows "wd_request_ok t l (WD_TryAcquireWriteLock t ts l)"
proof -
  have ok: "wd_objects_ok l" "wd_holders_ok l" using assms by (simp_all add: wd_inv_def)
  consider "wl_state l = UNLOCKED" | "wl_state l \<noteq> UNLOCKED" "length (wl_holders l) = 1 \<and> t \<in> set (wl_holders l)"
    | "wl_state l \<noteq> UNLOCKED" "\<not> (length (wl_holders l) = 1 \<and> t \<in> set (wl_holders l))" by blast
  then show ?thesis
  proof cases
    case 1
    with ok show ?thesis
      by (auto simp: wd_request_ok_def WD_TryAcquireWriteLock_def wd_inv_def wd_holders_ok_def)
  next
    case 2
    with ok show ?thesis
      by (auto simp: wd_request_ok_def WD_TryAcquireWriteLock_def wd_inv_def wd_holders_ok_def)
  next
    case 3
    from WD_TryWriteWait_returns [OF ok(1), of t ts] obtain b l' where
      r: "WD_TryWriteWait t ts l = Inr (b, l')" "wd_objects_ok l'" "wd_same l l'" "b \<longrightarrow> um_has (wl_waiters l') t" by blast
    have "WD_TryAcquireWriteLock t ts l = Inr (if b then REPLY_WAIT else REPLY_FAIL, l')"
      using 3 r(1) by (simp add: WD_TryAcquireWriteLock_def)
    with wd_request_wait [OF assms r(2-4)] show ?thesis by simp
  qed
qed

section \<open>Releases\<close>

text \<open>
  Between the removal of a holder and the end of \<open>PopWaiter\<close> nobody holds the lock, or
  readers do; the loop ends with the invariant.
\<close>

lemma WD_PopWaiter_loop_ok:
  assumes "WD_PopWaiter_loop q l m = (l', m')" and "wd_objects_ok l" and "distinct (wl_holders l)"
    and "wl_holders l \<noteq> [] \<longrightarrow> wl_state l \<noteq> UNLOCKED \<and> (wl_state l \<noteq> LOCKED_FOR_READ \<longrightarrow> length (wl_holders l) = 1)"
  shows "wd_objects_ok l' \<and> distinct (wl_holders l') \<and>
    (wl_holders l' \<noteq> [] \<longrightarrow> wl_state l' \<noteq> UNLOCKED \<and> (wl_state l' \<noteq> LOCKED_FOR_READ \<longrightarrow> length (wl_holders l') = 1))"
  using assms
proof (induction q arbitrary: l m)
  case Nil
  then show ?case by auto
next
  case (Cons n q)
  show ?case
  proof (cases "length (wl_holders l) \<ge> 2 \<or> length (wl_holders l) = 1 \<and> n \<notin> set (wl_holders l)")
    case True
    then show ?thesis using Cons.prems by auto
  next
    case go: False
    show ?thesis
    proof (cases "wd_waiter_of l n")
      case None
      with go Cons.prems(1) have "WD_PopWaiter_loop q l m = (l', m')" by auto
      then show ?thesis by (rule Cons.IH) (use Cons.prems in auto)
    next
      case (Some w)
      then obtain i where i: "map_of (wl_waiters l) n = Some i" "w = wl_objects l ! i" by (rule wd_waiter_ofE)
      note D = wd_objects_okD [OF Cons.prems(2) i(1), folded i(2)]
      define l1 where "l1 = l\<lparr>wl_min_holder := dw_min_waiter w,
         wl_state := (if dw_write w \<and> n \<in> set (wl_holders l) then LOCKED_FOR_READ_WRITE
                 else if dw_read w \<and> dw_write w then LOCKED_FOR_READ_WRITE
                 else if dw_write w then LOCKED_FOR_WRITE else LOCKED_FOR_READ),
         wl_holders := dw_waiters w, wl_waiters := fold um_erase (dw_waiters w) (wl_waiters l)\<rparr>"
      have run: "WD_PopWaiter_loop q l1 True = (l', m')" using Cons.prems(1)
        unfolding WD_PopWaiter_loop.simps if_not_P [OF go] Some option.case l1_def .
      have "wd_objects_ok (l\<lparr>wl_waiters := fold um_erase (dw_waiters w) (wl_waiters l)\<rparr>)"
        using wd_take_ok [OF Cons.prems(2) i(1)] i(2) by simp
      then have ok: "wd_objects_ok l1" by (simp add: l1_def wd_objects_ok_def wd_object_ok_def)
      show ?thesis by (rule Cons.IH [OF run ok]) (use D(3,5) in \<open>auto simp: l1_def\<close>)
    qed
  qed
qed

lemma WD_pop_and_notify_ok:
  assumes "wd_objects_ok l" and "distinct (wl_holders l)"
    and "wl_holders l \<noteq> [] \<longrightarrow> wl_state l \<noteq> UNLOCKED \<and> (wl_state l \<noteq> LOCKED_FOR_READ \<longrightarrow> length (wl_holders l) = 1)"
  shows "wd_inv (fst (WD_pop_and_notify l notify))"
proof -
  obtain l' m where p: "WD_PopWaiter_loop (wl_wait_q l) l False = (l', m)" by fastforce
  from WD_PopWaiter_loop_ok [OF this assms] p show ?thesis
    by (auto simp: WD_pop_and_notify_def WD_PopWaiter_def wd_inv_def wd_holders_ok_def)
qed

lemma WD_ReleaseRead_cleanup_ok:
  assumes "wd_objects_ok l"
  shows "wd_objects_ok (WD_ReleaseRead_cleanup h l) \<and> wd_same l (WD_ReleaseRead_cleanup h l)"
proof (cases "wd_waiter_of l h")
  case None
  then show ?thesis using assms by (simp add: WD_ReleaseRead_cleanup_def wd_same_def)
next
  case (Some w)
  show ?thesis
  proof (cases "dw_write w")
    case True
    then have "wd_objects_ok (wd_update h (\<lambda>w. w\<lparr>dw_read := False\<rparr>) l)"
      using assms Some by (intro wd_update_flags_ok) (auto elim!: wd_waiter_ofE dest: wd_objects_okD(5))
    then show ?thesis using Some True by (simp add: WD_ReleaseRead_cleanup_def wd_same_def)
  next
    case False
    then show ?thesis using Some wd_leave_ok [OF assms Some] wd_erase_alone_ok [OF assms Some]
      by (simp add: WD_ReleaseRead_cleanup_def wd_same_def)
  qed
qed

lemma WD_ReleaseWrite_cleanup_ok:
  assumes "wd_objects_ok l"
  shows "wd_objects_ok (WD_ReleaseWrite_cleanup h l) \<and> wd_same l (WD_ReleaseWrite_cleanup h l)"
proof (cases "wd_waiter_of l h")
  case None
  then show ?thesis using assms by (simp add: WD_ReleaseWrite_cleanup_def wd_same_def)
next
  case (Some w)
  then obtain i where i: "map_of (wl_waiters l) h = Some i" "w = wl_objects l ! i" by (rule wd_waiter_ofE)
  show ?thesis
  proof (cases "dw_read w")
    case True
    then have "wd_objects_ok (wd_update h (\<lambda>w. w\<lparr>dw_write := False\<rparr>) l)"
      using assms Some by (intro wd_update_flags_ok) auto
    then show ?thesis using Some True by (simp add: WD_ReleaseWrite_cleanup_def wd_same_def)
  next
    case False
    then have "length (dw_waiters w) = 1" using wd_objects_okD(5,6) [OF assms i(1)] i(2) by simp
    then show ?thesis using Some False wd_erase_alone_ok [OF assms Some] by (simp add: WD_ReleaseWrite_cleanup_def wd_same_def)
  qed
qed

lemma wd_release_lock_ok:
  assumes "wd_inv l"
  shows "wd_inv (fst (WD_ReleaseReadLock h l notify))" and "wd_inv (fst (WD_ReleaseWriteLock h l notify))"
proof -
  define l1 where "l1 = WD_ReleaseRead_cleanup h l"
  define l2 where "l2 = WD_ReleaseWrite_cleanup h l"
  have ok: "wd_objects_ok l" "wd_holders_ok l" using assms by (simp_all add: wd_inv_def)
  have 1: "wd_objects_ok l1" "wd_holders_ok l1" and 2: "wd_objects_ok l2" "wd_holders_ok l2"
    using WD_ReleaseRead_cleanup_ok [OF ok(1), of h] WD_ReleaseWrite_cleanup_ok [OF ok(1), of h] ok(2)
      wd_same_holders_ok [of l l1] wd_same_holders_ok [of l l2] by (auto simp: l1_def l2_def)
  have pop: "wd_inv (fst (WD_pop_and_notify (l'\<lparr>wl_holders := us_erase h (wl_holders l')\<rparr>) notify))"
    if "wd_objects_ok l'" "wd_holders_ok l'" "wl_state l' = LOCKED_FOR_READ \<or> length (wl_holders l') = 1" "h \<in> set (wl_holders l')" for l'
  proof (rule WD_pop_and_notify_ok)
    have "us_erase h (wl_holders l') = []" if "length (wl_holders l') = 1"
      using that \<open>h \<in> set (wl_holders l')\<close> by (cases "wl_holders l'") auto
    then show "wl_holders (l'\<lparr>wl_holders := us_erase h (wl_holders l')\<rparr>) \<noteq> [] \<longrightarrow>
        wl_state (l'\<lparr>wl_holders := us_erase h (wl_holders l')\<rparr>) \<noteq> UNLOCKED \<and>
        (wl_state (l'\<lparr>wl_holders := us_erase h (wl_holders l')\<rparr>) \<noteq> LOCKED_FOR_READ \<longrightarrow>
          length (wl_holders (l'\<lparr>wl_holders := us_erase h (wl_holders l')\<rparr>)) = 1)"
      using that by auto
  qed (use that in \<open>auto simp: wd_holders_ok_def distinct_removeAll\<close>)
  show "wd_inv (fst (WD_ReleaseReadLock h l notify))"
    unfolding WD_ReleaseReadLock_def l1_def [symmetric] Let_def
    using 1 pop [OF 1] by (auto simp: wd_inv_def wd_holders_ok_def)
  show "wd_inv (fst (WD_ReleaseWriteLock h l notify))"
    unfolding WD_ReleaseWriteLock_def l2_def [symmetric] Let_def
    using 2 pop [OF 2] by (auto simp: wd_inv_def wd_holders_ok_def)
qed

section \<open>Runs\<close>

datatype wd_op = WD_Read key txn_id timestamp | WD_Write key txn_id timestamp | WD_DropRead key txn_id | WD_DropWrite key txn_id

fun wd_step :: "wd_op \<Rightarrow> wait_die \<Rightarrow> wait_die outcome" where
  "wd_step (WD_Read k t ts) s = bindE (WD_LockForRead k t ts s) (\<lambda>(_, s'). Inr s')"
| "wd_step (WD_Write k t ts) s = bindE (WD_LockForWrite k t ts s) (\<lambda>(_, s'). Inr s')"
| "wd_step (WD_DropRead k t) s = Inr (snd (WD_ReleaseForRead k t [] s))"
| "wd_step (WD_DropWrite k t) s = Inr (snd (WD_ReleaseForWrite k t [] s))"

definition wd_run :: "wd_op list \<Rightarrow> wait_die outcome" where
  "wd_run ops = foldE wd_step ops WaitDie_init"

definition wd_table_inv :: "wait_die \<Rightarrow> bool" where
  "wd_table_inv s \<longleftrightarrow> (\<forall>k. wd_inv (wd_lock_at s k))"

lemma wd_lock_at_put [simp]:
  "wd_lock_at (s\<lparr>wdt_locks := um_put k l (wdt_locks s)\<rparr>) k' = (if k' = k then l else wd_lock_at s k')"
  by (simp add: wd_lock_at_def)

lemma wd_lock_at_frame [simp]:
  "wd_lock_at (s\<lparr>wdt_waiting := w\<rparr>) k = wd_lock_at s k" "wd_lock_at (wd_mark_waiting ret t k' s) k = wd_lock_at s k"
  "wd_lock_at (snd (WD_NotifyRW k' t s)) k = wd_lock_at s k"
  by (simp_all add: wd_lock_at_def wd_mark_waiting_def WD_NotifyRW_def Let_def)

lemma wd_lock_at_NotifyRWs [simp]: "wd_lock_at (snd (WD_NotifyRWs k' ts s)) k = wd_lock_at s k"
  by (induction k' ts s rule: WD_NotifyRWs.induct) (auto split: prod.splits, metis snd_conv wd_lock_at_frame(3))

lemma wd_lock_at_Some: "map_of (wdt_locks s) k = Some l \<Longrightarrow> wd_lock_at s k = l"
  by (simp add: wd_lock_at_def)

text \<open>The locks after a release.\<close>

lemma wd_release_at:
  "wd_lock_at (snd (wd_release rel k h notify s)) k' =
     (if k' = k \<and> um_has (wdt_locks s) k then fst (rel h (wd_lock_at s k) notify) else wd_lock_at s k')"
  by (auto simp: wd_release_def wd_lock_at_Some um_has_def split: option.split prod.split)

lemma wd_step_ok:
  assumes "wd_table_inv s"
  shows "\<exists>s'. wd_step op s = Inr s' \<and> wd_table_inv s'"
proof (cases op)
  case (WD_Read k t ts)
  from WD_TryAcquireReadLock_ok [of "wd_lock_at s k" t ts] assms obtain ret l where
    "WD_TryAcquireReadLock t ts (wd_lock_at s k) = Inr (ret, l)" "wd_inv l"
    by (auto simp: wd_table_inv_def wd_request_ok_def)
  with WD_Read assms show ?thesis by (simp add: WD_LockForRead_def wd_table_inv_def)
next
  case (WD_Write k t ts)
  from WD_TryAcquireWriteLock_ok [of "wd_lock_at s k" t ts] assms obtain ret l where
    "WD_TryAcquireWriteLock t ts (wd_lock_at s k) = Inr (ret, l)" "wd_inv l"
    by (auto simp: wd_table_inv_def wd_request_ok_def)
  with WD_Write assms show ?thesis by (simp add: WD_LockForWrite_def wd_table_inv_def)
next
  case (WD_DropRead k t)
  with assms show ?thesis by (simp add: WD_ReleaseForRead_def wd_table_inv_def wd_release_at wd_release_lock_ok)
next
  case (WD_DropWrite k t)
  with assms show ?thesis by (simp add: WD_ReleaseForWrite_def wd_table_inv_def wd_release_at wd_release_lock_ok)
qed

lemma wd_run_ok: "\<exists>s. wd_run ops = Inr s \<and> wd_table_inv s"
  unfolding wd_run_def
proof (rule foldE_total)
  show "wd_table_inv WaitDie_init" by (simp add: wd_table_inv_def WaitDie_init_def wd_lock_at_def wd_inv_init)
qed (rule wd_step_ok)

definition wd_write_holder :: "wd_lock \<Rightarrow> txn_id \<Rightarrow> bool" where
  "wd_write_holder l t \<longleftrightarrow> (wl_state l = LOCKED_FOR_WRITE \<or> wl_state l = LOCKED_FOR_READ_WRITE) \<and> t \<in> set (wl_holders l)"

text \<open>
  \<^bold>\<open>C18\<close> Wait-die locks exclude writers and never fail. Every sequence of lock and
  release calls on an empty table returns, and afterwards a transaction that holds a
  key for writing is its only holder.
\<close>

theorem wd_write_exclusive:
  "\<exists>s. wd_run ops = Inr s \<and>
     (\<forall>k t u. \<not> (wd_write_holder (wd_lock_at s k) t \<and> u \<in> set (wl_holders (wd_lock_at s k)) \<and> u \<noteq> t))"
proof -
  obtain s where s: "wd_run ops = Inr s" "wd_table_inv s" using wd_run_ok by blast
  have "u = t" if "wd_write_holder (wd_lock_at s k) t" "u \<in> set (wl_holders (wd_lock_at s k))" for k t u
  proof -
    have "length (wl_holders (wd_lock_at s k)) = 1"
      using that(1) s(2) by (auto simp: wd_table_inv_def wd_inv_def wd_holders_ok_def wd_write_holder_def)
    then show ?thesis using that by (cases "wl_holders (wd_lock_at s k)") (auto simp: wd_write_holder_def)
  qed
  with s(1) show ?thesis by blast
qed

text \<open>
  A fault of the code. A reader that joins the waiter of an earlier reader has
  no queue entry of its own. In this run transaction 1 writes a key, the older
  transaction 2 waits to read it, 3 joins the waiter of 2, and 2 gives up. When 1
  releases the key nobody is notified: the lock is free, its queue is empty, and 3
  is still marked as waiting for it.
\<close>

definition stranding_run :: "wd_op list" where
  "stranding_run = [WD_Write ''x'' 1 (Timestamp 9 1), WD_Read ''x'' 2 (Timestamp 5 2), WD_Read ''x'' 3 (Timestamp 4 3),
     WD_DropRead ''x'' 2, WD_DropWrite ''x'' 1]"

theorem aborted_reader_strands_joiner:
  "case wd_run stranding_run of
     Inl _ \<Rightarrow> False
   | Inr s \<Rightarrow> wl_state (wd_lock_at s ''x'') = UNLOCKED \<and> wl_wait_q (wd_lock_at s ''x'') = [] \<and>
       map_of (wdt_waiting s) 3 = Some [''x''] \<and> um_has (wl_waiters (wd_lock_at s ''x'')) 3"
  by code_simp

end
