(* ===== verification/OccStore.thy ===== *)
theory OccStore
  imports Transactions
begin

text \<open>
  \<open>src/store/strongstore/occstore.{h,cc}\<close> on \<open>store/common/backend/store.h\<close>: the
  optimistic alternative to the lock-based store. A transaction is validated when it
  prepares, against the committed versions and against the prepared transactions,
  which two indexes list by key. First the code, then its invariant, what a prepare
  decides, and that what a prepared transaction has read stays current until it
  commits.
\<close>

section \<open>The code\<close>

text \<open>\<open>Store\<close> keeps one value per key; \<open>value\<close> is left alone when there is none.\<close>

type_synonym 'v plain_store = "(key, 'v) umap"

definition Store_Get :: "'v plain_store \<Rightarrow> key \<Rightarrow> 'v option" where
  "Store_Get st k = map_of st k"

definition Store_Put :: "key \<Rightarrow> 'v \<Rightarrow> 'v plain_store \<Rightarrow> 'v plain_store" where
  "Store_Put k v st = um_put k v st"

record occ_store =
  occ_versions :: "(timestamp \<times> val) plain_store"
  occ_prepared :: "(txn_id, transaction) umap"
  occ_pWrites :: "(key, txn_id uset) umap"
  occ_pRW :: "(key, txn_id uset) umap"

definition OCCStore_init :: occ_store where
  "OCCStore_init = \<lparr>occ_versions = [], occ_prepared = [], occ_pWrites = [], occ_pRW = []\<rparr>"

definition OCC_Get :: "key \<Rightarrow> occ_store \<Rightarrow> reply_code \<times> (timestamp \<times> val) option" where
  "OCC_Get k s = (case Store_Get (occ_versions s) k of None \<Rightarrow> (REPLY_FAIL, None) | Some v \<Rightarrow> (REPLY_OK, Some v))"

definition index_add :: "txn_id \<Rightarrow> key \<Rightarrow> (key, txn_id uset) umap \<Rightarrow> (key, txn_id uset) umap" where
  "index_add t k m = um_put k (us_add t (fst (um_ref [] m k))) m"

text \<open>Erasing a transaction from an entry of an index, and the entry when it becomes empty.\<close>

definition index_drop :: "txn_id \<Rightarrow> key \<Rightarrow> (key, txn_id uset) umap \<Rightarrow> (key, txn_id uset) umap" where
  "index_drop t k m =
     (case map_of m k of
        None \<Rightarrow> m
      | Some ids \<Rightarrow> (let ids' = us_erase t ids in if ids' = [] then um_erase k m else um_put k ids' m))"

definition PrepareTransaction :: "txn_id \<Rightarrow> transaction \<Rightarrow> occ_store \<Rightarrow> occ_store" where
  "PrepareTransaction t txn s =
     s\<lparr>occ_prepared := um_emplace t txn (occ_prepared s),
       occ_pWrites := fold (index_add t) (um_keys (writeSet txn)) (occ_pWrites s),
       occ_pRW := fold (index_add t) (um_keys (readSet txn)) (fold (index_add t) (um_keys (writeSet txn)) (occ_pRW s))\<rparr>"

definition OCC_Clean :: "txn_id \<Rightarrow> occ_store \<Rightarrow> occ_store" where
  "OCC_Clean t s =
     (case map_of (occ_prepared s) t of
        None \<Rightarrow> s
      | Some txn \<Rightarrow>
          s\<lparr>occ_prepared := um_erase t (occ_prepared s),
            occ_pWrites := fold (index_drop t) (um_keys (writeSet txn)) (occ_pWrites s),
            occ_pRW := fold (index_drop t) (um_keys (readSet txn)) (fold (index_drop t) (um_keys (writeSet txn)) (occ_pRW s))\<rparr>)"

definition OCC_Abort :: "txn_id \<Rightarrow> occ_store \<Rightarrow> occ_store" where
  "OCC_Abort t s = OCC_Clean t s"

text \<open>The two checks made for every key of the read set, and the one for every key of the write set.\<close>

definition read_conflict :: "occ_store \<Rightarrow> key \<times> timestamp \<Rightarrow> bool" where
  "read_conflict s r \<longleftrightarrow>
     (case Store_Get (occ_versions s) (fst r) of None \<Rightarrow> False | Some cur \<Rightarrow> ts_ne (fst cur) (snd r)) \<or>
     um_has (occ_pWrites s) (fst r)"

definition write_conflict :: "occ_store \<Rightarrow> key \<times> val \<Rightarrow> bool" where
  "write_conflict s w \<longleftrightarrow> um_has (occ_pRW s) (fst w)"

definition OCC_Prepare :: "txn_id \<Rightarrow> transaction \<Rightarrow> occ_store \<Rightarrow> reply_code \<times> occ_store" where
  "OCC_Prepare t txn s =
     (if um_has (occ_prepared s) t then (REPLY_OK, s)
      else if list_ex (read_conflict s) (readSet txn) then (REPLY_FAIL, OCC_Abort t s)
      else if list_ex (write_conflict s) (writeSet txn) then (REPLY_FAIL, OCC_Abort t s)
      else (REPLY_OK, PrepareTransaction t txn s))"

definition OCC_Commit :: "txn_id \<Rightarrow> timestamp \<Rightarrow> occ_store \<Rightarrow> (bool \<times> occ_store) outcome" where
  "OCC_Commit t ts s =
     (case map_of (occ_prepared s) t of
        None \<Rightarrow> Inl AssertFailed
      | Some txn \<Rightarrow>
          Inr (writeSet txn \<noteq> [],
            OCC_Clean t (s\<lparr>occ_versions := fold (\<lambda>(k, v). Store_Put k (ts, v)) (writeSet txn) (occ_versions s)\<rparr>)))"

definition OCC_Load :: "key \<Rightarrow> val \<Rightarrow> timestamp \<Rightarrow> occ_store \<Rightarrow> occ_store" where
  "OCC_Load k v ts s = s\<lparr>occ_versions := Store_Put k (ts, v) (occ_versions s)\<rparr>"

section \<open>Invariant\<close>

definition ids_at :: "(key, txn_id uset) umap \<Rightarrow> key \<Rightarrow> txn_id set" where
  "ids_at m k = (case map_of m k of None \<Rightarrow> {} | Some ids \<Rightarrow> set ids)"

text \<open>An index lists, for every key, the prepared transactions that touch it, and has no empty entry.\<close>

definition index_ok :: "(transaction \<Rightarrow> key \<Rightarrow> bool) \<Rightarrow> (txn_id \<Rightarrow> transaction option) \<Rightarrow> (key, txn_id uset) umap \<Rightarrow> bool" where
  "index_ok touches pr m \<longleftrightarrow>
     (\<forall>k. map_of m k \<noteq> Some [] \<and> ids_at m k = {t. \<exists>txn. pr t = Some txn \<and> touches txn k})"

definition writes :: "transaction \<Rightarrow> key \<Rightarrow> bool" where
  "writes txn k \<longleftrightarrow> um_has (writeSet txn) k"

definition touches :: "transaction \<Rightarrow> key \<Rightarrow> bool" where
  "touches txn k \<longleftrightarrow> um_has (readSet txn) k \<or> um_has (writeSet txn) k"

text \<open>What a transaction has read is what is committed.\<close>

definition reads_current :: "(timestamp \<times> val) plain_store \<Rightarrow> transaction \<Rightarrow> bool" where
  "reads_current st txn \<longleftrightarrow>
     (\<forall>(k, ts) \<in> set (readSet txn). case Store_Get st k of None \<Rightarrow> True | Some cur \<Rightarrow> fst cur = ts)"

definition conflict :: "transaction \<Rightarrow> transaction \<Rightarrow> bool" where
  "conflict a b \<longleftrightarrow> (\<exists>k. writes a k \<and> touches b k \<or> touches a k \<and> writes b k)"

definition occ_inv :: "occ_store \<Rightarrow> bool" where
  "occ_inv s \<longleftrightarrow>
     index_ok writes (map_of (occ_prepared s)) (occ_pWrites s) \<and> index_ok touches (map_of (occ_prepared s)) (occ_pRW s) \<and>
     (\<forall>t txn. map_of (occ_prepared s) t = Some txn \<longrightarrow> reads_current (occ_versions s) txn) \<and>
     (\<forall>t u a b. t \<noteq> u \<longrightarrow> map_of (occ_prepared s) t = Some a \<longrightarrow> map_of (occ_prepared s) u = Some b \<longrightarrow> \<not> conflict a b)"

lemma ids_at_add [simp]: "ids_at (index_add t k m) k' = (if k' = k then insert t (ids_at m k) else ids_at m k')"
  by (auto simp: ids_at_def index_add_def um_ref_def split: option.splits)

lemma index_add_nonempty: "map_of m k' \<noteq> Some [] \<Longrightarrow> map_of (index_add t k m) k' \<noteq> Some []"
  by (cases "k' = k") (auto simp: index_add_def um_ref_def List.insert_def split: option.splits)

lemma us_erase_empty: "us_erase t ids = [] \<longleftrightarrow> set ids \<subseteq> {t}"
  by (induction ids) auto

lemma ids_at_drop [simp]: "ids_at (index_drop t k m) k' = (if k' = k then ids_at m k - {t} else ids_at m k')"
  by (auto simp: ids_at_def index_drop_def Let_def us_erase_empty split: option.splits)

lemma index_drop_nonempty: "map_of m k' \<noteq> Some [] \<Longrightarrow> map_of (index_drop t k m) k' \<noteq> Some []"
  by (auto simp: index_drop_def Let_def split: option.splits)

lemma ids_at_add_all: "ids_at (fold (index_add t) ks m) k = (if k \<in> set ks then insert t (ids_at m k) else ids_at m k)"
  by (induction ks arbitrary: m) auto

lemma ids_at_drop_all: "ids_at (fold (index_drop t) ks m) k = (if k \<in> set ks then ids_at m k - {t} else ids_at m k)"
  by (induction ks arbitrary: m) auto

lemma index_add_all_nonempty: "(\<forall>k. map_of m k \<noteq> Some []) \<Longrightarrow> map_of (fold (index_add t) ks m) k \<noteq> Some []"
  by (induction ks arbitrary: m) (auto simp: index_add_nonempty)

lemma index_drop_all_nonempty: "(\<forall>k. map_of m k \<noteq> Some []) \<Longrightarrow> map_of (fold (index_drop t) ks m) k \<noteq> Some []"
  by (induction ks arbitrary: m) (auto simp: index_drop_nonempty)

text \<open>A key has an entry exactly when a prepared transaction touches it.\<close>

lemma index_ok_has:
  assumes "index_ok touch pr m"
  shows "um_has m k \<longleftrightarrow> (\<exists>t txn. pr t = Some txn \<and> touch txn k)"
proof -
  have ids: "ids_at m k = {t. \<exists>txn. pr t = Some txn \<and> touch txn k}" and nonempty: "map_of m k \<noteq> Some []"
    using assms by (simp_all add: index_ok_def)
  from nonempty have "um_has m k \<longleftrightarrow> ids_at m k \<noteq> {}" by (cases "map_of m k") (simp_all add: ids_at_def um_has_def)
  then show ?thesis by (auto simp: ids)
qed

lemma index_ok_add:
  assumes "index_ok touch pr m" and "pr t = None" and "\<And>k. touch txn k \<longleftrightarrow> k \<in> set ks"
  shows "index_ok touch (pr(t \<mapsto> txn)) (fold (index_add t) ks m)"
  unfolding index_ok_def
proof (intro allI conjI)
  fix k
  show "map_of (fold (index_add t) ks m) k \<noteq> Some []"
    using assms(1) by (intro index_add_all_nonempty) (simp add: index_ok_def)
  have "ids_at m k = {t. \<exists>txn. pr t = Some txn \<and> touch txn k}" using assms(1) by (simp add: index_ok_def)
  with assms(2,3) show "ids_at (fold (index_add t) ks m) k = {u. \<exists>x. (pr(t \<mapsto> txn)) u = Some x \<and> touch x k}"
    by (auto simp: ids_at_add_all)
qed

lemma index_ok_drop:
  assumes "index_ok touch pr m" and "pr t = Some txn" and "\<And>k. touch txn k \<longleftrightarrow> k \<in> set ks"
  shows "index_ok touch (pr(t := None)) (fold (index_drop t) ks m)"
  unfolding index_ok_def
proof (intro allI conjI)
  fix k
  show "map_of (fold (index_drop t) ks m) k \<noteq> Some []"
    using assms(1) by (intro index_drop_all_nonempty) (simp add: index_ok_def)
  have "ids_at m k = {t. \<exists>txn. pr t = Some txn \<and> touch txn k}" using assms(1) by (simp add: index_ok_def)
  with assms(2,3) show "ids_at (fold (index_drop t) ks m) k = {u. \<exists>x. (pr(t := None)) u = Some x \<and> touch x k}"
    by (auto simp: ids_at_drop_all)
qed

lemma touches_keys: "touches txn k \<longleftrightarrow> k \<in> set (um_keys (writeSet txn) @ um_keys (readSet txn))"
  by (auto simp: touches_def um_has_iff)

lemma writes_keys: "writes txn k \<longleftrightarrow> k \<in> set (um_keys (writeSet txn))"
  by (simp add: writes_def um_has_iff)

text \<open>Both checks in terms of the prepared transactions.\<close>

lemma ex_um_has: "(\<exists>r \<in> set m. P (fst r)) \<longleftrightarrow> (\<exists>k. um_has m k \<and> P k)" for m :: "('k, 'v) umap"
  by (force simp: um_has_iff)

lemma read_checks:
  assumes "occ_inv s"
  shows "list_ex (read_conflict s) (readSet txn) \<longleftrightarrow>
    \<not> reads_current (occ_versions s) txn \<or>
    (\<exists>k. um_has (readSet txn) k \<and> (\<exists>u b. map_of (occ_prepared s) u = Some b \<and> writes b k))"
proof -
  have w: "um_has (occ_pWrites s) k \<longleftrightarrow> (\<exists>u b. map_of (occ_prepared s) u = Some b \<and> writes b k)" for k
    using assms by (intro index_ok_has) (simp add: occ_inv_def)
  have current: "(\<exists>r \<in> set (readSet txn). case Store_Get (occ_versions s) (fst r) of None \<Rightarrow> False | Some cur \<Rightarrow> ts_ne (fst cur) (snd r))
      \<longleftrightarrow> \<not> reads_current (occ_versions s) txn"
    by (force simp: reads_current_def ts_ops_order split: option.splits)
  have "list_ex (read_conflict s) (readSet txn) \<longleftrightarrow>
      (\<exists>r \<in> set (readSet txn). case Store_Get (occ_versions s) (fst r) of None \<Rightarrow> False | Some cur \<Rightarrow> ts_ne (fst cur) (snd r)) \<or>
      (\<exists>r \<in> set (readSet txn). um_has (occ_pWrites s) (fst r))"
    unfolding list_ex_iff read_conflict_def by blast
  then show ?thesis unfolding current ex_um_has [of "readSet txn" "um_has (occ_pWrites s)"] unfolding w .
qed

lemma write_checks:
  assumes "occ_inv s"
  shows "list_ex (write_conflict s) (writeSet txn) \<longleftrightarrow>
    (\<exists>k. writes txn k \<and> (\<exists>u b. map_of (occ_prepared s) u = Some b \<and> touches b k))"
proof -
  have w: "um_has (occ_pRW s) k \<longleftrightarrow> (\<exists>u b. map_of (occ_prepared s) u = Some b \<and> touches b k)" for k
    using assms by (intro index_ok_has) (simp add: occ_inv_def)
  have "list_ex (write_conflict s) (writeSet txn) \<longleftrightarrow> (\<exists>r \<in> set (writeSet txn). um_has (occ_pRW s) (fst r))"
    unfolding list_ex_iff write_conflict_def ..
  then show ?thesis unfolding ex_um_has [of "writeSet txn" "um_has (occ_pRW s)"] unfolding w writes_def .
qed

lemma conflict_split: "conflict a b \<longleftrightarrow> (\<exists>k. um_has (readSet a) k \<and> writes b k) \<or> (\<exists>k. writes a k \<and> touches b k)"
  unfolding conflict_def touches_def writes_def by blast

lemma conflict_sym: "conflict a b \<longleftrightarrow> conflict b a"
  unfolding conflict_def by blast

lemma occ_inv_apart:
  assumes "occ_inv s" and "map_of (occ_prepared s) t = Some a" and "map_of (occ_prepared s) u = Some b" and "t \<noteq> u"
  shows "\<not> conflict a b"
proof -
  have "\<forall>t u a b. t \<noteq> u \<longrightarrow> map_of (occ_prepared s) t = Some a \<longrightarrow> map_of (occ_prepared s) u = Some b \<longrightarrow> \<not> conflict a b"
    using assms(1) unfolding occ_inv_def by (elim conjE)
  from this [rule_format, OF assms(4,2,3)] show ?thesis .
qed

lemma occ_inv_init: "occ_inv OCCStore_init"
  by (simp add: occ_inv_def OCCStore_init_def index_ok_def ids_at_def)

text \<open>What a prepare decides: the read set is current and nothing prepared conflicts.\<close>

definition occ_admits :: "occ_store \<Rightarrow> transaction \<Rightarrow> bool" where
  "occ_admits s txn \<longleftrightarrow>
     reads_current (occ_versions s) txn \<and> (\<forall>u b. map_of (occ_prepared s) u = Some b \<longrightarrow> \<not> conflict txn b)"

lemma occ_admits_checks:
  assumes "occ_inv s"
  shows "occ_admits s txn \<longleftrightarrow> \<not> list_ex (read_conflict s) (readSet txn) \<and> \<not> list_ex (write_conflict s) (writeSet txn)"
  unfolding occ_admits_def read_checks [OF assms] write_checks [OF assms] conflict_split by blast

lemma OCC_Abort_absent: "\<not> um_has (occ_prepared s) t \<Longrightarrow> OCC_Abort t s = s"
  by (simp add: OCC_Abort_def OCC_Clean_def um_has_def)

lemma OCC_Prepare_spec:
  assumes "occ_inv s"
  shows "OCC_Prepare t txn s =
    (if um_has (occ_prepared s) t then (REPLY_OK, s)
     else if occ_admits s txn then (REPLY_OK, PrepareTransaction t txn s) else (REPLY_FAIL, s))"
  by (simp add: OCC_Prepare_def occ_admits_checks [OF assms] OCC_Abort_absent)

lemma PrepareTransaction_inv:
  assumes "occ_inv s" and "\<not> um_has (occ_prepared s) t" and "occ_admits s txn"
  shows "occ_inv (PrepareTransaction t txn s)"
proof -
  have fresh: "map_of (occ_prepared s) t = None" using assms(2) by (simp add: um_has_def)
  have pr: "map_of (occ_prepared (PrepareTransaction t txn s)) = (map_of (occ_prepared s))(t \<mapsto> txn)"
    using assms(2) by (simp add: PrepareTransaction_def map_of_emplace)
  have "index_ok writes ((map_of (occ_prepared s))(t \<mapsto> txn)) (fold (index_add t) (um_keys (writeSet txn)) (occ_pWrites s))"
    using assms(1) by (intro index_ok_add fresh writes_keys) (simp add: occ_inv_def)
  moreover have "index_ok touches ((map_of (occ_prepared s))(t \<mapsto> txn))
      (fold (index_add t) (um_keys (writeSet txn) @ um_keys (readSet txn)) (occ_pRW s))"
    using assms(1) by (intro index_ok_add fresh touches_keys) (simp add: occ_inv_def)
  moreover have "reads_current (occ_versions s) a" if "((map_of (occ_prepared s))(t \<mapsto> txn)) u = Some a" for u a
    using that assms by (auto simp: occ_inv_def occ_admits_def split: if_splits)
  moreover have "\<not> conflict a b"
    if "u \<noteq> v" "((map_of (occ_prepared s))(t \<mapsto> txn)) u = Some a" "((map_of (occ_prepared s))(t \<mapsto> txn)) v = Some b" for u v a b
  proof -
    have "\<not> conflict txn c" if "map_of (occ_prepared s) w = Some c" for w c
      using that assms(3) by (simp add: occ_admits_def)
    with that assms(1) show ?thesis
      unfolding occ_inv_def fun_upd_def by (metis conflict_sym option.inject)
  qed
  ultimately show ?thesis
    unfolding occ_inv_def pr by (simp add: PrepareTransaction_def)
qed

lemma OCC_Prepare_inv:
  assumes "occ_inv s"
  shows "occ_inv (snd (OCC_Prepare t txn s))"
  using assms by (simp add: OCC_Prepare_spec PrepareTransaction_inv)

lemma map_of_prepared_Clean [simp]: "map_of (occ_prepared (OCC_Clean t s)) = (map_of (occ_prepared s))(t := None)"
  by (auto simp: OCC_Clean_def fun_eq_iff split: option.splits)

lemma versions_Clean [simp]: "occ_versions (OCC_Clean t s) = occ_versions s"
  by (simp add: OCC_Clean_def split: option.splits)

text \<open>Cleaning up keeps the indexes right, whatever happened to the versions.\<close>

lemma OCC_Clean_indexes:
  assumes "index_ok writes (map_of (occ_prepared s)) (occ_pWrites s)" and "index_ok touches (map_of (occ_prepared s)) (occ_pRW s)"
  shows "index_ok writes ((map_of (occ_prepared s))(t := None)) (occ_pWrites (OCC_Clean t s))"
    and "index_ok touches ((map_of (occ_prepared s))(t := None)) (occ_pRW (OCC_Clean t s))"
proof -
  have "index_ok writes ((map_of (occ_prepared s))(t := None)) (occ_pWrites (OCC_Clean t s)) \<and>
      index_ok touches ((map_of (occ_prepared s))(t := None)) (occ_pRW (OCC_Clean t s))"
  proof (cases "map_of (occ_prepared s) t")
    case None
    then have "(map_of (occ_prepared s))(t := None) = map_of (occ_prepared s)" by (simp add: fun_upd_idem)
    with None assms show ?thesis by (simp add: OCC_Clean_def)
  next
    case (Some txn)
    have "index_ok writes ((map_of (occ_prepared s))(t := None)) (fold (index_drop t) (um_keys (writeSet txn)) (occ_pWrites s))"
      by (rule index_ok_drop [OF assms(1) Some writes_keys])
    moreover have "index_ok touches ((map_of (occ_prepared s))(t := None))
        (fold (index_drop t) (um_keys (writeSet txn) @ um_keys (readSet txn)) (occ_pRW s))"
      by (rule index_ok_drop [OF assms(2) Some touches_keys])
    ultimately show ?thesis using Some by (simp add: OCC_Clean_def)
  qed
  then show "index_ok writes ((map_of (occ_prepared s))(t := None)) (occ_pWrites (OCC_Clean t s))"
    and "index_ok touches ((map_of (occ_prepared s))(t := None)) (occ_pRW (OCC_Clean t s))" by simp_all
qed

lemma OCC_Clean_inv:
  assumes "occ_inv s"
  shows "occ_inv (OCC_Clean t s)"
  using assms OCC_Clean_indexes [of s t] unfolding occ_inv_def by (auto split: if_splits)

lemma map_of_store_writes:
  "\<not> um_has ws k \<Longrightarrow> map_of (fold (\<lambda>(k, v). Store_Put k (ts, v)) ws m) k = map_of m k"
  by (induction ws arbitrary: m) (auto simp: Store_Put_def)

lemma reads_current_unwritten:
  assumes "reads_current st txn" and "\<And>k. um_has (readSet txn) k \<Longrightarrow> map_of st' k = map_of st k"
  shows "reads_current st' txn"
  unfolding reads_current_def
proof
  fix r assume r: "r \<in> set (readSet txn)"
  then have "um_has (readSet txn) (fst r)" by (simp add: um_has_iff)
  with r assms show "case r of (k, ts) \<Rightarrow> case Store_Get st' k of None \<Rightarrow> True | Some cur \<Rightarrow> fst cur = ts"
    unfolding reads_current_def Store_Get_def by (metis (mono_tags, lifting) case_prod_unfold)
qed

lemma OCC_Commit_inv:
  assumes inv: "occ_inv s" and run: "OCC_Commit t ts s = Inr (b, s')"
  shows "occ_inv s'"
proof -
  obtain txn where txn: "map_of (occ_prepared s) t = Some txn"
    using run by (auto simp: OCC_Commit_def split: option.splits)
  define s1 where "s1 = s\<lparr>occ_versions := fold (\<lambda>(k, v). Store_Put k (ts, v)) (writeSet txn) (occ_versions s)\<rparr>"
  have s': "s' = OCC_Clean t s1" using run txn by (simp add: OCC_Commit_def s1_def)
  have "reads_current (occ_versions s1) a" if a: "map_of (occ_prepared s) u = Some a" and "u \<noteq> t" for u a
  proof (rule reads_current_unwritten)
    show "reads_current (occ_versions s) a" using inv a by (auto simp: occ_inv_def)
    have "\<not> conflict txn a" using occ_inv_apart [OF inv txn a] \<open>u \<noteq> t\<close> by blast
    then show "map_of (occ_versions s1) k = map_of (occ_versions s) k" if "um_has (readSet a) k" for k
      using that by (auto simp: s1_def conflict_def writes_def touches_def intro!: map_of_store_writes)
  qed
  moreover have "index_ok writes (map_of (occ_prepared s1)) (occ_pWrites s1)" "index_ok touches (map_of (occ_prepared s1)) (occ_pRW s1)"
    using inv by (simp_all add: s1_def occ_inv_def)
  ultimately show ?thesis
    using inv OCC_Clean_indexes [of s1 t] unfolding s' occ_inv_def by (auto simp: s1_def split: if_splits)
qed

lemma OCC_Load_inv: "occ_inv s \<Longrightarrow> occ_prepared s = [] \<Longrightarrow> occ_inv (OCC_Load k v ts s)"
  by (simp add: occ_inv_def OCC_Load_def)

section \<open>Runs\<close>

text \<open>The operations a replica executes, in the order of the log; a prepare and a commit answer.\<close>

datatype occ_op = OccPrepare txn_id transaction | OccCommit txn_id timestamp | OccAbort txn_id

datatype occ_answer = Prepared reply_code | Committed bool | Aborted

fun occ_step :: "occ_op \<Rightarrow> occ_store \<Rightarrow> (occ_answer \<times> occ_store) outcome" where
  "occ_step (OccPrepare t txn) s = Inr (map_prod Prepared id (OCC_Prepare t txn s))"
| "occ_step (OccCommit t ts) s = (case OCC_Commit t ts s of Inl e \<Rightarrow> Inl e | Inr r \<Rightarrow> Inr (map_prod Committed id r))"
| "occ_step (OccAbort t) s = Inr (Aborted, OCC_Abort t s)"

fun occ_run :: "occ_op list \<Rightarrow> occ_store \<Rightarrow> (occ_answer list \<times> occ_store) outcome" where
  "occ_run [] s = Inr ([], s)"
| "occ_run (x # xs) s =
     (case occ_step x s of
        Inl e \<Rightarrow> Inl e
      | Inr (a, s') \<Rightarrow> (case occ_run xs s' of Inl e \<Rightarrow> Inl e | Inr (as, s'') \<Rightarrow> Inr (a # as, s'')))"

definition occ_loaded :: "(key \<times> val \<times> timestamp) list \<Rightarrow> occ_store" where
  "occ_loaded xs = fold (\<lambda>(k, v, ts). OCC_Load k v ts) xs OCCStore_init"

lemma occ_inv_loads:
  "occ_inv s \<Longrightarrow> occ_prepared s = [] \<Longrightarrow> occ_inv (fold (\<lambda>(k, v, ts). OCC_Load k v ts) xs s)"
proof (induction xs arbitrary: s)
  case (Cons x xs)
  obtain k v ts where x: "x = (k, v, ts)" by (cases x)
  have "occ_inv (OCC_Load k v ts s)" and "occ_prepared (OCC_Load k v ts s) = []"
    using Cons.prems by (simp_all add: OCC_Load_inv, simp add: OCC_Load_def)
  then have "occ_inv (fold (\<lambda>(k, v, ts). OCC_Load k v ts) xs (OCC_Load k v ts s))" by (rule Cons.IH)
  then show ?case by (simp add: x)
qed simp

lemma occ_inv_loaded: "occ_inv (occ_loaded xs)"
  unfolding occ_loaded_def by (rule occ_inv_loads [OF occ_inv_init]) (simp add: OCCStore_init_def)

lemma occ_step_inv:
  assumes "occ_inv s" and "occ_step x s = Inr (a, s')"
  shows "occ_inv s'"
proof (cases x)
  case (OccPrepare t txn)
  with assms(2) have "s' = snd (OCC_Prepare t txn s)" by (cases "OCC_Prepare t txn s") simp
  with assms(1) show ?thesis by (simp add: OCC_Prepare_inv)
next
  case (OccCommit t ts)
  with assms(2) obtain b where b: "OCC_Commit t ts s = Inr (b, s')" by (cases "OCC_Commit t ts s") (simp_all, metis fst_map_prod id_apply prod.exhaust_sel snd_conv snd_map_prod)
  show ?thesis by (rule OCC_Commit_inv [OF assms(1) b])
next
  case (OccAbort t)
  with assms(2) have "s' = OCC_Clean t s" by (simp add: OCC_Abort_def)
  with assms(1) show ?thesis by (simp add: OCC_Clean_inv)
qed

lemma occ_run_inv: "occ_inv s \<Longrightarrow> occ_run xs s = Inr (as, s') \<Longrightarrow> occ_inv s'"
  by (induction xs s arbitrary: as rule: occ_run.induct) (fastforce split: sum.splits prod.splits dest: occ_step_inv)+

text \<open>\<^bold>\<open>C17\<close>
  Optimistic concurrency control in every run of prepares, commits and aborts over a
  loaded store: while a transaction is prepared, no version it has read has been
  overwritten, and no two prepared transactions touch a key that one of them writes.
  So the reads a transaction was validated on are still what is committed when it
  commits, and the order of the commits is a serial order.
\<close>

theorem occ_reads_stay_current:
  assumes "occ_run xs (occ_loaded kvs) = Inr (as, s)"
    and "map_of (occ_prepared s) t = Some txn"
  shows "list_all (\<lambda>(k, ts). case OCC_Get k s of (c, None) \<Rightarrow> True | (c, Some (ts', v)) \<Rightarrow> ts' = ts) (readSet txn)
    \<and> (\<forall>u other. u \<noteq> t \<longrightarrow> map_of (occ_prepared s) u = Some other \<longrightarrow> \<not> conflict txn other)"
proof -
  have inv: "occ_inv s" using occ_run_inv [OF occ_inv_loaded assms(1)] .
  then have "reads_current (occ_versions s) txn" using assms(2) by (auto simp: occ_inv_def)
  then have "list_all (\<lambda>(k, ts). case OCC_Get k s of (c, None) \<Rightarrow> True | (c, Some (ts', v)) \<Rightarrow> ts' = ts) (readSet txn)"
    by (fastforce simp: reads_current_def OCC_Get_def list_all_iff split: option.splits)
  moreover have "\<forall>u other. u \<noteq> t \<longrightarrow> map_of (occ_prepared s) u = Some other \<longrightarrow> \<not> conflict txn other"
    using occ_inv_apart [OF inv assms(2)] by blast
  ultimately show ?thesis ..
qed

text \<open>Two readers of one key are prepared together; the writer of it is refused.\<close>

definition demo_reader :: "key \<Rightarrow> transaction" where
  "demo_reader w = \<lparr>readSet = [(''k'', Timestamp 1 1)], writeSet = [(w, ''v'')], start_time = Timestamp_zero\<rparr>"

definition demo_prepares :: "occ_op list" where
  "demo_prepares = [OccPrepare 1 (demo_reader ''a''), OccPrepare 2 (demo_reader ''b''), OccPrepare 3 (demo_reader ''k'')]"

lemma occ_reads_stay_current_witness:
  "\<exists>s. occ_run demo_prepares (occ_loaded [(''k'', ''v'', Timestamp 1 1)])
      = Inr ([Prepared REPLY_OK, Prepared REPLY_OK, Prepared REPLY_FAIL], s)
    \<and> OCC_Get ''k'' s = (REPLY_OK, Some (Timestamp 1 1, ''v'')) \<and> \<not> conflict (demo_reader ''a'') (demo_reader ''b'')"
proof -
  define s where "s = snd (projr (occ_run demo_prepares (occ_loaded [(''k'', ''v'', Timestamp 1 1)])))"
  have run: "occ_run demo_prepares (occ_loaded [(''k'', ''v'', Timestamp 1 1)])
      = Inr ([Prepared REPLY_OK, Prepared REPLY_OK, Prepared REPLY_FAIL], s)"
    unfolding s_def by code_simp
  have prepared: "map_of (occ_prepared s) 1 = Some (demo_reader ''a'')" "map_of (occ_prepared s) 2 = Some (demo_reader ''b'')"
    unfolding s_def by code_simp+
  have "OCC_Get ''k'' s = (REPLY_OK, Some (Timestamp 1 1, ''v''))" unfolding s_def by code_simp
  moreover have "\<not> conflict (demo_reader ''a'') (demo_reader ''b'')"
    using occ_reads_stay_current [OF run prepared(1), THEN conjunct2, rule_format, OF _ prepared(2)] by simp
  ultimately show ?thesis using run by blast
qed

text \<open>
  The specification has no indexes: the committed versions, the prepared transactions,
  and a prepare that looks at all of them.
\<close>

record occ_spec =
  spec_versions :: "key \<Rightarrow> (timestamp \<times> val) option"
  spec_prepared :: "txn_id \<Rightarrow> transaction option"

definition occ_abs :: "occ_store \<Rightarrow> occ_spec" where
  "occ_abs s = \<lparr>spec_versions = map_of (occ_versions s), spec_prepared = map_of (occ_prepared s)\<rparr>"

definition spec_admits :: "occ_spec \<Rightarrow> transaction \<Rightarrow> bool" where
  "spec_admits a txn \<longleftrightarrow>
     (\<forall>(k, ts) \<in> set (readSet txn). case spec_versions a k of None \<Rightarrow> True | Some cur \<Rightarrow> fst cur = ts) \<and>
     (\<forall>u b. spec_prepared a u = Some b \<longrightarrow> \<not> conflict txn b)"

fun spec_step :: "occ_op \<Rightarrow> occ_spec \<Rightarrow> (occ_answer \<times> occ_spec) outcome" where
  "spec_step (OccPrepare t txn) a =
     Inr (if spec_prepared a t \<noteq> None then (Prepared REPLY_OK, a)
          else if spec_admits a txn then (Prepared REPLY_OK, a\<lparr>spec_prepared := (spec_prepared a)(t \<mapsto> txn)\<rparr>)
          else (Prepared REPLY_FAIL, a))"
| "spec_step (OccCommit t ts) a =
     (case spec_prepared a t of
        None \<Rightarrow> Inl AssertFailed
      | Some txn \<Rightarrow> Inr (Committed (writeSet txn \<noteq> []),
          a\<lparr>spec_versions := fold (\<lambda>(k, v) m. m(k \<mapsto> (ts, v))) (writeSet txn) (spec_versions a),
            spec_prepared := (spec_prepared a)(t := None)\<rparr>))"
| "spec_step (OccAbort t) a = Inr (Aborted, a\<lparr>spec_prepared := (spec_prepared a)(t := None)\<rparr>)"

fun spec_run :: "occ_op list \<Rightarrow> occ_spec \<Rightarrow> (occ_answer list \<times> occ_spec) outcome" where
  "spec_run [] a = Inr ([], a)"
| "spec_run (x # xs) a =
     (case spec_step x a of
        Inl e \<Rightarrow> Inl e
      | Inr (r, a') \<Rightarrow> (case spec_run xs a' of Inl e \<Rightarrow> Inl e | Inr (rs, a'') \<Rightarrow> Inr (r # rs, a'')))"

lemma spec_admits_abs: "spec_admits (occ_abs s) txn \<longleftrightarrow> occ_admits s txn"
  by (simp add: spec_admits_def occ_admits_def reads_current_def occ_abs_def Store_Get_def)

lemma map_of_store_fold:
  "map_of (fold (\<lambda>(k, v). Store_Put k (ts, v)) ws m) = fold (\<lambda>(k, v) m. m(k \<mapsto> (ts, v))) ws (map_of m)"
  by (induction ws arbitrary: m) (auto simp: Store_Put_def)

lemma occ_step_refines:
  assumes "occ_inv s"
  shows "map_sum id (map_prod id occ_abs) (occ_step x s) = spec_step x (occ_abs s)"
proof (cases x)
  case (OccPrepare t txn)
  have "occ_abs (PrepareTransaction t txn s) = (occ_abs s)\<lparr>spec_prepared := (map_of (occ_prepared s))(t \<mapsto> txn)\<rparr>"
    if "\<not> um_has (occ_prepared s) t"
    using that by (simp add: occ_abs_def PrepareTransaction_def map_of_emplace)
  moreover have "spec_prepared (occ_abs s) = map_of (occ_prepared s)" by (simp add: occ_abs_def)
  ultimately show ?thesis
    using OccPrepare by (simp add: OCC_Prepare_spec [OF assms] spec_admits_abs um_has_def)
next
  case (OccCommit t ts)
  then show ?thesis
    by (auto simp: OCC_Commit_def occ_abs_def map_of_store_fold split: option.splits)
next
  case (OccAbort t)
  then show ?thesis by (simp add: OCC_Abort_def occ_abs_def)
qed

lemma occ_run_refines:
  "occ_inv s \<Longrightarrow> map_sum id (map_prod id occ_abs) (occ_run xs s) = spec_run xs (occ_abs s)"
proof (induction xs arbitrary: s)
  case (Cons x xs)
  note step = occ_step_refines [OF Cons.prems, of x]
  show ?case
  proof (cases "occ_step x s")
    case (Inl e)
    then show ?thesis by (simp flip: step)
  next
    case (Inr r)
    obtain a s' where r: "r = (a, s')" by (cases r)
    with Inr have "occ_inv s'" using occ_step_inv [OF Cons.prems, of x a s'] by simp
    then have "map_sum id (map_prod id occ_abs) (occ_run xs s') = spec_run xs (occ_abs s')" by (rule Cons.IH)
    note this [symmetric]
    with Inr r show ?thesis
      by (cases "occ_run xs s'") (auto simp flip: step split: prod.splits)
  qed
qed simp

text \<open>\<^bold>\<open>C13\<close>
  Refinement: over any loaded store and any sequence of operations, the store with the
  indexes \<open>pWrites\<close> and \<open>pRW\<close> gives the answers of the specification, which compares a
  transaction with every prepared one, fails its assertion exactly when the
  specification does, and ends in the state the specification ends in.
\<close>

theorem occ_refines_spec:
  "map_sum id (map_prod id occ_abs) (occ_run xs (occ_loaded kvs)) = spec_run xs (occ_abs (occ_loaded kvs))"
  by (rule occ_run_refines) (rule occ_inv_loaded)

end
