(* ===== verification/BufferClient.thy ===== *)
theory BufferClient
  imports Transactions
begin

text \<open>
  \<open>src/store/common/frontend/bufferclient.{h,cc}\<close>: the client of one shard that buffers
  the writes of a transaction and answers reads from its own reads and writes. The
  client below it (\<open>TxnClient\<close>, an interface) is a trace of the calls made to it; its
  answer to a read is the operation \<open>BufferClient_GetReply\<close>, the body of \<open>bufferCb\<close>.
  Timeouts and timeout callbacks are only handed on and are left out.
\<close>

section \<open>The code\<close>

datatype 'cb bc_event =
    TxnBegin txn_id
  | TxnGet txn_id key "timestamp option" bool 'cb
  | TxnPut txn_id key val "timestamp option" 'cb
  | TxnPrepare txn_id transaction timestamp 'cb
  | TxnCommit txn_id transaction timestamp 'cb
  | TxnAbort txn_id transaction 'cb
  | GetAnswer 'cb reply_code key val timestamp
  | PutAnswer 'cb reply_code key val

record 'cb buffer_client =
  bc_bufferPuts :: bool
  bc_readSet :: "(key, val \<times> timestamp) umap"
  bc_txn :: transaction
  bc_tid :: txn_id
  bc_trace :: "'cb bc_event list"

definition BufferClient_init :: "bool \<Rightarrow> txn_id \<Rightarrow> 'cb buffer_client" where
  "BufferClient_init bufferPuts garbage =
     \<lparr>bc_bufferPuts = bufferPuts, bc_readSet = [], bc_txn = Transaction_init, bc_tid = garbage, bc_trace = []\<rparr>"

definition bc_emit :: "'cb bc_event \<Rightarrow> 'cb buffer_client \<Rightarrow> 'cb buffer_client" where
  "bc_emit e c = c\<lparr>bc_trace := bc_trace c @ [e]\<rparr>"

definition BufferClient_Begin :: "txn_id \<Rightarrow> 'cb buffer_client \<Rightarrow> 'cb buffer_client" where
  "BufferClient_Begin t c = bc_emit (TxnBegin t) (c\<lparr>bc_txn := Transaction_init, bc_readSet := [], bc_tid := t\<rparr>)"

text \<open>The two checks that each of the three reads makes before it asks the client below.\<close>

definition bc_read :: "key \<Rightarrow> 'cb \<Rightarrow> 'cb bc_event \<Rightarrow> 'cb buffer_client \<Rightarrow> 'cb buffer_client outcome" where
  "bc_read k gcb ask c =
     (case map_of (writeSet (bc_txn c)) k of
        Some v \<Rightarrow> Inr (bc_emit (GetAnswer gcb REPLY_OK k v Timestamp_zero) c)
      | None \<Rightarrow>
          if um_has (readSet (bc_txn c)) k then
            (case map_of (bc_readSet c) k of
               None \<Rightarrow> Inl AssertFailed
             | Some (v, ts) \<Rightarrow> Inr (bc_emit (GetAnswer gcb REPLY_OK k v ts) c))
          else Inr (bc_emit ask c))"

definition BufferClient_Get :: "key \<Rightarrow> 'cb \<Rightarrow> 'cb buffer_client \<Rightarrow> 'cb buffer_client outcome" where
  "BufferClient_Get k gcb c = bc_read k gcb (TxnGet (bc_tid c) k None False gcb) c"

definition BufferClient_GetAt :: "key \<Rightarrow> timestamp \<Rightarrow> 'cb \<Rightarrow> 'cb buffer_client \<Rightarrow> 'cb buffer_client outcome" where
  "BufferClient_GetAt k ts gcb c = bc_read k gcb (TxnGet (bc_tid c) k (Some ts) False gcb) c"

definition BufferClient_GetForUpdate :: "key \<Rightarrow> timestamp \<Rightarrow> 'cb \<Rightarrow> 'cb buffer_client \<Rightarrow> 'cb buffer_client outcome" where
  "BufferClient_GetForUpdate k ts gcb c = bc_read k gcb (TxnGet (bc_tid c) k (Some ts) True gcb) c"

definition BufferClient_GetReply :: "'cb \<Rightarrow> reply_code \<Rightarrow> key \<Rightarrow> val \<Rightarrow> timestamp \<Rightarrow> 'cb buffer_client \<Rightarrow> 'cb buffer_client" where
  "BufferClient_GetReply gcb status k v ts c =
     bc_emit (GetAnswer gcb status k v ts)
       (c\<lparr>bc_txn := addReadSet k ts (bc_txn c), bc_readSet := um_emplace k (v, ts) (bc_readSet c)\<rparr>)"

text \<open>The two \<open>Put\<close> overloads differ in the timestamp they hand on.\<close>

definition BufferClient_Put :: "key \<Rightarrow> val \<Rightarrow> timestamp option \<Rightarrow> 'cb \<Rightarrow> 'cb buffer_client \<Rightarrow> 'cb buffer_client" where
  "BufferClient_Put k v ts pcb c =
     bc_emit (if bc_bufferPuts c then PutAnswer pcb REPLY_OK k v else TxnPut (bc_tid c) k v ts pcb)
       (c\<lparr>bc_txn := addWriteSet k v (bc_txn c)\<rparr>)"

definition BufferClient_Prepare :: "timestamp \<Rightarrow> 'cb \<Rightarrow> 'cb buffer_client \<Rightarrow> 'cb buffer_client" where
  "BufferClient_Prepare ts pcb c = bc_emit (TxnPrepare (bc_tid c) (bc_txn c) ts pcb) c"

definition BufferClient_Commit :: "timestamp \<Rightarrow> 'cb \<Rightarrow> 'cb buffer_client \<Rightarrow> 'cb buffer_client" where
  "BufferClient_Commit ts ccb c = bc_emit (TxnCommit (bc_tid c) (bc_txn c) ts ccb) c"

definition BufferClient_Abort :: "'cb \<Rightarrow> 'cb buffer_client \<Rightarrow> 'cb buffer_client" where
  "BufferClient_Abort acb c = bc_emit (TxnAbort (bc_tid c) (bc_txn c) acb) c"

section \<open>Runs\<close>

datatype 'cb bc_op =
    BBegin txn_id
  | BGet key 'cb
  | BGetAt key timestamp 'cb
  | BGetForUpdate key timestamp 'cb
  | BReply 'cb reply_code key val timestamp
  | BPut key val "timestamp option" 'cb
  | BPrepare timestamp 'cb
  | BCommit timestamp 'cb
  | BAbort 'cb

fun bc_step :: "'cb bc_op \<Rightarrow> 'cb buffer_client \<Rightarrow> 'cb buffer_client outcome" where
  "bc_step (BBegin t) c = Inr (BufferClient_Begin t c)"
| "bc_step (BGet k cb) c = BufferClient_Get k cb c"
| "bc_step (BGetAt k ts cb) c = BufferClient_GetAt k ts cb c"
| "bc_step (BGetForUpdate k ts cb) c = BufferClient_GetForUpdate k ts cb c"
| "bc_step (BReply cb st k v ts) c = Inr (BufferClient_GetReply cb st k v ts c)"
| "bc_step (BPut k v ts cb) c = Inr (BufferClient_Put k v ts cb c)"
| "bc_step (BPrepare ts cb) c = Inr (BufferClient_Prepare ts cb c)"
| "bc_step (BCommit ts cb) c = Inr (BufferClient_Commit ts cb c)"
| "bc_step (BAbort cb) c = Inr (BufferClient_Abort cb c)"

text \<open>Every key of the transaction's read set has a value, which is what the code asserts.\<close>

definition bc_ok :: "'cb buffer_client \<Rightarrow> bool" where
  "bc_ok c \<longleftrightarrow> (\<forall>k. um_has (readSet (bc_txn c)) k \<longrightarrow> um_has (bc_readSet c) k)"

lemmas bc_defs = bc_emit_def BufferClient_Begin_def BufferClient_Get_def BufferClient_GetAt_def BufferClient_GetForUpdate_def
  BufferClient_GetReply_def BufferClient_Put_def BufferClient_Prepare_def BufferClient_Commit_def BufferClient_Abort_def
  addReadSet_def addWriteSet_def Transaction_init_def

lemma bc_ok_init: "bc_ok (BufferClient_init b t)"
  by (simp add: bc_ok_def BufferClient_init_def Transaction_init_def)

lemma bc_read_answers:
  assumes "bc_ok c"
  shows "\<exists>e. bc_read k gcb ask c = Inr (bc_emit e c)"
proof (cases "map_of (writeSet (bc_txn c)) k")
  case None
  show ?thesis
  proof (cases "um_has (readSet (bc_txn c)) k")
    case True
    with assms obtain v ts where "map_of (bc_readSet c) k = Some (v, ts)" by (auto simp: bc_ok_def um_has_def)
    with None True show ?thesis by (auto simp: bc_read_def)
  qed (use None in \<open>auto simp: bc_read_def\<close>)
qed (auto simp: bc_read_def)

lemma bc_step_total:
  assumes "bc_ok c"
  shows "\<exists>c'. bc_step x c = Inr c' \<and> bc_ok c'"
proof -
  have emit: "bc_ok (bc_emit e c)" for e using assms by (simp add: bc_ok_def bc_emit_def)
  then have read: "\<exists>c'. bc_read k gcb ask c = Inr c' \<and> bc_ok c'" for k gcb ask
    using bc_read_answers [OF assms, of k gcb ask] by auto
  show ?thesis
  proof (cases x)
    case (BGet k cb)
    then show ?thesis using read by (auto simp: BufferClient_Get_def)
  next
    case (BGetAt k ts cb)
    then show ?thesis using read by (auto simp: BufferClient_GetAt_def)
  next
    case (BGetForUpdate k ts cb)
    then show ?thesis using read by (auto simp: BufferClient_GetForUpdate_def)
  qed (use assms in \<open>auto simp: bc_defs bc_ok_def\<close>)
qed

lemma bc_run_total: "bc_ok c \<Longrightarrow> \<exists>c'. foldE bc_step xs c = Inr c' \<and> bc_ok c'"
  by (rule foldE_total [of bc_ok]) (simp_all add: bc_step_total)

text \<open>What a step does to the write set.\<close>

fun overwrites :: "key \<Rightarrow> 'cb bc_op \<Rightarrow> bool" where
  "overwrites k (BBegin t) = True"
| "overwrites k (BPut k' v ts cb) = (k' = k)"
| "overwrites k _ = False"

lemma bc_step_keeps_write:
  assumes "bc_step x c = Inr c'" and "\<not> overwrites k x"
  shows "map_of (writeSet (bc_txn c')) k = map_of (writeSet (bc_txn c)) k"
  using assms by (cases x) (auto simp: bc_defs bc_read_def split: option.splits if_splits)

lemma bc_run_keeps_write:
  assumes "foldE bc_step xs c = Inr c'" and "list_all (\<lambda>x. \<not> overwrites k x) xs"
  shows "map_of (writeSet (bc_txn c')) k = map_of (writeSet (bc_txn c)) k"
  using assms by (induction xs arbitrary: c) (auto dest: bc_step_keeps_write)

text \<open>Read your own writes. Over any sequence of calls and replies the buffering client
  never fails its assertions, and once a key has been put, every later read of it in
  the transaction is answered at once with the value put last, whatever is read,
  answered, prepared or put at other keys in between.
\<close>

theorem buffer_reads_own_writes:
  fixes xs :: "'cb bc_op list"
  assumes "list_all (\<lambda>x. \<not> overwrites k x) ys"
  shows "\<exists>c. foldE bc_step (xs @ [BPut k v ts pcb] @ ys @ [BGet k gcb]) (BufferClient_init b t) = Inr c
    \<and> last (bc_trace c) = GetAnswer gcb REPLY_OK k v Timestamp_zero"
proof -
  obtain c1 where c1: "foldE bc_step (xs @ [BPut k v ts pcb]) (BufferClient_init b t) = Inr c1" and ok1: "bc_ok c1"
    using bc_run_total [OF bc_ok_init] by blast
  have w1: "map_of (writeSet (bc_txn c1)) k = Some v"
    using c1 by (auto simp: foldE_append bc_defs)
  obtain c2 where c2: "foldE bc_step ys c1 = Inr c2" and ok2: "bc_ok c2" using bc_run_total [OF ok1] by blast
  have w2: "map_of (writeSet (bc_txn c2)) k = Some v" using bc_run_keeps_write [OF c2 assms] w1 by simp
  have "bc_step (BGet k gcb) c2 = Inr (bc_emit (GetAnswer gcb REPLY_OK k v Timestamp_zero) c2)"
    using w2 by (simp add: BufferClient_Get_def bc_read_def)
  moreover have "foldE bc_step (xs @ [BPut k v ts pcb] @ ys @ [BGet k gcb]) (BufferClient_init b t) = bc_step (BGet k gcb) c2"
    using foldE_append [of bc_step "xs @ [BPut k v ts pcb]" "ys @ [BGet k gcb]"] c1 c2
    by (simp add: foldE_append) (cases "bc_step (BGet k gcb) c2"; simp)
  ultimately show ?thesis by (simp add: bc_emit_def)
qed

lemma buffer_reads_own_writes_witness:
  "\<exists>c. foldE bc_step ([BBegin 7] @ [BPut ''k'' ''new'' None (0::nat)] @ [BReply 1 REPLY_OK ''k'' ''old'' (Timestamp 1 1)] @ [BGet ''k'' 2])
      (BufferClient_init True 0) = Inr c
    \<and> last (bc_trace c) = GetAnswer 2 REPLY_OK ''k'' ''new'' Timestamp_zero"
  by (rule buffer_reads_own_writes) simp

text \<open>
  A fault of the code. Two reads of one key may be under way together: the second reply
  leaves the value of the first in the client, and replaces its timestamp in the
  transaction that is validated. The value returned from then on is not the one of the
  version that is checked.
\<close>

lemma concurrent_reads_disagree:
  "\<exists>c. foldE bc_step [BBegin 7, BGet ''k'' (0::nat), BGet ''k'' 1, BReply 0 REPLY_OK ''k'' ''old'' (Timestamp 1 1),
        BReply 1 REPLY_OK ''k'' ''new'' (Timestamp 2 1), BGet ''k'' 2] (BufferClient_init True 0) = Inr c
    \<and> last (bc_trace c) = GetAnswer 2 REPLY_OK ''k'' ''old'' (Timestamp 1 1)
    \<and> map_of (readSet (bc_txn c)) ''k'' = Some (Timestamp 2 1)"
  by (simp add: bc_defs bc_read_def BufferClient_init_def um_has_def um_emplace_def)

end
