(* ===== verification/Partitioner.thy ===== *)
theory Partitioner
  imports Bytes
begin

text \<open>
  \<open>src/store/common/partitioner.{h,cc}\<close>: which shard keeps a key. The hash function
  (\<open>std::hash\<close>) is an argument, and a draw from \<open>uniform_int_distribution(a, b)\<close> is
  given the random number of the generator. Keys of the benchmark tables hold their
  warehouse and district numbers in their bytes; a key that is too short is read
  beyond the terminating NUL of \<open>c_str()\<close>.
\<close>

section \<open>The code\<close>

definition c_bytes :: "key \<Rightarrow> string" where
  "c_bytes k = k @ [CHR 0x00]"

definition uniform :: "u64 \<Rightarrow> u64 \<Rightarrow> nat \<Rightarrow> u64" where
  "uniform a b roll = a + of_nat (roll mod Suc (unat (b - a)))"

definition mod_shards :: "u64 \<Rightarrow> u64 \<Rightarrow> u64 outcome" where
  "mod_shards x nshards = (if nshards = 0 then Inl UndefinedBehaviour else Inr (x mod nshards))"

definition DefaultPartitioner :: "(key \<Rightarrow> u64) \<Rightarrow> key \<Rightarrow> u64 \<Rightarrow> u64 outcome" where
  "DefaultPartitioner hash k nshards = mod_shards (hash k) nshards"

definition WarehouseDistItemsPartitioner :: "key \<Rightarrow> u64 \<Rightarrow> u64 outcome" where
  "WarehouseDistItemsPartitioner k nshards =
     bindE (read_u32 (c_bytes k) 1) (\<lambda>w_id.
     bindE (if 9 \<le> length k then read_u32 (c_bytes k) 5 else Inr 0) (\<lambda>d_id.
       mod_shards (ucast ((w_id - 1) * 10 + d_id)) nshards))"

definition warehouse_only :: "key \<Rightarrow> u64 \<Rightarrow> u64 outcome" where
  "warehouse_only k nshards = bindE (read_u32 (c_bytes k) 1) (\<lambda>w_id. mod_shards (ucast w_id) nshards)"

definition warehouse_district :: "key \<Rightarrow> u64 \<Rightarrow> u64 outcome" where
  "warehouse_district k nshards =
     bindE (read_u32 (c_bytes k) 1) (\<lambda>w_id.
     bindE (read_u32 (c_bytes k) 5) (\<lambda>d_id.
       mod_shards (ucast ((w_id - 1) * 10 + (d_id - 1))) nshards))"

definition item_shard :: "u64 \<Rightarrow> int \<Rightarrow> int list \<Rightarrow> nat \<Rightarrow> u64" where
  "item_shard nshards grp txnGroups roll =
     (if grp = - 1 then
        if txnGroups \<noteq> [] then of_int (txnGroups ! unat (uniform 0 (of_nat (length txnGroups) - 1) roll))
        else uniform 0 nshards roll
      else of_int grp)"

definition WarehousePartitioner :: "key \<Rightarrow> u64 \<Rightarrow> int \<Rightarrow> int list \<Rightarrow> nat \<Rightarrow> u64 outcome" where
  "WarehousePartitioner k nshards grp txnGroups roll =
     (let table = of_char (hd (c_bytes k)) :: nat in
      if table = 0 \<or> table = 8 then warehouse_only k nshards
      else if table = 7 then Inr (item_shard nshards grp txnGroups roll)
      else if 1 \<le> table \<and> table \<le> 6 \<or> 9 \<le> table \<and> table \<le> 11 then warehouse_district k nshards
      else Inr 0)"

section \<open>Bounds\<close>

definition shard_number :: "u64 \<Rightarrow> int \<Rightarrow> bool" where
  "shard_number nshards g \<longleftrightarrow> 0 \<le> g \<and> g < 2 ^ 31 \<and> (of_int g :: u64) < nshards"

lemma of_char_item: "of_char c = (7::nat) \<Longrightarrow> c = CHR 0x07"
  using of_char_eq_iff [where ?'a = nat, of c "CHR 0x07"] by (simp del: of_char_eq_iff)

lemma read_u32_c_bytes: "p + 3 \<le> length k \<Longrightarrow> \<exists>v. read_u32 (c_bytes k) p = Inr v"
  by (simp add: read_u32_def read_string_def c_bytes_def)

lemma mod_shards_less: "nshards > 0 \<Longrightarrow> \<exists>s. mod_shards x nshards = Inr s \<and> s < nshards"
  by (simp add: mod_shards_def word_mod_less_divisor)

lemma uniform_index:
  assumes "xs \<noteq> []" and "length xs < 2 ^ 63"
  shows "unat (uniform 0 (of_nat (length xs) - 1) roll) < length xs"
proof -
  have "of_nat (length xs) - 1 = (of_nat (length xs - 1) :: u64)"
    using assms(1) by (cases xs) simp_all
  then have "unat (of_nat (length xs) - 1 :: u64) = length xs - 1"
    using assms(2) by (simp add: unat_of_nat_64)
  then have "Suc (unat (of_nat (length xs) - 1 :: u64)) = length xs" using assms(1) by (cases xs) simp_all
  then have "uniform 0 (of_nat (length xs) - 1) roll = of_nat (roll mod length xs)" by (simp add: uniform_def)
  moreover have "roll mod length xs < length xs" using assms(1) by simp
  ultimately show ?thesis using assms(2) by (simp add: unat_of_nat_64)
qed

lemma item_shard_less:
  assumes "grp \<noteq> - 1 \<or> txnGroups \<noteq> []" and "grp = - 1 \<or> shard_number nshards grp"
    and "\<forall>g \<in> set txnGroups. shard_number nshards g" and "length txnGroups < 2 ^ 63"
  shows "item_shard nshards grp txnGroups roll < nshards"
proof (cases "grp = - 1")
  case True
  then have "txnGroups ! unat (uniform 0 (of_nat (length txnGroups) - 1) roll) \<in> set txnGroups"
    using assms(1,4) uniform_index [of txnGroups roll] by simp
  with True assms(1,3) show ?thesis by (auto simp: item_shard_def shard_number_def)
qed (use assms(2) in \<open>auto simp: item_shard_def shard_number_def\<close>)

text \<open>Every partitioner names a shard that exists: for a positive number of shards and keys
  long enough for the numbers they hold, the shard returned is below the number of
  shards, provided the caller names valid groups, and for a row of the item table names
  at least one.
\<close>

theorem partitioners_name_shards:
  assumes "nshards > 0" and "8 \<le> length k"
    and "grp = - 1 \<or> shard_number nshards grp" and "\<forall>g \<in> set txnGroups. shard_number nshards g"
    and "length txnGroups < 2 ^ 63" and "grp = - 1 \<and> txnGroups = [] \<Longrightarrow> hd k \<noteq> CHR 0x07"
  shows "(\<exists>s. DefaultPartitioner hash k nshards = Inr s \<and> s < nshards)
    \<and> (\<exists>s. WarehouseDistItemsPartitioner k nshards = Inr s \<and> s < nshards)
    \<and> (\<exists>s. WarehousePartitioner k nshards grp txnGroups roll = Inr s \<and> s < nshards)"
proof -
  obtain w where w: "read_u32 (c_bytes k) 1 = Inr w" using read_u32_c_bytes [of 1 k] assms(2) by auto
  obtain d where d: "read_u32 (c_bytes k) 5 = Inr d" using read_u32_c_bytes [of 5 k] assms(2) by auto
  note less = mod_shards_less [OF assms(1)]
  have "k \<noteq> []" using assms(2) by auto
  then have hd: "hd (c_bytes k) = hd k" by (simp add: c_bytes_def)
  have "\<exists>s. WarehousePartitioner k nshards grp txnGroups roll = Inr s \<and> s < nshards"
  proof (cases "of_char (hd k) = (7::nat)")
    case True
    then have "hd k = CHR 0x07" by (rule of_char_item)
    then have "item_shard nshards grp txnGroups roll < nshards"
      using assms(3-6) by (intro item_shard_less) auto
    then show ?thesis using True by (simp add: WarehousePartitioner_def hd)
  next
    case False
    then show ?thesis
      using less assms(1) by (auto simp: WarehousePartitioner_def hd Let_def warehouse_only_def warehouse_district_def w [simplified] d)
  qed
  moreover have "\<exists>s. WarehouseDistItemsPartitioner k nshards = Inr s \<and> s < nshards"
    using less by (simp add: WarehouseDistItemsPartitioner_def w [simplified] d)
  ultimately show ?thesis using less by (simp add: DefaultPartitioner_def)
qed

lemma partitioners_name_shards_witness:
  "(\<exists>s. DefaultPartitioner (\<lambda>k. of_nat (length k)) (CHR 0x01 # put_u32 3 @ put_u32 2) 4 = Inr s \<and> s < 4)
    \<and> (\<exists>s. WarehouseDistItemsPartitioner (CHR 0x01 # put_u32 3 @ put_u32 2) 4 = Inr s \<and> s < 4)
    \<and> (\<exists>s. WarehousePartitioner (CHR 0x01 # put_u32 3 @ put_u32 2) 4 (- 1) [2, 0] 5 = Inr s \<and> s < 4)"
  by (rule partitioners_name_shards) (simp_all add: shard_number_def)

text \<open>A fault of the code. For a row of the item table and a transaction without groups the
  shard is drawn from \<open>uniform_int_distribution(0, nshards)\<close>, which includes its upper
  bound: for every number of shards one of the draws names a shard that does not exist.
\<close>

theorem item_draw_out_of_range:
  "\<exists>roll. WarehousePartitioner (CHR 0x07 # rest) nshards (- 1) [] roll = Inr nshards"
proof -
  have "uniform 0 nshards (unat nshards) = nshards" by (simp add: uniform_def)
  then have "WarehousePartitioner (CHR 0x07 # rest) nshards (- 1) [] (unat nshards) = Inr nshards"
    by (simp add: WarehousePartitioner_def item_shard_def c_bytes_def)
  then show ?thesis ..
qed

end
