(* ===== verification/LockServer.thy ===== *)
theory LockServer
  imports Prelude
begin

text \<open>
  \<open>src/store/common/backend/lockserver.{h,cc}\<close> and \<open>kvstore.{h,cc}\<close>: the stand-alone
  lock server with readers, one writer and a queue whose entries expire, and the
  store of value lists that goes with it. The clock (\<open>gettimeofday\<close>) is read once per
  call and is an argument; a waiter that \<open>waiters[w]\<close> would create has an
  uninitialised time, and using it is \<open>UndefinedBehaviour\<close>.
\<close>

section \<open>The code: key-value store\<close>

type_synonym kv_store = "(key, val list) umap"

definition KVStore_get :: "key \<Rightarrow> kv_store \<Rightarrow> val option" where
  "KVStore_get k st =
     (case map_of st k of None \<Rightarrow> None | Some vs \<Rightarrow> if vs = [] then None else Some (last vs))"

definition KVStore_put :: "key \<Rightarrow> val \<Rightarrow> kv_store \<Rightarrow> kv_store" where
  "KVStore_put k v st = um_put k (fst (um_ref [] st k) @ [v]) st"

definition KVStore_remove :: "key \<Rightarrow> kv_store \<Rightarrow> bool \<times> kv_store" where
  "KVStore_remove k st =
     (case map_of st k of
        None \<Rightarrow> (False, st)
      | Some vs \<Rightarrow> if vs = [] then (False, st) else (True, um_put k (butlast vs) st))"

text \<open>Removing a key gives its previous value back.\<close>

lemma KVStore_remove_put:
  "KVStore_get k' (snd (KVStore_remove k (KVStore_put k v st))) = KVStore_get k' st"
  by (auto simp: KVStore_get_def KVStore_remove_def KVStore_put_def um_ref_def split: option.splits)

lemma KVStore_get_put: "KVStore_get k' (KVStore_put k v st) = (if k' = k then Some v else KVStore_get k' st)"
  by (auto simp: KVStore_get_def KVStore_put_def)

section \<open>The code: locks\<close>

record timeval =
  tv_sec :: int
  tv_usec :: int

datatype ls_state = LS_UNLOCKED | LS_READ | LS_WRITE | LS_READ_WRITE

record ls_waiter =
  lw_write :: bool
  lw_waitTime :: timeval

record ls_lock =
  ll_state :: ls_state
  ll_holders :: "u64 uset"
  ll_waitQ :: "u64 list"
  ll_waiters :: "(u64, ls_waiter) umap"

definition LOCK_WAIT_TIMEOUT :: int where
  "LOCK_WAIT_TIMEOUT = 5000"

definition LS_Lock_init :: ls_lock where
  "LS_Lock_init = \<lparr>ll_state = LS_UNLOCKED, ll_holders = [], ll_waitQ = [], ll_waiters = []\<rparr>"

definition checkTimeout :: "timeval \<Rightarrow> ls_waiter \<Rightarrow> bool outcome" where
  "checkTimeout now w =
     (if tv_sec now > tv_sec (lw_waitTime w) then Inr True
      else assertE (tv_usec now > tv_usec (lw_waitTime w) \<and> tv_sec now = tv_sec (lw_waitTime w))
        (Inr (tv_usec now - tv_usec (lw_waitTime w) > LOCK_WAIT_TIMEOUT)))"

definition waitForLock :: "timeval \<Rightarrow> u64 \<Rightarrow> bool \<Rightarrow> ls_lock \<Rightarrow> ls_lock" where
  "waitForLock now requester write l =
     (if um_has (ll_waiters l) requester then l
      else l\<lparr>ll_waiters := um_put requester \<lparr>lw_write = write, lw_waitTime = now\<rparr> (ll_waiters l),
             ll_waitQ := ll_waitQ l @ [requester]\<rparr>)"

text \<open>
  The loop that drops expired entries, shared by \<open>tryAcquireLock\<close> and \<open>isWriteNext\<close>: a
  first entry without a waiter is created by \<open>operator[]\<close>, a later one is asserted.
\<close>

fun prune_queue :: "fault \<Rightarrow> timeval \<Rightarrow> u64 list \<Rightarrow> (u64, ls_waiter) umap \<Rightarrow> (u64 list \<times> (u64, ls_waiter) umap) outcome" where
  "prune_queue missing now [] ws = Inr ([], ws)"
| "prune_queue missing now (w # q) ws =
     (case map_of ws w of
        None \<Rightarrow> Inl missing
      | Some wt \<Rightarrow> bindE (checkTimeout now wt) (\<lambda>old.
          if old then prune_queue AssertFailed now q (um_erase w ws) else Inr (w # q, ws)))"

definition prune :: "timeval \<Rightarrow> ls_lock \<Rightarrow> ls_lock outcome" where
  "prune now l = bindE (prune_queue UndefinedBehaviour now (ll_waitQ l) (ll_waiters l)) (\<lambda>(q, ws).
     Inr (l\<lparr>ll_waitQ := q, ll_waiters := ws\<rparr>))"

definition tryAcquireLock :: "timeval \<Rightarrow> u64 \<Rightarrow> bool \<Rightarrow> ls_lock \<Rightarrow> (bool \<times> ls_lock) outcome" where
  "tryAcquireLock now requester write l0 =
     bindE (prune now l0) (\<lambda>l.
       case ll_waitQ l of
         [] \<Rightarrow> Inr (True, l)
       | w # q \<Rightarrow>
           if w = requester then
             (case map_of (ll_waiters l) requester of
                None \<Rightarrow> Inl AssertFailed
              | Some wt \<Rightarrow> assertE (lw_write wt = write)
                  (Inr (True, l\<lparr>ll_waitQ := q, ll_waiters := um_erase requester (ll_waiters l)\<rparr>)))
           else Inr (False, waitForLock now requester write l))"

definition LS_isWriteNext :: "timeval \<Rightarrow> ls_lock \<Rightarrow> (bool \<times> ls_lock) outcome" where
  "LS_isWriteNext now l0 =
     bindE (prune now l0) (\<lambda>l.
       case ll_waitQ l of
         [] \<Rightarrow> Inr (False, l)
       | w # q \<Rightarrow>
           (case map_of (ll_waiters l) w of None \<Rightarrow> Inl AssertFailed | Some wt \<Rightarrow> Inr (lw_write wt, l)))"

text \<open>The server: the locks and the two counters, which wrap.\<close>

record lock_server =
  ls_locks :: "(string, ls_lock) umap"
  ls_readers :: u64
  ls_writers :: u64

definition LockServer_init :: lock_server where
  "LockServer_init = \<lparr>ls_locks = [], ls_readers = 0, ls_writers = 0\<rparr>"

definition ls_at :: "string \<Rightarrow> lock_server \<Rightarrow> ls_lock" where
  "ls_at k s = fst (um_ref LS_Lock_init (ls_locks s) k)"

definition ls_set :: "string \<Rightarrow> ls_lock \<Rightarrow> lock_server \<Rightarrow> lock_server" where
  "ls_set k l s = s\<lparr>ls_locks := um_put k l (ls_locks s)\<rparr>"

text \<open>Answer, the lock afterwards, and what is added to the counter.\<close>

definition lock_read :: "timeval \<Rightarrow> u64 \<Rightarrow> ls_lock \<Rightarrow> (bool \<times> ls_lock \<times> u64) outcome" where
  "lock_read now requester l =
     (case ll_state l of
        LS_UNLOCKED \<Rightarrow>
          bindE (tryAcquireLock now requester False l) (\<lambda>(ok, l1).
            if ok then assertE (ll_holders l1 = [])
              (Inr (True, l1\<lparr>ll_state := LS_READ, ll_holders := us_add requester (ll_holders l1)\<rparr>, 1))
            else Inr (False, l1, 0))
      | LS_READ \<Rightarrow>
          if requester \<in> set (ll_holders l) then Inr (True, l, 0)
          else bindE (LS_isWriteNext now l) (\<lambda>(wn, l1).
            if wn then Inr (False, waitForLock now requester False l1, 0)
            else Inr (True, l1\<lparr>ll_holders := us_add requester (ll_holders l1)\<rparr>, 1))
      | _ \<Rightarrow>
          if requester \<in> set (ll_holders l) then Inr (True, l\<lparr>ll_state := LS_READ_WRITE\<rparr>, 1)
          else assertE (length (ll_holders l) = 1) (Inr (False, waitForLock now requester False l, 0)))"

definition lockForRead :: "timeval \<Rightarrow> string \<Rightarrow> u64 \<Rightarrow> lock_server \<Rightarrow> (bool \<times> lock_server) outcome" where
  "lockForRead now k requester s =
     bindE (lock_read now requester (ls_at k s)) (\<lambda>(ok, l, n). Inr (ok, (ls_set k l s)\<lparr>ls_readers := ls_readers s + n\<rparr>))"

definition lock_write :: "timeval \<Rightarrow> u64 \<Rightarrow> ls_lock \<Rightarrow> (bool \<times> ls_lock \<times> u64) outcome" where
  "lock_write now requester l =
     (case ll_state l of
        LS_UNLOCKED \<Rightarrow>
          bindE (tryAcquireLock now requester True l) (\<lambda>(ok, l1).
            if ok then assertE (ll_holders l1 = [])
              (Inr (True, l1\<lparr>ll_state := LS_WRITE, ll_holders := us_add requester (ll_holders l1)\<rparr>, 1))
            else Inr (False, l1, 0))
      | LS_READ \<Rightarrow>
          if length (ll_holders l) = 1 \<and> requester \<in> set (ll_holders l)
          then Inr (True, l\<lparr>ll_state := LS_READ_WRITE\<rparr>, 1)
          else Inr (False, waitForLock now requester True l, 0)
      | _ \<Rightarrow>
          assertE (length (ll_holders l) = 1)
          (if requester \<in> set (ll_holders l) then Inr (True, l, 0)
           else Inr (False, waitForLock now requester True l, 0)))"

definition lockForWrite :: "timeval \<Rightarrow> string \<Rightarrow> u64 \<Rightarrow> lock_server \<Rightarrow> (bool \<times> lock_server) outcome" where
  "lockForWrite now k requester s =
     bindE (lock_write now requester (ls_at k s)) (\<lambda>(ok, l, n). Inr (ok, (ls_set k l s)\<lparr>ls_writers := ls_writers s + n\<rparr>))"

definition releaseForRead :: "string \<Rightarrow> u64 \<Rightarrow> lock_server \<Rightarrow> lock_server" where
  "releaseForRead k holder s =
     (case map_of (ls_locks s) k of
        None \<Rightarrow> s
      | Some l \<Rightarrow>
          if holder \<notin> set (ll_holders l) then s
          else case ll_state l of
            LS_READ \<Rightarrow>
              (let hs = us_erase holder (ll_holders l) in
               (ls_set k (l\<lparr>ll_holders := hs, ll_state := (if hs = [] then LS_UNLOCKED else LS_READ)\<rparr>) s)
                 \<lparr>ls_readers := ls_readers s - 1\<rparr>)
          | LS_READ_WRITE \<Rightarrow> (ls_set k (l\<lparr>ll_state := LS_WRITE\<rparr>) s)\<lparr>ls_readers := ls_readers s - 1\<rparr>
          | _ \<Rightarrow> s)"

definition releaseForWrite :: "string \<Rightarrow> u64 \<Rightarrow> lock_server \<Rightarrow> lock_server outcome" where
  "releaseForWrite k holder s =
     (case map_of (ls_locks s) k of
        None \<Rightarrow> Inr s
      | Some l \<Rightarrow>
          if holder \<notin> set (ll_holders l) then Inr s
          else case ll_state l of
            LS_WRITE \<Rightarrow>
              (let hs = us_erase holder (ll_holders l) in
               assertE (hs = []) (Inr ((ls_set k (l\<lparr>ll_holders := hs, ll_state := LS_UNLOCKED\<rparr>) s)\<lparr>ls_writers := ls_writers s - 1\<rparr>)))
          | LS_READ_WRITE \<Rightarrow>
              assertE (length (ll_holders l) = 1)
                (Inr ((ls_set k (l\<lparr>ll_state := LS_READ\<rparr>) s)\<lparr>ls_writers := ls_writers s - 1\<rparr>))
          | _ \<Rightarrow> Inr s)"

section \<open>Invariant\<close>

definition queue_ok :: "u64 list \<Rightarrow> (u64, ls_waiter) umap \<Rightarrow> bool" where
  "queue_ok q ws \<longleftrightarrow> distinct q \<and> (\<forall>w. w \<in> set q \<longleftrightarrow> um_has ws w)"

definition holds_ok :: "ls_state \<Rightarrow> u64 uset \<Rightarrow> bool" where
  "holds_ok st hs \<longleftrightarrow> distinct hs \<and>
     (case st of LS_UNLOCKED \<Rightarrow> hs = [] | LS_READ \<Rightarrow> hs \<noteq> [] | _ \<Rightarrow> length hs = 1)"

definition ll_ok :: "ls_lock \<Rightarrow> bool" where
  "ll_ok l \<longleftrightarrow> queue_ok (ll_waitQ l) (ll_waiters l) \<and> holds_ok (ll_state l) (ll_holders l)"

definition ls_ok :: "lock_server \<Rightarrow> bool" where
  "ls_ok s \<longleftrightarrow> (\<forall>k l. map_of (ls_locks s) k = Some l \<longrightarrow> ll_ok l)"

lemma ll_ok_init [simp]: "ll_ok LS_Lock_init"
  by (simp add: ll_ok_def queue_ok_def holds_ok_def LS_Lock_init_def)

lemma ls_ok_at: "ls_ok s \<Longrightarrow> ll_ok (ls_at k s)"
  by (simp add: ls_ok_def ls_at_def um_ref_def split: option.splits)

lemma ls_ok_set: "ls_ok s \<Longrightarrow> ll_ok l \<Longrightarrow> ls_ok (ls_set k l s)"
  by (simp add: ls_ok_def ls_set_def)

lemma ls_ok_counters [simp]: "ls_ok (s\<lparr>ls_readers := a\<rparr>) = ls_ok s" "ls_ok (s\<lparr>ls_writers := a\<rparr>) = ls_ok s"
  by (simp_all add: ls_ok_def)

lemma waitForLock_ok: "ll_ok l \<Longrightarrow> ll_ok (waitForLock now r w l)"
  by (auto simp: ll_ok_def queue_ok_def waitForLock_def)

lemma waitForLock_holds [simp]:
  "ll_state (waitForLock now r w l) = ll_state l" "ll_holders (waitForLock now r w l) = ll_holders l"
  by (simp_all add: waitForLock_def)

lemma prune_queue_ok:
  assumes "prune_queue f now q ws = Inr (q', ws')" and "queue_ok q ws"
  shows "queue_ok q' ws'"
  using assms
proof (induction f now q ws rule: prune_queue.induct)
  case (2 missing now w q ws)
  obtain wt where wt: "map_of ws w = Some wt" using 2(3) by (auto simp: queue_ok_def um_has_def)
  with 2(2) obtain old where old: "checkTimeout now wt = Inr old" by auto
  show ?case
  proof (cases old)
    case True
    have "queue_ok q (um_erase w ws)" using 2(3) by (auto simp: queue_ok_def)
    then show ?thesis using 2(1) [OF wt, of old] 2(2) wt old True by simp
  qed (use 2 wt old in simp)
qed simp

lemma prune_ok:
  assumes "prune now l = Inr l'" and "ll_ok l"
  shows "ll_ok l'" and "ll_holders l' = ll_holders l" and "ll_state l' = ll_state l"
  using assms prune_queue_ok [of UndefinedBehaviour now "ll_waitQ l" "ll_waiters l"]
  by (auto simp: prune_def ll_ok_def)

lemma tryAcquireLock_ok:
  assumes "tryAcquireLock now r w l = Inr (ok, l')" and "ll_ok l"
  shows "ll_ok l'" and "ll_holders l' = ll_holders l" and "ll_state l' = ll_state l"
proof -
  obtain l1 where l1: "prune now l = Inr l1" using assms(1) by (auto simp: tryAcquireLock_def)
  note p = prune_ok [OF l1 assms(2)]
  have "ll_ok l' \<and> ll_holders l' = ll_holders l1 \<and> ll_state l' = ll_state l1"
  proof (cases "ll_waitQ l1")
    case Nil
    then show ?thesis using assms(1) l1 p by (simp add: tryAcquireLock_def)
  next
    case (Cons v q)
    show ?thesis
    proof (cases "v = r")
      case True
      have "queue_ok q (um_erase r (ll_waiters l1))" using p(1) Cons True by (auto simp: ll_ok_def queue_ok_def)
      then show ?thesis
        using assms(1) l1 p(1) Cons True by (auto simp: tryAcquireLock_def ll_ok_def split: option.splits)
    next
      case False
      then show ?thesis using assms(1) l1 p(1) Cons by (auto simp: tryAcquireLock_def waitForLock_ok)
    qed
  qed
  with p show "ll_ok l'" and "ll_holders l' = ll_holders l" and "ll_state l' = ll_state l" by simp_all
qed

lemma isWriteNext_ok:
  assumes "LS_isWriteNext now l = Inr (wn, l')" and "ll_ok l"
  shows "ll_ok l'" and "ll_holders l' = ll_holders l" and "ll_state l' = ll_state l"
proof -
  obtain l1 where l1: "prune now l = Inr l1" using assms(1) by (auto simp: LS_isWriteNext_def)
  then have "l' = l1" using assms(1) by (auto simp: LS_isWriteNext_def split: list.splits option.splits)
  then show "ll_ok l'" and "ll_holders l' = ll_holders l" and "ll_state l' = ll_state l"
    using prune_ok [OF l1 assms(2)] by simp_all
qed

lemma ll_ok_hold_read:
  assumes "ll_ok l" and "r \<notin> set (ll_holders l)" and "ll_state l = LS_READ \<or> ll_state l = LS_UNLOCKED"
  shows "ll_ok (l\<lparr>ll_state := LS_READ, ll_holders := us_add r (ll_holders l)\<rparr>)"
  using assms by (auto simp: ll_ok_def holds_ok_def)

lemma lock_read_ok:
  assumes "lock_read now r l = Inr (ok, l', n)" and "ll_ok l"
  shows "ll_ok l'" and "ok \<Longrightarrow> r \<in> set (ll_holders l')"
proof -
  have "ll_ok l' \<and> (ok \<longrightarrow> r \<in> set (ll_holders l'))"
  proof (cases "ll_state l")
    case LS_UNLOCKED
    then obtain b l1 where l1: "tryAcquireLock now r False l = Inr (b, l1)"
      using assms(1) by (auto simp: lock_read_def)
    note t = tryAcquireLock_ok [OF l1 assms(2)]
    show ?thesis
    proof (cases b)
      case True
      then have l': "ok" "l' = l1\<lparr>ll_state := LS_READ, ll_holders := us_add r (ll_holders l1)\<rparr>" "ll_holders l1 = []"
        using assms(1) l1 LS_UNLOCKED by (auto simp: lock_read_def)
      moreover have "ll_ok (l1\<lparr>ll_state := LS_READ, ll_holders := us_add r (ll_holders l1)\<rparr>)"
        using t LS_UNLOCKED l'(3) by (intro ll_ok_hold_read) simp_all
      ultimately show ?thesis by simp
    next
      case False
      then show ?thesis using assms(1) l1 LS_UNLOCKED t(1) by (auto simp: lock_read_def)
    qed
  next
    case LS_READ
    show ?thesis
    proof (cases "r \<in> set (ll_holders l)")
      case True
      then show ?thesis using assms LS_READ by (auto simp: lock_read_def)
    next
      case False
      then obtain wn l1 where l1: "LS_isWriteNext now l = Inr (wn, l1)"
        using assms(1) LS_READ by (auto simp: lock_read_def)
      note t = isWriteNext_ok [OF l1 assms(2)]
      show ?thesis
      proof (cases wn)
        case True
        then show ?thesis using assms(1) False l1 LS_READ t(1) by (auto simp: lock_read_def waitForLock_ok)
      next
        case wn: False
        then have "l' = l1\<lparr>ll_state := LS_READ, ll_holders := us_add r (ll_holders l1)\<rparr>"
          using assms(1) False l1 LS_READ t(3) by (auto simp: lock_read_def)
        moreover have "ll_ok (l1\<lparr>ll_state := LS_READ, ll_holders := us_add r (ll_holders l1)\<rparr>)"
          using t LS_READ False by (intro ll_ok_hold_read) simp_all
        ultimately show ?thesis by simp
      qed
    qed
  qed (use assms in \<open>auto simp: lock_read_def waitForLock_ok split: if_splits, auto simp: ll_ok_def holds_ok_def\<close>)
  then show "ll_ok l'" and "ok \<Longrightarrow> r \<in> set (ll_holders l')" by simp_all
qed

lemma lock_write_ok:
  assumes "lock_write now r l = Inr (ok, l', n)" and "ll_ok l"
  shows "ll_ok l'" and "ok \<Longrightarrow> ll_holders l' = [r]"
proof -
  have one: "hs = [r]" if "length hs = 1" "r \<in> set hs" for hs using that by (cases hs) auto
  have "ll_ok l' \<and> (ok \<longrightarrow> ll_holders l' = [r])"
  proof (cases "ll_state l")
    case LS_UNLOCKED
    then obtain b l1 where l1: "tryAcquireLock now r True l = Inr (b, l1)"
      using assms(1) by (auto simp: lock_write_def)
    note t = tryAcquireLock_ok [OF l1 assms(2)]
    show ?thesis
    proof (cases b)
      case True
      then have "l' = l1\<lparr>ll_state := LS_WRITE, ll_holders := [r]\<rparr>"
        using assms(1) l1 LS_UNLOCKED by (auto simp: lock_write_def)
      moreover have "ll_ok (l1\<lparr>ll_state := LS_WRITE, ll_holders := [r]\<rparr>)" using t(1) by (auto simp: ll_ok_def holds_ok_def)
      ultimately show ?thesis by simp
    next
      case False
      then show ?thesis using assms(1) l1 LS_UNLOCKED t(1) by (auto simp: lock_write_def)
    qed
  next
    case LS_READ
    then show ?thesis
      using assms by (auto simp: lock_write_def waitForLock_ok one split: if_splits) (auto simp: ll_ok_def holds_ok_def)
  qed (use assms one in \<open>auto simp: lock_write_def waitForLock_ok split: if_splits\<close>)
  then show "ll_ok l'" and "ok \<Longrightarrow> ll_holders l' = [r]" by simp_all
qed

lemma releaseForRead_ok:
  assumes "ls_ok s"
  shows "ls_ok (releaseForRead k h s)"
proof (cases "map_of (ls_locks s) k")
  case None
  with assms show ?thesis by (simp add: releaseForRead_def)
next
  case (Some l)
  with assms have "ll_ok l" by (auto simp: ls_ok_def)
  with Some assms show ?thesis
    by (auto simp: releaseForRead_def Let_def split: ls_state.splits intro!: ls_ok_set)
      (auto simp: ll_ok_def holds_ok_def distinct_removeAll)
qed

lemma releaseForWrite_ok:
  assumes "releaseForWrite k h s = Inr s'" and "ls_ok s"
  shows "ls_ok s'"
proof (cases "map_of (ls_locks s) k")
  case None
  with assms show ?thesis by (simp add: releaseForWrite_def)
next
  case (Some l)
  with assms(2) have "ll_ok l" by (auto simp: ls_ok_def)
  with Some assms show ?thesis
    by (auto simp: releaseForWrite_def Let_def split: ls_state.splits if_splits intro!: ls_ok_set)
      (auto simp: ll_ok_def holds_ok_def)
qed

section \<open>Runs\<close>

datatype ls_op =
    LS_lockRead timeval string u64
  | LS_lockWrite timeval string u64
  | LS_releaseRead string u64
  | LS_releaseWrite string u64

fun ls_step :: "ls_op \<Rightarrow> lock_server \<Rightarrow> lock_server outcome" where
  "ls_step (LS_lockRead now k r) s = bindE (lockForRead now k r s) (\<lambda>(ok, s'). Inr s')"
| "ls_step (LS_lockWrite now k r) s = bindE (lockForWrite now k r s) (\<lambda>(ok, s'). Inr s')"
| "ls_step (LS_releaseRead k h) s = Inr (releaseForRead k h s)"
| "ls_step (LS_releaseWrite k h) s = releaseForWrite k h s"

lemma ls_step_ok: "ls_step x s = Inr s' \<Longrightarrow> ls_ok s \<Longrightarrow> ls_ok s'"
  by (cases x)
    (auto simp: lockForRead_def lockForWrite_def releaseForRead_ok
      intro: releaseForWrite_ok intro!: ls_ok_set dest: lock_read_ok(1) lock_write_ok(1) ls_ok_at)

lemma ls_run_ok: "foldE ls_step xs LockServer_init = Inr s \<Longrightarrow> ls_ok s"
  by (rule foldE_invariant [where I = ls_ok]) (auto simp: ls_step_ok, simp add: ls_ok_def LockServer_init_def)

text \<open>
  A write lock that is granted is held by the requester alone, a read lock that is
  granted is held by the requester.
\<close>

theorem lock_server_grants:
  assumes "foldE ls_step xs LockServer_init = Inr s"
  shows "lockForWrite now k r s = Inr (True, s') \<Longrightarrow> ll_holders (ls_at k s') = [r]"
    and "lockForRead now k r s = Inr (True, s') \<Longrightarrow> r \<in> set (ll_holders (ls_at k s'))"
proof -
  have ok: "ll_ok (ls_at k s)" using ls_ok_at [OF ls_run_ok [OF assms]] .
  show "ll_holders (ls_at k s') = [r]" if "lockForWrite now k r s = Inr (True, s')"
    using that lock_write_ok(2) [OF _ ok] by (auto simp: lockForWrite_def ls_at_def ls_set_def um_ref_def)
  show "r \<in> set (ll_holders (ls_at k s'))" if "lockForRead now k r s = Inr (True, s')"
    using that lock_read_ok(2) [OF _ ok] by (auto simp: lockForRead_def ls_at_def ls_set_def um_ref_def)
qed

text \<open>
  Two faults of the code. A requester that is queued for reading and asks to write when
  the lock is free fails an assertion; and so does any request that finds a waiter
  queued within the same microsecond.
\<close>

lemma queued_reader_asks_write:
  "foldE ls_step [LS_lockWrite \<lparr>tv_sec = 0, tv_usec = 0\<rparr> ''k'' 1, LS_lockRead \<lparr>tv_sec = 0, tv_usec = 1\<rparr> ''k'' 2,
      LS_releaseWrite ''k'' 1, LS_lockWrite \<lparr>tv_sec = 0, tv_usec = 2\<rparr> ''k'' 2] LockServer_init = Inl AssertFailed"
  by code_simp

lemma same_microsecond:
  "foldE ls_step [LS_lockWrite \<lparr>tv_sec = 0, tv_usec = 0\<rparr> ''k'' 1, LS_lockRead \<lparr>tv_sec = 0, tv_usec = 1\<rparr> ''k'' 2,
      LS_releaseWrite ''k'' 1, LS_lockRead \<lparr>tv_sec = 0, tv_usec = 1\<rparr> ''k'' 2] LockServer_init = Inl AssertFailed"
  by code_simp

end
