(* ===== verification/IrReplica.thy ===== *)
theory IrReplica
  imports VrReplica VrLogInv "HOL-Library.Product_Lexorder" "HOL-Library.List_Lexorder" "HOL-Library.Char_ord"
begin

text \<open>
  \<open>src/replication/ir/record.{h,cc}\<close> and \<open>replica.{h,cc}\<close>: inconsistent replication, in
  which replicas keep an unordered record of operations instead of a log, and a view
  change merges the records of a quorum. A \<open>std::map\<close> is an association list sorted by
  key. The application's upcalls (\<open>IRAppReplica\<close>) are a record of functions on its state;
  the file that keeps the view numbers over a restart (\<open>lib/persistent_register\<close>) is a
  field of the state, and messages sent and timer resets are a trace.
\<close>

section \<open>Records\<close>

type_synonym opid = "u64 \<times> u64"

datatype entry_state = RECORD_STATE_TENTATIVE | RECORD_STATE_FINALIZED

datatype entry_type = RECORD_TYPE_INCONSISTENT | RECORD_TYPE_CONSENSUS

record record_entry =
  ie_view :: u64
  ie_opid :: opid
  ie_state :: entry_state
  ie_type :: entry_type
  ie_request :: vr_request
  ie_result :: string

type_synonym ir_record = "(opid \<times> record_entry) list"

definition Record_Add :: "record_entry \<Rightarrow> ir_record \<Rightarrow> ir_record outcome" where
  "Record_Add e r = assertE (\<not> um_has r (ie_opid e)) (Inr (om_put (ie_opid e) e r))"

text \<open>The \<open>Add\<close> with the fields and a result sets the result after adding the entry.\<close>

definition ir_entry :: "u64 \<Rightarrow> opid \<Rightarrow> vr_request \<Rightarrow> entry_state \<Rightarrow> entry_type \<Rightarrow> string \<Rightarrow> record_entry" where
  "ir_entry v opid req st ty res =
     \<lparr>ie_view = v, ie_opid = opid, ie_state = st, ie_type = ty, ie_request = req, ie_result = res\<rparr>"

definition Record_Find :: "opid \<Rightarrow> ir_record \<Rightarrow> record_entry option outcome" where
  "Record_Find opid r =
     (case map_of r opid of None \<Rightarrow> Inr None | Some e \<Rightarrow> assertE (ie_opid e = opid) (Inr (Some e)))"

definition record_update :: "opid \<Rightarrow> (record_entry \<Rightarrow> record_entry) \<Rightarrow> ir_record \<Rightarrow> (bool \<times> ir_record) outcome" where
  "record_update opid f r =
     bindE (Record_Find opid r) (\<lambda>eo.
       case eo of None \<Rightarrow> Inr (False, r) | Some e \<Rightarrow> Inr (True, om_put opid (f e) r))"

definition Record_SetStatus :: "opid \<Rightarrow> entry_state \<Rightarrow> ir_record \<Rightarrow> (bool \<times> ir_record) outcome" where
  "Record_SetStatus opid st r = record_update opid (\<lambda>e. e\<lparr>ie_state := st\<rparr>) r"

definition Record_SetResult :: "opid \<Rightarrow> string \<Rightarrow> ir_record \<Rightarrow> (bool \<times> ir_record) outcome" where
  "Record_SetResult opid res r = record_update opid (\<lambda>e. e\<lparr>ie_result := res\<rparr>) r"

definition Record_SetRequest :: "opid \<Rightarrow> vr_request \<Rightarrow> ir_record \<Rightarrow> (bool \<times> ir_record) outcome" where
  "Record_SetRequest opid req r = record_update opid (\<lambda>e. e\<lparr>ie_request := req\<rparr>) r"

definition Record_Remove :: "opid \<Rightarrow> ir_record \<Rightarrow> ir_record" where
  "Record_Remove opid r = um_erase opid r"

definition Record_Empty :: "ir_record \<Rightarrow> bool" where
  "Record_Empty r \<longleftrightarrow> r = []"

text \<open>The message form of an entry has the operation, but not the client numbers, of the request.\<close>

record record_entry_proto =
  ep_view :: u64
  ep_opid :: opid
  ep_state :: entry_state
  ep_type :: entry_type
  ep_op :: string
  ep_result :: string

definition Record_ToProto :: "ir_record \<Rightarrow> record_entry_proto list" where
  "Record_ToProto r = map (\<lambda>(_, e). \<lparr>ep_view = ie_view e, ep_opid = ie_opid e, ep_state = ie_state e,
     ep_type = ie_type e, ep_op = rq_op (ie_request e), ep_result = ie_result e\<rparr>) r"

definition proto_entry :: "record_entry_proto \<Rightarrow> record_entry" where
  "proto_entry p = ir_entry (ep_view p) (ep_opid p)
     \<lparr>rq_op = ep_op p, rq_clientid = fst (ep_opid p), rq_clientreqid = snd (ep_opid p)\<rparr>
     (ep_state p) (ep_type p) (ep_result p)"

definition Record_of_proto :: "record_entry_proto list \<Rightarrow> ir_record outcome" where
  "Record_of_proto ps = foldE (\<lambda>p. Record_Add (proto_entry p)) ps []"

section \<open>The replica\<close>

record ir_do_view_change =
  id_replicaidx :: int
  id_record :: "record_entry_proto list option"
  id_new_view :: u64
  id_latest_normal_view :: u64

datatype ir_message =
    ReplyInconsistent u64 int opid bool
  | ReplyConsensus u64 int opid string bool
  | Confirm u64 int opid
  | IrDoViewChange ir_do_view_change
  | IrStartView "record_entry_proto list" u64
  | IrUnloggedReply string u64

datatype ir_event =
    IrSendTo addr ir_message
  | IrSendToReplica int ir_message
  | IrSendToAll ir_message
  | IrViewChangeTimerReset

record 'a ir_app =
  ExecInconsistentUpcall :: "string \<Rightarrow> 'a \<Rightarrow> 'a"
  ExecConsensusUpcall :: "string \<Rightarrow> 'a \<Rightarrow> string \<times> 'a"
  IrUnloggedUpcall :: "string \<Rightarrow> 'a \<Rightarrow> string \<times> 'a"
  IrSync :: "ir_record \<Rightarrow> 'a \<Rightarrow> 'a"
  IrMerge :: "(opid \<times> record_entry list) list \<Rightarrow> (opid \<times> record_entry list) list \<Rightarrow> (opid \<times> string) list \<Rightarrow> 'a
    \<Rightarrow> (opid \<times> string) list \<times> 'a"

record 'a ir_replica =
  ir_status :: replica_status
  ir_view :: u64
  ir_latest_normal_view :: u64
  ir_persisted :: "(u64 \<times> u64) option"
  ir_record :: ir_record
  ir_quorum :: "(u64, ir_do_view_change) quorum_set"
  ir_appstate :: 'a
  ir_trace :: "ir_event list"

text \<open>An \<open>IRAppReplica\<close> that overrides nothing: every upcall does nothing and \<open>Merge\<close> answers no operation.\<close>

definition IRAppReplica :: "'a ir_app" where
  "IRAppReplica = \<lparr>ExecInconsistentUpcall = (\<lambda>_ a. a), ExecConsensusUpcall = (\<lambda>_ a. ([], a)),
     IrUnloggedUpcall = (\<lambda>_ a. ([], a)), IrSync = (\<lambda>_ a. a), IrMerge = (\<lambda>_ _ _ a. ([], a))\<rparr>"

definition ir_emit :: "ir_event \<Rightarrow> 'a ir_replica \<Rightarrow> 'a ir_replica" where
  "ir_emit e r = r\<lparr>ir_trace := ir_trace r @ [e]\<rparr>"

definition PersistViewInfo :: "'a ir_replica \<Rightarrow> 'a ir_replica" where
  "PersistViewInfo r = r\<lparr>ir_persisted := Some (ir_view r, ir_latest_normal_view r)\<rparr>"

definition RecoverViewInfo :: "'a ir_replica \<Rightarrow> 'a ir_replica" where
  "RecoverViewInfo r =
     (case ir_persisted r of None \<Rightarrow> r | Some (v, l) \<Rightarrow> r\<lparr>ir_view := v, ir_latest_normal_view := l\<rparr>)"

definition BroadcastDoViewChangeMessages :: "vr_config \<Rightarrow> 'a ir_replica \<Rightarrow> 'a ir_replica" where
  "BroadcastDoViewChangeMessages cf r =
     (let leader = GetLeaderIndex cf (ir_view r);
          msg = (\<lambda>rec. IrDoViewChange \<lparr>id_replicaidx = cf_myIdx cf, id_record = rec, id_new_view = ir_view r,
            id_latest_normal_view = ir_latest_normal_view r\<rparr>);
          others = filter (\<lambda>i. i \<noteq> cf_myIdx cf \<and> i \<noteq> leader) (map int [0..<cf_n cf]);
          r1 = fold (\<lambda>i. ir_emit (IrSendToReplica i (msg None))) others r
      in if leader \<noteq> cf_myIdx cf then ir_emit (IrSendToReplica leader (msg (Some (Record_ToProto (ir_record r))))) r1
         else r1)"

text \<open>The constructor, given what the file holds: a replica that ran before starts in recovery.\<close>

definition IRReplica_init :: "vr_config \<Rightarrow> (u64 \<times> u64) option \<Rightarrow> 'a \<Rightarrow> 'a ir_replica" where
  "IRReplica_init cf file a =
     (let r = \<lparr>ir_status = STATUS_NORMAL, ir_view = 0, ir_latest_normal_view = 0, ir_persisted = file, ir_record = [],
        ir_quorum = QuorumSet_init (cf_f cf), ir_appstate = a, ir_trace = []\<rparr>;
          started = (if file \<noteq> None then
            (let r1 = RecoverViewInfo (r\<lparr>ir_status := STATUS_RECOVERING\<rparr>);
                 v = ir_view r1 + 1;
                 r2 = r1\<lparr>ir_view := (if cf_myIdx cf = GetLeaderIndex cf v then v + 1 else v)\<rparr>
             in BroadcastDoViewChangeMessages cf (PersistViewInfo r2))
          else PersistViewInfo r)
      in ir_emit IrViewChangeTimerReset started)"

definition HandleProposeInconsistent :: "vr_config \<Rightarrow> addr \<Rightarrow> vr_request \<Rightarrow> 'a ir_replica \<Rightarrow> 'a ir_replica outcome" where
  "HandleProposeInconsistent cf remote req r =
     (let opid = (rq_clientid req, rq_clientreqid req) in
      bindE (Record_Find opid (ir_record r)) (\<lambda>eo.
        case eo of
          Some e \<Rightarrow> Inr (ir_emit (IrSendTo remote
            (ReplyInconsistent (ie_view e) (cf_myIdx cf) opid (ie_state e = RECORD_STATE_FINALIZED))) r)
        | None \<Rightarrow>
            bindE (Record_Add (ir_entry (ir_view r) opid req RECORD_STATE_TENTATIVE RECORD_TYPE_INCONSISTENT []) (ir_record r)) (\<lambda>rec.
              Inr (ir_emit (IrSendTo remote (ReplyInconsistent (ir_view r) (cf_myIdx cf) opid False)) (r\<lparr>ir_record := rec\<rparr>)))))"

definition HandleFinalizeInconsistent :: "vr_config \<Rightarrow> 'a ir_app \<Rightarrow> addr \<Rightarrow> opid \<Rightarrow> 'a ir_replica \<Rightarrow> 'a ir_replica outcome" where
  "HandleFinalizeInconsistent cf app remote opid r =
     bindE (Record_Find opid (ir_record r)) (\<lambda>eo.
       case eo of
         Some e \<Rightarrow>
           if ie_state e = RECORD_STATE_TENTATIVE then
             bindE (Record_SetStatus opid RECORD_STATE_FINALIZED (ir_record r)) (\<lambda>(_, rec).
               Inr (ir_emit (IrSendTo remote (Confirm (ir_view r) (cf_myIdx cf) opid))
                 (r\<lparr>ir_record := rec, ir_appstate := ExecInconsistentUpcall app (rq_op (ie_request e)) (ir_appstate r)\<rparr>)))
           else Inr r
       | None \<Rightarrow> Inr r)"

definition HandleProposeConsensus :: "vr_config \<Rightarrow> 'a ir_app \<Rightarrow> addr \<Rightarrow> vr_request \<Rightarrow> 'a ir_replica \<Rightarrow> 'a ir_replica outcome" where
  "HandleProposeConsensus cf app remote req r =
     (let opid = (rq_clientid req, rq_clientreqid req) in
      bindE (Record_Find opid (ir_record r)) (\<lambda>eo.
        case eo of
          Some e \<Rightarrow> Inr (ir_emit (IrSendTo remote
            (ReplyConsensus (ie_view e) (cf_myIdx cf) opid (ie_result e) (ie_state e = RECORD_STATE_FINALIZED))) r)
        | None \<Rightarrow>
            (let (result, a) = ExecConsensusUpcall app (rq_op req) (ir_appstate r) in
             bindE (Record_Add (ir_entry (ir_view r) opid req RECORD_STATE_TENTATIVE RECORD_TYPE_CONSENSUS result) (ir_record r)) (\<lambda>rec.
               Inr (ir_emit (IrSendTo remote (ReplyConsensus (ir_view r) (cf_myIdx cf) opid result False))
                 (r\<lparr>ir_record := rec, ir_appstate := a\<rparr>))))))"

definition HandleFinalizeConsensus :: "vr_config \<Rightarrow> addr \<Rightarrow> opid \<Rightarrow> string \<Rightarrow> 'a ir_replica \<Rightarrow> 'a ir_replica outcome" where
  "HandleFinalizeConsensus cf remote opid result r =
     bindE (Record_Find opid (ir_record r)) (\<lambda>eo.
       case eo of
         Some e \<Rightarrow>
           bindE (record_update opid (\<lambda>e. e\<lparr>ie_state := RECORD_STATE_FINALIZED,
               ie_result := (if result \<noteq> ie_result e then result else ie_result e)\<rparr>) (ir_record r)) (\<lambda>(_, rec).
             Inr (ir_emit (IrSendTo remote (Confirm (ir_view r) (cf_myIdx cf) opid)) (r\<lparr>ir_record := rec\<rparr>)))
       | None \<Rightarrow> Inr r)"

section \<open>Merging records\<close>

text \<open>The records of the messages of the latest normal view, and the replica's own when it is of that view.\<close>

definition max_normal_view :: "u64 \<Rightarrow> (int \<times> ir_do_view_change) list \<Rightarrow> u64" where
  "max_normal_view own ms = fold (\<lambda>(_, m) v. max v (id_latest_normal_view m)) ms own"

fun latest_records :: "u64 \<Rightarrow> (int \<times> ir_do_view_change) list \<Rightarrow> ir_record list outcome" where
  "latest_records v [] = Inr []"
| "latest_records v ((i, m) # ms) =
     (if id_latest_normal_view m = v then
        (case id_record m of
           None \<Rightarrow> Inl AssertFailed
         | Some ps \<Rightarrow> bindE (Record_of_proto ps) (\<lambda>r. bindE (latest_records v ms) (\<lambda>rs. Inr (r # rs))))
      else latest_records v ms)"

text \<open>The body of the loop over all entries: the record \<open>R\<close> built up, and the tentative entries by operation.\<close>

type_synonym entry_groups = "(opid \<times> record_entry list) list"

definition keep_entry :: "record_entry \<Rightarrow> ir_record \<Rightarrow> ir_record outcome" where
  "keep_entry e R = bindE (Record_Find (ie_opid e) R) (\<lambda>eo. case eo of None \<Rightarrow> Record_Add e R | Some _ \<Rightarrow> Inr R)"

definition merge_entry :: "opid \<times> record_entry \<Rightarrow> ir_record \<times> entry_groups \<Rightarrow> (ir_record \<times> entry_groups) outcome" where
  "merge_entry p s =
     (let (opid, e) = p; (R, g) = s in
      assertE (opid = ie_opid e)
        (if ie_type e = RECORD_TYPE_INCONSISTENT then bindE (keep_entry e R) (\<lambda>R'. Inr (R', g))
         else if ie_state e = RECORD_STATE_FINALIZED then bindE (keep_entry e R) (\<lambda>R'. Inr (R', um_erase opid g))
         else Inr (R, if um_has R opid then g else om_put opid ((case map_of g opid of None \<Rightarrow> [] | Some es \<Rightarrow> es) @ [e]) g)))"

definition tally :: "string list \<Rightarrow> (string \<times> nat) list" where
  "tally xs = fold (\<lambda>x m. om_put x (Suc (case map_of m x of None \<Rightarrow> 0 | Some n \<Rightarrow> n)) m) xs []"

definition count_results :: "record_entry list \<Rightarrow> (string \<times> nat) list" where
  "count_results es = tally (map ie_result es)"

text \<open>A result that occurs \<open>ceil(f / 2) + 1\<close> times or more: the first in the order of the strings.\<close>

definition majority_result :: "vr_config \<Rightarrow> record_entry list \<Rightarrow> string option" where
  "majority_result cf es =
     map_option fst (find (\<lambda>c. int (snd c) \<ge> (cf_f cf + 1) div 2 + 1) (count_results es))"

fun om_all :: "('k :: linorder \<times> 'v) list \<Rightarrow> ('k \<times> 'v) list" where
  "om_all [] = []"
| "om_all ((k, v) # m) = om_put k v (om_all m)"

definition merged_record :: "u64 \<Rightarrow> entry_groups \<Rightarrow> (opid \<times> string) list \<Rightarrow> ir_record outcome" where
  "merged_record v g results =
     foldE (\<lambda>(opid, res) rec.
       case map_of g opid of
         Some (e # _) \<Rightarrow> Record_Add (ir_entry v opid (ie_request e) RECORD_STATE_FINALIZED (ie_type e) res) rec
       | _ \<Rightarrow> Inl UndefinedBehaviour) results []"

definition IrMergeRecords :: "vr_config \<Rightarrow> 'a ir_app \<Rightarrow> (int \<times> ir_do_view_change) list \<Rightarrow> 'a ir_replica \<Rightarrow> (ir_record \<times> 'a) outcome" where
  "IrMergeRecords cf app ms r =
     (let v = max_normal_view (ir_latest_normal_view r) ms in
      bindE (latest_records v ms) (\<lambda>recs.
      bindE (foldE merge_entry (concat (recs @ (if ir_latest_normal_view r = v then [ir_record r] else []))) ([], [])) (\<lambda>(R, g).
        let d = filter (\<lambda>p. majority_result cf (snd p) \<noteq> None) g;
            u = filter (\<lambda>p. majority_result cf (snd p) = None) g;
            majority = map (\<lambda>(opid, es). (opid, the (majority_result cf es))) d;
            a1 = IrSync app R (ir_appstate r);
            (answers, a2) = IrMerge app d u majority a1;
            results = om_all answers
        in assertE (length results = length d + length u \<and>
             list_all (\<lambda>(opid, _). um_has d opid \<noteq> um_has u opid) results)
          (bindE (merged_record (ir_view r) g results) (\<lambda>merged.
           bindE (foldE (\<lambda>(_, e). Record_Add e) merged R) (\<lambda>R'. Inr (R', a2)))))))"

section \<open>View changes\<close>

text \<open>The branch of \<open>HandleDoViewChange\<close> for a view that is newer than the replica's.\<close>

definition IR_begin_view_change :: "vr_config \<Rightarrow> u64 \<Rightarrow> 'a ir_replica \<Rightarrow> 'a ir_replica" where
  "IR_begin_view_change cf v r =
     (let r0 = PersistViewInfo (r\<lparr>ir_view := v\<rparr>);
          r1 = (if ir_status r0 = STATUS_NORMAL then r0\<lparr>ir_status := STATUS_VIEW_CHANGE\<rparr> else r0)
      in ir_emit IrViewChangeTimerReset (BroadcastDoViewChangeMessages cf r1))"

text \<open>
  The code repeats the test for \<open>STATUS_NORMAL\<close> where its comment says that a recovering
  replica ignores the message; the second test never succeeds.
\<close>

definition IR_HandleDoViewChange :: "vr_config \<Rightarrow> 'a ir_app \<Rightarrow> ir_do_view_change \<Rightarrow> 'a ir_replica \<Rightarrow> 'a ir_replica outcome" where
  "IR_HandleDoViewChange cf app msg r =
     (if id_new_view msg < ir_view r then Inr r
      else if id_new_view msg = ir_view r \<and> ir_status r = STATUS_NORMAL then Inr r
      else
        (let r1 = (if id_new_view msg = ir_view r then r else IR_begin_view_change cf (id_new_view msg) r)
         in assertE (id_new_view msg = ir_view r1)
           (if cf_myIdx cf \<noteq> GetLeaderIndex cf (ir_view r1) then Inr r1
            else assertE (id_record msg \<noteq> None)
              (let (quorum, q) = qs_AddAndCheckForQuorum (id_new_view msg) (id_replicaidx msg) msg (ir_quorum r1);
                   r2 = r1\<lparr>ir_quorum := q\<rparr>
               in case quorum of
                    None \<Rightarrow> Inr r2
                  | Some ms \<Rightarrow>
                      bindE (IrMergeRecords cf app ms r2) (\<lambda>(rec, a).
                        Inr (ir_emit (IrSendToAll (IrStartView (Record_ToProto rec) (id_new_view msg)))
                          (PersistViewInfo (r2\<lparr>ir_record := rec, ir_appstate := a, ir_status := STATUS_NORMAL,
                             ir_view := id_new_view msg, ir_latest_normal_view := id_new_view msg\<rparr>))))))))"

definition IR_HandleStartView :: "vr_config \<Rightarrow> 'a ir_app \<Rightarrow> record_entry_proto list \<Rightarrow> u64 \<Rightarrow> 'a ir_replica \<Rightarrow> 'a ir_replica outcome" where
  "IR_HandleStartView cf app ps new_view r =
     assertE (cf_myIdx cf \<noteq> GetLeaderIndex cf new_view)
       (if new_view < ir_view r then Inr r
        else if new_view = ir_view r \<and> ir_status r = STATUS_NORMAL then Inr r
        else bindE (Record_of_proto ps) (\<lambda>rec.
          Inr (PersistViewInfo (r\<lparr>ir_record := rec, ir_appstate := IrSync app rec (ir_appstate r), ir_status := STATUS_NORMAL,
            ir_view := new_view, ir_latest_normal_view := new_view\<rparr>))))"

definition IR_HandleUnlogged :: "'a ir_app \<Rightarrow> addr \<Rightarrow> string \<Rightarrow> u64 \<Rightarrow> 'a ir_replica \<Rightarrow> 'a ir_replica" where
  "IR_HandleUnlogged app remote op reqid r =
     (let (res, a) = IrUnloggedUpcall app op (ir_appstate r) in
      ir_emit (IrSendTo remote (IrUnloggedReply res reqid)) (r\<lparr>ir_appstate := a\<rparr>))"

definition HandleViewChangeTimeout :: "vr_config \<Rightarrow> 'a ir_replica \<Rightarrow> 'a ir_replica" where
  "HandleViewChangeTimeout cf r =
     (let r1 = (if ir_status r = STATUS_NORMAL then r\<lparr>ir_status := STATUS_VIEW_CHANGE\<rparr> else r) in
      BroadcastDoViewChangeMessages cf (PersistViewInfo (r1\<lparr>ir_view := ir_view r1 + 1\<rparr>)))"

section \<open>Messages\<close>

datatype ir_input =
    ProposeInconsistentMessage vr_request
  | FinalizeInconsistentMessage opid
  | ProposeConsensusMessage vr_request
  | FinalizeConsensusMessage opid string
  | DoViewChangeMessage ir_do_view_change
  | StartViewMessage "record_entry_proto list" u64
  | UnloggedRequestMessage string u64
  | OtherMessage

definition IR_HandleMessage :: "vr_config \<Rightarrow> 'a ir_app \<Rightarrow> addr \<Rightarrow> ir_input \<Rightarrow> 'a ir_replica \<Rightarrow> 'a ir_replica outcome" where
  "IR_HandleMessage cf app remote m r =
     (case m of
        ProposeInconsistentMessage req \<Rightarrow> HandleProposeInconsistent cf remote req r
      | FinalizeInconsistentMessage opid \<Rightarrow> HandleFinalizeInconsistent cf app remote opid r
      | ProposeConsensusMessage req \<Rightarrow> HandleProposeConsensus cf app remote req r
      | FinalizeConsensusMessage opid result \<Rightarrow> HandleFinalizeConsensus cf remote opid result r
      | DoViewChangeMessage msg \<Rightarrow> IR_HandleDoViewChange cf app msg r
      | StartViewMessage ps v \<Rightarrow> IR_HandleStartView cf app ps v r
      | UnloggedRequestMessage op reqid \<Rightarrow> Inr (IR_HandleUnlogged app remote op reqid r)
      | OtherMessage \<Rightarrow> Inl Panicked)"

text \<open>
  The life of a replica: it starts with a file or without one, receives messages and
  timeouts in any order, and restarts after a crash with what the file holds.
\<close>

inductive ir_reachable :: "vr_config \<Rightarrow> 'a ir_app \<Rightarrow> 'a \<Rightarrow> 'a ir_replica \<Rightarrow> bool" for cf app a0 where
  start: "ir_reachable cf app a0 (IRReplica_init cf None a0)"
| message: "ir_reachable cf app a0 r \<Longrightarrow> IR_HandleMessage cf app remote m r = Inr r' \<Longrightarrow> ir_reachable cf app a0 r'"
| timeout: "ir_reachable cf app a0 r \<Longrightarrow> ir_reachable cf app a0 (HandleViewChangeTimeout cf r)"
| restart: "ir_reachable cf app a0 r \<Longrightarrow> ir_reachable cf app a0 (IRReplica_init cf (ir_persisted r) a0)"

end
