(* ===== verification/IrReplicaProps.thy ===== *)
theory IrReplicaProps
  imports IrReplica
begin

text \<open>
  The lemmas about inconsistent replication: records stay well formed and what a replica
  keeps in its file is what it has in memory; merging records keeps every operation; and
  what a restart loses.
\<close>

declare split_paired_All [simp del] split_paired_Ex [simp del]

section \<open>Records\<close>

definition entry_ok :: "opid \<Rightarrow> record_entry \<Rightarrow> bool" where
  "entry_ok k e \<longleftrightarrow> ie_opid e = k \<and> (rq_clientid (ie_request e), rq_clientreqid (ie_request e)) = k"

definition record_ok :: "ir_record \<Rightarrow> bool" where
  "record_ok r \<longleftrightarrow> sorted_wrt (<) (map fst r) \<and> (\<forall>k e. map_of r k = Some e \<longrightarrow> entry_ok k e)"

lemma record_ok_Nil [simp]: "record_ok []"
  by (simp add: record_ok_def)

lemma record_ok_sorted: "record_ok r \<Longrightarrow> sorted_wrt (<) (map fst r)"
  by (simp add: record_ok_def)

lemma record_ok_entry: "record_ok r \<Longrightarrow> map_of r k = Some e \<Longrightarrow> entry_ok k e"
  unfolding record_ok_def by blast

lemma record_okI: "sorted_wrt (<) (map fst r) \<Longrightarrow> (\<And>k e. map_of r k = Some e \<Longrightarrow> entry_ok k e) \<Longrightarrow> record_ok r"
  unfolding record_ok_def by blast

lemma record_ok_put: "record_ok r \<Longrightarrow> entry_ok k e \<Longrightarrow> record_ok (om_put k e r)"
  by (rule record_okI) (auto simp: record_ok_sorted sorted_om_put map_of_om_put dest: record_ok_entry split: if_splits)

lemma sorted_distinct: "sorted_wrt (<) (map fst m) \<Longrightarrow> distinct (map fst m)"
  for m :: "('k :: linorder \<times> 'v) list"
  by (simp add: strict_sorted_iff)

lemma sorted_mem_iff: "sorted_wrt (<) (map fst m) \<Longrightarrow> (k, v) \<in> set m \<longleftrightarrow> map_of m k = Some v"
  for m :: "('k :: linorder \<times> 'v) list"
  by (auto dest: sorted_distinct)

lemma record_ok_mem: "record_ok r \<Longrightarrow> (k, e) \<in> set r \<Longrightarrow> entry_ok k e"
  by (rule record_ok_entry, assumption) (simp add: sorted_mem_iff [OF record_ok_sorted])

text \<open>Two maps sorted by key with the same content are the same list.\<close>

lemma sorted_map_eqI:
  fixes m :: "('k :: linorder \<times> 'v) list"
  assumes "sorted_wrt (<) (map fst m)" and "sorted_wrt (<) (map fst m')" and "map_of m = map_of m'"
  shows "m = m'"
proof (rule map_sorted_distinct_set_unique [of fst])
  show "inj_on fst (set m \<union> set m')"
    using assms by (auto simp: inj_on_def sorted_mem_iff)
  show "set m = set m'" using assms by (auto simp: sorted_mem_iff)
qed (use assms in \<open>simp_all add: strict_sorted_iff\<close>)

lemma Record_Find_ok: "record_ok r \<Longrightarrow> Record_Find k r = Inr (map_of r k)"
  by (auto simp: Record_Find_def entry_ok_def dest: record_ok_entry split: option.split)

lemma Record_Add_Inr: "Record_Add e r = Inr r' \<longleftrightarrow> \<not> um_has r (ie_opid e) \<and> r' = om_put (ie_opid e) e r"
  by (auto simp: Record_Add_def)

lemma record_update_ok:
  assumes "record_ok r" and "record_update k f r = Inr (b, r')" and "\<And>e. entry_ok k e \<Longrightarrow> entry_ok k (f e)"
  shows "record_ok r'" and "map_of r' = (map_of r)(k := map_option f (map_of r k))"
  using assms by (auto simp: record_update_def Record_Find_ok map_of_om_put split: option.splits
    intro!: record_ok_put dest: record_ok_entry)

text \<open>Adding entries of different operations that the record does not have succeeds.\<close>

lemma add_all:
  assumes "distinct (map ie_opid es)" and "set (map ie_opid es) \<inter> set (um_keys R) = {}"
  shows "foldE Record_Add es R = Inr (fold (\<lambda>e. om_put (ie_opid e) e) es R)"
  using assms
proof (induction es arbitrary: R)
  case (Cons e es)
  then have "set (map ie_opid es) \<inter> set (um_keys (om_put (ie_opid e) e R)) = {}"
    by (auto simp: set_om_put_keys simp del: split_paired_All)
  with Cons show ?case by (simp add: Record_Add_def um_has_iff)
qed simp

lemma fold_put_props:
  assumes "sorted_wrt (<) (map fst R)" and "distinct (map ie_opid es)"
  shows "sorted_wrt (<) (map fst (fold (\<lambda>e. om_put (ie_opid e) e) es R)) \<and>
    map_of (fold (\<lambda>e. om_put (ie_opid e) e) es R) = map_of R ++ map_of (map (\<lambda>e. (ie_opid e, e)) es)"
  using assms
proof (induction es arbitrary: R)
  case (Cons e es)
  have "map_of (map (\<lambda>e. (ie_opid e, e)) es) (ie_opid e) = None"
    using Cons.prems(2) by (force simp: map_of_eq_None_iff)
  with Cons show ?case by (auto simp: sorted_om_put map_of_om_put fun_eq_iff map_add_def split: option.split)
qed simp

lemma foldE_map: "foldE f (map h xs) s = foldE (\<lambda>x. f (h x)) xs s"
proof (induction xs arbitrary: s)
  case (Cons x xs)
  then show ?case by (cases "f (h x) s") simp_all
qed simp

lemma foldE_cong_set: "(\<And>x s. x \<in> set xs \<Longrightarrow> f x s = g x s) \<Longrightarrow> foldE f xs s = foldE g xs s"
proof (induction xs arbitrary: s)
  case (Cons x xs)
  then show ?case by (cases "g x s") simp_all
qed simp

lemma Record_of_proto_map: "Record_of_proto ps = foldE Record_Add (map proto_entry ps) []"
  by (simp add: Record_of_proto_def foldE_map)

lemma Record_of_proto_ok: "Record_of_proto ps = Inr r \<Longrightarrow> record_ok r"
  unfolding Record_of_proto_def
  by (rule foldE_invariant [where I = record_ok])
    (auto simp: Record_Add_Inr proto_entry_def ir_entry_def entry_ok_def intro!: record_ok_put)

text \<open>A record read back from its message is the record.\<close>

lemma Record_roundtrip:
  assumes "record_ok r"
  shows "Record_of_proto (Record_ToProto r) = Inr r"
proof -
  have k: "ie_opid e = k" if "(k, e) \<in> set r" for k e
    using record_ok_mem [OF assms that] by (simp add: entry_ok_def)
  have "map proto_entry (Record_ToProto r) = map snd r"
    unfolding Record_ToProto_def map_map
  proof (rule map_cong)
    fix p assume "p \<in> set r"
    then have "entry_ok (fst p) (snd p)" by (intro record_ok_mem [OF assms]) simp
    then show "(proto_entry \<circ> (\<lambda>(_, e). \<lparr>ep_view = ie_view e, ep_opid = ie_opid e, ep_state = ie_state e,
       ep_type = ie_type e, ep_op = rq_op (ie_request e), ep_result = ie_result e\<rparr>)) p = snd p"
      by (cases "snd p"; cases "ie_request (snd p)"; cases "fst p")
        (simp add: proto_entry_def ir_entry_def entry_ok_def split_beta)
  qed simp
  then have "Record_of_proto (Record_ToProto r) = foldE Record_Add (map snd r) []"
    by (simp add: Record_of_proto_map)
  moreover have ids: "map ie_opid (map snd r) = map fst r" using k by (auto simp: comp_def)
  ultimately have "Record_of_proto (Record_ToProto r) = Inr (fold (\<lambda>e. om_put (ie_opid e) e) (map snd r) [])"
    using assms by (simp add: add_all sorted_distinct record_ok_sorted del: map_map)
  moreover have "fold (\<lambda>e. om_put (ie_opid e) e) (map snd r) [] = r"
  proof (rule sorted_map_eqI)
    have m: "map (\<lambda>e. (ie_opid e, e)) (map snd r) = r" using k by (force simp: comp_def intro: map_idI)
    show "map_of (fold (\<lambda>e. om_put (ie_opid e) e) (map snd r) []) = map_of r"
      using fold_put_props [of "[]" "map snd r"] assms m ids by (simp add: sorted_distinct record_ok_sorted del: map_map)
    show "sorted_wrt (<) (map fst (fold (\<lambda>e. om_put (ie_opid e) e) (map snd r) []))"
      using fold_put_props [of "[]" "map snd r"] assms ids by (simp add: sorted_distinct record_ok_sorted del: map_map)
  qed (use assms in \<open>simp add: record_ok_sorted\<close>)
  ultimately show ?thesis by simp
qed

section \<open>The replica's state\<close>

text \<open>
  What is on disk is what the replica has in memory, a replica in normal operation was last
  in normal operation in its view, and the record is well formed.
\<close>

definition ir_ok :: "'a ir_replica \<Rightarrow> bool" where
  "ir_ok r \<longleftrightarrow> record_ok (ir_record r) \<and> ir_persisted r = Some (ir_view r, ir_latest_normal_view r) \<and>
     (ir_status r = STATUS_NORMAL \<longrightarrow> ir_latest_normal_view r = ir_view r)"

lemma emit_fields [simp]:
  "ir_record (ir_emit e r) = ir_record r" "ir_persisted (ir_emit e r) = ir_persisted r"
  "ir_view (ir_emit e r) = ir_view r" "ir_latest_normal_view (ir_emit e r) = ir_latest_normal_view r"
  "ir_status (ir_emit e r) = ir_status r" "ir_quorum (ir_emit e r) = ir_quorum r"
  "ir_appstate (ir_emit e r) = ir_appstate r"
  by (simp_all add: ir_emit_def)

lemma persist_fields [simp]:
  "ir_record (PersistViewInfo r) = ir_record r" "ir_persisted (PersistViewInfo r) = Some (ir_view r, ir_latest_normal_view r)"
  "ir_view (PersistViewInfo r) = ir_view r" "ir_latest_normal_view (PersistViewInfo r) = ir_latest_normal_view r"
  "ir_status (PersistViewInfo r) = ir_status r" "ir_quorum (PersistViewInfo r) = ir_quorum r"
  "ir_appstate (PersistViewInfo r) = ir_appstate r" "ir_trace (PersistViewInfo r) = ir_trace r"
  by (simp_all add: PersistViewInfo_def)

lemma fold_emit: "fold (\<lambda>i. ir_emit (g i)) xs r = r\<lparr>ir_trace := ir_trace r @ map g xs\<rparr>"
  by (induction xs arbitrary: r) (simp_all add: ir_emit_def)

lemma broadcast_fields [simp]:
  "ir_record (BroadcastDoViewChangeMessages cf r) = ir_record r"
  "ir_persisted (BroadcastDoViewChangeMessages cf r) = ir_persisted r"
  "ir_view (BroadcastDoViewChangeMessages cf r) = ir_view r"
  "ir_latest_normal_view (BroadcastDoViewChangeMessages cf r) = ir_latest_normal_view r"
  "ir_status (BroadcastDoViewChangeMessages cf r) = ir_status r"
  "ir_quorum (BroadcastDoViewChangeMessages cf r) = ir_quorum r"
  "ir_appstate (BroadcastDoViewChangeMessages cf r) = ir_appstate r"
  by (simp_all add: BroadcastDoViewChangeMessages_def Let_def fold_emit)

lemma ir_ok_emit [simp]: "ir_ok (ir_emit e r) = ir_ok r"
  by (simp add: ir_ok_def)

lemma ir_ok_init: "ir_ok (IRReplica_init cf file a)"
  by (auto simp: IRReplica_init_def Let_def ir_ok_def RecoverViewInfo_def split: option.split)

lemma ir_ok_timeout: "ir_ok r \<Longrightarrow> ir_ok (HandleViewChangeTimeout cf r)"
  by (auto simp: HandleViewChangeTimeout_def Let_def ir_ok_def)

section \<open>Merging\<close>

text \<open>
  An entry is kept as it is when its operation is inconsistent or already finalized; the
  other consensus operations are grouped for \<open>Merge\<close>.
\<close>

definition firm :: "record_entry \<Rightarrow> bool" where
  "firm e \<longleftrightarrow> ie_type e = RECORD_TYPE_INCONSISTENT \<or> ie_state e = RECORD_STATE_FINALIZED"

definition same_types :: "(opid \<times> record_entry) list \<Rightarrow> bool" where
  "same_types xs \<longleftrightarrow> (\<forall>k e e'. (k, e) \<in> set xs \<longrightarrow> (k, e') \<in> set xs \<longrightarrow> ie_type e = ie_type e')"

definition firm_of :: "(opid \<times> record_entry) list \<Rightarrow> opid \<Rightarrow> record_entry option" where
  "firm_of xs = map_of (filter (\<lambda>p. firm (snd p)) xs)"

definition entries_of :: "(opid \<times> record_entry) list \<Rightarrow> opid \<Rightarrow> record_entry list" where
  "entries_of xs k = map snd (filter (\<lambda>p. fst p = k) xs)"

definition grouped :: "(opid \<times> record_entry) list \<Rightarrow> ir_record \<Rightarrow> entry_groups \<Rightarrow> bool" where
  "grouped xs R g \<longleftrightarrow> record_ok R \<and> sorted_wrt (<) (map fst g) \<and> map_of R = firm_of xs \<and>
     (\<forall>k. map_of g k = (if firm_of xs k \<noteq> None \<or> entries_of xs k = [] then None else Some (entries_of xs k)))"

lemma sorted_erase: "sorted_wrt (<) (map fst m) \<Longrightarrow> sorted_wrt (<) (map fst (um_erase k m))"
  for m :: "('k :: linorder \<times> 'v) list"
  by (induction m) (auto simp: AList.delete_eq)

lemma firm_of_snoc: "firm_of (xs @ [(k, e)]) = (if firm e \<and> firm_of xs k = None then (firm_of xs)(k \<mapsto> e) else firm_of xs)"
  by (auto simp: firm_of_def fun_eq_iff map_add_def split: option.split)

lemma entries_of_snoc: "entries_of (xs @ [(k, e)]) = (entries_of xs)(k := entries_of xs k @ [e])"
  by (auto simp: entries_of_def fun_eq_iff)

lemma entries_of_mem: "e \<in> set (entries_of xs k) \<longleftrightarrow> (k, e) \<in> set xs"
  by (force simp: entries_of_def)

lemma firm_of_SomeD: "firm_of xs k = Some e \<Longrightarrow> (k, e) \<in> set xs \<and> firm e"
  by (auto simp: firm_of_def dest: map_of_SomeD)

lemma firm_of_None: "firm_of xs k = None \<longleftrightarrow> (\<forall>e. (k, e) \<in> set xs \<longrightarrow> \<not> firm e)"
  by (force simp: firm_of_def map_of_eq_None_iff)

lemma same_typesD: "same_types xs \<Longrightarrow> (k, e) \<in> set xs \<Longrightarrow> (k, e') \<in> set xs \<Longrightarrow> ie_type e = ie_type e'"
  unfolding same_types_def by blast

lemma keep_entry_ok:
  assumes "record_ok R" and "entry_ok k e"
  shows "keep_entry e R = Inr (if map_of R k = None then om_put k e R else R)"
  using assms by (auto simp: keep_entry_def Record_Find_ok entry_ok_def Record_Add_def um_has_def split: option.split)

lemma merge_entry_grouped:
  assumes g: "grouped xs R g" and e: "entry_ok k e" and t: "same_types (xs @ [(k, e)])"
  shows "\<exists>R' g'. merge_entry (k, e) (R, g) = Inr (R', g') \<and> grouped (xs @ [(k, e)]) R' g'"
proof -
  note g' = g [unfolded grouped_def]
  have k: "ie_opid e = k" using e by (simp add: entry_ok_def)
  have kept: "keep_entry e R = Inr (if firm_of xs k = None then om_put k e R else R)"
    using g' keep_entry_ok [OF _ e] by simp
  have R': "record_ok (if firm_of xs k = None then om_put k e R else R)"
    using g' record_ok_put [OF _ e] by simp
  show ?thesis
  proof (cases "ie_type e = RECORD_TYPE_INCONSISTENT")
    case True
    have "firm_of xs k \<noteq> None" if "entries_of xs k \<noteq> []"
    proof -
      from that have "hd (entries_of xs k) \<in> set (entries_of xs k)" by simp
      then obtain e' where e': "(k, e') \<in> set xs" unfolding entries_of_mem ..
      then have "ie_type e' = ie_type e" by (intro same_typesD [OF t, of k]) simp_all
      with True have "firm e'" by (simp add: firm_def)
      with e' show ?thesis by (auto simp: firm_of_None)
    qed
    then have "firm_of xs k \<noteq> None \<or> entries_of xs k = []" by blast
    then have "grouped (xs @ [(k, e)]) (if firm_of xs k = None then om_put k e R else R) g"
      using g' True R' by (auto simp: grouped_def firm_of_snoc entries_of_snoc firm_def map_of_om_put)
    then show ?thesis using True kept k by (simp add: merge_entry_def)
  next
    case c: False
    show ?thesis
    proof (cases "ie_state e = RECORD_STATE_FINALIZED")
      case True
      then have "grouped (xs @ [(k, e)]) (if firm_of xs k = None then om_put k e R else R) (um_erase k g)"
        using g' R' by (auto simp: grouped_def firm_of_snoc entries_of_snoc firm_def map_of_om_put sorted_erase)
      then show ?thesis using True c kept k by (simp add: merge_entry_def)
    next
      case False
      then show ?thesis using g' c k
        by (auto simp: merge_entry_def um_has_def grouped_def firm_of_snoc entries_of_snoc firm_def map_of_om_put
          sorted_om_put split: option.split)
    qed
  qed
qed

lemma merge_entries_grouped:
  assumes "\<And>k e. (k, e) \<in> set xs \<Longrightarrow> entry_ok k e" and "same_types xs"
  shows "\<exists>R g. foldE merge_entry xs ([], []) = Inr (R, g) \<and> grouped xs R g"
  using assms
proof (induction xs rule: rev_induct)
  case Nil
  then show ?case by (simp add: grouped_def firm_of_def entries_of_def)
next
  case (snoc p xs)
  obtain k e where p: "p = (k, e)" by fastforce
  have "same_types xs" using snoc.prems(2) unfolding same_types_def by (metis UnCI set_append)
  with snoc obtain R g where "foldE merge_entry xs ([], []) = Inr (R, g)" and "grouped xs R g" by auto
  with merge_entry_grouped [of xs R g k e] snoc.prems p show ?case by (auto simp: foldE_append)
qed

end
