(* ===== verification/IrMergeProps.thy ===== *)
theory IrMergeProps
  imports IrReplicaProps
begin

text \<open>
  The lemmas about merging records in the view change of inconsistent replication: which
  result is a majority, what \<open>IrMergeRecords\<close> returns, and that no operation is lost.
\<close>

section \<open>Majorities\<close>

lemma sorted_tally: "sorted_wrt (<) (map fst (tally xs))"
  and map_of_tally: "map_of (tally xs) x = (if x \<in> set xs then Some (count_list xs x) else None)"
proof -
  have "sorted_wrt (<) (map fst (tally xs)) \<and> (\<forall>x. map_of (tally xs) x = (if x \<in> set xs then Some (count_list xs x) else None))"
  proof (induction xs rule: rev_induct)
    case Nil
    then show ?case by (simp add: tally_def)
  next
    case (snoc y xs)
    have c: "tally (xs @ [y]) = om_put y (Suc (case map_of (tally xs) y of None \<Rightarrow> 0 | Some n \<Rightarrow> n)) (tally xs)"
      by (simp add: tally_def)
    have "count_list xs y = 0" if "y \<notin> set xs" using that by (simp add: count_list_0_iff)
    then show ?case using snoc by (auto simp: c sorted_om_put map_of_om_put)
  qed
  then show "sorted_wrt (<) (map fst (tally xs))"
    and "map_of (tally xs) x = (if x \<in> set xs then Some (count_list xs x) else None)" by auto
qed

lemma mem_tally: "(x, n) \<in> set (tally xs) \<longleftrightarrow> x \<in> set xs \<and> n = count_list xs x"
  using sorted_mem_iff [OF sorted_tally, of x n xs] by (auto simp: map_of_tally)

lemma count_list_two: "x \<noteq> y \<Longrightarrow> count_list xs x + count_list xs y \<le> length xs"
  by (induction xs) auto

text \<open>Among at most \<open>f + 1\<close> entries only one result can have the majority, and it is found.\<close>

lemma majority_result_Some:
  assumes "length es \<le> nat (cf_f cf + 1)" and "0 \<le> cf_f cf"
    and x: "(cf_f cf + 1) div 2 + 1 \<le> int (count_list (map ie_result es) x)"
  shows "majority_result cf es = Some x"
proof -
  let ?P = "\<lambda>c. int (snd c) \<ge> (cf_f cf + 1) div 2 + 1"
  have mem: "(y, n) \<in> set (count_results es) \<longleftrightarrow> y \<in> ie_result ` set es \<and> n = count_list (map ie_result es) y" for y n
    by (simp add: count_results_def mem_tally)
  have "count_list (map ie_result es) x \<noteq> 0" using assms(2) x by (intro notI) simp
  then have "(x, count_list (map ie_result es) x) \<in> set (count_results es)"
    by (simp add: mem count_list_0_iff)
  with x have "find ?P (count_results es) \<noteq> None" by (auto simp: find_None_iff)
  then obtain y n where f: "find ?P (count_results es) = Some (y, n)" by auto
  then have y: "(y, n) \<in> set (count_results es)" "(cf_f cf + 1) div 2 + 1 \<le> int n"
    by (metis find_Some_iff nth_mem, metis find_Some_iff snd_conv)
  have "y = x"
  proof (rule ccontr)
    assume "y \<noteq> x"
    with count_list_two [of y x "map ie_result es"] y(1)
    have "int n + int (count_list (map ie_result es) x) \<le> int (length es)" by (simp add: mem)
    with assms y(2) show False by linarith
  qed
  with f show ?thesis by (simp add: majority_result_def)
qed

section \<open>The merged record\<close>

lemma om_all_props: "sorted_wrt (<) (map fst (om_all m)) \<and> map_of (om_all m) = map_of m \<and> fst ` set (om_all m) = fst ` set m"
proof (induction m)
  case (Cons p m)
  then show ?case by (cases p) (simp add: sorted_om_put map_of_om_put set_om_put_keys)
qed simp

definition merged_entry :: "u64 \<Rightarrow> entry_groups \<Rightarrow> opid \<times> string \<Rightarrow> record_entry" where
  "merged_entry v g p = (let e = hd (the (map_of g (fst p))) in
     ir_entry v (fst p) (ie_request e) RECORD_STATE_FINALIZED (ie_type e) (snd p))"

lemma merged_record_returns:
  assumes r: "sorted_wrt (<) (map fst results)"
    and g: "\<And>k. k \<in> fst ` set results \<Longrightarrow> \<exists>e es. map_of g k = Some (e # es)"
  shows "\<exists>M. merged_record v g results = Inr M \<and> sorted_wrt (<) (map fst M) \<and>
    map_of M = map_of (map (\<lambda>p. (fst p, merged_entry v g p)) results) \<and> (\<forall>k e. (k, e) \<in> set M \<longrightarrow> ie_opid e = k)"
proof -
  let ?es = "map (merged_entry v g) results"
  have opid: "ie_opid (merged_entry v g p) = fst p" for p
    by (simp add: merged_entry_def Let_def ir_entry_def)
  then have ids: "map ie_opid ?es = map fst results" by simp
  have "merged_record v g results = foldE (\<lambda>p. Record_Add (merged_entry v g p)) results []"
    unfolding merged_record_def
  proof (rule foldE_cong_set)
    fix p :: "opid \<times> string" and s :: ir_record assume p: "p \<in> set results"
    from p have "fst p \<in> fst ` set results" by simp
    with g obtain e es where "map_of g (fst p) = Some (e # es)" by blast
    then show "(case p of (opid, res) \<Rightarrow> \<lambda>rec. case map_of g opid of
         Some (e # _) \<Rightarrow> Record_Add (ir_entry v opid (ie_request e) RECORD_STATE_FINALIZED (ie_type e) res) rec
       | _ \<Rightarrow> Inl UndefinedBehaviour) s = Record_Add (merged_entry v g p) s"
      by (simp add: merged_entry_def split_beta)
  qed
  then have "merged_record v g results = Inr (fold (\<lambda>e. om_put (ie_opid e) e) ?es [])"
    using add_all [of ?es "[]"] ids sorted_distinct [OF r] by (simp add: foldE_map [symmetric] del: map_map)
  moreover have "map (\<lambda>e. (ie_opid e, e)) ?es = map (\<lambda>p. (fst p, merged_entry v g p)) results"
    by (simp add: opid)
  moreover note fold_put_props [of "[]" ?es]
  ultimately obtain M where M: "merged_record v g results = Inr M" "sorted_wrt (<) (map fst M)"
      "map_of M = map_of (map (\<lambda>p. (fst p, merged_entry v g p)) results)"
    using ids sorted_distinct [OF r] by (simp del: map_map)
  have "ie_opid e = k" if "(k, e) \<in> set M" for k e
    using that M(3) by (auto simp: sorted_mem_iff [OF M(2)] opid dest!: map_of_SomeD)
  with M show ?thesis by blast
qed

text \<open>
  What the view change relies on \<open>Merge\<close> for: it answers exactly the operations it is
  given, and a decided one with the result of its majority.
\<close>

definition merge_contract :: "'a ir_app \<Rightarrow> bool" where
  "merge_contract app \<longleftrightarrow> (\<forall>d u m a. map fst m = map fst d \<longrightarrow>
     fst ` set (fst (IrMerge app d u m a)) = fst ` set d \<union> fst ` set u \<and>
     (\<forall>k x. map_of m k = Some x \<longrightarrow> map_of (fst (IrMerge app d u m a)) k = Some x))"

lemma latest_records_ok: "latest_records v ms = Inr recs \<Longrightarrow> rec \<in> set recs \<Longrightarrow> record_ok rec"
  by (induction v ms arbitrary: recs rule: latest_records.induct)
    (auto split: if_splits option.splits dest: Record_of_proto_ok)

definition merged_entries :: "'a ir_replica \<Rightarrow> u64 \<Rightarrow> ir_record list \<Rightarrow> (opid \<times> record_entry) list" where
  "merged_entries r v recs = concat (recs @ (if ir_latest_normal_view r = v then [ir_record r] else []))"

lemma merged_entries_ok:
  assumes "record_ok (ir_record r)" and "latest_records v ms = Inr recs" and "(k, e) \<in> set (merged_entries r v recs)"
  shows "entry_ok k e"
  using assms by (auto simp: merged_entries_def intro: record_ok_mem latest_records_ok split: if_splits)

lemma map_of_filter_snd:
  assumes "distinct (map fst g)"
  shows "map_of (filter (\<lambda>p. P (snd p)) g) k = (case map_of g k of None \<Rightarrow> None | Some es \<Rightarrow> if P es then Some es else None)"
  using assms
proof (induction g)
  case (Cons p g)
  have "map_of g (fst p) = None" using Cons.prems by (simp add: map_of_eq_None_iff)
  with Cons show ?case by (cases p; cases "k = fst p") (simp_all split: option.split)
qed simp

lemma map_of_decided:
  fixes g :: entry_groups
  assumes "sorted_wrt (<) (map fst g)"
  shows "map_of (map (\<lambda>(opid, es). (opid, the (P es))) (filter (\<lambda>p. P (snd p) \<noteq> None) g)) k =
    (case map_of g k of None \<Rightarrow> None | Some es \<Rightarrow> P es)"
  unfolding map_of_map
  by (simp add: map_of_filter_snd [OF sorted_distinct [OF assms], of "\<lambda>es. P es \<noteq> None"] del: not_None_eq
    split: option.split)

lemma merge_answers:
  fixes g :: entry_groups and cf :: vr_config and app :: "'a ir_app" and a :: 'a
  defines "d \<equiv> filter (\<lambda>p. majority_result cf (snd p) \<noteq> None) g"
    and "u \<equiv> filter (\<lambda>p. majority_result cf (snd p) = None) g"
  defines "results \<equiv> om_all (fst (IrMerge app d u (map (\<lambda>(opid, es). (opid, the (majority_result cf es))) d) a))"
  assumes g: "sorted_wrt (<) (map fst g)" and c: "merge_contract app"
  shows "sorted_wrt (<) (map fst results)" and "fst ` set results = fst ` set g"
    and "length results = length d + length u" and "list_all (\<lambda>(opid, _). um_has d opid \<noteq> um_has u opid) results"
    and "\<And>k es x. map_of g k = Some es \<Longrightarrow> majority_result cf es = Some x \<Longrightarrow> map_of results k = Some x"
proof -
  have "set d \<union> set u = set g" by (auto simp: d_def u_def)
  then have du: "fst ` set d \<union> fst ` set u = fst ` set g" by (simp add: image_Un [symmetric])
  have has: "um_has (filter (\<lambda>p. P (snd p)) g) k \<longleftrightarrow> (\<exists>es. map_of g k = Some es \<and> P es)" for P k
    by (simp add: um_has_def map_of_filter_snd [OF sorted_distinct [OF g]] split: option.split)
  have keys_m: "map fst (map (\<lambda>(opid, es). (opid, the (majority_result cf es))) d) = map fst d"
    by (simp add: case_prod_unfold)
  show sorted: "sorted_wrt (<) (map fst results)" by (simp add: results_def om_all_props)
  show keys: "fst ` set results = fst ` set g"
    using c [unfolded merge_contract_def, rule_format, OF keys_m] du by (simp add: results_def om_all_props)
  then have "map fst results = map fst g"
    using sorted g by (intro strict_sorted_equal) simp_all
  then have "length results = length g" by (metis length_map)
  also have "length g = length d + length u"
    unfolding d_def u_def by (metis (no_types, lifting) filter_cong sum_length_filter_compl)
  finally show "length results = length d + length u" .
  show "list_all (\<lambda>(opid, _). um_has d opid \<noteq> um_has u opid) results"
    unfolding list_all_iff
  proof
    fix p assume "p \<in> set results"
    then have "fst p \<in> fst ` set g" using keys by blast
    then obtain es where "map_of g (fst p) = Some es" by (metis map_of_eq_None_iff not_Some_eq)
    then show "case p of (opid, _) \<Rightarrow> um_has d opid \<noteq> um_has u opid"
      using has [of "\<lambda>es. majority_result cf es \<noteq> None"] has [of "\<lambda>es. majority_result cf es = None"]
      by (simp add: split_beta d_def u_def)
  qed
  show "map_of results k = Some x" if "map_of g k = Some es" and "majority_result cf es = Some x" for k es x
    using c [unfolded merge_contract_def, rule_format, OF keys_m] that map_of_decided [OF g, of "majority_result cf" k]
    by (simp add: results_def om_all_props d_def)
qed

text \<open>The entry of an operation in the record that results: the first firm one, or the merged one.\<close>

lemma IrMergeRecords_run:
  fixes r :: "'a ir_replica" and cf :: vr_config and ms :: "(int \<times> ir_do_view_change) list"
  defines "v \<equiv> max_normal_view (ir_latest_normal_view r) ms"
  assumes recs: "latest_records v ms = Inr recs" and c: "merge_contract app"
    and loop: "foldE merge_entry (merged_entries r v recs) ([], []) = Inr (R, g)" and g: "grouped (merged_entries r v recs) R g"
  shows "\<exists>R' a results. IrMergeRecords cf app ms r = Inr (R', a) \<and> sorted_wrt (<) (map fst R') \<and>
    fst ` set results = fst ` set g \<and>
    (\<forall>k. map_of R' k = (case map_of R k of Some e \<Rightarrow> Some e
       | None \<Rightarrow> map_option (\<lambda>x. merged_entry (ir_view r) g (k, x)) (map_of results k))) \<and>
    (\<forall>k es x. map_of g k = Some es \<longrightarrow> majority_result cf es = Some x \<longrightarrow> map_of results k = Some x)"
proof -
  let ?d = "filter (\<lambda>p. majority_result cf (snd p) \<noteq> None) g"
  let ?u = "filter (\<lambda>p. majority_result cf (snd p) = None) g"
  let ?m = "map (\<lambda>(opid, es). (opid, the (majority_result cf es))) ?d"
  obtain answers a where ans: "IrMerge app ?d ?u ?m (IrSync app R (ir_appstate r)) = (answers, a)" by fastforce
  define results where "results = om_all answers"
  note g' = g [unfolded grouped_def]
  have sg: "sorted_wrt (<) (map fst g)" using g' by blast
  note answers = merge_answers [OF sg c, where cf = cf and a = "IrSync app R (ir_appstate r)",
    unfolded ans fst_conv, folded results_def]
  have res: "map_of g k \<noteq> None" if "k \<in> fst ` set results" for k
    using that answers(2) by (simp add: map_of_eq_None_iff)
  have "\<exists>e es. map_of g k = Some (e # es)" if k: "k \<in> fst ` set results" for k
    using res [OF k] g' by (auto simp: neq_Nil_conv split: if_splits)
  from merged_record_returns [OF answers(1) this] obtain M where M: "merged_record (ir_view r) g results = Inr M"
      "sorted_wrt (<) (map fst M)" "map_of M = map_of (map (\<lambda>p. (fst p, merged_entry (ir_view r) g p)) results)"
      "\<forall>k e. (k, e) \<in> set M \<longrightarrow> ie_opid e = k" by blast
  have lookup: "map_of M k = map_option (\<lambda>x. merged_entry (ir_view r) g (k, x)) (map_of results k)" for k
    unfolding M(3) by (induction results) auto
  have disjoint: "map_of R k = None" if "map_of M k \<noteq> None" for k
  proof -
    have "map_of results k \<noteq> None" using that by (simp add: lookup)
    then have "map_of g k \<noteq> None" by (intro res) (simp add: map_of_eq_None_iff)
    then show ?thesis using g' by (simp split: if_splits)
  qed
  have ids: "map ie_opid (map snd M) = map fst M" and pairs: "map (\<lambda>e. (ie_opid e, e)) (map snd M) = M"
    using M(4) by (auto intro!: map_idI simp: comp_def)
  have "foldE (\<lambda>(_, e). Record_Add e) M R = foldE Record_Add (map snd M) R"
    by (simp add: foldE_map case_prod_unfold)
  also have "\<dots> = Inr (fold (\<lambda>e. om_put (ie_opid e) e) (map snd M) R)"
  proof (rule add_all)
    show "set (map ie_opid (map snd M)) \<inter> set (um_keys R) = {}"
      unfolding ids using disjoint by (force simp: map_of_eq_None_iff)
  qed (use ids M(2) sorted_distinct in \<open>simp del: map_map\<close>)
  finally obtain R' where add: "foldE (\<lambda>(_, e). Record_Add e) M R = Inr R'"
    and R': "R' = fold (\<lambda>e. om_put (ie_opid e) e) (map snd M) R" by blast
  have props: "sorted_wrt (<) (map fst R') \<and> map_of R' = map_of R ++ map_of M"
    unfolding R' using fold_put_props [of R "map snd M"] g' ids M(2) pairs
    by (simp add: record_ok_sorted sorted_distinct del: map_map)
  have "IrMergeRecords cf app ms r = Inr (R', a)"
    using loop answers(3,4) M(1) add
    by (simp add: IrMergeRecords_def v_def [symmetric] recs merged_entries_def ans results_def [symmetric] del: not_None_eq)
  moreover have "map_of R' k = (case map_of R k of Some e \<Rightarrow> Some e
       | None \<Rightarrow> map_option (\<lambda>x. merged_entry (ir_view r) g (k, x)) (map_of results k))" for k
    using props disjoint [of k] lookup [of k] by (cases "map_of M k") (auto simp: map_add_def split: option.split)
  ultimately show ?thesis using props answers(2,5) by blast
qed

section \<open>Merging keeps operations\<close>

lemma firm_entry_kept: "(k, e) \<in> set xs \<Longrightarrow> firm e \<Longrightarrow> \<exists>e'. firm_of xs k = Some e'"
  using firm_of_None [of xs k] by blast

lemma keys_firm: "k \<in> fst ` set xs \<longleftrightarrow> firm_of xs k \<noteq> None \<or> entries_of xs k \<noteq> []"
  by (auto simp: entries_of_def filter_empty_conv dest: firm_of_SomeD intro: rev_image_eqI)

lemma keys_map_of: "k \<in> fst ` set m \<longleftrightarrow> map_of m k \<noteq> None"
  by (simp add: map_of_eq_None_iff)

lemma merged_entry_ok:
  assumes "grouped xs R g" and ok: "\<And>k e. (k, e) \<in> set xs \<Longrightarrow> entry_ok k e" and "map_of g k \<noteq> None"
  shows "entry_ok k (merged_entry v g (k, x)) \<and> ie_state (merged_entry v g (k, x)) = RECORD_STATE_FINALIZED \<and>
    ie_result (merged_entry v g (k, x)) = x"
proof -
  from assms(1,3) have k: "map_of g k = Some (entries_of xs k)" "entries_of xs k \<noteq> []"
    by (simp_all add: grouped_def split: if_splits)
  then have "(k, hd (entries_of xs k)) \<in> set xs" by (simp flip: entries_of_mem)
  from ok [OF this] k show ?thesis by (simp add: merged_entry_def ir_entry_def entry_ok_def Let_def)
qed

lemma merged_map:
  fixes r :: "'a ir_replica" and cf :: vr_config and ms :: "(int \<times> ir_do_view_change) list"
  defines "v \<equiv> max_normal_view (ir_latest_normal_view r) ms"
  assumes own: "record_ok (ir_record r)" and recs: "latest_records v ms = Inr recs"
    and t: "same_types (merged_entries r v recs)" and c: "merge_contract app"
  obtains R a f where "IrMergeRecords cf app ms r = Inr (R, a)" and "record_ok R"
    and "\<And>k. map_of R k = (case firm_of (merged_entries r v recs) k of Some e \<Rightarrow> Some e
      | None \<Rightarrow> if entries_of (merged_entries r v recs) k = [] then None else Some (f k))"
    and "\<And>k. entries_of (merged_entries r v recs) k \<noteq> [] \<Longrightarrow> firm_of (merged_entries r v recs) k = None \<Longrightarrow>
      ie_state (f k) = RECORD_STATE_FINALIZED \<and>
      (\<forall>x. majority_result cf (entries_of (merged_entries r v recs) k) = Some x \<longrightarrow> ie_result (f k) = x)"
proof -
  let ?xs = "merged_entries r v recs"
  have ok: "\<And>k e. (k, e) \<in> set ?xs \<Longrightarrow> entry_ok k e" by (rule merged_entries_ok [OF own recs])
  obtain R0 g where loop: "foldE merge_entry ?xs ([], []) = Inr (R0, g)" and g: "grouped ?xs R0 g"
    using merge_entries_grouped [OF ok t] by blast
  obtain R a results where run: "IrMergeRecords cf app ms r = Inr (R, a)" "sorted_wrt (<) (map fst R)"
      "fst ` set results = fst ` set g"
      "\<And>k. map_of R k = (case map_of R0 k of Some e \<Rightarrow> Some e
        | None \<Rightarrow> map_option (\<lambda>x. merged_entry (ir_view r) g (k, x)) (map_of results k))"
      "\<And>k es x. map_of g k = Some es \<Longrightarrow> majority_result cf es = Some x \<Longrightarrow> map_of results k = Some x"
    using IrMergeRecords_run [OF recs [unfolded v_def] c loop [unfolded v_def] g [unfolded v_def]] by blast
  define f where "f k = merged_entry (ir_view r) g (k, the (map_of results k))" for k
  have has: "map_of results k \<noteq> None \<longleftrightarrow> map_of g k \<noteq> None" for k
    using run(3) keys_map_of [of k results] keys_map_of [of k g] by simp
  note g' = g [unfolded grouped_def]
  have lookup: "map_of R k = (case firm_of ?xs k of Some e \<Rightarrow> Some e
      | None \<Rightarrow> if entries_of ?xs k = [] then None else Some (f k))" for k
    using g' has [of k] by (cases "map_of results k") (auto simp: run(4) f_def split: option.split if_splits)
  have f: "entry_ok k (f k) \<and> ie_state (f k) = RECORD_STATE_FINALIZED \<and>
      (\<forall>x. majority_result cf (entries_of ?xs k) = Some x \<longrightarrow> ie_result (f k) = x)"
    if "entries_of ?xs k \<noteq> []" and "firm_of ?xs k = None" for k
  proof -
    from that g' have k: "map_of g k = Some (entries_of ?xs k)" by simp
    with merged_entry_ok [OF g ok, of k] run(5) [OF k] show ?thesis by (auto simp: f_def)
  qed
  have "record_ok R"
  proof (rule record_okI [OF run(2)])
    fix k e assume "map_of R k = Some e"
    then show "entry_ok k e" using f [of k] ok [of k] firm_of_SomeD [of ?xs k e]
      by (auto simp: lookup split: option.splits if_splits)
  qed
  then show ?thesis by (rule that [OF run(1) _ lookup]) (use f in blast)
qed

text \<open>
  \<^bold>\<open>C14\<close> The view change of inconsistent replication loses no operation. The new leader
  merges the well-formed records of the latest normal view (\<open>merged_entries\<close>, all their
  entries), in which an operation has one type, with an application whose \<open>Merge\<close> answers
  what it is asked. Then merging returns a well-formed record with exactly the operations
  of the merged records; an inconsistent operation, or a consensus operation that a replica
  has finalized, is there with an entry of one of those replicas; every consensus operation is
  finalized; and a result that a fast quorum has replied, which leaves \<open>ceil(f / 2) + 1\<close>
  equal results in any \<open>f + 1\<close> records, is the result of the operation.
\<close>

theorem IrMergeRecords_keeps_operations:
  fixes r :: "'a ir_replica" and ms :: "(int \<times> ir_do_view_change) list"
  assumes own: "record_ok (ir_record r)"
    and recs: "latest_records (max_normal_view (ir_latest_normal_view r) ms) ms = Inr recs"
    and xs: "xs = merged_entries r (max_normal_view (ir_latest_normal_view r) ms) recs"
    and t: "same_types xs" and c: "merge_contract app"
  shows "\<exists>R a. IrMergeRecords cf app ms r = Inr (R, a) \<and> record_ok R \<and> fst ` set R = fst ` set xs \<and>
    (\<forall>k e. (k, e) \<in> set xs \<and> firm e \<longrightarrow> (\<exists>e'. map_of R k = Some e' \<and> (k, e') \<in> set xs \<and> firm e')) \<and>
    (\<forall>k e. map_of R k = Some e \<longrightarrow> ie_type e = RECORD_TYPE_CONSENSUS \<longrightarrow> ie_state e = RECORD_STATE_FINALIZED) \<and>
    (\<forall>k x. (\<forall>e. (k, e) \<in> set xs \<longrightarrow> \<not> firm e) \<and> 0 \<le> cf_f cf \<and> length (entries_of xs k) \<le> nat (cf_f cf + 1) \<and>
       (cf_f cf + 1) div 2 + 1 \<le> int (count_list (map ie_result (entries_of xs k)) x) \<longrightarrow>
       (\<exists>e. map_of R k = Some e \<and> ie_result e = x))"
proof -
  obtain R a f where run: "IrMergeRecords cf app ms r = Inr (R, a)" "record_ok R"
    and lookup: "\<And>k. map_of R k = (case firm_of xs k of Some e \<Rightarrow> Some e
      | None \<Rightarrow> if entries_of xs k = [] then None else Some (f k))"
    and f: "\<And>k. entries_of xs k \<noteq> [] \<Longrightarrow> firm_of xs k = None \<Longrightarrow> ie_state (f k) = RECORD_STATE_FINALIZED \<and>
      (\<forall>x. majority_result cf (entries_of xs k) = Some x \<longrightarrow> ie_result (f k) = x)"
    using merged_map [OF own recs t [unfolded xs] c, of cf, folded xs] by blast
  have "k \<in> fst ` set R \<longleftrightarrow> k \<in> fst ` set xs" for k
    using keys_map_of [of k R] keys_firm [of k xs] by (auto simp: lookup split: option.splits if_splits)
  then have keys: "fst ` set R = fst ` set xs" by blast
  have firm: "\<exists>e'. map_of R k = Some e' \<and> (k, e') \<in> set xs \<and> firm e'" if "(k, e) \<in> set xs" and "firm e" for k e
    using firm_entry_kept [OF that] by (auto simp: lookup dest: firm_of_SomeD)
  have final: "ie_state e = RECORD_STATE_FINALIZED" if "map_of R k = Some e" and "ie_type e = RECORD_TYPE_CONSENSUS" for k e
    using that f [of k] by (auto simp: lookup firm_def dest!: firm_of_SomeD split: option.splits if_splits)
  have fast: "\<exists>e. map_of R k = Some e \<and> ie_result e = x"
    if "\<And>e. (k, e) \<in> set xs \<Longrightarrow> \<not> firm e" and "0 \<le> cf_f cf" and "length (entries_of xs k) \<le> nat (cf_f cf + 1)"
      and maj: "(cf_f cf + 1) div 2 + 1 \<le> int (count_list (map ie_result (entries_of xs k)) x)" for k x
  proof -
    have "firm_of xs k = None" using that(1) by (simp add: firm_of_None)
    moreover have "entries_of xs k \<noteq> []" using that(2) maj by auto
    ultimately show ?thesis using f majority_result_Some [OF that(3,2) maj] by (simp add: lookup)
  qed
  have c1: "\<forall>k e. (k, e) \<in> set xs \<and> firm e \<longrightarrow> (\<exists>e'. map_of R k = Some e' \<and> (k, e') \<in> set xs \<and> firm e')"
    using firm by blast
  have c2: "\<forall>k e. map_of R k = Some e \<longrightarrow> ie_type e = RECORD_TYPE_CONSENSUS \<longrightarrow> ie_state e = RECORD_STATE_FINALIZED"
    using final by blast
  have c3: "\<forall>k x. (\<forall>e. (k, e) \<in> set xs \<longrightarrow> \<not> firm e) \<and> 0 \<le> cf_f cf \<and> length (entries_of xs k) \<le> nat (cf_f cf + 1) \<and>
       (cf_f cf + 1) div 2 + 1 \<le> int (count_list (map ie_result (entries_of xs k)) x) \<longrightarrow>
       (\<exists>e. map_of R k = Some e \<and> ie_result e = x)"
    using fast by blast
  show ?thesis by (rule exI [of _ R], rule exI [of _ a]) (intro conjI run keys c1 c2 c3)
qed

text \<open>Two of three replicas have answered \<open>ok\<close> to one operation; one of them has another operation finalized.\<close>

definition ir_cf :: "int \<Rightarrow> vr_config" where
  "ir_cf i = \<lparr>cf_n = 3, cf_f = 1, cf_myIdx = i\<rparr>"

definition ir_ex_app :: "unit ir_app" where
  "ir_ex_app = IRAppReplica\<lparr>IrMerge := (\<lambda>d u m a. (m @ map (\<lambda>p. (fst p, [])) u, a))\<rparr>"

definition ir_ex_entry :: "u64 \<Rightarrow> entry_state \<Rightarrow> string \<Rightarrow> record_entry" where
  "ir_ex_entry c st res = ir_entry 0 (c, 1) \<lparr>rq_op = ''op'', rq_clientid = c, rq_clientreqid = 1\<rparr> st RECORD_TYPE_CONSENSUS res"

definition ir_ex_record_2 :: ir_record where
  "ir_ex_record_2 =
     [((1, 1), ir_ex_entry 1 RECORD_STATE_TENTATIVE ''ok''), ((2, 1), ir_ex_entry 2 RECORD_STATE_FINALIZED ''no'')]"

definition ir_ex_record_1 :: ir_record where
  "ir_ex_record_1 = [((1, 1), ir_ex_entry 1 RECORD_STATE_TENTATIVE ''ok'')]"

definition ir_ex_msgs :: "(int \<times> ir_do_view_change) list" where
  "ir_ex_msgs = [(2, \<lparr>id_replicaidx = 2, id_record = Some (Record_ToProto ir_ex_record_2), id_new_view = 1, id_latest_normal_view = 0\<rparr>)]"

definition ir_ex_leader :: "unit ir_replica" where
  "ir_ex_leader = (IRReplica_init (ir_cf 1) None ())\<lparr>ir_record := ir_ex_record_1, ir_view := 1\<rparr>"

lemma ir_ex_merge: "merge_contract ir_ex_app"
proof -
  have "fst ` set m = fst ` set d" if "map fst m = map fst d" for m :: "(opid \<times> string) list" and d :: entry_groups
    using arg_cong [OF that, of set] by simp
  then show ?thesis by (auto simp: merge_contract_def ir_ex_app_def image_Un image_comp map_add_def split: option.split)
qed

lemma ir_ex_records_ok: "record_ok ir_ex_record_2" "record_ok ir_ex_record_1"
  by (rule record_okI; auto simp: ir_ex_record_1_def ir_ex_record_2_def ir_ex_entry_def ir_entry_def entry_ok_def split: if_splits)+

theorem IrMergeRecords_keeps_operations_witness:
  "\<exists>R a. IrMergeRecords (ir_cf 1) ir_ex_app ir_ex_msgs ir_ex_leader = Inr (R, a) \<and> fst ` set R = {(1, 1), (2, 1)} \<and>
     (\<exists>e. map_of R (1, 1) = Some e \<and> ie_result e = ''ok'')"
proof -
  let ?v = "max_normal_view (ir_latest_normal_view ir_ex_leader) ir_ex_msgs"
  have v: "?v = 0" by (simp add: max_normal_view_def ir_ex_leader_def ir_ex_msgs_def IRReplica_init_def Let_def)
  have own: "record_ok (ir_record ir_ex_leader)" by (simp add: ir_ex_leader_def ir_ex_records_ok)
  have recs: "latest_records ?v ir_ex_msgs = Inr [ir_ex_record_2]"
    unfolding v by (simp add: ir_ex_msgs_def Record_roundtrip ir_ex_records_ok)
  have xs: "merged_entries ir_ex_leader ?v [ir_ex_record_2] = ir_ex_record_2 @ ir_ex_record_1"
    unfolding v by (simp add: merged_entries_def ir_ex_leader_def IRReplica_init_def Let_def)
  have t: "same_types (ir_ex_record_2 @ ir_ex_record_1)"
    by (auto simp: same_types_def ir_ex_record_1_def ir_ex_record_2_def ir_ex_entry_def ir_entry_def)
  obtain R a where run: "IrMergeRecords (ir_cf 1) ir_ex_app ir_ex_msgs ir_ex_leader = Inr (R, a)"
    and keys: "fst ` set R = fst ` set (ir_ex_record_2 @ ir_ex_record_1)"
    and fast: "\<forall>k x. (\<forall>e. (k, e) \<in> set (ir_ex_record_2 @ ir_ex_record_1) \<longrightarrow> \<not> firm e) \<and> 0 \<le> cf_f (ir_cf 1) \<and>
       length (entries_of (ir_ex_record_2 @ ir_ex_record_1) k) \<le> nat (cf_f (ir_cf 1) + 1) \<and>
       (cf_f (ir_cf 1) + 1) div 2 + 1 \<le> int (count_list (map ie_result (entries_of (ir_ex_record_2 @ ir_ex_record_1) k)) x) \<longrightarrow>
       (\<exists>e. map_of R k = Some e \<and> ie_result e = x)"
    using IrMergeRecords_keeps_operations [OF own recs xs [symmetric] t ir_ex_merge, of "ir_cf 1"] by blast
  have "\<exists>e. map_of R (1, 1) = Some e \<and> ie_result e = ''ok''"
    by (rule fast [rule_format])
      (simp add: ir_cf_def ir_ex_record_1_def ir_ex_record_2_def entries_of_def ir_ex_entry_def ir_entry_def firm_def)
  moreover have "fst ` set R = {(1, 1), (2, 1)}" using keys by (auto simp: ir_ex_record_1_def ir_ex_record_2_def)
  ultimately show ?thesis using run by blast
qed

end
