(* ===== verification/IrSafety.thy ===== *)
theory IrSafety
  imports IrMergeProps
begin

text \<open>
  The replica of inconsistent replication over its whole life: what holds in every state it
  can reach, restarts included, what a repeated proposal gets, and the operation that a
  restart loses.
\<close>

section \<open>Every handler keeps the invariant\<close>

definition merge_ok :: "ir_record \<times> entry_groups \<Rightarrow> bool" where
  "merge_ok s \<longleftrightarrow> record_ok (fst s) \<and> (\<forall>k es. map_of (snd s) k = Some es \<longrightarrow> (\<forall>e \<in> set es. entry_ok k e))"

lemma keep_entry_keeps: "record_ok R \<Longrightarrow> entry_ok k e \<Longrightarrow> keep_entry e R = Inr R' \<Longrightarrow> record_ok R'"
  by (auto simp: keep_entry_ok intro: record_ok_put split: if_splits)

lemma merge_ok_erase: "merge_ok (R, g) \<Longrightarrow> merge_ok (R, um_erase k g)"
  by (auto simp: merge_ok_def split: if_splits)

lemma merge_ok_push: "merge_ok (R, g) \<Longrightarrow> entry_ok k e \<Longrightarrow>
    merge_ok (R, om_put k ((case map_of g k of None \<Rightarrow> [] | Some es \<Rightarrow> es) @ [e]) g)"
  by (cases "map_of g k") (auto simp: merge_ok_def map_of_om_put split: if_splits)

lemma merge_entry_keeps:
  assumes "entry_ok (fst p) (snd p)" and "merge_ok s" and "merge_entry p s = Inr s'"
  shows "merge_ok s'"
proof -
  obtain k e R g where [simp]: "p = (k, e)" "s = (R, g)" by (metis surj_pair)
  have ok: "record_ok R" using assms(2) by (simp add: merge_ok_def)
  have new: "merge_ok (R', g')" if "keep_entry e R = Inr R'" and "merge_ok (R, g')" for R' g'
    using keep_entry_keeps [OF ok _ that(1), of k] that(2) assms(1) by (simp add: merge_ok_def)
  show ?thesis using assms
    by (auto simp: merge_entry_def Let_def merge_ok_erase merge_ok_push split: if_splits intro: new)
qed

lemma merged_record_keeps:
  assumes g: "merge_ok (R, g)" and m: "merged_record v g results = Inr M"
  shows "record_ok M"
  using m unfolding merged_record_def
proof (rule foldE_invariant [where I = record_ok])
  fix p rec rec'
  assume rec: "record_ok rec" and step: "(case p of (opid, res) \<Rightarrow> \<lambda>rec. case map_of g opid of
     Some (e # _) \<Rightarrow> Record_Add (ir_entry v opid (ie_request e) RECORD_STATE_FINALIZED (ie_type e) res) rec
   | _ \<Rightarrow> Inl UndefinedBehaviour) rec = Inr rec'"
  obtain k x where p: "p = (k, x)" by fastforce
  from step obtain e es where e: "map_of g k = Some (e # es)"
    and add: "Record_Add (ir_entry v k (ie_request e) RECORD_STATE_FINALIZED (ie_type e) x) rec = Inr rec'"
    by (auto simp: p split: option.splits list.splits)
  have "entry_ok k e" using g e by (simp add: merge_ok_def)
  then show "record_ok rec'" using add rec by (auto simp: Record_Add_Inr ir_entry_def entry_ok_def intro!: record_ok_put)
qed simp

lemma IrMergeRecords_ok:
  assumes own: "record_ok (ir_record r)" and m: "IrMergeRecords cf app ms r = Inr (R', a)"
  shows "record_ok R'"
proof -
  let ?v = "max_normal_view (ir_latest_normal_view r) ms"
  from m obtain recs R g results M where recs: "latest_records ?v ms = Inr recs"
    and loop: "foldE merge_entry (merged_entries r ?v recs) ([], []) = Inr (R, g)"
    and M: "merged_record (ir_view r) g results = Inr M" and add: "foldE (\<lambda>(_, e). Record_Add e) M R = Inr R'"
    by (auto simp: IrMergeRecords_def Let_def merged_entries_def split_beta split: prod.splits)
  have s: "merge_ok (R, g)"
  proof (rule foldE_invariant [OF loop, where I = merge_ok])
    fix p s s'
    assume "p \<in> set (merged_entries r ?v recs)"
    then have "entry_ok (fst p) (snd p)" by (intro merged_entries_ok [OF own recs]) simp
    then show "merge_ok s \<Longrightarrow> merge_entry p s = Inr s' \<Longrightarrow> merge_ok s'" by (rule merge_entry_keeps)
  qed (simp add: merge_ok_def)
  then have "record_ok R" by (simp add: merge_ok_def)
  show ?thesis
    by (rule foldE_invariant [OF add, where I = record_ok])
      (use \<open>record_ok R\<close> record_ok_mem [OF merged_record_keeps [OF s M]] in
        \<open>auto simp: Record_Add_Inr entry_ok_def intro!: record_ok_put\<close>)
qed

lemma ir_ok_begin: "ir_ok r \<Longrightarrow> ir_ok (IR_begin_view_change cf v r)"
  by (auto simp: IR_begin_view_change_def Let_def ir_ok_def)

lemma ir_ok_quorum [simp]: "ir_ok (r\<lparr>ir_quorum := q\<rparr>) = ir_ok r"
  by (simp add: ir_ok_def)

lemma ir_ok_DoViewChange:
  assumes r: "ir_ok r" and h: "IR_HandleDoViewChange cf app msg r = Inr r'"
  shows "ir_ok r'"
proof -
  define r1 where "r1 = (if id_new_view msg = ir_view r then r else IR_begin_view_change cf (id_new_view msg) r)"
  have r1: "ir_ok r1" using r by (simp add: r1_def ir_ok_begin)
  show ?thesis
    using h r r1 unfolding IR_HandleDoViewChange_def Let_def r1_def [symmetric]
    by (auto split: if_splits option.splits prod.splits)
      (auto simp: ir_ok_def dest!: IrMergeRecords_ok [rotated])
qed

lemma ir_ok_StartView: "ir_ok r \<Longrightarrow> IR_HandleStartView cf app ps v r = Inr r' \<Longrightarrow> ir_ok r'"
  by (auto simp: IR_HandleStartView_def ir_ok_def split: if_splits dest: Record_of_proto_ok)

lemma ir_ok_put: "ir_ok r \<Longrightarrow> entry_ok k e \<Longrightarrow> ir_ok (r\<lparr>ir_record := om_put k e (ir_record r), ir_appstate := a\<rparr>)"
  by (simp add: ir_ok_def record_ok_put)

lemma ir_ok_ProposeInconsistent: "ir_ok r \<Longrightarrow> HandleProposeInconsistent cf remote req r = Inr r' \<Longrightarrow> ir_ok r'"
  by (auto simp: HandleProposeInconsistent_def Let_def Record_Add_Inr ir_entry_def entry_ok_def ir_ok_def
    split: option.splits intro!: record_ok_put)

lemma ir_ok_ProposeConsensus: "ir_ok r \<Longrightarrow> HandleProposeConsensus cf app remote req r = Inr r' \<Longrightarrow> ir_ok r'"
  by (auto simp: HandleProposeConsensus_def Let_def Record_Add_Inr ir_entry_def entry_ok_def ir_ok_def
    split: option.splits prod.splits intro!: record_ok_put)

lemma ir_ok_FinalizeInconsistent:
  assumes r: "ir_ok r" and h: "HandleFinalizeInconsistent cf app remote opid r = Inr r'"
  shows "ir_ok r'"
proof -
  have "record_ok rec" if "record_update opid (\<lambda>e. e\<lparr>ie_state := RECORD_STATE_FINALIZED\<rparr>) (ir_record r) = Inr (b, rec)" for b rec
    by (rule record_update_ok(1) [OF _ that]) (use r in \<open>auto simp: ir_ok_def entry_ok_def\<close>)
  with r h show ?thesis
    by (auto simp: HandleFinalizeInconsistent_def Record_SetStatus_def ir_ok_def split: option.splits if_splits)
qed

lemma ir_ok_FinalizeConsensus:
  assumes r: "ir_ok r" and h: "HandleFinalizeConsensus cf remote opid result r = Inr r'"
  shows "ir_ok r'"
proof -
  have "record_ok rec" if "record_update opid (\<lambda>e. e\<lparr>ie_state := RECORD_STATE_FINALIZED,
      ie_result := (if result \<noteq> ie_result e then result else ie_result e)\<rparr>) (ir_record r) = Inr (b, rec)" for b rec
    by (rule record_update_ok(1) [OF _ that]) (use r in \<open>auto simp: ir_ok_def entry_ok_def\<close>)
  with r h show ?thesis by (auto simp: HandleFinalizeConsensus_def ir_ok_def split: option.splits)
qed

lemma ir_ok_Unlogged: "ir_ok r \<Longrightarrow> ir_ok (IR_HandleUnlogged app remote op reqid r)"
  by (simp add: IR_HandleUnlogged_def split_beta) (simp add: ir_ok_def)

lemma ir_ok_message: "ir_ok r \<Longrightarrow> IR_HandleMessage cf app remote m r = Inr r' \<Longrightarrow> ir_ok r'"
  by (cases m) (auto simp: IR_HandleMessage_def intro: ir_ok_DoViewChange ir_ok_StartView ir_ok_ProposeInconsistent
    ir_ok_ProposeConsensus ir_ok_FinalizeInconsistent ir_ok_FinalizeConsensus ir_ok_Unlogged)

text \<open>
  \<^bold>\<open>C16\<close> In every state that a replica can reach, over any messages and timeouts in any
  order and any crashes and restarts, its record is well formed (sorted, each entry under
  its operation and with the request of that operation), the file holds its current view and
  latest normal view, and a replica in normal operation was last normal in its view.
\<close>

theorem ir_reachable_ok:
  assumes "ir_reachable cf app a0 r"
  shows "record_ok (ir_record r) \<and> ir_persisted r = Some (ir_view r, ir_latest_normal_view r) \<and>
    (ir_status r = STATUS_NORMAL \<longrightarrow> ir_latest_normal_view r = ir_view r)"
  unfolding ir_ok_def [symmetric] using assms
  by (induction rule: ir_reachable.induct) (auto intro: ir_ok_init ir_ok_message ir_ok_timeout)

section \<open>What a restart loses\<close>

definition ir_ex_request :: vr_request where
  "ir_ex_request = \<lparr>rq_op = ''op'', rq_clientid = 7, rq_clientreqid = 1\<rparr>"

text \<open>A replica that was told to propose and to finalize the operation of \<open>ir_ex_request\<close>.\<close>

definition ir_ex_finalized :: "int \<Rightarrow> unit ir_replica outcome" where
  "ir_ex_finalized i =
     bindE (IR_HandleMessage (ir_cf i) IRAppReplica 9 (ProposeInconsistentMessage ir_ex_request) (IRReplica_init (ir_cf i) None ())) (\<lambda>r.
     IR_HandleMessage (ir_cf i) IRAppReplica 9 (FinalizeInconsistentMessage (7, 1)) r)"

theorem ir_reachable_ok_witness:
  "\<exists>r. ir_ex_finalized 0 = Inr r \<and>
     ir_persisted (IRReplica_init (ir_cf 0) (ir_persisted r) ()) = Some (1, 0) \<and> ir_record r \<noteq> [] \<and> record_ok (ir_record r)"
proof -
  obtain r p where p: "IR_HandleMessage (ir_cf 0) IRAppReplica 9 (ProposeInconsistentMessage ir_ex_request)
      (IRReplica_init (ir_cf 0) None ()) = Inr p"
    and r: "IR_HandleMessage (ir_cf 0) IRAppReplica 9 (FinalizeInconsistentMessage (7, 1)) p = Inr r"
    and facts: "ir_persisted r = Some (0, 0)" "ir_record r \<noteq> []"
    by (simp add: IR_HandleMessage_def HandleProposeInconsistent_def HandleFinalizeInconsistent_def Record_Find_def
      Record_Add_def Record_SetStatus_def record_update_def ir_ex_request_def IRReplica_init_def Let_def ir_entry_def
      IRAppReplica_def ir_cf_def)
  have "ir_reachable (ir_cf 0) IRAppReplica () r"
    by (intro ir_reachable.message [OF ir_reachable.message [OF ir_reachable.start p] r])
  from ir_reachable_ok [OF this] facts p r show ?thesis
    by (auto simp: ir_ex_finalized_def IRReplica_init_def Let_def RecoverViewInfo_def ir_cf_def GetLeaderIndex_def)
qed

text \<open>
  \<^bold>\<open>C38\<close> A restart loses an operation that a quorum has finalized. Of three replicas that
  tolerate one failure, replicas 0 and 2 have finalized an inconsistent operation; replica 0
  restarts, which empties its record, and sends it in a view change as that of its latest
  normal view. Replica 1, the leader of the new view, has its quorum with this message, and
  its new record, which replica 2 takes over in place of its own, lacks the operation.
\<close>

theorem restart_loses_finalized_operation:
  "\<exists>r0 r2 m ps new1 new2.
     ir_ex_finalized 0 = Inr r0 \<and> ir_ex_finalized 2 = Inr r2 \<and>
     map_option ie_state (map_of (ir_record r0) (7, 1)) = Some RECORD_STATE_FINALIZED \<and>
     map_option ie_state (map_of (ir_record r2) (7, 1)) = Some RECORD_STATE_FINALIZED \<and>
     IrSendToReplica 1 (IrDoViewChange m) \<in> set (ir_trace (IRReplica_init (ir_cf 0) (ir_persisted r0) ())) \<and>
     IR_HandleMessage (ir_cf 1) IRAppReplica 0 (DoViewChangeMessage m) (IRReplica_init (ir_cf 1) None ()) = Inr new1 \<and>
     IrSendToAll (IrStartView ps 1) \<in> set (ir_trace new1) \<and>
     IR_HandleMessage (ir_cf 2) IRAppReplica 1 (StartViewMessage ps 1) r2 = Inr new2 \<and>
     ir_status new1 = STATUS_NORMAL \<and> ir_status new2 = STATUS_NORMAL \<and>
     ir_record new1 = [] \<and> ir_record new2 = []"
proof -
  let ?m = "\<lparr>id_replicaidx = 0, id_record = Some [], id_new_view = 1, id_latest_normal_view = 0\<rparr> :: ir_do_view_change"
  have fin: "\<exists>r. ir_ex_finalized i = Inr r \<and> map_option ie_state (map_of (ir_record r) (7, 1)) = Some RECORD_STATE_FINALIZED \<and>
      ir_persisted r = Some (0, 0) \<and> ir_view r = 0 \<and> ir_status r = STATUS_NORMAL" for i
    by (simp add: ir_ex_finalized_def IR_HandleMessage_def HandleProposeInconsistent_def HandleFinalizeInconsistent_def
      Record_Find_def Record_Add_def Record_SetStatus_def record_update_def ir_ex_request_def IRReplica_init_def Let_def
      ir_entry_def IRAppReplica_def)
  obtain r0 where r0: "ir_ex_finalized 0 = Inr r0" "ir_persisted r0 = Some (0, 0)"
      "map_option ie_state (map_of (ir_record r0) (7, 1)) = Some RECORD_STATE_FINALIZED" using fin by blast
  obtain r2 where r2: "ir_ex_finalized 2 = Inr r2" "ir_view r2 = 0"
      "map_option ie_state (map_of (ir_record r2) (7, 1)) = Some RECORD_STATE_FINALIZED" using fin by blast
  have sent: "IrSendToReplica 1 (IrDoViewChange ?m) \<in> set (ir_trace (IRReplica_init (ir_cf 0) (ir_persisted r0) ()))"
    by (simp add: r0 IRReplica_init_def Let_def RecoverViewInfo_def ir_cf_def GetLeaderIndex_def
      BroadcastDoViewChangeMessages_def fold_emit PersistViewInfo_def Record_ToProto_def) (simp add: ir_emit_def)
  have "\<exists>new1. IR_HandleMessage (ir_cf 1) IRAppReplica 0 (DoViewChangeMessage ?m) (IRReplica_init (ir_cf 1) None ()) = Inr new1 \<and>
      IrSendToAll (IrStartView [] 1) \<in> set (ir_trace new1) \<and> ir_status new1 = STATUS_NORMAL \<and> ir_record new1 = []"
    by (simp add: IR_HandleMessage_def IR_HandleDoViewChange_def IR_begin_view_change_def IRReplica_init_def Let_def ir_cf_def
      GetLeaderIndex_def qs_AddAndCheckForQuorum_def qs_CheckForQuorum_def qs_at_def QuorumSet_init_def IrMergeRecords_def
      max_normal_view_def Record_of_proto_def IRAppReplica_def merged_record_def Record_ToProto_def)
      (simp add: ir_emit_def)
  moreover have "\<exists>new2. IR_HandleMessage (ir_cf 2) IRAppReplica 1 (StartViewMessage [] 1) r2 = Inr new2 \<and>
      ir_status new2 = STATUS_NORMAL \<and> ir_record new2 = []"
    by (simp add: IR_HandleMessage_def IR_HandleStartView_def r2 ir_cf_def GetLeaderIndex_def Record_of_proto_def)
  ultimately show ?thesis using r0 r2 sent by blast
qed

end
