(* ===== verification/IrClient.thy ===== *)
theory IrClient
  imports IrReplica
begin

text \<open>
  \<open>src/replication/ir/client.{h,cc}\<close>: the client of inconsistent replication. It numbers the
  requests and keeps those under way. An inconsistent operation returns when a quorum has
  replied and is then finalized. A consensus operation returns on the fast path when a super
  quorum has replied the same result, and on the slow path when a quorum has confirmed the
  result that the application has decided on. Whether the transport accepts a message is an
  argument; messages sent and continuations called are a trace. A pending request is one
  of the three classes that extend \<open>PendingRequest\<close>; its timer is the callback it was made
  with and its \<open>Active()\<close> flag; the timer for the slow path is whether it is not null.
\<close>

datatype error_code = TIMEOUT | MISMATCHED_CONSENSUS_VIEWS

datatype ir_timer = TResendInconsistent | TResendConsensus | TUnlogged | TResendConfirmation bool

record consensus_reply =
  cr_view :: u64
  cr_result :: string
  cr_finalized :: bool

type_synonym consensus_replies = "(int \<times> consensus_reply) list"

record 'cb ir_consensus =
  ik_replies :: "(u64, consensus_reply) quorum_set"
  ik_decide :: "((string \<times> nat) list \<Rightarrow> string) option"
  ik_decideResult :: string
  ik_quorumSize :: nat
  ik_superQuorumSize :: nat
  ik_on_slow_path :: bool
  ik_error :: "'cb option"
  ik_slow_timer :: bool
  ik_view :: u64
  ik_sent_confirms :: bool

datatype 'cb ir_kind =
    PendingUnloggedRequest "'cb option"
  | PendingInconsistentRequest "(viewstamp, bool) quorum_set"
  | PendingConsensusRequest "'cb ir_consensus"

record 'cb ir_pending =
  iq_request :: string
  iq_clientReqId :: u64
  iq_continuation :: 'cb
  iq_invoked :: bool
  iq_timer :: ir_timer
  iq_active :: bool
  iq_confirms :: "(viewstamp, unit) quorum_set"
  iq_kind :: "'cb ir_kind"

datatype 'cb ic_event =
    IcToGroup ir_input
  | IcToReplica int ir_input
  | IcContinue 'cb string string
  | IcError 'cb string error_code

record 'cb ir_client =
  ic_clientid :: u64
  ic_lastReqId :: u64
  ic_pendingReqs :: "(u64, 'cb ir_pending) umap"
  ic_trace :: "'cb ic_event list"

definition IRClient_init :: "u64 \<Rightarrow> 'cb ir_client" where
  "IRClient_init client = \<lparr>ic_clientid = client, ic_lastReqId = 0, ic_pendingReqs = [], ic_trace = []\<rparr>"

definition ic_emit :: "'cb ic_event \<Rightarrow> 'cb ir_client \<Rightarrow> 'cb ir_client" where
  "ic_emit e c = c\<lparr>ic_trace := ic_trace c @ [e]\<rparr>"

definition ic_put :: "'cb ir_pending \<Rightarrow> u64 \<Rightarrow> 'cb ir_client \<Rightarrow> 'cb ir_client" where
  "ic_put req i c = c\<lparr>ic_pendingReqs := um_put i req (ic_pendingReqs c)\<rparr>"

definition ic_erase :: "u64 \<Rightarrow> 'cb ir_client \<Rightarrow> 'cb ir_client" where
  "ic_erase i c = c\<lparr>ic_pendingReqs := um_erase i (ic_pendingReqs c)\<rparr>"

definition ic_request :: "'cb ir_pending \<Rightarrow> 'cb ir_client \<Rightarrow> vr_request" where
  "ic_request req c = \<lparr>rq_op = iq_request req, rq_clientid = ic_clientid c, rq_clientreqid = iq_clientReqId req\<rparr>"

section \<open>Invoking operations\<close>

text \<open>A request that cannot be sent is deleted; its continuations are never called.\<close>

definition SendInconsistent :: "bool \<Rightarrow> 'cb ir_pending \<Rightarrow> 'cb ir_client \<Rightarrow> 'cb ir_client" where
  "SendInconsistent ok req c =
     (if ok then ic_emit (IcToGroup (ProposeInconsistentMessage (ic_request req c)))
        (ic_put (req\<lparr>iq_active := True\<rparr>) (iq_clientReqId req) c)
      else ic_erase (iq_clientReqId req) c)"

definition SendConsensus :: "bool \<Rightarrow> 'cb ir_pending \<Rightarrow> 'cb ir_client \<Rightarrow> 'cb ir_client" where
  "SendConsensus ok req c =
     (if ok then ic_emit (IcToGroup (ProposeConsensusMessage (ic_request req c)))
        (ic_put (req\<lparr>iq_active := True\<rparr>) (iq_clientReqId req) c)
      else ic_erase (iq_clientReqId req) c)"

definition InvokeInconsistent :: "vr_config \<Rightarrow> bool \<Rightarrow> string \<Rightarrow> 'cb \<Rightarrow> 'cb ir_client \<Rightarrow> 'cb ir_client" where
  "InvokeInconsistent cf ok request continuation c =
     (let i = ic_lastReqId c + 1;
          req = \<lparr>iq_request = request, iq_clientReqId = i, iq_continuation = continuation, iq_invoked = False,
            iq_timer = TResendInconsistent, iq_active = False, iq_confirms = QuorumSet_init (QuorumSize cf),
            iq_kind = PendingInconsistentRequest (QuorumSet_init (QuorumSize cf))\<rparr>
      in SendInconsistent ok req (ic_put req i (c\<lparr>ic_lastReqId := i\<rparr>)))"

definition IRClient_Invoke :: "vr_config \<Rightarrow> bool \<Rightarrow> string \<Rightarrow> 'cb \<Rightarrow> 'cb ir_client \<Rightarrow> 'cb ir_client" where
  "IRClient_Invoke cf ok request continuation c = InvokeInconsistent cf ok request continuation c"

definition InvokeConsensus :: "vr_config \<Rightarrow> bool \<Rightarrow> string \<Rightarrow> ((string \<times> nat) list \<Rightarrow> string) option \<Rightarrow> 'cb \<Rightarrow> 'cb option
    \<Rightarrow> 'cb ir_client \<Rightarrow> 'cb ir_client" where
  "InvokeConsensus cf ok request decide continuation error_continuation c =
     (let i = ic_lastReqId c + 1;
          k = \<lparr>ik_replies = QuorumSet_init (QuorumSize cf), ik_decide = decide, ik_decideResult = [],
            ik_quorumSize = nat (QuorumSize cf), ik_superQuorumSize = nat (FastQuorumSize cf), ik_on_slow_path = False,
            ik_error = error_continuation, ik_slow_timer = True, ik_view = 0, ik_sent_confirms = False\<rparr>;
          req = \<lparr>iq_request = request, iq_clientReqId = i, iq_continuation = continuation, iq_invoked = False,
            iq_timer = TResendConsensus, iq_active = False, iq_confirms = QuorumSet_init (QuorumSize cf),
            iq_kind = PendingConsensusRequest k\<rparr>
      in SendConsensus ok req (ic_put req i (c\<lparr>ic_lastReqId := i\<rparr>)))"

definition ic_unlogged :: "u64 \<Rightarrow> string \<Rightarrow> 'cb \<Rightarrow> 'cb option \<Rightarrow> 'cb ir_pending" where
  "ic_unlogged i request continuation error_continuation =
     \<lparr>iq_request = request, iq_clientReqId = i, iq_continuation = continuation, iq_invoked = False, iq_timer = TUnlogged,
       iq_active = True, iq_confirms = QuorumSet_init 1, iq_kind = PendingUnloggedRequest error_continuation\<rparr>"

definition IRClient_InvokeUnlogged :: "bool \<Rightarrow> int \<Rightarrow> string \<Rightarrow> 'cb \<Rightarrow> 'cb option \<Rightarrow> 'cb ir_client \<Rightarrow> 'cb ir_client" where
  "IRClient_InvokeUnlogged ok replicaIdx request continuation error_continuation c =
     (let i = ic_lastReqId c + 1; c1 = c\<lparr>ic_lastReqId := i\<rparr> in
      if ok then ic_put (ic_unlogged i request continuation error_continuation) i
        (ic_emit (IcToReplica replicaIdx (UnloggedRequestMessage request i)) c1)
      else c1)"

definition IRClient_InvokeUnloggedAll :: "bool \<Rightarrow> string \<Rightarrow> 'cb \<Rightarrow> 'cb option \<Rightarrow> 'cb ir_client \<Rightarrow> 'cb ir_client" where
  "IRClient_InvokeUnloggedAll ok request continuation error_continuation c =
     (let i = ic_lastReqId c + 1; c1 = c\<lparr>ic_lastReqId := i\<rparr> in
      if ok then ic_put (ic_unlogged i request continuation error_continuation) i
        (ic_emit (IcToGroup (UnloggedRequestMessage request i)) c1)
      else c1)"

section \<open>Sending again\<close>

text \<open>A missing request is read through a null pointer, a request of another class through a wrong cast.\<close>

definition ResendInconsistent :: "bool \<Rightarrow> u64 \<Rightarrow> 'cb ir_client \<Rightarrow> 'cb ir_client outcome" where
  "ResendInconsistent ok i c =
     (case map_of (ic_pendingReqs c) i of
        None \<Rightarrow> Inl UndefinedBehaviour
      | Some req \<Rightarrow> (case iq_kind req of PendingInconsistentRequest _ \<Rightarrow> Inr (SendInconsistent ok req c) | _ \<Rightarrow> Inl UndefinedBehaviour))"

definition ResendConsensus :: "bool \<Rightarrow> u64 \<Rightarrow> 'cb ir_client \<Rightarrow> 'cb ir_client outcome" where
  "ResendConsensus ok i c =
     (case map_of (ic_pendingReqs c) i of
        None \<Rightarrow> Inl UndefinedBehaviour
      | Some req \<Rightarrow> (case iq_kind req of PendingConsensusRequest _ \<Rightarrow> Inr (SendConsensus ok req c) | _ \<Rightarrow> Inl UndefinedBehaviour))"

definition finalize_message :: "u64 \<Rightarrow> 'cb ir_pending \<Rightarrow> 'cb ir_client \<Rightarrow> ir_input" where
  "finalize_message i req c =
     (case iq_kind req of PendingConsensusRequest k \<Rightarrow> FinalizeConsensusMessage (ic_clientid c, i) (ik_decideResult k)
      | _ \<Rightarrow> FinalizeInconsistentMessage (ic_clientid c, i))"

definition ResendConfirmation :: "bool \<Rightarrow> u64 \<Rightarrow> bool \<Rightarrow> 'cb ir_client \<Rightarrow> 'cb ir_client outcome" where
  "ResendConfirmation ok i isConsensus c =
     (case map_of (ic_pendingReqs c) i of
        None \<Rightarrow> Inr c
      | Some req \<Rightarrow>
          (if (case iq_kind req of PendingConsensusRequest _ \<Rightarrow> isConsensus | PendingInconsistentRequest _ \<Rightarrow> \<not> isConsensus
               | PendingUnloggedRequest _ \<Rightarrow> False)
           then Inr (if ok then ic_emit (IcToGroup (finalize_message (iq_clientReqId req) req c)) (ic_put (req\<lparr>iq_active := True\<rparr>) i c)
             else ic_erase i c)
           else Inl UndefinedBehaviour))"

section \<open>Consensus operations\<close>

text \<open>The results and their frequencies, and the view that all replies must have.\<close>

definition slow_results :: "consensus_replies \<Rightarrow> (u64 \<times> (string \<times> nat) list) outcome" where
  "slow_results msgs =
     bindE (foldE (\<lambda>(_, m) view. let v = (if view = 0 then cr_view m else view) in assertE (cr_view m = v) (Inr v)) msgs 0) (\<lambda>view.
       Inr (view, tally (map (\<lambda>(_, m). cr_result m) msgs)))"

definition HandleSlowPathConsensus :: "bool \<Rightarrow> u64 \<Rightarrow> consensus_replies \<Rightarrow> bool \<Rightarrow> 'cb ir_pending \<Rightarrow> 'cb ir_consensus
    \<Rightarrow> 'cb ir_client \<Rightarrow> 'cb ir_client outcome" where
  "HandleSlowPathConsensus ok i msgs finalized_result_found req k c =
     assertE (finalized_result_found \<or> length msgs \<ge> ik_quorumSize k)
       (bindE (if finalized_result_found then Inr k
               else bindE (slow_results msgs) (\<lambda>(view, results).
                 case ik_decide k of
                   None \<Rightarrow> Inl AssertFailed
                 | Some decide \<Rightarrow> Inr (k\<lparr>ik_decideResult := decide results, ik_view := view\<rparr>))) (\<lambda>k1.
          Inr (if ok then
                 ic_emit (IcToGroup (FinalizeConsensusMessage (ic_clientid c, i) (ik_decideResult k1)))
                   (ic_put (req\<lparr>iq_timer := TResendConfirmation True, iq_active := True,
                     iq_kind := PendingConsensusRequest (k1\<lparr>ik_sent_confirms := True\<rparr>)\<rparr>) i c)
               else ic_erase i c)))"

text \<open>
  When the message to the replicas cannot be sent, the request is deleted and then read
  again for its continuation.
\<close>

definition HandleFastPathConsensus :: "bool \<Rightarrow> u64 \<Rightarrow> consensus_replies \<Rightarrow> 'cb ir_pending \<Rightarrow> 'cb ir_consensus
    \<Rightarrow> 'cb ir_client \<Rightarrow> 'cb ir_client outcome" where
  "HandleFastPathConsensus ok i msgs req k c =
     assertE (length msgs \<ge> ik_superQuorumSize k)
       (case find (\<lambda>r. snd r \<ge> ik_superQuorumSize k) (tally (map (\<lambda>(_, m). cr_result m) msgs)) of
          Some (result, _) \<Rightarrow>
            if ok then
              let c1 = ic_emit (IcToGroup (FinalizeConsensusMessage (ic_clientid c, i) result))
                    (ic_put (req\<lparr>iq_timer := TResendConfirmation True, iq_active := True, iq_invoked := True,
                      iq_kind := PendingConsensusRequest (k\<lparr>ik_decideResult := result, ik_sent_confirms := True\<rparr>)\<rparr>) i c)
              in Inr (if iq_invoked req then c1 else ic_emit (IcContinue (iq_continuation req) (iq_request req) result) c1)
            else Inl UndefinedBehaviour
        | None \<Rightarrow> HandleSlowPathConsensus ok i msgs False req (k\<lparr>ik_on_slow_path := True, ik_slow_timer := False\<rparr>) c)"

definition TransitionToConsensusSlowPath :: "bool \<Rightarrow> u64 \<Rightarrow> 'cb ir_client \<Rightarrow> 'cb ir_client outcome" where
  "TransitionToConsensusSlowPath ok i c =
     (case map_of (ic_pendingReqs c) i of
        None \<Rightarrow> Inl AssertFailed
      | Some req \<Rightarrow>
          (case iq_kind req of
             PendingConsensusRequest k \<Rightarrow>
               assertE (ik_slow_timer k)
                 (let k1 = k\<lparr>ik_on_slow_path := True, ik_slow_timer := False\<rparr> in
                  case qs_CheckForQuorum_any (ik_replies k1) of
                    None \<Rightarrow> Inr (ic_put (req\<lparr>iq_kind := PendingConsensusRequest k1\<rparr>) i c)
                  | Some msgs \<Rightarrow> HandleSlowPathConsensus ok i msgs False req k1 c)
           | _ \<Rightarrow> Inl AssertFailed))"

definition HandleConsensusReply :: "bool \<Rightarrow> u64 \<Rightarrow> int \<Rightarrow> opid \<Rightarrow> string \<Rightarrow> bool \<Rightarrow> 'cb ir_client \<Rightarrow> 'cb ir_client outcome" where
  "HandleConsensusReply ok view replicaidx opid result finalized c =
     (let i = snd opid in
      case map_of (ic_pendingReqs c) i of
        None \<Rightarrow> Inr c
      | Some req \<Rightarrow>
          (case iq_kind req of
             PendingConsensusRequest k \<Rightarrow>
               if ik_sent_confirms k then Inr c
               else
                 (let q = qs_Add view replicaidx \<lparr>cr_view = view, cr_result = result, cr_finalized = finalized\<rparr> (ik_replies k);
                      (msgs, q1) = qs_GetMessages view q;
                      k1 = k\<lparr>ik_replies := q1\<rparr>
                  in if finalized then
                       HandleSlowPathConsensus ok i msgs True req
                         (k1\<lparr>ik_on_slow_path := True, ik_slow_timer := False, ik_decideResult := result, ik_view := view\<rparr>) c
                     else if ik_on_slow_path k1 \<and> length msgs \<ge> ik_quorumSize k1 then HandleSlowPathConsensus ok i msgs False req k1 c
                     else if \<not> ik_on_slow_path k1 \<and> length msgs \<ge> ik_superQuorumSize k1 then HandleFastPathConsensus ok i msgs req k1 c
                     else Inr (ic_put (req\<lparr>iq_kind := PendingConsensusRequest k1\<rparr>) i c))
           | _ \<Rightarrow> Inl AssertFailed))"

section \<open>The other replies\<close>

definition HandleInconsistentReply :: "bool \<Rightarrow> u64 \<Rightarrow> int \<Rightarrow> opid \<Rightarrow> bool \<Rightarrow> 'cb ir_client \<Rightarrow> 'cb ir_client outcome" where
  "HandleInconsistentReply ok view replicaidx opid finalized c =
     (let i = snd opid in
      case map_of (ic_pendingReqs c) i of
        None \<Rightarrow> Inr c
      | Some req \<Rightarrow>
          (case iq_kind req of
             PendingInconsistentRequest q \<Rightarrow>
               (let (quorum, q1) = qs_AddAndCheckForQuorum (Viewstamp view i) replicaidx finalized q;
                    req1 = req\<lparr>iq_kind := PendingInconsistentRequest q1\<rparr>
                in if quorum \<noteq> None \<and> \<not> iq_invoked req then
                     (let c1 = ic_put (req1\<lparr>iq_timer := TResendConfirmation False, iq_active := ok, iq_invoked := True\<rparr>) i c;
                          c2 = (if ok then ic_emit (IcToGroup (FinalizeInconsistentMessage opid)) c1 else c1)
                      in Inr (ic_emit (IcContinue (iq_continuation req) (iq_request req) []) c2))
                   else Inr (ic_put req1 i c))
           | _ \<Rightarrow> Inl AssertFailed))"

definition HandleConfirm :: "u64 \<Rightarrow> int \<Rightarrow> opid \<Rightarrow> 'cb ir_client \<Rightarrow> 'cb ir_client outcome" where
  "HandleConfirm view replicaidx opid c =
     (let i = snd opid in
      case map_of (ic_pendingReqs c) i of
        None \<Rightarrow> Inr c
      | Some req \<Rightarrow>
          (let (quorum, q) = qs_AddAndCheckForQuorum (Viewstamp view i) replicaidx () (iq_confirms req) in
           if quorum = None then Inr (ic_put (req\<lparr>iq_confirms := q\<rparr>) i c)
           else if iq_invoked req then Inr (ic_erase i c)
           else
             (case iq_kind req of
                PendingConsensusRequest k \<Rightarrow>
                  Inr (if view = ik_view k then ic_emit (IcContinue (iq_continuation req) (iq_request req) (ik_decideResult k)) (ic_erase i c)
                    else (case ik_error k of None \<Rightarrow> ic_erase i c
                      | Some e \<Rightarrow> ic_emit (IcError e (iq_request req) MISMATCHED_CONSENSUS_VIEWS) (ic_erase i c)))
              | _ \<Rightarrow> Inl AssertFailed)))"

text \<open>The continuation says whether it is done with the request; what it answers is an argument.\<close>

definition IR_HandleUnloggedReply :: "bool \<Rightarrow> string \<Rightarrow> u64 \<Rightarrow> 'cb ir_client \<Rightarrow> 'cb ir_client" where
  "IR_HandleUnloggedReply answer reply i c =
     (case map_of (ic_pendingReqs c) i of
        None \<Rightarrow> c
      | Some req \<Rightarrow>
          let c1 = ic_emit (IcContinue (iq_continuation req) (iq_request req) reply) c in
          if answer then ic_erase i c1 else c1)"

definition IR_UnloggedRequestTimeoutCallback :: "u64 \<Rightarrow> 'cb ir_client \<Rightarrow> 'cb ir_client outcome" where
  "IR_UnloggedRequestTimeoutCallback i c =
     (case map_of (ic_pendingReqs c) i of
        None \<Rightarrow> Inr c
      | Some req \<Rightarrow>
          (case iq_kind req of
             PendingUnloggedRequest None \<Rightarrow> Inr (ic_erase i c)
           | PendingUnloggedRequest (Some e) \<Rightarrow> Inr (ic_emit (IcError e (iq_request req) TIMEOUT) (ic_erase i c))
           | _ \<Rightarrow> Inl UndefinedBehaviour))"

definition IRClient_ReceiveMessage :: "bool \<Rightarrow> bool \<Rightarrow> ir_message \<Rightarrow> 'cb ir_client \<Rightarrow> 'cb ir_client outcome" where
  "IRClient_ReceiveMessage ok answer m c =
     (case m of
        ReplyInconsistent view idx opid finalized \<Rightarrow> HandleInconsistentReply ok view idx opid finalized c
      | ReplyConsensus view idx opid result finalized \<Rightarrow> HandleConsensusReply ok view idx opid result finalized c
      | Confirm view idx opid \<Rightarrow> HandleConfirm view idx opid c
      | IrUnloggedReply reply i \<Rightarrow> Inr (IR_HandleUnloggedReply answer reply i c)
      | _ \<Rightarrow> Inl Panicked)"

text \<open>A timer of the request with this number fires.\<close>

definition IRClient_OnTimer :: "bool \<Rightarrow> u64 \<Rightarrow> 'cb ir_client \<Rightarrow> 'cb ir_client outcome" where
  "IRClient_OnTimer ok i c =
     (case map_of (ic_pendingReqs c) i of
        None \<Rightarrow> Inr c
      | Some req \<Rightarrow>
          if \<not> iq_active req then Inr c
          else (case iq_timer req of
            TResendInconsistent \<Rightarrow> ResendInconsistent ok i c
          | TResendConsensus \<Rightarrow> ResendConsensus ok i c
          | TUnlogged \<Rightarrow> IR_UnloggedRequestTimeoutCallback i c
          | TResendConfirmation isConsensus \<Rightarrow> ResendConfirmation ok i isConsensus c))"

end
