(* ===== verification/IrClientSafety.thy ===== *)
theory IrClientSafety
  imports IrClient IrMergeProps
begin

text \<open>
  The client of inconsistent replication over any run: what a consensus operation answers
  is what a super quorum of replicas has replied in one view, or what was decided for a
  view and confirmed by a quorum in it.
\<close>

section \<open>Runs\<close>

text \<open>The numbers of the requests that an event finalizes, or that it sends as unlogged requests.\<close>

fun ev_final :: "'cb ic_event \<Rightarrow> u64 set" where
  "ev_final (IcToGroup (FinalizeInconsistentMessage opid)) = {snd opid}"
| "ev_final (IcToGroup (FinalizeConsensusMessage opid res)) = {snd opid}"
| "ev_final _ = {}"

fun ev_unlogged :: "'cb ic_event \<Rightarrow> u64 set" where
  "ev_unlogged (IcToGroup (UnloggedRequestMessage op i)) = {i}"
| "ev_unlogged (IcToReplica r (UnloggedRequestMessage op i)) = {i}"
| "ev_unlogged _ = {}"

definition final_ids :: "'cb ic_event list \<Rightarrow> u64 set" where
  "final_ids tr = (\<Union>e \<in> set tr. ev_final e)"

definition unlogged_ids :: "'cb ic_event list \<Rightarrow> u64 set" where
  "unlogged_ids tr = (\<Union>e \<in> set tr. ev_unlogged e)"

text \<open>A replica confirms only what it was told to finalize, and answers only unlogged requests that it was sent.\<close>

definition asked :: "ir_message \<Rightarrow> 'cb ic_event list \<Rightarrow> bool" where
  "asked m tr = (case m of Confirm v r opid \<Rightarrow> snd opid \<in> final_ids tr | IrUnloggedReply reply i \<Rightarrow> i \<in> unlogged_ids tr | _ \<Rightarrow> True)"

text \<open>
  Any run of the client, with the messages it has received. \<open>dec\<close> tells which continuations
  are those of consensus operations, and with which function to decide; the numbers of the
  requests do not wrap.
\<close>

inductive ic_run :: "vr_config \<Rightarrow> u64 \<Rightarrow> ('cb \<Rightarrow> ((string \<times> nat) list \<Rightarrow> string) option) \<Rightarrow> ir_message list \<Rightarrow> 'cb ir_client \<Rightarrow> bool"
  for cf cid dec where
  start: "ic_run cf cid dec [] (IRClient_init cid)"
| inconsistent: "ic_run cf cid dec rcv c \<Longrightarrow> ic_lastReqId c \<noteq> - 1 \<Longrightarrow> dec cb = None \<Longrightarrow>
    ic_run cf cid dec rcv (InvokeInconsistent cf ok op cb c)"
| consensus: "ic_run cf cid dec rcv c \<Longrightarrow> ic_lastReqId c \<noteq> - 1 \<Longrightarrow> dec cb = Some d \<Longrightarrow>
    ic_run cf cid dec rcv (InvokeConsensus cf ok op (Some d) cb err c)"
| unlogged: "ic_run cf cid dec rcv c \<Longrightarrow> ic_lastReqId c \<noteq> - 1 \<Longrightarrow> dec cb = None \<Longrightarrow>
    ic_run cf cid dec rcv (IRClient_InvokeUnlogged ok r op cb err c)"
| unlogged_all: "ic_run cf cid dec rcv c \<Longrightarrow> ic_lastReqId c \<noteq> - 1 \<Longrightarrow> dec cb = None \<Longrightarrow>
    ic_run cf cid dec rcv (IRClient_InvokeUnloggedAll ok op cb err c)"
| timer: "ic_run cf cid dec rcv c \<Longrightarrow> IRClient_OnTimer ok i c = Inr c' \<Longrightarrow> ic_run cf cid dec rcv c'"
| slow_timer: "ic_run cf cid dec rcv c \<Longrightarrow> TransitionToConsensusSlowPath ok i c = Inr c' \<Longrightarrow> ic_run cf cid dec rcv c'"
| receive: "ic_run cf cid dec rcv c \<Longrightarrow> asked m (ic_trace c) \<Longrightarrow> IRClient_ReceiveMessage ok answer m c = Inr c' \<Longrightarrow>
    ic_run cf cid dec (m # rcv) c'"

section \<open>What an answer rests on\<close>

definition replied :: "ir_message list \<Rightarrow> u64 \<Rightarrow> u64 \<Rightarrow> int \<Rightarrow> string \<Rightarrow> bool" where
  "replied rcv i v r x \<longleftrightarrow> (\<exists>cl fin. ReplyConsensus v r (cl, i) x fin \<in> set rcv)"

definition confirmed :: "ir_message list \<Rightarrow> u64 \<Rightarrow> u64 \<Rightarrow> int \<Rightarrow> bool" where
  "confirmed rcv i v r \<longleftrightarrow> (\<exists>cl. Confirm v r (cl, i) \<in> set rcv)"

text \<open>
  \<open>x\<close> is the result for view \<open>v\<close>: a replica has replied it as finalized, or the application
  has decided it from the replies of a quorum of different replicas.
\<close>

definition decided :: "vr_config \<Rightarrow> ((string \<times> nat) list \<Rightarrow> string) \<Rightarrow> ir_message list \<Rightarrow> u64 \<Rightarrow> u64 \<Rightarrow> string \<Rightarrow> bool" where
  "decided cf d rcv i v x \<longleftrightarrow>
     (\<exists>r cl. ReplyConsensus v r (cl, i) x True \<in> set rcv) \<or>
     (\<exists>votes. distinct (map fst votes) \<and> QuorumSize cf \<le> int (length votes) \<and> (\<forall>(r, y) \<in> set votes. replied rcv i v r y) \<and>
        x = d (tally (map snd votes)))"

definition fast_answer :: "vr_config \<Rightarrow> ir_message list \<Rightarrow> u64 \<Rightarrow> string \<Rightarrow> bool" where
  "fast_answer cf rcv i x \<longleftrightarrow> (\<exists>v S. FastQuorumSize cf \<le> int (card S) \<and> (\<forall>r \<in> S. replied rcv i v r x))"

definition slow_answer :: "vr_config \<Rightarrow> u64 \<Rightarrow> ((string \<times> nat) list \<Rightarrow> string) \<Rightarrow> ir_message list \<Rightarrow> 'cb ic_event list \<Rightarrow> u64 \<Rightarrow> string \<Rightarrow> bool" where
  "slow_answer cf cid d rcv tr i x \<longleftrightarrow> (\<exists>v S. QuorumSize cf \<le> int (card S) \<and> (\<forall>r \<in> S. confirmed rcv i v r) \<and>
     decided cf d rcv i v x \<and> IcToGroup (FinalizeConsensusMessage (cid, i) x) \<in> set tr)"

section \<open>The invariant\<close>

definition replies_ok :: "vr_config \<Rightarrow> ir_message list \<Rightarrow> u64 \<Rightarrow> (u64, consensus_reply) quorum_set \<Rightarrow> bool" where
  "replies_ok cf rcv i q \<longleftrightarrow> qs_numRequired q = QuorumSize cf \<and> sorted_wrt (<) (map fst (qs_messages q)) \<and> (\<forall>v. sorted_wrt (<) (map fst (qs_at q v)) \<and>
     (\<forall>(r, m) \<in> set (qs_at q v). cr_view m = v \<and> replied rcv i v r (cr_result m)))"

definition confirms_ok :: "vr_config \<Rightarrow> ir_message list \<Rightarrow> u64 \<Rightarrow> (viewstamp, unit) quorum_set \<Rightarrow> bool" where
  "confirms_ok cf rcv i q \<longleftrightarrow> qs_numRequired q = QuorumSize cf \<and> (\<forall>v. sorted_wrt (<) (map fst (qs_at q (Viewstamp v i))) \<and>
     (\<forall>r \<in> fst ` set (qs_at q (Viewstamp v i)). confirmed rcv i v r))"

definition consensus_ok :: "vr_config \<Rightarrow> u64 \<Rightarrow> ((string \<times> nat) list \<Rightarrow> string) \<Rightarrow> ir_message list \<Rightarrow> 'cb ic_event list \<Rightarrow> u64
    \<Rightarrow> bool \<Rightarrow> 'cb ir_consensus \<Rightarrow> bool" where
  "consensus_ok cf cid d rcv tr i invoked k \<longleftrightarrow>
     ik_decide k = Some d \<and> ik_quorumSize k = nat (QuorumSize cf) \<and> ik_superQuorumSize k = nat (FastQuorumSize cf) \<and>
     replies_ok cf rcv i (ik_replies k) \<and> i \<notin> unlogged_ids tr \<and>
     (if ik_sent_confirms k
      then IcToGroup (FinalizeConsensusMessage (cid, i) (ik_decideResult k)) \<in> set tr \<and>
        (\<not> invoked \<longrightarrow> decided cf d rcv i (ik_view k) (ik_decideResult k))
      else \<not> invoked \<and> i \<notin> final_ids tr)"

definition pend_ok :: "vr_config \<Rightarrow> u64 \<Rightarrow> ('cb \<Rightarrow> ((string \<times> nat) list \<Rightarrow> string) option) \<Rightarrow> ir_message list \<Rightarrow> 'cb ic_event list \<Rightarrow> u64
    \<Rightarrow> 'cb ir_pending \<Rightarrow> bool" where
  "pend_ok cf cid dec rcv tr i req \<longleftrightarrow> iq_clientReqId req = i \<and>
     (case iq_kind req of
        PendingConsensusRequest k \<Rightarrow> confirms_ok cf rcv i (iq_confirms req) \<and>
          (\<forall>b. iq_timer req = TResendConfirmation b \<longrightarrow> ik_sent_confirms k) \<and>
          (\<exists>d. dec (iq_continuation req) = Some d \<and> consensus_ok cf cid d rcv tr i (iq_invoked req) k)
      | _ \<Rightarrow> dec (iq_continuation req) = None)"

definition ic_inv :: "vr_config \<Rightarrow> u64 \<Rightarrow> ('cb \<Rightarrow> ((string \<times> nat) list \<Rightarrow> string) option) \<Rightarrow> ir_message list \<Rightarrow> 'cb ir_client \<Rightarrow> bool" where
  "ic_inv cf cid dec rcv c \<longleftrightarrow> ic_clientid c = cid \<and>
     (\<forall>i req. map_of (ic_pendingReqs c) i = Some req \<longrightarrow> i \<le> ic_lastReqId c \<and> pend_ok cf cid dec rcv (ic_trace c) i req) \<and>
     (\<forall>i \<in> final_ids (ic_trace c) \<union> unlogged_ids (ic_trace c). i \<le> ic_lastReqId c) \<and>
     (\<forall>cb op x d. IcContinue cb op x \<in> set (ic_trace c) \<longrightarrow> dec cb = Some d \<longrightarrow>
        (\<exists>i. fast_answer cf rcv i x \<or> slow_answer cf cid d rcv (ic_trace c) i x))"

section \<open>Monotonicity\<close>

lemma replied_mono: "replied rcv i v r x \<Longrightarrow> set rcv \<subseteq> set rcv' \<Longrightarrow> replied rcv' i v r x"
  by (auto simp: replied_def)

lemma decided_mono: "decided cf d rcv i v x \<Longrightarrow> set rcv \<subseteq> set rcv' \<Longrightarrow> decided cf d rcv' i v x"
  unfolding decided_def by (fastforce intro: replied_mono)

lemma fast_answer_mono: "fast_answer cf rcv i x \<Longrightarrow> set rcv \<subseteq> set rcv' \<Longrightarrow> fast_answer cf rcv' i x"
  unfolding fast_answer_def by (fast intro: replied_mono)

lemma slow_answer_mono:
  "slow_answer cf cid d rcv tr i x \<Longrightarrow> set rcv \<subseteq> set rcv' \<Longrightarrow> set tr \<subseteq> set tr' \<Longrightarrow> slow_answer cf cid d rcv' tr' i x"
  unfolding slow_answer_def confirmed_def by (fast intro: decided_mono)

lemma replies_ok_mono: "replies_ok cf rcv i q \<Longrightarrow> set rcv \<subseteq> set rcv' \<Longrightarrow> replies_ok cf rcv' i q"
  unfolding replies_ok_def by (fastforce intro: replied_mono)

lemma confirms_ok_mono: "confirms_ok cf rcv i q \<Longrightarrow> set rcv \<subseteq> set rcv' \<Longrightarrow> confirms_ok cf rcv' i q"
  unfolding confirms_ok_def confirmed_def by fast

lemma ids_snoc [simp]:
  "final_ids (tr @ [e]) = final_ids tr \<union> ev_final e" "unlogged_ids (tr @ [e]) = unlogged_ids tr \<union> ev_unlogged e"
  "final_ids [] = {}" "unlogged_ids [] = {}"
  by (auto simp: final_ids_def unlogged_ids_def)

lemma consensus_ok_mono: "consensus_ok cf cid d rcv tr i b k \<Longrightarrow> set rcv \<subseteq> set rcv' \<Longrightarrow> consensus_ok cf cid d rcv' tr i b k"
  by (auto simp: consensus_ok_def intro: replies_ok_mono decided_mono)

lemma consensus_ok_snoc:
  "consensus_ok cf cid d rcv tr i b k \<Longrightarrow> i \<notin> ev_unlogged e \<Longrightarrow> i \<notin> ev_final e \<Longrightarrow> consensus_ok cf cid d rcv (tr @ [e]) i b k"
  by (auto simp: consensus_ok_def)

lemma pend_ok_mono: "pend_ok cf cid dec rcv tr i req \<Longrightarrow> set rcv \<subseteq> set rcv' \<Longrightarrow> pend_ok cf cid dec rcv' tr i req"
  by (auto simp: pend_ok_def split: ir_kind.splits intro: confirms_ok_mono consensus_ok_mono)

lemma pend_ok_snoc:
  "pend_ok cf cid dec rcv tr i req \<Longrightarrow> i \<notin> ev_unlogged e \<Longrightarrow> i \<notin> ev_final e \<Longrightarrow> pend_ok cf cid dec rcv (tr @ [e]) i req"
  by (auto simp: pend_ok_def split: ir_kind.splits intro: consensus_ok_snoc)

lemma ic_fields [simp]:
  "ic_trace (ic_emit e c) = ic_trace c @ [e]" "ic_pendingReqs (ic_emit e c) = ic_pendingReqs c"
  "ic_clientid (ic_emit e c) = ic_clientid c" "ic_lastReqId (ic_emit e c) = ic_lastReqId c"
  "ic_trace (ic_put req i c) = ic_trace c" "ic_pendingReqs (ic_put req i c) = um_put i req (ic_pendingReqs c)"
  "ic_clientid (ic_put req i c) = ic_clientid c" "ic_lastReqId (ic_put req i c) = ic_lastReqId c"
  "ic_trace (ic_erase i c) = ic_trace c" "ic_pendingReqs (ic_erase i c) = um_erase i (ic_pendingReqs c)"
  "ic_clientid (ic_erase i c) = ic_clientid c" "ic_lastReqId (ic_erase i c) = ic_lastReqId c"
  by (simp_all add: ic_emit_def ic_put_def ic_erase_def)

lemma ic_inv_rcv: "ic_inv cf cid dec rcv c \<Longrightarrow> set rcv \<subseteq> set rcv' \<Longrightarrow> ic_inv cf cid dec rcv' c"
  unfolding ic_inv_def
  by (elim conjE, intro conjI) (assumption, blast intro: pend_ok_mono, assumption,
    meson fast_answer_mono order_refl slow_answer_mono)

lemma ic_inv_pend: "ic_inv cf cid dec rcv c \<Longrightarrow> map_of (ic_pendingReqs c) i = Some req \<Longrightarrow>
    i \<le> ic_lastReqId c \<and> pend_ok cf cid dec rcv (ic_trace c) i req"
  by (simp add: ic_inv_def)

lemma ic_inv_put: "ic_inv cf cid dec rcv c \<Longrightarrow> i \<le> ic_lastReqId c \<Longrightarrow> pend_ok cf cid dec rcv (ic_trace c) i req \<Longrightarrow>
    ic_inv cf cid dec rcv (ic_put req i c)"
  by (simp add: ic_inv_def)

lemma ic_inv_erase: "ic_inv cf cid dec rcv c \<Longrightarrow> ic_inv cf cid dec rcv (ic_erase i c)"
  by (simp add: ic_inv_def)

text \<open>An event about a request that is not pending any more, or about none, and that answers nothing new.\<close>

lemma ic_inv_emit:
  assumes inv: "ic_inv cf cid dec rcv c" and ids: "ev_final e \<union> ev_unlogged e \<subseteq> {i}" and i: "i \<le> ic_lastReqId c"
    and free: "map_of (ic_pendingReqs c) i = None \<or> ev_final e \<union> ev_unlogged e = {}"
    and ans: "\<And>cb op x d. e = IcContinue cb op x \<Longrightarrow> dec cb = Some d \<Longrightarrow>
      \<exists>i. fast_answer cf rcv i x \<or> slow_answer cf cid d rcv (ic_trace c) i x"
  shows "ic_inv cf cid dec rcv (ic_emit e c)"
proof -
  have p: "pend_ok cf cid dec rcv (ic_trace c @ [e]) j req" if "map_of (ic_pendingReqs c) j = Some req" for j req
    using ic_inv_pend [OF inv that] that ids free by (intro pend_ok_snoc) auto
  have a: "\<exists>i. fast_answer cf rcv i x \<or> slow_answer cf cid d rcv (ic_trace c @ [e]) i x"
    if "IcContinue cb op x \<in> set (ic_trace c @ [e])" and "dec cb = Some d" for cb op x d
  proof -
    from that have "\<exists>i. fast_answer cf rcv i x \<or> slow_answer cf cid d rcv (ic_trace c) i x"
      using inv ans by (auto simp: ic_inv_def)
    then show ?thesis by (fastforce intro: slow_answer_mono)
  qed
  show ?thesis using inv ids i p a unfolding ic_inv_def by (simp only: ic_fields ids_snoc) blast
qed

text \<open>Storing a request and saying what it is waiting for now.\<close>

lemma ic_inv_put_emit:
  assumes inv: "ic_inv cf cid dec rcv c" and i: "i \<le> ic_lastReqId c" and ids: "ev_final e \<union> ev_unlogged e \<subseteq> {i}"
    and ok: "pend_ok cf cid dec rcv (ic_trace c @ [e]) i req" and new: "\<And>cb op x. e \<noteq> IcContinue cb op x"
  shows "ic_inv cf cid dec rcv (ic_emit e (ic_put req i c))"
proof -
  have "ic_inv cf cid dec rcv (ic_emit e (ic_erase i c))"
    by (rule ic_inv_emit [OF ic_inv_erase [OF inv] ids]) (use i new in auto)
  then have "ic_inv cf cid dec rcv (ic_put req i (ic_emit e (ic_erase i c)))"
    by (rule ic_inv_put) (use i ok in simp_all)
  moreover have "ic_inv cf cid dec rcv (ic_put req i (ic_emit e (ic_erase i c))) = ic_inv cf cid dec rcv (ic_emit e (ic_put req i c))"
    by (auto simp: ic_inv_def)
  ultimately show ?thesis by simp
qed

section \<open>Votes\<close>

lemma qs_init_at [simp]: "qs_at (QuorumSet_init n) v = []" "qs_numRequired (QuorumSet_init n) = n" "qs_messages (QuorumSet_init n) = []"
  by (simp_all add: QuorumSet_init_def qs_at_def)

lemma qs_add_at:
  assumes "qs_AddAndCheckForQuorum v r m q = (quorum, q')"
  shows "qs_at q' v' = (if v' = v then om_put r m (qs_at q v) else qs_at q v')" and "qs_numRequired q' = qs_numRequired q"
    and "quorum \<noteq> None \<longleftrightarrow> qs_numRequired q \<le> int (length (qs_at q' v))"
    and "sorted_wrt (<) (map fst (qs_messages q)) \<Longrightarrow> sorted_wrt (<) (map fst (qs_messages q'))"
proof -
  define q1 where "q1 = q\<lparr>qs_messages := om_put v (om_put r m (qs_at q v)) (qs_messages q)\<rparr>"
  have eq: "quorum = (if qs_numRequired q \<le> int (length (qs_at q1 v)) then Some (qs_at q1 v) else None)"
    "q' = q1\<lparr>qs_messages := om_put v (qs_at q1 v) (qs_messages q1)\<rparr>"
    using assms by (auto simp: qs_AddAndCheckForQuorum_def qs_CheckForQuorum_def q1_def Let_def)
  then show at': "qs_at q' v' = (if v' = v then om_put r m (qs_at q v) else qs_at q v')" for v'
    by (simp add: q1_def)
  show "qs_numRequired q' = qs_numRequired q" by (simp add: eq q1_def)
  show "quorum \<noteq> None \<longleftrightarrow> qs_numRequired q \<le> int (length (qs_at q' v))" by (simp add: at' eq(1)) (simp add: q1_def)
  show "sorted_wrt (<) (map fst (qs_messages q)) \<Longrightarrow> sorted_wrt (<) (map fst (qs_messages q'))"
    by (simp add: eq q1_def sorted_om_put)
qed

lemma qs_get_at:
  assumes "qs_GetMessages v q = (msgs, q')"
  shows "msgs = qs_at q v" and "qs_at q' v' = qs_at q v'" and "qs_numRequired q' = qs_numRequired q"
    and "sorted_wrt (<) (map fst (qs_messages q)) \<Longrightarrow> sorted_wrt (<) (map fst (qs_messages q'))"
  using assms by (auto simp: qs_GetMessages_def qs_at_def map_of_om_put sorted_om_put)

lemma set_om_put_sub: "set (om_put k v m) \<subseteq> insert (k, v) (set m)"
  by (induction k v m rule: om_put.induct) auto

lemma replies_ok_init [simp]: "replies_ok cf rcv i (QuorumSet_init (QuorumSize cf))"
  by (simp add: replies_ok_def)

lemma confirms_ok_init [simp]: "confirms_ok cf rcv i (QuorumSet_init (QuorumSize cf))"
  by (simp add: confirms_ok_def)

lemma replies_okD: "replies_ok cf rcv i q \<Longrightarrow> (r, m) \<in> set (qs_at q v) \<Longrightarrow> cr_view m = v \<and> replied rcv i v r (cr_result m)"
  unfolding replies_ok_def by fast

lemma replies_ok_add:
  assumes q: "replies_ok cf rcv i q" and new: "replied rcv i v r x"
    and get: "qs_GetMessages v (qs_Add v r \<lparr>cr_view = v, cr_result = x, cr_finalized = fin\<rparr> q) = (msgs, q')"
  shows "replies_ok cf rcv i q'" and "msgs = qs_at q' v"
proof -
  let ?m = "\<lparr>cr_view = v, cr_result = x, cr_finalized = fin\<rparr>"
  obtain quorum where add: "qs_AddAndCheckForQuorum v r ?m q = (quorum, qs_Add v r ?m q)"
    by (metis prod.collapse qs_Add_def)
  have at': "qs_at q' v' = (if v' = v then om_put r ?m (qs_at q v) else qs_at q v')" for v'
    using qs_add_at(1) [OF add] qs_get_at(2) [OF get] by simp
  have "cr_view m = w \<and> replied rcv i w s (cr_result m)" if "(s, m) \<in> set (qs_at q' w)" for w s m
  proof (cases "w = v \<and> (s, m) = (r, ?m)")
    case False
    with that have "(s, m) \<in> set (qs_at q w)"
      using set_om_put_sub [of r ?m "qs_at q v"] by (auto simp: at' split: if_splits)
    then show ?thesis by (rule replies_okD [OF q])
  qed (use new in simp)
  moreover have "sorted_wrt (<) (map fst (qs_at q' w))" for w
    using q by (simp add: at' replies_ok_def sorted_om_put)
  ultimately show "replies_ok cf rcv i q'"
    using q qs_add_at(2,4) [OF add] qs_get_at(3,4) [OF get] by (auto simp: replies_ok_def)
  show "msgs = qs_at q' v" using qs_get_at(1,2) [OF get] by simp
qed

lemma confirms_ok_add:
  assumes q: "confirms_ok cf rcv i q" and new: "confirmed rcv i v r"
    and add: "qs_AddAndCheckForQuorum (Viewstamp v i) r () q = (quorum, q')"
  shows "confirms_ok cf rcv i q'"
    and "quorum \<noteq> None \<Longrightarrow> \<exists>S. QuorumSize cf \<le> int (card S) \<and> (\<forall>s \<in> S. confirmed rcv i v s)"
proof -
  have at': "qs_at q' vs = (if vs = Viewstamp v i then om_put r () (qs_at q vs) else qs_at q vs)" for vs
    using qs_add_at(1) [OF add] by simp
  show ok: "confirms_ok cf rcv i q'"
    using q new qs_add_at(2) [OF add] unfolding confirms_ok_def
    by (simp add: at' sorted_om_put set_om_put_keys del: ball_simps(9))
  show "\<exists>S. QuorumSize cf \<le> int (card S) \<and> (\<forall>s \<in> S. confirmed rcv i v s)" if "quorum \<noteq> None"
  proof (intro exI conjI)
    let ?S = "fst ` set (qs_at q' (Viewstamp v i))"
    have "distinct (map fst (qs_at q' (Viewstamp v i)))" using ok by (simp add: confirms_ok_def sorted_distinct)
    then have "card ?S = length (qs_at q' (Viewstamp v i))" by (metis distinct_card length_map set_map)
    then show "QuorumSize cf \<le> int (card ?S)" using that q qs_add_at(2,3) [OF add] by (simp add: confirms_ok_def)
    show "\<forall>s \<in> ?S. confirmed rcv i v s" using ok by (auto simp: confirms_ok_def)
  qed
qed

lemma slow_view:
  assumes "\<forall>(r, m) \<in> set msgs. cr_view m = v" and "w = 0 \<or> w = v"
  shows "foldE (\<lambda>(_, m) view. let u = (if view = 0 then cr_view m else view) in assertE (cr_view m = u) (Inr u)) msgs w =
    Inr (if msgs = [] then w else v)"
  using assms by (induction msgs arbitrary: w) auto

lemma slow_results_of:
  assumes q: "replies_ok cf rcv i q" and f: "0 \<le> cf_f cf" and n: "QuorumSize cf \<le> int (length (qs_at q v))"
  shows "slow_results (qs_at q v) = Inr (v, tally (map (\<lambda>(_, m). cr_result m) (qs_at q v)))"
    and "decided cf d rcv i v (d (tally (map (\<lambda>(_, m). cr_result m) (qs_at q v))))"
proof -
  have v: "\<forall>(r, m) \<in> set (qs_at q v). cr_view m = v" using q unfolding replies_ok_def by fast
  have "qs_at q v \<noteq> []" using f n by (auto simp: QuorumSize_def)
  then show "slow_results (qs_at q v) = Inr (v, tally (map (\<lambda>(_, m). cr_result m) (qs_at q v)))"
    by (simp add: slow_results_def slow_view [OF v])
  let ?votes = "map (\<lambda>(r, m). (r, cr_result m)) (qs_at q v)"
  have keys: "map fst ?votes = map fst (qs_at q v)" and vals: "map snd ?votes = map (\<lambda>(_, m). cr_result m) (qs_at q v)"
    by (simp_all add: case_prod_unfold comp_def)
  have "\<forall>(r, y) \<in> set ?votes. replied rcv i v r y" using q unfolding replies_ok_def by fastforce
  moreover have "distinct (map fst ?votes)" unfolding keys using q by (simp add: replies_ok_def sorted_distinct)
  moreover have "QuorumSize cf \<le> int (length ?votes)" using n by simp
  ultimately show "decided cf d rcv i v (d (tally (map (\<lambda>(_, m). cr_result m) (qs_at q v))))"
    unfolding decided_def vals [symmetric] by blast
qed

lemma length_filter_count: "length (filter (\<lambda>p. cr_result (snd p) = x) ms) = count_list (map (\<lambda>(_, m). cr_result m) ms) x"
  by (induction ms) auto

lemma fast_votes:
  assumes q: "replies_ok cf rcv i q" and f: "find P (tally (map (\<lambda>(_, m). cr_result m) (qs_at q v))) = Some (x, n)"
  shows "\<exists>S. card S = n \<and> (\<forall>r \<in> S. replied rcv i v r x)"
proof (intro exI conjI)
  let ?ms = "filter (\<lambda>p. cr_result (snd p) = x) (qs_at q v)"
  have "(x, n) \<in> set (tally (map (\<lambda>(_, m). cr_result m) (qs_at q v)))" using f by (metis find_Some_iff nth_mem)
  then have n: "n = count_list (map (\<lambda>(_, m). cr_result m) (qs_at q v)) x" by (simp add: mem_tally)
  have "distinct (map fst (qs_at q v))" using q by (simp add: replies_ok_def sorted_distinct)
  then have "card (set (map fst ?ms)) = length (map fst ?ms)" by (intro distinct_card distinct_map_filter)
  then have "card (fst ` set ?ms) = length ?ms" by simp
  also have "\<dots> = n" unfolding n by (rule length_filter_count)
  finally show "card (fst ` set ?ms) = n" .
  show "\<forall>r \<in> fst ` set ?ms. replied rcv i v r x" using q unfolding replies_ok_def by fastforce
qed

section \<open>Every step keeps the invariant\<close>

text \<open>A consensus request that is under way, and its next state.\<close>

lemma pend_consensus:
  "iq_kind req = PendingConsensusRequest k \<Longrightarrow> pend_ok cf cid dec rcv tr i req \<longleftrightarrow> iq_clientReqId req = i \<and>
     confirms_ok cf rcv i (iq_confirms req) \<and> (\<forall>b. iq_timer req = TResendConfirmation b \<longrightarrow> ik_sent_confirms k) \<and>
     (\<exists>d. dec (iq_continuation req) = Some d \<and> consensus_ok cf cid d rcv tr i (iq_invoked req) k)"
  by (simp add: pend_ok_def)

lemma slow_path_inv:
  assumes inv: "ic_inv cf cid dec rcv c" and f: "0 \<le> cf_f cf" and i: "i \<le> ic_lastReqId c"
    and id: "iq_clientReqId req = i" "confirms_ok cf rcv i (iq_confirms req)" and d: "dec (iq_continuation req) = Some d"
    and k: "ik_decide k = Some d" "ik_quorumSize k = nat (QuorumSize cf)" "ik_superQuorumSize k = nat (FastQuorumSize cf)"
      "replies_ok cf rcv i (ik_replies k)" "i \<notin> unlogged_ids (ic_trace c)"
    and msgs: "msgs = qs_at (ik_replies k) v"
    and fin: "finalized \<Longrightarrow> decided cf d rcv i (ik_view k) (ik_decideResult k)"
    and run: "HandleSlowPathConsensus ok i msgs finalized req k c = Inr c'"
  shows "ic_inv cf cid dec rcv c'"
proof (cases ok)
  case False
  with run inv show ?thesis
    by (auto simp: HandleSlowPathConsensus_def ic_inv_erase)
next
  case True
  have cid: "ic_clientid c = cid" using inv by (simp add: ic_inv_def)
  have Q: "0 \<le> QuorumSize cf" using f by (simp add: QuorumSize_def)
  obtain k1 where k1: "c' = ic_emit (IcToGroup (FinalizeConsensusMessage (cid, i) (ik_decideResult k1)))
      (ic_put (req\<lparr>iq_timer := TResendConfirmation True, iq_active := True,
         iq_kind := PendingConsensusRequest (k1\<lparr>ik_sent_confirms := True\<rparr>)\<rparr>) i c)"
    and dec: "decided cf d rcv i (ik_view k1) (ik_decideResult k1)"
    and same: "ik_decide k1 = ik_decide k" "ik_quorumSize k1 = ik_quorumSize k" "ik_superQuorumSize k1 = ik_superQuorumSize k"
      "ik_replies k1 = ik_replies k"
  proof (cases finalized)
    case True
    show ?thesis by (rule that [of k]) (use run True \<open>ok\<close> fin cid in \<open>auto simp: HandleSlowPathConsensus_def\<close>)
  next
    case False
    then have n: "QuorumSize cf \<le> int (length (qs_at (ik_replies k) v))"
      using run k(2) Q by (auto simp: HandleSlowPathConsensus_def msgs)
    note s = slow_results_of [OF k(4) f n]
    show ?thesis
      by (rule that [of "k\<lparr>ik_decideResult := d (tally (map (\<lambda>(_, m). cr_result m) msgs)), ik_view := v\<rparr>"])
        (use run False \<open>ok\<close> cid k(1) s in \<open>auto simp: HandleSlowPathConsensus_def msgs\<close>)
  qed
  show ?thesis
    unfolding k1 by (rule ic_inv_put_emit [OF inv i])
      (use id d k dec same in \<open>auto simp: pend_ok_def consensus_ok_def\<close>)
qed

lemma fast_path_inv:
  assumes inv: "ic_inv cf cid dec rcv c" and f: "0 \<le> cf_f cf" and i: "i \<le> ic_lastReqId c"
    and id: "iq_clientReqId req = i" "confirms_ok cf rcv i (iq_confirms req)" and d: "dec (iq_continuation req) = Some d"
    and k: "ik_decide k = Some d" "ik_quorumSize k = nat (QuorumSize cf)" "ik_superQuorumSize k = nat (FastQuorumSize cf)"
      "replies_ok cf rcv i (ik_replies k)" "i \<notin> unlogged_ids (ic_trace c)"
    and msgs: "msgs = qs_at (ik_replies k) v"
    and run: "HandleFastPathConsensus ok i msgs req k c = Inr c'"
  shows "ic_inv cf cid dec rcv c'"
proof (cases "find (\<lambda>r. snd r \<ge> ik_superQuorumSize k) (tally (map (\<lambda>(_, m). cr_result m) msgs))")
  case None
  with run have "HandleSlowPathConsensus ok i msgs False req (k\<lparr>ik_on_slow_path := True, ik_slow_timer := False\<rparr>) c = Inr c'"
    by (simp add: HandleFastPathConsensus_def)
  from slow_path_inv [OF inv f i id d _ _ _ _ _ _ _ this, of v] k msgs show ?thesis by simp
next
  case (Some p)
  obtain x n where p: "p = (x, n)" by fastforce
  have cid: "ic_clientid c = cid" using inv by (simp add: ic_inv_def)
  let ?e = "IcToGroup (FinalizeConsensusMessage (cid, i) x)"
  let ?req = "req\<lparr>iq_timer := TResendConfirmation True, iq_active := True, iq_invoked := True,
      iq_kind := PendingConsensusRequest (k\<lparr>ik_decideResult := x, ik_sent_confirms := True\<rparr>)\<rparr>"
  let ?c = "ic_emit ?e (ic_put ?req i c)"
  have c': "c' = (if iq_invoked req then ?c else ic_emit (IcContinue (iq_continuation req) (iq_request req) x) ?c)"
    using run Some cid by (auto simp: HandleFastPathConsensus_def p Let_def split: if_splits)
  have n: "nat (FastQuorumSize cf) \<le> n" using Some k(3) p by (metis find_Some_iff snd_conv)
  obtain S where "card S = n" "\<forall>r \<in> S. replied rcv i v r x"
    using fast_votes [OF k(4) Some [unfolded p msgs]] by blast
  with n have fast: "fast_answer cf rcv i x" unfolding fast_answer_def by (intro exI [of _ v] exI [of _ S]) auto
  have "ic_inv cf cid dec rcv ?c"
    by (rule ic_inv_put_emit [OF inv i]) (use id d k in \<open>auto simp: pend_ok_def consensus_ok_def\<close>)
  then show ?thesis
    unfolding c' using fast i by (auto intro!: ic_inv_emit [where i = i])
qed

lemma HandleConsensusReply_inv:
  assumes inv: "ic_inv cf cid dec rcv c" and f: "0 \<le> cf_f cf" and m: "ReplyConsensus v r opid x fin \<in> set rcv"
    and run: "HandleConsensusReply ok v r opid x fin c = Inr c'"
  shows "ic_inv cf cid dec rcv c'"
proof (cases "map_of (ic_pendingReqs c) (snd opid)")
  case None
  with run inv show ?thesis by (simp add: HandleConsensusReply_def)
next
  case (Some req)
  define i where "i = snd opid"
  have i: "i \<le> ic_lastReqId c" and p: "pend_ok cf cid dec rcv (ic_trace c) i req"
    using ic_inv_pend [OF inv Some] by (simp_all add: i_def)
  obtain k where k: "iq_kind req = PendingConsensusRequest k"
    using run Some by (cases "iq_kind req") (simp_all add: HandleConsensusReply_def)
  obtain d where d: "dec (iq_continuation req) = Some d" and id: "iq_clientReqId req = i" "confirms_ok cf rcv i (iq_confirms req)"
    and ok: "consensus_ok cf cid d rcv (ic_trace c) i (iq_invoked req) k"
    and t: "\<forall>b. iq_timer req = TResendConfirmation b \<longrightarrow> ik_sent_confirms k"
    using p unfolding pend_consensus [OF k] by blast
  show ?thesis
  proof (cases "ik_sent_confirms k")
    case True
    with run inv Some k show ?thesis by (simp add: HandleConsensusReply_def)
  next
    case False
    obtain msgs q where get: "qs_GetMessages v (qs_Add v r \<lparr>cr_view = v, cr_result = x, cr_finalized = fin\<rparr> (ik_replies k)) = (msgs, q)"
      by fastforce
    have new: "replied rcv i v r x" using m by (auto simp: replied_def i_def) (metis prod.collapse)
    have old: "replies_ok cf rcv i (ik_replies k)" using ok by (simp add: consensus_ok_def)
    note q = replies_ok_add [OF old new get]
    define k1 where "k1 = k\<lparr>ik_replies := q\<rparr>"
    note ok' = ok [unfolded consensus_ok_def]
    have k1: "ik_decide k1 = Some d" "ik_quorumSize k1 = nat (QuorumSize cf)" "ik_superQuorumSize k1 = nat (FastQuorumSize cf)"
      "replies_ok cf rcv i (ik_replies k1)" "i \<notin> unlogged_ids (ic_trace c)" and msgs: "msgs = qs_at (ik_replies k1) v"
      using ok' q by (simp_all add: k1_def)
    have dec: "decided cf d rcv i v x" if "fin"
      using m that unfolding decided_def i_def by (metis prod.collapse)
    have run': "(if fin then HandleSlowPathConsensus ok i msgs True req
          (k1\<lparr>ik_on_slow_path := True, ik_slow_timer := False, ik_decideResult := x, ik_view := v\<rparr>) c
        else if ik_on_slow_path k1 \<and> ik_quorumSize k1 \<le> length msgs then HandleSlowPathConsensus ok i msgs False req k1 c
        else if \<not> ik_on_slow_path k1 \<and> ik_superQuorumSize k1 \<le> length msgs then HandleFastPathConsensus ok i msgs req k1 c
        else Inr (ic_put (req\<lparr>iq_kind := PendingConsensusRequest k1\<rparr>) i c)) = Inr c'"
      using run Some k False unfolding i_def k1_def
      by (simp add: HandleConsensusReply_def get Let_def split del: if_split)
    show ?thesis
    proof (cases fin)
      case True
      with run' have slow: "HandleSlowPathConsensus ok i msgs True req
          (k1\<lparr>ik_on_slow_path := True, ik_slow_timer := False, ik_decideResult := x, ik_view := v\<rparr>) c = Inr c'" by simp
      show ?thesis by (rule slow_path_inv [OF inv f i id d _ _ _ _ _ _ _ slow, of v]) (use k1 msgs dec True in simp_all)
    next
      case nf: False
      show ?thesis
      proof (cases "ik_on_slow_path k1 \<and> ik_quorumSize k1 \<le> length msgs")
        case True
        with run' nf have slow: "HandleSlowPathConsensus ok i msgs False req k1 c = Inr c'" by simp
        show ?thesis by (rule slow_path_inv [OF inv f i id d k1 msgs _ slow]) simp
      next
        case False
        note ns = this
        show ?thesis
        proof (cases "\<not> ik_on_slow_path k1 \<and> ik_superQuorumSize k1 \<le> length msgs")
          case True
          with run' nf ns have fast: "HandleFastPathConsensus ok i msgs req k1 c = Inr c'" by auto
          show ?thesis by (rule fast_path_inv [OF inv f i id d k1 msgs fast])
        next
          case False
          with run' nf ns have wait: "c' = ic_put (req\<lparr>iq_kind := PendingConsensusRequest k1\<rparr>) i c" by auto
          have "consensus_ok cf cid d rcv (ic_trace c) i (iq_invoked req) k1"
            using ok' q(1) \<open>\<not> ik_sent_confirms k\<close> by (simp add: k1_def consensus_ok_def)
          then show ?thesis unfolding wait using id d t
            by (intro ic_inv_put [OF inv i]) (simp add: pend_ok_def k1_def)
        qed
      qed
    qed
  qed
qed

lemma Transition_inv:
  assumes inv: "ic_inv cf cid dec rcv c" and f: "0 \<le> cf_f cf" and run: "TransitionToConsensusSlowPath ok i c = Inr c'"
  shows "ic_inv cf cid dec rcv c'"
proof -
  from run obtain req k where req: "map_of (ic_pendingReqs c) i = Some req" and k: "iq_kind req = PendingConsensusRequest k"
    by (auto simp: TransitionToConsensusSlowPath_def split: option.splits ir_kind.splits)
  have i: "i \<le> ic_lastReqId c" and p: "pend_ok cf cid dec rcv (ic_trace c) i req"
    using ic_inv_pend [OF inv req] by simp_all
  obtain d where d: "dec (iq_continuation req) = Some d" and id: "iq_clientReqId req = i" "confirms_ok cf rcv i (iq_confirms req)"
    and ok: "consensus_ok cf cid d rcv (ic_trace c) i (iq_invoked req) k"
    and t: "\<forall>b. iq_timer req = TResendConfirmation b \<longrightarrow> ik_sent_confirms k"
    using p unfolding pend_consensus [OF k] by blast
  define k1 where "k1 = k\<lparr>ik_on_slow_path := True, ik_slow_timer := False\<rparr>"
  have k1: "ik_decide k1 = Some d" "ik_quorumSize k1 = nat (QuorumSize cf)" "ik_superQuorumSize k1 = nat (FastQuorumSize cf)"
    "replies_ok cf rcv i (ik_replies k1)" "i \<notin> unlogged_ids (ic_trace c)"
    using ok by (simp_all add: k1_def consensus_ok_def)
  show ?thesis
  proof (cases "qs_CheckForQuorum_any (ik_replies k1)")
    case None
    then have c': "c' = ic_put (req\<lparr>iq_kind := PendingConsensusRequest k1\<rparr>) i c"
      using run req k by (auto simp: TransitionToConsensusSlowPath_def Let_def k1_def)
    have "consensus_ok cf cid d rcv (ic_trace c) i (iq_invoked req) k1"
      using ok by (simp add: k1_def consensus_ok_def)
    then show ?thesis unfolding c' using id d t by (intro ic_inv_put [OF inv i]) (simp add: pend_ok_def k1_def)
  next
    case (Some msgs)
    then have slow: "HandleSlowPathConsensus ok i msgs False req k1 c = Inr c'"
      using run req k by (auto simp: TransitionToConsensusSlowPath_def Let_def k1_def)
    from Some obtain v where "(v, msgs) \<in> set (qs_messages (ik_replies k1))"
      by (auto simp: qs_CheckForQuorum_any_def find_Some_iff) (metis nth_mem prod.collapse)
    then have "msgs = qs_at (ik_replies k1) v"
      using k1(4) by (simp add: replies_ok_def sorted_mem_iff qs_at_def)
    from slow_path_inv [OF inv f i id d k1 this _ slow] show ?thesis by simp
  qed
qed

lemma HandleInconsistentReply_inv:
  assumes inv: "ic_inv cf cid dec rcv c" and run: "HandleInconsistentReply ok v r opid fin c = Inr c'"
  shows "ic_inv cf cid dec rcv c'"
proof (cases "map_of (ic_pendingReqs c) (snd opid)")
  case None
  with run inv show ?thesis by (simp add: HandleInconsistentReply_def)
next
  case (Some req)
  obtain q where k: "iq_kind req = PendingInconsistentRequest q"
    using run Some by (cases "iq_kind req") (simp_all add: HandleInconsistentReply_def)
  have i: "snd opid \<le> ic_lastReqId c" and p: "pend_ok cf cid dec rcv (ic_trace c) (snd opid) req"
    using ic_inv_pend [OF inv Some] by simp_all
  then have p': "dec (iq_continuation req) = None" "iq_clientReqId req = snd opid" using k by (simp_all add: pend_ok_def)
  obtain quorum q1 where add: "qs_AddAndCheckForQuorum (Viewstamp v (snd opid)) r fin q = (quorum, q1)" by fastforce
  let ?r1 = "req\<lparr>iq_kind := PendingInconsistentRequest q1\<rparr>"
  let ?r2 = "?r1\<lparr>iq_timer := TResendConfirmation False, iq_active := ok, iq_invoked := True\<rparr>"
  have "ic_inv cf cid dec rcv (ic_put ?r1 (snd opid) c)" and put: "ic_inv cf cid dec rcv (ic_put ?r2 (snd opid) c)"
    by (rule ic_inv_put [OF inv i], use p' in \<open>simp add: pend_ok_def\<close>)+
  moreover have "ic_inv cf cid dec rcv (ic_emit (IcToGroup (FinalizeInconsistentMessage opid)) (ic_put ?r2 (snd opid) c))"
    by (rule ic_inv_put_emit [OF inv i]) (use p' in \<open>auto simp: pend_ok_def\<close>)
  ultimately show ?thesis
    using run Some k add i p' by (auto simp: HandleInconsistentReply_def Let_def split: if_splits
      intro!: ic_inv_emit [where i = "snd opid"])
qed

lemma HandleConfirm_inv:
  assumes inv: "ic_inv cf cid dec rcv c" and m: "Confirm v r opid \<in> set rcv" and asked: "snd opid \<in> final_ids (ic_trace c)"
    and run: "HandleConfirm v r opid c = Inr c'"
  shows "ic_inv cf cid dec rcv c'"
proof (cases "map_of (ic_pendingReqs c) (snd opid)")
  case None
  with run inv show ?thesis by (simp add: HandleConfirm_def)
next
  case (Some req)
  define i where "i = snd opid"
  have i: "i \<le> ic_lastReqId c" and p: "pend_ok cf cid dec rcv (ic_trace c) i req"
    using ic_inv_pend [OF inv Some] by (simp_all add: i_def)
  obtain quorum q where add: "qs_AddAndCheckForQuorum (Viewstamp v i) r () (iq_confirms req) = (quorum, q)" by fastforce
  have new: "confirmed rcv i v r" using m by (auto simp: confirmed_def i_def) (metis prod.collapse)
  have put: "ic_inv cf cid dec rcv (ic_put (req\<lparr>iq_confirms := q\<rparr>) i c)"
    by (rule ic_inv_put [OF inv i]) (use p confirms_ok_add(1) [OF _ new add] in \<open>auto simp: pend_ok_def split: ir_kind.splits\<close>)
  have erase: "ic_inv cf cid dec rcv (ic_erase i c)" by (rule ic_inv_erase [OF inv])
  have error: "ic_inv cf cid dec rcv (ic_emit (IcError e op code) (ic_erase i c))" for e op code
    by (rule ic_inv_emit [OF erase, where i = i]) (use i in auto)
  have answer: "ic_inv cf cid dec rcv (ic_emit (IcContinue (iq_continuation req) (iq_request req) (ik_decideResult k)) (ic_erase i c))"
    if k: "iq_kind req = PendingConsensusRequest k" and q: "quorum \<noteq> None" "\<not> iq_invoked req" "v = ik_view k" for k
  proof -
    obtain d where d: "dec (iq_continuation req) = Some d" and co: "confirms_ok cf rcv i (iq_confirms req)"
      and ok: "consensus_ok cf cid d rcv (ic_trace c) i (iq_invoked req) k" using p unfolding pend_consensus [OF k] by blast
    have "ik_sent_confirms k" using ok asked by (auto simp: consensus_ok_def i_def split: if_splits)
    with ok q have "decided cf d rcv i v (ik_decideResult k)"
      and "IcToGroup (FinalizeConsensusMessage (cid, i) (ik_decideResult k)) \<in> set (ic_trace c)"
      by (simp_all add: consensus_ok_def)
    moreover note confirms_ok_add(2) [OF co new add q(1)]
    ultimately have "slow_answer cf cid d rcv (ic_trace c) i (ik_decideResult k)" unfolding slow_answer_def by blast
    then show ?thesis using d i by (intro ic_inv_emit [OF erase, where i = i]) auto
  qed
  show ?thesis
    using run Some add put erase error answer
    by (auto simp: HandleConfirm_def Let_def i_def [symmetric] split: if_splits ir_kind.splits option.splits)
qed

lemma Unlogged_inv:
  assumes inv: "ic_inv cf cid dec rcv c" and asked: "i \<in> unlogged_ids (ic_trace c)"
  shows "ic_inv cf cid dec rcv (IR_HandleUnloggedReply answer x i c)"
proof (cases "map_of (ic_pendingReqs c) i")
  case None
  with inv show ?thesis by (simp add: IR_HandleUnloggedReply_def)
next
  case (Some req)
  have i: "i \<le> ic_lastReqId c" and p: "pend_ok cf cid dec rcv (ic_trace c) i req"
    using ic_inv_pend [OF inv Some] by simp_all
  then have "dec (iq_continuation req) = None"
    using asked by (auto simp: pend_ok_def consensus_ok_def split: ir_kind.splits)
  then have "ic_inv cf cid dec rcv (ic_emit (IcContinue (iq_continuation req) (iq_request req) x) c)"
    using i by (intro ic_inv_emit [OF inv, where i = i]) auto
  then show ?thesis using Some by (simp add: IR_HandleUnloggedReply_def Let_def ic_inv_erase)
qed

lemma receive_inv:
  assumes inv: "ic_inv cf cid dec rcv c" and f: "0 \<le> cf_f cf" and asked: "asked m (ic_trace c)"
    and run: "IRClient_ReceiveMessage ok answer m c = Inr c'"
  shows "ic_inv cf cid dec (m # rcv) c'"
proof -
  have inv': "ic_inv cf cid dec (m # rcv) c" by (rule ic_inv_rcv [OF inv]) auto
  show ?thesis
    using run asked inv'
    by (cases m) (auto simp: IRClient_ReceiveMessage_def asked_def intro: HandleInconsistentReply_inv HandleConsensusReply_inv [OF _ f]
      HandleConfirm_inv Unlogged_inv)
qed

lemma propose_inv:
  assumes inv: "ic_inv cf cid dec rcv c" and i: "i \<le> ic_lastReqId c" and p: "pend_ok cf cid dec rcv (ic_trace c) i req"
    and e: "ev_final e = {}" "ev_unlogged e = {}" "\<And>cb op x. e \<noteq> IcContinue cb op x"
  shows "ic_inv cf cid dec rcv (ic_emit e (ic_put (req\<lparr>iq_active := True\<rparr>) i c))"
  by (rule ic_inv_put_emit [OF inv i])
    (use e pend_ok_snoc [OF p, of e] in \<open>auto simp: pend_ok_def split: ir_kind.splits\<close>)

lemma Send_inv:
  assumes "ic_inv cf cid dec rcv c" and "i \<le> ic_lastReqId c" and "pend_ok cf cid dec rcv (ic_trace c) i req"
  shows "ic_inv cf cid dec rcv (SendInconsistent ok req c)" and "ic_inv cf cid dec rcv (SendConsensus ok req c)"
proof -
  have i: "iq_clientReqId req = i" using assms(3) by (simp add: pend_ok_def)
  show "ic_inv cf cid dec rcv (SendInconsistent ok req c)" and "ic_inv cf cid dec rcv (SendConsensus ok req c)"
    unfolding SendInconsistent_def SendConsensus_def i
    by (auto intro: ic_inv_erase [OF assms(1)] propose_inv [OF assms])
qed

lemma fresh_inv:
  assumes inv: "ic_inv cf cid dec rcv c" and max: "ic_lastReqId c \<noteq> - 1"
  shows "ic_inv cf cid dec rcv (c\<lparr>ic_lastReqId := ic_lastReqId c + 1\<rparr>)"
    and "ic_lastReqId c + 1 \<notin> final_ids (ic_trace c) \<union> unlogged_ids (ic_trace c)"
proof -
  have "ic_lastReqId c < - 1" using max by (simp add: order_less_le)
  then have less: "ic_lastReqId c < ic_lastReqId c + 1" by (simp add: word_less_nat_alt unat_Suc_64)
  then have le: "j \<le> ic_lastReqId c \<Longrightarrow> j \<le> ic_lastReqId c + 1" for j by simp
  then show "ic_inv cf cid dec rcv (c\<lparr>ic_lastReqId := ic_lastReqId c + 1\<rparr>)"
    using inv unfolding ic_inv_def by simp
  show "ic_lastReqId c + 1 \<notin> final_ids (ic_trace c) \<union> unlogged_ids (ic_trace c)"
    using inv less unfolding ic_inv_def by (meson not_le)
qed

lemma InvokeInconsistent_inv:
  assumes inv: "ic_inv cf cid dec rcv c" and max: "ic_lastReqId c \<noteq> - 1" and cb: "dec cb = None"
  shows "ic_inv cf cid dec rcv (InvokeInconsistent cf ok op cb c)"
  unfolding InvokeInconsistent_def Let_def
  by (rule Send_inv(1) [where i = "ic_lastReqId c + 1", OF ic_inv_put [OF fresh_inv(1) [OF inv max]]]) (use cb in \<open>simp_all add: pend_ok_def\<close>)

lemma InvokeConsensus_inv:
  assumes inv: "ic_inv cf cid dec rcv c" and max: "ic_lastReqId c \<noteq> - 1" and cb: "dec cb = Some d"
  shows "ic_inv cf cid dec rcv (InvokeConsensus cf ok op (Some d) cb err c)"
  unfolding InvokeConsensus_def Let_def
  by (rule Send_inv(2) [where i = "ic_lastReqId c + 1", OF ic_inv_put [OF fresh_inv(1) [OF inv max]]])
    (use cb fresh_inv(2) [OF inv max] in \<open>simp_all add: pend_ok_def consensus_ok_def\<close>)

lemma InvokeUnlogged_inv:
  assumes inv: "ic_inv cf cid dec rcv c" and max: "ic_lastReqId c \<noteq> - 1" and cb: "dec cb = None"
  shows "ic_inv cf cid dec rcv (IRClient_InvokeUnlogged ok r op cb err c)"
    and "ic_inv cf cid dec rcv (IRClient_InvokeUnloggedAll ok op cb err c)"
proof -
  let ?i = "ic_lastReqId c + 1"
  let ?c = "c\<lparr>ic_lastReqId := ?i\<rparr>"
  note fresh = fresh_inv [OF inv max]
  have p: "pend_ok cf cid dec rcv tr ?i (ic_unlogged ?i op cb err)" for tr
    using cb by (simp add: pend_ok_def ic_unlogged_def)
  have swap: "ic_put (ic_unlogged ?i op cb err) ?i (ic_emit e ?c) = ic_emit e (ic_put (ic_unlogged ?i op cb err) ?i ?c)" for e
    by (simp add: ic_put_def ic_emit_def)
  show "ic_inv cf cid dec rcv (IRClient_InvokeUnlogged ok r op cb err c)"
    and "ic_inv cf cid dec rcv (IRClient_InvokeUnloggedAll ok op cb err c)"
    using fresh(1) ic_inv_put_emit [OF fresh(1) _ _ p, of "IcToReplica r (UnloggedRequestMessage op ?i)"]
      ic_inv_put_emit [OF fresh(1) _ _ p, of "IcToGroup (UnloggedRequestMessage op ?i)"]
    by (simp_all add: IRClient_InvokeUnlogged_def IRClient_InvokeUnloggedAll_def Let_def swap)
qed

lemma ResendConfirmation_inv:
  assumes inv: "ic_inv cf cid dec rcv c" and run: "ResendConfirmation ok i b c = Inr c'"
    and Some: "map_of (ic_pendingReqs c) i = Some req" and t: "iq_timer req = TResendConfirmation b'"
  shows "ic_inv cf cid dec rcv c'"
proof -
  have i: "i \<le> ic_lastReqId c" and p: "pend_ok cf cid dec rcv (ic_trace c) i req"
    using ic_inv_pend [OF inv Some] by simp_all
  then have id: "iq_clientReqId req = i" by (simp add: pend_ok_def)
  have cid: "ic_clientid c = cid" using inv by (simp add: ic_inv_def)
  have emit: "ic_inv cf cid dec rcv (ic_emit (IcToGroup (finalize_message i req c)) (ic_put (req\<lparr>iq_active := True\<rparr>) i c))"
  proof (rule ic_inv_put_emit [OF inv i])
    show "pend_ok cf cid dec rcv (ic_trace c @ [IcToGroup (finalize_message i req c)]) i (req\<lparr>iq_active := True\<rparr>)"
      using p t cid by (auto simp: pend_ok_def consensus_ok_def finalize_message_def split: ir_kind.splits)
  qed (auto simp: finalize_message_def split: ir_kind.splits)
  show ?thesis
    using run Some id t ic_inv_erase [OF inv] emit by (auto simp: ResendConfirmation_def split: if_splits)
qed

text \<open>A timer sends a message again, and the message that finalizes only once it was sent before.\<close>

lemma IRClient_OnTimer_inv:
  assumes inv: "ic_inv cf cid dec rcv c" and run: "IRClient_OnTimer ok i c = Inr c'"
  shows "ic_inv cf cid dec rcv c'"
proof (cases "map_of (ic_pendingReqs c) i")
  case None
  with run inv show ?thesis by (simp add: IRClient_OnTimer_def)
next
  case (Some req)
  have i: "i \<le> ic_lastReqId c" and p: "pend_ok cf cid dec rcv (ic_trace c) i req"
    using ic_inv_pend [OF inv Some] by simp_all
  have error: "ic_inv cf cid dec rcv (ic_emit (IcError e op code) (ic_erase i c))" for e op code
    by (rule ic_inv_emit [OF ic_inv_erase [OF inv], where i = i]) (use i in auto)
  show ?thesis
  proof (cases "iq_active req")
    case True
    with run Some show ?thesis
      using Send_inv [OF inv i p] error ic_inv_erase [OF inv] ResendConfirmation_inv [OF inv _ Some]
      by (cases "iq_timer req") (auto simp: IRClient_OnTimer_def ResendInconsistent_def ResendConsensus_def
        IR_UnloggedRequestTimeoutCallback_def split: ir_kind.splits option.splits)
  next
    case False
    with run Some inv show ?thesis by (simp add: IRClient_OnTimer_def)
  qed
qed

section \<open>What the client answers\<close>

lemma ic_run_inv: "ic_run cf cid dec rcv c \<Longrightarrow> 0 \<le> cf_f cf \<Longrightarrow> ic_inv cf cid dec rcv c"
proof (induction rule: ic_run.induct)
  case start
  then show ?case by (simp add: ic_inv_def IRClient_init_def)
qed (auto intro: InvokeInconsistent_inv InvokeConsensus_inv InvokeUnlogged_inv IRClient_OnTimer_inv Transition_inv receive_inv)

text \<open>
  \<^bold>\<open>C15\<close> What a consensus operation answers, in any run of the client in which messages are
  lost, repeated and reordered, timers fire and sends fail: when the continuation of the
  operation is called with a result, then either a super quorum of different replicas has
  replied this result in one view (the fast path), or the client has sent it to be finalized
  after it was decided for a view, from the replies of a quorum or because a replica had it
  finalized, and a quorum of different replicas has confirmed in that same view.
\<close>

theorem consensus_answers_backed:
  assumes "ic_run cf cid dec rcv c" and "0 \<le> cf_f cf" and "IcContinue cb op x \<in> set (ic_trace c)" and "dec cb = Some d"
  shows "\<exists>i v S. (FastQuorumSize cf \<le> int (card S) \<and> (\<forall>r \<in> S. replied rcv i v r x)) \<or>
    (QuorumSize cf \<le> int (card S) \<and> (\<forall>r \<in> S. confirmed rcv i v r) \<and> decided cf d rcv i v x \<and>
     IcToGroup (FinalizeConsensusMessage (cid, i) x) \<in> set (ic_trace c))"
  using ic_run_inv [OF assms(1,2)] assms(3,4) unfolding ic_inv_def fast_answer_def slow_answer_def by blast

section \<open>A run\<close>

text \<open>Of three replicas two reply, the slow path is taken, and two confirm.\<close>

definition ic_ex_run :: "u64 \<Rightarrow> nat ir_client outcome" where
  "ic_ex_run cid =
     (let c1 = InvokeConsensus (ir_cf 0) True ''op'' (Some (\<lambda>m. fst (hd m))) (0 :: nat) None (IRClient_init cid) in
      bindE (IRClient_ReceiveMessage True True (ReplyConsensus 4 0 (cid, 1) ''x'' False) c1) (\<lambda>c2.
      bindE (IRClient_ReceiveMessage True True (ReplyConsensus 4 2 (cid, 1) ''y'' False) c2) (\<lambda>c3.
      bindE (TransitionToConsensusSlowPath True 1 c3) (\<lambda>c4.
      bindE (IRClient_ReceiveMessage True True (Confirm 4 0 (cid, 1)) c4) (\<lambda>c5.
      IRClient_ReceiveMessage True True (Confirm 4 2 (cid, 1)) c5)))))"

lemmas ic_run_defs = InvokeConsensus_def SendConsensus_def Let_def IRClient_init_def ic_put_def ic_emit_def ic_erase_def ic_request_def
  IRClient_ReceiveMessage_def HandleConsensusReply_def TransitionToConsensusSlowPath_def HandleSlowPathConsensus_def HandleConfirm_def
  qs_Add_def qs_AddAndCheckForQuorum_def qs_CheckForQuorum_def qs_GetMessages_def qs_CheckForQuorum_any_def qs_at_def QuorumSet_init_def
  QuorumSize_def FastQuorumSize_def ir_cf_def slow_results_def tally_def

theorem consensus_answers_backed_witness:
  "\<exists>c. ic_ex_run 9 = Inr c \<and> IcContinue 0 ''op'' ''x'' \<in> set (ic_trace c) \<and>
     (\<exists>rcv i v S. ic_run (ir_cf 0) 9 (\<lambda>_. Some (\<lambda>m. fst (hd m))) rcv c \<and>
       ((FastQuorumSize (ir_cf 0) \<le> int (card S) \<and> (\<forall>r \<in> S. replied rcv i v r ''x'')) \<or>
       (QuorumSize (ir_cf 0) \<le> int (card S) \<and> (\<forall>r \<in> S. confirmed rcv i v r) \<and>
         decided (ir_cf 0) (\<lambda>m. fst (hd m)) rcv i v ''x'' \<and>
         IcToGroup (FinalizeConsensusMessage (9, i) ''x'') \<in> set (ic_trace c))))"
proof -
  let ?d = "\<lambda>m :: (string \<times> nat) list. fst (hd m)"
  let ?c1 = "InvokeConsensus (ir_cf 0) True ''op'' (Some ?d) (0 :: nat) None (IRClient_init 9)"
  obtain c2 where c2: "IRClient_ReceiveMessage True True (ReplyConsensus 4 0 (9, 1) ''x'' False) ?c1 = Inr c2"
    by (auto simp: ic_run_defs)
  obtain c3 where c3: "IRClient_ReceiveMessage True True (ReplyConsensus 4 2 (9, 1) ''y'' False) c2 = Inr c3"
    using c2 by (auto simp: ic_run_defs)
  obtain c4 where c4: "TransitionToConsensusSlowPath True 1 c3 = Inr c4" using c2 c3 by (auto simp: ic_run_defs)
  obtain c5 where c5: "IRClient_ReceiveMessage True True (Confirm 4 0 (9, 1)) c4 = Inr c5"
    using c2 c3 c4 by (auto simp: ic_run_defs)
  obtain c where c: "IRClient_ReceiveMessage True True (Confirm 4 2 (9, 1)) c5 = Inr c"
    and tr: "IcContinue 0 ''op'' ''x'' \<in> set (ic_trace c)"
    using c2 c3 c4 c5 by (auto simp: ic_run_defs)
  have sent: "1 \<in> final_ids (ic_trace c4)" "1 \<in> final_ids (ic_trace c5)"
    using c2 c3 c4 c5 by (auto simp: ic_run_defs final_ids_def)
  let ?dec = "\<lambda>_ :: nat. Some ?d"
  have "ic_run (ir_cf 0) 9 ?dec [] ?c1" by (rule ic_run.consensus [OF ic_run.start]) (simp_all add: IRClient_init_def)
  from ic_run.receive [OF this _ c2] have r2: "ic_run (ir_cf 0) 9 ?dec [ReplyConsensus 4 0 (9, 1) ''x'' False] c2"
    by (simp add: asked_def)
  note r3 = ic_run.receive [OF r2 _ c3]
  have "ic_run (ir_cf 0) 9 ?dec [ReplyConsensus 4 2 (9, 1) ''y'' False, ReplyConsensus 4 0 (9, 1) ''x'' False] c4"
    by (rule ic_run.slow_timer [OF r3 c4]) (simp add: asked_def)
  from ic_run.receive [OF ic_run.receive [OF this _ c5] _ c] sent
  obtain rcv where run: "ic_run (ir_cf 0) 9 ?dec rcv c" by (auto simp: asked_def)
  from consensus_answers_backed [OF run _ tr refl] show ?thesis
    using run tr c2 c3 c4 c5 c by (auto simp: ir_cf_def [of 0] ic_ex_run_def Let_def)
qed

end
