(* ===== verification/Latency.thy ===== *)
theory Latency
  imports Bytes
begin

text \<open>
  \<open>src/lib/latency.{h,cc}\<close>: the measurement of latencies. A \<open>Latency_t\<close> has a distribution
  (minimum, maximum, total, count and a histogram of powers of two) for each of at most five
  types of sample, and a stack of frames that are being timed. \<open>distPool\<close> is a list of five,
  \<open>dists\<close> maps a type to its index in it; a frame is a number in a table of the callers'
  frames. What the clock shows is an argument, \<open>None\<close> when it cannot be read. The functions
  that print, and the file that
  \<open>Latency_Flush\<close> writes, are left out.
\<close>

section \<open>Time\<close>

record timespec =
  tv_sec :: int
  tv_nsec :: int

definition clock :: "timespec option \<Rightarrow> timespec outcome" where
  "clock now = (case now of None \<Rightarrow> Inl Panicked | Some t \<Rightarrow> Inr t)"

text \<open>The same computation is in \<open>Latency_Pause\<close>, \<open>_Latency_Pause\<close> and \<open>PingInitiator::timespec_delta\<close>.\<close>

definition timespec_delta :: "timespec \<Rightarrow> timespec \<Rightarrow> u64" where
  "timespec_delta a b =
     (let delta = of_int (tv_sec b - tv_sec a) * 1000000000 in
      if tv_nsec b < tv_nsec a then delta - 1000000000 + of_int (tv_nsec b + 1000000000 - tv_nsec a)
      else delta + of_int (tv_nsec b - tv_nsec a))"

section \<open>Distributions\<close>

definition LATENCY_MAX_DIST :: nat where "LATENCY_MAX_DIST = 127"
definition LATENCY_DIST_POOL_SIZE :: nat where "LATENCY_DIST_POOL_SIZE = 5"
definition LATENCY_NUM_BUCKETS :: nat where "LATENCY_NUM_BUCKETS = 65"

record latency_dist =
  ld_min :: u64
  ld_max :: u64
  ld_total :: u64
  ld_count :: u64
  ld_buckets :: "u32 list"
  ld_type :: char

record latency_frame =
  lf_start :: timespec
  lf_accum :: u64
  lf_parent :: "nat option"

record latency =
  l_name :: string
  l_dists :: "(char, nat) umap"
  l_pool :: "latency_dist list"
  l_next :: nat
  l_bottom :: "nat option"
  l_frames :: "(nat, latency_frame) umap"

definition fresh_dist :: "char \<Rightarrow> latency_dist" where
  "fresh_dist t = \<lparr>ld_min = - 1, ld_max = 0, ld_total = 0, ld_count = 0,
     ld_buckets = replicate LATENCY_NUM_BUCKETS 0, ld_type = t\<rparr>"

definition LatencyInit :: "string \<Rightarrow> latency" where
  "LatencyInit name = \<lparr>l_name = name, l_dists = [], l_pool = replicate LATENCY_DIST_POOL_SIZE (fresh_dist (char_of (0 :: nat))),
     l_next = 0, l_bottom = None, l_frames = []\<rparr>"

text \<open>The loop that counts the shifts until the value is zero.\<close>

function shifts :: "u64 \<Rightarrow> nat" where
  "shifts v = (if v = 0 then 0 else Suc (shifts (drop_bit 1 v)))"
  by auto

lemma half_less: "v \<noteq> 0 \<Longrightarrow> unat (v div 2) < unat v" for v :: u64
  by (simp add: unat_div unat_gt_0)

termination shifts
  by (relation "measure unat") (simp_all add: drop_bit_eq_div half_less)

declare shifts.simps [simp del]

definition bucket_of :: "u64 \<Rightarrow> nat" where
  "bucket_of v = shifts (drop_bit 1 v)"

definition upd_dist :: "nat \<Rightarrow> (latency_dist \<Rightarrow> latency_dist) \<Rightarrow> latency \<Rightarrow> latency" where
  "upd_dist i f l = l\<lparr>l_pool := (l_pool l)[i := f (l_pool l ! i)]\<rparr>"

text \<open>The distribution of a type, taken from the pool when the type is new, and its histogram.\<close>

definition LatencyAddHist :: "char \<Rightarrow> u64 \<Rightarrow> u32 \<Rightarrow> latency \<Rightarrow> (nat \<times> latency) outcome" where
  "LatencyAddHist t val n l =
     (if LATENCY_MAX_DIST \<le> of_char t then Inl UndefinedBehaviour
      else
        bindE (case map_of (l_dists l) t of
            Some i \<Rightarrow> Inr (i, l)
          | None \<Rightarrow>
              if l_next l = LATENCY_DIST_POOL_SIZE then Inl Panicked
              else Inr (l_next l, upd_dist (l_next l) (\<lambda>d. d\<lparr>ld_type := t\<rparr>)
                (l\<lparr>l_dists := um_put t (l_next l) (l_dists l), l_next := Suc (l_next l)\<rparr>))) (\<lambda>(i, l1).
          let b = bucket_of val in
          assertE (b < LATENCY_NUM_BUCKETS)
            (Inr (i, upd_dist i (\<lambda>d. d\<lparr>ld_buckets := (ld_buckets d)[b := ld_buckets d ! b + n]\<rparr>) l1))))"

definition LatencyAdd :: "char \<Rightarrow> u64 \<Rightarrow> latency \<Rightarrow> latency outcome" where
  "LatencyAdd t val l =
     bindE (LatencyAddHist t val 1 l) (\<lambda>(i, l1).
       Inr (upd_dist i (\<lambda>d. d\<lparr>ld_min := (if val < ld_min d then val else ld_min d),
         ld_max := (if val > ld_max d then val else ld_max d), ld_total := ld_total d + val, ld_count := ld_count d + 1\<rparr>) l1))"

text \<open>
  Shifting \<open>1ll\<close> by 64 is undefined, but no value is in the last bucket.
  A type of the summand that has a distribution has one in the destination after the first loop, or the code reads null.
\<close>

definition Latency_Sum :: "latency \<Rightarrow> latency \<Rightarrow> latency outcome" where
  "Latency_Sum dest summand =
     bindE (foldE (\<lambda>i. foldE (\<lambda>b l.
         let d = l_pool summand ! i in
         if ld_buckets d ! b = 0 then Inr l
         else if 64 \<le> b then Inl UndefinedBehaviour
         else bindE (LatencyAddHist (ld_type d) (push_bit b 1) (ld_buckets d ! b) l) (\<lambda>(_, l1). Inr l1))
       [0..<LATENCY_NUM_BUCKETS]) [0..<l_next summand] dest) (\<lambda>dest1.
     foldE (\<lambda>t l.
         case map_of (l_dists summand) (char_of t) of
           None \<Rightarrow> Inr l
         | Some s \<Rightarrow>
             let ds = l_pool summand ! s in
             (case map_of (l_dists l) (char_of t) of
                None \<Rightarrow> Inl UndefinedBehaviour
              | Some i \<Rightarrow> Inr (upd_dist i (\<lambda>dd. dd\<lparr>ld_min := (if ld_min ds < ld_min dd then ld_min ds else ld_min dd),
                  ld_max := (if ld_max ds > ld_max dd then ld_max ds else ld_max dd),
                  ld_total := ld_total dd + ld_total ds, ld_count := ld_count dd + ld_count ds\<rparr>) l)))
       [0..<LATENCY_MAX_DIST] dest1)"

section \<open>Frames\<close>

text \<open>The frame at the bottom of the stack must exist; \<open>Latency_Pause\<close> and \<open>Latency_Resume\<close> read it.\<close>

definition upd_bottom :: "(latency_frame \<Rightarrow> latency_frame) \<Rightarrow> latency \<Rightarrow> latency outcome" where
  "upd_bottom f l =
     (case l_bottom l of
        None \<Rightarrow> Inl UndefinedBehaviour
      | Some fr \<Rightarrow> (case map_of (l_frames l) fr of
          None \<Rightarrow> Inl UndefinedBehaviour
        | Some x \<Rightarrow> Inr (l\<lparr>l_frames := um_put fr (f x) (l_frames l)\<rparr>)))"

definition lf_pause :: "timespec \<Rightarrow> latency_frame \<Rightarrow> latency_frame" where
  "lf_pause now fr = fr\<lparr>lf_accum := lf_accum fr + timespec_delta (lf_start fr) now\<rparr>"

definition Latency_Pause :: "timespec option \<Rightarrow> latency \<Rightarrow> latency outcome" where
  "Latency_Pause now l = bindE (clock now) (\<lambda>t. upd_bottom (lf_pause t) l)"

definition Latency_Resume :: "timespec option \<Rightarrow> latency \<Rightarrow> latency outcome" where
  "Latency_Resume now l = bindE (clock now) (\<lambda>t. upd_bottom (\<lambda>fr. fr\<lparr>lf_start := t\<rparr>) l)"

text \<open>A frame starts as the caller has it, \<open>x\<close>.\<close>

definition Latency_StartRec :: "timespec option \<Rightarrow> nat \<Rightarrow> latency_frame \<Rightarrow> latency \<Rightarrow> latency outcome" where
  "Latency_StartRec now fr x l =
     Latency_Resume now (l\<lparr>l_frames := um_put fr (x\<lparr>lf_accum := 0, lf_parent := l_bottom l\<rparr>) (l_frames l), l_bottom := Some fr\<rparr>)"

definition Latency_EndRecType :: "timespec option \<Rightarrow> nat \<Rightarrow> char \<Rightarrow> latency \<Rightarrow> (u64 \<times> latency) outcome" where
  "Latency_EndRecType now fr t l =
     bindE (Latency_Pause now l) (\<lambda>l1.
     assertE (l_bottom l1 = Some fr)
       (case map_of (l_frames l1) fr of
          None \<Rightarrow> Inl UndefinedBehaviour
        | Some x \<Rightarrow> bindE (LatencyAdd t (lf_accum x) (l1\<lparr>l_bottom := lf_parent x\<rparr>)) (\<lambda>l2. Inr (lf_accum x, l2))))"

text \<open>The functions whose name starts with an underscore time a frame that is on no stack.\<close>

definition U_Latency_Resume :: "timespec option \<Rightarrow> latency_frame \<Rightarrow> latency_frame outcome" where
  "U_Latency_Resume now fr = bindE (clock now) (\<lambda>t. Inr (fr\<lparr>lf_start := t\<rparr>))"

definition U_Latency_Pause :: "timespec option \<Rightarrow> latency_frame \<Rightarrow> latency_frame outcome" where
  "U_Latency_Pause now fr = bindE (clock now) (\<lambda>t. Inr (lf_pause t fr))"

definition U_Latency_StartRec :: "timespec option \<Rightarrow> latency_frame \<Rightarrow> latency_frame outcome" where
  "U_Latency_StartRec now fr = U_Latency_Resume now (fr\<lparr>lf_accum := 0\<rparr>)"

definition U_Latency_EndRecType :: "timespec option \<Rightarrow> latency_frame \<Rightarrow> char \<Rightarrow> latency \<Rightarrow> (u64 \<times> latency_frame \<times> latency) outcome" where
  "U_Latency_EndRecType now fr t l =
     bindE (U_Latency_Pause now fr) (\<lambda>fr1. bindE (LatencyAdd t (lf_accum fr1) l) (\<lambda>l1. Inr (lf_accum fr1, fr1, l1)))"

section \<open>Messages\<close>

text \<open>The count of types that a message gives is not checked against the size of the pool.\<close>

definition Latency_Put :: "latency \<Rightarrow> string \<times> latency_dist list" where
  "Latency_Put l = (l_name l, take (l_next l) (l_pool l))"

definition Latency_TryGet :: "string \<times> latency_dist list \<Rightarrow> latency outcome" where
  "Latency_TryGet m =
     (let (name, ds) = m; l = LatencyInit name in
      if LATENCY_DIST_POOL_SIZE < length ds \<or> (\<exists>d \<in> set ds. length (ld_buckets d) < LATENCY_NUM_BUCKETS \<or> LATENCY_MAX_DIST \<le> of_char (ld_type d))
      then Inl UndefinedBehaviour
      else Inr (l\<lparr>l_pool := map (\<lambda>d. d\<lparr>ld_buckets := take LATENCY_NUM_BUCKETS (ld_buckets d)\<rparr>) ds @ drop (length ds) (l_pool l),
        l_next := length ds, l_dists := fold (\<lambda>i. um_put (ld_type (ds ! i)) i) [0..<length ds] []\<rparr>))"

definition units :: "string list" where
  "units = [''ns'', ''us'', ''ms'', ''s'']"

fun fmt_ns :: "u64 \<Rightarrow> nat \<Rightarrow> u64 \<times> nat" where
  "fmt_ns ns 0 = (ns, 0)"
| "fmt_ns ns (Suc k) = (if 10000 \<le> ns then (let (n, u) = fmt_ns (ns div 1000) k in (n, Suc u)) else (ns, 0))"

text \<open>The number and the unit that \<open>LatencyFmtNS\<close> prints.\<close>

definition LatencyFmtNS :: "u64 \<Rightarrow> u64 \<times> string" where
  "LatencyFmtNS ns = (let (n, u) = fmt_ns ns 3 in (n, units ! u))"

end
