(* ===== verification/LatencyProps.thy ===== *)
theory LatencyProps
  imports Latency
begin

text \<open>
  The lemmas about the measurement of latencies: the bucket of a value, what a sequence of
  samples leaves, and that summing two measurements is measuring both sequences.
\<close>

section \<open>Time and buckets\<close>

lemma timespec_delta_ns: "timespec_delta a b = of_int (1000000000 * (tv_sec b - tv_sec a) + (tv_nsec b - tv_nsec a))"
  by (simp add: timespec_delta_def Let_def algebra_simps)

lemma shifts_bounds: "v \<noteq> 0 \<Longrightarrow> 2 ^ (shifts v - 1) \<le> unat v \<and> unat v < 2 ^ shifts v \<and> shifts v \<noteq> 0"
proof (induction v rule: shifts.induct)
  case (1 v)
  show ?case
  proof (cases "v div 2 = 0")
    case True
    have "unat v div 2 = unat (v div 2)" by (simp add: unat_div)
    then have "unat v div 2 = 0" using True by simp
    moreover have "unat v \<noteq> 0" using 1(2) by (simp add: unat_eq_zero)
    ultimately have "unat v = 1" by linarith
    then show ?thesis using 1(2) True by (simp add: shifts.simps [of v] shifts.simps [of 0] drop_bit_eq_div)
  next
    case False
    let ?w = "drop_bit 1 v"
    have w: "unat ?w = unat v div 2" by (simp add: drop_bit_eq_div unat_div)
    have ih: "2 ^ (shifts ?w - 1) \<le> unat ?w \<and> unat ?w < 2 ^ shifts ?w \<and> shifts ?w \<noteq> 0"
      using 1(1) [OF 1(2)] False by (simp add: drop_bit_eq_div)
    have s: "shifts v = Suc (shifts ?w)" using 1(2) by (simp add: shifts.simps [of v])
    obtain k where k: "shifts ?w = Suc k" using ih by (cases "shifts ?w") auto
    have "2 ^ k \<le> unat v div 2" and "unat v div 2 < 2 ^ Suc k" using ih w unfolding k by simp_all
    then have "2 ^ Suc k \<le> unat v" and "unat v < 2 ^ Suc (Suc k)" by simp_all
    then show ?thesis unfolding s k by simp
  qed
qed

text \<open>The bucket of a value is its binary logarithm, so the assertion on it never fails.\<close>

lemma bucket_of_log: "2 \<le> unat v \<Longrightarrow> 2 ^ bucket_of v \<le> unat v \<and> unat v < 2 ^ Suc (bucket_of v)"
proof -
  assume v: "2 \<le> unat v"
  have w: "unat (drop_bit 1 v) = unat v div 2" by (simp add: drop_bit_eq_div unat_div)
  then have "drop_bit 1 v \<noteq> 0" using v by (metis div_greater_zero_iff less_nat_zero_code unat_0 zero_less_numeral)
  from shifts_bounds [OF this] w show ?thesis unfolding bucket_of_def
    by (cases "shifts (drop_bit 1 v)") (simp, simp, linarith)
qed

lemma bucket_of_small: "unat v < 2 \<Longrightarrow> bucket_of v = 0"
  by (simp add: bucket_of_def shifts.simps drop_bit_eq_div unat_div flip: unat_eq_zero)

lemma bucket_of_less: "bucket_of v < LATENCY_NUM_BUCKETS"
proof (cases "2 \<le> unat v")
  case True
  have "(2 :: nat) ^ bucket_of v < 2 ^ 64"
    using bucket_of_log [OF True] unsigned_less [of v, where ?'a = nat] by simp
  then have "bucket_of v < 64" by (rule power_less_imp_less_exp [rotated]) simp
  then show ?thesis by (simp add: LATENCY_NUM_BUCKETS_def)
qed (simp add: bucket_of_small LATENCY_NUM_BUCKETS_def)

lemma bucket_of_power: "b < 64 \<Longrightarrow> bucket_of (push_bit b 1) = b"
proof -
  assume b: "b < 64"
  have p: "unat (push_bit b 1 :: u64) = 2 ^ b" unfolding unsigned_push_bit_eq using b by (simp add: take_bit_nat_eq_self_iff)
  show ?thesis
  proof (cases "b = 0")
    case True
    then show ?thesis using p by (simp add: bucket_of_small)
  next
    case False
    then have "(2 :: nat) \<le> 2 ^ b" by (cases b) simp_all
    with bucket_of_log [of "push_bit b 1"] p have "2 ^ bucket_of (push_bit b 1) \<le> (2 :: nat) ^ b \<and> (2 :: nat) ^ b < 2 ^ Suc (bucket_of (push_bit b 1))"
      by metis
    then have "bucket_of (push_bit b 1) \<le> b" and "b < Suc (bucket_of (push_bit b 1))"
      by (simp_all del: power_Suc)
    then show ?thesis by simp
  qed
qed

section \<open>The distributions as a function of the type\<close>

text \<open>The types in the order in which they were first used, and the distribution of each.\<close>

definition dists_are :: "latency \<Rightarrow> char list \<Rightarrow> (char \<Rightarrow> latency_dist) \<Rightarrow> bool" where
  "dists_are l ts D \<longleftrightarrow> distinct ts \<and> length ts \<le> LATENCY_DIST_POOL_SIZE \<and> (\<forall>t \<in> set ts. of_char t < LATENCY_MAX_DIST) \<and>
     (\<forall>t. t \<notin> set ts \<longrightarrow> D t = fresh_dist t) \<and> (\<forall>t. length (ld_buckets (D t)) = LATENCY_NUM_BUCKETS \<and> ld_type (D t) = t) \<and>
     l_next l = length ts \<and> l_dists l = zip ts [0..<length ts] \<and>
     l_pool l = map D ts @ replicate (LATENCY_DIST_POOL_SIZE - length ts) (fresh_dist (char_of (0 :: nat)))"

definition used :: "char \<Rightarrow> char list \<Rightarrow> char list" where
  "used t ts = (if t \<in> set ts then ts else ts @ [t])"

definition add_hist :: "u64 \<Rightarrow> u32 \<Rightarrow> latency_dist \<Rightarrow> latency_dist" where
  "add_hist v n d = d\<lparr>ld_buckets := (ld_buckets d)[bucket_of v := ld_buckets d ! bucket_of v + n]\<rparr>"

definition add_stats :: "u64 \<Rightarrow> u64 \<Rightarrow> u64 \<Rightarrow> u64 \<Rightarrow> latency_dist \<Rightarrow> latency_dist" where
  "add_stats mi ma tot n d = d\<lparr>ld_min := (if mi < ld_min d then mi else ld_min d), ld_max := (if ma > ld_max d then ma else ld_max d),
     ld_total := ld_total d + tot, ld_count := ld_count d + n\<rparr>"

definition add_val :: "u64 \<Rightarrow> latency_dist \<Rightarrow> latency_dist" where
  "add_val v d = add_stats v v v 1 (add_hist v 1 d)"

lemma add_fields [simp]:
  "length (ld_buckets (add_hist v n d)) = length (ld_buckets d)" "ld_type (add_hist v n d) = ld_type d"
  "ld_buckets (add_stats mi ma tot k d) = ld_buckets d" "ld_type (add_stats mi ma tot k d) = ld_type d"
  by (simp_all add: add_hist_def add_stats_def)

lemma dists_are_shape: "dists_are l ts D \<Longrightarrow> length (ld_buckets (D t)) = LATENCY_NUM_BUCKETS \<and> ld_type (D t) = t"
  by (simp add: dists_are_def)

lemma used_set [simp]: "set (used t ts) = insert t (set ts)" "distinct (used t ts) = distinct ts"
  by (auto simp: used_def)

lemma map_of_zip_index:
  "distinct ts \<Longrightarrow> map_of (zip ts [k..<k + length ts]) t = Some i \<longleftrightarrow> k \<le> i \<and> i < k + length ts \<and> ts ! (i - k) = t"
proof (induction ts arbitrary: k)
  case (Cons u ts)
  have "[k..<k + length (u # ts)] = k # [Suc k..<Suc k + length ts]" by (simp add: upt_rec)
  moreover note Cons.IH [of "Suc k"]
  ultimately show ?case using Cons.prems
    by (cases "t = u"; cases "i = k") (auto simp: nth_Cons' Suc_le_eq nth_eq_iff_index_eq in_set_conv_nth)
qed simp

lemma dists_are_lookup:
  assumes "dists_are l ts D"
  shows "map_of (l_dists l) t = Some i \<longleftrightarrow> i < length ts \<and> ts ! i = t" and "map_of (l_dists l) t = None \<longleftrightarrow> t \<notin> set ts"
proof -
  show "map_of (l_dists l) t = Some i \<longleftrightarrow> i < length ts \<and> ts ! i = t"
    using assms map_of_zip_index [of ts 0 t i] by (simp add: dists_are_def)
  show "map_of (l_dists l) t = None \<longleftrightarrow> t \<notin> set ts"
    using assms map_of_eq_None_iff [of "l_dists l" t] by (simp add: dists_are_def flip: set_map)
qed

lemma dists_are_upd:
  assumes d: "dists_are l ts D" and i: "i < length ts" and t: "ts ! i = t"
    and f: "length (ld_buckets (f (D t))) = LATENCY_NUM_BUCKETS" "ld_type (f (D t)) = t"
  shows "dists_are (upd_dist i f l) ts (D(t := f (D t)))"
proof -
  note d' = d [unfolded dists_are_def]
  have "(map D ts)[i := f (D t)] = map (D(t := f (D t))) ts"
    by (rule nth_equalityI) (use d' i t in \<open>auto simp: nth_list_update nth_eq_iff_index_eq\<close>)
  moreover have "l_pool l ! i = D t" using d' i t by (simp add: nth_append)
  moreover have "t \<in> set ts" using i t by auto
  ultimately show ?thesis using d' i f unfolding dists_are_def upd_dist_def by (auto simp: list_update_append)
qed

lemma AddHist_dists:
  assumes d: "dists_are l ts D" and t: "of_char t < LATENCY_MAX_DIST"
    and room: "length (used t ts) \<le> LATENCY_DIST_POOL_SIZE"
  shows "\<exists>i l'. LatencyAddHist t v n l = Inr (i, l') \<and> i < length (used t ts) \<and> used t ts ! i = t \<and>
    dists_are l' (used t ts) (D(t := add_hist v n (D t)))"
proof -
  note d' = d [unfolded dists_are_def]
  have f: "length (ld_buckets (add_hist v n (E t))) = length (ld_buckets (E t))" "ld_type (add_hist v n (E t)) = ld_type (E t)" for E :: "char \<Rightarrow> latency_dist"
    by (simp_all add: add_hist_def)
  show ?thesis
  proof (cases "t \<in> set ts")
    case True
    then obtain i where i: "i < length ts" "ts ! i = t" by (auto simp: in_set_conv_nth)
    then have "map_of (l_dists l) t = Some i" by (simp add: dists_are_lookup [OF d])
    moreover note dists_are_upd [OF d i, of "add_hist v n"] f [of D] d'
    ultimately show ?thesis using True i t bucket_of_less [of v]
      by (intro exI [of _ i]) (simp add: LatencyAddHist_def used_def Let_def add_hist_def [abs_def] not_le)
  next
    case False
    let ?n = "length ts"
    let ?l1 = "upd_dist ?n (\<lambda>d. d\<lparr>ld_type := t\<rparr>) (l\<lparr>l_dists := um_put t ?n (l_dists l), l_next := Suc ?n\<rparr>)"
    have n: "?n < LATENCY_DIST_POOL_SIZE" using room False by (simp add: used_def)
    have "LATENCY_DIST_POOL_SIZE - ?n = Suc (LATENCY_DIST_POOL_SIZE - Suc ?n)" using n by simp
    then have pool: "(l_pool l)[?n := (l_pool l ! ?n)\<lparr>ld_type := t\<rparr>] =
        map D (ts @ [t]) @ replicate (LATENCY_DIST_POOL_SIZE - Suc ?n) (fresh_dist (char_of (0 :: nat)))"
      using d' False by (simp add: nth_append list_update_append fresh_dist_def)
    have "um_put t ?n (l_dists l) = zip (ts @ [t]) [0..<Suc ?n]"
      using d' False dists_are_lookup(2) [OF d, of t] by (simp add: um_put_at_end um_has_def)
    then have d1: "dists_are ?l1 (ts @ [t]) D"
      using d' False t n pool unfolding dists_are_def upd_dist_def by auto
    have none: "map_of (l_dists l) t = None" using False by (simp add: dists_are_lookup [OF d])
    have "dists_are (upd_dist ?n (add_hist v n) ?l1) (ts @ [t]) (D(t := add_hist v n (D t)))"
      by (rule dists_are_upd [OF d1]) (use f [of D] d' in simp_all)
    moreover have "l_next l = ?n" using d' by simp
    ultimately show ?thesis using False t none bucket_of_less [of v] n
      by (intro exI [of _ ?n]) (simp add: LatencyAddHist_def used_def Let_def add_hist_def [abs_def] not_le)
  qed
qed

section \<open>Recording samples\<close>

definition same_rest :: "latency \<Rightarrow> latency \<Rightarrow> bool" where
  "same_rest l l' \<longleftrightarrow> l_name l' = l_name l \<and> l_bottom l' = l_bottom l \<and> l_frames l' = l_frames l"

lemma same_rest_upd [simp]: "same_rest l (upd_dist i f l') = same_rest l l'"
  by (simp add: same_rest_def upd_dist_def)

lemma same_rest_refl [simp]: "same_rest l l"
  by (simp add: same_rest_def)

lemma same_rest_trans: "same_rest l l' \<Longrightarrow> same_rest l' l'' \<Longrightarrow> same_rest l l''"
  by (simp add: same_rest_def)

lemma AddHist_rest: "LatencyAddHist t v n l = Inr (i, l') \<Longrightarrow> same_rest l l'"
  by (auto simp: LatencyAddHist_def Let_def split: if_splits option.splits) (simp add: same_rest_def)

text \<open>The same state of the distributions and the same rest are the same measurement.\<close>

lemma dists_are_unique: "dists_are l ts D \<Longrightarrow> dists_are l' ts D \<Longrightarrow> same_rest l l' \<Longrightarrow> l = l'"
  by (simp add: dists_are_def same_rest_def)

lemma dists_are_init: "dists_are (LatencyInit name) [] fresh_dist"
  by (simp add: dists_are_def LatencyInit_def fresh_dist_def)

lemma AddHist_room:
  assumes d: "dists_are l ts D" and h: "LatencyAddHist t v n l = Inr (i, l')"
  shows "of_char t < LATENCY_MAX_DIST \<and> length (used t ts) \<le> LATENCY_DIST_POOL_SIZE"
proof -
  have "l_next l = length ts" "length ts \<le> LATENCY_DIST_POOL_SIZE" using d by (simp_all add: dists_are_def)
  then show ?thesis
    using h dists_are_lookup(2) [OF d, of t]
    by (auto simp: LatencyAddHist_def used_def not_le split: if_splits option.splits)
qed

lemma LatencyAdd_dists:
  assumes d: "dists_are l ts D" and t: "of_char t < LATENCY_MAX_DIST"
    and room: "length (used t ts) \<le> LATENCY_DIST_POOL_SIZE"
  shows "\<exists>l'. LatencyAdd t v l = Inr l' \<and> dists_are l' (used t ts) (D(t := add_val v (D t))) \<and> same_rest l l'"
proof -
  obtain i l1 where h: "LatencyAddHist t v 1 l = Inr (i, l1)" and i: "i < length (used t ts)" "used t ts ! i = t"
    and d1: "dists_are l1 (used t ts) (D(t := add_hist v 1 (D t)))"
    using AddHist_dists [OF d t room] by blast
  have "dists_are (upd_dist i (add_stats v v v 1) l1) (used t ts) ((D(t := add_hist v 1 (D t)))
      (t := add_stats v v v 1 ((D(t := add_hist v 1 (D t))) t)))"
    by (rule dists_are_upd [OF d1 i]) (use dists_are_shape [OF d] in simp_all)
  then show ?thesis
    using h AddHist_rest [OF h] by (simp add: LatencyAdd_def add_stats_def [abs_def] add_val_def)
qed

definition types_of :: "(char \<times> u64) list \<Rightarrow> char list \<Rightarrow> char list" where
  "types_of xs ts = fold used (map fst xs) ts"

definition values_of :: "(char \<times> u64) list \<Rightarrow> char \<Rightarrow> u64 list" where
  "values_of xs t = map snd (filter (\<lambda>p. fst p = t) xs)"

text \<open>What a sequence of samples leaves.\<close>

lemma record_dists:
  assumes "foldE (\<lambda>(t, v). LatencyAdd t v) xs l = Inr l'" and "dists_are l ts D"
  shows "dists_are l' (types_of xs ts) (\<lambda>t. fold add_val (values_of xs t) (D t)) \<and> same_rest l l'"
  using assms
proof (induction xs arbitrary: l ts D)
  case Nil
  then show ?case by (simp add: types_of_def values_of_def)
next
  case (Cons p xs)
  obtain t v where p: "p = (t, v)" by fastforce
  from Cons.prems(1) obtain l1 where l1: "LatencyAdd t v l = Inr l1" and rest: "foldE (\<lambda>(t, v). LatencyAdd t v) xs l1 = Inr l'"
    by (auto simp: p)
  from l1 obtain i l0 where "LatencyAddHist t v 1 l = Inr (i, l0)" by (auto simp: LatencyAdd_def)
  from AddHist_room [OF Cons.prems(2) this] LatencyAdd_dists [OF Cons.prems(2), of t v] l1
  have d1: "dists_are l1 (used t ts) (D(t := add_val v (D t)))" and r: "same_rest l l1" by auto
  from Cons.IH [OF rest d1] have ih: "dists_are l' (types_of xs (used t ts)) (\<lambda>u. fold add_val (values_of xs u) ((D(t := add_val v (D t))) u))"
    "same_rest l1 l'" by auto
  have "(\<lambda>u. fold add_val (values_of xs u) ((D(t := add_val v (D t))) u)) = (\<lambda>u. fold add_val (values_of (p # xs) u) (D u))"
    by (auto simp: values_of_def p fun_eq_iff)
  then show ?case using ih same_rest_trans [OF r] by (simp add: types_of_def p)
qed

section \<open>Combining two distributions\<close>

definition add_buckets :: "u32 list \<Rightarrow> latency_dist \<Rightarrow> latency_dist" where
  "add_buckets c d = d\<lparr>ld_buckets := map2 (+) (ld_buckets d) c\<rparr>"

definition combine :: "latency_dist \<Rightarrow> latency_dist \<Rightarrow> latency_dist" where
  "combine e d = add_stats (ld_min e) (ld_max e) (ld_total e) (ld_count e) (add_buckets (ld_buckets e) d)"

lemma combine_fresh: "length (ld_buckets d) = LATENCY_NUM_BUCKETS \<Longrightarrow> combine (fresh_dist t) d = d"
proof -
  assume n: "length (ld_buckets d) = LATENCY_NUM_BUCKETS"
  have "map2 (+) (ld_buckets d) (replicate LATENCY_NUM_BUCKETS 0) = ld_buckets d"
    by (rule nth_equalityI) (simp_all add: n)
  moreover have "\<not> - 1 < ld_min d" by (simp add: not_less)
  ultimately show ?thesis by (simp add: combine_def add_stats_def add_buckets_def fresh_dist_def)
qed

lemma combine_add:
  assumes "length (ld_buckets d) = LATENCY_NUM_BUCKETS" and "length (ld_buckets e) = LATENCY_NUM_BUCKETS"
  shows "combine (add_val v e) d = add_val v (combine e d)"
proof -
  have "map2 (+) (ld_buckets d) ((ld_buckets e)[bucket_of v := ld_buckets e ! bucket_of v + 1]) =
      (map2 (+) (ld_buckets d) (ld_buckets e))[bucket_of v := map2 (+) (ld_buckets d) (ld_buckets e) ! bucket_of v + 1]"
    by (rule nth_equalityI) (use assms bucket_of_less [of v] in \<open>auto simp: nth_list_update add.assoc\<close>)
  then show ?thesis
    by (simp add: combine_def add_val_def add_stats_def add_hist_def add_buckets_def)
qed

lemma length_add_val [simp]: "length (ld_buckets (add_val v d)) = length (ld_buckets d)"
  by (simp add: add_val_def add_stats_def add_hist_def)

lemma length_fold_add_val [simp]: "length (ld_buckets (fold add_val vs d)) = length (ld_buckets d)"
  by (induction vs arbitrary: d) simp_all

lemma combine_fold:
  "length (ld_buckets d) = LATENCY_NUM_BUCKETS \<Longrightarrow> combine (fold add_val vs (fresh_dist t)) d = fold add_val vs d"
  by (induction vs rule: rev_induct) (simp_all add: combine_fresh combine_add fresh_dist_def [of t, THEN arg_cong, of ld_buckets])

section \<open>Summing\<close>

text \<open>The loop over the buckets of one type: the non-empty ones are added, and one is enough to create the type.\<close>

definition hist_loop :: "u32 list \<Rightarrow> nat list \<Rightarrow> latency_dist \<Rightarrow> latency_dist" where
  "hist_loop c bs d = fold (\<lambda>b d. if c ! b = 0 then d else add_hist (push_bit b 1) (c ! b) d) bs d"

lemma hist_loop_snoc: "hist_loop c (bs @ [b]) d = (if c ! b = 0 then hist_loop c bs d else add_hist (push_bit b 1) (c ! b) (hist_loop c bs d))"
  by (simp add: hist_loop_def)

lemma hist_loop_shape [simp]: "length (ld_buckets (hist_loop c bs d)) = length (ld_buckets d)"
  by (induction bs rule: rev_induct) (simp_all add: hist_loop_snoc, simp add: hist_loop_def)

lemma hist_loop_nth:
  assumes "k \<le> 64" and "length (ld_buckets d) = LATENCY_NUM_BUCKETS" and "j < LATENCY_NUM_BUCKETS"
  shows "ld_buckets (hist_loop c [0..<k] d) ! j = (if j < k then ld_buckets d ! j + c ! j else ld_buckets d ! j)"
  using assms(1)
proof (induction k)
  case 0
  then show ?case by (simp add: hist_loop_def)
next
  case (Suc k)
  then have "bucket_of (push_bit k 1) = k" by (intro bucket_of_power) simp
  then have b: "bucket_of (2 ^ k) = k" by simp
  show ?case using Suc assms(2,3)
    by (auto simp: hist_loop_snoc add_hist_def b nth_list_update less_Suc_eq LATENCY_NUM_BUCKETS_def)
qed

lemma hist_loop_eq:
  assumes d: "length (ld_buckets d) = LATENCY_NUM_BUCKETS" and c: "length c = LATENCY_NUM_BUCKETS" "c ! 64 = 0"
  shows "hist_loop c [0..<LATENCY_NUM_BUCKETS] d = add_buckets c d"
proof -
  have "[0..<LATENCY_NUM_BUCKETS] = [0..<64] @ [64]" by (simp add: LATENCY_NUM_BUCKETS_def upt_rec)
  then have "hist_loop c [0..<LATENCY_NUM_BUCKETS] d = hist_loop c [0..<64] d" by (simp add: hist_loop_snoc c)
  moreover have "ld_buckets (hist_loop c [0..<64] d) = map2 (+) (ld_buckets d) c"
  proof (rule nth_equalityI)
    fix j assume j: "j < length (ld_buckets (hist_loop c [0..<64] d))"
    have "j < 64 \<or> j = 64" using j d by (auto simp: LATENCY_NUM_BUCKETS_def)
    then show "ld_buckets (hist_loop c [0..<64] d) ! j = map2 (+) (ld_buckets d) c ! j"
      using hist_loop_nth [of 64 d j c] j d c by auto
  qed (simp add: d c)
  moreover have "\<exists>x. hist_loop c bs d = d\<lparr>ld_buckets := x\<rparr>" for bs
  proof (induction bs rule: rev_induct)
    case Nil
    show ?case by (rule exI [of _ "ld_buckets d"]) (simp add: hist_loop_def)
  next
    case (snoc b bs)
    then obtain x where "hist_loop c bs d = d\<lparr>ld_buckets := x\<rparr>" ..
    then show ?case by (auto simp: hist_loop_snoc add_hist_def)
  qed
  then obtain x where "hist_loop c [0..<64] d = d\<lparr>ld_buckets := x\<rparr>" by blast
  ultimately show ?thesis by (simp add: add_buckets_def)
qed

lemma inner_loop:
  assumes d: "dists_are l ts D" and t: "of_char t < LATENCY_MAX_DIST" and room: "length (used t ts) \<le> LATENCY_DIST_POOL_SIZE"
    and c: "\<And>b. b \<in> set bs \<Longrightarrow> 64 \<le> b \<Longrightarrow> c ! b = 0"
  shows "\<exists>l'. foldE (\<lambda>b l. if c ! b = 0 then Inr l else if 64 \<le> b then Inl UndefinedBehaviour
      else bindE (LatencyAddHist t (push_bit b 1) (c ! b) l) (\<lambda>(_, l1). Inr l1)) bs l = Inr l' \<and> same_rest l l' \<and>
    dists_are l' (if \<exists>b \<in> set bs. c ! b \<noteq> 0 then used t ts else ts) (D(t := hist_loop c bs (D t)))"
  using c
proof (induction bs rule: rev_induct)
  case Nil
  then show ?case using d by (simp add: hist_loop_def)
next
  case (snoc b bs)
  let ?ts = "if \<exists>b \<in> set bs. c ! b \<noteq> 0 then used t ts else ts"
  obtain l1 where l1: "foldE (\<lambda>b l. if c ! b = 0 then Inr l else if 64 \<le> b then Inl UndefinedBehaviour
      else bindE (LatencyAddHist t (push_bit b 1) (c ! b) l) (\<lambda>(_, l1). Inr l1)) bs l = Inr l1" "same_rest l l1"
    and d1: "dists_are l1 ?ts (D(t := hist_loop c bs (D t)))"
  proof -
    have "\<And>x. x \<in> set bs \<Longrightarrow> 64 \<le> x \<Longrightarrow> c ! x = 0" using snoc.prems by simp
    from snoc.IH [OF this] show ?thesis using that by blast
  qed
  show ?case
  proof (cases "c ! b = 0")
    case True
    have e: "hist_loop c (bs @ [b]) (D t) = hist_loop c bs (D t)" by (simp add: hist_loop_snoc True)
    have q: "(\<exists>x \<in> set (bs @ [b]). c ! x \<noteq> 0) = (\<exists>x \<in> set bs. c ! x \<noteq> 0)" using True by auto
    show ?thesis unfolding e q by (intro exI [of _ l1] conjI d1 l1) (simp add: foldE_append l1 True)
  next
    case False
    then have b: "b < 64" using snoc.prems [of b] by (auto simp: not_le [symmetric])
    have u: "used t ?ts = used t ts" by (simp add: used_def)
    from AddHist_dists [OF d1 t, of "push_bit b 1" "c ! b", unfolded u] room
    obtain i l2 where l2: "LatencyAddHist t (push_bit b 1) (c ! b) l1 = Inr (i, l2)"
      and d2: "dists_are l2 (used t ts) (D(t := hist_loop c (bs @ [b]) (D t)))"
      using False by (auto simp: hist_loop_snoc)
    have q: "\<exists>x \<in> set (bs @ [b]). c ! x \<noteq> 0" using False by simp
    show ?thesis unfolding if_P [OF q]
      by (intro exI [of _ l2] conjI d2 same_rest_trans [OF l1(2) AddHist_rest [OF l2]])
        (use b False l1(1) l2 in \<open>simp add: foldE_append\<close>)
  qed
qed

lemma used_longer: "length ts \<le> length (fold used us ts)"
proof (induction us arbitrary: ts)
  case (Cons u us)
  have "length ts \<le> length (used u ts)" by (simp add: used_def)
  also note Cons
  finally show ?case by simp
qed simp

lemma set_fold_used: "set (fold used us ts) = set us \<union> set ts"
  by (induction us arbitrary: ts) auto

lemma fold_used_used: "fold used (fold used us []) ts = fold used us ts"
proof (induction us rule: rev_induct)
  case (snoc u us)
  have "used u (fold used us ts) = fold used us ts" if "u \<in> set us" using that by (simp add: used_def set_fold_used)
  moreover have "u \<in> set (fold used us []) \<longleftrightarrow> u \<in> set us" by (simp add: set_fold_used)
  ultimately show ?case using snoc by (cases "u \<in> set us") (simp_all add: used_def [of u "fold used us []"])
qed simp

text \<open>A type of a recorded measurement has a sample, and the last bucket stays empty.\<close>

definition recorded :: "latency \<Rightarrow> char list \<Rightarrow> (char \<Rightarrow> latency_dist) \<Rightarrow> bool" where
  "recorded l ts E \<longleftrightarrow> dists_are l ts E \<and> (\<forall>t \<in> set ts. ld_buckets (E t) ! 64 = 0 \<and> (\<exists>b < 64. ld_buckets (E t) ! b \<noteq> 0))"

lemma pool_nth: "dists_are l ts E \<Longrightarrow> i < length ts \<Longrightarrow> l_pool l ! i = E (ts ! i)"
  by (simp add: dists_are_def nth_append)

lemma outer_loop:
  assumes s: "recorded s tys E" and d: "dists_are l ts D" and k: "k \<le> length tys"
    and room: "length (fold used tys ts) \<le> LATENCY_DIST_POOL_SIZE"
  shows "\<exists>l'. foldE (\<lambda>i. foldE (\<lambda>b l.
         let d = l_pool s ! i in
         if ld_buckets d ! b = 0 then Inr l
         else if 64 \<le> b then Inl UndefinedBehaviour
         else bindE (LatencyAddHist (ld_type d) (push_bit b 1) (ld_buckets d ! b) l) (\<lambda>(_, l1). Inr l1))
       [0..<LATENCY_NUM_BUCKETS]) [0..<k] l = Inr l' \<and> same_rest l l' \<and>
    dists_are l' (fold used (take k tys) ts) (\<lambda>t. if t \<in> set (take k tys) then add_buckets (ld_buckets (E t)) (D t) else D t)"
  using k
proof (induction k)
  case 0
  then show ?case using d by simp
next
  case (Suc k)
  let ?t = "tys ! k"
  have sd: "dists_are s tys E" using s by (simp add: recorded_def)
  have k: "k < length tys" using Suc.prems by simp
  have take: "take (Suc k) tys = take k tys @ [?t]" using k by (simp add: take_Suc_conv_app_nth)
  have new: "?t \<notin> set (take k tys)"
    using sd k by (auto simp: dists_are_def in_set_conv_nth nth_eq_iff_index_eq)
  have mem: "?t \<in> set tys" using k by simp
  have t: "of_char ?t < LATENCY_MAX_DIST" using sd mem by (simp add: dists_are_def)
  have "length (fold used (take (Suc k) tys) ts) \<le> length (fold used (drop (Suc k) tys) (fold used (take (Suc k) tys) ts))"
    by (rule used_longer)
  also have "\<dots> = length (fold used tys ts)" by (metis append_take_drop_id comp_apply fold_append)
  finally have room': "length (used ?t (fold used (take k tys) ts)) \<le> LATENCY_DIST_POOL_SIZE" using room by (simp add: take)
  obtain l1 where l1: "foldE (\<lambda>i. foldE (\<lambda>b l.
         let d = l_pool s ! i in
         if ld_buckets d ! b = 0 then Inr l
         else if 64 \<le> b then Inl UndefinedBehaviour
         else bindE (LatencyAddHist (ld_type d) (push_bit b 1) (ld_buckets d ! b) l) (\<lambda>(_, l1). Inr l1))
       [0..<LATENCY_NUM_BUCKETS]) [0..<k] l = Inr l1" "same_rest l l1"
    and d1: "dists_are l1 (fold used (take k tys) ts) (\<lambda>t. if t \<in> set (take k tys) then add_buckets (ld_buckets (E t)) (D t) else D t)"
    using Suc by auto
  let ?D = "\<lambda>t. if t \<in> set (take k tys) then add_buckets (ld_buckets (E t)) (D t) else D t"
  have pool: "l_pool s ! k = E ?t" "ld_type (E ?t) = ?t" using pool_nth [OF sd k] dists_are_shape [OF sd] by simp_all
  have c: "length (ld_buckets (E ?t)) = LATENCY_NUM_BUCKETS" "ld_buckets (E ?t) ! 64 = 0"
    using s mem dists_are_shape [OF sd] by (auto simp: recorded_def)
  obtain b where "b < 64" "ld_buckets (E ?t) ! b \<noteq> 0" using s mem by (auto simp: recorded_def)
  then have some: "\<exists>b \<in> set [0..<LATENCY_NUM_BUCKETS]. ld_buckets (E ?t) ! b \<noteq> 0"
    by (intro bexI [of _ b]) (simp_all add: LATENCY_NUM_BUCKETS_def)
  have last: "ld_buckets (E ?t) ! b = 0" if "b \<in> set [0..<LATENCY_NUM_BUCKETS]" "64 \<le> b" for b
  proof -
    have "b = 64" using that by (simp add: LATENCY_NUM_BUCKETS_def)
    then show ?thesis using c by simp
  qed
  obtain l2 where l2: "foldE (\<lambda>b l. if ld_buckets (E ?t) ! b = 0 then Inr l else if 64 \<le> b then Inl UndefinedBehaviour
      else bindE (LatencyAddHist ?t (push_bit b 1) (ld_buckets (E ?t) ! b) l) (\<lambda>(_, l1). Inr l1)) [0..<LATENCY_NUM_BUCKETS] l1 = Inr l2"
      "same_rest l1 l2"
    and d2: "dists_are l2 (used ?t (fold used (take k tys) ts)) (?D(?t := hist_loop (ld_buckets (E ?t)) [0..<LATENCY_NUM_BUCKETS] (?D ?t)))"
    using inner_loop [OF d1 t room', of "[0..<LATENCY_NUM_BUCKETS]" "ld_buckets (E ?t)", OF last, unfolded if_P [OF some]] by blast
  have l2': "foldE (\<lambda>b l.
         let d = l_pool s ! k in
         if ld_buckets d ! b = 0 then Inr l
         else if 64 \<le> b then Inl UndefinedBehaviour
         else bindE (LatencyAddHist (ld_type d) (push_bit b 1) (ld_buckets d ! b) l) (\<lambda>(_, l1). Inr l1))
       [0..<LATENCY_NUM_BUCKETS] l1 = Inr l2"
    using l2(1) by (simp only: Let_def pool)
  have D': "?D(?t := hist_loop (ld_buckets (E ?t)) [0..<LATENCY_NUM_BUCKETS] (?D ?t)) =
      (\<lambda>t. if t \<in> set (take (Suc k) tys) then add_buckets (ld_buckets (E t)) (D t) else D t)"
    using new hist_loop_eq [OF _ c, of "D ?t"] dists_are_shape [OF d] by (auto simp: take fun_eq_iff)
  have up: "[0..<Suc k] = [0..<k] @ [k]" by simp
  have fo: "fold used (take (Suc k) tys) ts = used ?t (fold used (take k tys) ts)" by (simp add: take)
  show ?case unfolding fo
    by (intro exI [of _ l2] conjI same_rest_trans [OF l1(2) l2(2)] d2 [unfolded D'])
      (simp only: up foldE_append l1(1) bindE_simps foldE.simps l2')
qed


text \<open>The second loop goes over the types and adds the other fields.\<close>

lemma of_char_eq_iff: "k < 256 \<Longrightarrow> (of_char u = k) = (u = char_of k)" for k :: nat
  by (metis char_of_char of_char_of mod_less)

lemma stats_loop:
  assumes s: "dists_are s tys E" and d: "dists_are l ts D" and sub: "set tys \<subseteq> set ts" and k: "k \<le> LATENCY_MAX_DIST"
  shows "\<exists>l'. foldE (\<lambda>t l.
         case map_of (l_dists s) (char_of t) of
           None \<Rightarrow> Inr l
         | Some j \<Rightarrow>
             let ds = l_pool s ! j in
             (case map_of (l_dists l) (char_of t) of
                None \<Rightarrow> Inl UndefinedBehaviour
              | Some i \<Rightarrow> Inr (upd_dist i (add_stats (ld_min ds) (ld_max ds) (ld_total ds) (ld_count ds)) l))) [0..<k] l = Inr l' \<and>
    same_rest l l' \<and>
    dists_are l' ts (\<lambda>t. if t \<in> set tys \<and> of_char t < k
      then add_stats (ld_min (E t)) (ld_max (E t)) (ld_total (E t)) (ld_count (E t)) (D t) else D t)"
  using k
proof (induction k)
  case 0
  then show ?case using d by simp
next
  case (Suc k)
  let ?u = "char_of k :: char"
  let ?D = "\<lambda>t. if t \<in> set tys \<and> of_char t < k
      then add_stats (ld_min (E t)) (ld_max (E t)) (ld_total (E t)) (ld_count (E t)) (D t) else D t"
  let ?D' = "\<lambda>t. if t \<in> set tys \<and> of_char t < Suc k
      then add_stats (ld_min (E t)) (ld_max (E t)) (ld_total (E t)) (ld_count (E t)) (D t) else D t"
  have k: "k < 256" using Suc.prems by (simp add: LATENCY_MAX_DIST_def)
  have uk: "of_char ?u = k" using of_char_eq_iff [OF k, of ?u] by simp
  have at: "(of_char t < Suc k) = (of_char t < k \<or> t = ?u)" for t :: char
    using of_char_eq_iff [OF k, of t] by auto
  from Suc obtain l1 where l1: "foldE (\<lambda>t l.
         case map_of (l_dists s) (char_of t) of
           None \<Rightarrow> Inr l
         | Some j \<Rightarrow>
             let ds = l_pool s ! j in
             (case map_of (l_dists l) (char_of t) of
                None \<Rightarrow> Inl UndefinedBehaviour
              | Some i \<Rightarrow> Inr (upd_dist i (add_stats (ld_min ds) (ld_max ds) (ld_total ds) (ld_count ds)) l))) [0..<k] l = Inr l1"
    "same_rest l l1" and d1: "dists_are l1 ts ?D" by auto
  show ?case
  proof (cases "?u \<in> set tys")
    case False
    then have "?D' = ?D" by (auto simp: at fun_eq_iff)
    moreover have "map_of (l_dists s) ?u = None" using False by (simp add: dists_are_lookup [OF s])
    ultimately show ?thesis using l1 d1 by (simp add: foldE_append)
  next
    case True
    then obtain j where j: "j < length tys" "tys ! j = ?u" by (auto simp: in_set_conv_nth)
    from True sub obtain i where i: "i < length ts" "ts ! i = ?u" by (auto simp: in_set_conv_nth subset_iff)
    have look: "map_of (l_dists s) ?u = Some j" "map_of (l_dists l1) ?u = Some i"
      using i j by (simp_all add: dists_are_lookup [OF s] dists_are_lookup [OF d1])
    have pool: "l_pool s ! j = E ?u" using pool_nth [OF s j(1)] j by simp
    let ?f = "add_stats (ld_min (E ?u)) (ld_max (E ?u)) (ld_total (E ?u)) (ld_count (E ?u))"
    have "dists_are (upd_dist i ?f l1) ts (?D(?u := ?f (?D ?u)))"
      by (rule dists_are_upd [OF d1 i]) (use dists_are_shape [OF d] in simp_all)
    moreover have "?D(?u := ?f (?D ?u)) = ?D'" using True uk by (auto simp: at fun_eq_iff)
    ultimately have d2: "dists_are (upd_dist i ?f l1) ts ?D'" by simp
    show ?thesis
      by (intro exI [of _ "upd_dist i ?f l1"] conjI d2) (use l1 look pool in \<open>simp_all add: foldE_append Let_def\<close>)
  qed
qed

lemma Latency_Sum_dists:
  assumes s: "recorded s tys E" and d: "dists_are l ts D"
    and room: "length (fold used tys ts) \<le> LATENCY_DIST_POOL_SIZE"
  shows "\<exists>l'. Latency_Sum l s = Inr l' \<and> same_rest l l' \<and>
    dists_are l' (fold used tys ts) (\<lambda>t. if t \<in> set tys then combine (E t) (D t) else D t)"
proof -
  have sd: "dists_are s tys E" using s by (simp add: recorded_def)
  then have n: "l_next s = length tys" by (simp add: dists_are_def)
  let ?D = "\<lambda>t. if t \<in> set tys then add_buckets (ld_buckets (E t)) (D t) else D t"
  from outer_loop [OF s d order_refl room] obtain l1 where
    l1: "foldE (\<lambda>i. foldE (\<lambda>b l.
         let d = l_pool s ! i in
         if ld_buckets d ! b = 0 then Inr l
         else if 64 \<le> b then Inl UndefinedBehaviour
         else bindE (LatencyAddHist (ld_type d) (push_bit b 1) (ld_buckets d ! b) l) (\<lambda>(_, l1). Inr l1))
       [0..<LATENCY_NUM_BUCKETS]) [0..<l_next s] l = Inr l1" "same_rest l l1"
    and d1: "dists_are l1 (fold used tys ts) ?D" unfolding n by auto
  have sub: "set tys \<subseteq> set (fold used tys ts)" by (simp add: set_fold_used)
  from stats_loop [OF sd d1 sub order_refl] obtain l2 where
    l2: "foldE (\<lambda>t l.
         case map_of (l_dists s) (char_of t) of
           None \<Rightarrow> Inr l
         | Some j \<Rightarrow>
             let ds = l_pool s ! j in
             (case map_of (l_dists l) (char_of t) of
                None \<Rightarrow> Inl UndefinedBehaviour
              | Some i \<Rightarrow> Inr (upd_dist i (add_stats (ld_min ds) (ld_max ds) (ld_total ds) (ld_count ds)) l))) [0..<LATENCY_MAX_DIST] l1 = Inr l2"
      "same_rest l1 l2"
    and d2: "dists_are l2 (fold used tys ts) (\<lambda>t. if t \<in> set tys \<and> of_char t < LATENCY_MAX_DIST
      then add_stats (ld_min (E t)) (ld_max (E t)) (ld_total (E t)) (ld_count (E t)) (?D t) else ?D t)" by auto
  have "(\<lambda>t. if t \<in> set tys \<and> of_char t < LATENCY_MAX_DIST
      then add_stats (ld_min (E t)) (ld_max (E t)) (ld_total (E t)) (ld_count (E t)) (?D t) else ?D t) =
      (\<lambda>t. if t \<in> set tys then combine (E t) (D t) else D t)"
    using sd by (auto simp: combine_def dists_are_def fun_eq_iff)
  moreover have "Latency_Sum l s = Inr l2"
    unfolding Latency_Sum_def l1(1) bindE_simps by (rule l2(1) [unfolded add_stats_def [abs_def]])
  ultimately show ?thesis using d2 same_rest_trans [OF l1(2) l2(2)] by auto
qed

section \<open>Summing is recording both sequences\<close>

lemma bucket_of_63: "bucket_of v < 64"
proof (cases "2 \<le> unat v")
  case True
  have "(2 :: nat) ^ bucket_of v < 2 ^ 64"
    using bucket_of_log [OF True] unsigned_less [of v, where ?'a = nat] by simp
  then show ?thesis by (rule power_less_imp_less_exp [rotated]) simp
qed (simp add: bucket_of_small)

lemma buckets_count:
  "b < LATENCY_NUM_BUCKETS \<Longrightarrow> ld_buckets (fold add_val vs (fresh_dist t)) ! b = of_nat (count_list (map bucket_of vs) b)"
proof (induction vs rule: rev_induct)
  case Nil
  then show ?case by (simp add: fresh_dist_def)
next
  case (snoc v vs)
  have u: "ld_buckets (add_val v d) = (ld_buckets d)[bucket_of v := ld_buckets d ! bucket_of v + 1]" for d
    by (simp add: add_val_def add_stats_def add_hist_def)
  have n: "length (ld_buckets (fold add_val vs (fresh_dist t))) = LATENCY_NUM_BUCKETS"
    unfolding length_fold_add_val by (simp add: fresh_dist_def)
  have c: "count_list (map bucket_of (vs @ [v])) b = count_list (map bucket_of vs) b + (if bucket_of v = b then 1 else 0)"
    by simp
  show ?case unfolding c using snoc n by (cases "bucket_of v = b") (simp_all add: u)
qed

lemma values_of_types: "t \<in> set (types_of ys ts) \<longleftrightarrow> t \<in> set ts \<or> values_of ys t \<noteq> []"
  by (auto simp: types_of_def set_fold_used values_of_def filter_empty_conv)

lemma record_recorded:
  assumes y: "foldE (\<lambda>(t, v). LatencyAdd t v) ys (LatencyInit m) = Inr s" and n: "length ys < 2 ^ 32"
  shows "recorded s (types_of ys []) (\<lambda>t. fold add_val (values_of ys t) (fresh_dist t))"
proof -
  let ?E = "\<lambda>t. fold add_val (values_of ys t) (fresh_dist t)"
  have "dists_are s (types_of ys []) ?E" using record_dists [OF y dists_are_init] by simp
  moreover have "ld_buckets (?E t) ! 64 = 0" for t
  proof -
    have "bucket_of v \<noteq> 64" for v using bucket_of_63 [of v] by simp
    then have "count_list (map bucket_of (values_of ys t)) 64 = 0" by (auto simp: count_list_0_iff)
    then show ?thesis by (simp add: buckets_count LATENCY_NUM_BUCKETS_def)
  qed
  moreover have "\<exists>b < 64. ld_buckets (?E t) ! b \<noteq> 0" if t: "t \<in> set (types_of ys [])" for t
  proof -
    from t obtain v vs where v: "values_of ys t = v # vs" by (auto simp: values_of_types neq_Nil_conv)
    let ?k = "count_list (map bucket_of (values_of ys t)) (bucket_of v)"
    have "?k \<le> length (values_of ys t)" by (metis count_le_length length_map)
    also have "\<dots> \<le> length ys" by (simp add: values_of_def)
    finally have "?k < 2 ^ 32" using n by simp
    moreover have "?k \<noteq> 0" by (simp add: v)
    moreover from \<open>?k < 2 ^ 32\<close> have "unat (of_nat ?k :: u32) = ?k" by (simp add: unsigned_of_nat take_bit_nat_eq_self)
    ultimately have "(of_nat ?k :: u32) \<noteq> 0" by (metis unat_0)
    then show ?thesis using bucket_of_63 [of v] bucket_of_less [of v] buckets_count by (intro exI [of _ "bucket_of v"]) simp
  qed
  ultimately show ?thesis by (simp add: recorded_def)
qed

text \<open>At most five types below 127 are recorded without a fault.\<close>

lemma record_returns:
  assumes "dists_are l ts D" and "list_all (\<lambda>p. of_char (fst p) < LATENCY_MAX_DIST) xs" and "length (types_of xs ts) \<le> LATENCY_DIST_POOL_SIZE"
  shows "\<exists>l'. foldE (\<lambda>(t, v). LatencyAdd t v) xs l = Inr l'"
  using assms
proof (induction xs arbitrary: l ts D)
  case (Cons p xs)
  obtain t v where p: "p = (t, v)" by fastforce
  have "length (used t ts) \<le> length (types_of xs (used t ts))" unfolding types_of_def by (rule used_longer)
  with Cons.prems have "of_char t < LATENCY_MAX_DIST" "length (used t ts) \<le> LATENCY_DIST_POOL_SIZE" by (simp_all add: types_of_def p)
  from LatencyAdd_dists [OF Cons.prems(1) this, of v] obtain l1 where
    "LatencyAdd t v l = Inr l1" "dists_are l1 (used t ts) (D(t := add_val v (D t)))" by blast
  with Cons.IH [of l1 "used t ts"] Cons.prems show ?case by (simp add: types_of_def p)
qed simp

text \<open>
  Adding one measurement of latencies to another gives exactly the measurement in which
  the samples of both were recorded, the first one's before the second's: the same types in the
  same places, histograms, minima, maxima, totals and counts.
\<close>

theorem Latency_Sum_records_both:
  assumes x: "foldE (\<lambda>(t, v). LatencyAdd t v) xs (LatencyInit n) = Inr l"
    and y: "foldE (\<lambda>(t, v). LatencyAdd t v) ys (LatencyInit m) = Inr s"
    and r: "foldE (\<lambda>(t, v). LatencyAdd t v) (xs @ ys) (LatencyInit n) = Inr r"
    and k: "length ys < 2 ^ 32"
  shows "Latency_Sum l s = Inr r"
proof -
  let ?D = "\<lambda>t. fold add_val (values_of xs t) (fresh_dist t)"
  let ?E = "\<lambda>t. fold add_val (values_of ys t) (fresh_dist t)"
  have d: "dists_are l (types_of xs []) ?D" using record_dists [OF x dists_are_init] by simp
  have "foldE (\<lambda>(t, v). LatencyAdd t v) ys l = Inr r" using r x by (simp add: foldE_append)
  from record_dists [OF this d]
  have dr: "dists_are r (types_of ys (types_of xs [])) (\<lambda>t. fold add_val (values_of ys t) (?D t))" "same_rest l r" by auto
  have ty: "fold used (types_of ys []) (types_of xs []) = types_of ys (types_of xs [])"
    unfolding types_of_def by (rule fold_used_used)
  have room: "length (fold used (types_of ys []) (types_of xs [])) \<le> LATENCY_DIST_POOL_SIZE"
    using dr by (simp add: ty dists_are_def)
  have "(\<lambda>t. if t \<in> set (types_of ys []) then combine (?E t) (?D t) else ?D t) = (\<lambda>t. fold add_val (values_of ys t) (?D t))"
    using dists_are_shape [OF d] by (auto simp: values_of_types combine_fold fun_eq_iff)
  with Latency_Sum_dists [OF record_recorded [OF y k] d room] obtain l' where
    "Latency_Sum l s = Inr l'" "same_rest l l'" "dists_are l' (types_of ys (types_of xs [])) (\<lambda>t. fold add_val (values_of ys t) (?D t))"
    by (auto simp: ty)
  moreover from this dr have "l' = r"
    by (intro dists_are_unique [of l' _ _ r]) (simp_all add: same_rest_def)
  ultimately show ?thesis by simp
qed

lemma Latency_Sum_records_both_witness:
  "\<exists>l s r. foldE (\<lambda>(t, v). LatencyAdd t v) [(CHR ''r'', 3), (CHR ''w'', 700)] (LatencyInit ''all'') = Inr l \<and>
     foldE (\<lambda>(t, v). LatencyAdd t v) [(CHR ''a'', 90), (CHR ''r'', 0)] (LatencyInit ''one'') = Inr s \<and>
     foldE (\<lambda>(t, v). LatencyAdd t v) ([(CHR ''r'', 3), (CHR ''w'', 700)] @ [(CHR ''a'', 90), (CHR ''r'', 0)]) (LatencyInit ''all'') = Inr r \<and>
     Latency_Sum l s = Inr r"
proof -
  note rr = record_returns [OF dists_are_init]
  obtain l where l: "foldE (\<lambda>(t, v). LatencyAdd t v) [(CHR ''r'', 3), (CHR ''w'', 700)] (LatencyInit ''all'') = Inr l"
    using rr [of "[(CHR ''r'', 3), (CHR ''w'', 700)]" "''all''"] by (auto simp: LATENCY_MAX_DIST_def LATENCY_DIST_POOL_SIZE_def types_of_def used_def)
  obtain s where s: "foldE (\<lambda>(t, v). LatencyAdd t v) [(CHR ''a'', 90), (CHR ''r'', 0)] (LatencyInit ''one'') = Inr s"
    using rr [of "[(CHR ''a'', 90), (CHR ''r'', 0)]" "''one''"] by (auto simp: LATENCY_MAX_DIST_def LATENCY_DIST_POOL_SIZE_def types_of_def used_def)
  obtain r where r: "foldE (\<lambda>(t, v). LatencyAdd t v) ([(CHR ''r'', 3), (CHR ''w'', 700)] @ [(CHR ''a'', 90), (CHR ''r'', 0)]) (LatencyInit ''all'') = Inr r"
    using rr [of "[(CHR ''r'', 3), (CHR ''w'', 700)] @ [(CHR ''a'', 90), (CHR ''r'', 0)]" "''all''"]
    by (auto simp: LATENCY_MAX_DIST_def LATENCY_DIST_POOL_SIZE_def types_of_def used_def)
  have "Latency_Sum l s = Inr r" by (rule Latency_Sum_records_both [OF l s r]) simp
  with l s r show ?thesis by blast
qed

end
