(* ===== verification/LibFiles.thy ===== *)
theory LibFiles
  imports Bytes
begin

text \<open>
  \<open>src/lib/io_utils.cc\<close> (strings written to and read from a stream, each behind its length) and
  \<open>src/lib/persistent_register.{h,cc}\<close> (a string kept in a file). A stream is the bytes that are
  left and its two flags; a file is its content, or \<open>None\<close> when it does not exist. Whether a call of
  the system succeeds is an argument.
\<close>

section \<open>Streams\<close>

record istream =
  is_rest :: string
  is_eof :: bool
  is_fail :: bool

definition istream_of :: "string \<Rightarrow> istream" where
  "istream_of s = \<lparr>is_rest = s, is_eof = False, is_fail = False\<rparr>"

text \<open>\<open>istream::read\<close>: on a stream that is not good, nothing; otherwise at most what is left.\<close>

definition istream_read :: "nat \<Rightarrow> istream \<Rightarrow> string \<times> istream" where
  "istream_read n s =
     (if is_eof s \<or> is_fail s then ('''', s\<lparr>is_fail := True\<rparr>)
      else if n \<le> length (is_rest s) then (take n (is_rest s), s\<lparr>is_rest := drop n (is_rest s)\<rparr>)
      else (is_rest s, s\<lparr>is_rest := '''', is_eof := True, is_fail := True\<rparr>))"

text \<open>
  The loop over the chunks. \<open>buf\<close> is the buffer of 1024 bytes, which starts uninitialised and
  keeps what the chunk before left where a read stops short.
\<close>

function read_chunks :: "string \<Rightarrow> u32 \<Rightarrow> istream \<Rightarrow> string \<Rightarrow> string \<times> istream" where
  "read_chunks buf bytes s v =
     (if is_eof s \<or> bytes = 0 then (v, s)
      else let amount = min bytes 1024; (got, s1) = istream_read (unat amount) s;
               buf1 = got @ drop (length got) buf
           in read_chunks buf1 (bytes - amount) s1 (v @ take (unat amount) buf1))"
  by auto

lemma chunk_less: "bytes \<noteq> 0 \<Longrightarrow> unat (bytes - min bytes 1024) < unat bytes" for bytes :: u32
proof -
  assume b: "bytes \<noteq> 0"
  have "unat (bytes - min bytes 1024) = unat bytes - unat (min bytes 1024)" by (rule unat_sub) simp
  moreover have "unat (min bytes 1024) \<noteq> 0" using b by (auto simp: min_def unat_eq_zero)
  moreover have "unat bytes \<noteq> 0" using b by (simp add: unat_eq_zero)
  ultimately show ?thesis by linarith
qed

termination read_chunks
  by (relation "measure (\<lambda>(_, bytes, _). unat bytes)") (simp_all add: chunk_less)

declare read_chunks.simps [simp del]

definition ReadBytesFromStream :: "string \<Rightarrow> istream \<Rightarrow> string \<Rightarrow> int \<times> string \<times> istream" where
  "ReadBytesFromStream buf s v =
     (let (b, s1) = istream_read 4 s;
          (v1, s2) = (if is_fail s1 then (v, s1) else read_chunks buf (of_nat (get_le b)) s1 v)
      in (if is_fail s2 then - 1 else 0, v1, s2))"

definition WriteBytesToStream :: "string \<Rightarrow> string \<Rightarrow> nat \<times> string" where
  "WriteBytesToStream os v = (4 + length v, os @ put_u32 (of_nat (length v)) @ v)"

section \<open>The register\<close>

text \<open>What the calls of the system in \<open>Read\<close> answer; \<open>fread\<close> may fall short.\<close>

record read_io =
  ri_open :: bool
  ri_seek_end :: bool
  ri_tell :: bool
  ri_seek_set :: bool
  ri_read :: bool
  ri_close :: bool

definition PR_Initialized :: "string option \<Rightarrow> bool" where
  "PR_Initialized file = (file \<noteq> None)"

text \<open>Reading one item of no bytes gives no item, so an empty file cannot be read.\<close>

definition PR_Read :: "read_io \<Rightarrow> string option \<Rightarrow> string outcome" where
  "PR_Read io file =
     (case file of
        None \<Rightarrow> Inr ''''
      | Some content \<Rightarrow>
          if \<not> ri_open io then Inl Panicked
          else if \<not> ri_seek_end io then Inl Panicked
          else if \<not> ri_tell io then Inl Panicked
          else if \<not> ri_seek_set io then Inl Panicked
          else let num_read = (if content = '''' then 0 else if ri_read io then 1 else (0 :: nat)) in
            if num_read \<noteq> 1 then Inl Panicked
            else if \<not> ri_close io then Inl Panicked
            else Inr content)"

text \<open>
  The file is emptied when it is opened, and holds what was written whether or not the process
  goes on; \<open>wi_written\<close> is the answer of \<open>fwrite\<close>.
\<close>

record write_io =
  wi_open :: bool
  wi_written :: nat
  wi_fileno :: bool
  wi_fsync :: bool
  wi_close :: bool

definition PR_Write :: "write_io \<Rightarrow> string \<Rightarrow> string option \<Rightarrow> unit outcome \<times> string option" where
  "PR_Write io s file =
     (if \<not> wi_open io then (Inl Panicked, file)
      else if wi_written io < length s then (Inl Panicked, Some (take (wi_written io) s))
      else if \<not> wi_fileno io then (Inl Panicked, Some s)
      else if \<not> wi_fsync io then (Inl Panicked, Some s)
      else if \<not> wi_close io then (Inl Panicked, Some s)
      else (Inr (), Some s))"

section \<open>Reading what was written\<close>

lemma read_chunks_enough:
  assumes "\<not> is_eof s" and "\<not> is_fail s" and "unat bytes \<le> length (is_rest s)" and "length buf = 1024"
  shows "read_chunks buf bytes s v = (v @ take (unat bytes) (is_rest s), s\<lparr>is_rest := drop (unat bytes) (is_rest s)\<rparr>)"
  using assms
proof (induction buf bytes s v rule: read_chunks.induct)
  case (1 buf bytes s v)
  show ?case
  proof (cases "bytes = 0")
    case True
    then show ?thesis by (simp add: read_chunks.simps [of buf])
  next
    case False
    define a where "a = unat (min bytes 1024)"
    have a: "a \<le> unat bytes" "a \<le> 1024" by (auto simp: a_def min_def word_le_nat_alt)
    have rest: "unat (bytes - min bytes 1024) = unat bytes - a" unfolding a_def by (rule unat_sub) simp
    let ?got = "take a (is_rest s)"
    let ?s1 = "s\<lparr>is_rest := drop a (is_rest s)\<rparr>"
    let ?buf = "?got @ drop (length ?got) buf"
    have got: "(?got, ?s1) = istream_read (unat (min bytes 1024)) s"
      using 1(2-4) a by (simp add: istream_read_def a_def [symmetric])
    have buf: "length ?buf = 1024" "take a ?buf = ?got" using 1(4,5) a by simp_all
    have c: "\<not> (is_eof s \<or> bytes = 0)" using 1(2) False by simp
    have step: "read_chunks buf bytes s v = read_chunks ?buf (bytes - min bytes 1024) ?s1 (v @ ?got)"
      using c buf(2) by (subst read_chunks.simps) (simp only: if_False Let_def a_def [symmetric] got [folded a_def, symmetric] prod.case)
    have "unat (bytes - min bytes 1024) \<le> length (is_rest ?s1)" using 1(4) by (simp add: rest)
    from 1(1) [OF c refl refl got refl _ _ this buf(1)] 1(2,3)
    have "read_chunks ?buf (bytes - min bytes 1024) ?s1 (v @ ?got) =
        (v @ ?got @ take (unat bytes - a) (drop a (is_rest s)), s\<lparr>is_rest := drop (unat bytes - a) (drop a (is_rest s))\<rparr>)"
      using buf(2) 1(4) a by (simp add: rest min_absorb2 flip: a_def)
    moreover note step
    moreover have "?got @ take (unat bytes - a) (drop a (is_rest s)) = take (unat bytes) (is_rest s)"
      using a by (metis le_add_diff_inverse take_add)
    moreover have "drop (unat bytes - a) (drop a (is_rest s)) = drop (unat bytes) (is_rest s)" using a by simp
    ultimately show ?thesis by simp
  qed
qed

text \<open>What stands in a stream behind its length is read back, with nothing else of the stream.\<close>

lemma ReadBytes_WriteBytes:
  assumes "length v < 2 ^ 32" and "length buf = 1024"
  shows "ReadBytesFromStream buf (istream_of (snd (WriteBytesToStream '''' v) @ rest)) w = (0, w @ v, istream_of rest)"
proof -
  let ?n = "of_nat (length v) :: u32"
  have n: "unat ?n = length v" using assms(1) by (simp add: unsigned_of_nat take_bit_nat_eq_self)
  have r: "istream_read 4 (istream_of (put_u32 ?n @ v @ rest)) = (put_u32 ?n, istream_of (v @ rest))"
    by (simp add: istream_read_def istream_of_def)
  have "read_chunks buf ?n (istream_of (v @ rest)) w = (w @ v, istream_of rest)"
    using read_chunks_enough [of "istream_of (v @ rest)" ?n buf w] assms(2) n by (simp add: istream_of_def)
  moreover have "\<not> is_fail (istream_of x)" for x by (simp add: istream_of_def)
  ultimately show ?thesis
    by (simp add: ReadBytesFromStream_def WriteBytesToStream_def r get_put_u32)
qed

text \<open>A sequence of strings, each written behind the one before, is read back by as many calls.\<close>

definition write_strings :: "string list \<Rightarrow> string" where
  "write_strings vs = fold (\<lambda>v os. snd (WriteBytesToStream os v)) vs ''''"

fun read_strings :: "string list \<Rightarrow> istream \<Rightarrow> (int \<times> string) list \<times> istream" where
  "read_strings [] s = ([], s)"
| "read_strings (buf # bufs) s =
     (let (r, v, s1) = ReadBytesFromStream buf s ''''; (rs, s2) = read_strings bufs s1 in ((r, v) # rs, s2))"

lemma fold_write: "fold (\<lambda>v os. snd (WriteBytesToStream os v)) vs os = os @ concat (map (\<lambda>v. snd (WriteBytesToStream '''' v)) vs)"
  by (induction vs arbitrary: os) (simp_all add: WriteBytesToStream_def)

text \<open>
  Strings of less than \<open>2 ^ 32\<close> bytes written to a stream one behind the other are read back
  by as many calls, each answering 0 and its string, whatever is in the buffers of the reads;
  the stream is left behind the last of them.
\<close>

theorem stream_roundtrip:
  assumes "list_all (\<lambda>v. length v < 2 ^ 32) vs" and "length bufs = length vs" and "list_all (\<lambda>b. length b = 1024) bufs"
  shows "read_strings bufs (istream_of (write_strings vs @ rest)) = (map (\<lambda>v. (0, v)) vs, istream_of rest)"
proof -
  have "read_strings bufs (istream_of (concat (map (\<lambda>v. snd (WriteBytesToStream '''' v)) vs) @ rest)) = (map (\<lambda>v. (0, v)) vs, istream_of rest)"
    using assms
  proof (induction bufs arbitrary: vs)
    case (Cons b bufs)
    then obtain u us where "vs = u # us" by (cases vs) auto
    with Cons ReadBytes_WriteBytes [of u b _ "''''"] show ?case by simp
  qed simp
  then show ?thesis by (simp add: write_strings_def fold_write)
qed

lemma stream_roundtrip_witness:
  "read_strings [replicate 1024 (CHR ''?''), replicate 1024 (CHR ''!'')] (istream_of (write_strings [''key'', ''''] @ ''x'')) =
     ([(0, ''key''), (0, '''')], istream_of ''x'')"
  using stream_roundtrip [of "[''key'', '''']" "[replicate 1024 (CHR ''?''), replicate 1024 (CHR ''!'')]" "''x''"] by simp

text \<open>A stream that ends too early is answered with \<open>- 1\<close>, and bytes of the buffer follow what was there.\<close>

lemma read_chunks_short:
  assumes "\<not> is_eof s" and "\<not> is_fail s" and "length (is_rest s) < unat bytes"
  shows "is_fail (snd (read_chunks buf bytes s v))"
  using assms
proof (induction buf bytes s v rule: read_chunks.induct)
  case (1 buf bytes s v)
  define a where "a = unat (min bytes 1024)"
  have c: "\<not> (is_eof s \<or> bytes = 0)" using 1(2,4) by auto
  have a: "a \<le> unat bytes" by (auto simp: a_def min_def word_le_nat_alt)
  have rest: "unat (bytes - min bytes 1024) = unat bytes - a" unfolding a_def by (rule unat_sub) simp
  obtain got s1 where got: "(got, s1) = istream_read (unat (min bytes 1024)) s" by (metis surj_pair)
  let ?buf = "got @ drop (length got) buf"
  have step: "read_chunks buf bytes s v = read_chunks ?buf (bytes - min bytes 1024) s1 (v @ take a ?buf)"
    using c by (subst read_chunks.simps) (simp only: if_False Let_def a_def [symmetric] got [folded a_def, symmetric] prod.case)
  show ?case
  proof (cases "a \<le> length (is_rest s)")
    case True
    then have "s1 = s\<lparr>is_rest := drop a (is_rest s)\<rparr>"
      using got 1(2,3) by (simp add: istream_read_def a_def [symmetric])
    have "is_fail (snd (read_chunks ?buf (bytes - min bytes 1024) s1 (v @ take (unat (min bytes 1024)) ?buf)))"
    proof (rule 1(1) [OF c refl refl got refl])
      show "\<not> is_eof s1" "\<not> is_fail s1" using 1(2,3) \<open>s1 = _\<close> by simp_all
      show "length (is_rest s1) < unat (bytes - min bytes 1024)" unfolding rest using 1(4) True \<open>s1 = _\<close> by simp
    qed
    then show ?thesis by (simp only: step a_def)
  next
    case False
    then have "is_eof s1 \<and> is_fail s1" using got 1(2,3) by (simp add: istream_read_def a_def [symmetric])
    then show ?thesis by (simp add: step read_chunks.simps [of ?buf])
  qed
qed

text \<open>Every proper beginning of what was written is refused.\<close>

lemma ReadBytes_truncated:
  assumes v: "length v < 2 ^ 32" and k: "k < length (snd (WriteBytesToStream '''' v))"
  shows "fst (ReadBytesFromStream buf (istream_of (take k (snd (WriteBytesToStream '''' v)))) w) = - 1"
proof -
  let ?n = "of_nat (length v) :: u32"
  have n: "unat ?n = length v" using v by (simp add: unsigned_of_nat take_bit_nat_eq_self)
  show ?thesis
  proof (cases "k < 4")
    case True
    then show ?thesis
      by (simp add: ReadBytesFromStream_def WriteBytesToStream_def istream_read_def istream_of_def)
  next
    case False
    then have t: "take k (put_u32 ?n @ v) = put_u32 ?n @ take (k - 4) v" by simp
    have r: "istream_read 4 (istream_of (put_u32 ?n @ take (k - 4) v)) = (put_u32 ?n, istream_of (take (k - 4) v))"
      by (simp add: istream_read_def istream_of_def)
    have "length (take (k - 4) v) < unat ?n" using k False n by (simp add: WriteBytesToStream_def)
    then have "is_fail (snd (read_chunks buf ?n (istream_of (take (k - 4) v)) w))"
      by (intro read_chunks_short) (simp_all add: istream_of_def)
    moreover have "\<not> is_fail (istream_of x)" for x by (simp add: istream_of_def)
    ultimately show ?thesis
      unfolding ReadBytesFromStream_def WriteBytesToStream_def snd_conv append_Nil t r
      by (auto simp: get_put_u32 split: prod.split)
  qed
qed

text \<open>Then the result ends in bytes of the uninitialised buffer: 5 bytes are announced, 2 are there.\<close>

lemma ReadBytes_appends_garbage:
  "fst (snd (ReadBytesFromStream (replicate 1024 (CHR ''?'')) (istream_of (put_u32 5 @ ''ab'')) '''')) = ''ab???''"
proof -
  have r: "istream_read 4 (istream_of (put_u32 5 @ ''ab'')) = (put_u32 5, istream_of ''ab'')"
    by (simp add: istream_read_def istream_of_def)
  have m: "min 5 1024 = (5 :: u32)" by (simp add: min_def)
  have "read_chunks (replicate 1024 (CHR ''?'')) 5 (istream_of ''ab'') '''' =
      read_chunks (''ab'' @ drop 2 (replicate 1024 (CHR ''?''))) 0 \<lparr>is_rest = '''', is_eof = True, is_fail = True\<rparr> (''ab'' @ take 3 (drop 2 (replicate 1024 (CHR ''?''))))"
    by (subst read_chunks.simps) (simp add: istream_of_def istream_read_def m Let_def)
  also have "\<dots> = (''ab???'', \<lparr>is_rest = '''', is_eof = True, is_fail = True\<rparr>)"
    by (subst read_chunks.simps) (simp add: numeral_eq_Suc)
  finally have "read_chunks (replicate 1024 (CHR ''?'')) 5 (istream_of ''ab'') '''' = (''ab???'', \<lparr>is_rest = '''', is_eof = True, is_fail = True\<rparr>)" .
  moreover have "\<not> is_fail (istream_of x)" for x by (simp add: istream_of_def)
  ultimately show ?thesis by (simp add: ReadBytesFromStream_def r get_put_u32)
qed

section \<open>The register keeps what was written\<close>

definition read_ok :: read_io where
  "read_ok = \<lparr>ri_open = True, ri_seek_end = True, ri_tell = True, ri_seek_set = True, ri_read = True, ri_close = True\<rparr>"

lemma PR_Read_Write: "PR_Write io s file = (Inr (), file') \<Longrightarrow> s \<noteq> '''' \<Longrightarrow> PR_Read read_ok file' = Inr s"
  by (auto simp: PR_Write_def PR_Read_def read_ok_def split: if_splits)

text \<open>
  A write that stops before its first byte has already emptied the file: from then on every
  read panics, and the value before is lost. So does the empty string, which can be written.
\<close>

lemma PR_failed_write_blocks_read:
  "wi_open io \<Longrightarrow> wi_written io = 0 \<Longrightarrow> PR_Read rio (snd (PR_Write io s (Some old))) = Inl Panicked"
  by (auto simp: PR_Write_def PR_Read_def)

lemma PR_empty_string_unreadable: "PR_Write io '''' file = (Inr (), file') \<Longrightarrow> PR_Read rio file' = Inl Panicked"
  by (auto simp: PR_Write_def PR_Read_def split: if_splits)

end
