(* ===== verification/Configuration.thy ===== *)
theory Configuration
  imports Prelude
begin

text \<open>
  \<open>src/lib/configuration.{h,cc}\<close>: the addresses of the replicas of every group and
  the number of failures tolerated, read from a text file. A line is split by the C
  functions \<open>strtok\<close>, \<open>strcasecmp\<close> and \<open>strtoul\<close>, which are modelled on strings; a
  \<open>Panic\<close> ends the reading, and comparing a command that \<open>strtok\<close> did not find is
  \<open>UndefinedBehaviour\<close>.
\<close>

section \<open>The C library functions used\<close>

definition nul :: char where
  "nul = CHR 0x00"

definition c_string :: "string \<Rightarrow> string" where
  "c_string = takeWhile (\<lambda>c. c \<noteq> nul)"

text \<open>The token found, and the text that the next call with \<open>NULL\<close> goes on with.\<close>

definition strtok :: "string \<Rightarrow> string \<Rightarrow> (string \<times> string) option" where
  "strtok delims s =
     (let s' = dropWhile (\<lambda>c. c \<in> set delims) s in
      if s' = [] then None
      else Some (takeWhile (\<lambda>c. c \<notin> set delims) s', drop 1 (dropWhile (\<lambda>c. c \<notin> set delims) s')))"

definition to_lower :: "char \<Rightarrow> char" where
  "to_lower c = (let n = of_char c :: nat in if 65 \<le> n \<and> n \<le> 90 then char_of (n + 32) else c)"

definition strcaseeq :: "string \<Rightarrow> string \<Rightarrow> bool" where
  "strcaseeq a b \<longleftrightarrow> map to_lower a = map to_lower b"

definition digit_value :: "char \<Rightarrow> nat option" where
  "digit_value c =
     (let n = of_char c :: nat in
      if 48 \<le> n \<and> n \<le> 57 then Some (n - 48)
      else if 97 \<le> n \<and> n \<le> 122 then Some (n - 87)
      else if 65 \<le> n \<and> n \<le> 90 then Some (n - 55) else None)"

definition is_digit :: "nat \<Rightarrow> char \<Rightarrow> bool" where
  "is_digit base c = (case digit_value c of None \<Rightarrow> False | Some d \<Rightarrow> d < base)"

definition digits_value :: "nat \<Rightarrow> string \<Rightarrow> nat" where
  "digits_value base ds = fold (\<lambda>c v. v * base + (case digit_value c of None \<Rightarrow> 0 | Some d \<Rightarrow> d)) ds 0"

definition is_space :: "char \<Rightarrow> bool" where
  "is_space c = (let n = of_char c :: nat in n = 32 \<or> 9 \<le> n \<and> n \<le> 13)"

text \<open>\<open>strtoul(s, &end, 0)\<close>: the value, and the text at \<open>end\<close>.\<close>

definition strtoul0 :: "string \<Rightarrow> u64 \<times> string" where
  "strtoul0 s =
     (let s1 = dropWhile is_space s;
          neg = (s1 \<noteq> [] \<and> hd s1 = CHR ''-'');
          s2 = (if s1 \<noteq> [] \<and> (hd s1 = CHR ''-'' \<or> hd s1 = CHR ''+'') then tl s1 else s1);
          hex = (length s2 > 2 \<and> s2 ! 0 = CHR ''0'' \<and> (s2 ! 1 = CHR ''x'' \<or> s2 ! 1 = CHR ''X'') \<and> is_digit 16 (s2 ! 2));
          base = (if hex then 16 else if s2 \<noteq> [] \<and> hd s2 = CHR ''0'' then 8 else 10);
          s3 = (if hex then drop 2 s2 else s2);
          ds = takeWhile (is_digit base) s3;
          v = digits_value base ds
      in if ds = [] then (0, s)
         else (if v \<ge> 2 ^ 64 then - 1 else if neg then - of_nat v else of_nat v, dropWhile (is_digit base) s3))"

text \<open>The assignment of an \<open>unsigned long\<close> to an \<open>int\<close>.\<close>

definition to_int :: "u64 \<Rightarrow> int" where
  "to_int v = sint (ucast v :: 32 word)"

section \<open>Configuration\<close>

record replica_address =
  ra_host :: string
  ra_port :: string

record configuration =
  c_g :: nat
  c_n :: nat
  c_f :: int
  c_replicas :: "(int, replica_address list) umap"
  c_replicaHosts :: "(int, (nat, nat) umap) umap"
  c_hosts :: "(int, (string, nat) umap) umap"
  c_hostToGroups :: "(string, int uset) umap"
  c_multicast :: "replica_address option"
  c_fc :: "replica_address option"
  c_interfaces :: "(int, string list) umap"

text \<open>What the loop over the lines builds up: \<open>f\<close>, the current group, and the tables.\<close>

record config_parse =
  cp_f :: int
  cp_group :: int
  cp_replicas :: "(int, replica_address list) umap"
  cp_interfaces :: "(int, string list) umap"
  cp_multicast :: "replica_address option"
  cp_fc :: "replica_address option"

definition parse_init :: config_parse where
  "parse_init = \<lparr>cp_f = - 1, cp_group = - 1, cp_replicas = [], cp_interfaces = [], cp_multicast = None, cp_fc = None\<rparr>"

definition um_push :: "'k \<Rightarrow> 'v \<Rightarrow> ('k, 'v list) umap \<Rightarrow> ('k, 'v list) umap" where
  "um_push k v m = um_put k (fst (um_ref [] m k) @ [v]) m"

abbreviation blanks :: string where
  "blanks \<equiv> [CHR '' '', CHR 0x09]"

definition parse_f :: "string \<Rightarrow> config_parse \<Rightarrow> config_parse outcome" where
  "parse_f rest p =
     (case strtok blanks rest of
        None \<Rightarrow> Inl Panicked
      | Some (arg, _) \<Rightarrow>
          (let (v, end_at) = strtoul0 arg in
           if arg = [] \<or> end_at \<noteq> [] then Inl Panicked else Inr (p\<lparr>cp_f := to_int v\<rparr>)))"

definition parse_replica :: "string \<Rightarrow> config_parse \<Rightarrow> config_parse outcome" where
  "parse_replica rest p0 =
     (let p = (if cp_group p0 < 0 then p0\<lparr>cp_group := 0\<rparr> else p0) in
      case strtok blanks rest of
        None \<Rightarrow> Inl Panicked
      | Some (arg, _) \<Rightarrow>
          (case strtok '':'' arg of
             None \<Rightarrow> Inl Panicked
           | Some (host, r1) \<Rightarrow>
               (case strtok '':'' r1 of
                  None \<Rightarrow> Inl Panicked
                | Some (port, r2) \<Rightarrow>
                    Inr (p\<lparr>cp_replicas := um_push (cp_group p) \<lparr>ra_host = host, ra_port = port\<rparr> (cp_replicas p),
                      cp_interfaces := um_push (cp_group p) (case strtok [] r2 of None \<Rightarrow> [] | Some (i, _) \<Rightarrow> i) (cp_interfaces p)\<rparr>))))"

text \<open>The addresses of the \<open>multicast\<close> and the \<open>fc\<close> line: the port is the rest of the argument.\<close>

definition parse_address :: "string \<Rightarrow> replica_address outcome" where
  "parse_address rest =
     (case strtok blanks rest of
        None \<Rightarrow> Inl Panicked
      | Some (arg, _) \<Rightarrow>
          (case strtok '':'' arg of
             None \<Rightarrow> Inl Panicked
           | Some (host, r1) \<Rightarrow>
               (case strtok [] r1 of None \<Rightarrow> Inl Panicked | Some (port, _) \<Rightarrow> Inr \<lparr>ra_host = host, ra_port = port\<rparr>)))"

definition parse_line :: "string \<Rightarrow> config_parse \<Rightarrow> config_parse outcome" where
  "parse_line line p =
     (if line = [] \<or> hd line = CHR ''#'' then Inr p
      else case strtok blanks (c_string line) of
        None \<Rightarrow> Inl UndefinedBehaviour
      | Some (cmd, rest) \<Rightarrow>
          if strcaseeq cmd ''f'' then parse_f rest p
          else if strcaseeq cmd ''group'' then Inr (p\<lparr>cp_group := cp_group p + 1\<rparr>)
          else if strcaseeq cmd ''replica'' then parse_replica rest p
          else if strcaseeq cmd ''multicast'' then bindE (parse_address rest) (\<lambda>a. Inr (p\<lparr>cp_multicast := Some a\<rparr>))
          else if strcaseeq cmd ''fc'' then bindE (parse_address rest) (\<lambda>a. Inr (p\<lparr>cp_fc := Some a\<rparr>))
          else Inl Panicked)"

text \<open>\<open>getline\<close> until the end of the file: the lines between the newlines.\<close>

fun file_lines :: "string \<Rightarrow> string list" where
  "file_lines [] = [[]]"
| "file_lines (c # cs) =
     (if c = CHR 0x0A then [] # file_lines cs
      else case file_lines cs of [] \<Rightarrow> [[c]] | l # ls \<Rightarrow> (c # l) # ls)"

text \<open>
  Numbering the hosts of a group in the order in which they appear. A replica whose host
  has a number already gets none itself. In \<open>hosts[g][h] = hosts[g].size()\<close> the language
  (C++14) leaves open whether the entry is made before the size is taken: \<open>early\<close> says so.
\<close>

fun number_hosts :: "bool \<Rightarrow> nat \<Rightarrow> replica_address list \<Rightarrow> (string, nat) umap \<times> (nat, nat) umap \<Rightarrow> (string, nat) umap \<times> (nat, nat) umap" where
  "number_hosts early idx [] t = t"
| "number_hosts early idx (r # rs) (hs, rh) =
     number_hosts early (Suc idx) rs
       (if um_has hs (ra_host r) then (hs, rh)
        else let no = (if early then Suc (length hs) else length hs) in (um_put (ra_host r) no hs, um_put idx no rh))"

definition parse_finish :: "bool \<Rightarrow> config_parse \<Rightarrow> configuration outcome" where
  "parse_finish early p =
     (let reps = cp_replicas p; g = length reps; first = um_ref [] reps 0; n = length (fst first); reps' = snd first in
      if g = 0 then Inl Panicked
      else if list_ex (\<lambda>kv. length (snd kv) \<noteq> n) reps' then Inl Panicked
      else if n = 0 then Inl Panicked
      else if cp_f p = - 1 then Inl Panicked
      else Inr
        \<lparr>c_g = g, c_n = n, c_f = cp_f p, c_replicas = reps',
         c_replicaHosts = map (\<lambda>(k, rs). (k, snd (number_hosts early 0 rs ([], [])))) reps',
         c_hosts = map (\<lambda>(k, rs). (k, fst (number_hosts early 0 rs ([], [])))) reps',
         c_hostToGroups = [], c_multicast = cp_multicast p, c_fc = cp_fc p, c_interfaces = cp_interfaces p\<rparr>)"

definition Configuration_parse :: "bool \<Rightarrow> string \<Rightarrow> configuration outcome" where
  "Configuration_parse early file = bindE (foldE parse_line (file_lines file) parse_init) (parse_finish early)"

text \<open>
  The constructor from the fields. It is the only one that fills \<open>hostToGroups\<close>, and
  the copy constructor does not copy it.
\<close>

fun host_groups :: "int \<Rightarrow> replica_address list \<Rightarrow> string uset \<Rightarrow> (string, int uset) umap \<Rightarrow> (string, int uset) umap" where
  "host_groups k [] seen m = m"
| "host_groups k (r # rs) seen m =
     (if ra_host r \<in> set seen then host_groups k rs seen m
      else host_groups k rs (ra_host r # seen) (um_put (ra_host r) (us_add k (fst (um_ref [] m (ra_host r)))) m))"

definition Configuration_of ::
  "bool \<Rightarrow> nat \<Rightarrow> nat \<Rightarrow> int \<Rightarrow> (int, replica_address list) umap \<Rightarrow> replica_address option \<Rightarrow> replica_address option \<Rightarrow>
   (int, string list) umap \<Rightarrow> configuration" where
  "Configuration_of early g n f reps multicast fc interfaces =
     \<lparr>c_g = g, c_n = n, c_f = f, c_replicas = reps,
      c_replicaHosts = map (\<lambda>(k, rs). (k, snd (number_hosts early 0 rs ([], [])))) reps,
      c_hosts = map (\<lambda>(k, rs). (k, fst (number_hosts early 0 rs ([], [])))) reps,
      c_hostToGroups = fold (\<lambda>(k, rs). host_groups k rs []) reps [],
      c_multicast = multicast, c_fc = fc, c_interfaces = interfaces\<rparr>"

definition Configuration_copy :: "configuration \<Rightarrow> configuration" where
  "Configuration_copy c = c\<lparr>c_hostToGroups := []\<rparr>"

definition c_replica :: "configuration \<Rightarrow> int \<Rightarrow> nat \<Rightarrow> replica_address outcome" where
  "c_replica c grp idx =
     (case map_of (c_replicas c) grp of
        None \<Rightarrow> Inl Thrown
      | Some rs \<Rightarrow> if idx < length rs then Inr (rs ! idx) else Inl UndefinedBehaviour)"

definition c_Interface :: "configuration \<Rightarrow> int \<Rightarrow> nat \<Rightarrow> string outcome" where
  "c_Interface c grp idx =
     (case map_of (c_interfaces c) grp of
        None \<Rightarrow> Inl Thrown
      | Some is \<Rightarrow> if idx < length is then Inr (is ! idx) else Inl UndefinedBehaviour)"

definition c_FastQuorumSize :: "configuration \<Rightarrow> int" where
  "c_FastQuorumSize c =
     (let h = c_f c + 1 in c_f c + (if h < 0 then - ((- h) div 2) else h div 2) + 1)"

definition c_replicaHost :: "configuration \<Rightarrow> int \<Rightarrow> nat \<Rightarrow> int" where
  "c_replicaHost c grp idx =
     (case map_of (c_replicaHosts c) grp of
        None \<Rightarrow> - 1
      | Some m \<Rightarrow> (case map_of m idx of None \<Rightarrow> - 1 | Some h \<Rightarrow> int h))"

definition IsLowestGroupOnHost :: "configuration \<Rightarrow> int \<Rightarrow> nat \<Rightarrow> bool outcome" where
  "IsLowestGroupOnHost c grp idx =
     bindE (c_replica c grp idx) (\<lambda>r.
       case map_of (c_hostToGroups c) (ra_host r) of
         None \<Rightarrow> Inl AssertFailed
       | Some gs \<Rightarrow> Inr (Min (set gs) = grp))"

text \<open>\<open>operator==\<close>: the replicas are compared as maps; hosts and interfaces are not compared.\<close>

definition config_eq :: "configuration \<Rightarrow> configuration \<Rightarrow> bool" where
  "config_eq a b \<longleftrightarrow>
     c_n a = c_n b \<and> c_f a = c_f b \<and>
     list_all (\<lambda>k. map_of (c_replicas a) k = map_of (c_replicas b) k) (um_keys (c_replicas a) @ um_keys (c_replicas b)) \<and>
     c_multicast a = c_multicast b \<and> c_fc a = c_fc b"

section \<open>Printing\<close>

text \<open>A file with the given contents, and what can be written in it.\<close>

record replica_entry =
  re_host :: string
  re_port :: string
  re_interface :: string

fun dec :: "nat \<Rightarrow> string" where
  "dec n = (if n < 10 then [char_of (48 + n)] else dec (n div 10) @ [char_of (48 + n mod 10)])"

declare dec.simps [simp del]

definition replica_line :: "replica_entry \<Rightarrow> string" where
  "replica_line r = ''replica '' @ re_host r @ '':'' @ re_port r @ (if re_interface r = [] then [] else '':'' @ re_interface r)"

definition group_lines :: "replica_entry list \<Rightarrow> string list" where
  "group_lines rs = ''group'' # map replica_line rs"

definition config_lines :: "nat \<Rightarrow> replica_entry list list \<Rightarrow> string list" where
  "config_lines f gs = (''f '' @ dec f) # concat (map group_lines gs)"

definition config_file :: "nat \<Rightarrow> replica_entry list list \<Rightarrow> string" where
  "config_file f gs = concat (map (\<lambda>l. l @ [CHR 0x0A]) (config_lines f gs))"

definition token :: "string \<Rightarrow> bool" where
  "token t \<longleftrightarrow> list_all (\<lambda>c. c \<noteq> CHR '' '' \<and> c \<noteq> CHR 0x09 \<and> c \<noteq> CHR 0x0A \<and> c \<noteq> nul) t"

definition entry_ok :: "replica_entry \<Rightarrow> bool" where
  "entry_ok r \<longleftrightarrow> token (re_host r) \<and> token (re_port r) \<and> token (re_interface r) \<and>
     re_host r \<noteq> [] \<and> re_port r \<noteq> [] \<and> CHR '':'' \<notin> set (re_host r) \<and> CHR '':'' \<notin> set (re_port r)"

section \<open>The lines of a printed file\<close>

text \<open>A token followed by a delimiter, and a token at the end.\<close>

lemma strtok_token:
  assumes "t \<noteq> []" and "\<forall>c \<in> set t. c \<notin> set ds"
  shows "d \<in> set ds \<Longrightarrow> strtok ds (t @ d # rest) = Some (t, rest)" and "strtok ds t = Some (t, [])"
proof -
  obtain c t' where t: "t = c # t'" using assms(1) by (cases t) auto
  have skip: "dropWhile (\<lambda>c. c \<in> set ds) (t @ rest) = t @ rest" for rest
    using assms(2) by (simp add: t)
  have found: "takeWhile (\<lambda>c. c \<notin> set ds) t = t" "dropWhile (\<lambda>c. c \<notin> set ds) t = []"
    using assms(2) by simp_all
  show "strtok ds t = Some (t, [])"
    using assms(1) by (simp add: strtok_def Let_def skip [of "[]", simplified] found)
  assume "d \<in> set ds"
  then have "takeWhile (\<lambda>c. c \<notin> set ds) (t @ d # rest) = t" "dropWhile (\<lambda>c. c \<notin> set ds) (t @ d # rest) = d # rest"
    using assms(2) by (simp_all add: takeWhile_append2 dropWhile_append2)
  then show "strtok ds (t @ d # rest) = Some (t, rest)"
    by (simp add: strtok_def Let_def skip)
qed

lemma strtok_rest: "strtok [] t = (if t = [] then None else Some (t, []))"
  using strtok_token(2) [of t "[]"] by (simp add: strtok_def)

lemma c_string_token: "token t \<Longrightarrow> c_string (s @ t) = (if nul \<in> set s then c_string s else s @ t)"
  by (induction s) (auto simp: c_string_def token_def list_all_iff)

lemma token_append [simp]: "token (s @ t) \<longleftrightarrow> token s \<and> token t"
  by (simp add: token_def)

text \<open>Numbers.\<close>

lemma digit_value_char: "d < 10 \<Longrightarrow> digit_value (char_of (48 + d)) = Some d"
  by (simp add: digit_value_def)

lemma dec_digits: "list_all (\<lambda>c. \<exists>d::nat. d < 10 \<and> c = char_of (48 + d)) (dec n)"
proof (induction n rule: dec.induct)
  case (1 n)
  then show ?case by (subst dec.simps) (auto intro: exI [of _ "n mod 10"])
qed

lemma digits_value_dec: "digits_value 10 (dec n) = n"
proof (induction n rule: dec.induct)
  case (1 n)
  show ?case
  proof (cases "n < 10")
    case True
    then show ?thesis by (subst dec.simps) (simp add: digits_value_def digit_value_char)
  next
    case False
    with 1 have "digits_value 10 (dec (n div 10)) = n div 10" by simp
    with False show ?thesis by (subst dec.simps) (simp add: digits_value_def digit_value_char)
  qed
qed

lemma dec_nonempty [simp]: "dec n \<noteq> []"
  by (subst dec.simps) simp

lemma hd_dec: "0 < n \<Longrightarrow> \<exists>d::nat. 0 < d \<and> d < 10 \<and> hd (dec n) = char_of (48 + d)"
proof (induction n rule: dec.induct)
  case (1 n)
  show ?case
  proof (cases "n < 10")
    case True
    with 1(2) show ?thesis by (subst dec.simps) auto
  next
    case False
    then have "0 < n div 10" by auto
    from 1(1) [OF False this] False show ?thesis by (subst dec.simps) (simp add: hd_append)
  qed
qed

lemma char_of_iff: "n < 256 \<Longrightarrow> char_of n = c \<longleftrightarrow> n = of_char c" for n :: nat
  by (simp add: char_of_eq_iff take_bit_nat_eq_self)

lemma digit_chars:
  assumes "d < (10::nat)"
  shows "\<not> is_space (char_of (48 + d))" and "is_digit 10 (char_of (48 + d))"
    and "char_of (48 + d) \<notin> {CHR ''-'', CHR ''+'', CHR '' '', CHR 0x09, CHR 0x0A, nul}"
    and "0 < d \<Longrightarrow> char_of (48 + d) \<noteq> CHR ''0''"
  using assms by (simp_all add: is_space_def is_digit_def digit_value_char nul_def char_of_iff)

lemma token_dec: "token (dec n)"
  unfolding token_def list_all_iff
proof
  fix c assume "c \<in> set (dec n)"
  then obtain d :: nat where "d < 10" "c = char_of (48 + d)" using dec_digits [of n] by (auto simp: list_all_iff)
  then show "c \<noteq> CHR '' '' \<and> c \<noteq> CHR 0x09 \<and> c \<noteq> CHR 0x0A \<and> c \<noteq> nul" using digit_chars(3) [of d] by simp
qed

lemma digits_dec: "list_all (is_digit 10) (dec n)"
  using dec_digits [of n] by (rule list.pred_mono_strong) (auto simp: digit_chars(2))

lemma strtoul0_dec:
  assumes "n < 2 ^ 64"
  shows "strtoul0 (dec n) = (of_nat n, [])"
proof (cases "n = 0")
  case True
  have "dec 0 = ''0''" by (subst dec.simps) (simp add: char_of_iff)
  with True show ?thesis by (simp add: strtoul0_def is_space_def is_digit_def digit_value_def digits_value_def)
next
  case False
  then obtain d :: nat where d: "0 < d" "d < 10" "hd (dec n) = char_of (48 + d)" using hd_dec [of n] by auto
  define c cs where "c = hd (dec n)" and "cs = tl (dec n)"
  then have dec: "dec n = c # cs" by simp
  have c: "\<not> is_space c" "c \<noteq> CHR ''-''" "c \<noteq> CHR ''+''" "c \<noteq> CHR ''0''"
    using digit_chars [OF d(2)] d(1,3) by (simp_all add: c_def)
  have all: "is_digit 10 c" "\<forall>x \<in> set cs. is_digit 10 x" using digits_dec [of n] by (simp_all add: dec list_all_iff)
  then have tw: "takeWhile (is_digit 10) (c # cs) = c # cs" "dropWhile (is_digit 10) (c # cs) = []" by simp_all
  have dv: "digits_value 10 (c # cs) = n" using digits_value_dec [of n] by (simp add: dec)
  have sp: "dropWhile is_space (c # cs) = c # cs" using c(1) by simp
  have small: "(2 ^ 64 \<le> n) = False" using assms by simp
  have parts: "(c # cs) ! 0 = c" "hd (c # cs) = c" by simp_all
  show ?thesis
    unfolding dec strtoul0_def Let_def sp
    by (simp only: parts c(2-4) simp_thms if_False if_True list.distinct tw dv small)
qed

lemma to_int_of_nat: "n < 2 ^ 31 \<Longrightarrow> to_int (of_nat n) = int n"
  unfolding to_int_def by (simp add: unsigned_of_nat sint_uint take_bit_nat_eq_self, subst signed_take_bit_int_eq_self) simp_all

section \<open>Reading a printed file back\<close>

lemma file_lines_append: "CHR 0x0A \<notin> set l \<Longrightarrow> file_lines (l @ CHR 0x0A # rest) = l # file_lines rest"
  by (induction l) auto

lemma file_lines_concat:
  "list_all (\<lambda>l. CHR 0x0A \<notin> set l) ls \<Longrightarrow> file_lines (concat (map (\<lambda>l. l @ [CHR 0x0A]) ls)) = ls @ [[]]"
  by (induction ls) (auto simp: file_lines_append)

lemma token_line: "token t \<Longrightarrow> CHR 0x0A \<notin> set t \<and> nul \<notin> set t \<and> (\<forall>c \<in> set t. c \<notin> set blanks)"
  by (auto simp: token_def list_all_iff)

lemma c_string_id: "nul \<notin> set s \<Longrightarrow> c_string s = s"
  by (auto simp: c_string_def takeWhile_eq_all_conv)

lemma parse_command:
  assumes "cmd \<in> {''f'', ''group'', ''replica'', ''multicast'', ''fc''}" and "nul \<notin> set rest"
  shows "strtok blanks (c_string (cmd @ CHR '' '' # rest)) = Some (cmd, rest)"
    and "strtok blanks (c_string cmd) = Some (cmd, [])"
proof -
  have clean: "cmd \<noteq> []" "\<forall>c \<in> set cmd. c \<notin> set blanks" "nul \<notin> set cmd" using assms(1) by (auto simp: nul_def)
  moreover have "nul \<notin> set (cmd @ CHR '' '' # rest)" using clean(3) assms(2) by (simp add: nul_def)
  ultimately show "strtok blanks (c_string (cmd @ CHR '' '' # rest)) = Some (cmd, rest)"
    and "strtok blanks (c_string cmd) = Some (cmd, [])"
    by (simp_all add: c_string_id strtok_token del: set_append)
qed

lemma commands_differ:
  "strcaseeq ''f'' ''f''" "\<not> strcaseeq ''group'' ''f''" "strcaseeq ''group'' ''group''"
  "\<not> strcaseeq ''replica'' ''f''" "\<not> strcaseeq ''replica'' ''group''" "strcaseeq ''replica'' ''replica''"
  by code_simp+

lemma parse_f_line:
  assumes "n < 2 ^ 31"
  shows "parse_line (''f '' @ dec n) p = Inr (p\<lparr>cp_f := int n\<rparr>)"
proof -
  have "nul \<notin> set (dec n)" "\<forall>c \<in> set (dec n). c \<notin> set blanks" using token_line [OF token_dec] by blast+
  moreover have "strtoul0 (dec n) = (of_nat n, [])" using assms by (intro strtoul0_dec) simp
  ultimately show ?thesis
    using parse_command(1) [of "''f''" "dec n"] to_int_of_nat [OF assms] strtok_token(2) [of "dec n" blanks]
    by (simp add: parse_line_def parse_f_def commands_differ)
qed

lemma parse_group_line: "parse_line ''group'' p = Inr (p\<lparr>cp_group := cp_group p + 1\<rparr>)"
  using parse_command(2) [of "''group''" "[]"] by (simp add: parse_line_def commands_differ)

text \<open>Pushing to a key that is not there, and to the last key.\<close>

lemma um_put_last: "\<not> um_has al k \<Longrightarrow> um_put k v (al @ [(k, w)]) = al @ [(k, v)]"
  by (induction al) auto

lemma um_push_new: "\<not> um_has al k \<Longrightarrow> um_push k v al = al @ [(k, [v])]"
  by (simp add: um_push_def um_ref_def um_put_at_end um_has_def)

lemma um_push_last: "\<not> um_has al k \<Longrightarrow> um_push k v (al @ [(k, vs)]) = al @ [(k, vs @ [v])]"
proof -
  assume new: "\<not> um_has al k"
  then have "map_of (al @ [(k, vs)]) k = Some vs" by (simp add: um_has_def map_add_def)
  with new show ?thesis by (simp add: um_push_def um_ref_def um_put_last del: map_of_append)
qed

definition entry_address :: "replica_entry \<Rightarrow> replica_address" where
  "entry_address r = \<lparr>ra_host = re_host r, ra_port = re_port r\<rparr>"

lemma parse_replica_line:
  assumes "entry_ok r" and "cp_group p \<ge> 0"
  shows "parse_line (replica_line r) p =
    Inr (p\<lparr>cp_replicas := um_push (cp_group p) (entry_address r) (cp_replicas p),
      cp_interfaces := um_push (cp_group p) (re_interface r) (cp_interfaces p)\<rparr>)"
proof -
  define arg where "arg = re_host r @ CHR '':'' # re_port r @ (if re_interface r = [] then [] else CHR '':'' # re_interface r)"
  have line: "replica_line r = ''replica'' @ CHR '' '' # arg" by (simp add: replica_line_def arg_def)
  have colon: "token (CHR '':'' # t) \<longleftrightarrow> token t" for t by (simp add: token_def nul_def)
  have "token arg"
    using assms(1) by (simp add: arg_def entry_ok_def colon) (simp add: token_def)
  note tok = token_line [OF this]
  have host: "strtok '':'' arg = Some (re_host r, re_port r @ (if re_interface r = [] then [] else CHR '':'' # re_interface r))"
    using assms(1) unfolding arg_def by (intro strtok_token(1)) (auto simp: entry_ok_def)
  have port: "strtok '':'' (re_port r @ (if re_interface r = [] then [] else CHR '':'' # re_interface r)) = Some (re_port r, re_interface r)"
    using assms(1) strtok_token [of "re_port r" "'':''"] by (auto simp: entry_ok_def)
  have "strtok blanks arg = Some (arg, [])"
    using tok by (intro strtok_token(2)) (auto simp: arg_def)
  then show ?thesis
    using parse_command(1) [of "''replica''" arg] tok assms(2)
    by (simp add: line parse_line_def commands_differ parse_replica_def host port strtok_rest entry_address_def)
qed

text \<open>The tables after the lines of a group, and after those of all groups.\<close>

lemma parse_group_replicas:
  assumes "list_all entry_ok rs" and "cp_group p \<ge> 0"
    and "\<not> um_has al (cp_group p)" and "\<not> um_has al' (cp_group p)"
  shows "foldE parse_line (map replica_line rs) (p\<lparr>cp_replicas := al, cp_interfaces := al'\<rparr>) =
    Inr (p\<lparr>cp_replicas := (if rs = [] then al else al @ [(cp_group p, map entry_address rs)]),
      cp_interfaces := (if rs = [] then al' else al' @ [(cp_group p, map re_interface rs)])\<rparr>)"
  using assms(1)
proof (induction rs rule: rev_induct)
  case (snoc r rs)
  then show ?case
    using assms(2-4)
    by (auto simp: foldE_append parse_replica_line um_push_new um_push_last)
qed simp

definition group_table :: "'a list \<Rightarrow> (int, 'a) umap" where
  "group_table xs = zip (map int [0..<length xs]) xs"

lemma group_table_snoc: "group_table (xs @ [x]) = group_table xs @ [(int (length xs), x)]"
  by (simp add: group_table_def)

lemma group_table_has: "um_has (group_table xs) k \<longleftrightarrow> 0 \<le> k \<and> k < int (length xs)"
  by (auto simp: um_has_iff group_table_def image_iff) (metis atLeastLessThan_iff nat_0_le nat_less_iff zero_le)

lemma map_of_group_table: "i < length xs \<Longrightarrow> map_of (group_table xs) (int i) = Some (xs ! i)"
proof (induction xs rule: rev_induct)
  case (snoc x xs)
  then show ?case
    using group_table_has [of xs "int i"] by (auto simp: group_table_snoc map_add_def nth_append less_Suc_eq um_has_def)
qed simp

lemma parse_groups:
  assumes "\<forall>rs \<in> set gs. rs \<noteq> [] \<and> list_all entry_ok rs"
    and "cp_group p = - 1" and "cp_replicas p = []" and "cp_interfaces p = []"
  shows "foldE parse_line (concat (map group_lines gs)) p =
    Inr (p\<lparr>cp_group := int (length gs) - 1, cp_replicas := group_table (map (map entry_address) gs),
      cp_interfaces := group_table (map (map re_interface) gs)\<rparr>)"
  using assms(1)
proof (induction gs rule: rev_induct)
  case Nil
  then show ?case using assms(2-4) by (simp add: group_table_def)
next
  case (snoc rs gs)
  let ?p = "p\<lparr>cp_group := int (length gs)\<rparr>"
  have "foldE parse_line (map replica_line rs)
      (?p\<lparr>cp_replicas := group_table (map (map entry_address) gs), cp_interfaces := group_table (map (map re_interface) gs)\<rparr>) =
    Inr (?p\<lparr>cp_replicas := group_table (map (map entry_address) (gs @ [rs])),
      cp_interfaces := group_table (map (map re_interface) (gs @ [rs]))\<rparr>)"
    using parse_group_replicas [of rs ?p "group_table (map (map entry_address) gs)" "group_table (map (map re_interface) gs)"] snoc.prems
    by (simp add: group_table_has group_table_snoc)
  moreover have "?p\<lparr>cp_replicas := a, cp_interfaces := b\<rparr> = p\<lparr>cp_replicas := a, cp_interfaces := b, cp_group := int (length gs)\<rparr>" for a b
    by simp
  ultimately have "foldE parse_line (map replica_line rs) (p\<lparr>cp_replicas := group_table (map (map entry_address) gs),
      cp_interfaces := group_table (map (map re_interface) gs), cp_group := int (length gs)\<rparr>) =
    Inr (?p\<lparr>cp_replicas := group_table (map (map entry_address) (gs @ [rs])),
      cp_interfaces := group_table (map (map re_interface) (gs @ [rs]))\<rparr>)"
    by (simp only:)
  with snoc show ?case by (simp add: foldE_append group_lines_def parse_group_line)
qed

text \<open>\<^bold>\<open>C12\<close>
  Configuration files round-trip. A file that lists \<open>f\<close> and the replicas of any groups of
  one size, with hosts, ports and interfaces free of blanks, newlines and (but for the
  interfaces) colons, is read back as exactly these groups, replicas and interfaces, in
  the order of the file.
\<close>

theorem configuration_roundtrip:
  assumes "f < 2 ^ 31" and "gs \<noteq> []" and "0 < n"
    and "\<forall>rs \<in> set gs. length rs = n \<and> list_all entry_ok rs"
  shows "\<exists>c. Configuration_parse early (config_file f gs) = Inr c \<and> c_g c = length gs \<and> c_n c = n \<and> c_f c = int f
    \<and> (\<forall>i j. i < length gs \<longrightarrow> j < n \<longrightarrow>
        c_replica c (int i) j = Inr \<lparr>ra_host = re_host (gs ! i ! j), ra_port = re_port (gs ! i ! j)\<rparr> \<and>
        c_Interface c (int i) j = Inr (re_interface (gs ! i ! j)))"
proof -
  let ?reps = "group_table (map (map entry_address) gs)" and ?ifs = "group_table (map (map re_interface) gs)"
  have ne: "\<forall>rs \<in> set gs. rs \<noteq> [] \<and> list_all entry_ok rs" using assms(3,4) by auto
  let ?p = "parse_init\<lparr>cp_f := int f, cp_group := int (length gs) - 1, cp_replicas := ?reps, cp_interfaces := ?ifs\<rparr>"
  have "foldE parse_line (config_lines f gs @ [[]]) parse_init = Inr ?p"
    using parse_groups [OF ne, of "parse_init\<lparr>cp_f := int f\<rparr>"]
    by (simp add: config_lines_def foldE_append parse_f_line [OF assms(1), simplified] parse_init_def)
      (simp add: parse_line_def)
  moreover have "list_all (\<lambda>l. CHR 0x0A \<notin> set l) (config_lines f gs)"
    unfolding config_lines_def list_all_iff using ne token_line [OF token_dec, of f]
    by (auto simp: group_lines_def replica_line_def entry_ok_def list_all_iff dest!: token_line)
  ultimately have parsed: "Configuration_parse early (config_file f gs) = parse_finish early ?p"
    by (simp add: Configuration_parse_def config_file_def file_lines_concat)
  have first: "map_of ?reps 0 = Some (map entry_address (gs ! 0))"
    using map_of_group_table [of 0 "map (map entry_address) gs"] assms(2) by simp
  have len: "length (gs ! i) = n" if "i < length gs" for i using that assms(4) by auto
  have "um_ref [] ?reps 0 = (map entry_address (gs ! 0), ?reps)" by (simp add: um_ref_def first)
  moreover have "length ?reps = length gs" by (simp add: group_table_def)
  moreover have "\<not> list_ex (\<lambda>kv. length (snd kv) \<noteq> n) ?reps"
    using assms(4) by (auto simp: list_ex_iff group_table_def dest!: set_zip_rightD)
  moreover have "length (gs ! 0) = n" using len [of 0] assms(2) by simp
  ultimately have "\<exists>c. parse_finish early ?p = Inr c \<and> c_g c = length gs \<and> c_n c = n \<and> c_f c = int f \<and>
      c_replicas c = ?reps \<and> c_interfaces c = ?ifs"
    using assms(2,3) by (cases "?reps = []") (simp_all add: parse_finish_def Let_def)
  then obtain c where c: "parse_finish early ?p = Inr c" "c_g c = length gs" "c_n c = n" "c_f c = int f"
      "c_replicas c = ?reps" "c_interfaces c = ?ifs" by blast
  have "c_replica c (int i) j = Inr \<lparr>ra_host = re_host (gs ! i ! j), ra_port = re_port (gs ! i ! j)\<rparr> \<and>
      c_Interface c (int i) j = Inr (re_interface (gs ! i ! j))" if "i < length gs" "j < n" for i j
    using that len [of i] map_of_group_table [of i "map (map entry_address) gs"] map_of_group_table [of i "map (map re_interface) gs"]
    by (simp add: c_replica_def c_Interface_def c entry_address_def)
  with parsed c show ?thesis by auto
qed

definition demo_entries :: "replica_entry list list" where
  "demo_entries =
     [[\<lparr>re_host = ''h1'', re_port = ''51000'', re_interface = []\<rparr>, \<lparr>re_host = ''h2'', re_port = ''51000'', re_interface = ''eth0''\<rparr>],
      [\<lparr>re_host = ''h2'', re_port = ''51001'', re_interface = []\<rparr>, \<lparr>re_host = ''h1'', re_port = ''51001'', re_interface = []\<rparr>]]"

lemma configuration_roundtrip_witness:
  "\<exists>c. Configuration_parse False (config_file 0 demo_entries) = Inr c \<and> c_g c = length demo_entries \<and> c_n c = 2 \<and> c_f c = int 0
    \<and> (\<forall>i j. i < length demo_entries \<longrightarrow> j < 2 \<longrightarrow>
        c_replica c (int i) j = Inr \<lparr>ra_host = re_host (demo_entries ! i ! j), ra_port = re_port (demo_entries ! i ! j)\<rparr> \<and>
        c_Interface c (int i) j = Inr (re_interface (demo_entries ! i ! j)))"
  by (rule configuration_roundtrip) (simp_all add: demo_entries_def entry_ok_def token_def nul_def)

text \<open>A fault of the code. The table from hosts to groups is filled by one constructor only:
  for every configuration read from a file, and for every copy of a configuration (the
  transports keep copies), asking whether a replica is of the lowest group of its host
  fails an assertion, for every replica there is.
\<close>

theorem lowest_group_unavailable:
  assumes "Configuration_parse early file = Inr c \<or> (\<exists>c'. c = Configuration_copy c')"
    and "c_replica c grp idx = Inr r"
  shows "IsLowestGroupOnHost c grp idx = Inl AssertFailed"
proof -
  have "c_hostToGroups c = []"
    using assms(1) by (auto simp: Configuration_parse_def parse_finish_def Let_def Configuration_copy_def split: if_splits)
  with assms(2) show ?thesis by (simp add: IsLowestGroupOnHost_def)
qed

lemma lowest_group_unavailable_witness:
  "IsLowestGroupOnHost (Configuration_copy (Configuration_of False 1 1 0
      [(0, [\<lparr>ra_host = ''h'', ra_port = ''1''\<rparr>])] None None [])) 0 0 = Inl AssertFailed
   \<and> IsLowestGroupOnHost (Configuration_of False 1 1 0 [(0, [\<lparr>ra_host = ''h'', ra_port = ''1''\<rparr>])] None None []) 0 0 = Inr True"
proof
  show "IsLowestGroupOnHost (Configuration_copy (Configuration_of False 1 1 0
      [(0, [\<lparr>ra_host = ''h'', ra_port = ''1''\<rparr>])] None None [])) 0 0 = Inl AssertFailed"
  proof (rule lowest_group_unavailable)
    show "Configuration_parse False [] = Inr (Configuration_copy (Configuration_of False 1 1 0
        [(0, [\<lparr>ra_host = ''h'', ra_port = ''1''\<rparr>])] None None [])) \<or>
      (\<exists>c'. Configuration_copy (Configuration_of False 1 1 0 [(0, [\<lparr>ra_host = ''h'', ra_port = ''1''\<rparr>])] None None []) = Configuration_copy c')"
      by blast
  qed (simp add: c_replica_def Configuration_copy_def Configuration_of_def)
  show "IsLowestGroupOnHost (Configuration_of False 1 1 0 [(0, [\<lparr>ra_host = ''h'', ra_port = ''1''\<rparr>])] None None []) 0 0 = Inr True"
    by (simp add: IsLowestGroupOnHost_def c_replica_def Configuration_of_def um_ref_def)
qed

end
