(* ===== verification/NetworkConfig.thy ===== *)
theory NetworkConfig
  imports Configuration
begin

text \<open>
  \<open>src/store/strongstore/networkconfig.{h,cc}\<close>: the regions of the hosts and the round trips
  between regions, from which a client computes the latency of a quorum. The JSON library that
  parses the file is not part of the repository: what the code reads of the parsed file is a
  record, its objects in the order of their keys. A missing key of a constant object is undefined.
\<close>

record net_json =
  server_regions :: "(string \<times> string list) list"
  region_rtt_latencies :: "(string, (string, u16) umap) umap"

record network_configuration =
  tport_config :: configuration
  net_config_json :: net_json

fun region_loop :: "string \<Rightarrow> (string \<times> string list) list \<Rightarrow> string outcome" where
  "region_loop host [] = Inl NotReachable"
| "region_loop host ((region, hosts) # kvs) = (if host \<in> set hosts then Inr region else region_loop host kvs)"

definition NC_GetRegion_host :: "network_configuration \<Rightarrow> string \<Rightarrow> string outcome" where
  "NC_GetRegion_host nc host = region_loop host (server_regions (net_config_json nc))"

definition NC_GetRegion :: "network_configuration \<Rightarrow> int \<Rightarrow> nat \<Rightarrow> string outcome" where
  "NC_GetRegion nc shard_idx replica_idx =
     bindE (c_replica (tport_config nc) shard_idx replica_idx) (\<lambda>r. NC_GetRegion_host nc (ra_host r))"

definition nc_rtt :: "network_configuration \<Rightarrow> string \<Rightarrow> string \<Rightarrow> u16 outcome" where
  "nc_rtt nc src_region dst_region =
     (case map_of (region_rtt_latencies (net_config_json nc)) src_region of
        None \<Rightarrow> Inl UndefinedBehaviour
      | Some row \<Rightarrow> (case map_of row dst_region of None \<Rightarrow> Inl UndefinedBehaviour | Some rtt \<Rightarrow> Inr rtt))"

definition NC_GetOneWayLatency :: "network_configuration \<Rightarrow> string \<Rightarrow> string \<Rightarrow> u16 outcome" where
  "NC_GetOneWayLatency nc src_region dst_region = bindE (nc_rtt nc src_region dst_region) (\<lambda>rtt. Inr (rtt div 2))"

definition c_QuorumSize :: "configuration \<Rightarrow> int" where
  "c_QuorumSize c = c_f c + 1"

definition NC_GetMinQuorumLatency :: "network_configuration \<Rightarrow> int \<Rightarrow> nat \<Rightarrow> u16 outcome" where
  "NC_GetMinQuorumLatency nc shard_idx leader_idx =
     bindE (NC_GetRegion nc shard_idx leader_idx) (\<lambda>leader_region.
     bindE (foldE (\<lambda>i lats.
         bindE (NC_GetRegion nc shard_idx i) (\<lambda>replica_region.
         bindE (nc_rtt nc leader_region replica_region) (\<lambda>rtt. Inr (lats @ [rtt]))))
       [0..<c_n (tport_config nc)] []) (\<lambda>lats.
     let sorted_lats = sort lats; i = c_QuorumSize (tport_config nc) - 1 in
     if 0 \<le> i \<and> i < int (length sorted_lats) then Inr (sorted_lats ! nat i) else Inl UndefinedBehaviour))"

section \<open>What the latency of a quorum is\<close>

text \<open>The first region in the order of the keys that lists the host.\<close>

lemma region_loop_first:
  "region_loop host kvs = Inr r \<longleftrightarrow>
     (\<exists>us hs vs. kvs = us @ (r, hs) # vs \<and> host \<in> set hs \<and> (\<forall>(_, hs') \<in> set us. host \<notin> set hs'))"
proof (induction host kvs rule: region_loop.induct)
  case (2 host region hosts kvs)
  show ?case
  proof (cases "host \<in> set hosts")
    case True
    have "us = []" if "(region, hosts) # kvs = us @ (r, hs) # vs" and "\<forall>(_, hs') \<in> set us. host \<notin> set hs'" for us hs vs
      using that True by (cases us) auto
    then show ?thesis using True by fastforce
  next
    case False
    have "(\<exists>us hs vs. (region, hosts) # kvs = us @ (r, hs) # vs \<and> host \<in> set hs \<and> (\<forall>(_, hs') \<in> set us. host \<notin> set hs')) \<longleftrightarrow>
        (\<exists>us hs vs. kvs = us @ (r, hs) # vs \<and> host \<in> set hs \<and> (\<forall>(_, hs') \<in> set us. host \<notin> set hs'))" (is "?L \<longleftrightarrow> ?R")
    proof
      assume ?L
      then obtain us hs vs where u: "(region, hosts) # kvs = us @ (r, hs) # vs" "host \<in> set hs" "\<forall>(_, hs') \<in> set us. host \<notin> set hs'"
        by blast
      then show ?R using False by (cases us) auto
    next
      assume ?R
      then obtain us hs vs where u: "kvs = us @ (r, hs) # vs" "host \<in> set hs" "\<forall>(_, hs') \<in> set us. host \<notin> set hs'"
        by blast
      then show ?L using False by (intro exI [of _ "(region, hosts) # us"] exI [of _ hs] exI [of _ vs]) auto
    qed
    with 2 False show ?thesis by simp
  qed
qed simp

text \<open>The round trips from the leader to the replicas, in their order.\<close>

lemma lats_loop:
  assumes "foldE (\<lambda>i lats.
         bindE (NC_GetRegion nc shard_idx i) (\<lambda>replica_region.
         bindE (nc_rtt nc leader replica_region) (\<lambda>rtt. Inr (lats @ [rtt])))) is acc = Inr lats"
  shows "\<exists>rs. lats = acc @ rs \<and> map Inr rs = map (\<lambda>i. bindE (NC_GetRegion nc shard_idx i) (nc_rtt nc leader)) is"
  using assms
proof (induction "is" arbitrary: acc)
  case (Cons i js)
  from Cons.prems obtain r t where "NC_GetRegion nc shard_idx i = Inr r" "nc_rtt nc leader r = Inr t"
    and rest: "foldE (\<lambda>i lats.
         bindE (NC_GetRegion nc shard_idx i) (\<lambda>replica_region.
         bindE (nc_rtt nc leader replica_region) (\<lambda>rtt. Inr (lats @ [rtt])))) js (acc @ [t]) = Inr lats"
    by auto
  with Cons.IH [OF rest] show ?case by auto
qed simp

text \<open>The element number \<open>k\<close> of a sorted list: more than \<open>k\<close> are at most it, at most \<open>k\<close> below.\<close>

lemma sort_nth_count:
  fixes xs :: "'a :: linorder list"
  assumes "k < length xs"
  shows "k < length (filter (\<lambda>x. x \<le> sort xs ! k) xs)" and "length (filter (\<lambda>x. x < sort xs ! k) xs) \<le> k"
proof -
  let ?s = "sort xs"
  have len: "length (filter P xs) = card {i. i < length ?s \<and> P (?s ! i)}" for P
    by (metis length_filter_conv_card filter_sort length_sort)
  have "{0..k} \<subseteq> {i. i < length ?s \<and> ?s ! i \<le> ?s ! k}" using assms by (auto intro: sorted_nth_mono)
  then have "card {0..k} \<le> card {i. i < length ?s \<and> ?s ! i \<le> ?s ! k}" by (intro card_mono) simp_all
  then show "k < length (filter (\<lambda>x. x \<le> ?s ! k) xs)" by (simp add: len)
  have "{i. i < length ?s \<and> ?s ! i < ?s ! k} \<subseteq> {0..<k}"
    using assms sorted_nth_mono [OF sorted_sort, of k] by (fastforce simp: not_less [symmetric])
  then have "card {i. i < length ?s \<and> ?s ! i < ?s ! k} \<le> card {0..<k}" by (intro card_mono) simp_all
  then show "length (filter (\<lambda>x. x < ?s ! k) xs) \<le> k" by (simp add: len)
qed

text \<open>
  The latency of a quorum is the round trip within which a quorum of the shard's replicas,
  the leader counted as one, answers the leader: at least \<open>f + 1\<close> replicas are within it, and at
  most \<open>f\<close> are faster.
\<close>

theorem GetMinQuorumLatency_is_quorum:
  assumes "NC_GetMinQuorumLatency nc shard_idx leader_idx = Inr l"
  shows "\<exists>leader rtts. NC_GetRegion nc shard_idx leader_idx = Inr leader \<and>
    map Inr rtts = map (\<lambda>i. bindE (NC_GetRegion nc shard_idx i) (nc_rtt nc leader)) [0..<c_n (tport_config nc)] \<and>
    c_QuorumSize (tport_config nc) \<le> int (length (filter (\<lambda>t. t \<le> l) rtts)) \<and>
    int (length (filter (\<lambda>t. t < l) rtts)) < c_QuorumSize (tport_config nc)"
proof -
  let ?i = "c_QuorumSize (tport_config nc) - 1"
  from assms obtain leader lats where leader: "NC_GetRegion nc shard_idx leader_idx = Inr leader"
    and loop: "foldE (\<lambda>i lats.
         bindE (NC_GetRegion nc shard_idx i) (\<lambda>replica_region.
         bindE (nc_rtt nc leader replica_region) (\<lambda>rtt. Inr (lats @ [rtt]))))
       [0..<c_n (tport_config nc)] [] = Inr lats"
    and i: "0 \<le> ?i" "?i < int (length lats)" and l: "l = sort lats ! nat ?i"
    by (auto simp: NC_GetMinQuorumLatency_def Let_def split: if_splits)
  have k: "nat ?i < length lats" using i by linarith
  from lats_loop [OF loop] sort_nth_count [OF k] i leader show ?thesis
    by (intro exI [of _ leader] exI [of _ lats]) (auto simp: l)
qed

definition demo_net :: network_configuration where
  "demo_net = \<lparr>tport_config = \<lparr>c_g = 1, c_n = 3, c_f = 1,
       c_replicas = [(0, [\<lparr>ra_host = ''a'', ra_port = ''1''\<rparr>, \<lparr>ra_host = ''b'', ra_port = ''1''\<rparr>, \<lparr>ra_host = ''c'', ra_port = ''1''\<rparr>])],
       c_replicaHosts = [], c_hosts = [], c_hostToGroups = [], c_multicast = None, c_fc = None, c_interfaces = []\<rparr>,
     net_config_json = \<lparr>server_regions = [(''ca'', [''a'']), (''ir'', [''c'']), (''va'', [''b''])],
       region_rtt_latencies = [(''ca'', [(''ca'', 0), (''va'', 72), (''ir'', 151)])]\<rparr>\<rparr>"

lemma GetMinQuorumLatency_is_quorum_witness:
  "\<exists>leader rtts. NC_GetRegion demo_net 0 0 = Inr leader \<and>
    map Inr rtts = map (\<lambda>i. bindE (NC_GetRegion demo_net 0 i) (nc_rtt demo_net leader)) [0..<c_n (tport_config demo_net)] \<and>
    c_QuorumSize (tport_config demo_net) \<le> int (length (filter (\<lambda>t. t \<le> 72) rtts)) \<and>
    int (length (filter (\<lambda>t. t < 72) rtts)) < c_QuorumSize (tport_config demo_net)"
  by (rule GetMinQuorumLatency_is_quorum)
    (simp add: NC_GetMinQuorumLatency_def NC_GetRegion_def NC_GetRegion_host_def nc_rtt_def c_replica_def c_QuorumSize_def demo_net_def upt_rec)

end
