(* ===== verification/TransportCommon.thy ===== *)
theory TransportCommon
  imports Configuration
begin

text \<open>
  \<open>src/lib/transportcommon.h\<close>: what the transports share, the tables from receivers to
  configurations and from replicas to addresses, and the functions that send a message
  to one replica, a group or all groups. A receiver and an address are values of the
  type variables \<open>'r\<close> and \<open>'a\<close>; a pointer to a canonical configuration is its number.
  Name resolution (\<open>LookupAddress\<close>, which asks \<open>getaddrinfo\<close>) is the argument
  \<open>resolve\<close>; sending (\<open>SendMessageInternal\<close> of the transport) appends to a trace and
  succeeds as the argument \<open>up\<close> says. The multicast addresses, which nothing reads, are
  left out.
\<close>

section \<open>The code\<close>

record ('r, 'a) transport_common =
  tc_canonicalConfigs :: "configuration list"
  tc_configurations :: "('r, nat) umap"
  tc_replicaAddresses :: "(nat, (int, (nat, 'a) umap) umap) umap"
  tc_replicaReceivers :: "(nat \<times> int \<times> int, 'r) umap"
  tc_fcAddresses :: "(nat, 'a) umap"
  tc_replicaGroups :: "('r, int) umap"
  tc_replicaAddressesInitialized :: bool
  tc_addressOf :: "('r, 'a) umap"
  tc_sent :: "('r \<times> 'a) list"

definition TransportCommon_init :: "('r, 'a) transport_common" where
  "TransportCommon_init =
     \<lparr>tc_canonicalConfigs = [], tc_configurations = [], tc_replicaAddresses = [], tc_replicaReceivers = [],
      tc_fcAddresses = [], tc_replicaGroups = [], tc_replicaAddressesInitialized = False, tc_addressOf = [], tc_sent = []\<rparr>"

fun find_index :: "('x \<Rightarrow> bool) \<Rightarrow> 'x list \<Rightarrow> nat option" where
  "find_index P [] = None"
| "find_index P (x # xs) = (if P x then Some 0 else map_option Suc (find_index P xs))"

definition RegisterConfiguration ::
  "'r \<Rightarrow> configuration \<Rightarrow> int \<Rightarrow> int \<Rightarrow> ('r, 'a) transport_common \<Rightarrow> (nat \<times> ('r, 'a) transport_common) outcome" where
  "RegisterConfiguration receiver config grp idx s =
     (let (canonical, configs) =
        (case find_index (config_eq config) (tc_canonicalConfigs s) of
           Some i \<Rightarrow> (i, tc_canonicalConfigs s)
         | None \<Rightarrow> (length (tc_canonicalConfigs s), tc_canonicalConfigs s @ [Configuration_copy config]))
      in assertE (idx \<noteq> - 1 \<longrightarrow> grp \<noteq> - 1)
        (Inr (canonical, s\<lparr>tc_canonicalConfigs := configs,
           tc_configurations := um_put receiver canonical (tc_configurations s),
           tc_replicaReceivers := (if idx \<noteq> - 1 then um_put (canonical, grp, idx) receiver (tc_replicaReceivers s)
                                   else tc_replicaReceivers s),
           tc_replicaGroups := um_put receiver grp (tc_replicaGroups s),
           tc_replicaAddressesInitialized := False\<rparr>)))"

text \<open>The addresses of one group, and of all groups.\<close>

fun lookup_group :: "(replica_address \<Rightarrow> 'a) \<Rightarrow> configuration \<Rightarrow> int \<Rightarrow> nat list \<Rightarrow> (nat, 'a) umap outcome" where
  "lookup_group resolve c i [] = Inr []"
| "lookup_group resolve c i (j # js) =
     bindE (c_replica c i j) (\<lambda>r. bindE (lookup_group resolve c i js) (\<lambda>m. Inr ((j, resolve r) # m)))"

fun lookup_groups :: "(replica_address \<Rightarrow> 'a) \<Rightarrow> configuration \<Rightarrow> nat list \<Rightarrow> (int, (nat, 'a) umap) umap outcome" where
  "lookup_groups resolve c [] = Inr []"
| "lookup_groups resolve c (i # is) =
     bindE (lookup_group resolve c (int i) [0..<c_n c]) (\<lambda>g.
     bindE (lookup_groups resolve c is) (\<lambda>gs. Inr ((int i, g) # gs)))"

fun lookup_configs :: "(replica_address \<Rightarrow> 'a) \<Rightarrow> nat \<Rightarrow> configuration list \<Rightarrow> (nat, (int, (nat, 'a) umap) umap) umap outcome" where
  "lookup_configs resolve k [] = Inr []"
| "lookup_configs resolve k (c # cs) =
     bindE (lookup_groups resolve c [0..<c_g c]) (\<lambda>gs.
     bindE (lookup_configs resolve (Suc k) cs) (\<lambda>m. Inr ((k, gs) # m)))"

definition LookupAddresses :: "(replica_address \<Rightarrow> 'a) \<Rightarrow> ('r, 'a) transport_common \<Rightarrow> ('r, 'a) transport_common outcome" where
  "LookupAddresses resolve s =
     bindE (lookup_configs resolve 0 (tc_canonicalConfigs s)) (\<lambda>m.
       Inr (s\<lparr>tc_replicaAddresses := m, tc_fcAddresses := [], tc_replicaAddressesInitialized := True\<rparr>))"

text \<open>The start of every sending function: the configuration of the sender, and the addresses.\<close>

definition tc_prepare :: "(replica_address \<Rightarrow> 'a) \<Rightarrow> 'r \<Rightarrow> ('r, 'a) transport_common \<Rightarrow> (nat \<times> ('r, 'a) transport_common) outcome" where
  "tc_prepare resolve src s =
     (case map_of (tc_configurations s) src of
        None \<Rightarrow> Inl AssertFailed
      | Some cfg \<Rightarrow>
          bindE (if tc_replicaAddressesInitialized s then Inr s else LookupAddresses resolve s) (\<lambda>s'. Inr (cfg, s')))"

definition tc_send :: "('a \<Rightarrow> bool) \<Rightarrow> 'r \<Rightarrow> 'a \<Rightarrow> ('r, 'a) transport_common \<Rightarrow> bool \<times> ('r, 'a) transport_common" where
  "tc_send up src dst s = (up dst, s\<lparr>tc_sent := tc_sent s @ [(src, dst)]\<rparr>)"

definition group_addresses :: "nat \<Rightarrow> int \<Rightarrow> ('r, 'a) transport_common \<Rightarrow> (nat, 'a) umap" where
  "group_addresses cfg grp s = fst (um_ref [] (fst (um_ref [] (tc_replicaAddresses s) cfg)) grp)"

definition SendMessageToReplicaOf ::
  "(replica_address \<Rightarrow> 'a) \<Rightarrow> ('a \<Rightarrow> bool) \<Rightarrow> 'r \<Rightarrow> int \<Rightarrow> nat \<Rightarrow> ('r, 'a) transport_common \<Rightarrow> (bool \<times> ('r, 'a) transport_common) outcome" where
  "SendMessageToReplicaOf resolve up src grp idx s =
     bindE (tc_prepare resolve src s) (\<lambda>(cfg, s1).
       case map_of (group_addresses cfg grp s1) idx of
         None \<Rightarrow> Inl AssertFailed
       | Some dst \<Rightarrow> Inr (tc_send up src dst s1))"

definition own_group :: "'r \<Rightarrow> ('r, 'a) transport_common \<Rightarrow> int outcome" where
  "own_group src s =
     (case map_of (tc_replicaGroups s) src of None \<Rightarrow> Inl AssertFailed | Some g \<Rightarrow> Inr (if g = - 1 then 0 else g))"

definition SendMessageToReplica ::
  "(replica_address \<Rightarrow> 'a) \<Rightarrow> ('a \<Rightarrow> bool) \<Rightarrow> 'r \<Rightarrow> nat \<Rightarrow> ('r, 'a) transport_common \<Rightarrow> (bool \<times> ('r, 'a) transport_common) outcome" where
  "SendMessageToReplica resolve up src idx s = bindE (own_group src s) (\<lambda>grp. SendMessageToReplicaOf resolve up src grp idx s)"

definition SendMessageToFC ::
  "(replica_address \<Rightarrow> 'a) \<Rightarrow> ('a \<Rightarrow> bool) \<Rightarrow> 'r \<Rightarrow> ('r, 'a) transport_common \<Rightarrow> (bool \<times> ('r, 'a) transport_common) outcome" where
  "SendMessageToFC resolve up src s =
     bindE (tc_prepare resolve src s) (\<lambda>(cfg, s1).
       case map_of (tc_fcAddresses s1) cfg of None \<Rightarrow> Inl Panicked | Some dst \<Rightarrow> Inr (tc_send up src dst s1))"

text \<open>Sending to a list of addresses but one's own, until a send fails.\<close>

fun send_each :: "('a \<Rightarrow> bool) \<Rightarrow> 'r \<Rightarrow> 'a option \<Rightarrow> 'a list \<Rightarrow> ('r, 'a) transport_common \<Rightarrow> bool \<times> ('r, 'a) transport_common" where
  "send_each up src own [] s = (True, s)"
| "send_each up src own (dst # dsts) s =
     (if own = Some dst then send_each up src own dsts s
      else let (ok, s') = tc_send up src dst s in if ok then send_each up src own dsts s' else (False, s'))"

text \<open>A sender that is a replica has an address; reading it otherwise is undefined.\<close>

definition SendMessageToGroups ::
  "(replica_address \<Rightarrow> 'a) \<Rightarrow> ('a \<Rightarrow> bool) \<Rightarrow> 'r \<Rightarrow> int list \<Rightarrow> ('r, 'a) transport_common \<Rightarrow> (bool \<times> ('r, 'a) transport_common) outcome" where
  "SendMessageToGroups resolve up src groups s =
     bindE (tc_prepare resolve src s) (\<lambda>(cfg, s1).
       let srcGroup = (case map_of (tc_replicaGroups s1) src of None \<Rightarrow> - 1 | Some g \<Rightarrow> g);
           own = (if srcGroup = - 1 then None else map_of (tc_addressOf s1) src);
           dsts = concat (map (\<lambda>g. map snd (group_addresses cfg g s1)) groups)
       in if srcGroup \<noteq> - 1 \<and> own = None \<and> dsts \<noteq> [] then Inl UndefinedBehaviour else Inr (send_each up src own dsts s1))"

definition SendMessageToGroup ::
  "(replica_address \<Rightarrow> 'a) \<Rightarrow> ('a \<Rightarrow> bool) \<Rightarrow> 'r \<Rightarrow> int \<Rightarrow> ('r, 'a) transport_common \<Rightarrow> (bool \<times> ('r, 'a) transport_common) outcome" where
  "SendMessageToGroup resolve up src grp s = SendMessageToGroups resolve up src [grp] s"

definition SendMessageToAll ::
  "(replica_address \<Rightarrow> 'a) \<Rightarrow> ('a \<Rightarrow> bool) \<Rightarrow> 'r \<Rightarrow> ('r, 'a) transport_common \<Rightarrow> (bool \<times> ('r, 'a) transport_common) outcome" where
  "SendMessageToAll resolve up src s =
     bindE (own_group src s) (\<lambda>grp.
     bindE (tc_prepare resolve src s) (\<lambda>(_, s1). SendMessageToGroup resolve up src grp s1))"

definition SendMessageToAllGroups ::
  "(replica_address \<Rightarrow> 'a) \<Rightarrow> ('a \<Rightarrow> bool) \<Rightarrow> 'r \<Rightarrow> ('r, 'a) transport_common \<Rightarrow> (bool \<times> ('r, 'a) transport_common) outcome" where
  "SendMessageToAllGroups resolve up src s =
     bindE (tc_prepare resolve src s) (\<lambda>(cfg, s1).
       let own = map_of (tc_addressOf s1) src;
           dsts = concat (map (\<lambda>(g, m). map snd m) (fst (um_ref [] (tc_replicaAddresses s1) cfg)))
       in if own = None \<and> dsts \<noteq> [] then Inl UndefinedBehaviour else Inr (send_each up src own dsts s1))"

section \<open>Addresses\<close>

text \<open>A configuration with a list of \<open>n\<close> replicas for each of its groups \<open>0..<g\<close>.\<close>

definition complete_config :: "configuration \<Rightarrow> bool" where
  "complete_config c \<longleftrightarrow>
     (\<forall>k. um_has (c_replicas c) k \<longleftrightarrow> 0 \<le> k \<and> k < int (c_g c)) \<and>
     (\<forall>k rs. map_of (c_replicas c) k = Some rs \<longrightarrow> length rs = c_n c)"

lemma complete_group:
  assumes "complete_config c" and "i < c_g c"
  obtains rs where "map_of (c_replicas c) (int i) = Some rs" and "length rs = c_n c"
proof -
  have "um_has (c_replicas c) (int i)" using assms by (simp add: complete_config_def)
  then obtain rs where "map_of (c_replicas c) (int i) = Some rs" by (auto simp: um_has_def)
  with assms(1) show thesis by (intro that [of rs]) (auto simp: complete_config_def)
qed

lemma lookup_group_total:
  assumes "map_of (c_replicas c) i = Some rs" and "\<forall>j \<in> set js. j < length rs"
  shows "lookup_group resolve c i js = Inr (map (\<lambda>j. (j, resolve (rs ! j))) js)"
  using assms(2) by (induction js) (auto simp: c_replica_def assms(1))

definition group_entry :: "(replica_address \<Rightarrow> 'a) \<Rightarrow> configuration \<Rightarrow> nat \<Rightarrow> (nat, 'a) umap" where
  "group_entry resolve c i = map (\<lambda>j. (j, resolve (the (map_of (c_replicas c) (int i)) ! j))) [0..<c_n c]"

lemma lookup_groups_total:
  "complete_config c \<Longrightarrow> \<forall>i \<in> set is. i < c_g c \<Longrightarrow>
    lookup_groups resolve c is = Inr (map (\<lambda>i. (int i, group_entry resolve c i)) is)"
proof (induction "is")
  case (Cons i "is")
  then obtain rs where "map_of (c_replicas c) (int i) = Some rs" "length rs = c_n c"
    by (auto elim: complete_group)
  with Cons show ?case by (simp add: lookup_group_total group_entry_def)
qed simp

definition config_entry :: "(replica_address \<Rightarrow> 'a) \<Rightarrow> configuration \<Rightarrow> (int, (nat, 'a) umap) umap" where
  "config_entry resolve c = map (\<lambda>i. (int i, group_entry resolve c i)) [0..<c_g c]"

lemma lookup_configs_total:
  "\<forall>c \<in> set cs. complete_config c \<Longrightarrow> lookup_configs resolve k cs = Inr (zip [k..<k + length cs] (map (config_entry resolve) cs))"
proof (induction cs arbitrary: k)
  case (Cons c cs)
  then show ?case
    using Cons.IH [of "Suc k"] by (simp add: lookup_groups_total config_entry_def upt_conv_Cons del: upt_Suc)
qed simp

lemma map_of_numbered: "i < length cs \<Longrightarrow> map_of (zip [k..<k + length cs] (map f cs)) (k + i) = Some (f (cs ! i))"
  using map_of_zip_nth [of "[k..<k + length cs]" "map f cs" i] by simp

lemma map_of_ints: "map_of (map (\<lambda>i. (int i, f i)) [0..<n]) (int i) = (if i < n then Some (f i) else None)"
  by (induction n) (auto simp: map_add_def less_Suc_eq split: option.splits)

lemma map_of_config_entry: "i < c_g c \<Longrightarrow> map_of (config_entry resolve c) (int i) = Some (group_entry resolve c i)"
  by (simp add: config_entry_def map_of_ints)

lemma LookupAddresses_group:
  assumes "\<forall>c \<in> set (tc_canonicalConfigs s). complete_config c" and "k < length (tc_canonicalConfigs s)"
    and "map_of (c_replicas (tc_canonicalConfigs s ! k)) grp = Some rs"
  shows "\<exists>m. LookupAddresses resolve s = Inr (s\<lparr>tc_replicaAddresses := m, tc_fcAddresses := [], tc_replicaAddressesInitialized := True\<rparr>)
    \<and> map snd (group_addresses k grp (s\<lparr>tc_replicaAddresses := m\<rparr>)) = map resolve rs"
proof -
  let ?cs = "tc_canonicalConfigs s" and ?c = "tc_canonicalConfigs s ! k"
  let ?m = "zip [0..<length ?cs] (map (config_entry resolve) ?cs)"
  have c: "complete_config ?c" using assms(1,2) by simp
  then have "um_has (c_replicas ?c) grp" using assms(3) by (simp add: um_has_def)
  then have range: "0 \<le> grp" "grp < int (c_g ?c)" using c by (simp_all add: complete_config_def)
  define i where "i = nat grp"
  have i: "grp = int i" "i < c_g ?c" using range by (simp_all add: i_def)
  have "length rs = c_n ?c" using c assms(3) by (auto simp: complete_config_def)
  then have "map snd (group_entry resolve ?c i) = map resolve rs"
    using assms(3) by (auto simp: group_entry_def i(1) comp_def intro!: nth_equalityI)
  moreover have "map_of ?m k = Some (config_entry resolve ?c)" using map_of_numbered [of k ?cs 0] assms(2) by simp
  ultimately have "map snd (group_addresses k grp (s\<lparr>tc_replicaAddresses := ?m\<rparr>)) = map resolve rs"
    by (simp add: group_addresses_def um_ref_def i(1) map_of_config_entry [OF i(2)])
  moreover have "LookupAddresses resolve s = Inr (s\<lparr>tc_replicaAddresses := ?m, tc_fcAddresses := [], tc_replicaAddressesInitialized := True\<rparr>)"
    using lookup_configs_total [OF assms(1), of resolve 0] by (simp add: LookupAddresses_def)
  ultimately show ?thesis by blast
qed

section \<open>Sending to a group\<close>

text \<open>Who is reached when sending stops at the first failure.\<close>

definition attempted :: "('a \<Rightarrow> bool) \<Rightarrow> 'a list \<Rightarrow> 'a list" where
  "attempted up ds = takeWhile up ds @ take 1 (dropWhile up ds)"

lemma send_each_spec:
  "send_each up src own dsts s =
    (list_all up (filter (\<lambda>d. own \<noteq> Some d) dsts),
     s\<lparr>tc_sent := tc_sent s @ map (Pair src) (attempted up (filter (\<lambda>d. own \<noteq> Some d) dsts))\<rparr>)"
  by (induction dsts arbitrary: s) (auto simp: attempted_def tc_send_def)

lemma find_index_Some: "find_index P xs = Some i \<Longrightarrow> i < length xs \<and> P (xs ! i)"
  by (induction xs arbitrary: i) (auto split: if_splits)

lemma complete_copy [simp]: "complete_config (Configuration_copy c) = complete_config c"
  by (simp add: complete_config_def Configuration_copy_def)

lemma config_eq_replicas:
  assumes "config_eq a b"
  shows "map_of (c_replicas a) = map_of (c_replicas b)"
proof
  fix k
  show "map_of (c_replicas a) k = map_of (c_replicas b) k"
  proof (cases "um_has (c_replicas a) k \<or> um_has (c_replicas b) k")
    case True
    with assms show ?thesis by (auto simp: config_eq_def list_all_iff um_has_iff)
  qed (simp add: um_has_def)
qed

text \<open>Registering gives the receiver a configuration with the replicas it asked for.\<close>

lemma RegisterConfiguration_result:
  assumes "RegisterConfiguration src c grp idx s = Inr (k, s')"
    and "\<forall>c \<in> set (tc_canonicalConfigs s). complete_config c" and "complete_config c"
  shows "\<forall>c \<in> set (tc_canonicalConfigs s'). complete_config c" and "k < length (tc_canonicalConfigs s')"
    and "map_of (c_replicas (tc_canonicalConfigs s' ! k)) = map_of (c_replicas c)"
    and "map_of (tc_configurations s') src = Some k" and "map_of (tc_replicaGroups s') src = Some grp"
    and "\<not> tc_replicaAddressesInitialized s'" and "tc_sent s' = tc_sent s" and "tc_addressOf s' = tc_addressOf s"
proof -
  show "map_of (tc_configurations s') src = Some k" and "map_of (tc_replicaGroups s') src = Some grp"
    and "\<not> tc_replicaAddressesInitialized s'" and "tc_sent s' = tc_sent s" and "tc_addressOf s' = tc_addressOf s"
    using assms(1) by (auto simp: RegisterConfiguration_def Let_def split: prod.splits)
  show "\<forall>c \<in> set (tc_canonicalConfigs s'). complete_config c" and "k < length (tc_canonicalConfigs s')"
    and "map_of (c_replicas (tc_canonicalConfigs s' ! k)) = map_of (c_replicas c)"
    using assms find_index_Some [of "config_eq c" "tc_canonicalConfigs s" k]
    by (auto simp: RegisterConfiguration_def Let_def Configuration_copy_def complete_config_def nth_append
        config_eq_replicas split: option.splits prod.splits)
qed

text \<open>\<^bold>\<open>C11\<close>
  A broadcast reaches the group. When a replica of a group registers with a transport
  whose configurations are complete, and has an address, sending to all attempts exactly
  the other addresses of its group in the order of the replicas, up to and including the
  first that fails, sends to nobody else, and returns true when none failed.
\<close>

theorem SendMessageToAll_reaches_group:
  assumes "RegisterConfiguration src c grp idx s = Inr (k, s1)"
    and "\<forall>c \<in> set (tc_canonicalConfigs s). complete_config c" and "complete_config c"
    and "grp \<noteq> - 1" and "map_of (c_replicas c) grp = Some rs" and "map_of (tc_addressOf s) src = Some own"
  shows "\<exists>s2. SendMessageToAll resolve up src s1 = Inr (list_all up (filter (\<lambda>a. a \<noteq> own) (map resolve rs)), s2)
    \<and> tc_sent s2 = tc_sent s @ map (Pair src) (attempted up (filter (\<lambda>a. a \<noteq> own) (map resolve rs)))"
proof -
  note r = RegisterConfiguration_result [OF assms(1-3)]
  have "map_of (c_replicas (tc_canonicalConfigs s1 ! k)) grp = Some rs" by (simp add: r(3) assms(5))
  from LookupAddresses_group [OF r(1,2) this, of resolve] obtain m where
    m: "LookupAddresses resolve s1 = Inr (s1\<lparr>tc_replicaAddresses := m, tc_fcAddresses := [], tc_replicaAddressesInitialized := True\<rparr>)"
      "map snd (group_addresses k grp (s1\<lparr>tc_replicaAddresses := m\<rparr>)) = map resolve rs" by blast
  define t where "t = s1\<lparr>tc_replicaAddresses := m, tc_fcAddresses := [], tc_replicaAddressesInitialized := True\<rparr>"
  have "map snd (group_addresses k grp t) = map resolve rs" using m(2) by (simp add: group_addresses_def t_def)
  moreover have "tc_prepare resolve src s1 = Inr (k, t)" "tc_prepare resolve src t = Inr (k, t)"
    using r(4,6) m(1) by (simp_all add: tc_prepare_def t_def)
  moreover have "map_of (tc_replicaGroups t) src = Some grp" "map_of (tc_addressOf t) src = Some own"
    using r(5,8) assms(6) by (simp_all add: t_def)
  moreover have "tc_sent t = tc_sent s" using r(7) by (simp add: t_def)
  moreover have "own_group src s1 = Inr grp" using r(5) assms(4) by (simp add: own_group_def)
  moreover have "(\<lambda>a. own \<noteq> a) = (\<lambda>a. a \<noteq> own)" by auto
  ultimately show ?thesis
    using assms(4) by (simp add: SendMessageToAll_def SendMessageToGroup_def SendMessageToGroups_def send_each_spec Let_def)
qed

text \<open>Three replicas of one group; the second registers and the third cannot be reached.\<close>

definition demo_config :: configuration where
  "demo_config = Configuration_of False 1 3 1
     [(0, [\<lparr>ra_host = ''a'', ra_port = ''1''\<rparr>, \<lparr>ra_host = ''b'', ra_port = ''1''\<rparr>, \<lparr>ra_host = ''c'', ra_port = ''1''\<rparr>])]
     None None []"

definition demo_tc :: "(nat, string) transport_common" where
  "demo_tc = TransportCommon_init\<lparr>tc_addressOf := [(7, ''b'')]\<rparr>"

lemma SendMessageToAll_reaches_group_witness:
  "\<exists>s1 s2. RegisterConfiguration 7 demo_config 0 1 demo_tc = Inr (0, s1)
    \<and> SendMessageToAll ra_host (\<lambda>a. a \<noteq> ''c'') 7 s1 = Inr (False, s2) \<and> tc_sent s2 = [(7, ''a''), (7, ''c'')]"
proof -
  obtain s1 where s1: "RegisterConfiguration 7 demo_config 0 1 demo_tc = Inr (0, s1)"
    by (simp add: RegisterConfiguration_def demo_tc_def TransportCommon_init_def)
  have "complete_config demo_config" by (auto simp: complete_config_def demo_config_def Configuration_of_def)
  from SendMessageToAll_reaches_group [OF s1 _ this, of "the (map_of (c_replicas demo_config) 0)" "''b''" ra_host "\<lambda>a. a \<noteq> ''c''"]
  have "\<exists>s2. SendMessageToAll ra_host (\<lambda>a. a \<noteq> ''c'') 7 s1 = Inr (False, s2) \<and> tc_sent s2 = [(7, ''a''), (7, ''c'')]"
    by (simp add: demo_tc_def TransportCommon_init_def demo_config_def Configuration_of_def attempted_def)
  with s1 show ?thesis by blast
qed

section \<open>The failure coordinator\<close>

datatype ('r, 'a) tc_op =
    TCRegister 'r configuration int int
  | TCSetAddress 'r 'a
  | TCToReplica 'r nat
  | TCToReplicaOf 'r int nat
  | TCToGroups 'r "int list"
  | TCToAll 'r
  | TCToAllGroups 'r

fun tc_step :: "(replica_address \<Rightarrow> 'a) \<Rightarrow> ('a \<Rightarrow> bool) \<Rightarrow> ('r, 'a) tc_op \<Rightarrow> ('r, 'a) transport_common \<Rightarrow> ('r, 'a) transport_common outcome" where
  "tc_step resolve up (TCRegister r c grp idx) s = bindE (RegisterConfiguration r c grp idx s) (\<lambda>x. Inr (snd x))"
| "tc_step resolve up (TCSetAddress r a) s = Inr (s\<lparr>tc_addressOf := um_put r a (tc_addressOf s)\<rparr>)"
| "tc_step resolve up (TCToReplica r idx) s = bindE (SendMessageToReplica resolve up r idx s) (\<lambda>x. Inr (snd x))"
| "tc_step resolve up (TCToReplicaOf r grp idx) s = bindE (SendMessageToReplicaOf resolve up r grp idx s) (\<lambda>x. Inr (snd x))"
| "tc_step resolve up (TCToGroups r gs) s = bindE (SendMessageToGroups resolve up r gs s) (\<lambda>x. Inr (snd x))"
| "tc_step resolve up (TCToAll r) s = bindE (SendMessageToAll resolve up r s) (\<lambda>x. Inr (snd x))"
| "tc_step resolve up (TCToAllGroups r) s = bindE (SendMessageToAllGroups resolve up r s) (\<lambda>x. Inr (snd x))"

lemma tc_prepare_fc: "tc_prepare resolve src s = Inr (k, s') \<Longrightarrow> tc_fcAddresses s = [] \<Longrightarrow> tc_fcAddresses s' = []"
  by (auto simp: tc_prepare_def LookupAddresses_def split: option.splits if_splits)

lemma tc_step_fc: "tc_step resolve up x s = Inr s' \<Longrightarrow> tc_fcAddresses s = [] \<Longrightarrow> tc_fcAddresses s' = []"
  by (cases x)
    (auto simp: RegisterConfiguration_def SendMessageToReplica_def SendMessageToReplicaOf_def SendMessageToGroups_def
      SendMessageToGroup_def SendMessageToAll_def SendMessageToAllGroups_def send_each_spec tc_send_def Let_def
      split: option.splits prod.splits if_splits dest!: tc_prepare_fc)

text \<open>
  A fault of the code: nothing enters an address into \<open>fcAddresses\<close>, so sending to the
  failure coordinator never returns, in any state of the transport and also for a
  configuration that names one.
\<close>

theorem SendMessageToFC_never_returns:
  assumes "foldE (tc_step resolve up) xs TransportCommon_init = Inr s"
  shows "\<exists>f. SendMessageToFC resolve up src s = Inl f"
proof -
  have "tc_fcAddresses s = []"
    by (rule foldE_invariant [OF assms, where I = "\<lambda>s. tc_fcAddresses s = []"])
      (auto simp: TransportCommon_init_def intro: tc_step_fc)
  then show ?thesis
    by (cases "tc_prepare resolve src s") (auto simp: SendMessageToFC_def dest!: tc_prepare_fc)
qed

end
