(* ===== verification/SimTransport.thy ===== *)
theory SimTransport
  imports TransportCommon Timers
begin

text \<open>
  \<open>src/lib/simtransport.{h,cc}\<close>: the transport that tests run on, in one process and in virtual
  time. An address is the number of an endpoint; a message is its type and its bytes. A callback
  of a timer is one of the clients', or the one that puts a delayed message into the queue. What
  receivers and callbacks do is given by functions that change their own state \<open>'w\<close> and answer
  the calls they make of the transport. An entry of a \<open>std::map\<close> that is read and not there is
  created as 0, which reads the same as no entry.
\<close>

section \<open>The code\<close>

record sim_message =
  qm_dst :: int
  qm_src :: int
  qm_type :: string
  qm_msg :: string

datatype 'cb sim_callback = PushBack sim_message | ClientCallback 'cb

record 'cb pending_timer =
  pt_when :: u64
  pt_id :: int
  pt_cb :: "'cb sim_callback"

text \<open>A filter sees the receivers and their numbers, may change the message and the delay, and may drop it.\<close>

type_synonym 'r sim_filter = "'r \<Rightarrow> int \<Rightarrow> 'r option \<Rightarrow> int \<Rightarrow> string \<times> u64 \<Rightarrow> bool \<times> string \<times> u64"

record ('r, 'cb) sim_transport =
  sm_common :: "('r, int) transport_common"
  sm_queue :: "sim_message list"
  sm_endpoints :: "(int, 'r) umap"
  sm_lastAddr :: int
  sm_replicaIdxs :: "(int, int) umap"
  sm_g_replicaIdxs :: "(int, (int, int) umap) umap"
  sm_filters :: "(int \<times> 'r sim_filter) list"
  sm_timers :: "'cb pending_timer list"
  sm_lastTimerId :: int
  sm_vtime :: u64
  sm_processTimers :: bool
  sm_running :: bool
  sm_delivered :: "(int \<times> sim_message) list"

text \<open>\<open>running\<close> is not initialised, and nothing reads it. \<open>sm_delivered\<close> is the trace of deliveries.\<close>

definition SIM_init :: "bool \<Rightarrow> ('r, 'cb) sim_transport" where
  "SIM_init garbage = \<lparr>sm_common = TransportCommon_init, sm_queue = [], sm_endpoints = [], sm_lastAddr = - 1, sm_replicaIdxs = [],
     sm_g_replicaIdxs = [], sm_filters = [], sm_timers = [], sm_lastTimerId = 0, sm_vtime = 0, sm_processTimers = True,
     sm_running = garbage, sm_delivered = []\<rparr>"

definition new_endpoint :: "'r \<Rightarrow> ('r, 'cb) sim_transport \<Rightarrow> ('r, 'cb) sim_transport" where
  "new_endpoint receiver s =
     (let addr = sm_lastAddr s + 1; c = sm_common s in
      s\<lparr>sm_lastAddr := addr, sm_endpoints := um_put addr receiver (sm_endpoints s),
        sm_common := c\<lparr>tc_addressOf := um_put receiver addr (tc_addressOf c)\<rparr>\<rparr>)"

definition SIM_Register :: "'r \<Rightarrow> configuration \<Rightarrow> int \<Rightarrow> ('r, 'cb) sim_transport \<Rightarrow> ('r, 'cb) sim_transport" where
  "SIM_Register receiver config replicaIdx s =
     (let s1 = new_endpoint receiver s in s1\<lparr>sm_replicaIdxs := um_put (sm_lastAddr s1) replicaIdx (sm_replicaIdxs s1)\<rparr>)"

definition SIM_Register_group :: "'r \<Rightarrow> configuration \<Rightarrow> int \<Rightarrow> int \<Rightarrow> ('r, 'cb) sim_transport \<Rightarrow> ('r, 'cb) sim_transport outcome" where
  "SIM_Register_group receiver config groupIdx replicaIdx s =
     (let s1 = new_endpoint receiver s; addr = sm_lastAddr s1 in
      bindE (RegisterConfiguration receiver config groupIdx replicaIdx (sm_common s1)) (\<lambda>(_, c).
      let m = (case map_of (sm_g_replicaIdxs s1) groupIdx of None \<Rightarrow> [(addr, replicaIdx)] | Some m \<Rightarrow> um_put addr replicaIdx m) in
      Inr (s1\<lparr>sm_common := c, sm_g_replicaIdxs := um_put groupIdx m (sm_g_replicaIdxs s1)\<rparr>)))"

text \<open>A multimap puts an entry behind those of the same key.\<close>

fun mm_insert :: "('a \<Rightarrow> 'k :: linorder) \<Rightarrow> 'a \<Rightarrow> 'a list \<Rightarrow> 'a list" where
  "mm_insert f x [] = [x]"
| "mm_insert f x (y # ys) = (if f x < f y then x # y # ys else y # mm_insert f x ys)"

definition SIM_TimerOf :: "u64 \<Rightarrow> 'cb sim_callback \<Rightarrow> ('r, 'cb) sim_transport \<Rightarrow> int \<times> ('r, 'cb) sim_transport" where
  "SIM_TimerOf ms cb s =
     (let i = sm_lastTimerId s + 1 in
      (i, s\<lparr>sm_lastTimerId := i, sm_timers := mm_insert pt_when \<lparr>pt_when = sm_vtime s + ms, pt_id = i, pt_cb = cb\<rparr> (sm_timers s)\<rparr>))"

definition SIM_Timer :: "u64 \<Rightarrow> 'cb \<Rightarrow> ('r, 'cb) sim_transport \<Rightarrow> int \<times> ('r, 'cb) sim_transport" where
  "SIM_Timer ms cb s = SIM_TimerOf ms (ClientCallback cb) s"

definition SIM_CancelTimer :: "int \<Rightarrow> ('r, 'cb) sim_transport \<Rightarrow> bool \<times> ('r, 'cb) sim_transport" where
  "SIM_CancelTimer i s =
     ((\<exists>t \<in> set (sm_timers s). pt_id t = i), s\<lparr>sm_timers := filter (\<lambda>t. pt_id t \<noteq> i) (sm_timers s)\<rparr>)"

definition SIM_CancelAllTimers :: "('r, 'cb) sim_transport \<Rightarrow> ('r, 'cb) sim_transport" where
  "SIM_CancelAllTimers s = s\<lparr>sm_timers := [], sm_processTimers := False\<rparr>"

definition SIM_Stop :: "('r, 'cb) sim_transport \<Rightarrow> ('r, 'cb) sim_transport" where
  "SIM_Stop s = s\<lparr>sm_running := False\<rparr>"

definition SIM_AddFilter :: "int \<Rightarrow> 'r sim_filter \<Rightarrow> ('r, 'cb) sim_transport \<Rightarrow> ('r, 'cb) sim_transport" where
  "SIM_AddFilter i f s = s\<lparr>sm_filters := mm_insert fst (i, f) (sm_filters s)\<rparr>"

definition SIM_RemoveFilter :: "int \<Rightarrow> ('r, 'cb) sim_transport \<Rightarrow> ('r, 'cb) sim_transport" where
  "SIM_RemoveFilter i s = s\<lparr>sm_filters := filter (\<lambda>p. fst p \<noteq> i) (sm_filters s)\<rparr>"

definition replica_idx :: "('r, 'cb) sim_transport \<Rightarrow> int \<Rightarrow> int" where
  "replica_idx s addr = (case map_of (sm_replicaIdxs s) addr of None \<Rightarrow> 0 | Some i \<Rightarrow> i)"

text \<open>The loop over the filters: \<open>None\<close> when one drops the message.\<close>

fun run_filters :: "'r \<Rightarrow> int \<Rightarrow> 'r option \<Rightarrow> int \<Rightarrow> 'r sim_filter list \<Rightarrow> string \<times> u64 \<Rightarrow> (string \<times> u64) option" where
  "run_filters src si dst di [] m = Some m"
| "run_filters src si dst di (f # fs) m =
     (let (go_on, m1) = f src si dst di m in if go_on then run_filters src si dst di fs m1 else None)"

text \<open>The function with four arguments, which the override with three hides from the senders.\<close>

definition SIM_SendMessageInternal :: "'r \<Rightarrow> int \<Rightarrow> string \<times> string \<Rightarrow> bool \<Rightarrow> ('r, 'cb) sim_transport \<Rightarrow> (bool \<times> ('r, 'cb) sim_transport) outcome" where
  "SIM_SendMessageInternal src dst m multicast s =
     assertE (\<not> multicast)
       (case map_of (tc_addressOf (sm_common s)) src of
          None \<Rightarrow> Inl UndefinedBehaviour
        | Some srcAddr \<Rightarrow>
            (case run_filters src (replica_idx s srcAddr) (map_of (sm_endpoints s) dst) (replica_idx s dst) (map snd (sm_filters s)) (snd m, 0) of
               None \<Rightarrow> Inr (True, s)
             | Some (msgData, delay) \<Rightarrow>
                 let q = \<lparr>qm_dst = dst, qm_src = srcAddr, qm_type = fst m, qm_msg = msgData\<rparr> in
                 if delay = 0 then Inr (True, s\<lparr>sm_queue := sm_queue s @ [q]\<rparr>)
                 else Inr (True, snd (SIM_TimerOf delay (PushBack q) s))))"

definition SIM_SendMessageInternal3 :: "'r \<Rightarrow> int \<Rightarrow> string \<times> string \<Rightarrow> ('r, 'cb) sim_transport \<Rightarrow> bool \<times> ('r, 'cb) sim_transport" where
  "SIM_SendMessageInternal3 src dst m s = (True, s)"

definition SIM_SendMessageToReplica :: "'r \<Rightarrow> int \<Rightarrow> int \<Rightarrow> string \<times> string \<Rightarrow> ('r, 'cb) sim_transport \<Rightarrow> bool \<times> ('r, 'cb) sim_transport" where
  "SIM_SendMessageToReplica src groupIdx replicaIdx m s = (True, s)"

text \<open>The first registered receiver of an equal configuration with this number in the table.\<close>

fun find_receiver :: "configuration list \<Rightarrow> configuration \<Rightarrow> ('r, int) umap \<Rightarrow> (int \<Rightarrow> bool) \<Rightarrow> ('r \<times> nat) list \<Rightarrow> int option outcome" where
  "find_receiver configs cfg addrs P [] = Inr None"
| "find_receiver configs cfg addrs P ((r, k) # kvs) =
     (if config_eq (configs ! k) cfg then
        (case map_of addrs r of
           None \<Rightarrow> Inl UndefinedBehaviour
         | Some a \<Rightarrow> if P a then Inr (Some a) else find_receiver configs cfg addrs P kvs)
      else find_receiver configs cfg addrs P kvs)"

definition SIM_LookupAddress :: "('r, 'cb) sim_transport \<Rightarrow> configuration \<Rightarrow> int \<Rightarrow> int outcome" where
  "SIM_LookupAddress s cfg idx =
     (let c = sm_common s in
      bindE (find_receiver (tc_canonicalConfigs c) cfg (tc_addressOf c) (\<lambda>a. replica_idx s a = idx) (tc_configurations c)) (\<lambda>r.
        case r of None \<Rightarrow> Inl Panicked | Some a \<Rightarrow> Inr a))"

text \<open>The one for groups ends without a value when there is none.\<close>

definition SIM_LookupAddress_group :: "('r, 'cb) sim_transport \<Rightarrow> configuration \<Rightarrow> int \<Rightarrow> int \<Rightarrow> int outcome" where
  "SIM_LookupAddress_group s cfg groupIdx idx =
     (let c = sm_common s;
          number = (\<lambda>a. case map_of (sm_g_replicaIdxs s) groupIdx of
            None \<Rightarrow> 0 | Some m \<Rightarrow> (case map_of m a of None \<Rightarrow> 0 | Some i \<Rightarrow> i)) in
      bindE (find_receiver (tc_canonicalConfigs c) cfg (tc_addressOf c) (\<lambda>a. number a = idx) (tc_configurations c)) (\<lambda>r.
        case r of None \<Rightarrow> Inl UndefinedBehaviour | Some a \<Rightarrow> Inr a))"

text \<open>\<open>LookupAddresses\<close> of the common part, with the look-up above.\<close>

fun mapE :: "('x \<Rightarrow> 'y outcome) \<Rightarrow> 'x list \<Rightarrow> 'y list outcome" where
  "mapE f [] = Inr []"
| "mapE f (x # xs) = bindE (f x) (\<lambda>y. bindE (mapE f xs) (\<lambda>ys. Inr (y # ys)))"

definition SIM_LookupAddresses :: "('r, 'cb) sim_transport \<Rightarrow> ('r, 'cb) sim_transport outcome" where
  "SIM_LookupAddresses s =
     (let c = sm_common s in
      bindE (mapE (\<lambda>(k, cfg). bindE (mapE (\<lambda>i. bindE (mapE (\<lambda>j. bindE (SIM_LookupAddress_group s cfg (int i) (int j)) (\<lambda>a. Inr (j, a)))
            [0..<c_n cfg]) (\<lambda>row. Inr (int i, row))) [0..<c_g cfg]) (\<lambda>rows. Inr (k, rows)))
          (enumerate 0 (tc_canonicalConfigs c))) (\<lambda>tables.
        Inr (s\<lparr>sm_common := c\<lparr>tc_replicaAddresses := tables, tc_fcAddresses := [], tc_replicaAddressesInitialized := True\<rparr>\<rparr>)))"

section \<open>Running\<close>

text \<open>The calls a receiver or a callback makes; \<open>CallSend\<close> is a send of any kind, \<open>CallInternal\<close> the hidden function.\<close>

datatype ('r, 'cb) sim_call =
    CallSend 'r int int "string \<times> string"
  | CallInternal 'r int "string \<times> string"
  | CallTimer u64 'cb
  | CallCancel int
  | CallCancelAll
  | CallAddFilter int "'r sim_filter"
  | CallRemoveFilter int
  | CallStop

fun do_call :: "('r, 'cb) sim_call \<Rightarrow> ('r, 'cb) sim_transport \<Rightarrow> ('r, 'cb) sim_transport outcome" where
  "do_call (CallSend src g i m) s = Inr (snd (SIM_SendMessageToReplica src g i m s))"
| "do_call (CallInternal src dst m) s = bindE (SIM_SendMessageInternal src dst m False s) (\<lambda>x. Inr (snd x))"
| "do_call (CallTimer ms cb) s = Inr (snd (SIM_Timer ms cb s))"
| "do_call (CallCancel i) s = Inr (snd (SIM_CancelTimer i s))"
| "do_call CallCancelAll s = Inr (SIM_CancelAllTimers s)"
| "do_call (CallAddFilter i f) s = Inr (SIM_AddFilter i f s)"
| "do_call (CallRemoveFilter i) s = Inr (SIM_RemoveFilter i s)"
| "do_call CallStop s = Inr (SIM_Stop s)"

text \<open>What receivers and the callbacks of clients do.\<close>

record ('r, 'cb, 'w) sim_app =
  on_message :: "'r \<Rightarrow> sim_message \<Rightarrow> 'w \<Rightarrow> 'w \<times> ('r, 'cb) sim_call list"
  on_timer :: "'cb \<Rightarrow> 'w \<Rightarrow> 'w \<times> ('r, 'cb) sim_call list"

text \<open>The front of the queue stays there while it is handled.\<close>

definition sim_deliver :: "('r, 'cb, 'w) sim_app \<Rightarrow> ('r, 'cb) sim_transport \<times> 'w \<Rightarrow> (('r, 'cb) sim_transport \<times> 'w) outcome" where
  "sim_deliver app = (\<lambda>(s, w).
     (case sm_queue s of
        [] \<Rightarrow> Inr (s, w)
      | q # _ \<Rightarrow>
          (case map_of (sm_endpoints s) (qm_dst q) of
             None \<Rightarrow> Inl UndefinedBehaviour
           | Some dst \<Rightarrow>
               let (w1, calls) = on_message app dst q w in
               bindE (foldE do_call calls (s\<lparr>sm_delivered := sm_delivered s @ [(qm_dst q, q)]\<rparr>)) (\<lambda>s1.
                 Inr (s1\<lparr>sm_queue := tl (sm_queue s1)\<rparr>, w1)))))"

definition sim_fire :: "('r, 'cb, 'w) sim_app \<Rightarrow> ('r, 'cb) sim_transport \<times> 'w \<Rightarrow> (('r, 'cb) sim_transport \<times> 'w) outcome" where
  "sim_fire app = (\<lambda>(s, w).
     (case sm_timers s of
        [] \<Rightarrow> Inr (s, w)
      | t # ts \<Rightarrow>
          assertE (pt_when t \<ge> sm_vtime s)
            (let s1 = s\<lparr>sm_vtime := pt_when t, sm_timers := ts\<rparr> in
             case pt_cb t of
               PushBack q \<Rightarrow> Inr (s1\<lparr>sm_queue := sm_queue s1 @ [q]\<rparr>, w)
             | ClientCallback cb \<Rightarrow>
                 let (w1, calls) = on_timer app cb w in bindE (foldE do_call calls s1) (\<lambda>s2. Inr (s2, w1)))))"

text \<open>
  The two nested loops of \<open>Run\<close> as one: a message when there is one, otherwise the earliest
  timer, until there is neither. \<open>None\<close>: it runs for ever.
\<close>

partial_function (option) sim_loop ::
  "('r, 'cb, 'w) sim_app \<Rightarrow> ('r, 'cb) sim_transport \<times> 'w \<Rightarrow> (('r, 'cb) sim_transport \<times> 'w) outcome option" where
  "sim_loop app sw =
     (if sm_queue (fst sw) \<noteq> [] then
        (case sim_deliver app sw of Inl f \<Rightarrow> Some (Inl f) | Inr sw1 \<Rightarrow> sim_loop app sw1)
      else if sm_processTimers (fst sw) \<and> sm_timers (fst sw) \<noteq> [] then
        (case sim_fire app sw of Inl f \<Rightarrow> Some (Inl f) | Inr sw1 \<Rightarrow> sim_loop app sw1)
      else Some (Inr sw))"

definition SIM_Run :: "('r, 'cb, 'w) sim_app \<Rightarrow> ('r, 'cb) sim_transport \<times> 'w \<Rightarrow> (('r, 'cb) sim_transport \<times> 'w) outcome option" where
  "SIM_Run app sw =
     (case SIM_LookupAddresses (fst sw) of Inl f \<Rightarrow> Some (Inl f) | Inr s1 \<Rightarrow> sim_loop app (s1, snd sw))"

section \<open>Timers in virtual time\<close>

definition sim_ok :: "('r, 'cb) sim_transport \<Rightarrow> bool" where
  "sim_ok s \<longleftrightarrow> sorted (map pt_when (sm_timers s)) \<and> (\<forall>t \<in> set (sm_timers s). sm_vtime s \<le> pt_when t \<and> 0 < pt_id t \<and> pt_id t \<le> sm_lastTimerId s) \<and>
     distinct (map pt_id (sm_timers s)) \<and> 0 \<le> sm_lastTimerId s"

lemma set_mm_insert [simp]: "set (mm_insert f x ys) = insert x (set ys)"
  by (induction ys) auto

lemma sorted_mm_insert: "sorted (map f ys) \<Longrightarrow> sorted (map f (mm_insert f x ys))"
proof (induction ys)
  case (Cons y ys)
  show ?case
  proof (cases "f x < f y")
    case True
    then have "\<forall>z \<in> set ys. f x \<le> f z" using Cons.prems by force
    then show ?thesis using True Cons.prems by simp
  next
    case False
    then show ?thesis using Cons by simp
  qed
qed simp

lemma distinct_mm_insert: "distinct (map g (mm_insert f x ys)) \<longleftrightarrow> distinct (map g ys) \<and> g x \<notin> g ` set ys"
  by (induction ys) auto

lemma TimerOf_ok: "sim_ok s \<Longrightarrow> sm_vtime s \<le> sm_vtime s + ms \<Longrightarrow> sim_ok (snd (SIM_TimerOf ms cb s))"
  by (force simp: sim_ok_def SIM_TimerOf_def Let_def sorted_mm_insert distinct_mm_insert)

lemma CancelTimer_ok: "sim_ok s \<Longrightarrow> sim_ok (snd (SIM_CancelTimer i s))"
  by (auto simp: sim_ok_def SIM_CancelTimer_def distinct_map inj_on_def intro: sorted_filter)

lemma CancelAllTimers_ok: "sim_ok s \<Longrightarrow> sim_ok (SIM_CancelAllTimers s)"
  by (simp add: sim_ok_def SIM_CancelAllTimers_def)

text \<open>A call that sets a timer which does not wrap keeps the timers in order.\<close>

fun fits :: "('r, 'cb) sim_transport \<Rightarrow> ('r, 'cb) sim_call \<Rightarrow> bool" where
  "fits s (CallTimer ms cb) = (sm_vtime s \<le> sm_vtime s + ms)"
| "fits s (CallInternal src dst m) = False"
| "fits s _ = True"

lemma do_call_ok: "do_call c s = Inr s' \<Longrightarrow> sim_ok s \<Longrightarrow> fits s c \<Longrightarrow> sim_ok s' \<and> sm_vtime s' = sm_vtime s"
proof (cases c)
  case (CallTimer ms cb)
  then show "do_call c s = Inr s' \<Longrightarrow> sim_ok s \<Longrightarrow> fits s c \<Longrightarrow> sim_ok s' \<and> sm_vtime s' = sm_vtime s"
    using TimerOf_ok [of s ms "ClientCallback cb"] by (auto simp: SIM_Timer_def SIM_TimerOf_def Let_def)
next
  case (CallCancel i)
  then show "do_call c s = Inr s' \<Longrightarrow> sim_ok s \<Longrightarrow> fits s c \<Longrightarrow> sim_ok s' \<and> sm_vtime s' = sm_vtime s"
    using CancelTimer_ok [of s i] by (auto simp: SIM_CancelTimer_def)
qed (auto simp: sim_ok_def SIM_SendMessageToReplica_def SIM_CancelAllTimers_def SIM_AddFilter_def SIM_RemoveFilter_def SIM_Stop_def)

lemma do_calls_no_assert: "foldE do_call cs s \<noteq> Inl AssertFailed"
proof (induction cs arbitrary: s)
  case (Cons c cs)
  have "do_call c s \<noteq> Inl AssertFailed"
    by (cases c) (auto simp: SIM_SendMessageInternal_def bindE_def Let_def split: option.splits)
  then show ?case using Cons by (cases "do_call c s") simp_all
qed simp

text \<open>The assertion that no timer lies in the past holds, and virtual time does not run backwards.\<close>

lemma fire_in_order:
  assumes "sim_ok s"
  shows "sim_fire app (s, w) \<noteq> Inl AssertFailed"
    and "\<lbrakk>sm_timers s = t # ts; pt_cb t = ClientCallback cb; sim_fire app (s, w) = Inr (s', w');
       \<And>s1 c. sm_vtime s1 = pt_when t \<Longrightarrow> c \<in> set (snd (on_timer app cb w)) \<Longrightarrow> fits s1 c\<rbrakk> \<Longrightarrow>
      sim_ok s' \<and> sm_vtime s' = pt_when t \<and> sm_vtime s \<le> pt_when t"
proof -
  show "sim_fire app (s, w) \<noteq> Inl AssertFailed"
    using assms do_calls_no_assert
    by (auto simp: sim_fire_def sim_ok_def Let_def bindE_def split: list.split sim_callback.split prod.split sum.split)
  assume t: "sm_timers s = t # ts" "pt_cb t = ClientCallback cb" and run: "sim_fire app (s, w) = Inr (s', w')"
    and f: "\<And>s1 c. sm_vtime s1 = pt_when t \<Longrightarrow> c \<in> set (snd (on_timer app cb w)) \<Longrightarrow> fits s1 c"
  let ?s1 = "s\<lparr>sm_vtime := pt_when t, sm_timers := ts\<rparr>"
  have "sim_ok ?s1" using assms t by (auto simp: sim_ok_def)
  moreover have "foldE do_call (snd (on_timer app cb w)) ?s1 = Inr s'"
    using run t by (auto simp: sim_fire_def Let_def split: prod.splits)
  ultimately have ok: "sim_ok ?s1" and calls: "foldE do_call (snd (on_timer app cb w)) ?s1 = Inr s'" by simp_all
  have "sim_ok s' \<and> sm_vtime s' = pt_when t"
  proof (rule foldE_invariant [OF calls, where I = "\<lambda>s1. sim_ok s1 \<and> sm_vtime s1 = pt_when t"])
    show "sim_ok ?s1 \<and> sm_vtime ?s1 = pt_when t" using ok by simp
  next
    fix c s1 s2
    assume c: "c \<in> set (snd (on_timer app cb w))" and s1: "sim_ok s1 \<and> sm_vtime s1 = pt_when t" and d: "do_call c s1 = Inr s2"
    from do_call_ok [OF d _ f [OF _ c]] s1 show "sim_ok s2 \<and> sm_vtime s2 = pt_when t" by simp
  qed
  then show "sim_ok s' \<and> sm_vtime s' = pt_when t \<and> sm_vtime s \<le> pt_when t" using assms t by (auto simp: sim_ok_def)
qed

section \<open>Nothing is delivered\<close>

text \<open>What the users of the transport can call.\<close>

fun public :: "('r, 'cb) sim_call \<Rightarrow> bool" where
  "public (CallInternal src dst m) = False"
| "public _ = True"

definition quiet :: "('r, 'cb) sim_transport \<Rightarrow> bool" where
  "quiet s \<longleftrightarrow> sm_queue s = [] \<and> (\<forall>t \<in> set (sm_timers s). \<exists>cb. pt_cb t = ClientCallback cb)"

lemma do_call_quiet: "do_call c s = Inr s' \<Longrightarrow> public c \<Longrightarrow> quiet s \<Longrightarrow> quiet s' \<and> sm_delivered s' = sm_delivered s"
  by (cases c)
    (auto simp: quiet_def SIM_SendMessageToReplica_def SIM_Timer_def SIM_TimerOf_def SIM_CancelTimer_def SIM_CancelAllTimers_def
      SIM_AddFilter_def SIM_RemoveFilter_def SIM_Stop_def Let_def)

lemma fire_quiet:
  assumes pub: "\<And>cb w. list_all public (snd (on_timer app cb w))" and q: "quiet (fst sw)" and run: "sim_fire app sw = Inr sw'"
  shows "quiet (fst sw') \<and> sm_delivered (fst sw') = sm_delivered (fst sw)"
proof -
  obtain s w where sw: "sw = (s, w)" by fastforce
  show ?thesis
  proof (cases "sm_timers s")
    case Nil
    then show ?thesis using q run by (auto simp: sim_fire_def sw)
  next
    case (Cons t ts)
    then obtain cb where cb: "pt_cb t = ClientCallback cb" using q by (auto simp: quiet_def sw)
    obtain w1 cs where cs: "on_timer app cb w = (w1, cs)" by fastforce
    let ?s1 = "s\<lparr>sm_vtime := pt_when t, sm_timers := ts\<rparr>"
    from run Cons cb cs obtain s' where s': "foldE do_call cs ?s1 = Inr s'" "fst sw' = s'" by (auto simp: sim_fire_def sw Let_def)
    have "quiet ?s1 \<and> sm_delivered ?s1 = sm_delivered s" using q Cons by (simp add: quiet_def sw)
    then have "quiet s' \<and> sm_delivered s' = sm_delivered s"
      by (rule foldE_invariant [OF s'(1)]) (use pub [of cb w] do_call_quiet in \<open>auto simp: cs list_all_iff\<close>)
    then show ?thesis using s' by (simp add: sw)
  qed
qed

lemma loop_quiet:
  fixes app :: "('r, 'cb, 'w) sim_app" and sw sw' :: "('r, 'cb) sim_transport \<times> 'w"
  assumes pub: "\<And>cb w. list_all public (snd (on_timer app cb w))" and "sim_loop app sw = Some (Inr sw')" and "quiet (fst sw)"
  shows "sm_delivered (fst sw') = sm_delivered (fst sw)"
proof -
  let ?P = "\<lambda>(a :: ('r, 'cb, 'w) sim_app) (sw :: ('r, 'cb) sim_transport \<times> 'w) (r :: (('r, 'cb) sim_transport \<times> 'w) outcome). a = app \<longrightarrow> (\<forall>sw'. r = Inr sw' \<longrightarrow> quiet (fst sw) \<longrightarrow> sm_delivered (fst sw') = sm_delivered (fst sw))"
  have "?P app sw (Inr sw')"
  proof (rule sim_loop.raw_induct [where P = ?P])
    fix loop and a :: "('r, 'cb, 'w) sim_app" and sw :: "('r, 'cb) sim_transport \<times> 'w" and r :: "(('r, 'cb) sim_transport \<times> 'w) outcome"
    assume ih: "\<And>a sw r. loop a sw = Some r \<Longrightarrow> ?P a sw r"
      and body: "(if sm_queue (fst sw) \<noteq> [] then
        (case sim_deliver a sw of Inl f \<Rightarrow> Some (Inl f) | Inr sw1 \<Rightarrow> loop a sw1)
      else if sm_processTimers (fst sw) \<and> sm_timers (fst sw) \<noteq> [] then
        (case sim_fire a sw of Inl f \<Rightarrow> Some (Inl f) | Inr sw1 \<Rightarrow> loop a sw1)
      else Some (Inr sw)) = Some r"
    show "?P a sw r"
    proof (intro impI allI)
      fix sw'
      assume a: "a = app" and r: "r = Inr sw'" and q: "quiet (fst sw)"
      show "sm_delivered (fst sw') = sm_delivered (fst sw)"
      proof (cases "sm_processTimers (fst sw) \<and> sm_timers (fst sw) \<noteq> []")
        case True
        with body a r q obtain sw1 where f: "sim_fire app sw = Inr sw1" and l: "loop app sw1 = Some (Inr sw')"
          by (auto simp: quiet_def split: sum.splits)
        from ih [OF l] fire_quiet [OF pub q f] show ?thesis by simp
      next
        case False
        with body a r q show ?thesis by (auto simp: quiet_def)
      qed
    qed
  qed (rule assms(2))
  then show ?thesis using assms by blast
qed

text \<open>
  A fault of the code: the sending functions of this transport are overridden by ones that
  only return true. In a run that ends, however many messages receivers and timers have sent,
  the transport has delivered none.
\<close>

lemma simulated_transport_delivers_nothing:
  assumes pub: "\<And>cb w. list_all public (snd (on_timer app cb w))" and run: "SIM_Run app (s, w) = Some (Inr (s', w'))"
    and "quiet s"
  shows "sm_delivered s' = sm_delivered s"
proof -
  from run obtain s1 where s1: "SIM_LookupAddresses s = Inr s1" and l: "sim_loop app (s1, w) = Some (Inr (s', w'))"
    by (auto simp: SIM_Run_def split: sum.splits)
  have "quiet s1 \<and> sm_delivered s1 = sm_delivered s"
    using s1 \<open>quiet s\<close> by (auto simp: SIM_LookupAddresses_def Let_def quiet_def)
  with loop_quiet [OF pub l] show ?thesis by simp
qed

section \<open>The timers of the \<open>Timeout\<close> class\<close>

definition sim_pending :: "('r, 'cb) sim_transport \<Rightarrow> int \<Rightarrow> 'cb sim_callback option" where
  "sim_pending s = map_of (map (\<lambda>t. (pt_id t, pt_cb t)) (sm_timers s))"

definition sim_expire :: "int \<Rightarrow> ('r, 'cb) sim_transport \<Rightarrow> ('r, 'cb) sim_transport" where
  "sim_expire i s = s\<lparr>sm_timers := filter (\<lambda>t. pt_id t \<noteq> i) (sm_timers s)\<rparr>"

definition sim_ids_ok :: "('r, 'cb) sim_transport \<Rightarrow> bool" where
  "sim_ids_ok s \<longleftrightarrow> distinct (map pt_id (sm_timers s)) \<and> (\<forall>t \<in> set (sm_timers s). 0 < pt_id t \<and> pt_id t \<le> sm_lastTimerId s) \<and> 0 \<le> sm_lastTimerId s"

lemma map_of_mm_insert:
  "i x \<notin> i ` set ys \<Longrightarrow> map_of (map (\<lambda>t. (i t, c t)) (mm_insert f x ys)) = (map_of (map (\<lambda>t. (i t, c t)) ys))(i x \<mapsto> c x)"
  by (induction ys) (auto simp: fun_eq_iff)

lemma map_of_filter_key:
  "map_of (map (\<lambda>t. (i t, c t)) (filter (\<lambda>t. i t \<noteq> k) ys)) = (map_of (map (\<lambda>t. (i t, c t)) ys))(k := None)"
  by (induction ys) (auto simp: fun_eq_iff)

text \<open>The timer that \<open>Run\<close> fires, the first one, is taken out of the table.\<close>

lemma fire_expires: "sim_ids_ok s \<Longrightarrow> sm_timers s = t # ts \<Longrightarrow> sim_expire (pt_id t) s = s\<lparr>sm_timers := ts\<rparr>"
proof -
  assume "sim_ids_ok s" and t: "sm_timers s = t # ts"
  then have "pt_id t \<notin> pt_id ` set ts" by (simp add: sim_ids_ok_def)
  then have "filter (\<lambda>t'. pt_id t' \<noteq> pt_id t) ts = ts" by (intro filter_True ballI) (metis image_eqI)
  with t show ?thesis by (simp add: sim_expire_def)
qed

interpretation sim: timer_service SIM_TimerOf SIM_CancelTimer sim_expire sim_pending sim_ids_ok
proof
  fix t :: "('r, 'cb) sim_transport" and ms cb i
  assume ok: "sim_ids_ok t"
  have fresh: "sm_lastTimerId t + 1 \<notin> pt_id ` set (sm_timers t)" using ok by (force simp: sim_ids_ok_def)
  show "sim_ids_ok (snd (SIM_TimerOf ms cb t))"
    using ok fresh by (force simp: sim_ids_ok_def SIM_TimerOf_def Let_def distinct_mm_insert)
  show "sim_ids_ok (snd (SIM_CancelTimer i t))" and "sim_ids_ok (sim_expire i t)"
    using ok by (auto simp: sim_ids_ok_def SIM_CancelTimer_def sim_expire_def distinct_map inj_on_def)
  show "0 < fst (SIM_TimerOf ms cb t)" using ok by (simp add: sim_ids_ok_def SIM_TimerOf_def Let_def)
  show "sim_pending t (fst (SIM_TimerOf ms cb t)) = None"
    using fresh by (force simp: sim_pending_def SIM_TimerOf_def Let_def map_of_eq_None_iff)
  show "sim_pending (snd (SIM_TimerOf ms cb t)) = (sim_pending t)(fst (SIM_TimerOf ms cb t) \<mapsto> cb)"
    using fresh by (simp add: sim_pending_def SIM_TimerOf_def Let_def map_of_mm_insert)
  show "sim_pending (snd (SIM_CancelTimer i t)) = (sim_pending t)(i := None)" and "sim_pending (sim_expire i t) = (sim_pending t)(i := None)"
    by (simp_all add: sim_pending_def SIM_CancelTimer_def sim_expire_def map_of_filter_key)
  show "fst (SIM_CancelTimer i t) \<longleftrightarrow> sim_pending t i \<noteq> None"
    by (force simp: sim_pending_def SIM_CancelTimer_def map_of_eq_None_iff)
qed

text \<open>A timeout on this transport, too, is armed by \<open>Reset\<close> and by nothing else.\<close>

lemma sim_Reset_armed:
  "sim_ids_ok t \<Longrightarrow> Timeout_Reset SIM_TimerOf SIM_CancelTimer (to, t) = (ms, to', t') \<Longrightarrow> armed sim_pending to' t' \<and> sim_ids_ok t'"
  by (drule (1) sim.Reset_pending) simp

end
