(* ===== verification/Measurements.thy ===== *)
theory Measurements
  imports Latency Configuration Timestamps
begin

text \<open>
  The small services of \<open>src/store/common\<close>: promises (\<open>promise.cc\<close>), statistics (\<open>stats.cc\<close>),
  the tracer of requests (\<open>tracer.cc\<close>) and the pings that order replicas by their distance
  (\<open>pinginitiator.cc\<close>, \<open>backend/pingserver.cc\<close>). A member function of a class with a mutex is one
  step; a thread that has to wait gets \<open>None\<close>.
\<close>

section \<open>Promises\<close>

record promise =
  pr_done :: bool
  pr_timeout :: int
  pr_reply :: int
  pr_timestamp :: timestamp
  pr_value :: string

definition Promise_init :: promise where
  "Promise_init = \<lparr>pr_done = False, pr_timeout = 1000, pr_reply = 0, pr_timestamp = Timestamp_zero, pr_value = ''''\<rparr>"

definition Promise_init_timeout :: "int \<Rightarrow> promise" where
  "Promise_init_timeout timeoutMS = Promise_init\<lparr>pr_timeout := timeoutMS\<rparr>"

definition Promise_GetTimeout :: "promise \<Rightarrow> int" where
  "Promise_GetTimeout p = pr_timeout p"

definition ReplyInternal :: "int \<Rightarrow> promise \<Rightarrow> promise" where
  "ReplyInternal r p = p\<lparr>pr_done := True, pr_reply := r\<rparr>"

definition Promise_Reply :: "int \<Rightarrow> promise \<Rightarrow> promise" where
  "Promise_Reply r p = ReplyInternal r p"

definition Promise_Reply_t :: "int \<Rightarrow> timestamp \<Rightarrow> promise \<Rightarrow> promise" where
  "Promise_Reply_t r t p = ReplyInternal r (p\<lparr>pr_timestamp := t\<rparr>)"

definition Promise_Reply_v :: "int \<Rightarrow> string \<Rightarrow> promise \<Rightarrow> promise" where
  "Promise_Reply_v r v p = ReplyInternal r (p\<lparr>pr_value := v\<rparr>)"

definition Promise_Reply_tv :: "int \<Rightarrow> timestamp \<Rightarrow> string \<Rightarrow> promise \<Rightarrow> promise" where
  "Promise_Reply_tv r t v p = ReplyInternal r (p\<lparr>pr_value := v, pr_timestamp := t\<rparr>)"

definition Promise_GetReply :: "promise \<Rightarrow> int option" where
  "Promise_GetReply p = (if pr_done p then Some (pr_reply p) else None)"

definition Promise_GetTimestamp :: "promise \<Rightarrow> timestamp option" where
  "Promise_GetTimestamp p = (if pr_done p then Some (pr_timestamp p) else None)"

definition Promise_GetValue :: "promise \<Rightarrow> string option" where
  "Promise_GetValue p = (if pr_done p then Some (pr_value p) else None)"

datatype promise_reply = PlainReply int | TimestampReply int timestamp | ValueReply int string | FullReply int timestamp string

fun promise_step :: "promise_reply \<Rightarrow> promise \<Rightarrow> promise" where
  "promise_step (PlainReply r) p = Promise_Reply r p"
| "promise_step (TimestampReply r t) p = Promise_Reply_t r t p"
| "promise_step (ValueReply r v) p = Promise_Reply_v r v p"
| "promise_step (FullReply r t v) p = Promise_Reply_tv r t v p"

fun reply_of :: "promise_reply \<Rightarrow> int" where
  "reply_of (PlainReply r) = r"
| "reply_of (TimestampReply r t) = r"
| "reply_of (ValueReply r v) = r"
| "reply_of (FullReply r t v) = r"

lemma promise_step_done: "Promise_GetReply (promise_step r p) = Some (reply_of r)"
  by (cases r) (simp_all add: Promise_GetReply_def Promise_Reply_def Promise_Reply_t_def Promise_Reply_v_def Promise_Reply_tv_def ReplyInternal_def)

text \<open>A thread waits until the first reply, and then reads the latest one.\<close>

lemma promise_waits_for_reply: "Promise_GetReply (fold promise_step rs Promise_init) = (if rs = [] then None else Some (reply_of (last rs)))"
  by (induction rs rule: rev_induct) (simp_all add: promise_step_done, simp add: Promise_GetReply_def Promise_init_def)

section \<open>Statistics\<close>

text \<open>Values are signed integers of 64 bits; a sum beyond them is undefined.\<close>

definition add_i64 :: "int \<Rightarrow> int \<Rightarrow> int outcome" where
  "add_i64 x y = (if - (2 ^ 63) \<le> x + y \<and> x + y < 2 ^ 63 then Inr (x + y) else Inl UndefinedBehaviour)"

record stats =
  statInts :: "(string, int) umap"
  statLists :: "(string, int list) umap"
  statIncLists :: "(string, int list) umap"
  statLoLs :: "(string, u64 list list) umap"

definition Stats_init :: stats where
  "Stats_init = \<lparr>statInts = [], statLists = [], statIncLists = [], statLoLs = []\<rparr>"

definition grown :: "'a \<Rightarrow> nat \<Rightarrow> 'a list \<Rightarrow> 'a list" where
  "grown d n xs = xs @ replicate (n - length xs) d"

definition int_at :: "(string, int) umap \<Rightarrow> string \<Rightarrow> int" where
  "int_at m k = (case map_of m k of None \<Rightarrow> 0 | Some v \<Rightarrow> v)"

definition list_at :: "(string, 'a list) umap \<Rightarrow> string \<Rightarrow> 'a list" where
  "list_at m k = (case map_of m k of None \<Rightarrow> [] | Some v \<Rightarrow> v)"

definition Stats_Increment :: "string \<Rightarrow> int \<Rightarrow> stats \<Rightarrow> stats outcome" where
  "Stats_Increment k amount s = bindE (add_i64 (int_at (statInts s) k) amount) (\<lambda>v. Inr (s\<lparr>statInts := um_put k v (statInts s)\<rparr>))"

definition Stats_IncrementList :: "string \<Rightarrow> nat \<Rightarrow> int \<Rightarrow> stats \<Rightarrow> stats outcome" where
  "Stats_IncrementList k idx amount s =
     (let xs = grown 0 (idx + 1) (list_at (statIncLists s) k) in
      bindE (add_i64 (xs ! idx) amount) (\<lambda>v. Inr (s\<lparr>statIncLists := um_put k (xs[idx := v]) (statIncLists s)\<rparr>)))"

definition Stats_Add :: "string \<Rightarrow> int \<Rightarrow> stats \<Rightarrow> stats" where
  "Stats_Add k v s = s\<lparr>statLists := um_put k (list_at (statLists s) k @ [v]) (statLists s)\<rparr>"

definition Stats_AddList :: "string \<Rightarrow> nat \<Rightarrow> u64 \<Rightarrow> stats \<Rightarrow> stats" where
  "Stats_AddList k idx v s =
     (let xs = grown [] (idx + 1) (list_at (statLoLs s) k) in
      s\<lparr>statLoLs := um_put k (xs[idx := xs ! idx @ [v]]) (statLoLs s)\<rparr>)"

definition newline :: string where
  "newline = [char_of (10 :: nat)]"

definition quote :: string where
  "quote = [char_of (34 :: nat)]"

definition show_int :: "int \<Rightarrow> string" where
  "show_int i = (if i < 0 then ''-'' @ dec (nat (- i)) else dec (nat i))"

fun comma_list :: "int list \<Rightarrow> string" where
  "comma_list [] = ''''"
| "comma_list [x] = show_int x"
| "comma_list (x # xs) = show_int x @ '', '' @ comma_list xs"

definition json_line :: "string \<Rightarrow> string \<Rightarrow> bool \<Rightarrow> string" where
  "json_line k v comma = ''    '' @ quote @ k @ quote @ '': '' @ v @ (if comma then '','' else '''') @ newline"

text \<open>The lines of one map; \<open>later\<close> says whether another map is not empty.\<close>

fun json_lines :: "('v \<Rightarrow> string) \<Rightarrow> bool \<Rightarrow> (string \<times> 'v) list \<Rightarrow> string" where
  "json_lines sh later [] = ''''"
| "json_lines sh later ((k, v) # kvs) = json_line k (sh v) (kvs \<noteq> [] \<or> later) @ json_lines sh later kvs"

text \<open>The code that printed \<open>statLoLs\<close> is commented out.\<close>

definition ExportJSON :: "stats \<Rightarrow> string" where
  "ExportJSON s =
     ''{'' @ newline @
     json_lines show_int (statLists s \<noteq> [] \<or> statIncLists s \<noteq> [] \<or> statLoLs s \<noteq> []) (statInts s) @
     json_lines (\<lambda>v. ''['' @ comma_list v @ '']'') (statIncLists s \<noteq> [] \<or> statLoLs s \<noteq> []) (statLists s) @
     json_lines (\<lambda>v. ''['' @ comma_list v @ '']'') (statLoLs s \<noteq> []) (statIncLists s) @
     ''}'' @ newline"

definition add_each :: "int list \<Rightarrow> int list \<Rightarrow> int list outcome" where
  "add_each xs ys =
     foldE (\<lambda>i zs. bindE (add_i64 (zs ! i) (ys ! i)) (\<lambda>v. Inr (zs[i := v]))) [0..<length ys] (grown 0 (length ys) xs)"

definition Stats_Merge :: "stats \<Rightarrow> stats \<Rightarrow> stats outcome" where
  "Stats_Merge other s =
     bindE (foldE (\<lambda>(k, v). Stats_Increment k v) (statInts other) s) (\<lambda>s1.
     bindE (foldE (\<lambda>(k, l) s. bindE (add_each (list_at (statIncLists s) k) l) (\<lambda>v.
         Inr (s\<lparr>statIncLists := um_put k v (statIncLists s)\<rparr>))) (statIncLists other) s1) (\<lambda>s2.
     let s3 = s2\<lparr>statLists := fold (\<lambda>(k, l) m. um_put k (list_at m k @ l) m) (statLists other) (statLists s2)\<rparr> in
     Inr (s3\<lparr>statLoLs := fold (\<lambda>(k, l) m. um_put k (list_at m k @ l) m) (statLoLs other) (statLoLs s3)\<rparr>)))"

text \<open>
  When only lists of lists were collected beside a counter, the line of the counter ends in a
  comma that nothing follows, which is not JSON.
\<close>

lemma ExportJSON_trailing_comma:
  "ExportJSON (Stats_AddList ''b'' 0 7 (Stats_init\<lparr>statInts := [(''a'', 1)]\<rparr>)) =
     ''{'' @ newline @ ''    '' @ quote @ ''a'' @ quote @ '': 1,'' @ newline @ ''}'' @ newline"
proof -
  have "char_of (49 :: nat) = CHR ''1''" by code_simp
  then show ?thesis by (simp add: ExportJSON_def Stats_AddList_def Stats_init_def Let_def json_line_def show_int_def dec.simps)
qed

lemma int_at_put: "int_at (um_put k v m) k' = (if k' = k then v else int_at m k')"
  by (simp add: int_at_def)

text \<open>A merge that stays in range adds the counters of the two, whatever the order of their tables.\<close>

lemma increments_sum:
  "foldE (\<lambda>(k, v). Stats_Increment k v) kvs s = Inr s' \<Longrightarrow> distinct (map fst kvs) \<Longrightarrow>
    int_at (statInts s') k = int_at (statInts s) k + int_at kvs k \<and>
    statLists s' = statLists s \<and> statIncLists s' = statIncLists s \<and> statLoLs s' = statLoLs s"
proof (induction kvs arbitrary: s)
  case Nil
  then show ?case by (simp add: int_at_def)
next
  case (Cons p kvs)
  obtain j v where p: "p = (j, v)" by fastforce
  from Cons.prems(1) obtain s1 where s1: "Stats_Increment j v s = Inr s1" and rest: "foldE (\<lambda>(k, v). Stats_Increment k v) kvs s1 = Inr s'"
    by (auto simp: p)
  have "map_of kvs j = None" using Cons.prems(2) by (simp add: p map_of_eq_None_iff)
  moreover have "int_at (statInts s1) k = (if k = j then int_at (statInts s) j + v else int_at (statInts s) k)"
    and "statLists s1 = statLists s \<and> statIncLists s1 = statIncLists s \<and> statLoLs s1 = statLoLs s"
    using s1 by (auto simp: Stats_Increment_def add_i64_def int_at_put split: if_splits)
  moreover note Cons.IH [OF rest]
  ultimately show ?case using Cons.prems(2) by (auto simp: p int_at_def)
qed

section \<open>Tracing\<close>

record request_trace =
  rt_is_tracing :: bool
  rt_start_time :: u64
  rt_curr_stage :: "8 word"
  rt_max_stage :: "8 word"
  rt_stage :: "u32 list"
  rt_n_traces :: u32

type_synonym tracer = "(string, request_trace) umap"

definition Trace_Init :: "string \<Rightarrow> tracer \<Rightarrow> tracer" where
  "Trace_Init name m = um_put name \<lparr>rt_is_tracing = False, rt_start_time = - 1, rt_curr_stage = - 1, rt_max_stage = 0,
     rt_stage = replicate 16 0, rt_n_traces = 0\<rparr> m"

text \<open>A name that was not registered is a null pointer. \<open>now\<close> is the time in microseconds.\<close>

definition with_trace :: "string \<Rightarrow> (request_trace \<Rightarrow> request_trace outcome) \<Rightarrow> tracer \<Rightarrow> tracer outcome" where
  "with_trace name f m = (case map_of m name of None \<Rightarrow> Inl UndefinedBehaviour | Some t \<Rightarrow> bindE (f t) (\<lambda>t1. Inr (um_put name t1 m)))"

definition add_stage :: "u64 \<Rightarrow> request_trace \<Rightarrow> request_trace outcome" where
  "add_stage now t =
     (let i = unat (rt_curr_stage t) in
      if 16 \<le> i then Inl UndefinedBehaviour
      else Inr (t\<lparr>rt_stage := (rt_stage t)[i := ucast (ucast (rt_stage t ! i) + (now - rt_start_time t))]\<rparr>))"

definition Trace_Start :: "u64 \<Rightarrow> string \<Rightarrow> tracer \<Rightarrow> tracer outcome" where
  "Trace_Start now name = with_trace name (\<lambda>t. Inr (t\<lparr>rt_is_tracing := True, rt_start_time := now, rt_curr_stage := 0\<rparr>))"

definition Trace_Save :: "u64 \<Rightarrow> string \<Rightarrow> tracer \<Rightarrow> tracer outcome" where
  "Trace_Save now name = with_trace name (\<lambda>t. bindE (add_stage now t) (\<lambda>t1. Inr (t1\<lparr>rt_curr_stage := rt_curr_stage t1 + 1\<rparr>)))"

definition Trace_Stop :: "u64 \<Rightarrow> string \<Rightarrow> tracer \<Rightarrow> tracer outcome" where
  "Trace_Stop now name = with_trace name (\<lambda>t. bindE (add_stage now t) (\<lambda>t1.
     Inr (t1\<lparr>rt_max_stage := (if rt_max_stage t1 \<le> rt_curr_stage t1 then rt_curr_stage t1 + 1 else rt_max_stage t1),
       rt_n_traces := rt_n_traces t1 + 1, rt_is_tracing := False\<rparr>)))"

text \<open>The averages that \<open>Trace_Flush\<close> leaves in the stages and what it prints of each.\<close>

fun flush_stages :: "u32 \<Rightarrow> nat list \<Rightarrow> u32 list \<Rightarrow> (u32 list \<times> u32 list) outcome" where
  "flush_stages n [] st = Inr ([], st)"
| "flush_stages n (i # is) st =
     (if n = 0 \<or> length st \<le> i then Inl UndefinedBehaviour
      else let st1 = st[i := st ! i div n] in
        bindE (flush_stages n is st1) (\<lambda>(ds, st2). Inr ((if i > 0 then st1 ! i - st1 ! (i - 1) else st1 ! i) # ds, st2)))"

definition Trace_Flush :: "string \<Rightarrow> tracer \<Rightarrow> (u32 list \<times> tracer) outcome" where
  "Trace_Flush name m =
     (case map_of m name of
        None \<Rightarrow> Inl UndefinedBehaviour
      | Some t \<Rightarrow> bindE (flush_stages (rt_n_traces t) [0..<unat (rt_max_stage t)] (rt_stage t)) (\<lambda>(ds, st).
          Inr (ds, um_put name (t\<lparr>rt_stage := st\<rparr>) m)))"

text \<open>Saving a stage before the first start writes to stage number 255 of 16.\<close>

lemma save_before_start: "Trace_Save now name (Trace_Init name m) = Inl UndefinedBehaviour"
proof -
  have "unat (- 1 :: 8 word) = 255" by (simp add: unsigned_minus_1_eq_mask mask_eq_exp_minus_1)
  then show ?thesis by (simp add: Trace_Save_def with_trace_def Trace_Init_def add_stage_def Let_def)
qed

section \<open>Pings\<close>

text \<open>\<open>PingServer\<close> sends the message back; a message is its salt.\<close>

definition HandlePingMessage :: "'remote \<Rightarrow> u64 \<Rightarrow> 'remote \<times> u64" where
  "HandlePingMessage remote ping = (remote, ping)"

text \<open>
  \<open>done\<close> is not initialised by the constructor, so that its first value is an argument. Tables are
  of \<open>std::map\<close>, in the order of their keys where the order is used. \<open>pi_sent\<close> is the trace of pings.
\<close>

record ping_initiator =
  pi_numReplicas :: nat
  pi_done :: bool
  pi_outstandingSalts :: "(u64, nat \<times> timespec) umap"
  pi_roundTripEstimates :: "(nat, u64) umap"
  pi_orderedReplicas :: "nat list"
  pi_orderedEstimates :: "u64 list"
  pi_sent :: "(nat \<times> u64) list"

definition PingInitiator_init :: "nat \<Rightarrow> bool \<Rightarrow> ping_initiator" where
  "PingInitiator_init n garbage = \<lparr>pi_numReplicas = n, pi_done = garbage, pi_outstandingSalts = [], pi_roundTripEstimates = [],
     pi_orderedReplicas = [], pi_orderedEstimates = [], pi_sent = []\<rparr>"

text \<open>\<open>salt\<close> is what the random generator gives.\<close>

definition PI_SendPing :: "timespec option \<Rightarrow> u64 \<Rightarrow> nat \<Rightarrow> ping_initiator \<Rightarrow> ping_initiator outcome" where
  "PI_SendPing now salt replica s =
     bindE (clock now) (\<lambda>start.
       Inr (s\<lparr>pi_outstandingSalts := um_emplace salt (replica, start) (pi_outstandingSalts s), pi_sent := pi_sent s @ [(replica, salt)]\<rparr>))"

definition StartPings :: "(nat \<Rightarrow> timespec option) \<Rightarrow> (nat \<Rightarrow> u64) \<Rightarrow> ping_initiator \<Rightarrow> ping_initiator outcome" where
  "StartPings clocks salts s = foldE (\<lambda>i. PI_SendPing (clocks i) (salts i) i) [0..<pi_numReplicas s] s"

text \<open>The timer of \<open>StartPings\<close>: a set of pairs orders the estimates, equal ones by replica.\<close>

definition PI_OnTimer :: "ping_initiator \<Rightarrow> ping_initiator" where
  "PI_OnTimer s =
     (let sortedEstimates = sort_key fst (sort_key snd (map (\<lambda>(r, e). (e, r)) (pi_roundTripEstimates s))) in
      s\<lparr>pi_orderedReplicas := map snd sortedEstimates, pi_orderedEstimates := map fst sortedEstimates, pi_done := True\<rparr>)"

text \<open>\<open>blend e r\<close> is the floating-point average \<open>(1 - alpha) * e + alpha * r\<close>, cut to an integer.\<close>

definition HandlePingResponse :: "(u64 \<Rightarrow> u64 \<Rightarrow> u64) \<Rightarrow> timespec option \<Rightarrow> timespec option \<Rightarrow> u64 \<Rightarrow> u64 \<Rightarrow> ping_initiator \<Rightarrow> ping_initiator outcome" where
  "HandlePingResponse blend now now' salt' salt s =
     (case map_of (pi_outstandingSalts s) salt of
        None \<Rightarrow> Inr s
      | Some (replica, start) \<Rightarrow>
          bindE (clock now) (\<lambda>t.
          let roundTrip = timespec_delta start t;
              s1 = (case map_of (pi_roundTripEstimates s) replica of
                  None \<Rightarrow> s\<lparr>pi_roundTripEstimates := um_put replica roundTrip (pi_roundTripEstimates s)\<rparr>
                | Some e \<Rightarrow> s\<lparr>pi_roundTripEstimates := um_put replica (blend e roundTrip) (pi_roundTripEstimates s)\<rparr>)
          in bindE (if \<not> pi_done s1 then PI_SendPing now' salt' replica s1 else Inr s1) (\<lambda>s2.
            Inr (s2\<lparr>pi_outstandingSalts := um_erase salt (pi_outstandingSalts s2)\<rparr>))))"

text \<open>The timer leaves every replica that answered once, nearest first, equal ones in their order.\<close>

lemma ordered_replicas:
  assumes "distinct (map fst (pi_roundTripEstimates s))"
  shows "set (pi_orderedReplicas (PI_OnTimer s)) = fst ` set (pi_roundTripEstimates s)"
    and "distinct (pi_orderedReplicas (PI_OnTimer s))"
    and "sorted (pi_orderedEstimates (PI_OnTimer s))"
    and "list_all2 (\<lambda>r e. map_of (pi_roundTripEstimates s) r = Some e) (pi_orderedReplicas (PI_OnTimer s)) (pi_orderedEstimates (PI_OnTimer s))"
proof -
  let ?xs = "map (\<lambda>(r, e). (e, r)) (pi_roundTripEstimates s)"
  let ?ys = "sort_key fst (sort_key snd ?xs)"
  show "set (pi_orderedReplicas (PI_OnTimer s)) = fst ` set (pi_roundTripEstimates s)"
    by (force simp: PI_OnTimer_def Let_def)
  have m: "map snd ?xs = map fst (pi_roundTripEstimates s)" by (simp add: case_prod_beta)
  have "distinct ?xs" using assms by (metis distinct_map m)
  moreover have "inj_on snd (set ?xs)" using assms by (metis distinct_map m)
  ultimately show "distinct (pi_orderedReplicas (PI_OnTimer s))" by (simp add: PI_OnTimer_def Let_def distinct_map)
  show "sorted (pi_orderedEstimates (PI_OnTimer s))" by (simp add: PI_OnTimer_def Let_def)
  have "list_all (\<lambda>(e, r). map_of (pi_roundTripEstimates s) r = Some e) ?ys"
    using assms by (auto simp: list_all_iff)
  then show "list_all2 (\<lambda>r e. map_of (pi_roundTripEstimates s) r = Some e) (pi_orderedReplicas (PI_OnTimer s)) (pi_orderedEstimates (PI_OnTimer s))"
    by (simp add: PI_OnTimer_def Let_def list_all2_map1 list_all2_map2 list_all2_same list_all_iff case_prod_beta)
qed

text \<open>After the timer no ping is sent any more; each answer takes one of those on their way.\<close>

lemma no_pings_when_done:
  "pi_done s \<Longrightarrow> HandlePingResponse blend now now' salt' salt s = Inr s' \<Longrightarrow>
    pi_done s' \<and> pi_sent s' = pi_sent s \<and> pi_outstandingSalts s' = um_erase salt (pi_outstandingSalts s)"
  by (auto simp: HandlePingResponse_def Let_def delete_idem map_of_eq_None_iff split: option.splits prod.splits if_splits)

end
