(* ===== verification/BenchClient.thy ===== *)
theory BenchClient
  imports Measurements StrongClient
begin

text \<open>
  The driver of the experiments: the benchmark client (\<open>store/benchmark/async/bench_client.{h,cc}\<close>),
  which starts sessions and runs transactions in them, and the transactions of Retwis
  (\<open>retwis/\<close>). Random draws, clocks and floating-point results are arguments. What it asks of
  the clients of the store and of the timers goes to \<open>b_out\<close>, in the order of the code; a session
  is known by its number, and the client it is at by its index.
\<close>

section \<open>Operations and transactions\<close>

datatype operation =
    BEGIN_RW
  | BEGIN_RO
  | GET key
  | GET_FOR_UPDATE key
  | PUT key val
  | COMMIT
  | ABORT
  | WAIT
  | ROCOMMIT "key list"

datatype retwis_kind = AddUser | Follow | PostTweet | GetTimeline

record retwis_transaction =
  rw_kind :: retwis_kind
  rw_keys :: "key list"

definition GetTransactionType :: "retwis_transaction \<Rightarrow> string" where
  "GetTransactionType t = (case rw_kind t of AddUser \<Rightarrow> ''add_user'' | Follow \<Rightarrow> ''follow'' | PostTweet \<Rightarrow> ''post_tweet'' | GetTimeline \<Rightarrow> ''get_timeline'')"

text \<open>\<open>draw\<close> is the number of the key that the selector draws for each place.\<close>

definition RetwisTransaction_init :: "retwis_kind \<Rightarrow> nat \<Rightarrow> key list \<Rightarrow> (nat \<Rightarrow> nat) \<Rightarrow> retwis_transaction" where
  "RetwisTransaction_init kind numKeys keys draw = \<lparr>rw_kind = kind, rw_keys = map (\<lambda>i. keys ! draw i) [0..<numKeys]\<rparr>"

definition UniformKeySelector_GetKey :: "u32 \<Rightarrow> nat \<Rightarrow> nat outcome" where
  "UniformKeySelector_GetKey r numKeys = (if numKeys = 0 then Inl UndefinedBehaviour else Inr (unat r mod numKeys))"

definition AddUser_op :: "retwis_transaction \<Rightarrow> nat \<Rightarrow> operation" where
  "AddUser_op t op_index =
     (if op_index = 0 then BEGIN_RW
      else if op_index = 1 then GET_FOR_UPDATE (rw_keys t ! 0)
      else if op_index < 5 then PUT (rw_keys t ! (op_index - 1)) (rw_keys t ! (op_index - 1))
      else if op_index = 5 then COMMIT
      else WAIT)"

definition Follow_op :: "retwis_transaction \<Rightarrow> nat \<Rightarrow> operation" where
  "Follow_op t op_index =
     (if op_index = 0 then BEGIN_RW
      else if op_index = 1 then GET_FOR_UPDATE (rw_keys t ! 0)
      else if op_index = 2 then PUT (rw_keys t ! 0) (rw_keys t ! 0)
      else if op_index = 3 then GET_FOR_UPDATE (rw_keys t ! 1)
      else if op_index = 4 then PUT (rw_keys t ! 1) (rw_keys t ! 1)
      else if op_index = 5 then COMMIT
      else WAIT)"

definition PostTweet_op :: "retwis_transaction \<Rightarrow> nat \<Rightarrow> operation" where
  "PostTweet_op t op_index =
     (if op_index = 0 then BEGIN_RW
      else if op_index < 7 then
        (let k = (op_index - 1) div 2 in
         if op_index mod 2 = 0 then PUT (rw_keys t ! k) (rw_keys t ! k) else GET_FOR_UPDATE (rw_keys t ! k))
      else if op_index = 7 then PUT (rw_keys t ! 3) (rw_keys t ! 3)
      else if op_index = 8 then PUT (rw_keys t ! 4) (rw_keys t ! 4)
      else if op_index = 9 then COMMIT
      else WAIT)"

definition GetTimeline_op :: "retwis_transaction \<Rightarrow> nat \<Rightarrow> operation" where
  "GetTimeline_op t op_index =
     (if op_index = 0 then BEGIN_RO
      else if op_index = 1 then ROCOMMIT (remdups (rw_keys t))
      else WAIT)"

definition GetNextOperation :: "retwis_transaction \<Rightarrow> nat \<Rightarrow> operation" where
  "GetNextOperation t = (case rw_kind t of
     AddUser \<Rightarrow> AddUser_op t | Follow \<Rightarrow> Follow_op t | PostTweet \<Rightarrow> PostTweet_op t | GetTimeline \<Rightarrow> GetTimeline_op t)"

text \<open>\<open>r\<close> and \<open>r2\<close> are the draws of the generator; the second is for the number of keys of a time line.\<close>

definition GetNextTransaction :: "u32 \<Rightarrow> u32 \<Rightarrow> key list \<Rightarrow> (nat \<Rightarrow> nat) \<Rightarrow> retwis_transaction" where
  "GetNextTransaction r r2 keys draw =
     (let ttype = unat r mod 100 in
      if ttype < 5 then RetwisTransaction_init AddUser 4 keys draw
      else if ttype < 20 then RetwisTransaction_init Follow 2 keys draw
      else if ttype < 50 then RetwisTransaction_init PostTweet 5 keys draw
      else RetwisTransaction_init GetTimeline (1 + unat r2 mod 10) keys draw)"

section \<open>The client\<close>

record bench_time =
  val_sec :: int
  val_usec :: int

definition timeval_sub :: "bench_time \<Rightarrow> bench_time \<Rightarrow> bench_time" where
  "timeval_sub a b =
     (if val_usec a < val_usec b
      then \<lparr>val_sec = val_sec a - val_sec b - 1, val_usec = val_usec a + 1000000 - val_usec b\<rparr>
      else \<lparr>val_sec = val_sec a - val_sec b, val_usec = val_usec a - val_usec b\<rparr>)"

datatype bench_mode = UNKNOWN_MODE | OPEN_MODE | CLOSED_MODE

datatype bench_state = WARM_UP | MEASURE | COOL_DOWN | DONE

text \<open>What is asked of a client of the store, by its index, for a session; then the timers.\<close>

datatype bench_event =
    BBeginSession nat u64
  | BContinueSession nat nat u64
  | BEndSession nat u64
  | BBegin nat u64
  | BRetry nat u64
  | BGet nat u64 key
  | BGetForUpdate nat u64 key
  | BPut nat u64 key val
  | BCommit nat u64
  | BAbort nat u64 transaction_status
  | BROCommit nat u64 "key list"
  | BForceAbort nat u64
  | BTimerWarmup int
  | BTimerSendNext u64
  | BTimerSendNextInSession u64 u64
  | BTimerRetry u64 u64
  | BTimerCleanup int
  | BTimerCleanupContinue
  | BDone

record bench_session =
  ss_lat :: latency_frame
  ss_transaction :: retwis_transaction
  ss_n_attempts :: u64
  ss_op_index :: nat
  ss_client :: nat

record bench_config =
  bc_nclients :: nat
  bc_mode :: bench_mode
  bc_mpl :: int
  bc_exp_duration :: int
  bc_warmupSec :: int
  bc_cooldownSec :: int
  bc_maxBackoff :: u64
  bc_abortBackoff :: u64
  bc_retryAborted :: bool
  bc_maxAttempts :: int

record bench =
  b_session_states :: "(u64, bench_session) umap"
  b_n_sessions_started :: int
  b_n :: int
  b_started :: bool
  b_done :: bool
  b_cooldownStarted :: bool
  b_startTime :: bench_time
  b_latency :: latency
  b_latencies :: "u64 list"
  b_stats :: stats
  b_out :: "bench_event list"

definition bench_emit :: "bench_event \<Rightarrow> bench \<Rightarrow> bench" where
  "bench_emit e b = b\<lparr>b_out := b_out b @ [e]\<rparr>"

definition count_stat :: "string \<Rightarrow> bench \<Rightarrow> bench outcome" where
  "count_stat k b = bindE (Stats_Increment k 1 (b_stats b)) (\<lambda>s. Inr (b\<lparr>b_stats := s\<rparr>))"

definition put_state :: "u64 \<Rightarrow> bench_session \<Rightarrow> bench \<Rightarrow> bench" where
  "put_state sid ss b = b\<lparr>b_session_states := um_put sid ss (b_session_states b)\<rparr>"

text \<open>Nearly every function starts by looking the session up.\<close>

definition with_state :: "u64 \<Rightarrow> bench \<Rightarrow> (bench_session \<Rightarrow> 'a outcome) \<Rightarrow> 'a outcome" where
  "with_state sid b f = (case map_of (b_session_states b) sid of None \<Rightarrow> Inl AssertFailed | Some ss \<Rightarrow> f ss)"

definition Bench_Start :: "bench_config \<Rightarrow> bench_time \<Rightarrow> bench \<Rightarrow> bench" where
  "Bench_Start cf now b =
     bench_emit (BTimerSendNext 0) ((bench_emit (BTimerWarmup (bc_warmupSec cf * 1000)) (b\<lparr>b_n_sessions_started := 0, b_n := 0\<rparr>))
       \<lparr>b_startTime := now\<rparr>)"

definition fresh_state :: "retwis_transaction \<Rightarrow> nat \<Rightarrow> bench_session" where
  "fresh_state t i = \<lparr>ss_lat = \<lparr>lf_start = \<lparr>tv_sec = 0, tv_nsec = 0\<rparr>, lf_accum = 0, lf_parent = None\<rparr>, ss_transaction = t,
     ss_n_attempts = 1, ss_op_index = 1, ss_client = i\<rparr>"

text \<open>The first operation of a transaction must be a begin.\<close>

definition begin_first :: "retwis_transaction \<Rightarrow> nat \<Rightarrow> u64 \<Rightarrow> bench \<Rightarrow> bench outcome" where
  "begin_first t i sid b =
     (case GetNextOperation t 0 of
        BEGIN_RO \<Rightarrow> Inr (bench_emit (BBegin i sid) b)
      | BEGIN_RW \<Rightarrow> Inr (bench_emit (BBegin i sid) b)
      | _ \<Rightarrow> Inl NotReachable)"

text \<open>Whether another session is started, and when.\<close>

definition next_session :: "bench_config \<Rightarrow> u64 \<Rightarrow> bench \<Rightarrow> bench outcome" where
  "next_session cf arrival b =
     (if \<not> b_cooldownStarted b then
        (case bc_mode cf of
           OPEN_MODE \<Rightarrow> Inr (bench_emit (BTimerSendNext arrival) b)
         | CLOSED_MODE \<Rightarrow> Inr (if b_n_sessions_started b < bc_mpl cf then bench_emit (BTimerSendNext 0) b else b)
         | UNKNOWN_MODE \<Rightarrow> Inl Panicked)
      else Inr b)"

text \<open>\<open>sid\<close> is the number of the session the client makes, \<open>t\<close> the next transaction, \<open>arrival\<close> the drawn time.\<close>

definition Bench_SendNext :: "bench_config \<Rightarrow> u64 \<Rightarrow> retwis_transaction \<Rightarrow> u64 \<Rightarrow> timespec option \<Rightarrow> bench \<Rightarrow> bench outcome" where
  "Bench_SendNext cf sid t arrival now b =
     (if bc_nclients cf = 0 then Inl UndefinedBehaviour
      else let b1 = b\<lparr>b_n_sessions_started := b_n_sessions_started b + 1\<rparr>;
               i = nat (b_n_sessions_started b1) mod bc_nclients cf;
               b2 = bench_emit (BBeginSession i sid) b1
        in bindE (count_stat (GetTransactionType t @ ''_attempts'') b2) (\<lambda>b3.
           let b4 = b3\<lparr>b_session_states := um_emplace sid (fresh_state t i) (b_session_states b3)\<rparr> in
           with_state sid b4 (\<lambda>ss.
           bindE (U_Latency_StartRec now (ss_lat ss)) (\<lambda>fr.
           bindE (begin_first t i sid (put_state sid (ss\<lparr>ss_lat := fr\<rparr>) b4)) (\<lambda>b5. next_session cf arrival b5)))))"

text \<open>\<open>ContinueSession\<close> gives a session of the same number (\<open>ContinueSession\<close> of the store's client).\<close>

definition Bench_SendNextInSession :: "bench_config \<Rightarrow> u64 \<Rightarrow> retwis_transaction \<Rightarrow> bool \<Rightarrow> timespec option \<Rightarrow> bench \<Rightarrow> bench outcome" where
  "Bench_SendNextInSession cf sid t switch now b =
     with_state sid b (\<lambda>ss.
     bindE (count_stat (GetTransactionType t @ ''_attempts'') b) (\<lambda>b1.
     bindE (if switch then
         (if bc_nclients cf = 0 then Inl UndefinedBehaviour
          else let i = (ss_client ss + 1) mod bc_nclients cf in
            Inr (i, bench_emit (BContinueSession (ss_client ss) i sid) (bench_emit (BEndSession (ss_client ss) sid) b1)))
       else Inr (ss_client ss, b1)) (\<lambda>(i, b2).
     let ss1 = ss\<lparr>ss_transaction := t, ss_client := i, ss_n_attempts := 1, ss_op_index := 1\<rparr> in
     bindE (U_Latency_StartRec now (ss_lat ss1)) (\<lambda>fr.
       begin_first t i sid (put_state sid (ss1\<lparr>ss_lat := fr\<rparr>) b2)))))"

definition Bench_ExecuteNextOperation :: "u64 \<Rightarrow> bench \<Rightarrow> bench outcome" where
  "Bench_ExecuteNextOperation sid b =
     with_state sid b (\<lambda>ss.
     let i = ss_client ss; b1 = put_state sid (ss\<lparr>ss_op_index := ss_op_index ss + 1\<rparr>) b in
     case GetNextOperation (ss_transaction ss) (ss_op_index ss) of
       GET k \<Rightarrow> Inr (bench_emit (BGet i sid k) b1)
     | GET_FOR_UPDATE k \<Rightarrow> Inr (bench_emit (BGetForUpdate i sid k) b1)
     | PUT k v \<Rightarrow> Inr (bench_emit (BPut i sid k v) b1)
     | COMMIT \<Rightarrow> Inr (bench_emit (BCommit i sid) b1)
     | ABORT \<Rightarrow> Inr (bench_emit (BAbort i sid ABORTED_USER) b1)
     | ROCOMMIT ks \<Rightarrow> Inr (bench_emit (BROCommit i sid ks) b1)
     | WAIT \<Rightarrow> Inr b1
     | _ \<Rightarrow> Inl NotReachable)"

definition Bench_ExecuteAbort :: "u64 \<Rightarrow> transaction_status \<Rightarrow> bench \<Rightarrow> bench outcome" where
  "Bench_ExecuteAbort sid status b = with_state sid b (\<lambda>ss. Inr (bench_emit (BAbort (ss_client ss) sid status) b))"

definition Bench_GetCallback :: "u64 \<Rightarrow> int \<Rightarrow> bench \<Rightarrow> bench outcome" where
  "Bench_GetCallback sid status b =
     with_state sid b (\<lambda>ss.
       if status = 0 then Bench_ExecuteNextOperation sid b
       else if status = 1 then Bench_ExecuteAbort sid ABORTED_SYSTEM b
       else Inl Panicked)"

definition Bench_PutCallback :: "u64 \<Rightarrow> int \<Rightarrow> bench \<Rightarrow> bench outcome" where
  "Bench_PutCallback sid status b =
     with_state sid b (\<lambda>ss.
       if status = 0 then Bench_ExecuteNextOperation sid b
       else if status = 1 then Bench_ExecuteAbort sid ABORTED_SYSTEM b
       else Inl Panicked)"

text \<open>A read that times out is sent again, as a plain read also when it was one for update.\<close>

definition Bench_GetTimeout :: "u64 \<Rightarrow> key \<Rightarrow> bench \<Rightarrow> bench outcome" where
  "Bench_GetTimeout sid k b = with_state sid b (\<lambda>ss. Inr (bench_emit (BGet (ss_client ss) sid k) b))"

text \<open>The cool-down is taken off by the length of the warm-up.\<close>

definition GetBenchState :: "bench_config \<Rightarrow> bench_time \<Rightarrow> bench \<Rightarrow> bench_state" where
  "GetBenchState cf now b =
     (let diff = timeval_sub now (b_startTime b) in
      if val_sec diff > bc_exp_duration cf then DONE
      else if val_sec diff > bc_exp_duration cf - bc_warmupSec cf then COOL_DOWN
      else if b_started b then MEASURE
      else WARM_UP)"

definition Bench_Finish :: "bench_config \<Rightarrow> bench \<Rightarrow> bench" where
  "Bench_Finish cf b = bench_emit (BTimerCleanup (bc_cooldownSec cf * 1000000)) (b\<lparr>b_cooldownStarted := True\<rparr>)"

text \<open>The latency of the transaction that ends; that of one that commits is also kept.\<close>

definition record_reply :: "timespec option \<Rightarrow> u64 \<Rightarrow> transaction_status \<Rightarrow> bench_session \<Rightarrow> bench \<Rightarrow> bench outcome" where
  "record_reply now sid result ss b =
     (if \<not> b_cooldownStarted b then
        bindE (U_Latency_EndRecType now (ss_lat ss) (CHR ''='') (b_latency b)) (\<lambda>(ns, fr, l).
          Inr (put_state sid (ss\<lparr>ss_lat := fr\<rparr>)
            (b\<lparr>b_latency := l, b_latencies := (if result = COMMITTED_STATUS then b_latencies b @ [ns] else b_latencies b)\<rparr>)))
      else Inr b)"

definition check_finish :: "bench_config \<Rightarrow> bench_time \<Rightarrow> bench \<Rightarrow> bench" where
  "check_finish cf today b =
     (let state = GetBenchState cf today b in
      if (state = COOL_DOWN \<or> state = DONE) \<and> \<not> b_cooldownStarted b then Bench_Finish cf b else b)"

text \<open>\<open>now\<close> is the clock of the measurement, \<open>today\<close> that of the state.\<close>

definition Bench_OnReply :: "bench_config \<Rightarrow> timespec option \<Rightarrow> bench_time \<Rightarrow> u64 \<Rightarrow> transaction_status \<Rightarrow> bool \<Rightarrow> bench \<Rightarrow> bench outcome" where
  "Bench_OnReply cf now today sid result erase_session b =
     with_state sid b (\<lambda>ss.
     bindE (if b_started b then bindE (record_reply now sid result ss b) (\<lambda>b1. Inr (check_finish cf today b1)) else Inr b) (\<lambda>b2.
     let b3 = (if erase_session then
           (bench_emit (BEndSession (ss_client ss) sid) b2)\<lparr>b_session_states := um_erase sid (b_session_states b2)\<rparr>
         else b2)
     in Inr (b3\<lparr>b_n := b_n b3 + 1\<rparr>)))"

definition status_code :: "transaction_status \<Rightarrow> nat" where
  "status_code s = (case s of COMMITTED_STATUS \<Rightarrow> 0 | ABORTED_USER \<Rightarrow> 1 | ABORTED_SYSTEM \<Rightarrow> 2 | ABORTED_MAX_RETRIES \<Rightarrow> 3)"

text \<open>What is drawn for the next transaction of the session (in \<open>after_commit\<close>, which says whether the session ends), and \<open>50000 * 1.3 ^ exp\<close> cut to an integer.\<close>

record bench_draws =
  bd_stay :: bool
  bd_think :: u64
  bd_backoff :: "u64 \<Rightarrow> u64"

definition after_commit :: "bench_config \<Rightarrow> bench_draws \<Rightarrow> string \<Rightarrow> u64 \<Rightarrow> bench \<Rightarrow> (bool \<times> bench) outcome" where
  "after_commit cf dr ttype sid b =
     bindE (count_stat (ttype @ ''_committed'') b) (\<lambda>b1.
       if \<not> b_cooldownStarted b1 then
         (case bc_mode cf of
            OPEN_MODE \<Rightarrow> Inr (if bd_stay dr then (False, bench_emit (BTimerSendNextInSession (bd_think dr) sid) b1) else (True, b1))
          | CLOSED_MODE \<Rightarrow> Inr (False, bench_emit (BTimerSendNextInSession 0 sid) b1)
          | UNKNOWN_MODE \<Rightarrow> Inl Panicked)
       else Inr (True, b1))"

definition Bench_ExecuteCallback ::
  "bench_config \<Rightarrow> bench_draws \<Rightarrow> timespec option \<Rightarrow> bench_time \<Rightarrow> u64 \<Rightarrow> transaction_status \<Rightarrow> bench \<Rightarrow> bench outcome" where
  "Bench_ExecuteCallback cf dr now today sid result b =
     with_state sid b (\<lambda>ss.
     let ttype = GetTransactionType (ss_transaction ss); n_attempts = ss_n_attempts ss in
     if result = COMMITTED_STATUS \<or> result = ABORTED_USER \<or>
        (bc_maxAttempts cf \<noteq> - 1 \<and> n_attempts \<ge> of_int (bc_maxAttempts cf)) \<or> \<not> bc_retryAborted cf
     then
       bindE (if result = COMMITTED_STATUS then after_commit cf dr ttype sid b else Inr (True, b)) (\<lambda>(erase_session, b2).
       let b3 = (if bc_retryAborted cf then b2\<lparr>b_stats := Stats_Add (ttype @ ''_attempts_list'') (sint n_attempts) (b_stats b2)\<rparr> else b2) in
       Bench_OnReply cf now today sid result erase_session b3)
     else
       bindE (count_stat (ttype @ ''_'' @ dec (status_code result)) b) (\<lambda>b1.
       if GetBenchState cf today b1 = DONE then Bench_OnReply cf now today sid ABORTED_SYSTEM True b1
       else
         let backoff = (if bc_abortBackoff cf > 0 then min (bd_backoff dr (n_attempts - 1)) (1000 * bc_maxBackoff cf) else 0) in
         Inr (bench_emit (BTimerRetry backoff sid) b1)))"

text \<open>The timer that retries a transaction.\<close>

definition Bench_OnRetry :: "u64 \<Rightarrow> bench \<Rightarrow> bench outcome" where
  "Bench_OnRetry sid b =
     with_state sid b (\<lambda>ss.
     let ss1 = ss\<lparr>ss_n_attempts := ss_n_attempts ss + 1, ss_op_index := 1\<rparr> in
     bindE (count_stat (GetTransactionType (ss_transaction ss1) @ ''_attempts'') (put_state sid ss1 b)) (\<lambda>b1.
       Inr (bench_emit (BRetry (ss_client ss1) sid) b1)))"

definition Bench_CommitCallback ::
  "bench_config \<Rightarrow> bench_draws \<Rightarrow> timespec option \<Rightarrow> bench_time \<Rightarrow> u64 \<Rightarrow> transaction_status \<Rightarrow> bench \<Rightarrow> bench outcome" where
  "Bench_CommitCallback cf dr now today sid status b = with_state sid b (\<lambda>ss. Bench_ExecuteCallback cf dr now today sid status b)"

definition Bench_AbortCallback ::
  "bench_config \<Rightarrow> bench_draws \<Rightarrow> timespec option \<Rightarrow> bench_time \<Rightarrow> u64 \<Rightarrow> transaction_status \<Rightarrow> bench \<Rightarrow> bench outcome" where
  "Bench_AbortCallback cf dr now today sid status b = with_state sid b (\<lambda>ss. Bench_ExecuteCallback cf dr now today sid status b)"

definition WarmupDone :: "bench \<Rightarrow> bench" where
  "WarmupDone b = b\<lparr>b_started := True, b_n := 0\<rparr>"

definition CooldownDone :: "bench \<Rightarrow> bench" where
  "CooldownDone b = bench_emit BDone (b\<lparr>b_done := True, b_latencies := sort (b_latencies b)\<rparr>)"

definition Bench_CleanupContinue :: "bench \<Rightarrow> bench" where
  "Bench_CleanupContinue b = (if b_session_states b \<noteq> [] then bench_emit BTimerCleanupContinue b else CooldownDone b)"

text \<open>\<open>ForceAbort\<close> takes the number of a transaction, and is given that of the session.\<close>

definition Bench_Cleanup :: "bench \<Rightarrow> bench" where
  "Bench_Cleanup b =
     (if b_session_states b \<noteq> []
      then bench_emit BTimerCleanupContinue
        (fold (\<lambda>(sid, ss). bench_emit (BForceAbort (ss_client ss) sid)) (b_session_states b) b)
      else CooldownDone b)"

end
