(* ===== verification/BenchClientProps.thy ===== *)
theory BenchClientProps
  imports BenchClient LatencyProps
begin

text \<open>
  Runs of the benchmark client: the clients of the store answer each of its calls once, the timers
  fire, and nothing else happens. In every such run each session has exactly one thing
  outstanding, so that no look-up of a session fails; in closed mode at most \<open>mpl\<close> sessions run.
\<close>

section \<open>What is outstanding\<close>

text \<open>The answers the environment owes: timers, the callback of a begin, of a read or write, of a commit, of an abort.\<close>

datatype bench_token =
    KNext
  | KNextIn u64
  | KRetry u64
  | KBegin u64
  | KOp u64
  | KCommit u64
  | KAbort u64 transaction_status
  | KWarmup
  | KCleanup
  | KCleanupContinue

fun token_of :: "bench_event \<Rightarrow> bench_token list" where
  "token_of (BTimerSendNext _) = [KNext]"
| "token_of (BTimerSendNextInSession _ s) = [KNextIn s]"
| "token_of (BTimerRetry _ s) = [KRetry s]"
| "token_of (BBegin _ s) = [KBegin s]"
| "token_of (BRetry _ s) = [KBegin s]"
| "token_of (BGet _ s _) = [KOp s]"
| "token_of (BGetForUpdate _ s _) = [KOp s]"
| "token_of (BPut _ s _ _) = [KOp s]"
| "token_of (BCommit _ s) = [KCommit s]"
| "token_of (BROCommit _ s _) = [KCommit s]"
| "token_of (BAbort _ s st) = [KAbort s st]"
| "token_of (BTimerWarmup _) = [KWarmup]"
| "token_of (BTimerCleanup _) = [KCleanup]"
| "token_of BTimerCleanupContinue = [KCleanupContinue]"
| "token_of _ = []"

definition tokens :: "bench_event list \<Rightarrow> bench_token list" where
  "tokens es = concat (map token_of es)"

fun session_of :: "bench_token \<Rightarrow> u64 option" where
  "session_of (KNextIn s) = Some s"
| "session_of (KRetry s) = Some s"
| "session_of (KBegin s) = Some s"
| "session_of (KOp s) = Some s"
| "session_of (KCommit s) = Some s"
| "session_of (KAbort s _) = Some s"
| "session_of _ = None"

definition tok_count :: "u64 \<Rightarrow> bench_token list \<Rightarrow> nat" where
  "tok_count s ts = length (filter (\<lambda>t. session_of t = Some s) ts)"

lemma tokens_simps [simp]: "tokens [] = []" "tokens (es @ fs) = tokens es @ tokens fs" "tokens (e # es) = token_of e @ tokens es"
  by (simp_all add: tokens_def)

lemma tok_count_simps [simp]:
  "tok_count s [] = 0" "tok_count s (ts @ us) = tok_count s ts + tok_count s us"
  "tok_count s (t # ts) = (if session_of t = Some s then Suc (tok_count s ts) else tok_count s ts)"
  by (simp_all add: tok_count_def)

lemma tok_count_remove1: "t \<in> set ts \<Longrightarrow> tok_count s ts = tok_count s (remove1 t ts) + (if session_of t = Some s then 1 else 0)"
  by (induction ts) auto

lemma tok_count_pos: "t \<in> set ts \<Longrightarrow> session_of t = Some s \<Longrightarrow> 0 < tok_count s ts"
  by (induction ts) auto

section \<open>Runs\<close>

text \<open>What comes from outside with an answer: the number of a new session, draws, clocks, the status of a reply.\<close>

record bench_input =
  in_sid :: u64
  in_txn :: retwis_transaction
  in_arrival :: u64
  in_switch :: bool
  in_now :: "timespec option"
  in_today :: bench_time
  in_draws :: bench_draws
  in_ok :: bool
  in_status :: transaction_status

fun bench_step :: "bench_config \<Rightarrow> bench_token \<Rightarrow> bench_input \<Rightarrow> bench \<Rightarrow> bench outcome" where
  "bench_step cf KNext x b = Bench_SendNext cf (in_sid x) (in_txn x) (in_arrival x) (in_now x) b"
| "bench_step cf (KNextIn s) x b = Bench_SendNextInSession cf s (in_txn x) (in_switch x) (in_now x) b"
| "bench_step cf (KRetry s) x b = Bench_OnRetry s b"
| "bench_step cf (KBegin s) x b = Bench_ExecuteNextOperation s b"
| "bench_step cf (KOp s) x b = Bench_GetCallback s (if in_ok x then 0 else 1) b"
| "bench_step cf (KCommit s) x b = Bench_CommitCallback cf (in_draws x) (in_now x) (in_today x) s (in_status x) b"
| "bench_step cf (KAbort s st) x b = Bench_AbortCallback cf (in_draws x) (in_now x) (in_today x) s st b"
| "bench_step cf KWarmup x b = Inr (WarmupDone b)"
| "bench_step cf KCleanup x b = Inr (Bench_Cleanup b)"
| "bench_step cf KCleanupContinue x b = Inr (Bench_CleanupContinue b)"

lemma PutCallback_is_GetCallback: "Bench_PutCallback = Bench_GetCallback"
  by (simp add: fun_eq_iff Bench_PutCallback_def Bench_GetCallback_def)

text \<open>A new session has a number that no session has; the numbers come from one counter (\<open>rss/lib.cc\<close>).\<close>

inductive bench_reach :: "bench_config \<Rightarrow> bench_token list \<Rightarrow> bench \<Rightarrow> bool" for cf where
  start: "b_session_states b = [] \<Longrightarrow> b_out b = [] \<Longrightarrow> \<not> b_cooldownStarted b \<Longrightarrow>
    bench_reach cf (tokens (b_out (Bench_Start cf now b))) (Bench_Start cf now b)"
| step: "bench_reach cf pend b \<Longrightarrow> tok \<in> set pend \<Longrightarrow> (tok = KNext \<Longrightarrow> \<not> um_has (b_session_states b) (in_sid x)) \<Longrightarrow>
    bench_step cf tok x (b\<lparr>b_out := []\<rparr>) = Inr b' \<Longrightarrow> bench_reach cf (remove1 tok pend @ tokens (b_out b')) b'"

section \<open>One thing per session\<close>

definition txn_length :: "retwis_transaction \<Rightarrow> nat" where
  "txn_length t = (case rw_kind t of AddUser \<Rightarrow> 6 | Follow \<Rightarrow> 6 | PostTweet \<Rightarrow> 10 | GetTimeline \<Rightarrow> 2)"

definition alive :: "bench \<Rightarrow> u64 \<Rightarrow> nat" where
  "alive b s = (if um_has (b_session_states b) s then 1 else 0)"

definition progress :: "bench \<Rightarrow> u64 \<Rightarrow> (retwis_transaction \<times> nat) option" where
  "progress b s = map_option (\<lambda>ss. (ss_transaction ss, ss_op_index ss)) (map_of (b_session_states b) s)"

fun token_ok :: "bench \<Rightarrow> bench_token \<Rightarrow> bool" where
  "token_ok b (KBegin s) = (\<exists>t i. progress b s = Some (t, i) \<and> 1 \<le> i \<and> i < txn_length t)"
| "token_ok b (KOp s) = (\<exists>t i. progress b s = Some (t, i) \<and> 1 \<le> i \<and> i < txn_length t)"
| "token_ok b _ = True"

definition bench_inv :: "bench_token list \<Rightarrow> bench \<Rightarrow> bool" where
  "bench_inv pend b \<longleftrightarrow> um_ok (b_session_states b) \<and> (\<forall>s. tok_count s pend = alive b s) \<and> list_all (token_ok b) pend"

text \<open>What a handler that answers for the session \<open>so\<close> may do: pass its one token on, or end it.\<close>

definition effect :: "u64 option \<Rightarrow> bench \<Rightarrow> bench \<Rightarrow> bool" where
  "effect so b b' \<longleftrightarrow> (um_ok (b_session_states b) \<longrightarrow> um_ok (b_session_states b')) \<and>
     (\<forall>s. tok_count s (tokens (b_out b')) + alive b s = alive b' s + (if so = Some s then 1 else 0)) \<and>
     (\<forall>s. so \<noteq> Some s \<longrightarrow> um_has (b_session_states b) s \<longrightarrow> progress b' s = progress b s) \<and> list_all (token_ok b') (tokens (b_out b')) \<and>
     (so \<noteq> None \<longrightarrow> b_n_sessions_started b' = b_n_sessions_started b \<and> length (b_session_states b') \<le> length (b_session_states b) \<and>
       KNext \<notin> set (tokens (b_out b')))"

lemma effect_keeps:
  assumes e: "effect (session_of tok) b b'" and inv: "bench_inv pend b" and tok: "tok \<in> set pend"
  shows "bench_inv (remove1 tok pend @ tokens (b_out b')) b'"
proof -
  have "tok_count s (remove1 tok pend @ tokens (b_out b')) = alive b' s" for s
  proof -
    have "tok_count s pend = alive b s" using inv by (simp add: bench_inv_def)
    moreover have "tok_count s (tokens (b_out b')) + alive b s = alive b' s + (if session_of tok = Some s then 1 else 0)"
      using e by (simp add: effect_def)
    moreover note tok_count_remove1 [OF tok, of s]
    ultimately show ?thesis by (simp split: if_splits)
  qed
  moreover have "token_ok b' t" if t: "t \<in> set (remove1 tok pend)" for t
  proof -
    have ok: "token_ok b t" using inv t by (auto simp: bench_inv_def list_all_iff dest: notin_set_remove1)
    have "progress b' s = progress b s" if s: "session_of t = Some s" for s
    proof -
      have p: "0 < tok_count s (remove1 tok pend)" by (rule tok_count_pos [OF t s])
      have "tok_count s pend \<le> 1" and "tok_count s pend = alive b s" using inv by (simp_all add: bench_inv_def alive_def)
      with p tok_count_remove1 [OF tok, of s] have "session_of tok \<noteq> Some s" and "um_has (b_session_states b) s"
        by (auto simp: alive_def split: if_splits)
      then show ?thesis using e by (simp add: effect_def)
    qed
    with ok show ?thesis by (cases t) auto
  qed
  ultimately show ?thesis using e inv by (auto simp: bench_inv_def effect_def list_all_iff)
qed

section \<open>The effect of each handler\<close>

lemma um_put_twice: "um_put k v (um_put k w m) = um_put k v m"
  by (induction m) auto

lemma length_um_put_has: "um_has m k \<Longrightarrow> length (um_put k v m) = length m"
  by (simp add: length_um_put)


lemma effectI:
  assumes "um_has (b_session_states b) sid"
    and "\<And>s. s \<noteq> sid \<Longrightarrow> map_of (b_session_states b') s = map_of (b_session_states b) s"
    and "um_ok (b_session_states b) \<Longrightarrow> um_ok (b_session_states b')"
    and "\<And>s. tok_count s (tokens (b_out b')) = (if s = sid then alive b' sid else 0)"
    and "list_all (token_ok b') (tokens (b_out b'))"
    and "b_n_sessions_started b' = b_n_sessions_started b" and "length (b_session_states b') \<le> length (b_session_states b)"
    and "KNext \<notin> set (tokens (b_out b'))"
  shows "effect (Some sid) b b'"
proof -
  have "alive b' s = alive b s" "progress b' s = progress b s" if "s \<noteq> sid" for s
    using assms(2) [OF that] by (simp_all add: alive_def um_has_def progress_def)
  then show ?thesis using assms by (auto simp: effect_def) (simp add: alive_def)
qed

lemma count_stat_shape: "count_stat k b = Inr b' \<Longrightarrow> \<exists>s. b' = b\<lparr>b_stats := s\<rparr>"
  by (auto simp: count_stat_def)

lemma first_operation: "GetNextOperation t 0 = BEGIN_RW \<or> GetNextOperation t 0 = BEGIN_RO"
  by (auto simp: GetNextOperation_def AddUser_op_def Follow_op_def PostTweet_op_def GetTimeline_op_def split: retwis_kind.split)

lemma begin_first_shape: "begin_first t i sid b = Inr (bench_emit (BBegin i sid) b)"
  using first_operation [of t] by (auto simp: begin_first_def)

lemma txn_length_2: "2 \<le> txn_length t"
  by (simp add: txn_length_def split: retwis_kind.split)

text \<open>The operations after the first: reads for update and writes, and a commit at the end.\<close>

lemma next_operation:
  assumes "1 \<le> i" and "i < txn_length t"
  obtains (inner) k v where "GetNextOperation t i = GET_FOR_UPDATE k \<or> GetNextOperation t i = PUT k v" and "i + 1 < txn_length t"
  | (final) ks where "GetNextOperation t i = COMMIT \<or> GetNextOperation t i = ROCOMMIT ks"
proof (cases "i + 1 < txn_length t")
  case True
  then have "\<exists>k v. GetNextOperation t i = GET_FOR_UPDATE k \<or> GetNextOperation t i = PUT k v"
    using assms by (cases "rw_kind t")
      (auto simp: GetNextOperation_def AddUser_op_def Follow_op_def PostTweet_op_def GetTimeline_op_def txn_length_def Let_def)
  then show ?thesis using that(1) True by blast
next
  case False
  then have "i + 1 = txn_length t" using assms by simp
  then have "\<exists>ks. GetNextOperation t i = COMMIT \<or> GetNextOperation t i = ROCOMMIT ks"
    by (cases "rw_kind t")
      (auto simp: GetNextOperation_def AddUser_op_def Follow_op_def PostTweet_op_def GetTimeline_op_def txn_length_def)
  then show ?thesis using that(2) by blast
qed

lemma alive_put [simp]: "alive (put_state sid ss b) s = (if s = sid then 1 else alive b s)"
  by (simp add: alive_def put_state_def um_has_def)

lemma alive_emit [simp]: "alive (bench_emit e b) s = alive b s"
  by (simp add: alive_def bench_emit_def)

lemma progress_emit [simp]: "progress (bench_emit e b) s = progress b s"
  by (simp add: progress_def bench_emit_def)

lemma progress_put [simp]: "progress (put_state sid ss b) s = (if s = sid then Some (ss_transaction ss, ss_op_index ss) else progress b s)"
  by (simp add: progress_def put_state_def)

lemma bench_emit_fields [simp]: "b_session_states (bench_emit e b) = b_session_states b" "b_out (bench_emit e b) = b_out b @ [e]"
  "b_n_sessions_started (bench_emit e b) = b_n_sessions_started b" "b_cooldownStarted (bench_emit e b) = b_cooldownStarted b"
  by (simp_all add: bench_emit_def)

lemma put_fields [simp]: "b_session_states (put_state sid ss b) = um_put sid ss (b_session_states b)" "b_out (put_state sid ss b) = b_out b"
  "b_n_sessions_started (put_state sid ss b) = b_n_sessions_started b" "b_cooldownStarted (put_state sid ss b) = b_cooldownStarted b"
  by (simp_all add: put_state_def)

lemma alive_stats [simp]: "alive (b\<lparr>b_stats := x\<rparr>) s = alive b s" and progress_stats [simp]: "progress (b\<lparr>b_stats := x\<rparr>) s = progress b s"
  by (simp_all add: alive_def progress_def)

text \<open>A session goes on: its state is put, and one token is passed on.\<close>

lemma pass_on:
  assumes "um_has (b_session_states b) sid" and "b_out b' = es" and "tokens es = [tk]" and "session_of tk = Some sid"
    and "b_session_states b' = um_put sid ss (b_session_states b)" and "token_ok b' tk"
    and "b_n_sessions_started b' = b_n_sessions_started b"
  shows "effect (Some sid) b b'"
  using assms length_um_put_has [OF assms(1)] by (intro effectI) (auto simp: alive_def um_has_def)

lemma ExecuteNextOperation_effect:
  assumes run: "Bench_ExecuteNextOperation sid b = Inr b'" and out: "b_out b = []" and tok: "token_ok b (KOp sid)"
  shows "effect (Some sid) b b'"
proof -
  from tok obtain ss where ss: "map_of (b_session_states b) sid = Some ss" and i: "1 \<le> ss_op_index ss" "ss_op_index ss < txn_length (ss_transaction ss)"
    by (auto simp: progress_def)
  then have has: "um_has (b_session_states b) sid" by (simp add: um_has_def)
  let ?ss = "ss\<lparr>ss_op_index := ss_op_index ss + 1\<rparr>"
  from i show ?thesis
  proof (cases rule: next_operation)
    case (inner k v)
    then obtain e where e: "b' = bench_emit e (put_state sid ?ss b)" "token_of e = [KOp sid]"
      using run ss by (auto simp: Bench_ExecuteNextOperation_def with_state_def Let_def)
    show ?thesis by (rule pass_on [OF has, of b' "[e]" "KOp sid" ?ss]) (use e inner out in simp_all)
  next
    case (final ks)
    then obtain e where e: "b' = bench_emit e (put_state sid ?ss b)" "token_of e = [KCommit sid]"
      using run ss by (auto simp: Bench_ExecuteNextOperation_def with_state_def Let_def)
    show ?thesis by (rule pass_on [OF has, of b' "[e]" "KCommit sid" ?ss]) (use e out in simp_all)
  qed
qed

lemma GetCallback_effect:
  assumes run: "Bench_GetCallback sid st b = Inr b'" and out: "b_out b = []" and tok: "token_ok b (KOp sid)"
  shows "effect (Some sid) b b'"
proof (cases "st = 0")
  case True
  with run tok show ?thesis
    by (auto simp: Bench_GetCallback_def with_state_def progress_def intro: ExecuteNextOperation_effect [OF _ out] split: option.splits)
next
  case False
  with run obtain ss where ss: "map_of (b_session_states b) sid = Some ss" and b': "b' = bench_emit (BAbort (ss_client ss) sid ABORTED_SYSTEM) b"
    by (auto simp: Bench_GetCallback_def Bench_ExecuteAbort_def with_state_def split: option.splits if_splits)
  show ?thesis
    by (rule pass_on [of b sid b' "[BAbort (ss_client ss) sid ABORTED_SYSTEM]" "KAbort sid ABORTED_SYSTEM" ss])
      (use ss b' out in \<open>simp_all add: um_has_def um_put_same\<close>)
qed

lemma OnRetry_effect:
  assumes run: "Bench_OnRetry sid b = Inr b'" and out: "b_out b = []"
  shows "effect (Some sid) b b'"
proof -
  from run obtain ss b1 where ss: "map_of (b_session_states b) sid = Some ss"
    and b1: "count_stat (GetTransactionType (ss_transaction ss) @ ''_attempts'')
      (put_state sid (ss\<lparr>ss_n_attempts := ss_n_attempts ss + 1, ss_op_index := 1\<rparr>) b) = Inr b1"
    and b': "b' = bench_emit (BRetry (ss_client ss) sid) b1"
    by (auto simp: Bench_OnRetry_def with_state_def Let_def split: option.splits)
  from count_stat_shape [OF b1] obtain s where s: "b1 = (put_state sid (ss\<lparr>ss_n_attempts := ss_n_attempts ss + 1, ss_op_index := 1\<rparr>) b)\<lparr>b_stats := s\<rparr>" ..
  show ?thesis
    by (rule pass_on [of b sid b' "[BRetry (ss_client ss) sid]" "KBegin sid" "ss\<lparr>ss_n_attempts := ss_n_attempts ss + 1, ss_op_index := 1\<rparr>"])
      (use ss b' s out txn_length_2 [of "ss_transaction ss"] in \<open>simp_all add: um_has_def\<close>)
qed

lemma SendNextInSession_effect:
  assumes run: "Bench_SendNextInSession cf sid t sw now b = Inr b'" and out: "b_out b = []"
  shows "effect (Some sid) b b'"
proof -
  from run obtain ss where ss: "map_of (b_session_states b) sid = Some ss"
    by (auto simp: Bench_SendNextInSession_def with_state_def split: option.splits)
  from run ss obtain b1 where b1: "count_stat (GetTransactionType t @ ''_attempts'') b = Inr b1"
    by (auto simp: Bench_SendNextInSession_def with_state_def)
  have "\<exists>i b2 ss'. (b2 = b1 \<or> b2 = bench_emit (BContinueSession (ss_client ss) i sid) (bench_emit (BEndSession (ss_client ss) sid) b1)) \<and>
      b' = bench_emit (BBegin i sid) (put_state sid ss' b2) \<and> ss_transaction ss' = t \<and> ss_op_index ss' = 1"
    using run ss b1 by (fastforce simp: Bench_SendNextInSession_def with_state_def Let_def begin_first_shape split: if_splits)
  then obtain i b2 ss' where b2: "b2 = b1 \<or> b2 = bench_emit (BContinueSession (ss_client ss) i sid) (bench_emit (BEndSession (ss_client ss) sid) b1)"
    and b': "b' = bench_emit (BBegin i sid) (put_state sid ss' b2)" "ss_transaction ss' = t" "ss_op_index ss' = 1" by blast
  from count_stat_shape [OF b1] obtain s where s: "b1 = b\<lparr>b_stats := s\<rparr>" ..
  show ?thesis
    by (rule pass_on [of b sid b' "b_out b'" "KBegin sid" ss'])
      (use ss b' b2 s out txn_length_2 [of t] in \<open>auto simp: um_has_def\<close>)
qed

lemma next_session_shape:
  "next_session cf arrival b = Inr b' \<Longrightarrow>
    b' = b \<or> (\<exists>a. b' = bench_emit (BTimerSendNext a) b \<and> (bc_mode cf = CLOSED_MODE \<longrightarrow> b_n_sessions_started b < bc_mpl cf))"
  by (auto simp: next_session_def split: if_splits bench_mode.splits)

lemma SendNext_effect:
  assumes run: "Bench_SendNext cf sid t arrival now b = Inr b'" and out: "b_out b = []" and fresh: "\<not> um_has (b_session_states b) sid"
  shows "effect None b b'"
    and "b_n_sessions_started b' = b_n_sessions_started b + 1" and "b_cooldownStarted b' = b_cooldownStarted b"
    and "KNext \<in> set (tokens (b_out b')) \<longleftrightarrow> length (filter ((=) KNext) (tokens (b_out b'))) = 1"
    and "bc_mode cf = CLOSED_MODE \<Longrightarrow> KNext \<in> set (tokens (b_out b')) \<Longrightarrow> b_n_sessions_started b' < bc_mpl cf"
    and "length (b_session_states b') = Suc (length (b_session_states b))"
proof -
  let ?i = "nat (b_n_sessions_started b + 1) mod bc_nclients cf"
  let ?b2 = "bench_emit (BBeginSession ?i sid) (b\<lparr>b_n_sessions_started := b_n_sessions_started b + 1\<rparr>)"
  from run obtain b3 where b3: "count_stat (GetTransactionType t @ ''_attempts'') ?b2 = Inr b3"
    by (auto simp: Bench_SendNext_def Let_def split: if_splits)
  from count_stat_shape [OF b3] obtain s where s: "b3 = ?b2\<lparr>b_stats := s\<rparr>" ..
  let ?b4 = "b3\<lparr>b_session_states := um_emplace sid (fresh_state t ?i) (b_session_states b3)\<rparr>"
  have m: "map_of (b_session_states ?b4) sid = Some (fresh_state t ?i)" using fresh by (simp add: s um_emplace_def)
  obtain fr where n: "next_session cf arrival (bench_emit (BBegin ?i sid) (put_state sid ((fresh_state t ?i)\<lparr>ss_lat := fr\<rparr>) ?b4)) = Inr b'"
    using run m unfolding Bench_SendNext_def Let_def with_state_def begin_first_shape bindE_simps
    by (auto simp: b3 split: if_splits)
  let ?b5 = "bench_emit (BBegin ?i sid) (put_state sid ((fresh_state t ?i)\<lparr>ss_lat := fr\<rparr>) ?b4)"
  have "b_n_sessions_started ?b5 = b_n_sessions_started b + 1" by (simp add: s)
  then have b': "b' = ?b5 \<or> (\<exists>a. b' = bench_emit (BTimerSendNext a) ?b5 \<and> (bc_mode cf = CLOSED_MODE \<longrightarrow> b_n_sessions_started b + 1 < bc_mpl cf))"
    using next_session_shape [OF n] by simp
  have put: "b_session_states ?b5 = um_put sid ((fresh_state t ?i)\<lparr>ss_lat := fr\<rparr>) (b_session_states b)"
    using fresh by (simp add: s um_emplace_def um_put_twice)
  have 5: "b_out ?b5 = [BBeginSession ?i sid, BBegin ?i sid]" "b_n_sessions_started ?b5 = b_n_sessions_started b + 1"
    "b_cooldownStarted ?b5 = b_cooldownStarted b" using out by (simp_all add: s)
  have sess: "b_session_states b' = um_put sid ((fresh_state t ?i)\<lparr>ss_lat := fr\<rparr>) (b_session_states b)"
    and outs: "tokens (b_out b') = [KBegin sid] \<or> tokens (b_out b') = [KBegin sid, KNext] \<and> (bc_mode cf = CLOSED_MODE \<longrightarrow> b_n_sessions_started b + 1 < bc_mpl cf)"
    using b' put 5 by auto
  show "b_n_sessions_started b' = b_n_sessions_started b + 1" and "b_cooldownStarted b' = b_cooldownStarted b"
    using b' 5 by auto
  then show "bc_mode cf = CLOSED_MODE \<Longrightarrow> KNext \<in> set (tokens (b_out b')) \<Longrightarrow> b_n_sessions_started b' < bc_mpl cf"
    and "KNext \<in> set (tokens (b_out b')) \<longleftrightarrow> length (filter ((=) KNext) (tokens (b_out b'))) = 1"
    using outs by auto
  show "length (b_session_states b') = Suc (length (b_session_states b))" using fresh by (simp add: sess um_put_at_end)
  show "effect None b b'" using outs fresh txn_length_2 [of t]
    by (auto simp: effect_def sess alive_def um_has_def progress_def fresh_state_def)
qed

text \<open>\<open>OnReply\<close> ends the session or leaves it; besides, it may start the cool-down.\<close>

definition no_sessions :: "bench_event list \<Rightarrow> bool" where
  "no_sessions es \<longleftrightarrow> set (tokens es) \<subseteq> {KCleanup, KCleanupContinue}"

lemma no_sessions_count: "no_sessions es \<Longrightarrow> tok_count s (tokens es) = 0"
  by (auto simp: no_sessions_def tok_count_def filter_empty_conv)

lemma no_sessions_ok: "no_sessions es \<Longrightarrow> list_all (token_ok b) (tokens es)"
  by (auto simp: no_sessions_def list_all_iff)

lemma record_reply_shape:
  assumes "record_reply now sid result ss b = Inr b1" and ss: "map_of (b_session_states b) sid = Some ss"
  shows "(\<exists>fr. b_session_states b1 = um_put sid (ss\<lparr>ss_lat := fr\<rparr>) (b_session_states b)) \<and>
    b_out b1 = b_out b \<and> b_n_sessions_started b1 = b_n_sessions_started b"
proof (cases "b_cooldownStarted b")
  case True
  then have "b1 = b" using assms(1) by (simp add: record_reply_def)
  moreover have "um_put sid (ss\<lparr>ss_lat := ss_lat ss\<rparr>) (b_session_states b) = b_session_states b" using ss by (simp add: um_put_same)
  ultimately show ?thesis by metis
next
  case False
  then show ?thesis using assms(1) by (auto simp: record_reply_def)
qed

lemma check_finish_shape:
  "b_session_states (check_finish cf today b) = b_session_states b \<and> (\<exists>es. b_out (check_finish cf today b) = b_out b @ es \<and> no_sessions es) \<and>
    b_n_sessions_started (check_finish cf today b) = b_n_sessions_started b"
  by (simp add: check_finish_def Bench_Finish_def no_sessions_def Let_def)

lemma OnReply_shape:
  assumes run: "Bench_OnReply cf now today sid result er b = Inr b'"
  shows "um_has (b_session_states b) sid \<and> (\<exists>es. b_out b' = b_out b @ es \<and> no_sessions es) \<and>
    um_has (b_session_states b') sid = (\<not> er) \<and>
    (\<forall>s. s \<noteq> sid \<longrightarrow> map_of (b_session_states b') s = map_of (b_session_states b) s) \<and>
    (um_ok (b_session_states b) \<longrightarrow> um_ok (b_session_states b')) \<and> b_n_sessions_started b' = b_n_sessions_started b \<and>
    length (b_session_states b') \<le> length (b_session_states b)"
proof -
  from run obtain ss b2 where ss: "map_of (b_session_states b) sid = Some ss"
    and b2: "(if b_started b then bindE (record_reply now sid result ss b) (\<lambda>b1. Inr (check_finish cf today b1)) else Inr b) = Inr b2"
    and b': "b' = (let b3 = (if er then
           (bench_emit (BEndSession (ss_client ss) sid) b2)\<lparr>b_session_states := um_erase sid (b_session_states b2)\<rparr>
         else b2) in b3\<lparr>b_n := b_n b3 + 1\<rparr>)"
    unfolding Bench_OnReply_def with_state_def by (auto simp: Let_def split: option.splits)
  have "(\<exists>fr. b_session_states b2 = um_put sid (ss\<lparr>ss_lat := fr\<rparr>) (b_session_states b)) \<and>
      (\<exists>es. b_out b2 = b_out b @ es \<and> no_sessions es) \<and> b_n_sessions_started b2 = b_n_sessions_started b"
  proof (cases "b_started b")
    case True
    with b2 obtain b1 where b1: "record_reply now sid result ss b = Inr b1" "b2 = check_finish cf today b1" by auto
    from record_reply_shape [OF b1(1) ss] check_finish_shape [of cf today b1] b1(2) show ?thesis by metis
  next
    case False
    then have "b2 = b" using b2 by simp
    moreover have "um_put sid (ss\<lparr>ss_lat := ss_lat ss\<rparr>) (b_session_states b) = b_session_states b" using ss by (simp add: um_put_same)
    moreover have "no_sessions []" by (simp add: no_sessions_def)
    ultimately show ?thesis by (metis append_Nil2)
  qed
  then obtain fr es where sess: "b_session_states b2 = um_put sid (ss\<lparr>ss_lat := fr\<rparr>) (b_session_states b)"
    and out: "b_out b2 = b_out b @ es" "no_sessions es" and n: "b_n_sessions_started b2 = b_n_sessions_started b" by blast
  have es: "no_sessions (es @ [BEndSession (ss_client ss) sid])" using out by (simp add: no_sessions_def)
  have has: "um_has (b_session_states b) sid" using ss by (simp add: um_has_def)
  then have len: "length (um_put sid x (b_session_states b)) = length (b_session_states b)" for x by (simp add: length_um_put_has)
  have er_len: "length (um_erase sid m) \<le> length m" for m :: "(u64, bench_session) umap" by (rule length_delete_le)
  show ?thesis
  proof (cases er)
    case True
    then show ?thesis using b' sess out n es has er_len [of "b_session_states b2"] len
      by (auto simp: Let_def um_has_def)
  next
    case False
    then show ?thesis using b' sess out n has len by (auto simp: Let_def um_has_def)
  qed
qed

lemma OnReply_effect:
  assumes run: "Bench_OnReply cf now today sid result er b1 = Inr b'" and sess: "b_session_states b1 = b_session_states b"
    and out: "tokens (b_out b1) = (if er then [] else [tk])" and tk: "session_of tk = Some sid" "\<And>b. token_ok b tk"
    and n: "b_n_sessions_started b1 = b_n_sessions_started b"
  shows "effect (Some sid) b b'"
proof -
  note sh = OnReply_shape [OF run]
  then obtain es where es: "b_out b' = b_out b1 @ es" "no_sessions es" by blast
  show ?thesis
  proof (rule effectI)
    show "um_has (b_session_states b) sid" using sh sess by simp
    show "map_of (b_session_states b') s = map_of (b_session_states b) s" if "s \<noteq> sid" for s using sh that sess by simp
    show "um_ok (b_session_states b) \<Longrightarrow> um_ok (b_session_states b')" using sh sess by simp
    show "tok_count s (tokens (b_out b')) = (if s = sid then alive b' sid else 0)" for s
      using sh out tk es no_sessions_count [OF es(2)] by (auto simp: alive_def)
    show "list_all (token_ok b') (tokens (b_out b'))" using out tk es no_sessions_ok [OF es(2)] by simp
    show "b_n_sessions_started b' = b_n_sessions_started b" "length (b_session_states b') \<le> length (b_session_states b)"
      using sh n sess by simp_all
    show "KNext \<notin> set (tokens (b_out b'))" using out tk es by (auto simp: no_sessions_def)
  qed
qed

lemma ExecuteCallback_effect:
  assumes run: "Bench_ExecuteCallback cf dr now today sid result b = Inr b'" and out: "b_out b = []"
  shows "effect (Some sid) b b' \<and> b_n_sessions_started b' = b_n_sessions_started b \<and> length (b_session_states b') \<le> length (b_session_states b)"
proof -
  from run obtain ss where ss: "map_of (b_session_states b) sid = Some ss"
    by (auto simp: Bench_ExecuteCallback_def with_state_def split: option.splits)
  define final where "final \<longleftrightarrow> result = COMMITTED_STATUS \<or> result = ABORTED_USER \<or>
        (bc_maxAttempts cf \<noteq> - 1 \<and> ss_n_attempts ss \<ge> of_int (bc_maxAttempts cf)) \<or> \<not> bc_retryAborted cf"
  have "(\<exists>er b1 r. Bench_OnReply cf now today sid r er b1 = Inr b' \<and> b_session_states b1 = b_session_states b \<and>
        b_n_sessions_started b1 = b_n_sessions_started b \<and>
        (er \<and> b_out b1 = [] \<or> \<not> er \<and> (\<exists>d. b_out b1 = [BTimerSendNextInSession d sid]))) \<or>
      (\<exists>s d. b' = bench_emit (BTimerRetry d sid) (b\<lparr>b_stats := s\<rparr>))"
  proof (cases final)
    case True
    let ?tt = "GetTransactionType (ss_transaction ss)"
    from run ss True obtain er b2 where b2: "(if result = COMMITTED_STATUS then after_commit cf dr ?tt sid b else Inr (True, b)) = Inr (er, b2)"
      and r: "Bench_OnReply cf now today sid result er (if bc_retryAborted cf
        then b2\<lparr>b_stats := Stats_Add (?tt @ ''_attempts_list'') (sint (ss_n_attempts ss)) (b_stats b2)\<rparr> else b2) = Inr b'"
      unfolding Bench_ExecuteCallback_def with_state_def final_def by (auto simp: Let_def)
    have "b_session_states b2 = b_session_states b \<and> b_n_sessions_started b2 = b_n_sessions_started b \<and>
        (er \<and> b_out b2 = [] \<or> \<not> er \<and> (\<exists>d. b_out b2 = [BTimerSendNextInSession d sid]))"
      using b2 out by (auto simp: after_commit_def split: if_splits bench_mode.splits dest!: count_stat_shape)
    then show ?thesis using r by - (rule disjI1, rule exI, rule exI, rule exI, rule conjI, assumption, auto)
  next
    case False
    with run ss obtain b1 where b1: "count_stat (GetTransactionType (ss_transaction ss) @ ''_'' @ dec (status_code result)) b = Inr b1"
      by (auto simp: Bench_ExecuteCallback_def with_state_def final_def Let_def)
    have r: "Bench_OnReply cf now today sid ABORTED_SYSTEM True b1 = Inr b' \<or> (\<exists>d. b' = bench_emit (BTimerRetry d sid) b1)"
      using run ss False b1 unfolding Bench_ExecuteCallback_def with_state_def final_def
      by (auto simp: Let_def simp del: append.simps split: if_splits)
    from count_stat_shape [OF b1] obtain s where "b1 = b\<lparr>b_stats := s\<rparr>" ..
    with r out show ?thesis by (elim disjE) force+
  qed
  then show ?thesis
  proof (elim disjE exE)
    fix er b1 r
    assume a: "Bench_OnReply cf now today sid r er b1 = Inr b' \<and> b_session_states b1 = b_session_states b \<and>
        b_n_sessions_started b1 = b_n_sessions_started b \<and>
        (er \<and> b_out b1 = [] \<or> \<not> er \<and> (\<exists>d. b_out b1 = [BTimerSendNextInSession d sid]))"
    then have "tokens (b_out b1) = (if er then [] else [KNextIn sid])" by auto
    with a OnReply_effect [of cf now today sid r er b1 b' b "KNextIn sid"] OnReply_shape [of cf now today sid r er b1 b'] show ?thesis by simp
  next
    fix s d
    assume b': "b' = bench_emit (BTimerRetry d sid) (b\<lparr>b_stats := s\<rparr>)"
    have "effect (Some sid) b b'"
      by (rule pass_on [of b sid b' "[BTimerRetry d sid]" "KRetry sid" ss]) (use b' out ss in \<open>simp_all add: um_has_def um_put_same\<close>)
    then show ?thesis using b' by simp
  qed
qed

definition force_aborts :: "(u64, bench_session) umap \<Rightarrow> bench_event list" where
  "force_aborts xs = map (\<lambda>(sid, ss). BForceAbort (ss_client ss) sid) xs"

lemma fold_force_aborts:
  "fold (\<lambda>(sid, ss). bench_emit (BForceAbort (ss_client ss) sid)) xs b = b\<lparr>b_out := b_out b @ force_aborts xs\<rparr>"
proof (induction xs arbitrary: b)
  case Nil
  then show ?case by (simp add: force_aborts_def)
next
  case (Cons p xs)
  then show ?case by (cases p) (simp add: force_aborts_def bench_emit_def)
qed

lemma tokens_force_aborts: "tokens (force_aborts xs) = []"
  by (induction xs) (auto simp: force_aborts_def)

lemma Cleanup_shape:
  "b_session_states (Bench_Cleanup b) = b_session_states b \<and> b_n_sessions_started (Bench_Cleanup b) = b_n_sessions_started b \<and>
    (\<exists>es. b_out (Bench_Cleanup b) = b_out b @ es \<and> no_sessions es)"
proof (cases "b_session_states b = []")
  case True
  then show ?thesis by (simp add: Bench_Cleanup_def CooldownDone_def no_sessions_def)
next
  case False
  then have "b_out (Bench_Cleanup b) = b_out b @ (force_aborts (b_session_states b) @ [BTimerCleanupContinue])"
    by (simp add: Bench_Cleanup_def fold_force_aborts)
  moreover have "no_sessions (force_aborts (b_session_states b) @ [BTimerCleanupContinue])"
    by (simp add: no_sessions_def tokens_force_aborts)
  ultimately show ?thesis using False by (auto simp: Bench_Cleanup_def fold_force_aborts)
qed

lemma timer_shapes:
  "b_session_states (Bench_CleanupContinue b) = b_session_states b \<and> b_n_sessions_started (Bench_CleanupContinue b) = b_n_sessions_started b \<and>
    (\<exists>es. b_out (Bench_CleanupContinue b) = b_out b @ es \<and> no_sessions es)"
  "b_session_states (WarmupDone b) = b_session_states b \<and> b_n_sessions_started (WarmupDone b) = b_n_sessions_started b \<and> b_out (WarmupDone b) = b_out b"
  by (simp_all add: Bench_CleanupContinue_def CooldownDone_def WarmupDone_def no_sessions_def)

section \<open>All runs\<close>

lemma quiet_effect:
  assumes "b_session_states b' = b_session_states b" and "no_sessions (b_out b')"
  shows "effect None b b'"
  using assms no_sessions_count [of "b_out b'"] no_sessions_ok [of "b_out b'" b']
  by (simp add: effect_def alive_def progress_def)

lemma out_ignored: "effect so (b\<lparr>b_out := es\<rparr>) b' = effect so b b'" "bench_inv pend (b\<lparr>b_out := es\<rparr>) = bench_inv pend b"
proof -
  have *: "alive (b\<lparr>b_out := es\<rparr>) = alive b" "progress (b\<lparr>b_out := es\<rparr>) = progress b" by (simp_all add: fun_eq_iff alive_def progress_def)
  have "token_ok (b\<lparr>b_out := es\<rparr>) t = token_ok b t" for t by (cases t) (simp_all add: *)
  then show "effect so (b\<lparr>b_out := es\<rparr>) b' = effect so b b'" "bench_inv pend (b\<lparr>b_out := es\<rparr>) = bench_inv pend b"
    by (simp_all add: effect_def bench_inv_def * list_all_iff)
qed

lemma step_effect:
  assumes inv: "bench_inv pend b" and tok: "tok \<in> set pend" and fresh: "tok = KNext \<Longrightarrow> \<not> um_has (b_session_states b) (in_sid x)"
    and out: "b_out b = []" and run: "bench_step cf tok x b = Inr b'"
  shows "effect (session_of tok) b b'"
proof (cases tok)
  case KNext
  with run fresh SendNext_effect(1) [OF _ out] show ?thesis by simp
next
  case (KNextIn s)
  with run SendNextInSession_effect [OF _ out] show ?thesis by simp
next
  case (KRetry s)
  with run OnRetry_effect [OF _ out] show ?thesis by simp
next
  case (KBegin s)
  with inv tok have "token_ok b (KOp s)" by (auto simp: bench_inv_def list_all_iff)
  with KBegin run ExecuteNextOperation_effect [OF _ out] show ?thesis by simp
next
  case (KOp s)
  with inv tok have "token_ok b (KOp s)" by (auto simp: bench_inv_def list_all_iff)
  with KOp run GetCallback_effect [OF _ out] show ?thesis by simp
next
  case (KCommit s)
  with run ExecuteCallback_effect [OF _ out] show ?thesis by (auto simp: Bench_CommitCallback_def with_state_def split: option.splits)
next
  case (KAbort s st)
  with run ExecuteCallback_effect [OF _ out] show ?thesis by (auto simp: Bench_AbortCallback_def with_state_def split: option.splits)
next
  case KWarmup
  with run timer_shapes(2) [of b] out show ?thesis by (auto intro!: quiet_effect simp: no_sessions_def)
next
  case KCleanup
  with run Cleanup_shape [of b] out show ?thesis by (auto intro!: quiet_effect)
next
  case KCleanupContinue
  with run timer_shapes(1) [of b] out show ?thesis by (auto intro!: quiet_effect)
qed

lemma reach_inv: "bench_reach cf pend b \<Longrightarrow> bench_inv pend b"
proof (induction rule: bench_reach.induct)
  case (start b now)
  then show ?case by (simp add: Bench_Start_def bench_inv_def alive_def um_has_def)
next
  case (step pend b tok x b')
  from step.IH have inv: "bench_inv pend (b\<lparr>b_out := []\<rparr>)" by (simp add: out_ignored)
  have "effect (session_of tok) (b\<lparr>b_out := []\<rparr>) b'"
    by (rule step_effect [OF inv step.hyps(2) _ _ step.hyps(4)]) (use step.hyps(3) in simp_all)
  then show ?case using effect_keeps step.IH step.hyps(2) by (simp add: out_ignored)
qed

text \<open>No look-up of a session fails, and no other assertion.\<close>

definition sound :: "'a outcome \<Rightarrow> bool" where
  "sound r \<longleftrightarrow> r \<noteq> Inl AssertFailed \<and> r \<noteq> Inl NotReachable"

lemma sound_simps [simp]: "sound (Inr x)" "sound (Inl Panicked)" "sound (Inl UndefinedBehaviour)"
  by (simp_all add: sound_def)

lemma sound_bind: "sound m \<Longrightarrow> (\<And>x. m = Inr x \<Longrightarrow> sound (f x)) \<Longrightarrow> sound (bindE m f)"
  by (cases m) (auto simp: sound_def)

lemma sound_with_state: "um_has (b_session_states b) sid \<Longrightarrow> (\<And>ss. map_of (b_session_states b) sid = Some ss \<Longrightarrow> sound (f ss)) \<Longrightarrow> sound (with_state sid b f)"
  by (auto simp: with_state_def um_has_def)

lemma sound_count_stat: "sound (count_stat k b)"
  by (simp add: count_stat_def Stats_Increment_def add_i64_def)

lemma sound_clock: "sound (clock now)"
  by (simp add: clock_def split: option.split)

lemma sound_begin_first: "sound (begin_first t i sid b)"
  by (simp add: begin_first_shape)

lemma sound_LatencyAdd: "sound (LatencyAdd t v l)"
  using bucket_of_less by (auto simp: LatencyAdd_def LatencyAddHist_def Let_def intro!: sound_bind split: option.split)

lemma sound_EndRecType: "sound (U_Latency_EndRecType now fr t l)"
  by (auto simp: U_Latency_EndRecType_def U_Latency_Pause_def intro!: sound_bind sound_clock sound_LatencyAdd)

lemmas sound_intros = sound_bind sound_with_state sound_count_stat sound_clock sound_begin_first sound_EndRecType

lemma sound_OnReply: "um_has (b_session_states b) sid \<Longrightarrow> sound (Bench_OnReply cf now today sid r er b)"
  unfolding Bench_OnReply_def record_reply_def by (auto simp: Let_def intro!: sound_intros)

lemma sound_ExecuteCallback: "um_has (b_session_states b) sid \<Longrightarrow> sound (Bench_ExecuteCallback cf dr now today sid r b)"
  unfolding Bench_ExecuteCallback_def after_commit_def
  by (auto simp: Let_def intro!: sound_intros sound_OnReply split: bench_mode.split dest!: count_stat_shape split: if_splits bench_mode.splits)

lemma sound_ExecuteNextOperation:
  assumes "token_ok b (KOp sid)"
  shows "sound (Bench_ExecuteNextOperation sid b)"
proof -
  from assms obtain ss where ss: "map_of (b_session_states b) sid = Some ss" and i: "1 \<le> ss_op_index ss" "ss_op_index ss < txn_length (ss_transaction ss)"
    by (auto simp: progress_def)
  from i show ?thesis
    by (cases rule: next_operation) (use ss in \<open>auto simp: Bench_ExecuteNextOperation_def with_state_def Let_def\<close>)
qed

lemma step_sound:
  assumes inv: "bench_inv pend b" and tok: "tok \<in> set pend"
  shows "sound (bench_step cf tok x b)"
proof -
  have has: "um_has (b_session_states b) s" if "session_of tok = Some s" for s
  proof -
    have "0 < alive b s" using tok_count_pos [OF tok that] inv by (simp add: bench_inv_def)
    then show ?thesis by (simp add: alive_def split: if_splits)
  qed
  have ok: "token_ok b (KOp s)" if "tok = KBegin s \<or> tok = KOp s" for s using inv tok that by (auto simp: bench_inv_def list_all_iff)
  show ?thesis
  proof (cases tok)
    case KNext
    have "um_has (um_emplace k v m) k" for k and v :: bench_session and m by (simp add: um_emplace_def um_has_def)
    then show ?thesis
      unfolding KNext bench_step.simps Bench_SendNext_def next_session_def U_Latency_StartRec_def U_Latency_Resume_def
      by (auto simp: Let_def intro!: sound_intros split: bench_mode.split dest!: count_stat_shape)
  next
    case (KNextIn s)
    then show ?thesis using has
      unfolding KNextIn bench_step.simps Bench_SendNextInSession_def U_Latency_StartRec_def U_Latency_Resume_def
      by (auto simp: Let_def intro!: sound_intros)
  next
    case (KRetry s)
    then show ?thesis using has unfolding KRetry bench_step.simps Bench_OnRetry_def by (auto simp: Let_def intro!: sound_intros)
  next
    case (KBegin s)
    then show ?thesis using ok sound_ExecuteNextOperation by simp
  next
    case (KOp s)
    then show ?thesis using ok has sound_ExecuteNextOperation [of b s]
      by (auto simp: Bench_GetCallback_def Bench_ExecuteAbort_def intro!: sound_with_state)
  next
    case (KCommit s)
    then show ?thesis using has by (auto simp: Bench_CommitCallback_def intro!: sound_with_state sound_ExecuteCallback)
  next
    case (KAbort s st)
    then show ?thesis using has by (auto simp: Bench_AbortCallback_def intro!: sound_with_state sound_ExecuteCallback)
  qed simp_all
qed

text \<open>
  In every run of the benchmark client in which the store's clients answer each call once,
  every session has exactly one call or timer outstanding, and no handler fails an assertion or
  reaches a branch it must not reach: a session is never looked up after its end, and no transaction
  asks for an operation beyond its commit.
\<close>

theorem bench_sessions_sound:
  assumes "bench_reach cf pend b"
  shows "length (filter (\<lambda>t. session_of t = Some s) pend) = (if um_has (b_session_states b) s then 1 else 0)"
    and "tok \<in> set pend \<Longrightarrow> bench_step cf tok x (b\<lparr>b_out := []\<rparr>) \<notin> {Inl AssertFailed, Inl NotReachable}"
proof -
  have inv: "bench_inv pend b" using reach_inv [OF assms] .
  then show "length (filter (\<lambda>t. session_of t = Some s) pend) = (if um_has (b_session_states b) s then 1 else 0)"
    by (simp add: bench_inv_def tok_count_def alive_def)
  show "tok \<in> set pend \<Longrightarrow> bench_step cf tok x (b\<lparr>b_out := []\<rparr>) \<notin> {Inl AssertFailed, Inl NotReachable}"
    using step_sound [of pend "b\<lparr>b_out := []\<rparr>" tok cf x] inv by (simp add: out_ignored sound_def)
qed

text \<open>In closed mode the sessions are at most \<open>mpl\<close>, or the one that is always started.\<close>

definition closed_inv :: "bench_config \<Rightarrow> bench_token list \<Rightarrow> bench \<Rightarrow> bool" where
  "closed_inv cf pend b \<longleftrightarrow> 0 \<le> b_n_sessions_started b \<and> int (length (b_session_states b)) \<le> b_n_sessions_started b \<and>
     length (filter ((=) KNext) pend) \<le> 1 \<and>
     b_n_sessions_started b + (if KNext \<in> set pend then 1 else 0) \<le> max 1 (bc_mpl cf)"

lemma filter_KNext_remove1: "tok \<in> set pend \<Longrightarrow>
    length (filter ((=) KNext) (remove1 tok pend)) = length (filter ((=) KNext) pend) - (if tok = KNext then 1 else 0)"
  by (induction pend) auto

lemma KNext_in: "KNext \<in> set ts \<longleftrightarrow> 0 < length (filter ((=) KNext) ts)"
  by (induction ts) auto

lemma step_closed:
  assumes inv: "bench_inv pend b" and c: "closed_inv cf pend b" and tok: "tok \<in> set pend" and mode: "bc_mode cf = CLOSED_MODE"
    and fresh: "tok = KNext \<Longrightarrow> \<not> um_has (b_session_states b) (in_sid x)" and out: "b_out b = []" and run: "bench_step cf tok x b = Inr b'"
  shows "closed_inv cf (remove1 tok pend @ tokens (b_out b')) b'"
proof (cases "tok = KNext")
  case True
  note sn = SendNext_effect [of cf "in_sid x" "in_txn x" "in_arrival x" "in_now x" b b', OF _ out]
  have r: "Bench_SendNext cf (in_sid x) (in_txn x) (in_arrival x) (in_now x) b = Inr b'" using run True by simp
  have f: "\<not> um_has (b_session_states b) (in_sid x)" using fresh True by simp
  have "0 < length (filter ((=) KNext) pend)" using KNext_in [of pend] tok True by blast
  moreover have "length (filter ((=) KNext) pend) \<le> 1" using c unfolding closed_inv_def by blast
  ultimately have one: "length (filter ((=) KNext) pend) = 1" by linarith
  have none: "KNext \<notin> set (remove1 tok pend)" using one True filter_KNext_remove1 [OF tok] KNext_in by simp
  have le1: "length (filter ((=) KNext) (tokens (b_out b'))) \<le> 1"
    using sn(4) [OF r f] KNext_in [of "tokens (b_out b')"] by linarith
  show ?thesis using c tok True none le1 sn(2,6) [OF r f] sn(5) [OF r f mode] KNext_in [of "remove1 tok pend"]
    by (auto simp: closed_inv_def)
next
  case False
  have n: "b_n_sessions_started b' = b_n_sessions_started b \<and> length (b_session_states b') \<le> length (b_session_states b) \<and> KNext \<notin> set (tokens (b_out b'))"
  proof (cases "session_of tok")
    case None
    with False run out Cleanup_shape [of b] timer_shapes [of b] show ?thesis by (cases tok) (auto simp: no_sessions_def)
  next
    case (Some s)
    then show ?thesis using step_effect [OF inv tok fresh out run] by (simp add: effect_def)
  qed
  then have "length (filter ((=) KNext) (tokens (b_out b'))) = 0" using KNext_in [of "tokens (b_out b')"] by simp
  moreover have "KNext \<in> set (remove1 tok pend) \<longleftrightarrow> KNext \<in> set pend" using False by (simp add: in_set_remove1)
  ultimately show ?thesis using c n False filter_KNext_remove1 [OF tok] by (auto simp: closed_inv_def)
qed

lemma reach_closed: "bench_reach cf pend b \<Longrightarrow> bc_mode cf = CLOSED_MODE \<Longrightarrow> closed_inv cf pend b"
proof (induction rule: bench_reach.induct)
  case (start b now)
  then show ?case by (simp add: Bench_Start_def closed_inv_def)
next
  case (step pend b tok x b')
  have inv: "bench_inv pend (b\<lparr>b_out := []\<rparr>)" using reach_inv [OF step.hyps(1)] by (simp add: out_ignored)
  have "closed_inv cf pend (b\<lparr>b_out := []\<rparr>)" using step.IH step.prems by (simp add: closed_inv_def)
  from step_closed [OF inv this step.hyps(2) step.prems _ _ step.hyps(4)] step.hyps(3) show ?case by simp
qed

lemma closed_mode_at_most_mpl:
  "bench_reach cf pend b \<Longrightarrow> bc_mode cf = CLOSED_MODE \<Longrightarrow> int (length (b_session_states b)) \<le> max 1 (bc_mpl cf)"
  by (drule (1) reach_closed) (auto simp: closed_inv_def split: if_splits)

section \<open>The end of an experiment\<close>

text \<open>
  A fault of the code: the transactions that run when the cool-down is over are to be aborted,
  but \<open>ForceAbort\<close> is given the numbers of sessions. For a number that is not one of a transaction
  the client of the store does nothing.
\<close>

lemma Cleanup_gives_sessions:
  "b_out b = [] \<Longrightarrow> BForceAbort i n \<in> set (b_out (Bench_Cleanup b)) \<Longrightarrow> um_has (b_session_states b) n"
  by (auto simp: Bench_Cleanup_def fold_force_aborts force_aborts_def CooldownDone_def um_has_iff image_iff bench_emit_def split: if_splits) force+

lemma ForceAbort_of_session: "\<not> um_has (c_sessions_by_transaction_id c) sid \<Longrightarrow> ForceAbort sid c = Inr c"
  by (simp add: ForceAbort_def Client_HandleWound_def um_has_def split: option.split)

end
