(* ===== verification/Spec2Isabelle.thy ===== *)
theory Spec2Isabelle
  imports LockTable TransactionStoreInv VersionStore VrFaults ClientSnapshotInv StrongClientProps EndToEnd
    TcpConnections UdpTransportProps Timers VrClientProps WaitDieProps OccStore BufferClient Partitioner LockServer IrSafety IrClientSafety
    LatencyProps LibFiles NetworkConfig SimTransport BenchClientProps
begin

text \<open>
  A model of the repository's strictly serializable key-value store (\<open>src/store/strongstore\<close>),
  of the replication protocol below it (\<open>src/replication/vr\<close>), of the transports that carry
  both (\<open>src/lib\<close>), of the stores, locks and clients kept beside them in
  \<open>src/store/common\<close>, and of the client that drives the experiments. Every function of the code that is modelled is a definition that
  computes; the theorems are about these definitions.

  \<^bold>\<open>How the parts interact.\<close> An application drives a \<^emph>\<open>client\<close> (\<open>strongstore/client.cc\<close>), which
  keeps one \<^emph>\<open>shard client\<close> per shard (\<open>shardclient.cc\<close>). A read-write transaction reads
  under locks, buffers its writes, and commits by two-phase commit: the client picks a
  coordinator shard by network latency, the participants prepare and report to it. The
  \<^emph>\<open>shard server\<close> (\<open>server.cc\<close>) keeps the versions (\<open>versionstore.h\<close>), the transactions
  (\<open>transactionstore.cc\<close>) and the locks (\<open>locktable.cc\<close> on \<open>woundwait.cc\<close>), and makes every
  prepare and commit an operation of its replica group through a \<^emph>\<open>replica client\<close>
  (\<open>replicaclient.cc\<close>). Read-only transactions take a snapshot: shards answer at once with
  what is committed and prepared, and the client (\<open>client.cc\<close>, snapshot part) waits for
  prepared transactions only when it must. The replica group runs \<^emph>\<open>viewstamped
  replication\<close> (\<open>replication/vr\<close>): the VR client sends operations, the leader orders them in
  its log, the application's upcalls execute them. Messages go over TCP or UDP.
  \<^emph>\<open>Inconsistent replication\<close> (\<open>replication/ir\<close>) is kept beside it: its clients propose
  operations to all replicas, which execute them in any order and agree, through the client,
  only on the results of consensus operations; a view change merges the records.

  \<^bold>\<open>Theories and code.\<close>

  \<^item> \<open>Prelude\<close>: 64-bit words (wrapping), the faults of the code (failed \<open>ASSERT\<close>, \<open>Panic\<close>,
    uncaught exception, divergence, undefined behaviour) as the left side of a sum, and the
    hash containers as association lists whose order, which C++ leaves open, is arbitrary.
    \<open>Bytes\<close>: byte buffers, reads beyond the end being undefined.
  \<^item> \<open>Timestamps\<close>, \<open>Transactions\<close> (\<open>store/common\<close>, \<open>preparedtransaction.cc\<close>), \<open>Rss\<close> (\<open>src/rss\<close>).
  \<^item> \<open>VersionStore\<close>: \<open>versionstore.h\<close>; a read at a time returns the newest version not after it.
  \<^item> \<open>WoundWait\<close>, \<open>WoundWaitInv\<close>, \<open>LockSafety\<close>, \<open>LockTable\<close>: the locks of the server, the
    invariant of their queue, exclusion, who is wounded, what a release gives away; the
    table over an interface that the wound-wait locks are an interpretation of.
  \<^item> \<open>TransactionStore\<close>, \<open>TransactionStoreInv\<close>: the state of every pending transaction;
    which read-only transactions wait for which prepared ones and who is woken.
  \<^item> \<open>Server\<close>, \<open>ServerCommit\<close>, \<open>ServerNotify\<close>, \<open>ServerHandlers\<close>: \<open>server.cc\<close>; then
    \<open>ServerFrame\<close> (what each function leaves alone), \<open>ServerSafety\<close> (no prepare behind a
    snapshot, reads of the past stay), \<open>ServerBehaviour\<close> (commits, read-only requests, faults).
  \<^item> \<open>ShardProtocol\<close>, \<open>ShardClient\<close>, \<open>ShardClientInv\<close>, \<open>ReplicaClient\<close>: the messages of
    \<open>strong-proto.proto\<close>, the two clients of a shard; each callback is called once.
  \<^item> \<open>ClientSnapshot\<close>, \<open>ClientSnapshotInv\<close>, \<open>StrongClient\<close>, \<open>StrongClientInv\<close>,
    \<open>StrongClientProps\<close>: \<open>client.cc\<close>: how a snapshot time is chosen and when it may commit,
    sessions, retries, wounds and the lower bound a session's reads obey.
  \<^item> \<open>EndToEnd\<close>: shard client, server and replica composed: what was put is what is read
    after the commit, and a follower installs what its leader installed.
  \<^item> \<open>VrReplica\<close>, \<open>VrLog\<close>, \<open>VrHandlers\<close>: \<open>vr/replica.cc\<close>, \<open>common/log.cc\<close>, \<open>quorumset.h\<close>; then
    \<open>VrReplicaInv\<close>, \<open>VrLogInv\<close>, \<open>VrSafety\<close>, \<open>VrBehaviour\<close>, \<open>VrFaults\<close>: logs are numbered
    without gaps, a replica executes its committed prefix once and in order, quorums count
    distinct voters, requests are executed at most once, and three ways to stop a replica.
    \<open>VrClient\<close>, \<open>VrClientProps\<close>: \<open>vr/client.cc\<close>, and a request that is never answered.
  \<^item> \<open>IrReplica\<close>, \<open>IrReplicaProps\<close>, \<open>IrMergeProps\<close>, \<open>IrSafety\<close>: \<open>ir/record.cc\<close> and
    \<open>ir/replica.cc\<close>: the invariant of the record, what a merge of records keeps, views that
    only grow, and what a restart forgets. \<open>IrClient\<close>, \<open>IrClientSafety\<close>: \<open>ir/client.cc\<close>; an answer
    to a consensus operation is backed by a quorum of replies or of confirmations.
  \<^item> \<open>TcpTransport\<close>, \<open>TcpConnections\<close>, \<open>UdpTransport\<close>, \<open>UdpTransportProps\<close>: what
    \<open>lib/tcptransport.cc\<close> and \<open>lib/udptransport.cc\<close> write to and read from the network, as
    bytes, and their tables of connections and fragments: what is sent is what is
    delivered. \<open>Timers\<close>: the timers of both, one interface with two interpretations, and the
    \<open>Timeout\<close> of \<open>lib/transport.cc\<close> on it. \<open>Configuration\<close>, \<open>TransportCommon\<close>: reading the
    file of replicas, and who receives a broadcast.
  \<^item> \<open>WaitDie\<close>, \<open>WaitDieProps\<close>, \<open>OccStore\<close>: \<open>waitdie.cc\<close> and \<open>occstore.cc\<close>, the alternatives to
    the wound-wait locks. \<open>BufferClient\<close>, \<open>Partitioner\<close>, \<open>LockServer\<close>: the buffering client,
    the placement of keys and the stand-alone lock server of \<open>store/common\<close>.

  \<^item> \<open>NetworkConfig\<close>: \<open>networkconfig.cc\<close>; what the latency of a quorum is. \<open>Latency\<close>,
    \<open>LatencyProps\<close>: \<open>lib/latency.cc\<close>; adding two measurements is measuring both sequences.
    \<open>LibFiles\<close>: strings in streams (\<open>io_utils.cc\<close>), which are read back as written, and the
    register kept in a file. \<open>Measurements\<close>: promises, statistics, tracer and pings of
    \<open>store/common\<close>. \<open>SimTransport\<close>: the transport of the tests, its timers in virtual time, a third
    interpretation of the interface of \<open>Timers\<close>, and why it delivers nothing.
  \<^item> \<open>BenchClient\<close>, \<open>BenchClientProps\<close>: the client of the experiments and its Retwis transactions;
    every session has one thing outstanding, and no look-up of a session fails.

  \<^bold>\<open>State and operations.\<close> An object is a record of its fields, one definition per member
  function returns the updated record, and an outcome is a value or a fault, so that an
  assertion that fails is a result of the model. Pointers shared by several containers are
  explicit where it matters (the waiters of \<open>WaitDie\<close>, the connections of
  \<open>TcpConnections\<close>). Messages sent and callbacks called are appended to a trace in the state,
  in the order of the code; a message is the record of its fields. What comes from outside
  (clock, name resolution, SHA-1, \<open>std::hash\<close>, whether a system call succeeds, which
  callbacks the application gives) is an argument. Reachable states are runs of the
  handlers in any order, folded over lists of operations or by a step relation.

  \<^bold>\<open>Bounds and fuel.\<close> The mutual recursion of \<open>NotifyPendingRWs\<close> and its callers in the server is
  bounded by the number of transactions that may still become ready;
  \<open>NotifyPendingRWs_recursion_ends\<close> shows that the recursion of the code has one solution
  and that the fuel given computes it. \<open>UDP_CancelAllTimers\<close> is a partial function, since it
  may loop for ever, and its result \<open>None\<close> means that it does. All other loops are
  structural or have a measure, but for the loop of the simulated transport (\<open>sim_loop\<close>), which
  ends only when receivers and timers stop sending, and whose theorem is about the runs that end. Where
  a counter of 64 bits would have to wrap, or an object would need more than \<open>2 ^ 63\<close> bytes, the theorem says so in a hypothesis; frames of TCP are
  below the \<open>1073741826\<close> bytes that the receiver asserts.

  \<^bold>\<open>Not modelled.\<close> Creating, binding and polling sockets, the event loop, signals, thread pool
  and logging (input and output only); the interactive transport (\<open>repltransport.cc\<close>), in which
  a user decides what is delivered; the printing of latencies and of memory statistics; the
  vendored hash of \<open>lookup3.cc\<close>; the selector of keys by Zipf's law, a rejection method in
  floating-point numbers; the main programs, which read flags and build the objects. Protobuf
  encoding and JSON parsing are the libraries'. The methods of \<open>TxnStore\<close> only panic;
  \<open>PingTransport\<close> and the classes of \<open>frontend\<close> beside the buffering client are interfaces.
\<close>

end
